(* ===== verification/Prelude.thy ===== *)
theory Prelude
  imports
    Main
    "HOL-Library.AList"
    "HOL-Library.Char_ord"
    "HOL-Library.List_Lexorder"
    "HOL-Library.Monad_Syntax"
    "HOL-Library.State_Monad"
begin

text \<open>
  What every component of the development shares: the collections of lemmas its automation is
  built from, Go's strings, maps, machine integers and times as HOL types, the functions of Go's
  packages \<^verbatim>\<open>strings\<close>, \<^verbatim>\<open>strconv\<close> and \<^verbatim>\<open>maps\<close> the sources call, and the state monad the
  services are written in.

  A Go string is a list of bytes, and so is a HOL \<^typ>\<open>string\<close> (a \<^typ>\<open>char\<close> has 8 bits). A Go
  map is an association list: the lookup is \<^const>\<open>map_of\<close>, and the order of the list is the order
  in which one iteration over the map happens to visit it, which Go leaves open; a theorem about
  every list is a theorem about every order. A \<open>nil\<close> map and an empty one are both the empty list.
  A time is an unbounded number of nanoseconds since Go's zero time, so \<open>IsZero\<close> is \<open>t = 0\<close>.
\<close>

section \<open>Collections of lemmas\<close>

named_theorems go_simps \<open>rewrite rules for the library functions of the model\<close>
named_theorems keeps_intros \<open>introduction rules: a computation keeps a relation between its states\<close>
named_theorems inv_intros \<open>introduction rules: an operation keeps its component's invariant\<close>

section \<open>Names of the model's types\<close>

type_synonym ('k, 'v) gomap = "('k \<times> 'v) list"
type_synonym strmap = "(string, string) gomap"
type_synonym time = int
type_synonym duration = int

abbreviation Second :: duration where
  "Second \<equiv> 1000000000"

abbreviation Minute :: duration where
  "Minute \<equiv> 60 * Second"

abbreviation Hour :: duration where
  "Hour \<equiv> 60 * Minute"

abbreviation MaxInt64 :: int where
  "MaxInt64 \<equiv> 2 ^ 63 - 1"

abbreviation MinInt64 :: int where
  "MinInt64 \<equiv> - (2 ^ 63)"

definition wrap64 :: "int \<Rightarrow> int" where
  "wrap64 x = (x + 2 ^ 63) mod 2 ^ 64 - 2 ^ 63"

lemma wrap64_id [go_simps]: "MinInt64 \<le> x \<Longrightarrow> x \<le> MaxInt64 \<Longrightarrow> wrap64 x = x"
  by (simp add: wrap64_def)

lemma wrap64_range: "MinInt64 \<le> wrap64 x \<and> wrap64 x \<le> MaxInt64"
proof -
  have "0 \<le> (x + 2 ^ 63) mod 2 ^ 64" "(x + 2 ^ 63) mod 2 ^ 64 < (2 ^ 64 :: int)"
    by (rule pos_mod_sign, simp, rule pos_mod_bound, simp)
  then show ?thesis
    by (simp add: wrap64_def)
qed

section \<open>Byte classes\<close>

definition byte_val :: "char \<Rightarrow> nat" where
  "byte_val c = of_char c"

definition is_lower :: "char \<Rightarrow> bool" where
  "is_lower c \<longleftrightarrow> 97 \<le> byte_val c \<and> byte_val c \<le> 122"

definition is_upper :: "char \<Rightarrow> bool" where
  "is_upper c \<longleftrightarrow> 65 \<le> byte_val c \<and> byte_val c \<le> 90"

definition is_digit :: "char \<Rightarrow> bool" where
  "is_digit c \<longleftrightarrow> 48 \<le> byte_val c \<and> byte_val c \<le> 57"

definition is_alnum :: "char \<Rightarrow> bool" where
  "is_alnum c \<longleftrightarrow> is_lower c \<or> is_upper c \<or> is_digit c"

definition is_print :: "char \<Rightarrow> bool" where
  "is_print c \<longleftrightarrow> 33 \<le> byte_val c \<and> byte_val c \<le> 126"

lemmas byte_class_defs = byte_val_def is_lower_def is_upper_def is_digit_def is_alnum_def is_print_def

lemma is_alnum_print: "is_alnum c \<Longrightarrow> is_print c"
  by (auto simp: is_alnum_def is_print_def is_lower_def is_upper_def is_digit_def)

section \<open>Go's \<^verbatim>\<open>strings\<close>\<close>

definition HasPrefix :: "string \<Rightarrow> string \<Rightarrow> bool" where
  "HasPrefix s p \<longleftrightarrow> take (length p) s = p"

definition HasSuffix :: "string \<Rightarrow> string \<Rightarrow> bool" where
  "HasSuffix s p \<longleftrightarrow> HasPrefix (rev s) (rev p)"

definition TrimPrefix :: "string \<Rightarrow> string \<Rightarrow> string" where
  "TrimPrefix s p = (if HasPrefix s p then drop (length p) s else s)"

fun Cut :: "string \<Rightarrow> string \<Rightarrow> (string \<times> string) option" where
  "Cut s sep =
     (if HasPrefix s sep then Some ([], drop (length sep) s)
      else case s of [] \<Rightarrow> None
           | c # cs \<Rightarrow> map_option (\<lambda>(a, b). (c # a, b)) (Cut cs sep))"

declare Cut.simps [simp del]

definition Contains :: "string \<Rightarrow> string \<Rightarrow> bool" where
  "Contains s sub \<longleftrightarrow> Cut s sub \<noteq> None"

definition ContainsAny :: "string \<Rightarrow> string \<Rightarrow> bool" where
  "ContainsAny s chars \<longleftrightarrow> list_ex (\<lambda>c. c \<in> set chars) s"

fun Split :: "char \<Rightarrow> string \<Rightarrow> string list" where
  "Split sep [] = [[]]"
| "Split sep (c # cs) =
     (if c = sep then [] # Split sep cs
      else case Split sep cs of [] \<Rightarrow> [[c]] | w # ws \<Rightarrow> (c # w) # ws)"

fun Join :: "string list \<Rightarrow> string \<Rightarrow> string" where
  "Join [] sep = []"
| "Join [w] sep = w"
| "Join (w # v # ws) sep = w @ sep @ Join (v # ws) sep"

text \<open>
  \<open>unicode.IsSpace\<close> on UTF-8 text: the byte sequences of the 25 white-space code points. Each starts
  with an ASCII byte or with a leading byte, which never occurs inside the encoding of another
  code point, so matching bytes is matching decoded characters.
\<close>

definition space_seqs :: "string list" where
  "space_seqs = [[CHR 0x09], [CHR 0x0A], [CHR 0x0B], [CHR 0x0C], [CHR 0x0D], [CHR 0x20],
     [CHR 0xC2, CHR 0x85], [CHR 0xC2, CHR 0xA0], [CHR 0xE1, CHR 0x9A, CHR 0x80],
     [CHR 0xE2, CHR 0x80, CHR 0x80], [CHR 0xE2, CHR 0x80, CHR 0x81],
     [CHR 0xE2, CHR 0x80, CHR 0x82], [CHR 0xE2, CHR 0x80, CHR 0x83],
     [CHR 0xE2, CHR 0x80, CHR 0x84], [CHR 0xE2, CHR 0x80, CHR 0x85],
     [CHR 0xE2, CHR 0x80, CHR 0x86], [CHR 0xE2, CHR 0x80, CHR 0x87],
     [CHR 0xE2, CHR 0x80, CHR 0x88], [CHR 0xE2, CHR 0x80, CHR 0x89],
     [CHR 0xE2, CHR 0x80, CHR 0x8A], [CHR 0xE2, CHR 0x80, CHR 0xA8],
     [CHR 0xE2, CHR 0x80, CHR 0xA9], [CHR 0xE2, CHR 0x80, CHR 0xAF],
     [CHR 0xE2, CHR 0x81, CHR 0x9F], [CHR 0xE3, CHR 0x80, CHR 0x80]]"

function trim_seqs :: "string list \<Rightarrow> string \<Rightarrow> string" where
  "trim_seqs qs s =
     (case find (\<lambda>q. q \<noteq> [] \<and> HasPrefix s q) qs of
        None \<Rightarrow> s
      | Some q \<Rightarrow> trim_seqs qs (drop (length q) s))"
  by pat_completeness auto
termination
proof (relation "measure (\<lambda>(qs, s). length s)", simp)
  fix qs s q
  assume "find (\<lambda>q. q \<noteq> [] \<and> HasPrefix s q) qs = Some q"
  then have "q \<noteq> []" "take (length q) s = q"
    by (auto simp: find_Some_iff HasPrefix_def)
  then show "((qs, drop (length q) s), qs, s) \<in> measure (\<lambda>(qs, s). length s)"
    by (cases s; cases q) auto
qed

declare trim_seqs.simps [simp del]

definition TrimLeftSpace :: "string \<Rightarrow> string" where
  "TrimLeftSpace s = trim_seqs space_seqs s"

definition TrimRightSpace :: "string \<Rightarrow> string" where
  "TrimRightSpace s = rev (trim_seqs (map rev space_seqs) (rev s))"

definition TrimSpace :: "string \<Rightarrow> string" where
  "TrimSpace s = TrimRightSpace (TrimLeftSpace s)"

definition starts_space :: "string \<Rightarrow> bool" where
  "starts_space s \<longleftrightarrow> list_ex (HasPrefix s) space_seqs"

fun take_word :: "string \<Rightarrow> string" where
  "take_word [] = []"
| "take_word (c # cs) = (if starts_space (c # cs) then [] else c # take_word cs)"

lemma length_trim_seqs: "length (trim_seqs qs s) \<le> length s"
proof (induction qs s rule: trim_seqs.induct)
  case (1 qs s)
  show ?case
    by (subst trim_seqs.simps) (auto split: option.split dest!: "1.IH")
qed

lemma length_TrimLeftSpace: "length (TrimLeftSpace s) \<le> length s"
  by (simp add: TrimLeftSpace_def length_trim_seqs)

function Fields :: "string \<Rightarrow> string list" where
  "Fields s =
     (let t = TrimLeftSpace s; w = take_word t
      in if w = [] then [] else w # Fields (drop (length w) t))"
  by pat_completeness auto
termination
proof (relation "measure length", simp)
  fix s :: string and t w
  assume t: "t = TrimLeftSpace s" and "w = take_word t" "w \<noteq> []"
  then have "t \<noteq> []" "0 < length w"
    by auto
  then have "length (drop (length w) t) < length t"
    by simp
  also have "\<dots> \<le> length s"
    by (simp add: t length_TrimLeftSpace)
  finally show "(drop (length w) t, s) \<in> measure length"
    by simp
qed

declare Fields.simps [simp del]

text \<open>
  \<open>strings.ToUpper\<close>, as far as a comparison of the result with an ASCII word can tell: besides the
  ASCII letters, two code points have an ASCII upper case, U+0131 and U+017F.
\<close>

fun ToUpper :: "string \<Rightarrow> string" where
  "ToUpper [] = []"
| "ToUpper [c] = (if is_lower c then [char_of (byte_val c - 32)] else [c])"
| "ToUpper (c # d # cs) =
     (if is_lower c then char_of (byte_val c - 32) # ToUpper (d # cs)
      else if byte_val c = 196 \<and> byte_val d = 177 then CHR ''I'' # ToUpper cs
      else if byte_val c = 197 \<and> byte_val d = 191 then CHR ''S'' # ToUpper cs
      else c # ToUpper (d # cs))"

section \<open>Go's \<^verbatim>\<open>strconv\<close>\<close>

fun nat_dec :: "nat \<Rightarrow> string" where
  "nat_dec n = (if n < 10 then [char_of (48 + n)] else nat_dec (n div 10) @ [char_of (48 + n mod 10)])"

declare nat_dec.simps [simp del]

definition dec_step :: "nat \<Rightarrow> char \<Rightarrow> nat" where
  "dec_step a c = 10 * a + (byte_val c - 48)"

definition dec_val :: "string \<Rightarrow> nat" where
  "dec_val s = foldl dec_step 0 s"

definition FormatInt :: "int \<Rightarrow> string" where
  "FormatInt n = (if n < 0 then CHR ''-'' # nat_dec (nat (- n)) else nat_dec (nat n))"

text \<open>\<open>strconv.ParseInt(s, 10, 64)\<close>; \<^const>\<open>None\<close> is its error, a syntax error or a value out of range.\<close>

definition ParseInt :: "string \<Rightarrow> int option" where
  "ParseInt s =
     (let (neg, ds) = (case s of
          [] \<Rightarrow> (False, s)
        | c # cs \<Rightarrow> if c = CHR ''-'' then (True, cs) else if c = CHR ''+'' then (False, cs) else (False, s))
      in if ds = [] \<or> \<not> list_all is_digit ds then None
         else let n = (if neg then - int (dec_val ds) else int (dec_val ds))
              in if MinInt64 \<le> n \<and> n \<le> MaxInt64 then Some n else None)"

text \<open>Splitting at a byte and joining with it undo each other.\<close>

lemma Split_nonempty [simp]: "Split c s \<noteq> []"
  by (induction s) (auto split: list.splits)

lemma Split_Join:
  "vs \<noteq> [] \<Longrightarrow> list_all (list_all (\<lambda>c. c \<noteq> sep)) vs \<Longrightarrow> Split sep (Join vs [sep]) = vs"
proof (induction vs "[sep]" rule: Join.induct)
  case (2 w)
  have "list_all (\<lambda>c. c \<noteq> sep) w \<Longrightarrow> Split sep w = [w]"
    by (induction w) auto
  with 2 show ?case by simp
next
  case (3 w v ws)
  have "list_all (\<lambda>c. c \<noteq> sep) w \<Longrightarrow> Split sep (w @ sep # r) = w # Split sep r" for r
    by (induction w) auto
  with 3 show ?case by simp
qed simp

lemma Join_more: "Join ((d # a) # ws) sep = d # Join (a # ws) sep"
  by (cases ws) simp_all

lemma Join_Split: "Join (Split c s) [c] = s"
proof (induction s)
  case (Cons d s)
  then show ?case
    by (cases "Split c s") (auto split: list.splits simp: Join_more)
qed simp

lemma byte_val_char_of [simp]: "n < 256 \<Longrightarrow> byte_val (char_of n) = n"
  by (simp add: byte_val_def)

lemma nat_dec_nonempty [simp]: "nat_dec n \<noteq> []"
  by (subst nat_dec.simps) simp

lemma nat_dec_digits: "list_all is_digit (nat_dec n)"
proof (induction n rule: nat_dec.induct)
  case (1 n)
  have "n mod 10 < 10" by simp
  then have "is_digit (char_of (48 + n mod 10))"
    by (simp add: is_digit_def)
  moreover have "is_digit (char_of (48 + n))" if "n < 10"
    using that by (simp add: is_digit_def)
  ultimately show ?case
    using 1 by (subst nat_dec.simps) simp
qed

lemma dec_val_nat_dec [simp]: "dec_val (nat_dec n) = n"
proof (induction n rule: nat_dec.induct)
  case (1 n)
  show ?case
  proof (cases "n < 10")
    case True
    then show ?thesis
      by (subst nat_dec.simps) (simp add: dec_val_def dec_step_def)
  next
    case False
    have "n mod 10 < 10" by simp
    then have b: "byte_val (char_of (48 + n mod 10)) = 48 + n mod 10" by simp
    from False 1 have "dec_val (nat_dec (n div 10)) = n div 10" by simp
    with False b show ?thesis
      by (subst nat_dec.simps) (simp add: dec_val_def dec_step_def)
  qed
qed

lemma nat_dec_inject: "nat_dec m = nat_dec n \<Longrightarrow> m = n"
  by (metis dec_val_nat_dec)

lemma nat_dec_first:
  obtains c cs where "nat_dec n = c # cs" "is_digit c" "c \<noteq> CHR ''-''" "c \<noteq> CHR ''+''"
proof -
  obtain c cs where c: "nat_dec n = c # cs"
    by (cases "nat_dec n") auto
  with nat_dec_digits [of n] have "is_digit c" by simp
  moreover from this have "c \<noteq> CHR ''-''" "c \<noteq> CHR ''+''"
    by (auto simp: is_digit_def byte_val_def)
  ultimately show ?thesis
    using c that by blast
qed

text \<open>Reading back what \<^const>\<open>FormatInt\<close> prints gives the number, for every 64-bit value.\<close>

lemma ParseInt_FormatInt:
  assumes "MinInt64 \<le> n" "n \<le> MaxInt64"
  shows "ParseInt (FormatInt n) = Some n"
proof (cases "n < 0")
  case True
  then show ?thesis
    using assms nat_dec_digits [of "nat (- n)"] by (simp add: FormatInt_def ParseInt_def)
next
  case False
  obtain c cs where "nat_dec (nat n) = c # cs" "c \<noteq> CHR ''-''" "c \<noteq> CHR ''+''"
    using nat_dec_first [of "nat n"] by metis
  with False show ?thesis
    using assms nat_dec_digits [of "nat n"] dec_val_nat_dec [of "nat n"]
    by (simp add: FormatInt_def ParseInt_def)
qed

lemma FormatInt_bytes: "c \<in> set (FormatInt n) \<Longrightarrow> is_digit c \<or> c = CHR ''-''"
  using nat_dec_digits [of "nat n"] nat_dec_digits [of "nat (- n)"]
  by (auto simp: FormatInt_def list_all_iff split: if_splits)

lemma FormatInt_nonempty [simp]: "FormatInt n \<noteq> []"
  by (simp add: FormatInt_def)

section \<open>Go's maps\<close>

abbreviation keys :: "('k, 'v) gomap \<Rightarrow> 'k list" where
  "keys m \<equiv> map fst m"

definition maps_Copy :: "('k, 'v) gomap \<Rightarrow> ('k, 'v) gomap \<Rightarrow> ('k, 'v) gomap" where
  "maps_Copy dst src = foldl (\<lambda>m (k, v). AList.update k v m) dst src"

definition maps_Equal :: "('k, 'v) gomap \<Rightarrow> ('k, 'v) gomap \<Rightarrow> bool" where
  "maps_Equal a b \<longleftrightarrow> length a = length b \<and> list_all (\<lambda>(k, v). map_of b k = Some v) a"

text \<open>A value that is missing reads as the empty string, Go's zero value.\<close>

definition get_str :: "strmap \<Rightarrow> string \<Rightarrow> string" where
  "get_str m k = (case map_of m k of None \<Rightarrow> [] | Some v \<Rightarrow> v)"

definition wf_map :: "('k, 'v) gomap \<Rightarrow> bool" where
  "wf_map m \<longleftrightarrow> distinct (keys m)"

lemma map_of_alist_update [simp]: "map_of (AList.update k v m) = (map_of m)(k \<mapsto> v)"
  by (rule update_conv')

lemma map_of_alist_delete [simp]: "map_of (AList.delete k m) = (map_of m)(k := None)"
  by (rule delete_conv')

lemma wf_map_Nil [simp]: "wf_map []"
  by (simp add: wf_map_def)

lemma wf_map_update [simp]: "wf_map m \<Longrightarrow> wf_map (AList.update k v m)"
  by (simp add: wf_map_def distinct_update)

lemma wf_map_delete [simp]: "wf_map m \<Longrightarrow> wf_map (AList.delete k m)"
  by (simp add: wf_map_def distinct_delete)

lemma wf_map_filter [simp]: "wf_map m \<Longrightarrow> wf_map (filter P m)"
  by (auto simp: wf_map_def distinct_map inj_on_def)

lemma wf_map_get: "wf_map m \<Longrightarrow> (map_of m k = Some v) = ((k, v) \<in> set m)"
  by (simp add: wf_map_def)

lemma maps_Copy_Nil [simp]: "maps_Copy m [] = m"
  by (simp add: maps_Copy_def)

lemma maps_Copy_Cons: "maps_Copy m ((k, v) # src) = maps_Copy (AList.update k v m) src"
  by (simp add: maps_Copy_def)

lemma wf_maps_Copy [simp]: "wf_map m \<Longrightarrow> wf_map (maps_Copy m src)"
  by (induction src arbitrary: m) (simp_all add: maps_Copy_Cons split_paired_all)

lemma map_of_maps_Copy:
  "wf_map src \<Longrightarrow> map_of (maps_Copy m src) k = (case map_of src k of Some v \<Rightarrow> Some v | None \<Rightarrow> map_of m k)"
proof (induction src arbitrary: m)
  case (Cons x src)
  obtain a b where x: "x = (a, b)" by (cases x)
  from Cons.prems x have "wf_map src" "a \<notin> fst ` set src"
    by (auto simp: wf_map_def)
  then show ?case
    using Cons.IH x by (cases "k = a") (simp_all add: maps_Copy_Cons map_of_eq_None_iff [THEN iffD2] split: option.split)
qed simp

lemma keys_maps_Copy: "fst ` set (maps_Copy m src) = fst ` set m \<union> fst ` set src"
proof (induction src arbitrary: m)
  case (Cons x src)
  show ?case
    by (cases x) (simp add: maps_Copy_Cons Cons.IH dom_update)
qed simp

lemma map_of_filter_key: "map_of (filter (\<lambda>(a, b). P a) m) k = (if P k then map_of m k else None)"
  by (induction m) auto

lemma maps_Equal_iff:
  assumes "wf_map a" "wf_map b"
  shows "maps_Equal a b \<longleftrightarrow> map_of a = map_of b"
proof
  assume eq: "maps_Equal a b"
  then have "set a \<subseteq> set b"
    using assms by (auto simp: maps_Equal_def list_all_iff wf_map_get)
  moreover have "card (set a) = card (set b)"
    using eq assms by (simp add: maps_Equal_def wf_map_def distinct_map distinct_card)
  ultimately have "set a = set b"
    by (simp add: card_subset_eq)
  then show "map_of a = map_of b"
    using assms by (auto simp: wf_map_def intro: map_of_inject_set [THEN iffD2])
next
  assume "map_of a = map_of b"
  then have "set a = set b"
    using assms by (simp add: wf_map_def map_of_inject_set)
  moreover from this have "length a = length b"
    using assms by (metis distinct_card distinct_map wf_map_def)
  ultimately show "maps_Equal a b"
    using assms by (auto simp: maps_Equal_def list_all_iff wf_map_get)
qed

section \<open>Stateful computations\<close>

text \<open>
  A Go method that changes state is a computation of the state monad, and an error return is an
  \<^const>\<open>Inl\<close> in its result. \<open>keeps R m\<close> says that every run of \<open>m\<close> relates the state before
  to the state after; the rules below follow the shape of a definition, so a proof that an operation
  keeps \<open>R\<close> is a proof about the primitive operations it calls.
\<close>

abbreviation ret :: "'a \<Rightarrow> ('s, 'a) state" where
  "ret \<equiv> State_Monad.return"

definition keeps :: "('s \<Rightarrow> 's \<Rightarrow> bool) \<Rightarrow> ('s, 'a) state \<Rightarrow> bool" where
  "keeps R m \<longleftrightarrow> (\<forall>s. R s (snd (run_state m s)))"

lemma keepsI: "(\<And>s a s'. run_state m s = (a, s') \<Longrightarrow> R s s') \<Longrightarrow> keeps R m"
  by (metis keeps_def prod.collapse)

lemma keepsD: "keeps R m \<Longrightarrow> run_state m s = (a, s') \<Longrightarrow> R s s'"
  by (metis keeps_def snd_conv)

lemma keeps_return [keeps_intros]: "reflp R \<Longrightarrow> keeps R (ret x)"
  by (simp add: keeps_def reflpD)

lemma keeps_bind [keeps_intros]:
  assumes "transp R" "keeps R m" "\<And>x. keeps R (f x)"
  shows "keeps R (State_Monad.bind m f)"
proof (rule keepsI)
  fix s a s'
  assume "run_state (State_Monad.bind m f) s = (a, s')"
  then obtain x t where "run_state m s = (x, t)" "run_state (f x) t = (a, s')"
    by (auto split: prod.splits)
  then show "R s s'"
    using assms by (metis keepsD transpD)
qed

lemma keeps_if [keeps_intros]: "(b \<Longrightarrow> keeps R m) \<Longrightarrow> (\<not> b \<Longrightarrow> keeps R n) \<Longrightarrow> keeps R (if b then m else n)"
  by simp

lemma keeps_case_sum [keeps_intros]:
  "(\<And>e. x = Inl e \<Longrightarrow> keeps R (f e)) \<Longrightarrow> (\<And>y. x = Inr y \<Longrightarrow> keeps R (g y)) \<Longrightarrow> keeps R (case_sum f g x)"
  by (cases x) auto

lemma keeps_case_option [keeps_intros]:
  "(x = None \<Longrightarrow> keeps R m) \<Longrightarrow> (\<And>y. x = Some y \<Longrightarrow> keeps R (g y)) \<Longrightarrow> keeps R (case_option m g x)"
  by (cases x) auto

lemma keeps_case_prod [keeps_intros]: "(\<And>a b. x = (a, b) \<Longrightarrow> keeps R (f a b)) \<Longrightarrow> keeps R (case_prod f x)"
  by (cases x) auto

lemma keeps_Let [keeps_intros]: "(\<And>x. x = e \<Longrightarrow> keeps R (f x)) \<Longrightarrow> keeps R (Let e f)"
  by simp

end
