(* ===== verification/Errors.thy ===== *)
theory Errors
  imports Prelude
begin

text \<open>
  The errors of \<^verbatim>\<open>controlplane\<close> and \<^verbatim>\<open>driver\<close>. A sentinel (\<open>errors.New\<close>) is a constructor of
  \<open>sentinel\<close>; \<open>fmt.Errorf\<close> with \<open>%w\<close> verbs is \<open>Errorf\<close> with the errors it wraps; the driver package's
  own \<open>Error\<close> type is \<open>DriverError\<close>. \<open>errors_Is\<close> follows the wrapped errors as \<open>errors.Is\<close> does.
  A formatted message keeps the fixed words of its format, not the values interpolated into it: no
  code reads them back. \<open>Error\<close> is the text of an error.
\<close>

section \<open>Sentinels and wrapped errors\<close>

datatype sentinel =
    ErrNotFound | ErrExists | ErrInvalid | ErrInvalidTransition | ErrVersionMismatch
  | ErrIdempotencyInFlight | ErrIdempotencyMismatch | ErrUnavailable | ErrForbidden
  | ErrApprovalRequired | ErrQuotaExceeded
  | ErrPreconditionFailed | ErrDenied | ErrNotOwner | ErrOwnershipLost | ErrEndedByGuard
  | errStale | errUnchanged | errClaimed
  | DriverUnsupported | DriverNotFound | DriverExists | DriverConflict | DriverInvalid
  | DriverUnavailable | DriverVersion | DriverInternal | ErrOutputLimit
  | DeadlineExceeded | Canceled
  | OtherError string

datatype gerror =
    Sentinel sentinel
  | Errorf "gerror list" string
  | Joined "gerror list"
  | DriverError sentinel string

text \<open>
  \<open>errClaimed\<close> (sessions.go) is itself \<open>fmt.Errorf("%w: ...", ErrVersionMismatch)\<close>, so it also
  matches what it wraps.
\<close>

definition sentinel_is :: "sentinel \<Rightarrow> sentinel \<Rightarrow> bool" where
  "sentinel_is s t \<longleftrightarrow> s = t \<or> (s = errClaimed \<and> t = ErrVersionMismatch)"

fun errors_Is :: "gerror \<Rightarrow> sentinel \<Rightarrow> bool" where
  "errors_Is (Sentinel s) t = sentinel_is s t"
| "errors_Is (Errorf es d) t = list_ex (\<lambda>e. errors_Is e t) es"
| "errors_Is (Joined es) t = list_ex (\<lambda>e. errors_Is e t) es"
| "errors_Is (DriverError k m) t = sentinel_is k t"

definition errors_Join :: "gerror list \<Rightarrow> gerror option" where
  "errors_Join es = (if es = [] then None else Some (Joined es))"

fun sentinel_text :: "sentinel \<Rightarrow> string" where
  "sentinel_text ErrNotFound = ''not found''"
| "sentinel_text ErrExists = ''already exists''"
| "sentinel_text ErrInvalid = ''invalid''"
| "sentinel_text ErrInvalidTransition = ''invalid state transition''"
| "sentinel_text ErrVersionMismatch = ''resource version mismatch''"
| "sentinel_text ErrIdempotencyInFlight = ''a request with this idempotency key is in progress''"
| "sentinel_text ErrIdempotencyMismatch = ''idempotency key reused with a different request''"
| "sentinel_text ErrUnavailable = ''unavailable''"
| "sentinel_text ErrForbidden = ''forbidden''"
| "sentinel_text ErrApprovalRequired = ''approval required''"
| "sentinel_text ErrQuotaExceeded = ''quota exceeded''"
| "sentinel_text ErrPreconditionFailed = ''precondition failed''"
| "sentinel_text ErrDenied = ''denied by admission''"
| "sentinel_text ErrNotOwner = ''another replica owns this sandbox''"
| "sentinel_text ErrOwnershipLost = ''ownership lost''"
| "sentinel_text ErrEndedByGuard = ''ended by the guard''"
| "sentinel_text errStale = ''sandbox changed during reconcile''"
| "sentinel_text errUnchanged = ''nothing to change''"
| "sentinel_text errClaimed = ''resource version mismatch: claimed by another session''"
| "sentinel_text DriverUnsupported = ''unsupported''"
| "sentinel_text DriverNotFound = ''not_found''"
| "sentinel_text DriverExists = ''exists''"
| "sentinel_text DriverConflict = ''conflict''"
| "sentinel_text DriverInvalid = ''invalid''"
| "sentinel_text DriverUnavailable = ''unavailable''"
| "sentinel_text DriverVersion = ''version''"
| "sentinel_text DriverInternal = ''internal''"
| "sentinel_text ErrOutputLimit = ''output limit reached''"
| "sentinel_text DeadlineExceeded = ''context deadline exceeded''"
| "sentinel_text Canceled = ''context canceled''"
| "sentinel_text (OtherError m) = m"

fun Error :: "gerror \<Rightarrow> string" where
  "Error (Sentinel s) = sentinel_text s"
| "Error (Errorf es d) = Join (map Error es @ (if d = [] then [] else [d])) '': ''"
| "Error (Joined es) = Join (map Error es) [CHR 0x0A]"
| "Error (DriverError k m) = m"

section \<open>Codes\<close>

definition known_codes :: "sentinel list" where
  "known_codes = [DriverUnsupported, DriverNotFound, DriverExists, DriverConflict, DriverInvalid,
     DriverUnavailable, DriverVersion, DriverInternal]"

definition Code :: "gerror \<Rightarrow> string" where
  "Code e = (case find (errors_Is e) known_codes of
       Some c \<Rightarrow> sentinel_text c | None \<Rightarrow> sentinel_text DriverInternal)"

definition KindOf :: "string \<Rightarrow> sentinel" where
  "KindOf code = (case find (\<lambda>c. sentinel_text c = code) known_codes of
       Some c \<Rightarrow> c | None \<Rightarrow> DriverInternal)"

definition ErrorCode :: "gerror option \<Rightarrow> string" where
  "ErrorCode err = (case err of None \<Rightarrow> '''' | Some e \<Rightarrow>
     (if errors_Is e ErrDenied then ''forbidden''
      else if errors_Is e ErrNotFound \<or> errors_Is e DriverNotFound then ''not_found''
      else if errors_Is e ErrApprovalRequired then ''approval_required''
      else if errors_Is e ErrQuotaExceeded then ''quota_exceeded''
      else if errors_Is e ErrForbidden then ''forbidden''
      else if errors_Is e ErrPreconditionFailed then ''precondition_failed''
      else if errors_Is e ErrInvalidTransition \<or> errors_Is e ErrExists \<or> errors_Is e ErrVersionMismatch
              \<or> errors_Is e ErrIdempotencyInFlight \<or> errors_Is e DriverConflict \<or> errors_Is e DriverExists
           then ''conflict''
      else if errors_Is e ErrInvalid \<or> errors_Is e ErrIdempotencyMismatch \<or> errors_Is e DriverInvalid
              \<or> errors_Is e ErrOutputLimit
           then ''invalid''
      else if errors_Is e DriverUnsupported then ''unsupported''
      else if errors_Is e ErrUnavailable \<or> errors_Is e DriverUnavailable \<or> errors_Is e DeadlineExceeded
           then ''unavailable''
      else if errors_Is e ErrEndedByGuard then ''forbidden''
      else ''internal''))"

definition store_known :: "sentinel list" where
  "store_known = [ErrNotFound, ErrExists, ErrInvalid, ErrVersionMismatch, ErrPreconditionFailed,
     ErrInvalidTransition, ErrUnavailable, ErrDenied]"

definition storeErr :: "gerror \<Rightarrow> gerror" where
  "storeErr e = (if list_ex (errors_Is e) store_known then e
     else Errorf [Sentinel ErrUnavailable, e] ''the store failed'')"

definition guard_known :: "sentinel list" where
  "guard_known = [ErrForbidden, ErrApprovalRequired, ErrQuotaExceeded, ErrInvalid, ErrNotFound,
     ErrUnavailable, ErrInvalidTransition]"

definition guardErr :: "gerror \<Rightarrow> gerror" where
  "guardErr e = (if list_ex (errors_Is e) guard_known then e
     else Errorf [Sentinel ErrUnavailable, e] ''the guard could not decide'')"

section \<open>Lemmas\<close>

lemma sentinel_is_refl [simp]: "sentinel_is s s"
  by (simp add: sentinel_is_def)

lemma storeErr_keeps: "errors_Is e s \<Longrightarrow> errors_Is (storeErr e) s"
  by (simp add: storeErr_def)

lemma storeErr_known: "list_ex (errors_Is (storeErr e)) store_known"
  by (simp add: storeErr_def store_known_def)

lemma guardErr_known: "list_ex (errors_Is (guardErr e)) guard_known"
  by (simp add: guardErr_def guard_known_def)

lemma ErrorCode_storeErr: "ErrorCode (Some (storeErr e)) \<noteq> ''internal''"
  using storeErr_known [of e] by (simp add: ErrorCode_def store_known_def) auto

lemma ErrorCode_guardErr: "ErrorCode (Some (guardErr e)) \<noteq> ''internal''"
  using guardErr_known [of e] by (auto simp: ErrorCode_def guard_known_def)

lemma KindOf_text: "k \<in> set known_codes \<Longrightarrow> KindOf (sentinel_text k) = k"
  unfolding known_codes_def by (simp only: list.set insert_iff empty_iff) (elim disjE; simp add: known_codes_def KindOf_def)

lemma Code_DriverError: "k \<in> set known_codes \<Longrightarrow> Code (DriverError k m) = sentinel_text k"
  by (auto simp: known_codes_def Code_def sentinel_is_def)

text \<open>
  A driver's error survives the wire. The code \<open>driver.Code\<close> puts on the wire for an error of
  any of the eight kinds is read back by \<open>driver.KindOf\<close> as that kind, and any other error reads
  back as internal.
\<close>

theorem wire_code_roundtrip:
  "(k \<in> set known_codes \<longrightarrow> KindOf (Code (DriverError k m)) = k) \<and>
   (\<not> list_ex (errors_Is e) known_codes \<longrightarrow> KindOf (Code e) = DriverInternal)"
proof (intro conjI impI)
  assume "k \<in> set known_codes"
  then show "KindOf (Code (DriverError k m)) = k"
    by (simp add: Code_DriverError KindOf_text)
next
  assume "\<not> list_ex (errors_Is e) known_codes"
  then have "find (errors_Is e) known_codes = None"
    by (simp add: find_None_iff list_ex_iff)
  then have "Code e = sentinel_text DriverInternal"
    by (simp add: Code_def)
  moreover have "DriverInternal \<in> set known_codes"
    by (simp add: known_codes_def)
  ultimately show "KindOf (Code e) = DriverInternal"
    by (metis KindOf_text)
qed

theorem wire_code_roundtrip_witness:
  "KindOf (Code (DriverError DriverConflict ''busy'')) = DriverConflict \<and>
   KindOf (Code (Sentinel ErrDenied)) = DriverInternal"
  using wire_code_roundtrip [of DriverConflict "''busy''" "Sentinel ErrDenied"]
  by (simp add: known_codes_def sentinel_is_def)

end
