(* ===== verification/Lifecycle.thy ===== *)
theory Lifecycle
  imports Errors
begin

text \<open>
  The sandbox object and its lifecycle: \<^verbatim>\<open>controlplane/state.go\<close>, \<^verbatim>\<open>sandbox.go\<close> and \<^verbatim>\<open>restart.go\<close>.
  A \<open>State\<close> is a Go string; the eight constants are constructors and any other string is
  \<open>StateOther\<close>, which no transition mentions. Generations, restart counts and resource versions are
  unbounded integers here: a counter would need \<open>2 ^ 63\<close> writes to wrap.
\<close>

section \<open>States and transitions\<close>

datatype State =
    StateProvisioning | StateReady | StateStopping | StateStopped
  | StateStarting | StateCompleted | StateError | StateDeleting
  | StateOther string

definition States :: "State list" where
  "States = [StateProvisioning, StateReady, StateStopping, StateStopped, StateStarting,
     StateCompleted, StateError, StateDeleting]"

fun state_text :: "State \<Rightarrow> string" where
  "state_text StateProvisioning = ''Provisioning''"
| "state_text StateReady = ''Ready''"
| "state_text StateStopping = ''Stopping''"
| "state_text StateStopped = ''Stopped''"
| "state_text StateStarting = ''Starting''"
| "state_text StateCompleted = ''Completed''"
| "state_text StateError = ''Error''"
| "state_text StateDeleting = ''Deleting''"
| "state_text (StateOther s) = s"

fun transitions :: "State \<Rightarrow> State list option" where
  "transitions StateProvisioning = Some [StateReady, StateError, StateDeleting]"
| "transitions StateReady = Some [StateStopping, StateCompleted, StateError, StateDeleting]"
| "transitions StateStopping = Some [StateStopped, StateError, StateDeleting]"
| "transitions StateStopped = Some [StateStarting, StateDeleting]"
| "transitions StateStarting = Some [StateReady, StateError, StateDeleting]"
| "transitions StateCompleted = Some [StateStarting, StateDeleting]"
| "transitions StateError = Some [StateStarting, StateDeleting]"
| "transitions StateDeleting = Some []"
| "transitions (StateOther s) = None"

definition State_Valid :: "State \<Rightarrow> bool" where
  "State_Valid s \<longleftrightarrow> transitions s \<noteq> None"

definition CanTransition :: "State \<Rightarrow> State \<Rightarrow> bool" where
  "CanTransition from to = (case transitions from of None \<Rightarrow> False | Some ts \<Rightarrow> list_ex (\<lambda>t. t = to) ts)"

definition AcceptsWork :: "State \<Rightarrow> bool" where
  "AcceptsWork s \<longleftrightarrow> s = StateReady"

definition CanRestore :: "State \<Rightarrow> bool" where
  "CanRestore s \<longleftrightarrow> s = StateStopped \<or> s = StateCompleted \<or> s = StateError"

section \<open>The sandbox object\<close>

datatype ConditionStatus = ConditionTrue | ConditionFalse | ConditionUnknown | StatusOther string

record Condition =
  cond_Type :: string
  cond_Status :: ConditionStatus
  cond_Reason :: string
  cond_Message :: string
  ObservedGeneration :: int
  LastTransition :: time

record Sandbox =
  ID :: string
  Generation :: int
  ResourceVersion :: int
  Template :: string
  PolicyRev :: string
  sb_Driver :: string
  sb_State :: State
  Conditions :: "Condition list"
  sb_Labels :: strmap
  Owner :: string
  sb_Tier :: string
  sb_Settings :: strmap
  Restarts :: int
  NextRestart :: "time option"
  CreatedAt :: time
  UpdatedAt :: time

abbreviation CondDriverReady :: string where
  "CondDriverReady \<equiv> ''DriverReady''"

abbreviation CondIsolationVerified :: string where
  "CondIsolationVerified \<equiv> ''IsolationVerified''"

abbreviation CondDeleteFailed :: string where
  "CondDeleteFailed \<equiv> ''DeleteFailed''"

abbreviation CondRestartScheduled :: string where
  "CondRestartScheduled \<equiv> ''RestartScheduled''"

definition Transition :: "State \<Rightarrow> time \<Rightarrow> Sandbox \<Rightarrow> gerror + Sandbox" where
  "Transition to now s =
     (if \<not> CanTransition (sb_State s) to then Inl (Errorf [Sentinel ErrInvalidTransition] ''to'')
      else let s1 = (if to = StateStarting then s\<lparr>Generation := Generation s + 1\<rparr> else s)
           in Inr (s1\<lparr>sb_State := to, UpdatedAt := now\<rparr>))"

definition Sandbox_Restore :: "time \<Rightarrow> Sandbox \<Rightarrow> gerror + Sandbox" where
  "Sandbox_Restore now s =
     (if \<not> CanRestore (sb_State s)
      then Inl (Errorf [Sentinel ErrInvalidTransition] ''a sandbox cannot be restored; stop it first'')
      else Transition StateStarting now s)"

definition Sandbox_Condition :: "Sandbox \<Rightarrow> string \<Rightarrow> Condition option" where
  "Sandbox_Condition s t = find (\<lambda>c. cond_Type c = t) (Conditions s)"

text \<open>The loop of \<open>SetCondition\<close>: \<^const>\<open>None\<close> when no condition has the type.\<close>

fun replace_condition :: "Condition \<Rightarrow> time \<Rightarrow> Condition list \<Rightarrow> Condition list option" where
  "replace_condition c now [] = None"
| "replace_condition c now (old # cs) =
     (if cond_Type old \<noteq> cond_Type c then map_option (Cons old) (replace_condition c now cs)
      else Some (c\<lparr>LastTransition :=
             (if cond_Status old \<noteq> cond_Status c then now else LastTransition old)\<rparr> # cs))"

definition SetCondition :: "Condition \<Rightarrow> time \<Rightarrow> Sandbox \<Rightarrow> gerror + Sandbox" where
  "SetCondition c now s =
     (if cond_Type c = '''' then Inl (Errorf [Sentinel ErrInvalid] ''condition without a type'')
      else if cond_Status c \<notin> {ConditionTrue, ConditionFalse, ConditionUnknown}
      then Inl (Errorf [Sentinel ErrInvalid] ''condition status'')
      else let c1 = (if ObservedGeneration c = 0 then c\<lparr>ObservedGeneration := Generation s\<rparr> else c)
           in case replace_condition c1 now (Conditions s) of
                Some cs \<Rightarrow> Inr (s\<lparr>Conditions := cs\<rparr>)
              | None \<Rightarrow> Inr (s\<lparr>Conditions := Conditions s @ [c1\<lparr>LastTransition := now\<rparr>]\<rparr>))"

definition mk_condition :: "string \<Rightarrow> ConditionStatus \<Rightarrow> string \<Rightarrow> string \<Rightarrow> Condition" where
  "mk_condition t st reason msg = \<lparr>cond_Type = t, cond_Status = st, cond_Reason = reason,
     cond_Message = msg, ObservedGeneration = 0, LastTransition = 0\<rparr>"

definition validTemplate :: "string \<Rightarrow> gerror option" where
  "validTemplate t =
     (if t = '''' then Some (Errorf [Sentinel ErrInvalid] ''a sandbox needs a template'')
      else if length t > 253 then Some (Errorf [Sentinel ErrInvalid] ''a template name is at most 253 characters'')
      else if \<not> list_all is_print t then Some (Errorf [Sentinel ErrInvalid] ''template name'')
      else None)"

definition SetTemplate :: "string \<Rightarrow> Sandbox \<Rightarrow> gerror + Sandbox" where
  "SetTemplate t s =
     (case validTemplate t of Some e \<Rightarrow> Inl e
      | None \<Rightarrow> if t \<noteq> Template s then Inr (s\<lparr>Template := t, Generation := Generation s + 1\<rparr>) else Inr s)"

section \<open>Identifiers\<close>

definition idPrefix :: string where
  "idPrefix = ''sbx_''"

definition hex_digit :: "nat \<Rightarrow> char" where
  "hex_digit n = (if n < 10 then char_of (48 + n) else char_of (87 + n))"

definition hex_encode :: "char list \<Rightarrow> string" where
  "hex_encode bs = concat (map (\<lambda>b. [hex_digit (byte_val b div 16), hex_digit (byte_val b mod 16)]) bs)"

text \<open>
  \<open>NewID\<close> draws eight bytes from \<open>crypto/rand\<close>; the draw, which may fail, is its argument.
\<close>

definition NewID :: "gerror + char list \<Rightarrow> gerror + string" where
  "NewID rand8 = (case rand8 of Inl e \<Rightarrow> Inl e | Inr b \<Rightarrow> Inr (idPrefix @ hex_encode b))"

definition is_hex :: "char \<Rightarrow> bool" where
  "is_hex c \<longleftrightarrow> is_digit c \<or> (97 \<le> byte_val c \<and> byte_val c \<le> 102)"

definition ValidID :: "string \<Rightarrow> bool" where
  "ValidID i \<longleftrightarrow> length i = length idPrefix + 16 \<and> take (length idPrefix) i = idPrefix \<and>
     list_all is_hex (drop (length idPrefix) i)"

section \<open>Restart policy\<close>

abbreviation MaxBackoff :: duration where
  "MaxBackoff \<equiv> Hour"

abbreviation StableAfter :: duration where
  "StableAfter \<equiv> 10 * Minute"

abbreviation RestartNever :: string where
  "RestartNever \<equiv> ''never''"

abbreviation RestartOnFailure :: string where
  "RestartOnFailure \<equiv> ''on-failure''"

abbreviation RestartAlways :: string where
  "RestartAlways \<equiv> ''always''"

definition RestartDue :: "string \<Rightarrow> State \<Rightarrow> bool" where
  "RestartDue policy state =
     (if policy = RestartAlways then state = StateError \<or> state = StateCompleted
      else if policy = RestartOnFailure then state = StateError
      else False)"

text \<open>
  The loop \<open>for range n\<close> runs \<open>n\<close> times, not at all when \<open>n\<close> is negative; the doubling is the 64-bit
  multiplication of \<open>time.Duration\<close>.
\<close>

fun backoff_loop :: "nat \<Rightarrow> duration \<Rightarrow> duration" where
  "backoff_loop 0 d = min d MaxBackoff"
| "backoff_loop (Suc n) d =
     (if d \<ge> MaxBackoff div 2 then MaxBackoff else backoff_loop n (wrap64 (d * 2)))"

definition Backoff :: "duration \<Rightarrow> int \<Rightarrow> duration" where
  "Backoff base n = backoff_loop (nat n) (if base \<le> 0 then Second else base)"

section \<open>Lemmas on the lifecycle\<close>

lemma Transition_Inr:
  "Transition to now s = Inr s' \<longleftrightarrow> CanTransition (sb_State s) to \<and>
     s' = s\<lparr>Generation := Generation s + (if to = StateStarting then 1 else 0),
             sb_State := to, UpdatedAt := now\<rparr>"
  by (auto simp: Transition_def Let_def)

lemma Transition_Inl:
  "Transition to now s = Inl e \<longleftrightarrow>
     \<not> CanTransition (sb_State s) to \<and> e = Errorf [Sentinel ErrInvalidTransition] ''to''"
  by (auto simp: Transition_def Let_def)

lemma CanTransition_Valid: "CanTransition from to \<Longrightarrow> State_Valid from \<and> State_Valid to"
  by (cases "from") (auto simp: CanTransition_def State_Valid_def)

lemma CanTransition_Deleting [simp]: "\<not> CanTransition StateDeleting to"
  by (simp add: CanTransition_def)

lemma CanTransition_to_Ready: "CanTransition from StateReady \<longleftrightarrow> from = StateProvisioning \<or> from = StateStarting"
  by (cases "from") (auto simp: CanTransition_def)

lemma CanTransition_to_Provisioning [simp]: "\<not> CanTransition from StateProvisioning"
  by (cases "from") (auto simp: CanTransition_def)

lemma CanTransition_to_Starting: "CanTransition from StateStarting \<longleftrightarrow> CanRestore from"
  by (cases "from") (auto simp: CanTransition_def CanRestore_def)

text \<open>
  A history of a sandbox: the states it moved to, in order, each move made by \<^const>\<open>Transition\<close>.
\<close>

inductive moves :: "Sandbox \<Rightarrow> State list \<Rightarrow> Sandbox \<Rightarrow> bool" where
  here: "moves s [] s"
| move: "moves s tr t \<Longrightarrow> Transition to now t = Inr u \<Longrightarrow> moves s (tr @ [to]) u"

inductive_cases moves_NilE [elim!]: "moves s [] t"

lemma moves_generation: "moves s tr t \<Longrightarrow> Generation t = Generation s + int (count_list tr StateStarting)"
  by (induction rule: moves.induct) (auto simp: Transition_Inr)

lemma moves_frame:
  "moves s tr t \<Longrightarrow> ID t = ID s \<and> Owner t = Owner s \<and> sb_Driver t = sb_Driver s \<and> CreatedAt t = CreatedAt s"
  by (induction rule: moves.induct) (auto simp: Transition_Inr)

lemma moves_Deleting: "moves s tr t \<Longrightarrow> sb_State s = StateDeleting \<Longrightarrow> tr = []"
  by (induction rule: moves.induct) (auto simp: Transition_Inr)

text \<open>Once a sandbox has left Ready it is in a state that ended, until a new incarnation starts.\<close>

definition ended :: "State \<Rightarrow> bool" where
  "ended st \<longleftrightarrow> st \<in> {StateStopping, StateStopped, StateCompleted, StateError, StateDeleting}"

lemma leaves_Ready: "CanTransition StateReady to \<Longrightarrow> ended to"
  by (auto simp: CanTransition_def ended_def)

lemma ended_step: "ended st \<Longrightarrow> CanTransition st to \<Longrightarrow> ended to \<or> to = StateStarting"
  by (auto simp: CanTransition_def ended_def)

lemma moves_from_Ready:
  assumes "moves s tr t" "sb_State s = StateReady" "tr \<noteq> []"
  shows "Generation s < Generation t \<or> (Generation t = Generation s \<and> ended (sb_State t))"
  using assms
proof (induction rule: moves.induct)
  case (move s tr t to now u)
  show ?case
  proof (cases "tr = []")
    case True
    with move show ?thesis
      by (auto simp: Transition_Inr dest: leaves_Ready)
  next
    case False
    with move show ?thesis
      by (auto simp: Transition_Inr dest: ended_step)
  qed
qed simp

text \<open>
  Along every history of legal moves the generation goes up by exactly the number of starts and
  never down, what a sandbox is (id, owner, driver, creation time) does not change, a sandbox that
  is being deleted never moves again, and one that is Ready twice is Ready in two different
  generations, so nothing bound to a generation outlives its instance.
\<close>

theorem lifecycle_generations:
  assumes "moves s tr t"
  shows "Generation t = Generation s + int (count_list tr StateStarting) \<and>
    ID t = ID s \<and> Owner t = Owner s \<and> sb_Driver t = sb_Driver s \<and> CreatedAt t = CreatedAt s \<and>
    (sb_State s = StateDeleting \<longrightarrow> tr = []) \<and>
    (sb_State s = StateReady \<and> sb_State t = StateReady \<and> tr \<noteq> [] \<longrightarrow> Generation s < Generation t)"
  using moves_generation [OF assms] moves_frame [OF assms] moves_Deleting [OF assms] moves_from_Ready [OF assms]
  by (auto simp: ended_def)

definition sample_sandbox :: Sandbox where
  "sample_sandbox = \<lparr>ID = ''sbx_0123456789abcdef'', Generation = 1, ResourceVersion = 0, Template = ''base'',
     PolicyRev = '''', sb_Driver = ''process'', sb_State = StateReady, Conditions = [], sb_Labels = [],
     Owner = ''ana'', sb_Tier = '''', sb_Settings = [], Restarts = 0, NextRestart = None,
     CreatedAt = 5, UpdatedAt = 5\<rparr>"

theorem lifecycle_generations_witness:
  "\<exists>t. moves sample_sandbox [StateCompleted, StateStarting, StateReady] t \<and> Generation sample_sandbox < Generation t"
proof -
  let ?a = "sample_sandbox\<lparr>sb_State := StateCompleted, UpdatedAt := 6\<rparr>"
  let ?b = "sample_sandbox\<lparr>Generation := 2, sb_State := StateStarting, UpdatedAt := 7\<rparr>"
  let ?c = "sample_sandbox\<lparr>Generation := 2, sb_State := StateReady, UpdatedAt := 8\<rparr>"
  have "moves sample_sandbox ([] @ [StateCompleted]) ?a"
    by (rule moves.move [OF moves.here, where now = 6])
       (simp add: Transition_Inr CanTransition_def sample_sandbox_def)
  then have "moves sample_sandbox (([] @ [StateCompleted]) @ [StateStarting]) ?b"
    by (rule moves.move [where now = 7]) (simp add: Transition_Inr CanTransition_def sample_sandbox_def)
  then have m: "moves sample_sandbox ((([] @ [StateCompleted]) @ [StateStarting]) @ [StateReady]) ?c"
    by (rule moves.move [where now = 8]) (simp add: Transition_Inr CanTransition_def sample_sandbox_def)
  from lifecycle_generations [OF m] m show ?thesis
    by (intro exI [of _ ?c]) (simp add: sample_sandbox_def)
qed

section \<open>Lemmas on conditions\<close>

lemma replace_condition_None: "replace_condition c now cs = None \<longleftrightarrow> cond_Type c \<notin> set (map cond_Type cs)"
  by (induction cs) auto

lemma replace_condition_types: "replace_condition c now cs = Some ds \<Longrightarrow> map cond_Type ds = map cond_Type cs"
  by (induction cs arbitrary: ds) (auto split: if_splits)

lemma replace_condition_find:
  "replace_condition c now cs = Some ds \<Longrightarrow> find (\<lambda>d. cond_Type d = t) ds =
      (if t = cond_Type c
       then map_option (\<lambda>old. c\<lparr>LastTransition := (if cond_Status old \<noteq> cond_Status c then now else LastTransition old)\<rparr>)
              (find (\<lambda>d. cond_Type d = t) cs)
       else find (\<lambda>d. cond_Type d = t) cs)"
  by (induction cs arbitrary: ds) (auto split: if_splits)

lemma find_snoc: "find P (xs @ [x]) = (case find P xs of None \<Rightarrow> if P x then Some x else None | Some y \<Rightarrow> Some y)"
  by (induction xs) auto

lemma find_type_None: "find (\<lambda>d. cond_Type d = t) cs = None \<longleftrightarrow> t \<notin> set (map cond_Type cs)"
  by (auto simp: find_None_iff)

text \<open>What \<open>SetCondition\<close> stores: the condition stamped with its generation and last transition.\<close>

definition stamped :: "Condition \<Rightarrow> time \<Rightarrow> Sandbox \<Rightarrow> Condition" where
  "stamped c now s = c\<lparr>
     ObservedGeneration := (if ObservedGeneration c = 0 then Generation s else ObservedGeneration c),
     LastTransition := (case Sandbox_Condition s (cond_Type c) of
         Some old \<Rightarrow> if cond_Status old = cond_Status c then LastTransition old else now
       | None \<Rightarrow> now)\<rparr>"

lemma stamped_sel [simp]:
  "cond_Type (stamped c now s) = cond_Type c" "cond_Status (stamped c now s) = cond_Status c"
  "cond_Reason (stamped c now s) = cond_Reason c" "cond_Message (stamped c now s) = cond_Message c"
  by (simp_all add: stamped_def)

lemma SetCondition_Inr:
  assumes "SetCondition c now s = Inr s'"
  obtains cs where "s' = s\<lparr>Conditions := cs\<rparr>"
    "\<And>t. find (\<lambda>d. cond_Type d = t) cs = (if t = cond_Type c then Some (stamped c now s) else Sandbox_Condition s t)"
    "distinct (map cond_Type (Conditions s)) \<longrightarrow> distinct (map cond_Type cs)"
proof -
  define d where "d = (if ObservedGeneration c = 0 then c\<lparr>ObservedGeneration := Generation s\<rparr> else c)"
  have d: "cond_Type d = cond_Type c" "cond_Status d = cond_Status c"
    by (simp_all add: d_def)
  show ?thesis
  proof (cases "replace_condition d now (Conditions s)")
    case None
    then have "s' = s\<lparr>Conditions := Conditions s @ [d\<lparr>LastTransition := now\<rparr>]\<rparr>"
      using assms by (simp add: SetCondition_def d_def [symmetric] Let_def split: if_splits)
    moreover from None have "cond_Type c \<notin> set (map cond_Type (Conditions s))"
      by (simp add: replace_condition_None d del: set_map)
    moreover from this have "Sandbox_Condition s (cond_Type c) = None"
      by (simp add: Sandbox_Condition_def find_type_None del: set_map)
    ultimately show ?thesis
      by (intro that [of "Conditions s @ [d\<lparr>LastTransition := now\<rparr>]"])
         (auto simp: find_snoc stamped_def d_def Sandbox_Condition_def split: option.splits)
  next
    case (Some ds)
    then have "s' = s\<lparr>Conditions := ds\<rparr>"
      using assms by (simp add: SetCondition_def d_def [symmetric] Let_def split: if_splits)
    moreover obtain old where "Sandbox_Condition s (cond_Type c) = Some old"
      using Some replace_condition_None [of d now "Conditions s"] find_type_None [of "cond_Type c" "Conditions s"]
      by (cases "Sandbox_Condition s (cond_Type c)") (auto simp: Sandbox_Condition_def d)
    ultimately show ?thesis
      using replace_condition_find [OF Some] replace_condition_types [OF Some]
      by (intro that [of ds]) (auto simp: Sandbox_Condition_def stamped_def d_def)
  qed
qed

lemma SetCondition_frame: "SetCondition c now s = Inr s' \<Longrightarrow> s' = s\<lparr>Conditions := Conditions s'\<rparr>"
  by (elim SetCondition_Inr) simp

lemma SetCondition_total:
  "cond_Type c \<noteq> '''' \<Longrightarrow> cond_Status c \<in> {ConditionTrue, ConditionFalse, ConditionUnknown} \<Longrightarrow>
   \<exists>s'. SetCondition c now s = Inr s'"
  by (auto simp: SetCondition_def Let_def split: option.splits)

text \<open>
  A named condition with one of the three statuses can always be set; it is then the one found
  under its type, stamped with the generation it was observed at; its last transition is now when the
  status changed or the condition is new and is kept otherwise; conditions of other types and every
  other field are untouched; and no type is ever listed twice.
\<close>

theorem SetCondition_lookup:
  assumes "cond_Type c \<noteq> ''''" "cond_Status c \<in> {ConditionTrue, ConditionFalse, ConditionUnknown}"
  shows "\<exists>s'. SetCondition c now s = Inr s' \<and>
    (\<forall>t. Sandbox_Condition s' t = (if t = cond_Type c then Some (stamped c now s) else Sandbox_Condition s t)) \<and>
    s' = s\<lparr>Conditions := Conditions s'\<rparr> \<and>
    (distinct (map cond_Type (Conditions s)) \<longrightarrow> distinct (map cond_Type (Conditions s')))"
proof -
  obtain s' where s': "SetCondition c now s = Inr s'"
    using SetCondition_total assms by blast
  from s' obtain cs where "s' = s\<lparr>Conditions := cs\<rparr>"
    "\<And>t. find (\<lambda>d. cond_Type d = t) cs = (if t = cond_Type c then Some (stamped c now s) else Sandbox_Condition s t)"
    "distinct (map cond_Type (Conditions s)) \<longrightarrow> distinct (map cond_Type cs)"
    by (elim SetCondition_Inr) blast
  with s' show ?thesis
    by (intro exI [of _ s']) (simp add: Sandbox_Condition_def)
qed

theorem SetCondition_lookup_witness:
  "\<exists>s'. SetCondition (mk_condition CondDriverReady ConditionTrue ''Started'' '''') 9 sample_sandbox = Inr s' \<and>
     Sandbox_Condition s' CondDriverReady =
       Some (stamped (mk_condition CondDriverReady ConditionTrue ''Started'' '''') 9 sample_sandbox)"
  using SetCondition_lookup [of "mk_condition CondDriverReady ConditionTrue ''Started'' ''''" 9 sample_sandbox]
  by (auto simp: mk_condition_def)

section \<open>Lemmas on identifiers\<close>

lemma hex_digit_is_hex: "n < 16 \<Longrightarrow> is_hex (hex_digit n)"
  by (auto simp: hex_digit_def is_hex_def is_digit_def)

lemma is_hex_digit: "is_hex c \<Longrightarrow> \<exists>n<16. hex_digit n = c"
proof -
  assume "is_hex c"
  then consider "48 \<le> byte_val c" "byte_val c \<le> 57" | "97 \<le> byte_val c" "byte_val c \<le> 102"
    by (auto simp: is_hex_def is_digit_def)
  then show ?thesis
  proof cases
    case 1
    then show ?thesis
      by (intro exI [of _ "byte_val c - 48"]) (auto simp: hex_digit_def byte_val_def)
  next
    case 2
    then show ?thesis
      by (intro exI [of _ "byte_val c - 87"]) (auto simp: hex_digit_def byte_val_def)
  qed
qed

lemma byte_val_less [simp]: "byte_val c < 256"
  by (simp add: byte_val_def)

lemma hex_encode_Cons:
  "hex_encode (b # bs) = hex_digit (byte_val b div 16) # hex_digit (byte_val b mod 16) # hex_encode bs"
  by (simp add: hex_encode_def)

lemma length_hex_encode [simp]: "length (hex_encode bs) = 2 * length bs"
  by (induction bs) (auto simp: hex_encode_def)

lemma hex_encode_hex: "list_all is_hex (hex_encode bs)"
proof (induction bs)
  case (Cons b bs)
  have "byte_val b div 16 < 16"
    by (rule less_mult_imp_div_less) simp
  with Cons show ?case
    by (simp add: hex_encode_Cons hex_digit_is_hex)
qed (simp add: hex_encode_def)

lemma hex_decode: "list_all is_hex s \<Longrightarrow> length s = 2 * n \<Longrightarrow> \<exists>bs. length bs = n \<and> hex_encode bs = s"
proof (induction n arbitrary: s)
  case 0
  then show ?case by (simp add: hex_encode_def)
next
  case (Suc n)
  then obtain x y r where s: "s = x # y # r"
    by (cases s; cases "tl s") auto
  with Suc.prems obtain i j where ij: "i < 16" "hex_digit i = x" "j < 16" "hex_digit j = y"
    using is_hex_digit [of x] is_hex_digit [of y] by auto
  obtain bs where "length bs = n" "hex_encode bs = r"
    using Suc s by auto
  moreover have "byte_val (char_of (16 * i + j)) = 16 * i + j"
    using ij by simp
  ultimately show ?case
    using ij s by (intro exI [of _ "char_of (16 * i + j) # bs"]) (simp add: hex_encode_Cons)
qed

text \<open>
  The ids \<open>ValidID\<close> accepts are exactly those \<open>NewID\<close> can make from eight random bytes.
\<close>

theorem ValidID_iff_NewID: "ValidID i \<longleftrightarrow> (\<exists>b. length b = 8 \<and> NewID (Inr b) = Inr i)"
proof
  assume v: "ValidID i"
  then obtain b where "length b = 8" "hex_encode b = drop (length idPrefix) i"
    using hex_decode [of "drop (length idPrefix) i" 8] by (auto simp: ValidID_def)
  with v show "\<exists>b. length b = 8 \<and> NewID (Inr b) = Inr i"
    by (intro exI [of _ b]) (metis NewID_def ValidID_def append_take_drop_id sum.case(2))
next
  assume "\<exists>b. length b = 8 \<and> NewID (Inr b) = Inr i"
  then show "ValidID i"
    by (auto simp: NewID_def ValidID_def hex_encode_hex)
qed

section \<open>Lemmas on the restart delay\<close>

lemma backoff_loop_eq: "0 < d \<Longrightarrow> backoff_loop n d = min (d * 2 ^ n) MaxBackoff"
proof (induction n arbitrary: d)
  case (Suc n)
  show ?case
  proof (cases "d \<ge> MaxBackoff div 2")
    case True
    then have "MaxBackoff \<le> d * 2" by simp
    also have "d * 2 \<le> d * 2 * 2 ^ n"
      using Suc.prems by simp
    finally show ?thesis
      using True by (simp add: mult.assoc)
  next
    case False
    then have "wrap64 (d * 2) = d * 2"
      using Suc.prems by (intro wrap64_id) simp_all
    with False Suc show ?thesis
      by (simp add: mult.assoc)
  qed
qed simp

text \<open>
  The delay before a restart is the base (one second when it is not positive) doubled once for
  each restart already made, and never more than an hour; the 64-bit doubling never overflows.
\<close>

theorem Backoff_closed_form:
  "Backoff base n = min ((if base \<le> 0 then Second else base) * 2 ^ nat n) MaxBackoff \<and>
   0 < Backoff base n \<and> Backoff base n \<le> MaxBackoff"
  by (simp add: Backoff_def backoff_loop_eq)

end
