(* ===== verification/Labels.thy ===== *)
theory Labels
  imports Lifecycle
begin

text \<open>
  Labels and selectors: \<^verbatim>\<open>controlplane/labels.go\<close>, with the label scopes of \<^verbatim>\<open>guard.go\<close>.
  A panic of the source is \<^const>\<open>None\<close>: \<open>Requirement.Matches\<close> reads \<open>r.Values[0]\<close> of an equality
  without checking that it is there.
\<close>

section \<open>Validation\<close>

definition ReservedPrefix :: string where
  "ReservedPrefix = ''abhed.dev/''"

definition reserved_key :: "string \<Rightarrow> bool" where
  "reserved_key k \<longleftrightarrow> HasPrefix k ReservedPrefix"

abbreviation MaxLabels :: nat where
  "MaxLabels \<equiv> 64"

definition value_inner :: "char \<Rightarrow> bool" where
  "value_inner c \<longleftrightarrow> c = CHR ''.'' \<or> c = CHR ''_'' \<or> c = CHR ''-''"

definition validValue :: "string \<Rightarrow> bool" where
  "validValue v \<longleftrightarrow> length v \<le> 63 \<and>
     list_all (\<lambda>i. is_alnum (v ! i) \<or> (value_inner (v ! i) \<and> i \<noteq> 0 \<and> i \<noteq> length v - 1)) [0..<length v]"

definition validPart :: "string \<Rightarrow> bool" where
  "validPart part \<longleftrightarrow> part \<noteq> [] \<and> length part \<le> 63 \<and> hd part \<noteq> CHR ''-'' \<and> last part \<noteq> CHR ''-'' \<and>
     list_all (\<lambda>c. is_lower c \<or> is_digit c \<or> c = CHR ''-'') part"

definition validPrefix :: "string \<Rightarrow> bool" where
  "validPrefix p \<longleftrightarrow> p \<noteq> [] \<and> length p \<le> 253 \<and> list_all validPart (Split CHR ''.'' p)"

definition validName :: "string \<Rightarrow> gerror option" where
  "validName name = (if name = [] \<or> \<not> validValue name then Some (Errorf [Sentinel ErrInvalid] ''label key'') else None)"

definition validKey :: "string \<Rightarrow> gerror option" where
  "validKey k = (case Cut k ''/'' of
       None \<Rightarrow> validName k
     | Some (prefix, rest) \<Rightarrow>
         if \<not> validPrefix prefix then Some (Errorf [Sentinel ErrInvalid] ''label key prefix'') else validName rest)"

fun validate_entries :: "strmap \<Rightarrow> bool \<Rightarrow> gerror option" where
  "validate_entries [] reserved = None"
| "validate_entries ((k, v) # labels) reserved =
     (case validKey k of Some e \<Rightarrow> Some e
      | None \<Rightarrow> if \<not> reserved \<and> reserved_key k then Some (Errorf [Sentinel ErrInvalid] ''label is reserved'')
                else if \<not> validValue v then Some (Errorf [Sentinel ErrInvalid] ''label has value'')
                else validate_entries labels reserved)"

definition ValidateLabels :: "strmap \<Rightarrow> bool \<Rightarrow> gerror option" where
  "ValidateLabels labels reserved =
     (if length labels > MaxLabels then Some (Errorf [Sentinel ErrInvalid] ''labels, at most'')
      else validate_entries labels reserved)"

section \<open>Scopes\<close>

definition scoped :: "strmap \<Rightarrow> strmap \<Rightarrow> bool" where
  "scoped scope labels \<longleftrightarrow> list_all (\<lambda>(k, v). v \<noteq> [] \<and> get_str labels k = v) scope"

definition checkScope :: "strmap \<Rightarrow> gerror option" where
  "checkScope scope =
     (if \<not> list_all (\<lambda>(k, v). reserved_key k \<and> v \<noteq> []) scope
      then Some (Errorf [Sentinel ErrForbidden] ''caller scope is not a reserved label with a value'')
      else ValidateLabels scope True)"

section \<open>Requirements and selectors\<close>

datatype Operator = OpEquals | OpNotEquals | OpIn | OpNotIn | OpExists | OpDoesNotExist | OpOther string

record Requirement =
  req_Key :: string
  Op :: Operator
  Values :: "string list"

type_synonym Selector = "Requirement list"

definition first_value :: "string list \<Rightarrow> string option" where
  "first_value vs = (case vs of [] \<Rightarrow> None | v # _ \<Rightarrow> Some v)"

definition Requirement_Matches :: "Requirement \<Rightarrow> strmap \<Rightarrow> bool option" where
  "Requirement_Matches r labels =
     (case Op r of
        OpEquals \<Rightarrow> (case map_of labels (req_Key r) of None \<Rightarrow> Some False
                    | Some v \<Rightarrow> map_option (\<lambda>w. v = w) (first_value (Values r)))
      | OpNotEquals \<Rightarrow> (case map_of labels (req_Key r) of None \<Rightarrow> Some True
                    | Some v \<Rightarrow> map_option (\<lambda>w. v \<noteq> w) (first_value (Values r)))
      | OpIn \<Rightarrow> Some (case map_of labels (req_Key r) of None \<Rightarrow> False | Some v \<Rightarrow> v \<in> set (Values r))
      | OpNotIn \<Rightarrow> Some (case map_of labels (req_Key r) of None \<Rightarrow> True | Some v \<Rightarrow> v \<notin> set (Values r))
      | OpExists \<Rightarrow> Some (map_of labels (req_Key r) \<noteq> None)
      | OpDoesNotExist \<Rightarrow> Some (map_of labels (req_Key r) = None)
      | OpOther w \<Rightarrow> Some False)"

fun Selector_Matches :: "Selector \<Rightarrow> strmap \<Rightarrow> bool option" where
  "Selector_Matches [] labels = Some True"
| "Selector_Matches (r # rs) labels =
     (case Requirement_Matches r labels of None \<Rightarrow> None
      | Some b \<Rightarrow> if \<not> b then Some False else Selector_Matches rs labels)"

section \<open>Parsing\<close>

text \<open>The loop of \<open>splitClauses\<close>: the clause being read is kept reversed.\<close>

fun split_clauses_loop :: "int \<Rightarrow> string \<Rightarrow> string \<Rightarrow> string list" where
  "split_clauses_loop depth cur [] = [rev cur]"
| "split_clauses_loop depth cur (c # cs) =
     (if c = CHR ''('' then split_clauses_loop (depth + 1) (c # cur) cs
      else if c = CHR '')'' then split_clauses_loop (depth - 1) (c # cur) cs
      else if c = CHR '','' \<and> depth = 0 then rev cur # split_clauses_loop depth [] cs
      else split_clauses_loop depth (c # cur) cs)"

definition splitClauses :: "string \<Rightarrow> string list" where
  "splitClauses s = split_clauses_loop 0 [] s"

definition with_key :: "Requirement \<Rightarrow> gerror + Requirement" where
  "with_key r = (case validKey (req_Key r) of Some e \<Rightarrow> Inl e | None \<Rightarrow> Inr r)"

fun parse_values :: "string list \<Rightarrow> gerror + string list" where
  "parse_values [] = Inr []"
| "parse_values (w # ws) =
     (let v = TrimSpace w
      in if \<not> validValue v then Inl (Errorf [] ''value'')
         else case parse_values ws of Inl e \<Rightarrow> Inl e | Inr vs \<Rightarrow> Inr (v # vs))"

definition set_operator :: "string \<Rightarrow> Operator option" where
  "set_operator w = (if w = ''in'' then Some OpIn else if w = ''notin'' then Some OpNotIn else None)"

definition parse_set :: "string \<Rightarrow> string \<Rightarrow> gerror + Requirement" where
  "parse_set head_text body =
     (let head = Fields head_text; inner = butlast body
      in if length head \<noteq> 2 \<or> \<not> HasSuffix body '')'' \<or> ContainsAny inner ''()''
         then Inl (Errorf [] ''cannot read'')
         else case set_operator (head ! 1) of
             None \<Rightarrow> Inl (Errorf [] ''unknown operator'')
           | Some op \<Rightarrow>
               if TrimSpace inner = [] then Inl (Errorf [] ''with no values'')
               else case parse_values (Split CHR '','' inner) of
                   Inl e \<Rightarrow> Inl e
                 | Inr vals \<Rightarrow> with_key \<lparr>req_Key = head ! 0, Op = op, Values = vals\<rparr>)"

definition parse_equality :: "Operator \<Rightarrow> string \<Rightarrow> string \<Rightarrow> gerror + Requirement" where
  "parse_equality op k0 v0 =
     (let k = TrimSpace k0; v = TrimSpace v0
      in if \<not> validValue v \<or> ContainsAny v ''=!'' then Inl (Errorf [] ''value'')
         else with_key \<lparr>req_Key = k, Op = op, Values = [v]\<rparr>)"

definition parseRequirement :: "string \<Rightarrow> gerror + Requirement" where
  "parseRequirement c =
     (if c = [] then Inl (Errorf [] ''empty requirement'')
      else if HasPrefix c ''!'' \<and> \<not> Contains c ''=''
      then with_key \<lparr>req_Key = TrimSpace (drop 1 c), Op = OpDoesNotExist, Values = []\<rparr>
      else case Cut c ''('' of
          Some (head_text, body) \<Rightarrow> parse_set head_text body
        | None \<Rightarrow>
            (case Cut c ''!='' of Some (k, v) \<Rightarrow> parse_equality OpNotEquals k v
             | None \<Rightarrow> (case Cut c ''=='' of Some (k, v) \<Rightarrow> parse_equality OpEquals k v
                | None \<Rightarrow> (case Cut c ''='' of Some (k, v) \<Rightarrow> parse_equality OpEquals k v
                   | None \<Rightarrow> if ContainsAny c [CHR '' '', CHR 0x09] then Inl (Errorf [] ''cannot read'')
                            else with_key \<lparr>req_Key = c, Op = OpExists, Values = []\<rparr>))))"

fun parse_clauses :: "string list \<Rightarrow> gerror + Selector" where
  "parse_clauses [] = Inr []"
| "parse_clauses (clause # rest) =
     (case parseRequirement (TrimSpace clause) of
        Inl e \<Rightarrow> Inl (Errorf [Sentinel ErrInvalid, e] ''selector'')
      | Inr r \<Rightarrow> (case parse_clauses rest of Inl e \<Rightarrow> Inl e | Inr rs \<Rightarrow> Inr (r # rs)))"

definition ParseSelector :: "string \<Rightarrow> gerror + Selector" where
  "ParseSelector s = (if TrimSpace s = [] then Inr [] else parse_clauses (splitClauses s))"

section \<open>Lemmas on validation\<close>

lemma validate_entries_None:
  "validate_entries labels reserved = None \<longleftrightarrow>
     (\<forall>(k, v) \<in> set labels. validKey k = None \<and> (\<not> reserved \<longrightarrow> \<not> reserved_key k) \<and> validValue v)"
  by (induction labels reserved rule: validate_entries.induct) (auto split: option.splits)

lemma ValidateLabels_None:
  "ValidateLabels labels reserved = None \<longleftrightarrow> length labels \<le> MaxLabels \<and>
     (\<forall>(k, v) \<in> set labels. validKey k = None \<and> (\<not> reserved \<longrightarrow> \<not> reserved_key k) \<and> validValue v)"
  by (simp add: ValidateLabels_def validate_entries_None)

lemma validKey_error: "validKey k = Some e \<Longrightarrow> errors_Is e ErrInvalid"
  by (auto simp: validKey_def validName_def split: option.splits prod.splits if_splits)

lemma ValidateLabels_error: "ValidateLabels labels reserved = Some e \<Longrightarrow> errors_Is e ErrInvalid"
proof -
  have "validate_entries labels reserved = Some e \<Longrightarrow> errors_Is e ErrInvalid"
    by (induction labels reserved rule: validate_entries.induct)
       (auto split: option.splits if_splits dest: validKey_error)
  then show "ValidateLabels labels reserved = Some e \<Longrightarrow> errors_Is e ErrInvalid"
    by (auto simp: ValidateLabels_def split: if_splits)
qed

lemma scoped_iff:
  "wf_map scope \<Longrightarrow> scoped scope labels \<longleftrightarrow>
     (\<forall>k v. map_of scope k = Some v \<longrightarrow> v \<noteq> [] \<and> map_of labels k = Some v)"
  by (fastforce simp: scoped_def list_all_iff wf_map_get get_str_def split: option.splits)

lemma scoped_Nil [simp]: "scoped [] labels"
  by (simp add: scoped_def)

section \<open>Lemmas on the parser\<close>

lemma split_clauses_loop_nonempty: "split_clauses_loop depth cur s \<noteq> []"
  by (induction depth cur s rule: split_clauses_loop.induct) auto

lemma Join_Cons: "ws \<noteq> [] \<Longrightarrow> Join (w # ws) sep = w @ sep @ Join ws sep"
  by (cases ws) auto

lemma split_clauses_loop_join: "Join (split_clauses_loop depth cur s) '','' = rev cur @ s"
  by (induction depth cur s rule: split_clauses_loop.induct)
     (simp_all add: Join_Cons split_clauses_loop_nonempty)

lemma with_key_Inr: "with_key r = Inr q \<longleftrightarrow> q = r \<and> validKey (req_Key r) = None"
  by (auto simp: with_key_def split: option.splits)

text \<open>What every requirement the parser returns satisfies.\<close>

definition wf_requirement :: "Requirement \<Rightarrow> bool" where
  "wf_requirement r \<longleftrightarrow> validKey (req_Key r) = None \<and> list_all validValue (Values r) \<and>
     (case Op r of OpEquals \<Rightarrow> length (Values r) = 1 | OpNotEquals \<Rightarrow> length (Values r) = 1
      | OpIn \<Rightarrow> Values r \<noteq> [] | OpNotIn \<Rightarrow> Values r \<noteq> []
      | OpExists \<Rightarrow> Values r = [] | OpDoesNotExist \<Rightarrow> Values r = [] | OpOther w \<Rightarrow> False)"

lemma parse_values_Inr: "parse_values ws = Inr vs \<Longrightarrow> length vs = length ws \<and> list_all validValue vs"
  by (induction ws arbitrary: vs) (auto simp: Let_def split: if_splits sum.splits)

lemma parse_set_wf: "parse_set h b = Inr r \<Longrightarrow> wf_requirement r"
  by (auto simp: parse_set_def set_operator_def Let_def with_key_Inr wf_requirement_def
      split: if_splits option.splits sum.splits dest!: parse_values_Inr)

lemma parse_equality_wf: "op \<in> {OpEquals, OpNotEquals} \<Longrightarrow> parse_equality op k v = Inr r \<Longrightarrow> wf_requirement r"
  by (auto simp: parse_equality_def Let_def with_key_Inr wf_requirement_def split: if_splits)

lemma parseRequirement_wf: "parseRequirement c = Inr r \<Longrightarrow> wf_requirement r"
  unfolding parseRequirement_def
  by (auto simp: with_key_Inr split: if_splits option.splits prod.splits
      dest: parse_set_wf parse_equality_wf [rotated])
     (auto simp: wf_requirement_def)

lemma parse_clauses_Inr: "parse_clauses cs = Inr sel \<Longrightarrow> length sel = length cs \<and> list_all wf_requirement sel"
  by (induction cs arbitrary: sel) (auto split: sum.splits dest: parseRequirement_wf)

lemma parse_clauses_Inl: "parse_clauses cs = Inl e \<Longrightarrow> errors_Is e ErrInvalid"
  by (induction cs) (auto split: sum.splits)

section \<open>Matching is the conjunction of the requirements\<close>

definition satisfies :: "strmap \<Rightarrow> Requirement \<Rightarrow> bool" where
  "satisfies labels r = (case Op r of
       OpEquals \<Rightarrow> (\<exists>v \<in> set (Values r). map_of labels (req_Key r) = Some v)
     | OpNotEquals \<Rightarrow> (\<forall>v \<in> set (Values r). map_of labels (req_Key r) \<noteq> Some v)
     | OpIn \<Rightarrow> (\<exists>v \<in> set (Values r). map_of labels (req_Key r) = Some v)
     | OpNotIn \<Rightarrow> (\<forall>v \<in> set (Values r). map_of labels (req_Key r) \<noteq> Some v)
     | OpExists \<Rightarrow> req_Key r \<in> dom (map_of labels)
     | OpDoesNotExist \<Rightarrow> req_Key r \<notin> dom (map_of labels)
     | OpOther w \<Rightarrow> False)"

lemma Requirement_Matches_wf:
  "wf_requirement r \<Longrightarrow> Requirement_Matches r labels = Some (satisfies labels r)"
  by (cases "Values r")
     (auto simp: wf_requirement_def Requirement_Matches_def satisfies_def first_value_def
       split: Operator.splits option.splits)

lemma Selector_Matches_wf:
  "list_all wf_requirement sel \<Longrightarrow> Selector_Matches sel labels = Some (list_all (satisfies labels) sel)"
  by (induction sel) (auto simp: Requirement_Matches_wf)

text \<open>
  A selector text either fails with an invalid-request error or parses to well-formed
  requirements. Matching the parsed selector never panics and is the conjunction of its
  requirements; and only a blank text parses to the selector that matches everything, so a text
  that cannot be read is never one.
\<close>

theorem ParseSelector_sound:
  "case ParseSelector s of
     Inl e \<Rightarrow> errors_Is e ErrInvalid
   | Inr sel \<Rightarrow> list_all wf_requirement sel \<and> (sel = [] \<longleftrightarrow> TrimSpace s = []) \<and>
       (\<forall>labels. Selector_Matches sel labels = Some (list_all (satisfies labels) sel))"
proof (cases "ParseSelector s")
  case (Inl e)
  then show ?thesis
    by (auto simp: ParseSelector_def split: if_splits dest: parse_clauses_Inl)
next
  case (Inr sel)
  then have "list_all wf_requirement sel" "sel = [] \<longleftrightarrow> TrimSpace s = []"
    using split_clauses_loop_nonempty [of 0 "[]" s]
    by (auto simp: ParseSelector_def splitClauses_def split: if_splits dest!: parse_clauses_Inr)
  then show ?thesis
    using Inr by (simp add: Selector_Matches_wf)
qed

section \<open>Printing a selector and reading it back\<close>

text \<open>
  The inverse the sources describe but do not need: the text of a requirement in the syntax the
  comment of \<open>ParseSelector\<close> gives.
\<close>

definition print_requirement :: "Requirement \<Rightarrow> string" where
  "print_requirement r = (case Op r of
       OpEquals \<Rightarrow> req_Key r @ ''='' @ Join (Values r) '',''
     | OpNotEquals \<Rightarrow> req_Key r @ ''!='' @ Join (Values r) '',''
     | OpIn \<Rightarrow> req_Key r @ '' in ('' @ Join (Values r) '','' @ '')''
     | OpNotIn \<Rightarrow> req_Key r @ '' notin ('' @ Join (Values r) '','' @ '')''
     | OpExists \<Rightarrow> req_Key r
     | OpDoesNotExist \<Rightarrow> ''!'' @ req_Key r
     | OpOther w \<Rightarrow> [])"

definition label_byte :: "char \<Rightarrow> bool" where
  "label_byte c \<longleftrightarrow> is_alnum c \<or> value_inner c \<or> c = CHR ''/''"

lemma label_byte_print: "label_byte c \<Longrightarrow> is_print c"
  by (auto simp: label_byte_def value_inner_def is_print_def byte_val_def dest: is_alnum_print)

lemma label_byte_not:
  "label_byte c \<Longrightarrow> c \<notin> {CHR ''('', CHR '')'', CHR '','', CHR ''='', CHR ''!'', CHR '' '', CHR 0x09}"
  by (auto simp: label_byte_def value_inner_def byte_class_defs)

lemma validValue_bytes: "validValue v \<Longrightarrow> list_all label_byte v"
  by (simp add: validValue_def list_all_length label_byte_def) blast

lemma Split_bytes: "list_all (list_all P) (Split c s) \<Longrightarrow> P c \<Longrightarrow> list_all P s"
  by (induction s) (auto split: list.splits if_splits)

lemma Cut_Some: "Cut s sep = Some (a, b) \<Longrightarrow> s = a @ sep @ b"
proof (induction s arbitrary: a b)
  case Nil
  then show ?case
    by (subst (asm) Cut.simps) (auto simp: HasPrefix_def split: if_splits)
next
  case (Cons c cs)
  from Cons.prems show ?case
    by (subst (asm) Cut.simps)
       (auto simp: HasPrefix_def split: if_splits dest!: Cons.IH, metis append_take_drop_id)
qed

lemma validPrefix_bytes: "validPrefix p \<Longrightarrow> list_all label_byte p"
proof -
  assume "validPrefix p"
  then have "list_all (list_all label_byte) (Split CHR ''.'' p)"
    by (auto simp: validPrefix_def validPart_def list_all_iff label_byte_def value_inner_def is_alnum_def)
  then show ?thesis
    by (rule Split_bytes) (simp add: label_byte_def value_inner_def)
qed

lemma validKey_bytes: "validKey k = None \<Longrightarrow> k \<noteq> [] \<and> list_all label_byte k"
proof -
  assume v: "validKey k = None"
  show ?thesis
  proof (cases "Cut k ''/''")
    case None
    with v show ?thesis
      by (auto simp: validKey_def validName_def validValue_bytes split: if_splits)
  next
    case (Some ab)
    then obtain a b where ab: "Cut k ''/'' = Some (a, b)" by (cases ab) auto
    with v have "validPrefix a" "b \<noteq> []" "validValue b"
      by (auto simp: validKey_def validName_def split: if_splits)
    then show ?thesis
      using Cut_Some [OF ab] validPrefix_bytes validValue_bytes by (simp add: label_byte_def)
  qed
qed

lemma Cut_none: "list_all (\<lambda>c. c \<noteq> hd sep) s \<Longrightarrow> sep \<noteq> [] \<Longrightarrow> Cut s sep = None"
proof (induction s)
  case Nil
  then show ?case by (subst Cut.simps) (simp add: HasPrefix_def)
next
  case (Cons c cs)
  then show ?case by (subst Cut.simps) (cases sep; auto simp: HasPrefix_def)
qed

lemma Cut_found: "list_all (\<lambda>c. c \<noteq> hd sep) a \<Longrightarrow> sep \<noteq> [] \<Longrightarrow> Cut (a @ sep @ b) sep = Some (a, b)"
proof (induction a)
  case Nil
  then show ?case by (subst Cut.simps) (simp add: HasPrefix_def)
next
  case (Cons c cs)
  then show ?case by (subst Cut.simps) (cases sep; auto simp: HasPrefix_def)
qed

text \<open>White space starts and ends with bytes that are not printable ASCII.\<close>

lemma space_seqs_ends: "q \<in> set space_seqs \<Longrightarrow> q \<noteq> [] \<and> \<not> is_print (hd q) \<and> \<not> is_print (last q)"
  by (auto simp: space_seqs_def is_print_def byte_val_def)

lemma trim_seqs_id: "\<forall>q \<in> set qs. q = [] \<or> \<not> HasPrefix s q \<Longrightarrow> trim_seqs qs s = s"
  by (subst trim_seqs.simps) (auto split: option.split simp: find_Some_iff)

lemma HasPrefix_print: "HasPrefix s q \<Longrightarrow> q \<noteq> [] \<Longrightarrow> \<not> is_print (hd q) \<Longrightarrow> s \<noteq> [] \<and> \<not> is_print (hd s)"
  by (cases s; cases q) (auto simp: HasPrefix_def)

lemma TrimLeftSpace_id: "s = [] \<or> is_print (hd s) \<Longrightarrow> TrimLeftSpace s = s"
  unfolding TrimLeftSpace_def
  by (rule trim_seqs_id) (auto dest: space_seqs_ends HasPrefix_print)

lemma TrimRightSpace_id: "s = [] \<or> is_print (last s) \<Longrightarrow> TrimRightSpace s = s"
proof -
  assume s: "s = [] \<or> is_print (last s)"
  have "trim_seqs (map rev space_seqs) (rev s) = rev s"
  proof (rule trim_seqs_id, intro ballI)
    fix q assume "q \<in> set (map rev space_seqs)"
    then have "q \<noteq> []" "\<not> is_print (hd q)"
      by (auto dest!: space_seqs_ends simp: hd_rev)
    then show "q = [] \<or> \<not> HasPrefix (rev s) q"
      using s by (auto dest: HasPrefix_print simp: hd_rev)
  qed
  then show ?thesis by (simp add: TrimRightSpace_def)
qed

lemma TrimSpace_id: "s = [] \<or> is_print (hd s) \<and> is_print (last s) \<Longrightarrow> TrimSpace s = s"
  by (auto simp: TrimSpace_def TrimLeftSpace_id TrimRightSpace_id)

lemma TrimSpace_bytes: "list_all label_byte s \<Longrightarrow> TrimSpace s = s"
  by (rule TrimSpace_id) (cases "s = []"; auto simp: list_all_iff intro: label_byte_print)

lemma starts_space_print: "is_print c \<Longrightarrow> \<not> starts_space (c # cs)"
  by (auto simp: starts_space_def list_ex_iff dest!: space_seqs_ends HasPrefix_print)

lemma starts_space_blank: "starts_space (CHR '' '' # cs)"
  by (simp add: starts_space_def space_seqs_def HasPrefix_def)

lemma take_word_found: "list_all is_print w \<Longrightarrow> take_word (w @ CHR '' '' # cs) = w"
  by (induction w) (auto simp: starts_space_print starts_space_blank)

lemma TrimLeftSpace_blank: "TrimLeftSpace (CHR '' '' # cs) = TrimLeftSpace cs"
proof -
  have "find (\<lambda>q. q \<noteq> [] \<and> HasPrefix (CHR '' '' # cs) q) space_seqs = Some ['' '' ! 0]"
    by (simp add: space_seqs_def HasPrefix_def)
  then show ?thesis
    unfolding TrimLeftSpace_def by (subst trim_seqs.simps) simp
qed

lemma Fields_word:
  "w \<noteq> [] \<Longrightarrow> list_all is_print w \<Longrightarrow> Fields (w @ CHR '' '' # cs) = w # Fields (CHR '' '' # cs)"
proof -
  assume "w \<noteq> []" "list_all is_print w"
  moreover from this have "TrimLeftSpace (w @ CHR '' '' # cs) = w @ CHR '' '' # cs"
    by (intro TrimLeftSpace_id) (cases w; simp)
  ultimately show ?thesis
    by (subst Fields.simps) (simp add: take_word_found Let_def)
qed

lemma Fields_blank: "Fields (CHR '' '' # cs) = Fields cs"
  by (subst Fields.simps, subst (2) Fields.simps) (simp add: TrimLeftSpace_blank)

lemma Fields_Nil: "Fields [] = []"
  by (subst Fields.simps) (simp add: TrimLeftSpace_id)

lemma Join_bytes: "list_all (list_all P) vs \<Longrightarrow> list_all P sep \<Longrightarrow> list_all P (Join vs sep)"
  by (induction vs sep rule: Join.induct) auto

lemma parse_values_bytes: "list_all validValue vs \<Longrightarrow> parse_values vs = Inr vs"
  by (induction vs) (auto simp: TrimSpace_bytes validValue_bytes)

lemma ContainsAny_not: "list_all (\<lambda>c. c \<notin> set chars) s \<Longrightarrow> \<not> ContainsAny s chars"
  by (auto simp: ContainsAny_def list_all_iff list_ex_iff)

lemma validValue_not:
  "validValue v \<Longrightarrow> c \<in> {CHR ''('', CHR '')'', CHR '','', CHR ''='', CHR ''!'', CHR '' '', CHR 0x09} \<Longrightarrow> c \<notin> set v"
  using validValue_bytes [of v] label_byte_not by (auto simp: list_all_iff)

lemma validKey_not:
  "validKey k = None \<Longrightarrow> c \<in> {CHR ''('', CHR '')'', CHR '','', CHR ''='', CHR ''!'', CHR '' '', CHR 0x09} \<Longrightarrow> c \<notin> set k"
  using validKey_bytes [of k] label_byte_not by (auto simp: list_all_iff)

lemma TrimSpace_value: "validValue v \<Longrightarrow> TrimSpace v = v"
  by (simp add: TrimSpace_bytes validValue_bytes)

lemma TrimSpace_key: "validKey k = None \<Longrightarrow> TrimSpace k = k"
  by (simp add: TrimSpace_bytes validKey_bytes)

text \<open>
  The requirements a text can name: well formed, and, for a set, not just one empty value, which
  the parser reads as a set with no values.
\<close>

definition printable_requirement :: "Requirement \<Rightarrow> bool" where
  "printable_requirement r \<longleftrightarrow> wf_requirement r \<and>
     (Op r \<in> {OpIn, OpNotIn} \<longrightarrow> Values r \<noteq> [[]])"

lemma Join_inner:
  assumes "vs \<noteq> []" "vs \<noteq> [[]]" "list_all validValue vs"
  shows "TrimSpace (Join vs '','') \<noteq> []" "\<not> ContainsAny (Join vs '','') ''()''"
proof -
  have b: "list_all (\<lambda>c. label_byte c \<or> c = CHR '','') (Join vs '','')"
    using assms(3) by (intro Join_bytes) (auto simp: list_all_iff dest!: validValue_bytes)
  then have p: "list_all is_print (Join vs '','')"
    by (auto simp: list_all_iff is_print_def byte_val_def dest!: label_byte_print)
  have ne: "Join vs '','' \<noteq> []"
    using assms(1,2) by (induction vs "'',''" rule: Join.induct) auto
  from p ne have "TrimSpace (Join vs '','') = Join vs '',''"
    by (intro TrimSpace_id) (auto simp: list_all_iff)
  with ne show "TrimSpace (Join vs '','') \<noteq> []" by simp
  from b show "\<not> ContainsAny (Join vs '','') ''()''"
    by (intro ContainsAny_not) (auto simp: list_all_iff dest!: label_byte_not)
qed

lemma parse_set_print:
  assumes "printable_requirement r" "Op r \<in> {OpIn, OpNotIn}" "set_operator w = Some (Op r)"
  shows "parse_set (req_Key r @ CHR '' '' # w @ '' '') (Join (Values r) '','' @ '')'') = Inr r"
proof -
  have k: "req_Key r \<noteq> []" "list_all is_print (req_Key r)" "validKey (req_Key r) = None"
    and v: "Values r \<noteq> []" "Values r \<noteq> [[]]" "list_all validValue (Values r)"
    using assms(1,2) validKey_bytes [of "req_Key r"]
    by (auto simp: printable_requirement_def wf_requirement_def list_all_iff intro: label_byte_print)
  have "w \<in> {''in'', ''notin''}"
    using assms(3) by (auto simp: set_operator_def split: if_splits)
  then have "w \<noteq> []" "list_all is_print w"
    by (auto simp: is_print_def byte_val_def)
  then have "Fields (req_Key r @ CHR '' '' # w @ '' '') = [req_Key r, w]"
    using k Fields_word [of w "[]"] by (simp add: Fields_word Fields_blank Fields_Nil)
  moreover have "parse_values (Split CHR '','' (Join (Values r) '','')) = Inr (Values r)"
    using v by (subst Split_Join) (auto simp: parse_values_bytes list_all_iff validValue_not)
  ultimately show ?thesis
    using v k assms(3) Join_inner [OF v]
    by (simp add: parse_set_def Let_def with_key_def HasSuffix_def HasPrefix_def)
qed

lemma parse_equality_print:
  assumes "wf_requirement r" "Op r \<in> {OpEquals, OpNotEquals}"
  shows "parse_equality (Op r) (req_Key r) (Join (Values r) '','') = Inr r"
proof -
  obtain v where v: "Values r = [v]"
    using assms by (auto simp: wf_requirement_def length_Suc_conv)
  have "validKey (req_Key r) = None" "validValue v"
    using assms(1) v by (auto simp: wf_requirement_def)
  moreover from this have "TrimSpace (req_Key r) = req_Key r" "TrimSpace v = v" "\<not> ContainsAny v ''=!''"
    by (auto simp: TrimSpace_key TrimSpace_value validValue_not list_all_iff intro!: ContainsAny_not)
  moreover have "\<lparr>req_Key = req_Key r, Op = Op r, Values = [v]\<rparr> = r"
    using v by simp
  ultimately show ?thesis
    by (simp add: v parse_equality_def with_key_def)
qed

lemma key_free:
  assumes "validKey k = None" "c \<in> {CHR ''('', CHR '')'', CHR '','', CHR ''='', CHR ''!'', CHR '' '', CHR 0x09}"
  shows "list_all (\<lambda>d. d \<noteq> c) k"
  using validKey_not [OF assms] by (auto simp: list_all_iff)

lemma value_free:
  assumes "validValue v" "c \<in> {CHR ''('', CHR '')'', CHR '','', CHR ''='', CHR ''!'', CHR '' '', CHR 0x09}"
  shows "list_all (\<lambda>d. d \<noteq> c) v"
  using validValue_not [OF assms] by (auto simp: list_all_iff)

lemma not_HasPrefix_bang: "validKey k = None \<Longrightarrow> \<not> HasPrefix (k @ r) ''!''"
  using validKey_bytes [of k] validKey_not [of k "CHR ''!''"] by (cases k) (auto simp: HasPrefix_def)

lemma parseRequirement_set:
  assumes "printable_requirement r" "Op r \<in> {OpIn, OpNotIn}" "set_operator w = Some (Op r)"
  shows "parseRequirement (req_Key r @ CHR '' '' # w @ '' ('' @ Join (Values r) '','' @ '')'') = Inr r"
proof -
  have k: "validKey (req_Key r) = None"
    using assms(1) by (simp add: printable_requirement_def wf_requirement_def)
  have "w \<in> {''in'', ''notin''}"
    using assms(3) by (auto simp: set_operator_def split: if_splits)
  then have "list_all (\<lambda>c. c \<noteq> hd ''('') (req_Key r @ CHR '' '' # w @ '' '')"
    using key_free [OF k, of "CHR ''(''"] by auto
  then have "Cut ((req_Key r @ CHR '' '' # w @ '' '') @ ''('' @ Join (Values r) '','' @ '')'') ''('' =
      Some (req_Key r @ CHR '' '' # w @ '' '', Join (Values r) '','' @ '')'')"
    by (intro Cut_found) simp_all
  then show ?thesis
    using parse_set_print [OF assms] not_HasPrefix_bang [OF k]
    by (simp add: parseRequirement_def)
qed

lemma parseRequirement_equality:
  assumes "wf_requirement r" "Op r \<in> {OpEquals, OpNotEquals}"
  shows "parseRequirement (print_requirement r) = Inr r"
proof -
  obtain v where v: "Values r = [v]" "validValue v" and k: "validKey (req_Key r) = None"
    using assms by (auto simp: wf_requirement_def length_Suc_conv)
  note kf = key_free [OF k] and vf = value_free [OF v(2)]
  have nb: "Cut (req_Key r @ ''='' @ v) ''('' = None" "Cut (req_Key r @ ''!='' @ v) ''('' = None"
    "Cut (req_Key r @ ''='' @ v) ''!='' = None"
    using kf [of "CHR ''(''"] vf [of "CHR ''(''"] kf [of "CHR ''!''"] vf [of "CHR ''!''"]
    by (auto intro!: Cut_none)
  have ne: "Cut (req_Key r @ ''!='' @ v) ''!='' = Some (req_Key r, v)"
    "Cut (req_Key r @ ''='' @ v) ''='' = Some (req_Key r, v)"
    using Cut_found [of "''!=''" "req_Key r" v] Cut_found [of "''=''" "req_Key r" v]
      kf [of "CHR ''!''"] kf [of "CHR ''=''"] by simp_all
  have "\<not> HasPrefix (CHR ''='' # v) ''==''"
    using vf [of "CHR ''=''"] by (cases v) (auto simp: HasPrefix_def)
  then have "Cut (CHR ''='' # v) ''=='' = None"
    using Cut_none [of "''==''" v] vf [of "CHR ''=''"] by (subst Cut.simps) auto
  moreover have "Cut (c # s) ''=='' = None" if "c \<noteq> CHR ''=''" "Cut s ''=='' = None" for c s
    using that by (subst Cut.simps) (auto simp: HasPrefix_def)
  then have "Cut (l @ s) ''=='' = None" if "list_all (\<lambda>d. d \<noteq> CHR ''='') l" "Cut s ''=='' = None" for l s
    using that by (induction l) auto
  ultimately have ee: "Cut (req_Key r @ ''='' @ v) ''=='' = None"
    using kf [of "CHR ''=''"] by simp
  have "parse_equality (Op r) (req_Key r) v = Inr r"
    using parse_equality_print [OF assms] v by simp
  then show ?thesis
    using assms(2) nb ne ee v(1) not_HasPrefix_bang [OF k] validKey_bytes [OF k]
    by (auto simp: print_requirement_def parseRequirement_def)
qed

lemma Contains_not: "list_all (\<lambda>d. d \<noteq> c) s \<Longrightarrow> \<not> Contains s [c]"
  by (simp add: Contains_def Cut_none)

lemma parseRequirement_exists:
  assumes "wf_requirement r" "Op r \<in> {OpExists, OpDoesNotExist}"
  shows "parseRequirement (print_requirement r) = Inr r"
proof -
  have k: "validKey (req_Key r) = None" "Values r = []"
    using assms by (auto simp: wf_requirement_def)
  note kf = key_free [OF k(1)]
  have "Cut (req_Key r) ''('' = None" "Cut (req_Key r) ''!='' = None" "Cut (req_Key r) ''=='' = None"
    "Cut (req_Key r) ''='' = None" "\<not> Contains (CHR ''!'' # req_Key r) ''=''"
    "\<not> ContainsAny (req_Key r) [CHR '' '', CHR 0x09]"
    using kf [of "CHR ''(''"] kf [of "CHR ''!''"] kf [of "CHR ''=''"] kf [of "CHR '' ''"] kf [of "CHR 0x09"]
    by (simp_all add: Cut_none Contains_not ContainsAny_def list_ex_iff list_all_iff)
  moreover have "\<not> HasPrefix (req_Key r) ''!''"
    using not_HasPrefix_bang [OF k(1), of "[]"] by simp
  moreover have "HasPrefix (CHR ''!'' # req_Key r) ''!''" "req_Key r \<noteq> []"
    using validKey_bytes [OF k(1)] by (simp_all add: HasPrefix_def)
  moreover have "\<lparr>req_Key = req_Key r, Op = Op r, Values = []\<rparr> = r"
    using k by simp
  ultimately show ?thesis
    using assms(2) k(1) TrimSpace_key [OF k(1)]
    by (elim insertE emptyE) (simp_all add: print_requirement_def parseRequirement_def with_key_def)
qed

lemma parseRequirement_print:
  assumes "printable_requirement r"
  shows "parseRequirement (print_requirement r) = Inr r"
proof -
  have w: "wf_requirement r"
    using assms by (simp add: printable_requirement_def)
  then consider "Op r \<in> {OpEquals, OpNotEquals}" | "Op r \<in> {OpExists, OpDoesNotExist}" | "Op r = OpIn" | "Op r = OpNotIn"
    by (cases "Op r") (auto simp: wf_requirement_def)
  then show ?thesis
  proof cases
    case 3
    then show ?thesis
      using parseRequirement_set [OF assms, of "''in''"] by (simp add: print_requirement_def set_operator_def)
  next
    case 4
    then show ?thesis
      using parseRequirement_set [OF assms, of "''notin''"] by (simp add: print_requirement_def set_operator_def)
  qed (use w parseRequirement_equality parseRequirement_exists in auto)
qed

text \<open>Splitting at the commas outside parentheses gives back clauses that balance their own.\<close>

lemma split_clauses_flat:
  "list_all (\<lambda>c. c \<notin> {CHR ''('', CHR '')'', CHR '',''}) s \<Longrightarrow>
   split_clauses_loop 0 cur (s @ r) = split_clauses_loop 0 (rev s @ cur) r"
  by (induction s arbitrary: cur) auto

lemma split_clauses_inside:
  "list_all (\<lambda>c. c \<notin> {CHR ''('', CHR '')''}) s \<Longrightarrow>
   split_clauses_loop 1 cur (s @ CHR '')'' # r) = split_clauses_loop 0 (CHR '')'' # rev s @ cur) r"
  by (induction s arbitrary: cur) auto

text \<open>A clause the splitter reads as one piece, whatever it has read before.\<close>

definition one_clause :: "string \<Rightarrow> bool" where
  "one_clause s \<longleftrightarrow> (\<forall>cur r. split_clauses_loop 0 cur (s @ r) = split_clauses_loop 0 (rev s @ cur) r)"

lemma one_clause_flat: "list_all (\<lambda>c. c \<notin> {CHR ''('', CHR '')'', CHR '',''}) s \<Longrightarrow> one_clause s"
  by (simp add: one_clause_def split_clauses_flat)

lemma one_clause_set:
  assumes "list_all (\<lambda>c. c \<notin> {CHR ''('', CHR '')'', CHR '',''}) a" "list_all (\<lambda>c. c \<notin> {CHR ''('', CHR '')''}) b"
  shows "one_clause (a @ CHR ''('' # b @ '')'')"
  using assms by (simp add: one_clause_def split_clauses_flat split_clauses_inside)

lemma one_clause_print:
  assumes "wf_requirement r"
  shows "one_clause (print_requirement r)"
proof -
  have k: "\<And>c. c \<in> set (req_Key r) \<Longrightarrow> c \<notin> {CHR ''('', CHR '')'', CHR '',''}"
    using assms validKey_not [of "req_Key r"] by (auto simp: wf_requirement_def)
  have b: "list_all (\<lambda>c. label_byte c \<or> c = CHR '','') (Join (Values r) '','')"
    using assms by (intro Join_bytes) (auto simp: wf_requirement_def list_all_iff dest!: validValue_bytes)
  show ?thesis
  proof (cases "Op r \<in> {OpIn, OpNotIn}")
    case True
    then obtain w where "print_requirement r = (req_Key r @ w) @ CHR ''('' # Join (Values r) '','' @ '')''"
      "list_all (\<lambda>c. c \<notin> {CHR ''('', CHR '')'', CHR '',''}) w"
      by (auto simp: print_requirement_def)
    then show ?thesis
      using k b by (simp only:) (intro one_clause_set, auto simp: list_all_iff dest: label_byte_not)
  next
    case False
    then have "length (Values r) \<le> 1"
      using assms by (auto simp: wf_requirement_def split: Operator.splits)
    then have "list_all label_byte (Join (Values r) '','')"
      using assms by (cases "Values r") (auto simp: wf_requirement_def list_all_iff dest!: validValue_bytes)
    then show ?thesis
      using False k by (intro one_clause_flat)
        (auto simp: print_requirement_def list_all_iff split: Operator.splits dest: label_byte_not)
  qed
qed

lemma splitClauses_Join:
  "ws \<noteq> [] \<Longrightarrow> list_all one_clause ws \<Longrightarrow> splitClauses (Join ws '','') = ws"
proof (induction ws "'',''" rule: Join.induct)
  case (2 w)
  then have "one_clause w" by simp
  then have "split_clauses_loop 0 [] (w @ []) = split_clauses_loop 0 (rev w @ []) []"
    unfolding one_clause_def by (elim allE)
  then show ?case by (simp add: splitClauses_def)
next
  case (3 w v ws)
  then have "split_clauses_loop 0 [] (w @ '','' @ Join (v # ws) '','') =
      split_clauses_loop 0 (rev w @ []) ('','' @ Join (v # ws) '','')"
    unfolding one_clause_def by auto
  then show ?case
    using 3 by (simp add: splitClauses_def)
qed simp

lemma print_requirement_ends:
  assumes "wf_requirement r"
  shows "print_requirement r \<noteq> [] \<and> is_print (hd (print_requirement r)) \<and> is_print (last (print_requirement r))"
proof -
  have k: "req_Key r \<noteq> []" "is_print (hd (req_Key r))" "is_print (last (req_Key r))"
    using assms validKey_bytes [of "req_Key r"]
    by (auto simp: wf_requirement_def list_all_iff intro: label_byte_print)
  have "is_print (last v)" if "validValue v" "v \<noteq> []" for v
    using that validValue_bytes by (auto simp: list_all_iff intro: label_byte_print)
  moreover have "Op r \<in> {OpEquals, OpNotEquals} \<Longrightarrow> \<exists>v. Values r = [v] \<and> validValue v"
    using assms by (auto simp: wf_requirement_def length_Suc_conv)
  moreover have "is_print CHR ''='' " "is_print CHR ''!''" "is_print CHR '')''"
    by (simp_all add: is_print_def byte_val_def)
  ultimately show ?thesis
    using k assms by (cases "Op r") (auto simp: print_requirement_def wf_requirement_def)
qed

lemma parse_clauses_print:
  "list_all printable_requirement sel \<Longrightarrow> parse_clauses (map print_requirement sel) = Inr sel"
  by (induction sel)
     (auto simp: TrimSpace_id print_requirement_ends parseRequirement_print printable_requirement_def)

lemma TrimSpace_clauses:
  assumes "sel \<noteq> []" "list_all wf_requirement sel"
  shows "TrimSpace (Join (map print_requirement sel) '','') \<noteq> []"
proof -
  have "ws \<noteq> [] \<Longrightarrow> list_all (\<lambda>w. w \<noteq> [] \<and> is_print (hd w) \<and> is_print (last w)) ws \<Longrightarrow>
      Join ws '','' \<noteq> [] \<and> is_print (hd (Join ws '','')) \<and> is_print (last (Join ws '',''))" for ws
    by (induction ws "'',''" rule: Join.induct) auto
  from this [of "map print_requirement sel"] assms show ?thesis
    by (auto simp: list_all_iff print_requirement_ends TrimSpace_id)
qed

text \<open>
  Every selector of printable requirements, printed clause by clause and joined with commas,
  parses back to exactly itself.
\<close>

theorem ParseSelector_roundtrip:
  assumes "list_all printable_requirement sel"
  shows "ParseSelector (Join (map print_requirement sel) '','') = Inr sel"
proof (cases "sel = []")
  case True
  then show ?thesis by (simp add: ParseSelector_def TrimSpace_id)
next
  case False
  have w: "list_all wf_requirement sel"
    using assms by (auto simp: list_all_iff printable_requirement_def)
  have "splitClauses (Join (map print_requirement sel) '','') = map print_requirement sel"
    using False w by (intro splitClauses_Join) (auto simp: list_all_iff one_clause_print)
  with False show ?thesis
    using TrimSpace_clauses [OF False w] parse_clauses_print [OF assms] by (simp add: ParseSelector_def)
qed

definition sample_selector :: Selector where
  "sample_selector = [\<lparr>req_Key = ''team'', Op = OpIn, Values = [''a'', ''b'']\<rparr>,
     \<lparr>req_Key = ''abhed.dev/pool'', Op = OpDoesNotExist, Values = []\<rparr>]"

lemma sample_selector_printable: "list_all printable_requirement sample_selector"
  by (simp add: sample_selector_def printable_requirement_def wf_requirement_def) code_simp

theorem ParseSelector_roundtrip_witness:
  "ParseSelector (Join (map print_requirement sample_selector) '','') = Inr sample_selector"
  using ParseSelector_roundtrip [OF sample_selector_printable] .

end
