(* ===== verification/Settings.thy ===== *)
theory Settings
  imports Labels
begin

text \<open>
  The settings registry: \<^verbatim>\<open>controlplane/settings.go\<close>, \<open>NoLooser\<close> of \<^verbatim>\<open>admission.go\<close>, the tier
  strengths of \<^verbatim>\<open>internal/sandbox/sandbox.go\<close> and the configuration fields and key lookups the registry
  reads (\<^verbatim>\<open>config/config.go\<close>, \<^verbatim>\<open>config/managed.go\<close>). A setting's rank, or its error, is an option;
  the help text of a setting is left out. \<open>SandboxCPUs\<close>, a float in the configuration, is the text
  \<open>strconv.FormatFloat\<close> gives for it, empty for zero. \<open>MilliCPUs\<close> computes in exact thousandths:
  at most seven digits, so the float product rounds to the same integer.
\<close>

section \<open>Tiers\<close>

datatype Tier = TierNone | TierProcess | TierContainer | TierVM | TierFence | TierOther string

fun Strength :: "Tier \<Rightarrow> int" where
  "Strength TierProcess = 1"
| "Strength TierFence = 1"
| "Strength TierContainer = 2"
| "Strength TierVM = 3"
| "Strength TierNone = 0"
| "Strength (TierOther s) = 0"

fun tier_text :: "Tier \<Rightarrow> string" where
  "tier_text TierNone = ''none''"
| "tier_text TierProcess = ''process''"
| "tier_text TierContainer = ''container''"
| "tier_text TierVM = ''vm''"
| "tier_text TierFence = ''fence''"
| "tier_text (TierOther s) = s"

definition TierMicroVM :: string where
  "TierMicroVM = ''microvm''"

definition tierRanks :: "(string, int) gomap" where
  "tierRanks = map (\<lambda>t. (tier_text t, Strength t)) [TierNone, TierProcess, TierFence, TierContainer, TierVM]
     @ [(TierMicroVM, Strength TierVM + 1)]"

definition TierMeets :: "string \<Rightarrow> string \<Rightarrow> bool" where
  "TierMeets tier min_tier =
     (if min_tier = '''' then True
      else case (map_of tierRanks tier, map_of tierRanks min_tier) of
          (Some have_rank, Some need) \<Rightarrow> have_rank \<ge> need
        | _ \<Rightarrow> False)"

section \<open>Ranks\<close>

type_synonym rank_fun = "string \<Rightarrow> int option"

definition intRank :: "int \<Rightarrow> int \<Rightarrow> bool \<Rightarrow> rank_fun" where
  "intRank lo hi lowerTighter v = (case ParseInt v of
       None \<Rightarrow> None
     | Some n \<Rightarrow> if n < lo \<or> n > hi then None else if lowerTighter then Some (- n) else Some n)"

definition enumRank :: "(string, int) gomap \<Rightarrow> rank_fun" where
  "enumRank ranks v = map_of ranks v"

definition digits_upto :: "nat \<Rightarrow> string \<Rightarrow> bool" where
  "digits_upto n s \<longleftrightarrow> s \<noteq> [] \<and> length s \<le> n \<and> list_all is_digit s"

definition MilliCPUs :: "string \<Rightarrow> int option" where
  "MilliCPUs v =
     (case (case Cut v ''.'' of
              None \<Rightarrow> if digits_upto 4 v then Some (1000 * int (dec_val v)) else None
            | Some (a, b) \<Rightarrow>
                if digits_upto 4 a \<and> digits_upto 3 b
                then Some (1000 * int (dec_val a) + int (dec_val (take 3 (b @ ''00'')))) else None) of
        None \<Rightarrow> None
      | Some m \<Rightarrow> if m \<ge> 10 \<and> m \<le> 1024 * 1000 then Some m else None)"

definition unboundedRank :: int where
  "unboundedRank = MinInt64"

definition tierRank :: rank_fun where
  "tierRank v = (if v = '''' then Some 0 else enumRank tierRanks v)"

definition cpusRank :: rank_fun where
  "cpusRank v = (if v = '''' then Some unboundedRank else map_option uminus (MilliCPUs v))"

definition memoryRank :: rank_fun where
  "memoryRank v = (if v = '''' then Some unboundedRank else intRank 16 4194304 True v)"

definition policyRank :: rank_fun where
  "policyRank = enumRank [(RestartAlways, 0), (RestartOnFailure, 1), (RestartNever, 2)]"

section \<open>Configuration\<close>

record ConfigView =
  ExecTimeoutSeconds :: int
  ExecOutputBytes :: int
  RestartPolicy :: string
  MaxRestarts :: "int option"
  RestartBackoffSeconds :: int
  MinTier :: string
  SandboxCPUs :: string
  SandboxMemoryMB :: int
  IdleTimeoutSeconds :: int
  MaxSessionSeconds :: int
  MutationsPerMinute :: int
  ExecPerMinute :: int
  ReconcileSeconds :: int
  ManagedKeys :: "string list"
  SetKeys :: "string list"

definition ManagedSets :: "ConfigView \<Rightarrow> string \<Rightarrow> bool" where
  "ManagedSets c path \<longleftrightarrow> list_ex (\<lambda>k. k = path \<or> HasPrefix k (path @ ''.'') \<or> HasPrefix path (k @ ''.'')) (ManagedKeys c)"

definition config_Sets :: "ConfigView \<Rightarrow> string \<Rightarrow> bool" where
  "config_Sets c path \<longleftrightarrow> list_ex (\<lambda>k. k = path \<or> HasPrefix k (path @ ''.'')) (SetKeys c)"

definition itoa :: "int \<Rightarrow> string" where
  "itoa n = (if n = 0 then '''' else FormatInt n)"

section \<open>The registry\<close>

datatype SettingScope = ScopeGlobal | ScopeSandbox

record Setting =
  Key :: string
  Scope :: SettingScope
  Config :: string
  Default :: string
  Strict :: bool
  rank :: rank_fun
  set_value :: "ConfigView \<Rightarrow> string"

abbreviation SetExecTimeout :: string where "SetExecTimeout \<equiv> ''exec.timeout_seconds''"
abbreviation SetExecOutput :: string where "SetExecOutput \<equiv> ''exec.output_bytes''"
abbreviation SetRestartPolicy :: string where "SetRestartPolicy \<equiv> ''restart.policy''"
abbreviation SetMaxRestarts :: string where "SetMaxRestarts \<equiv> ''restart.max_restarts''"
abbreviation SetRestartBackoff :: string where "SetRestartBackoff \<equiv> ''restart.backoff_seconds''"
abbreviation SetMinTier :: string where "SetMinTier \<equiv> ''isolation.min_tier''"
abbreviation SetMutationsPerMin :: string where "SetMutationsPerMin \<equiv> ''rate.mutations_per_minute''"
abbreviation SetExecPerMin :: string where "SetExecPerMin \<equiv> ''rate.exec_per_minute''"
abbreviation SetReconcileInterval :: string where "SetReconcileInterval \<equiv> ''reconcile.interval_seconds''"
abbreviation SetCPUs :: string where "SetCPUs \<equiv> ''resources.cpus''"
abbreviation SetMemoryMB :: string where "SetMemoryMB \<equiv> ''resources.memory_mb''"
abbreviation SetSSHIdle :: string where "SetSSHIdle \<equiv> ''ssh.idle_timeout_seconds''"
abbreviation SetSSHMaxSession :: string where "SetSSHMaxSession \<equiv> ''ssh.max_session_seconds''"

definition setting :: "string \<Rightarrow> SettingScope \<Rightarrow> string \<Rightarrow> string \<Rightarrow> rank_fun \<Rightarrow> (ConfigView \<Rightarrow> string) \<Rightarrow> Setting" where
  "setting k sc cfg def r val =
     \<lparr>Key = k, Scope = sc, Config = cfg, Default = def, Strict = False, rank = r, set_value = val\<rparr>"

definition Registry :: "Setting list" where
  "Registry =
    [setting SetExecTimeout ScopeSandbox ''control_plane.exec_timeout_seconds'' ''600''
       (intRank 1 86400 True) (\<lambda>c. itoa (ExecTimeoutSeconds c)),
     setting SetExecOutput ScopeSandbox ''control_plane.exec_output_bytes'' (FormatInt 16777216)
       (intRank 1024 1073741824 True) (\<lambda>c. itoa (ExecOutputBytes c)),
     setting SetRestartPolicy ScopeSandbox ''control_plane.restart_policy'' RestartNever policyRank RestartPolicy,
     setting SetMaxRestarts ScopeSandbox ''control_plane.max_restarts'' ''5'' (intRank 0 1000 True)
       (\<lambda>c. case MaxRestarts c of None \<Rightarrow> '''' | Some n \<Rightarrow> FormatInt n),
     setting SetRestartBackoff ScopeSandbox ''control_plane.restart_backoff_seconds'' ''10''
       (intRank 1 3600 False) (\<lambda>c. itoa (RestartBackoffSeconds c)),
     (setting SetMinTier ScopeSandbox ''sandbox.min_tier'' '''' tierRank MinTier)\<lparr>Strict := True\<rparr>,
     setting SetCPUs ScopeSandbox ''control_plane.sandbox_cpus'' '''' cpusRank SandboxCPUs,
     setting SetMemoryMB ScopeSandbox ''control_plane.sandbox_memory_mb'' '''' memoryRank
       (\<lambda>c. itoa (SandboxMemoryMB c)),
     setting SetSSHIdle ScopeSandbox ''control_plane.ssh.idle_timeout_seconds'' ''3600''
       (intRank 1 604800 True) (\<lambda>c. itoa (IdleTimeoutSeconds c)),
     setting SetSSHMaxSession ScopeSandbox ''control_plane.ssh.max_session_seconds'' ''43200''
       (intRank 1 604800 True) (\<lambda>c. itoa (MaxSessionSeconds c)),
     setting SetMutationsPerMin ScopeGlobal ''control_plane.mutations_per_minute'' ''120''
       (intRank 1 100000 True) (\<lambda>c. itoa (MutationsPerMinute c)),
     setting SetExecPerMin ScopeGlobal ''control_plane.exec_per_minute'' ''60''
       (intRank 1 100000 True) (\<lambda>c. itoa (ExecPerMinute c)),
     setting SetReconcileInterval ScopeGlobal ''control_plane.reconcile_seconds'' ''10''
       (intRank 1 3600 True) (\<lambda>c. itoa (ReconcileSeconds c))]"

definition lookup :: "string \<Rightarrow> Setting option" where
  "lookup key = find (\<lambda>s. Key s = key) Registry"

section \<open>Resolved settings\<close>

record Settings =
  global :: strmap
  ceiling :: "(string, bool) gomap"
  source :: strmap

definition get_bool :: "(string, bool) gomap \<Rightarrow> string \<Rightarrow> bool" where
  "get_bool m k = (map_of m k = Some True)"

fun resolve :: "strmap \<Rightarrow> (string, bool) gomap \<Rightarrow> Setting list \<Rightarrow> Settings \<Rightarrow> gerror + Settings" where
  "resolve vals ceilings [] st = Inr st"
| "resolve vals ceilings (def # defs) st =
     (let own = map_of vals (Key def);
          unset = (own = None \<or> own = Some '''');
          v = (if unset then Default def else the own);
          src = (if unset then ''default'' else ''configured'')
      in case rank def v of
           None \<Rightarrow> Inl (Errorf [Sentinel ErrInvalid] ''setting value'')
         | Some r \<Rightarrow>
             (if get_bool ceilings (Key def)
              then resolve vals ceilings defs (st\<lparr>global := AList.update (Key def) v (global st),
                     ceiling := AList.update (Key def) True (ceiling st),
                     source := AList.update (Key def) ''managed'' (source st)\<rparr>)
              else if Strict def \<and> own \<noteq> None \<and> v \<noteq> ''''
              then resolve vals ceilings defs (st\<lparr>global := AList.update (Key def) v (global st),
                     ceiling := AList.update (Key def) True (ceiling st),
                     source := AList.update (Key def) src (source st)\<rparr>)
              else resolve vals ceilings defs (st\<lparr>global := AList.update (Key def) v (global st),
                     source := AList.update (Key def) src (source st)\<rparr>)))"

definition NewSettings :: "strmap \<Rightarrow> (string, bool) gomap \<Rightarrow> gerror + Settings" where
  "NewSettings vals ceilings =
     (if \<not> list_all (\<lambda>(k, v). lookup k \<noteq> None) vals then Inl (Errorf [Sentinel ErrInvalid] ''unknown setting'')
      else resolve vals ceilings Registry \<lparr>global = [], ceiling = [], source = []\<rparr>)"

definition SettingsFromConfig :: "ConfigView \<Rightarrow> gerror + Settings" where
  "SettingsFromConfig cfg =
     (let vals = filter (\<lambda>(k, v). v \<noteq> '''') (map (\<lambda>d. (Key d, set_value d cfg)) Registry);
          ceilings = map (\<lambda>d. (Key d, True)) (filter (\<lambda>d. ManagedSets cfg (Config d)) Registry)
      in case NewSettings vals ceilings of
           Inl e \<Rightarrow> Inl e
         | Inr st \<Rightarrow> Inr (st\<lparr>source := foldl (\<lambda>src d.
               if get_str src (Key d) = ''configured'' \<and> \<not> config_Sets cfg (Config d)
               then AList.update (Key d) ''built-in'' src else src) (source st) Registry\<rparr>))"

definition rank_or_zero :: "Setting \<Rightarrow> string \<Rightarrow> int" where
  "rank_or_zero def v = (case rank def v of None \<Rightarrow> 0 | Some r \<Rightarrow> r)"

fun Check :: "Settings \<Rightarrow> strmap \<Rightarrow> gerror option" where
  "Check st [] = None"
| "Check st ((k, v) # sb) =
     (case lookup k of
        None \<Rightarrow> Some (Errorf [Sentinel ErrInvalid] ''unknown setting'')
      | Some def \<Rightarrow>
          if Scope def \<noteq> ScopeSandbox
          then Some (Errorf [Sentinel ErrInvalid] ''set for the whole server, not per sandbox'')
          else case rank def v of
              None \<Rightarrow> Some (Errorf [Sentinel ErrInvalid] ''setting value'')
            | Some r \<Rightarrow>
                if get_bool (ceiling st) k \<and> r < rank_or_zero def (get_str (global st) k)
                then Some (Errorf [Sentinel ErrInvalid] ''looser than this server allows'')
                else Check st sb)"

definition in_force :: "Settings \<Rightarrow> strmap \<Rightarrow> Setting \<Rightarrow> string" where
  "in_force st sb def =
     (let v = get_str (global st) (Key def)
      in case map_of sb (Key def) of
           None \<Rightarrow> v
         | Some own \<Rightarrow>
             if Scope def \<noteq> ScopeSandbox then v
             else case rank def own of
                 None \<Rightarrow> v
               | Some r \<Rightarrow> if \<not> get_bool (ceiling st) (Key def) \<or> r \<ge> rank_or_zero def v then own else v)"

definition For :: "Settings \<Rightarrow> strmap \<Rightarrow> strmap" where
  "For st sb = map (\<lambda>def. (Key def, in_force st sb def)) Registry"

definition Values_Int :: "strmap \<Rightarrow> string \<Rightarrow> int" where
  "Values_Int vals key = (case ParseInt (get_str vals key) of None \<Rightarrow> 0 | Some n \<Rightarrow> n)"

definition Values_Seconds :: "strmap \<Rightarrow> string \<Rightarrow> duration" where
  "Values_Seconds vals key = wrap64 (Values_Int vals key * Second)"

fun no_looser_loop :: "strmap \<Rightarrow> strmap \<Rightarrow> string list \<Rightarrow> gerror option" where
  "no_looser_loop was now [] = None"
| "no_looser_loop was now (k # ks) =
     (case lookup k of
        None \<Rightarrow> no_looser_loop was now ks
      | Some def \<Rightarrow>
          if Scope def \<noteq> ScopeSandbox then no_looser_loop was now ks
          else case rank def (get_str now k) of
              None \<Rightarrow> Some (Errorf [Sentinel ErrInvalid] ''is looser than'')
            | Some ra \<Rightarrow>
                (case rank def (get_str was k) of
                   None \<Rightarrow> no_looser_loop was now ks
                 | Some rb \<Rightarrow> if ra < rb then Some (Errorf [Sentinel ErrInvalid] ''is looser than'')
                              else no_looser_loop was now ks))"

definition NoLooser :: "Settings \<Rightarrow> strmap \<Rightarrow> strmap \<Rightarrow> gerror option" where
  "NoLooser st before after = no_looser_loop (For st before) (For st after) (sort (keys (For st after)))"

record SettingInfo =
  si_Key :: string
  si_Scope :: SettingScope
  si_Config :: string
  si_Value :: string
  si_Source :: string
  si_Ceiling :: bool

definition Settings_List :: "Settings \<Rightarrow> SettingInfo list" where
  "Settings_List st = map (\<lambda>d. \<lparr>si_Key = Key d, si_Scope = Scope d, si_Config = Config d,
     si_Value = get_str (global st) (Key d), si_Source = get_str (source st) (Key d),
     si_Ceiling = get_bool (ceiling st) (Key d)\<rparr>) Registry"

section \<open>Lemmas on the registry\<close>

lemma Registry_keys: "map Key Registry =
  [SetExecTimeout, SetExecOutput, SetRestartPolicy, SetMaxRestarts, SetRestartBackoff, SetMinTier, SetCPUs,
   SetMemoryMB, SetSSHIdle, SetSSHMaxSession, SetMutationsPerMin, SetExecPerMin, SetReconcileInterval]"
  by (simp add: Registry_def setting_def)

lemma Registry_distinct: "distinct (map Key Registry)"
  unfolding Registry_keys by simp

lemma ParseInt_literals:
  "ParseInt (FormatInt 16777216) = Some 16777216" "ParseInt ''600'' = Some 600" "ParseInt ''5'' = Some 5"
  "ParseInt ''10'' = Some 10" "ParseInt ''3600'' = Some 3600" "ParseInt ''43200'' = Some 43200"
  "ParseInt ''120'' = Some 120" "ParseInt ''60'' = Some 60" "ParseInt ''30'' = Some 30"
  by (rule ParseInt_FormatInt, simp_all)
     (simp_all add: ParseInt_def dec_val_def dec_step_def byte_class_defs)

lemma Registry_defaults: "list_all (\<lambda>d. rank d (Default d) \<noteq> None) Registry"
  by (simp add: Registry_def setting_def intRank_def ParseInt_literals policyRank_def enumRank_def tierRank_def
      cpusRank_def memoryRank_def)

lemma lookup_Some: "lookup k = Some def \<longleftrightarrow> def \<in> set Registry \<and> Key def = k"
proof
  assume "lookup k = Some def"
  then show "def \<in> set Registry \<and> Key def = k"
    by (auto simp: lookup_def find_Some_iff)
next
  assume d: "def \<in> set Registry \<and> Key def = k"
  then obtain def' where "lookup k = Some def'"
    by (cases "lookup k") (auto simp: lookup_def find_None_iff)
  moreover from this have "def' \<in> set Registry" "Key def' = k"
    by (auto simp: lookup_def find_Some_iff)
  ultimately show "lookup k = Some def"
    using d Registry_distinct by (metis distinct_map inj_onD)
qed

lemma lookup_Key [simp]: "def \<in> set Registry \<Longrightarrow> lookup (Key def) = Some def"
  by (simp add: lookup_Some)

lemma map_of_For: "def \<in> set Registry \<Longrightarrow> map_of (For st sb) (Key def) = Some (in_force st sb def)"
proof -
  assume "def \<in> set Registry"
  moreover have "distinct (map fst (For st sb))"
    using Registry_distinct by (simp add: For_def comp_def)
  ultimately show ?thesis
    by (auto simp: For_def intro!: map_of_is_SomeI)
qed

lemma get_For: "def \<in> set Registry \<Longrightarrow> get_str (For st sb) (Key def) = in_force st sb def"
  by (simp add: get_str_def map_of_For)

lemma keys_For: "keys (For st sb) = map Key Registry"
  by (simp add: For_def comp_def)

text \<open>
  A resolved configuration: every setting has a global value its rank accepts, and no value or
  ceiling is kept for anything else.
\<close>

definition wf_settings :: "Settings \<Rightarrow> bool" where
  "wf_settings st \<longleftrightarrow> (\<forall>def \<in> set Registry. \<exists>v r. map_of (global st) (Key def) = Some v \<and> rank def v = Some r)"

lemma resolve_global:
  assumes "resolve vals ceilings defs st = Inr st'" "distinct (map Key defs)" "def \<in> set defs"
  shows "\<exists>v r. map_of (global st') (Key def) = Some v \<and> rank def v = Some r \<and>
    v = (case map_of vals (Key def) of None \<Rightarrow> Default def | Some w \<Rightarrow> if w = '''' then Default def else w) \<and>
    (get_bool (ceiling st') (Key def) \<longleftrightarrow> get_bool (ceiling st) (Key def) \<or> get_bool ceilings (Key def) \<or>
       (Strict def \<and> map_of vals (Key def) \<noteq> None \<and> v \<noteq> ''''))"
proof -
  have other: "resolve vals ceilings ds s = Inr s' \<Longrightarrow> k \<notin> set (map Key ds) \<Longrightarrow>
      map_of (global s') k = map_of (global s) k \<and> get_bool (ceiling s') k = get_bool (ceiling s) k" for ds s s' k
    by (induction ds arbitrary: s)
       (auto simp: Let_def get_bool_def split: if_splits option.splits)
  from assms show ?thesis
  proof (induction defs arbitrary: st)
    case (Cons d ds)
    show ?case
    proof (cases "d = def")
      case True
      then have "Key def \<notin> set (map Key ds)" using Cons.prems(2) by auto
      from other [OF _ this] show ?thesis
        using Cons.prems(1) True
        by (auto simp: Let_def get_bool_def split: if_splits option.splits)
    next
      case False
      then have "Key d \<noteq> Key def" "def \<in> set ds"
        using Cons.prems(2,3) by (auto simp: distinct_map)
      then show ?thesis
        using Cons.prems(1,2) Cons.IH
        by (auto simp: Let_def get_bool_def split: if_splits option.splits)
    qed
  qed simp
qed

lemma NewSettings_wf: "NewSettings vals ceilings = Inr st \<Longrightarrow> wf_settings st"
  unfolding wf_settings_def NewSettings_def
  using resolve_global [OF _ Registry_distinct] by (fastforce split: if_splits)

lemma resolve_total:
  assumes "\<forall>def \<in> set defs. \<forall>w. map_of vals (Key def) = Some w \<and> w \<noteq> '''' \<longrightarrow> rank def w \<noteq> None"
    and "\<forall>def \<in> set defs. rank def (Default def) \<noteq> None"
  shows "\<exists>st'. resolve vals ceilings defs st = Inr st'"
  using assms
proof (induction defs arbitrary: st)
  case (Cons d ds)
  then have "rank d (if map_of vals (Key d) = None \<or> map_of vals (Key d) = Some '''' then Default d
      else the (map_of vals (Key d))) \<noteq> None"
    by auto
  then show ?case
    using Cons by (auto simp: Let_def split: option.splits)
qed simp

lemma NewSettings_total:
  assumes "\<forall>(k, v) \<in> set vals. \<exists>def. lookup k = Some def \<and> (v \<noteq> '''' \<longrightarrow> rank def v \<noteq> None)"
  shows "\<exists>st. NewSettings vals ceilings = Inr st"
proof -
  have "list_all (\<lambda>(k, v). lookup k \<noteq> None) vals"
    using assms by (fastforce simp: list_all_iff)
  moreover have "rank def w \<noteq> None" if "def \<in> set Registry" "map_of vals (Key def) = Some w" "w \<noteq> ''''" for def w
    using map_of_SomeD [OF that(2)] assms that(1,3) by fastforce
  ultimately show ?thesis
    using resolve_total [of Registry vals] Registry_defaults by (auto simp: NewSettings_def list_all_iff)
qed

lemma in_force_rank:
  assumes "wf_settings st" "def \<in> set Registry"
  shows "\<exists>r. rank def (in_force st sb def) = Some r \<and>
    (get_bool (ceiling st) (Key def) \<longrightarrow> rank_or_zero def (get_str (global st) (Key def)) \<le> r)"
proof -
  obtain v r where v: "map_of (global st) (Key def) = Some v" "rank def v = Some r"
    using assms by (auto simp: wf_settings_def)
  then have "get_str (global st) (Key def) = v" "rank_or_zero def v = r"
    by (auto simp: get_str_def rank_or_zero_def)
  with v show ?thesis
    by (auto simp: in_force_def Let_def split: option.splits)
qed

text \<open>
  Whatever settings a sandbox carries, even ones stored before the server was configured more
  tightly, each setting in force for it has a value the registry accepts, and for every setting the
  server caps that value is at least as tight as the cap. Settings of the whole server are never
  taken from a sandbox.
\<close>

theorem settings_held_to_ceilings:
  assumes "NewSettings vals ceilings = Inr st" "def \<in> set Registry"
  shows "\<exists>v r. map_of (For st sb) (Key def) = Some v \<and> rank def v = Some r \<and>
    (get_bool ceilings (Key def) \<longrightarrow> rank_or_zero def (get_str (global st) (Key def)) \<le> r) \<and>
    (Scope def = ScopeGlobal \<longrightarrow> v = get_str (global st) (Key def))"
proof -
  have "resolve vals ceilings Registry \<lparr>global = [], ceiling = [], source = []\<rparr> = Inr st"
    using assms(1) by (simp add: NewSettings_def split: if_splits)
  from resolve_global [OF this Registry_distinct assms(2)]
  have "get_bool ceilings (Key def) \<Longrightarrow> get_bool (ceiling st) (Key def)"
    by auto
  moreover have "Scope def = ScopeGlobal \<Longrightarrow> in_force st sb def = get_str (global st) (Key def)"
    by (auto simp: in_force_def Let_def split: option.splits)
  ultimately show ?thesis
    using in_force_rank [OF NewSettings_wf [OF assms(1)] assms(2), of sb] map_of_For [OF assms(2)] by auto
qed

lemma exec_timeout_def: "lookup SetExecTimeout = Some (hd Registry)" "Key (hd Registry) = SetExecTimeout"
  "hd Registry \<in> set Registry" "Scope (hd Registry) = ScopeSandbox" "rank (hd Registry) = intRank 1 86400 True"
  by (simp_all add: lookup_def Registry_def setting_def)

lemma sample_settings: "\<exists>st. NewSettings [(SetExecTimeout, ''60'')] [(SetExecTimeout, True)] = Inr st"
  by (rule NewSettings_total) (simp add: exec_timeout_def intRank_def ParseInt_literals)

theorem settings_held_to_ceilings_witness:
  "\<exists>st v r. NewSettings [(SetExecTimeout, ''60'')] [(SetExecTimeout, True)] = Inr st \<and>
    map_of (For st [(SetExecTimeout, ''600'')]) SetExecTimeout = Some v \<and> rank (hd Registry) v = Some r \<and>
    rank_or_zero (hd Registry) (get_str (global st) SetExecTimeout) \<le> r"
proof -
  obtain st where st: "NewSettings [(SetExecTimeout, ''60'')] [(SetExecTimeout, True)] = Inr st"
    using sample_settings by blast
  from settings_held_to_ceilings [OF this exec_timeout_def(3), of "[(SetExecTimeout, ''600'')]"] st
  show ?thesis
    by (auto simp: exec_timeout_def get_bool_def)
qed

lemma Check_Cons_None:
  "Check st ((k, v) # sb) = None \<longleftrightarrow> (\<exists>def r. lookup k = Some def \<and> Scope def = ScopeSandbox \<and> rank def v = Some r \<and>
     (get_bool (ceiling st) k \<longrightarrow> rank_or_zero def (get_str (global st) k) \<le> r)) \<and> Check st sb = None"
  by (auto split: option.splits)

lemma Check_None:
  "Check st sb = None \<longleftrightarrow> (\<forall>(k, v) \<in> set sb. \<exists>def r. lookup k = Some def \<and> Scope def = ScopeSandbox \<and>
     rank def v = Some r \<and> (get_bool (ceiling st) k \<longrightarrow> rank_or_zero def (get_str (global st) k) \<le> r))"
  by (induction sb) (auto simp: Check_Cons_None simp del: Check.simps(2))

lemma Check_error: "Check st sb = Some e \<Longrightarrow> errors_Is e ErrInvalid"
  by (induction st sb rule: Check.induct) (auto split: option.splits if_splits)

text \<open>
  A per-sandbox setting the server accepts is the one in force: after a passed check every value
  the sandbox sets is what \<open>For\<close> returns for its key, and every other setting has its global value.
\<close>

theorem checked_settings_in_force:
  assumes "Check st sb = None" "def \<in> set Registry"
  shows "map_of (For st sb) (Key def) =
    Some (case map_of sb (Key def) of Some v \<Rightarrow> v | None \<Rightarrow> get_str (global st) (Key def))"
proof (cases "map_of sb (Key def)")
  case None
  then show ?thesis
    using map_of_For [OF assms(2)] by (simp add: in_force_def)
next
  case (Some v)
  then have "(Key def, v) \<in> set sb" by (rule map_of_SomeD)
  with assms(1) obtain d r where "lookup (Key def) = Some d" "Scope d = ScopeSandbox" "rank d v = Some r"
    "get_bool (ceiling st) (Key def) \<longrightarrow> rank_or_zero d (get_str (global st) (Key def)) \<le> r"
    unfolding Check_None by blast
  moreover from this have "d = def"
    using assms(2) lookup_Some [of "Key def" def] by simp
  ultimately have "in_force st sb def = v"
    using Some by (auto simp: in_force_def Let_def)
  with Some show ?thesis
    using map_of_For [OF assms(2)] by simp
qed

theorem checked_settings_in_force_witness:
  "Check \<lparr>global = [(SetExecTimeout, ''600'')], ceiling = [(SetExecTimeout, True)], source = []\<rparr>
     [(SetExecTimeout, ''60'')] = None \<and>
   map_of (For \<lparr>global = [(SetExecTimeout, ''600'')], ceiling = [(SetExecTimeout, True)], source = []\<rparr>
     [(SetExecTimeout, ''60'')]) SetExecTimeout = Some ''60''"
proof -
  have c: "Check \<lparr>global = [(SetExecTimeout, ''600'')], ceiling = [(SetExecTimeout, True)], source = []\<rparr>
     [(SetExecTimeout, ''60'')] = None"
    by (simp add: exec_timeout_def intRank_def ParseInt_literals rank_or_zero_def get_str_def)
  with checked_settings_in_force [OF c exec_timeout_def(3)] show ?thesis
    by (simp add: exec_timeout_def)
qed

section \<open>Lemmas on loosening\<close>

lemma no_looser_loop_None:
  "no_looser_loop was now ks = None \<longleftrightarrow> (\<forall>k \<in> set ks. \<forall>def. lookup k = Some def \<and> Scope def = ScopeSandbox \<longrightarrow>
     (\<exists>ra. rank def (get_str now k) = Some ra \<and> (\<forall>rb. rank def (get_str was k) = Some rb \<longrightarrow> rb \<le> ra)))"
  by (induction was now ks rule: no_looser_loop.induct) (auto split: option.splits if_splits)

lemma no_looser_loop_error: "no_looser_loop was now ks = Some e \<Longrightarrow> errors_Is e ErrInvalid"
  by (induction was now ks rule: no_looser_loop.induct) (auto split: option.splits if_splits)

text \<open>The order on settings \<open>NoLooser\<close> decides.\<close>

definition at_least_as_tight :: "Settings \<Rightarrow> strmap \<Rightarrow> strmap \<Rightarrow> bool" where
  "at_least_as_tight st before after \<longleftrightarrow> (\<forall>def \<in> set Registry. Scope def = ScopeSandbox \<longrightarrow>
     (\<exists>rb ra. rank def (in_force st before def) = Some rb \<and> rank def (in_force st after def) = Some ra \<and> rb \<le> ra))"

lemma NoLooser_None:
  assumes "wf_settings st"
  shows "NoLooser st before after = None \<longleftrightarrow> at_least_as_tight st before after"
proof -
  have "NoLooser st before after = None \<longleftrightarrow> (\<forall>def \<in> set Registry. Scope def = ScopeSandbox \<longrightarrow>
     (\<exists>ra. rank def (in_force st after def) = Some ra \<and>
        (\<forall>rb. rank def (in_force st before def) = Some rb \<longrightarrow> rb \<le> ra)))"
    by (simp add: NoLooser_def no_looser_loop_None keys_For get_For)
  also have "\<dots> \<longleftrightarrow> at_least_as_tight st before after"
    using in_force_rank [OF assms] unfolding at_least_as_tight_def by (metis option.inject)
  finally show ?thesis .
qed

text \<open>
  \<open>NoLooser\<close> refuses exactly the changes that loosen a setting in force, and accepting is a
  preorder: leaving the settings alone always passes, and two changes that each pass pass together,
  so no chain of admitted changes ever loosens what a sandbox started with.
\<close>

theorem NoLooser_preorder:
  assumes "NewSettings vals ceilings = Inr st"
  shows "(NoLooser st a b = None \<longleftrightarrow> at_least_as_tight st a b) \<and> NoLooser st a a = None \<and>
    (NoLooser st a b = None \<and> NoLooser st b c = None \<longrightarrow> NoLooser st a c = None)"
proof -
  have wf: "wf_settings st"
    using assms by (rule NewSettings_wf)
  have "at_least_as_tight st a a"
    using in_force_rank [OF wf] unfolding at_least_as_tight_def by blast
  moreover have "at_least_as_tight st a b \<Longrightarrow> at_least_as_tight st b c \<Longrightarrow> at_least_as_tight st a c"
    unfolding at_least_as_tight_def by (metis order_trans option.inject)
  ultimately show ?thesis
    by (simp add: NoLooser_None [OF wf])
qed

theorem NoLooser_preorder_witness:
  "\<exists>st. NewSettings [(SetExecTimeout, ''60'')] [(SetExecTimeout, True)] = Inr st \<and>
     NoLooser st [(SetExecTimeout, ''30'')] [(SetExecTimeout, ''30'')] = None"
  using sample_settings NoLooser_preorder by blast

section \<open>Lemmas on tiers\<close>

lemma TierMeets_iff:
  "TierMeets t m \<longleftrightarrow> m = '''' \<or> (\<exists>a b. map_of tierRanks t = Some a \<and> map_of tierRanks m = Some b \<and> b \<le> a)"
  by (auto simp: TierMeets_def split: option.splits)

text \<open>
  Meeting a minimum tier is transitive and every known tier meets itself; a tier nobody knows
  meets no minimum, and a minimum nobody knows is met by nothing.
\<close>

theorem TierMeets_order:
  "(TierMeets t m \<and> TierMeets m n \<longrightarrow> n = '''' \<or> TierMeets t n) \<and>
   (t \<in> fst ` set tierRanks \<longrightarrow> TierMeets t t) \<and>
   (t \<notin> fst ` set tierRanks \<and> m \<noteq> '''' \<longrightarrow> \<not> TierMeets t m) \<and>
   (m \<notin> fst ` set tierRanks \<and> m \<noteq> '''' \<longrightarrow> \<not> TierMeets t m)"
proof -
  have empty: "map_of tierRanks '''' = None"
    by (simp add: tierRanks_def TierMicroVM_def)
  then have "TierMeets t m \<and> TierMeets m n \<Longrightarrow> n = '''' \<or> TierMeets t n"
    by (auto simp: TierMeets_iff)
  moreover have "t \<in> fst ` set tierRanks \<Longrightarrow> TierMeets t t"
    by (metis TierMeets_iff map_of_eq_None_iff not_Some_eq order_refl)
  moreover have "map_of tierRanks x = None" if "x \<notin> fst ` set tierRanks" for x
    using that by (simp add: map_of_eq_None_iff)
  ultimately show ?thesis
    by (auto simp: TierMeets_iff)
qed

theorem TierMeets_order_witness:
  "TierMeets ''vm'' ''container'' \<and> TierMeets ''container'' ''process'' \<and> TierMeets ''vm'' ''process'' \<and>
   TierMeets ''fence'' ''fence'' \<and> \<not> TierMeets ''wall'' ''process'' \<and> \<not> TierMeets ''vm'' ''wall''"
proof -
  have m: "TierMeets ''vm'' ''container'' \<and> TierMeets ''container'' ''process''"
    by (simp add: TierMeets_def tierRanks_def)
  have k: "''fence'' \<in> fst ` set tierRanks" "''wall'' \<notin> fst ` set tierRanks"
    by (simp_all add: tierRanks_def TierMicroVM_def)
  from m k TierMeets_order [of "''vm''" "''container''" "''process''"] TierMeets_order [of "''fence''"]
    TierMeets_order [of "''wall''" "''process''"] TierMeets_order [of "''vm''" "''wall''"]
  show ?thesis
    by simp
qed

end
