(* ===== verification/Store.thy ===== *)
theory Store
  imports Settings
begin

text \<open>
  The stores of \<^verbatim>\<open>controlplane\<close>: entity tags (\<^verbatim>\<open>etag.go\<close>), the store contract and \<open>Mutate\<close>
  (\<^verbatim>\<open>store.go\<close>), the in-memory store with its sandboxes, record and templates (\<^verbatim>\<open>memory.go\<close>,
  \<^verbatim>\<open>audit.go\<close>, \<^verbatim>\<open>template.go\<close>); the idempotency records are in theory \<open>Idem\<close>.

  A Go interface is a record of functions over the state \<open>'m\<close> of whatever implements it. A store
  method holds the store's lock from start to end, so it is one function of that state. A
  \<open>Clone\<close> is the value itself. The store's counters are unbounded integers: \<open>int64\<close> would need
  \<open>2 ^ 63\<close> writes to wrap. A panic is \<^const>\<open>None\<close>.
\<close>

section \<open>Entity tags\<close>

definition quote :: char where
  "quote = CHR 0x22"

definition ETag :: "int \<Rightarrow> string" where
  "ETag rv = quote # FormatInt rv @ [quote]"

fun check_tags :: "string list \<Rightarrow> int \<Rightarrow> bool \<Rightarrow> gerror + bool" where
  "check_tags [] current matched = Inr matched"
| "check_tags (t # tags) current matched =
     (let tag = TrimSpace t
      in if HasPrefix tag ''W/''
         then Inl (Errorf [Sentinel ErrInvalid] ''If-Match needs a strong entity tag'')
         else if length tag < 3 \<or> hd tag \<noteq> quote \<or> last tag \<noteq> quote
         then Inl (Errorf [Sentinel ErrInvalid] ''If-Match entity tag'')
         else case ParseInt (butlast (tl tag)) of
             None \<Rightarrow> Inl (Errorf [Sentinel ErrInvalid] ''If-Match entity tag'')
           | Some rv \<Rightarrow>
               if rv < 1 then Inl (Errorf [Sentinel ErrInvalid] ''If-Match entity tag'')
               else check_tags tags current (matched \<or> rv = current))"

definition CheckIfMatch :: "string \<Rightarrow> int \<Rightarrow> gerror option" where
  "CheckIfMatch header current =
     (let h = TrimSpace header
      in if h = '''' then None
         else if h = ''*'' then None
         else case check_tags (Split CHR '','' h) current False of
             Inl e \<Rightarrow> Some e
           | Inr matched \<Rightarrow>
               if matched then None else Some (Errorf [Sentinel ErrPreconditionFailed] ''the sandbox is at''))"

section \<open>Listing options\<close>

record ListOptions =
  lo_Selector :: Selector
  lo_State :: State
  lo_Owner :: string
  lo_Labels :: strmap
  lo_Limit :: int
  lo_After :: string

text \<open>The zero value of the struct; the empty \<open>State\<close> string is \<open>StateOther ''''\<close>.\<close>

definition list_all_options :: ListOptions where
  "list_all_options = \<lparr>lo_Selector = [], lo_State = StateOther '''', lo_Owner = '''', lo_Labels = [],
     lo_Limit = 0, lo_After = ''''\<rparr>"

abbreviation DefaultLimit :: int where
  "DefaultLimit \<equiv> 100"

abbreviation MaxLimit :: int where
  "MaxLimit \<equiv> 1000"

definition PageSize :: "int \<Rightarrow> nat" where
  "PageSize limit = nat (if limit \<le> 0 then DefaultLimit else if limit > MaxLimit then MaxLimit else limit)"

definition ListOptions_Matches :: "ListOptions \<Rightarrow> Sandbox \<Rightarrow> bool option" where
  "ListOptions_Matches opts s =
     (if (lo_State opts = StateOther '''' \<or> sb_State s = lo_State opts) \<and>
         (lo_Owner opts = '''' \<or> Owner s = lo_Owner opts) \<and>
         (lo_Labels opts = [] \<or> scoped (lo_Labels opts) (sb_Labels s))
      then Selector_Matches (lo_Selector opts) (sb_Labels s) else Some False)"

text \<open>
  The loop the three lists share: keep what matches until the page is full, and when one more
  matches return the last key as the cursor.
\<close>

fun page :: "('a \<Rightarrow> bool option) \<Rightarrow> ('a \<Rightarrow> 'k) \<Rightarrow> 'k \<Rightarrow> nat \<Rightarrow> 'a list \<Rightarrow> 'a list \<Rightarrow> ('a list \<times> 'k) option" where
  "page matches key none limit out [] = Some (out, none)"
| "page matches key none limit out (x # xs) =
     (case matches x of
        None \<Rightarrow> None
      | Some False \<Rightarrow> page matches key none limit out xs
      | Some True \<Rightarrow>
          if length out = limit then Some (out, key (last out))
          else page matches key none limit (out @ [x]) xs)"

section \<open>Records and templates\<close>

datatype IdemState = IdemPending | IdemDone | IdemOther string

record IdemRecord =
  idem_Scope :: string
  idem_Key :: string
  RequestHash :: string
  idem_State :: IdemState
  idem_Status :: int
  Body :: "char list"
  ExpiresAt :: time
  Token :: string

abbreviation OutcomeRequested :: string where
  "OutcomeRequested \<equiv> ''requested''"

abbreviation OutcomeOK :: string where
  "OutcomeOK \<equiv> ''ok''"

abbreviation OutcomeFailed :: string where
  "OutcomeFailed \<equiv> ''failed''"

abbreviation SystemPrincipal :: string where
  "SystemPrincipal \<equiv> ''system:reconciler''"

record AuditEvent =
  Seq :: int
  At :: time
  ev_Principal :: string
  Action :: string
  SandboxID :: string
  ev_Generation :: int
  Outcome :: string
  ev_Code :: string
  Detail :: strmap

record Template =
  tmpl_Name :: string
  Description :: string
  tmpl_Driver :: string
  tmpl_Labels :: strmap
  tmpl_Settings :: strmap
  tmpl_Owner :: string
  tmpl_ResourceVersion :: int
  tmpl_CreatedAt :: time

record TemplateListOptions =
  to_Selector :: Selector
  to_Limit :: int
  to_After :: string

definition ValidTemplateName :: "string \<Rightarrow> bool" where
  "ValidTemplateName n = (case n of
       [] \<Rightarrow> False
     | c # cs \<Rightarrow> is_alnum c \<and> length cs \<le> 62 \<and> list_all (\<lambda>d. is_alnum d \<or> d \<in> set ''._-'') cs)"

section \<open>Interfaces\<close>

record 'm Store =
  st_Create :: "Sandbox \<Rightarrow> 'm \<Rightarrow> (gerror + Sandbox) \<times> 'm"
  st_Get :: "string \<Rightarrow> 'm \<Rightarrow> gerror + Sandbox"
  st_List :: "ListOptions \<Rightarrow> 'm \<Rightarrow> (gerror + Sandbox list \<times> string) option"
  st_Update :: "Sandbox \<Rightarrow> int \<Rightarrow> 'm \<Rightarrow> (gerror + Sandbox) \<times> 'm"
  st_Delete :: "string \<Rightarrow> int \<Rightarrow> 'm \<Rightarrow> gerror option \<times> 'm"

record 'm IdempotencyStore =
  is_Claim :: "IdemRecord \<Rightarrow> time \<Rightarrow> 'm \<Rightarrow> (gerror + IdemRecord \<times> bool) \<times> 'm"
  is_Renew :: "string \<Rightarrow> string \<Rightarrow> string \<Rightarrow> time \<Rightarrow> 'm \<Rightarrow> gerror option \<times> 'm"
  is_Complete :: "string \<Rightarrow> string \<Rightarrow> string \<Rightarrow> int \<Rightarrow> char list \<Rightarrow> time \<Rightarrow> 'm \<Rightarrow> gerror option \<times> 'm"
  is_Release :: "string \<Rightarrow> string \<Rightarrow> string \<Rightarrow> 'm \<Rightarrow> gerror option \<times> 'm"

record 'm AuditLog =
  al_Append :: "AuditEvent \<Rightarrow> 'm \<Rightarrow> gerror option \<times> 'm"
  al_AuditFor :: "(string \<Rightarrow> 'm \<Rightarrow> gerror + AuditEvent list) option"

record 'm TemplateStore =
  ts_CreateTemplate :: "Template \<Rightarrow> 'm \<Rightarrow> (gerror + Template) \<times> 'm"
  ts_GetTemplate :: "string \<Rightarrow> 'm \<Rightarrow> gerror + Template"
  ts_ListTemplates :: "TemplateListOptions \<Rightarrow> 'm \<Rightarrow> (gerror + Template list \<times> string) option"
  ts_DeleteTemplate :: "string \<Rightarrow> int \<Rightarrow> 'm \<Rightarrow> gerror option \<times> 'm"

section \<open>The memory store\<close>

record Memory =
  rv :: int
  sandboxes :: "(string, Sandbox) gomap"
  idem :: "(string \<times> string, IdemRecord) gomap"
  swept :: time
  audit :: "AuditEvent list"
  templates :: "(string, Template) gomap"
  auditSeq :: int

definition NewMemory :: Memory where
  "NewMemory = \<lparr>rv = 0, sandboxes = [], idem = [], swept = 0, audit = [], templates = [], auditSeq = 0\<rparr>"

definition Memory_Create :: "Sandbox \<Rightarrow> Memory \<Rightarrow> (gerror + Sandbox) \<times> Memory" where
  "Memory_Create s m =
     (if \<not> ValidID (ID s) then (Inl (Errorf [Sentinel ErrInvalid] ''sandbox id''), m)
      else if \<not> State_Valid (sb_State s) then (Inl (Errorf [Sentinel ErrInvalid] ''state''), m)
      else if map_of (sandboxes m) (ID s) \<noteq> None then (Inl (Errorf [Sentinel ErrExists] ''sandbox''), m)
      else let s' = s\<lparr>ResourceVersion := rv m + 1\<rparr>
           in (Inr s', m\<lparr>rv := rv m + 1, sandboxes := AList.update (ID s) s' (sandboxes m)\<rparr>))"

definition Memory_Get :: "string \<Rightarrow> Memory \<Rightarrow> gerror + Sandbox" where
  "Memory_Get i m = (case map_of (sandboxes m) i of
       None \<Rightarrow> Inl (Errorf [Sentinel ErrNotFound] ''sandbox'')
     | Some s \<Rightarrow> Inr s)"

definition Memory_List :: "ListOptions \<Rightarrow> Memory \<Rightarrow> (gerror + Sandbox list \<times> string) option" where
  "Memory_List opts m =
     (let ids = sort (filter (\<lambda>i. lo_After opts < i) (keys (sandboxes m)))
      in map_option Inr (page (ListOptions_Matches opts) ID '''' (PageSize (lo_Limit opts)) []
           (map (\<lambda>i. the (map_of (sandboxes m) i)) ids)))"

definition CheckImmutable :: "Sandbox \<Rightarrow> Sandbox \<Rightarrow> gerror option" where
  "CheckImmutable cur next =
     (if Owner next \<noteq> Owner cur then Some (Errorf [Sentinel ErrInvalid] ''owner cannot change'')
      else if sb_Driver next \<noteq> sb_Driver cur then Some (Errorf [Sentinel ErrInvalid] ''driver cannot change'')
      else if CreatedAt next \<noteq> CreatedAt cur then Some (Errorf [Sentinel ErrInvalid] ''created_at cannot change'')
      else if Generation next < Generation cur
      then Some (Errorf [Sentinel ErrInvalid] ''generation cannot go down'')
      else None)"

definition Memory_Update :: "Sandbox \<Rightarrow> int \<Rightarrow> Memory \<Rightarrow> (gerror + Sandbox) \<times> Memory" where
  "Memory_Update s expect m =
     (if \<not> State_Valid (sb_State s) then (Inl (Errorf [Sentinel ErrInvalid] ''state''), m)
      else case map_of (sandboxes m) (ID s) of
          None \<Rightarrow> (Inl (Errorf [Sentinel ErrNotFound] ''sandbox''), m)
        | Some cur \<Rightarrow>
            if ResourceVersion cur \<noteq> expect then (Inl (Errorf [Sentinel ErrVersionMismatch] ''sandbox''), m)
            else case CheckImmutable cur s of
                Some e \<Rightarrow> (Inl e, m)
              | None \<Rightarrow>
                  let s' = s\<lparr>ResourceVersion := rv m + 1\<rparr>
                  in (Inr s', m\<lparr>rv := rv m + 1, sandboxes := AList.update (ID s) s' (sandboxes m)\<rparr>))"

definition Memory_Delete :: "string \<Rightarrow> int \<Rightarrow> Memory \<Rightarrow> gerror option \<times> Memory" where
  "Memory_Delete i expect m = (case map_of (sandboxes m) i of
       None \<Rightarrow> (Some (Errorf [Sentinel ErrNotFound] ''sandbox''), m)
     | Some cur \<Rightarrow>
         if ResourceVersion cur \<noteq> expect then (Some (Errorf [Sentinel ErrVersionMismatch] ''sandbox''), m)
         else (None, m\<lparr>sandboxes := AList.delete i (sandboxes m)\<rparr>))"

definition Memory_Append :: "AuditEvent \<Rightarrow> Memory \<Rightarrow> gerror option \<times> Memory" where
  "Memory_Append ev m =
     (None, m\<lparr>auditSeq := auditSeq m + 1, audit := audit m @ [ev\<lparr>Seq := auditSeq m + 1\<rparr>]\<rparr>)"

definition Memory_AuditFor :: "string \<Rightarrow> Memory \<Rightarrow> gerror + AuditEvent list" where
  "Memory_AuditFor i m = Inr (filter (\<lambda>ev. SandboxID ev = i) (audit m))"

definition PageTemplates :: "Template list \<Rightarrow> TemplateListOptions \<Rightarrow> (Template list \<times> string) option" where
  "PageTemplates all opts =
     page (\<lambda>t. if tmpl_Name t \<le> to_After opts then Some False else Selector_Matches (to_Selector opts) (tmpl_Labels t))
       tmpl_Name '''' (PageSize (to_Limit opts)) [] all"

definition Memory_CreateTemplate :: "Template \<Rightarrow> Memory \<Rightarrow> (gerror + Template) \<times> Memory" where
  "Memory_CreateTemplate t m =
     (if \<not> ValidTemplateName (tmpl_Name t) then (Inl (Errorf [Sentinel ErrInvalid] ''template name''), m)
      else if map_of (templates m) (tmpl_Name t) \<noteq> None then (Inl (Errorf [Sentinel ErrExists] ''template''), m)
      else let t' = t\<lparr>tmpl_ResourceVersion := rv m + 1\<rparr>
           in (Inr t', m\<lparr>rv := rv m + 1, templates := AList.update (tmpl_Name t) t' (templates m)\<rparr>))"

definition Memory_GetTemplate :: "string \<Rightarrow> Memory \<Rightarrow> gerror + Template" where
  "Memory_GetTemplate name m = (case map_of (templates m) name of
       None \<Rightarrow> Inl (Errorf [Sentinel ErrNotFound] ''template'')
     | Some t \<Rightarrow> Inr t)"

definition Memory_ListTemplates :: "TemplateListOptions \<Rightarrow> Memory \<Rightarrow> (gerror + Template list \<times> string) option" where
  "Memory_ListTemplates opts m = map_option Inr (PageTemplates (sort_key tmpl_Name (map snd (templates m))) opts)"

definition Memory_DeleteTemplate :: "string \<Rightarrow> int \<Rightarrow> Memory \<Rightarrow> gerror option \<times> Memory" where
  "Memory_DeleteTemplate name expect m = (case map_of (templates m) name of
       None \<Rightarrow> (Some (Errorf [Sentinel ErrNotFound] ''template''), m)
     | Some t \<Rightarrow>
         if tmpl_ResourceVersion t \<noteq> expect then (Some (Errorf [Sentinel ErrVersionMismatch] ''template''), m)
         else (None, m\<lparr>templates := AList.delete name (templates m)\<rparr>))"

definition memory_store :: "Memory Store" where
  "memory_store = \<lparr>st_Create = Memory_Create, st_Get = Memory_Get, st_List = Memory_List,
     st_Update = Memory_Update, st_Delete = Memory_Delete\<rparr>"

definition memory_audit :: "Memory AuditLog" where
  "memory_audit = \<lparr>al_Append = Memory_Append, al_AuditFor = Some Memory_AuditFor\<rparr>"

definition memory_templates :: "Memory TemplateStore" where
  "memory_templates = \<lparr>ts_CreateTemplate = Memory_CreateTemplate, ts_GetTemplate = Memory_GetTemplate,
     ts_ListTemplates = Memory_ListTemplates, ts_DeleteTemplate = Memory_DeleteTemplate\<rparr>"

section \<open>Running beside other writers\<close>

text \<open>
  The world an operation runs in: the store's state, the state of everything outside the program
  (drivers, clock, guard), and what other writers (requests, passes, replicas) do between two calls
  of the operation: the next function of \<open>others\<close> runs just before each call of the store.
\<close>

record ('m, 'x) world =
  mem :: 'm
  ext :: 'x
  others :: "('m \<Rightarrow> 'm) list"

definition others_step :: "('m, 'x, 'z) world_scheme \<Rightarrow> 'm" where
  "others_step w = (case others w of [] \<Rightarrow> mem w | g # gs \<Rightarrow> g (mem w))"

text \<open>What a store becomes by writes of others, one after the other.\<close>

definition writes :: "('m \<Rightarrow> 'm) list \<Rightarrow> 'm \<Rightarrow> 'm" where
  "writes gs m = foldl (\<lambda>m g. g m) m gs"

lemma writes_simps [simp]: "writes [] m = m" "writes (g # gs) m = writes gs (g m)" "writes (gs @ hs) m = writes hs (writes gs m)"
  by (simp_all add: writes_def)

definition call :: "('m \<Rightarrow> 'a \<times> 'm) \<Rightarrow> (('m, 'x, 'z) world_scheme, 'a) state" where
  "call f = State (\<lambda>w. let (a, m) = f (others_step w) in (a, w\<lparr>mem := m, others := tl (others w)\<rparr>))"

definition outside :: "('x \<Rightarrow> 'a \<times> 'x) \<Rightarrow> (('m, 'x, 'z) world_scheme, 'a) state" where
  "outside f = State (\<lambda>w. let (a, x) = f (ext w) in (a, w\<lparr>ext := x\<rparr>))"

lemma run_outside: "run_state (outside f) w = (fst (f (ext w)), w\<lparr>ext := snd (f (ext w))\<rparr>)"
  by (simp add: outside_def split_beta)

lemma run_call_others: "\<exists>gs. others w = gs @ tl (others w) \<and> others_step w = writes gs (mem w)"
proof (cases "others w")
  case (Cons g gs)
  then show ?thesis by (intro exI [of _ "[g]"]) (simp add: others_step_def)
qed (simp add: others_step_def)

definition mutateRetries :: nat where
  "mutateRetries = 5"

text \<open>
  \<open>Mutate\<close>: \<open>c\<close> holds the variables the closure \<open>fn\<close> captures and assigns, \<open>left\<close> is
  \<open>mutateRetries - attempt\<close>.
\<close>

fun mutate_loop :: "'m Store \<Rightarrow> string \<Rightarrow> string \<Rightarrow> (Sandbox \<Rightarrow> 'c \<Rightarrow> (('m, 'x, 'z) world_scheme, (gerror + Sandbox) \<times> 'c) state)
    \<Rightarrow> 'c \<Rightarrow> nat \<Rightarrow> (('m, 'x, 'z) world_scheme, (gerror + Sandbox) \<times> 'c) state" where
  "mutate_loop st i ifMatch fn c left = do {
     got \<leftarrow> call (\<lambda>m. (st_Get st i m, m));
     (case got of
        Inl e \<Rightarrow> ret (Inl e, c)
      | Inr cur \<Rightarrow>
          (case CheckIfMatch ifMatch (ResourceVersion cur) of
             Some e \<Rightarrow> ret (Inl e, c)
           | None \<Rightarrow> do {
               (r, c) \<leftarrow> fn cur c;
               (case r of
                  Inl e \<Rightarrow> ret (Inl e, c)
                | Inr next \<Rightarrow> do {
                    out \<leftarrow> call (st_Update st next (ResourceVersion cur));
                    (case out of
                       Inr s \<Rightarrow> ret (Inr s, c)
                     | Inl e \<Rightarrow>
                         if \<not> errors_Is e ErrVersionMismatch then ret (Inl e, c)
                         else if TrimSpace ifMatch \<noteq> '''' \<and> TrimSpace ifMatch \<noteq> ''*''
                         then ret (Inl (Errorf [Sentinel ErrPreconditionFailed] (Error e)), c)
                         else (case left of
                             0 \<Rightarrow> ret (Inl e, c)
                           | Suc n \<Rightarrow> mutate_loop st i ifMatch fn c n))
                  })
             }))
   }"

declare mutate_loop.simps [simp del]

definition Mutate :: "'m Store \<Rightarrow> string \<Rightarrow> string \<Rightarrow> (Sandbox \<Rightarrow> 'c \<Rightarrow> (('m, 'x, 'z) world_scheme, (gerror + Sandbox) \<times> 'c) state)
    \<Rightarrow> 'c \<Rightarrow> (('m, 'x, 'z) world_scheme, (gerror + Sandbox) \<times> 'c) state" where
  "Mutate st i ifMatch fn c = mutate_loop st i ifMatch fn c mutateRetries"

text \<open>A closure that only changes the sandbox it is given.\<close>

definition pure_fn :: "(Sandbox \<Rightarrow> gerror + Sandbox) \<Rightarrow> Sandbox \<Rightarrow> unit \<Rightarrow> ('w, (gerror + Sandbox) \<times> unit) state" where
  "pure_fn f s c = ret (f s, ())"

section \<open>Lemmas on entity tags\<close>

lemma quote_print [simp]: "is_print quote"
  by (simp add: quote_def is_print_def byte_val_def)

lemma ETag_ends: "ETag v \<noteq> []" "hd (ETag v) = quote" "last (ETag v) = quote" "3 \<le> length (ETag v)"
  "butlast (tl (ETag v)) = FormatInt v"
  using FormatInt_nonempty [of v] by (auto simp: ETag_def neq_Nil_conv simp del: FormatInt_nonempty)

lemma ETag_bytes: "c \<in> set (ETag v) \<Longrightarrow> c = quote \<or> is_digit c \<or> c = CHR ''-''"
  by (auto simp: ETag_def dest: FormatInt_bytes)

lemma ETag_no_comma: "CHR '','' \<notin> set (ETag v)"
  using ETag_bytes [of "CHR '',''" v] by (auto simp: quote_def byte_class_defs)

lemma TrimSpace_ETag [simp]: "TrimSpace (ETag v) = ETag v"
  by (simp add: TrimSpace_id ETag_ends)

lemma not_weak_ETag: "\<not> HasPrefix (ETag v) ''W/''"
  by (simp add: HasPrefix_def ETag_def quote_def)

lemma check_tags_ETags:
  "list_all (\<lambda>v. 1 \<le> v \<and> v \<le> MaxInt64) vs \<Longrightarrow>
   check_tags (map ETag vs) current matched = Inr (matched \<or> current \<in> set vs)"
proof (induction vs arbitrary: matched)
  case (Cons v vs)
  then have "ParseInt (FormatInt v) = Some v"
    by (intro ParseInt_FormatInt) auto
  moreover have "\<not> length (ETag v) < 3"
    using ETag_ends(4) [of v] by linarith
  ultimately show ?case
    using Cons by (auto simp: Let_def ETag_ends not_weak_ETag)
qed simp

lemma Join_ETags_ends:
  "vs \<noteq> [] \<Longrightarrow> Join (map ETag vs) '','' \<noteq> [] \<and> hd (Join (map ETag vs) '','') = quote \<and>
     last (Join (map ETag vs) '','') = quote"
proof (induction vs)
  case (Cons w ws)
  then show ?case
    by (cases ws) (simp_all add: ETag_ends)
qed simp

lemma CheckIfMatch_ETags:
  assumes "vs \<noteq> []" "list_all (\<lambda>v. 1 \<le> v \<and> v \<le> MaxInt64) vs"
  shows "CheckIfMatch (Join (map ETag vs) '','') current =
    (if current \<in> set vs then None else Some (Errorf [Sentinel ErrPreconditionFailed] ''the sandbox is at''))"
proof -
  have "Split CHR '','' (Join (map ETag vs) '','') = map ETag vs"
    using assms(1) ETag_no_comma by (intro Split_Join) (auto simp: list_all_iff)
  moreover have "TrimSpace (Join (map ETag vs) '','') = Join (map ETag vs) '',''"
    using Join_ETags_ends [OF assms(1)] by (simp add: TrimSpace_id)
  moreover have "Join (map ETag vs) '','' \<noteq> ''*''"
    using Join_ETags_ends [OF assms(1)] by (auto simp: quote_def)
  ultimately show ?thesis
    using Join_ETags_ends [OF assms(1)] check_tags_ETags [OF assms(2), of current False]
    by (simp add: CheckIfMatch_def Let_def)
qed

lemma CheckIfMatch_ETag: "1 \<le> v \<Longrightarrow> v \<le> MaxInt64 \<Longrightarrow> CheckIfMatch (ETag v) current = None \<longleftrightarrow> v = current"
  using CheckIfMatch_ETags [of "[v]" current] by (auto split: if_splits)

text \<open>
  If-Match. A header made of the entity tags of resource versions passes exactly when one of
  them is the current version and is a failed precondition (412) otherwise; no header and \<open>*\<close>
  always pass.
\<close>

theorem CheckIfMatch_tags:
  assumes "vs \<noteq> []" "list_all (\<lambda>v. 1 \<le> v \<and> v \<le> MaxInt64) vs"
  shows "CheckIfMatch (Join (map ETag vs) '','') current =
      (if current \<in> set vs then None else Some (Errorf [Sentinel ErrPreconditionFailed] ''the sandbox is at'')) \<and>
    CheckIfMatch '''' current = None \<and> CheckIfMatch ''*'' current = None"
proof -
  have "TrimSpace '''' = ''''" "TrimSpace ''*'' = ''*''"
    by (simp_all add: TrimSpace_id is_print_def byte_val_def)
  then show ?thesis
    using CheckIfMatch_ETags [OF assms] by (simp add: CheckIfMatch_def)
qed

theorem CheckIfMatch_tags_witness:
  "CheckIfMatch (Join (map ETag [3, 7]) '','') 7 = None \<and>
   CheckIfMatch (Join (map ETag [3, 7]) '','') 8 = Some (Errorf [Sentinel ErrPreconditionFailed] ''the sandbox is at'')"
  using CheckIfMatch_tags [of "[3, 7]" 7] CheckIfMatch_tags [of "[3, 7]" 8] by simp

lemma check_tags_error: "check_tags tags current matched = Inl e \<Longrightarrow> errors_Is e ErrInvalid"
  by (induction tags current matched rule: check_tags.induct) (auto simp: Let_def split: if_splits option.splits)

lemma CheckIfMatch_error: "CheckIfMatch h current = Some e \<Longrightarrow> errors_Is e ErrInvalid \<or> errors_Is e ErrPreconditionFailed"
  by (auto simp: CheckIfMatch_def Let_def dest: check_tags_error split: if_splits sum.splits)

section \<open>Paging\<close>

lemma page_closed_form:
  assumes "\<forall>x \<in> set xs. matches x = Some (P x)" "length out \<le> limit" "0 < limit"
  shows "page matches key none limit out xs =
    Some (if length out + length (filter P xs) \<le> limit then (out @ filter P xs, none)
          else (take limit (out @ filter P xs), key ((out @ filter P xs) ! (limit - 1))))"
  using assms
proof (induction xs arbitrary: out)
  case (Cons x xs)
  show ?case
  proof (cases "P x \<and> length out = limit")
    case True
    then show ?thesis
      using Cons.prems by (auto simp: nth_append last_conv_nth)
  next
    case False
    then show ?thesis
      using Cons.prems Cons.IH [of out] Cons.IH [of "out @ [x]"] by auto
  qed
qed simp

text \<open>A client that follows cursors: it asks again from each cursor until it gets none.\<close>

fun walk :: "('k \<Rightarrow> ('a list \<times> 'k) option) \<Rightarrow> 'k \<Rightarrow> nat \<Rightarrow> 'k \<Rightarrow> 'a list option" where
  "walk fetch none 0 after = None"
| "walk fetch none (Suc n) after = (case fetch after of
       None \<Rightarrow> None
     | Some (xs, next) \<Rightarrow> if next = none then Some xs else map_option ((@) xs) (walk fetch none n next))"

text \<open>
  What a paged list promises of a state \<open>s\<close>: its items have distinct keys in increasing order, and a
  fetch after a key returns the next \<open>limit\<close> items past it, with a cursor when more remain.
\<close>

locale paged =
  fixes ok :: "'s \<Rightarrow> bool"
    and items :: "'s \<Rightarrow> 'a list"
    and key :: "'a \<Rightarrow> 'k :: linorder"
    and none :: 'k
    and limit :: "'s \<Rightarrow> nat"
    and fetch :: "'s \<Rightarrow> 'k \<Rightarrow> ('a list \<times> 'k) option"
  assumes ordered: "ok s \<Longrightarrow> sorted_wrt (\<lambda>x y. key x < key y) (items s)"
    and none_least: "ok s \<Longrightarrow> x \<in> set (items s) \<Longrightarrow> none < key x"
    and limit_pos: "ok s \<Longrightarrow> 0 < limit s"
    and fetch_page: "ok s \<Longrightarrow> fetch s after =
      (let rest = filter (\<lambda>x. after < key x) (items s)
       in Some (if length rest \<le> limit s then (rest, none)
                else (take (limit s) rest, key (rest ! (limit s - 1)))))"
begin

lemma filter_past_nth:
  assumes "sorted_wrt (\<lambda>x y. key x < key y) xs" "i < length xs"
  shows "filter (\<lambda>x. key (xs ! i) < key x) xs = drop (Suc i) xs"
  using assms
proof (induction xs arbitrary: i)
  case (Cons x xs)
  show ?case
  proof (cases i)
    case 0
    with Cons.prems show ?thesis
      by (auto simp: filter_id_conv)
  next
    case (Suc j)
    with Cons.prems have "key x < key (xs ! j)" "j < length xs"
      by auto
    with Cons Suc show ?thesis
      by (simp add: less_imp_not_less)
  qed
qed simp

lemma filter_past_again:
  assumes "ok s" "0 < n" "n < length (filter (\<lambda>x. after < key x) (items s))"
  shows "filter (\<lambda>x. key (filter (\<lambda>x. after < key x) (items s) ! (n - 1)) < key x) (items s) =
    drop n (filter (\<lambda>x. after < key x) (items s))"
proof -
  let ?rest = "filter (\<lambda>x. after < key x) (items s)"
  let ?c = "key (?rest ! (n - 1))"
  have "?rest ! (n - 1) \<in> set ?rest"
    using assms(2,3) by (intro nth_mem) simp
  then have "after < ?c" by simp
  then have "filter (\<lambda>x. ?c < key x) (items s) = filter (\<lambda>x. ?c < key x) ?rest"
    by (auto intro!: filter_cong)
  also have "\<dots> = drop n ?rest"
    using filter_past_nth [of ?rest "n - 1"] ordered [OF assms(1)] assms(2,3)
    by (simp add: sorted_wrt_filter)
  finally show ?thesis .
qed

lemma walk_after:
  assumes "ok s" "length (filter (\<lambda>x. after < key x) (items s)) < n"
  shows "walk (fetch s) none n after = Some (filter (\<lambda>x. after < key x) (items s))"
  using assms(2)
proof (induction n arbitrary: after)
  case (Suc n)
  let ?rest = "filter (\<lambda>x. after < key x) (items s)"
  let ?c = "key (?rest ! (limit s - 1))"
  show ?case
  proof (cases "length ?rest \<le> limit s")
    case True
    then show ?thesis
      using fetch_page [OF assms(1)] by (simp add: Let_def)
  next
    case False
    then have past: "filter (\<lambda>x. ?c < key x) (items s) = drop (limit s) ?rest"
      using filter_past_again [OF assms(1) limit_pos [OF assms(1)]] by simp
    have "?rest ! (limit s - 1) \<in> set ?rest"
      using False limit_pos [OF assms(1)] by (intro nth_mem) linarith
    then have "?c \<noteq> none"
      using none_least [OF assms(1)] by fastforce
    moreover have "walk (fetch s) none n ?c = Some (drop (limit s) ?rest)"
      using Suc past limit_pos [OF assms(1)] False by simp
    moreover have "fetch s after = Some (take (limit s) ?rest, ?c)"
      using False fetch_page [OF assms(1)] by (simp add: Let_def)
    ultimately show ?thesis
      by simp
  qed
qed simp

lemma walk_complete:
  assumes "ok s" "length (items s) < n"
  shows "walk (fetch s) none n none = Some (items s)"
proof -
  have "filter (\<lambda>x. none < key x) (items s) = items s"
    using none_least [OF assms(1)] by (simp add: filter_id_conv)
  then show ?thesis
    using walk_after [OF assms(1), of none n] assms(2) by simp
qed

end

section \<open>The memory store's invariant\<close>

definition memory_inv :: "Memory \<Rightarrow> bool" where
  "memory_inv m \<longleftrightarrow>
     wf_map (sandboxes m) \<and> wf_map (templates m) \<and> wf_map (idem m) \<and> 0 \<le> rv m \<and>
     (\<forall>i s. map_of (sandboxes m) i = Some s \<longrightarrow>
        ID s = i \<and> ValidID i \<and> State_Valid (sb_State s) \<and> 1 \<le> ResourceVersion s \<and> ResourceVersion s \<le> rv m) \<and>
     (\<forall>n t. map_of (templates m) n = Some t \<longrightarrow>
        tmpl_Name t = n \<and> ValidTemplateName n \<and> 1 \<le> tmpl_ResourceVersion t \<and> tmpl_ResourceVersion t \<le> rv m) \<and>
     sorted_wrt (<) (map Seq (audit m)) \<and> (\<forall>ev \<in> set (audit m). 1 \<le> Seq ev \<and> Seq ev \<le> auditSeq m) \<and> 0 \<le> auditSeq m"

lemma memory_inv_New [simp]: "memory_inv NewMemory"
  by (simp add: memory_inv_def NewMemory_def)

lemma memory_inv_Create [inv_intros]: "memory_inv m \<Longrightarrow> memory_inv (snd (Memory_Create s m))"
  unfolding memory_inv_def Memory_Create_def Let_def
  by (auto simp: le_Suc_eq split: if_splits) (metis dual_order.trans zle_add1_eq_le zless_add1_eq order_less_imp_le)+

lemma memory_inv_Update [inv_intros]: "memory_inv m \<Longrightarrow> memory_inv (snd (Memory_Update s expect m))"
  unfolding memory_inv_def Memory_Update_def Let_def
  by (auto split: if_splits option.splits) fastforce+

lemma memory_inv_Delete [inv_intros]: "memory_inv m \<Longrightarrow> memory_inv (snd (Memory_Delete i expect m))"
  unfolding memory_inv_def Memory_Delete_def
  by (auto split: if_splits option.splits)

lemma memory_inv_CreateTemplate [inv_intros]: "memory_inv m \<Longrightarrow> memory_inv (snd (Memory_CreateTemplate t m))"
  unfolding memory_inv_def Memory_CreateTemplate_def Let_def
  by (auto split: if_splits) fastforce+

lemma memory_inv_DeleteTemplate [inv_intros]: "memory_inv m \<Longrightarrow> memory_inv (snd (Memory_DeleteTemplate n expect m))"
  unfolding memory_inv_def Memory_DeleteTemplate_def
  by (auto split: if_splits option.splits)

lemma memory_inv_Append [inv_intros]: "memory_inv m \<Longrightarrow> memory_inv (snd (Memory_Append ev m))"
  unfolding memory_inv_def Memory_Append_def
  by (auto simp: sorted_wrt_append)

section \<open>The three lists are paged\<close>

text \<open>
  The items a list selects. Well-formed selectors (all that \<open>ParseSelector\<close> returns) never panic,
  so the match of an item is a truth value.
\<close>

definition listed :: "ListOptions \<Rightarrow> Sandbox \<Rightarrow> bool" where
  "listed opts s \<longleftrightarrow> (lo_State opts = StateOther '''' \<or> sb_State s = lo_State opts) \<and>
     (lo_Owner opts = '''' \<or> Owner s = lo_Owner opts) \<and> scoped (lo_Labels opts) (sb_Labels s) \<and>
     list_all (satisfies (sb_Labels s)) (lo_Selector opts)"

lemma ListOptions_Matches_listed:
  "list_all wf_requirement (lo_Selector opts) \<Longrightarrow> ListOptions_Matches opts s = Some (listed opts s)"
  by (auto simp: ListOptions_Matches_def listed_def Selector_Matches_wf scoped_def)

definition sandboxes_by_id :: "Memory \<Rightarrow> Sandbox list" where
  "sandboxes_by_id m = map (\<lambda>i. the (map_of (sandboxes m) i)) (sort (keys (sandboxes m)))"

lemma sandboxes_by_id_set: "memory_inv m \<Longrightarrow> s \<in> set (sandboxes_by_id m) \<longleftrightarrow> map_of (sandboxes m) (ID s) = Some s"
proof -
  assume inv: "memory_inv m"
  have "s \<in> set (sandboxes_by_id m) \<longleftrightarrow> (\<exists>i. map_of (sandboxes m) i = Some s)"
  proof
    assume "s \<in> set (sandboxes_by_id m)"
    then obtain i where "i \<in> fst ` set (sandboxes m)" "s = the (map_of (sandboxes m) i)"
      by (auto simp: sandboxes_by_id_def)
    then show "\<exists>i. map_of (sandboxes m) i = Some s"
      by (metis map_of_eq_None_iff option.exhaust_sel)
  next
    assume "\<exists>i. map_of (sandboxes m) i = Some s"
    then obtain i where i: "map_of (sandboxes m) i = Some s" by blast
    then have "i \<in> fst ` set (sandboxes m)" "s = the (map_of (sandboxes m) i)"
      by (auto dest: map_of_SomeD intro: rev_image_eqI)
    then show "s \<in> set (sandboxes_by_id m)"
      by (auto simp: sandboxes_by_id_def)
  qed
  also have "\<dots> \<longleftrightarrow> map_of (sandboxes m) (ID s) = Some s"
    using inv by (auto simp: memory_inv_def)
  finally show ?thesis .
qed

lemma map_ID_by_id: "memory_inv m \<Longrightarrow> map ID (sandboxes_by_id m) = sort (keys (sandboxes m))"
proof -
  assume inv: "memory_inv m"
  have "ID (the (map_of (sandboxes m) i)) = i" if "i \<in> set (sort (keys (sandboxes m)))" for i
  proof -
    from that have "map_of (sandboxes m) i \<noteq> None"
      by (simp add: map_of_eq_None_iff)
    with inv show ?thesis
      by (auto simp: memory_inv_def)
  qed
  then show ?thesis
    by (simp add: sandboxes_by_id_def) (intro map_idI, simp)
qed

lemma strictly_sorted: "sorted xs \<Longrightarrow> distinct xs \<Longrightarrow> sorted_wrt (<) (xs :: 'k :: linorder list)"
  by (simp add: strict_sorted_iff)

lemma sandboxes_by_id_ordered: "memory_inv m \<Longrightarrow> sorted_wrt (\<lambda>x y. ID x < ID y) (sandboxes_by_id m)"
proof -
  assume inv: "memory_inv m"
  then have "sorted_wrt (<) (sort (keys (sandboxes m)))"
    by (intro strictly_sorted) (auto simp: memory_inv_def wf_map_def)
  then have "sorted_wrt (<) (map ID (sandboxes_by_id m))"
    using map_ID_by_id [OF inv] by simp
  then show ?thesis
    by (simp add: sorted_wrt_map)
qed

definition list_page :: "ListOptions \<times> Memory \<Rightarrow> string \<Rightarrow> (Sandbox list \<times> string) option" where
  "list_page = (\<lambda>(opts, m) after. case Memory_List (opts\<lparr>lo_After := after\<rparr>) m of
     Some (Inr p) \<Rightarrow> Some p | _ \<Rightarrow> None)"

lemma Memory_List_page:
  assumes "memory_inv m" "list_all wf_requirement (lo_Selector opts)"
  shows "list_page (opts, m) after =
    (let rest = filter (\<lambda>s. after < ID s) (filter (listed opts) (sandboxes_by_id m))
     in Some (if length rest \<le> PageSize (lo_Limit opts) then (rest, '''')
              else (take (PageSize (lo_Limit opts)) rest, ID (rest ! (PageSize (lo_Limit opts) - 1)))))"
proof -
  let ?o = "opts\<lparr>lo_After := after\<rparr>"
  have "map (\<lambda>i. the (map_of (sandboxes m) i)) (sort (filter (\<lambda>i. after < i) (keys (sandboxes m)))) =
      filter (\<lambda>s. after < ID s) (sandboxes_by_id m)"
    (is "map ?g ?ids = _")
  proof -
    have "?ids = filter (\<lambda>i. after < i) (map ID (sandboxes_by_id m))"
      using map_ID_by_id [OF assms(1)] by (simp add: filter_sort)
    then have "map ?g ?ids = map (?g \<circ> ID) (filter (\<lambda>s. after < ID s) (sandboxes_by_id m))"
      by (simp add: filter_map comp_def)
    also have "\<dots> = filter (\<lambda>s. after < ID s) (sandboxes_by_id m)"
      using sandboxes_by_id_set [OF assms(1)] by (auto intro!: map_idI)
    finally show ?thesis .
  qed
  moreover have "0 < PageSize (lo_Limit opts)"
    by (simp add: PageSize_def)
  moreover have "listed ?o = listed opts"
    by (rule ext) (simp add: listed_def)
  ultimately show ?thesis
    using assms(2) page_closed_form [of _ "ListOptions_Matches ?o" "listed ?o" "[]" "PageSize (lo_Limit opts)" ID]
    by (simp add: list_page_def Memory_List_def ListOptions_Matches_listed filter_filter conj_commute Let_def cong: filter_cong)
qed

lemma ValidID_nonempty: "ValidID i \<Longrightarrow> i \<noteq> []"
  by (rule notI) (simp add: ValidID_def HasPrefix_def idPrefix_def)

lemma sandbox_id_nonempty: "memory_inv m \<Longrightarrow> s \<in> set (sandboxes_by_id m) \<Longrightarrow> '''' < ID s"
proof -
  assume "memory_inv m" "s \<in> set (sandboxes_by_id m)"
  then have "map_of (sandboxes m) (ID s) = Some s"
    using sandboxes_by_id_set by blast
  then have "ValidID (ID s)"
    using \<open>memory_inv m\<close> unfolding memory_inv_def by blast
  then have "ID s \<noteq> []"
    using ValidID_nonempty by blast
  then show ?thesis
    by (cases "ID s") simp_all
qed

interpretation sandbox_pages: paged
  "\<lambda>(opts, m). memory_inv m \<and> list_all wf_requirement (lo_Selector opts)"
  "\<lambda>(opts, m). filter (listed opts) (sandboxes_by_id m)" ID "''''"
  "\<lambda>(opts, m). PageSize (lo_Limit opts)" list_page
proof
  fix s :: "ListOptions \<times> Memory" and after
  assume "case s of (opts, m) \<Rightarrow> memory_inv m \<and> list_all wf_requirement (lo_Selector opts)"
  then obtain opts m where s: "s = (opts, m)" "memory_inv m" "list_all wf_requirement (lo_Selector opts)"
    by (cases s) auto
  show "sorted_wrt (\<lambda>x y. ID x < ID y) (case s of (opts, m) \<Rightarrow> filter (listed opts) (sandboxes_by_id m))"
    using s sandboxes_by_id_ordered by (simp add: sorted_wrt_filter)
  show "'''' < ID x" if "x \<in> set (case s of (opts, m) \<Rightarrow> filter (listed opts) (sandboxes_by_id m))" for x
    using that s sandbox_id_nonempty by simp
  show "0 < (case s of (opts, m) \<Rightarrow> PageSize (lo_Limit opts))"
    by (simp add: s PageSize_def)
  show "list_page s after = (let rest = filter (\<lambda>x. after < ID x) (case s of (opts, m) \<Rightarrow> filter (listed opts) (sandboxes_by_id m))
      in Some (if length rest \<le> (case s of (opts, m) \<Rightarrow> PageSize (lo_Limit opts)) then (rest, '''')
        else (take (case s of (opts, m) \<Rightarrow> PageSize (lo_Limit opts)) rest,
              ID (rest ! ((case s of (opts, m) \<Rightarrow> PageSize (lo_Limit opts)) - 1)))))"
    unfolding s(1) prod.case by (rule Memory_List_page [OF s(2,3)])
qed

text \<open>
  Listing is complete. For any options, a client that follows the cursors from the start gets
  exactly the sandboxes that match, each once, in the order of their ids, whatever the page size;
  one page more than there are sandboxes is always enough.
\<close>

theorem list_pages_complete:
  assumes "memory_inv m" "list_all wf_requirement (lo_Selector opts)" "length (sandboxes m) < n"
  shows "\<exists>all. walk (list_page (opts, m)) '''' n '''' = Some all \<and> sorted_wrt (\<lambda>x y. ID x < ID y) all \<and>
    (\<forall>s. s \<in> set all \<longleftrightarrow> map_of (sandboxes m) (ID s) = Some s \<and> listed opts s)"
proof -
  have "length (filter (listed opts) (sandboxes_by_id m)) \<le> length (sandboxes m)"
    by (metis length_filter_le length_map length_sort sandboxes_by_id_def)
  then have "walk (list_page (opts, m)) '''' n '''' = Some (filter (listed opts) (sandboxes_by_id m))"
    using sandbox_pages.walk_complete [of "(opts, m)" n] assms by simp
  then show ?thesis
    using sandboxes_by_id_set [OF assms(1)] sandboxes_by_id_ordered [OF assms(1)]
    by (auto simp: sorted_wrt_filter)
qed

definition sample_memory :: Memory where
  "sample_memory = NewMemory\<lparr>rv := 1,
     sandboxes := [(ID sample_sandbox, sample_sandbox\<lparr>ResourceVersion := 1\<rparr>)]\<rparr>"

lemma sample_memory_inv: "memory_inv sample_memory"
  by (simp add: memory_inv_def sample_memory_def NewMemory_def sample_sandbox_def wf_map_def State_Valid_def) code_simp

theorem list_pages_complete_witness:
  "\<exists>all. walk (list_page (list_all_options, sample_memory)) '''' 2 '''' = Some all \<and>
     sample_sandbox\<lparr>ResourceVersion := 1\<rparr> \<in> set all"
proof -
  have "list_all wf_requirement (lo_Selector list_all_options)" "length (sandboxes sample_memory) < 2"
    by (simp_all add: list_all_options_def sample_memory_def)
  from list_pages_complete [OF sample_memory_inv this]
  obtain all where all: "walk (list_page (list_all_options, sample_memory)) '''' 2 '''' = Some all"
    and mem: "\<forall>s. s \<in> set all \<longleftrightarrow> map_of (sandboxes sample_memory) (ID s) = Some s \<and> listed list_all_options s"
    by blast
  have "map_of (sandboxes sample_memory) (ID (sample_sandbox\<lparr>ResourceVersion := 1\<rparr>)) =
      Some (sample_sandbox\<lparr>ResourceVersion := 1\<rparr>)" "listed list_all_options (sample_sandbox\<lparr>ResourceVersion := 1\<rparr>)"
    by (simp_all add: sample_memory_def listed_def list_all_options_def scoped_def)
  with all mem show ?thesis
    by blast
qed

definition templates_by_name :: "Memory \<Rightarrow> Template list" where
  "templates_by_name m = sort_key tmpl_Name (map snd (templates m))"

lemma templates_names: "memory_inv m \<Longrightarrow> map tmpl_Name (map snd (templates m)) = keys (templates m)"
  by (auto simp: memory_inv_def wf_map_get)

lemma templates_by_name_ordered: "memory_inv m \<Longrightarrow> sorted_wrt (\<lambda>x y. tmpl_Name x < tmpl_Name y) (templates_by_name m)"
proof -
  assume inv: "memory_inv m"
  have "distinct (map tmpl_Name (map snd (templates m)))"
    using inv unfolding templates_names [OF inv] by (simp add: memory_inv_def wf_map_def)
  then have "distinct (map tmpl_Name (templates_by_name m))"
    unfolding templates_by_name_def distinct_map set_sort distinct_sort .
  moreover have "sorted (map tmpl_Name (templates_by_name m))"
    by (simp add: templates_by_name_def)
  ultimately have "sorted_wrt (<) (map tmpl_Name (templates_by_name m))"
    by (rule strictly_sorted [rotated])
  then show ?thesis
    by (simp add: sorted_wrt_map)
qed

definition template_page :: "TemplateListOptions \<times> Memory \<Rightarrow> string \<Rightarrow> (Template list \<times> string) option" where
  "template_page = (\<lambda>(opts, m) after. case Memory_ListTemplates (opts\<lparr>to_After := after\<rparr>) m of
     Some (Inr p) \<Rightarrow> Some p | _ \<Rightarrow> None)"

definition template_listed :: "TemplateListOptions \<Rightarrow> Template \<Rightarrow> bool" where
  "template_listed opts t \<longleftrightarrow> list_all (satisfies (tmpl_Labels t)) (to_Selector opts)"

lemma Memory_ListTemplates_page:
  assumes "list_all wf_requirement (to_Selector opts)"
  shows "template_page (opts, m) after =
    (let rest = filter (\<lambda>t. after < tmpl_Name t) (filter (template_listed opts) (templates_by_name m))
     in Some (if length rest \<le> PageSize (to_Limit opts) then (rest, '''')
              else (take (PageSize (to_Limit opts)) rest, tmpl_Name (rest ! (PageSize (to_Limit opts) - 1)))))"
proof -
  let ?P = "\<lambda>t. template_listed opts t \<and> after < tmpl_Name t"
  let ?m = "\<lambda>t. if tmpl_Name t \<le> after then Some False else Selector_Matches (to_Selector opts) (tmpl_Labels t)"
  have "\<forall>t \<in> set (templates_by_name m). ?m t = Some (?P t)"
    using assms by (auto simp: Selector_Matches_wf template_listed_def not_le)
  moreover have "0 < PageSize (to_Limit opts)"
    by (simp add: PageSize_def)
  ultimately have "page ?m tmpl_Name '''' (PageSize (to_Limit opts)) [] (templates_by_name m) =
      Some (if length (filter ?P (templates_by_name m)) \<le> PageSize (to_Limit opts) then (filter ?P (templates_by_name m), '''')
        else (take (PageSize (to_Limit opts)) (filter ?P (templates_by_name m)),
              tmpl_Name (filter ?P (templates_by_name m) ! (PageSize (to_Limit opts) - 1))))"
    using page_closed_form [of "templates_by_name m" ?m ?P "[]" "PageSize (to_Limit opts)" tmpl_Name "''''"] by simp
  then show ?thesis
    unfolding template_page_def Memory_ListTemplates_def PageTemplates_def
    by (simp add: templates_by_name_def filter_filter Let_def cong: if_cong)
qed

interpretation template_pages: paged
  "\<lambda>(opts, m). memory_inv m \<and> list_all wf_requirement (to_Selector opts)"
  "\<lambda>(opts, m). filter (template_listed opts) (templates_by_name m)" tmpl_Name "''''"
  "\<lambda>(opts, m). PageSize (to_Limit opts)" template_page
proof
  fix s :: "TemplateListOptions \<times> Memory" and after
  assume "case s of (opts, m) \<Rightarrow> memory_inv m \<and> list_all wf_requirement (to_Selector opts)"
  then obtain opts m where s: "s = (opts, m)" "memory_inv m" "list_all wf_requirement (to_Selector opts)"
    by (cases s) auto
  show "sorted_wrt (\<lambda>x y. tmpl_Name x < tmpl_Name y) (case s of (opts, m) \<Rightarrow> filter (template_listed opts) (templates_by_name m))"
    using s templates_by_name_ordered by (simp add: sorted_wrt_filter)
  show "'''' < tmpl_Name x" if "x \<in> set (case s of (opts, m) \<Rightarrow> filter (template_listed opts) (templates_by_name m))" for x
  proof -
    from that s(1) obtain n where "(n, x) \<in> set (templates m)"
      by (auto simp: templates_by_name_def)
    with s(2) have "ValidTemplateName (tmpl_Name x)"
      unfolding memory_inv_def by (metis wf_map_get)
    then show ?thesis
      by (cases "tmpl_Name x") (simp_all add: ValidTemplateName_def)
  qed
  show "0 < (case s of (opts, m) \<Rightarrow> PageSize (to_Limit opts))"
    by (simp add: s PageSize_def)
  show "template_page s after = (let rest = filter (\<lambda>x. after < tmpl_Name x)
        (case s of (opts, m) \<Rightarrow> filter (template_listed opts) (templates_by_name m))
      in Some (if length rest \<le> (case s of (opts, m) \<Rightarrow> PageSize (to_Limit opts)) then (rest, '''')
        else (take (case s of (opts, m) \<Rightarrow> PageSize (to_Limit opts)) rest,
              tmpl_Name (rest ! ((case s of (opts, m) \<Rightarrow> PageSize (to_Limit opts)) - 1)))))"
    unfolding s(1) prod.case by (rule Memory_ListTemplates_page [OF s(3)])
qed

text \<open>
  Listing templates is complete: following the cursors from the start returns every template
  whose labels satisfy the selector, once, in the order of their names.
\<close>

theorem template_pages_complete:
  assumes "memory_inv m" "list_all wf_requirement (to_Selector opts)" "length (templates m) < n"
  shows "\<exists>all. walk (template_page (opts, m)) '''' n '''' = Some all \<and>
    sorted_wrt (\<lambda>x y. tmpl_Name x < tmpl_Name y) all \<and>
    set all = {t. map_of (templates m) (tmpl_Name t) = Some t \<and> list_all (satisfies (tmpl_Labels t)) (to_Selector opts)}"
proof -
  have "length (filter (template_listed opts) (templates_by_name m)) \<le> length (templates m)"
    by (metis length_filter_le length_map length_sort templates_by_name_def)
  then have "walk (template_page (opts, m)) '''' n '''' = Some (filter (template_listed opts) (templates_by_name m))"
    using template_pages.walk_complete [of "(opts, m)" n] assms by simp
  moreover have "t \<in> set (templates_by_name m) \<longleftrightarrow> map_of (templates m) (tmpl_Name t) = Some t" for t
  proof -
    have wf: "wf_map (templates m)" and names: "\<And>n t. map_of (templates m) n = Some t \<Longrightarrow> tmpl_Name t = n"
      using assms(1) by (auto simp: memory_inv_def)
    have "t \<in> set (templates_by_name m) \<longleftrightarrow> (\<exists>n. map_of (templates m) n = Some t)"
      by (force simp: templates_by_name_def wf_map_get [OF wf])
    with names show ?thesis by metis
  qed
  ultimately show ?thesis
    using templates_by_name_ordered [OF assms(1)]
    by (auto simp: sorted_wrt_filter template_listed_def)
qed

definition sample_template :: Template where
  "sample_template = \<lparr>tmpl_Name = ''dev'', Description = '''', tmpl_Driver = ''process'', tmpl_Labels = [(''team'', ''a'')],
     tmpl_Settings = [], tmpl_Owner = ''root'', tmpl_ResourceVersion = 1, tmpl_CreatedAt = 0\<rparr>"

theorem template_pages_complete_witness:
  "\<exists>all. walk (template_page (\<lparr>to_Selector = [], to_Limit = 1, to_After = ''''\<rparr>,
      NewMemory\<lparr>rv := 1, templates := [(''dev'', sample_template)]\<rparr>)) '''' 2 '''' = Some all \<and> set all = {sample_template}"
proof -
  let ?m = "NewMemory\<lparr>rv := 1, templates := [(''dev'', sample_template)]\<rparr>"
  have "memory_inv ?m"
    by (simp add: memory_inv_def NewMemory_def sample_template_def wf_map_def ValidTemplateName_def byte_class_defs)
  moreover have "{t. map_of (templates ?m) (tmpl_Name t) = Some t \<and> list_all (satisfies (tmpl_Labels t)) []} = {sample_template}"
    by (auto simp: sample_template_def split: if_splits)
  ultimately show ?thesis
    using template_pages_complete [of ?m "\<lparr>to_Selector = [], to_Limit = 1, to_After = ''''\<rparr>" 2] by auto
qed

end
