(* ===== verification/Mutation.thy ===== *)
theory Mutation
  imports Store
begin

text \<open>
  What \<open>Mutate\<close> (\<^verbatim>\<open>store.go\<close>) guarantees on any store that keeps the contract of the \<open>Store\<close>
  interface, and that the memory store keeps it. The contract is the locale \<open>sandbox_store\<close>: \<open>tbl\<close>
  is the table of sandboxes a store state holds, \<open>ver\<close> the last resource version it gave out and
  \<open>good\<close> its invariant. Other writers run between any two calls (\<open>others\<close> of the world); all that is
  asked of them is that they, too, never reuse a resource version (\<open>later\<close>).
\<close>

section \<open>Versions are never reused\<close>

definition later :: "('m \<Rightarrow> string \<Rightarrow> Sandbox option) \<Rightarrow> ('m \<Rightarrow> int) \<Rightarrow> ('m \<Rightarrow> bool) \<Rightarrow> 'm \<Rightarrow> 'm \<Rightarrow> bool" where
  "later tbl ver good m m' \<longleftrightarrow> (good m \<longrightarrow> good m' \<and> ver m \<le> ver m' \<and>
     (\<forall>i s. tbl m' i = Some s \<longrightarrow> tbl m i = Some s \<or> ver m < ResourceVersion s))"

lemma later_refl: "later tbl ver good m m"
  by (simp add: later_def)

lemma later_trans: "later tbl ver good m n \<Longrightarrow> later tbl ver good n k \<Longrightarrow> later tbl ver good m k"
  unfolding later_def by (meson le_less_trans order_trans)

lemma later_good: "later tbl ver good m m' \<Longrightarrow> good m \<Longrightarrow> good m'"
  by (simp add: later_def)

section \<open>The contract of a store\<close>

locale sandbox_store =
  fixes st :: "'m Store"
    and tbl :: "'m \<Rightarrow> string \<Rightarrow> Sandbox option"
    and ver :: "'m \<Rightarrow> int"
    and good :: "'m \<Rightarrow> bool"
  assumes known_versions: "good m \<Longrightarrow> tbl m i = Some s \<Longrightarrow> ID s = i \<and> ResourceVersion s \<le> ver m"
    and Get_Inr: "good m \<Longrightarrow> st_Get st i m = Inr s \<Longrightarrow> tbl m i = Some s"
    and Create_Inr: "good m \<Longrightarrow> st_Create st s m = (Inr s', m') \<Longrightarrow>
      tbl m (ID s) = None \<and> s' = s\<lparr>ResourceVersion := ver m'\<rparr> \<and> ver m < ver m' \<and> tbl m' = (tbl m)(ID s \<mapsto> s') \<and> good m'"
    and Create_Inl: "good m \<Longrightarrow> st_Create st s m = (Inl e, m') \<Longrightarrow> tbl m' = tbl m \<and> ver m \<le> ver m' \<and> good m'"
    and Update_Inr: "good m \<Longrightarrow> st_Update st s expect m = (Inr s', m') \<Longrightarrow>
      (\<exists>cur. tbl m (ID s) = Some cur \<and> ResourceVersion cur = expect \<and> CheckImmutable cur s = None \<and>
         State_Valid (sb_State s)) \<and>
      s' = s\<lparr>ResourceVersion := ver m'\<rparr> \<and> ver m < ver m' \<and> tbl m' = (tbl m)(ID s \<mapsto> s') \<and> good m'"
    and Update_Inl: "good m \<Longrightarrow> st_Update st s expect m = (Inl e, m') \<Longrightarrow> tbl m' = tbl m \<and> ver m \<le> ver m' \<and> good m'"
    and Delete_None: "good m \<Longrightarrow> st_Delete st i expect m = (None, m') \<Longrightarrow>
      (\<exists>cur. tbl m i = Some cur \<and> ResourceVersion cur = expect) \<and> tbl m' = (tbl m)(i := None) \<and> ver m \<le> ver m' \<and> good m'"
    and Delete_Some: "good m \<Longrightarrow> st_Delete st i expect m = (Some e, m') \<Longrightarrow> tbl m' = tbl m \<and> ver m \<le> ver m' \<and> good m'"
begin

abbreviation "step_later \<equiv> later tbl ver good"

lemma later_Create: "step_later m (snd (st_Create st s m))"
proof (cases "st_Create st s m")
  case (Pair r m')
  then show ?thesis
    using Create_Inl [of m s] Create_Inr [of m s]
    by (cases r) (auto simp: later_def split: if_splits)
qed

lemma later_Update: "step_later m (snd (st_Update st s expect m))"
proof (cases "st_Update st s expect m")
  case (Pair r m')
  then show ?thesis
    using Update_Inl [of m s expect] Update_Inr [of m s expect]
    by (cases r) (auto simp: later_def split: if_splits)
qed

lemma later_Delete: "step_later m (snd (st_Delete st i expect m))"
proof (cases "st_Delete st i expect m")
  case (Pair r m')
  then show ?thesis
    using Delete_Some [of m i expect] Delete_None [of m i expect]
    by (cases r) (auto simp: later_def split: if_splits)
qed

text \<open>A version that is still in the table later names the same sandbox.\<close>

lemma same_version:
  assumes "good m" "step_later m m'" "tbl m i = Some s" "tbl m' i = Some s'" "ResourceVersion s' = ResourceVersion s"
  shows "s' = s"
  using assms known_versions [OF assms(1,3)] unfolding later_def by fastforce

text \<open>The world relation: the other writers stay well behaved and the store moves forward.\<close>

definition tame :: "('m, 'x, 'z) world_scheme \<Rightarrow> bool" where
  "tame w \<longleftrightarrow> (\<forall>g \<in> set (others w). \<forall>m. step_later m (g m))"

definition forward :: "('m, 'x, 'z) world_scheme \<Rightarrow> ('m, 'x, 'z) world_scheme \<Rightarrow> bool" where
  "forward w w' \<longleftrightarrow> (tame w \<longrightarrow> tame w' \<and> step_later (mem w) (mem w'))"

lemma forward_refl: "reflp forward"
  by (simp add: reflp_def forward_def later_refl)

lemma forward_trans: "transp forward"
  unfolding transp_def forward_def by (meson later_trans)

lemma others_step_later: "tame w \<Longrightarrow> step_later (mem w) (others_step w)"
  by (cases "others w") (auto simp: others_step_def later_refl tame_def)

lemma others_step_good: "tame w \<Longrightarrow> good (mem w) \<Longrightarrow> good (others_step w)"
  using others_step_later by (rule later_good)

lemma forward_call:
  assumes "\<And>m. step_later m (snd (f m))"
  shows "keeps forward (call f)"
proof (rule keepsI)
  fix w a w'
  assume "run_state (call f) w = (a, w')"
  then have w': "w' = w\<lparr>mem := snd (f (others_step w)), others := tl (others w)\<rparr>"
    by (simp add: call_def split: prod.splits)
  have "set (tl (others w)) \<subseteq> set (others w)"
    by (cases "others w") auto
  then have "tame w \<Longrightarrow> tame w'"
    using w' unfolding tame_def by auto
  moreover have "tame w \<Longrightarrow> step_later (mem w) (mem w')"
    using later_trans [OF others_step_later assms] w' by simp
  ultimately show "forward w w'"
    unfolding forward_def by blast
qed

lemma forward_outside: "keeps forward (outside f)"
  by (rule keepsI) (auto simp: outside_def forward_def tame_def later_refl split: prod.splits)

lemma forward_Get: "keeps forward (call (\<lambda>m. (st_Get st i m, m)))"
  by (rule forward_call) (simp add: later_refl)

lemma forward_Update: "keeps forward (call (st_Update st s expect))"
  by (rule forward_call) (rule later_Update)

lemma forward_Create: "keeps forward (call (st_Create st s))"
  by (rule forward_call) (rule later_Create)

lemma forward_Delete: "keeps forward (call (st_Delete st i expect))"
  by (rule forward_call) (rule later_Delete)

lemmas forward_intros = keeps_intros forward_refl forward_trans forward_Get forward_Update forward_Create forward_Delete
  forward_outside

lemma forward_mutate_loop:
  assumes "\<And>s c. keeps forward (fn s c)"
  shows "keeps forward (mutate_loop st i ifMatch fn c left)"
proof (induction left arbitrary: c)
  case 0
  show ?case
    by (subst mutate_loop.simps) (intro forward_intros assms; simp add: forward_refl keeps_return)
next
  case (Suc n)
  show ?case
    by (subst mutate_loop.simps) (intro forward_intros assms; simp add: Suc forward_refl keeps_return)
qed

lemma forward_Mutate: "(\<And>s c. keeps forward (fn s c)) \<Longrightarrow> keeps forward (Mutate st i ifMatch fn c)"
  unfolding Mutate_def by (rule forward_mutate_loop)

text \<open>One turn of the loop of \<open>Mutate\<close> that writes.\<close>

lemma mutate_loop_Inr:
  assumes "run_state (mutate_loop st i ifMatch fn c left) w = ((Inr s, c'), w')"
  obtains (wrote) w1 cur w2 nxt
    where "run_state (call (\<lambda>m. (st_Get st i m, m))) w = (Inr cur, w1)" "CheckIfMatch ifMatch (ResourceVersion cur) = None"
      "run_state (fn cur c) w1 = ((Inr nxt, c'), w2)"
      "run_state (call (st_Update st nxt (ResourceVersion cur))) w2 = (Inr s, w')"
  | (lost) w1 cur w2 c2 nxt e w3 n
    where "run_state (call (\<lambda>m. (st_Get st i m, m))) w = (Inr cur, w1)" "CheckIfMatch ifMatch (ResourceVersion cur) = None"
      "run_state (fn cur c) w1 = ((Inr nxt, c2), w2)"
      "run_state (call (st_Update st nxt (ResourceVersion cur))) w2 = (Inl e, w3)" "left = Suc n"
      "run_state (mutate_loop st i ifMatch fn c2 n) w3 = ((Inr s, c'), w')"
  using assms
  by (subst (asm) mutate_loop.simps) (auto split: sum.splits option.splits prod.splits if_splits nat.splits)

definition calm :: "('m, 'x, 'z) world_scheme \<Rightarrow> bool" where
  "calm w \<longleftrightarrow> good (mem w) \<and> tame w"

lemma forward_calm: "forward w w' \<Longrightarrow> calm w \<Longrightarrow> calm w' \<and> step_later (mem w) (mem w')"
  unfolding forward_def calm_def by (metis later_good)

text \<open>
  No lost update: when \<open>Mutate\<close> returns a sandbox, the store at the instant of the write held
  exactly the sandbox \<open>fn\<close> was given, and what was written is what \<open>fn\<close> made of it.
\<close>

definition wrote_over :: "string \<Rightarrow> string \<Rightarrow> (Sandbox \<Rightarrow> 'c \<Rightarrow> (('m, 'x, 'z) world_scheme, (gerror + Sandbox) \<times> 'c) state) \<Rightarrow>
    ('m, 'x, 'z) world_scheme \<Rightarrow> Sandbox \<Rightarrow> 'c \<Rightarrow> ('m, 'x, 'z) world_scheme \<Rightarrow> bool" where
  "wrote_over i ifMatch fn w s c' w' \<longleftrightarrow> (\<exists>w1 c1 cur nxt w2 m.
     forward w w1 \<and> CheckIfMatch ifMatch (ResourceVersion cur) = None \<and>
     run_state (fn cur c1) w1 = ((Inr nxt, c'), w2) \<and>
     step_later (mem w2) m \<and> tbl m i = Some cur \<and> CheckImmutable cur nxt = None \<and> State_Valid (sb_State nxt) \<and>
     s = nxt\<lparr>ResourceVersion := ver (mem w')\<rparr> \<and> tbl (mem w') = (tbl m)(i \<mapsto> s))"

lemma mutate_loop_wrote_over:
  assumes "\<And>s c. keeps forward (fn s c)"
    and ids: "\<And>s c w t c' w'. run_state (fn s c) w = ((Inr t, c'), w') \<Longrightarrow> ID t = ID s"
    and "run_state (mutate_loop st i ifMatch fn c left) w = ((Inr s, c'), w')" "calm w"
  shows "wrote_over i ifMatch fn w s c' w'"
  using assms(3,4)
proof (induction left arbitrary: w c rule: less_induct)
  case (less left)
  from less.prems(1) show ?case
  proof (cases rule: mutate_loop_Inr)
    case (wrote w1 cur w2 nxt)
    let ?m = "others_step w2"
    have f1: "forward w w1" and f2: "forward w1 w2"
      using wrote keepsD [OF forward_Get] keepsD [OF assms(1)] by blast+
    then have calm: "calm w1" "calm w2" "step_later (mem w1) (mem w2)"
      using less.prems(2) forward_calm by blast+
    have got: "tbl (mem w1) i = Some cur"
      using wrote(1) less.prems(2) Get_Inr [OF others_step_good, of w i cur]
      by (auto simp: call_def calm_def)
    have m: "step_later (mem w2) ?m" "good ?m"
      using calm(2) by (simp_all add: calm_def others_step_later others_step_good)
    have upd: "st_Update st nxt (ResourceVersion cur) ?m = (Inr s, mem w')"
      using wrote(4) by (auto simp: call_def split: prod.splits)
    have "ID nxt = i"
      using ids [OF wrote(3)] known_versions [OF _ got] calm(1) by (simp add: calm_def)
    with Update_Inr [OF m(2) upd] obtain cur' where
      cur': "tbl ?m i = Some cur'" "ResourceVersion cur' = ResourceVersion cur" "CheckImmutable cur' nxt = None"
        "State_Valid (sb_State nxt)" "s = nxt\<lparr>ResourceVersion := ver (mem w')\<rparr>" "tbl (mem w') = (tbl ?m)(i \<mapsto> s)"
      by auto
    have same: "cur' = cur"
      using same_version [OF _ later_trans [OF calm(3) m(1)] got cur'(1,2)] calm(1) by (simp add: calm_def)
    show ?thesis
      unfolding wrote_over_def
      by (intro exI conjI) (rule f1 wrote(2,3) m(1) cur' [unfolded same])+
  next
    case (lost w1 cur w2 c2 nxt e w3 n)
    have "forward w w1" "forward w1 w2" "forward w2 w3"
      using keepsD [OF forward_Get lost(1)] keepsD [OF assms(1) lost(3)] keepsD [OF forward_Update lost(4)] .
    then have "forward w w3"
      using transpD [OF forward_trans] by metis
    moreover from this have "wrote_over i ifMatch fn w3 s c' w'"
      using less.IH [OF _ lost(6)] lost(5) less.prems(2) forward_calm by blast
    ultimately show ?thesis
      unfolding wrote_over_def by (metis transpD [OF forward_trans])
  qed
qed

lemma Mutate_wrote_over:
  assumes "\<And>s c. keeps forward (fn s c)"
    and "\<And>s c w t c' w'. run_state (fn s c) w = ((Inr t, c'), w') \<Longrightarrow> ID t = ID s"
    and "run_state (Mutate st i ifMatch fn c) w = ((Inr s, c'), w')" "calm w"
  shows "wrote_over i ifMatch fn w s c' w'"
  by (rule mutate_loop_wrote_over [where fn = fn]) (use assms in \<open>auto simp: Mutate_def\<close>)

lemma mutate_loop_Inl:
  assumes "run_state (mutate_loop st i ifMatch fn c left) w = ((Inl e, c'), w')"
  obtains (read) r where "run_state (call (\<lambda>m. (st_Get st i m, m))) w = (r, w')"
  | (refused) cur w1 where "run_state (call (\<lambda>m. (st_Get st i m, m))) w = (Inr cur, w1)"
      "run_state (fn cur c) w1 = ((Inl e, c'), w')"
  | (unwritten) cur w1 nxt c2 w2 e2 w3 where "run_state (call (\<lambda>m. (st_Get st i m, m))) w = (Inr cur, w1)"
      "run_state (fn cur c) w1 = ((Inr nxt, c2), w2)"
      "run_state (call (st_Update st nxt (ResourceVersion cur))) w2 = (Inl e2, w3)"
      "w' = w3 \<or> (\<exists>n. left = Suc n \<and> run_state (mutate_loop st i ifMatch fn c2 n) w3 = ((Inl e, c'), w'))"
  using assms
  by (subst (asm) mutate_loop.simps) (auto split: sum.splits option.splits prod.splits if_splits nat.splits)

lemma mutate_loop_error:
  assumes "\<And>s c w r c' w'. run_state (fn s c) w = ((r, c'), w') \<Longrightarrow>
      tbl (mem w') = tbl (mem w) \<and> others w' = others w \<and> (good (mem w) \<longrightarrow> good (mem w'))"
    and "run_state (mutate_loop st i ifMatch fn c left) w = ((Inl e, c'), w')" "others w = []" "good (mem w)"
  shows "tbl (mem w') = tbl (mem w) \<and> others w' = [] \<and> good (mem w')"
  using assms(2-)
proof (induction left arbitrary: w c rule: less_induct)
  case (less left)
  from less.prems(1) show ?case
  proof (cases rule: mutate_loop_Inl)
    case (read r)
    then show ?thesis
      using less.prems by (auto simp: call_def others_step_def)
  next
    case (refused cur w1)
    then show ?thesis
      using less.prems assms(1) [OF refused(2)] by (auto simp: call_def others_step_def)
  next
    case (unwritten cur w1 nxt c2 w2 e2 w3)
    have w2: "tbl (mem w2) = tbl (mem w) \<and> others w2 = [] \<and> good (mem w2)"
      using less.prems assms(1) [OF unwritten(2)] unwritten(1) by (auto simp: call_def others_step_def)
    then have "st_Update st nxt (ResourceVersion cur) (mem w2) = (Inl e2, mem w3)" "others w3 = []"
      using unwritten(3) by (auto simp: call_def others_step_def split: prod.splits)
    then have w3: "tbl (mem w3) = tbl (mem w) \<and> others w3 = [] \<and> good (mem w3)"
      using Update_Inl [of "mem w2" nxt "ResourceVersion cur" e2 "mem w3"] w2 by simp
    from unwritten(4) show ?thesis
    proof
      assume "w' = w3"
      with w3 show ?thesis by simp
    next
      assume "\<exists>n. left = Suc n \<and> run_state (mutate_loop st i ifMatch fn c2 n) w3 = ((Inl e, c'), w')"
      then obtain n where "n < left" "run_state (mutate_loop st i ifMatch fn c2 n) w3 = ((Inl e, c'), w')"
        by auto
      from less.IH [OF this] w3 show ?thesis by simp
    qed
  qed
qed

end

section \<open>The memory store keeps the contract\<close>

abbreviation memory_tbl :: "Memory \<Rightarrow> string \<Rightarrow> Sandbox option" where
  "memory_tbl m \<equiv> map_of (sandboxes m)"

abbreviation memory_later :: "Memory \<Rightarrow> Memory \<Rightarrow> bool" where
  "memory_later \<equiv> later memory_tbl rv memory_inv"

interpretation memory: sandbox_store memory_store memory_tbl rv memory_inv
proof
  fix m i s s' m' e expect
  assume good: "memory_inv m"
  show "memory_tbl m i = Some s \<Longrightarrow> ID s = i \<and> ResourceVersion s \<le> rv m"
    using good unfolding memory_inv_def by blast
  show "st_Get memory_store i m = Inr s \<Longrightarrow> memory_tbl m i = Some s"
    by (simp add: memory_store_def Memory_Get_def split: option.splits)
  show "st_Create memory_store s m = (Inr s', m') \<Longrightarrow>
      memory_tbl m (ID s) = None \<and> s' = s\<lparr>ResourceVersion := rv m'\<rparr> \<and> rv m < rv m' \<and>
      memory_tbl m' = (memory_tbl m)(ID s \<mapsto> s') \<and> memory_inv m'"
    using memory_inv_Create [OF good, of s]
    by (auto simp: memory_store_def Memory_Create_def Let_def split: if_splits)
  show "st_Create memory_store s m = (Inl e, m') \<Longrightarrow> memory_tbl m' = memory_tbl m \<and> rv m \<le> rv m' \<and> memory_inv m'"
    using good by (auto simp: memory_store_def Memory_Create_def Let_def split: if_splits)
  show "st_Update memory_store s expect m = (Inr s', m') \<Longrightarrow>
      (\<exists>cur. memory_tbl m (ID s) = Some cur \<and> ResourceVersion cur = expect \<and> CheckImmutable cur s = None \<and>
         State_Valid (sb_State s)) \<and>
      s' = s\<lparr>ResourceVersion := rv m'\<rparr> \<and> rv m < rv m' \<and> memory_tbl m' = (memory_tbl m)(ID s \<mapsto> s') \<and> memory_inv m'"
    using memory_inv_Update [OF good, of s expect]
    by (auto simp: memory_store_def Memory_Update_def Let_def split: if_splits option.splits)
  show "st_Update memory_store s expect m = (Inl e, m') \<Longrightarrow> memory_tbl m' = memory_tbl m \<and> rv m \<le> rv m' \<and> memory_inv m'"
    using good by (auto simp: memory_store_def Memory_Update_def Let_def split: if_splits option.splits)
  show "st_Delete memory_store i expect m = (None, m') \<Longrightarrow>
      (\<exists>cur. memory_tbl m i = Some cur \<and> ResourceVersion cur = expect) \<and> memory_tbl m' = (memory_tbl m)(i := None) \<and>
      rv m \<le> rv m' \<and> memory_inv m'"
    using memory_inv_Delete [OF good, of i expect]
    by (auto simp: memory_store_def Memory_Delete_def split: if_splits option.splits)
  show "st_Delete memory_store i expect m = (Some e, m') \<Longrightarrow> memory_tbl m' = memory_tbl m \<and> rv m \<le> rv m' \<and> memory_inv m'"
    using good by (auto simp: memory_store_def Memory_Delete_def split: if_splits option.splits)
qed

lemma run_pure_fn [simp]: "run_state (pure_fn f s c) w = ((f s, ()), w)"
  by (simp add: pure_fn_def)

lemma forward_pure_fn: "keeps memory.forward (pure_fn f s c)"
  unfolding pure_fn_def by (rule keeps_return [OF memory.forward_refl])

lemma Mutate_pure_wrote_over:
  assumes "memory_inv (mem w)" "\<forall>g \<in> set (others w). \<forall>m. memory_later m (g m)" "\<forall>s t. f s = Inr t \<longrightarrow> ID t = ID s"
    "run_state (Mutate memory_store i ifMatch (pure_fn f) ()) w = ((Inr s, ()), w')"
  shows "\<exists>m cur nxt. memory_later (mem w) m \<and> memory_tbl m i = Some cur \<and>
    CheckIfMatch ifMatch (ResourceVersion cur) = None \<and> f cur = Inr nxt \<and> CheckImmutable cur nxt = None \<and>
    s = nxt\<lparr>ResourceVersion := rv (mem w')\<rparr> \<and> memory_tbl (mem w') = (memory_tbl m)(i \<mapsto> s)"
proof -
  have "memory.calm w"
    using assms(1,2) by (simp add: memory.calm_def memory.tame_def)
  moreover have "run_state (pure_fn f t c) v = ((Inr u, c'), v') \<Longrightarrow> ID u = ID t" for t c v u c' v'
    using assms(3) by simp
  ultimately have "memory.wrote_over i ifMatch (pure_fn f) w s () w'"
    using memory.Mutate_wrote_over [OF forward_pure_fn _ assms(4)] by blast
  then obtain w1 cur nxt m where *: "memory.forward w w1" "CheckIfMatch ifMatch (ResourceVersion cur) = None"
    "f cur = Inr nxt" "memory_later (mem w1) m" "memory_tbl m i = Some cur" "CheckImmutable cur nxt = None"
    "s = nxt\<lparr>ResourceVersion := rv (mem w')\<rparr>" "memory_tbl (mem w') = (memory_tbl m)(i \<mapsto> s)"
    unfolding memory.wrote_over_def run_pure_fn by blast
  have "memory_later (mem w) m"
    using memory.forward_calm [OF *(1) \<open>memory.calm w\<close>] *(4) later_trans by metis
  with * show ?thesis by blast
qed

text \<open>
  With a change that is a function of the sandbox, everything that happens to the store between the start and the end of \<open>Mutate\<close> but for
  its own write are the writes of others that ran meanwhile.
\<close>

lemma mutate_pure_history:
  assumes "memory.calm w" "\<And>s t. f s = Inr t \<Longrightarrow> ID t = ID s"
    "run_state (mutate_loop memory_store i ifMatch (pure_fn f) () left) w = ((Inr s, ()), w')"
  shows "\<exists>gs cur nxt m. others w = gs @ others w' \<and> m = writes gs (mem w) \<and> memory_inv m \<and> memory_tbl m i = Some cur \<and>
    CheckIfMatch ifMatch (ResourceVersion cur) = None \<and> f cur = Inr nxt \<and> CheckImmutable cur nxt = None \<and>
    s = nxt\<lparr>ResourceVersion := rv m + 1\<rparr> \<and> mem w' = m\<lparr>rv := rv m + 1, sandboxes := AList.update i s (sandboxes m)\<rparr>"
  using assms(1,3)
proof (induction left arbitrary: w rule: less_induct)
  case (less left)
  obtain g1 where g1: "others w = g1 @ tl (others w)" "others_step w = writes g1 (mem w)" using run_call_others by blast
  have step: "memory_inv (others_step w)" "memory_later (mem w) (others_step w)"
    using less.prems(1) memory.others_step_good memory.others_step_later by (auto simp: memory.calm_def)
  from less.prems(2) show ?case
  proof (cases rule: memory.mutate_loop_Inr)
    case (wrote w1 cur w2 nxt)
    then have w1: "w2 = w1" "w1 = w\<lparr>mem := others_step w, others := tl (others w)\<rparr>" "memory_tbl (others_step w) i = Some cur" "f cur = Inr nxt"
      by (auto simp: call_def memory_store_def Memory_Get_def split: option.splits)
    let ?m = "others_step w1"
    obtain g2 where g2: "others w1 = g2 @ tl (others w1)" "?m = writes g2 (mem w1)" using run_call_others by blast
    have calm: "memory.calm w1" using memory.forward_calm [OF keepsD [OF memory.forward_Get wrote(1)] less.prems(1)] by blast
    then have m: "memory_inv ?m" "memory_later (mem w1) ?m" using memory.others_step_good memory.others_step_later by (auto simp: memory.calm_def)
    have u: "Memory_Update nxt (ResourceVersion cur) ?m = (Inr s, mem w')" "others w' = tl (others w1)"
      using wrote(4) w1(1) by (auto simp: call_def memory_store_def split: prod.splits)
    have "ID nxt = i" using assms(2) [OF w1(4)] memory.known_versions [OF step(1) w1(3)] by simp
    then obtain cur' where cur': "memory_tbl ?m i = Some cur'" "ResourceVersion cur' = ResourceVersion cur" "CheckImmutable cur' nxt = None"
      "s = nxt\<lparr>ResourceVersion := rv ?m + 1\<rparr>" "mem w' = ?m\<lparr>rv := rv ?m + 1, sandboxes := AList.update i s (sandboxes ?m)\<rparr>"
      using u(1) by (auto simp: Memory_Update_def Let_def split: if_splits option.splits)
    have "cur' = cur" using memory.same_version [OF step(1) _ w1(3) cur'(1,2)] m(2) w1(2) by simp
    then show ?thesis
      using cur' m(1) wrote(2) w1(2,4) g1 g2 u(2) by (intro exI [of _ "g1 @ g2"] exI [of _ cur] exI [of _ nxt] exI [of _ ?m]) simp
  next
    case (lost w1 cur w2 c2 nxt e w3 n)
    then have w1: "w2 = w1" "w1 = w\<lparr>mem := others_step w, others := tl (others w)\<rparr>"
      by (auto simp: call_def memory_store_def)
    obtain g2 where g2: "others w1 = g2 @ tl (others w1)" "others_step w1 = writes g2 (mem w1)" using run_call_others by blast
    have w3: "mem w3 = others_step w1" "others w3 = tl (others w1)"
      using lost(4) w1(1) by (auto simp: call_def memory_store_def Memory_Update_def Let_def split: prod.splits if_splits option.splits)
    have "memory.calm w3"
      using memory.forward_calm [OF keepsD [OF memory.forward_Get lost(1)] less.prems(1)] memory.forward_calm [OF keepsD [OF memory.forward_Update lost(4)]]
        w1(1) by blast
    from less.IH [OF _ this] lost(5,6) obtain gs cur nxt m where r: "others w3 = gs @ others w'" "m = writes gs (mem w3)" "memory_inv m"
      "memory_tbl m i = Some cur" "CheckIfMatch ifMatch (ResourceVersion cur) = None" "f cur = Inr nxt" "CheckImmutable cur nxt = None"
      "s = nxt\<lparr>ResourceVersion := rv m + 1\<rparr>" "mem w' = m\<lparr>rv := rv m + 1, sandboxes := AList.update i s (sandboxes m)\<rparr>" by fastforce
    have "others w = (g1 @ g2 @ gs) @ others w'" "m = writes (g1 @ g2 @ gs) (mem w)" using g1 g2 w1(2) w3 r(1,2) by simp_all
    with r(3-) show ?thesis by blast
  qed
qed

text \<open>
  C1: no lost update. Other writers may change the store between any two calls of \<open>Mutate\<close>; none reuses a resource version. When \<open>Mutate\<close> returns
  a sandbox, the store at the instant of its write was just what the others' writes until then had made of it, and then
  held, under that id, exactly the sandbox \<open>fn\<close> was applied to, for which the precondition holds: nothing another writer did is
  overwritten unseen. The write stores what \<open>fn\<close> returned, its immutable fields unchanged, under a resource version above that of every
  sandbox of the store, and touches nothing else. Here \<open>fn\<close> is a function of the sandbox that keeps its id.
\<close>

theorem Mutate_no_lost_update:
  assumes "memory_inv (mem w)" "\<forall>g \<in> set (others w). \<forall>m. memory_later m (g m)" "\<forall>s t. f s = Inr t \<longrightarrow> ID t = ID s"
    "run_state (Mutate memory_store i ifMatch (pure_fn f) ()) w = ((Inr s, ()), w')"
  shows "\<exists>gs cur nxt m. others w = gs @ others w' \<and> m = writes gs (mem w) \<and> memory_tbl m i = Some cur \<and>
    CheckIfMatch ifMatch (ResourceVersion cur) = None \<and> f cur = Inr nxt \<and> CheckImmutable cur nxt = None \<and>
    s = nxt\<lparr>ResourceVersion := rv m + 1\<rparr> \<and> (\<forall>j t. memory_tbl m j = Some t \<longrightarrow> ResourceVersion t < ResourceVersion s) \<and>
    mem w' = m\<lparr>rv := rv m + 1, sandboxes := AList.update i s (sandboxes m)\<rparr>"
proof -
  have "memory.calm w" using assms(1,2) by (simp add: memory.calm_def memory.tame_def)
  from mutate_pure_history [OF this _ assms(4) [unfolded Mutate_def]] assms(3) obtain gs cur nxt m where r: "others w = gs @ others w'"
    "m = writes gs (mem w)" "memory_inv m" "memory_tbl m i = Some cur" "CheckIfMatch ifMatch (ResourceVersion cur) = None" "f cur = Inr nxt"
    "CheckImmutable cur nxt = None" "s = nxt\<lparr>ResourceVersion := rv m + 1\<rparr>"
    "mem w' = m\<lparr>rv := rv m + 1, sandboxes := AList.update i s (sandboxes m)\<rparr>" by blast
  have "\<forall>j t. memory_tbl m j = Some t \<longrightarrow> ResourceVersion t < ResourceVersion s"
    using memory.known_versions [OF r(3)] r(8) by fastforce
  with r show ?thesis by blast
qed

text \<open>
  Compare and swap. With the entity tag of a version as its If-Match header, \<open>Mutate\<close> succeeds only
  if that version, the one the client read, is the one stored when it writes.
\<close>

theorem Mutate_if_match:
  assumes "memory_inv (mem w)" "\<forall>g \<in> set (others w). \<forall>m. memory_later m (g m)" "\<forall>s t. f s = Inr t \<longrightarrow> ID t = ID s"
    "1 \<le> v" "v \<le> MaxInt64"
    "run_state (Mutate memory_store i (ETag v) (pure_fn f) ()) w = ((Inr s, ()), w')"
  shows "\<exists>m cur nxt. memory_later (mem w) m \<and> memory_tbl m i = Some cur \<and> ResourceVersion cur = v \<and>
    f cur = Inr nxt \<and> s = nxt\<lparr>ResourceVersion := rv (mem w')\<rparr>"
proof -
  obtain m cur nxt where "memory_later (mem w) m" "memory_tbl m i = Some cur"
    "CheckIfMatch (ETag v) (ResourceVersion cur) = None" "f cur = Inr nxt" "s = nxt\<lparr>ResourceVersion := rv (mem w')\<rparr>"
    using Mutate_pure_wrote_over [OF assms(1-3,6)] by blast
  then show ?thesis
    using CheckIfMatch_ETag [OF assms(4,5), of "ResourceVersion cur"] by auto
qed

text \<open>
  \<open>Mutate\<close> with nobody else writing, on every branch: it returns the error of the first check that
  fails and leaves the world as it was, and otherwise writes what \<open>fn\<close> made of the stored sandbox, in
  one attempt.
\<close>

theorem Mutate_alone:
  assumes "memory_inv (mem w)" "others w = []" "\<forall>s t. f s = Inr t \<longrightarrow> ID t = ID s"
  shows "run_state (Mutate memory_store i ifMatch (pure_fn f) ()) w =
    (case memory_tbl (mem w) i of
       None \<Rightarrow> ((Inl (Errorf [Sentinel ErrNotFound] ''sandbox''), ()), w)
     | Some cur \<Rightarrow>
         (case CheckIfMatch ifMatch (ResourceVersion cur) of
            Some e \<Rightarrow> ((Inl e, ()), w)
          | None \<Rightarrow>
              (case f cur of
                 Inl e \<Rightarrow> ((Inl e, ()), w)
               | Inr nxt \<Rightarrow>
                   if \<not> State_Valid (sb_State nxt) then ((Inl (Errorf [Sentinel ErrInvalid] ''state''), ()), w)
                   else (case CheckImmutable cur nxt of
                       Some e \<Rightarrow> ((Inl e, ()), w)
                     | None \<Rightarrow>
                         let s = nxt\<lparr>ResourceVersion := rv (mem w) + 1\<rparr>
                         in ((Inr s, ()), w\<lparr>mem := (mem w)\<lparr>rv := rv (mem w) + 1,
                               sandboxes := AList.update i s (sandboxes (mem w))\<rparr>\<rparr>)))))"
proof -
  have w: "w\<lparr>mem := mem w, others := []\<rparr> = w"
    using assms(2) by simp
  have get: "run_state (call (\<lambda>m. (st_Get memory_store i m, m))) w = (Memory_Get i (mem w), w)"
    by (simp add: call_def others_step_def assms(2) w memory_store_def)
  have upd: "run_state (call (st_Update memory_store nxt v)) w =
      (fst (Memory_Update nxt v (mem w)), w\<lparr>mem := snd (Memory_Update nxt v (mem w))\<rparr>)" for nxt v
    using assms(2) by (simp add: call_def others_step_def memory_store_def split_beta)
  show ?thesis
  proof (cases "memory_tbl (mem w) i")
    case None
    then show ?thesis
      unfolding Mutate_def by (subst mutate_loop.simps) (simp add: get Memory_Get_def)
  next
    case (Some cur)
    show ?thesis
    proof (cases "CheckIfMatch ifMatch (ResourceVersion cur)"; cases "f cur")
      fix nxt
      assume *: "CheckIfMatch ifMatch (ResourceVersion cur) = None" "f cur = Inr nxt"
      have "ID nxt = i"
        using Some *(2) assms(1,3) unfolding memory_inv_def by metis
      moreover have "\<not> errors_Is e ErrVersionMismatch" if "CheckImmutable cur nxt = Some e" for e
        using that by (auto simp: CheckImmutable_def sentinel_is_def split: if_splits)
      ultimately show ?thesis
        unfolding Mutate_def
        by (subst mutate_loop.simps)
           (simp add: get upd Memory_Get_def Memory_Update_def Some * sentinel_is_def Let_def split: option.split)
    qed (unfold Mutate_def, (subst mutate_loop.simps, simp add: get Memory_Get_def Some)+)
  qed
qed

section \<open>Sample runs\<close>

definition sample_world :: "(Memory \<Rightarrow> Memory) list \<Rightarrow> (Memory, unit) world" where
  "sample_world os = \<lparr>mem = sample_memory, ext = (), others = os\<rparr>"

definition sample_change :: "Sandbox \<Rightarrow> gerror + Sandbox" where
  "sample_change s = Inr (s\<lparr>sb_Labels := [(''team'', ''a'')]\<rparr>)"

lemma sample_change_ID: "\<forall>s t. sample_change s = Inr t \<longrightarrow> ID t = ID s"
  by (auto simp: sample_change_def)

definition sample_result :: Sandbox where
  "sample_result = sample_sandbox\<lparr>sb_Labels := [(''team'', ''a'')], ResourceVersion := 2\<rparr>"

definition sample_world' :: "(Memory, unit) world" where
  "sample_world' = (sample_world [])\<lparr>mem := sample_memory\<lparr>rv := 2, sandboxes := [(ID sample_sandbox, sample_result)]\<rparr>\<rparr>"

lemma sample_Mutate:
  assumes "CheckIfMatch h 1 = None"
  shows "run_state (Mutate memory_store (ID sample_sandbox) h (pure_fn sample_change) ()) (sample_world []) =
    ((Inr sample_result, ()), sample_world')"
proof -
  have "State_Valid (sb_State sample_sandbox)"
    by (simp add: sample_sandbox_def State_Valid_def)
  then show ?thesis
    unfolding Mutate_def
    by (subst mutate_loop.simps)
       (simp add: call_def others_step_def sample_world_def sample_world'_def sample_memory_def NewMemory_def memory_store_def
         Memory_Get_def Memory_Update_def assms sample_change_def sample_result_def CheckImmutable_def Let_def)
qed

lemma sample_If_Match: "CheckIfMatch '''' 1 = None" "CheckIfMatch (ETag 1) 1 = None"
  by (simp add: CheckIfMatch_def TrimSpace_id, simp add: CheckIfMatch_ETag)

theorem Mutate_no_lost_update_witness:
  "\<exists>cur nxt. memory_tbl sample_memory (ID sample_sandbox) = Some cur \<and> sample_change cur = Inr nxt \<and>
     sample_result = nxt\<lparr>ResourceVersion := rv sample_memory + 1\<rparr> \<and>
     mem sample_world' = sample_memory\<lparr>rv := rv sample_memory + 1, sandboxes := AList.update (ID sample_sandbox) sample_result (sandboxes sample_memory)\<rparr>"
  using Mutate_no_lost_update [OF _ _ sample_change_ID sample_Mutate [OF sample_If_Match(1)]] sample_memory_inv
  by (auto simp: sample_world_def sample_world'_def)

theorem Mutate_if_match_witness:
  "\<exists>m cur. memory_later sample_memory m \<and> memory_tbl m (ID sample_sandbox) = Some cur \<and> ResourceVersion cur = 1"
  using Mutate_if_match [OF _ _ sample_change_ID _ _ sample_Mutate [OF sample_If_Match(2)]] sample_memory_inv
  by (auto simp: sample_world_def sample_world'_def)

theorem Mutate_alone_witness:
  "run_state (Mutate memory_store ''sbx_none'' '''' (pure_fn sample_change) ()) (sample_world []) =
    ((Inl (Errorf [Sentinel ErrNotFound] ''sandbox''), ()), sample_world [])"
  using Mutate_alone [OF _ _ sample_change_ID, of "sample_world []" "''sbx_none''" "''''"] sample_memory_inv
  by (simp add: sample_world_def sample_memory_def sample_sandbox_def)

end
