(* ===== verification/Idem.thy ===== *)
theory Idem
  imports Mutation
begin

text \<open>
  Idempotency keys: \<^verbatim>\<open>idempotency.go\<close> and the idempotency records of \<^verbatim>\<open>memory.go\<close>. The digest of
  a body (SHA-256, from the standard library) is a parameter, \<open>hash\<close>; the clock and the random token are
  calls of the outside. The goroutine that renews a claim while \<open>fn\<close> runs is interleaved with it: a given
  number of its ticks comes before \<open>fn\<close>'s effects and a given number after, up to the call of \<open>stop\<close>.
\<close>

section \<open>Idempotency records of the memory store\<close>

definition sweep :: "time \<Rightarrow> Memory \<Rightarrow> Memory" where
  "sweep now m = (if now - swept m > Minute
     then m\<lparr>idem := filter (\<lambda>(k, r). now < ExpiresAt r) (idem m), swept := now\<rparr> else m)"

definition Memory_Claim :: "IdemRecord \<Rightarrow> time \<Rightarrow> Memory \<Rightarrow> (gerror + IdemRecord \<times> bool) \<times> Memory" where
  "Memory_Claim rec now m0 =
     (let m = sweep now m0; k = (idem_Scope rec, idem_Key rec);
          fresh = rec\<lparr>idem_State := IdemPending, idem_Status := 0, Body := []\<rparr>;
          put = (Inr (fresh, True), m\<lparr>idem := AList.update k fresh (idem m)\<rparr>)
      in case map_of (idem m) k of
           Some cur \<Rightarrow> if now < ExpiresAt cur then (Inr (cur\<lparr>Token := ''''\<rparr>, False), m) else put
         | None \<Rightarrow> put)"

definition held :: "string \<Rightarrow> string \<Rightarrow> string \<Rightarrow> Memory \<Rightarrow> IdemRecord option" where
  "held scope key token m = (case map_of (idem m) (scope, key) of
       Some cur \<Rightarrow> if idem_State cur = IdemPending \<and> token \<noteq> '''' \<and> Token cur = token then Some cur else None
     | None \<Rightarrow> None)"

definition Memory_Renew :: "string \<Rightarrow> string \<Rightarrow> string \<Rightarrow> time \<Rightarrow> Memory \<Rightarrow> gerror option \<times> Memory" where
  "Memory_Renew scope key token expires m = (case held scope key token m of
       None \<Rightarrow> (Some (Errorf [Sentinel ErrNotFound] ''no pending request for idempotency key''), m)
     | Some cur \<Rightarrow> (None, m\<lparr>idem := AList.update (scope, key) (cur\<lparr>ExpiresAt := expires\<rparr>) (idem m)\<rparr>))"

definition Memory_Complete :: "string \<Rightarrow> string \<Rightarrow> string \<Rightarrow> int \<Rightarrow> char list \<Rightarrow> time \<Rightarrow> Memory \<Rightarrow> gerror option \<times> Memory" where
  "Memory_Complete scope key token status body expires m = (case held scope key token m of
       None \<Rightarrow> (Some (Errorf [Sentinel ErrNotFound] ''no pending request for idempotency key''), m)
     | Some cur \<Rightarrow>
         (None, m\<lparr>idem := AList.update (scope, key)
            (cur\<lparr>idem_State := IdemDone, idem_Status := status, Body := body, ExpiresAt := expires\<rparr>) (idem m)\<rparr>))"

definition Memory_Release :: "string \<Rightarrow> string \<Rightarrow> string \<Rightarrow> Memory \<Rightarrow> gerror option \<times> Memory" where
  "Memory_Release scope key token m = (case held scope key token m of
       None \<Rightarrow> (None, m)
     | Some cur \<Rightarrow> (None, m\<lparr>idem := AList.delete (scope, key) (idem m)\<rparr>))"

definition memory_idem :: "Memory IdempotencyStore" where
  "memory_idem = \<lparr>is_Claim = Memory_Claim, is_Renew = Memory_Renew, is_Complete = Memory_Complete,
     is_Release = Memory_Release\<rparr>"

section \<open>Running a request once\<close>

abbreviation IdempotencyTTL :: duration where
  "IdempotencyTTL \<equiv> 24 * Hour"

abbreviation PendingLease :: duration where
  "PendingLease \<equiv> 5 * Minute"

record Response =
  resp_Status :: int
  resp_Body :: "char list"

record ('m, 'x) Idempotency =
  idem_Store :: "'m IdempotencyStore"
  idem_Now :: "'x \<Rightarrow> time \<times> 'x"
  rand_token :: "'x \<Rightarrow> (gerror + char list) \<times> 'x"
  hash :: "char list \<Rightarrow> char list"

definition ValidKey :: "string \<Rightarrow> bool" where
  "ValidKey key \<longleftrightarrow> key \<noteq> '''' \<and> length key \<le> 255 \<and> list_all is_print key"

definition IdemScope :: "string \<Rightarrow> string \<Rightarrow> string \<Rightarrow> string" where
  "IdemScope who method path =
     FormatInt (int (length who)) @ '':'' @ who @ '' '' @ method @ '' '' @ path"

fun renew :: "('m, 'x) Idempotency \<Rightarrow> string \<Rightarrow> string \<Rightarrow> string \<Rightarrow> nat \<Rightarrow> (('m, 'x, 'z) world_scheme, unit) state" where
  "renew i scope key token 0 = ret ()"
| "renew i scope key token (Suc ticks) = do {
     now \<leftarrow> outside (idem_Now i);
     err \<leftarrow> call (is_Renew (idem_Store i) scope key token (now + PendingLease));
     (case err of
        Some e \<Rightarrow> if errors_Is e ErrNotFound then ret () else renew i scope key token ticks
      | None \<Rightarrow> renew i scope key token ticks)
   }"

text \<open>The rest of \<open>Do\<close> once its claim is stored.\<close>

definition do_claimed :: "('m, 'x) Idempotency \<Rightarrow> nat \<times> nat \<Rightarrow> string \<Rightarrow> string \<Rightarrow> string
    \<Rightarrow> (('m, 'x, 'z) world_scheme, gerror + Response) state
    \<Rightarrow> (('m, 'x, 'z) world_scheme, Response option \<times> bool \<times> gerror option) state" where
  "do_claimed i ticks scope key token fn = do {
     renew i scope key token (fst ticks);
     r \<leftarrow> fn;
     renew i scope key token (snd ticks);
     (case r of
        Inl e \<Rightarrow> do {
          rerr \<leftarrow> call (is_Release (idem_Store i) scope key token);
          ret (None, False, (case rerr of None \<Rightarrow> Some e | Some e' \<Rightarrow> Some (Joined [e, e'])))
        }
      | Inr resp \<Rightarrow> do {
          done \<leftarrow> outside (idem_Now i);
          cerr \<leftarrow> call (is_Complete (idem_Store i) scope key token (resp_Status resp) (resp_Body resp)
            (done + IdempotencyTTL));
          ret (Some resp, False, cerr)
        })
   }"

definition Idempotency_Do :: "('m, 'x) Idempotency \<Rightarrow> nat \<times> nat \<Rightarrow> string \<Rightarrow> string \<Rightarrow> string \<Rightarrow> string \<Rightarrow> char list
    \<Rightarrow> (('m, 'x, 'z) world_scheme, gerror + Response) state
    \<Rightarrow> (('m, 'x, 'z) world_scheme, Response option \<times> bool \<times> gerror option) state" where
  "Idempotency_Do i ticks who method path key body fn =
     (if key = '''' then do {
        r \<leftarrow> fn;
        ret (case r of Inl e \<Rightarrow> (None, False, Some e) | Inr resp \<Rightarrow> (Some resp, False, None))
      }
      else if \<not> ValidKey key
      then ret (None, False, Some (Errorf [Sentinel ErrInvalid] ''Idempotency-Key must be 1 to 255 printable ASCII characters''))
      else do {
        drawn \<leftarrow> outside (rand_token i);
        (case drawn of
           Inl e \<Rightarrow> ret (None, False, Some e)
         | Inr tok \<Rightarrow> do {
             now \<leftarrow> outside (idem_Now i);
             let scope = IdemScope who method path;
             let token = hex_encode tok;
             let reqhash = hex_encode (hash i body);
             got \<leftarrow> call (is_Claim (idem_Store i) \<lparr>idem_Scope = scope, idem_Key = key, RequestHash = reqhash,
               idem_State = IdemPending, idem_Status = 0, Body = [], ExpiresAt = now + PendingLease, Token = token\<rparr> now);
             (case got of
                Inl e \<Rightarrow> ret (None, False, Some e)
              | Inr (cur, claimed) \<Rightarrow>
                  if \<not> claimed
                  then ret (if RequestHash cur \<noteq> reqhash then (None, False, Some (Sentinel ErrIdempotencyMismatch))
                       else if idem_State cur \<noteq> IdemDone then (None, False, Some (Sentinel ErrIdempotencyInFlight))
                       else (Some \<lparr>resp_Status = idem_Status cur, resp_Body = Body cur\<rparr>, True, None))
                  else do_claimed i ticks scope key token fn)
           })
      })"

section \<open>The contract of an idempotency store\<close>

text \<open>
  \<open>recs m k\<close> is the record kept under scope and key \<open>k\<close>. A claim finds a live record or stores its own,
  and never disturbs a live one; the other operations change a pending record only for its token.
\<close>

definition claimed_record :: "IdemRecord \<Rightarrow> IdemRecord" where
  "claimed_record r = r\<lparr>idem_State := IdemPending, idem_Status := 0, Body := []\<rparr>"

abbreviation idem_key :: "IdemRecord \<Rightarrow> string \<times> string" where
  "idem_key r \<equiv> (idem_Scope r, idem_Key r)"

definition holds :: "IdemRecord \<Rightarrow> string \<Rightarrow> bool" where
  "holds r token \<longleftrightarrow> idem_State r = IdemPending \<and> token \<noteq> '''' \<and> Token r = token"

locale idem_contract =
  fixes store :: "'m IdempotencyStore"
    and recs :: "'m \<Rightarrow> string \<times> string \<Rightarrow> IdemRecord option"
    and good :: "'m \<Rightarrow> bool"
  assumes Claim_taken: "good m \<Longrightarrow> recs m (idem_key q) = Some r \<Longrightarrow> now < ExpiresAt r \<Longrightarrow>
      fst (is_Claim store q now m) = Inr (r\<lparr>Token := ''''\<rparr>, False)"
    and Claim_free: "good m \<Longrightarrow> \<forall>r. recs m (idem_key q) = Some r \<longrightarrow> ExpiresAt r \<le> now \<Longrightarrow>
      fst (is_Claim store q now m) = Inr (claimed_record q, True) \<and>
      recs (snd (is_Claim store q now m)) (idem_key q) = Some (claimed_record q)"
    and Claim_live: "good m \<Longrightarrow> recs m k = Some r \<Longrightarrow> now < ExpiresAt r \<Longrightarrow> recs (snd (is_Claim store q now m)) k = Some r"
    and Renew_rec: "good m \<Longrightarrow> recs (snd (is_Renew store sc key tok t m)) k =
      (case recs m k of Some r \<Rightarrow> if k = (sc, key) \<and> holds r tok then Some (r\<lparr>ExpiresAt := t\<rparr>) else Some r | None \<Rightarrow> None)"
    and Complete_rec: "good m \<Longrightarrow> recs (snd (is_Complete store sc key tok status body t m)) k =
      (case recs m k of Some r \<Rightarrow> if k = (sc, key) \<and> holds r tok
         then Some (r\<lparr>idem_State := IdemDone, idem_Status := status, Body := body, ExpiresAt := t\<rparr>) else Some r
       | None \<Rightarrow> None)"
    and Complete_ok: "good m \<Longrightarrow> fst (is_Complete store sc key tok status body t m) = None \<longleftrightarrow>
      (\<exists>r. recs m (sc, key) = Some r \<and> holds r tok)"
    and Release_rec: "good m \<Longrightarrow> recs (snd (is_Release store sc key tok m)) k =
      (case recs m k of Some r \<Rightarrow> if k = (sc, key) \<and> holds r tok then None else Some r | None \<Rightarrow> None)"
    and Release_ok: "good m \<Longrightarrow> fst (is_Release store sc key tok m) = None"
    and good_Claim: "good m \<Longrightarrow> good (snd (is_Claim store q now m))"
    and good_Renew: "good m \<Longrightarrow> good (snd (is_Renew store sc key tok t m))"
    and good_Complete: "good m \<Longrightarrow> good (snd (is_Complete store sc key tok status body t m))"
    and good_Release: "good m \<Longrightarrow> good (snd (is_Release store sc key tok m))"

lemma run_call_alone: "others w = [] \<Longrightarrow> run_state (call f) w = (fst (f (mem w)), w\<lparr>mem := snd (f (mem w))\<rparr>)"
  by (simp add: call_def others_step_def split_beta)

text \<open>The time at which \<open>Do\<close> claims its key, the record it claims it with, and whether the key is free then.\<close>

definition claim_time :: "('m, 'x) Idempotency \<Rightarrow> ('m, 'x, 'z) world_scheme \<Rightarrow> time" where
  "claim_time i w = fst (idem_Now i (snd (rand_token i (ext w))))"

definition claim_of :: "('m, 'x) Idempotency \<Rightarrow> ('m, 'x, 'z) world_scheme \<Rightarrow> string \<Rightarrow> string \<Rightarrow> char list \<Rightarrow> char list \<Rightarrow> IdemRecord" where
  "claim_of i w scope key body tok = \<lparr>idem_Scope = scope, idem_Key = key, RequestHash = hex_encode (hash i body),
     idem_State = IdemPending, idem_Status = 0, Body = [], ExpiresAt = claim_time i w + PendingLease, Token = hex_encode tok\<rparr>"

text \<open>The operations of requests on an idempotency store, in any order and number.\<close>

datatype idem_op =
    OpClaim IdemRecord time
  | OpRenew string string string time
  | OpComplete string string string int "char list" time
  | OpRelease string string string

fun apply_op :: "'m IdempotencyStore \<Rightarrow> idem_op \<Rightarrow> 'm \<Rightarrow> 'm" where
  "apply_op st (OpClaim r now) m = snd (is_Claim st r now m)"
| "apply_op st (OpRenew sc key tok t) m = snd (is_Renew st sc key tok t m)"
| "apply_op st (OpComplete sc key tok status body t) m = snd (is_Complete st sc key tok status body t m)"
| "apply_op st (OpRelease sc key tok) m = snd (is_Release st sc key tok m)"

text \<open>
  An operation of another request: it does not carry the token \<open>tok\<close>, and if it claims a key it does so
  before \<open>deadline\<close>.
\<close>

fun foreign :: "string \<Rightarrow> time \<Rightarrow> idem_op \<Rightarrow> bool" where
  "foreign tok deadline (OpClaim r now) = (now < deadline)"
| "foreign tok deadline (OpRenew sc key tok' t) = (tok' \<noteq> tok)"
| "foreign tok deadline (OpComplete sc key tok' status body t) = (tok' \<noteq> tok)"
| "foreign tok deadline (OpRelease sc key tok') = (tok' \<noteq> tok)"

context idem_contract
begin

lemma good_apply: "good m \<Longrightarrow> good (apply_op store p m)"
  by (cases p) (simp_all add: good_Claim good_Renew good_Complete good_Release)

lemma foreign_keeps:
  "good m \<Longrightarrow> recs m k = Some r \<Longrightarrow> foreign (Token r) (ExpiresAt r) p \<Longrightarrow> recs (apply_op store p m) k = Some r"
  by (cases p) (simp_all add: Claim_live Renew_rec Complete_rec Release_rec holds_def)

lemma foreign_keeps_all:
  "good m \<Longrightarrow> recs m k = Some r \<Longrightarrow> list_all (foreign (Token r) (ExpiresAt r)) ps \<Longrightarrow>
   good (fold (apply_op store) ps m) \<and> recs (fold (apply_op store) ps m) k = Some r"
  by (induction ps arbitrary: m) (auto simp: good_apply foreign_keeps)

lemma claim_exclusive:
  assumes "good m" "is_Claim store q now m = (Inr (r, True), m1)" "Token q \<noteq> ''''"
    "list_all (foreign (Token q) (ExpiresAt q)) ps" "fold (apply_op store) ps m1 = m2"
  shows "good m2 \<and> recs m2 (idem_key q) = Some (claimed_record q) \<and>
    (\<forall>q' t. idem_key q' = idem_key q \<and> t < ExpiresAt q \<longrightarrow>
       fst (is_Claim store q' t m2) = Inr ((claimed_record q)\<lparr>Token := ''''\<rparr>, False)) \<and>
    (\<forall>status body t. fst (is_Complete store (idem_Scope q) (idem_Key q) (Token q) status body t m2) = None)"
proof -
  have "recs m (idem_key q) \<noteq> Some r' \<or> ExpiresAt r' \<le> now" for r'
    using Claim_taken [OF assms(1), of q r' now] assms(2) by (cases "now < ExpiresAt r'") auto
  then have m1: "recs m1 (idem_key q) = Some (claimed_record q)" "good m1"
    using Claim_free [OF assms(1), of q now] good_Claim [OF assms(1), of q now] assms(2) by auto
  then have m2: "good m2 \<and> recs m2 (idem_key q) = Some (claimed_record q)"
    using foreign_keeps_all [OF m1(2,1), of ps] assms(4,5) by (auto simp: claimed_record_def)
  then show ?thesis
    using Claim_taken [of m2 _ "claimed_record q"] Complete_ok [of m2 "idem_Scope q" "idem_Key q" "Token q"] assms(3)
    by (auto simp: claimed_record_def holds_def)
qed

lemma renew_holds:
  assumes "idem_Store i = store" "others w = []" "good (mem w)" "recs (mem w) (sc, key) = Some r" "holds r tok"
    "run_state (renew i sc key tok n) w = (u, w')"
  shows "others w' = [] \<and> good (mem w') \<and> (\<exists>t. recs (mem w') (sc, key) = Some (r\<lparr>ExpiresAt := t\<rparr>))"
  using assms(2-)
proof (induction n arbitrary: w r)
  case 0
  then show ?case
    by (auto intro: exI [of _ "ExpiresAt r"])
next
  case (Suc n)
  let ?now = "fst (idem_Now i (ext w))"
  let ?w1 = "w\<lparr>ext := snd (idem_Now i (ext w)), mem := snd (is_Renew store sc key tok (?now + PendingLease) (mem w))\<rparr>"
  let ?r1 = "r\<lparr>ExpiresAt := ?now + PendingLease\<rparr>"
  have w1: "others ?w1 = []" "good (mem ?w1)" "recs (mem ?w1) (sc, key) = Some ?r1" "holds ?r1 tok"
    using Suc.prems by (simp_all add: good_Renew Renew_rec holds_def)
  from Suc.prems(5) have "run_state (renew i sc key tok n) ?w1 = (u, w') \<or> w' = ?w1"
    using Suc.prems(1)
    by (auto simp: run_outside run_call_alone assms(1) split: option.splits if_splits)
  with Suc.IH [OF w1] w1 show ?case
    by auto
qed

text \<open>What \<open>Do\<close> asks of \<open>fn\<close> here: it runs alone and leaves the idempotency records alone.\<close>

definition leaves_records :: "(('m, 'x, 'z) world_scheme, 'a) state \<Rightarrow> bool" where
  "leaves_records fn \<longleftrightarrow> (\<forall>w a w'. run_state fn w = (a, w') \<and> others w = [] \<and> good (mem w) \<longrightarrow>
     others w' = [] \<and> good (mem w') \<and> recs (mem w') = recs (mem w))"

lemma do_claimed_ran:
  assumes "idem_Store i = store" "others w = []" "good (mem w)" "recs (mem w) (sc, key) = Some q" "holds q tok"
    "leaves_records fn" "run_state (do_claimed i ticks sc key tok fn) w = ((ans, replayed, err), w')"
  shows "others w' = [] \<and> good (mem w') \<and> \<not> replayed \<and>
    (case ans of
       Some resp \<Rightarrow> err = None \<and> (\<exists>x. recs (mem w') (sc, key) = Some (q\<lparr>idem_State := IdemDone,
         idem_Status := resp_Status resp, Body := resp_Body resp, ExpiresAt := fst (idem_Now i x) + IdempotencyTTL\<rparr>))
     | None \<Rightarrow> err \<noteq> None \<and> recs (mem w') (sc, key) = None)"
proof -
  obtain w1 where r1: "run_state (renew i sc key tok (fst ticks)) w = ((), w1)"
    by (cases "run_state (renew i sc key tok (fst ticks)) w") auto
  from renew_holds [OF assms(1-5) r1] obtain t1 where
    w1: "others w1 = []" "good (mem w1)" "recs (mem w1) (sc, key) = Some (q\<lparr>ExpiresAt := t1\<rparr>)" by blast
  obtain r w2 where r2: "run_state fn w1 = (r, w2)" by (cases "run_state fn w1")
  then have w2: "others w2 = []" "good (mem w2)" "recs (mem w2) (sc, key) = Some (q\<lparr>ExpiresAt := t1\<rparr>)"
    using assms(6) w1 unfolding leaves_records_def by (metis, metis, metis)
  obtain w3 where r3: "run_state (renew i sc key tok (snd ticks)) w2 = ((), w3)"
    by (cases "run_state (renew i sc key tok (snd ticks)) w2") auto
  have "holds (q\<lparr>ExpiresAt := t1\<rparr>) tok"
    using assms(5) by (simp add: holds_def)
  from renew_holds [OF assms(1) w2 this r3] obtain t where
    w3: "others w3 = []" "good (mem w3)" "recs (mem w3) (sc, key) = Some (q\<lparr>ExpiresAt := t\<rparr>)" by auto
  have h: "holds (q\<lparr>ExpiresAt := t\<rparr>) tok"
    using assms(5) by (simp add: holds_def)
  show ?thesis
  proof (cases r)
    case (Inl e)
    with assms(7) r1 r2 r3 w3 h show ?thesis
      by (auto simp: do_claimed_def run_call_alone assms(1) Release_ok Release_rec good_Release)
  next
    case (Inr resp)
    with assms(7) r1 r2 r3 w3 h show ?thesis
      by (auto simp: do_claimed_def run_call_alone run_outside assms(1) Complete_ok Complete_rec good_Complete)
  qed
qed

lemma Do_free:
  assumes "idem_Store i = store" "others w = []" "good (mem w)" "ValidKey key" "fst (rand_token i (ext w)) = Inr tok"
    "\<forall>r. recs (mem w) (IdemScope who method path, key) = Some r \<longrightarrow> ExpiresAt r \<le> claim_time i w"
  shows "\<exists>w1. others w1 = [] \<and> good (mem w1) \<and>
    recs (mem w1) (IdemScope who method path, key) = Some (claim_of i w (IdemScope who method path) key body tok) \<and>
    run_state (Idempotency_Do i ticks who method path key body fn) w =
      run_state (do_claimed i ticks (IdemScope who method path) key (hex_encode tok) fn) w1"
proof -
  let ?q = "claim_of i w (IdemScope who method path) key body tok"
  let ?w0 = "w\<lparr>ext := snd (idem_Now i (snd (rand_token i (ext w))))\<rparr>"
  let ?w1 = "?w0\<lparr>mem := snd (is_Claim store ?q (claim_time i w) (mem w))\<rparr>"
  have "claimed_record ?q = ?q" "idem_key ?q = (IdemScope who method path, key)"
    by (simp_all add: claimed_record_def claim_of_def)
  then have free: "fst (is_Claim store ?q (claim_time i w) (mem w)) = Inr (?q, True)"
      "recs (mem ?w1) (IdemScope who method path, key) = Some ?q"
    using Claim_free [OF assms(3), of ?q "claim_time i w"] assms(6) by simp_all
  have "key \<noteq> ''''"
    using assms(4) by (simp add: ValidKey_def)
  then have "run_state (Idempotency_Do i ticks who method path key body fn) w =
      run_state (do_claimed i ticks (IdemScope who method path) key (hex_encode tok) fn) ?w1"
    using free(1) assms(1,2,4,5)
    by (simp add: Idempotency_Do_def run_outside run_call_alone claim_time_def claim_of_def Let_def)
  then show ?thesis
    using free assms(2) good_Claim [OF assms(3)] by (intro exI [of _ ?w1]) simp
qed

lemma Do_taken:
  assumes "idem_Store i = store" "others w = []" "good (mem w)" "ValidKey key" "fst (rand_token i (ext w)) = Inr tok"
    "recs (mem w) (IdemScope who method path, key) = Some r" "claim_time i w < ExpiresAt r"
  shows "fst (run_state (Idempotency_Do i ticks who method path key body fn) w) =
    (if RequestHash r \<noteq> hex_encode (hash i body) then (None, False, Some (Sentinel ErrIdempotencyMismatch))
     else if idem_State r \<noteq> IdemDone then (None, False, Some (Sentinel ErrIdempotencyInFlight))
     else (Some \<lparr>resp_Status = idem_Status r, resp_Body = Body r\<rparr>, True, None))"
proof -
  let ?q = "claim_of i w (IdemScope who method path) key body tok"
  have "fst (is_Claim store ?q (claim_time i w) (mem w)) = Inr (r\<lparr>Token := ''''\<rparr>, False)"
    using Claim_taken [OF assms(3), of ?q r "claim_time i w"] assms(6,7) by (simp add: claim_of_def)
  moreover have "key \<noteq> ''''"
    using assms(4) by (simp add: ValidKey_def)
  ultimately show ?thesis
    using assms(1,2,4,5)
    by (simp add: Idempotency_Do_def run_outside run_call_alone claim_time_def claim_of_def Let_def)
qed

end

section \<open>The memory store keeps it\<close>

abbreviation memory_recs :: "Memory \<Rightarrow> string \<times> string \<Rightarrow> IdemRecord option" where
  "memory_recs m \<equiv> map_of (idem m)"

lemma map_of_filter_entry:
  "wf_map xs \<Longrightarrow> map_of (filter (\<lambda>(k, v). P k v) xs) k =
    (case map_of xs k of Some v \<Rightarrow> if P k v then Some v else None | None \<Rightarrow> None)"
proof (induction xs)
  case (Cons x xs)
  then have "map_of xs (fst x) = None"
    by (auto simp: wf_map_def map_of_eq_None_iff)
  with Cons show ?case
    by (cases x) (auto simp: wf_map_def split: option.splits)
qed simp

lemma sweep_recs: "wf_map (idem m) \<Longrightarrow> memory_recs (sweep now m) k =
  (case memory_recs m k of Some r \<Rightarrow> if now - swept m > Minute \<and> ExpiresAt r \<le> now then None else Some r | None \<Rightarrow> None)"
proof -
  assume wf: "wf_map (idem m)"
  have "map_of (filter (\<lambda>(k, r). now < ExpiresAt r) (idem m)) k =
      (case memory_recs m k of Some r \<Rightarrow> if ExpiresAt r \<le> now then None else Some r | None \<Rightarrow> None)"
    using map_of_filter_entry [OF wf, of "\<lambda>k r. now < ExpiresAt r"] by (auto simp: not_le split: option.splits)
  then show ?thesis
    by (auto simp: sweep_def split: option.splits)
qed

lemma memory_inv_idem: "memory_inv m \<Longrightarrow> wf_map (idem m)"
  by (simp add: memory_inv_def)

lemma memory_inv_idem_update: "memory_inv m \<Longrightarrow> wf_map im \<Longrightarrow> memory_inv (m\<lparr>idem := im\<rparr>)"
  by (simp add: memory_inv_def)

lemma memory_inv_sweep: "memory_inv m \<Longrightarrow> memory_inv (sweep now m)"
  by (simp add: sweep_def memory_inv_def)

lemma memory_inv_Claim [inv_intros]: "memory_inv m \<Longrightarrow> memory_inv (snd (Memory_Claim q now m))"
  using memory_inv_sweep [of m now]
  by (auto simp: Memory_Claim_def Let_def memory_inv_idem_update memory_inv_idem split: option.splits)

lemma memory_inv_Renew [inv_intros]: "memory_inv m \<Longrightarrow> memory_inv (snd (Memory_Renew sc key tok t m))"
  by (auto simp: Memory_Renew_def memory_inv_idem_update memory_inv_idem split: option.splits)

lemma memory_inv_Complete [inv_intros]: "memory_inv m \<Longrightarrow> memory_inv (snd (Memory_Complete sc key tok status body t m))"
  by (auto simp: Memory_Complete_def memory_inv_idem_update memory_inv_idem split: option.splits)

lemma memory_inv_Release [inv_intros]: "memory_inv m \<Longrightarrow> memory_inv (snd (Memory_Release sc key tok m))"
  by (auto simp: Memory_Release_def memory_inv_idem_update memory_inv_idem split: option.splits)

interpretation memory_keys: idem_contract memory_idem memory_recs memory_inv
proof
  fix m q r now k sc key tok t status body
  assume good: "memory_inv m"
  note wf = memory_inv_idem [OF good]
  show "memory_recs m (idem_key q) = Some r \<Longrightarrow> now < ExpiresAt r \<Longrightarrow>
      fst (is_Claim memory_idem q now m) = Inr (r\<lparr>Token := ''''\<rparr>, False)"
    by (simp add: memory_idem_def Memory_Claim_def Let_def sweep_recs [OF wf])
  show "\<forall>r. memory_recs m (idem_key q) = Some r \<longrightarrow> ExpiresAt r \<le> now \<Longrightarrow>
      fst (is_Claim memory_idem q now m) = Inr (claimed_record q, True) \<and>
      memory_recs (snd (is_Claim memory_idem q now m)) (idem_key q) = Some (claimed_record q)"
    by (auto simp: memory_idem_def Memory_Claim_def Let_def sweep_recs [OF wf] claimed_record_def split: option.splits)
  show "memory_recs m k = Some r \<Longrightarrow> now < ExpiresAt r \<Longrightarrow> memory_recs (snd (is_Claim memory_idem q now m)) k = Some r"
    by (auto simp: memory_idem_def Memory_Claim_def Let_def sweep_recs [OF wf] split: option.splits)
  show "memory_recs (snd (is_Renew memory_idem sc key tok t m)) k =
      (case memory_recs m k of Some r \<Rightarrow> if k = (sc, key) \<and> holds r tok then Some (r\<lparr>ExpiresAt := t\<rparr>) else Some r | None \<Rightarrow> None)"
    by (auto simp: memory_idem_def Memory_Renew_def held_def holds_def split: option.splits)
  show "memory_recs (snd (is_Complete memory_idem sc key tok status body t m)) k =
      (case memory_recs m k of Some r \<Rightarrow> if k = (sc, key) \<and> holds r tok
         then Some (r\<lparr>idem_State := IdemDone, idem_Status := status, Body := body, ExpiresAt := t\<rparr>) else Some r
       | None \<Rightarrow> None)"
    by (auto simp: memory_idem_def Memory_Complete_def held_def holds_def split: option.splits)
  show "(fst (is_Complete memory_idem sc key tok status body t m) = None) \<longleftrightarrow>
      (\<exists>r. memory_recs m (sc, key) = Some r \<and> holds r tok)"
    by (auto simp: memory_idem_def Memory_Complete_def held_def holds_def split: option.splits if_splits)
  show "memory_recs (snd (is_Release memory_idem sc key tok m)) k =
      (case memory_recs m k of Some r \<Rightarrow> if k = (sc, key) \<and> holds r tok then None else Some r | None \<Rightarrow> None)"
    by (auto simp: memory_idem_def Memory_Release_def held_def holds_def split: option.splits)
  show "fst (is_Release memory_idem sc key tok m) = None"
    by (simp add: memory_idem_def Memory_Release_def split: option.splits)
qed (simp_all add: memory_idem_def inv_intros)

text \<open>
  Two requests never both hold a key. Once a claim succeeds, then whatever other requests do with
  their own tokens and however they are ordered, until the lease ends: the claim's record stays as it
  was stored, every further claim of that scope and key is refused and shown the record without its
  token, and the holder can still complete it.
\<close>

theorem idempotency_claim_exclusive:
  assumes "memory_inv m" "Memory_Claim q now m = (Inr (r, True), m1)" "Token q \<noteq> ''''"
    "list_all (foreign (Token q) (ExpiresAt q)) ps" "fold (apply_op memory_idem) ps m1 = m2"
  shows "memory_recs m2 (idem_key q) = Some (claimed_record q) \<and>
    (\<forall>q' t. idem_key q' = idem_key q \<and> t < ExpiresAt q \<longrightarrow>
       fst (Memory_Claim q' t m2) = Inr ((claimed_record q)\<lparr>Token := ''''\<rparr>, False)) \<and>
    (\<forall>status body t. fst (Memory_Complete (idem_Scope q) (idem_Key q) (Token q) status body t m2) = None)"
  using memory_keys.claim_exclusive [of m q now r m1 ps m2] assms by (simp add: memory_idem_def)


text \<open>
  Keys of different requests never meet. The scope of a key determines its principal, its method
  and its path, for methods without a space: no principal's name can be made to run into another's scope.
\<close>

theorem IdemScope_injective:
  assumes "CHR '' '' \<notin> set method" "CHR '' '' \<notin> set method'" "IdemScope who method path = IdemScope who' method' path'"
  shows "who = who' \<and> method = method' \<and> path = path'"
proof -
  have colon: "CHR '':'' \<notin> set (FormatInt n)" for n
    using FormatInt_bytes [of "CHR '':''" n] by (auto simp: byte_class_defs)
  have split: "takeWhile ((\<noteq>) sep) (a @ sep # b) = a" "dropWhile ((\<noteq>) sep) (a @ sep # b) = sep # b"
    if "sep \<notin> set a" for a b and sep :: char
    using that by (auto simp: takeWhile_append dropWhile_append)
  let ?rest = "\<lambda>w m p. w @ '' '' @ m @ '' '' @ p"
  have "FormatInt (int (length who)) = FormatInt (int (length who'))" "?rest who method path = ?rest who' method' path'"
    using assms(3) split [OF colon, of "int (length who)" "?rest who method path"]
      split [OF colon, of "int (length who')" "?rest who' method' path'"] by (auto simp: IdemScope_def)
  moreover have "length who = length who'"
    using calculation(1) nat_dec_inject by (simp add: FormatInt_def)
  ultimately have "who = who'" and m: "method @ CHR '' '' # path = method' @ CHR '' '' # path'"
    by auto
  moreover have "method = method'" "path = path'"
    using m split [OF assms(1), of path] split [OF assms(2), of path'] by (metis, metis list.inject)
  ultimately show ?thesis by simp
qed

theorem IdemScope_injective_witness:
  "IdemScope ''ann'' ''POST'' ''/a b'' = IdemScope ''ann'' ''POST'' ''/a b'' \<and> ''POST'' = ''POST''"
  using IdemScope_injective [of "''POST''" "''POST''" "''ann''" "''/a b''" "''ann''" "''/a b''"] by simp

section \<open>Sample runs\<close>

definition sample_idem :: "(Memory, nat) Idempotency" where
  "sample_idem = \<lparr>idem_Store = memory_idem, idem_Now = (\<lambda>n. (int n, Suc n)), rand_token = (\<lambda>n. (Inr ''0123456789abcdef'', n)),
     hash = (\<lambda>b. b)\<rparr>"

definition sample_fn :: "((Memory, nat) world, gerror + Response) state" where
  "sample_fn = ret (Inr \<lparr>resp_Status = 201, resp_Body = ''made''\<rparr>)"

definition sample_idem_world :: "(Memory, nat) world" where
  "sample_idem_world = \<lparr>mem = NewMemory, ext = 1, others = []\<rparr>"


definition sample_claim :: IdemRecord where
  "sample_claim = \<lparr>idem_Scope = ''3:ann POST /v1'', idem_Key = ''k'', RequestHash = ''h'', idem_State = IdemPending, idem_Status = 0,
     Body = [], ExpiresAt = PendingLease, Token = ''t''\<rparr>"

theorem idempotency_claim_exclusive_witness:
  "\<exists>m1. Memory_Claim sample_claim 0 NewMemory = (Inr (sample_claim, True), m1) \<and>
     fst (Memory_Claim (sample_claim\<lparr>Token := ''u''\<rparr>) 5
       (apply_op memory_idem (OpRelease ''3:ann POST /v1'' ''k'' ''u'') m1)) = Inr (sample_claim\<lparr>Token := ''''\<rparr>, False)"
proof -
  let ?m1 = "snd (Memory_Claim sample_claim 0 NewMemory)"
  have "Memory_Claim sample_claim 0 NewMemory = (Inr (sample_claim, True), ?m1)"
    by (simp add: Memory_Claim_def sample_claim_def sweep_def NewMemory_def Let_def)
  moreover from this have "fst (Memory_Claim (sample_claim\<lparr>Token := ''u''\<rparr>) 5
      (apply_op memory_idem (OpRelease ''3:ann POST /v1'' ''k'' ''u'') ?m1)) = Inr (sample_claim\<lparr>Token := ''''\<rparr>, False)"
    using idempotency_claim_exclusive [of NewMemory sample_claim 0 sample_claim ?m1
        "[OpRelease ''3:ann POST /v1'' ''k'' ''u'']"]
    by (simp add: sample_claim_def claimed_record_def)
  ultimately show ?thesis by blast
qed

end
