(* ===== verification/Driver.thy ===== *)
theory Driver
  imports Idem
begin

text \<open>
  The driver interface (\<^verbatim>\<open>driver/driver.go\<close>), the registry (\<^verbatim>\<open>driver/registry.go\<close>), the output
  budget (\<^verbatim>\<open>driver/limit.go\<close>), command lines (\<^verbatim>\<open>driver/line.go\<close>) and the in-memory driver the
  repository's tests are built on (\<^verbatim>\<open>driver/drivertest/fake.go\<close>).

  A driver is a record of functions over the outside state \<open>'x\<close>; an optional interface it does not
  implement is \<^const>\<open>None\<close>. A call's context is left out. A command's output is the list of chunks it
  writes, each to standard output or standard error, beside its result.
\<close>

section \<open>Requests and results\<close>

datatype Capability = CapAttach | CapCopy | CapForward | CapSnapshot | CapCommand | CapOther string

record Info =
  info_Name :: string
  Version :: string
  Capabilities :: "Capability list"

definition Has :: "Info \<Rightarrow> Capability \<Rightarrow> bool" where
  "Has i c \<longleftrightarrow> list_ex (\<lambda>x. x = c) (Capabilities i)"

record Egress =
  Socket :: string
  Port :: int
  DNSSocket :: string
  DNSCredential :: string
  CABundle :: "char list"
  CABundleNow :: "(unit \<Rightarrow> char list) option"

definition CA :: "Egress \<Rightarrow> char list" where
  "CA e = (case CABundleNow e of
       Some now \<Rightarrow> if length (now ()) > 0 then now () else CABundle e
     | None \<Rightarrow> CABundle e)"

record Spec =
  spec_ID :: string
  spec_Generation :: int
  spec_Template :: string
  spec_PolicyRev :: string
  spec_Workspace :: string
  spec_WriteProtected :: "string list"
  spec_Egress :: "Egress option"
  spec_MinTier :: string
  spec_Labels :: strmap
  spec_Config :: strmap

datatype Phase = PhaseRunning | PhaseStopped | PhaseExited | PhaseFailed | PhaseOther string

fun phase_text :: "Phase \<Rightarrow> string" where
  "phase_text PhaseRunning = ''running''"
| "phase_text PhaseStopped = ''stopped''"
| "phase_text PhaseExited = ''exited''"
| "phase_text PhaseFailed = ''failed''"
| "phase_text (PhaseOther s) = s"

record Status =
  status_ID :: string
  status_Phase :: Phase
  status_Tier :: string
  status_Backend :: string
  status_Message :: string
  status_Caveat :: string

record DriverExecRequest =
  Argv :: "string list"
  Command :: string
  Cwd :: string
  Env :: "string list"
  Stdin :: "char list option"
  Stdout :: bool
  Stderr :: bool

definition ExecRequest_Validate :: "DriverExecRequest \<Rightarrow> gerror option" where
  "ExecRequest_Validate r = (if (length (Argv r) = 0) = (Command r = '''')
     then Some (DriverError DriverInvalid ''exactly one of argv and command must be set'') else None)"

datatype stream = ToStdout | ToStderr

type_synonym chunks = "(stream \<times> char list) list"

record SnapshotRef =
  ref_ID :: string
  ref_Name :: string
  ref_Generation :: int
  Digest :: string
  ref_Bytes :: int
  ref_Image :: string
  ref_CreatedAt :: time

record CommandRequest =
  cmd_Command :: string
  cmd_Shell :: bool
  cmd_Cwd :: string

record 'x Driver =
  dr_Info :: Info
  dr_Create :: "Spec \<Rightarrow> 'x \<Rightarrow> (gerror + Status) \<times> 'x"
  dr_Start :: "string \<Rightarrow> 'x \<Rightarrow> (gerror + Status) \<times> 'x"
  dr_Stop :: "string \<Rightarrow> duration \<Rightarrow> 'x \<Rightarrow> (gerror + Status) \<times> 'x"
  dr_Delete :: "string \<Rightarrow> 'x \<Rightarrow> gerror option \<times> 'x"
  dr_Status :: "string \<Rightarrow> 'x \<Rightarrow> (gerror + Status) \<times> 'x"
  dr_Exec :: "string \<Rightarrow> DriverExecRequest \<Rightarrow> 'x \<Rightarrow> (chunks \<times> (gerror + int)) \<times> 'x"
  dr_Attacher :: "(string \<Rightarrow> string \<Rightarrow> 'x \<Rightarrow> (gerror + int) \<times> 'x) option"
  dr_Copier :: "((string \<Rightarrow> string \<Rightarrow> char list \<Rightarrow> 'x \<Rightarrow> gerror option \<times> 'x) \<times>
                 (string \<Rightarrow> string \<Rightarrow> 'x \<Rightarrow> (char list list \<times> gerror option) \<times> 'x)) option"
  dr_Forwarder :: "(string \<Rightarrow> int \<Rightarrow> 'x \<Rightarrow> (gerror + nat) \<times> 'x) option"
  dr_Snapshotter :: "((string \<Rightarrow> string \<Rightarrow> 'x \<Rightarrow> (gerror + SnapshotRef) \<times> 'x) \<times>
                      (string \<Rightarrow> SnapshotRef \<Rightarrow> 'x \<Rightarrow> gerror option \<times> 'x)) option"
  dr_Commander :: "(string \<Rightarrow> CommandRequest \<Rightarrow> 'x \<Rightarrow> (gerror + nat) \<times> 'x) option"
  dr_ConfigChecker :: "(strmap \<Rightarrow> gerror option) option"

section \<open>Names and capabilities\<close>

definition ValidName :: "string \<Rightarrow> bool" where
  "ValidName s = (case s of
       [] \<Rightarrow> False
     | c # cs \<Rightarrow> length s \<le> 32 \<and> is_lower c \<and> list_all (\<lambda>d. is_lower d \<or> is_digit d \<or> d = CHR ''-'') cs)"

definition implements :: "'x Driver \<Rightarrow> Capability \<Rightarrow> bool" where
  "implements d c = (case c of
       CapAttach \<Rightarrow> dr_Attacher d \<noteq> None
     | CapCopy \<Rightarrow> dr_Copier d \<noteq> None
     | CapForward \<Rightarrow> dr_Forwarder d \<noteq> None
     | CapSnapshot \<Rightarrow> dr_Snapshotter d \<noteq> None
     | CapCommand \<Rightarrow> dr_Commander d \<noteq> None
     | CapOther s \<Rightarrow> False)"

fun check_caps :: "'x Driver \<Rightarrow> Capability list \<Rightarrow> Capability list \<Rightarrow> gerror option" where
  "check_caps d seen [] = None"
| "check_caps d seen (c # cs) =
     (if c \<in> set seen then Some (DriverError DriverInvalid ''declares a capability twice'')
      else case c of
          CapOther s \<Rightarrow> Some (DriverError DriverInvalid ''declares unknown capability'')
        | _ \<Rightarrow> if \<not> implements d c then Some (DriverError DriverInvalid ''declares a capability it does not implement'')
               else check_caps d (c # seen) cs)"

definition Driver_Check :: "'x Driver \<Rightarrow> gerror option" where
  "Driver_Check d = (if \<not> ValidName (info_Name (dr_Info d)) then Some (DriverError DriverInvalid ''driver name is not valid'')
     else check_caps d [] (Capabilities (dr_Info d)))"

definition unsupported :: gerror where
  "unsupported = DriverError DriverUnsupported ''driver does not support the capability''"

definition Driver_Attach :: "'x Driver \<Rightarrow> string \<Rightarrow> string \<Rightarrow> 'x \<Rightarrow> (gerror + int) \<times> 'x" where
  "Driver_Attach d i req x = (case dr_Attacher d of
       Some attach \<Rightarrow> if Has (dr_Info d) CapAttach then attach i req x else (Inl unsupported, x)
     | None \<Rightarrow> (Inl unsupported, x))"

definition Driver_CopyIn :: "'x Driver \<Rightarrow> string \<Rightarrow> string \<Rightarrow> char list \<Rightarrow> 'x \<Rightarrow> gerror option \<times> 'x" where
  "Driver_CopyIn d i dst tar x = (case dr_Copier d of
       Some (copy_in, copy_out) \<Rightarrow> if Has (dr_Info d) CapCopy then copy_in i dst tar x else (Some unsupported, x)
     | None \<Rightarrow> (Some unsupported, x))"

definition Driver_CopyOut :: "'x Driver \<Rightarrow> string \<Rightarrow> string \<Rightarrow> 'x \<Rightarrow> (char list list \<times> gerror option) \<times> 'x" where
  "Driver_CopyOut d i src x = (case dr_Copier d of
       Some (copy_in, copy_out) \<Rightarrow> if Has (dr_Info d) CapCopy then copy_out i src x else (([], Some unsupported), x)
     | None \<Rightarrow> (([], Some unsupported), x))"

definition Driver_Forward :: "'x Driver \<Rightarrow> string \<Rightarrow> int \<Rightarrow> 'x \<Rightarrow> (gerror + nat) \<times> 'x" where
  "Driver_Forward d i port x = (case dr_Forwarder d of
       Some forward \<Rightarrow>
         if \<not> Has (dr_Info d) CapForward then (Inl unsupported, x)
         else if port < 1 \<or> port > 65535 then (Inl (DriverError DriverInvalid ''port is out of range''), x)
         else forward i port x
     | None \<Rightarrow> (Inl unsupported, x))"

definition Driver_Command :: "'x Driver \<Rightarrow> string \<Rightarrow> CommandRequest \<Rightarrow> 'x \<Rightarrow> (gerror + nat) \<times> 'x" where
  "Driver_Command d i req x = (case dr_Commander d of
       Some command \<Rightarrow>
         if \<not> Has (dr_Info d) CapCommand then (Inl unsupported, x)
         else if cmd_Shell req \<noteq> (cmd_Command req = '''')
         then (Inl (DriverError DriverInvalid ''exactly one of a command and a shell must be asked for''), x)
         else command i req x
     | None \<Rightarrow> (Inl unsupported, x))"

definition Driver_Snapshot :: "'x Driver \<Rightarrow> string \<Rightarrow> string \<Rightarrow> 'x \<Rightarrow> (gerror + SnapshotRef) \<times> 'x" where
  "Driver_Snapshot d i name x = (case dr_Snapshotter d of
       Some (snap, restore) \<Rightarrow> if Has (dr_Info d) CapSnapshot then snap i name x else (Inl unsupported, x)
     | None \<Rightarrow> (Inl unsupported, x))"

definition Driver_Restore :: "'x Driver \<Rightarrow> string \<Rightarrow> SnapshotRef \<Rightarrow> 'x \<Rightarrow> gerror option \<times> 'x" where
  "Driver_Restore d i r x = (case dr_Snapshotter d of
       Some (snap, restore) \<Rightarrow> if Has (dr_Info d) CapSnapshot then restore i r x else (Some unsupported, x)
     | None \<Rightarrow> (Some unsupported, x))"

section \<open>The registry\<close>

type_synonym 'x DriverRegistry = "(string, 'x Driver) gomap"

definition NewRegistry :: "'x DriverRegistry" where
  "NewRegistry = []"

definition Register :: "'x Driver option \<Rightarrow> 'x DriverRegistry \<Rightarrow> gerror option \<times> 'x DriverRegistry" where
  "Register d r = (case d of
       None \<Rightarrow> (Some (DriverError DriverInvalid ''nil driver''), r)
     | Some d \<Rightarrow> (case Driver_Check d of
           Some e \<Rightarrow> (Some e, r)
         | None \<Rightarrow>
             if map_of r (info_Name (dr_Info d)) \<noteq> None
             then (Some (DriverError DriverExists ''driver is already registered''), r)
             else (None, AList.update (info_Name (dr_Info d)) d r)))"

definition Registry_Get :: "string \<Rightarrow> 'x DriverRegistry \<Rightarrow> gerror + 'x Driver" where
  "Registry_Get name r = (case map_of r name of
       None \<Rightarrow> Inl (DriverError DriverNotFound ''no driver of that name is registered'')
     | Some d \<Rightarrow> Inr d)"

definition Registry_Names :: "'x DriverRegistry \<Rightarrow> string list" where
  "Registry_Names r = sort (keys r)"

section \<open>The output budget\<close>

record OutputLimit =
  left :: int
  exceeded :: bool
  OnExceed_runs :: nat

definition NewOutputLimit :: "int \<Rightarrow> OutputLimit" where
  "NewOutputLimit n = \<lparr>left = n, exceeded = False, OnExceed_runs = 0\<rparr>"

text \<open>
  \<open>limitedWriter.Write\<close> over a writer with state \<open>'w\<close>; the result is the count and the error, and a
  slice \<open>p[:n]\<close> with \<open>n < 0\<close> panics. \<open>OnExceed_runs\<close> counts the runs of \<open>OnExceed\<close>.
\<close>

definition limited_Write :: "(char list \<Rightarrow> 'w \<Rightarrow> (int \<times> gerror option) \<times> 'w) \<Rightarrow> char list \<Rightarrow> OutputLimit \<times> 'w
    \<Rightarrow> ((int \<times> gerror option) \<times> OutputLimit \<times> 'w) option" where
  "limited_Write write p lw =
     (let (l, w) = lw
      in if exceeded l then Some ((0, Some (Sentinel ErrOutputLimit)), l, w)
         else let over = int (length p) > left l;
                  n = (if over then left l else int (length p));
                  l1 = l\<lparr>left := left l - n, exceeded := over\<rparr>
              in if n < 0 then None
                 else let ((written, err), w1) = write (take (nat n) p) w
                      in if over
                         then Some ((written, Some (Sentinel ErrOutputLimit)), l1\<lparr>OnExceed_runs := OnExceed_runs l1 + 1\<rparr>, w1)
                         else Some ((written, err), l1, w1))"

fun limited_writes :: "(char list \<Rightarrow> 'w \<Rightarrow> (int \<times> gerror option) \<times> 'w) \<Rightarrow> char list list \<Rightarrow> OutputLimit \<times> 'w
    \<Rightarrow> (OutputLimit \<times> 'w) option" where
  "limited_writes write [] lw = Some lw"
| "limited_writes write (p # ps) lw = (case limited_Write write p lw of
       None \<Rightarrow> None
     | Some (r, lw1) \<Rightarrow> limited_writes write ps lw1)"

section \<open>Command lines\<close>

fun replace_quotes :: "string \<Rightarrow> string" where
  "replace_quotes [] = []"
| "replace_quotes (c # cs) = (if c = CHR 0x27 then [CHR 0x27, CHR 0x5C, CHR 0x27, CHR 0x27] else [c]) @ replace_quotes cs"

text \<open>\<open>syntax.Quote(a, LangPOSIX)\<close> of mvdan.cc/sh is the parameter \<open>sh_quote\<close>; its error is \<^const>\<open>None\<close>.\<close>

definition quote_word :: "(string \<Rightarrow> string option) \<Rightarrow> string \<Rightarrow> string" where
  "quote_word sh_quote a = (case sh_quote a of
       Some q \<Rightarrow> q
     | None \<Rightarrow> CHR 0x27 # replace_quotes a @ [CHR 0x27])"

definition QuoteArgv :: "(string \<Rightarrow> string option) \<Rightarrow> string list \<Rightarrow> gerror + string" where
  "QuoteArgv sh_quote argv =
     (if list_ex (\<lambda>a. CHR 0x00 \<in> set a) argv then Inl (DriverError DriverInvalid ''it holds a NUL byte'')
      else Inr (Join (map (quote_word sh_quote) argv) '' ''))"

definition ExecRequest_Line :: "(string \<Rightarrow> string option) \<Rightarrow> DriverExecRequest \<Rightarrow> gerror + string" where
  "ExecRequest_Line sh_quote r = (if Command r \<noteq> '''' then Inr (Command r) else QuoteArgv sh_quote (Argv r))"

section \<open>The in-memory driver\<close>

record Fake =
  fake_info :: Info
  fake_ExecFunc :: "(string \<Rightarrow> DriverExecRequest \<Rightarrow> chunks \<times> (gerror + int)) option"
  fake_Tier :: string
  fake_Caveat :: string
  Errs :: "(string, gerror) gomap"
  instances :: "(string, Phase) gomap"
  files :: "(string, char list) gomap"
  snapshots :: "(string, SnapshotRef) gomap"
  calls :: "(string, int) gomap"
  specs :: "(string, Spec) gomap"

definition Fake_New :: "string \<Rightarrow> Capability list \<Rightarrow> Fake" where
  "Fake_New name caps = \<lparr>fake_info = \<lparr>info_Name = name, Version = ''0.0.0-test'', Capabilities = caps\<rparr>,
     fake_ExecFunc = None, fake_Tier = '''', fake_Caveat = '''', Errs = [], instances = [], files = [], snapshots = [],
     calls = [], specs = []\<rparr>"

definition fake_tier :: "Fake \<Rightarrow> string" where
  "fake_tier f = (if fake_Tier f = '''' then ''process'' else fake_Tier f)"

definition fake_status :: "string \<Rightarrow> Phase \<Rightarrow> Fake \<Rightarrow> Status" where
  "fake_status i p f = \<lparr>status_ID = i, status_Phase = p, status_Tier = fake_tier f, status_Backend = ''fake'',
     status_Message = '''', status_Caveat = fake_Caveat f\<rparr>"

definition Fake_SetPhase :: "string \<Rightarrow> Phase \<Rightarrow> Fake \<Rightarrow> Fake" where
  "Fake_SetPhase i p f = f\<lparr>instances := AList.update i p (instances f)\<rparr>"

definition Fake_SetTier :: "string \<Rightarrow> Fake \<Rightarrow> Fake" where
  "Fake_SetTier t f = f\<lparr>fake_Tier := t\<rparr>"

definition Fake_SetErr :: "string \<Rightarrow> gerror option \<Rightarrow> Fake \<Rightarrow> Fake" where
  "Fake_SetErr method err f = (case err of
       Some e \<Rightarrow> f\<lparr>Errs := AList.update method e (Errs f)\<rparr>
     | None \<Rightarrow> f\<lparr>Errs := AList.delete method (Errs f)\<rparr>)"

definition Fake_Calls :: "string \<Rightarrow> Fake \<Rightarrow> int" where
  "Fake_Calls method f = (case map_of (calls f) method of None \<Rightarrow> 0 | Some n \<Rightarrow> n)"

definition fake_enter :: "string \<Rightarrow> Fake \<Rightarrow> gerror option \<times> Fake" where
  "fake_enter method f = (map_of (Errs f) method, f\<lparr>calls := AList.update method (Fake_Calls method f + 1) (calls f)\<rparr>)"

definition Fake_Create :: "Spec \<Rightarrow> Fake \<Rightarrow> (gerror + Status) \<times> Fake" where
  "Fake_Create spec f0 = (case fake_enter ''create'' f0 of
       (Some e, f) \<Rightarrow> (Inl e, f)
     | (None, f) \<Rightarrow>
         if spec_ID spec = '''' then (Inl (DriverError DriverInvalid ''spec has no id''), f)
         else if map_of (instances f) (spec_ID spec) \<noteq> None
         then (Inl (DriverError DriverExists ''instance exists''), f)
         else (Inr (fake_status (spec_ID spec) PhaseRunning f),
               f\<lparr>instances := AList.update (spec_ID spec) PhaseRunning (instances f),
                 specs := AList.update (spec_ID spec) spec (specs f)\<rparr>))"

definition fake_set :: "string \<Rightarrow> string \<Rightarrow> Phase \<Rightarrow> Fake \<Rightarrow> (gerror + Status) \<times> Fake" where
  "fake_set method i p f0 = (case fake_enter method f0 of
       (Some e, f) \<Rightarrow> (Inl e, f)
     | (None, f) \<Rightarrow>
         if map_of (instances f) i = None then (Inl (DriverError DriverNotFound ''no instance''), f)
         else (Inr (fake_status i p f), f\<lparr>instances := AList.update i p (instances f)\<rparr>))"

definition Fake_Start :: "string \<Rightarrow> Fake \<Rightarrow> (gerror + Status) \<times> Fake" where
  "Fake_Start i = fake_set ''start'' i PhaseRunning"

definition Fake_Stop :: "string \<Rightarrow> duration \<Rightarrow> Fake \<Rightarrow> (gerror + Status) \<times> Fake" where
  "Fake_Stop i grace = fake_set ''stop'' i PhaseStopped"

definition Fake_Delete :: "string \<Rightarrow> Fake \<Rightarrow> gerror option \<times> Fake" where
  "Fake_Delete i f0 = (case fake_enter ''delete'' f0 of
       (Some e, f) \<Rightarrow> (Some e, f)
     | (None, f) \<Rightarrow>
         if map_of (instances f) i = None then (Some (DriverError DriverNotFound ''no instance''), f)
         else (None, f\<lparr>instances := AList.delete i (instances f)\<rparr>))"

definition Fake_Status :: "string \<Rightarrow> Fake \<Rightarrow> (gerror + Status) \<times> Fake" where
  "Fake_Status i f0 = (case fake_enter ''status'' f0 of
       (Some e, f) \<Rightarrow> (Inl e, f)
     | (None, f) \<Rightarrow> (case map_of (instances f) i of
           None \<Rightarrow> (Inl (DriverError DriverNotFound ''no instance''), f)
         | Some p \<Rightarrow> (Inr (fake_status i p f), f)))"

definition fake_running :: "string \<Rightarrow> Fake \<Rightarrow> gerror option" where
  "fake_running i f = (case map_of (instances f) i of
       None \<Rightarrow> Some (DriverError DriverNotFound ''no instance'')
     | Some p \<Rightarrow> if p \<noteq> PhaseRunning then Some (DriverError DriverConflict ''instance is not running'') else None)"

definition Fake_Exec :: "string \<Rightarrow> DriverExecRequest \<Rightarrow> Fake \<Rightarrow> (chunks \<times> (gerror + int)) \<times> Fake" where
  "Fake_Exec i req f0 = (case fake_enter ''exec'' f0 of
       (Some e, f) \<Rightarrow> (([], Inl e), f)
     | (None, f) \<Rightarrow> (case ExecRequest_Validate req of
           Some e \<Rightarrow> (([], Inl e), f)
         | None \<Rightarrow> (case fake_running i f of
               Some e \<Rightarrow> (([], Inl e), f)
             | None \<Rightarrow> (case fake_ExecFunc f of
                   Some run \<Rightarrow> (run i req, f)
                 | None \<Rightarrow>
                     let cmd = (if Command req = '''' then Join (Argv req) '' '' else Command req)
                     in ((if Stdout req
                          then (ToStdout, cmd @ [CHR 0x0A]) # (case Stdin req of None \<Rightarrow> [] | Some b \<Rightarrow> [(ToStdout, b)])
                          else [], Inr 0), f)))))"

definition Fake_CopyIn :: "string \<Rightarrow> string \<Rightarrow> char list \<Rightarrow> Fake \<Rightarrow> gerror option \<times> Fake" where
  "Fake_CopyIn i dst tar f = (case fake_running i f of
       Some e \<Rightarrow> (Some e, f)
     | None \<Rightarrow> (None, f\<lparr>files := AList.update (i @ '':'' @ dst) tar (files f)\<rparr>))"

definition Fake_CopyOut :: "string \<Rightarrow> string \<Rightarrow> Fake \<Rightarrow> (char list list \<times> gerror option) \<times> Fake" where
  "Fake_CopyOut i src f = (case fake_running i f of
       Some e \<Rightarrow> (([], Some e), f)
     | None \<Rightarrow> (case map_of (files f) (i @ '':'' @ src) of
           None \<Rightarrow> (([], Some (DriverError DriverNotFound ''no such path'')), f)
         | Some b \<Rightarrow> (([b], None), f)))"

definition Fake_Snapshot :: "(char list \<Rightarrow> char list) \<Rightarrow> string \<Rightarrow> string \<Rightarrow> Fake \<Rightarrow> (gerror + SnapshotRef) \<times> Fake" where
  "Fake_Snapshot sha256 i name f0 = (case Fake_Status i f0 of
       (Inl e, f) \<Rightarrow> (Inl e, f)
     | (Inr s, f) \<Rightarrow>
         let r = \<lparr>ref_ID = i @ ''@'' @ name, ref_Name = name, ref_Generation = 0,
               Digest = ''sha256:'' @ hex_encode (sha256 (i @ ''@'' @ name)), ref_Bytes = 0, ref_Image = '''', ref_CreatedAt = 0\<rparr>
         in (Inr r, f\<lparr>snapshots := AList.update (ref_ID r) r (snapshots f)\<rparr>))"

definition Fake_Restore :: "string \<Rightarrow> SnapshotRef \<Rightarrow> Fake \<Rightarrow> gerror option \<times> Fake" where
  "Fake_Restore i r f =
     (if map_of (instances f) i = None then (Some (DriverError DriverNotFound ''no instance''), f)
      else if map_of (snapshots f) (ref_ID r) = None then (Some (DriverError DriverNotFound ''no snapshot''), f)
      else (None, f))"

section \<open>Lemmas on the registry\<close>

lemma check_caps_None: "check_caps d seen cs = None \<longleftrightarrow> distinct cs \<and> set cs \<inter> set seen = {} \<and> list_all (implements d) cs"
proof (induction cs arbitrary: seen)
  case (Cons c cs)
  show ?case
    using Cons [of "c # seen"] by (cases c) (auto simp: implements_def)
qed simp

lemma check_caps_error: "check_caps d seen cs = Some e \<Longrightarrow> errors_Is e DriverInvalid"
proof (induction cs arbitrary: seen)
  case (Cons c cs)
  then show ?case
    by (cases c) (auto split: if_splits)
qed simp

lemma Driver_Check_None:
  "Driver_Check d = None \<longleftrightarrow> ValidName (info_Name (dr_Info d)) \<and> distinct (Capabilities (dr_Info d)) \<and>
     list_all (implements d) (Capabilities (dr_Info d))"
  by (simp add: Driver_Check_def check_caps_None)

definition registry_inv :: "'x DriverRegistry \<Rightarrow> bool" where
  "registry_inv r \<longleftrightarrow> wf_map r \<and> (\<forall>n d. map_of r n = Some d \<longrightarrow> info_Name (dr_Info d) = n \<and> Driver_Check d = None)"

lemma registry_inv_New [simp]: "registry_inv NewRegistry"
  by (simp add: registry_inv_def NewRegistry_def)

lemma registry_inv_Register: "registry_inv r \<Longrightarrow> registry_inv (snd (Register d r))"
  by (auto simp: registry_inv_def Register_def split: option.splits)

text \<open>The registries a program builds, starting from the empty one.\<close>

inductive registered :: "'x DriverRegistry \<Rightarrow> bool" where
  empty: "registered NewRegistry"
| add: "registered r \<Longrightarrow> registered (snd (Register d r))"

lemma registered_inv: "registered r \<Longrightarrow> registry_inv r"
  by (induction rule: registered.induct) (simp_all add: registry_inv_Register)

lemma registered_implements: "registered r \<Longrightarrow> map_of r n = Some d \<Longrightarrow> Has (dr_Info d) c \<Longrightarrow> implements d c"
  using registered_inv [of r] by (auto simp: registry_inv_def Driver_Check_None Has_def list_all_iff list_ex_iff)

text \<open>
  What a registry hands out can do what it says. However a registry was built, \<open>Get\<close> returns a driver
  only under its own valid name; each capability it declares it implements, so no verb behind a declared
  capability is answered with unsupported; and each it does not declare is refused without calling it.
\<close>

theorem registered_driver_capabilities:
  assumes "registered r" "Registry_Get name r = Inr d"
  shows "info_Name (dr_Info d) = name \<and> ValidName name \<and>
    (Has (dr_Info d) CapSnapshot \<longrightarrow> (\<exists>snap restore. dr_Snapshotter d = Some (snap, restore) \<and>
       Driver_Snapshot d i snapname x = snap i snapname x \<and> Driver_Restore d i ref x = restore i ref x)) \<and>
    (\<not> Has (dr_Info d) CapSnapshot \<longrightarrow> Driver_Snapshot d i snapname x = (Inl unsupported, x) \<and>
       Driver_Restore d i ref x = (Some unsupported, x)) \<and>
    (Has (dr_Info d) CapCopy \<longrightarrow> (\<exists>cin cout. dr_Copier d = Some (cin, cout) \<and>
       Driver_CopyIn d i path tar x = cin i path tar x \<and> Driver_CopyOut d i path x = cout i path x)) \<and>
    (\<not> Has (dr_Info d) CapCopy \<longrightarrow> Driver_CopyIn d i path tar x = (Some unsupported, x) \<and>
       Driver_CopyOut d i path x = (([], Some unsupported), x))"
proof -
  have d: "map_of r name = Some d"
    using assms(2) by (simp add: Registry_Get_def split: option.splits)
  have "info_Name (dr_Info d) = name \<and> ValidName name"
    using registered_inv [OF assms(1)] d by (auto simp: registry_inv_def Driver_Check_None)
  moreover have "Has (dr_Info d) CapSnapshot \<Longrightarrow> dr_Snapshotter d \<noteq> None" "Has (dr_Info d) CapCopy \<Longrightarrow> dr_Copier d \<noteq> None"
    using registered_implements [OF assms(1) d, of CapSnapshot] registered_implements [OF assms(1) d, of CapCopy]
    by (auto simp: implements_def)
  ultimately show ?thesis
    by (auto simp: Driver_Snapshot_def Driver_Restore_def Driver_CopyIn_def Driver_CopyOut_def split: option.splits)
qed

section \<open>Lemmas on the output budget\<close>

text \<open>A writer that keeps all it is given, as a client's connection does.\<close>

definition keep_all :: "char list \<Rightarrow> char list \<Rightarrow> (int \<times> gerror option) \<times> char list" where
  "keep_all p w = ((int (length p), None), w @ p)"

lemma limited_writes_exceeded: "exceeded l \<Longrightarrow> limited_writes write ps (l, w) = Some (l, w)"
  by (induction ps) (simp_all add: limited_Write_def)

lemma limited_writes_keep:
  assumes "0 \<le> left l" "\<not> exceeded l"
  shows "limited_writes keep_all ps (l, w) =
    Some (if int (length (concat ps)) \<le> left l then (l\<lparr>left := left l - int (length (concat ps))\<rparr>, w @ concat ps)
          else (l\<lparr>left := 0, exceeded := True, OnExceed_runs := OnExceed_runs l + 1\<rparr>, w @ take (nat (left l)) (concat ps)))"
  using assms
proof (induction ps arbitrary: l w)
  case (Cons p ps)
  show ?case
  proof (cases "int (length p) > left l")
    case True
    then have "nat (left l) \<le> length p" by simp
    with True Cons.prems show ?thesis
      by (simp add: limited_Write_def keep_all_def Let_def limited_writes_exceeded)
  next
    case False
    then have p: "length p \<le> nat (left l)"
      using Cons.prems by simp
    let ?l = "l\<lparr>left := left l - int (length p)\<rparr>"
    have step: "limited_writes keep_all (p # ps) (l, w) = limited_writes keep_all ps (?l, w @ p)"
      using False Cons.prems by (cases l) (simp add: limited_Write_def keep_all_def Let_def)
    have nat_left: "nat (left l - int (length p)) = nat (left l) - length p"
      using p by linarith
    show ?thesis
      unfolding step using Cons.IH [of ?l "w @ p"] False Cons.prems p nat_left by simp
  qed
qed simp

text \<open>
  The output budget. Whatever a command writes, in whatever pieces and to either stream, what reaches
  the client is the longest prefix of it that fits in the budget, byte for byte; the call is cut off exactly
  when more was written than the budget, and then cancelled once; and no write ever panics.
\<close>

theorem output_limit_prefix:
  assumes "0 \<le> n"
  shows "\<exists>l. limited_writes keep_all ps (NewOutputLimit n, []) = Some (l, take (nat n) (concat ps)) \<and>
    (exceeded l \<longleftrightarrow> int (length (concat ps)) > n) \<and> OnExceed_runs l = (if exceeded l then 1 else 0)"
proof -
  have "nat n \<ge> length (concat ps)" if "int (length (concat ps)) \<le> n"
    using that by linarith
  then show ?thesis
    using limited_writes_keep [of "NewOutputLimit n" ps "[]"] assms by (auto simp: NewOutputLimit_def)
qed

theorem output_limit_prefix_witness:
  "\<exists>l. limited_writes keep_all [''abc'', ''def''] (NewOutputLimit 4, []) = Some (l, ''abcd'') \<and> exceeded l"
  using output_limit_prefix [of 4 "[''abc'', ''def'']"] by auto

section \<open>Lemmas on command lines\<close>

text \<open>
  How a POSIX shell splits a line into words, for the part of its grammar quoting uses: blanks, single
  quotes, double quotes, backslashes and the characters with no meaning outside quotes. A line with
  anything else unquoted (a glob, an operator, an expansion) has no words here.
\<close>

datatype sh_mode = Plain | Single | Double

definition sh_literal :: "char \<Rightarrow> bool" where
  "sh_literal c \<longleftrightarrow> is_alnum c \<or> c \<in> set ''_-./:,+@%^''"

definition cur_word :: "string option \<Rightarrow> string" where
  "cur_word w = (case w of None \<Rightarrow> [] | Some v \<Rightarrow> v)"

fun sh_words :: "sh_mode \<Rightarrow> string option \<Rightarrow> string \<Rightarrow> string list option" where
  "sh_words Plain w [] = Some (case w of None \<Rightarrow> [] | Some v \<Rightarrow> [v])"
| "sh_words Plain w (c # cs) =
     (if c = CHR '' '' then (case w of None \<Rightarrow> sh_words Plain None cs | Some v \<Rightarrow> map_option ((#) v) (sh_words Plain None cs))
      else if c = CHR 0x27 then sh_words Single (Some (cur_word w)) cs
      else if c = CHR 0x22 then sh_words Double (Some (cur_word w)) cs
      else if c = CHR 0x5C then
        (case cs of [] \<Rightarrow> None
         | d # ds \<Rightarrow> if d = CHR 0x0A then sh_words Plain w ds else sh_words Plain (Some (cur_word w @ [d])) ds)
      else if sh_literal c then sh_words Plain (Some (cur_word w @ [c])) cs
      else None)"
| "sh_words Single w [] = None"
| "sh_words Single w (c # cs) =
     (if c = CHR 0x27 then sh_words Plain (Some (cur_word w)) cs else sh_words Single (Some (cur_word w @ [c])) cs)"
| "sh_words Double w [] = None"
| "sh_words Double w (c # cs) =
     (if c = CHR 0x22 then sh_words Plain (Some (cur_word w)) cs
      else if c = CHR 0x5C then
        (case cs of [] \<Rightarrow> None
         | d # ds \<Rightarrow> if d = CHR 0x0A then sh_words Double w ds
                      else if d \<in> {CHR 0x24, CHR 0x60, CHR 0x22, CHR 0x5C} then sh_words Double (Some (cur_word w @ [d])) ds
                      else sh_words Double (Some (cur_word w @ [c, d])) ds)
      else if c \<in> {CHR 0x24, CHR 0x60} then None
      else sh_words Double (Some (cur_word w @ [c])) cs)"

text \<open>A text that is read as the word \<open>a\<close>, wherever in a word it stands.\<close>

definition reads_as :: "string \<Rightarrow> string \<Rightarrow> bool" where
  "reads_as q a \<longleftrightarrow> (\<forall>w rest. sh_words Plain w (q @ rest) = sh_words Plain (Some (cur_word w @ a)) rest)"

lemma cur_word_Some [simp]: "cur_word (Some v) = v"
  by (simp add: cur_word_def)

lemma sh_words_Single: "sh_words Single (Some w) (replace_quotes a @ CHR 0x27 # rest) = sh_words Plain (Some (w @ a)) rest"
  by (induction a arbitrary: w) simp_all

lemma reads_as_single: "reads_as (CHR 0x27 # replace_quotes a @ [CHR 0x27]) a"
  by (simp add: reads_as_def sh_words_Single)

lemma reads_as_quote_word: "\<forall>a q. sh_quote a = Some q \<longrightarrow> reads_as q a \<Longrightarrow> reads_as (quote_word sh_quote a) a"
  by (simp add: quote_word_def reads_as_single split: option.split)

lemma sh_words_Join:
  assumes "\<And>a. reads_as (q a) a"
  shows "argv \<noteq> [] \<Longrightarrow> sh_words Plain None (Join (map q argv) '' '') = Some argv"
proof (induction argv)
  case (Cons a as)
  have a: "sh_words Plain None (q a @ rest) = sh_words Plain (Some a) rest" for rest
    using assms [of a] by (simp add: reads_as_def cur_word_def)
  show ?case
  proof (cases as)
    case Nil
    then show ?thesis
      using a [of "[]"] by simp
  next
    case (Cons b bs)
    then show ?thesis
      using a Cons.IH by simp
  qed
qed simp

text \<open>
  What is judged is what runs. The line made of an argument vector is split by a POSIX shell back into
  exactly that vector, for every vector of words without a NUL byte, given that the third-party \<open>Quote\<close>
  returns a text the shell reads as its argument; a word with a NUL byte is refused, and a command given as a
  line is that line.
\<close>

theorem QuoteArgv_roundtrip:
  assumes "\<forall>a q. sh_quote a = Some q \<longrightarrow> reads_as q a" "ExecRequest_Validate r = None"
  shows "(case ExecRequest_Line sh_quote r of
       Inr line \<Rightarrow> if Command r = '''' then sh_words Plain None line = Some (Argv r) else line = Command r
     | Inl e \<Rightarrow> errors_Is e DriverInvalid \<and> (\<exists>a \<in> set (Argv r). CHR 0x00 \<in> set a))"
proof -
  have "Command r = '''' \<Longrightarrow> Argv r \<noteq> []"
    using assms(2) by (auto simp: ExecRequest_Validate_def split: if_splits)
  moreover have "argv \<noteq> [] \<Longrightarrow> sh_words Plain None (Join (map (quote_word sh_quote) argv) '' '') = Some argv" for argv
    by (rule sh_words_Join) (rule reads_as_quote_word [OF assms(1)])
  ultimately show ?thesis
    by (auto simp: ExecRequest_Line_def QuoteArgv_def list_ex_iff)
qed

definition sample_quote :: "string \<Rightarrow> string option" where
  "sample_quote a = (if a \<noteq> [] \<and> list_all is_alnum a then Some a else None)"

lemma sample_quote_reads: "\<forall>a q. sample_quote a = Some q \<longrightarrow> reads_as q a"
proof -
  have lit: "sh_words Plain w (q @ rest) = sh_words Plain (Some (cur_word w @ q)) rest"
    if "q \<noteq> []" "list_all is_alnum q" for w q rest
    using that
  proof (induction q arbitrary: w)
    case (Cons c cs)
    have "c \<noteq> CHR '' ''" "c \<noteq> CHR 0x27" "c \<noteq> CHR 0x22" "c \<noteq> CHR 0x5C" "sh_literal c"
      using Cons.prems by (auto simp: byte_class_defs sh_literal_def)
    with Cons show ?case
      by (cases cs) simp_all
  qed simp
  then show ?thesis
    by (auto simp: sample_quote_def reads_as_def split: if_splits)
qed

theorem QuoteArgv_roundtrip_witness:
  "case ExecRequest_Line sample_quote \<lparr>Argv = [''ls'', ''a b''], Command = '''', Cwd = '''', Env = [], Stdin = None,
      Stdout = True, Stderr = True\<rparr> of
     Inr line \<Rightarrow> sh_words Plain None line = Some [''ls'', ''a b''] | Inl e \<Rightarrow> False"
  using QuoteArgv_roundtrip [OF sample_quote_reads, of "\<lparr>Argv = [''ls'', ''a b''], Command = '''', Cwd = '''', Env = [],
      Stdin = None, Stdout = True, Stderr = True\<rparr>"]
  by (simp add: ExecRequest_Validate_def split: sum.splits)

section \<open>The contract of a driver\<close>

text \<open>
  What the control plane relies on: \<open>phase x i\<close> is the phase of instance \<open>i\<close>, if the driver has it. A call that
  fails changes no instance, a call that succeeds leaves the instance in the phase it reports, and a
  not-found error is true. \<open>ok\<close> is the states in which the driver keeps this.
\<close>

locale driver_contract =
  fixes d :: "'x Driver"
    and phase :: "'x \<Rightarrow> string \<Rightarrow> Phase option"
    and ok :: "'x \<Rightarrow> bool"
  assumes Create_Inr: "ok x \<Longrightarrow> dr_Create d s x = (Inr st, x') \<Longrightarrow>
      phase x (spec_ID s) = None \<and> phase x' = (phase x)(spec_ID s \<mapsto> status_Phase st) \<and> ok x'"
    and Create_Inl: "ok x \<Longrightarrow> dr_Create d s x = (Inl e, x') \<Longrightarrow> phase x' = phase x \<and> ok x'"
    and Start_Inr: "ok x \<Longrightarrow> dr_Start d i x = (Inr st, x') \<Longrightarrow>
      phase x i \<noteq> None \<and> phase x' = (phase x)(i \<mapsto> status_Phase st) \<and> ok x'"
    and Start_Inl: "ok x \<Longrightarrow> dr_Start d i x = (Inl e, x') \<Longrightarrow>
      phase x' = phase x \<and> ok x' \<and> (errors_Is e DriverNotFound \<longrightarrow> phase x i = None)"
    and Stop_Inr: "ok x \<Longrightarrow> dr_Stop d i g x = (Inr st, x') \<Longrightarrow>
      phase x i \<noteq> None \<and> phase x' = (phase x)(i \<mapsto> status_Phase st) \<and> ok x'"
    and Stop_Inl: "ok x \<Longrightarrow> dr_Stop d i g x = (Inl e, x') \<Longrightarrow>
      phase x' = phase x \<and> ok x' \<and> (errors_Is e DriverNotFound \<longrightarrow> phase x i = None)"
    and Delete_None: "ok x \<Longrightarrow> dr_Delete d i x = (None, x') \<Longrightarrow> phase x' = (phase x)(i := None) \<and> ok x'"
    and Delete_Some: "ok x \<Longrightarrow> dr_Delete d i x = (Some e, x') \<Longrightarrow>
      phase x' = phase x \<and> ok x' \<and> (errors_Is e DriverNotFound \<longrightarrow> phase x i = None)"
    and Status_Inr: "ok x \<Longrightarrow> dr_Status d i x = (Inr st, x') \<Longrightarrow> phase x i = Some (status_Phase st) \<and> phase x' = phase x \<and> ok x'"
    and Status_Inl: "ok x \<Longrightarrow> dr_Status d i x = (Inl e, x') \<Longrightarrow>
      phase x' = phase x \<and> ok x' \<and> (errors_Is e DriverNotFound \<longrightarrow> phase x i = None)"

text \<open>
  The in-memory driver as the control plane sees it; its attach, forward and command run goroutines and
  processes and are parameters.
\<close>

definition fake_driver :: "(char list \<Rightarrow> char list) \<Rightarrow> (string \<Rightarrow> string \<Rightarrow> Fake \<Rightarrow> (gerror + int) \<times> Fake)
    \<Rightarrow> (string \<Rightarrow> int \<Rightarrow> Fake \<Rightarrow> (gerror + nat) \<times> Fake) \<Rightarrow> (string \<Rightarrow> CommandRequest \<Rightarrow> Fake \<Rightarrow> (gerror + nat) \<times> Fake)
    \<Rightarrow> string \<Rightarrow> Capability list \<Rightarrow> Fake Driver" where
  "fake_driver sha256 attach forward command name caps =
     \<lparr>dr_Info = fake_info (Fake_New name caps), dr_Create = Fake_Create, dr_Start = Fake_Start, dr_Stop = Fake_Stop,
      dr_Delete = Fake_Delete, dr_Status = Fake_Status, dr_Exec = Fake_Exec, dr_Attacher = Some attach,
      dr_Copier = Some (Fake_CopyIn, Fake_CopyOut), dr_Forwarder = Some forward,
      dr_Snapshotter = Some (Fake_Snapshot sha256, Fake_Restore), dr_Commander = Some command, dr_ConfigChecker = None\<rparr>"

lemmas fake_defs = fake_driver_def Fake_Create_def Fake_Start_def Fake_Stop_def Fake_Delete_def Fake_Status_def
  fake_set_def fake_enter_def fake_status_def

interpretation fake: driver_contract "fake_driver sha256 attach forward command name caps"
  "\<lambda>f. map_of (instances f)" "\<lambda>f. Errs f = []"
  by unfold_locales (auto simp: fake_defs sentinel_is_def split: option.splits if_splits)

theorem registered_driver_capabilities_witness:
  "\<exists>d. Registry_Get ''fake'' (snd (Register (Some (fake_driver id (\<lambda>i q f. (Inr 0, f)) (\<lambda>i q f. (Inr 0, f)) (\<lambda>i q f. (Inr 0, f))
      ''fake'' [CapSnapshot])) NewRegistry)) = Inr d \<and> info_Name (dr_Info d) = ''fake'' \<and>
     Driver_CopyIn d ''a'' ''b'' [] (Fake_New ''fake'' []) = (Some unsupported, Fake_New ''fake'' [])"
proof -
  let ?d = "fake_driver id (\<lambda>i q f. (Inr 0, f)) (\<lambda>i q f. (Inr 0, f)) (\<lambda>i q f. (Inr 0, f)) ''fake'' [CapSnapshot]"
  have c: "Driver_Check ?d = None"
    by (simp add: Driver_Check_None fake_driver_def Fake_New_def ValidName_def byte_class_defs implements_def)
  have g: "Registry_Get ''fake'' (snd (Register (Some ?d) NewRegistry)) = Inr ?d"
    using c by (simp add: Register_def NewRegistry_def Registry_Get_def) (simp add: fake_driver_def Fake_New_def)
  have "\<not> Has (dr_Info ?d) CapCopy"
    by (simp add: Has_def fake_driver_def Fake_New_def)
  with registered_driver_capabilities [OF registered.add [OF registered.empty] g] g show ?thesis
    by blast
qed

definition same_report :: "Fake \<Rightarrow> Fake \<Rightarrow> bool" where
  "same_report f g \<longleftrightarrow> Errs g = [] \<and> fake_Tier g = fake_Tier f \<and> fake_Caveat g = fake_Caveat f"

text \<open>
  The in-memory driver tracks its instances. As long as no error is injected, an instance exists exactly
  from its create to its delete: a created one runs and can be stopped and started, each call reports the
  phase it leaves, a second create is refused as existing, and after a delete every call reports not found.
\<close>

theorem fake_driver_lifecycle:
  assumes "Errs f = []" "spec_ID s = i" "i \<noteq> ''''" "map_of (instances f) i = None"
    "Fake_Create s f = (r, f1)" "Fake_Stop i g f1 = (r2, f2)" "Fake_Start i f2 = (r3, f3)" "Fake_Delete i f3 = (r4, f4)"
  shows "r = Inr (fake_status i PhaseRunning f) \<and> r2 = Inr (fake_status i PhaseStopped f) \<and>
    r3 = Inr (fake_status i PhaseRunning f) \<and> r4 = None \<and>
    fst (Fake_Create s f1) = Inl (DriverError DriverExists ''instance exists'') \<and>
    map_of (instances f4) = map_of (instances f) \<and>
    fst (Fake_Status i f4) = Inl (DriverError DriverNotFound ''no instance'') \<and>
    fst (Fake_Start i f4) = Inl (DriverError DriverNotFound ''no instance'') \<and>
    fst (Fake_Delete i f4) = Some (DriverError DriverNotFound ''no instance'')"
proof -
  have 1: "r = Inr (fake_status i PhaseRunning f)" "map_of (instances f1) = (map_of (instances f))(i \<mapsto> PhaseRunning)"
      "same_report f f1"
    using assms(1-4) assms(5) [symmetric] by (simp_all add: fake_defs same_report_def fake_tier_def)
  have 2: "r2 = Inr (fake_status i PhaseStopped f)" "map_of (instances f2) = (map_of (instances f1))(i \<mapsto> PhaseStopped)"
      "same_report f f2"
    using 1(2,3) assms(6) [symmetric] by (simp_all add: fake_defs same_report_def fake_tier_def)
  have 3: "r3 = Inr (fake_status i PhaseRunning f)" "map_of (instances f3) = (map_of (instances f2))(i \<mapsto> PhaseRunning)"
      "same_report f f3"
    using 2(2,3) assms(7) [symmetric] by (simp_all add: fake_defs same_report_def fake_tier_def)
  have 4: "r4 = None" "map_of (instances f4) = (map_of (instances f3))(i := None)" "same_report f f4"
    using 3(2,3) assms(8) [symmetric] by (simp_all add: fake_defs same_report_def)
  have "fst (Fake_Create s f1) = Inl (DriverError DriverExists ''instance exists'')"
    using 1(2,3) assms(2,3) by (simp add: Fake_Create_def fake_enter_def same_report_def)
  moreover have "map_of (instances f4) = map_of (instances f)"
    using 1(2) 2(2) 3(2) 4(2) assms(4) by auto
  moreover have "map_of (instances f4) i = None"
    using 4(2) by simp
  ultimately show ?thesis
    using 1(1) 2(1) 3(1) 4(1,3)
    by (simp add: Fake_Status_def Fake_Start_def fake_set_def Fake_Delete_def fake_enter_def same_report_def)
qed

theorem fake_driver_lifecycle_witness:
  "\<exists>f1. Fake_Create \<lparr>spec_ID = ''a'', spec_Generation = 1, spec_Template = '''', spec_PolicyRev = '''', spec_Workspace = '''',
      spec_WriteProtected = [], spec_Egress = None, spec_MinTier = '''', spec_Labels = [], spec_Config = []\<rparr> (Fake_New ''fake'' []) =
      (Inr (fake_status ''a'' PhaseRunning (Fake_New ''fake'' [])), f1)"
proof -
  let ?s = "\<lparr>spec_ID = ''a'', spec_Generation = 1, spec_Template = '''', spec_PolicyRev = '''', spec_Workspace = '''',
      spec_WriteProtected = [], spec_Egress = None, spec_MinTier = '''', spec_Labels = [], spec_Config = []\<rparr>"
  obtain r f1 where "Fake_Create ?s (Fake_New ''fake'' []) = (r, f1)" by (metis prod.exhaust)
  moreover obtain r2 f2 where "Fake_Stop ''a'' 0 f1 = (r2, f2)" by (metis prod.exhaust)
  moreover obtain r3 f3 where "Fake_Start ''a'' f2 = (r3, f3)" by (metis prod.exhaust)
  moreover obtain r4 f4 where "Fake_Delete ''a'' f3 = (r4, f4)" by (metis prod.exhaust)
  moreover have "Errs (Fake_New ''fake'' []) = []" "map_of (instances (Fake_New ''fake'' [])) ''a'' = None"
    by (simp_all add: Fake_New_def)
  ultimately show ?thesis
    using fake_driver_lifecycle [of "Fake_New ''fake'' []" ?s "''a''" r f1 0 r2 f2 r3 f3 r4 f4] by simp
qed

end
