(* ===== verification/Service.thy ===== *)
theory Service
  imports Driver
begin

text \<open>
  The operations of the control plane's service: configuration, record, guard and admission
  (\<^verbatim>\<open>service.go\<close>, \<^verbatim>\<open>guard.go\<close>, \<^verbatim>\<open>admission.go\<close>, \<^verbatim>\<open>ownership.go\<close>), \<open>Create\<close>, \<open>Get\<close>, \<open>List\<close>,
  \<open>Update\<close>, \<open>Start\<close>, \<open>Stop\<close>, \<open>Delete\<close> (\<^verbatim>\<open>service.go\<close>) and templates and events (\<^verbatim>\<open>template.go\<close>).

  A method of \<open>*Service\<close> is a computation over the world of theory \<open>Store\<close> extended by the fields the
  service itself keeps. Everything the configuration plugs in (store, record, drivers, guard,
  interceptor, ownership, workspace, egress, clock, randomness, SHA-256) is a function of the
  configuration record. A guard's \<open>release\<close> is a function of the outside state, run where the code runs it;
  its \<open>Cancel\<close> shows only in how the context of a call ended. The log is left out. The interceptor's object
  is compared field by field where the code compares JSON, which is the same for valid UTF-8.
\<close>

section \<open>Callers, requests and admissions\<close>

record Caller =
  cl_Principal :: string
  Admin :: bool
  cl_Scope :: strmap

definition may :: "Caller \<Rightarrow> Sandbox \<Rightarrow> bool" where
  "may c s \<longleftrightarrow> scoped (cl_Scope c) (sb_Labels s) \<and> (Admin c \<or> (cl_Principal c \<noteq> '''' \<and> Owner s = cl_Principal c))"

definition mayWriteTemplates :: "Caller \<Rightarrow> gerror option" where
  "mayWriteTemplates c = (if \<not> Admin c \<or> length (cl_Scope c) > 0
     then Some (Errorf [Sentinel ErrForbidden] ''only an administrator of this server changes templates'') else None)"

text \<open>What a request's context carries: the approval it names and why the server asks.\<close>

record Ctx =
  ctx_Approval :: string
  ctx_Origin :: string

definition WithOrigin :: "Ctx \<Rightarrow> string \<Rightarrow> Ctx" where
  "WithOrigin ctx origin = ctx\<lparr>ctx_Origin := origin\<rparr>"

definition WithApproval :: "Ctx \<Rightarrow> string \<Rightarrow> Ctx" where
  "WithApproval ctx i = (if TrimSpace i = '''' then ctx else ctx\<lparr>ctx_Approval := TrimSpace i\<rparr>)"

record ExecRequest =
  xr_Argv :: "string list"
  xr_Command :: string
  xr_Cwd :: string
  xr_Env :: "string list"
  xr_Stdin :: bool

abbreviation ActionCreate :: string where "ActionCreate \<equiv> ''create''"
abbreviation ActionUpdate :: string where "ActionUpdate \<equiv> ''update''"
abbreviation ActionStart :: string where "ActionStart \<equiv> ''start''"
abbreviation ActionStop :: string where "ActionStop \<equiv> ''stop''"
abbreviation ActionDelete :: string where "ActionDelete \<equiv> ''delete''"
abbreviation ActionExec :: string where "ActionExec \<equiv> ''exec''"
abbreviation OpCreate :: string where "OpCreate \<equiv> ''create''"
abbreviation OpStart :: string where "OpStart \<equiv> ''start''"
abbreviation OpExec :: string where "OpExec \<equiv> ''exec''"
abbreviation LabelSession :: string where "LabelSession \<equiv> ReservedPrefix @ ''session''"
abbreviation LabelSessionUser :: string where "LabelSessionUser \<equiv> ReservedPrefix @ ''session-user''"
abbreviation LabelPool :: string where "LabelPool \<equiv> ReservedPrefix @ ''pool''"

record Admission =
  adm_Action :: string
  adm_Caller :: Caller
  adm_Sandbox :: "Sandbox option"
  adm_Next :: "Sandbox option"
  adm_Exec :: "ExecRequest option"
  adm_Grace :: duration
  adm_Approval :: string
  adm_Origin :: string

definition mk_admission :: "string \<Rightarrow> Caller \<Rightarrow> Sandbox option \<Rightarrow> Sandbox option \<Rightarrow> ExecRequest option \<Rightarrow> Admission" where
  "mk_admission action c s next ex = \<lparr>adm_Action = action, adm_Caller = c, adm_Sandbox = s, adm_Next = next, adm_Exec = ex,
     adm_Grace = 0, adm_Approval = '''', adm_Origin = ''''\<rparr>"

text \<open>
  A guard: the settings \<open>Next\<close> has after the call (which it may have tightened), the release function if
  any, and the error.
\<close>

type_synonym 'x Guard = "Admission \<Rightarrow> 'x \<Rightarrow> (strmap \<times> ('x \<Rightarrow> 'x) option \<times> gerror option) \<times> 'x"

record AdmissionRequest =
  Operation :: string
  ar_Caller :: Caller
  ar_SandboxID :: string
  Old :: "Sandbox option"
  Object :: Sandbox
  ar_Command :: string
  ar_Stdin :: bool
  ar_Cwd :: string
  EnvNames :: "string list"

definition envNames :: "string list \<Rightarrow> string list" where
  "envNames env = map (\<lambda>kv. case Cut kv ''='' of Some (k, v) \<Rightarrow> k | None \<Rightarrow> kv) env"

record AdmissionDecision =
  Hook :: string
  ad_Phase :: string
  Decision :: string
  Reason :: string
  Patched :: "string list"
  FailOpen :: bool

record 'x Interceptor =
  ic_Admit :: "AdmissionRequest \<Rightarrow> 'x \<Rightarrow> ((Sandbox \<times> AdmissionDecision list) \<times> gerror option) \<times> 'x"
  ic_Committed :: "AdmissionRequest \<Rightarrow> Sandbox \<Rightarrow> gerror option \<Rightarrow> 'x \<Rightarrow> AdmissionDecision list \<times> 'x"

record 'x EgressProxy =
  eg_For :: "string \<Rightarrow> bool"
  eg_Open :: "string \<Rightarrow> 'x \<Rightarrow> (gerror + Egress) \<times> 'x"
  eg_Call :: "string \<Rightarrow> 'x \<Rightarrow> (gerror + string list \<times> ('x \<Rightarrow> 'x)) \<times> 'x"
  eg_Close :: "string \<Rightarrow> 'x \<Rightarrow> gerror option \<times> 'x"

section \<open>The service\<close>

record ('m, 'x) Config =
  cfg_Store :: "'m Store"
  cfg_Templates :: "'m TemplateStore option"
  cfg_Audit :: "'m AuditLog"
  cfg_Drivers :: "'x DriverRegistry"
  cfg_Settings :: Settings
  DefaultDriver :: string
  Workspace :: "string \<Rightarrow> 'x \<Rightarrow> (gerror + string) \<times> 'x"
  ReleaseWorkspace :: "(string \<Rightarrow> 'x \<Rightarrow> gerror option \<times> 'x) option"
  WriteProtected :: "string list"
  cfg_Egress :: "'x EgressProxy option"
  Redact :: "(string \<Rightarrow> string) option"
  cfg_Interceptor :: "'x Interceptor option"
  cfg_Ownership :: "(string \<Rightarrow> 'x \<Rightarrow> (gerror + bool) \<times> 'x) option"
  NodeID :: string
  Now :: "'x \<Rightarrow> time \<times> 'x"
  sha256 :: "char list \<Rightarrow> char list"
  rand_id :: "'x \<Rightarrow> (gerror + char list) \<times> 'x"

record ('m, 'x) service = "('m, 'x) world" +
  guard :: "'x Guard option"
  kicks :: "string list"
  inflight :: "(string, bool) gomap"
  again :: "(string, bool) gomap"
  graces :: "(string, duration) gomap"
  timers :: "(time \<times> string) list"
  running :: bool

text \<open>\<open>New\<close>: the required parts are there by the types; what is left is the default driver.\<close>

definition Service_New :: "('m, 'x) Config \<Rightarrow> 'm \<Rightarrow> 'x \<Rightarrow> ('m, 'x) Config \<times> ('m, 'x) service" where
  "Service_New cfg m x = (if DefaultDriver cfg = '''' then cfg\<lparr>DefaultDriver := ''process''\<rparr> else cfg,
     \<lparr>mem = m, ext = x, others = [], guard = None, kicks = [], inflight = [], again = [], graces = [], timers = [], running = False\<rparr>)"

definition SetGuard :: "'x Guard option \<Rightarrow> (('m, 'x) service, gerror option) state" where
  "SetGuard g = do {
     w \<leftarrow> State_Monad.get;
     (case g of
        None \<Rightarrow> ret (Some (Sentinel (OtherError ''control plane: a nil guard'')))
      | Some g \<Rightarrow>
          (case guard w of
             Some h \<Rightarrow> ret (Some (Sentinel (OtherError ''control plane: a guard is already installed'')))
           | None \<Rightarrow> do { State_Monad.set (w\<lparr>guard := Some g\<rparr>); ret None }))
   }"

definition Kick :: "string \<Rightarrow> (('m, 'x) service, unit) state" where
  "Kick i = State_Monad.update (\<lambda>w. if length (kicks w) < 256 then w\<lparr>kicks := kicks w @ [i]\<rparr> else w)"

definition now :: "('m, 'x) Config \<Rightarrow> (('m, 'x) service, time) state" where
  "now cfg = outside (Now cfg)"

definition release :: "('x \<Rightarrow> 'x) \<Rightarrow> (('m, 'x) service, unit) state" where
  "release r = outside (\<lambda>x. ((), r x))"

section \<open>The record\<close>

definition redact :: "('m, 'x) Config \<Rightarrow> string \<Rightarrow> string" where
  "redact cfg text = (case Redact cfg of
       Some f \<Rightarrow> f text
     | None \<Rightarrow> ''sha256:'' @ hex_encode (sha256 cfg text))"

abbreviation maxReason :: nat where
  "maxReason \<equiv> 512"

definition reason :: "('m, 'x) Config \<Rightarrow> string \<Rightarrow> string" where
  "reason cfg r = (let r1 = redact cfg r in if length r1 > maxReason then take maxReason r1 else r1)"

definition mk_event :: "string \<Rightarrow> string \<Rightarrow> string \<Rightarrow> int \<Rightarrow> string \<Rightarrow> strmap \<Rightarrow> AuditEvent" where
  "mk_event who action i gen outc detail = \<lparr>Seq = 0, At = 0, ev_Principal = who, Action = action, SandboxID = i,
     ev_Generation = gen, Outcome = outc, ev_Code = '''', Detail = detail\<rparr>"

definition requested :: "AuditEvent \<Rightarrow> AuditEvent" where
  "requested ev = ev\<lparr>Outcome := OutcomeRequested\<rparr>"

definition record_event :: "('m, 'x) Config \<Rightarrow> AuditEvent \<Rightarrow> (('m, 'x) service, gerror option) state" where
  "record_event cfg ev = do {
     at \<leftarrow> (if At ev = 0 then now cfg else ret (At ev));
     err \<leftarrow> call (al_Append (cfg_Audit cfg) (ev\<lparr>At := at,
       Detail := (if NodeID cfg \<noteq> '''' then AList.update ''node'' (NodeID cfg) (Detail ev) else Detail ev)\<rparr>));
     ret (case err of
         None \<Rightarrow> None
       | Some e \<Rightarrow> Some (Errorf [Sentinel ErrUnavailable] ''the record cannot be written''))
   }"

definition outcome_event :: "('m, 'x) Config \<Rightarrow> AuditEvent \<Rightarrow> gerror option \<Rightarrow> AuditEvent" where
  "outcome_event cfg ev err = (case err of
       None \<Rightarrow> ev\<lparr>Outcome := OutcomeOK, At := 0\<rparr>
     | Some e \<Rightarrow>
         let ev1 = ev\<lparr>Outcome := OutcomeFailed, At := 0, ev_Code := ErrorCode (Some e)\<rparr>
         in if errors_Is e ErrOwnershipLost
            then ev1\<lparr>Detail := AList.update ''reason'' (sentinel_text ErrOwnershipLost) (Detail ev)\<rparr>
            else if errors_Is e ErrEndedByGuard
            then ev1\<lparr>Detail := AList.update ''reason'' (reason cfg (Error e)) (Detail ev)\<rparr>
            else if errors_Is e ErrForbidden \<and> Error e \<noteq> sentinel_text ErrForbidden
            then ev1\<lparr>Detail := AList.update ''reason''
                   (reason cfg (TrimPrefix (Error e) (sentinel_text ErrForbidden @ '': ''))) (Detail ev)\<rparr>
            else ev1)"

definition outcome :: "('m, 'x) Config \<Rightarrow> AuditEvent \<Rightarrow> gerror option \<Rightarrow> (('m, 'x) service, unit) state" where
  "outcome cfg ev err = do { _ \<leftarrow> record_event cfg (outcome_event cfg ev err); ret () }"

text \<open>
  The step every mutating call opens with: record that it was requested, and give up with the error
  if that cannot be recorded.
\<close>

definition recorded :: "('m, 'x) Config \<Rightarrow> AuditEvent \<Rightarrow> (gerror \<Rightarrow> 'a) \<Rightarrow> (('m, 'x) service, 'a) state \<Rightarrow> (('m, 'x) service, 'a) state" where
  "recorded cfg ev refuse rest = do {
     err \<leftarrow> record_event cfg (requested ev);
     (case err of Some e \<Rightarrow> ret (refuse e) | None \<Rightarrow> rest)
   }"

section \<open>Ownership, guard and interceptor\<close>

definition owned :: "('m, 'x) Config \<Rightarrow> string \<Rightarrow> (('m, 'x) service, gerror option) state" where
  "owned cfg i = (case cfg_Ownership cfg of
       None \<Rightarrow> ret None
     | Some owns \<Rightarrow> do {
         r \<leftarrow> outside (owns i);
         ret (case r of
             Inl e \<Rightarrow> Some (Errorf [Sentinel ErrUnavailable, e] ''ownership of sandbox cannot be read'')
           | Inr mine \<Rightarrow> if mine then None else Some (Errorf [Sentinel ErrUnavailable, Sentinel ErrNotOwner] ''''))
       })"

definition guardAdmit :: "Ctx \<Rightarrow> Admission \<Rightarrow> (('m, 'x) service, gerror + ('x \<Rightarrow> 'x) \<times> strmap) state" where
  "guardAdmit ctx a = do {
     w \<leftarrow> State_Monad.get;
     (case guard w of
        None \<Rightarrow> ret (Inr (\<lambda>x. x, case adm_Next a of None \<Rightarrow> [] | Some s \<Rightarrow> sb_Settings s))
      | Some admit \<Rightarrow> do {
          (settings, rel, err) \<leftarrow> outside (admit (a\<lparr>adm_Approval := ctx_Approval ctx, adm_Origin := ctx_Origin ctx\<rparr>));
          (case err of
             Some e \<Rightarrow> do {
               (case rel of Some r \<Rightarrow> release r | None \<Rightarrow> ret ());
               ret (Inl (guardErr e))
             }
           | None \<Rightarrow> ret (Inr (case rel of Some r \<Rightarrow> r | None \<Rightarrow> (\<lambda>x. x), settings)))
        })
   }"

definition decision_event :: "('m, 'x) Config \<Rightarrow> AdmissionRequest \<Rightarrow> AdmissionDecision \<Rightarrow> AuditEvent" where
  "decision_event cfg req d =
     (let ev = mk_event (cl_Principal (ar_Caller req)) ''admission'' (ar_SandboxID req) (Generation (Object req)) OutcomeOK
            [(''operation'', Operation req), (''hook'', Hook d), (''phase'', ad_Phase d), (''decision'', Decision d)];
          ev1 = (if Decision d = ''deny'' \<or> Decision d = ''error''
                 then ev\<lparr>Outcome := OutcomeFailed, ev_Code := (if Decision d = ''error'' then ''unavailable'' else ''forbidden'')\<rparr>
                 else ev);
          ev2 = (if Reason d \<noteq> '''' then ev1\<lparr>Detail := AList.update ''reason'' (reason cfg (Reason d)) (Detail ev1)\<rparr> else ev1);
          ev3 = (if Patched d \<noteq> [] then ev2\<lparr>Detail := AList.update ''patched'' (Join (Patched d) '','') (Detail ev2)\<rparr> else ev2)
      in if FailOpen d then ev3\<lparr>Detail := AList.update ''fail_open'' ''true'' (Detail ev3)\<rparr> else ev3)"

fun recordDecisions :: "('m, 'x) Config \<Rightarrow> AdmissionRequest \<Rightarrow> AdmissionDecision list \<Rightarrow> (('m, 'x) service, gerror option) state" where
  "recordDecisions cfg req [] = ret None"
| "recordDecisions cfg req (d # ds) = do {
     err \<leftarrow> record_event cfg (decision_event cfg req d);
     (case err of Some e \<Rightarrow> ret (Some e) | None \<Rightarrow> recordDecisions cfg req ds)
   }"

definition checkAdmitted :: "('m, 'x) Config \<Rightarrow> string \<Rightarrow> Sandbox \<Rightarrow> Sandbox \<Rightarrow> gerror option" where
  "checkAdmitted cfg op inn out =
     (if inn\<lparr>sb_Labels := [], sb_Settings := []\<rparr> \<noteq> out\<lparr>sb_Labels := [], sb_Settings := []\<rparr>
      then Some (Errorf [Sentinel ErrInvalid] ''an interceptor may change only labels and settings'')
      else if op = OpExec \<and> (\<not> maps_Equal (sb_Labels inn) (sb_Labels out) \<or> \<not> maps_Equal (sb_Settings inn) (sb_Settings out))
      then Some (Errorf [Sentinel ErrInvalid] ''an exec cannot be patched'')
      else if list_ex (\<lambda>(k, v). reserved_key k \<and> get_str (sb_Labels out) k \<noteq> v) (sb_Labels inn)
      then Some (Errorf [Sentinel ErrInvalid] ''label is reserved'')
      else if list_ex (\<lambda>(k, v). map_of (sb_Labels inn) k = None \<and> reserved_key k) (sb_Labels out)
      then Some (Errorf [Sentinel ErrInvalid] ''label is reserved'')
      else case ValidateLabels (sb_Labels out) True of
          Some e \<Rightarrow> Some e
        | None \<Rightarrow> (case Check (cfg_Settings cfg) (sb_Settings out) of
              Some e \<Rightarrow> Some e
            | None \<Rightarrow> NoLooser (cfg_Settings cfg) (sb_Settings inn) (sb_Settings out)))"

definition admit :: "('m, 'x) Config \<Rightarrow> AdmissionRequest \<Rightarrow> (('m, 'x) service, gerror + Sandbox) state" where
  "admit cfg req = (case cfg_Interceptor cfg of
       None \<Rightarrow> ret (Inr (Object req))
     | Some ic \<Rightarrow> do {
         (res, err) \<leftarrow> outside (ic_Admit ic req);
         let obj = fst res;
         rerr \<leftarrow> recordDecisions cfg req (snd res);
         (case rerr of
            Some e \<Rightarrow> ret (Inl e)
          | None \<Rightarrow> (case err of
                Some e \<Rightarrow>
                  ret (Inl (if errors_Is e ErrDenied \<or> errors_Is e ErrUnavailable then e
                            else Errorf [Sentinel ErrUnavailable, e] ''admission failed''))
              | None \<Rightarrow> (case checkAdmitted cfg (Operation req) (Object req) obj of
                    Some e \<Rightarrow> do {
                      _ \<leftarrow> recordDecisions cfg req [\<lparr>Hook = ''abhed'', ad_Phase = ''patch'', Decision = ''deny'',
                        Reason = Error e, Patched = [], FailOpen = False\<rparr>];
                      ret (Inl (Errorf [Sentinel ErrDenied, e] ''''))
                    }
                  | None \<Rightarrow> ret (Inr obj))))
       })"

definition committed :: "('m, 'x) Config \<Rightarrow> AdmissionRequest \<Rightarrow> Sandbox \<Rightarrow> gerror option \<Rightarrow> (('m, 'x) service, unit) state" where
  "committed cfg req out err = (case cfg_Interceptor cfg of
       None \<Rightarrow> ret ()
     | Some ic \<Rightarrow> do {
         ds \<leftarrow> outside (ic_Committed ic req out err);
         _ \<leftarrow> recordDecisions cfg req ds;
         ret ()
       })"

section \<open>Reading\<close>

definition Service_Get :: "('m, 'x) Config \<Rightarrow> Caller \<Rightarrow> string \<Rightarrow> (('m, 'x) service, gerror + Sandbox) state" where
  "Service_Get cfg c i = do {
     r \<leftarrow> call (\<lambda>m. (st_Get (cfg_Store cfg) i m, m));
     ret (case r of
         Inl e \<Rightarrow> Inl (storeErr e)
       | Inr sb \<Rightarrow> if \<not> may c sb then Inl (Errorf [Sentinel ErrNotFound] ''sandbox'') else Inr sb)
   }"

definition Service_List :: "('m, 'x) Config \<Rightarrow> Caller \<Rightarrow> ListOptions
    \<Rightarrow> (('m, 'x) service, (gerror + Sandbox list \<times> string) option) state" where
  "Service_List cfg c opts =
     (if \<not> Admin c \<and> cl_Principal c = '''' then ret (Some (Inr ([], '''')))
      else let o1 = (if \<not> Admin c then opts\<lparr>lo_Owner := cl_Principal c\<rparr> else opts)
           in case (if length (cl_Scope c) > 0 then checkScope (cl_Scope c) else None) of
                Some e \<Rightarrow> ret (Some (Inl e))
              | None \<Rightarrow> do {
                  r \<leftarrow> call (\<lambda>m. (st_List (cfg_Store cfg)
                    (if length (cl_Scope c) > 0 then o1\<lparr>lo_Labels := cl_Scope c\<rparr> else o1) m, m));
                  ret (case r of Some (Inl e) \<Rightarrow> Some (Inl (storeErr e)) | r' \<Rightarrow> r')
                })"

section \<open>Creating\<close>

record CreateRequest =
  cr_Template :: string
  cr_Driver :: string
  cr_Labels :: strmap
  cr_Settings :: strmap

definition NewSandbox :: "('m, 'x) Config \<Rightarrow> string \<Rightarrow> string \<Rightarrow> string \<Rightarrow> strmap \<Rightarrow> time
    \<Rightarrow> (('m, 'x) service, gerror + Sandbox) state" where
  "NewSandbox cfg who template driverName labels t =
     (if \<not> ValidName driverName then ret (Inl (Errorf [Sentinel ErrInvalid] ''driver name''))
      else case validTemplate template of
          Some e \<Rightarrow> ret (Inl e)
        | None \<Rightarrow>
            if who = '''' then ret (Inl (Errorf [Sentinel ErrInvalid] ''a sandbox needs an owner''))
            else case ValidateLabels labels False of
                Some e \<Rightarrow> ret (Inl e)
              | None \<Rightarrow> do {
                  drawn \<leftarrow> outside (rand_id cfg);
                  ret (case NewID drawn of
                      Inl e \<Rightarrow> Inl e
                    | Inr i \<Rightarrow> Inr \<lparr>ID = i, Generation = 1, ResourceVersion = 0, Template = template, PolicyRev = '''',
                        sb_Driver = driverName, sb_State = StateProvisioning, Conditions = [], sb_Labels = labels,
                        Owner = who, sb_Tier = '''', sb_Settings = [], Restarts = 0, NextRestart = None,
                        CreatedAt = t, UpdatedAt = t\<rparr>)
                })"

definition resourceConfig :: "strmap \<Rightarrow> strmap" where
  "resourceConfig vals = concat (map (\<lambda>(key, as). if get_str vals key \<noteq> '''' then [(as, get_str vals key)] else [])
     [(SetCPUs, ''cpus''), (SetMemoryMB, ''memory_mb'')])"

definition checkConfig :: "('m, 'x) Config \<Rightarrow> Sandbox \<Rightarrow> gerror option" where
  "checkConfig cfg sb = (case Registry_Get (sb_Driver sb) (cfg_Drivers cfg) of
       Inl e \<Rightarrow> Some (Errorf [Sentinel ErrUnavailable] ''driver is not registered'')
     | Inr d \<Rightarrow> (case dr_ConfigChecker d of
           None \<Rightarrow> None
         | Some check \<Rightarrow> (case check (resourceConfig (For (cfg_Settings cfg) (sb_Settings sb))) of
               None \<Rightarrow> None
             | Some e \<Rightarrow> Some (Errorf [Sentinel ErrInvalid, e] ''''))))"

fun apply_settings :: "Settings \<Rightarrow> strmap \<Rightarrow> strmap \<Rightarrow> strmap \<Rightarrow> gerror + strmap" where
  "apply_settings st tmpl acc [] = Inr acc"
| "apply_settings st tmpl acc ((k, v) # kvs) =
     (case (case map_of tmpl k of Some was \<Rightarrow> NoLooser st [(k, was)] [(k, v)] | None \<Rightarrow> None) of
        Some e \<Rightarrow> Inl (Errorf [e] ''(template sets it)'')
      | None \<Rightarrow> apply_settings st tmpl (AList.update k v acc) kvs)"

definition applyTemplate :: "('m, 'x) Config \<Rightarrow> CreateRequest \<Rightarrow> (('m, 'x) service, gerror + CreateRequest) state" where
  "applyTemplate cfg req = (case cfg_Templates cfg of
       None \<Rightarrow> ret (Inr req)
     | Some ts \<Rightarrow>
         if \<not> ValidTemplateName (cr_Template req) then ret (Inr req)
         else do {
           r \<leftarrow> call (\<lambda>m. (ts_GetTemplate ts (cr_Template req) m, m));
           ret (case r of
               Inl e \<Rightarrow> if errors_Is e ErrNotFound then Inr req else Inl (storeErr e)
             | Inr t \<Rightarrow>
                 if tmpl_Driver t \<noteq> '''' \<and> cr_Driver req \<noteq> '''' \<and> cr_Driver req \<noteq> tmpl_Driver t
                 then Inl (Errorf [Sentinel ErrInvalid] ''template runs on another driver'')
                 else (case apply_settings (cfg_Settings cfg) (tmpl_Settings t) (tmpl_Settings t) (cr_Settings req) of
                     Inl e \<Rightarrow> Inl e
                   | Inr settings \<Rightarrow> Inr (req\<lparr>cr_Driver := (if tmpl_Driver t \<noteq> '''' then tmpl_Driver t else cr_Driver req),
                       cr_Labels := maps_Copy (tmpl_Labels t) (cr_Labels req), cr_Settings := settings\<rparr>)))
         })"

definition zero_sandbox :: Sandbox where
  "zero_sandbox = \<lparr>ID = '''', Generation = 0, ResourceVersion = 0, Template = '''', PolicyRev = '''', sb_Driver = '''',
     sb_State = StateOther '''', Conditions = [], sb_Labels = [], Owner = '''', sb_Tier = '''', sb_Settings = [],
     Restarts = 0, NextRestart = None, CreatedAt = 0, UpdatedAt = 0\<rparr>"

definition or_zero :: "gerror + Sandbox \<Rightarrow> Sandbox" where
  "or_zero r = (case r of Inl e \<Rightarrow> zero_sandbox | Inr s \<Rightarrow> s)"

definition err_of :: "'e + 'a \<Rightarrow> 'e option" where
  "err_of r = (case r of Inl e \<Rightarrow> Some e | Inr a \<Rightarrow> None)"

definition create_detail :: "Sandbox \<Rightarrow> strmap" where
  "create_detail sb = foldl (\<lambda>d k. case map_of (sb_Labels sb) k of
       Some v \<Rightarrow> AList.update (TrimPrefix k ReservedPrefix) v d | None \<Rightarrow> d)
     [(''template'', Template sb), (''driver'', sb_Driver sb)] [LabelSession, LabelSessionUser, LabelPool]"

text \<open>The part of \<open>Create\<close> after the request is recorded: guard, settings, interceptor, driver's check, store.\<close>

definition create_recorded :: "('m, 'x) Config \<Rightarrow> Ctx \<Rightarrow> Caller \<Rightarrow> Sandbox \<Rightarrow> AuditEvent
    \<Rightarrow> (('m, 'x) service, gerror + Sandbox) state" where
  "create_recorded cfg ctx c sb ev = do {
     g \<leftarrow> guardAdmit ctx (mk_admission ActionCreate c None (Some sb) None);
     (case g of
        Inl e \<Rightarrow> do { outcome cfg ev (Some e); ret (Inl e) }
      | Inr (rel, settings) \<Rightarrow>
          (let sb1 = sb\<lparr>sb_Settings := settings\<rparr>;
               adm = \<lparr>Operation = OpCreate, ar_Caller = c, ar_SandboxID = ID sb, Old = None, Object = sb1, ar_Command = '''',
                 ar_Stdin = False, ar_Cwd = '''', EnvNames = []\<rparr>
           in (case Check (cfg_Settings cfg) settings of
                 Some e \<Rightarrow> do { release rel; outcome cfg ev (Some e); ret (Inl e) }
               | None \<Rightarrow> do {
                   r \<leftarrow> admit cfg adm;
                   (case r of
                      Inl e \<Rightarrow> do { release rel; outcome cfg ev (Some e); ret (Inl e) }
                    | Inr sb2 \<Rightarrow>
                        (case checkConfig cfg sb2 of
                           Some e \<Rightarrow> do { release rel; outcome cfg ev (Some e); ret (Inl e) }
                         | None \<Rightarrow> do {
                             out \<leftarrow> call (st_Create (cfg_Store cfg) sb2);
                             release rel;
                             outcome cfg ev (err_of out);
                             committed cfg (adm\<lparr>Object := sb2\<rparr>) (or_zero out) (err_of out);
                             (case out of
                                Inl e \<Rightarrow> ret (Inl (storeErr e))
                              | Inr s \<Rightarrow> do { Kick (ID s); ret (Inr s) })
                           }))
                 })))
   }"

definition scope_labels :: "Caller \<Rightarrow> Sandbox \<Rightarrow> gerror + Sandbox" where
  "scope_labels c sb =
     (if length (cl_Scope c) > 0
      then let labels = maps_Copy (sb_Labels sb) (cl_Scope c)
           in case ValidateLabels labels True of Some e \<Rightarrow> Inl e | None \<Rightarrow> Inr (sb\<lparr>sb_Labels := labels\<rparr>)
      else Inr sb)"

definition Service_Create :: "('m, 'x) Config \<Rightarrow> Ctx \<Rightarrow> Caller \<Rightarrow> CreateRequest \<Rightarrow> (('m, 'x) service, gerror + Sandbox) state" where
  "Service_Create cfg ctx c req0 = do {
     applied \<leftarrow> applyTemplate cfg req0;
     (case applied of
        Inl e \<Rightarrow> ret (Inl e)
      | Inr req \<Rightarrow>
          (let name = (if cr_Driver req = '''' then DefaultDriver cfg else cr_Driver req)
           in (case Registry_Get name (cfg_Drivers cfg) of
                 Inl e \<Rightarrow> ret (Inl (Errorf [Sentinel ErrInvalid] ''no driver of that name''))
               | Inr d \<Rightarrow> (case Check (cfg_Settings cfg) (cr_Settings req) of
                     Some e \<Rightarrow> ret (Inl e)
                   | None \<Rightarrow> (case checkScope (cl_Scope c) of
                         Some e \<Rightarrow> ret (Inl e)
                       | None \<Rightarrow> do {
                           t \<leftarrow> now cfg;
                           made \<leftarrow> NewSandbox cfg (cl_Principal c) (cr_Template req) name (cr_Labels req) t;
                           (case made of
                              Inl e \<Rightarrow> ret (Inl e)
                            | Inr sb0 \<Rightarrow> (case scope_labels c (sb0\<lparr>sb_Settings := cr_Settings req\<rparr>) of
                                  Inl e \<Rightarrow> ret (Inl e)
                                | Inr sb \<Rightarrow>
                                    (let ev = mk_event (cl_Principal c) ''create'' (ID sb) (Generation sb) '''' (create_detail sb)
                                     in recorded cfg ev Inl (create_recorded cfg ctx c sb ev))))
                         })))))
   }"

section \<open>Changing\<close>

text \<open>
  \<open>fn\<close> is the change an operation makes; it may read the clock. The captured variables of the closure
  given to \<open>Mutate\<close> are the interceptor's request and whether it was admitted.
\<close>

definition mutate_closure :: "('m, 'x) Config \<Rightarrow> Caller \<Rightarrow> (Sandbox \<Rightarrow> (('m, 'x) service, gerror + Sandbox) state)
    \<Rightarrow> Sandbox \<Rightarrow> AdmissionRequest \<times> bool \<Rightarrow> (('m, 'x) service, (gerror + Sandbox) \<times> AdmissionRequest \<times> bool) state" where
  "mutate_closure cfg c fn sb captured = (case captured of (iadm, admitted) \<Rightarrow>
     if \<not> may c sb then ret (Inl (Errorf [Sentinel ErrNotFound] ''sandbox''), iadm, admitted)
     else do {
       changed \<leftarrow> fn sb;
       (case changed of
          Inl e \<Rightarrow> ret (Inl e, iadm, admitted)
        | Inr sb1 \<Rightarrow> do {
            let iadm1 = iadm\<lparr>Old := Some sb, Object := sb1\<rparr>;
            r \<leftarrow> admit cfg iadm1;
            (case r of
               Inl e \<Rightarrow> ret (Inl e, iadm1, admitted)
             | Inr next \<Rightarrow> ret (Inr next, iadm1\<lparr>Object := next\<rparr>, True))
          })
     })"

text \<open>The part of \<open>mutate\<close> the guard has admitted.\<close>

definition mutate_admitted :: "('m, 'x) Config \<Rightarrow> Caller \<Rightarrow> string \<Rightarrow> string \<Rightarrow> string \<Rightarrow> AuditEvent
    \<Rightarrow> (Sandbox \<Rightarrow> (('m, 'x) service, gerror + Sandbox) state) \<Rightarrow> ('x \<Rightarrow> 'x) \<Rightarrow> (('m, 'x) service, gerror + Sandbox) state" where
  "mutate_admitted cfg c i ifMatch action ev fn rel = do {
     (out, iadm, admitted) \<leftarrow> Mutate (cfg_Store cfg) i ifMatch (mutate_closure cfg c fn)
       (\<lparr>Operation = action, ar_Caller = c, ar_SandboxID = i, Old = None, Object = zero_sandbox, ar_Command = '''',
         ar_Stdin = False, ar_Cwd = '''', EnvNames = []\<rparr>, False);
     outcome cfg (case out of Inr s \<Rightarrow> ev\<lparr>ev_Generation := Generation s\<rparr> | Inl e \<Rightarrow> ev) (err_of out);
     (if admitted then committed cfg iadm (or_zero out) (err_of out) else ret ());
     release rel;
     ret (case out of Inl e \<Rightarrow> Inl (storeErr e) | Inr s \<Rightarrow> Inr s)
   }"

definition mutate :: "('m, 'x) Config \<Rightarrow> Ctx \<Rightarrow> Caller \<Rightarrow> string \<Rightarrow> string \<Rightarrow> string \<Rightarrow> strmap \<Rightarrow> duration
    \<Rightarrow> (Sandbox \<Rightarrow> (('m, 'x) service, gerror + Sandbox) state) \<Rightarrow> (('m, 'x) service, gerror + Sandbox) state" where
  "mutate cfg ctx c i ifMatch action detail grace fn = do {
     got \<leftarrow> Service_Get cfg c i;
     (case got of
        Inl e \<Rightarrow> ret (Inl e)
      | Inr cur \<Rightarrow> (case CheckIfMatch ifMatch (ResourceVersion cur) of
            Some e \<Rightarrow> ret (Inl e)
          | None \<Rightarrow> do {
              foreign \<leftarrow> owned cfg i;
              (case foreign of
                 Some e \<Rightarrow> ret (Inl e)
               | None \<Rightarrow> do {
                   let ev = mk_event (cl_Principal c) action i (Generation cur) '''' detail;
                   recorded cfg ev Inl (do {
                        judged \<leftarrow> (if action = ActionUpdate
                          then do { r \<leftarrow> fn cur; ret (case r of Inl e \<Rightarrow> Inl e | Inr s \<Rightarrow> Inr (Some s)) }
                          else ret (Inr None));
                        (case judged of
                           Inl e \<Rightarrow> do { outcome cfg ev (Some e); ret (Inl e) }
                         | Inr next \<Rightarrow> do {
                             g \<leftarrow> guardAdmit ctx ((mk_admission action c (Some cur) next None)\<lparr>adm_Grace := grace\<rparr>);
                             (case g of
                                Inl e \<Rightarrow> do { outcome cfg ev (Some e); ret (Inl e) }
                              | Inr (rel, settings) \<Rightarrow> mutate_admitted cfg c i ifMatch action ev fn rel)
                           })
                      })
                 })
            }))
   }"

record Patch =
  p_Labels :: "(string \<times> string option) list option"
  ClearLabels :: bool
  p_Template :: "string option"
  p_Settings :: "(string \<times> string option) list option"
  ClearSettings :: bool

fun patch_labels :: "(string \<times> string option) list \<Rightarrow> strmap \<Rightarrow> strmap \<Rightarrow> gerror + strmap \<times> strmap" where
  "patch_labels [] labels set_to = Inr (labels, set_to)"
| "patch_labels ((k, v) # kvs) labels set_to =
     (if reserved_key k then Inl (Errorf [Sentinel ErrInvalid] ''label is reserved'')
      else case v of
          None \<Rightarrow> patch_labels kvs (AList.delete k labels) set_to
        | Some x \<Rightarrow> patch_labels kvs labels (AList.update k x set_to))"

fun patch_settings :: "(string \<times> string option) list \<Rightarrow> strmap \<Rightarrow> strmap" where
  "patch_settings [] settings = settings"
| "patch_settings ((k, v) # kvs) settings =
     patch_settings kvs (case v of None \<Rightarrow> AList.delete k settings | Some x \<Rightarrow> AList.update k x settings)"

definition entries :: "'a list option \<Rightarrow> 'a list" where
  "entries m = (case m of None \<Rightarrow> [] | Some kvs \<Rightarrow> kvs)"

definition patched :: "Settings \<Rightarrow> Patch \<Rightarrow> Sandbox \<Rightarrow> gerror + Sandbox" where
  "patched st p sb =
     (if sb_State sb = StateDeleting then Inl (Errorf [Sentinel ErrInvalidTransition] ''sandbox is being deleted'')
      else let labels0 = (if ClearLabels p then filter (\<lambda>(k, v). reserved_key k) (sb_Labels sb) else sb_Labels sb)
           in case patch_labels (entries (p_Labels p)) labels0 [] of
                Inl e \<Rightarrow> Inl e
              | Inr (labels1, set_to) \<Rightarrow> (case ValidateLabels set_to False of
                    Some e \<Rightarrow> Inl e
                  | None \<Rightarrow>
                      (let labels = maps_Copy labels1 set_to
                       in case ValidateLabels labels True of
                            Some e \<Rightarrow> Inl e
                          | None \<Rightarrow>
                              (let settings = patch_settings (entries (p_Settings p)) (if ClearSettings p then [] else sb_Settings sb)
                               in case Check st settings of
                                    Some e \<Rightarrow> Inl e
                                  | None \<Rightarrow> (case (case p_Template p of None \<Rightarrow> Inr sb | Some t \<Rightarrow> SetTemplate t sb) of
                                        Inl e \<Rightarrow> Inl e
                                      | Inr sb1 \<Rightarrow> Inr (sb1\<lparr>sb_Labels := labels, sb_Settings := settings\<rparr>))))))"

definition stamp :: "('m, 'x) Config \<Rightarrow> gerror + Sandbox \<Rightarrow> (('m, 'x) service, gerror + Sandbox) state" where
  "stamp cfg r = (case r of
       Inl e \<Rightarrow> ret (Inl e)
     | Inr sb \<Rightarrow> do { t \<leftarrow> now cfg; ret (Inr (sb\<lparr>UpdatedAt := t\<rparr>)) })"

definition Service_Update :: "('m, 'x) Config \<Rightarrow> Ctx \<Rightarrow> Caller \<Rightarrow> string \<Rightarrow> string \<Rightarrow> Patch
    \<Rightarrow> (('m, 'x) service, gerror + Sandbox) state" where
  "Service_Update cfg ctx c i ifMatch p =
     (let detail = (case p_Template p of Some t \<Rightarrow> [(''template'', t)] | None \<Rightarrow> [])
            @ (if p_Labels p \<noteq> None \<or> ClearLabels p then [(''labels'', ''changed'')] else [])
            @ (if p_Settings p \<noteq> None \<or> ClearSettings p then [(''settings'', ''changed'')] else [])
      in mutate cfg ctx c i ifMatch ActionUpdate detail 0 (\<lambda>sb. stamp cfg (patched (cfg_Settings cfg) p sb)))"

definition start_change :: "('m, 'x) Config \<Rightarrow> Sandbox \<Rightarrow> (('m, 'x) service, gerror + Sandbox) state" where
  "start_change cfg sb = do {
     t \<leftarrow> now cfg;
     ret (case Transition StateStarting t sb of
         Inl e \<Rightarrow> Inl e
       | Inr s \<Rightarrow> Inr (s\<lparr>Restarts := 0, NextRestart := None\<rparr>))
   }"

definition Service_Start :: "('m, 'x) Config \<Rightarrow> Ctx \<Rightarrow> Caller \<Rightarrow> string \<Rightarrow> string \<Rightarrow> (('m, 'x) service, gerror + Sandbox) state" where
  "Service_Start cfg ctx c i ifMatch = do {
     out \<leftarrow> mutate cfg ctx c i ifMatch ActionStart [] 0 (start_change cfg);
     (case out of Inr s \<Rightarrow> Kick i | Inl e \<Rightarrow> ret ());
     ret out
   }"

definition transition_now :: "('m, 'x) Config \<Rightarrow> State \<Rightarrow> Sandbox \<Rightarrow> (('m, 'x) service, gerror + Sandbox) state" where
  "transition_now cfg to sb = do { t \<leftarrow> now cfg; ret (Transition to t sb) }"

definition Service_Stop :: "('m, 'x) Config \<Rightarrow> Ctx \<Rightarrow> Caller \<Rightarrow> string \<Rightarrow> string \<Rightarrow> duration
    \<Rightarrow> (('m, 'x) service, gerror + Sandbox) state" where
  "Service_Stop cfg ctx c i ifMatch grace =
     (if grace < 0 \<or> grace > Hour then ret (Inl (Errorf [Sentinel ErrInvalid] ''grace_seconds must be from 0 to 3600''))
      else do {
        out \<leftarrow> mutate cfg ctx c i ifMatch ActionStop [(''grace_seconds'', FormatInt (grace div Second))] grace
          (transition_now cfg StateStopping);
        (case out of
           Inr s \<Rightarrow> do {
             State_Monad.update (\<lambda>w. w\<lparr>graces := AList.update i grace (graces w)\<rparr>);
             Kick i
           }
         | Inl e \<Rightarrow> ret ());
        ret out
      })"

definition Service_Delete :: "('m, 'x) Config \<Rightarrow> Ctx \<Rightarrow> Caller \<Rightarrow> string \<Rightarrow> string \<Rightarrow> (('m, 'x) service, gerror + Sandbox) state" where
  "Service_Delete cfg ctx c i ifMatch = do {
     got \<leftarrow> Service_Get cfg c i;
     (case got of
        Inl e \<Rightarrow> ret (Inl e)
      | Inr cur \<Rightarrow>
          if sb_State cur = StateDeleting
          then (case CheckIfMatch ifMatch (ResourceVersion cur) of
                  Some e \<Rightarrow> ret (Inl e)
                | None \<Rightarrow> do { Kick i; ret (Inr cur) })
          else do {
            out \<leftarrow> mutate cfg ctx c i ifMatch ActionDelete [] 0 (transition_now cfg StateDeleting);
            (case out of Inr s \<Rightarrow> Kick i | Inl e \<Rightarrow> ret ());
            ret out
          })
   }"

section \<open>Templates and events\<close>

definition template_store :: "('m, 'x) Config \<Rightarrow> gerror + 'm TemplateStore" where
  "template_store cfg = (case cfg_Templates cfg of
       None \<Rightarrow> Inl (Errorf [Sentinel DriverUnsupported] ''this server's store keeps no templates'')
     | Some ts \<Rightarrow> Inr ts)"

definition checkTemplate :: "('m, 'x) Config \<Rightarrow> Template \<Rightarrow> gerror option" where
  "checkTemplate cfg t =
     (if \<not> ValidTemplateName (tmpl_Name t) then Some (Errorf [Sentinel ErrInvalid] ''a template name is 1 to 63 letters'')
      else if length (Description t) > 1024 then Some (Errorf [Sentinel ErrInvalid] ''a description is at most 1024 bytes'')
      else if tmpl_Driver t \<noteq> '''' \<and> map_of (cfg_Drivers cfg) (tmpl_Driver t) = None
      then Some (Errorf [Sentinel ErrInvalid] ''no driver of that name'')
      else case ValidateLabels (tmpl_Labels t) False of
          Some e \<Rightarrow> Some e
        | None \<Rightarrow> Check (cfg_Settings cfg) (tmpl_Settings t))"

definition Service_CreateTemplate :: "('m, 'x) Config \<Rightarrow> Caller \<Rightarrow> Template \<Rightarrow> (('m, 'x) service, gerror + Template) state" where
  "Service_CreateTemplate cfg c t = (case template_store cfg of
       Inl e \<Rightarrow> ret (Inl e)
     | Inr ts \<Rightarrow> (case mayWriteTemplates c of
           Some e \<Rightarrow> ret (Inl e)
         | None \<Rightarrow> (case checkTemplate cfg t of
               Some e \<Rightarrow> ret (Inl e)
             | None \<Rightarrow> do {
                 at \<leftarrow> now cfg;
                 let ev = mk_event (cl_Principal c) ''template.create'' '''' 0 ''''
                   [(''template'', tmpl_Name t), (''driver'', tmpl_Driver t)];
                 recorded cfg ev Inl (do {
                      out \<leftarrow> call (ts_CreateTemplate ts (t\<lparr>tmpl_Owner := cl_Principal c, tmpl_CreatedAt := at, tmpl_ResourceVersion := 0\<rparr>));
                      let res = (case out of Inl e \<Rightarrow> Inl (storeErr e) | Inr s \<Rightarrow> Inr s);
                      outcome cfg ev (err_of res);
                      ret res
                    })
               })))"

definition Service_GetTemplate :: "('m, 'x) Config \<Rightarrow> Caller \<Rightarrow> string \<Rightarrow> (('m, 'x) service, gerror + Template) state" where
  "Service_GetTemplate cfg c name = (case template_store cfg of
       Inl e \<Rightarrow> ret (Inl e)
     | Inr ts \<Rightarrow> do {
         r \<leftarrow> call (\<lambda>m. (ts_GetTemplate ts name m, m));
         ret (case r of Inl e \<Rightarrow> Inl (storeErr e) | Inr t \<Rightarrow> Inr t)
       })"

definition Service_ListTemplates :: "('m, 'x) Config \<Rightarrow> Caller \<Rightarrow> TemplateListOptions
    \<Rightarrow> (('m, 'x) service, (gerror + Template list \<times> string) option) state" where
  "Service_ListTemplates cfg c opts = (case template_store cfg of
       Inl e \<Rightarrow> ret (Some (Inl e))
     | Inr ts \<Rightarrow> do {
         r \<leftarrow> call (\<lambda>m. (ts_ListTemplates ts opts m, m));
         ret (case r of Some (Inl e) \<Rightarrow> Some (Inl (storeErr e)) | r' \<Rightarrow> r')
       })"

definition Service_DeleteTemplate :: "('m, 'x) Config \<Rightarrow> Caller \<Rightarrow> string \<Rightarrow> string \<Rightarrow> (('m, 'x) service, gerror option) state" where
  "Service_DeleteTemplate cfg c name ifMatch = (case template_store cfg of
       Inl e \<Rightarrow> ret (Some e)
     | Inr ts \<Rightarrow> (case mayWriteTemplates c of
           Some e \<Rightarrow> ret (Some e)
         | None \<Rightarrow> do {
             got \<leftarrow> call (\<lambda>m. (ts_GetTemplate ts name m, m));
             (case got of
                Inl e \<Rightarrow> ret (Some (storeErr e))
              | Inr cur \<Rightarrow> (case CheckIfMatch ifMatch (tmpl_ResourceVersion cur) of
                    Some e \<Rightarrow> ret (Some e)
                  | None \<Rightarrow> do {
                      let ev = mk_event (cl_Principal c) ''template.delete'' '''' 0 '''' [(''template'', name)];
                      recorded cfg ev Some (do {
                           out \<leftarrow> call (ts_DeleteTemplate ts name (tmpl_ResourceVersion cur));
                           let res = (case out of
                               None \<Rightarrow> None
                             | Some e \<Rightarrow>
                                 if errors_Is e ErrVersionMismatch
                                 then Some (Errorf [Sentinel ErrPreconditionFailed] ''the template changed while it was being removed'')
                                 else Some (storeErr e));
                           outcome cfg ev res;
                           ret res
                         })
                    }))
           }))"

definition page_events :: "AuditEvent list \<Rightarrow> int \<Rightarrow> int \<Rightarrow> (AuditEvent list \<times> int) option" where
  "page_events all after limit = page (\<lambda>ev. Some (\<not> Seq ev \<le> after)) Seq 0 (PageSize limit) [] all"

definition Service_Events :: "('m, 'x) Config \<Rightarrow> Caller \<Rightarrow> string \<Rightarrow> int \<Rightarrow> int
    \<Rightarrow> (('m, 'x) service, gerror + AuditEvent list \<times> int) state" where
  "Service_Events cfg c i after limit = do {
     got \<leftarrow> Service_Get cfg c i;
     (case got of
        Inl e \<Rightarrow> ret (Inl e)
      | Inr sb \<Rightarrow> (case al_AuditFor (cfg_Audit cfg) of
            None \<Rightarrow> ret (Inl (Errorf [Sentinel DriverUnsupported] ''this server's record cannot be read back''))
          | Some audit_for \<Rightarrow> do {
              r \<leftarrow> call (\<lambda>m. (audit_for i m, m));
              ret (case r of
                  Inl e \<Rightarrow> Inl (storeErr e)
                | Inr all \<Rightarrow> Inr (the (page_events all after limit)))
            }))
   }"

end
