(* ===== verification/ServiceLaws.thy ===== *)
theory ServiceLaws
  imports Service
begin

text \<open>
  What holds of every operation of the service, whatever is plugged into its configuration. The
  locale \<open>service_store\<close> is a configuration whose store keeps the contract of theory \<open>Mutation\<close> and whose
  record only ever grows; it is interpreted on the memory store. Two kinds of law: an operation only moves
  the store forward, beside any other writers (\<open>forward\<close>), and an operation that runs alone changes no
  sandbox before it has recorded that it was asked to (\<open>acted\<close>).
\<close>

section \<open>Rules for the state monad\<close>

lemma keeps_get [keeps_intros]: "reflp R \<Longrightarrow> keeps R State_Monad.get"
  by (simp add: keeps_def State_Monad.get_def reflpD)

lemma keeps_update: "(\<And>w. R w (f w)) \<Longrightarrow> keeps R (State_Monad.update f)"
  by (simp add: keeps_def State_Monad.update_def State_Monad.get_def State_Monad.set_def)

lemma keeps_mono: "keeps R m \<Longrightarrow> (\<And>w w'. R w w' \<Longrightarrow> S w w') \<Longrightarrow> keeps S m"
  by (simp add: keeps_def)

section \<open>Configurations over a lawful store\<close>

locale service_store = sandbox_store "cfg_Store cfg" tbl ver good
  for cfg :: "('m, 'x) Config"
    and tbl :: "'m \<Rightarrow> string \<Rightarrow> Sandbox option"
    and ver :: "'m \<Rightarrow> int"
    and good :: "'m \<Rightarrow> bool" +
  fixes log :: "'m \<Rightarrow> AuditEvent list"
  assumes Append_None: "good m \<Longrightarrow> al_Append (cfg_Audit cfg) ev m = (None, m') \<Longrightarrow>
      (\<exists>n. log m' = log m @ [ev\<lparr>Seq := n\<rparr>]) \<and> tbl m' = tbl m \<and> ver m' = ver m \<and> good m'"
    and Append_Some: "good m \<Longrightarrow> al_Append (cfg_Audit cfg) ev m = (Some e, m') \<Longrightarrow>
      log m' = log m \<and> tbl m' = tbl m \<and> ver m' = ver m \<and> good m'"
    and log_Create: "good m \<Longrightarrow> log (snd (st_Create (cfg_Store cfg) s m)) = log m"
    and log_Update: "good m \<Longrightarrow> log (snd (st_Update (cfg_Store cfg) s v m)) = log m"
    and log_Delete: "good m \<Longrightarrow> log (snd (st_Delete (cfg_Store cfg) i v m)) = log m"
    and CreateTemplate_frame: "good m \<Longrightarrow> cfg_Templates cfg = Some ts \<Longrightarrow> ts_CreateTemplate ts t m = (r, m') \<Longrightarrow>
      log m' = log m \<and> tbl m' = tbl m \<and> ver m \<le> ver m' \<and> good m'"
    and DeleteTemplate_frame: "good m \<Longrightarrow> cfg_Templates cfg = Some ts \<Longrightarrow> ts_DeleteTemplate ts n v m = (r', m') \<Longrightarrow>
      log m' = log m \<and> tbl m' = tbl m \<and> ver m \<le> ver m' \<and> good m'"
begin

lemma forward_same: "mem w' = mem w \<Longrightarrow> others w' = others w \<Longrightarrow> forward w w'"
  by (simp add: forward_def tame_def later_refl)

lemma later_frame: "(good m \<Longrightarrow> tbl m' = tbl m \<and> ver m \<le> ver m' \<and> good m') \<Longrightarrow> step_later m m'"
  by (simp add: later_def)

lemma forward_Append: "keeps forward (call (al_Append (cfg_Audit cfg) ev))"
proof (rule forward_call, rule later_frame)
  fix m
  assume "good m"
  then show "tbl (snd (al_Append (cfg_Audit cfg) ev m)) = tbl m \<and> ver m \<le> ver (snd (al_Append (cfg_Audit cfg) ev m)) \<and>
      good (snd (al_Append (cfg_Audit cfg) ev m))"
    using Append_None [of m ev] Append_Some [of m ev] by (cases "al_Append (cfg_Audit cfg) ev m") (metis not_Some_eq order_refl snd_conv)
qed

lemma forward_CreateTemplate: "cfg_Templates cfg = Some ts \<Longrightarrow> keeps forward (call (ts_CreateTemplate ts t))"
  by (rule forward_call, rule later_frame) (metis CreateTemplate_frame prod.collapse)

lemma forward_DeleteTemplate: "cfg_Templates cfg = Some ts \<Longrightarrow> keeps forward (call (ts_DeleteTemplate ts n v))"
  by (rule forward_call, rule later_frame) (metis DeleteTemplate_frame prod.collapse)

lemma forward_read: "keeps forward (call (\<lambda>m. (f m, m)))"
  by (rule forward_call) (simp add: later_refl)

lemma forward_now: "keeps forward (now cfg)"
  unfolding now_def by (rule forward_outside)

lemma forward_release: "keeps forward (release r)"
  unfolding release_def by (rule forward_outside)

lemma forward_Kick: "keeps forward (Kick i)"
  unfolding Kick_def by (rule keeps_update) (simp add: forward_same)

lemma forward_get: "keeps forward State_Monad.get"
  by (rule keeps_get [OF forward_refl])

lemmas service_forward = keeps_intros forward_refl forward_trans forward_outside forward_Append forward_read forward_Create
  forward_now forward_release forward_Kick forward_get

lemma forward_record_event: "keeps forward (record_event cfg ev)"
  unfolding record_event_def by (intro service_forward)

lemma forward_recorded: "keeps forward rest \<Longrightarrow> keeps forward (recorded cfg ev refuse rest)"
  unfolding recorded_def by (intro service_forward forward_record_event)

lemma forward_outcome: "keeps forward (outcome cfg ev err)"
  unfolding outcome_def by (intro service_forward forward_record_event)

lemma forward_owned: "keeps forward (owned cfg i)"
  unfolding owned_def by (intro service_forward)

lemma forward_guardAdmit: "keeps forward (guardAdmit ctx a)"
  unfolding guardAdmit_def by (intro service_forward)

lemma forward_recordDecisions: "keeps forward (recordDecisions cfg req ds)"
  by (induction ds) (auto intro!: service_forward forward_record_event)

lemma forward_admit: "keeps forward (admit cfg req)"
  unfolding admit_def by (intro service_forward forward_recordDecisions)

lemma forward_committed: "keeps forward (committed cfg req out err)"
  unfolding committed_def by (intro service_forward forward_recordDecisions)

lemma forward_Service_Get: "keeps forward (Service_Get cfg c i)"
  unfolding Service_Get_def by (intro service_forward)

lemmas service_steps = forward_record_event forward_recorded forward_outcome forward_owned forward_guardAdmit forward_admit forward_committed
  forward_Service_Get

lemma forward_mutate_closure: "(\<And>s. keeps forward (fn s)) \<Longrightarrow> keeps forward (mutate_closure cfg c fn sb captured)"
  unfolding mutate_closure_def by (intro service_forward service_steps)

lemma forward_mutate: "(\<And>s. keeps forward (fn s)) \<Longrightarrow> keeps forward (mutate cfg ctx c i ifMatch action detail grace fn)"
  unfolding mutate_def mutate_admitted_def
  by (intro service_forward service_steps forward_Mutate forward_mutate_closure)

lemma forward_Create_op: "keeps forward (Service_Create cfg ctx c req)"
  unfolding Service_Create_def applyTemplate_def NewSandbox_def create_recorded_def
  by (intro service_forward service_steps)

lemma forward_Update_op: "keeps forward (Service_Update cfg ctx c i ifMatch p)"
  unfolding Service_Update_def stamp_def by (intro service_forward forward_mutate)

lemma forward_Start_op: "keeps forward (Service_Start cfg ctx c i ifMatch)"
  unfolding Service_Start_def start_change_def by (intro service_forward forward_mutate)

lemma forward_Stop_op: "keeps forward (Service_Stop cfg ctx c i ifMatch grace)"
  unfolding Service_Stop_def transition_now_def
  by (intro service_forward forward_mutate keeps_update) (simp add: forward_same)

lemma forward_Delete_op: "keeps forward (Service_Delete cfg ctx c i ifMatch)"
  unfolding Service_Delete_def transition_now_def by (intro service_forward service_steps forward_mutate)

lemma forward_CreateTemplate_op: "keeps forward (Service_CreateTemplate cfg c t)"
  unfolding Service_CreateTemplate_def template_store_def
  by (intro service_forward service_steps) (auto intro: forward_CreateTemplate split: option.splits)

lemma forward_DeleteTemplate_op: "keeps forward (Service_DeleteTemplate cfg c n ifMatch)"
  unfolding Service_DeleteTemplate_def template_store_def
  by (intro service_forward service_steps) (auto intro: forward_DeleteTemplate split: option.splits)

text \<open>
  An operation that runs alone: the record only grows, and if a sandbox changed at all then some event it
  added satisfies \<open>P\<close>. With \<open>P\<close> false nothing changes; with \<open>P\<close> the events a caller asks for, nothing
  changes unrecorded.
\<close>

definition logged :: "('m, 'x) service \<Rightarrow> ('m, 'x) service \<Rightarrow> bool" where
  "logged w w' \<longleftrightarrow> (others w = [] \<and> good (mem w) \<longrightarrow> others w' = [] \<and> good (mem w') \<and> (\<exists>evs. log (mem w') = log (mem w) @ evs))"

definition acted :: "(AuditEvent \<Rightarrow> bool) \<Rightarrow> ('m, 'x) service \<Rightarrow> ('m, 'x) service \<Rightarrow> bool" where
  "acted P w w' \<longleftrightarrow> (others w = [] \<and> good (mem w) \<longrightarrow> others w' = [] \<and> good (mem w') \<and>
     (\<exists>evs. log (mem w') = log (mem w) @ evs \<and> (tbl (mem w') = tbl (mem w) \<or> (\<exists>ev \<in> set evs. P ev))))"

abbreviation "still \<equiv> acted (\<lambda>ev. False)"

lemma acted_logged: "acted P w w' \<Longrightarrow> logged w w'"
  by (auto simp: acted_def logged_def)

lemma still_acted: "still w w' \<Longrightarrow> acted P w w'"
  by (auto simp: acted_def)

lemma logged_refl: "reflp logged"
  by (auto simp: reflp_def logged_def)

lemma logged_trans: "transp logged"
  by (auto simp: transp_def logged_def)

lemma acted_refl: "reflp (acted P)"
  by (auto simp: reflp_def acted_def)

lemma acted_trans: "transp (acted P)"
proof (rule transpI)
  fix u v w
  assume uv: "acted P u v" and vw: "acted P v w"
  show "acted P u w"
    unfolding acted_def
  proof (intro impI)
    assume "others u = [] \<and> good (mem u)"
    with uv obtain a where a: "others v = [] \<and> good (mem v)" "log (mem v) = log (mem u) @ a"
      "tbl (mem v) = tbl (mem u) \<or> (\<exists>ev \<in> set a. P ev)" unfolding acted_def by blast
    with vw obtain b where "others w = [] \<and> good (mem w)" "log (mem w) = log (mem v) @ b"
      "tbl (mem w) = tbl (mem v) \<or> (\<exists>ev \<in> set b. P ev)" unfolding acted_def by blast
    with a show "others w = [] \<and> good (mem w) \<and> (\<exists>evs. log (mem w) = log (mem u) @ evs \<and>
        (tbl (mem w) = tbl (mem u) \<or> (\<exists>ev \<in> set evs. P ev)))"
      by (intro conjI exI [of _ "a @ b"]) auto
  qed
qed

lemma keeps_still_acted: "keeps still m \<Longrightarrow> keeps (acted P) m"
  by (erule keeps_mono) (rule still_acted)

lemma keeps_acted_logged: "keeps (acted P) m \<Longrightarrow> keeps logged m"
  by (erule keeps_mono) (rule acted_logged)

lemma still_call:
  assumes "\<And>m. good m \<Longrightarrow> tbl (snd (f m)) = tbl m \<and> good (snd (f m)) \<and> (\<exists>evs. log (snd (f m)) = log m @ evs)"
  shows "keeps still (call f)"
proof (rule keepsI)
  fix w w' :: "('m, 'x) service" and a
  assume "run_state (call f) w = (a, w')"
  then have "others w = [] \<Longrightarrow> w' = w\<lparr>mem := snd (f (mem w))\<rparr>"
    by (simp add: run_call_alone)
  with assms [of "mem w"] show "still w w'"
    by (auto simp: acted_def)
qed

lemma logged_call:
  assumes "\<And>m. good m \<Longrightarrow> good (snd (f m)) \<and> (\<exists>evs. log (snd (f m)) = log m @ evs)"
  shows "keeps logged (call f)"
proof (rule keepsI)
  fix w w' :: "('m, 'x) service" and a
  assume "run_state (call f) w = (a, w')"
  then have "others w = [] \<Longrightarrow> w' = w\<lparr>mem := snd (f (mem w))\<rparr>"
    by (simp add: run_call_alone)
  with assms [of "mem w"] show "logged w w'"
    by (auto simp: logged_def)
qed

lemma still_same: "mem w' = mem w \<Longrightarrow> others w' = others w \<Longrightarrow> still w w'"
  by (simp add: acted_def)

lemma still_outside: "keeps still (outside f)"
  by (rule keepsI) (auto simp: run_outside intro: still_same)

lemma still_read: "keeps still (call (\<lambda>m. (f m, m)))"
  by (rule still_call) simp

lemma Append_cases:
  assumes "good m"
  shows "tbl (snd (al_Append (cfg_Audit cfg) ev m)) = tbl m \<and> good (snd (al_Append (cfg_Audit cfg) ev m)) \<and>
    (case fst (al_Append (cfg_Audit cfg) ev m) of
       None \<Rightarrow> \<exists>n. log (snd (al_Append (cfg_Audit cfg) ev m)) = log m @ [ev\<lparr>Seq := n\<rparr>]
     | Some e \<Rightarrow> log (snd (al_Append (cfg_Audit cfg) ev m)) = log m)"
  using Append_None [OF assms, of ev] Append_Some [OF assms, of ev]
  by (cases "al_Append (cfg_Audit cfg) ev m") (auto split: option.splits)

lemma still_Append: "keeps still (call (al_Append (cfg_Audit cfg) ev))"
proof (rule still_call)
  fix m
  assume "good m"
  from Append_cases [OF this, of ev]
  show "tbl (snd (al_Append (cfg_Audit cfg) ev m)) = tbl m \<and> good (snd (al_Append (cfg_Audit cfg) ev m)) \<and>
      (\<exists>evs. log (snd (al_Append (cfg_Audit cfg) ev m)) = log m @ evs)"
    by (auto split: option.splits)
qed

lemma good_after: "step_later m m' \<Longrightarrow> good m \<Longrightarrow> good m'"
  by (rule later_good)

lemma logged_Create: "keeps logged (call (st_Create (cfg_Store cfg) s))"
  by (rule logged_call) (simp add: log_Create good_after [OF later_Create])

lemma logged_Update: "keeps logged (call (st_Update (cfg_Store cfg) s v))"
  by (rule logged_call) (simp add: log_Update good_after [OF later_Update])

lemma logged_Delete: "keeps logged (call (st_Delete (cfg_Store cfg) i v))"
  by (rule logged_call) (simp add: log_Delete good_after [OF later_Delete])

lemma still_now: "keeps still (now cfg)"
  unfolding now_def by (rule still_outside)

lemma still_release: "keeps still (release r)"
  unfolding release_def by (rule still_outside)

lemma still_Kick: "keeps still (Kick i)"
  unfolding Kick_def by (rule keeps_update) (simp add: still_same)

lemma still_get: "keeps still State_Monad.get"
  by (rule keeps_get [OF acted_refl])

lemmas still_intros = keeps_intros acted_refl acted_trans still_outside still_Append still_read still_now still_release
  still_Kick still_get

lemma still_record_event: "keeps still (record_event cfg ev)"
  unfolding record_event_def by (intro still_intros)

lemma still_outcome: "keeps still (outcome cfg ev err)"
  unfolding outcome_def by (intro still_intros still_record_event)

lemma still_owned: "keeps still (owned cfg i)"
  unfolding owned_def by (intro still_intros)

lemma still_guardAdmit: "keeps still (guardAdmit ctx a)"
  unfolding guardAdmit_def by (intro still_intros)

lemma still_recordDecisions: "keeps still (recordDecisions cfg req ds)"
  by (induction ds) (auto intro!: still_intros still_record_event)

lemma still_admit: "keeps still (admit cfg req)"
  unfolding admit_def by (intro still_intros still_recordDecisions)

lemma still_committed: "keeps still (committed cfg req out err)"
  unfolding committed_def by (intro still_intros still_recordDecisions)

lemma still_Service_Get: "keeps still (Service_Get cfg c i)"
  unfolding Service_Get_def by (intro still_intros)

lemmas still_steps = still_record_event still_outcome still_owned still_guardAdmit still_admit still_committed still_Service_Get

text \<open>After a record that was written, what follows may act.\<close>

lemma record_event_written:
  assumes "run_state (record_event cfg ev) w = (None, w')" "others w = []" "good (mem w)"
  shows "\<exists>n t d. log (mem w') = log (mem w) @ [ev\<lparr>Seq := n, At := t, Detail := d\<rparr>] \<and> tbl (mem w') = tbl (mem w) \<and>
    others w' = [] \<and> good (mem w')"
proof -
  obtain t w1 where t: "run_state (if At ev = 0 then now cfg else ret (At ev)) w = (t, w1)"
    by (metis prod.exhaust)
  then have w1: "mem w1 = mem w" "others w1 = []"
    using assms(2) by (auto simp: now_def run_outside split: if_splits)
  define d where "d = (if NodeID cfg \<noteq> '''' then AList.update ''node'' (NodeID cfg) (Detail ev) else Detail ev)"
  let ?ev = "ev\<lparr>At := t, Detail := d\<rparr>"
  have "fst (al_Append (cfg_Audit cfg) ?ev (mem w1)) = None" "w' = w1\<lparr>mem := snd (al_Append (cfg_Audit cfg) ?ev (mem w1))\<rparr>"
    using assms(1) t w1(2) by (auto simp: record_event_def run_call_alone d_def split: option.splits)
  with Append_cases [of "mem w" ?ev] assms(3) w1 obtain n where
    "log (mem w') = log (mem w) @ [?ev\<lparr>Seq := n\<rparr>]" "tbl (mem w') = tbl (mem w)" "others w' = []" "good (mem w')"
    by auto
  moreover have "?ev\<lparr>Seq := n\<rparr> = ev\<lparr>Seq := n, At := t, Detail := d\<rparr>"
    by simp
  ultimately show ?thesis
    by metis
qed

lemma acted_recorded:
  assumes "\<And>n t d. P (ev\<lparr>Seq := n, At := t, Detail := d, Outcome := OutcomeRequested\<rparr>)" "keeps logged rest"
  shows "keeps (acted P) (recorded cfg ev refuse rest)"
proof (rule keepsI)
  fix w a w'
  assume run: "run_state (recorded cfg ev refuse rest) w = (a, w')"
  obtain err w1 where r: "run_state (record_event cfg (requested ev)) w = (err, w1)" by (metis prod.exhaust)
  let ?ev = "\<lambda>n t d. ev\<lparr>Seq := n, At := t, Detail := d, Outcome := OutcomeRequested\<rparr>"
  show "acted P w w'"
  proof (cases err)
    case None
    show ?thesis
      unfolding acted_def
    proof (intro impI)
      assume alone: "others w = [] \<and> good (mem w)"
      with record_event_written [OF r [unfolded None]] obtain n t d where
        "log (mem w1) = log (mem w) @ [(requested ev)\<lparr>Seq := n, At := t, Detail := d\<rparr>]" "others w1 = []" "good (mem w1)"
        by blast
      moreover have "(requested ev)\<lparr>Seq := n, At := t, Detail := d\<rparr> = ?ev n t d"
        by (simp add: requested_def)
      ultimately have w1: "log (mem w1) = log (mem w) @ [?ev n t d]" "others w1 = []" "good (mem w1)"
        by simp_all
      have "logged w1 w'"
        using keepsD [OF assms(2), of w1 a w'] run r None by (simp add: recorded_def)
      with w1 obtain evs where "others w' = []" "good (mem w')" "log (mem w') = log (mem w1) @ evs"
        unfolding logged_def by blast
      with w1 assms(1) show "others w' = [] \<and> good (mem w') \<and> (\<exists>evs. log (mem w') = log (mem w) @ evs \<and>
          (tbl (mem w') = tbl (mem w) \<or> (\<exists>ev \<in> set evs. P ev)))"
        by (intro conjI exI [of _ "?ev n t d # evs"]) auto
    qed
  next
    case (Some e)
    then have "w' = w1"
      using run r by (simp add: recorded_def)
    with keepsD [OF still_record_event r] show ?thesis
      using still_acted by blast
  qed
qed

lemma logged_intro: "keeps still m \<Longrightarrow> keeps logged m"
  by (rule keeps_acted_logged)

lemmas logged_intros = keeps_intros logged_refl logged_trans logged_Create logged_Update logged_Delete

lemma logged_recorded: "keeps logged rest \<Longrightarrow> keeps logged (recorded cfg ev refuse rest)"
  unfolding recorded_def by (intro logged_intros logged_intro [OF still_record_event])

lemma logged_mutate_loop: "(\<And>s c. keeps logged (fn s c)) \<Longrightarrow> keeps logged (mutate_loop (cfg_Store cfg) i ifMatch fn c k)"
proof (induction k arbitrary: c)
  case 0
  show ?case
    by (subst mutate_loop.simps)
       (intro logged_intros 0 logged_intro [OF still_read]; simp add: logged_refl keeps_return)
next
  case (Suc n)
  show ?case
    by (subst mutate_loop.simps)
       (intro logged_intros Suc logged_intro [OF still_read]; simp add: Suc logged_refl keeps_return)
qed

lemma logged_Mutate: "(\<And>s c. keeps logged (fn s c)) \<Longrightarrow> keeps logged (Mutate (cfg_Store cfg) i ifMatch fn c)"
  unfolding Mutate_def by (rule logged_mutate_loop)

lemma still_mutate_closure: "(\<And>s. keeps still (fn s)) \<Longrightarrow> keeps still (mutate_closure cfg c fn sb captured)"
  unfolding mutate_closure_def by (intro still_intros still_steps)

lemma logged_mutate_admitted: "(\<And>s. keeps still (fn s)) \<Longrightarrow> keeps logged (mutate_admitted cfg c i ifMatch action ev fn rel)"
  unfolding mutate_admitted_def
  by (intro logged_intros logged_Mutate logged_intro [OF still_mutate_closure] logged_intro [OF still_outcome]
      logged_intro [OF still_committed] logged_intro [OF still_release])

text \<open>The event a caller's request leaves in the record before anything is done for it.\<close>

definition asked :: "string \<Rightarrow> string \<Rightarrow> AuditEvent \<Rightarrow> bool" where
  "asked who action ev \<longleftrightarrow> ev_Principal ev = who \<and> Action ev = action \<and> Outcome ev = OutcomeRequested"

definition asked_of :: "string \<Rightarrow> string \<Rightarrow> string \<Rightarrow> AuditEvent \<Rightarrow> bool" where
  "asked_of who action i ev \<longleftrightarrow> asked who action ev \<and> SandboxID ev = i"

lemmas acted_intros = keeps_intros acted_refl acted_trans

lemma acted_mutate:
  assumes "\<And>s. keeps still (fn s)"
  shows "keeps (acted (asked_of (cl_Principal c) action i)) (mutate cfg ctx c i ifMatch action detail grace fn)"
  unfolding mutate_def
  by (intro acted_intros keeps_still_acted [OF still_Service_Get] keeps_still_acted [OF still_owned] acted_recorded
      logged_intros logged_intro [OF assms] logged_intro [OF still_outcome] logged_intro [OF still_guardAdmit]
      logged_mutate_admitted assms) (simp_all add: asked_of_def asked_def mk_event_def)

lemma still_stamp: "keeps still (stamp cfg r)"
  unfolding stamp_def by (intro still_intros)

lemma still_start_change: "keeps still (start_change cfg s)"
  unfolding start_change_def by (intro still_intros)

lemma still_transition_now: "keeps still (transition_now cfg to s)"
  unfolding transition_now_def by (intro still_intros)

lemma acted_update: "(\<And>w. mem (f w) = mem w) \<Longrightarrow> (\<And>w. others (f w) = others w) \<Longrightarrow> keeps (acted P) (State_Monad.update f)"
  by (rule keeps_update) (simp add: still_acted still_same)

lemma acted_Update_op: "keeps (acted (asked_of (cl_Principal c) ActionUpdate i)) (Service_Update cfg ctx c i ifMatch p)"
  unfolding Service_Update_def by (intro acted_intros acted_mutate still_stamp)

lemma acted_Start_op: "keeps (acted (asked_of (cl_Principal c) ActionStart i)) (Service_Start cfg ctx c i ifMatch)"
  unfolding Service_Start_def
  by (intro acted_intros acted_mutate still_start_change keeps_still_acted [OF still_Kick])

lemma acted_Stop_op: "keeps (acted (asked_of (cl_Principal c) ActionStop i)) (Service_Stop cfg ctx c i ifMatch grace)"
  unfolding Service_Stop_def
  by (intro acted_intros acted_mutate still_transition_now keeps_still_acted [OF still_Kick] acted_update) simp_all

lemma acted_Delete_op: "keeps (acted (asked_of (cl_Principal c) ActionDelete i)) (Service_Delete cfg ctx c i ifMatch)"
  unfolding Service_Delete_def
  by (intro acted_intros acted_mutate still_transition_now keeps_still_acted [OF still_Kick] keeps_still_acted [OF still_Service_Get])

lemma logged_create_recorded: "keeps logged (create_recorded cfg ctx c sb ev)"
  unfolding create_recorded_def
  by (intro logged_intros logged_intro [OF still_guardAdmit] logged_intro [OF still_outcome] logged_intro [OF still_release]
      logged_intro [OF still_admit] logged_intro [OF still_committed] logged_intro [OF still_Kick])

lemma still_applyTemplate: "keeps still (applyTemplate cfg req)"
  unfolding applyTemplate_def by (intro still_intros)

lemma still_NewSandbox: "keeps still (NewSandbox cfg who t d l n)"
  unfolding NewSandbox_def by (intro still_intros)

lemma acted_Create_op: "keeps (acted (asked (cl_Principal c) ActionCreate)) (Service_Create cfg ctx c req)"
  unfolding Service_Create_def
  by (intro acted_intros acted_recorded logged_create_recorded keeps_still_acted [OF still_applyTemplate]
      keeps_still_acted [OF still_NewSandbox] keeps_still_acted [OF still_now]) (simp add: asked_def mk_event_def)

end

section \<open>Requests\<close>

text \<open>The mutating requests of the API on sandboxes, and what serves them.\<close>

datatype request =
    ReqCreate CreateRequest
  | ReqUpdate string string Patch
  | ReqStart string string
  | ReqStop string string duration
  | ReqDelete string string

fun serve :: "('m, 'x) Config \<Rightarrow> Ctx \<Rightarrow> Caller \<Rightarrow> request \<Rightarrow> (('m, 'x) service, gerror + Sandbox) state" where
  "serve cfg ctx c (ReqCreate req) = Service_Create cfg ctx c req"
| "serve cfg ctx c (ReqUpdate i ifMatch p) = Service_Update cfg ctx c i ifMatch p"
| "serve cfg ctx c (ReqStart i ifMatch) = Service_Start cfg ctx c i ifMatch"
| "serve cfg ctx c (ReqStop i ifMatch grace) = Service_Stop cfg ctx c i ifMatch grace"
| "serve cfg ctx c (ReqDelete i ifMatch) = Service_Delete cfg ctx c i ifMatch"

fun request_action :: "request \<Rightarrow> string" where
  "request_action (ReqCreate req) = ActionCreate"
| "request_action (ReqUpdate i ifMatch p) = ActionUpdate"
| "request_action (ReqStart i ifMatch) = ActionStart"
| "request_action (ReqStop i ifMatch grace) = ActionStop"
| "request_action (ReqDelete i ifMatch) = ActionDelete"

fun request_target :: "request \<Rightarrow> string option" where
  "request_target (ReqCreate req) = None"
| "request_target (ReqUpdate i ifMatch p) = Some i"
| "request_target (ReqStart i ifMatch) = Some i"
| "request_target (ReqStop i ifMatch grace) = Some i"
| "request_target (ReqDelete i ifMatch) = Some i"

fun serve_all :: "('m, 'x) Config \<Rightarrow> (Ctx \<times> Caller \<times> request) list \<Rightarrow> (('m, 'x) service, (gerror + Sandbox) list) state" where
  "serve_all cfg [] = ret []"
| "serve_all cfg ((ctx, c, req) # rs) = do { r \<leftarrow> serve cfg ctx c req; more \<leftarrow> serve_all cfg rs; ret (r # more) }"

context service_store
begin

lemma forward_serve: "keeps forward (serve cfg ctx c req)"
  by (cases req) (simp_all add: forward_Create_op forward_Update_op forward_Start_op forward_Stop_op forward_Delete_op)

lemma forward_serve_all: "keeps forward (serve_all cfg rs)"
proof (induction rs)
  case (Cons r rs)
  obtain ctx c req where "r = (ctx, c, req)" by (metis prod.exhaust)
  then show ?case
    by simp (intro service_forward forward_serve Cons)
qed (simp add: keeps_return forward_refl)

lemma acted_mono: "keeps (acted P) m \<Longrightarrow> (\<And>ev. P ev \<Longrightarrow> Q ev) \<Longrightarrow> keeps (acted Q) m"
  by (erule keeps_mono) (fastforce simp: acted_def)

lemma acted_serve:
  "keeps (acted (\<lambda>ev. asked (cl_Principal c) (request_action req) ev \<and> (\<forall>i. request_target req = Some i \<longrightarrow> SandboxID ev = i)))
     (serve cfg ctx c req)"
proof (cases req)
  case (ReqCreate r)
  then show ?thesis
    using acted_mono [OF acted_Create_op] by simp
next
  case (ReqUpdate i ifMatch p)
  then show ?thesis
    using acted_mono [OF acted_Update_op] by (simp add: asked_of_def)
next
  case (ReqStart i ifMatch)
  then show ?thesis
    using acted_mono [OF acted_Start_op] by (simp add: asked_of_def)
next
  case (ReqStop i ifMatch g)
  then show ?thesis
    using acted_mono [OF acted_Stop_op] by (simp add: asked_of_def)
next
  case (ReqDelete i ifMatch)
  then show ?thesis
    using acted_mono [OF acted_Delete_op] by (simp add: asked_of_def)
qed

end

section \<open>The control plane over the memory store\<close>

definition memory_config :: "(Memory, 'x) Config \<Rightarrow> (Memory, 'x) Config" where
  "memory_config base = base\<lparr>cfg_Store := memory_store, cfg_Templates := Some memory_templates, cfg_Audit := memory_audit\<rparr>"

lemma memory_config_simps [simp]: "cfg_Store (memory_config base) = memory_store"
  "cfg_Templates (memory_config base) = Some memory_templates" "cfg_Audit (memory_config base) = memory_audit"
  by (simp_all add: memory_config_def)

text \<open>
  An audit log may refuse any event at any time: \<open>refuses ev m\<close> is the error it then gives. With one that refuses nothing the
  configuration is that over the memory store.\<close>

definition refusing_audit :: "(AuditEvent \<Rightarrow> Memory \<Rightarrow> gerror option) \<Rightarrow> Memory AuditLog" where
  "refusing_audit refuses = \<lparr>al_Append = (\<lambda>ev m. case refuses ev m of Some e \<Rightarrow> (Some e, m) | None \<Rightarrow> Memory_Append ev m),
     al_AuditFor = Some Memory_AuditFor\<rparr>"

definition refusing_config :: "(AuditEvent \<Rightarrow> Memory \<Rightarrow> gerror option) \<Rightarrow> (Memory, 'x) Config \<Rightarrow> (Memory, 'x) Config" where
  "refusing_config refuses base = (memory_config base)\<lparr>cfg_Audit := refusing_audit refuses\<rparr>"

lemma refusing_config_simps [simp]: "cfg_Store (refusing_config refuses base) = memory_store"
  "cfg_Templates (refusing_config refuses base) = Some memory_templates" "cfg_Audit (refusing_config refuses base) = refusing_audit refuses"
  by (simp_all add: refusing_config_def)

lemma refuses_nothing: "refusing_config (\<lambda>ev m. None) base = memory_config base"
  by (simp add: refusing_config_def refusing_audit_def memory_config_def memory_audit_def)

lemma refusing_store: "service_store (refusing_config refuses base) memory_tbl rv memory_inv audit"
proof (rule service_store.intro)
  show "sandbox_store (cfg_Store (refusing_config refuses base)) memory_tbl rv memory_inv"
    unfolding refusing_config_simps by (rule memory.sandbox_store_axioms)
  show "service_store_axioms (refusing_config refuses base) memory_tbl rv memory_inv audit"
  proof
    fix m m' s v i ev e ts t n and r :: "gerror + Template" and r' :: "gerror option"
    assume good: "memory_inv m"
    show "al_Append (cfg_Audit (refusing_config refuses base)) ev m = (None, m') \<Longrightarrow>
        (\<exists>n. audit m' = audit m @ [ev\<lparr>Seq := n\<rparr>]) \<and> memory_tbl m' = memory_tbl m \<and> rv m' = rv m \<and> memory_inv m'"
      using memory_inv_Append [OF good, of ev] by (auto simp: refusing_audit_def Memory_Append_def split: option.splits)
    show "al_Append (cfg_Audit (refusing_config refuses base)) ev m = (Some e, m') \<Longrightarrow>
        audit m' = audit m \<and> memory_tbl m' = memory_tbl m \<and> rv m' = rv m \<and> memory_inv m'"
      using good by (auto simp: refusing_audit_def Memory_Append_def split: option.splits)
    show "audit (snd (st_Create (cfg_Store (refusing_config refuses base)) s m)) = audit m"
      by (simp add: memory_store_def Memory_Create_def Let_def)
    show "audit (snd (st_Update (cfg_Store (refusing_config refuses base)) s v m)) = audit m"
      by (simp add: memory_store_def Memory_Update_def Let_def split: option.split)
    show "audit (snd (st_Delete (cfg_Store (refusing_config refuses base)) i v m)) = audit m"
      by (simp add: memory_store_def Memory_Delete_def split: option.split)
    show "cfg_Templates (refusing_config refuses base) = Some ts \<Longrightarrow> ts_CreateTemplate ts t m = (r, m') \<Longrightarrow>
        audit m' = audit m \<and> memory_tbl m' = memory_tbl m \<and> rv m \<le> rv m' \<and> memory_inv m'"
      using memory_inv_CreateTemplate [OF good, of t]
      by (auto simp: memory_templates_def Memory_CreateTemplate_def Let_def split: if_splits)
    show "cfg_Templates (refusing_config refuses base) = Some ts \<Longrightarrow> ts_DeleteTemplate ts n v m = (r', m') \<Longrightarrow>
        audit m' = audit m \<and> memory_tbl m' = memory_tbl m \<and> rv m \<le> rv m' \<and> memory_inv m'"
      using memory_inv_DeleteTemplate [OF good, of n v]
      by (auto simp: memory_templates_def Memory_DeleteTemplate_def split: if_splits option.splits)
  qed
qed

interpretation refusing: service_store "refusing_config refuses base" memory_tbl rv memory_inv audit
  by (rule refusing_store)

interpretation plane: service_store "memory_config base" memory_tbl rv memory_inv audit
  using refusing_store [of "\<lambda>ev m. None"] by (simp only: refuses_nothing)

text \<open>A control plane over the memory store, with the in-memory driver, for the witnesses.\<close>

definition sample_config :: "(Memory, Fake) Config" where
  "sample_config = \<lparr>cfg_Store = memory_store, cfg_Templates = Some memory_templates, cfg_Audit = memory_audit,
     cfg_Drivers = [(''process'', fake_driver id (\<lambda>i q f. (Inr 0, f)) (\<lambda>i q f. (Inr 0, f)) (\<lambda>i q f. (Inr 0, f)) ''process'' [])],
     cfg_Settings = \<lparr>global = [], ceiling = [], source = []\<rparr>, DefaultDriver = ''process'', Workspace = (\<lambda>i f. (Inr ''/ws'', f)), ReleaseWorkspace = None,
     WriteProtected = [], cfg_Egress = None, Redact = None, cfg_Interceptor = None, cfg_Ownership = None, NodeID = '''',
     Now = (\<lambda>f. (7, f)), sha256 = id, rand_id = (\<lambda>f. (Inr ''01234567'', f))\<rparr>"

definition sample_plane :: "(Memory, Fake) service" where
  "sample_plane = \<lparr>mem = sample_memory, ext = Fake_New ''process'' [], others = [], guard = None, kicks = [], inflight = [],
     again = [], graces = [], timers = [], running = False\<rparr>"

definition sample_caller :: Caller where
  "sample_caller = \<lparr>cl_Principal = ''ana'', Admin = False, cl_Scope = []\<rparr>"

definition sample_ctx :: Ctx where
  "sample_ctx = \<lparr>ctx_Approval = '''', ctx_Origin = ''''\<rparr>"

definition sample_stop :: request where
  "sample_stop = ReqStop (ID sample_sandbox) '''' Second"

definition sample_stopped :: "(gerror + Sandbox) \<times> (Memory, Fake) service" where
  "sample_stopped = run_state (serve (memory_config sample_config) sample_ctx sample_caller sample_stop) sample_plane"

lemma sample_stopped_state: "memory_tbl (mem (snd sample_stopped)) (ID sample_sandbox) =
    Some (sample_sandbox\<lparr>sb_State := StateStopping, ResourceVersion := 2, UpdatedAt := 7\<rparr>)"
  "fst sample_stopped = Inr (sample_sandbox\<lparr>sb_State := StateStopping, ResourceVersion := 2, UpdatedAt := 7\<rparr>)"
  by code_simp+

lemma sample_plane_ok: "memory_inv (mem sample_plane)" "others sample_plane = []" "mem sample_plane = sample_memory"
  by (simp_all add: sample_plane_def sample_memory_inv)

text \<open>
  C2: nothing changes unrecorded. Let the record refuse any event at any time, and nothing else write to the store. A request changes
  a sandbox only when the record has taken an event saying that this caller asked for this action, on this sandbox where the request names one:
  a request whose event was refused leaves every sandbox as it was. The record only ever grows. This holds whatever guard,
  interceptor, drivers and clock are plugged in.
\<close>

theorem nothing_unrecorded:
  assumes "memory_inv (mem w)" "others w = []" "run_state (serve (refusing_config refuses base) ctx c req) w = (r, w')"
  shows "\<exists>evs. audit (mem w') = audit (mem w) @ evs \<and>
    (memory_tbl (mem w') = memory_tbl (mem w) \<or>
     (\<exists>ev \<in> set evs. ev_Principal ev = cl_Principal c \<and> Action ev = request_action req \<and> Outcome ev = OutcomeRequested \<and>
        (\<forall>i. request_target req = Some i \<longrightarrow> SandboxID ev = i)))"
  using keepsD [OF refusing.acted_serve assms(3)] assms(1,2) by (auto simp: refusing.acted_def refusing.asked_def)

text \<open>With a record that takes everything a stop changes its sandbox; with one that takes nothing it leaves it.\<close>

theorem nothing_unrecorded_witness:
  "(\<exists>evs ev. audit (mem (snd sample_stopped)) = audit sample_memory @ evs \<and> ev \<in> set evs \<and> ev_Principal ev = ''ana'' \<and>
     Action ev = ActionStop \<and> Outcome ev = OutcomeRequested \<and> SandboxID ev = ID sample_sandbox) \<and>
   memory_tbl (mem (snd (run_state (serve (refusing_config (\<lambda>ev m. Some (Sentinel Canceled)) sample_config) sample_ctx sample_caller sample_stop)
     sample_plane))) = memory_tbl sample_memory"
proof
  have run: "run_state (serve (refusing_config (\<lambda>ev m. None) sample_config) sample_ctx sample_caller sample_stop) sample_plane =
      (fst sample_stopped, snd sample_stopped)"
    by (simp add: sample_stopped_def refuses_nothing)
  have "memory_tbl (mem (snd sample_stopped)) \<noteq> memory_tbl (mem sample_plane)"
    using sample_stopped_state(1) by (auto simp: sample_plane_def sample_memory_def sample_sandbox_def)
  with nothing_unrecorded [OF sample_plane_ok(1,2) run]
  show "\<exists>evs ev. audit (mem (snd sample_stopped)) = audit sample_memory @ evs \<and> ev \<in> set evs \<and> ev_Principal ev = ''ana'' \<and>
     Action ev = ActionStop \<and> Outcome ev = OutcomeRequested \<and> SandboxID ev = ID sample_sandbox"
    by (auto simp: sample_plane_def sample_caller_def sample_stop_def)
  let ?w = "snd (run_state (serve (refusing_config (\<lambda>ev m. Some (Sentinel Canceled)) sample_config) sample_ctx sample_caller sample_stop) sample_plane)"
  have "audit (mem ?w) = []" by code_simp
  with nothing_unrecorded [OF sample_plane_ok(1,2) prod.collapse [symmetric], of "\<lambda>ev m. Some (Sentinel Canceled)" sample_config sample_ctx sample_caller sample_stop]
  show "memory_tbl (mem ?w) = memory_tbl sample_memory"
    by (auto simp: sample_plane_ok(3))
qed

text \<open>
  C10: requests keep the store sound. However many requests are served, in any order, by callers of any
  kind, with other writers changing the store between any two calls, the store's invariant holds at
  the end, and every sandbox it then holds is one it held before or carries a resource version never
  given out before.
\<close>

theorem requests_keep_store_sound:
  assumes "memory_inv (mem w)" "\<forall>g \<in> set (others w). \<forall>m. memory_later m (g m)"
    "run_state (serve_all (memory_config base) rs) w = (r, w')"
  shows "memory_inv (mem w') \<and> rv (mem w) \<le> rv (mem w') \<and>
    (\<forall>i s. memory_tbl (mem w') i = Some s \<longrightarrow> memory_tbl (mem w) i = Some s \<or> rv (mem w) < ResourceVersion s)"
proof -
  have "memory_later (mem w) (mem w')"
    using keepsD [OF plane.forward_serve_all assms(3)] assms(2) unfolding memory.forward_def memory.tame_def by blast
  then show ?thesis
    using assms(1) unfolding later_def by blast
qed

theorem requests_keep_store_sound_witness:
  "memory_inv (mem (snd (run_state (serve_all (memory_config sample_config)
     [(sample_ctx, sample_caller, sample_stop), (sample_ctx, sample_caller, ReqDelete (ID sample_sandbox) '''')])
     (sample_plane\<lparr>others := [\<lambda>m. m]\<rparr>))))"
  using requests_keep_store_sound [OF _ _ prod.collapse [symmetric], of "sample_plane\<lparr>others := [\<lambda>m. m]\<rparr>" sample_config
      "[(sample_ctx, sample_caller, sample_stop), (sample_ctx, sample_caller, ReqDelete (ID sample_sandbox) '''')]"]
    sample_plane_ok(1) later_refl [of memory_tbl rv memory_inv]
  by simp

end
