(* ===== verification/Requests.thy ===== *)
theory Requests
  imports ServiceLaws
begin

text \<open>
  What the service's requests do: who sees a sandbox, what an interceptor may change, what a change is
  applied to and what it leaves, and what a created sandbox is.
\<close>

section \<open>Who sees a sandbox\<close>

definition visible :: "Caller \<Rightarrow> string \<Rightarrow> Memory \<Rightarrow> bool" where
  "visible c i m \<longleftrightarrow> (\<exists>sb. memory_tbl m i = Some sb \<and> may c sb)"

lemma run_Service_Get:
  assumes "others w = []"
  shows "run_state (Service_Get (memory_config base) c i) w =
    (case memory_tbl (mem w) i of
       Some sb \<Rightarrow> if may c sb then Inr sb else Inl (Errorf [Sentinel ErrNotFound] ''sandbox'')
     | None \<Rightarrow> Inl (Errorf [Sentinel ErrNotFound] ''sandbox''), w)"
  using assms
  by (simp add: Service_Get_def run_call_alone memory_store_def Memory_Get_def storeErr_def store_known_def split: option.split)

lemma run_mutate_invisible:
  assumes "others w = []" "\<not> visible c i (mem w)"
  shows "run_state (mutate (memory_config base) ctx c i ifMatch action detail grace fn) w =
    (Inl (Errorf [Sentinel ErrNotFound] ''sandbox''), w)"
  using assms by (auto simp: mutate_def run_Service_Get visible_def split: option.splits)

text \<open>
  What a caller may not see does not exist for it. A request on a sandbox outside the caller's scope,
  or of another owner when the caller is no administrator, gets the very error a missing sandbox
  gives, and leaves the store, the record, the drivers and the service's own state as they were.
\<close>

theorem invisible_sandbox_untouched:
  assumes "others w = []" "request_target req = Some i" "\<not> visible c i (mem w)"
  shows "run_state (serve (memory_config base) ctx c req) w =
    (Inl (case req of
        ReqStop j ifMatch grace \<Rightarrow>
          if grace < 0 \<or> grace > Hour then Errorf [Sentinel ErrInvalid] ''grace_seconds must be from 0 to 3600''
          else Errorf [Sentinel ErrNotFound] ''sandbox''
      | _ \<Rightarrow> Errorf [Sentinel ErrNotFound] ''sandbox''), w)"
proof (cases req)
  case (ReqDelete j ifMatch)
  with assms show ?thesis
    by (auto simp: Service_Delete_def run_Service_Get visible_def split: option.splits)
qed (use assms in \<open>simp_all add: Service_Update_def Service_Start_def Service_Stop_def Let_def run_mutate_invisible\<close>)

theorem invisible_sandbox_untouched_witness:
  "run_state (serve (memory_config sample_config) sample_ctx (sample_caller\<lparr>cl_Principal := ''bob''\<rparr>) sample_stop) sample_plane =
     (Inl (Errorf [Sentinel ErrNotFound] ''sandbox''), sample_plane)"
proof -
  have "\<not> visible (sample_caller\<lparr>cl_Principal := ''bob''\<rparr>) (ID sample_sandbox) (mem sample_plane)"
    by (simp add: visible_def sample_plane_def sample_memory_def sample_caller_def sample_sandbox_def may_def)
  from invisible_sandbox_untouched [OF sample_plane_ok(2) _ this, of sample_stop sample_config sample_ctx] show ?thesis
    by (simp add: sample_stop_def)
qed

lemma Memory_List_sound:
  assumes "memory_inv m" "Memory_List opts m = Some (Inr (items, next))" "s \<in> set items"
  shows "memory_tbl m (ID s) = Some s \<and> ListOptions_Matches opts s = Some True"
proof -
  have page_sound: "set ys \<subseteq> set out \<union> {x \<in> set xs. matches x = Some True}"
    if "page matches key none lim out xs = Some (ys, k)" for matches key none lim out xs ys k
    using that by (induction matches key none lim out xs rule: page.induct) (auto split: option.splits bool.splits if_splits)
  have "s \<in> set (map (\<lambda>i. the (memory_tbl m i)) (sort (filter (\<lambda>i. lo_After opts < i) (keys (sandboxes m)))))"
    "ListOptions_Matches opts s = Some True"
    using assms(2,3) page_sound by (fastforce simp: Memory_List_def Let_def)+
  then have "s \<in> set (sandboxes_by_id m)"
    by (auto simp: sandboxes_by_id_def)
  with \<open>ListOptions_Matches opts s = Some True\<close> show ?thesis
    using sandboxes_by_id_set [OF assms(1)] by simp
qed

text \<open>
  A list shows a caller only what it may see. Whatever filters a list is asked with, every sandbox
  it returns is stored under its id and one the caller may act on.
\<close>

theorem listed_sandboxes_visible:
  assumes "memory_inv (mem w)" "others w = []"
    "run_state (Service_List (memory_config base) c opts) w = (Some (Inr (items, next)), w')"
  shows "\<forall>s \<in> set items. memory_tbl (mem w) (ID s) = Some s \<and> may c s"
proof
  fix s
  assume s: "s \<in> set items"
  let ?o = "if length (cl_Scope c) > 0
    then (if \<not> Admin c then opts\<lparr>lo_Owner := cl_Principal c\<rparr> else opts)\<lparr>lo_Labels := cl_Scope c\<rparr>
    else (if \<not> Admin c then opts\<lparr>lo_Owner := cl_Principal c\<rparr> else opts)"
  have "Memory_List ?o (mem w) = Some (Inr (items, next))" and who: "Admin c \<or> cl_Principal c \<noteq> ''''"
    using assms(2,3) s
    by (auto simp: Service_List_def run_call_alone memory_store_def Let_def split: if_splits option.splits sum.splits)
  from Memory_List_sound [OF assms(1) this(1) s]
  have stored: "memory_tbl (mem w) (ID s) = Some s" and m: "ListOptions_Matches ?o s = Some True" by simp_all
  have "scoped (cl_Scope c) (sb_Labels s)"
    using m by (cases "cl_Scope c") (auto simp: ListOptions_Matches_def scoped_def split: if_splits)
  moreover have "Admin c \<or> Owner s = cl_Principal c"
    using m who by (auto simp: ListOptions_Matches_def split: if_splits)
  ultimately show "memory_tbl (mem w) (ID s) = Some s \<and> may c s"
    using stored who by (auto simp: may_def)
qed

theorem listed_sandboxes_visible_witness:
  "\<exists>items. run_state (Service_List (memory_config sample_config) sample_caller list_all_options) sample_plane =
     (Some (Inr (items, '''')), sample_plane) \<and> length items = 1 \<and> may sample_caller (hd items)"
proof -
  let ?items = "[sample_sandbox\<lparr>ResourceVersion := 1\<rparr>]"
  have "fst (run_state (Service_List (memory_config sample_config) sample_caller list_all_options) sample_plane) =
      Some (Inr (?items, ''''))"
    by code_simp
  moreover have "snd (run_state (Service_List (memory_config sample_config) sample_caller list_all_options) sample_plane) = sample_plane"
    using sample_plane_ok(2) by (auto simp: Service_List_def run_call_alone Let_def split: option.splits)
  ultimately have run: "run_state (Service_List (memory_config sample_config) sample_caller list_all_options) sample_plane =
      (Some (Inr (?items, '''')), sample_plane)"
    by (metis prod.collapse)
  with listed_sandboxes_visible [OF sample_plane_ok(1,2) run] show ?thesis
    by simp
qed

section \<open>What an interceptor may change\<close>

text \<open>
  The promise made of an admitted object: it is the proposed one but for labels outside the reserved
  prefix and settings, every setting in force is as tight as before, and an exec's object is the same.
\<close>

definition admitted_ok :: "Settings \<Rightarrow> string \<Rightarrow> Sandbox \<Rightarrow> Sandbox \<Rightarrow> bool" where
  "admitted_ok st op a b \<longleftrightarrow>
     b\<lparr>sb_Labels := sb_Labels a, sb_Settings := sb_Settings a\<rparr> = a \<and>
     (\<forall>k. reserved_key k \<longrightarrow> map_of (sb_Labels b) k = map_of (sb_Labels a) k \<or>
        map_of (sb_Labels a) k = Some '''' \<and> map_of (sb_Labels b) k = None) \<and>
     at_least_as_tight st (sb_Settings a) (sb_Settings b) \<and>
     (op = OpExec \<longrightarrow> map_of (sb_Labels b) = map_of (sb_Labels a) \<and> map_of (sb_Settings b) = map_of (sb_Settings a))"

lemma at_least_as_tight_refl: "wf_settings st \<Longrightarrow> at_least_as_tight st a a"
  using in_force_rank [of st] by (fastforce simp: at_least_as_tight_def)

lemma admitted_ok_refl: "wf_settings st \<Longrightarrow> admitted_ok st op a a"
  using at_least_as_tight_refl [of st] by (simp add: admitted_ok_def)

lemma reserved_labels_kept:
  assumes "\<not> list_ex (\<lambda>(k, v). reserved_key k \<and> get_str b k \<noteq> v) a"
    "\<not> list_ex (\<lambda>(k, v). map_of a k = None \<and> reserved_key k) b" "reserved_key k"
  shows "get_str b k = get_str a k"
proof (cases "map_of a k")
  case None
  have "map_of b k \<noteq> Some v" for v
    using assms(2,3) None map_of_SomeD [of b k v] by (auto simp: list_ex_iff)
  then have "map_of b k = None" by (cases "map_of b k") auto
  with None show ?thesis by (simp add: get_str_def)
next
  case (Some v)
  then have "get_str b k = v"
    using assms(1,3) map_of_SomeD [of a k v] by (auto simp: list_ex_iff)
  with Some show ?thesis by (simp add: get_str_def)
qed

lemma reserved_labels_same:
  assumes "\<not> list_ex (\<lambda>(k, v). reserved_key k \<and> get_str b k \<noteq> v) a"
    "\<not> list_ex (\<lambda>(k, v). map_of a k = None \<and> reserved_key k) b" "reserved_key k"
  shows "map_of b k = map_of a k \<or> map_of a k = Some '''' \<and> map_of b k = None"
proof -
  have "map_of b k = None" if "map_of a k = None"
    using assms(2,3) that map_of_SomeD [of b k] by (cases "map_of b k") (auto simp: list_ex_iff)
  then show ?thesis
    using reserved_labels_kept [OF assms] by (cases "map_of a k"; cases "map_of b k") (simp_all add: get_str_def)
qed

lemma checkAdmitted_ok:
  assumes "wf_settings (cfg_Settings cfg)" "wf_map (sb_Labels a)" "wf_map (sb_Labels b)" "wf_map (sb_Settings a)"
    "wf_map (sb_Settings b)" "checkAdmitted cfg op a b = None"
  shows "admitted_ok (cfg_Settings cfg) op a b"
proof -
  have eq: "a\<lparr>sb_Labels := [], sb_Settings := []\<rparr> = b\<lparr>sb_Labels := [], sb_Settings := []\<rparr>"
    and ex: "op = OpExec \<Longrightarrow> maps_Equal (sb_Labels a) (sb_Labels b) \<and> maps_Equal (sb_Settings a) (sb_Settings b)"
    and l1: "\<not> list_ex (\<lambda>(k, v). reserved_key k \<and> get_str (sb_Labels b) k \<noteq> v) (sb_Labels a)"
    and l2: "\<not> list_ex (\<lambda>(k, v). map_of (sb_Labels a) k = None \<and> reserved_key k) (sb_Labels b)"
    and nl: "NoLooser (cfg_Settings cfg) (sb_Settings a) (sb_Settings b) = None"
    using assms(6) by (auto simp: checkAdmitted_def split: if_splits option.splits)
  have "b\<lparr>sb_Labels := sb_Labels a, sb_Settings := sb_Settings a\<rparr> = a"
    using eq by (cases a; cases b) simp
  moreover have "\<forall>k. reserved_key k \<longrightarrow> map_of (sb_Labels b) k = map_of (sb_Labels a) k \<or>
      map_of (sb_Labels a) k = Some '''' \<and> map_of (sb_Labels b) k = None"
    using reserved_labels_same [OF l1 l2] by blast
  moreover have "op = OpExec \<Longrightarrow> map_of (sb_Labels b) = map_of (sb_Labels a) \<and> map_of (sb_Settings b) = map_of (sb_Settings a)"
    using ex assms(2-5) by (simp add: maps_Equal_iff)
  ultimately show ?thesis
    using nl NoLooser_None [OF assms(1)] by (simp add: admitted_ok_def)
qed

lemma admit_Inr:
  assumes "run_state (admit cfg req) w = (Inr obj, w')"
  shows "obj = Object req \<or> (checkAdmitted cfg (Operation req) (Object req) obj = None \<and>
    (\<exists>ic x ds. cfg_Interceptor cfg = Some ic \<and> fst (ic_Admit ic req x) = ((obj, ds), None)))"
proof (cases "cfg_Interceptor cfg")
  case (Some ic)
  obtain obj' ds err x' where ic: "ic_Admit ic req (ext w) = (((obj', ds), err), x')"
    by (metis prod.exhaust)
  obtain rerr w1 where rd: "run_state (recordDecisions cfg req ds) (w\<lparr>ext := x'\<rparr>) = (rerr, w1)"
    by (metis prod.exhaust)
  have "rerr = None \<and> err = None \<and> checkAdmitted cfg (Operation req) (Object req) obj' = None \<and> obj = obj'"
    using assms Some ic rd
    by (auto simp: admit_def run_outside Let_def split: option.splits prod.splits)
  with Some ic show ?thesis
    by (metis fst_conv)
qed (use assms in \<open>simp add: admit_def\<close>)


definition sample_interceptor :: "Fake Interceptor" where
  "sample_interceptor = \<lparr>ic_Admit = (\<lambda>req x. (((Object req\<lparr>sb_Labels := [(''team'', ''a'')]\<rparr>, []), None), x)),
     ic_Committed = (\<lambda>req out err x. ([], x))\<rparr>"

definition sample_admission :: AdmissionRequest where
  "sample_admission = \<lparr>Operation = OpCreate, ar_Caller = sample_caller, ar_SandboxID = ID sample_sandbox, Old = None,
     Object = sample_sandbox, ar_Command = '''', ar_Stdin = False, ar_Cwd = '''', EnvNames = []\<rparr>"


section \<open>What a change is applied to\<close>

definition admissible :: "('m, 'x) Config \<Rightarrow> Sandbox \<Rightarrow> Sandbox \<Rightarrow> bool" where
  "admissible cfg a b \<longleftrightarrow> b = a \<or> (\<exists>op. checkAdmitted cfg op a b = None)"

lemma admissible_fields:
  "admissible cfg a b \<Longrightarrow> b\<lparr>sb_Labels := sb_Labels a, sb_Settings := sb_Settings a\<rparr> = a"
  by (cases a; cases b) (auto simp: admissible_def checkAdmitted_def split: if_splits)

lemma admissible_ID: "admissible cfg a b \<Longrightarrow> ID b = ID a"
  using admissible_fields [of cfg a b] by (cases a; cases b) simp

lemma mutate_closure_Inr:
  assumes "run_state (mutate_closure cfg c fn sb cap) w = ((Inr nxt, cap'), w')"
  shows "may c sb \<and> (\<exists>sb1 w1. run_state (fn sb) w = (Inr sb1, w1) \<and> admissible cfg sb1 nxt)"
proof -
  obtain iadm ad where cap: "cap = (iadm, ad)" by (cases cap)
  obtain r w1 where fn: "run_state (fn sb) w = (r, w1)" by (metis prod.exhaust)
  have may: "may c sb"
    using assms cap by (auto simp: mutate_closure_def split: if_splits)
  then obtain sb1 where sb1: "r = Inr sb1"
    using assms cap fn by (cases r) (auto simp: mutate_closure_def)
  obtain a w2 where ad: "run_state (admit cfg (iadm\<lparr>Old := Some sb, Object := sb1\<rparr>)) w1 = (a, w2)" by (metis prod.exhaust)
  then have "a = Inr nxt"
    using assms cap fn may sb1 by (auto simp: mutate_closure_def Let_def split: sum.splits)
  with admit_Inr [of cfg "iadm\<lparr>Old := Some sb, Object := sb1\<rparr>" w1 nxt w2] ad have "admissible cfg sb1 nxt"
    by (auto simp: admissible_def)
  with may fn sb1 show ?thesis by blast
qed

context service_store
begin

text \<open>A successful \<open>mutate\<close> has passed every check before its \<open>Mutate\<close>.\<close>

lemma mutate_reaches:
  assumes "run_state (mutate cfg ctx c i ifMatch action detail grace fn) w = (Inr s, w')" "\<And>s. keeps forward (fn s)"
  shows "\<exists>w0 ev rel. forward w w0 \<and> run_state (mutate_admitted cfg c i ifMatch action ev fn rel) w0 = (Inr s, w')"
proof -
  note fwd = transpD [OF forward_trans]
  obtain got w1 where w1: "forward w w1" "run_state (Service_Get cfg c i) w = (got, w1)"
    using keepsD [OF forward_Service_Get] by (metis prod.exhaust)
  then obtain cur where cur: "got = Inr cur" "CheckIfMatch ifMatch (ResourceVersion cur) = None"
    using assms(1) by (auto simp: mutate_def split: sum.splits option.splits)
  obtain own w2 where w2: "forward w1 w2" "run_state (owned cfg i) w1 = (own, w2)"
    using keepsD [OF forward_owned] by (metis prod.exhaust)
  then have own: "own = None"
    using assms(1) w1 cur by (auto simp: mutate_def split: option.splits)
  let ?ev = "mk_event (cl_Principal c) action i (Generation cur) [] detail"
  obtain rerr w3 where w3: "forward w2 w3" "run_state (record_event cfg (requested ?ev)) w2 = (rerr, w3)"
    using keepsD [OF forward_record_event] by (metis prod.exhaust)
  then have rerr: "rerr = None"
    using assms(1) w1 cur w2 own by (auto simp: mutate_def recorded_def Let_def split: option.splits)
  let ?judge = "if action = ActionUpdate then do { r \<leftarrow> fn cur; ret (case r of Inl e \<Rightarrow> Inl e | Inr s \<Rightarrow> Inr (Some s)) }
    else ret (Inr None)"
  have "keeps forward ?judge"
    by (intro service_forward assms(2))
  then obtain judged w4 where w4: "forward w3 w4" "run_state ?judge w3 = (judged, w4)"
    using keepsD by (metis prod.exhaust)
  then obtain next_sb where judged: "judged = Inr next_sb"
    using assms(1) w1 cur w2 own w3 rerr
    by (cases judged) (auto simp: mutate_def recorded_def Let_def split: prod.splits)
  let ?adm = "(mk_admission action c (Some cur) next_sb None)\<lparr>adm_Grace := grace\<rparr>"
  obtain g w5 where w5: "forward w4 w5" "run_state (guardAdmit ctx ?adm) w4 = (g, w5)"
    using keepsD [OF forward_guardAdmit] by (metis prod.exhaust)
  then obtain rel settings where g: "g = Inr (rel, settings)"
    using assms(1) w1 cur w2 own w3 rerr w4 judged
    by (cases g) (auto simp: mutate_def recorded_def Let_def split: prod.splits)
  have "run_state (mutate_admitted cfg c i ifMatch action ?ev fn rel) w5 = (Inr s, w')"
    using assms(1) w1 cur w2 own w3 rerr w4 judged w5 g by (simp add: mutate_def recorded_def Let_def)
  moreover have "forward w w5"
    using w1(1) w2(1) w3(1) w4(1) w5(1) fwd by metis
  ultimately show ?thesis by blast
qed

end

context service_store
begin

lemma mutate_applies:
  assumes "run_state (mutate cfg ctx c i ifMatch action detail grace fn) w = (Inr s, w')" "\<And>s. keeps forward (fn s)"
    and ids: "\<And>a b v v'. run_state (fn a) v = (Inr b, v') \<Longrightarrow> ID b = ID a" and "calm w"
  shows "\<exists>m cur v v' sb1 nxt m2. step_later (mem w) m \<and> tbl m i = Some cur \<and> may c cur \<and>
    CheckIfMatch ifMatch (ResourceVersion cur) = None \<and> run_state (fn cur) v = (Inr sb1, v') \<and> admissible cfg sb1 nxt \<and>
    CheckImmutable cur nxt = None \<and> s = nxt\<lparr>ResourceVersion := ResourceVersion s\<rparr> \<and>
    tbl m2 = (tbl m)(i \<mapsto> s) \<and> step_later m2 (mem w')"
proof -
  obtain w0 ev rel where w0: "forward w w0" "run_state (mutate_admitted cfg c i ifMatch action ev fn rel) w0 = (Inr s, w')"
    using mutate_reaches [OF assms(1,2)] by blast
  have "calm w0"
    using forward_calm [OF w0(1) assms(4)] by simp
  let ?cl = "mutate_closure cfg c fn"
  let ?cap = "(\<lparr>Operation = action, ar_Caller = c, ar_SandboxID = i, Old = None, Object = zero_sandbox, ar_Command = '''',
         ar_Stdin = False, ar_Cwd = '''', EnvNames = []\<rparr>, False)"
  obtain out iadm ad w1 where mu: "run_state (Mutate (cfg_Store cfg) i ifMatch ?cl ?cap) w0 = ((out, iadm, ad), w1)"
    by (metis prod.exhaust)
  let ?rest = "do {
     outcome cfg (case out of Inr s \<Rightarrow> ev\<lparr>ev_Generation := Generation s\<rparr> | Inl e \<Rightarrow> ev) (err_of out);
     (if ad then committed cfg iadm (or_zero out) (err_of out) else ret ());
     release rel;
     ret (case out of Inl e \<Rightarrow> Inl (storeErr e) | Inr s \<Rightarrow> Inr s)
   }"
  have rest: "run_state ?rest w1 = (Inr s, w')"
    using w0(2) mu by (simp add: mutate_admitted_def)
  have out: "out = Inr s"
    using rest by (cases out) (auto split: prod.splits)
  have "keeps forward ?rest"
    by (intro service_forward service_steps)
  from keepsD [OF this rest] have w1: "forward w1 w'" .
  have cl_ids: "\<And>a b v d d' v'. run_state (?cl a d) v = ((Inr b, d'), v') \<Longrightarrow> ID b = ID a"
    using mutate_closure_Inr admissible_ID ids by metis
  have cl_fwd: "\<And>a d. keeps forward (?cl a d)"
    by (rule forward_mutate_closure [OF assms(2)])
  have over: "wrote_over i ifMatch ?cl w0 s (iadm, ad) w1"
    by (rule Mutate_wrote_over [OF cl_fwd cl_ids _ \<open>calm w0\<close>]) (use mu out in auto)
  then obtain v d cur nxt v2 m where o: "forward w0 v" "CheckIfMatch ifMatch (ResourceVersion cur) = None"
    "run_state (?cl cur d) v = ((Inr nxt, iadm, ad), v2)" "step_later (mem v2) m" "tbl m i = Some cur"
    "CheckImmutable cur nxt = None" "s = nxt\<lparr>ResourceVersion := ver (mem w1)\<rparr>" "tbl (mem w1) = (tbl m)(i \<mapsto> s)"
    unfolding wrote_over_def by blast
  obtain sb1 v1 where cl: "may c cur" "run_state (fn cur) v = (Inr sb1, v1)" "admissible cfg sb1 nxt"
    using mutate_closure_Inr [OF o(3)] by blast
  have "forward w v2"
    using transpD [OF forward_trans] w0(1) o(1) keepsD [OF cl_fwd o(3)] by metis
  then have "step_later (mem w) m"
    using later_trans [OF _ o(4)] forward_calm [OF _ assms(4)] by blast
  moreover have "s = nxt\<lparr>ResourceVersion := ResourceVersion s\<rparr>"
    using o(7) by simp
  moreover have "calm w1"
    using forward_calm [OF _ \<open>calm w0\<close>] keepsD [OF forward_Mutate [OF cl_fwd] mu] by blast
  then have "step_later (mem w1) (mem w')"
    using forward_calm [OF w1] by blast
  ultimately show ?thesis
    using o(2,5,6,8) cl by blast
qed

end

text \<open>What each request asks to be made of the sandbox it finds.\<close>

fun request_change :: "Settings \<Rightarrow> request \<Rightarrow> Sandbox \<Rightarrow> Sandbox \<Rightarrow> bool" where
  "request_change st (ReqCreate req) a b = False"
| "request_change st (ReqUpdate i ifMatch p) a b = (\<exists>t s. patched st p a = Inr s \<and> b = s\<lparr>UpdatedAt := t\<rparr>)"
| "request_change st (ReqStart i ifMatch) a b =
     (\<exists>t s. Transition StateStarting t a = Inr s \<and> b = s\<lparr>Restarts := 0, NextRestart := None\<rparr>)"
| "request_change st (ReqStop i ifMatch grace) a b = (\<exists>t. Transition StateStopping t a = Inr b)"
| "request_change st (ReqDelete i ifMatch) a b = (\<exists>t. Transition StateDeleting t a = Inr b)"

fun request_if_match :: "request \<Rightarrow> string" where
  "request_if_match (ReqCreate req) = ''''"
| "request_if_match (ReqUpdate i ifMatch p) = ifMatch"
| "request_if_match (ReqStart i ifMatch) = ifMatch"
| "request_if_match (ReqStop i ifMatch grace) = ifMatch"
| "request_if_match (ReqDelete i ifMatch) = ifMatch"

lemma Transition_ID: "Transition to t a = Inr b \<Longrightarrow> ID b = ID a"
  by (auto simp: Transition_def Let_def split: if_splits)

lemma patched_ID: "patched st p a = Inr b \<Longrightarrow> ID b = ID a"
  by (auto simp: patched_def Let_def SetTemplate_def split: if_splits sum.splits option.splits prod.splits)

lemma stamp_Inr: "run_state (stamp cfg r) v = (Inr b, v') \<Longrightarrow> \<exists>t s. r = Inr s \<and> b = s\<lparr>UpdatedAt := t\<rparr>"
  by (auto simp: stamp_def now_def run_outside split: sum.splits)

lemma start_change_Inr: "run_state (start_change cfg a) v = (Inr b, v') \<Longrightarrow>
  \<exists>t s. Transition StateStarting t a = Inr s \<and> b = s\<lparr>Restarts := 0, NextRestart := None\<rparr>"
  by (auto simp: start_change_def now_def run_outside split: sum.splits)

lemma transition_now_Inr: "run_state (transition_now cfg to a) v = (Inr b, v') \<Longrightarrow> \<exists>t. Transition to t a = Inr b"
  by (auto simp: transition_now_def now_def run_outside)

context service_store
begin

text \<open>
  \<open>applied\<close>: the store held \<open>cur\<close> when the result \<open>s\<close> was written over it, the caller might act on \<open>cur\<close>, the
  precondition held of it, and \<open>s\<close> is the requested change of \<open>cur\<close> as admitted, under a new version.
\<close>

definition applied :: "Caller \<Rightarrow> string \<Rightarrow> string \<Rightarrow> (Sandbox \<Rightarrow> Sandbox \<Rightarrow> bool) \<Rightarrow> ('m, 'x) service \<Rightarrow> Sandbox \<Rightarrow> ('m, 'x) service \<Rightarrow> bool" where
  "applied c i ifMatch change w s w' \<longleftrightarrow> (\<exists>m cur sb1 nxt m2. step_later (mem w) m \<and> tbl m i = Some cur \<and> may c cur \<and>
    CheckIfMatch ifMatch (ResourceVersion cur) = None \<and> change cur sb1 \<and> admissible cfg sb1 nxt \<and>
    CheckImmutable cur nxt = None \<and> s = nxt\<lparr>ResourceVersion := ResourceVersion s\<rparr> \<and>
    tbl m2 = (tbl m)(i \<mapsto> s) \<and> step_later m2 (mem w'))"

lemma applied_mutate:
  assumes "run_state (mutate cfg ctx c i ifMatch action detail grace fn) w = (Inr s, w')" "\<And>s. keeps forward (fn s)" "calm w"
    "\<And>a b v v'. run_state (fn a) v = (Inr b, v') \<Longrightarrow> change a b" "\<And>a b. change a b \<Longrightarrow> ID b = ID a"
  shows "applied c i ifMatch change w s w'"
proof -
  have ids: "ID b = ID a" if "run_state (fn a) v = (Inr b, v')" for a b v v'
    using assms(4,5) that by blast
  obtain m cur v v' sb1 nxt m2 where "step_later (mem w) m \<and> tbl m i = Some cur \<and> may c cur \<and>
    CheckIfMatch ifMatch (ResourceVersion cur) = None \<and> run_state (fn cur) v = (Inr sb1, v') \<and> admissible cfg sb1 nxt \<and>
    CheckImmutable cur nxt = None \<and> s = nxt\<lparr>ResourceVersion := ResourceVersion s\<rparr> \<and>
    tbl m2 = (tbl m)(i \<mapsto> s) \<and> step_later m2 (mem w')"
    using mutate_applies [OF assms(1,2) _ assms(3)] ids by blast
  with assms(4) [of cur v sb1 v'] show ?thesis
    unfolding applied_def by blast
qed

lemma applied_later: "applied c i ifMatch change v s w' \<Longrightarrow> step_later (mem w) (mem v) \<Longrightarrow> applied c i ifMatch change w s w'"
  unfolding applied_def by (metis later_trans)

lemma applied_Update:
  assumes "run_state (Service_Update cfg ctx c i ifMatch p) w = (Inr s, w')" "calm w"
  shows "applied c i ifMatch (request_change (cfg_Settings cfg) (ReqUpdate i ifMatch p)) w s w'"
  by (rule applied_mutate [OF assms(1) [unfolded Service_Update_def Let_def] _ assms(2)])
     (use stamp_Inr patched_ID in \<open>fastforce simp: stamp_def intro!: service_forward\<close>)+

lemma applied_Start:
  assumes "run_state (Service_Start cfg ctx c i ifMatch) w = (Inr s, w')" "calm w"
  shows "applied c i ifMatch (request_change (cfg_Settings cfg) (ReqStart i ifMatch)) w s w'"
proof -
  obtain out v where mu: "run_state (mutate cfg ctx c i ifMatch ActionStart [] 0 (start_change cfg)) w = (out, v)"
    by (metis prod.exhaust)
  then have out: "out = Inr s" "mem w' = mem v"
    using assms(1)
    by (auto simp: Service_Start_def Kick_def State_Monad.update_def State_Monad.get_def State_Monad.set_def split: sum.splits)
  have "\<And>a. keeps forward (start_change cfg a)"
    unfolding start_change_def by (intro service_forward)
  from applied_mutate [OF mu [unfolded out(1)] this assms(2), of "request_change (cfg_Settings cfg) (ReqStart i ifMatch)"]
  have "applied c i ifMatch (request_change (cfg_Settings cfg) (ReqStart i ifMatch)) w s v"
    using start_change_Inr Transition_ID by fastforce
  then show ?thesis
    using out(2) by (simp add: applied_def)
qed

lemma forward_transition_now: "keeps forward (transition_now cfg to a)"
  unfolding transition_now_def by (intro service_forward)

lemma applied_transition:
  assumes "run_state (mutate cfg ctx c i ifMatch action detail grace (transition_now cfg to)) w = (Inr s, w')" "calm w"
  shows "applied c i ifMatch (\<lambda>a b. \<exists>t. Transition to t a = Inr b) w s w'"
  by (rule applied_mutate [OF assms(1) forward_transition_now assms(2)])
     (use transition_now_Inr Transition_ID in blast)+

lemma applied_Stop:
  assumes "run_state (Service_Stop cfg ctx c i ifMatch grace) w = (Inr s, w')" "calm w"
  shows "applied c i ifMatch (request_change (cfg_Settings cfg) (ReqStop i ifMatch grace)) w s w'"
proof -
  obtain out v where mu: "run_state (mutate cfg ctx c i ifMatch ActionStop [(''grace_seconds'', FormatInt (grace div Second))] grace
      (transition_now cfg StateStopping)) w = (out, v)"
    by (metis prod.exhaust)
  then have out: "out = Inr s" "mem w' = mem v"
    using assms(1)
    by (auto simp: Service_Stop_def Kick_def State_Monad.update_def State_Monad.get_def State_Monad.set_def
        split: sum.splits if_splits)
  from applied_transition [OF mu [unfolded out(1)] assms(2)] show ?thesis
    using out(2) by (simp add: applied_def)
qed

lemma applied_Delete:
  assumes "run_state (Service_Delete cfg ctx c i ifMatch) w = (Inr s, w')" "calm w"
  shows "applied c i ifMatch (request_change (cfg_Settings cfg) (ReqDelete i ifMatch)) w s w' \<or>
    (sb_State s = StateDeleting \<and> (\<exists>m. step_later (mem w) m \<and> tbl m i = Some s) \<and> step_later (mem w) (mem w'))"
proof -
  obtain got v where get: "run_state (Service_Get cfg c i) w = (got, v)" by (metis prod.exhaust)
  have fv: "forward w v"
    using keepsD [OF forward_Service_Get get] .
  then have v: "calm v" "step_later (mem w) (mem v)"
    using forward_calm assms(2) by blast+
  obtain cur where cur: "got = Inr cur"
    using assms(1) get by (cases got) (auto simp: Service_Delete_def)
  show ?thesis
  proof (cases "sb_State cur = StateDeleting")
    case True
    have "st_Get (cfg_Store cfg) i (others_step w) = Inr cur" "mem v = others_step w"
      using get cur by (auto simp: Service_Get_def call_def split: sum.splits if_splits)
    then have "tbl (mem v) i = Some cur"
      using Get_Inr others_step_good assms(2) unfolding calm_def by metis
    moreover have "s = cur" "mem w' = mem v"
      using assms(1) get cur True
      by (auto simp: Service_Delete_def Kick_def State_Monad.update_def State_Monad.get_def State_Monad.set_def
          split: option.splits)
    ultimately show ?thesis
      using True v by auto
  next
    case False
    obtain out u where mu: "run_state (mutate cfg ctx c i ifMatch ActionDelete [] 0 (transition_now cfg StateDeleting)) v = (out, u)"
      by (metis prod.exhaust)
    then have out: "out = Inr s" "mem w' = mem u"
      using assms(1) get cur False
      by (auto simp: Service_Delete_def Kick_def State_Monad.update_def State_Monad.get_def State_Monad.set_def
          split: sum.splits)
    from applied_later [OF applied_transition [OF mu [unfolded out(1)] v(1)] v(2)] show ?thesis
      using out(2) by (simp add: applied_def)
  qed
qed

end

text \<open>
  A request changes what is there now. When a request on a sandbox succeeds, beside any other
  writers, the store at the instant of the write held a sandbox the caller may act on and the
  precondition holds of; what was written is the requested change of that sandbox (a legal transition, or
  the patch), as the interceptor may have tightened it, with owner, driver and creation time unchanged and
  the generation not lowered. A delete of a sandbox already being deleted returns it as it is.
\<close>

theorem request_applies_to_current:
  assumes "memory_inv (mem w)" "\<forall>g \<in> set (others w). \<forall>m. memory_later m (g m)" "request_target req = Some i"
    "run_state (serve (memory_config base) ctx c req) w = (Inr s, w')"
  shows "(\<exists>m cur sb1 nxt m2. memory_later (mem w) m \<and> memory_tbl m i = Some cur \<and> may c cur \<and>
      CheckIfMatch (request_if_match req) (ResourceVersion cur) = None \<and>
      request_change (cfg_Settings base) req cur sb1 \<and> admissible (memory_config base) sb1 nxt \<and>
      CheckImmutable cur nxt = None \<and> s = nxt\<lparr>ResourceVersion := ResourceVersion s\<rparr> \<and>
      memory_tbl m2 = (memory_tbl m)(i \<mapsto> s) \<and> memory_later m2 (mem w')) \<or>
    (\<exists>h m. req = ReqDelete i h \<and> sb_State s = StateDeleting \<and> memory_later (mem w) m \<and> memory_tbl m i = Some s)"
proof -
  have calm: "memory.calm w"
    using assms(1,2) by (simp add: memory.calm_def memory.tame_def)
  have st: "cfg_Settings (memory_config base) = cfg_Settings base"
    by (simp add: memory_config_def)
  show ?thesis
  proof (cases req)
    case (ReqUpdate j h p)
    with assms(3,4) plane.applied_Update [OF _ calm, of base ctx c i h p s w'] show ?thesis
      by (simp add: plane.applied_def st)
  next
    case (ReqStart j h)
    with assms(3,4) plane.applied_Start [OF _ calm, of base ctx c i h s w'] show ?thesis
      by (simp add: plane.applied_def st)
  next
    case (ReqStop j h g)
    with assms(3,4) plane.applied_Stop [OF _ calm, of base ctx c i h g s w'] show ?thesis
      by (simp add: plane.applied_def st)
  next
    case (ReqDelete j h)
    with assms(3,4) plane.applied_Delete [OF _ calm, of base ctx c i h s w'] show ?thesis
      by (auto simp: plane.applied_def st)
  qed (use assms(3) in simp)
qed

theorem request_applies_to_current_witness:
  "\<exists>m cur sb1 t. memory_later sample_memory m \<and> memory_tbl m (ID sample_sandbox) = Some cur \<and> may sample_caller cur \<and>
     Transition StateStopping t cur = Inr sb1"
proof -
  have run: "run_state (serve (memory_config sample_config) sample_ctx sample_caller sample_stop) sample_plane =
      (Inr (sample_sandbox\<lparr>sb_State := StateStopping, ResourceVersion := 2, UpdatedAt := 7\<rparr>), snd sample_stopped)"
    using sample_stopped_state(2) unfolding sample_stopped_def by (metis prod.collapse)
  show ?thesis
    using request_applies_to_current [OF sample_plane_ok(1) _ _ run, of "ID sample_sandbox"] sample_plane_ok(2,3)
    by (auto simp: sample_stop_def)
qed

end
