(* ===== verification/Reconcile.thy ===== *)
theory Reconcile
  imports Requests
begin

text \<open>
  One pass of the reconciler over one sandbox (\<^verbatim>\<open>reconcile.go\<close>): \<open>reconcile\<close> with \<open>spec\<close>, \<open>guarded\<close>, \<open>note\<close>,
  \<open>settle\<close>, \<open>observe\<close>, \<open>watch\<close>, \<open>restart\<close> and \<open>remove\<close>. Which pass runs when is theory \<open>Scheduler\<close>.

  A driver call that times out is a driver call that fails. A status that comes with an error is never read,
  so a driver's answer is the one or the other. The time a restart timer is set for is kept in \<open>timers\<close>.
  The test hook \<open>probe\<close> and the log are left out.
\<close>

section \<open>Writing what a pass saw\<close>

abbreviation defaultGrace :: duration where
  "defaultGrace \<equiv> 10 * Second"

text \<open>\<open>c\<close> is the variable the closure \<open>fn\<close> captures; a pass that captures none has the unit.\<close>

definition unless_stale :: "Sandbox \<Rightarrow> (Sandbox \<Rightarrow> 'c \<Rightarrow> (gerror + Sandbox) \<times> 'c) \<Rightarrow> Sandbox \<Rightarrow> 'c \<Rightarrow> (gerror + Sandbox) \<times> 'c" where
  "unless_stale sb fn cur c =
     (if sb_State cur \<noteq> sb_State sb \<or> Generation cur \<noteq> Generation sb then (Inl (Sentinel errStale), c) else fn cur c)"

definition guarded :: "('m, 'x) Config \<Rightarrow> Sandbox \<Rightarrow> (Sandbox \<Rightarrow> 'c \<Rightarrow> (gerror + Sandbox) \<times> 'c) \<Rightarrow> 'c
    \<Rightarrow> (('m, 'x) service, (gerror + Sandbox) \<times> 'c) state" where
  "guarded cfg sb fn c = do {
     r \<leftarrow> Mutate (cfg_Store cfg) (ID sb) '''' (\<lambda>cur c. ret (unless_stale sb fn cur c)) c;
     ret (case fst r of
         Inl e \<Rightarrow> if errors_Is e errStale \<or> errors_Is e errUnchanged \<or> errors_Is e ErrNotFound then Inr sb else Inl e
       | Inr out \<Rightarrow> Inr out, snd r)
   }"

definition pure_change :: "(Sandbox \<Rightarrow> gerror + Sandbox) \<Rightarrow> Sandbox \<Rightarrow> unit \<Rightarrow> (gerror + Sandbox) \<times> unit" where
  "pure_change f cur c = (f cur, ())"

definition Service_note :: "('m, 'x) Config \<Rightarrow> Sandbox \<Rightarrow> State \<Rightarrow> string \<Rightarrow> (('m, 'x) service, unit) state" where
  "Service_note cfg sb from rsn =
     (if sb_State sb = from then ret ()
      else do {
        _ \<leftarrow> record_event cfg (mk_event SystemPrincipal ''reconcile'' (ID sb) (Generation sb) OutcomeOK
          [(''from'', state_text from), (''to'', state_text (sb_State sb)), (''reason'', rsn)]);
        ret ()
      })"

definition spec :: "('m, 'x) Config \<Rightarrow> Sandbox \<Rightarrow> (('m, 'x) service, gerror + Spec) state" where
  "spec cfg sb = do {
     ws \<leftarrow> outside (Workspace cfg (ID sb));
     (case ws of
        Inl e \<Rightarrow> ret (Inl (Errorf [Sentinel DriverUnavailable, e] ''the sandbox's workspace''))
      | Inr dir \<Rightarrow>
          (let vals = For (cfg_Settings cfg) (sb_Settings sb);
               sp = \<lparr>spec_ID = ID sb, spec_Generation = Generation sb, spec_Template = Template sb, spec_PolicyRev = PolicyRev sb,
                 spec_Workspace = dir, spec_WriteProtected = WriteProtected cfg, spec_Egress = None,
                 spec_MinTier = (if get_str vals SetMinTier = ''none'' then '''' else get_str vals SetMinTier),
                 spec_Labels = sb_Labels sb, spec_Config = resourceConfig vals\<rparr>
           in case cfg_Egress cfg of
                None \<Rightarrow> ret (Inr sp)
              | Some eg \<Rightarrow>
                  if \<not> eg_For eg (sb_Driver sb) then ret (Inr sp)
                  else do {
                    opened \<leftarrow> outside (eg_Open eg (ID sb));
                    ret (case opened of
                        Inl e \<Rightarrow> Inl (Errorf [Sentinel DriverUnavailable, e] ''the sandbox's egress proxy'')
                      | Inr proxy \<Rightarrow> Inr (sp\<lparr>spec_Egress := Some proxy\<rparr>))
                  }))
   }"

definition verifiedTier :: "Status \<Rightarrow> time \<Rightarrow> Sandbox \<Rightarrow> gerror + Sandbox" where
  "verifiedTier st t cur = SetCondition (mk_condition CondIsolationVerified ConditionTrue ''TierMeetsPolicy''
     (''tier '' @ status_Tier st @ (if status_Caveat st \<noteq> '''' then '' ('' @ status_Caveat st @ '')'' else ''''))) t
     (cur\<lparr>sb_Tier := status_Tier st\<rparr>)"

section \<open>Settling and observing\<close>

text \<open>The closure of \<open>settle\<close>: the new object, and the reason it leaves in the captured variable.\<close>

definition settle_change :: "(gerror + Status) \<Rightarrow> bool \<Rightarrow> time \<Rightarrow> Sandbox \<Rightarrow> string \<Rightarrow> (gerror + Sandbox) \<times> string" where
  "settle_change res weak t cur rsn = (case res of
       Inl e \<Rightarrow>
         (case Transition StateError t cur of
            Inl te \<Rightarrow> Inl te
          | Inr s \<Rightarrow> SetCondition (mk_condition CondDriverReady ConditionFalse (Code e) (Error e)) t s, Code e)
     | Inr st \<Rightarrow>
         if weak
         then (case Transition StateError t (cur\<lparr>sb_Tier := status_Tier st\<rparr>) of
                 Inl te \<Rightarrow> Inl te
               | Inr s \<Rightarrow> SetCondition (mk_condition CondIsolationVerified ConditionFalse ''WeakerThanRequired''
                   ''weaker than the required'') t s, ''WeakerThanRequired'')
         else (case Transition StateReady t cur of
                 Inl te \<Rightarrow> Inl te
               | Inr s \<Rightarrow> (case SetCondition (mk_condition CondDriverReady ConditionTrue rsn '''') t s of
                     Inl e \<Rightarrow> Inl e
                   | Inr s1 \<Rightarrow> verifiedTier st t s1), rsn))"

definition settled_status :: "(gerror + Status) \<Rightarrow> gerror + Status" where
  "settled_status res = (case res of
       Inl e \<Rightarrow> Inl e
     | Inr st \<Rightarrow> if status_Phase st \<noteq> PhaseRunning
         then Inl (DriverError DriverUnavailable (''the driver reports the instance '' @ phase_text (status_Phase st) @ '', not running''))
         else Inr st)"

definition too_weak :: "('m, 'x) Config \<Rightarrow> Sandbox \<Rightarrow> (gerror + Status) \<Rightarrow> bool" where
  "too_weak cfg sb res = (case res of
       Inl e \<Rightarrow> False
     | Inr st \<Rightarrow> \<not> TierMeets (status_Tier st) (get_str (For (cfg_Settings cfg) (sb_Settings sb)) SetMinTier))"

definition settle :: "('m, 'x) Config \<Rightarrow> Sandbox \<Rightarrow> gerror + Status \<Rightarrow> (('m, 'x) service, gerror option) state" where
  "settle cfg sb res0 = do {
     t \<leftarrow> now cfg;
     let res = settled_status res0;
     (if too_weak cfg sb res
      then (case Registry_Get (sb_Driver sb) (cfg_Drivers cfg) of
              Inl e \<Rightarrow> ret ()
            | Inr d \<Rightarrow> do { _ \<leftarrow> outside (dr_Stop d (ID sb) 0); ret () })
      else ret ());
     r \<leftarrow> guarded cfg sb (settle_change res (too_weak cfg sb res) t) ''Started'';
     (case fst r of
        Inl e \<Rightarrow> ret (Some e)
      | Inr out \<Rightarrow> do {
          Service_note cfg out (sb_State sb) (snd r);
          (if sb_State out = StateError then Kick (ID sb) else ret ());
          ret None
        })
   }"

definition observe_change :: "State \<Rightarrow> ConditionStatus \<Rightarrow> string \<Rightarrow> string \<Rightarrow> time \<Rightarrow> Sandbox \<Rightarrow> gerror + Sandbox" where
  "observe_change to status rsn msg t cur =
     (case (if sb_State cur \<noteq> to then Transition to t cur else Inr cur) of
        Inl e \<Rightarrow> Inl e
      | Inr s \<Rightarrow> SetCondition (mk_condition CondDriverReady status rsn msg) t s)"

definition observe :: "('m, 'x) Config \<Rightarrow> Sandbox \<Rightarrow> State \<Rightarrow> ConditionStatus \<Rightarrow> string \<Rightarrow> string
    \<Rightarrow> (('m, 'x) service, gerror option) state" where
  "observe cfg sb to status rsn msg = do {
     t \<leftarrow> now cfg;
     r \<leftarrow> guarded cfg sb (pure_change (observe_change to status rsn msg t)) ();
     (case fst r of
        Inl e \<Rightarrow> ret (Some e)
      | Inr out \<Rightarrow> do {
          Service_note cfg out (sb_State sb) rsn;
          (if sb_State out = StateError then Kick (ID sb) else ret ());
          ret None
        })
   }"

definition watch_change :: "Status \<Rightarrow> time \<Rightarrow> Sandbox \<Rightarrow> gerror + Sandbox" where
  "watch_change st t cur =
     (let needs = (case Sandbox_Condition cur CondDriverReady of Some c \<Rightarrow> cond_Status c \<noteq> ConditionTrue | None \<Rightarrow> True)
      in case (if needs then SetCondition (mk_condition CondDriverReady ConditionTrue ''Running'' '''') t cur else Inr cur) of
           Inl e \<Rightarrow> Inl e
         | Inr s1 \<Rightarrow>
             (case (if sb_Tier s1 \<noteq> status_Tier st then verifiedTier st t s1 else Inr s1) of
                Inl e \<Rightarrow> Inl e
              | Inr s2 \<Rightarrow>
                  (let stable = (Restarts s2 > 0 \<and> (case Sandbox_Condition s2 CondDriverReady of
                            Some c \<Rightarrow> cond_Status c = ConditionTrue \<and> t - LastTransition c \<ge> StableAfter | None \<Rightarrow> False));
                       s3 = (if stable then s2\<lparr>Restarts := 0\<rparr> else s2)
                   in if \<not> (needs \<or> sb_Tier s1 \<noteq> status_Tier st \<or> stable) then Inl (Sentinel errUnchanged)
                      else Inr (s3\<lparr>UpdatedAt := t\<rparr>))))"

definition watch :: "('m, 'x) Config \<Rightarrow> Sandbox \<Rightarrow> gerror + Status \<Rightarrow> (('m, 'x) service, gerror option) state" where
  "watch cfg sb res = (case res of
       Inl e \<Rightarrow>
         if errors_Is e DriverNotFound then observe cfg sb StateError ConditionFalse ''InstanceLost'' (Error e)
         else if (case Sandbox_Condition sb CondDriverReady of Some c \<Rightarrow> cond_Status c = ConditionUnknown | None \<Rightarrow> False)
         then ret (Some e)
         else do {
           oerr \<leftarrow> observe cfg sb StateReady ConditionUnknown ''StatusFailed'' (Error e);
           ret (case oerr of Some o1 \<Rightarrow> Some o1 | None \<Rightarrow> Some e)
         }
     | Inr st \<Rightarrow>
         if status_Phase st = PhaseExited then observe cfg sb StateCompleted ConditionFalse ''Exited'' (status_Message st)
         else if status_Phase st = PhaseFailed then observe cfg sb StateError ConditionFalse ''Failed'' (status_Message st)
         else if status_Phase st \<noteq> PhaseRunning
         then observe cfg sb StateError ConditionFalse ''StoppedOutsideControlPlane''
           (''the driver reports the instance '' @ phase_text (status_Phase st))
         else if \<not> TierMeets (status_Tier st) (get_str (For (cfg_Settings cfg) (sb_Settings sb)) SetMinTier)
         then settle cfg sb (Inr st)
         else do {
           t \<leftarrow> now cfg;
           r \<leftarrow> guarded cfg sb (pure_change (watch_change st t)) ();
           ret (err_of (fst r))
         })"

section \<open>Restarting and removing\<close>

definition limit_change :: "strmap \<Rightarrow> time \<Rightarrow> Sandbox \<Rightarrow> gerror + Sandbox" where
  "limit_change vals t cur =
     (if (case Sandbox_Condition cur CondRestartScheduled of
            Some c \<Rightarrow> cond_Status c = ConditionFalse \<and> cond_Reason c = ''LimitReached'' \<and> NextRestart cur = None | None \<Rightarrow> False)
      then Inl (Sentinel errUnchanged)
      else SetCondition (mk_condition CondRestartScheduled ConditionFalse ''LimitReached''
        (''restarted '' @ FormatInt (Restarts cur) @ '' times; restart.max_restarts is '' @ FormatInt (Values_Int vals SetMaxRestarts))) t
        (cur\<lparr>NextRestart := None\<rparr>))"

definition restart_change :: "time \<Rightarrow> Sandbox \<Rightarrow> gerror + Sandbox" where
  "restart_change t cur = (case Transition StateStarting t cur of
       Inl e \<Rightarrow> Inl e
     | Inr s \<Rightarrow> SetCondition (mk_condition CondRestartScheduled ConditionFalse ''Restarted'' '''') t
         (s\<lparr>Restarts := Restarts s + 1, NextRestart := None\<rparr>))"

text \<open>\<open>restart\<close> from where it has read the clock.\<close>

definition restart_at :: "('m, 'x) Config \<Rightarrow> Sandbox \<Rightarrow> time \<Rightarrow> (('m, 'x) service, gerror option) state" where
  "restart_at cfg sb t = (let vals = For (cfg_Settings cfg) (sb_Settings sb) in
     if \<not> RestartDue (get_str vals SetRestartPolicy) (sb_State sb)
     then if NextRestart sb = None then ret None
          else do {
            r \<leftarrow> guarded cfg sb (pure_change (\<lambda>cur. Inr (cur\<lparr>NextRestart := None\<rparr>))) ();
            ret (err_of (fst r))
          }
     else if Restarts sb \<ge> Values_Int vals SetMaxRestarts
     then do {
       r \<leftarrow> guarded cfg sb (pure_change (limit_change vals t)) ();
       ret (err_of (fst r))
     }
     else (case NextRestart sb of
         None \<Rightarrow>
           (let at = t + Backoff (Values_Seconds vals SetRestartBackoff) (Restarts sb) in do {
              r \<leftarrow> guarded cfg sb (pure_change (\<lambda>cur. SetCondition (mk_condition CondRestartScheduled ConditionTrue ''Backoff''
                ''restarting at'') t (cur\<lparr>NextRestart := Some at\<rparr>))) ();
              (if err_of (fst r) = None then State_Monad.update (\<lambda>w. w\<lparr>timers := timers w @ [(at, ID sb)]\<rparr>) else ret ());
              ret (err_of (fst r))
            })
       | Some at \<Rightarrow>
           if t < at then ret None
           else (let ev = mk_event SystemPrincipal ''restart'' (ID sb) (Generation sb) ''''
                   [(''policy'', get_str vals SetRestartPolicy), (''restarts'', FormatInt (Restarts sb + 1)),
                    (''from'', state_text (sb_State sb))]
                 in recorded cfg ev Some (do {
                      r \<leftarrow> guarded cfg sb (pure_change (restart_change t)) ();
                      outcome cfg (ev\<lparr>ev_Generation := (case fst r of Inr out \<Rightarrow> Generation out | Inl e \<Rightarrow> 0)\<rparr>) (err_of (fst r));
                      (case fst r of
                         Inr out \<Rightarrow> if sb_State out = StateStarting then Kick (ID sb) else ret ()
                       | Inl e \<Rightarrow> ret ());
                      ret (err_of (fst r))
                    }))))"

definition restart :: "('m, 'x) Config \<Rightarrow> Sandbox \<Rightarrow> (('m, 'x) service, gerror option) state" where
  "restart cfg sb = do { t \<leftarrow> now cfg; restart_at cfg sb t }"

text \<open>The teardown of \<open>remove\<close>: the instance, then the workspace, then the egress proxy, up to the first error.\<close>

definition release_held :: "('m, 'x) Config \<Rightarrow> Sandbox \<Rightarrow> (('m, 'x) service, gerror option) state" where
  "release_held cfg sb = do {
     err \<leftarrow> (case ReleaseWorkspace cfg of Some rel \<Rightarrow> outside (rel (ID sb)) | None \<Rightarrow> ret None);
     (case err of
        Some e \<Rightarrow> ret (Some e)
      | None \<Rightarrow> (case cfg_Egress cfg of
            Some eg \<Rightarrow> if eg_For eg (sb_Driver sb) then outside (eg_Close eg (ID sb)) else ret None
          | None \<Rightarrow> ret None))
   }"

definition teardown :: "('m, 'x) Config \<Rightarrow> Sandbox \<Rightarrow> gerror + 'x Driver \<Rightarrow> (('m, 'x) service, gerror option) state" where
  "teardown cfg sb d = (case d of
       Inl derr \<Rightarrow> ret (Some derr)
     | Inr drv \<Rightarrow> do {
         r \<leftarrow> outside (dr_Delete drv (ID sb));
         (case r of
            Some e \<Rightarrow> if errors_Is e DriverNotFound then release_held cfg sb else ret (Some e)
          | None \<Rightarrow> release_held cfg sb)
       })"

definition delete_failed_change :: "gerror \<Rightarrow> time \<Rightarrow> Sandbox \<Rightarrow> gerror + Sandbox" where
  "delete_failed_change e t cur =
     (if (case Sandbox_Condition cur CondDeleteFailed of
            Some c \<Rightarrow> cond_Status c = ConditionTrue \<and> cond_Message c = Error e | None \<Rightarrow> False)
      then Inl (Sentinel errUnchanged)
      else SetCondition (mk_condition CondDeleteFailed ConditionTrue (Code e) (Error e)) t cur)"

definition delete_failed :: "('m, 'x) Config \<Rightarrow> Sandbox \<Rightarrow> gerror \<Rightarrow> (('m, 'x) service, gerror option) state" where
  "delete_failed cfg sb e = do {
     t \<leftarrow> now cfg;
     r \<leftarrow> guarded cfg sb (pure_change (delete_failed_change e t)) ();
     ret (case fst r of Inl werr \<Rightarrow> Some werr | Inr out \<Rightarrow> Some e)
   }"

definition delete_object :: "('m, 'x) Config \<Rightarrow> Sandbox \<Rightarrow> (('m, 'x) service, gerror option) state" where
  "delete_object cfg sb = do {
     gone \<leftarrow> call (st_Delete (cfg_Store cfg) (ID sb) (ResourceVersion sb));
     (case gone of
        Some e \<Rightarrow>
          if errors_Is e ErrNotFound then ret None
          else if errors_Is e ErrVersionMismatch then do { Kick (ID sb); ret None }
          else ret (Some e)
      | None \<Rightarrow> do {
          _ \<leftarrow> record_event cfg (mk_event SystemPrincipal ''reconcile'' (ID sb) (Generation sb) OutcomeOK
            [(''from'', state_text StateDeleting), (''to'', ''removed'')]);
          ret None
        })
   }"

definition remove :: "('m, 'x) Config \<Rightarrow> Sandbox \<Rightarrow> gerror + 'x Driver \<Rightarrow> (('m, 'x) service, gerror option) state" where
  "remove cfg sb d = do {
     err \<leftarrow> teardown cfg sb d;
     (case err of Some e \<Rightarrow> delete_failed cfg sb e | None \<Rightarrow> delete_object cfg sb)
   }"

section \<open>A pass\<close>

text \<open>Building or starting the instance of a sandbox that is \<open>Provisioning\<close> or \<open>Starting\<close>.\<close>

definition bring_up :: "'x Driver \<Rightarrow> string \<Rightarrow> Sandbox \<Rightarrow> Spec \<Rightarrow> (('m, 'x) service, gerror + Status) state" where
  "bring_up d i sb sp =
     (if sb_State sb = StateProvisioning
      then do {
        made \<leftarrow> outside (dr_Create d sp);
        (case made of
           Inr st \<Rightarrow> ret made
         | Inl e \<Rightarrow>
             if \<not> errors_Is e DriverExists then ret made
             else do {
               found \<leftarrow> outside (dr_Status d i);
               (case found of
                  Inr st \<Rightarrow> if status_Phase st \<noteq> PhaseRunning then outside (dr_Start d i) else ret found
                | Inl e \<Rightarrow> ret found)
             })
      }
      else do {
        started \<leftarrow> outside (dr_Start d i);
        (case started of
           Inr st \<Rightarrow> ret started
         | Inl e \<Rightarrow> if errors_Is e DriverNotFound then outside (dr_Create d sp) else ret started)
      })"

definition take_grace :: "string \<Rightarrow> (('m, 'x) service, duration) state" where
  "take_grace i = do {
     w \<leftarrow> State_Monad.get;
     State_Monad.set (w\<lparr>graces := AList.delete i (graces w)\<rparr>);
     ret (case map_of (graces w) i of Some g \<Rightarrow> g | None \<Rightarrow> defaultGrace)
   }"

definition reconcile_start :: "('m, 'x) Config \<Rightarrow> string \<Rightarrow> Sandbox \<Rightarrow> gerror + 'x Driver \<Rightarrow> (('m, 'x) service, gerror option) state" where
  "reconcile_start cfg i sb d = (case d of
       Inl derr \<Rightarrow> settle cfg sb (Inl (Errorf [Sentinel DriverUnavailable] ''driver is not registered''))
     | Inr drv \<Rightarrow> do {
         made \<leftarrow> spec cfg sb;
         (case made of
            Inl e \<Rightarrow> settle cfg sb (Inl e)
          | Inr sp \<Rightarrow> do { r \<leftarrow> bring_up drv i sb sp; settle cfg sb r })
       })"

definition reconcile_found :: "('m, 'x) Config \<Rightarrow> string \<Rightarrow> Sandbox \<Rightarrow> (('m, 'x) service, gerror option) state" where
  "reconcile_found cfg i sb = (let d = Registry_Get (sb_Driver sb) (cfg_Drivers cfg) in
     case sb_State sb of
       StateProvisioning \<Rightarrow> reconcile_start cfg i sb d
     | StateStarting \<Rightarrow> reconcile_start cfg i sb d
     | StateStopping \<Rightarrow>
         (case d of
            Inl derr \<Rightarrow> observe cfg sb StateError ConditionFalse ''DriverMissing'' (Error derr)
          | Inr drv \<Rightarrow> do {
              grace \<leftarrow> take_grace i;
              r \<leftarrow> outside (dr_Stop drv i grace);
              (case r of
                 Inl e \<Rightarrow>
                   if \<not> errors_Is e DriverNotFound then observe cfg sb StateError ConditionFalse (Code e) (Error e)
                   else observe cfg sb StateStopped ConditionFalse ''Stopped'' ''''
               | Inr st \<Rightarrow> observe cfg sb StateStopped ConditionFalse ''Stopped'' '''')
            })
     | StateDeleting \<Rightarrow> remove cfg sb d
     | StateReady \<Rightarrow>
         (case d of
            Inl derr \<Rightarrow> observe cfg sb StateError ConditionFalse ''DriverMissing'' (Error derr)
          | Inr drv \<Rightarrow> do { r \<leftarrow> outside (dr_Status drv i); watch cfg sb r })
     | StateError \<Rightarrow> restart cfg sb
     | StateCompleted \<Rightarrow> restart cfg sb
     | _ \<Rightarrow> ret None)"

definition reconcile :: "('m, 'x) Config \<Rightarrow> string \<Rightarrow> (('m, 'x) service, gerror option) state" where
  "reconcile cfg i = do {
     got \<leftarrow> call (\<lambda>m. (st_Get (cfg_Store cfg) i m, m));
     (case got of
        Inl e \<Rightarrow> ret (if errors_Is e ErrNotFound then None else Some e)
      | Inr sb \<Rightarrow> (case cfg_Ownership cfg of
            None \<Rightarrow> reconcile_found cfg i sb
          | Some owns \<Rightarrow> do {
              mine \<leftarrow> outside (owns i);
              (case mine of
                 Inl e \<Rightarrow> ret (Some e)
               | Inr own \<Rightarrow> if own then reconcile_found cfg i sb else ret None)
            }))
   }"

end
