(* ===== verification/Passes.thy ===== *)
theory Passes
  imports Reconcile
begin

text \<open>
  What a pass of the reconciler does. Beside other writers it only moves the store forward and never
  overwrites a sandbox that moved on (\<open>guarded\<close>); alone it leaves every other sandbox as it is and changes its
  own only as \<open>pass_ok\<close> says: by a legal transition, to \<open>Ready\<close> only on a running instance of the required
  tier, to \<open>Starting\<close> only within the restart policy, and away only after everything it held is torn down.
\<close>

section \<open>Store calls alone\<close>

context sandbox_store
begin

text \<open>A turn of \<open>Mutate\<close> that runs alone and writes: it read, changed and replaced the same sandbox.\<close>

definition wrote_alone :: "string \<Rightarrow> (Sandbox \<Rightarrow> 'c \<Rightarrow> (gerror + Sandbox) \<times> 'c) \<Rightarrow> ('m, 'x, 'z) world_scheme \<Rightarrow> Sandbox \<Rightarrow> 'c
    \<Rightarrow> ('m, 'x, 'z) world_scheme \<Rightarrow> bool" where
  "wrote_alone i f w s c' w' \<longleftrightarrow> (\<exists>cur c1 nxt. tbl (mem w) i = Some cur \<and> f cur c1 = (Inr nxt, c') \<and>
     s = nxt\<lparr>ResourceVersion := ResourceVersion s\<rparr> \<and> tbl (mem w') = (tbl (mem w))(i \<mapsto> s) \<and> others w' = [] \<and> good (mem w'))"

lemma mutate_loop_alone:
  assumes ids: "\<And>s c t c'. f s c = (Inr t, c') \<Longrightarrow> ID t = ID s"
    and "run_state (mutate_loop st i ifMatch (\<lambda>s c. ret (f s c)) c k) w = ((Inr s, c'), w')" "others w = []" "good (mem w)"
  shows "wrote_alone i f w s c' w'"
  using assms(2-)
proof (induction k arbitrary: w c rule: less_induct)
  case (less k)
  from less.prems(1) show ?case
  proof (cases rule: mutate_loop_Inr)
    case (wrote w1 cur w2 nxt)
    have w: "w1 = w" "tbl (mem w) i = Some cur" "w2 = w" "f cur c = (Inr nxt, c')"
      using wrote(1,3) less.prems(2,3) Get_Inr [of "mem w" i cur] by (auto simp: run_call_alone)
    have "st_Update st nxt (ResourceVersion cur) (mem w) = (Inr s, mem w')" "others w' = []"
      using wrote(4) less.prems(2) w(3) by (auto simp: run_call_alone prod_eq_iff)
    moreover have "ID nxt = i"
      using ids [OF w(4)] known_versions [OF less.prems(3) w(2)] by simp
    ultimately have "s = nxt\<lparr>ResourceVersion := ResourceVersion s\<rparr>" "tbl (mem w') = (tbl (mem w))(i \<mapsto> s)" "others w' = []" "good (mem w')"
      using Update_Inr [OF less.prems(3), of nxt "ResourceVersion cur" s "mem w'"] by auto
    with w show ?thesis
      unfolding wrote_alone_def by blast
  next
    case (lost w1 cur w2 c2 nxt e w3 n)
    have w: "w2 = w"
      using lost(1,3) less.prems(2) by (auto simp: run_call_alone)
    have "st_Update st nxt (ResourceVersion cur) (mem w) = (Inl e, mem w3)" "others w3 = []"
      using lost(4) less.prems(2) w by (auto simp: run_call_alone prod_eq_iff)
    with Update_Inl [OF less.prems(3)] have w3: "tbl (mem w3) = tbl (mem w)" "good (mem w3)" "others w3 = []"
      by blast+
    from less.IH [OF _ lost(6) w3(3,2)] lost(5) w3(1) show ?thesis
      unfolding wrote_alone_def by simp
  qed
qed

end

section \<open>A pass only moves the store forward\<close>

context service_store
begin

lemma forward_guarded: "keeps forward (guarded cfg sb fn c)"
  unfolding guarded_def by (intro service_forward forward_Mutate)

lemma forward_update_marks: "(\<And>w. mem (f w) = mem w) \<Longrightarrow> (\<And>w. others (f w) = others w) \<Longrightarrow> keeps forward (State_Monad.update f)"
  by (rule keeps_update) (simp add: forward_same)

lemma forward_note: "keeps forward (Service_note cfg sb from rsn)"
  unfolding Service_note_def by (intro service_forward service_steps)

lemma forward_settle: "keeps forward (settle cfg sb res)"
  unfolding settle_def by (intro service_forward service_steps forward_guarded forward_note)

lemma forward_observe: "keeps forward (observe cfg sb to status rsn msg)"
  unfolding observe_def by (intro service_forward service_steps forward_guarded forward_note)

lemma forward_watch: "keeps forward (watch cfg sb res)"
  unfolding watch_def by (intro service_forward service_steps forward_guarded forward_settle forward_observe)

lemma forward_restart: "keeps forward (restart cfg sb)"
  unfolding restart_def restart_at_def Let_def by (intro service_forward service_steps forward_guarded forward_update_marks) simp_all

lemma forward_teardown: "keeps forward (teardown cfg sb d)"
  unfolding teardown_def release_held_def by (intro service_forward)

lemma forward_remove: "keeps forward (remove cfg sb d)"
  unfolding remove_def delete_failed_def delete_object_def by (intro service_forward service_steps forward_guarded forward_teardown forward_Delete)

lemma forward_set_marks: "keeps forward (take_grace i)"
  by (rule keepsI) (auto simp: take_grace_def State_Monad.get_def State_Monad.set_def intro: forward_same)

lemma forward_bring_up: "keeps forward (bring_up d i sb sp)"
  unfolding bring_up_def by (intro service_forward)

lemma forward_spec: "keeps forward (spec cfg sb)"
  unfolding spec_def by (intro service_forward)

lemma forward_reconcile_found: "keeps forward (reconcile_found cfg i sb)"
  unfolding reconcile_found_def reconcile_start_def Let_def
  by (cases "sb_State sb"; simp)
     (intro service_forward forward_settle forward_observe forward_watch forward_restart forward_remove forward_bring_up forward_spec
       forward_set_marks)+

lemma forward_reconcile: "keeps forward (reconcile cfg i)"
  unfolding reconcile_def by (intro service_forward forward_reconcile_found)

end

section \<open>A pass alone\<close>

text \<open>
  What a pass may change: the state, along the transition table, and with it the generation when
  the sandbox starts again; the observed tier, the conditions and the restart bookkeeping. Whose the
  sandbox is and what was asked for it stay.
\<close>

definition pass_frame :: "Sandbox \<Rightarrow> Sandbox \<Rightarrow> bool" where
  "pass_frame a b \<longleftrightarrow> ID b = ID a \<and> Owner b = Owner a \<and> Template b = Template a \<and> PolicyRev b = PolicyRev a \<and>
     sb_Driver b = sb_Driver a \<and> sb_Labels b = sb_Labels a \<and> sb_Settings b = sb_Settings a \<and> CreatedAt b = CreatedAt a \<and>
     (sb_State b = sb_State a \<or> CanTransition (sb_State a) (sb_State b)) \<and>
     Generation b = Generation a + (if sb_State b = StateStarting \<and> sb_State a \<noteq> StateStarting then 1 else 0)"

lemma pass_frame_refl: "pass_frame a a"
  by (simp add: pass_frame_def)

lemma pass_frame_ID: "pass_frame a b \<Longrightarrow> ID b = ID a"
  by (simp add: pass_frame_def)

lemma pass_frame_version: "pass_frame a (b\<lparr>ResourceVersion := v\<rparr>) \<longleftrightarrow> pass_frame a b"
  by (simp add: pass_frame_def)

lemma SetCondition_fields:
  assumes "SetCondition c t s = Inr s'"
  shows "sb_State s' = sb_State s" "sb_Tier s' = sb_Tier s" "Restarts s' = Restarts s" "NextRestart s' = NextRestart s"
    "Generation s' = Generation s"
  by (rule SetCondition_Inr [OF assms], simp)+

lemma pass_frame_SetCondition:
  assumes "SetCondition c t s = Inr s'" "pass_frame a s"
  shows "pass_frame a s'"
  using assms(2) by (subst SetCondition_frame [OF assms(1)]) (simp add: pass_frame_def)

lemma pass_frame_Transition:
  assumes "Transition to t (a\<lparr>sb_Tier := tier\<rparr>) = Inr s"
  shows "pass_frame a s"
  using assms by (auto simp: Transition_Inr pass_frame_def CanTransition_def split: if_splits)

lemma pass_frame_Transition': "Transition to t a = Inr s \<Longrightarrow> pass_frame a s"
  using pass_frame_Transition [where tier = "sb_Tier a" and a = a] by simp

lemma pass_frame_updates [simp]:
  "pass_frame a (s\<lparr>sb_Tier := x\<rparr>) \<longleftrightarrow> pass_frame a s" "pass_frame a (s\<lparr>Restarts := n\<rparr>) \<longleftrightarrow> pass_frame a s"
  "pass_frame a (s\<lparr>NextRestart := r\<rparr>) \<longleftrightarrow> pass_frame a s" "pass_frame a (s\<lparr>UpdatedAt := t\<rparr>) \<longleftrightarrow> pass_frame a s"
  by (simp_all add: pass_frame_def)

lemma pass_frame_verifiedTier: "verifiedTier st t s = Inr s' \<Longrightarrow> pass_frame a s \<Longrightarrow> pass_frame a s'"
  unfolding verifiedTier_def by (erule pass_frame_SetCondition) simp

lemma pass_frame_settle: "settle_change res weak t a rsn = (Inr s, rsn') \<Longrightarrow> pass_frame a s"
  by (auto simp: settle_change_def split: sum.splits if_splits
      intro: pass_frame_SetCondition pass_frame_verifiedTier dest: pass_frame_Transition pass_frame_Transition')

lemma pass_frame_observe: "observe_change to status rsn msg t a = Inr s \<Longrightarrow> pass_frame a s"
  by (auto simp: observe_change_def split: sum.splits if_splits
      intro: pass_frame_SetCondition pass_frame_refl dest: pass_frame_Transition')

lemma pass_frame_watch:
  assumes "watch_change st t a = Inr s"
  shows "pass_frame a s"
proof -
  let ?needs = "case Sandbox_Condition a CondDriverReady of Some c \<Rightarrow> cond_Status c \<noteq> ConditionTrue | None \<Rightarrow> True"
  obtain s1 where s1: "(if ?needs then SetCondition (mk_condition CondDriverReady ConditionTrue ''Running'' '''') t a else Inr a) = Inr s1"
    using assms by (auto simp: watch_change_def Let_def split: sum.splits if_splits)
  then have f1: "pass_frame a s1"
    using pass_frame_SetCondition [OF _ pass_frame_refl] pass_frame_refl by (metis Inr_inject)
  obtain s2 where s2: "(if sb_Tier s1 \<noteq> status_Tier st then verifiedTier st t s1 else Inr s1) = Inr s2"
    using assms s1 by (auto simp: watch_change_def Let_def split: sum.splits if_splits)
  then have "pass_frame a s2"
    using f1 pass_frame_verifiedTier by (metis Inr_inject)
  then show ?thesis
    using assms s1 s2 unfolding watch_change_def Let_def by (auto split: if_splits)
qed

lemma pass_frame_restart: "restart_change t a = Inr s \<Longrightarrow> pass_frame a s"
  unfolding restart_change_def
  by (auto split: sum.splits elim!: pass_frame_SetCondition dest: pass_frame_Transition')

lemma pass_frame_limit: "limit_change vals t a = Inr s \<Longrightarrow> pass_frame a s"
  unfolding limit_change_def
  by (auto split: if_splits option.splits elim!: pass_frame_SetCondition simp: pass_frame_refl)

lemma pass_frame_delete_failed: "delete_failed_change e t a = Inr s \<Longrightarrow> pass_frame a s"
  by (auto simp: delete_failed_change_def split: if_splits option.splits intro: pass_frame_SetCondition pass_frame_refl)

context service_store
begin

text \<open>
  \<open>passed sb P\<close>: of a store that held \<open>sb\<close>, every other sandbox stays, and \<open>sb\<close> stays or becomes something \<open>P\<close>
  allows, \<^const>\<open>None\<close> when it is removed.
\<close>

definition passed :: "Sandbox \<Rightarrow> (Sandbox option \<Rightarrow> bool) \<Rightarrow> ('m, 'x) service \<Rightarrow> ('m, 'x) service \<Rightarrow> bool" where
  "passed sb P w w' \<longleftrightarrow> (others w = [] \<and> good (mem w) \<and> tbl (mem w) (ID sb) = Some sb \<longrightarrow>
     others w' = [] \<and> good (mem w') \<and>
     (tbl (mem w') = tbl (mem w) \<or> (\<exists>r. P r \<and> tbl (mem w') = (tbl (mem w))(ID sb := r))))"

lemma still_passed: "still w w' \<Longrightarrow> passed sb P w w'"
  by (auto simp: acted_def passed_def)

lemma keeps_still_passed: "keeps still m \<Longrightarrow> keeps (passed sb P) m"
  by (erule keeps_mono) (rule still_passed)

lemma passed_still_left: "still u v \<Longrightarrow> passed sb P v w \<Longrightarrow> passed sb P u w"
  by (auto simp: acted_def passed_def)

lemma passed_still_right: "passed sb P u v \<Longrightarrow> still v w \<Longrightarrow> passed sb P u w"
  unfolding acted_def passed_def by auto

lemma still_then_passed:
  assumes "keeps still m" "\<And>a. keeps (passed sb P) (f a)"
  shows "keeps (passed sb P) (State_Monad.bind m f)"
proof (rule keepsI)
  fix w a w'
  assume run: "run_state (State_Monad.bind m f) w = (a, w')"
  obtain b v where v: "run_state m w = (b, v)" by (metis prod.exhaust)
  then have "passed sb P v w'"
    using run keepsD [OF assms(2)] by simp
  then show "passed sb P w w'"
    by (rule passed_still_left [OF keepsD [OF assms(1) v]])
qed

lemma passed_then_still:
  assumes "keeps (passed sb P) m" "\<And>a. keeps still (f a)"
  shows "keeps (passed sb P) (State_Monad.bind m f)"
proof (rule keepsI)
  fix w a w'
  assume run: "run_state (State_Monad.bind m f) w = (a, w')"
  obtain b v where v: "run_state m w = (b, v)" by (metis prod.exhaust)
  then have "still v w'"
    using run keepsD [OF assms(2)] by simp
  then show "passed sb P w w'"
    by (rule passed_still_right [OF keepsD [OF assms(1) v]])
qed

lemma passed_guarded:
  assumes "\<And>c nxt c' v. fn sb c = (Inr nxt, c') \<Longrightarrow> P (Some (nxt\<lparr>ResourceVersion := v\<rparr>))"
    and ids: "\<And>a c nxt c'. fn a c = (Inr nxt, c') \<Longrightarrow> ID nxt = ID a"
  shows "keeps (passed sb P) (guarded cfg sb fn c)"
proof (rule keepsI)
  fix w a w'
  assume run: "run_state (guarded cfg sb fn c) w = (a, w')"
  let ?f = "unless_stale sb fn"
  obtain out c' v where mu: "run_state (Mutate (cfg_Store cfg) (ID sb) '''' (\<lambda>cur c. ret (?f cur c)) c) w = ((out, c'), v)"
    by (cases "run_state (Mutate (cfg_Store cfg) (ID sb) '''' (\<lambda>cur c. ret (?f cur c)) c) w") auto
  have v: "v = w'"
    using run by (simp add: guarded_def mu)
  show "passed sb P w w'"
    unfolding passed_def
  proof (intro impI)
    assume alone: "others w = [] \<and> good (mem w) \<and> tbl (mem w) (ID sb) = Some sb"
    show "others w' = [] \<and> good (mem w') \<and> (tbl (mem w') = tbl (mem w) \<or> (\<exists>r. P r \<and> tbl (mem w') = (tbl (mem w))(ID sb := r)))"
    proof (cases out)
      case (Inl e)
      have "tbl (mem v) = tbl (mem w) \<and> others v = [] \<and> good (mem v)"
        by (rule mutate_loop_error [OF _ mu [unfolded Inl Mutate_def]]) (use alone in auto)
      with v show ?thesis by simp
    next
      case (Inr s)
      have "wrote_alone (ID sb) ?f w s c' v"
        by (rule mutate_loop_alone [OF _ mu [unfolded Inr Mutate_def]]) (use alone ids in \<open>auto simp: unless_stale_def split: if_splits\<close>)
      then obtain c1 nxt where n: "?f sb c1 = (Inr nxt, c')" "s = nxt\<lparr>ResourceVersion := ResourceVersion s\<rparr>"
        "tbl (mem v) = (tbl (mem w))(ID sb \<mapsto> s)" "others v = []" "good (mem v)"
        using alone unfolding wrote_alone_def by auto
      then have "P (Some s)"
        using assms(1) [of c1 nxt c' "ResourceVersion s"] by (simp add: unless_stale_def)
      with n v show ?thesis by auto
    qed
  qed
qed

end

text \<open>What a whole pass may make of the sandbox it found.\<close>

definition pass_may :: "Sandbox \<Rightarrow> Sandbox option \<Rightarrow> bool" where
  "pass_may a r = (case r of Some b \<Rightarrow> pass_frame a b | None \<Rightarrow> sb_State a = StateDeleting)"

lemma pass_may_Some [simp]: "pass_may a (Some b) \<longleftrightarrow> pass_frame a b"
  by (simp add: pass_may_def)

context service_store
begin

lemma passed_guarded_pure:
  assumes "\<And>nxt v. f sb = Inr nxt \<Longrightarrow> P (Some (nxt\<lparr>ResourceVersion := v\<rparr>))" "\<And>a nxt. f a = Inr nxt \<Longrightarrow> pass_frame a nxt"
  shows "keeps (passed sb P) (guarded cfg sb (pure_change f) c)"
  by (rule passed_guarded) (use assms pass_frame_ID in \<open>auto simp: pure_change_def\<close>)

lemma passed_if: "(b \<Longrightarrow> keeps (passed sb P) m) \<Longrightarrow> (\<not> b \<Longrightarrow> keeps (passed sb P) n) \<Longrightarrow> keeps (passed sb P) (if b then m else n)"
  by simp

lemma still_note: "keeps still (Service_note cfg sb from rsn)"
  unfolding Service_note_def by (intro still_intros still_steps)

lemma still_noted: "keeps still (case r of Inl e \<Rightarrow> ret (Some e) | Inr out \<Rightarrow> do {
    Service_note cfg out from (rsn out); (if sb_State out = StateError then Kick i else ret ()); ret None })"
  by (intro still_intros still_note)

lemma still_update_marks: "(\<And>w. mem (f w) = mem w) \<Longrightarrow> (\<And>w. others (f w) = others w) \<Longrightarrow> keeps still (State_Monad.update f)"
  by (rule keeps_update) (simp add: still_same)

lemma passed_settle:
  assumes "\<And>t c nxt c' v. settle_change (settled_status res) (too_weak cfg sb (settled_status res)) t sb c = (Inr nxt, c') \<Longrightarrow>
    P (Some (nxt\<lparr>ResourceVersion := v\<rparr>))"
  shows "keeps (passed sb P) (settle cfg sb res)"
  unfolding settle_def Let_def
  by (rule still_then_passed, rule still_now, rule still_then_passed, intro still_intros, rule passed_then_still,
      rule passed_guarded, erule assms, erule pass_frame_ID [OF pass_frame_settle], rule still_noted)

lemma passed_observe:
  assumes "\<And>t nxt v. observe_change to status rsn msg t sb = Inr nxt \<Longrightarrow> P (Some (nxt\<lparr>ResourceVersion := v\<rparr>))"
  shows "keeps (passed sb P) (observe cfg sb to status rsn msg)"
  unfolding observe_def
  by (rule still_then_passed, rule still_now, rule passed_then_still, rule passed_guarded_pure, erule assms,
      erule pass_frame_observe, rule still_noted)

lemma passed_observe_frame: "keeps (passed sb (pass_may sb)) (observe cfg sb to status rsn msg)"
  by (rule passed_observe) (simp add: pass_frame_version pass_frame_observe)

lemma passed_settle_frame: "keeps (passed sb (pass_may sb)) (settle cfg sb res)"
  by (rule passed_settle) (simp add: pass_frame_version pass_frame_settle)

lemma passed_guarded_frame:
  "(\<And>a nxt. f a = Inr nxt \<Longrightarrow> pass_frame a nxt) \<Longrightarrow> keeps (passed sb (pass_may sb)) (guarded cfg sb (pure_change f) c)"
  by (rule passed_guarded_pure) (simp_all add: pass_frame_version)

lemma passed_watch: "keeps (passed sb (pass_may sb)) (watch cfg sb res)"
  unfolding watch_def
  by (intro keeps_case_sum passed_if passed_observe_frame passed_settle_frame keeps_still_passed [OF keeps_return [OF acted_refl]]
      passed_then_still [OF passed_observe_frame] still_then_passed [OF still_now]
      passed_then_still [OF passed_guarded_frame [OF pass_frame_watch]] keeps_return [OF acted_refl])

lemma passed_recorded: "keeps (passed sb P) rest \<Longrightarrow> keeps (passed sb P) (recorded cfg ev refuse rest)"
  unfolding recorded_def
  by (rule still_then_passed [OF still_record_event]) (intro keeps_case_option keeps_still_passed [OF keeps_return [OF acted_refl]])

lemma still_ret: "keeps still (ret a)"
  by (rule keeps_return [OF acted_refl])

lemma passed_ret: "keeps (passed sb P) (ret a)"
  by (rule keeps_still_passed [OF still_ret])

lemma passed_guarded_then:
  assumes "\<And>a nxt. f a = Inr nxt \<Longrightarrow> pass_frame a nxt" "\<And>r. keeps still (g r)"
  shows "keeps (passed sb (pass_may sb)) (State_Monad.bind (guarded cfg sb (pure_change f) c) g)"
  by (rule passed_then_still [OF passed_guarded_frame]) (use assms in blast)+

lemma passed_restart_at:
  assumes "\<And>b. pass_frame sb b \<Longrightarrow> sb_State b = sb_State sb \<Longrightarrow> P (Some b)"
    "\<And>b v at. restart_change t sb = Inr b \<Longrightarrow> RestartDue (get_str (For (cfg_Settings cfg) (sb_Settings sb)) SetRestartPolicy) (sb_State sb) \<Longrightarrow>
       Restarts sb < Values_Int (For (cfg_Settings cfg) (sb_Settings sb)) SetMaxRestarts \<Longrightarrow> NextRestart sb = Some at \<Longrightarrow> at \<le> t \<Longrightarrow>
       P (Some (b\<lparr>ResourceVersion := v\<rparr>))"
  shows "keeps (passed sb P) (restart_at cfg sb t)"
proof -
  have same: "P (Some (b\<lparr>ResourceVersion := v\<rparr>))" if "SetCondition c t' (sb\<lparr>NextRestart := r\<rparr>) = Inr b" for c t' r b v
    by (rule assms(1)) (use SetCondition_fields(1) [OF that] pass_frame_SetCondition [OF that] in \<open>simp_all add: pass_frame_version pass_frame_refl\<close>)
  have writes: "keeps (passed sb P) (State_Monad.bind (guarded cfg sb (pure_change f) c) g)"
    if "\<And>b v. f sb = Inr b \<Longrightarrow> P (Some (b\<lparr>ResourceVersion := v\<rparr>))" "\<And>a b. f a = Inr b \<Longrightarrow> pass_frame a b" "\<And>r. keeps still (g r)"
    for f c and g :: "(gerror + Sandbox) \<times> unit \<Rightarrow> (('m, 'x) service, gerror option) state"
    by (rule passed_then_still [OF passed_guarded_pure]) (use that in blast)+
  have delayed: "pass_frame a nxt" if "SetCondition c t' (a\<lparr>NextRestart := r\<rparr>) = Inr nxt" for a c t' r nxt
    by (rule pass_frame_SetCondition [OF that]) (simp add: pass_frame_refl)
  let ?vals = "For (cfg_Settings cfg) (sb_Settings sb)"
  show ?thesis
    unfolding restart_at_def Let_def
  proof (intro passed_if passed_ret keeps_case_option passed_recorded)
    show "keeps (passed sb P) (guarded cfg sb (pure_change (\<lambda>cur. Inr (cur\<lparr>NextRestart := None\<rparr>))) () \<bind> (\<lambda>r. ret (err_of (fst r))))"
      by (rule writes) (auto intro!: assms(1) still_ret simp: pass_frame_refl pass_frame_version)
    show "keeps (passed sb P) (guarded cfg sb (pure_change (limit_change ?vals t)) () \<bind> (\<lambda>r. ret (err_of (fst r))))"
      by (rule writes) (auto simp: limit_change_def intro!: same still_ret delayed split: if_splits)
  qed (rule writes, (erule same | (erule assms(2), simp, simp, assumption, simp)), (erule delayed | erule pass_frame_restart),
      (intro still_intros still_outcome still_update_marks; simp))+
qed

lemma passed_restart: "keeps (passed sb (pass_may sb)) (restart cfg sb)"
  unfolding restart_def
  by (rule still_then_passed [OF still_now], rule passed_restart_at) (auto simp: pass_frame_version intro: pass_frame_restart)

lemma still_teardown: "keeps still (teardown cfg sb d)"
  unfolding teardown_def release_held_def by (intro still_intros)

lemma passed_Delete:
  assumes "P None"
  shows "keeps (passed sb P) (call (st_Delete (cfg_Store cfg) (ID sb) v))"
proof (rule keepsI)
  fix w :: "('m, 'x) service" and a w'
  assume run: "run_state (call (st_Delete (cfg_Store cfg) (ID sb) v)) w = (a, w')"
  show "passed sb P w w'"
    unfolding passed_def
  proof (intro impI)
    assume alone: "others w = [] \<and> good (mem w) \<and> tbl (mem w) (ID sb) = Some sb"
    then have del: "st_Delete (cfg_Store cfg) (ID sb) v (mem w) = (a, mem w')" "others w' = []"
      using run by (auto simp: run_call_alone prod_eq_iff)
    with alone Delete_None [of "mem w" "ID sb" v "mem w'"] Delete_Some [of "mem w" "ID sb" v _ "mem w'"] assms
    show "others w' = [] \<and> good (mem w') \<and> (tbl (mem w') = tbl (mem w) \<or> (\<exists>r. P r \<and> tbl (mem w') = (tbl (mem w))(ID sb := r)))"
      by (cases a) blast+
  qed
qed

lemma passed_delete_failed: "keeps (passed sb (\<lambda>r. r \<noteq> None \<and> pass_may sb r)) (delete_failed cfg sb e)"
  unfolding delete_failed_def
  by (rule still_then_passed [OF still_now], rule passed_then_still, rule passed_guarded_pure)
     (auto simp: pass_frame_version intro: pass_frame_delete_failed still_ret)

lemma passed_delete_object:
  assumes "sb_State sb = StateDeleting"
  shows "keeps (passed sb (pass_may sb)) (delete_object cfg sb)"
  unfolding delete_object_def
  by (rule passed_then_still [OF passed_Delete]) (simp add: pass_may_def assms, intro still_intros still_record_event)

lemma passed_mono: "keeps (passed sb P) m \<Longrightarrow> (\<And>r. P r \<Longrightarrow> Q r) \<Longrightarrow> keeps (passed sb Q) m"
  by (erule keeps_mono) (auto simp: passed_def)

lemma passed_remove: "sb_State sb = StateDeleting \<Longrightarrow> keeps (passed sb (pass_may sb)) (remove cfg sb d)"
  unfolding remove_def
  by (intro still_then_passed [OF still_teardown] keeps_case_option passed_delete_object passed_mono [OF passed_delete_failed]) simp_all

lemma still_take_grace: "keeps still (take_grace i)"
  by (rule keepsI) (auto simp: take_grace_def State_Monad.get_def State_Monad.set_def intro: still_same)

lemma still_bring_up: "keeps still (bring_up d i sb sp)"
  unfolding bring_up_def by (intro still_intros)

lemma still_spec: "keeps still (spec cfg sb)"
  unfolding spec_def by (intro still_intros)

lemma passed_start: "keeps (passed sb (pass_may sb)) (reconcile_start cfg i sb d)"
  unfolding reconcile_start_def
  by (intro keeps_case_sum passed_settle_frame still_then_passed [OF still_spec] still_then_passed [OF still_bring_up])

lemma passed_reconcile_found: "keeps (passed sb (pass_may sb)) (reconcile_found cfg i sb)"
  unfolding reconcile_found_def Let_def
  by (cases "sb_State sb"; simp)
     (intro passed_start passed_ret passed_restart passed_remove keeps_case_sum passed_observe_frame
       still_then_passed [OF still_take_grace] still_then_passed [OF still_outside] passed_if passed_watch | assumption)+

end

text \<open>The pass over the sandbox the store holds, reached through the read and the ownership check.\<close>

lemma run_reconcile_alone:
  assumes "others w = []"
  shows "run_state (reconcile (memory_config base) i) w =
    (case memory_tbl (mem w) i of
       None \<Rightarrow> (None, w)
     | Some sb \<Rightarrow> (case cfg_Ownership base of
           None \<Rightarrow> run_state (reconcile_found (memory_config base) i sb) w
         | Some owns \<Rightarrow> (case owns i (ext w) of
               (Inl e, x) \<Rightarrow> (Some e, w\<lparr>ext := x\<rparr>)
             | (Inr own, x) \<Rightarrow> if own then run_state (reconcile_found (memory_config base) i sb) (w\<lparr>ext := x\<rparr>) else (None, w\<lparr>ext := x\<rparr>))))"
  using assms
  by (simp add: reconcile_def run_call_alone memory_store_def Memory_Get_def run_outside memory_config_def
      split: option.split prod.split sum.split)

text \<open>
  What a pass may change. One pass of the reconciler over a sandbox leaves every other sandbox
  as it was. Its own it leaves, removes when it was being deleted, or replaces by one with the same owner,
  driver, template, labels, settings and creation time, in the same state or one the transition table
  allows, the generation raised by one exactly when the sandbox starts again.
\<close>

theorem pass_changes_only_its_sandbox:
  assumes "memory_inv (mem w)" "others w = []" "run_state (reconcile (memory_config base) i) w = (r, w')"
  shows "memory_inv (mem w') \<and> (\<forall>j. j \<noteq> i \<longrightarrow> memory_tbl (mem w') j = memory_tbl (mem w) j) \<and>
    (memory_tbl (mem w') i = memory_tbl (mem w) i \<or>
     (\<exists>sb. memory_tbl (mem w) i = Some sb \<and> pass_may sb (memory_tbl (mem w') i)))"
proof (cases "memory_tbl (mem w) i")
  case (Some sb)
  have ID: "ID sb = i"
    using memory.known_versions [OF assms(1) Some] by simp
  have found: "memory_inv (mem w') \<and> (memory_tbl (mem w') = memory_tbl (mem w) \<or>
      (\<exists>r. pass_may sb r \<and> memory_tbl (mem w') = (memory_tbl (mem w))(i := r)))"
    if "run_state (reconcile_found (memory_config base) i sb) (w\<lparr>ext := x\<rparr>) = (r, w')" for x
    using keepsD [OF plane.passed_reconcile_found that] assms(1,2) Some ID unfolding plane.passed_def by simp
  show ?thesis
    using assms Some found found [of "ext w"]
    by (fastforce simp: run_reconcile_alone split: option.splits prod.splits sum.splits if_splits)
qed (use assms in \<open>auto simp: run_reconcile_alone\<close>)

section \<open>Ready means running\<close>

text \<open>What the pass does with a driver before it settles, from the specification to the driver's last answer.\<close>

definition attempt :: "('m, 'x) Config \<Rightarrow> string \<Rightarrow> Sandbox \<Rightarrow> 'x Driver \<Rightarrow> (('m, 'x) service, gerror + Status) state" where
  "attempt cfg i sb d = do {
     made \<leftarrow> spec cfg sb;
     (case made of Inl e \<Rightarrow> ret (Inl e) | Inr sp \<Rightarrow> bring_up d i sb sp)
   }"

lemma run_start_attempt:
  "run_state (reconcile_start cfg i sb (Inr d)) w =
     (case run_state (attempt cfg i sb d) w of (res, v) \<Rightarrow> run_state (settle cfg sb res) v)"
  by (simp add: reconcile_start_def attempt_def split: prod.split sum.split)

definition has_condition :: "Sandbox \<Rightarrow> string \<Rightarrow> ConditionStatus \<Rightarrow> bool" where
  "has_condition s t status \<longleftrightarrow> (\<exists>c. Sandbox_Condition s t = Some c \<and> cond_Status c = status)"

lemma SetCondition_conditions:
  assumes "SetCondition c t s = Inr s'"
  shows "has_condition s' u status \<longleftrightarrow> (if u = cond_Type c then status = cond_Status c else has_condition s u status)"
  by (rule SetCondition_Inr [OF assms]) (auto simp: has_condition_def Sandbox_Condition_def)

text \<open>What \<open>settle\<close> leaves when it makes a sandbox ready.\<close>

definition verified_by :: "('m, 'x) Config \<Rightarrow> Sandbox \<Rightarrow> Status \<Rightarrow> Sandbox \<Rightarrow> bool" where
  "verified_by cfg a st b \<longleftrightarrow> status_Phase st = PhaseRunning \<and> sb_Tier b = status_Tier st \<and>
     TierMeets (status_Tier st) (get_str (For (cfg_Settings cfg) (sb_Settings a)) SetMinTier) \<and>
     has_condition b CondDriverReady ConditionTrue \<and> has_condition b CondIsolationVerified ConditionTrue"

lemma settle_ready:
  assumes "settle_change (settled_status res) (too_weak cfg a (settled_status res)) t a c = (Inr b, c')" "sb_State b = StateReady"
  shows "\<exists>st. res = Inr st \<and> verified_by cfg a st b"
proof -
  have error: False if "Transition StateError t a' = Inr s" "SetCondition cnd t s = Inr b" for a' s cnd
    using that assms(2) SetCondition_fields(1) [OF that(2)] by (auto simp: Transition_Inr split: if_splits)
  obtain st where st: "settled_status res = Inr st" "\<not> too_weak cfg a (Inr st)"
  proof (cases "settled_status res")
    case (Inl e)
    then have False
      using assms(1) error by (auto simp: settle_change_def split: sum.splits)
    then show ?thesis ..
  next
    case (Inr st)
    moreover have "\<not> too_weak cfg a (Inr st)"
      using assms(1) Inr error by (auto simp: settle_change_def split: sum.splits)
    ultimately show ?thesis by (rule that)
  qed
  then have res: "res = Inr st" "status_Phase st = PhaseRunning"
    by (auto simp: settled_status_def split: sum.splits if_splits)
  obtain s1 s2 where s: "SetCondition (mk_condition CondDriverReady ConditionTrue c '''') t s1 = Inr s2" "verifiedTier st t s2 = Inr b"
    using assms(1) st by (auto simp: settle_change_def split: sum.splits if_splits)
  have "sb_Tier b = status_Tier st"
    using SetCondition_fields(2) [OF s(2) [unfolded verifiedTier_def]] by simp
  moreover have "has_condition b CondDriverReady ConditionTrue \<and> has_condition b CondIsolationVerified ConditionTrue"
    using SetCondition_conditions [OF s(2) [unfolded verifiedTier_def]] SetCondition_conditions [OF s(1)]
    by (simp add: mk_condition_def has_condition_def Sandbox_Condition_def)
  ultimately show ?thesis
    using res st(2) by (simp add: verified_by_def too_weak_def)
qed

lemma keeps_Mutate:
  assumes "reflp R" "transp R" "keeps R (call (\<lambda>m. (st_Get st i m, m)))" "\<And>s v. keeps R (call (st_Update st s v))" "\<And>s c. keeps R (fn s c)"
  shows "keeps R (Mutate st i ifMatch fn c)"
proof -
  have "keeps R (mutate_loop st i ifMatch fn c k)" for k
  proof (induction k arbitrary: c)
    case 0
    show ?case
      by (subst mutate_loop.simps) (intro keeps_intros assms; simp add: assms keeps_return)
  next
    case (Suc n)
    show ?case
      by (subst mutate_loop.simps) (intro keeps_intros assms; simp add: Suc assms keeps_return)
  qed
  then show ?thesis by (simp add: Mutate_def)
qed

text \<open>What neither touches nor breaks the driver's instances: the clock, the workspaces, the egress proxies.\<close>

definition leaves_instances :: "('x \<Rightarrow> string \<Rightarrow> Phase option) \<Rightarrow> ('x \<Rightarrow> bool) \<Rightarrow> ('x \<Rightarrow> 'a \<times> 'x) \<Rightarrow> bool" where
  "leaves_instances phase ok f \<longleftrightarrow> (\<forall>x. phase (snd (f x)) = phase x \<and> (ok x \<longrightarrow> ok (snd (f x))))"

definition quiet_outside :: "('x \<Rightarrow> string \<Rightarrow> Phase option) \<Rightarrow> ('x \<Rightarrow> bool) \<Rightarrow> ('m, 'x) Config \<Rightarrow> bool" where
  "quiet_outside phase ok cfg \<longleftrightarrow> leaves_instances phase ok (Now cfg) \<and> (\<forall>i. leaves_instances phase ok (Workspace cfg i)) \<and>
     (\<forall>rel i. ReleaseWorkspace cfg = Some rel \<longrightarrow> leaves_instances phase ok (rel i)) \<and>
     (\<forall>eg i. cfg_Egress cfg = Some eg \<longrightarrow> leaves_instances phase ok (eg_Open eg i) \<and> leaves_instances phase ok (eg_Close eg i))"

context driver_contract
begin

definition steady :: "('m, 'x) service \<Rightarrow> ('m, 'x) service \<Rightarrow> bool" where
  "steady w w' \<longleftrightarrow> (ok (ext w) \<longrightarrow> ok (ext w') \<and> phase (ext w') = phase (ext w))"

lemma steady_refl: "reflp steady"
  by (simp add: reflp_def steady_def)

lemma steady_trans: "transp steady"
  by (auto simp: transp_def steady_def)

lemma steady_call: "keeps steady (call f)"
  by (rule keepsI) (auto simp: call_def steady_def split: prod.splits)

lemma steady_outside: "leaves_instances phase ok f \<Longrightarrow> keeps steady (outside f)"
  by (rule keepsI) (auto simp: run_outside steady_def leaves_instances_def)

lemma steady_Kick: "keeps steady (Kick i)"
  unfolding Kick_def by (rule keeps_update) (simp add: steady_def)

lemma steady_now: "leaves_instances phase ok (Now cfg) \<Longrightarrow> keeps steady (now cfg)"
  unfolding now_def by (rule steady_outside)

lemmas steady_intros = keeps_intros steady_refl steady_trans steady_call steady_Kick steady_now

lemma steady_record_event: "leaves_instances phase ok (Now cfg) \<Longrightarrow> keeps steady (record_event cfg ev)"
  unfolding record_event_def by (intro steady_intros)

lemma steady_guarded: "keeps steady (guarded cfg sb fn c)"
  unfolding guarded_def by (intro steady_intros keeps_Mutate)

lemma steady_note: "leaves_instances phase ok (Now cfg) \<Longrightarrow> keeps steady (Service_note cfg sb from rsn)"
  unfolding Service_note_def by (intro steady_intros steady_record_event)

lemma steady_settle:
  "leaves_instances phase ok (Now cfg) \<Longrightarrow> \<not> too_weak cfg sb (settled_status res) \<Longrightarrow> keeps steady (settle cfg sb res)"
  unfolding settle_def Let_def by simp (intro steady_intros steady_guarded steady_note)

text \<open>After \<open>bring_up\<close> answered with a status, the instance is in the phase it says.\<close>

lemma bring_up_phase:
  fixes w w' :: "('m, 'x) service"
  assumes "run_state (bring_up d i sb sp) w = (Inr st, w')" "ok (ext w)" "spec_ID sp = i"
  shows "phase (ext w') i = Some (status_Phase st) \<and> ok (ext w')"
proof -
  obtain r x where c: "dr_Create d sp (ext w) = (r, x)" by (cases "dr_Create d sp (ext w)")
  obtain r2 x2 where q: "dr_Status d i x = (r2, x2)" by (cases "dr_Status d i x")
  obtain r3 x3 where s: "dr_Start d i x2 = (r3, x3)" by (cases "dr_Start d i x2")
  obtain r4 x4 where t: "dr_Start d i (ext w) = (r4, x4)" by (cases "dr_Start d i (ext w)")
  obtain r5 x5 where u: "dr_Create d sp x4 = (r5, x5)" by (cases "dr_Create d sp x4")
  have ok: "ok x" "ok x2" "ok x4"
    using c q t assms(2) Create_Inr Create_Inl Status_Inr Status_Inl Start_Inr Start_Inl by (metis sum.exhaust)+
  show ?thesis
  proof (cases "sb_State sb = StateProvisioning")
    case True
    show ?thesis
    proof (cases r)
      case (Inl e)
      with assms True c have e: "errors_Is e DriverExists"
        by (auto simp: bring_up_def run_outside split: if_splits)
      show ?thesis
      proof (cases r2)
        case (Inl e2)
        with assms True c \<open>r = Inl e\<close> e q show ?thesis
          by (simp add: bring_up_def run_outside)
      next
        case (Inr st2)
        show ?thesis
        proof (cases "status_Phase st2 = PhaseRunning")
          case True
          with assms \<open>sb_State sb = StateProvisioning\<close> c \<open>r = Inl e\<close> e q Inr have "st = st2" "ext w' = x2"
            by (auto simp: bring_up_def run_outside)
          with Status_Inr [OF ok(1) q [unfolded Inr]] show ?thesis by auto
        next
          case False
          with assms \<open>sb_State sb = StateProvisioning\<close> c \<open>r = Inl e\<close> e q s Inr have "r3 = Inr st" "ext w' = x3"
            by (auto simp: bring_up_def run_outside)
          with Start_Inr [OF ok(2), of i st x3] s show ?thesis by auto
        qed
      qed
    next
      case (Inr st1)
      with assms True c have "st = st1" "ext w' = x"
        by (auto simp: bring_up_def run_outside)
      with Create_Inr [OF assms(2) c [unfolded Inr]] assms(3) show ?thesis by auto
    qed
  next
    case False
    show ?thesis
    proof (cases r4)
      case (Inl e)
      with assms False t u have "r5 = Inr st" "ext w' = x5"
        by (auto simp: bring_up_def run_outside split: if_splits)
      with Create_Inr [OF ok(3), of sp st x5] u assms(3) show ?thesis by auto
    next
      case (Inr st1)
      with assms False t have "st = st1" "ext w' = x4"
        by (auto simp: bring_up_def run_outside)
      with Start_Inr [OF assms(2) t [unfolded Inr]] show ?thesis by auto
    qed
  qed
qed

lemma steady_delete_object: "leaves_instances phase ok (Now cfg) \<Longrightarrow> keeps steady (delete_object cfg sb)"
  unfolding delete_object_def by (intro steady_intros steady_record_event)

lemma steady_spec: "quiet_outside phase ok cfg \<Longrightarrow> keeps steady (spec cfg sb)"
  unfolding spec_def by (intro steady_intros steady_outside) (simp_all add: quiet_outside_def)

lemma spec_names: "run_state (spec cfg sb) w = (Inr sp, w') \<Longrightarrow> spec_ID sp = ID sb"
  by (auto simp: spec_def run_outside Let_def split: sum.splits option.splits if_splits)

lemma attempt_phase:
  fixes w w' :: "('m, 'x) service"
  assumes "run_state (attempt cfg i sb d) w = (Inr st, w')" "ok (ext w)" "ID sb = i" "quiet_outside phase ok cfg"
  shows "phase (ext w') i = Some (status_Phase st) \<and> ok (ext w')"
proof -
  obtain made v where v: "run_state (spec cfg sb) w = (made, v)" by (cases "run_state (spec cfg sb) w")
  then obtain sp where sp: "made = Inr sp"
    using assms(1) by (cases made) (auto simp: attempt_def)
  have "ok (ext v)"
    using keepsD [OF steady_spec [OF assms(4)] v] assms(2) by (simp add: steady_def)
  moreover have "run_state (bring_up d i sb sp) v = (Inr st, w')"
    using assms(1) v sp by (simp add: attempt_def)
  ultimately show ?thesis
    using bring_up_phase spec_names [OF v [unfolded sp]] assms(3) by blast
qed

text \<open>After a teardown without error the instance is gone.\<close>

lemma teardown_phase:
  fixes w w' :: "('m, 'x) service"
  assumes "run_state (teardown cfg sb (Inr d)) w = (None, w')" "ok (ext w)" "quiet_outside phase ok cfg"
  shows "phase (ext w') (ID sb) = None \<and> ok (ext w')"
proof -
  obtain r x where del: "dr_Delete d (ID sb) (ext w) = (r, x)" by (cases "dr_Delete d (ID sb) (ext w)")
  have gone: "phase x (ID sb) = None \<and> ok x" if "r = None \<or> (\<exists>e. r = Some e \<and> errors_Is e DriverNotFound)"
    using that del assms(2) Delete_None [of "ext w" "ID sb" x] Delete_Some [of "ext w" "ID sb" _ x] by auto
  have "keeps steady (release_held cfg sb)"
    using assms(3) unfolding release_held_def quiet_outside_def by (intro steady_intros steady_outside; simp)
  moreover have "(r = None \<or> (\<exists>e. r = Some e \<and> errors_Is e DriverNotFound)) \<and>
      run_state (release_held cfg sb) (w\<lparr>ext := x\<rparr>) = (None, w')"
    using assms(1) del by (auto simp: teardown_def run_outside split: option.splits if_splits)
  ultimately show ?thesis
    using gone keepsD [of steady "release_held cfg sb" "w\<lparr>ext := x\<rparr>" None w'] by (auto simp: steady_def)
qed

end

lemma pass_to_Ready: "pass_frame a b \<Longrightarrow> sb_State b = StateReady \<Longrightarrow> sb_State a \<noteq> StateReady \<Longrightarrow>
  sb_State a = StateProvisioning \<or> sb_State a = StateStarting"
  by (auto simp: pass_frame_def CanTransition_to_Ready)

lemma run_found_start: "sb_State sb = StateProvisioning \<or> sb_State sb = StateStarting \<Longrightarrow>
  reconcile_found cfg i sb = reconcile_start cfg i sb (Registry_Get (sb_Driver sb) (cfg_Drivers cfg))"
  by (auto simp: reconcile_found_def Let_def)

context service_store
begin

lemma settle_makes_ready:
  assumes "run_state (settle cfg sb res) w = (r, w')" "others w = []" "good (mem w)" "tbl (mem w) (ID sb) = Some sb"
    "sb_State sb \<noteq> StateReady" "tbl (mem w') (ID sb) = Some s" "sb_State s = StateReady"
  shows "\<exists>st. res = Inr st \<and> verified_by cfg sb st s"
proof -
  let ?P = "\<lambda>o1. \<forall>b. o1 = Some b \<and> sb_State b = StateReady \<longrightarrow> (\<exists>st. res = Inr st \<and> verified_by cfg sb st b)"
  have "keeps (passed sb ?P) (settle cfg sb res)"
    by (rule passed_settle) (use settle_ready in \<open>fastforce simp: verified_by_def has_condition_def Sandbox_Condition_def\<close>)
  from keepsD [OF this assms(1)] assms(2-7) show ?thesis
    unfolding passed_def by (metis fun_upd_same option.inject)
qed

end

lemma ready_running:
  assumes "memory_inv (mem w)" "others w = []" "memory_tbl (mem w) i = Some sb" "sb_State sb \<noteq> StateReady"
    "run_state (reconcile_found (memory_config base) i sb) w = (r, w')" "memory_tbl (mem w') i = Some s" "sb_State s = StateReady"
    "Registry_Get (sb_Driver sb) (cfg_Drivers base) = Inr d" "driver_contract d phase ok" "quiet_outside phase ok base" "ok (ext w)"
  shows "phase (ext w') i = Some PhaseRunning \<and>
    TierMeets (sb_Tier s) (get_str (For (cfg_Settings base) (sb_Settings sb)) SetMinTier) \<and>
    has_condition s CondDriverReady ConditionTrue \<and> has_condition s CondIsolationVerified ConditionTrue"
proof -
  let ?cfg = "memory_config base"
  have ID: "ID sb = i"
    using memory.known_versions [OF assms(1,3)] by simp
  have cfg: "cfg_Drivers ?cfg = cfg_Drivers base" "cfg_Settings ?cfg = cfg_Settings base" "quiet_outside phase ok ?cfg"
    using assms(10) by (simp_all add: memory_config_def quiet_outside_def)
  have "pass_frame sb s \<or> s = sb"
    using keepsD [OF plane.passed_reconcile_found assms(5)] assms(1-3,6) ID unfolding plane.passed_def pass_may_def by (auto split: option.splits)
  then have "sb_State sb = StateProvisioning \<or> sb_State sb = StateStarting"
    using pass_to_Ready assms(4,7) by blast
  then have start: "run_state (reconcile_start ?cfg i sb (Inr d)) w = (r, w')"
    using assms(5,8) run_found_start cfg(1) by metis
  obtain res v where v: "run_state (attempt ?cfg i sb d) w = (res, v)" by (cases "run_state (attempt ?cfg i sb d) w")
  then have settle: "run_state (settle ?cfg sb res) v = (r, w')"
    using start by (simp add: run_start_attempt)
  have "keeps plane.still (attempt ?cfg i sb d)"
    unfolding attempt_def by (intro plane.still_intros plane.still_spec plane.still_bring_up)
  from keepsD [OF this v] have "others v = []" "memory_inv (mem v)" "memory_tbl (mem v) = memory_tbl (mem w)"
    using assms(1,2) unfolding plane.acted_def by auto
  with plane.settle_makes_ready [OF settle] assms(3,4,6,7) ID obtain st where st: "res = Inr st" "verified_by ?cfg sb st s"
    by auto
  have phase: "phase (ext v) i = Some PhaseRunning \<and> ok (ext v)"
    using driver_contract.attempt_phase [OF assms(9) v [unfolded st(1)] assms(11) ID cfg(3)] st(2) by (simp add: verified_by_def)
  have "\<not> too_weak ?cfg sb (settled_status res)"
    using st by (simp add: verified_by_def settled_status_def too_weak_def)
  from keepsD [OF driver_contract.steady_settle [OF assms(9) _ this] settle] cfg(3) phase
  have "phase (ext w') i = Some PhaseRunning"
    by (simp add: quiet_outside_def driver_contract.steady_def [OF assms(9)])
  with st(2) cfg(2) show ?thesis
    by (simp add: verified_by_def)
qed


lemma removed_torn_down:
  assumes "memory_inv (mem w)" "others w = []" "memory_tbl (mem w) i = Some sb"
    "run_state (reconcile_found (memory_config base) i sb) w = (r, w')" "memory_tbl (mem w') i = None"
    "Registry_Get (sb_Driver sb) (cfg_Drivers base) = Inr d" "driver_contract d phase ok" "quiet_outside phase ok base" "ok (ext w)"
  shows "sb_State sb = StateDeleting \<and> fst (run_state (teardown (memory_config base) sb (Inr d)) w) = None \<and> phase (ext w') i = None"
proof -
  let ?cfg = "memory_config base"
  have ID: "ID sb = i"
    using memory.known_versions [OF assms(1,3)] by simp
  have cfg: "cfg_Drivers ?cfg = cfg_Drivers base" "quiet_outside phase ok ?cfg" "leaves_instances phase ok (Now ?cfg)"
    using assms(8) by (simp_all add: memory_config_def quiet_outside_def)
  have del: "sb_State sb = StateDeleting"
    using keepsD [OF plane.passed_reconcile_found assms(4)] assms(1-3,5) ID unfolding plane.passed_def pass_may_def by (auto split: option.splits)
  then have rm: "run_state (remove ?cfg sb (Inr d)) w = (r, w')"
    using assms(4,6) cfg(1) by (simp add: reconcile_found_def)
  obtain err v where v: "run_state (teardown ?cfg sb (Inr d)) w = (err, v)" by (cases "run_state (teardown ?cfg sb (Inr d)) w")
  from keepsD [OF plane.still_teardown v] have keep: "others v = []" "memory_inv (mem v)" "memory_tbl (mem v) = memory_tbl (mem w)"
    using assms(1,2) unfolding plane.acted_def by auto
  show ?thesis
  proof (cases err)
    case None
    have "phase (ext v) i = None \<and> ok (ext v)"
      using driver_contract.teardown_phase [OF assms(7) v [unfolded None] assms(9) cfg(2)] ID by simp
    moreover have "driver_contract.steady phase ok v w'"
      using keepsD [OF driver_contract.steady_delete_object [OF assms(7) cfg(3)]] rm v None by (simp add: remove_def)
    ultimately show ?thesis
      using del v None by (simp add: driver_contract.steady_def [OF assms(7)])
  next
    case (Some e)
    have "memory_tbl (mem w') i \<noteq> None"
      using keepsD [OF plane.passed_delete_failed, of base sb e v r w'] rm v Some keep assms(3) ID
      unfolding plane.passed_def by (auto simp: remove_def)
    with assms(5) show ?thesis by simp
  qed
qed

lemma teardown_chain:
  assumes "run_state (teardown cfg sb d) w = (None, v)"
  shows "\<exists>drv del x1 x2. d = Inr drv \<and> dr_Delete drv (ID sb) (ext w) = (del, x1) \<and> (\<forall>e. del = Some e \<longrightarrow> errors_Is e DriverNotFound) \<and>
    (case ReleaseWorkspace cfg of Some rel \<Rightarrow> rel (ID sb) x1 = (None, x2) | None \<Rightarrow> x2 = x1) \<and>
    (case cfg_Egress cfg of Some eg \<Rightarrow> (if eg_For eg (sb_Driver sb) then eg_Close eg (ID sb) x2 = (None, ext v) else ext v = x2) | None \<Rightarrow> ext v = x2)"
proof -
  obtain drv where d: "d = Inr drv" using assms by (cases d) (auto simp: teardown_def)
  obtain del x1 where del: "dr_Delete drv (ID sb) (ext w) = (del, x1)" by (metis prod.exhaust)
  have ok: "\<forall>e. del = Some e \<longrightarrow> errors_Is e DriverNotFound" and held: "run_state (release_held cfg sb) (w\<lparr>ext := x1\<rparr>) = (None, v)"
    using assms d del by (auto simp: teardown_def run_outside split: option.splits if_splits)
  define rel where "rel = (case ReleaseWorkspace cfg of Some rel \<Rightarrow> rel (ID sb) x1 | None \<Rightarrow> (None, x1))"
  obtain err x2 where r: "rel = (err, x2)" by (metis prod.exhaust)
  have "err = None \<and> (case cfg_Egress cfg of Some eg \<Rightarrow> (if eg_For eg (sb_Driver sb) then eg_Close eg (ID sb) x2 = (None, ext v) else ext v = x2) | None \<Rightarrow> ext v = x2)"
    using held r by (auto simp: release_held_def rel_def run_outside prod_eq_iff split: option.splits if_splits)
  with d del ok r show ?thesis
    by (intro exI [of _ drv] exI [of _ del] exI [of _ x1] exI [of _ x2]) (auto simp: rel_def split: option.splits)
qed

text \<open>
  C7: nothing is forgotten while it still holds something. Suppose nothing else writes to the store while a pass runs. When the pass
  has removed its sandbox from the store, the sandbox was being deleted, its driver is registered, and, one after the other,
  the driver's \<open>Delete\<close> answered that the instance is gone (no error, or that there is none), its workspace was released
  without an error where workspaces are released at all, and its egress proxy was closed without an error where the driver has one; after that nothing outside is asked but
  the clock, for the record. If the driver keeps the
  driver contract and the clock, the workspaces and the proxies leave its instances alone, then it has no instance of the sandbox when the
  pass ends.
\<close>

theorem removed_means_torn_down:
  assumes "memory_inv (mem w)" "others w = []" "memory_tbl (mem w) i = Some sb"
    "run_state (reconcile_found (memory_config base) i sb) w = (r, w')" "memory_tbl (mem w') i = None"
  shows "sb_State sb = StateDeleting \<and> (\<exists>d del x1 x2 x3. Registry_Get (sb_Driver sb) (cfg_Drivers base) = Inr d \<and>
    dr_Delete d i (ext w) = (del, x1) \<and> (\<forall>e. del = Some e \<longrightarrow> errors_Is e DriverNotFound) \<and>
    (case ReleaseWorkspace base of Some rel \<Rightarrow> rel i x1 = (None, x2) | None \<Rightarrow> x2 = x1) \<and>
    (case cfg_Egress base of Some eg \<Rightarrow> (if eg_For eg (sb_Driver sb) then eg_Close eg i x2 = (None, x3) else x3 = x2) | None \<Rightarrow> x3 = x2) \<and>
    ext w' = snd (Now base x3) \<and>
    (driver_contract d phase ok \<and> quiet_outside phase ok base \<and> ok (ext w) \<longrightarrow> phase (ext w') i = None))"
proof -
  let ?cfg = "memory_config base"
  have ID: "ID sb = i"
    using memory.known_versions [OF assms(1,3)] by simp
  have cfg: "cfg_Drivers ?cfg = cfg_Drivers base" "ReleaseWorkspace ?cfg = ReleaseWorkspace base" "cfg_Egress ?cfg = cfg_Egress base" "Now ?cfg = Now base"
    by (simp_all add: memory_config_def)
  have del: "sb_State sb = StateDeleting"
    using keepsD [OF plane.passed_reconcile_found assms(4)] assms(1-3,5) ID unfolding plane.passed_def pass_may_def by (auto split: option.splits)
  then have rm: "run_state (remove ?cfg sb (Registry_Get (sb_Driver sb) (cfg_Drivers base))) w = (r, w')"
    using assms(4) cfg(1) by (simp add: reconcile_found_def)
  obtain err v where v: "run_state (teardown ?cfg sb (Registry_Get (sb_Driver sb) (cfg_Drivers base))) w = (err, v)" by (metis prod.exhaust)
  from keepsD [OF plane.still_teardown v] have keep: "others v = []" "memory_inv (mem v)" "memory_tbl (mem v) = memory_tbl (mem w)"
    using assms(1,2) unfolding plane.acted_def by auto
  have none: "err = None"
  proof (rule ccontr)
    assume "err \<noteq> None"
    then obtain e where e: "err = Some e" by blast
    have "memory_tbl (mem w') i \<noteq> None"
      using keepsD [OF plane.passed_delete_failed, of base sb e v r w'] rm v e keep assms(3) ID
      unfolding plane.passed_def by (auto simp: remove_def)
    with assms(5) show False by simp
  qed
  from teardown_chain [OF v [unfolded none], unfolded ID cfg] obtain d dl x1 x2 where
    c: "Registry_Get (sb_Driver sb) (cfg_Drivers base) = Inr d" "dr_Delete d i (ext w) = (dl, x1)" "\<forall>e. dl = Some e \<longrightarrow> errors_Is e DriverNotFound"
    "case ReleaseWorkspace base of Some rel \<Rightarrow> rel i x1 = (None, x2) | None \<Rightarrow> x2 = x1"
    "case cfg_Egress base of Some eg \<Rightarrow> (if eg_For eg (sb_Driver sb) then eg_Close eg i x2 = (None, ext v) else ext v = x2) | None \<Rightarrow> ext v = x2" by blast
  have "run_state (delete_object ?cfg sb) v = (r, w')"
    using rm v none by (simp add: remove_def)
  then have "ext w' = snd (Now base (ext v))"
    using assms(5) keep(3) assms(3) ID keep(1)
    by (auto simp: delete_object_def call_def memory_store_def Memory_Delete_def others_step_def record_event_def now_def run_outside Kick_def mk_event_def cfg
        State_Monad.update_def State_Monad.get_def State_Monad.set_def split: option.splits if_splits prod.splits)
  moreover have "driver_contract d phase ok \<and> quiet_outside phase ok base \<and> ok (ext w) \<longrightarrow> phase (ext w') i = None"
    using removed_torn_down [OF assms(1-5) c(1)] by blast
  ultimately show ?thesis using del c by blast
qed

section \<open>Restarts and stale passes\<close>

text \<open>
  Restarts stay within the policy. A pass starts a sandbox again only if its restart policy covers how it
  ended, fewer restarts were made than the limit, and the time set for the restart has come by the clock
  the pass read; it counts the restart, clears the time and raises the generation.
\<close>

theorem restart_within_policy:
  assumes "memory_inv (mem w)" "others w = []" "memory_tbl (mem w) i = Some sb" "sb_State sb \<noteq> StateStarting"
    "run_state (reconcile_found (memory_config base) i sb) w = (r, w')" "memory_tbl (mem w') i = Some s" "sb_State s = StateStarting"
  shows "RestartDue (get_str (For (cfg_Settings base) (sb_Settings sb)) SetRestartPolicy) (sb_State sb) \<and>
    Restarts sb < Values_Int (For (cfg_Settings base) (sb_Settings sb)) SetMaxRestarts \<and>
    (\<exists>at. NextRestart sb = Some at \<and> at \<le> fst (Now base (ext w))) \<and>
    Restarts s = Restarts sb + 1 \<and> NextRestart s = None \<and> Generation s = Generation sb + 1"
proof -
  let ?cfg = "memory_config base"
  have cfg: "cfg_Settings ?cfg = cfg_Settings base" "Now ?cfg = Now base"
    by (simp_all add: memory_config_def)
  have ID: "ID sb = i"
    using memory.known_versions [OF assms(1,3)] by simp
  have "pass_frame sb s"
    using keepsD [OF plane.passed_reconcile_found assms(5)] assms(1-4,6,7) ID unfolding plane.passed_def by auto
  then have "CanRestore (sb_State sb)" and gen: "Generation s = Generation sb + 1"
    using assms(4,7) by (auto simp: pass_frame_def CanTransition_to_Starting)
  moreover have "sb_State sb \<noteq> StateStopped"
  proof
    assume "sb_State sb = StateStopped"
    then have "w' = w" using assms(5) by (simp add: reconcile_found_def)
    with assms(3,4,6,7) show False by simp
  qed
  ultimately have "sb_State sb = StateError \<or> sb_State sb = StateCompleted"
    by (auto simp: CanRestore_def)
  then have "run_state (restart ?cfg sb) w = (r, w')"
    using assms(5) by (auto simp: reconcile_found_def)
  moreover define t where "t = fst (Now base (ext w))"
  ultimately have run: "run_state (restart_at ?cfg sb t) (w\<lparr>ext := snd (Now base (ext w))\<rparr>) = (r, w')"
    by (simp add: restart_def now_def run_outside cfg(2) split: prod.splits)
  let ?P = "\<lambda>o1. \<forall>b. o1 = Some b \<and> sb_State b = StateStarting \<longrightarrow>
    RestartDue (get_str (For (cfg_Settings base) (sb_Settings sb)) SetRestartPolicy) (sb_State sb) \<and>
    Restarts sb < Values_Int (For (cfg_Settings base) (sb_Settings sb)) SetMaxRestarts \<and>
    (\<exists>at. NextRestart sb = Some at \<and> at \<le> t) \<and> Restarts b = Restarts sb + 1 \<and> NextRestart b = None"
  have counted: "Restarts b = Restarts sb + 1 \<and> NextRestart b = None" if "restart_change t sb = Inr b" for b
    using that SetCondition_fields(3,4) by (fastforce simp: restart_change_def Transition_Inr split: sum.splits if_splits)
  have "keeps (plane.passed sb ?P) (restart_at ?cfg sb t)"
    by (rule plane.passed_restart_at) (use assms(4) counted in \<open>auto simp: cfg(1)\<close>)
  from keepsD [OF this run] have "?P (Some s)"
    using assms(1-4,6,7) ID unfolding plane.passed_def by auto
  with assms(7) gen show ?thesis by (simp add: t_def)
qed

text \<open>
  A pass that was overtaken writes nothing. Beside any other writers, when a pass writes what it saw, the
  store at that instant held the sandbox in the state and generation the pass acted on, and what is
  written is the pass's change of exactly that sandbox; everything else in the store is left.
\<close>

theorem overtaken_pass_writes_nothing:
  assumes "memory_inv (mem w)" "\<forall>g \<in> set (others w). \<forall>m. memory_later m (g m)" "\<forall>a c b c'. fn a c = (Inr b, c') \<longrightarrow> ID b = ID a"
    "run_state (guarded (memory_config base) sb fn c) w = ((Inr out, c'), w')" "out \<noteq> sb"
  shows "\<exists>m cur nxt c1. memory_later (mem w) m \<and> memory_tbl m (ID sb) = Some cur \<and> sb_State cur = sb_State sb \<and>
    Generation cur = Generation sb \<and> fn cur c1 = (Inr nxt, c') \<and> out = nxt\<lparr>ResourceVersion := rv (mem w')\<rparr> \<and>
    memory_tbl (mem w') = (memory_tbl m)(ID sb \<mapsto> out)"
proof -
  let ?cl = "\<lambda>cur c. ret (unless_stale sb fn cur c)"
  obtain r cr where mu: "run_state (Mutate memory_store (ID sb) '''' ?cl c) w = ((r, cr), w')"
    using assms(4) by (cases "run_state (Mutate memory_store (ID sb) '''' ?cl c) w") (auto simp: guarded_def)
  then have r: "r = Inr out" "cr = c'"
    using assms(4,5) by (auto simp: guarded_def split: sum.splits if_splits)
  have calm: "memory.calm w"
    using assms(1,2) by (simp add: memory.calm_def memory.tame_def)
  have "\<And>s c. keeps memory.forward (?cl s c)"
    by (rule keeps_return [OF memory.forward_refl])
  moreover have "\<And>s c w t c' w'. run_state (?cl s c) w = ((Inr t, c'), w') \<Longrightarrow> ID t = ID s"
    using assms(3) by (auto simp: unless_stale_def split: if_splits)
  ultimately have "memory.wrote_over (ID sb) '''' ?cl w out c' w'"
    using memory.Mutate_wrote_over [of ?cl, OF _ _ mu [unfolded r] calm] by blast
  then obtain w1 c1 cur nxt m where o: "memory.forward w w1" "unless_stale sb fn cur c1 = (Inr nxt, c')"
    "memory_later (mem w1) m" "memory_tbl m (ID sb) = Some cur" "out = nxt\<lparr>ResourceVersion := rv (mem w')\<rparr>"
    "memory_tbl (mem w') = (memory_tbl m)(ID sb \<mapsto> out)"
    unfolding memory.wrote_over_def by auto
  have "memory_later (mem w) m"
    using memory.forward_calm [OF o(1) calm] o(3) later_trans by metis
  moreover have "sb_State cur = sb_State sb" "Generation cur = Generation sb" "fn cur c1 = (Inr nxt, c')"
    using o(2) by (auto simp: unless_stale_def split: if_splits)
  ultimately show ?thesis
    using o by blast
qed

end
