(* ===== verification/Convergence.thy ===== *)
theory Convergence
  imports Passes
begin

text \<open>
  That passes make progress: on the memory store, alone, a pass writes what it set out to write, so that with
  the in-memory driver one pass brings a sandbox that is being provisioned, started, stopped or
  deleted to where it is meant to be. The witnesses of the theorems on passes are here too.
\<close>

section \<open>A guarded write that runs alone succeeds\<close>

lemma CheckImmutable_pass: "pass_frame a b \<Longrightarrow> CheckImmutable a b = None"
  by (auto simp: pass_frame_def CheckImmutable_def)

lemma pass_frame_valid: "pass_frame a b \<Longrightarrow> State_Valid (sb_State a) \<Longrightarrow> State_Valid (sb_State b)"
  by (auto simp: pass_frame_def dest: CanTransition_Valid)

lemma CheckIfMatch_empty: "CheckIfMatch '''' v = None"
proof -
  have "TrimSpace '''' = ''''" by code_simp
  then show ?thesis by (simp add: CheckIfMatch_def)
qed

lemma guarded_writes:
  assumes "others w = []" "memory_inv (mem w)" "memory_tbl (mem w) (ID sb) = Some sb" "fn sb c = (Inr nxt, c')" "pass_frame sb nxt"
  shows "\<exists>s m. run_state (guarded (memory_config base) sb fn c) w = ((Inr s, c'), w\<lparr>mem := m\<rparr>) \<and>
    s = nxt\<lparr>ResourceVersion := ResourceVersion s\<rparr> \<and> memory_tbl m (ID sb) = Some s \<and> memory_inv m"
proof -
  have "State_Valid (sb_State sb)"
    using assms(2,3) by (auto simp: memory_inv_def)
  then have valid: "State_Valid (sb_State nxt)" "CheckImmutable sb nxt = None" "ID nxt = ID sb"
    using assms(5) by (simp_all add: pass_frame_valid CheckImmutable_pass pass_frame_ID)
  let ?m = "mem w" and ?s = "nxt\<lparr>ResourceVersion := rv (mem w) + 1\<rparr>"
  have upd: "Memory_Update nxt (ResourceVersion sb) ?m =
      (Inr ?s, ?m\<lparr>rv := rv ?m + 1, sandboxes := AList.update (ID sb) ?s (sandboxes ?m)\<rparr>)"
    using assms(3) valid by (simp add: Memory_Update_def Let_def)
  have "run_state (Mutate memory_store (ID sb) '''' (\<lambda>cur c. ret (unless_stale sb fn cur c)) c) w =
      ((Inr ?s, c'), w\<lparr>mem := ?m\<lparr>rv := rv ?m + 1, sandboxes := AList.update (ID sb) ?s (sandboxes ?m)\<rparr>\<rparr>)"
    unfolding Mutate_def
    by (subst mutate_loop.simps)
       (use assms(1,3,4) upd in \<open>simp add: run_call_alone memory_store_def Memory_Get_def unless_stale_def CheckIfMatch_empty\<close>)
  moreover have "memory_inv (?m\<lparr>rv := rv ?m + 1, sandboxes := AList.update (ID sb) ?s (sandboxes ?m)\<rparr>)"
    using memory_inv_Update [OF assms(2), of nxt "ResourceVersion sb"] upd by simp
  ultimately show ?thesis
    by (intro exI conjI) (simp_all add: guarded_def)
qed

text \<open>What \<open>settle\<close> and \<open>observe\<close> write when nothing is in their way.\<close>

lemma still_frame:
  assumes "keeps plane.still m" "run_state m w = (a, w')" "others w = []" "memory_inv (mem w)"
  shows "memory_tbl (mem w') = memory_tbl (mem w) \<and> others w' = [] \<and> memory_inv (mem w')"
  using keepsD [OF assms(1,2)] assms(3,4) unfolding plane.acted_def by auto

lemma observe_writes:
  assumes "others w = []" "memory_inv (mem w)" "memory_tbl (mem w) (ID sb) = Some sb" "CanTransition (sb_State sb) to"
    "status \<in> {ConditionTrue, ConditionFalse, ConditionUnknown}"
    "run_state (observe (memory_config base) sb to status rsn msg) w = (r, w')"
  shows "r = None \<and> (\<exists>s. memory_tbl (mem w') (ID sb) = Some s \<and> sb_State s = to)"
proof -
  let ?cfg = "memory_config base"
  obtain t w1 where t: "run_state (now ?cfg) w = (t, w1)" by (cases "run_state (now ?cfg) w")
  then have w1: "others w1 = []" "mem w1 = mem w"
    using assms(1) by (auto simp: now_def run_outside)
  obtain s1 where s1: "(if sb_State sb \<noteq> to then Transition to t sb else Inr sb) = Inr s1" "sb_State s1 = to"
    using assms(4) by (cases "sb_State sb = to") (auto simp: Transition_def Let_def)
  obtain nxt where nxt: "SetCondition (mk_condition CondDriverReady status rsn msg) t s1 = Inr nxt"
    using SetCondition_total [of "mk_condition CondDriverReady status rsn msg" t s1] assms(5) by (auto simp: mk_condition_def)
  have change: "observe_change to status rsn msg t sb = Inr nxt"
    using s1 nxt by (simp add: observe_change_def)
  obtain s m where g: "run_state (guarded ?cfg sb (pure_change (observe_change to status rsn msg t)) ()) w1 = ((Inr s, ()), w1\<lparr>mem := m\<rparr>)"
    "s = nxt\<lparr>ResourceVersion := ResourceVersion s\<rparr>" "memory_tbl m (ID sb) = Some s" "memory_inv m"
    using guarded_writes [of w1 sb "pure_change (observe_change to status rsn msg t)" "()" nxt "()" base] w1 assms(2,3)
      pass_frame_observe [OF change] change by (auto simp: pure_change_def)
  let ?rest = "do { Service_note ?cfg s (sb_State sb) rsn; (if sb_State s = StateError then Kick (ID sb) else ret ()); ret None }"
  have rest: "run_state ?rest (w1\<lparr>mem := m\<rparr>) = (r, w')"
    using assms(6) t g(1) by (simp add: observe_def)
  have "keeps plane.still ?rest"
    by (intro plane.still_intros plane.still_note)
  from still_frame [OF this rest] g w1 have "memory_tbl (mem w') (ID sb) = Some s"
    by simp
  moreover have "sb_State s = to"
    using SetCondition_fields(1) [OF nxt] s1(2) by (subst g(2)) simp
  moreover have "r = None"
    using rest by (auto split: prod.splits)
  ultimately show ?thesis by blast
qed

lemma settle_change_ready:
  assumes "CanTransition (sb_State a) StateReady"
  shows "\<exists>b. settle_change (Inr st) False t a rsn = (Inr b, rsn) \<and> sb_State b = StateReady"
proof -
  obtain s where s: "Transition StateReady t a = Inr s" "sb_State s = StateReady"
    using assms by (simp add: Transition_def)
  obtain s1 where s1: "SetCondition (mk_condition CondDriverReady ConditionTrue rsn '''') t s = Inr s1"
    using SetCondition_total [of "mk_condition CondDriverReady ConditionTrue rsn ''''" t s] by (auto simp: mk_condition_def)
  obtain b where b: "verifiedTier st t s1 = Inr b"
    unfolding verifiedTier_def using SetCondition_total by (metis Condition.select_convs(1,2) insertI1 list.distinct(1) mk_condition_def)
  have "sb_State b = StateReady"
    using SetCondition_fields(1) [OF b [unfolded verifiedTier_def]] SetCondition_fields(1) [OF s1] s(2) by simp
  with s s1 b show ?thesis
    by (simp add: settle_change_def)
qed

lemma settle_writes:
  assumes "others w = []" "memory_inv (mem w)" "memory_tbl (mem w) (ID sb) = Some sb" "CanTransition (sb_State sb) StateReady"
    "status_Phase st = PhaseRunning" "\<not> too_weak (memory_config base) sb (Inr st)"
    "run_state (settle (memory_config base) sb (Inr st)) w = (r, w')"
  shows "r = None \<and> (\<exists>s. memory_tbl (mem w') (ID sb) = Some s \<and> sb_State s = StateReady)"
proof -
  let ?cfg = "memory_config base"
  obtain t w1 where t: "run_state (now ?cfg) w = (t, w1)" by (cases "run_state (now ?cfg) w")
  then have w1: "others w1 = []" "mem w1 = mem w"
    using assms(1) by (auto simp: now_def run_outside)
  have st: "settled_status (Inr st) = Inr st"
    using assms(5) by (simp add: settled_status_def)
  obtain nxt where nxt: "settle_change (Inr st) False t sb ''Started'' = (Inr nxt, ''Started'')" "sb_State nxt = StateReady"
    using settle_change_ready [OF assms(4)] by blast
  obtain s m where g: "run_state (guarded ?cfg sb (settle_change (Inr st) False t) ''Started'') w1 = ((Inr s, ''Started''), w1\<lparr>mem := m\<rparr>)"
    "s = nxt\<lparr>ResourceVersion := ResourceVersion s\<rparr>" "memory_tbl m (ID sb) = Some s" "memory_inv m"
    using guarded_writes [of w1 sb "settle_change (Inr st) False t" "''Started''" nxt "''Started''" base] w1 assms(2,3)
      pass_frame_settle [OF nxt(1)] nxt(1) by auto
  let ?rest = "do { Service_note ?cfg s (sb_State sb) ''Started''; (if sb_State s = StateError then Kick (ID sb) else ret ()); ret None }"
  have rest: "run_state ?rest (w1\<lparr>mem := m\<rparr>) = (r, w')"
    using assms(6,7) t g(1) st by (simp add: settle_def)
  have "keeps plane.still ?rest"
    by (intro plane.still_intros plane.still_note)
  from still_frame [OF this rest] g w1 have "memory_tbl (mem w') (ID sb) = Some s"
    by simp
  moreover have "sb_State s = StateReady"
    using nxt(2) by (subst g(2)) simp
  moreover have "r = None"
    using rest by (auto split: prod.splits)
  ultimately show ?thesis by blast
qed

section \<open>With the in-memory driver\<close>

text \<open>A control plane whose driver for a sandbox is the in-memory one, with nothing else in the way.\<close>

definition plain_plane :: "(Memory, Fake) Config \<Rightarrow> Sandbox \<Rightarrow> Fake \<Rightarrow> bool" where
  "plain_plane base sb f \<longleftrightarrow> cfg_Ownership base = None \<and> cfg_Egress base = None \<and> ReleaseWorkspace base = None \<and>
     (\<forall>x. snd (Now base x) = x) \<and> (\<forall>i x. \<exists>dir. Workspace base i x = (Inr dir, x)) \<and>
     (\<exists>sha attach forward command name caps.
        Registry_Get (sb_Driver sb) (cfg_Drivers base) = Inr (fake_driver sha attach forward command name caps)) \<and>
     Errs f = [] \<and> TierMeets (fake_tier f) (get_str (For (cfg_Settings base) (sb_Settings sb)) SetMinTier)"

lemma fake_bring_up:
  assumes "Errs (ext w) = []" "spec_ID sp = i" "i \<noteq> ''''"
  shows "\<exists>st w'. run_state (bring_up (fake_driver sha attach forward command name caps) i sb sp) w = (Inr st, w') \<and>
    status_Phase st = PhaseRunning \<and> status_Tier st = fake_tier (ext w) \<and> mem w' = mem w \<and> others w' = others w"
proof -
  have tier: "fake_tier (f\<lparr>calls := c\<rparr>) = fake_tier f" for f c
    by (simp add: fake_tier_def)
  show ?thesis
  proof (cases "map_of (instances (ext w)) i")
    case None
    with assms tier show ?thesis
      by (simp add: bring_up_def run_outside fake_defs sentinel_is_def)
  next
    case (Some p)
    with assms tier show ?thesis
      by (cases "p = PhaseRunning") (simp_all add: bring_up_def run_outside fake_defs sentinel_is_def)
  qed
qed

abbreviation fake_phase :: "Fake \<Rightarrow> string \<Rightarrow> Phase option" where
  "fake_phase f \<equiv> map_of (instances f)"

lemma plain_quiet: "plain_plane base sb f \<Longrightarrow> quiet_outside fake_phase (\<lambda>f. Errs f = []) base"
proof -
  assume plain: "plain_plane base sb f"
  then have "snd (Workspace base i x) = x" for i x
    unfolding plain_plane_def by (metis snd_conv)
  with plain show ?thesis
    by (simp add: plain_plane_def quiet_outside_def leaves_instances_def)
qed

lemma plain_spec:
  assumes "plain_plane base sb f"
  shows "\<exists>sp. run_state (spec (memory_config base) sb) w = (Inr sp, w) \<and> spec_ID sp = ID sb"
proof -
  obtain dir where "Workspace base (ID sb) (ext w) = (Inr dir, ext w)"
    using assms unfolding plain_plane_def by metis
  then show ?thesis
    using assms by (simp add: spec_def run_outside memory_config_def plain_plane_def Let_def)
qed

lemma start_completes:
  assumes "memory_inv (mem w)" "others w = []" "memory_tbl (mem w) i = Some sb" "plain_plane base sb (ext w)"
    "sb_State sb = StateProvisioning \<or> sb_State sb = StateStarting"
    "run_state (reconcile_found (memory_config base) i sb) w = (r, w')"
  shows "(\<exists>s. memory_tbl (mem w') i = Some s \<and> sb_State s = StateReady) \<and> fake_phase (ext w') i = Some PhaseRunning"
proof -
  let ?cfg = "memory_config base"
  obtain sha attach fwd command name caps where
    d: "Registry_Get (sb_Driver sb) (cfg_Drivers base) = Inr (fake_driver sha attach fwd command name caps)"
    using assms(4) unfolding plain_plane_def by blast
  let ?d = "fake_driver sha attach fwd command name caps"
  have cfg: "cfg_Drivers ?cfg = cfg_Drivers base" "cfg_Settings ?cfg = cfg_Settings base"
    by (simp_all add: memory_config_def)
  have ID: "ID sb = i" "ValidID i"
    using assms(1,3) by (auto simp: memory_inv_def)
  then have i: "i \<noteq> ''''"
    by (auto simp: ValidID_def idPrefix_def)
  obtain sp where sp: "run_state (spec ?cfg sb) w = (Inr sp, w)" "spec_ID sp = i"
    using plain_spec [OF assms(4)] ID by blast
  have "Errs (ext w) = []"
    using assms(4) by (simp add: plain_plane_def)
  from fake_bring_up [OF this sp(2) i] obtain st v where v: "run_state (bring_up ?d i sb sp) w = (Inr st, v)"
    "status_Phase st = PhaseRunning" "status_Tier st = fake_tier (ext w)" "mem v = mem w" "others v = others w"
    by blast
  have settle: "run_state (settle ?cfg sb (Inr st)) v = (r, w')"
    using assms(5,6) run_found_start [of sb ?cfg i] d cfg(1) sp v(1) by (simp add: reconcile_start_def)
  have "\<not> too_weak ?cfg sb (Inr st)"
    using assms(4) v(3) cfg(2) by (simp add: plain_plane_def too_weak_def)
  moreover have "CanTransition (sb_State sb) StateReady"
    using assms(5) CanTransition_to_Ready by blast
  ultimately obtain s where s: "memory_tbl (mem w') i = Some s" "sb_State s = StateReady"
    using settle_writes [OF _ _ _ _ v(2) _ settle] v(4,5) assms(1-3) ID by auto
  moreover have "sb_State sb \<noteq> StateReady"
    using assms(5) by auto
  moreover have "fake_phase (ext w') i = Some PhaseRunning"
    using ready_running [OF assms(1-3) _ assms(6) s d fake.driver_contract_axioms plain_quiet [OF assms(4)]]
      \<open>Errs (ext w) = []\<close> \<open>sb_State sb \<noteq> StateReady\<close> by blast
  ultimately show ?thesis by blast
qed

lemma stop_completes:
  assumes "memory_inv (mem w)" "others w = []" "memory_tbl (mem w) i = Some sb" "plain_plane base sb (ext w)"
    "sb_State sb = StateStopping" "run_state (reconcile_found (memory_config base) i sb) w = (r, w')"
  shows "(\<exists>s. memory_tbl (mem w') i = Some s \<and> sb_State s = StateStopped) \<and> fake_phase (ext w') i \<noteq> Some PhaseRunning"
proof -
  let ?cfg = "memory_config base"
  obtain sha attach fwd command name caps where
    d: "Registry_Get (sb_Driver sb) (cfg_Drivers base) = Inr (fake_driver sha attach fwd command name caps)"
    using assms(4) unfolding plain_plane_def by blast
  have cfg: "cfg_Drivers ?cfg = cfg_Drivers base" "leaves_instances fake_phase (\<lambda>f. Errs f = []) (Now ?cfg)"
    using plain_quiet [OF assms(4)] by (simp_all add: memory_config_def quiet_outside_def)
  have ID: "ID sb = i" and errs: "Errs (ext w) = []"
    using assms(1,3,4) by (auto simp: memory_inv_def plain_plane_def)
  obtain g w1 where g: "run_state (take_grace i) w = (g, w1)" by (cases "run_state (take_grace i) w")
  then have w1: "mem w1 = mem w" "others w1 = []" "ext w1 = ext w"
    using assms(2) by (auto simp: take_grace_def State_Monad.get_def State_Monad.set_def)
  obtain res f where stop: "Fake_Stop i g (ext w) = (res, f)" by (cases "Fake_Stop i g (ext w)")
  have res: "(\<exists>st. res = Inr st) \<or> (\<exists>e. res = Inl e \<and> errors_Is e DriverNotFound)" and
    f: "fake_phase f i \<noteq> Some PhaseRunning" "Errs f = []"
    using stop errs by (auto simp: fake_defs sentinel_is_def split: if_splits)
  have obs: "run_state (observe ?cfg sb StateStopped ConditionFalse ''Stopped'' '''') (w1\<lparr>ext := f\<rparr>) = (r, w')"
    using assms(5,6) d cfg(1) g w1 stop res by (auto simp: reconcile_found_def run_outside fake_driver_def)
  have "\<exists>s. memory_tbl (mem w') i = Some s \<and> sb_State s = StateStopped"
    using observe_writes [OF _ _ _ _ _ obs] w1 assms(1-3,5) ID by (auto simp: CanTransition_def)
  moreover have "keeps fake.steady (observe ?cfg sb StateStopped ConditionFalse ''Stopped'' '''')"
    unfolding observe_def by (intro fake.steady_intros fake.steady_guarded fake.steady_note cfg(2))
  from keepsD [OF this obs] f have "fake_phase (ext w') i \<noteq> Some PhaseRunning"
    by (simp add: fake.steady_def)
  ultimately show ?thesis by blast
qed

lemma delete_completes:
  assumes "memory_inv (mem w)" "others w = []" "memory_tbl (mem w) i = Some sb" "plain_plane base sb (ext w)"
    "sb_State sb = StateDeleting" "run_state (reconcile_found (memory_config base) i sb) w = (r, w')"
  shows "memory_tbl (mem w') i = None \<and> fake_phase (ext w') i = None"
proof -
  let ?cfg = "memory_config base"
  obtain sha attach fwd command name caps where
    d: "Registry_Get (sb_Driver sb) (cfg_Drivers base) = Inr (fake_driver sha attach fwd command name caps)"
    using assms(4) unfolding plain_plane_def by blast
  have ID: "ID sb = i" and errs: "Errs (ext w) = []"
    using assms(1,3,4) by (auto simp: memory_inv_def plain_plane_def)
  obtain e f where del: "Fake_Delete i (ext w) = (e, f)" by (cases "Fake_Delete i (ext w)")
  then have e: "e = None \<or> (\<exists>x. e = Some x \<and> errors_Is x DriverNotFound)"
    using errs by (auto simp: fake_defs sentinel_is_def split: if_splits)
  let ?v = "w\<lparr>ext := f\<rparr>"
  have "run_state (teardown ?cfg sb (Inr (fake_driver sha attach fwd command name caps))) w = (None, ?v)"
    using del e ID assms(4) by (auto simp: teardown_def run_outside release_held_def fake_driver_def memory_config_def plain_plane_def)
  then have obj: "run_state (delete_object ?cfg sb) ?v = (r, w')"
    using assms(5,6) d by (simp add: reconcile_found_def remove_def memory_config_def)
  define m where "m = snd (Memory_Delete i (ResourceVersion sb) (mem w))"
  have m: "Memory_Delete i (ResourceVersion sb) (mem w) = (None, m)" "memory_tbl m i = None" "memory_inv m"
    using assms(3) memory_inv_Delete [OF assms(1), of i "ResourceVersion sb"] by (simp_all add: Memory_Delete_def m_def)
  let ?rest = "do { _ \<leftarrow> record_event ?cfg (mk_event SystemPrincipal ''reconcile'' (ID sb) (Generation sb) OutcomeOK
      [(''from'', state_text StateDeleting), (''to'', ''removed'')]); ret (None :: gerror option) }"
  have "run_state ?rest (?v\<lparr>mem := m\<rparr>) = (r, w')"
    using obj m(1) assms(2) ID by (simp add: delete_object_def run_call_alone memory_store_def)
  moreover have "keeps plane.still ?rest"
    by (intro plane.still_intros plane.still_record_event)
  ultimately have gone: "memory_tbl (mem w') i = None"
    using still_frame [of ?rest "?v\<lparr>mem := m\<rparr>" r w'] m(2,3) assms(2) by simp
  with removed_torn_down [OF assms(1-3,6) gone d fake.driver_contract_axioms plain_quiet [OF assms(4)] errs] show ?thesis
    by simp
qed

text \<open>
  C6: pending work completes. On a control plane whose driver is the in-memory one and which nothing
  disturbs, a single pass makes a sandbox that is being provisioned or started ready, with its instance
  running; makes one that is stopping stopped, with no running instance; and removes one that is being
  deleted, with its instance gone.
\<close>

theorem pending_work_completes:
  assumes "memory_inv (mem w)" "others w = []" "memory_tbl (mem w) i = Some sb" "plain_plane base sb (ext w)"
    "run_state (reconcile (memory_config base) i) w = (r, w')"
  shows "case sb_State sb of
      StateProvisioning \<Rightarrow> map_option sb_State (memory_tbl (mem w') i) = Some StateReady \<and> fake_phase (ext w') i = Some PhaseRunning
    | StateStarting \<Rightarrow> map_option sb_State (memory_tbl (mem w') i) = Some StateReady \<and> fake_phase (ext w') i = Some PhaseRunning
    | StateStopping \<Rightarrow> map_option sb_State (memory_tbl (mem w') i) = Some StateStopped \<and> fake_phase (ext w') i \<noteq> Some PhaseRunning
    | StateDeleting \<Rightarrow> memory_tbl (mem w') i = None \<and> fake_phase (ext w') i = None
    | _ \<Rightarrow> True"
proof -
  have run: "run_state (reconcile_found (memory_config base) i sb) w = (r, w')"
    using assms(2-5) by (simp add: run_reconcile_alone plain_plane_def)
  show ?thesis
    using start_completes [OF assms(1-4) _ run] stop_completes [OF assms(1-4) _ run] delete_completes [OF assms(1-4) _ run]
    by (cases "sb_State sb") auto
qed

section \<open>Witnesses\<close>

lemma restart_writes:
  assumes "others w = []" "memory_inv (mem w)" "memory_tbl (mem w) (ID sb) = Some sb" "CanTransition (sb_State sb) StateStarting"
    "RestartDue (get_str (For (cfg_Settings base) (sb_Settings sb)) SetRestartPolicy) (sb_State sb)"
    "Restarts sb < Values_Int (For (cfg_Settings base) (sb_Settings sb)) SetMaxRestarts" "NextRestart sb = Some at" "at \<le> t"
    "run_state (restart_at (memory_config base) sb t) w = (r, w')"
  shows "\<exists>s. memory_tbl (mem w') (ID sb) = Some s \<and> sb_State s = StateStarting"
proof -
  let ?cfg = "memory_config base" and ?vals = "For (cfg_Settings base) (sb_Settings sb)"
  have cfg: "cfg_Settings ?cfg = cfg_Settings base"
    by (simp add: memory_config_def)
  let ?ev = "mk_event SystemPrincipal ''restart'' (ID sb) (Generation sb) ''''
    [(''policy'', get_str ?vals SetRestartPolicy), (''restarts'', FormatInt (Restarts sb + 1)), (''from'', state_text (sb_State sb))]"
  obtain e w1 where e: "run_state (record_event ?cfg (requested ?ev)) w = (e, w1)" by (cases "run_state (record_event ?cfg (requested ?ev)) w")
  from still_frame [OF plane.still_record_event e assms(1,2)]
  have w1: "memory_tbl (mem w1) = memory_tbl (mem w)" "others w1 = []" "memory_inv (mem w1)" by simp_all
  have "e = None"
    using e assms(1)
    by (auto simp: record_event_def mk_event_def requested_def now_def run_outside run_call_alone memory_audit_def Memory_Append_def split: prod.splits)
  obtain s1 where s1: "Transition StateStarting t sb = Inr s1" "sb_State s1 = StateStarting"
    using assms(4) by (simp add: Transition_def)
  obtain nxt where nxt: "SetCondition (mk_condition CondRestartScheduled ConditionFalse ''Restarted'' '''') t
      (s1\<lparr>Restarts := Restarts s1 + 1, NextRestart := None\<rparr>) = Inr nxt"
    using SetCondition_total [of "mk_condition CondRestartScheduled ConditionFalse ''Restarted'' ''''"] by (auto simp: mk_condition_def)
  then have change: "restart_change t sb = Inr nxt"
    using s1 by (simp add: restart_change_def)
  obtain s m where g: "run_state (guarded ?cfg sb (pure_change (restart_change t)) ()) w1 = ((Inr s, ()), w1\<lparr>mem := m\<rparr>)"
    "s = nxt\<lparr>ResourceVersion := ResourceVersion s\<rparr>" "memory_tbl m (ID sb) = Some s" "memory_inv m"
    using guarded_writes [of w1 sb "pure_change (restart_change t)" "()" nxt "()" base] w1 assms(3) pass_frame_restart [OF change] change
    by (auto simp: pure_change_def)
  have s: "sb_State s = StateStarting"
    using SetCondition_fields(1) [OF nxt] s1(2) by (subst g(2)) simp
  let ?rest = "do { outcome ?cfg (?ev\<lparr>ev_Generation := Generation s\<rparr>) None; Kick (ID sb); ret (None :: gerror option) }"
  have "run_state ?rest (w1\<lparr>mem := m\<rparr>) = (r, w')"
    using assms(5-9) e \<open>e = None\<close> g(1) s by (simp add: restart_at_def cfg Let_def recorded_def err_of_def)
  moreover have "keeps plane.still ?rest"
    by (intro plane.still_intros plane.still_outcome)
  ultimately have "memory_tbl (mem w') (ID sb) = Some s"
    using still_frame [of ?rest "w1\<lparr>mem := m\<rparr>" r w'] g(3,4) w1 by simp
  with s show ?thesis by blast
qed

text \<open>The sample control plane with restarts on, and its one sandbox in a given state, due for a restart.\<close>

definition sample_base :: "(Memory, Fake) Config" where
  "sample_base = sample_config\<lparr>cfg_Settings := \<lparr>global = [(SetRestartPolicy, ''always''), (SetMaxRestarts, ''3'')], ceiling = [], source = []\<rparr>\<rparr>"

definition sample_in :: "State \<Rightarrow> Sandbox" where
  "sample_in st = sample_sandbox\<lparr>sb_State := st, ResourceVersion := 1, NextRestart := Some 5\<rparr>"

definition sample_plane_in :: "State \<Rightarrow> (Memory, Fake) service" where
  "sample_plane_in st = sample_plane\<lparr>mem := sample_memory\<lparr>sandboxes := [(ID sample_sandbox, sample_in st)]\<rparr>\<rparr>"

definition sample_pass :: "State \<Rightarrow> gerror option \<times> (Memory, Fake) service" where
  "sample_pass st = run_state (reconcile_found (memory_config sample_base) (ID sample_sandbox) (sample_in st)) (sample_plane_in st)"

lemma sample_pass_run:
  "run_state (reconcile_found (memory_config sample_base) (ID sample_sandbox) (sample_in st)) (sample_plane_in st) = (fst (sample_pass st), snd (sample_pass st))"
  by (simp add: sample_pass_def)

lemma sample_plane_in_ok:
  assumes "State_Valid st"
  shows "memory_inv (mem (sample_plane_in st))" "others (sample_plane_in st) = []"
    "memory_tbl (mem (sample_plane_in st)) (ID sample_sandbox) = Some (sample_in st)" "Errs (ext (sample_plane_in st)) = []"
    "sb_State (sample_in st) = st" "ID (sample_in st) = ID sample_sandbox"
proof -
  have "memory_tbl sample_memory (ID sample_sandbox) = Some (sample_sandbox\<lparr>ResourceVersion := 1\<rparr>)"
    by (simp add: sample_memory_def)
  then have "ValidID (ID sample_sandbox)"
    using sample_memory_inv unfolding memory_inv_def by blast
  then show "memory_inv (mem (sample_plane_in st))"
    using assms by (simp add: memory_inv_def sample_plane_in_def sample_in_def sample_memory_def NewMemory_def wf_map_def)
qed (simp_all add: sample_plane_in_def sample_in_def sample_plane_def Fake_New_def)

lemma sample_reconcile:
  "run_state (reconcile (memory_config sample_base) (ID sample_sandbox)) (sample_plane_in st) = (fst (sample_pass st), snd (sample_pass st))"
  if "State_Valid st"
  using sample_plane_in_ok [OF that] by (simp add: run_reconcile_alone sample_pass_def sample_base_def sample_config_def)

lemma sample_values:
  "get_str (For (cfg_Settings sample_base) []) SetMinTier = ''''" "get_str (For (cfg_Settings sample_base) []) SetRestartPolicy = ''always''"
  "get_str (For (cfg_Settings sample_base) []) SetMaxRestarts = ''3''"
  using get_For [of "Registry ! 5" "cfg_Settings sample_base" "[]"] get_For [of "Registry ! 2" "cfg_Settings sample_base" "[]"]
    get_For [of "Registry ! 3" "cfg_Settings sample_base" "[]"]
  by (simp_all add: Registry_def setting_def in_force_def sample_base_def get_str_def)

lemma sample_driver: "Registry_Get (sb_Driver (sample_in st)) (cfg_Drivers sample_base) =
    Inr (fake_driver id (\<lambda>i q f. (Inr 0, f)) (\<lambda>i q f. (Inr 0, f)) (\<lambda>i q f. (Inr 0, f)) ''process'' [])"
  by (simp add: Registry_Get_def sample_in_def sample_sandbox_def sample_base_def sample_config_def)

lemma sample_plain: "plain_plane sample_base (sample_in st) (ext (sample_plane_in st))"
proof -
  have "TierMeets t ''''" for t
    by (simp add: TierMeets_def)
  moreover have "sb_Settings (sample_in st) = []"
    by (simp add: sample_in_def sample_sandbox_def)
  moreover have "cfg_Ownership sample_base = None" "cfg_Egress sample_base = None" "ReleaseWorkspace sample_base = None"
    "Now sample_base = (\<lambda>x. (7, x))" "Workspace sample_base = (\<lambda>i x. (Inr ''/ws'', x))"
    by (simp_all add: sample_base_def sample_config_def)
  moreover have "Errs (ext (sample_plane_in st)) = []"
    by (simp add: sample_plane_in_def sample_plane_def Fake_New_def)
  ultimately show ?thesis
    unfolding plain_plane_def using sample_driver [of st] sample_values(1) by (intro conjI) (simp, simp, simp, simp, simp, blast, simp, simp)
qed

theorem pending_work_completes_witness:
  "map_option sb_State (memory_tbl (mem (snd (sample_pass StateStopping))) (ID sample_sandbox)) = Some StateStopped"
  using pending_work_completes [OF sample_plane_in_ok(1-3) sample_plain sample_reconcile, of StateStopping]
  by (simp add: State_Valid_def sample_plane_in_ok(5))

theorem pass_changes_only_its_sandbox_witness: "memory_inv (mem (snd (sample_pass StateStopping)))"
  using pass_changes_only_its_sandbox [OF sample_plane_in_ok(1,2) sample_reconcile, of StateStopping]
  by (simp add: State_Valid_def)


theorem removed_means_torn_down_witness:
  "memory_tbl (mem (snd (sample_pass StateDeleting))) (ID sample_sandbox) = None \<and>
   map_of (instances (ext (snd (sample_pass StateDeleting)))) (ID sample_sandbox) = None"
proof -
  have valid: "State_Valid StateDeleting" by (simp add: State_Valid_def)
  have gone: "memory_tbl (mem (snd (sample_pass StateDeleting))) (ID sample_sandbox) = None"
    using delete_completes [OF sample_plane_in_ok(1-3) sample_plain _ sample_pass_run, OF valid valid valid] sample_plane_in_ok(5) [OF valid] by auto
  note torn = removed_means_torn_down [OF sample_plane_in_ok(1-3) sample_pass_run gone, OF valid valid valid]
  have "\<exists>d. Registry_Get (sb_Driver (sample_in StateDeleting)) (cfg_Drivers sample_base) = Inr d \<and>
      (driver_contract d fake_phase (\<lambda>f. Errs f = []) \<and> quiet_outside fake_phase (\<lambda>f. Errs f = []) sample_base \<and>
       Errs (ext (sample_plane_in StateDeleting)) = [] \<longrightarrow> map_of (instances (ext (snd (sample_pass StateDeleting)))) (ID sample_sandbox) = None)"
    using torn [of fake_phase "\<lambda>f. Errs f = []"] by blast
  then show ?thesis
    using gone sample_driver [of StateDeleting] fake.driver_contract_axioms plain_quiet [OF sample_plain [of StateDeleting]] sample_plane_in_ok(4) [OF valid] by auto
qed

theorem restart_within_policy_witness:
  "\<exists>s. memory_tbl (mem (snd (sample_pass StateError))) (ID sample_sandbox) = Some s \<and> Restarts s = 1 \<and> NextRestart s = None"
proof -
  have valid: "State_Valid StateError" by (simp add: State_Valid_def)
  let ?sb = "sample_in StateError" and ?w = "sample_plane_in StateError"
  have fields: "sb_Settings ?sb = []" "Restarts ?sb = 0" "NextRestart ?sb = Some 5" "sb_State ?sb = StateError" "Now sample_base = (\<lambda>x. (7, x))"
    "ID ?sb = ID sample_sandbox"
    by (simp_all add: sample_in_def sample_sandbox_def sample_base_def sample_config_def)
  have run: "run_state (restart_at (memory_config sample_base) ?sb 7) ?w = (fst (sample_pass StateError), snd (sample_pass StateError))"
    using sample_pass_run [of StateError] fields
    by (simp add: reconcile_found_def restart_def now_def run_outside memory_config_def)
  have "Values_Int (For (cfg_Settings sample_base) []) SetMaxRestarts = 3"
    by (simp add: Values_Int_def sample_values(3)) code_simp
  then obtain s where s: "memory_tbl (mem (snd (sample_pass StateError))) (ID sample_sandbox) = Some s" "sb_State s = StateStarting"
    using restart_writes [OF sample_plane_in_ok(2,1) _ _ _ _ fields(3) _ run, OF valid valid] sample_plane_in_ok(3) [OF valid] fields sample_values(2)
    by (auto simp: CanTransition_def RestartDue_def)
  with restart_within_policy [OF sample_plane_in_ok(1-3) _ sample_pass_run s, OF valid valid valid] fields show ?thesis
    by simp
qed

theorem overtaken_pass_writes_nothing_witness:
  "\<exists>m cur. memory_later sample_memory m \<and> memory_tbl m (ID sample_sandbox) = Some cur \<and> sb_State cur = StateReady \<and>
     memory_tbl (mem (snd (run_state (guarded (memory_config sample_config) (sample_sandbox\<lparr>ResourceVersion := 1\<rparr>)
       (pure_change (\<lambda>s. Inr (s\<lparr>Restarts := 4\<rparr>))) ()) sample_plane))) (ID sample_sandbox) =
     Some (sample_sandbox\<lparr>ResourceVersion := 2, Restarts := 4\<rparr>)"
proof -
  let ?sb = "sample_sandbox\<lparr>ResourceVersion := 1\<rparr>" and ?f = "pure_change (\<lambda>s. Inr (s\<lparr>Restarts := 4\<rparr>))"
  let ?run = "run_state (guarded (memory_config sample_config) ?sb ?f ()) sample_plane"
  have "fst ?run = (Inr (sample_sandbox\<lparr>ResourceVersion := 2, Restarts := 4\<rparr>), ())" "rv (mem (snd ?run)) = 2"
    by code_simp+
  then have run: "?run = ((Inr (sample_sandbox\<lparr>ResourceVersion := 2, Restarts := 4\<rparr>), ()), snd ?run)"
    by (metis prod.collapse)
  have "\<forall>a c b c'. ?f a c = (Inr b, c') \<longrightarrow> ID b = ID a"
    by (auto simp: pure_change_def)
  from overtaken_pass_writes_nothing [OF sample_plane_ok(1) _ this run] sample_plane_ok(2,3)
  show ?thesis
    by (auto simp: sample_sandbox_def)
qed

end
