(* ===== verification/Scheduler.thy ===== *)
theory Scheduler
  imports Convergence
begin

text \<open>
  When passes run: the marks of \<^verbatim>\<open>reconcile.go\<close> (\<open>dispatch\<close>, \<open>done\<close>, \<open>forget\<close>, \<open>Reconcile\<close>, \<open>unhold\<close>, \<open>holdPass\<close>), the
  sweep \<open>all\<close>, and \<open>Running\<close> and \<open>Ready\<close>. Every function that takes the service's lock is one step on its
  marks. The goroutines, the direct calls and the holders of a pass are workers; \<open>sched_step\<close> interleaves them
  with the loop of \<open>Run\<close>, with kicks from anywhere and with whatever a pass does meanwhile.
\<close>

section \<open>Marks\<close>

definition set_inflight :: "string \<Rightarrow> (('m, 'x) service, unit) state" where
  "set_inflight i = State_Monad.update (\<lambda>w. w\<lparr>inflight := AList.update i True (inflight w)\<rparr>)"

text \<open>The locked part of \<open>dispatch\<close>: whether a goroutine is started for \<open>i\<close>.\<close>

definition dispatch :: "string \<Rightarrow> (('m, 'x) service, bool) state" where
  "dispatch i = do {
     w \<leftarrow> State_Monad.get;
     (if get_bool (inflight w) i
      then do { State_Monad.set (w\<lparr>again := AList.update i True (again w)\<rparr>); ret False }
      else do { set_inflight i; ret True })
   }"

definition pass_done :: "string \<Rightarrow> (('m, 'x) service, bool) state" where
  "pass_done i = do {
     w \<leftarrow> State_Monad.get;
     (if get_bool (again w) i
      then do { State_Monad.set (w\<lparr>again := AList.delete i (again w)\<rparr>); ret True }
      else do { State_Monad.set (w\<lparr>inflight := AList.delete i (inflight w)\<rparr>); ret False })
   }"

definition forget :: "string \<Rightarrow> (('m, 'x) service, unit) state" where
  "forget i = State_Monad.update (\<lambda>w. w\<lparr>inflight := AList.delete i (inflight w), again := AList.delete i (again w)\<rparr>)"

text \<open>The locked part of \<open>Reconcile\<close> and of one turn of \<open>holdPass\<close>: whether the marks of \<open>i\<close> were taken.\<close>

definition try_hold :: "string \<Rightarrow> (('m, 'x) service, bool) state" where
  "try_hold i = do {
     w \<leftarrow> State_Monad.get;
     (if get_bool (inflight w) i then ret False else do { set_inflight i; ret True })
   }"

definition unhold :: "string \<Rightarrow> bool \<Rightarrow> (('m, 'x) service, unit) state" where
  "unhold i kick = do {
     w \<leftarrow> State_Monad.get;
     forget i;
     (if get_bool (again w) i \<or> kick then Kick i else ret ())
   }"

definition Service_Reconcile :: "('m, 'x) Config \<Rightarrow> string \<Rightarrow> (('m, 'x) service, gerror option) state" where
  "Service_Reconcile cfg i = do {
     mine \<leftarrow> try_hold i;
     (if \<not> mine then ret None
      else do { err \<leftarrow> reconcile cfg i; unhold i False; ret err })
   }"

section \<open>Sweeping and readiness\<close>

definition Service_Running :: "(('m, 'x) service, bool) state" where
  "Service_Running = do { w \<leftarrow> State_Monad.get; ret (running w) }"

definition Service_Ready :: "('m, 'x) Config \<Rightarrow> (('m, 'x) service, gerror option) state" where
  "Service_Ready cfg = do {
     up \<leftarrow> Service_Running;
     (if \<not> up then ret (Some (Errorf [Sentinel ErrUnavailable] ''the reconciler is not running''))
      else do {
        r \<leftarrow> call (\<lambda>m. (st_List (cfg_Store cfg) (list_all_options\<lparr>lo_Limit := 1\<rparr>) m, m));
        ret (case r of
            Some (Inr found) \<Rightarrow> None
          | _ \<Rightarrow> Some (Errorf [Sentinel ErrUnavailable] ''the store does not answer''))
      })
   }"

fun dispatch_each :: "Sandbox list \<Rightarrow> (('m, 'x) service, string list) state" where
  "dispatch_each [] = ret []"
| "dispatch_each (sb # sbs) =
     (if sb_State sb \<noteq> StateStopped
      then do {
        new \<leftarrow> dispatch (ID sb);
        more \<leftarrow> dispatch_each sbs;
        ret (if new then ID sb # more else more)
      }
      else dispatch_each sbs)"

text \<open>
  The loop of \<open>all\<close> from \<open>after\<close>. \<open>live\<close> is what \<open>ctx.Err() == nil\<close> says at the head of each turn, in order. The
  result is the ids goroutines were started for, or \<^const>\<open>None\<close> when the loop was still going after as many turns as \<open>live\<close> has.
\<close>

fun sweep_from :: "('m, 'x) Config \<Rightarrow> bool list \<Rightarrow> string \<Rightarrow> (('m, 'x) service, string list option) state" where
  "sweep_from cfg [] after = ret None"
| "sweep_from cfg (alive # live) after =
     (if \<not> alive then ret (Some [])
      else do {
        got \<leftarrow> call (\<lambda>m. (st_List (cfg_Store cfg) (list_all_options\<lparr>lo_Limit := MaxLimit, lo_After := after\<rparr>) m, m));
        (case got of
           None \<Rightarrow> ret None
         | Some (Inl e) \<Rightarrow> ret (Some [])
         | Some (Inr found) \<Rightarrow> do {
             started \<leftarrow> dispatch_each (fst found);
             (if snd found = '''' then ret (Some started)
              else do { more \<leftarrow> sweep_from cfg live (snd found); ret (map_option ((@) started) more) })
           })
      })"

section \<open>Workers\<close>

text \<open>
  A worker of a sandbox: a goroutine of \<open>dispatch\<close> that waits for one of the eight slots or makes a pass in one, a
  call of \<open>Reconcile\<close>, or a holder of \<open>holdPass\<close>.
\<close>

datatype worker = Waiting | Passing | Direct | Holding

text \<open>The service, whether the context \<open>Run\<close> was given has ended, and the workers.\<close>

type_synonym ('m, 'x) sched = "('m, 'x) service \<times> bool \<times> (string \<times> worker) list"

abbreviation slots :: nat where
  "slots \<equiv> 8"

definition passing :: "(string \<times> worker) list \<Rightarrow> nat" where
  "passing ts = length (filter (\<lambda>t. snd t = Passing) ts)"

text \<open>
  \<open>same_marks\<close>: what may happen while no function of this theory runs, a pass, a request and the clock included:
  the marks stay, and kicks are only added.
\<close>

definition same_marks :: "('m, 'x) service \<Rightarrow> ('m, 'x) service \<Rightarrow> bool" where
  "same_marks w w' \<longleftrightarrow> inflight w' = inflight w \<and> again w' = again w \<and> (\<exists>ks. kicks w' = kicks w @ ks)"

text \<open>
  A goroutine that waits for a slot gives up only once the context has ended, and then may also still be given one, as \<open>select\<close> takes either.
  \<open>Run\<close> returns after the goroutines it started have, and may then be called again with another context.\<close>

inductive sched_step :: "('m, 'x) sched \<Rightarrow> ('m, 'x) sched \<Rightarrow> bool" where
  start: "run_state (dispatch i) w = (True, w') \<Longrightarrow> sched_step (w, d, ts) (w', d, ts @ [(i, Waiting)])"
| remark: "run_state (dispatch i) w = (False, w') \<Longrightarrow> sched_step (w, d, ts) (w', d, ts)"
| take_start: "kicks w = i # ks \<Longrightarrow> run_state (dispatch i) (w\<lparr>kicks := ks\<rparr>) = (True, w') \<Longrightarrow> sched_step (w, d, ts) (w', d, ts @ [(i, Waiting)])"
| take_remark: "kicks w = i # ks \<Longrightarrow> run_state (dispatch i) (w\<lparr>kicks := ks\<rparr>) = (False, w') \<Longrightarrow> sched_step (w, d, ts) (w', d, ts)"
| slot: "passing (xs @ ys) < slots \<Longrightarrow> sched_step (w, d, xs @ (i, Waiting) # ys) (w, d, xs @ (i, Passing) # ys)"
| cancelled: "run_state (forget i) w = ((), w') \<Longrightarrow> sched_step (w, True, xs @ (i, Waiting) # ys) (w', True, xs @ ys)"
| once_more: "run_state (pass_done i) w = (True, w') \<Longrightarrow> sched_step (w, d, xs @ (i, Passing) # ys) (w', d, xs @ (i, Waiting) # ys)"
| finished: "run_state (pass_done i) w = (False, w') \<Longrightarrow> sched_step (w, d, xs @ (i, Passing) # ys) (w', d, xs @ ys)"
| direct: "run_state (try_hold i) w = (True, w') \<Longrightarrow> sched_step (w, d, ts) (w', d, ts @ [(i, Direct)])"
| direct_end: "run_state (unhold i False) w = ((), w') \<Longrightarrow> sched_step (w, d, xs @ (i, Direct) # ys) (w', d, xs @ ys)"
| hold: "run_state (try_hold i) w = (True, w') \<Longrightarrow> sched_step (w, d, ts) (w', d, ts @ [(i, Holding)])"
| hold_end: "run_state (unhold i True) w = ((), w') \<Longrightarrow> sched_step (w, d, xs @ (i, Holding) # ys) (w', d, xs @ ys)"
| work: "same_marks w w' \<Longrightarrow> sched_step (w, d, ts) (w', d, ts)"
| ctx_ends: "sched_step (w, d, ts) (w, True, ts)"
| run_again: "\<forall>t \<in> set ts. snd t \<noteq> Waiting \<and> snd t \<noteq> Passing \<Longrightarrow> sched_step (w, d, ts) (w, False, ts)"

inductive_cases sched_stepE: "sched_step s s'"

definition sched_inv :: "('m, 'x) sched \<Rightarrow> bool" where
  "sched_inv s \<longleftrightarrow> distinct (map fst (snd (snd s))) \<and> passing (snd (snd s)) \<le> slots \<and>
     (\<forall>i. get_bool (inflight (fst s)) i \<longleftrightarrow> i \<in> set (map fst (snd (snd s)))) \<and>
     (\<forall>i. get_bool (again (fst s)) i \<longrightarrow> get_bool (inflight (fst s)) i)"

lemma get_bool_update [simp]: "get_bool (AList.update k v m) i = (if i = k then v else get_bool m i)"
  by (simp add: get_bool_def update_conv')

lemma get_bool_delete [simp]: "get_bool (AList.delete k m) i = (i \<noteq> k \<and> get_bool m i)"
  by (simp add: get_bool_def delete_conv')

lemmas mark_defs = dispatch_def pass_done_def forget_def try_hold_def unhold_def set_inflight_def Kick_def
  State_Monad.update_def State_Monad.get_def State_Monad.set_def

lemma run_dispatch: "run_state (dispatch i) w =
  (if get_bool (inflight w) i then (False, w\<lparr>again := AList.update i True (again w)\<rparr>)
   else (True, w\<lparr>inflight := AList.update i True (inflight w)\<rparr>))"
  by (simp add: mark_defs)

lemma run_pass_done: "run_state (pass_done i) w =
  (if get_bool (again w) i then (True, w\<lparr>again := AList.delete i (again w)\<rparr>)
   else (False, w\<lparr>inflight := AList.delete i (inflight w)\<rparr>))"
  by (simp add: mark_defs)

lemma run_forget: "run_state (forget i) w = ((), w\<lparr>inflight := AList.delete i (inflight w), again := AList.delete i (again w)\<rparr>)"
  by (simp add: mark_defs)

lemma run_try_hold: "run_state (try_hold i) w =
  (if get_bool (inflight w) i then (False, w) else (True, w\<lparr>inflight := AList.update i True (inflight w)\<rparr>))"
  by (simp add: mark_defs)

lemma run_unhold: "run_state (unhold i kick) w = ((), w\<lparr>inflight := AList.delete i (inflight w), again := AList.delete i (again w),
    kicks := kicks w @ (if (get_bool (again w) i \<or> kick) \<and> length (kicks w) < 256 then [i] else [])\<rparr>)"
  by (simp add: mark_defs)

lemmas run_marks = run_dispatch run_pass_done run_forget run_try_hold run_unhold

lemma passing_simps [simp]: "passing [] = 0" "passing (xs @ ys) = passing xs + passing ys"
  "passing ((i, p) # ys) = (if p = Passing then 1 else 0) + passing ys"
  by (simp_all add: passing_def)

lemma sched_invI:
  assumes "distinct (map fst ts)" "passing ts \<le> slots" "\<And>i. get_bool (inflight w) i \<longleftrightarrow> i \<in> set (map fst ts)"
    "\<And>i. get_bool (again w) i \<Longrightarrow> i \<in> set (map fst ts)"
  shows "sched_inv (w, d, ts)"
  using assms by (simp add: sched_inv_def)

lemma sched_invD:
  assumes "sched_inv (w, d, ts)"
  shows "distinct (map fst ts)" "passing ts \<le> slots" "get_bool (inflight w) i \<longleftrightarrow> i \<in> set (map fst ts)"
    "\<forall>i. get_bool (again w) i \<longrightarrow> i \<in> set (map fst ts)"
  using assms by (auto simp: sched_inv_def simp del: set_map)

lemma sched_inv_step:
  assumes "sched_step s s'" "sched_inv s"
  shows "sched_inv s'"
  using assms
proof (induction rule: sched_step.induct)
  case (start i w w' d ts)
  note inv = sched_invD [OF start(2)]
  from start(1) inv show ?case
    by (intro sched_invI) (auto simp: run_marks simp del: set_map split: if_splits)
next
  case (remark i w w' d ts)
  note inv = sched_invD [OF remark(2)]
  from remark(1) inv show ?case
    by (intro sched_invI) (auto simp: run_marks simp del: set_map split: if_splits)
next
  case (take_start w i ks w' d ts)
  note inv = sched_invD [OF take_start(3)]
  from take_start(2) inv show ?case
    by (intro sched_invI) (auto simp: run_marks simp del: set_map split: if_splits)
next
  case (take_remark w i ks w' d ts)
  note inv = sched_invD [OF take_remark(3)]
  from take_remark(2) inv show ?case
    by (intro sched_invI) (auto simp: run_marks simp del: set_map split: if_splits)
next
  case (slot xs ys w d i)
  note inv = sched_invD [OF slot(2)]
  from slot(1) inv(1,2) inv(3,4) show ?case
    by (intro sched_invI) (auto simp del: set_map)
next
  case (cancelled i w w' xs ys)
  note inv = sched_invD [OF cancelled(2)]
  from cancelled(1) inv show ?case
    by (intro sched_invI) (auto simp: run_marks simp del: set_map split: if_splits)
next
  case (once_more i w w' d xs ys)
  note inv = sched_invD [OF once_more(2)]
  from once_more(1) inv show ?case
    by (intro sched_invI) (auto simp: run_marks simp del: set_map split: if_splits)
next
  case (finished i w w' d xs ys)
  note inv = sched_invD [OF finished(2)]
  from finished(1) inv show ?case
    by (intro sched_invI) (auto simp: run_marks simp del: set_map split: if_splits)
next
  case (direct i w w' d ts)
  note inv = sched_invD [OF direct(2)]
  from direct(1) inv show ?case
    by (intro sched_invI) (auto simp: run_marks simp del: set_map split: if_splits)
next
  case (direct_end i w w' d xs ys)
  note inv = sched_invD [OF direct_end(2)]
  from direct_end(1) inv show ?case
    by (intro sched_invI) (auto simp: run_marks simp del: set_map split: if_splits)
next
  case (hold i w w' d ts)
  note inv = sched_invD [OF hold(2)]
  from hold(1) inv show ?case
    by (intro sched_invI) (auto simp: run_marks simp del: set_map split: if_splits)
next
  case (hold_end i w w' d xs ys)
  note inv = sched_invD [OF hold_end(2)]
  from hold_end(1) inv show ?case
    by (intro sched_invI) (auto simp: run_marks simp del: set_map split: if_splits)
next
  case (work w w' d ts)
  note inv = sched_invD [OF work(2)]
  from work(1) inv show ?case
    by (intro sched_invI) (auto simp: same_marks_def simp del: set_map)
qed (auto simp: sched_inv_def)

lemma sched_inv_New: "sched_inv (snd (Service_New cfg m x), False, [])"
  by (simp add: sched_inv_def Service_New_def get_bool_def)

text \<open>A pass or a request leaves the marks to the functions above.\<close>

lemma same_marks_refl: "reflp same_marks"
  by (simp add: reflp_def same_marks_def)

lemma same_marks_trans: "transp same_marks"
  by (auto simp: transp_def same_marks_def)

lemma marks_call: "keeps same_marks (call f)"
  by (rule keepsI) (auto simp: call_def same_marks_def split: prod.splits)

lemma marks_outside: "keeps same_marks (outside f)"
  by (rule keepsI) (auto simp: run_outside same_marks_def)

lemma marks_Kick: "keeps same_marks (Kick i)"
  unfolding Kick_def by (rule keeps_update) (simp add: same_marks_def)

lemma marks_get: "keeps same_marks State_Monad.get"
  by (rule keeps_get [OF same_marks_refl])

lemma marks_update: "(\<And>w. same_marks w (f w)) \<Longrightarrow> keeps same_marks (State_Monad.update f)"
  by (rule keeps_update)

lemma marks_take_grace: "keeps same_marks (take_grace i)"
  by (rule keepsI) (auto simp: take_grace_def State_Monad.get_def State_Monad.set_def same_marks_def)

lemmas marks_intros = keeps_intros same_marks_refl same_marks_trans marks_call marks_outside marks_Kick marks_get

lemma marks_record_event: "keeps same_marks (record_event cfg ev)"
  unfolding record_event_def now_def by (intro marks_intros)

lemma marks_guarded: "keeps same_marks (guarded cfg sb fn c)"
  unfolding guarded_def by (intro marks_intros keeps_Mutate)

lemma marks_settle: "keeps same_marks (settle cfg sb res)"
  unfolding settle_def Service_note_def now_def by (intro marks_intros marks_guarded marks_record_event)

lemma marks_observe: "keeps same_marks (observe cfg sb to status rsn msg)"
  unfolding observe_def Service_note_def now_def by (intro marks_intros marks_guarded marks_record_event)

lemma marks_restart: "keeps same_marks (restart cfg sb)"
  unfolding restart_def restart_at_def recorded_def outcome_def now_def Let_def
  by (intro marks_intros marks_guarded marks_record_event marks_update) (simp add: same_marks_def)

lemma marks_remove: "keeps same_marks (remove cfg sb d)"
  unfolding remove_def teardown_def release_held_def delete_failed_def delete_object_def now_def
  by (intro marks_intros marks_guarded marks_record_event)

lemma marks_watch: "keeps same_marks (watch cfg sb res)"
  unfolding watch_def now_def by (intro marks_intros marks_guarded marks_settle marks_observe)

lemma marks_bring_up: "keeps same_marks (bring_up d i sb sp)"
  unfolding bring_up_def by (intro marks_intros)

lemma marks_spec: "keeps same_marks (spec cfg sb)"
  unfolding spec_def by (intro marks_intros)

lemma marks_reconcile_found: "keeps same_marks (reconcile_found cfg i sb)"
  unfolding reconcile_found_def reconcile_start_def Let_def
  by (cases "sb_State sb"; simp)
     (intro marks_intros marks_settle marks_observe marks_watch marks_restart marks_remove marks_take_grace marks_spec marks_bring_up)+

lemma marks_reconcile: "keeps same_marks (reconcile cfg i)"
  unfolding reconcile_def by (intro marks_intros marks_reconcile_found)

section \<open>What the scheduler promises\<close>

lemma sched_reachable_inv: "sched_step\<^sup>*\<^sup>* s s' \<Longrightarrow> sched_inv s \<Longrightarrow> sched_inv s'"
  by (induction rule: rtranclp_induct) (auto intro: sched_inv_step)

text \<open>
  C4: at most one pass per sandbox. From the start of the service on, however dispatches, kicks, direct
  reconciles, holds, passes and requests interleave, no sandbox ever has two workers, at most eight
  goroutines make a pass at once, a sandbox is marked in flight exactly while it has a worker, and a further
  pass is only ever owed to one that has.
\<close>

theorem one_pass_per_sandbox:
  assumes "sched_step\<^sup>*\<^sup>* (snd (Service_New cfg m x), False, []) (w, d, ts)"
  shows "distinct (map fst ts) \<and> length (filter (\<lambda>t. snd t = Passing) ts) \<le> 8 \<and>
    (\<forall>i. get_bool (inflight w) i \<longleftrightarrow> i \<in> fst ` set ts) \<and> (\<forall>i. get_bool (again w) i \<longrightarrow> i \<in> fst ` set ts)"
  using sched_reachable_inv [OF assms sched_inv_New] by (auto simp: sched_inv_def passing_def)

theorem one_pass_per_sandbox_witness:
  "\<exists>w :: (Memory, Fake) service. sched_step\<^sup>*\<^sup>* (snd (Service_New sample_config sample_memory (Fake_New ''process'' [])), False, []) (w, False, [(''a'', Waiting)]) \<and>
     get_bool (inflight w) ''a''"
proof -
  let ?w0 = "snd (Service_New sample_config sample_memory (Fake_New ''process'' []))"
  let ?w1 = "snd (run_state (dispatch ''a'') ?w0)"
  have "run_state (dispatch ''a'') ?w0 = (True, ?w1)"
    by (simp add: run_dispatch Service_New_def get_bool_def)
  from r_into_rtranclp [of sched_step, OF sched_step.start [OF this, of False "[]"]] have "sched_step\<^sup>*\<^sup>* (?w0, False, []) (?w1, False, [(''a'', Waiting)])"
    by simp
  moreover from one_pass_per_sandbox [OF this] have "get_bool (inflight ?w1) ''a''"
    by simp
  ultimately show ?thesis by blast
qed

text \<open>\<open>owed i s\<close>: a pass over \<open>i\<close> is still to come; a goroutine waits to make it, one is to be made again, or a kick is queued.\<close>

definition owed :: "string \<Rightarrow> ('m, 'x) sched \<Rightarrow> bool" where
  "owed i s \<longleftrightarrow> (i, Waiting) \<in> set (snd (snd s)) \<or> get_bool (again (fst s)) i \<or> i \<in> set (kicks (fst s))"

text \<open>
  C5: no dispatch is lost. After a dispatch of a sandbox a pass over it is owed, and from then on every step
  keeps it owed, but for three: a goroutine that waited to make a pass over this very sandbox begins it; the goroutine
  that waited gives up, which it does only once the context given to \<open>Run\<close> has ended; or a direct call or a hold of this very
  sandbox ends while 256 kicks are queued, which is all the queue takes, and the next sweep makes that good.
\<close>

theorem dispatch_not_lost:
  "(run_state (dispatch i) w = (True, w1) \<longrightarrow> owed i (w1, d, ts @ [(i, Waiting)])) \<and>
    (run_state (dispatch i) w = (False, w1) \<longrightarrow> owed i (w1, d, ts)) \<and>
    (owed i (w, d, ts) \<and> sched_step (w, d, ts) (w', d', ts') \<longrightarrow>
       owed i (w', d', ts') \<or>
       (\<exists>xs ys. ts = xs @ (i, Waiting) # ys \<and> ts' = xs @ (i, Passing) # ys) \<or>
       (d \<and> (\<exists>xs ys. ts = xs @ (i, Waiting) # ys \<and> ts' = xs @ ys)) \<or>
       (length (kicks w) \<ge> 256 \<and> (\<exists>xs ys p. p \<in> {Direct, Holding} \<and> ts = xs @ (i, p) # ys \<and> ts' = xs @ ys)))"
proof -
  have "owed i (w', d', ts') \<or> (\<exists>xs ys. ts = xs @ (i, Waiting) # ys \<and> ts' = xs @ (i, Passing) # ys) \<or>
      (d \<and> (\<exists>xs ys. ts = xs @ (i, Waiting) # ys \<and> ts' = xs @ ys)) \<or>
      (length (kicks w) \<ge> 256 \<and> (\<exists>xs ys p. p \<in> {Direct, Holding} \<and> ts = xs @ (i, p) # ys \<and> ts' = xs @ ys))"
    if o: "owed i (w, d, ts)" and s: "sched_step (w, d, ts) (w', d', ts')"
    using s
  proof cases
    case (cancelled j xs ys)
    then show ?thesis using o by (cases "j = i") (blast, intro disjI1, auto simp: owed_def run_marks)
  next
    case (slot xs ys j)
    then show ?thesis using o by (cases "j = i") (blast, intro disjI1, auto simp: owed_def)
  next
    case (direct_end j xs ys)
    show ?thesis
    proof (cases "j = i \<and> length (kicks w) \<ge> 256")
      case True
      with direct_end show ?thesis by blast
    next
      case False
      with direct_end o have "owed i (w', d', ts')" by (auto simp: owed_def run_marks split: if_splits)
      then show ?thesis ..
    qed
  next
    case (hold_end j xs ys)
    show ?thesis
    proof (cases "j = i \<and> length (kicks w) \<ge> 256")
      case True
      with hold_end show ?thesis by blast
    next
      case False
      with hold_end o have "owed i (w', d', ts')" by (auto simp: owed_def run_marks split: if_splits)
      then show ?thesis ..
    qed
  qed (use o in \<open>intro disjI1, auto simp: owed_def run_marks same_marks_def split: if_splits\<close>)+
  moreover have "run_state (dispatch i) w = (True, w1) \<Longrightarrow> owed i (w1, d, ts @ [(i, Waiting)])"
    "run_state (dispatch i) w = (False, w1) \<Longrightarrow> owed i (w1, d, ts)"
    by (auto simp: owed_def run_marks split: if_splits)
  ultimately show ?thesis by blast
qed

theorem dispatch_not_lost_witness:
  "\<exists>w :: (Memory, Fake) service. run_state (dispatch ''a'') sample_plane = (True, w) \<and> owed ''a'' (w, False, [(''a'', Waiting)])"
proof -
  have "run_state (dispatch ''a'') sample_plane = (True, snd (run_state (dispatch ''a'') sample_plane))"
    by (simp add: run_dispatch sample_plane_def get_bool_def)
  with dispatch_not_lost [of "''a''" sample_plane _ False "[]"] show ?thesis
    by (metis append_Nil)
qed

section \<open>A sweep reaches everyone\<close>

lemma dispatch_each_append: "run_state (dispatch_each (xs @ ys)) w =
  (case run_state (dispatch_each xs) w of (a, v) \<Rightarrow> case run_state (dispatch_each ys) v of (b, u) \<Rightarrow> (a @ b, u))"
  by (induction xs arbitrary: w) (auto split: prod.splits)

lemma dispatch_each_frame:
  "run_state (dispatch_each xs) w = (a, w') \<Longrightarrow> mem w' = mem w \<and> others w' = others w \<and>
     (\<forall>i. get_bool (inflight w) i \<longrightarrow> get_bool (inflight w') i) \<and> (\<forall>i. get_bool (again w) i \<longrightarrow> get_bool (again w') i)"
proof (induction xs arbitrary: w a)
  case (Cons sb xs)
  obtain b v where v: "run_state (dispatch (ID sb)) w = (b, v)" by (cases "run_state (dispatch (ID sb)) w")
  obtain more u where u: "run_state (dispatch_each xs) v = (more, u)" by (cases "run_state (dispatch_each xs) v")
  show ?case
  proof (cases "sb_State sb = StateStopped")
    case True
    with Cons.prems show ?thesis by (intro Cons.IH [of w a]) simp
  next
    case False
    then have "u = w'" using Cons.prems v u by simp
    with Cons.IH [OF u [unfolded \<open>u = w'\<close>]] v show ?thesis
      by (auto simp: run_dispatch split: if_splits)
  qed
qed simp

lemma dispatch_each_marks:
  "run_state (dispatch_each xs) w = (a, w') \<Longrightarrow> sb \<in> set xs \<Longrightarrow> sb_State sb \<noteq> StateStopped \<Longrightarrow>
     get_bool (inflight w') (ID sb) \<and> (ID sb \<in> set a \<or> get_bool (again w') (ID sb))"
proof (induction xs arbitrary: w a)
  case (Cons x xs)
  obtain b v where v: "run_state (dispatch (ID x)) w = (b, v)" by (cases "run_state (dispatch (ID x)) w")
  obtain more u where u: "run_state (dispatch_each xs) v = (more, u)" by (cases "run_state (dispatch_each xs) v")
  show ?case
  proof (cases "sb_State x = StateStopped")
    case True
    with Cons.prems show ?thesis by (intro Cons.IH [of w a]) auto
  next
    case False
    then have a: "u = w'" "a = (if b then ID x # more else more)" using Cons.prems v u by simp_all
    show ?thesis
    proof (cases "sb = x")
      case True
      with dispatch_each_frame [OF u] v a show ?thesis
        by (auto simp: run_dispatch split: if_splits)
    next
      case False
      with Cons.IH [OF u [unfolded a(1)]] Cons.prems a(2) show ?thesis by auto
    qed
  qed
qed simp

lemma sweep_walk:
  assumes "others w = []" "walk (list_page (list_all_options\<lparr>lo_Limit := MaxLimit\<rparr>, mem w)) '''' (length live) after = Some all"
  shows "fst (run_state (sweep_from (memory_config base) live after) w) \<noteq> None"
  using assms
proof (induction live arbitrary: after w all)
  case (Cons alive live)
  let ?o = "list_all_options\<lparr>lo_Limit := MaxLimit\<rparr>"
  obtain xs nxt where p: "list_page (?o, mem w) after = Some (xs, nxt)"
    using Cons.prems(2) by (auto split: option.splits)
  then have ml: "Memory_List (?o\<lparr>lo_After := after\<rparr>) (mem w) = Some (Inr (xs, nxt))"
    by (auto simp: list_page_def split: option.splits sum.splits)
  obtain st v where v: "run_state (dispatch_each xs) w = (st, v)" by (cases "run_state (dispatch_each xs) w")
  from dispatch_each_frame [OF v] Cons.prems(1) have f: "mem v = mem w" "others v = []" by simp_all
  show ?case
  proof (cases "nxt = ''''")
    case True
    with Cons.prems p ml v show ?thesis
      by (simp add: run_call_alone memory_store_def)
  next
    case False
    then obtain more where "walk (list_page (?o, mem w)) '''' (length live) nxt = Some more"
      using Cons.prems(2) p by auto
    with Cons.IH [of v nxt more] f have "fst (run_state (sweep_from (memory_config base) live nxt) v) \<noteq> None" by simp
    with Cons.prems(1) ml v False show ?thesis
      by (cases "run_state (sweep_from (memory_config base) live nxt) v") (simp add: run_call_alone memory_store_def)
  qed
qed simp

text \<open>One turn: the page it lists is that of the store at that moment.\<close>

lemma sweep_turn:
  assumes "memory_inv (others_step w)" "run_state (sweep_from (memory_config base) (True # live) after) w = (r, w')"
  obtains xs nxt st v where "list_page (list_all_options\<lparr>lo_Limit := MaxLimit\<rparr>, others_step w) after = Some (xs, nxt)"
    "run_state (dispatch_each xs) (w\<lparr>mem := others_step w, others := tl (others w)\<rparr>) = (st, v)"
    "nxt = '''' \<and> r = Some st \<and> w' = v \<or>
     nxt \<noteq> '''' \<and> (\<exists>more. run_state (sweep_from (memory_config base) live nxt) v = (more, w') \<and> r = map_option ((@) st) more)"
proof -
  let ?o = "list_all_options\<lparr>lo_Limit := MaxLimit\<rparr>"
  have "list_all wf_requirement (lo_Selector ?o)" by (simp add: list_all_options_def)
  from Memory_List_page [OF assms(1) this, of after] obtain q where "list_page (?o, others_step w) after = Some q" unfolding Let_def by blast
  then obtain xs nxt where p: "list_page (?o, others_step w) after = Some (xs, nxt)" by (cases q) simp
  then have ml: "Memory_List (?o\<lparr>lo_After := after\<rparr>) (others_step w) = Some (Inr (xs, nxt))"
    by (auto simp: list_page_def split: option.splits sum.splits)
  obtain st v where v: "run_state (dispatch_each xs) (w\<lparr>mem := others_step w, others := tl (others w)\<rparr>) = (st, v)" by (metis prod.exhaust)
  with ml assms(2) show ?thesis
    by (intro that [OF p v]) (auto simp: call_def memory_store_def split: if_splits prod.splits)
qed

lemma tame_step:
  "memory_inv (mem w) \<Longrightarrow> \<forall>g \<in> set (others w). \<forall>m. memory_later m (g m) \<Longrightarrow>
    memory_inv (others_step w) \<and> (\<forall>g \<in> set (tl (others w)). \<forall>m. memory_later m (g m))"
  by (cases "others w") (auto simp: others_step_def later_def)

lemma take_step: "writes (take k (tl (others w))) (others_step w) = writes (take (if others w = [] then k else Suc k) (others w)) (mem w)"
  by (cases "others w") (simp_all add: others_step_def)

lemma sweep_frame:
  assumes "run_state (sweep_from (memory_config base) live after) w = (r, w')" "memory_inv (mem w)" "\<forall>g \<in> set (others w). \<forall>m. memory_later m (g m)"
  shows "(\<exists>gs. others w = gs @ others w' \<and> mem w' = writes gs (mem w)) \<and>
    (\<forall>i. get_bool (inflight w) i \<longrightarrow> get_bool (inflight w') i) \<and> (\<forall>i. get_bool (again w) i \<longrightarrow> get_bool (again w') i)"
  using assms
proof (induction live arbitrary: after w r)
  case (Cons alive live)
  show ?case
  proof (cases alive)
    case True
    then have alive: "alive = True" by simp
    note tame = tame_step [OF Cons.prems(2,3)]
    obtain gs where gs: "others w = gs @ tl (others w)" "others_step w = writes gs (mem w)" using run_call_others by blast
    obtain xs nxt st v where
      v: "run_state (dispatch_each xs) (w\<lparr>mem := others_step w, others := tl (others w)\<rparr>) = (st, v)"
      and turn: "nxt = '''' \<and> r = Some st \<and> w' = v \<or>
        nxt \<noteq> '''' \<and> (\<exists>more. run_state (sweep_from (memory_config base) live nxt) v = (more, w') \<and> r = map_option ((@) st) more)"
      by (rule sweep_turn [OF conjunct1 [OF tame] Cons.prems(1) [unfolded alive]])
    then have rest: "w' = v \<or> (\<exists>more. run_state (sweep_from (memory_config base) live nxt) v = (more, w'))" by blast
    note f = dispatch_each_frame [OF v, simplified]
    from rest show ?thesis
    proof (elim disjE exE)
      fix more
      assume more: "run_state (sweep_from (memory_config base) live nxt) v = (more, w')"
      have "(\<exists>hs. others v = hs @ others w' \<and> mem w' = writes hs (mem v)) \<and>
          (\<forall>i. get_bool (inflight v) i \<longrightarrow> get_bool (inflight w') i) \<and> (\<forall>i. get_bool (again v) i \<longrightarrow> get_bool (again w') i)"
        using Cons.IH [OF more] f tame by simp
      then obtain hs where "others v = hs @ others w'" "mem w' = writes hs (mem v)"
        "\<forall>i. get_bool (inflight v) i \<longrightarrow> get_bool (inflight w') i" "\<forall>i. get_bool (again v) i \<longrightarrow> get_bool (again w') i" by blast
      then have "others w = (gs @ hs) @ others w'" "mem w' = writes (gs @ hs) (mem w)"
        "\<forall>i. get_bool (inflight w) i \<longrightarrow> get_bool (inflight w') i" "\<forall>i. get_bool (again w) i \<longrightarrow> get_bool (again w') i"
        using f gs by simp_all
      then show ?thesis by blast
    next
      assume "w' = v"
      moreover have "others w = gs @ others v" "mem v = writes gs (mem w)" using f gs by simp_all
      ultimately show ?thesis using f by blast
    qed
  next
    case False
    with Cons.prems(1) have "w' = w" by simp
    then show ?thesis by (simp add: exI [of _ "[]"])
  qed
qed (simp add: exI [of _ "[]"])

lemma page_or_next:
  assumes "memory_inv m" "list_page (list_all_options\<lparr>lo_Limit := MaxLimit\<rparr>, m) after = Some (xs, nxt)"
    "memory_tbl m i = Some s" "after < i"
  shows "s \<in> set xs \<or> nxt \<noteq> '''' \<and> nxt < i"
proof -
  let ?o = "list_all_options\<lparr>lo_Limit := MaxLimit\<rparr>" and ?n = "PageSize MaxLimit"
  define all where "all = filter (\<lambda>s. after < ID s) (filter (listed ?o) (sandboxes_by_id m))"
  have i: "ID s = i" using assms(1,3) by (auto simp: memory_inv_def)
  have s: "s \<in> set all"
    using sandboxes_by_id_set [OF assms(1)] assms(3,4) i by (simp add: all_def listed_def list_all_options_def scoped_def)
  have pos: "0 < ?n" by (simp add: PageSize_def)
  have p: "(xs, nxt) = (if length all \<le> ?n then (all, '''') else (take ?n all, ID (all ! (?n - 1))))"
  proof -
    have "list_all wf_requirement (lo_Selector ?o)" "lo_Limit ?o = MaxLimit" by (simp_all add: list_all_options_def)
    from Memory_List_page [OF assms(1) this(1), of after, folded all_def, unfolded this(2) Let_def] assms(2) show ?thesis by simp
  qed
  show ?thesis
  proof (cases "length all \<le> ?n \<or> s \<in> set (take ?n all)")
    case True
    with p s show ?thesis by (auto split: if_splits)
  next
    case False
    have sorted: "sorted_wrt (\<lambda>x y. ID x < ID y) all"
      using sandboxes_by_id_ordered [OF assms(1)] by (simp add: all_def sorted_wrt_filter)
    obtain k where k: "k < length all" "all ! k = s" using s by (auto simp: in_set_conv_nth)
    have "?n \<le> k"
    proof (rule ccontr)
      assume "\<not> ?n \<le> k"
      then have "s \<in> set (take ?n all)" using k by (auto simp: in_set_conv_nth intro!: exI [of _ k])
      with False show False by blast
    qed
    then have "ID (all ! (?n - 1)) < ID s" using sorted_wrt_nth_less [OF sorted, of "?n - 1" k] k pos by auto
    moreover have "'''' < ID (all ! (?n - 1))"
      using sandbox_id_nonempty [OF assms(1)] False nth_mem [of "?n - 1" all] pos by (auto simp: all_def)
    ultimately show ?thesis using p False i by (auto split: if_splits)
  qed
qed

lemma sweep_reaches:
  assumes "run_state (sweep_from (memory_config base) live after) w = (Some started, w')" "\<forall>b \<in> set live. b"
    "memory_inv (mem w)" "\<forall>g \<in> set (others w). \<forall>m. memory_later m (g m)" "after < i"
    "\<forall>k. \<exists>s. memory_tbl (writes (take k (others w)) (mem w)) i = Some s \<and> sb_State s \<noteq> StateStopped"
  shows "get_bool (inflight w') i \<and> (i \<in> set started \<or> get_bool (again w') i)"
  using assms
proof (induction live arbitrary: after w started)
  case (Cons alive live)
  then have alive: "alive = True" by simp
  note tame = tame_step [OF Cons.prems(3,4)]
  obtain xs nxt st v where
    p: "list_page (list_all_options\<lparr>lo_Limit := MaxLimit\<rparr>, others_step w) after = Some (xs, nxt)"
    and v: "run_state (dispatch_each xs) (w\<lparr>mem := others_step w, others := tl (others w)\<rparr>) = (st, v)"
    and rest: "nxt = '''' \<and> Some started = Some st \<and> w' = v \<or>
      nxt \<noteq> '''' \<and> (\<exists>more. run_state (sweep_from (memory_config base) live nxt) v = (more, w') \<and> Some started = map_option ((@) st) more)"
    by (rule sweep_turn [OF conjunct1 [OF tame] Cons.prems(1) [unfolded alive]])
  note f = dispatch_each_frame [OF v, simplified]
  have there: "\<forall>k. \<exists>s. memory_tbl (writes (take k (others v)) (mem v)) i = Some s \<and> sb_State s \<noteq> StateStopped"
    using Cons.prems(6) f take_step [of _ w] by simp
  then obtain s where s: "memory_tbl (others_step w) i = Some s" "sb_State s \<noteq> StateStopped" using f by (metis take_0 writes_simps(1))
  have i: "ID s = i" using tame s(1) by (auto simp: memory_inv_def)
  have "set st \<subseteq> set started" using rest by (auto simp: map_option_case split: option.splits)
  moreover have keep: "(get_bool (inflight v) j \<longrightarrow> get_bool (inflight w') j) \<and> (get_bool (again v) j \<longrightarrow> get_bool (again w') j)" for j
    using rest sweep_frame [of base live nxt v _ w'] f tame by auto
  moreover have "get_bool (inflight v) i \<and> (i \<in> set st \<or> get_bool (again v) i)" if "s \<in> set xs"
    using dispatch_each_marks [OF v that s(2)] i by simp
  moreover have ?case if "nxt \<noteq> ''''" "nxt < i"
  proof -
    from rest that obtain q where q: "run_state (sweep_from (memory_config base) live nxt) v = (q, w')" "Some started = map_option ((@) st) q" by blast
    then obtain more where "run_state (sweep_from (memory_config base) live nxt) v = (Some more, w')" "started = st @ more" by (cases q) simp_all
    with Cons.IH [of nxt v more] Cons.prems(2) f tame there that(2) show ?thesis by auto
  qed
  ultimately show ?case using page_or_next [OF conjunct1 [OF tame] p s(1) Cons.prems(5)] by blast
qed simp



end
