(* ===== verification/Verbs.thy ===== *)
theory Verbs
  imports Scheduler
begin

text \<open>
  The verbs that act in a sandbox: \<open>Exec\<close> (\<^verbatim>\<open>service.go\<close>) and \<open>Snapshot\<close>, \<open>Restore\<close>, \<open>CopyIn\<close>, \<open>CopyOut\<close>, \<open>Stream\<close>, \<open>UseDriver\<close>,
  \<open>Note\<close>, \<open>Current\<close> and \<open>DriverRecorder\<close> (\<^verbatim>\<open>verbs.go\<close>).

  How a call's context ended is a function of the outside state, read where the code reads it. The output of a
  command is the list of chunks the driver writes; what the caller's writers receive is what the output budget
  lets through, and is part of the result; those writers accept what they are given. The callbacks of a caller
  (\<open>Started\<close>, \<open>Screen\<close>, \<open>Refused\<close>, the function of a stream) are functions of the outside, run where the code runs
  them, but for those the driver calls back, which run as its call returns.
\<close>

section \<open>Contexts and streams\<close>

datatype ctx_end = CtxLive | CtxDeadline | CtxCancelled gerror

definition ctx_cause :: "ctx_end \<Rightarrow> gerror option" where
  "ctx_cause e = (case e of CtxLive \<Rightarrow> None | CtxDeadline \<Rightarrow> Some (Sentinel DeadlineExceeded) | CtxCancelled c \<Rightarrow> Some c)"

record 'x ExecIO =
  eio_Stdin :: "char list option"
  eio_Stdout :: bool
  eio_Stderr :: bool
  Started :: "(Sandbox \<Rightarrow> 'x \<Rightarrow> 'x) option"
  Screen :: "(string \<Rightarrow> 'x \<Rightarrow> gerror option \<times> 'x) option"
  Refused :: "('x \<Rightarrow> gerror option \<times> 'x) option"
  Timeout :: duration
  eio_Ended :: "'x \<Rightarrow> ctx_end"

text \<open>The writer of a stream the caller gave, and the chunks as they pass the shared budget.\<close>

definition keep_chunk :: "stream \<Rightarrow> char list \<Rightarrow> chunks \<Rightarrow> (int \<times> gerror option) \<times> chunks" where
  "keep_chunk s p out = ((int (length p), None), out @ [(s, p)])"

fun deliver :: "chunks \<Rightarrow> OutputLimit \<times> chunks \<Rightarrow> (OutputLimit \<times> chunks) option" where
  "deliver [] lo = Some lo"
| "deliver ((s, p) # cs) lo = (case limited_Write (keep_chunk s) p lo of
       None \<Rightarrow> None
     | Some (r, lo1) \<Rightarrow> deliver cs lo1)"

definition written :: "chunks \<Rightarrow> nat" where
  "written cs = sum_list (map (\<lambda>c. length (snd c)) cs)"

definition wants :: "DriverExecRequest \<Rightarrow> stream \<Rightarrow> bool" where
  "wants r s = (case s of ToStdout \<Rightarrow> Stdout r | ToStderr \<Rightarrow> Stderr r)"

section \<open>Exec\<close>

definition bad_env :: "string list \<Rightarrow> bool" where
  "bad_env env = list_ex (\<lambda>kv. case Cut kv ''='' of None \<Rightarrow> True | Some (k, v) \<Rightarrow> k = '''') env"

fun proxyVariable :: "string list \<Rightarrow> string option" where
  "proxyVariable [] = None"
| "proxyVariable (kv # env) =
     (let k = (case Cut kv ''='' of Some (k, v) \<Rightarrow> k | None \<Rightarrow> kv)
      in if ToUpper k \<in> {''HTTP_PROXY'', ''HTTPS_PROXY'', ''ALL_PROXY'', ''NO_PROXY''} then Some k else proxyVariable env)"

text \<open>How the error of a command is decided once the driver returned: the budget, then the context, then the input.\<close>

definition exec_error :: "OutputLimit \<Rightarrow> ctx_end \<Rightarrow> gerror + int \<Rightarrow> gerror + int" where
  "exec_error l e res =
     (if exceeded l then Inl (Errorf [Sentinel ErrOutputLimit] ''the command wrote more than its bytes and was stopped'')
      else case (res, e) of
          (Inr code, CtxLive) \<Rightarrow> Inr code
        | (Inr code, CtxDeadline) \<Rightarrow> Inl (Sentinel DeadlineExceeded)
        | (Inr code, CtxCancelled c) \<Rightarrow> Inl c
        | (Inl err, CtxDeadline) \<Rightarrow> Inl (Errorf [Sentinel DeadlineExceeded] ''the command ran past its time and was stopped'')
        | (Inl err, CtxCancelled c) \<Rightarrow> Inl c
        | (Inl err, CtxLive) \<Rightarrow> Inl err)"

type_synonym exec_result = "(gerror + int) \<times> Sandbox \<times> chunks"

text \<open>The part of \<open>Exec\<close> the guard and the interceptor have admitted.\<close>

definition exec_admitted :: "('m, 'x) Config \<Rightarrow> string \<Rightarrow> Sandbox \<Rightarrow> 'x Driver \<Rightarrow> DriverExecRequest \<Rightarrow> 'x ExecIO \<Rightarrow> AuditEvent
    \<Rightarrow> AdmissionRequest \<Rightarrow> (('m, 'x) service, exec_result option) state" where
  "exec_admitted cfg i sb d dreq eio ev0 adm =
     (let vals = For (cfg_Settings cfg) (sb_Settings sb);
          ev = (if Timeout eio > 0 then ev0\<lparr>Detail := AList.update ''timeout_seconds'' (FormatInt (Timeout eio div Second)) (Detail ev0)\<rparr> else ev0)
      in do {
        (case Started eio of None \<Rightarrow> ret () | Some f \<Rightarrow> release (f sb));
        r \<leftarrow> outside (dr_Exec d i dreq);
        (case deliver (filter (\<lambda>c. wants dreq (fst c)) (fst r)) (NewOutputLimit (Values_Int vals SetExecOutput), []) of
           None \<Rightarrow> ret None
         | Some lo \<Rightarrow> do {
             w \<leftarrow> State_Monad.get;
             let res = exec_error (fst lo) (eio_Ended eio (ext w)) (snd r);
             cut \<leftarrow> (case (res, Refused eio) of (Inr code, Some f) \<Rightarrow> outside f | _ \<Rightarrow> ret None);
             let out = (case (res, cut) of (Inr code, Some e) \<Rightarrow> Inl e | _ \<Rightarrow> res);
             outcome cfg (case out of Inr code \<Rightarrow> ev\<lparr>Detail := AList.update ''exit_code'' (FormatInt code) (Detail ev)\<rparr> | Inl e \<Rightarrow> ev) (err_of out);
             committed cfg adm sb (err_of out);
             ret (Some (out, sb, snd lo))
           })
      })"

text \<open>\<open>Exec\<close> from the command line on: ownership, the record, the screen, the guard, the interceptor.\<close>

definition exec_checked :: "('m, 'x) Config \<Rightarrow> (string \<Rightarrow> string option) \<Rightarrow> Ctx \<Rightarrow> Caller \<Rightarrow> string \<Rightarrow> Sandbox \<Rightarrow> 'x Driver
    \<Rightarrow> ExecRequest \<Rightarrow> DriverExecRequest \<Rightarrow> 'x ExecIO \<Rightarrow> (('m, 'x) service, exec_result option) state" where
  "exec_checked cfg sh_quote ctx c i sb d req dreq eio = (case ExecRequest_Line sh_quote dreq of
       Inl e \<Rightarrow> ret (Some (Inl (Errorf [Sentinel ErrInvalid, e] ''''), sb, []))
     | Inr line \<Rightarrow>
         (let ev = mk_event (cl_Principal c) ActionExec i (Generation sb) '''' [(''command'', redact cfg line)] in do {
            foreign \<leftarrow> owned cfg i;
            (case foreign of
               Some e \<Rightarrow> ret (Some (Inl e, sb, []))
             | None \<Rightarrow> recorded cfg ev (\<lambda>e. Some (Inl e, sb, [])) (do {
                 screened \<leftarrow> (case Screen eio of None \<Rightarrow> ret None | Some f \<Rightarrow> outside (f line));
                 (case screened of
                    Some e \<Rightarrow> do { outcome cfg ev (Some e); ret (Some (Inl e, sb, [])) }
                  | None \<Rightarrow> do {
                      g \<leftarrow> guardAdmit ctx (mk_admission ActionExec c (Some sb) None (Some req));
                      (case g of
                         Inl e \<Rightarrow> do { outcome cfg ev (Some e); ret (Some (Inl e, sb, [])) }
                       | Inr rs \<Rightarrow>
                           (let adm = \<lparr>Operation = OpExec, ar_Caller = c, ar_SandboxID = i, Old = Some sb, Object = sb,
                                  ar_Command = redact cfg line, ar_Stdin = (Stdin dreq \<noteq> None), ar_Cwd = xr_Cwd req,
                                  EnvNames = envNames (xr_Env req)\<rparr> in do {
                              a \<leftarrow> admit cfg adm;
                              r \<leftarrow> (case a of
                                 Inl e \<Rightarrow> do { outcome cfg ev (Some e); ret (Some (Inl e, sb, [])) }
                               | Inr obj \<Rightarrow> exec_admitted cfg i sb d dreq eio ev adm);
                              release (fst rs);
                              ret r
                            }))
                    })
               }))
          }))"

text \<open>The result \<^const>\<open>None\<close> is a panic: the configured output budget is negative, which no resolved setting is.\<close>

definition Service_Exec :: "('m, 'x) Config \<Rightarrow> (string \<Rightarrow> string option) \<Rightarrow> Ctx \<Rightarrow> Caller \<Rightarrow> string \<Rightarrow> string \<Rightarrow> ExecRequest \<Rightarrow> 'x ExecIO
    \<Rightarrow> (('m, 'x) service, exec_result option) state" where
  "Service_Exec cfg sh_quote ctx c i ifMatch req eio =
     (let dreq = \<lparr>Argv = xr_Argv req, Command = xr_Command req, Cwd = xr_Cwd req, Env = xr_Env req, Stdin = eio_Stdin eio,
            Stdout = eio_Stdout eio, Stderr = eio_Stderr eio\<rparr>
      in case ExecRequest_Validate dreq of
           Some e \<Rightarrow> ret (Some (Inl (Errorf [Sentinel ErrInvalid, e] ''''), zero_sandbox, []))
         | None \<Rightarrow>
             if bad_env (xr_Env req)
             then ret (Some (Inl (Errorf [Sentinel ErrInvalid] ''env entry is not NAME=value''), zero_sandbox, []))
             else do {
               got \<leftarrow> Service_Get cfg c i;
               (case got of
                  Inl e \<Rightarrow> ret (Some (Inl e, zero_sandbox, []))
                | Inr sb \<Rightarrow> (case CheckIfMatch ifMatch (ResourceVersion sb) of
                      Some e \<Rightarrow> ret (Some (Inl e, sb, []))
                    | None \<Rightarrow>
                        if \<not> AcceptsWork (sb_State sb)
                        then ret (Some (Inl (Errorf [Sentinel ErrInvalidTransition] ''only Ready takes exec''), sb, []))
                        else (case Registry_Get (sb_Driver sb) (cfg_Drivers cfg) of
                            Inl e \<Rightarrow> ret (Some (Inl (Errorf [Sentinel ErrUnavailable] ''driver is not registered''), sb, []))
                          | Inr d \<Rightarrow> (case cfg_Egress cfg of
                                Some eg \<Rightarrow>
                                  if \<not> eg_For eg (sb_Driver sb) then exec_checked cfg sh_quote ctx c i sb d req dreq eio
                                  else if proxyVariable (xr_Env req) \<noteq> None
                                  then ret (Some (Inl (Errorf [Sentinel ErrInvalid] ''is the sandbox's own under the egress allowlist''), sb, []))
                                  else do {
                                    cred \<leftarrow> outside (eg_Call eg i);
                                    (case cred of
                                       Inl e \<Rightarrow> ret (Some (Inl (Errorf [Sentinel ErrUnavailable, e] ''an egress credential''), sb, []))
                                     | Inr ce \<Rightarrow> do {
                                         r \<leftarrow> exec_checked cfg sh_quote ctx c i sb d req (dreq\<lparr>Env := Env dreq @ fst ce\<rparr>) eio;
                                         release (snd ce);
                                         ret r
                                       })
                                  }
                              | None \<Rightarrow> exec_checked cfg sh_quote ctx c i sb d req dreq eio))))
             })"

section \<open>What the verbs share\<close>

definition capable :: "('m, 'x) Config \<Rightarrow> Sandbox \<Rightarrow> Capability \<Rightarrow> gerror + 'x Driver" where
  "capable cfg sb c = (case Registry_Get (sb_Driver sb) (cfg_Drivers cfg) of
       Inl e \<Rightarrow> Inl (Errorf [Sentinel ErrUnavailable] ''driver is not registered'')
     | Inr d \<Rightarrow> if c \<noteq> CapOther '''' \<and> \<not> Has (dr_Info d) c
                 then Inl (DriverError DriverUnsupported ''driver does not support the capability'') else Inr d)"

text \<open>The sandbox \<open>prepare\<close> returns beside its error or the driver.\<close>

definition prepare :: "('m, 'x) Config \<Rightarrow> Caller \<Rightarrow> string \<Rightarrow> string \<Rightarrow> (State \<Rightarrow> bool) \<Rightarrow> Capability
    \<Rightarrow> (('m, 'x) service, Sandbox \<times> (gerror + 'x Driver)) state" where
  "prepare cfg c i ifMatch accepts cap = do {
     got \<leftarrow> Service_Get cfg c i;
     (case got of
        Inl e \<Rightarrow> ret (zero_sandbox, Inl e)
      | Inr sb \<Rightarrow> (case CheckIfMatch ifMatch (ResourceVersion sb) of
            Some e \<Rightarrow> ret (sb, Inl e)
          | None \<Rightarrow>
              if \<not> accepts (sb_State sb)
              then ret (sb, Inl (Errorf [Sentinel ErrInvalidTransition] ''the verb cannot run now''))
              else (case capable cfg sb cap of
                  Inl e \<Rightarrow> ret (sb, Inl e)
                | Inr d \<Rightarrow> do {
                    foreign \<leftarrow> owned cfg i;
                    ret (sb, case foreign of Some e \<Rightarrow> Inl e | None \<Rightarrow> Inr d)
                  })))
   }"

definition verb_admission :: "('m, 'x) Config \<Rightarrow> Caller \<Rightarrow> Sandbox \<Rightarrow> string \<Rightarrow> string \<Rightarrow> AdmissionRequest" where
  "verb_admission cfg c sb op command = \<lparr>Operation = op, ar_Caller = c, ar_SandboxID = ID sb, Old = Some sb, Object = sb,
     ar_Command = (if op = OpExec then redact cfg command else ''''), ar_Stdin = False, ar_Cwd = '''', EnvNames = []\<rparr>"

definition verb_guarded :: "Caller \<Rightarrow> Sandbox \<Rightarrow> string \<Rightarrow> string \<Rightarrow> Admission" where
  "verb_guarded c sb op command = mk_admission op c (Some sb) None
     (if op = OpExec then Some \<lparr>xr_Argv = [], xr_Command = command, xr_Cwd = '''', xr_Env = [], xr_Stdin = False\<rparr> else None)"

definition admitVerb :: "('m, 'x) Config \<Rightarrow> Ctx \<Rightarrow> AuditEvent \<Rightarrow> Caller \<Rightarrow> Sandbox \<Rightarrow> string \<Rightarrow> string
    \<Rightarrow> (('m, 'x) service, gerror + ('x \<Rightarrow> 'x) \<times> AdmissionRequest) state" where
  "admitVerb cfg ctx ev c sb op command = do {
     g \<leftarrow> guardAdmit ctx (verb_guarded c sb op command);
     (case g of
        Inl e \<Rightarrow> do { outcome cfg ev (Some e); ret (Inl e) }
      | Inr rs \<Rightarrow> do {
          a \<leftarrow> admit cfg (verb_admission cfg c sb op command);
          (case a of
             Inl e \<Rightarrow> do { release (fst rs); outcome cfg ev (Some e); ret (Inl e) }
           | Inr obj \<Rightarrow> ret (Inr (fst rs, (verb_admission cfg c sb op command)\<lparr>Object := obj\<rparr>)))
        })
   }"

definition settled :: "State \<Rightarrow> bool" where
  "settled st \<longleftrightarrow> st = StateReady \<or> CanRestore st"

text \<open>
  A control character is one byte of UTF-8, and the bytes of a longer encoding, or of text that is not UTF-8,
  are 0x80 and above: matching bytes is matching the decoded text.
\<close>

definition plainText :: "string \<Rightarrow> gerror option" where
  "plainText v = (if list_ex (\<lambda>r. byte_val r < 32 \<or> byte_val r = 127) v
     then Some (Errorf [Sentinel ErrInvalid] ''holds a control character'') else None)"

text \<open>
  The frame of a verb that acts in a sandbox as an exec does: checked, recorded, screened, admitted, and released
  at its end. \<open>act\<close> is the verb's own part; it records its outcome itself.
\<close>

definition verb :: "('m, 'x) Config \<Rightarrow> Ctx \<Rightarrow> Caller \<Rightarrow> string \<Rightarrow> string \<Rightarrow> (State \<Rightarrow> bool) \<Rightarrow> Capability \<Rightarrow> string \<Rightarrow> strmap
    \<Rightarrow> ('x \<Rightarrow> gerror option \<times> 'x) option \<Rightarrow> string
    \<Rightarrow> ('x Driver \<Rightarrow> Sandbox \<Rightarrow> AuditEvent \<Rightarrow> AdmissionRequest \<Rightarrow> (('m, 'x) service, gerror + 'a) state)
    \<Rightarrow> (('m, 'x) service, (gerror + 'a) \<times> Sandbox) state" where
  "verb cfg ctx c i ifMatch accepts cap action detail screen command act = do {
     (sb, ready) \<leftarrow> prepare cfg c i ifMatch accepts cap;
     (case ready of
        Inl e \<Rightarrow> ret (Inl e, sb)
      | Inr d \<Rightarrow>
          (let ev = mk_event (cl_Principal c) action i (Generation sb) '''' detail
           in recorded cfg ev (\<lambda>e. (Inl e, sb)) (do {
                screened \<leftarrow> (case screen of None \<Rightarrow> ret None | Some f \<Rightarrow> outside f);
                (case screened of
                   Some e \<Rightarrow> do { outcome cfg ev (Some e); ret (Inl e, sb) }
                 | None \<Rightarrow> do {
                     g \<leftarrow> admitVerb cfg ctx ev c sb OpExec command;
                     (case g of
                        Inl e \<Rightarrow> ret (Inl e, sb)
                      | Inr ra \<Rightarrow> do {
                          r \<leftarrow> act d sb ev (snd ra);
                          release (fst ra);
                          ret (r, sb)
                        })
                   })
              })))
   }"

section \<open>Snapshot and copy\<close>

definition snapshot_act :: "('m, 'x) Config \<Rightarrow> string \<Rightarrow> string \<Rightarrow> 'x Driver \<Rightarrow> Sandbox \<Rightarrow> AuditEvent \<Rightarrow> AdmissionRequest
    \<Rightarrow> (('m, 'x) service, gerror + SnapshotRef) state" where
  "snapshot_act cfg i name d sb ev adm = do {
     r \<leftarrow> outside (Driver_Snapshot d i name);
     outcome cfg (case r of
         Inr ref \<Rightarrow> ev\<lparr>Detail := AList.update ''digest'' (Digest ref) (AList.update ''snapshot_id'' (ref_ID ref) (Detail ev))\<rparr>
       | Inl e \<Rightarrow> ev) (err_of r);
     committed cfg adm sb (err_of r);
     ret r
   }"

definition Service_Snapshot :: "('m, 'x) Config \<Rightarrow> Ctx \<Rightarrow> Caller \<Rightarrow> string \<Rightarrow> string \<Rightarrow> string
    \<Rightarrow> (('m, 'x) service, (gerror + SnapshotRef) \<times> Sandbox) state" where
  "Service_Snapshot cfg ctx c i ifMatch name = (case plainText name of
       Some e \<Rightarrow> ret (Inl e, zero_sandbox)
     | None \<Rightarrow> verb cfg ctx c i ifMatch settled CapSnapshot ''snapshot'' [(''name'', name)] None ('':snapshot '' @ name)
         (snapshot_act cfg i name))"

definition as_sum :: "gerror option \<Rightarrow> 'a \<Rightarrow> gerror + 'a" where
  "as_sum err a = (case err of Some e \<Rightarrow> Inl e | None \<Rightarrow> Inr a)"

definition copy_in_act :: "('m, 'x) Config \<Rightarrow> string \<Rightarrow> string \<Rightarrow> char list \<Rightarrow> 'x Driver \<Rightarrow> Sandbox \<Rightarrow> AuditEvent \<Rightarrow> AdmissionRequest
    \<Rightarrow> (('m, 'x) service, gerror + unit) state" where
  "copy_in_act cfg i dst tar d sb ev adm = do {
     err \<leftarrow> outside (Driver_CopyIn d i dst tar);
     outcome cfg ev err;
     committed cfg adm sb err;
     ret (as_sum err ())
   }"

definition Service_CopyIn :: "('m, 'x) Config \<Rightarrow> Ctx \<Rightarrow> Caller \<Rightarrow> string \<Rightarrow> string \<Rightarrow> char list
    \<Rightarrow> (('m, 'x) service, (gerror + unit) \<times> Sandbox) state" where
  "Service_CopyIn cfg ctx c i dst tar = (case plainText dst of
       Some e \<Rightarrow> ret (Inl e, zero_sandbox)
     | None \<Rightarrow> verb cfg ctx c i '''' AcceptsWork CapCopy ''cp'' [(''direction'', ''in''), (''path'', redact cfg dst)] None
         ('':cp in '' @ dst) (copy_in_act cfg i dst tar))"

text \<open>The writer of a copy: the bytes the caller got, and whether \<open>first\<close> has run.\<close>

record firstWrite =
  fw_got :: "char list"
  fw_done :: bool

definition firstWrite_start :: "firstWrite \<Rightarrow> firstWrite" where
  "firstWrite_start f = f\<lparr>fw_done := True\<rparr>"

definition firstWrite_Write :: "char list \<Rightarrow> firstWrite \<Rightarrow> (int \<times> gerror option) \<times> firstWrite" where
  "firstWrite_Write p f = ((int (length p), None), (firstWrite_start f)\<lparr>fw_got := fw_got f @ p\<rparr>)"

definition copy_out_act :: "('m, 'x) Config \<Rightarrow> string \<Rightarrow> string \<Rightarrow> (Sandbox \<Rightarrow> 'x \<Rightarrow> 'x) option \<Rightarrow> 'x Driver \<Rightarrow> Sandbox \<Rightarrow> AuditEvent
    \<Rightarrow> AdmissionRequest \<Rightarrow> (('m, 'x) service, gerror + (gerror option \<times> char list) option) state" where
  "copy_out_act cfg i src started d sb ev adm = do {
     r \<leftarrow> outside (Driver_CopyOut d i src);
     (case limited_writes firstWrite_Write (fst r)
         (NewOutputLimit (Values_Int (For (cfg_Settings cfg) (sb_Settings sb)) SetExecOutput), \<lparr>fw_got = [], fw_done = False\<rparr>) of
        None \<Rightarrow> ret (Inr None)
      | Some lf \<Rightarrow> do {
          let fw = (if snd r = None then firstWrite_start (snd lf) else snd lf);
          let err = (if exceeded (fst lf) then Some (Errorf [Sentinel ErrOutputLimit] ''the copy was too large and was stopped'') else snd r);
          (case started of Some f \<Rightarrow> if fw_done fw then release (f sb) else ret () | None \<Rightarrow> ret ());
          outcome cfg ev err;
          committed cfg adm sb err;
          ret (Inr (Some (err, fw_got fw)))
        })
   }"

text \<open>The result of a copy that reached the driver is its error and the bytes the caller got; \<^const>\<open>None\<close> is a panic, as for \<^const>\<open>Service_Exec\<close>.\<close>

definition Service_CopyOut :: "('m, 'x) Config \<Rightarrow> Ctx \<Rightarrow> Caller \<Rightarrow> string \<Rightarrow> string \<Rightarrow> (Sandbox \<Rightarrow> 'x \<Rightarrow> 'x) option
    \<Rightarrow> (('m, 'x) service, (gerror + (gerror option \<times> char list) option) \<times> Sandbox) state" where
  "Service_CopyOut cfg ctx c i src started = (case plainText src of
       Some e \<Rightarrow> ret (Inl e, zero_sandbox)
     | None \<Rightarrow> verb cfg ctx c i '''' AcceptsWork CapCopy ''cp'' [(''direction'', ''out''), (''path'', redact cfg src)] None
         ('':cp out '' @ src) (copy_out_act cfg i src started))"

section \<open>Streams\<close>

record 'x StreamRequest =
  sr_Action :: string
  sr_Capability :: Capability
  sr_Detail :: strmap
  sr_Screen :: "('x \<Rightarrow> gerror option \<times> 'x) option"
  sr_Cause :: "'x \<Rightarrow> gerror option"

definition stream_command :: "'x StreamRequest \<Rightarrow> string" where
  "stream_command req = foldl (\<lambda>s k. s @ '' '' @ k @ ''='' @ get_str (sr_Detail req) k) ('':'' @ sr_Action req) (sort (keys (sr_Detail req)))"

definition stream_error :: "gerror option \<Rightarrow> gerror option \<Rightarrow> gerror option" where
  "stream_error cause err = (case cause of
       Some e \<Rightarrow> if err \<noteq> None \<or> errors_Is e ErrEndedByGuard then Some e else err
     | None \<Rightarrow> err)"

definition stream_act :: "('m, 'x) Config \<Rightarrow> 'x StreamRequest \<Rightarrow> ('x Driver \<Rightarrow> Sandbox \<Rightarrow> 'x \<Rightarrow> (strmap \<times> gerror option) \<times> 'x)
    \<Rightarrow> 'x Driver \<Rightarrow> Sandbox \<Rightarrow> AuditEvent \<Rightarrow> AdmissionRequest \<Rightarrow> (('m, 'x) service, gerror + unit) state" where
  "stream_act cfg req fn d sb ev adm = do {
     r \<leftarrow> outside (fn d sb);
     w \<leftarrow> State_Monad.get;
     let err = stream_error (sr_Cause req (ext w)) (snd r);
     outcome cfg (ev\<lparr>Detail := maps_Copy (Detail ev) (fst r)\<rparr>) err;
     committed cfg adm sb err;
     ret (as_sum err ())
   }"

definition Service_Stream :: "('m, 'x) Config \<Rightarrow> Ctx \<Rightarrow> Caller \<Rightarrow> string \<Rightarrow> 'x StreamRequest
    \<Rightarrow> ('x Driver \<Rightarrow> Sandbox \<Rightarrow> 'x \<Rightarrow> (strmap \<times> gerror option) \<times> 'x) \<Rightarrow> (('m, 'x) service, (gerror + unit) \<times> Sandbox) state" where
  "Service_Stream cfg ctx c i req fn = verb cfg ctx c i '''' AcceptsWork (sr_Capability req) (sr_Action req) (sr_Detail req)
     (sr_Screen req) (stream_command req) (stream_act cfg req fn)"

definition Service_UseDriver :: "('m, 'x) Config \<Rightarrow> Ctx \<Rightarrow> Caller \<Rightarrow> string \<Rightarrow> string \<Rightarrow> Capability \<Rightarrow> strmap \<Rightarrow> ('x \<Rightarrow> gerror option)
    \<Rightarrow> ('x Driver \<Rightarrow> Sandbox \<Rightarrow> 'x \<Rightarrow> gerror option \<times> 'x) \<Rightarrow> (('m, 'x) service, (gerror + unit) \<times> Sandbox) state" where
  "Service_UseDriver cfg ctx c i action cap detail cause fn = Service_Stream cfg ctx c i
     \<lparr>sr_Action = action, sr_Capability = cap, sr_Detail = detail, sr_Screen = None, sr_Cause = cause\<rparr>
     (\<lambda>d sb x. case fn d sb x of (err, x') \<Rightarrow> (([], err), x'))"

section \<open>Restore\<close>

text \<open>
  \<open>holdPass\<close>: \<open>waits\<close> is what the rest of the program does to the service in each 10 ms between two turns, and the
  context is done with \<open>over\<close> once the list is used up.
\<close>

fun holdPass :: "string \<Rightarrow> (('m, 'x) service \<Rightarrow> ('m, 'x) service) list \<Rightarrow> gerror \<Rightarrow> (('m, 'x) service, gerror option) state" where
  "holdPass i [] over = do { mine \<leftarrow> try_hold i; ret (if mine then None else Some over) }"
| "holdPass i (meanwhile # waits) over = do {
     mine \<leftarrow> try_hold i;
     (if mine then ret None else do { State_Monad.update meanwhile; holdPass i waits over })
   }"

definition restore_change :: "('m, 'x) Config \<Rightarrow> AdmissionRequest \<Rightarrow> Sandbox \<Rightarrow> unit \<Rightarrow> (('m, 'x) service, (gerror + Sandbox) \<times> unit) state" where
  "restore_change cfg adm cur u = do {
     t \<leftarrow> now cfg;
     ret (case Sandbox_Restore t cur of
         Inl e \<Rightarrow> Inl e
       | Inr s \<Rightarrow> Inr (s\<lparr>Restarts := 0, NextRestart := None, sb_Labels := sb_Labels (Object adm), sb_Settings := sb_Settings (Object adm)\<rparr>), ())
   }"

definition restore_back :: "('m, 'x) Config \<Rightarrow> Sandbox \<Rightarrow> Sandbox \<Rightarrow> unit \<Rightarrow> (('m, 'x) service, (gerror + Sandbox) \<times> unit) state" where
  "restore_back cfg sb cur u = do {
     t \<leftarrow> now cfg;
     ret (Inr (cur\<lparr>sb_State := sb_State sb, Restarts := Restarts sb, NextRestart := NextRestart sb, sb_Labels := sb_Labels sb,
       sb_Settings := sb_Settings sb, UpdatedAt := t\<rparr>), ())
   }"

text \<open>The part of \<open>Restore\<close> that runs while passes are held off.\<close>

definition restore_held :: "('m, 'x) Config \<Rightarrow> string \<Rightarrow> Sandbox \<Rightarrow> 'x Driver \<Rightarrow> SnapshotRef \<Rightarrow> AuditEvent \<Rightarrow> AdmissionRequest
    \<Rightarrow> (('m, 'x) service, gerror + Sandbox) state" where
  "restore_held cfg i sb d ref ev adm = do {
     (out, u) \<leftarrow> Mutate (cfg_Store cfg) i (ETag (ResourceVersion sb)) (restore_change cfg adm) ();
     r \<leftarrow> (case out of
        Inl e \<Rightarrow> ret (Inl (storeErr e))
      | Inr s \<Rightarrow> do {
          err \<leftarrow> outside (Driver_Restore d i ref);
          (case err of
             None \<Rightarrow> ret (Inr s)
           | Some e \<Rightarrow> do {
               (back, u) \<leftarrow> Mutate (cfg_Store cfg) i (ETag (ResourceVersion s)) (restore_back cfg sb) ();
               ret (Inl (case back of Inl re \<Rightarrow> Joined [e, storeErr re] | Inr t \<Rightarrow> e))
             })
        });
     outcome cfg (case r of Inr s \<Rightarrow> ev\<lparr>ev_Generation := Generation s\<rparr> | Inl e \<Rightarrow> ev) (err_of r);
     committed cfg adm (or_zero r) (err_of r);
     ret r
   }"

definition Service_Restore :: "('m, 'x) Config \<Rightarrow> Ctx \<Rightarrow> Caller \<Rightarrow> string \<Rightarrow> string \<Rightarrow> SnapshotRef
    \<Rightarrow> (('m, 'x) service \<Rightarrow> ('m, 'x) service) list \<Rightarrow> gerror \<Rightarrow> (('m, 'x) service, gerror + Sandbox) state" where
  "Service_Restore cfg ctx c i ifMatch ref waits over =
     (case errors_Join (List.map_filter id [plainText (ref_ID ref), plainText (Digest ref)]) of
        Some e \<Rightarrow> ret (Inl e)
      | None \<Rightarrow> do {
          (sb, ready) \<leftarrow> prepare cfg c i ifMatch CanRestore CapSnapshot;
          (case ready of
             Inl e \<Rightarrow> ret (Inl e)
           | Inr d \<Rightarrow>
               if ref_ID ref = '''' \<or> Digest ref = ''''
               then ret (Inl (Errorf [Sentinel ErrInvalid] ''snapshot must carry its id and digest''))
               else (let ev = mk_event (cl_Principal c) ''restore'' i (Generation sb) '''' [(''snapshot_id'', ref_ID ref), (''digest'', Digest ref)]
                     in recorded cfg ev Inl (do {
                          g \<leftarrow> admitVerb cfg ctx ev c sb OpStart '''';
                          (case g of
                             Inl e \<Rightarrow> ret (Inl e)
                           | Inr ra \<Rightarrow> do {
                               busy \<leftarrow> holdPass i waits over;
                               r \<leftarrow> (case busy of
                                  Some e \<Rightarrow> do { outcome cfg ev (Some e); ret (Inl e) }
                                | None \<Rightarrow> do { r \<leftarrow> restore_held cfg i sb d ref ev (snd ra); unhold i True; ret r });
                               release (fst ra);
                               ret r
                             })
                        })))
        })"

section \<open>Notes, incarnations and the driver's own events\<close>

definition Service_Note :: "('m, 'x) Config \<Rightarrow> Caller \<Rightarrow> Sandbox \<Rightarrow> string \<Rightarrow> string \<Rightarrow> strmap \<Rightarrow> string list
    \<Rightarrow> (('m, 'x) service, gerror option) state" where
  "Service_Note cfg c sb action outc detail redacted =
     record_event cfg (mk_event (cl_Principal c) action (ID sb) (Generation sb) (if outc = '''' then OutcomeOK else outc)
       (foldl (\<lambda>d k. case map_of d k of Some v \<Rightarrow> AList.update k (redact cfg v) d | None \<Rightarrow> d) detail redacted))"

definition Service_Redact :: "('m, 'x) Config \<Rightarrow> string \<Rightarrow> string" where
  "Service_Redact cfg text = redact cfg text"

definition Service_Current :: "('m, 'x) Config \<Rightarrow> string \<Rightarrow> (('m, 'x) service, gerror + int \<times> bool) state" where
  "Service_Current cfg i = do {
     r \<leftarrow> call (\<lambda>m. (st_Get (cfg_Store cfg) i m, m));
     ret (case r of Inl e \<Rightarrow> Inl (storeErr e) | Inr sb \<Rightarrow> Inr (Generation sb, AcceptsWork (sb_State sb)))
   }"

text \<open>
  A value of a driver's payload: the types \<open>toInt64\<close> reads, and for every other only its text (\<open>fmt.Sprint\<close>). A
  float64 carries its integral part, as far as an int64 holds it, and its text. What \<open>ParseInt\<close> returns beside
  an error is 0, or the nearest int64 when the digits are out of range.
\<close>

datatype payload_value = PString string | PInt int | PInt64 int | PFloat int string | POther string

fun payload_text :: "payload_value \<Rightarrow> string" where
  "payload_text (PString s) = s"
| "payload_text (PInt n) = FormatInt n"
| "payload_text (PInt64 n) = FormatInt n"
| "payload_text (PFloat n s) = s"
| "payload_text (POther s) = s"

definition ParseInt_value :: "string \<Rightarrow> int" where
  "ParseInt_value s = (case ParseInt s of
       Some n \<Rightarrow> n
     | None \<Rightarrow>
         (let ds = (case s of [] \<Rightarrow> s | c # cs \<Rightarrow> if c = CHR ''-'' \<or> c = CHR ''+'' then cs else s)
          in if ds = [] \<or> \<not> list_all is_digit ds then 0
             else if hd s = CHR ''-'' then MinInt64 else MaxInt64))"

fun toInt64 :: "payload_value \<Rightarrow> int" where
  "toInt64 (PInt64 n) = n"
| "toInt64 (PInt n) = n"
| "toInt64 (PFloat n s) = n"
| "toInt64 (PString s) = ParseInt_value s"
| "toInt64 (POther s) = 0"

abbreviation DriverPrincipal :: string where
  "DriverPrincipal \<equiv> ''system:driver''"

fun payload_event :: "(string, payload_value) gomap \<Rightarrow> AuditEvent \<Rightarrow> AuditEvent" where
  "payload_event [] ev = ev"
| "payload_event ((k, v) # kvs) ev = payload_event kvs
     (if k = ''sandbox_id'' then ev\<lparr>SandboxID := (case v of PString s \<Rightarrow> s | _ \<Rightarrow> '''')\<rparr>
      else if k = ''generation'' then ev\<lparr>ev_Generation := toInt64 v\<rparr>
      else ev\<lparr>Detail := AList.update k (payload_text v) (Detail ev)\<rparr>)"

definition DriverRecorder :: "'m AuditLog \<Rightarrow> ('x \<Rightarrow> time \<times> 'x) \<Rightarrow> string \<Rightarrow> (string, payload_value) gomap
    \<Rightarrow> (('m, 'x) service, gerror option) state" where
  "DriverRecorder log clock event payload = do {
     t \<leftarrow> outside clock;
     call (al_Append log (payload_event payload ((mk_event DriverPrincipal event '''' 0 OutcomeOK [])\<lparr>At := t\<rparr>)))
   }"

end
