(* ===== verification/VerbLaws.thy ===== *)
theory VerbLaws
  imports Verbs
begin

text \<open>
  What holds of the verbs that act in a sandbox, as one family (\<open>verb_call\<close>): they are accounted for in the record and leave
  the sandboxes alone, they need a sandbox the caller sees in a state that takes them, nothing is asked of the
  driver when the record or the guard refuses, a command's output keeps to the sandbox's budget, and a restore the
  driver refuses is undone.
\<close>

section \<open>Rules for results\<close>

text \<open>
  \<open>yields P R m Q\<close>: run from a state of \<open>P\<close>, the computation relates the state before to the state after by \<open>R\<close> and its
  result satisfies \<open>Q\<close>.
\<close>

definition yields :: "('s \<Rightarrow> bool) \<Rightarrow> ('s \<Rightarrow> 's \<Rightarrow> bool) \<Rightarrow> ('s, 'a) state \<Rightarrow> ('a \<Rightarrow> bool) \<Rightarrow> bool" where
  "yields P R m Q \<longleftrightarrow> (\<forall>s a s'. P s \<longrightarrow> run_state m s = (a, s') \<longrightarrow> R s s' \<and> Q a)"

definition stable :: "('s \<Rightarrow> bool) \<Rightarrow> ('s \<Rightarrow> 's \<Rightarrow> bool) \<Rightarrow> bool" where
  "stable P R \<longleftrightarrow> reflp R \<and> transp R \<and> (\<forall>s s'. R s s' \<longrightarrow> P s \<longrightarrow> P s')"

lemma yieldsI: "(\<And>s a s'. P s \<Longrightarrow> run_state m s = (a, s') \<Longrightarrow> R s s' \<and> Q a) \<Longrightarrow> yields P R m Q"
  by (simp add: yields_def)

lemma yieldsD: "yields P R m Q \<Longrightarrow> P s \<Longrightarrow> run_state m s = (a, s') \<Longrightarrow> R s s' \<and> Q a"
  by (simp add: yields_def)

lemma yields_weaken: "yields P R m Q \<Longrightarrow> (\<And>x. Q x \<Longrightarrow> Q' x) \<Longrightarrow> yields P R m Q'"
  by (auto simp: yields_def)

lemma yields_return: "stable P R \<Longrightarrow> Q x \<Longrightarrow> yields P R (ret x) Q"
  by (auto simp: yields_def stable_def reflp_def)

lemma yields_bind:
  assumes "stable P R" "yields P R m Q" "\<And>x. Q x \<Longrightarrow> yields P R (f x) Q'"
  shows "yields P R (State_Monad.bind m f) Q'"
proof (rule yieldsI)
  fix s a s'
  assume "P s" "run_state (State_Monad.bind m f) s = (a, s')"
  then obtain x t where x: "run_state m s = (x, t)" "run_state (f x) t = (a, s')"
    by (auto split: prod.splits)
  with \<open>P s\<close> assms(1,2) have "R s t" "Q x" "P t"
    unfolding yields_def stable_def by metis+
  with assms(1,3) x(2) show "R s s' \<and> Q' a"
    unfolding yields_def stable_def by (meson transpD)
qed

lemma yields_if: "(b \<Longrightarrow> yields P R m Q) \<Longrightarrow> (\<not> b \<Longrightarrow> yields P R n Q) \<Longrightarrow> yields P R (if b then m else n) Q"
  by simp

lemma yields_case_sum:
  "(\<And>e. x = Inl e \<Longrightarrow> yields P R (f e) Q) \<Longrightarrow> (\<And>y. x = Inr y \<Longrightarrow> yields P R (g y) Q) \<Longrightarrow> yields P R (case_sum f g x) Q"
  by (cases x) auto

lemma yields_case_option:
  "(x = None \<Longrightarrow> yields P R m Q) \<Longrightarrow> (\<And>y. x = Some y \<Longrightarrow> yields P R (g y) Q) \<Longrightarrow> yields P R (case_option m g x) Q"
  by (cases x) auto

lemma yields_case_prod: "(\<And>a b. x = (a, b) \<Longrightarrow> yields P R (f a b) Q) \<Longrightarrow> yields P R (case_prod f x) Q"
  by (cases x) auto

lemma yields_Let: "(\<And>x. x = e \<Longrightarrow> yields P R (f x) Q) \<Longrightarrow> yields P R (Let e f) Q"
  by simp

lemmas yields_intros = yields_if yields_case_sum yields_case_option yields_case_prod yields_Let

section \<open>The verbs as one family\<close>

datatype 'x verb_call =
    VExec string ExecRequest "'x ExecIO"
  | VSnapshot string string
  | VCopyIn string "char list"
  | VCopyOut string "(Sandbox \<Rightarrow> 'x \<Rightarrow> 'x) option"
  | VStream "'x StreamRequest" "'x Driver \<Rightarrow> Sandbox \<Rightarrow> 'x \<Rightarrow> (strmap \<times> gerror option) \<times> 'x"

definition plain_result :: "gerror + 'a \<Rightarrow> (gerror + unit) option" where
  "plain_result r = Some (case r of Inl e \<Rightarrow> Inl e | Inr a \<Rightarrow> Inr ())"

definition copied_result :: "gerror + (gerror option \<times> char list) option \<Rightarrow> (gerror + unit) option" where
  "copied_result r = (case r of
       Inl e \<Rightarrow> Some (Inl e)
     | Inr None \<Rightarrow> None
     | Inr (Some (err, bs)) \<Rightarrow> Some (as_sum err ()))"

fun run_verb :: "('m, 'x) Config \<Rightarrow> (string \<Rightarrow> string option) \<Rightarrow> Ctx \<Rightarrow> Caller \<Rightarrow> string \<Rightarrow> 'x verb_call
    \<Rightarrow> (('m, 'x) service, (gerror + unit) option) state" where
  "run_verb cfg q ctx c i (VExec ifMatch req eio) =
     do { r \<leftarrow> Service_Exec cfg q ctx c i ifMatch req eio; ret (case r of None \<Rightarrow> None | Some x \<Rightarrow> plain_result (fst x)) }"
| "run_verb cfg q ctx c i (VSnapshot ifMatch name) = do { r \<leftarrow> Service_Snapshot cfg ctx c i ifMatch name; ret (plain_result (fst r)) }"
| "run_verb cfg q ctx c i (VCopyIn dst tar) = do { r \<leftarrow> Service_CopyIn cfg ctx c i dst tar; ret (plain_result (fst r)) }"
| "run_verb cfg q ctx c i (VCopyOut src started) = do { r \<leftarrow> Service_CopyOut cfg ctx c i src started; ret (copied_result (fst r)) }"
| "run_verb cfg q ctx c i (VStream req fn) = do { r \<leftarrow> Service_Stream cfg ctx c i req fn; ret (plain_result (fst r)) }"

fun verb_action :: "'x verb_call \<Rightarrow> string" where
  "verb_action (VExec ifMatch req eio) = ActionExec"
| "verb_action (VSnapshot ifMatch name) = ''snapshot''"
| "verb_action (VCopyIn dst tar) = ''cp''"
| "verb_action (VCopyOut src started) = ''cp''"
| "verb_action (VStream req fn) = sr_Action req"

fun verb_accepts :: "'x verb_call \<Rightarrow> State \<Rightarrow> bool" where
  "verb_accepts (VSnapshot ifMatch name) st = settled st"
| "verb_accepts v st = AcceptsWork st"

definition failed :: "(gerror + unit) option \<Rightarrow> bool" where
  "failed r \<longleftrightarrow> (\<exists>e. r = Some (Inl e))"

lemma failed_simps [simp]: "failed (Some (Inl e))" "\<not> failed None" "\<not> failed (Some (Inr u))"
  "failed (plain_result (Inl e))" "\<not> failed (plain_result (Inr a))" "failed (copied_result (Inl e))"
  "failed (copied_result (Inr (Some (err, bs)))) \<longleftrightarrow> err \<noteq> None"
  by (auto simp: failed_def plain_result_def copied_result_def as_sum_def split: option.splits)

section \<open>What a verb needs\<close>

lemma prepare_refused:
  assumes "others w = []" "\<not> (\<exists>sb. memory_tbl (mem w) i = Some sb \<and> may c sb \<and> accepts (sb_State sb))"
  shows "\<exists>sb e. run_state (prepare (memory_config base) c i ifMatch accepts cap) w = ((sb, Inl e), w)"
  using assms by (auto simp: prepare_def run_Service_Get split: option.splits)

lemma verb_refused:
  assumes "others w = []" "\<not> (\<exists>sb. memory_tbl (mem w) i = Some sb \<and> may c sb \<and> accepts (sb_State sb))"
  shows "run_state (verb (memory_config base) ctx c i ifMatch accepts cap action detail screen command act) w =
    ((let r = fst (run_state (prepare (memory_config base) c i ifMatch accepts cap) w) in (Inl (projl (snd r)), fst r)), w)"
proof -
  obtain sb e where "run_state (prepare (memory_config base) c i ifMatch accepts cap) w = ((sb, Inl e), w)"
    using prepare_refused [OF assms] by blast
  then show ?thesis
    by (simp add: verb_def)
qed

lemma Exec_refused:
  assumes "others w = []" "\<not> (\<exists>sb. memory_tbl (mem w) i = Some sb \<and> may c sb \<and> AcceptsWork (sb_State sb))"
  shows "\<exists>sb e. run_state (Service_Exec (memory_config base) q ctx c i ifMatch req eio) w = (Some (Inl e, sb, []), w)"
  using assms by (auto simp: Service_Exec_def run_Service_Get Let_def split: option.splits)

text \<open>
  A verb needs a sandbox it may act on. Unless the sandbox is stored, the caller may act on it and its state
  takes the verb (Ready for a command, a copy and a stream, Ready or at rest for a snapshot), the verb fails
  and leaves everything, the record and the drivers included, exactly as it was.
\<close>

theorem verb_needs_sandbox:
  assumes "others w = []" "\<not> (\<exists>sb. memory_tbl (mem w) i = Some sb \<and> may c sb \<and> verb_accepts v (sb_State sb))"
  shows "\<exists>e. run_state (run_verb (memory_config base) q ctx c i v) w = (Some (Inl e), w)"
proof (cases v)
  case (VExec ifMatch req eio)
  with Exec_refused [OF assms(1), of i c base q ctx ifMatch req eio] assms(2) show ?thesis
    by (auto simp: plain_result_def)
next
  case (VSnapshot ifMatch name)
  with assms show ?thesis
    by (simp add: Service_Snapshot_def verb_refused Let_def plain_result_def split: option.split)
next
  case (VCopyIn dst tar)
  with assms show ?thesis
    by (simp add: Service_CopyIn_def verb_refused Let_def plain_result_def split: option.split)
next
  case (VCopyOut src started)
  with assms show ?thesis
    by (simp add: Service_CopyOut_def verb_refused Let_def copied_result_def split: option.split)
next
  case (VStream req fn)
  with assms show ?thesis
    by (simp add: Service_Stream_def verb_refused Let_def plain_result_def)
qed

theorem verb_needs_sandbox_witness:
  "\<exists>e. run_state (run_verb (memory_config sample_config) sample_quote sample_ctx (sample_caller\<lparr>cl_Principal := ''bob''\<rparr>)
     (ID sample_sandbox) (VSnapshot '''' ''s1'')) sample_plane = (Some (Inl e), sample_plane)"
proof -
  have "\<not> may (sample_caller\<lparr>cl_Principal := ''bob''\<rparr>) s" if "memory_tbl (mem sample_plane) (ID sample_sandbox) = Some s" for s
    using that by (auto simp: sample_plane_def sample_memory_def sample_caller_def sample_sandbox_def may_def)
  then show ?thesis
    using verb_needs_sandbox [OF sample_plane_ok(2), of "ID sample_sandbox" "sample_caller\<lparr>cl_Principal := ''bob''\<rparr>"
        "VSnapshot '''' ''s1''" sample_config sample_quote sample_ctx] by blast
qed

section \<open>When the driver is not asked\<close>

text \<open>
  \<open>R\<close> relates outside states between which no driver was called: the clock, the ownership of ids and the egress proxy's
  credentials keep it (\<open>quiet\<close>). \<open>reach\<close> is the relation on the service's states that follows.
\<close>

definition quiet :: "('x \<Rightarrow> 'x \<Rightarrow> bool) \<Rightarrow> ('m, 'x) Config \<Rightarrow> bool" where
  "quiet R cfg \<longleftrightarrow> reflp R \<and> transp R \<and> (\<forall>x. R x (snd (Now cfg x))) \<and>
     (\<forall>owns i x. cfg_Ownership cfg = Some owns \<longrightarrow> R x (snd (owns i x))) \<and>
     (\<forall>eg i x. cfg_Egress cfg = Some eg \<longrightarrow> R x (snd (eg_Call eg i x)) \<and>
        (\<forall>env fin y. fst (eg_Call eg i x) = Inr (env, fin) \<longrightarrow> R y (fin y)))"

definition reach :: "('x \<Rightarrow> 'x \<Rightarrow> bool) \<Rightarrow> ('m, 'x) service \<Rightarrow> ('m, 'x) service \<Rightarrow> bool" where
  "reach R w w' \<longleftrightarrow> guard w' = guard w \<and> R (ext w) (ext w')"

abbreviation under :: "'x Guard option \<Rightarrow> ('m, 'x) service \<Rightarrow> bool" where
  "under G w \<equiv> guard w = G"

lemma stable_reach: "quiet R cfg \<Longrightarrow> stable (under G) (reach R)"
  by (auto simp: quiet_def stable_def reach_def reflp_def transp_def)

lemma yields_outside: "(\<And>x. R x (snd (f x)) \<and> Q (fst (f x))) \<Longrightarrow> yields (under G) (reach R) (outside f) Q"
  by (rule yieldsI) (auto simp: run_outside reach_def)

lemma yields_release: "(\<And>y. R y (f y)) \<Longrightarrow> yields (under G) (reach R) (release f) (\<lambda>u. True)"
  unfolding release_def by (rule yields_outside) simp

lemma yields_call: "quiet R cfg \<Longrightarrow> (\<And>m. Q (fst (f m))) \<Longrightarrow> yields (under G) (reach R) (call f) Q"
  by (rule yieldsI) (auto simp: call_def reach_def quiet_def reflp_def split_beta)

text \<open>A record that refuses everything.\<close>

definition mute :: "('m, 'x) Config \<Rightarrow> bool" where
  "mute cfg \<longleftrightarrow> (\<forall>ev m. fst (al_Append (cfg_Audit cfg) ev m) \<noteq> None)"

lemma yields_record_event:
  assumes "quiet R cfg"
  shows "yields (under G) (reach R) (record_event cfg ev)
    (\<lambda>r. mute cfg \<longrightarrow> r \<noteq> None)"
proof -
  have now: "yields (under G) (reach R) (if At ev = 0 then now cfg else ret (At ev)) (\<lambda>t. True)"
    using assms by (auto intro!: yields_outside yields_return [OF stable_reach [OF assms]] simp: now_def quiet_def)
  have app: "yields (under G) (reach R) (call (al_Append (cfg_Audit cfg) e))
      (\<lambda>r. mute cfg \<longrightarrow> r \<noteq> None)" for e
    by (rule yields_call [OF assms]) (simp add: mute_def)
  show ?thesis
    unfolding record_event_def
    by (rule yields_bind [OF stable_reach [OF assms] now], rule yields_bind [OF stable_reach [OF assms] app],
        rule yields_return [OF stable_reach [OF assms]]) (auto split: option.splits)
qed

lemma yields_outcome: "quiet R cfg \<Longrightarrow> yields (under G) (reach R) (outcome cfg ev err) (\<lambda>u. True)"
  unfolding outcome_def by (rule yields_bind, erule stable_reach, erule yields_record_event) (auto intro: yields_return stable_reach)

lemma yields_owned: "quiet R cfg \<Longrightarrow> yields (under G) (reach R) (owned cfg i) (\<lambda>r. True)"
  unfolding owned_def
  by (intro yields_intros yields_return stable_reach yields_bind [OF stable_reach, OF _ yields_outside [where Q = "\<lambda>r. True"]])
     (auto simp: quiet_def)

lemma yields_Get: "quiet R cfg \<Longrightarrow> yields (under G) (reach R) (Service_Get cfg c i) (\<lambda>r. True)"
  unfolding Service_Get_def
  by (rule yields_bind, erule stable_reach, rule yields_call [where Q = "\<lambda>r. True"]) (auto intro: yields_return stable_reach)

lemma yields_prepare: "quiet R cfg \<Longrightarrow> yields (under G) (reach R) (prepare cfg c i ifMatch accepts cap) (\<lambda>r. True)"
  unfolding prepare_def
  by (intro yields_bind [OF stable_reach yields_Get] yields_bind [OF stable_reach yields_owned] yields_intros yields_return stable_reach) simp_all

text \<open>The two ways a verb ends before its driver: the record refuses the request, or the guard refuses the verb.\<close>

definition refuses :: "('x \<Rightarrow> 'x \<Rightarrow> bool) \<Rightarrow> 'x Guard option \<Rightarrow> string \<Rightarrow> bool" where
  "refuses R G op \<longleftrightarrow> (\<exists>g. G = Some g \<and> (\<forall>a x. adm_Action a = op \<longrightarrow> snd (snd (fst (g a x))) \<noteq> None \<and> R x (snd (g a x)) \<and>
     (\<forall>r y. fst (snd (fst (g a x))) = Some r \<longrightarrow> R y (r y))))"

lemma yields_guardAdmit:
  assumes "quiet R cfg" "refuses R G (adm_Action a)"
  shows "yields (under G) (reach R) (guardAdmit ctx a) (\<lambda>r. \<exists>e. r = Inl e)"
proof (rule yieldsI)
  fix w r w'
  assume w: "under G w" and run: "run_state (guardAdmit ctx a) w = (r, w')"
  let ?a = "a\<lparr>adm_Approval := ctx_Approval ctx, adm_Origin := ctx_Origin ctx\<rparr>"
  obtain g where g: "G = Some g" "\<forall>b x. adm_Action b = adm_Action a \<longrightarrow> snd (snd (fst (g b x))) \<noteq> None \<and> R x (snd (g b x)) \<and>
      (\<forall>r y. fst (snd (fst (g b x))) = Some r \<longrightarrow> R y (r y))"
    using assms(2) unfolding refuses_def by blast
  obtain s rel err x' where ga: "g ?a (ext w) = ((s, rel, err), x')" by (metis prod.exhaust)
  have "adm_Action ?a = adm_Action a" by simp
  from g(2) [rule_format, OF this, of "ext w"] ga have *: "err \<noteq> None" "R (ext w) x'" and rel: "\<forall>r y. rel = Some r \<longrightarrow> R y (r y)"
    by simp_all
  obtain e where e: "err = Some e" using *(1) by blast
  have "transp R" using assms(1) by (simp add: quiet_def)
  from transpD [OF this *(2)] rel have step: "rel = Some f \<Longrightarrow> R (ext w) (f x')" for f
    by simp
  have "r = Inl (guardErr e)" "w' = w\<lparr>ext := (case rel of None \<Rightarrow> x' | Some f \<Rightarrow> f x')\<rparr>"
    using run w g(1) ga e by (auto simp: guardAdmit_def State_Monad.get_def run_outside release_def split: option.splits)
  then show "reach R w w' \<and> (\<exists>e. r = Inl e)"
    using *(2) step by (simp add: reach_def split: option.split)
qed

lemma yields_admitVerb:
  assumes "quiet R cfg" "refuses R G op"
  shows "yields (under G) (reach R) (admitVerb cfg ctx ev c sb op command) (\<lambda>r. \<exists>e. r = Inl e)"
proof -
  have g: "yields (under G) (reach R) (guardAdmit ctx (verb_guarded c sb op command)) (\<lambda>r. \<exists>e. r = Inl e)"
    by (rule yields_guardAdmit [OF assms(1)]) (simp add: verb_guarded_def mk_admission_def assms(2))
  show ?thesis
    unfolding admitVerb_def
    by (rule yields_bind [OF stable_reach [OF assms(1)] g])
       (auto intro!: yields_bind [OF stable_reach [OF assms(1)] yields_outcome [OF assms(1)]] yields_return [OF stable_reach [OF assms(1)]])
qed

lemma yields_recorded:
  assumes "quiet R cfg" "\<And>e. Q (refuse e)"
    "\<not> mute cfg \<Longrightarrow> yields (under G) (reach R) rest Q"
  shows "yields (under G) (reach R) (recorded cfg ev refuse rest) Q"
  unfolding recorded_def
  by (rule yields_bind [OF stable_reach [OF assms(1)] yields_record_event [OF assms(1)]], rule yields_case_option)
     (auto intro: assms yields_return stable_reach)

lemma yields_screen:
  "quiet R cfg \<Longrightarrow> \<forall>f x. screen = Some f \<longrightarrow> R x (snd (f x)) \<Longrightarrow>
    yields (under G) (reach R) (case screen of None \<Rightarrow> ret None | Some f \<Rightarrow> outside f) (\<lambda>r. True)"
  by (intro yields_intros yields_return stable_reach yields_outside) simp_all

lemma yields_verb:
  assumes "quiet R cfg" "mute cfg \<or> refuses R G OpExec \<and> (\<forall>f x. screen = Some f \<longrightarrow> R x (snd (f x)))"
  shows "yields (under G) (reach R) (verb cfg ctx c i ifMatch accepts cap action detail screen command act) (\<lambda>r. \<exists>e. fst r = Inl e)"
proof -
  note st = stable_reach [OF assms(1)]
  show ?thesis
    unfolding verb_def
  proof (intro yields_bind [OF st yields_prepare [OF assms(1)]] yields_case_prod yields_case_sum yields_Let yields_recorded [OF assms(1)]
        yields_return [OF st])
    fix sb ev
    assume "\<not> mute cfg"
    with assms(2) have "refuses R G OpExec" "\<forall>f x. screen = Some f \<longrightarrow> R x (snd (f x))" by blast+
    then show "yields (under G) (reach R) (do {
        screened \<leftarrow> (case screen of None \<Rightarrow> ret None | Some f \<Rightarrow> outside f);
        (case screened of
           Some e \<Rightarrow> do { outcome cfg ev (Some e); ret (Inl e, sb) }
         | None \<Rightarrow> do {
             g \<leftarrow> admitVerb cfg ctx ev c sb OpExec command;
             (case g of
                Inl e \<Rightarrow> ret (Inl e, sb)
              | Inr ra \<Rightarrow> do { r \<leftarrow> act d sb ev (snd ra); release (fst ra); ret (r, sb) })
           })
      }) (\<lambda>r. \<exists>e. fst r = Inl e)" for d
      by (intro yields_bind [OF st yields_screen [OF assms(1)]] yields_case_option yields_bind [OF st yields_outcome [OF assms(1)]]
            yields_return [OF st] yields_bind [OF st yields_admitVerb [OF assms(1)]]) (auto intro!: yields_return [OF st])
  qed auto
qed

lemma yields_exec_checked:
  assumes "quiet R cfg" "mute cfg \<or> refuses R G OpExec \<and> (\<forall>f line x. Screen eio = Some f \<longrightarrow> R x (snd (f line x)))"
  shows "yields (under G) (reach R) (exec_checked cfg q ctx c i sb d req dreq eio) (\<lambda>r. \<exists>x e. r = Some x \<and> fst x = Inl e)"
proof -
  note st = stable_reach [OF assms(1)]
  show ?thesis
    unfolding exec_checked_def
  proof (intro yields_case_sum yields_Let yields_bind [OF st yields_owned [OF assms(1)]] yields_case_option yields_recorded [OF assms(1)]
        yields_return [OF st])
    fix line ev
    assume "\<not> mute cfg"
    with assms(2) have refuses: "refuses R G OpExec" and scr: "\<forall>f line x. Screen eio = Some f \<longrightarrow> R x (snd (f line x))" by blast+
    have s: "yields (under G) (reach R) (case Screen eio of None \<Rightarrow> ret None | Some f \<Rightarrow> outside (f line)) (\<lambda>r. True)"
      using scr by (intro yields_intros yields_return st yields_outside) simp_all
    have g: "yields (under G) (reach R) (guardAdmit ctx (mk_admission ActionExec c (Some sb) None (Some req))) (\<lambda>r. \<exists>e. r = Inl e)"
      by (rule yields_guardAdmit [OF assms(1)]) (simp add: mk_admission_def refuses)
    show "yields (under G) (reach R) (do {
        screened \<leftarrow> (case Screen eio of None \<Rightarrow> ret None | Some f \<Rightarrow> outside (f line));
        (case screened of
           Some e \<Rightarrow> do { outcome cfg ev (Some e); ret (Some (Inl e, sb, [])) }
         | None \<Rightarrow> do {
             g \<leftarrow> guardAdmit ctx (mk_admission ActionExec c (Some sb) None (Some req));
             (case g of
                Inl e \<Rightarrow> do { outcome cfg ev (Some e); ret (Some (Inl e, sb, [])) }
              | Inr rs \<Rightarrow> rest rs)
           })
      }) (\<lambda>r. \<exists>x e. r = Some x \<and> fst x = Inl e)" for rest
      by (intro yields_bind [OF st s] yields_case_option yields_bind [OF st yields_outcome [OF assms(1)]] yields_return [OF st]
            yields_bind [OF st g])
         (auto intro!: yields_bind [OF st yields_outcome [OF assms(1)]] yields_return [OF st])
  qed auto
qed

lemma yields_Exec:
  assumes "quiet R cfg" "mute cfg \<or> refuses R G OpExec \<and> (\<forall>f line x. Screen eio = Some f \<longrightarrow> R x (snd (f line x)))"
  shows "yields (under G) (reach R) (Service_Exec cfg q ctx c i ifMatch req eio) (\<lambda>r. \<exists>x e. r = Some x \<and> fst x = Inl e)"
proof -
  note st = stable_reach [OF assms(1)] and checked = yields_exec_checked [OF assms]
  have call: "yields (under G) (reach R) (outside (eg_Call eg i)) (\<lambda>r. \<forall>env fin y. r = Inr (env, fin) \<longrightarrow> R y (fin y))"
    if "cfg_Egress cfg = Some eg" for eg
    using assms(1) that by (intro yields_outside) (auto simp: quiet_def)
  have cred: "yields (under G) (reach R) (do { r \<leftarrow> exec_checked cfg q ctx c i sb d req dreq eio; release fin; ret r })
      (\<lambda>r. \<exists>x e. r = Some x \<and> fst x = Inl e)" if "\<forall>y. R y (fin y)" for fin sb d dreq
    using that by (intro yields_bind [OF st checked] yields_bind [OF st yields_release] yields_return [OF st]) auto
  show ?thesis
    unfolding Service_Exec_def
    by (intro yields_Let yields_case_option yields_if yields_return [OF st] yields_bind [OF st yields_Get [OF assms(1)]] yields_case_sum
          checked yields_bind [OF st call] cred) auto
qed

fun screens_quiet :: "('x \<Rightarrow> 'x \<Rightarrow> bool) \<Rightarrow> 'x verb_call \<Rightarrow> bool" where
  "screens_quiet R (VExec ifMatch req eio) = (\<forall>f line x. Screen eio = Some f \<longrightarrow> R x (snd (f line x)))"
| "screens_quiet R (VStream req fn) = (\<forall>f x. sr_Screen req = Some f \<longrightarrow> R x (snd (f x)))"
| "screens_quiet R v = True"

lemma yields_then_verb:
  assumes "quiet R cfg" "mute cfg \<or> refuses R G OpExec \<and> (\<forall>f x. screen = Some f \<longrightarrow> R x (snd (f x)))" "\<And>e. failed (f (Inl e))"
  shows "yields (under G) (reach R) (do {
      r \<leftarrow> (case bad of Some e \<Rightarrow> ret (Inl e, s0)
        | None \<Rightarrow> verb cfg ctx c i ifMatch accepts cap action detail screen command act);
      ret (f (fst r)) }) failed"
proof -
  note st = stable_reach [OF assms(1)]
  have "yields (under G) (reach R) (case bad of Some e \<Rightarrow> ret (Inl e, s0)
        | None \<Rightarrow> verb cfg ctx c i ifMatch accepts cap action detail screen command act) (\<lambda>r. \<exists>e. fst r = Inl e)"
    by (intro yields_case_option yields_return [OF st] yields_verb [OF assms(1,2)]) auto
  then show ?thesis
    by (rule yields_bind [OF st]) (auto intro!: yields_return [OF st] simp: assms(3))
qed

lemma yields_run_verb:
  assumes "quiet R cfg" "mute cfg \<or> refuses R G OpExec \<and> screens_quiet R v"
  shows "yields (under G) (reach R) (run_verb cfg q ctx c i v) failed"
proof (cases v)
  case (VExec ifMatch req eio)
  note st = stable_reach [OF assms(1)]
  show ?thesis
    unfolding VExec run_verb.simps
    by (intro yields_bind [OF st yields_Exec [OF assms(1)]] yields_return [OF st]) (use assms(2) VExec in auto)
next
  case (VSnapshot ifMatch name)
  with assms(2) show ?thesis
    unfolding VSnapshot run_verb.simps Service_Snapshot_def by (intro yields_then_verb [OF assms(1)]) auto
next
  case (VCopyIn dst tar)
  with assms(2) show ?thesis
    unfolding VCopyIn run_verb.simps Service_CopyIn_def by (intro yields_then_verb [OF assms(1)]) auto
next
  case (VCopyOut src started)
  with assms(2) show ?thesis
    unfolding VCopyOut run_verb.simps Service_CopyOut_def by (intro yields_then_verb [OF assms(1)]) auto
next
  case (VStream req fn)
  show ?thesis
    using yields_then_verb [OF assms(1), where bad = None and f = plain_result and screen = "sr_Screen req"] assms(2) VStream
    by (simp add: Service_Stream_def)
qed

text \<open>
  What cannot be recorded is not done. When the record refuses every event, each verb fails, and the outside is
  changed at most by the clock, the ownership of ids and the egress credential: no driver, screen, guard or
  interceptor is asked anything. \<open>R\<close> is any preorder on the outside those three keep.
\<close>

theorem unrecorded_verb_does_nothing:
  assumes "quiet R cfg" "mute cfg" "run_state (run_verb cfg q ctx c i v) w = (r, w')"
  shows "failed r \<and> R (ext w) (ext w')"
  using yieldsD [OF yields_run_verb [OF assms(1)] refl assms(3)] assms(2) by (simp add: reach_def)

text \<open>
  The guard is not gone round. When the installed guard refuses every exec, no verb succeeds: not a command, and not a
  snapshot, a copy or a stream either; and no driver and no interceptor is asked anything. \<open>R\<close> is any preorder on the
  outside that the guard itself, its release, the caller's screen, the clock, the ownership of ids and the egress credential keep.
\<close>

theorem guard_not_bypassed:
  assumes "quiet R cfg" "refuses R (guard w) OpExec" "screens_quiet R v" "run_state (run_verb cfg q ctx c i v) w = (r, w')"
  shows "failed r \<and> R (ext w) (ext w')"
  using yieldsD [OF yields_run_verb [OF assms(1)] refl assms(4)] assms(2,3) by (simp add: reach_def)

definition verb_config :: "(Memory, Fake) Config" where
  "verb_config = sample_config\<lparr>cfg_Drivers := [(''process'', fake_driver id (\<lambda>i q f. (Inr 0, f)) (\<lambda>i q f. (Inr 0, f))
     (\<lambda>i q f. (Inr 0, f)) ''process'' [CapCopy, CapSnapshot])]\<rparr>"

definition mute_config :: "(Memory, Fake) Config" where
  "mute_config = verb_config\<lparr>cfg_Audit := \<lparr>al_Append = (\<lambda>ev m. (Some (Sentinel ErrUnavailable), m)), al_AuditFor = None\<rparr>\<rparr>"

lemma quiet_sample: "quiet (=) mute_config" "quiet (=) verb_config" "mute mute_config"
  by (auto simp: quiet_def mute_config_def verb_config_def sample_config_def mute_def reflp_def transp_def)

theorem unrecorded_verb_does_nothing_witness:
  "failed (fst (run_state (run_verb mute_config sample_quote sample_ctx sample_caller (ID sample_sandbox) (VCopyIn ''f'' ''x'')) sample_plane)) \<and>
   ext (snd (run_state (run_verb mute_config sample_quote sample_ctx sample_caller (ID sample_sandbox) (VCopyIn ''f'' ''x'')) sample_plane)) =
     ext sample_plane"
  using unrecorded_verb_does_nothing [OF quiet_sample(1,3), of sample_quote sample_ctx sample_caller "ID sample_sandbox" "VCopyIn ''f'' ''x''"
      sample_plane] by (metis prod.collapse)

definition strict_guard :: "Fake Guard" where
  "strict_guard a x = (([], None, Some (Sentinel ErrForbidden)), x)"

theorem guard_not_bypassed_witness:
  "failed (fst (run_state (run_verb verb_config sample_quote sample_ctx sample_caller (ID sample_sandbox) (VSnapshot '''' ''s1''))
     (sample_plane\<lparr>guard := Some strict_guard\<rparr>)))"
proof -
  have "refuses (=) (guard (sample_plane\<lparr>guard := Some strict_guard\<rparr>)) OpExec"
    by (simp add: refuses_def strict_guard_def)
  then show ?thesis
    using guard_not_bypassed [OF quiet_sample(2), of "sample_plane\<lparr>guard := Some strict_guard\<rparr>" "VSnapshot '''' ''s1''" sample_quote
        sample_ctx sample_caller "ID sample_sandbox"]
    by (metis prod.collapse screens_quiet.simps(3))
qed

section \<open>The account of a verb\<close>

text \<open>
  \<open>closes\<close>: a computation that follows a recorded request writes its outcome; \<open>accounts\<close>: a whole verb either records nothing and
  fails, or records the request first and its outcome later. \<open>verdict\<close> reads off a result whether it is a success, and
  is \<^const>\<open>None\<close> for a panic. \<open>silent\<close> computations do not write to the store or the record.
\<close>

definition alone :: "(Memory, 'x) service \<Rightarrow> bool" where
  "alone w \<longleftrightarrow> others w = [] \<and> memory_inv (mem w)"

definition outcome_of :: "string \<Rightarrow> string \<Rightarrow> string \<Rightarrow> bool \<Rightarrow> AuditEvent \<Rightarrow> bool" where
  "outcome_of who action i ok ev \<longleftrightarrow> ev_Principal ev = who \<and> Action ev = action \<and> SandboxID ev = i \<and>
     Outcome ev = (if ok then OutcomeOK else OutcomeFailed)"

definition grows :: "(Memory, 'x) service \<Rightarrow> (Memory, 'x) service \<Rightarrow> AuditEvent list \<Rightarrow> bool" where
  "grows w w' evs \<longleftrightarrow> alone w' \<and> memory_tbl (mem w') = memory_tbl (mem w) \<and> audit (mem w') = audit (mem w) @ evs"

definition closes :: "string \<Rightarrow> string \<Rightarrow> string \<Rightarrow> ('a \<Rightarrow> bool option) \<Rightarrow> ((Memory, 'x) service, 'a) state \<Rightarrow> bool" where
  "closes who action i verdict m \<longleftrightarrow> (\<forall>w a w'. alone w \<longrightarrow> run_state m w = (a, w') \<longrightarrow>
     (\<exists>evs. grows w w' evs \<and> (\<forall>ok. verdict a = Some ok \<longrightarrow> (\<exists>ev \<in> set evs. outcome_of who action i ok ev))))"

definition accounts :: "string \<Rightarrow> string \<Rightarrow> string \<Rightarrow> ('a \<Rightarrow> bool option) \<Rightarrow> ((Memory, 'x) service, 'a) state \<Rightarrow> bool" where
  "accounts who action i verdict m \<longleftrightarrow> (\<forall>w a w'. alone w \<longrightarrow> run_state m w = (a, w') \<longrightarrow>
     (\<exists>evs. grows w w' evs \<and>
        (evs = [] \<and> verdict a = Some False \<or>
         (\<exists>ev rest. evs = ev # rest \<and> plane.asked_of who action i ev \<and>
            (\<forall>ok. verdict a = Some ok \<longrightarrow> (\<exists>ev \<in> set rest. outcome_of who action i ok ev))))))"

definition silent :: "(Memory, 'x) service \<Rightarrow> (Memory, 'x) service \<Rightarrow> bool" where
  "silent w w' \<longleftrightarrow> (others w = [] \<longrightarrow> others w' = [] \<and> mem w' = mem w)"

lemma still_grows: "plane.still w w' \<Longrightarrow> alone w \<Longrightarrow> \<exists>evs. grows w w' evs"
  by (auto simp: plane.acted_def alone_def grows_def)

lemma grows_trans: "grows u v a \<Longrightarrow> grows v w b \<Longrightarrow> grows u w (a @ b)"
  by (simp add: grows_def)

lemma grows_alone: "grows w w' evs \<Longrightarrow> alone w'"
  by (simp add: grows_def)

lemma closes_bind:
  assumes "keeps plane.still m" "\<And>x. closes who action i verdict (f x)"
  shows "closes who action i verdict (State_Monad.bind m f)"
  unfolding closes_def
proof (intro allI impI)
  fix w a w'
  assume "alone w" "run_state (State_Monad.bind m f) w = (a, w')"
  then obtain x v where x: "run_state m w = (x, v)" "run_state (f x) v = (a, w')"
    by (auto split: prod.splits)
  obtain e1 where "grows w v e1"
    using still_grows [OF keepsD [OF assms(1) x(1)] \<open>alone w\<close>] by blast
  moreover from this assms(2) x(2) obtain e2 where "grows v w' e2"
    "\<forall>ok. verdict a = Some ok \<longrightarrow> (\<exists>ev \<in> set e2. outcome_of who action i ok ev)"
    unfolding closes_def using grows_alone by blast
  ultimately show "\<exists>evs. grows w w' evs \<and> (\<forall>ok. verdict a = Some ok \<longrightarrow> (\<exists>ev \<in> set evs. outcome_of who action i ok ev))"
    by (intro exI [of _ "e1 @ e2"]) (auto intro: grows_trans)
qed

lemma closes_then:
  assumes "closes who action i verdict' m" "\<And>x. keeps plane.still (f x)"
    "\<And>x w a w'. run_state (f x) w = (a, w') \<Longrightarrow> verdict a = verdict' x"
  shows "closes who action i verdict (State_Monad.bind m f)"
  unfolding closes_def
proof (intro allI impI)
  fix w a w'
  assume "alone w" "run_state (State_Monad.bind m f) w = (a, w')"
  then obtain x v where x: "run_state m w = (x, v)" "run_state (f x) v = (a, w')"
    by (auto split: prod.splits)
  from assms(1) \<open>alone w\<close> x(1) obtain e1 where e1: "grows w v e1"
    "\<forall>ok. verdict' x = Some ok \<longrightarrow> (\<exists>ev \<in> set e1. outcome_of who action i ok ev)"
    unfolding closes_def by blast
  obtain e2 where "grows v w' e2"
    using still_grows [OF keepsD [OF assms(2) x(2)] grows_alone [OF e1(1)]] by blast
  with e1 assms(3) [OF x(2)] show "\<exists>evs. grows w w' evs \<and> (\<forall>ok. verdict a = Some ok \<longrightarrow> (\<exists>ev \<in> set evs. outcome_of who action i ok ev))"
    by (intro exI [of _ "e1 @ e2"]) (auto intro: grows_trans)
qed

lemma record_event_grows:
  assumes "alone w" "run_state (record_event (memory_config base) ev) w = (r, w')"
  shows "r = None \<and> (\<exists>n t d. grows w w' [ev\<lparr>Seq := n, At := t, Detail := d\<rparr>])"
proof -
  have "r = None"
    using assms by (auto simp: record_event_def memory_audit_def Memory_Append_def call_def split: prod.splits)
  with plane.record_event_written [of base ev w w'] assms show ?thesis
    by (auto simp: alone_def grows_def)
qed

lemma closes_outcome_alone:
  assumes "ev_Principal ev = who" "Action ev = action" "SandboxID ev = i"
  shows "closes who action i (\<lambda>u. Some (err = None)) (outcome (memory_config base) ev err)"
  unfolding closes_def
proof (intro allI impI)
  fix w a w'
  let ?ev = "outcome_event (memory_config base) ev err"
  assume w: "alone w" and "run_state (outcome (memory_config base) ev err) w = (a, w')"
  then obtain r where "run_state (record_event (memory_config base) ?ev) w = (r, w')"
    by (auto simp: outcome_def split: prod.splits)
  from record_event_grows [OF w this] obtain n t d where g: "grows w w' [?ev\<lparr>Seq := n, At := t, Detail := d\<rparr>]"
    by blast
  have "outcome_of who action i (err = None) (?ev\<lparr>Seq := n, At := t, Detail := d\<rparr>)"
    using assms by (cases err) (simp_all add: outcome_of_def outcome_event_def Let_def)
  with g show "\<exists>evs. grows w w' evs \<and> (\<forall>ok. Some (err = None) = Some ok \<longrightarrow> (\<exists>ev \<in> set evs. outcome_of who action i ok ev))"
    by force
qed

lemma closes_outcome:
  assumes "ev_Principal ev = who" "Action ev = action" "SandboxID ev = i" "keeps plane.still rest"
    "\<And>w a w'. run_state rest w = (a, w') \<Longrightarrow> verdict a = Some (err = None)"
  shows "closes who action i verdict (State_Monad.bind (outcome (memory_config base) ev err) (\<lambda>u. rest))"
  using closes_then [OF closes_outcome_alone [OF assms(1-3)], of "\<lambda>u. rest"] assms(4,5) by blast

lemma closes_case_sum:
  "(\<And>e. x = Inl e \<Longrightarrow> closes who action i verdict (f e)) \<Longrightarrow> (\<And>y. x = Inr y \<Longrightarrow> closes who action i verdict (g y)) \<Longrightarrow>
     closes who action i verdict (case_sum f g x)"
  by (cases x) auto

lemma closes_case_option:
  "(z = None \<Longrightarrow> closes who action i verdict m) \<Longrightarrow> (\<And>y. z = Some y \<Longrightarrow> closes who action i verdict (h y)) \<Longrightarrow>
     closes who action i verdict (case_option m h z)"
  by (cases z) auto

lemma closes_no_verdict: "keeps plane.still m \<Longrightarrow> (\<And>w a w'. run_state m w = (a, w') \<Longrightarrow> verdict a = None) \<Longrightarrow> closes who action i verdict m"
  unfolding closes_def by (metis keepsD option.distinct(1) still_grows)
lemma accounts_fail: "verdict a = Some False \<Longrightarrow> accounts who action i verdict (ret a)"
  by (auto simp: accounts_def grows_def)

lemma accounts_silent:
  assumes "keeps silent m" "\<And>x. accounts who action i verdict (f x)"
  shows "accounts who action i verdict (State_Monad.bind m f)"
  unfolding accounts_def
proof (intro allI impI)
  fix w a w'
  assume w: "alone w" and "run_state (State_Monad.bind m f) w = (a, w')"
  then obtain x v where x: "run_state m w = (x, v)" "run_state (f x) v = (a, w')"
    by (auto split: prod.splits)
  have v: "mem v = mem w" "alone v"
    using keepsD [OF assms(1) x(1)] w by (auto simp: silent_def alone_def)
  then have "grows v w' evs = grows w w' evs" for evs
    by (simp add: grows_def)
  with assms(2) [of x] x(2) v(2) show "\<exists>evs. grows w w' evs \<and> (evs = [] \<and> verdict a = Some False \<or>
      (\<exists>ev rest. evs = ev # rest \<and> plane.asked_of who action i ev \<and>
        (\<forall>ok. verdict a = Some ok \<longrightarrow> (\<exists>ev \<in> set rest. outcome_of who action i ok ev))))"
    unfolding accounts_def by metis
qed

lemma accounts_then:
  assumes "accounts who action i verdict' m" "\<And>x. keeps silent (f x)" "\<And>x w a w'. run_state (f x) w = (a, w') \<Longrightarrow> verdict a = verdict' x"
  shows "accounts who action i verdict (State_Monad.bind m f)"
  unfolding accounts_def
proof (intro allI impI)
  fix w a w'
  assume w: "alone w" and "run_state (State_Monad.bind m f) w = (a, w')"
  then obtain x v where x: "run_state m w = (x, v)" "run_state (f x) v = (a, w')"
    by (auto split: prod.splits)
  have "grows w v evs \<Longrightarrow> grows w w' evs" for evs
    using keepsD [OF assms(2) x(2)] by (auto simp: silent_def alone_def grows_def)
  with assms(1) x(1) w assms(3) [OF x(2)] show "\<exists>evs. grows w w' evs \<and> (evs = [] \<and> verdict a = Some False \<or>
      (\<exists>ev rest. evs = ev # rest \<and> plane.asked_of who action i ev \<and>
        (\<forall>ok. verdict a = Some ok \<longrightarrow> (\<exists>ev \<in> set rest. outcome_of who action i ok ev))))"
    unfolding accounts_def by metis
qed

lemma accounts_recorded:
  assumes "ev_Principal ev = who" "Action ev = action" "SandboxID ev = i" "closes who action i verdict rest"
  shows "accounts who action i verdict (recorded (memory_config base) ev refuse rest)"
  unfolding accounts_def
proof (intro allI impI)
  fix w a w'
  assume w: "alone w" and run: "run_state (recorded (memory_config base) ev refuse rest) w = (a, w')"
  obtain r v where r: "run_state (record_event (memory_config base) (requested ev)) w = (r, v)" by (metis prod.exhaust)
  from record_event_grows [OF w r] obtain n t d where
    g: "r = None" "grows w v [(requested ev)\<lparr>Seq := n, At := t, Detail := d\<rparr>]" by blast
  with run r have "run_state rest v = (a, w')"
    by (simp add: recorded_def)
  with assms(4) grows_alone [OF g(2)] obtain e2 where e2: "grows v w' e2"
    "\<forall>ok. verdict a = Some ok \<longrightarrow> (\<exists>ev \<in> set e2. outcome_of who action i ok ev)"
    unfolding closes_def by blast
  moreover have "plane.asked_of who action i ((requested ev)\<lparr>Seq := n, At := t, Detail := d\<rparr>)"
    using assms(1-3) by (simp add: plane.asked_of_def plane.asked_def requested_def)
  ultimately show "\<exists>evs. grows w w' evs \<and> (evs = [] \<and> verdict a = Some False \<or>
      (\<exists>ev rest. evs = ev # rest \<and> plane.asked_of who action i ev \<and>
        (\<forall>ok. verdict a = Some ok \<longrightarrow> (\<exists>ev \<in> set rest. outcome_of who action i ok ev))))"
    using grows_trans [OF g(2) e2(1)] by (intro exI conjI) auto
qed

lemma accounts_case_sum:
  "(\<And>e. x = Inl e \<Longrightarrow> accounts who action i verdict (f e)) \<Longrightarrow> (\<And>y. x = Inr y \<Longrightarrow> accounts who action i verdict (g y)) \<Longrightarrow>
     accounts who action i verdict (case_sum f g x)"
  by (cases x) auto

lemma accounts_case_option:
  "(z = None \<Longrightarrow> accounts who action i verdict m) \<Longrightarrow> (\<And>y. z = Some y \<Longrightarrow> accounts who action i verdict (h y)) \<Longrightarrow>
     accounts who action i verdict (case_option m h z)"
  by (cases z) auto

lemma accounts_if: "(b \<Longrightarrow> accounts who action i verdict m) \<Longrightarrow> (\<not> b \<Longrightarrow> accounts who action i verdict n) \<Longrightarrow>
    accounts who action i verdict (if b then m else n)"
  by simp

lemma silent_refl: "reflp silent"
  by (simp add: reflp_def silent_def)

lemma silent_trans: "transp silent"
  by (auto simp: transp_def silent_def)

lemma silent_outside: "keeps silent (outside f)"
  by (rule keepsI) (auto simp: run_outside silent_def)

lemma silent_read: "keeps silent (call (\<lambda>m. (f m, m)))"
  by (rule keepsI) (auto simp: run_call_alone silent_def call_def others_step_def)

lemma silent_release: "keeps silent (release f)"
  unfolding release_def by (rule silent_outside)

lemmas silent_intros = keeps_intros silent_refl silent_trans silent_outside silent_read silent_release

lemma silent_owned: "keeps silent (owned cfg i)"
  unfolding owned_def by (intro silent_intros)

lemma silent_Get: "keeps silent (Service_Get cfg c i)"
  unfolding Service_Get_def by (intro silent_intros)

lemma silent_prepare: "keeps silent (prepare cfg c i ifMatch accepts cap)"
  unfolding prepare_def by (intro silent_intros silent_owned silent_Get)

text \<open>A step that may already have closed the account, such as an admission that was refused.\<close>

lemma closes_choice:
  assumes "closes who action i vm m" "\<And>x. vm x = None \<Longrightarrow> closes who action i verdict (f x)"
    "\<And>x b. vm x = Some b \<Longrightarrow> keeps plane.still (f x)"
    "\<And>x b w a w'. vm x = Some b \<Longrightarrow> run_state (f x) w = (a, w') \<Longrightarrow> verdict a = Some b"
  shows "closes who action i verdict (State_Monad.bind m f)"
  unfolding closes_def
proof (intro allI impI)
  fix w a w'
  assume "alone w" "run_state (State_Monad.bind m f) w = (a, w')"
  then obtain x v where x: "run_state m w = (x, v)" "run_state (f x) v = (a, w')"
    by (auto split: prod.splits)
  from assms(1) \<open>alone w\<close> x(1) obtain e1 where e1: "grows w v e1"
    "\<forall>ok. vm x = Some ok \<longrightarrow> (\<exists>ev \<in> set e1. outcome_of who action i ok ev)"
    unfolding closes_def by blast
  have "\<exists>e2. grows v w' e2 \<and> (\<forall>ok. verdict a = Some ok \<longrightarrow> (\<exists>ev \<in> set (e1 @ e2). outcome_of who action i ok ev))"
  proof (cases "vm x")
    case None
    with assms(2) x(2) grows_alone [OF e1(1)] obtain e2 where "grows v w' e2"
      "\<forall>ok. verdict a = Some ok \<longrightarrow> (\<exists>ev \<in> set e2. outcome_of who action i ok ev)"
      unfolding closes_def by blast
    then show ?thesis by (intro exI [of _ e2]) auto
  next
    case (Some b)
    obtain e2 where "grows v w' e2"
      using still_grows [OF keepsD [OF assms(3) [OF Some] x(2)] grows_alone [OF e1(1)]] by blast
    with e1(2) Some assms(4) [OF Some x(2)] show ?thesis by auto
  qed
  then show "\<exists>evs. grows w w' evs \<and> (\<forall>ok. verdict a = Some ok \<longrightarrow> (\<exists>ev \<in> set evs. outcome_of who action i ok ev))"
    using grows_trans [OF e1(1)] by blast
qed

definition refused :: "gerror + 'a \<Rightarrow> bool option" where
  "refused r = (case r of Inl e \<Rightarrow> Some False | Inr a \<Rightarrow> None)"

definition sum_verdict :: "gerror + 'a \<Rightarrow> bool option" where
  "sum_verdict r = Some (case r of Inl e \<Rightarrow> False | Inr a \<Rightarrow> True)"

definition copy_verdict :: "gerror + (gerror option \<times> char list) option \<Rightarrow> bool option" where
  "copy_verdict r = (case r of Inl e \<Rightarrow> Some False | Inr None \<Rightarrow> None | Inr (Some (err, bs)) \<Rightarrow> Some (err = None))"

definition exec_verdict :: "exec_result option \<Rightarrow> bool option" where
  "exec_verdict r = (case r of None \<Rightarrow> None | Some x \<Rightarrow> sum_verdict (fst x))"

lemma verdict_simps [simp]: "refused (Inl e) = Some False" "refused (Inr a) = None" "sum_verdict (Inl e) = Some False"
  "sum_verdict (Inr a) = Some True" "copy_verdict (Inl e) = Some False" "copy_verdict (Inr None) = None"
  "copy_verdict (Inr (Some (err, bs))) = Some (err = None)" "sum_verdict (as_sum err a) = Some (err = None)"
  "exec_verdict None = None" "exec_verdict (Some x) = sum_verdict (fst x)"
  by (auto simp: refused_def sum_verdict_def copy_verdict_def as_sum_def exec_verdict_def split: option.split)

lemma refused_iff: "refused r = Some b \<longleftrightarrow> \<not> b \<and> (\<exists>e. r = Inl e)" "refused r = None \<longleftrightarrow> (\<exists>a. r = Inr a)"
  by (cases r; auto)+

lemma sum_verdict_err: "sum_verdict r = Some (err_of r = None)"
  by (cases r) (simp_all add: err_of_def)

lemmas still_run = plane.still_intros plane.still_steps

lemma closes_admitVerb:
  assumes "ev_Principal ev = who" "Action ev = action" "SandboxID ev = i"
  shows "closes who action i refused (admitVerb (memory_config base) ctx ev c sb op command)"
  unfolding admitVerb_def
  by (intro closes_bind [OF plane.still_guardAdmit] closes_bind [OF plane.still_admit] closes_bind [OF plane.still_release] closes_case_sum
        closes_outcome [OF assms] closes_no_verdict still_run) auto

lemma accounts_verb:
  assumes "\<And>d sb ev adm. ev_Principal ev = cl_Principal c \<Longrightarrow> Action ev = action \<Longrightarrow> SandboxID ev = i \<Longrightarrow>
      closes (cl_Principal c) action i verdict (act d sb ev adm)" "\<And>e. verdict (Inl e) = Some False"
  shows "accounts (cl_Principal c) action i (\<lambda>r. verdict (fst r))
    (verb (memory_config base) ctx c i ifMatch accepts cap action detail screen command act)"
proof -
  have act: "closes (cl_Principal c) action i (\<lambda>r. verdict (fst r)) (do { r \<leftarrow> act d sb ev adm; release rel; ret (r, sb) })"
    if "ev_Principal ev = cl_Principal c" "Action ev = action" "SandboxID ev = i" for d sb ev adm rel
    by (rule closes_then [OF assms(1) [OF that]]) (auto intro!: still_run split: prod.splits)
  have adm: "closes (cl_Principal c) action i (\<lambda>r. verdict (fst r)) (do {
      g \<leftarrow> admitVerb (memory_config base) ctx ev c sb OpExec command;
      (case g of Inl e \<Rightarrow> ret (Inl e, sb) | Inr ra \<Rightarrow> do { r \<leftarrow> act d sb ev (snd ra); release (fst ra); ret (r, sb) }) })"
    if ev: "ev_Principal ev = cl_Principal c" "Action ev = action" "SandboxID ev = i" for d sb ev
    by (rule closes_choice [OF closes_admitVerb [OF ev]]) (auto simp: refused_iff assms(2) intro!: act ev still_run)
  show ?thesis
    unfolding verb_def Let_def
    by (intro accounts_silent [OF silent_prepare] accounts_fail accounts_recorded
          closes_bind [of "case screen of None \<Rightarrow> ret None | Some f \<Rightarrow> outside f"] closes_case_option closes_outcome adm still_run
        | auto simp: assms(2) mk_event_def split: prod.split sum.split | intro conjI allI impI)+
qed

lemma closes_snapshot_act:
  assumes ev: "ev_Principal ev = who" "Action ev = action" "SandboxID ev = i"
  shows "closes who action i sum_verdict (snapshot_act (memory_config base) j name d sb ev adm)"
  unfolding snapshot_act_def
  by (intro closes_bind still_run closes_outcome) (auto simp: ev sum_verdict_err split: sum.split prod.splits)

lemma closes_copy_in_act:
  assumes ev: "ev_Principal ev = who" "Action ev = action" "SandboxID ev = i"
  shows "closes who action i sum_verdict (copy_in_act (memory_config base) j dst tar d sb ev adm)"
  unfolding copy_in_act_def
  by (intro closes_bind still_run closes_outcome) (auto simp: ev split: prod.splits)

lemma closes_copy_out_act:
  assumes ev: "ev_Principal ev = who" "Action ev = action" "SandboxID ev = i"
  shows "closes who action i copy_verdict (copy_out_act (memory_config base) j src started d sb ev adm)"
  unfolding copy_out_act_def Let_def
  by (intro closes_bind closes_case_option closes_no_verdict still_run closes_outcome) (auto simp: ev split: prod.splits)

lemma closes_stream_act:
  assumes ev: "ev_Principal ev = who" "Action ev = action" "SandboxID ev = i"
  shows "closes who action i sum_verdict (stream_act (memory_config base) req fn d sb ev adm)"
  unfolding stream_act_def Let_def
  by (intro closes_bind still_run closes_outcome) (auto simp: ev split: prod.splits)

lemma closes_exec_admitted:
  assumes ev: "ev_Principal ev = who" "Action ev = action" "SandboxID ev = i"
  shows "closes who action i exec_verdict (exec_admitted (memory_config base) j sb d dreq eio ev adm)"
  unfolding exec_admitted_def Let_def
  by (intro closes_bind closes_case_option closes_no_verdict still_run closes_outcome)
     (auto simp: ev sum_verdict_err split: prod.splits sum.split)

lemma closes_exec_checked:
  assumes ev: "ev = mk_event who action i gen '''' detail"
  shows "closes who action i exec_verdict (do {
    screened \<leftarrow> (case scr of None \<Rightarrow> ret None | Some f \<Rightarrow> outside (f line));
    (case screened of
       Some e \<Rightarrow> do { outcome (memory_config base) ev (Some e); ret (Some (Inl e, sb, [])) }
     | None \<Rightarrow> do {
         g \<leftarrow> guardAdmit ctx a;
         (case g of
            Inl e \<Rightarrow> do { outcome (memory_config base) ev (Some e); ret (Some (Inl e, sb, [])) }
          | Inr rs \<Rightarrow> do {
              o1 \<leftarrow> admit (memory_config base) adm;
              r \<leftarrow> (case o1 of
                 Inl e \<Rightarrow> do { outcome (memory_config base) ev (Some e); ret (Some (Inl e, sb, [])) }
               | Inr obj \<Rightarrow> exec_admitted (memory_config base) j sb d dreq eio ev adm);
              release (fst rs);
              ret r
            })
       })
  })"
proof -
  have f: "ev_Principal ev = who" "Action ev = action" "SandboxID ev = i"
    by (simp_all add: ev mk_event_def)
  have r: "closes who action i exec_verdict (case o1 of
        Inl e \<Rightarrow> do { outcome (memory_config base) ev (Some e); ret (Some (Inl e, sb, [])) }
      | Inr obj \<Rightarrow> exec_admitted (memory_config base) j sb d dreq eio ev adm)" for o1 :: "gerror + Sandbox"
    by (intro closes_case_sum closes_outcome [OF f] closes_exec_admitted [OF f] still_run) auto
  show ?thesis
    by (intro closes_bind [of "case scr of None \<Rightarrow> ret None | Some f \<Rightarrow> outside (f line)"] closes_bind [OF plane.still_guardAdmit]
          closes_bind [OF plane.still_admit] closes_case_option closes_case_sum closes_outcome [OF f] closes_then [OF r] still_run)
       (auto split: prod.splits)
qed

lemma accounts_exec_checked:
  "accounts (cl_Principal c) ActionExec i exec_verdict (exec_checked (memory_config base) q ctx c i sb d req dreq eio)"
  unfolding exec_checked_def Let_def
  by (intro accounts_case_sum accounts_fail accounts_silent [OF silent_owned] accounts_case_option accounts_recorded closes_exec_checked)
     (auto simp: mk_event_def)

lemma accounts_Exec: "accounts (cl_Principal c) ActionExec i exec_verdict (Service_Exec (memory_config base) q ctx c i ifMatch req eio)"
  unfolding Service_Exec_def Let_def
  by (intro accounts_case_option accounts_if accounts_fail accounts_silent [OF silent_Get] accounts_case_sum accounts_exec_checked
        accounts_silent [OF silent_outside] accounts_then [OF accounts_exec_checked] silent_intros)
     (auto split: prod.splits)

definition verdict :: "(gerror + unit) option \<Rightarrow> bool option" where
  "verdict r = (case r of None \<Rightarrow> None | Some x \<Rightarrow> sum_verdict x)"

lemma verdict_results: "verdict (plain_result r) = sum_verdict r" "verdict (copied_result s) = copy_verdict s"
  by (auto simp: verdict_def plain_result_def copied_result_def sum_verdict_def copy_verdict_def as_sum_def
      split: sum.split option.split)

lemma verdict_exec: "verdict (case r of None \<Rightarrow> None | Some x \<Rightarrow> plain_result (fst x)) = exec_verdict r"
  by (cases r) (simp_all add: verdict_results, simp add: verdict_def)

lemma accounts_run_verb: "accounts (cl_Principal c) (verb_action v) i verdict (run_verb (memory_config base) q ctx c i v)"
proof (cases v)
  case (VExec ifMatch req eio)
  show ?thesis
    unfolding VExec run_verb.simps verb_action.simps
    by (rule accounts_then [OF accounts_Exec]) (auto intro!: silent_intros simp: verdict_exec)
next
  case (VSnapshot ifMatch name)
  show ?thesis
    unfolding VSnapshot run_verb.simps verb_action.simps Service_Snapshot_def
    by (rule accounts_then [where verdict' = "\<lambda>r. sum_verdict (fst r)"], intro accounts_case_option accounts_fail accounts_verb closes_snapshot_act)
       (auto intro!: silent_intros simp: verdict_results)
next
  case (VCopyIn dst tar)
  show ?thesis
    unfolding VCopyIn run_verb.simps verb_action.simps Service_CopyIn_def
    by (rule accounts_then [where verdict' = "\<lambda>r. sum_verdict (fst r)"], intro accounts_case_option accounts_fail accounts_verb closes_copy_in_act)
       (auto intro!: silent_intros simp: verdict_results)
next
  case (VCopyOut src started)
  show ?thesis
    unfolding VCopyOut run_verb.simps verb_action.simps Service_CopyOut_def
    by (rule accounts_then [where verdict' = "\<lambda>r. copy_verdict (fst r)"], intro accounts_case_option accounts_fail accounts_verb closes_copy_out_act)
       (auto intro!: silent_intros simp: verdict_results)
next
  case (VStream req fn)
  show ?thesis
    unfolding VStream run_verb.simps verb_action.simps Service_Stream_def
    by (rule accounts_then [where verdict' = "\<lambda>r. sum_verdict (fst r)"], intro accounts_verb closes_stream_act)
       (auto intro!: silent_intros simp: verdict_results)
qed


definition verb_plane :: "(Memory, Fake) service" where
  "verb_plane = sample_plane\<lparr>ext := Fake_SetPhase (ID sample_sandbox) PhaseRunning (ext sample_plane)\<rparr>"

lemma verb_plane_ok: "memory_inv (mem verb_plane)" "others verb_plane = []" "mem verb_plane = sample_memory"
  using sample_plane_ok by (simp_all add: verb_plane_def)

definition sample_snapshot :: "(gerror + unit) option \<times> (Memory, Fake) service" where
  "sample_snapshot = run_state (run_verb (memory_config verb_config) sample_quote sample_ctx sample_caller (ID sample_sandbox)
     (VSnapshot '''' ''s1'')) verb_plane"

lemma sample_snapshot_ok: "fst sample_snapshot = Some (Inr ())"
  by code_simp


section \<open>The output of a command\<close>

lemma written_simps [simp]: "written [] = 0" "written (xs @ ys) = written xs + written ys" "written ((s, p) # cs) = length p + written cs"
  by (simp_all add: written_def)

lemma deliver_exceeded: "exceeded l \<Longrightarrow> deliver cs (l, acc) = Some (l, acc)"
  by (induction cs) (auto simp: limited_Write_def)

lemma deliver_within:
  "\<not> exceeded l \<Longrightarrow> 0 \<le> left l \<Longrightarrow> \<exists>l' out. deliver cs (l, acc) = Some (l', acc @ out) \<and> int (written out) \<le> left l \<and>
     (if exceeded l' then int (written out) = left l else out = cs)"
proof (induction cs arbitrary: l acc)
  case (Cons sp cs)
  obtain s p where sp: "sp = (s, p)" by (cases sp)
  show ?case
  proof (cases "int (length p) > left l")
    case True
    with Cons.prems show ?thesis
      by (simp add: sp limited_Write_def Let_def keep_chunk_def deliver_exceeded)
  next
    case False
    let ?l = "l\<lparr>left := left l - int (length p)\<rparr>"
    have step: "deliver (sp # cs) (l, acc) = deliver cs (?l, acc @ [(s, p)])"
      using False Cons.prems by (cases l) (simp add: sp limited_Write_def Let_def keep_chunk_def)
    obtain l' out where "deliver cs (?l, acc @ [(s, p)]) = Some (l', (acc @ [(s, p)]) @ out)" "int (written out) \<le> left ?l"
      "if exceeded l' then int (written out) = left ?l else out = cs"
      using Cons.IH [of ?l "acc @ [(s, p)]"] Cons.prems False by auto
    then show ?thesis
      unfolding step by (intro exI [of _ l'] exI [of _ "(s, p) # out"]) (auto simp: sp)
  qed
qed simp

lemma exec_budget_positive: "wf_settings st \<Longrightarrow> 1024 \<le> Values_Int (For st sb) SetExecOutput"
proof -
  assume wf: "wf_settings st"
  let ?d = "setting SetExecOutput ScopeSandbox ''control_plane.exec_output_bytes'' (FormatInt 16777216)
    (intRank 1024 1073741824 True) (\<lambda>c. itoa (ExecOutputBytes c))"
  have d: "?d \<in> set Registry" and k: "Key ?d = SetExecOutput" "rank ?d = intRank 1024 1073741824 True"
    by (simp add: Registry_def, simp_all add: setting_def)
  obtain r where "rank ?d (in_force st sb ?d) = Some r"
    using in_force_rank [OF wf d] by blast
  moreover have "get_str (For st sb) SetExecOutput = in_force st sb ?d"
    using get_For [OF d] k(1) by simp
  ultimately show ?thesis
    using k(2) by (auto simp: Values_Int_def intRank_def split: option.splits if_splits)
qed

text \<open>What a command's result says of its output, and of the driver's own result when it is an exit code.\<close>

definition output_ok :: "('m, 'x) Config \<Rightarrow> string \<Rightarrow> ExecRequest \<Rightarrow> 'x ExecIO \<Rightarrow> exec_result option \<Rightarrow> bool" where
  "output_ok cfg i req eio r \<longleftrightarrow> (\<exists>res sb out. r = Some (res, sb, out) \<and>
     int (written out) \<le> Values_Int (For (cfg_Settings cfg) (sb_Settings sb)) SetExecOutput \<and>
     (\<forall>code. res = Inr code \<longrightarrow> (\<exists>d dreq x chunks. Registry_Get (sb_Driver sb) (cfg_Drivers cfg) = Inr d \<and>
        Argv dreq = xr_Argv req \<and> Command dreq = xr_Command req \<and> Cwd dreq = xr_Cwd req \<and> Stdin dreq = eio_Stdin eio \<and>
        fst (dr_Exec d i dreq x) = (chunks, Inr code) \<and>
        out = filter (\<lambda>(s, p). case s of ToStdout \<Rightarrow> eio_Stdout eio | ToStderr \<Rightarrow> eio_Stderr eio) chunks)))"

abbreviation gives :: "('s, 'a) state \<Rightarrow> ('a \<Rightarrow> bool) \<Rightarrow> bool" where
  "gives m Q \<equiv> yields (\<lambda>s. True) (\<lambda>s s'. True) m Q"

lemma stable_gives: "stable (\<lambda>s. True) (\<lambda>s s'. True)"
  by (simp add: stable_def reflp_def transp_def)

lemmas gives_bind = yields_bind [OF stable_gives] and gives_return = yields_return [OF stable_gives]

lemma gives_any: "gives m (\<lambda>x. True)"
  by (simp add: yields_def)

lemma gives_outside: "gives (outside f) (\<lambda>r. \<exists>x. r = fst (f x))"
  by (auto simp: yields_def run_outside)

lemma output_refused: "wf_settings (cfg_Settings cfg) \<Longrightarrow> output_ok cfg i req eio (Some (Inl e, sb, []))"
  using exec_budget_positive [of "cfg_Settings cfg" "sb_Settings sb"] by (simp add: output_ok_def)

lemma exec_error_Inr: "exec_error l e res = Inr code \<Longrightarrow> \<not> exceeded l \<and> res = Inr code"
  by (auto simp: exec_error_def split: if_splits sum.splits ctx_end.splits)

definition asked_for :: "ExecRequest \<Rightarrow> 'x ExecIO \<Rightarrow> DriverExecRequest \<Rightarrow> bool" where
  "asked_for req eio dreq \<longleftrightarrow> Argv dreq = xr_Argv req \<and> Command dreq = xr_Command req \<and> Cwd dreq = xr_Cwd req \<and>
     Stdin dreq = eio_Stdin eio \<and> Stdout dreq = eio_Stdout eio \<and> Stderr dreq = eio_Stderr eio"

lemma output_delivered:
  assumes "wf_settings (cfg_Settings cfg)" "Registry_Get (sb_Driver sb) (cfg_Drivers cfg) = Inr d" "asked_for req eio dreq"
    "deliver (filter (\<lambda>c. wants dreq (fst c)) (fst r)) (NewOutputLimit (Values_Int (For (cfg_Settings cfg) (sb_Settings sb)) SetExecOutput), []) = Some lo"
    "r = fst (dr_Exec d i dreq x)" "\<And>code. res = Inr code \<Longrightarrow> exec_error (fst lo) e (snd r) = Inr code"
  shows "output_ok cfg i req eio (Some (res, sb, snd lo))"
proof -
  let ?n = "Values_Int (For (cfg_Settings cfg) (sb_Settings sb)) SetExecOutput"
  let ?cs = "filter (\<lambda>c. wants dreq (fst c)) (fst r)"
  have "0 \<le> ?n"
    using exec_budget_positive [OF assms(1), of "sb_Settings sb"] by simp
  then have lo: "int (written (snd lo)) \<le> ?n" "\<not> exceeded (fst lo) \<Longrightarrow> snd lo = ?cs"
    using deliver_within [of "NewOutputLimit ?n" ?cs "[]"] assms(4) by (auto simp: NewOutputLimit_def split: if_splits)
  have cs: "?cs = filter (\<lambda>(s, p). case s of ToStdout \<Rightarrow> eio_Stdout eio | ToStderr \<Rightarrow> eio_Stderr eio) (fst r)"
    using assms(3) by (intro filter_cong) (auto simp: wants_def asked_for_def split: stream.split)
  show ?thesis
    unfolding output_ok_def
  proof (intro exI conjI allI impI)
    fix code
    assume "res = Inr code"
    with assms(6) have code: "\<not> exceeded (fst lo)" "snd r = Inr code"
      using exec_error_Inr by blast+
    show "fst (dr_Exec d i dreq x) = (fst r, Inr code)"
      using assms(5) code(2) by (metis prod.collapse)
    show "snd lo = filter (\<lambda>(s, p). case s of ToStdout \<Rightarrow> eio_Stdout eio | ToStderr \<Rightarrow> eio_Stderr eio) (fst r)"
      using lo(2) code(1) cs by simp
  qed (use assms(2,3) lo(1) in \<open>simp_all add: asked_for_def\<close>)
qed

lemma gives_exec_admitted:
  assumes "wf_settings (cfg_Settings cfg)" "Registry_Get (sb_Driver sb) (cfg_Drivers cfg) = Inr d" "asked_for req eio dreq"
  shows "gives (exec_admitted cfg i sb d dreq eio ev adm) (output_ok cfg i req eio)"
proof -
  let ?n = "Values_Int (For (cfg_Settings cfg) (sb_Settings sb)) SetExecOutput"
  have "0 \<le> ?n"
    using exec_budget_positive [OF assms(1), of "sb_Settings sb"] by simp
  then have total: "deliver cs (NewOutputLimit ?n, []) \<noteq> None" for cs
    using deliver_within [of "NewOutputLimit ?n" cs "[]"] by (auto simp: NewOutputLimit_def)
  show ?thesis
    unfolding exec_admitted_def Let_def
  proof (rule gives_bind [OF gives_any], rule gives_bind [OF gives_outside], intro gives_bind [OF gives_any] yields_case_option gives_return, goal_cases)
    case (1 u r)
    then show ?case using total by blast
  next
    case (2 u r lo w cut v1 v2)
    then obtain x where x: "r = fst (dr_Exec d i dreq x)" by blast
    show ?case
    proof (rule output_delivered [OF assms 2(3) x, where e = "eio_Ended eio (ext w)"])
      fix code
      assume "(case (exec_error (fst lo) (eio_Ended eio (ext w)) (snd r), cut) of (Inr code, Some e) \<Rightarrow> Inl e
          | _ \<Rightarrow> exec_error (fst lo) (eio_Ended eio (ext w)) (snd r)) = Inr code"
      then show "exec_error (fst lo) (eio_Ended eio (ext w)) (snd r) = Inr code"
        by (auto split: sum.splits option.splits)
    qed
  qed
qed

lemma gives_exec_checked:
  assumes "wf_settings (cfg_Settings cfg)" "Registry_Get (sb_Driver sb) (cfg_Drivers cfg) = Inr d" "asked_for req eio dreq"
  shows "gives (exec_checked cfg q ctx c i sb d req dreq eio) (output_ok cfg i req eio)"
proof -
  have tail: "gives (do {
      r \<leftarrow> (case a of
         Inl e \<Rightarrow> do { outcome cfg ev (Some e); ret (Some (Inl e, sb, [])) }
       | Inr obj \<Rightarrow> exec_admitted cfg i sb d dreq eio ev adm);
      release rel;
      ret r }) (output_ok cfg i req eio)" for a :: "gerror + Sandbox" and ev adm rel
  proof (rule gives_bind)
    show "gives (case a of
         Inl e \<Rightarrow> do { outcome cfg ev (Some e); ret (Some (Inl e, sb, [])) }
       | Inr obj \<Rightarrow> exec_admitted cfg i sb d dreq eio ev adm) (output_ok cfg i req eio)"
      by (intro yields_case_sum gives_bind [OF gives_any] gives_return output_refused assms(1) gives_exec_admitted [OF assms])
  qed (intro gives_bind [OF gives_any] gives_return)
  show ?thesis
    unfolding exec_checked_def recorded_def Let_def
    by (rule tail | rule yields_case_sum yields_case_option gives_return output_refused assms(1) gives_bind [OF gives_any])+
qed

lemma gives_Exec:
  assumes "wf_settings (cfg_Settings cfg)"
  shows "gives (Service_Exec cfg q ctx c i ifMatch req eio) (output_ok cfg i req eio)"
proof -
  have cred: "gives (do { r \<leftarrow> exec_checked cfg q ctx c i sb d req dreq eio; release fin; ret r }) (output_ok cfg i req eio)"
    if "Registry_Get (sb_Driver sb) (cfg_Drivers cfg) = Inr d" "asked_for req eio dreq" for sb d dreq fin
    by (rule gives_bind [OF gives_exec_checked [OF assms that]]) (intro gives_bind [OF gives_any] gives_return)
  show ?thesis
    unfolding Service_Exec_def Let_def
    by (rule cred gives_exec_checked [OF assms] yields_case_sum yields_case_option yields_if gives_return output_refused assms
          gives_bind [OF gives_any] | simp add: asked_for_def)+
qed

text \<open>
  The output of a command keeps to the sandbox's budget. With settings the server resolved, \<open>Exec\<close> never panics; what the caller
  receives, of both streams together, never exceeds the output bytes in force for the sandbox; and when it
  returns an exit code, that code is the driver's for this very command in this sandbox, and the caller got every
  byte of each stream it gave a writer for, in the order they were written.
\<close>

theorem exec_output_within_budget:
  assumes "NewSettings vals ceilings = Inr (cfg_Settings cfg)" "run_state (Service_Exec cfg q ctx c i ifMatch req eio) w = (r, w')"
  shows "output_ok cfg i req eio r"
  using yieldsD [OF gives_Exec [OF NewSettings_wf [OF assms(1)]] _ assms(2)] by simp

definition sample_io :: "Fake ExecIO" where
  "sample_io = \<lparr>eio_Stdin = None, eio_Stdout = True, eio_Stderr = True, Started = None, Screen = None, Refused = None, Timeout = 0,
     eio_Ended = (\<lambda>x. CtxLive)\<rparr>"

definition sample_exec :: ExecRequest where
  "sample_exec = \<lparr>xr_Argv = [''ls''], xr_Command = '''', xr_Cwd = '''', xr_Env = [], xr_Stdin = False\<rparr>"

theorem exec_output_within_budget_witness:
  "\<exists>st. NewSettings [(SetExecTimeout, ''60'')] [(SetExecTimeout, True)] = Inr st \<and>
     output_ok (verb_config\<lparr>cfg_Settings := st\<rparr>) (ID sample_sandbox) sample_exec sample_io
       (fst (run_state (Service_Exec (verb_config\<lparr>cfg_Settings := st\<rparr>) sample_quote sample_ctx sample_caller (ID sample_sandbox) ''''
          sample_exec sample_io) verb_plane))"
proof -
  obtain st where st: "NewSettings [(SetExecTimeout, ''60'')] [(SetExecTimeout, True)] = Inr st"
    using sample_settings by blast
  with exec_output_within_budget [OF _ prod.collapse [symmetric], of _ _ "verb_config\<lparr>cfg_Settings := st\<rparr>"] show ?thesis
    by simp
qed

end
