(* ===== verification/RestoreLaws.thy ===== *)
theory RestoreLaws
  imports VerbLaws
begin

text \<open>
  What \<open>Restore\<close> (\<^verbatim>\<open>verbs.go\<close>) leaves behind when nothing else writes: the move to Starting is made before the driver
  puts the snapshot back, so a restore the driver refuses has to be undone, and a restore that is returned has run.
\<close>

section \<open>One write\<close>

lemma run_Mutate_writes:
  assumes "others w = []" "memory_tbl (mem w) i = Some cur" "CheckIfMatch h (ResourceVersion cur) = None"
    "run_state (fn cur c) w = ((Inr nxt, c'), w1)" "mem w1 = mem w" "others w1 = []" "ID nxt = i"
    "CheckImmutable cur nxt = None" "State_Valid (sb_State nxt)"
  shows "run_state (Mutate memory_store i h fn c) w = ((Inr (nxt\<lparr>ResourceVersion := rv (mem w) + 1\<rparr>), c'),
    w1\<lparr>mem := snd (Memory_Update nxt (ResourceVersion cur) (mem w))\<rparr>)"
  unfolding Mutate_def
  by (subst mutate_loop.simps)
     (use assms in \<open>simp add: run_call_alone memory_store_def Memory_Get_def Memory_Update_def Let_def\<close>)

lemma Memory_Update_writes:
  assumes "memory_tbl m (ID nxt) = Some cur" "CheckImmutable cur nxt = None" "State_Valid (sb_State nxt)"
  shows "memory_tbl (snd (Memory_Update nxt (ResourceVersion cur) m)) =
      (memory_tbl m)(ID nxt \<mapsto> nxt\<lparr>ResourceVersion := rv m + 1\<rparr>)"
    "rv (snd (Memory_Update nxt (ResourceVersion cur) m)) = rv m + 1"
    "audit (snd (Memory_Update nxt (ResourceVersion cur) m)) = audit m"
  using assms by (simp_all add: Memory_Update_def Let_def)

section \<open>Under the hold\<close>

definition restored :: "Sandbox \<Rightarrow> AdmissionRequest \<Rightarrow> time \<Rightarrow> Sandbox" where
  "restored sb adm t = sb\<lparr>Generation := Generation sb + 1, sb_State := StateStarting, UpdatedAt := t, Restarts := 0, NextRestart := None,
     sb_Labels := sb_Labels (Object adm), sb_Settings := sb_Settings (Object adm)\<rparr>"

definition undone :: "Sandbox \<Rightarrow> Sandbox \<Rightarrow> bool" where
  "undone sb s \<longleftrightarrow> s = sb\<lparr>Generation := Generation sb + 1, ResourceVersion := ResourceVersion s, UpdatedAt := UpdatedAt s\<rparr>"

lemma run_restore_change:
  assumes "CanRestore (sb_State sb)" "others w = []"
  shows "\<exists>t w1. run_state (restore_change cfg adm sb u) w = ((Inr (restored sb adm t), ()), w1) \<and> mem w1 = mem w \<and> others w1 = []"
proof -
  obtain t x where t: "Now cfg (ext w) = (t, x)" by (cases "Now cfg (ext w)")
  have "CanTransition (sb_State sb) StateStarting"
    using assms(1) CanTransition_to_Starting by blast
  then have "Sandbox_Restore t sb = Inr (sb\<lparr>Generation := Generation sb + 1, sb_State := StateStarting, UpdatedAt := t\<rparr>)"
    using assms(1) by (simp add: Sandbox_Restore_def Transition_def)
  with t assms(2) show ?thesis
    by (intro exI [of _ t] exI [of _ "w\<lparr>ext := x\<rparr>"]) (simp add: restore_change_def now_def run_outside restored_def)
qed

lemma run_restore_back:
  assumes "others w = []"
  shows "\<exists>t w1. run_state (restore_back cfg sb cur u) w = ((Inr (cur\<lparr>sb_State := sb_State sb, Restarts := Restarts sb,
     NextRestart := NextRestart sb, sb_Labels := sb_Labels sb, sb_Settings := sb_Settings sb, UpdatedAt := t\<rparr>), ()), w1) \<and>
     mem w1 = mem w \<and> others w1 = []"
proof -
  obtain t x where t: "Now cfg (ext w) = (t, x)" by (cases "Now cfg (ext w)")
  with assms show ?thesis
    by (intro exI [of _ t] exI [of _ "w\<lparr>ext := x\<rparr>"]) (simp add: restore_back_def now_def run_outside)
qed

lemma restore_moves:
  assumes "alone w" "memory_tbl (mem w) i = Some sb" "CanRestore (sb_State sb)" "rv (mem w) < MaxInt64"
    "run_state (Mutate memory_store i (ETag (ResourceVersion sb)) (restore_change cfg adm) ()) w = ((out, u), w')"
  shows "\<exists>s t. out = Inr s \<and> s = (restored sb adm t)\<lparr>ResourceVersion := rv (mem w')\<rparr> \<and>
    memory_tbl (mem w') = (memory_tbl (mem w))(i \<mapsto> s) \<and> alone w' \<and> rv (mem w') = rv (mem w) + 1"
proof -
  have inv: "memory_inv (mem w)" "others w = []"
    using assms(1) by (simp_all add: alone_def)
  have sb: "ID sb = i" "1 \<le> ResourceVersion sb" "ResourceVersion sb \<le> MaxInt64"
    using inv(1) assms(2,4) by (fastforce simp: memory_inv_def)+
  obtain t w1 where ch: "run_state (restore_change cfg adm sb ()) w = ((Inr (restored sb adm t), ()), w1)" "mem w1 = mem w" "others w1 = []"
    using run_restore_change [OF assms(3) inv(2)] by blast
  let ?n = "restored sb adm t"
  have ok: "ID ?n = i" "CheckImmutable sb ?n = None" "State_Valid (sb_State ?n)"
    by (simp_all add: restored_def sb(1) CheckImmutable_def State_Valid_def)
  have "CheckIfMatch (ETag (ResourceVersion sb)) (ResourceVersion sb) = None"
    using CheckIfMatch_ETag [OF sb(2,3)] by simp
  from run_Mutate_writes [where fn = "restore_change cfg adm", OF inv(2) assms(2) this ch ok]
  have out: "out = Inr (?n\<lparr>ResourceVersion := rv (mem w) + 1\<rparr>)" "w' = w1\<lparr>mem := snd (Memory_Update ?n (ResourceVersion sb) (mem w))\<rparr>"
    using assms(5) by simp_all
  with Memory_Update_writes [of "mem w" ?n sb] memory_inv_Update [OF inv(1)] ok assms(2) ch(3) show ?thesis
    by (auto simp: alone_def)
qed

lemma restore_moves_back:
  assumes "alone w" "memory_tbl (mem w) i = Some s" "s = (restored sb adm t0)\<lparr>ResourceVersion := v\<rparr>" "ID sb = i" "rv (mem w) \<le> MaxInt64"
    "State_Valid (sb_State sb)"
    "run_state (Mutate memory_store i (ETag (ResourceVersion s)) (restore_back cfg sb) ()) w = ((out, u), w')"
  shows "\<exists>b. undone sb b \<and> memory_tbl (mem w') = (memory_tbl (mem w))(i \<mapsto> b) \<and> alone w'"
proof -
  have inv: "memory_inv (mem w)" "others w = []"
    using assms(1) by (simp_all add: alone_def)
  have v: "1 \<le> ResourceVersion s" "ResourceVersion s \<le> MaxInt64"
    using inv(1) assms(2,5) by (fastforce simp: memory_inv_def)+
  obtain t w1 where ch: "run_state (restore_back cfg sb s ()) w = ((Inr (s\<lparr>sb_State := sb_State sb, Restarts := Restarts sb,
     NextRestart := NextRestart sb, sb_Labels := sb_Labels sb, sb_Settings := sb_Settings sb, UpdatedAt := t\<rparr>), ()), w1)"
     "mem w1 = mem w" "others w1 = []"
    using run_restore_back [OF inv(2)] by blast
  let ?n = "s\<lparr>sb_State := sb_State sb, Restarts := Restarts sb,
     NextRestart := NextRestart sb, sb_Labels := sb_Labels sb, sb_Settings := sb_Settings sb, UpdatedAt := t\<rparr>"
  have ok: "ID ?n = i" "CheckImmutable s ?n = None" "State_Valid (sb_State ?n)"
    using assms(4,6) by (simp_all add: assms(3) restored_def CheckImmutable_def)
  have "CheckIfMatch (ETag (ResourceVersion s)) (ResourceVersion s) = None"
    using CheckIfMatch_ETag [OF v] by simp
  from run_Mutate_writes [where fn = "restore_back cfg sb", OF inv(2) assms(2) this ch ok]
  have out: "w' = w1\<lparr>mem := snd (Memory_Update ?n (ResourceVersion s) (mem w))\<rparr>"
    using assms(7) by simp
  have "undone sb (?n\<lparr>ResourceVersion := rv (mem w) + 1\<rparr>)"
    by (cases sb) (simp add: undone_def assms(3) restored_def)
  with out Memory_Update_writes [of "mem w" ?n s] memory_inv_Update [OF inv(1)] ok assms(2) ch(3) show ?thesis
    by (intro exI [of _ "?n\<lparr>ResourceVersion := rv (mem w) + 1\<rparr>"]) (auto simp: alone_def)
qed

lemma still_alone: "keeps plane.still m \<Longrightarrow> run_state m w = (a, w') \<Longrightarrow> alone w \<Longrightarrow>
    alone w' \<and> memory_tbl (mem w') = memory_tbl (mem w)"
  using still_frame [of m w a w'] by (auto simp: alone_def)

definition restore_result :: "string \<Rightarrow> Sandbox \<Rightarrow> 'x Driver \<Rightarrow> SnapshotRef \<Rightarrow> AdmissionRequest \<Rightarrow> (string \<Rightarrow> Sandbox option)
    \<Rightarrow> gerror + Sandbox \<Rightarrow> (string \<Rightarrow> Sandbox option) \<Rightarrow> bool" where
  "restore_result i sb d ref adm tbl r tbl' \<longleftrightarrow> (case r of
       Inl e \<Rightarrow> \<exists>b. undone sb b \<and> tbl' = tbl(i \<mapsto> b)
     | Inr s \<Rightarrow> (\<exists>t v. s = (restored sb adm t)\<lparr>ResourceVersion := v\<rparr>) \<and> tbl' = tbl(i \<mapsto> s) \<and> (\<exists>x. fst (Driver_Restore d i ref x) = None))"

lemma restore_held_result:
  assumes "alone w" "memory_tbl (mem w) i = Some sb" "CanRestore (sb_State sb)" "rv (mem w) < MaxInt64"
    "run_state (restore_held (memory_config base) i sb d ref ev adm) w = (r, w')"
  shows "alone w' \<and> restore_result i sb d ref adm (memory_tbl (mem w)) r (memory_tbl (mem w'))"
proof -
  let ?cfg = "memory_config base"
  obtain out u w1 where m1: "run_state (Mutate memory_store i (ETag (ResourceVersion sb)) (restore_change ?cfg adm) ()) w = ((out, u), w1)"
    by (metis prod.exhaust)
  obtain s t where s: "out = Inr s" "s = (restored sb adm t)\<lparr>ResourceVersion := rv (mem w1)\<rparr>"
    "memory_tbl (mem w1) = (memory_tbl (mem w))(i \<mapsto> s)" "alone w1" "rv (mem w1) = rv (mem w) + 1"
    using restore_moves [OF assms(1-4) m1] by blast
  obtain err x where dr: "Driver_Restore d i ref (ext w1) = (err, x)" by (cases "Driver_Restore d i ref (ext w1)")
  let ?fin = "\<lambda>r. do {
     outcome ?cfg (case r of Inr s \<Rightarrow> ev\<lparr>ev_Generation := Generation s\<rparr> | Inl e \<Rightarrow> ev) (err_of r);
     committed ?cfg adm (or_zero r) (err_of r);
     ret r }"
  have fin: "keeps plane.still (?fin r)" for r
    by (intro still_run)
  have fin_r: "run_state (?fin r0) v = (r1, v') \<Longrightarrow> r1 = r0" for r0 r1 v v'
    by (auto split: prod.splits)
  have w2: "alone (w1\<lparr>ext := x\<rparr>)"
    using s(4) by (simp add: alone_def)
  show ?thesis
  proof (cases err)
    case None
    then have run: "run_state (?fin (Inr s)) (w1\<lparr>ext := x\<rparr>) = (r, w')"
      using assms(5) m1 s(1) dr by (simp add: restore_held_def run_outside)
    have "r = Inr s"
      by (rule fin_r [OF run])
    moreover have "fst (Driver_Restore d i ref (ext w1)) = None"
      using dr None by simp
    ultimately show ?thesis
      using still_alone [OF fin run w2] s(2,3) by (auto simp: restore_result_def)
  next
    case (Some e)
    obtain bk u2 w3 where m2: "run_state (Mutate memory_store i (ETag (ResourceVersion s)) (restore_back ?cfg sb) ()) (w1\<lparr>ext := x\<rparr>) = ((bk, u2), w3)"
      by (metis prod.exhaust)
    have sb: "ID sb = i" "State_Valid (sb_State sb)"
      using assms(1,2) by (auto simp: alone_def memory_inv_def)
    obtain b where b: "undone sb b" "memory_tbl (mem w3) = (memory_tbl (mem w1))(i \<mapsto> b)" "alone w3"
      using restore_moves_back [OF w2 _ s(2) sb(1) _ sb(2) m2] s(3,5) assms(4) by auto
    let ?r = "Inl (case bk of Inl re \<Rightarrow> Joined [e, storeErr re] | Inr t \<Rightarrow> e) :: gerror + Sandbox"
    have run: "run_state (?fin ?r) w3 = (r, w')"
      using assms(5) m1 m2 s(1) dr Some by (simp add: restore_held_def run_outside)
    have "r = ?r"
      by (rule fin_r [OF run])
    then show ?thesis
      using still_alone [OF fin run b(3)] b(1,2) s(3) by (auto simp: restore_result_def)
  qed
qed

section \<open>The whole of Restore\<close>

text \<open>A step that gives out no resource version.\<close>

definition same_rv :: "(Memory, 'x) service \<Rightarrow> (Memory, 'x) service \<Rightarrow> bool" where
  "same_rv w w' \<longleftrightarrow> (others w = [] \<longrightarrow> others w' = [] \<and> rv (mem w') = rv (mem w))"

lemma same_rv_rules: "reflp same_rv" "transp same_rv" "keeps same_rv (outside f)" "keeps same_rv (release g)" "keeps same_rv State_Monad.get"
  by (auto simp: reflp_def transp_def same_rv_def release_def keeps_def run_outside State_Monad.get_def)

lemma same_rv_record_event: "keeps same_rv (record_event (memory_config base) ev)"
proof -
  have "keeps same_rv (call (al_Append (cfg_Audit (memory_config base)) ev))" for ev
    by (rule keepsI) (auto simp: same_rv_def run_call_alone memory_audit_def Memory_Append_def)
  then show ?thesis
    unfolding record_event_def now_def by (intro keeps_intros same_rv_rules)
qed

lemma same_rv_outcome: "keeps same_rv (outcome (memory_config base) ev err)"
  unfolding outcome_def by (intro keeps_intros same_rv_rules same_rv_record_event)

lemma same_rv_decisions: "keeps same_rv (recordDecisions (memory_config base) req ds)"
  by (induction ds) (auto intro!: keeps_intros same_rv_rules same_rv_record_event)

lemma same_rv_admitVerb: "keeps same_rv (admitVerb (memory_config base) ctx ev c sb op command)"
  unfolding admitVerb_def guardAdmit_def admit_def
  by (intro keeps_intros same_rv_rules same_rv_outcome same_rv_decisions)

lemma prepare_Inr:
  assumes "others w = []" "run_state (prepare (memory_config base) c i ifMatch accepts cap) w = ((sb, Inr d), w')"
  shows "memory_tbl (mem w) i = Some sb \<and> may c sb \<and> accepts (sb_State sb) \<and> CheckIfMatch ifMatch (ResourceVersion sb) = None \<and>
    Registry_Get (sb_Driver sb) (cfg_Drivers base) = Inr d"
proof -
  have "cfg_Drivers (memory_config base) = cfg_Drivers base"
    by (simp add: memory_config_def)
  with assms show ?thesis
    by (auto simp: prepare_def run_Service_Get capable_def split: option.splits if_splits sum.splits prod.splits)
qed

lemma admitVerb_Inr:
  assumes "run_state (admitVerb cfg ctx ev c sb op command) w = (Inr (rel, adm), w')"
  shows "admissible cfg sb (Object adm)"
proof -
  obtain g w1 where g: "run_state (guardAdmit ctx (verb_guarded c sb op command)) w = (g, w1)" by (metis prod.exhaust)
  then obtain rs where rs: "g = Inr rs"
    using assms by (cases g) (auto simp: admitVerb_def split: prod.splits)
  obtain a w2 where a: "run_state (admit cfg (verb_admission cfg c sb op command)) w1 = (a, w2)" by (metis prod.exhaust)
  then obtain obj where obj: "a = Inr obj" "adm = (verb_admission cfg c sb op command)\<lparr>Object := obj\<rparr>"
    using assms g rs by (cases a) (auto simp: admitVerb_def split: prod.splits)
  with admit_Inr [of cfg "verb_admission cfg c sb op command" w1 obj w2] a show ?thesis
    by (auto simp: admissible_def verb_admission_def)
qed

lemma try_hold_alone: "run_state (try_hold i) w = (b, w') \<Longrightarrow> mem w' = mem w \<and> others w' = others w"
  by (auto simp: run_try_hold split: if_splits)

lemma unhold_alone: "run_state (unhold i k) w = (u, w') \<Longrightarrow> mem w' = mem w \<and> others w' = others w"
  by (auto simp: run_unhold)

lemma Restore_cases:
  assumes "alone w" "rv (mem w) < MaxInt64" "run_state (Service_Restore (memory_config base) ctx c i ifMatch ref [] over) w = (r, w')"
  shows "alone w' \<and> ((\<exists>e. r = Inl e) \<and> memory_tbl (mem w') = memory_tbl (mem w) \<or>
    (\<exists>sb d adm. memory_tbl (mem w) i = Some sb \<and> may c sb \<and> CanRestore (sb_State sb) \<and>
       CheckIfMatch ifMatch (ResourceVersion sb) = None \<and>
       Registry_Get (sb_Driver sb) (cfg_Drivers base) = Inr d \<and> admissible (memory_config base) sb (Object adm) \<and>
       restore_result i sb d ref adm (memory_tbl (mem w)) r (memory_tbl (mem w'))))"
proof -
  let ?cfg = "memory_config base"
  let ?ev = "\<lambda>sb. mk_event (cl_Principal c) ''restore'' i (Generation sb) '''' [(''snapshot_id'', ref_ID ref), (''digest'', Digest ref)]"
  note unfold = Service_Restore_def recorded_def Let_def
  have a: "others w = []" using assms(1) by (simp add: alone_def)
  show ?thesis
  proof (cases "errors_Join (List.map_filter id [plainText (ref_ID ref), plainText (Digest ref)])")
    case (Some e)
    then show ?thesis using assms(1,3) by (auto simp: unfold)
  next
    case plain: None
    obtain sb ready w1 where p: "run_state (prepare ?cfg c i ifMatch CanRestore CapSnapshot) w = ((sb, ready), w1)" by (metis prod.exhaust)
    then have w1: "mem w1 = mem w" "alone w1"
      using keepsD [OF silent_prepare p] assms(1) by (auto simp: silent_def alone_def)
    show ?thesis
    proof (cases ready)
      case (Inl e)
      then show ?thesis using assms(3) plain p w1 by (auto simp: unfold)
    next
      case ready: (Inr d)
      note sb = prepare_Inr [OF a p [unfolded ready]]
      show ?thesis
      proof (cases "ref_ID ref = '''' \<or> Digest ref = ''''")
        case True
        then show ?thesis using assms(3) plain p ready w1 by (auto simp: unfold)
      next
        case named: False
        obtain rerr w2 where rec: "run_state (record_event ?cfg (requested (?ev sb))) w1 = (rerr, w2)" by (metis prod.exhaust)
        note w2 = still_alone [OF plane.still_record_event rec w1(2)]
        have rerr: "rerr = None"
          using record_event_grows [OF w1(2) rec] by simp
        obtain g w3 where g: "run_state (admitVerb ?cfg ctx (?ev sb) c sb OpStart '''') w2 = (g, w3)" by (metis prod.exhaust)
        have "keeps plane.still (admitVerb ?cfg ctx (?ev sb) c sb OpStart '''')"
          unfolding admitVerb_def by (intro still_run)
        note w3 = still_alone [OF this g] w2
        show ?thesis
        proof (cases g)
          case (Inl e)
          then show ?thesis using assms(3) plain p ready named rec rerr g w1 w3 by (auto simp: unfold)
        next
          case (Inr ra)
          obtain rel adm where ra: "ra = (rel, adm)" by (cases ra)
          obtain h w4 where h: "run_state (try_hold i) w3 = (h, w4)" by (metis prod.exhaust)
          have w4: "alone w4" "memory_tbl (mem w4) = memory_tbl (mem w)" "mem w4 = mem w3"
            using try_hold_alone [OF h] w3 w1 by (auto simp: alone_def)
          show ?thesis
          proof (cases h)
            case False
            obtain v o1 where o: "run_state (outcome ?cfg (?ev sb) (Some over)) w4 = (o1, v)" by (metis prod.exhaust)
            from still_alone [OF plane.still_outcome o w4(1)] show ?thesis
              using assms(3) plain p ready named rec rerr g Inr ra h False w4(2) o
              by (auto simp: unfold release_def run_outside alone_def)
          next
            case True
            obtain res w5 where res: "run_state (restore_held ?cfg i sb d ref (?ev sb) adm) w4 = (res, w5)" by (metis prod.exhaust)
            have "rv (mem w3) = rv (mem w)"
              using keepsD [OF same_rv_record_event rec] keepsD [OF same_rv_admitVerb g] w1 w2 by (simp add: same_rv_def alone_def)
            then have "rv (mem w4) < MaxInt64"
              using assms(2) w4(3) by simp
            with restore_held_result [OF w4(1) _ _ _ res] sb w4(2) have
              held: "alone w5" "restore_result i sb d ref adm (memory_tbl (mem w)) res (memory_tbl (mem w5))"
              by auto
            have "r = res" "mem w' = mem w5" "others w' = others w5"
              using assms(3) plain p ready named rec rerr g Inr ra h True res
              by (auto simp: unfold release_def run_outside run_unhold)
            with held sb admitVerb_Inr [OF g [unfolded Inr ra]] show ?thesis
              by (auto simp: alone_def)
          qed
        qed
      qed
    qed
  qed
qed

text \<open>
  C12: a restore happens wholly or not at all. With nobody else writing and no pass running, \<open>Restore\<close> either fails and leaves the
  sandbox in the state, with the labels, settings and restart count it had (at most its generation went up by
  one, and its version with it), or returns the sandbox as stored: one the caller may act on and the If-Match
  header named, at rest before, now Starting as the next generation with its restart count cleared and the labels
  and settings the interceptor admitted, and the driver did put the snapshot back. No other sandbox changes.
\<close>

theorem restore_all_or_nothing:
  assumes "memory_inv (mem w)" "others w = []" "rv (mem w) < MaxInt64"
    "run_state (Service_Restore (memory_config base) ctx c i ifMatch ref [] over) w = (r, w')"
  shows "memory_inv (mem w') \<and> (case r of
      Inl e \<Rightarrow> memory_tbl (mem w') = memory_tbl (mem w) \<or>
        (\<exists>sb b. memory_tbl (mem w) i = Some sb \<and> memory_tbl (mem w') = (memory_tbl (mem w))(i \<mapsto> b) \<and>
           b = sb\<lparr>Generation := Generation sb + 1, ResourceVersion := ResourceVersion b, UpdatedAt := UpdatedAt b\<rparr>)
    | Inr s \<Rightarrow> \<exists>sb d obj t v x. memory_tbl (mem w) i = Some sb \<and> may c sb \<and> CanRestore (sb_State sb) \<and>
        CheckIfMatch ifMatch (ResourceVersion sb) = None \<and> admissible (memory_config base) sb obj \<and>
        Registry_Get (sb_Driver sb) (cfg_Drivers base) = Inr d \<and> fst (Driver_Restore d i ref x) = None \<and>
        s = sb\<lparr>Generation := Generation sb + 1, ResourceVersion := v, sb_State := StateStarting, UpdatedAt := t, Restarts := 0,
          NextRestart := None, sb_Labels := sb_Labels obj, sb_Settings := sb_Settings obj\<rparr> \<and>
        memory_tbl (mem w') = (memory_tbl (mem w))(i \<mapsto> s))"
proof -
  have "alone w" using assms(1,2) by (simp add: alone_def)
  from Restore_cases [OF this assms(3,4)] show ?thesis
  proof (elim conjE disjE exE)
    fix sb d adm
    assume *: "alone w'" "memory_tbl (mem w) i = Some sb" "may c sb" "CanRestore (sb_State sb)" "CheckIfMatch ifMatch (ResourceVersion sb) = None"
      "Registry_Get (sb_Driver sb) (cfg_Drivers base) = Inr d" "admissible (memory_config base) sb (Object adm)"
      and res: "restore_result i sb d ref adm (memory_tbl (mem w)) r (memory_tbl (mem w'))"
    show ?thesis
    proof (cases r)
      case (Inl e)
      with res *(1,2) show ?thesis
        by (auto simp: restore_result_def undone_def alone_def)
    next
      case (Inr s)
      then obtain t v x where s: "s = (restored sb adm t)\<lparr>ResourceVersion := v\<rparr>" "memory_tbl (mem w') = (memory_tbl (mem w))(i \<mapsto> s)"
        "fst (Driver_Restore d i ref x) = None"
        using res by (auto simp: restore_result_def)
      have "s = sb\<lparr>Generation := Generation sb + 1, ResourceVersion := v, sb_State := StateStarting, UpdatedAt := t, Restarts := 0,
          NextRestart := None, sb_Labels := sb_Labels (Object adm), sb_Settings := sb_Settings (Object adm)\<rparr>"
        by (cases sb) (simp add: s(1) restored_def)
      moreover have "memory_inv (mem w')"
        using *(1) by (simp add: alone_def)
      ultimately show ?thesis
        unfolding Inr sum.case(2)
        by (intro conjI exI [of _ sb] exI [of _ d] exI [of _ "Object adm"] exI [of _ t] exI [of _ v] exI [of _ x]) (rule * s(2,3) | assumption)+
    qed
  qed (auto simp: alone_def)
qed

definition rest_plane :: "Fake \<Rightarrow> (Memory, Fake) service" where
  "rest_plane f = sample_plane\<lparr>mem := sample_memory\<lparr>sandboxes := [(ID sample_sandbox, sample_sandbox\<lparr>sb_State := StateStopped, ResourceVersion := 1\<rparr>)]\<rparr>, ext := f\<rparr>"

definition sample_ref :: SnapshotRef where
  "sample_ref = \<lparr>ref_ID = ''s1'', ref_Name = ''s1'', ref_Generation = 1, Digest = ''d'', ref_Bytes = 0, ref_Image = '''', ref_CreatedAt = 0\<rparr>"

definition sample_restore :: "Fake \<Rightarrow> (gerror + Sandbox) \<times> (Memory, Fake) service" where
  "sample_restore f = run_state (Service_Restore (memory_config verb_config) sample_ctx sample_caller (ID sample_sandbox) '''' sample_ref []
     (Sentinel Canceled)) (rest_plane f)"

lemma rest_plane_ok: "memory_inv (mem (rest_plane f))" "others (rest_plane f) = []" "rv (mem (rest_plane f)) < MaxInt64"
proof -
  show "memory_inv (mem (rest_plane f))"
    by (simp add: rest_plane_def memory_inv_def sample_memory_def NewMemory_def sample_sandbox_def wf_map_def State_Valid_def) code_simp
qed (simp_all add: rest_plane_def sample_plane_def sample_memory_def)

definition snapped :: Fake where
  "snapped = (Fake_New ''process'' [])\<lparr>instances := [(ID sample_sandbox, PhaseStopped)], snapshots := [(''s1'', sample_ref)]\<rparr>"

lemma sample_restore_ok: "\<not> isl (fst (sample_restore snapped))"
  by code_simp

theorem restore_all_or_nothing_witness:
  "\<exists>s. fst (sample_restore snapped) = Inr s \<and> sb_State s = StateStarting \<and> Generation s = Generation sample_sandbox + 1 \<and>
     memory_tbl (mem (snd (sample_restore snapped))) (ID sample_sandbox) = Some s"
proof -
  obtain s where s: "fst (sample_restore snapped) = Inr s"
    using sample_restore_ok by (cases "fst (sample_restore snapped)") auto
  then have run: "run_state (Service_Restore (memory_config verb_config) sample_ctx sample_caller (ID sample_sandbox) '''' sample_ref []
     (Sentinel Canceled)) (rest_plane snapped) = (Inr s, snd (sample_restore snapped))"
    by (metis prod.collapse sample_restore_def)
  have "memory_tbl (mem (rest_plane snapped)) (ID sample_sandbox) = Some sb \<Longrightarrow> Generation sb = Generation sample_sandbox" for sb
    by (auto simp: rest_plane_def)
  with restore_all_or_nothing [OF rest_plane_ok run] s show ?thesis
    by auto
qed

end
