(* ===== verification/Sessions.thy ===== *)
theory Sessions
  imports RestoreLaws
begin

text \<open>
  The sandboxes the server makes for its sessions (\<^verbatim>\<open>sessions.go\<close>): \<open>Command\<close>, \<open>ForwardEnv\<close>, the waits \<open>await\<close>, \<open>WaitReady\<close>,
  \<open>Settle\<close>, \<open>StopNow\<close> and \<open>DeleteNow\<close>, and the warm pool: \<open>NewPool\<close>, \<open>Members\<close>, \<open>fill\<close>, \<open>Claim\<close>, \<open>Drain\<close> and how \<open>Run\<close> backs off.

  A wait takes, for each time it sleeps, what the rest of the program does to the service meanwhile; when
  the list is used up its context ends. The pool's own lock and its kick channel are left out: they order
  calls of one process, and the guarded update is what keeps two claims apart.
\<close>

section \<open>Commands of a session\<close>

abbreviation SessionsPrincipal :: string where
  "SessionsPrincipal \<equiv> ''system:sessions''"

definition UserLabel :: "(char list \<Rightarrow> char list) \<Rightarrow> string \<Rightarrow> string \<Rightarrow> string" where
  "UserLabel sha tenant user = ''u-'' @ hex_encode (take 16 (sha (tenant @ [CHR 0x00] @ user)))"

text \<open>
  What is left to do when a command's context ends. \<open>forward d cmd names env\<close> is the driver's \<open>ForwardEnv\<close> on the command
  with \<open>env\<close> added to its environment.
\<close>

record 'x running_command =
  cmd_proc :: nat
  cmd_release :: "'x \<Rightarrow> 'x"
  cmd_end_call :: "('x \<Rightarrow> 'x) option"
  cmd_event :: AuditEvent

type_synonym 'x ForwardEnv = "'x Driver \<Rightarrow> nat \<Rightarrow> string list \<Rightarrow> string list \<Rightarrow> 'x \<Rightarrow> 'x"

text \<open>The part of \<open>Command\<close> that is admitted.\<close>

definition command_admitted :: "('m, 'x) Config \<Rightarrow> 'x ForwardEnv \<Rightarrow> string \<Rightarrow> Sandbox \<Rightarrow> 'x Driver \<Rightarrow> CommandRequest \<Rightarrow> AuditEvent
    \<Rightarrow> AdmissionRequest \<Rightarrow> ('x \<Rightarrow> 'x) \<Rightarrow> (('m, 'x) service, gerror + 'x running_command) state" where
  "command_admitted cfg forward i sb d req ev adm rel = do {
     made \<leftarrow> outside (Driver_Command d i req);
     r \<leftarrow> (case (made, cfg_Egress cfg) of
        (Inr cmd, Some eg) \<Rightarrow>
          if \<not> eg_For eg (sb_Driver sb) then ret (Inr (cmd, None))
          else do {
            cred \<leftarrow> outside (eg_Call eg i);
            (case cred of
               Inl e \<Rightarrow> ret (Inl (Errorf [Sentinel ErrUnavailable, e] ''an egress credential''))
             | Inr ce \<Rightarrow> do { release (forward d cmd (envNames (fst ce)) (fst ce)); ret (Inr (cmd, Some (snd ce))) })
          }
      | (Inr cmd, None) \<Rightarrow> ret (Inr (cmd, None))
      | (Inl e, _) \<Rightarrow> ret (Inl e));
     outcome cfg ev (err_of r);
     committed cfg adm sb (err_of r);
     (case r of
        Inl e \<Rightarrow> do { release rel; ret (Inl e) }
      | Inr ce \<Rightarrow> ret (Inr \<lparr>cmd_proc = fst ce, cmd_release = rel, cmd_end_call = snd ce, cmd_event = ev\<rparr>))
   }"

definition command_checked :: "('m, 'x) Config \<Rightarrow> 'x ForwardEnv \<Rightarrow> Ctx \<Rightarrow> Caller \<Rightarrow> string \<Rightarrow> Sandbox \<Rightarrow> 'x Driver \<Rightarrow> CommandRequest
    \<Rightarrow> (('m, 'x) service, gerror + 'x running_command) state" where
  "command_checked cfg forward ctx c i sb d req =
     (let line = (if cmd_Shell req then '':shell'' else cmd_Command req);
          ev = mk_event (cl_Principal c) ''exec'' i (Generation sb) '''' [(''command'', redact cfg line), (''via'', ''session'')];
          adm = \<lparr>Operation = OpExec, ar_Caller = c, ar_SandboxID = i, Old = Some sb, Object = sb, ar_Command = redact cfg line,
            ar_Stdin = cmd_Shell req, ar_Cwd = cmd_Cwd req, EnvNames = []\<rparr>
      in do {
        foreign \<leftarrow> owned cfg i;
        (case foreign of
           Some e \<Rightarrow> ret (Inl e)
         | None \<Rightarrow> recorded cfg ev Inl (do {
             g \<leftarrow> guardAdmit ctx (mk_admission ActionExec c (Some sb) None
               (Some \<lparr>xr_Argv = [], xr_Command = line, xr_Cwd = cmd_Cwd req, xr_Env = [], xr_Stdin = cmd_Shell req\<rparr>));
             (case g of
                Inl e \<Rightarrow> do { outcome cfg ev (Some e); ret (Inl e) }
              | Inr rs \<Rightarrow> do {
                  a \<leftarrow> admit cfg adm;
                  (case a of
                     Inl e \<Rightarrow> do { release (fst rs); outcome cfg ev (Some e); ret (Inl e) }
                   | Inr obj \<Rightarrow> command_admitted cfg forward i sb d req ev adm (fst rs))
                })
           }))
      })"

definition Service_Command :: "('m, 'x) Config \<Rightarrow> 'x ForwardEnv \<Rightarrow> Ctx \<Rightarrow> Caller \<Rightarrow> string \<Rightarrow> CommandRequest
    \<Rightarrow> (('m, 'x) service, (gerror + 'x running_command) \<times> Sandbox) state" where
  "Service_Command cfg forward ctx c i req =
     (if cmd_Shell req \<noteq> (cmd_Command req = '''') then ret (Inl (Errorf [Sentinel ErrInvalid] ''exactly one of a command and a shell''), zero_sandbox)
      else do {
        got \<leftarrow> Service_Get cfg c i;
        (case got of
           Inl e \<Rightarrow> ret (Inl e, zero_sandbox)
         | Inr sb \<Rightarrow>
             if \<not> AcceptsWork (sb_State sb)
             then ret (Inl (Errorf [Sentinel ErrInvalidTransition] ''only Ready runs commands''), sb)
             else (case Registry_Get (sb_Driver sb) (cfg_Drivers cfg) of
                 Inl e \<Rightarrow> ret (Inl (Errorf [Sentinel ErrUnavailable] ''driver is not registered''), sb)
               | Inr d \<Rightarrow>
                   if \<not> Has (dr_Info d) CapCommand
                   then ret (Inl (DriverError DriverUnsupported ''driver cannot run a session's commands''), sb)
                   else if (case cfg_Egress cfg of None \<Rightarrow> False | Some eg \<Rightarrow> eg_For eg (sb_Driver sb)) \<and> dr_Commander d = None
                   then ret (Inl (DriverError DriverUnsupported ''driver cannot pass a session's command its egress credential''), sb)
                   else do { r \<leftarrow> command_checked cfg forward ctx c i sb d req; ret (r, sb) }))
      })"

text \<open>The two functions run when the command's context has ended, with \<open>cause\<close>.\<close>

definition command_ended :: "('m, 'x) Config \<Rightarrow> 'x running_command \<Rightarrow> gerror \<Rightarrow> (('m, 'x) service, unit) state" where
  "command_ended cfg cmd cause = do {
     (case cmd_end_call cmd of Some f \<Rightarrow> release f | None \<Rightarrow> ret ());
     release (cmd_release cmd);
     (if errors_Is cause ErrEndedByGuard
      then do {
        _ \<leftarrow> record_event cfg ((cmd_event cmd)\<lparr>Action := ''exec.ended'', Outcome := OutcomeFailed, ev_Code := ErrorCode (Some cause),
          Detail := AList.update ''reason'' (reason cfg (Error cause)) (Detail (cmd_event cmd))\<rparr>);
        ret ()
      }
      else ret ())
   }"

definition Service_ForwardEnv :: "('m, 'x) Config \<Rightarrow> 'x ForwardEnv \<Rightarrow> Sandbox \<Rightarrow> nat \<Rightarrow> string list \<Rightarrow> (('m, 'x) service, unit) state" where
  "Service_ForwardEnv cfg forward sb cmd names = (case Registry_Get (sb_Driver sb) (cfg_Drivers cfg) of
       Inl e \<Rightarrow> ret ()
     | Inr d \<Rightarrow> if dr_Commander d \<noteq> None then release (forward d cmd names []) else ret ())"

section \<open>Waiting\<close>

text \<open>
  \<open>settled\<close> judges what was read: an error, or whether the wait is over; \<open>'c\<close> is what its closure captures. A pass that
  fails is only logged.
\<close>

fun await :: "('m, 'x) Config \<Rightarrow> string \<Rightarrow> (gerror + Sandbox \<Rightarrow> 'c \<Rightarrow> (gerror + bool) \<times> 'c) \<Rightarrow> 'c
    \<Rightarrow> (('m, 'x) service \<Rightarrow> ('m, 'x) service) list \<Rightarrow> gerror \<Rightarrow> (('m, 'x) service, gerror option \<times> 'c) state" where
  "await cfg i judge c [] over = do {
     got \<leftarrow> call (\<lambda>m. (st_Get (cfg_Store cfg) i m, m));
     (case judge got c of
        (Inl e, c1) \<Rightarrow> ret (Some e, c1)
      | (Inr True, c1) \<Rightarrow> ret (None, c1)
      | (Inr False, c1) \<Rightarrow> do {
          _ \<leftarrow> Service_Reconcile cfg i;
          ret (Some (Errorf [Sentinel ErrUnavailable, over] ''sandbox did not settle''), c1)
        })
   }"
| "await cfg i judge c (meanwhile # waits) over = do {
     got \<leftarrow> call (\<lambda>m. (st_Get (cfg_Store cfg) i m, m));
     (case judge got c of
        (Inl e, c1) \<Rightarrow> ret (Some e, c1)
      | (Inr True, c1) \<Rightarrow> ret (None, c1)
      | (Inr False, c1) \<Rightarrow> do {
          _ \<leftarrow> Service_Reconcile cfg i;
          State_Monad.update meanwhile;
          await cfg i judge c1 waits over
        })
   }"

definition judge_ready :: "Caller \<Rightarrow> gerror + Sandbox \<Rightarrow> Sandbox \<Rightarrow> (gerror + bool) \<times> Sandbox" where
  "judge_ready c got out = (case got of
       Inl e \<Rightarrow> (Inl (storeErr e), out)
     | Inr sb \<Rightarrow>
         if \<not> may c sb then (Inl (Errorf [Sentinel ErrNotFound] ''sandbox''), out)
         else if sb_State sb = StateReady then (Inr True, sb)
         else if sb_State sb = StateProvisioning \<or> sb_State sb = StateStarting then (Inr False, sb)
         else (Inl (Errorf [Sentinel ErrUnavailable] ''sandbox is not ready''), sb))"

definition Service_WaitReady :: "('m, 'x) Config \<Rightarrow> Caller \<Rightarrow> string \<Rightarrow> (('m, 'x) service \<Rightarrow> ('m, 'x) service) list \<Rightarrow> gerror
    \<Rightarrow> (('m, 'x) service, gerror option \<times> Sandbox) state" where
  "Service_WaitReady cfg c i waits over = await cfg i (judge_ready c) zero_sandbox waits over"

definition judge_settled :: "gerror + Sandbox \<Rightarrow> unit \<Rightarrow> (gerror + bool) \<times> unit" where
  "judge_settled got u = (case got of
       Inl e \<Rightarrow> (Inl (storeErr e), ())
     | Inr sb \<Rightarrow> (Inr (sb_State sb \<noteq> StateProvisioning \<and> sb_State sb \<noteq> StateStarting \<and> sb_State sb \<noteq> StateStopping), ()))"

definition Service_Settle :: "('m, 'x) Config \<Rightarrow> string \<Rightarrow> (('m, 'x) service \<Rightarrow> ('m, 'x) service) list \<Rightarrow> gerror
    \<Rightarrow> (('m, 'x) service, gerror option) state" where
  "Service_Settle cfg i waits over = do { r \<leftarrow> await cfg i judge_settled () waits over; ret (fst r) }"

definition judge_stopped :: "gerror + Sandbox \<Rightarrow> unit \<Rightarrow> (gerror + bool) \<times> unit" where
  "judge_stopped got u = (case got of
       Inl e \<Rightarrow> (Inl (storeErr e), ())
     | Inr sb \<Rightarrow> (Inr (sb_State sb = StateStopped \<or> sb_State sb = StateError), ()))"

definition Service_StopNow :: "('m, 'x) Config \<Rightarrow> Ctx \<Rightarrow> Caller \<Rightarrow> string \<Rightarrow> duration \<Rightarrow> (('m, 'x) service \<Rightarrow> ('m, 'x) service) list \<Rightarrow> gerror
    \<Rightarrow> (('m, 'x) service, gerror option) state" where
  "Service_StopNow cfg ctx c i grace waits over = do {
     out \<leftarrow> Service_Stop cfg ctx c i '''' grace;
     (case out of
        Inl e \<Rightarrow> ret (Some e)
      | Inr s \<Rightarrow> do { r \<leftarrow> await cfg i judge_stopped () waits over; ret (fst r) })
   }"

definition judge_deleted :: "gerror + Sandbox \<Rightarrow> unit \<Rightarrow> (gerror + bool) \<times> unit" where
  "judge_deleted got u = (case got of
       Inl e \<Rightarrow> if errors_Is e ErrNotFound then (Inr True, ()) else (Inl (storeErr e), ())
     | Inr sb \<Rightarrow> (case Sandbox_Condition sb CondDeleteFailed of
           Some cond \<Rightarrow>
             if cond_Status cond = ConditionTrue then (Inl (Errorf [Sentinel ErrUnavailable] ''deleting sandbox''), ())
             else (Inr False, ())
         | None \<Rightarrow> (Inr False, ())))"

definition Service_DeleteNow :: "('m, 'x) Config \<Rightarrow> Ctx \<Rightarrow> Caller \<Rightarrow> string \<Rightarrow> (('m, 'x) service \<Rightarrow> ('m, 'x) service) list \<Rightarrow> gerror
    \<Rightarrow> (('m, 'x) service, gerror option) state" where
  "Service_DeleteNow cfg ctx c i waits over = do {
     out \<leftarrow> Service_Delete cfg ctx c i '''';
     (case out of
        Inl e \<Rightarrow> ret (if errors_Is e ErrNotFound then None else Some e)
      | Inr s \<Rightarrow> do { r \<leftarrow> await cfg i judge_deleted () waits over; ret (fst r) })
   }"

section \<open>Warm pools\<close>

abbreviation MaxPoolSize :: int where
  "MaxPoolSize \<equiv> 16"

record PoolConfig =
  pool_Key :: string
  Size :: int
  pool_Create :: CreateRequest
  pool_Scope :: strmap
  Interval :: duration
  pool_MaxBackoff :: duration

abbreviation defaultPoolBackoff :: duration where
  "defaultPoolBackoff \<equiv> 10 * Minute"

definition NewPool :: "('m, 'x) Config \<Rightarrow> PoolConfig \<Rightarrow> gerror + PoolConfig" where
  "NewPool cfg p =
     (if \<not> validValue (pool_Key p) \<or> pool_Key p = '''' then Inl (Errorf [Sentinel ErrInvalid] ''pool key is not a label value'')
      else if Size p < 1 \<or> Size p > MaxPoolSize then Inl (Errorf [Sentinel ErrInvalid] ''a warm pool holds 1 to 16 sandboxes'')
      else if length (cr_Labels (pool_Create p)) > 0
      then Inl (Errorf [Sentinel ErrInvalid] ''pool members carry no labels of their own'')
      else case checkScope (pool_Scope p) of
          Some e \<Rightarrow> Inl e
        | None \<Rightarrow>
            if map_of (pool_Scope p) LabelPool \<noteq> None then Inl (Errorf [Sentinel ErrInvalid] ''a pool's scope cannot set the pool label'')
            else case Check (cfg_Settings cfg) (cr_Settings (pool_Create p)) of
                Some e \<Rightarrow> Inl e
              | None \<Rightarrow>
                  (let interval = (if Interval p \<le> 0 then Values_Seconds (For (cfg_Settings cfg) []) SetReconcileInterval else Interval p);
                       backoff = (if pool_MaxBackoff p \<le> 0 then defaultPoolBackoff else pool_MaxBackoff p)
                   in Inr (p\<lparr>Interval := interval, pool_MaxBackoff := max backoff interval\<rparr>)))"

definition pool_labels :: "PoolConfig \<Rightarrow> strmap" where
  "pool_labels p = AList.update LabelPool (pool_Key p) (pool_Scope p)"

definition pool_caller :: "PoolConfig \<Rightarrow> Caller" where
  "pool_caller p = \<lparr>cl_Principal = SessionsPrincipal, Admin = False, cl_Scope = pool_labels p\<rparr>"

definition member_options :: "PoolConfig \<Rightarrow> string \<Rightarrow> ListOptions" where
  "member_options p after = list_all_options\<lparr>lo_Owner := SessionsPrincipal, lo_Labels := pool_labels p, lo_Limit := MaxLimit, lo_After := after\<rparr>"

text \<open>\<open>Members\<close> from \<open>after\<close>, at most so many pages: \<^const>\<open>None\<close> when they did not suffice.\<close>

fun members_from :: "('m, 'x) Config \<Rightarrow> PoolConfig \<Rightarrow> nat \<Rightarrow> string \<Rightarrow> (('m, 'x) service, (gerror + Sandbox list) option) state" where
  "members_from cfg p 0 after = ret None"
| "members_from cfg p (Suc n) after = do {
     got \<leftarrow> call (\<lambda>m. (st_List (cfg_Store cfg) (member_options p after) m, m));
     (case got of
        None \<Rightarrow> ret None
      | Some (Inl e) \<Rightarrow> ret (Some (Inl (storeErr e)))
      | Some (Inr found) \<Rightarrow>
          if snd found = '''' then ret (Some (Inr (fst found)))
          else do {
            more \<leftarrow> members_from cfg p n (snd found);
            ret (case more of Some (Inr ms) \<Rightarrow> Some (Inr (fst found @ ms)) | r \<Rightarrow> r)
          })
   }"

record fillResult =
  fill_failed :: nat
  fill_pending :: nat

abbreviation OriginSession :: string where
  "OriginSession \<equiv> ''session''"

text \<open>The first loop of \<open>fill\<close>: how many members are live, what was found, and the errors of the deletes.\<close>

fun fill_old :: "('m, 'x) Config \<Rightarrow> Ctx \<Rightarrow> PoolConfig \<Rightarrow> Sandbox list \<Rightarrow> (('m, 'x) service, nat \<times> fillResult \<times> gerror list) state" where
  "fill_old cfg ctx p [] = ret (0, \<lparr>fill_failed = 0, fill_pending = 0\<rparr>, [])"
| "fill_old cfg ctx p (m # ms) =
     (if sb_State m = StateReady
      then do { (live, res, errs) \<leftarrow> fill_old cfg ctx p ms; ret (Suc live, res, errs) }
      else if sb_State m = StateProvisioning \<or> sb_State m = StateStarting
      then do { (live, res, errs) \<leftarrow> fill_old cfg ctx p ms; ret (Suc live, res\<lparr>fill_pending := Suc (fill_pending res)\<rparr>, errs) }
      else if sb_State m = StateDeleting then fill_old cfg ctx p ms
      else do {
        out \<leftarrow> Service_Delete cfg ctx (pool_caller p) (ID m) '''';
        (live, res, errs) \<leftarrow> fill_old cfg ctx p ms;
        ret (live,
          if sb_State m = StateError then res\<lparr>fill_failed := Suc (fill_failed res)\<rparr> else res,
          case out of Inl e \<Rightarrow> if errors_Is e ErrNotFound then errs else e # errs | Inr s \<Rightarrow> errs)
      })"

text \<open>The second loop, \<open>missing\<close> turns of it: how many members were made. \<open>alive\<close> says whether the context has not ended.\<close>

fun fill_new :: "('m, 'x) Config \<Rightarrow> Ctx \<Rightarrow> PoolConfig \<Rightarrow> ('x \<Rightarrow> bool) \<Rightarrow> nat \<Rightarrow> (('m, 'x) service, nat \<times> gerror list) state" where
  "fill_new cfg ctx p alive 0 = ret (0, [])"
| "fill_new cfg ctx p alive (Suc missing) = do {
     w \<leftarrow> State_Monad.get;
     (if \<not> alive (ext w) then ret (0, [])
      else do {
        out \<leftarrow> Service_Create cfg ctx (pool_caller p) ((pool_Create p)\<lparr>cr_Labels := []\<rparr>);
        (case out of
           Inl e \<Rightarrow> ret (0, [e])
         | Inr s \<Rightarrow> do { (made, errs) \<leftarrow> fill_new cfg ctx p alive missing; ret (Suc made, errs) })
      })
   }"

text \<open>\<^const>\<open>None\<close>: the pages did not suffice.\<close>

definition pool_fill :: "('m, 'x) Config \<Rightarrow> Ctx \<Rightarrow> PoolConfig \<Rightarrow> nat \<Rightarrow> ('x \<Rightarrow> bool)
    \<Rightarrow> (('m, 'x) service, (fillResult \<times> gerror option) option) state" where
  "pool_fill cfg ctx0 p pages alive =
     (let ctx = WithOrigin ctx0 OriginSession
      in do {
        found \<leftarrow> members_from cfg p pages '''';
        (case found of
           None \<Rightarrow> ret None
         | Some (Inl e) \<Rightarrow> ret (Some (\<lparr>fill_failed = 0, fill_pending = 0\<rparr>, Some e))
         | Some (Inr ms) \<Rightarrow> do {
             (live, res, errs) \<leftarrow> fill_old cfg ctx p ms;
             (made, errs') \<leftarrow> fill_new cfg ctx p alive (nat (Size p) - live);
             ret (Some (res\<lparr>fill_pending := fill_pending res + made\<rparr>, errors_Join (errs @ errs')))
           })
      })"

definition Pool_Fill :: "('m, 'x) Config \<Rightarrow> Ctx \<Rightarrow> PoolConfig \<Rightarrow> nat \<Rightarrow> ('x \<Rightarrow> bool) \<Rightarrow> (('m, 'x) service, gerror option option) state" where
  "Pool_Fill cfg ctx p pages alive = do { r \<leftarrow> pool_fill cfg ctx p pages alive; ret (map_option snd r) }"

text \<open>
  How \<open>Run\<close> counts the fills that fail and how long it then waits; the shift is an int64's, so it wraps.
\<close>

definition run_failures :: "nat \<Rightarrow> fillResult \<Rightarrow> gerror option \<Rightarrow> nat" where
  "run_failures failures res err =
     (if err \<noteq> None \<or> fill_failed res > 0 then Suc failures
      else if failures > 0 \<and> fill_pending res = 0 then 0
      else failures)"

definition run_wait :: "PoolConfig \<Rightarrow> nat \<Rightarrow> duration" where
  "run_wait p failures = min (wrap64 (Interval p * 2 ^ min (failures - 1) 16)) (pool_MaxBackoff p)"

fun drain_each :: "('m, 'x) Config \<Rightarrow> Ctx \<Rightarrow> PoolConfig \<Rightarrow> (('m, 'x) service \<Rightarrow> ('m, 'x) service) list \<Rightarrow> gerror \<Rightarrow> Sandbox list
    \<Rightarrow> (('m, 'x) service, gerror list) state" where
  "drain_each cfg ctx p waits over [] = ret []"
| "drain_each cfg ctx p waits over (m # ms) = do {
     err \<leftarrow> Service_DeleteNow cfg ctx (pool_caller p) (ID m) waits over;
     errs \<leftarrow> drain_each cfg ctx p waits over ms;
     ret (case err of Some e \<Rightarrow> e # errs | None \<Rightarrow> errs)
   }"

definition Pool_Drain :: "('m, 'x) Config \<Rightarrow> Ctx \<Rightarrow> PoolConfig \<Rightarrow> nat \<Rightarrow> (('m, 'x) service \<Rightarrow> ('m, 'x) service) list \<Rightarrow> gerror
    \<Rightarrow> (('m, 'x) service, gerror option option) state" where
  "Pool_Drain cfg ctx p pages waits over = do {
     found \<leftarrow> members_from cfg p pages '''';
     (case found of
        None \<Rightarrow> ret None
      | Some (Inl e) \<Rightarrow> ret (Some (Some e))
      | Some (Inr ms) \<Rightarrow> do {
          errs \<leftarrow> drain_each cfg (WithOrigin ctx OriginSession) p waits over ms;
          ret (Some (errors_Join errs))
        })
   }"

section \<open>Claims\<close>

definition claimed :: "('m, 'x) Config \<Rightarrow> PoolConfig \<Rightarrow> strmap \<Rightarrow> Sandbox \<Rightarrow> (('m, 'x) service, gerror + Sandbox) state" where
  "claimed cfg p labels sb =
     (if sb_State sb \<noteq> StateReady \<or> Owner sb \<noteq> SessionsPrincipal \<or> \<not> scoped (pool_labels p) (sb_Labels sb)
      then ret (Inl (Sentinel errClaimed))
      else do {
        t \<leftarrow> now cfg;
        ret (Inr (sb\<lparr>sb_Labels := maps_Copy (AList.delete LabelPool (sb_Labels sb)) labels, Generation := Generation sb + 1, UpdatedAt := t\<rparr>))
      })"

definition claim_closure :: "('m, 'x) Config \<Rightarrow> PoolConfig \<Rightarrow> strmap \<Rightarrow> Sandbox \<Rightarrow> AdmissionRequest \<times> bool
    \<Rightarrow> (('m, 'x) service, (gerror + Sandbox) \<times> AdmissionRequest \<times> bool) state" where
  "claim_closure cfg p labels sb captured = do {
     changed \<leftarrow> claimed cfg p labels sb;
     (case changed of
        Inl e \<Rightarrow> ret (Inl e, captured)
      | Inr sb1 \<Rightarrow> do {
          let iadm1 = (fst captured)\<lparr>Old := Some sb, Object := sb1\<rparr>;
          r \<leftarrow> admit cfg iadm1;
          (case r of
             Inl e \<Rightarrow> ret (Inl e, iadm1, snd captured)
           | Inr next \<Rightarrow> ret (Inr next, iadm1\<lparr>Object := next\<rparr>, True))
        })
   }"

definition claim_event :: "PoolConfig \<Rightarrow> Caller \<Rightarrow> Sandbox \<Rightarrow> strmap \<Rightarrow> AuditEvent" where
  "claim_event p c m labels = mk_event (cl_Principal c) ''claim'' (ID m) (Generation m) ''''
     (foldl (\<lambda>d (k, v). AList.update (TrimPrefix k ReservedPrefix) v d) [(''pool'', pool_Key p)] labels)"

text \<open>The part of \<open>claim\<close> the guard has admitted.\<close>

definition claim_admitted :: "('m, 'x) Config \<Rightarrow> PoolConfig \<Rightarrow> Caller \<Rightarrow> Sandbox \<Rightarrow> strmap \<Rightarrow> AuditEvent \<Rightarrow> (('m, 'x) service, gerror + Sandbox) state" where
  "claim_admitted cfg p c m labels ev = do {
     (out0, iadm, admitted) \<leftarrow> Mutate (cfg_Store cfg) (ID m) '''' (claim_closure cfg p labels)
       (\<lparr>Operation = ActionUpdate, ar_Caller = c, ar_SandboxID = ID m, Old = None, Object = zero_sandbox, ar_Command = '''',
         ar_Stdin = False, ar_Cwd = '''', EnvNames = []\<rparr>, False);
     let out = (case out0 of Inl e \<Rightarrow> Inl (if errors_Is e ErrNotFound then Sentinel errClaimed else e) | Inr s \<Rightarrow> Inr s);
     outcome cfg (case out of Inr s \<Rightarrow> ev\<lparr>ev_Generation := Generation s\<rparr> | Inl e \<Rightarrow> ev) (err_of out);
     (if admitted then committed cfg iadm (or_zero out) (err_of out) else ret ());
     ret (case out of
         Inl e \<Rightarrow> Inl (if errors_Is e errClaimed \<or> errors_Is e ErrVersionMismatch then Sentinel errClaimed else storeErr e)
       | Inr s \<Rightarrow> Inr s)
   }"

definition pool_claim :: "('m, 'x) Config \<Rightarrow> Ctx \<Rightarrow> PoolConfig \<Rightarrow> Caller \<Rightarrow> Sandbox \<Rightarrow> strmap \<Rightarrow> (('m, 'x) service, gerror + Sandbox) state" where
  "pool_claim cfg ctx p c m labels = do {
     foreign \<leftarrow> owned cfg (ID m);
     (case foreign of
        Some e \<Rightarrow> ret (Inl e)
      | None \<Rightarrow>
          (let ev = claim_event p c m labels
           in recorded cfg ev Inl (do {
                judged \<leftarrow> claimed cfg p labels m;
                (case judged of
                   Inl e \<Rightarrow> do { outcome cfg ev (Some e); ret (Inl e) }
                 | Inr next \<Rightarrow> do {
                     g \<leftarrow> guardAdmit ctx (mk_admission ActionUpdate c (Some m) (Some next) None);
                     (case g of
                        Inl e \<Rightarrow> do { outcome cfg ev (Some e); ret (Inl e) }
                      | Inr rs \<Rightarrow> do { r \<leftarrow> claim_admitted cfg p c m labels ev; release (fst rs); ret r })
                   })
              })))
   }"

text \<open>The loop of \<open>Claim\<close> over the members: the claimed sandbox, or \<^const>\<open>None\<close> when no member is left.\<close>

fun claim_first :: "('m, 'x) Config \<Rightarrow> Ctx \<Rightarrow> PoolConfig \<Rightarrow> Caller \<Rightarrow> strmap \<Rightarrow> Sandbox list \<Rightarrow> (('m, 'x) service, gerror + Sandbox option) state" where
  "claim_first cfg ctx p c labels [] = ret (Inr None)"
| "claim_first cfg ctx p c labels (m # ms) =
     (if sb_State m \<noteq> StateReady then claim_first cfg ctx p c labels ms
      else do {
        out \<leftarrow> pool_claim cfg ctx p c m labels;
        (case out of
           Inl e \<Rightarrow> if errors_Is e errClaimed then claim_first cfg ctx p c labels ms else ret (Inl e)
         | Inr s \<Rightarrow> ret (Inr (Some s)))
      })"

fun check_claim_keys :: "PoolConfig \<Rightarrow> strmap \<Rightarrow> gerror option" where
  "check_claim_keys p [] = None"
| "check_claim_keys p ((k, v) # labels) =
     (if \<not> HasPrefix k ReservedPrefix \<or> k = LabelPool
      then Some (Errorf [Sentinel ErrInvalid] ''a claim sets only the server's own labels'')
      else if map_of (pool_Scope p) k \<noteq> None
      then Some (Errorf [Sentinel ErrInvalid] ''a claim cannot change the pool's scope label'')
      else check_claim_keys p labels)"

definition check_claim :: "PoolConfig \<Rightarrow> strmap \<Rightarrow> gerror option" where
  "check_claim p labels = (case ValidateLabels labels True of Some e \<Rightarrow> Some e | None \<Rightarrow> check_claim_keys p labels)"

text \<open>\<^const>\<open>None\<close>: the pages did not suffice.\<close>

definition Pool_Claim :: "('m, 'x) Config \<Rightarrow> Ctx \<Rightarrow> PoolConfig \<Rightarrow> Caller \<Rightarrow> strmap \<Rightarrow> nat
    \<Rightarrow> (('m, 'x) service, (gerror + Sandbox option) option) state" where
  "Pool_Claim cfg ctx p c labels pages = (case check_claim p labels of
       Some e \<Rightarrow> ret (Some (Inl e))
     | None \<Rightarrow> do {
         found \<leftarrow> members_from cfg p pages '''';
         (case found of
            None \<Rightarrow> ret None
          | Some (Inl e) \<Rightarrow> ret (Some (Inl e))
          | Some (Inr ms) \<Rightarrow> do { r \<leftarrow> claim_first cfg (WithOrigin ctx OriginSession) p c labels ms; ret (Some r) })
       })"

end
