(* ===== verification/Histories.thy ===== *)
theory Histories
  imports ServiceLaws
begin

text \<open>
  What happens to the memory store while an operation runs, write by write: \<open>runs_beside gs m m'\<close> says that \<open>m\<close> became \<open>m'\<close> by the writes
  \<open>gs\<close> of others, in their order, and by events the operation added to the record. An operation that only reads and records keeps the
  relation \<open>beside\<close>, and of one that writes a sandbox \<open>wrote_at\<close> says what the store was at the instant of the write.
\<close>

section \<open>Histories\<close>

inductive runs_beside :: "(Memory \<Rightarrow> Memory) list \<Rightarrow> Memory \<Rightarrow> Memory \<Rightarrow> bool" where
  ended: "runs_beside [] m m"
| wrote: "runs_beside gs (g m) m' \<Longrightarrow> runs_beside (g # gs) m m'"
| noted: "runs_beside gs (snd (Memory_Append ev m)) m' \<Longrightarrow> runs_beside gs m m'"

lemma runs_beside_append: "runs_beside gs m n \<Longrightarrow> runs_beside hs n k \<Longrightarrow> runs_beside (gs @ hs) m k"
  by (induction rule: runs_beside.induct) (auto intro: runs_beside.intros)

lemma runs_beside_writes: "runs_beside gs m (writes gs m)"
  by (induction gs arbitrary: m) (auto intro: runs_beside.intros)

lemma later_noted: "memory_later m (snd (Memory_Append ev m))"
  by (fastforce simp: later_def Memory_Append_def memory_inv_def sorted_wrt_append)

lemma runs_beside_later: "runs_beside gs m m' \<Longrightarrow> \<forall>g \<in> set gs. \<forall>m. memory_later m (g m) \<Longrightarrow> memory_later m m'"
proof (induction rule: runs_beside.induct)
  case (ended m)
  show ?case by (rule later_refl)
next
  case (wrote gs g m m')
  then show ?case using later_trans [of memory_tbl rv memory_inv m "g m" m'] by auto
next
  case (noted gs ev m m')
  then show ?case using later_trans [OF later_noted] by blast
qed

lemma runs_beside_inv: "runs_beside gs m m' \<Longrightarrow> \<forall>g \<in> set gs. \<forall>m. memory_later m (g m) \<Longrightarrow> memory_inv m \<Longrightarrow> memory_inv m'"
  by (rule later_good [OF runs_beside_later])

definition beside :: "(Memory, 'x, 'z) world_scheme \<Rightarrow> (Memory, 'x, 'z) world_scheme \<Rightarrow> bool" where
  "beside w w' \<longleftrightarrow> (\<exists>gs. others w = gs @ others w' \<and> runs_beside gs (mem w) (mem w'))"

lemma beside_refl: "reflp beside"
  by (auto simp: reflp_def beside_def intro: runs_beside.ended)

lemma beside_trans: "transp beside"
  by (auto simp: transp_def beside_def intro: runs_beside_append)

lemma beside_same: "mem w' = mem w \<Longrightarrow> others w' = others w \<Longrightarrow> beside w w'"
  by (auto simp: beside_def intro: runs_beside.ended)

lemma beside_call:
  assumes "\<And>m. snd (f m) = m \<or> (\<exists>ev. snd (f m) = snd (Memory_Append ev m))"
  shows "keeps beside (call f)"
proof (rule keepsI)
  fix w a w'
  assume "run_state (call f) w = (a, w')"
  then have w': "mem w' = snd (f (others_step w))" "others w' = tl (others w)" by (auto simp: call_def split: prod.splits)
  obtain gs where gs: "others w = gs @ tl (others w)" "others_step w = writes gs (mem w)" using run_call_others by blast
  have "runs_beside [] (others_step w) (mem w')" using assms [of "others_step w"] w'(1) runs_beside.ended noted by metis
  from runs_beside_append [OF runs_beside_writes this [unfolded gs(2)]] show "beside w w'"
    using gs(1) w'(2) by (auto simp: beside_def)
qed

lemma beside_outside: "keeps beside (outside f)"
  by (rule keepsI) (auto simp: run_outside intro: beside_same)

lemma beside_read: "keeps beside (call (\<lambda>m. (f m, m)))"
  by (rule beside_call) simp

lemma beside_Append: "keeps beside (call (al_Append memory_audit ev))"
  by (rule beside_call) (auto simp: memory_audit_def)

lemma beside_get: "keeps beside State_Monad.get"
  by (rule keeps_get [OF beside_refl])

lemma beside_now: "keeps beside (now cfg)"
  unfolding now_def by (rule beside_outside)

lemma beside_release: "keeps beside (release r)"
  unfolding release_def by (rule keepsI) (auto simp: run_outside intro: beside_same)

lemmas beside_intros = keeps_intros beside_refl beside_trans beside_outside beside_read beside_Append beside_get beside_now beside_release

lemma beside_record_event: "keeps beside (record_event (memory_config base) ev)"
  unfolding record_event_def memory_config_simps by (intro beside_intros)

lemma beside_outcome: "keeps beside (outcome (memory_config base) ev err)"
  unfolding outcome_def by (intro beside_intros beside_record_event)

lemma beside_owned: "keeps beside (owned cfg i)"
  unfolding owned_def by (intro beside_intros)

lemma beside_guardAdmit: "keeps beside (guardAdmit ctx a)"
  unfolding guardAdmit_def by (intro beside_intros)

lemma beside_recordDecisions: "keeps beside (recordDecisions (memory_config base) req ds)"
  by (induction ds) (auto intro!: beside_intros beside_record_event)

lemma beside_admit: "keeps beside (admit (memory_config base) req)"
  unfolding admit_def by (intro beside_intros beside_recordDecisions)

lemma beside_committed: "keeps beside (committed (memory_config base) req out err)"
  unfolding committed_def by (intro beside_intros beside_recordDecisions)

lemmas beside_steps = beside_record_event beside_outcome beside_owned beside_guardAdmit beside_admit beside_committed

section \<open>The write of a guarded update\<close>

text \<open>
  \<open>wrote_at i fn w s c w'\<close>: others' writes and events made \<open>m\<close> of the store, which held \<open>cur\<close> under \<open>i\<close>; \<open>fn\<close> had made \<open>nxt\<close> of \<open>cur\<close>, and the
  write then put \<open>s\<close>, which is \<open>nxt\<close> under the next version, in its place.\<close>

definition put_under :: "string \<Rightarrow> Sandbox \<Rightarrow> Memory \<Rightarrow> Memory" where
  "put_under i s m = m\<lparr>rv := rv m + 1, sandboxes := AList.update i s (sandboxes m)\<rparr>"

definition wrote_at :: "string \<Rightarrow> (Sandbox \<Rightarrow> 'c \<Rightarrow> ((Memory, 'x, 'z) world_scheme, (gerror + Sandbox) \<times> 'c) state) \<Rightarrow>
    (Memory, 'x, 'z) world_scheme \<Rightarrow> Sandbox \<Rightarrow> 'c \<Rightarrow> (Memory, 'x, 'z) world_scheme \<Rightarrow> bool" where
  "wrote_at i fn w s c' w' \<longleftrightarrow> (\<exists>gs m cur c1 nxt v v2. others w = gs @ others w' \<and> runs_beside gs (mem w) m \<and> memory_tbl m i = Some cur \<and>
     run_state (fn cur c1) v = ((Inr nxt, c'), v2) \<and> s = nxt\<lparr>ResourceVersion := rv m + 1\<rparr> \<and> mem w' = put_under i s m)"

lemma wrote_at_after: "beside w v \<Longrightarrow> wrote_at i fn v s c w' \<Longrightarrow> wrote_at i fn w s c w'"
proof -
  assume "beside w v" "wrote_at i fn v s c w'"
  then obtain gs hs m cur c1 nxt u u2 where "others w = gs @ others v" "runs_beside gs (mem w) (mem v)"
    and o: "others v = hs @ others w'" "runs_beside hs (mem v) m" "memory_tbl m i = Some cur"
      "run_state (fn cur c1) u = ((Inr nxt, c), u2)" "s = nxt\<lparr>ResourceVersion := rv m + 1\<rparr>" "mem w' = put_under i s m"
    unfolding beside_def wrote_at_def by blast
  then have "others w = (gs @ hs) @ others w'" "runs_beside (gs @ hs) (mem w) m" using runs_beside_append by simp_all
  with o(3-) show "wrote_at i fn w s c w'" unfolding wrote_at_def by blast
qed

lemma mutate_loop_wrote_at:
  assumes fn: "\<And>s c. keeps memory.forward (fn s c)" "\<And>s c. keeps beside (fn s c)"
    and ids: "\<And>s c w t c' w'. run_state (fn s c) w = ((Inr t, c'), w') \<Longrightarrow> ID t = ID s"
    and "run_state (mutate_loop memory_store i ifMatch fn c k) w = ((Inr s, c'), w')" "memory.calm w"
  shows "wrote_at i fn w s c' w'"
  using assms(4,5)
proof (induction k arbitrary: w c rule: less_induct)
  case (less k)
  from less.prems(1) show ?case
  proof (cases rule: memory.mutate_loop_Inr)
    case (wrote w1 cur w2 nxt)
    have "memory.forward w w1" "memory.forward w1 w2"
      using keepsD [OF memory.forward_Get wrote(1)] keepsD [OF fn(1) wrote(3)] .
    then have calm: "memory.calm w1" "memory.calm w2" "memory_later (mem w1) (mem w2)" using less.prems(2) memory.forward_calm by blast+
    let ?m = "others_step w2"
    have m: "memory_inv ?m" "memory_later (mem w2) ?m" using calm(2) memory.others_step_good memory.others_step_later by (auto simp: memory.calm_def)
    have got: "memory_tbl (mem w1) i = Some cur"
      using wrote(1) by (auto simp: call_def memory_store_def Memory_Get_def split: option.splits)
    have u: "Memory_Update nxt (ResourceVersion cur) ?m = (Inr s, mem w')" "others w' = tl (others w2)"
      using wrote(4) by (auto simp: call_def memory_store_def split: prod.splits)
    have "ID nxt = i" using ids [OF wrote(3)] memory.known_versions [OF _ got] calm(1) by (simp add: memory.calm_def)
    then obtain cur' where cur': "memory_tbl ?m i = Some cur'" "ResourceVersion cur' = ResourceVersion cur"
      "s = nxt\<lparr>ResourceVersion := rv ?m + 1\<rparr>" "mem w' = put_under i s ?m"
      using u(1) by (auto simp: Memory_Update_def Let_def put_under_def split: if_splits option.splits)
    have same: "cur' = cur"
      using memory.same_version [OF _ later_trans [OF calm(3) m(2)] got cur'(1,2)] calm(1) by (simp add: memory.calm_def)
    obtain hs where hs: "others w2 = hs @ tl (others w2)" "?m = writes hs (mem w2)" using run_call_others by blast
    have "beside w w2" using keepsD [OF beside_read wrote(1)] keepsD [OF fn(2) wrote(3)] transpD [OF beside_trans] by blast
    then obtain gs where gs: "others w = gs @ others w2" "runs_beside gs (mem w) (mem w2)" by (auto simp: beside_def)
    have "runs_beside (gs @ hs) (mem w) ?m" unfolding hs(2) by (rule runs_beside_append [OF gs(2) runs_beside_writes])
    moreover have "others w = (gs @ hs) @ others w'" using gs(1) hs(1) u(2) by simp
    ultimately show ?thesis using cur' same wrote(3) unfolding wrote_at_def by blast
  next
    case (lost w1 cur w2 c2 nxt e w3 n)
    have b3: "beside w2 w3"
    proof -
      have "mem w3 = others_step w2" "others w3 = tl (others w2)"
        using lost(4) by (auto simp: call_def memory_store_def Memory_Update_def Let_def split: prod.splits if_splits option.splits)
      then show ?thesis using run_call_others [of w2] runs_beside_writes by (metis beside_def)
    qed
    have "beside w w3" using keepsD [OF beside_read lost(1)] keepsD [OF fn(2) lost(3)] b3 transpD [OF beside_trans] by blast
    moreover have "memory.forward w w3"
      using keepsD [OF memory.forward_Get lost(1)] keepsD [OF fn(1) lost(3)] keepsD [OF memory.forward_Update lost(4)] transpD [OF memory.forward_trans]
      by blast
    then have "memory.calm w3" using memory.forward_calm less.prems(2) by blast
    then have "wrote_at i fn w3 s c' w'" using less.IH [OF _ lost(6)] lost(5) by blast
    ultimately show ?thesis by (rule wrote_at_after)
  qed
qed

lemma mutate_loop_beside:
  assumes fn: "\<And>s c. keeps beside (fn s c)"
    and "run_state (mutate_loop memory_store i ifMatch fn c k) w = ((Inl e, c'), w')"
  shows "beside w w'"
  using assms(2)
proof (induction k arbitrary: w c rule: less_induct)
  case (less k)
  from less.prems show ?case
  proof (cases rule: memory.mutate_loop_Inl)
    case (read r)
    then show ?thesis by (rule keepsD [OF beside_read])
  next
    case (refused cur w1)
    then show ?thesis using keepsD [OF beside_read refused(1)] keepsD [OF fn refused(2)] transpD [OF beside_trans] by blast
  next
    case (unwritten cur w1 nxt c2 w2 e2 w3)
    have "mem w3 = others_step w2" "others w3 = tl (others w2)"
      using unwritten(3) by (auto simp: call_def memory_store_def Memory_Update_def Let_def split: prod.splits if_splits option.splits)
    then have "beside w2 w3" using run_call_others [of w2] runs_beside_writes by (metis beside_def)
    then have "beside w w3" using keepsD [OF beside_read unwritten(1)] keepsD [OF fn unwritten(2)] transpD [OF beside_trans] by blast
    then show ?thesis using unwritten(4) less.IH transpD [OF beside_trans] by blast
  qed
qed

end
