(* ===== verification/SessionLaws.thy ===== *)
theory SessionLaws
  imports Sessions Histories
begin

text \<open>
  What the sandboxes of sessions promise: a claim takes a member out of its pool for good, a fill never makes more members
  than the pool's size, a wait that returns has seen what it waited for, and on an undisturbed control plane a
  new sandbox becomes ready and a deleted one is gone.
\<close>

section \<open>Claims\<close>

lemma admissible_reserved:
  "admissible cfg a b \<Longrightarrow> reserved_key k \<Longrightarrow> get_str (sb_Labels b) k = get_str (sb_Labels a) k"
  unfolding admissible_def
proof (elim disjE exE)
  fix op
  assume "reserved_key k" "checkAdmitted cfg op a b = None"
  then show ?thesis
    using reserved_labels_kept [of "sb_Labels b" "sb_Labels a" k] by (simp add: checkAdmitted_def split: if_splits)
qed simp

definition taken :: "strmap \<Rightarrow> Sandbox \<Rightarrow> time \<Rightarrow> Sandbox" where
  "taken labels sb t = sb\<lparr>sb_Labels := maps_Copy (AList.delete LabelPool (sb_Labels sb)) labels, Generation := Generation sb + 1, UpdatedAt := t\<rparr>"

definition member_of :: "PoolConfig \<Rightarrow> Sandbox \<Rightarrow> bool" where
  "member_of p sb \<longleftrightarrow> Owner sb = SessionsPrincipal \<and> scoped (pool_labels p) (sb_Labels sb)"

lemma claimed_Inr: "run_state (claimed cfg p labels sb) w = (Inr s, w') \<Longrightarrow>
    sb_State sb = StateReady \<and> member_of p sb \<and> (\<exists>t. s = taken labels sb t)"
  by (auto simp: claimed_def now_def run_outside member_of_def taken_def split: if_splits)

lemma claim_closure_Inr:
  assumes "run_state (claim_closure cfg p labels sb cap) w = ((Inr nxt, cap'), w')"
  shows "sb_State sb = StateReady \<and> member_of p sb \<and> (\<exists>t. admissible cfg (taken labels sb t) nxt)"
proof -
  obtain r w1 where r: "run_state (claimed cfg p labels sb) w = (r, w1)" by (metis prod.exhaust)
  then obtain sb1 where sb1: "r = Inr sb1"
    using assms by (cases r) (auto simp: claim_closure_def)
  obtain t where t: "sb_State sb = StateReady" "member_of p sb" "sb1 = taken labels sb t"
    using claimed_Inr [OF r [unfolded sb1]] by blast
  let ?adm = "(fst cap)\<lparr>Old := Some sb, Object := sb1\<rparr>"
  obtain a w2 where a: "run_state (admit cfg ?adm) w1 = (a, w2)" by (metis prod.exhaust)
  then have "a = Inr nxt"
    using assms r sb1 by (cases a) (auto simp: claim_closure_def Let_def)
  then have "admissible cfg sb1 nxt"
    using admit_Inr [of cfg ?adm w1 nxt w2] a by (auto simp: admissible_def)
  with t show ?thesis by blast
qed

lemma check_claim_keys_None: "check_claim_keys p labels = None \<Longrightarrow> LabelPool \<notin> set (keys labels)"
  by (induction p labels rule: check_claim_keys.induct) (auto split: if_splits)

lemma taken_leaves:
  assumes "check_claim p labels = None"
  shows "get_str (sb_Labels (taken labels sb t)) LabelPool = ''''"
proof -
  have "LabelPool \<notin> set (keys labels)"
    using assms check_claim_keys_None by (auto simp: check_claim_def split: option.splits)
  moreover have "LabelPool \<notin> fst ` set (AList.delete LabelPool (sb_Labels sb))"
    unfolding set_map [symmetric] delete_keys by simp
  ultimately have "LabelPool \<notin> set (keys (sb_Labels (taken labels sb t)))"
    by (simp add: taken_def keys_maps_Copy)
  then have "map_of (sb_Labels (taken labels sb t)) LabelPool = None"
    by (simp add: map_of_eq_None_iff)
  then show ?thesis
    by (simp add: get_str_def)
qed

lemma NewPool_key: "NewPool cfg p0 = Inr p \<Longrightarrow> pool_Key p \<noteq> '''' \<and> 1 \<le> Size p \<and> Size p \<le> MaxPoolSize"
  by (auto simp: NewPool_def Let_def split: if_splits option.splits)

lemma not_member:
  assumes "pool_Key p \<noteq> ''''" "get_str (sb_Labels s) LabelPool = ''''"
  shows "\<not> member_of p s"
proof -
  have "(LabelPool, pool_Key p) \<in> set (pool_labels p)"
    by (rule map_of_SomeD) (simp add: pool_labels_def)
  with assms show ?thesis
    by (auto simp: member_of_def scoped_def list_all_iff)
qed

lemma run_bind: "run_state m w = (a, w1) \<Longrightarrow> run_state (State_Monad.bind m f) w = run_state (f a) w1"
  by simp

context service_store
begin

lemma forward_claimed: "keeps forward (claimed cfg p labels sb)"
  unfolding claimed_def by (intro service_forward)

lemma forward_claim_closure: "keeps forward (claim_closure cfg p labels sb cap)"
  unfolding claim_closure_def by (intro service_forward service_steps forward_claimed)

lemma forward_members: "keeps forward (members_from cfg p n after)"
  by (induction n arbitrary: after) (auto intro!: service_forward)

lemma forward_pool_claim: "keeps forward (pool_claim cfg ctx p c m labels)"
  unfolding pool_claim_def claim_admitted_def
  by (intro service_forward service_steps forward_claimed forward_Mutate forward_claim_closure)

lemma forward_claim_first: "keeps forward (claim_first cfg ctx p c labels ms)"
  by (induction ms) (auto intro!: service_forward forward_pool_claim)

end

text \<open>
  What a claim that succeeds did to the store: others' writes and events of its own made \<open>m\<close> of it, which held a Ready member \<open>cur\<close>; it was
  replaced by \<open>s\<close>, and then others went on.\<close>

definition claim_wrote :: "(Memory, 'x) Config \<Rightarrow> PoolConfig \<Rightarrow> strmap \<Rightarrow> (Memory, 'x) service \<Rightarrow> Sandbox \<Rightarrow> (Memory, 'x) service \<Rightarrow> bool" where
  "claim_wrote base p labels w s w' \<longleftrightarrow> (\<exists>gs hs m i cur t nxt. others w = gs @ hs @ others w' \<and> runs_beside gs (mem w) m \<and>
     memory_tbl m i = Some cur \<and> sb_State cur = StateReady \<and> member_of p cur \<and> admissible (memory_config base) (taken labels cur t) nxt \<and>
     s = nxt\<lparr>ResourceVersion := rv m + 1\<rparr> \<and> runs_beside hs (put_under i s m) (mem w'))"

lemma beside_claimed: "keeps beside (claimed cfg p labels sb)"
  unfolding claimed_def by (intro beside_intros)

lemma beside_claim_closure: "keeps beside (claim_closure (memory_config base) p labels sb cap)"
  unfolding claim_closure_def by (intro beside_intros beside_steps beside_claimed)

lemma claim_wrote_after: "beside w v \<Longrightarrow> claim_wrote base p labels v s w' \<Longrightarrow> claim_wrote base p labels w s w'"
proof -
  assume "beside w v" "claim_wrote base p labels v s w'"
  then obtain gs0 gs hs m i cur t nxt where "others w = gs0 @ others v" "runs_beside gs0 (mem w) (mem v)"
    and o: "others v = gs @ hs @ others w'" "runs_beside gs (mem v) m" "memory_tbl m i = Some cur" "sb_State cur = StateReady" "member_of p cur"
      "admissible (memory_config base) (taken labels cur t) nxt" "s = nxt\<lparr>ResourceVersion := rv m + 1\<rparr>" "runs_beside hs (put_under i s m) (mem w')"
    unfolding beside_def claim_wrote_def by blast
  then have "others w = (gs0 @ gs) @ hs @ others w'" "runs_beside (gs0 @ gs) (mem w) m" using runs_beside_append by simp_all
  with o(3-) show ?thesis unfolding claim_wrote_def by blast
qed

lemma claim_wrote_before: "claim_wrote base p labels w s v \<Longrightarrow> beside v w' \<Longrightarrow> claim_wrote base p labels w s w'"
proof -
  assume "claim_wrote base p labels w s v" "beside v w'"
  then obtain gs hs m i cur t nxt ks where o: "others w = gs @ hs @ others v" "runs_beside gs (mem w) m" "memory_tbl m i = Some cur"
      "sb_State cur = StateReady" "member_of p cur" "admissible (memory_config base) (taken labels cur t) nxt"
      "s = nxt\<lparr>ResourceVersion := rv m + 1\<rparr>" "runs_beside hs (put_under i s m) (mem v)"
    and "others v = ks @ others w'" "runs_beside ks (mem v) (mem w')"
    unfolding beside_def claim_wrote_def by blast
  then have "others w = gs @ (hs @ ks) @ others w'" "runs_beside (hs @ ks) (put_under i s m) (mem w')" using runs_beside_append by auto
  with o(2-7) show ?thesis unfolding claim_wrote_def by blast
qed

text \<open>The part of a claim the guard has admitted: it wrote over a Ready member, or it wrote nothing.\<close>

lemma claim_admitted_wrote:
  assumes "run_state (claim_admitted (memory_config base) p c m labels ev) w = (r, w')" "memory.calm w"
  shows "case r of Inr s \<Rightarrow> claim_wrote base p labels w s w' | Inl e \<Rightarrow> beside w w'"
proof -
  let ?cfg = "memory_config base"
  let ?cl = "claim_closure ?cfg p labels"
  let ?cap = "(\<lparr>Operation = ActionUpdate, ar_Caller = c, ar_SandboxID = ID m, Old = None, Object = zero_sandbox, ar_Command = '''',
         ar_Stdin = False, ar_Cwd = '''', EnvNames = []\<rparr>, False)"
  obtain out0 iadm ad w1 where mu: "run_state (Mutate memory_store (ID m) '''' ?cl ?cap) w = ((out0, iadm, ad), w1)"
    by (metis prod.exhaust)
  define out where "out = (case out0 of Inl e \<Rightarrow> Inl (if errors_Is e ErrNotFound then Sentinel errClaimed else e) | Inr s \<Rightarrow> Inr s)"
  let ?rest = "do {
     outcome ?cfg (case out of Inr s \<Rightarrow> ev\<lparr>ev_Generation := Generation s\<rparr> | Inl e \<Rightarrow> ev) (err_of out);
     (if ad then committed ?cfg iadm (or_zero out) (err_of out) else ret ());
     ret (case out of
         Inl e \<Rightarrow> Inl (if errors_Is e errClaimed \<or> errors_Is e ErrVersionMismatch then Sentinel errClaimed else storeErr e)
       | Inr s \<Rightarrow> Inr s)
   }"
  have "run_state (Mutate (cfg_Store ?cfg) (ID m) '''' ?cl ?cap) w = ((out0, iadm, ad), w1)" using mu by simp
  then have rest: "run_state ?rest w1 = (r, w')"
    using assms(1) unfolding claim_admitted_def run_bind [OF \<open>run_state (Mutate (cfg_Store ?cfg) (ID m) '''' ?cl ?cap) w = _\<close>]
    by (simp only: prod.case Let_def out_def)
  have "keeps beside ?rest" by (intro beside_intros beside_steps)
  from keepsD [OF this rest] have w1: "beside w1 w'" .
  have ids: "\<And>a b v d d' v'. run_state (?cl a d) v = ((Inr b, d'), v') \<Longrightarrow> ID b = ID a"
    using claim_closure_Inr admissible_ID unfolding taken_def by fastforce
  show ?thesis
  proof (cases out0)
    case (Inl e)
    have "beside w w1" by (rule mutate_loop_beside [OF beside_claim_closure mu [unfolded Inl Mutate_def]])
    moreover have "\<exists>e. r = Inl e" using rest Inl by (auto simp: out_def split: prod.splits)
    ultimately show ?thesis using transpD [OF beside_trans _ w1] by auto
  next
    case (Inr s)
    have "wrote_at (ID m) ?cl w s (iadm, ad) w1"
      by (rule mutate_loop_wrote_at [OF _ beside_claim_closure ids _ assms(2)])
        (use mu Inr plane.forward_claim_closure [of base] in \<open>simp_all add: Mutate_def\<close>)
    then obtain gs mm cur d nxt v v2 where o: "others w = gs @ others w1" "runs_beside gs (mem w) mm" "memory_tbl mm (ID m) = Some cur"
      "run_state (?cl cur d) v = ((Inr nxt, iadm, ad), v2)" "s = nxt\<lparr>ResourceVersion := rv mm + 1\<rparr>" "mem w1 = put_under (ID m) s mm"
      unfolding wrote_at_def by blast
    from claim_closure_Inr [OF o(4)] obtain t where "sb_State cur = StateReady" "member_of p cur" "admissible ?cfg (taken labels cur t) nxt" by blast
    then have "claim_wrote base p labels w s w1"
      unfolding claim_wrote_def
      by (intro exI [of _ gs] exI [of _ "[]"] exI [of _ mm] exI [of _ "ID m"] exI [of _ cur] exI [of _ t] exI [of _ nxt])
        (simp add: o runs_beside.ended)
    moreover have "r = Inr s" using rest Inr by (auto simp: out_def split: prod.splits)
    ultimately show ?thesis using claim_wrote_before [OF _ w1] by simp
  qed
qed

section \<open>What a claim leaves\<close>

text \<open>\<open>claim_ends base p labels got q\<close>: an operation that answers a sandbox by \<open>got\<close> claimed it, and otherwise wrote nothing.\<close>

definition claim_ends :: "(Memory, 'x) Config \<Rightarrow> PoolConfig \<Rightarrow> strmap \<Rightarrow> ('a \<Rightarrow> Sandbox option) \<Rightarrow> ((Memory, 'x) service, 'a) state \<Rightarrow> bool" where
  "claim_ends base p labels got q \<longleftrightarrow> (\<forall>w r w'. run_state q w = (r, w') \<longrightarrow> memory.calm w \<longrightarrow>
     (case got r of Some s \<Rightarrow> claim_wrote base p labels w s w' | None \<Rightarrow> beside w w'))"

lemma claim_ends_none:
  "keeps beside q \<Longrightarrow> (\<And>w. got (fst (run_state q w)) = None) \<Longrightarrow> claim_ends base p labels got q"
  unfolding claim_ends_def by (metis fst_conv keepsD option.simps(4))

lemma claim_ends_ret: "got r = None \<Longrightarrow> claim_ends base p labels got (ret r)"
  by (rule claim_ends_none) (auto intro: beside_intros)

lemma claim_ends_then:
  assumes "keeps beside q" "keeps memory.forward q" "\<And>a. claim_ends base p labels got (f a)"
  shows "claim_ends base p labels got (q \<bind> f)"
  unfolding claim_ends_def
proof (intro allI impI)
  fix w r w'
  assume run: "run_state (q \<bind> f) w = (r, w')" and calm: "memory.calm w"
  obtain a w1 where a: "run_state q w = (a, w1)" by (metis prod.exhaust)
  then have "memory.calm w1" "run_state (f a) w1 = (r, w')"
    using memory.forward_calm [OF keepsD [OF assms(2)] calm] run by (simp_all add: run_bind)
  with assms(3) have "case got r of Some s \<Rightarrow> claim_wrote base p labels w1 s w' | None \<Rightarrow> beside w1 w'" unfolding claim_ends_def by blast
  with keepsD [OF assms(1) a] show "case got r of Some s \<Rightarrow> claim_wrote base p labels w s w' | None \<Rightarrow> beside w w'"
    by (auto split: option.splits intro: claim_wrote_after transpD [OF beside_trans])
qed

lemma claim_ends_bind:
  assumes "claim_ends base p labels had q" "keeps memory.forward q"
    "\<And>a. had a = None \<Longrightarrow> claim_ends base p labels got (f a)"
    "\<And>a s. had a = Some s \<Longrightarrow> keeps beside (f a) \<and> (\<forall>w. got (fst (run_state (f a) w)) = Some s)"
  shows "claim_ends base p labels got (q \<bind> f)"
  unfolding claim_ends_def
proof (intro allI impI)
  fix w r w'
  assume run: "run_state (q \<bind> f) w = (r, w')" and calm: "memory.calm w"
  obtain a w1 where a: "run_state q w = (a, w1)" by (metis prod.exhaust)
  then have c1: "memory.calm w1" and f: "run_state (f a) w1 = (r, w')"
    using memory.forward_calm [OF keepsD [OF assms(2)] calm] run by (simp_all add: run_bind)
  show "case got r of Some s \<Rightarrow> claim_wrote base p labels w s w' | None \<Rightarrow> beside w w'"
  proof (cases "had a")
    case None
    then have "case got r of Some s \<Rightarrow> claim_wrote base p labels w1 s w' | None \<Rightarrow> beside w1 w'"
      using assms(3) f c1 unfolding claim_ends_def by blast
    moreover have "beside w w1" using assms(1) a calm None unfolding claim_ends_def by fastforce
    ultimately show ?thesis by (auto split: option.splits intro: claim_wrote_after transpD [OF beside_trans])
  next
    case (Some s)
    then have "claim_wrote base p labels w s w1" using assms(1) a calm unfolding claim_ends_def by fastforce
    moreover have "got r = Some s" "beside w1 w'" using assms(4) [OF Some] f keepsD by (metis fst_conv)+
    ultimately show ?thesis using claim_wrote_before by simp
  qed
qed

abbreviation won :: "gerror + Sandbox \<Rightarrow> Sandbox option" where
  "won r \<equiv> (case r of Inr s \<Rightarrow> Some s | Inl e \<Rightarrow> None)"

abbreviation won_first :: "gerror + Sandbox option \<Rightarrow> Sandbox option" where
  "won_first r \<equiv> (case r of Inr s \<Rightarrow> s | Inl e \<Rightarrow> None)"

abbreviation won_claim :: "(gerror + Sandbox option) option \<Rightarrow> Sandbox option" where
  "won_claim r \<equiv> Option.bind r won_first"

lemma claim_ends_admitted: "claim_ends base p labels won (claim_admitted (memory_config base) p c m labels ev)"
  unfolding claim_ends_def using claim_admitted_wrote by (auto split: sum.splits) force+

lemma forward_claim_admitted: "keeps memory.forward (claim_admitted (memory_config base) p c m labels ev)"
  unfolding claim_admitted_def
  by (intro plane.service_forward plane.service_steps plane.forward_Mutate plane.forward_claim_closure)

lemma claim_ends_pool_claim: "claim_ends base p labels won (pool_claim (memory_config base) ctx p c m labels)"
proof -
  let ?ev = "claim_event p c m labels"
  have admitted: "claim_ends base p labels won (do { r \<leftarrow> claim_admitted (memory_config base) p c m labels ?ev; release (fst rs); ret r })" for rs
    by (rule claim_ends_bind [OF claim_ends_admitted forward_claim_admitted])
      (auto intro!: claim_ends_then claim_ends_ret beside_intros plane.service_forward simp: release_def run_outside run_bind [OF run_outside] split: sum.splits)
  have refused: "claim_ends base p labels won (do { outcome (memory_config base) ?ev (Some e); ret (Inl e) })" for e
    by (rule claim_ends_then [OF beside_outcome plane.forward_outcome claim_ends_ret]) simp
  have guarded: "claim_ends base p labels won (do { g \<leftarrow> guardAdmit ctx a; (case g of
      Inl e \<Rightarrow> do { outcome (memory_config base) ?ev (Some e); ret (Inl e) }
    | Inr rs \<Rightarrow> do { r \<leftarrow> claim_admitted (memory_config base) p c m labels ?ev; release (fst rs); ret r }) })" for a
    by (rule claim_ends_then [OF beside_guardAdmit plane.forward_guardAdmit]) (simp add: admitted refused split: sum.splits)
  show ?thesis
    unfolding pool_claim_def recorded_def Let_def
    by (intro claim_ends_then beside_owned plane.forward_owned)
      (auto intro!: claim_ends_then claim_ends_ret beside_record_event plane.forward_record_event beside_claimed plane.forward_claimed refused guarded
        split: option.split sum.split)
qed

lemma claim_ends_first: "claim_ends base p labels won_first (claim_first (memory_config base) ctx p c labels ms)"
proof (induction ms)
  case (Cons m ms)
  have "claim_ends base p labels won_first (do {
        out \<leftarrow> pool_claim (memory_config base) ctx p c m labels;
        (case out of
           Inl e \<Rightarrow> if errors_Is e errClaimed then claim_first (memory_config base) ctx p c labels ms else ret (Inl e)
         | Inr s \<Rightarrow> ret (Inr (Some s))) })"
    by (rule claim_ends_bind [OF claim_ends_pool_claim plane.forward_pool_claim])
      (auto intro: claim_ends_ret Cons.IH beside_intros split: sum.splits)
  with Cons.IH show ?case by simp
qed (simp add: claim_ends_ret)

lemma beside_claim_members: "keeps beside (members_from (memory_config base) p n after)"
  by (induction n arbitrary: after) (auto intro!: beside_intros)

lemma claim_ends_Claim: "claim_ends base p labels won_claim (Pool_Claim (memory_config base) ctx p c labels pages)"
proof (cases "check_claim p labels")
  case None
  have found: "claim_ends base p labels won_claim (do { r \<leftarrow> claim_first (memory_config base) (WithOrigin ctx OriginSession) p c labels ms; ret (Some r) })" for ms
    by (rule claim_ends_bind [OF claim_ends_first plane.forward_claim_first]) (auto intro: claim_ends_ret beside_intros split: sum.splits)
  show ?thesis
    unfolding Pool_Claim_def None option.case
    by (rule claim_ends_then [OF beside_claim_members plane.forward_members]) (simp add: found claim_ends_ret split: option.split sum.split)
qed (simp add: Pool_Claim_def claim_ends_ret)

text \<open>
  C13: a claim takes a Ready member out of its pool, for good. Other claims and other writers may change the store between any two calls
  of this one, as long as each of them takes no version back. When \<open>Claim\<close> returns the sandbox \<open>s\<close>, the writes of the others fall into those
  before its write and those after it: after the first ones (and its own entries in the record, which touch no sandbox) the store held, at
  that instant, a Ready member \<open>cur\<close> of the pool under the id of \<open>s\<close>, and this very sandbox was replaced, in one step, by the next generation
  with the claim's labels (up to what an interceptor may change), under a version above every one given before; the only other thing that changes
  from then on is what the others write. What it wrote is no longer a member of the pool, so a second claim cannot be given it.
\<close>

theorem claim_takes_member:
  assumes "memory_inv (mem w)" "\<forall>g \<in> set (others w). \<forall>m. memory_later m (g m)" "NewPool cfg p0 = Inr p"
    "run_state (Pool_Claim (memory_config base) ctx p c labels pages) w = (Some (Inr (Some s)), w')"
  shows "\<exists>gs hs m cur t nxt. others w = gs @ hs @ others w' \<and> runs_beside gs (mem w) m \<and>
    memory_tbl m (ID s) = Some cur \<and> sb_State cur = StateReady \<and> member_of p cur \<and>
    admissible (memory_config base) (taken labels cur t) nxt \<and> s = nxt\<lparr>ResourceVersion := rv m + 1\<rparr> \<and>
    Generation s = Generation cur + 1 \<and> Owner s = Owner cur \<and> \<not> member_of p s \<and>
    runs_beside hs (m\<lparr>rv := rv m + 1, sandboxes := AList.update (ID s) s (sandboxes m)\<rparr>) (mem w')"
proof -
  have calm: "memory.calm w"
    using assms(1,2) by (simp add: memory.calm_def memory.tame_def)
  have none: "check_claim p labels = None"
    using assms(4) by (auto simp: Pool_Claim_def split: option.splits)
  have "claim_wrote base p labels w s w'"
    using claim_ends_Claim [of base p labels ctx c pages] assms(4) calm unfolding claim_ends_def by fastforce
  then obtain gs hs m i cur t nxt where o: "others w = gs @ hs @ others w'" "runs_beside gs (mem w) m" "memory_tbl m i = Some cur"
    "sb_State cur = StateReady" "member_of p cur" "admissible (memory_config base) (taken labels cur t) nxt"
    "s = nxt\<lparr>ResourceVersion := rv m + 1\<rparr>" "runs_beside hs (put_under i s m) (mem w')"
    unfolding claim_wrote_def by blast
  have "memory_inv m" using runs_beside_inv [OF o(2) _ assms(1)] assms(2) o(1) by auto
  then have "ID cur = i" using memory.known_versions [OF _ o(3)] by blast
  have nxt: "nxt = (taken labels cur t)\<lparr>sb_Labels := sb_Labels nxt, sb_Settings := sb_Settings nxt\<rparr>"
    using admissible_fields [OF o(6)] by (cases nxt; cases cur) (simp add: taken_def)
  have "ID nxt = ID cur" "Generation nxt = Generation cur + 1" "Owner nxt = Owner cur"
    by (subst nxt, simp add: taken_def)+
  then have s: "ID s = i" "Generation s = Generation cur + 1" "Owner s = Owner cur"
    using o(7) \<open>ID cur = i\<close> by simp_all
  have "get_str (sb_Labels nxt) LabelPool = ''''"
    using admissible_reserved [OF o(6), of LabelPool] taken_leaves [OF none] by (simp add: reserved_key_def HasPrefix_def)
  then have "get_str (sb_Labels s) LabelPool = ''''"
    by (subst o(7)) simp
  then have "\<not> member_of p s"
    using not_member NewPool_key [OF assms(3)] by blast
  with o s show ?thesis
    unfolding put_under_def by blast
qed

text \<open>A warm pool of one on the sample control plane, and its member.\<close>

definition sample_pool :: PoolConfig where
  "sample_pool = \<lparr>pool_Key = ''warm'', Size = 1, pool_Create = \<lparr>cr_Template = ''base'', cr_Driver = '''', cr_Labels = [], cr_Settings = []\<rparr>,
     pool_Scope = [], Interval = Second, pool_MaxBackoff = Minute\<rparr>"

definition sample_member :: Sandbox where
  "sample_member = sample_sandbox\<lparr>Owner := SessionsPrincipal, sb_Labels := [(LabelPool, ''warm'')], ResourceVersion := 1\<rparr>"

definition pool_plane :: "(Memory, Fake) service" where
  "pool_plane = sample_plane\<lparr>mem := sample_memory\<lparr>sandboxes := [(ID sample_sandbox, sample_member)]\<rparr>\<rparr>"

lemma pool_plane_ok: "memory_inv (mem pool_plane)" "others pool_plane = []"
proof -
  have "memory_tbl sample_memory (ID sample_sandbox) = Some (sample_sandbox\<lparr>ResourceVersion := 1\<rparr>)"
    by (simp add: sample_memory_def)
  then have "ValidID (ID sample_sandbox)"
    using sample_memory_inv unfolding memory_inv_def by blast
  then show "memory_inv (mem pool_plane)"
    by (simp add: memory_inv_def pool_plane_def sample_member_def sample_memory_def NewMemory_def wf_map_def sample_sandbox_def State_Valid_def)
qed (simp add: pool_plane_def sample_plane_def)

lemma sample_pool_ok: "NewPool (memory_config sample_config) sample_pool = Inr sample_pool"
  by code_simp

definition sample_claim :: "(gerror + Sandbox option) option \<times> (Memory, Fake) service" where
  "sample_claim = run_state (Pool_Claim (memory_config sample_config) sample_ctx sample_pool sample_caller [(ReservedPrefix @ ''session'', ''s1'')] 2) pool_plane"

lemma sample_claim_ok: "\<exists>s. fst sample_claim = Some (Inr (Some s)) \<and> ID s = ID sample_sandbox"
proof -
  have "(case fst sample_claim of Some (Inr (Some s)) \<Rightarrow> ID s = ID sample_sandbox | _ \<Rightarrow> False)"
    by code_simp
  then show ?thesis
    by (fastforce split: option.splits sum.splits)
qed

theorem claim_takes_member_witness:
  "\<exists>s. fst sample_claim = Some (Inr (Some s)) \<and> Owner s = SessionsPrincipal \<and> \<not> member_of sample_pool s"
proof -
  obtain s where s: "fst sample_claim = Some (Inr (Some s))"
    using sample_claim_ok by blast
  then have run: "run_state (Pool_Claim (memory_config sample_config) sample_ctx sample_pool sample_caller [(ReservedPrefix @ ''session'', ''s1'')] 2)
      pool_plane = (Some (Inr (Some s)), snd sample_claim)"
    by (metis prod.collapse sample_claim_def)
  have "\<forall>g \<in> set (others pool_plane). \<forall>m. memory_later m (g m)"
    by (simp add: pool_plane_ok)
  from claim_takes_member [OF pool_plane_ok(1) this sample_pool_ok run]
  obtain cur where "Owner s = Owner cur" "member_of sample_pool cur" "\<not> member_of sample_pool s"
    by blast
  with s show ?thesis
    by (auto simp: member_of_def)
qed

section \<open>Backing off\<close>

text \<open>
  The pool's back-off. After any number of failing fills the wait is at least the pool's interval and at most its back-off
  bound, it never shrinks as failures add up, and the first one is exactly the interval; with an interval of at most
  an hour, the longest the settings allow, the 64-bit shift never wraps.
\<close>

theorem run_wait_bounded:
  assumes "0 < Interval p" "Interval p \<le> Hour" "Interval p \<le> pool_MaxBackoff p" "1 \<le> n"
  shows "Interval p \<le> run_wait p n \<and> run_wait p n \<le> pool_MaxBackoff p \<and> run_wait p n \<le> run_wait p (Suc n) \<and> run_wait p 1 = Interval p"
proof -
  have range: "0 \<le> Interval p * 2 ^ k \<and> Interval p * 2 ^ k \<le> MaxInt64" if "k \<le> 16" for k :: nat
  proof -
    have "(2 :: int) ^ k \<le> 2 ^ 16"
      using that by (intro power_increasing) simp_all
    then have "Interval p * 2 ^ k \<le> Hour * 2 ^ 16"
      using assms(1,2) by (intro mult_mono) simp_all
    with assms(1) show ?thesis by simp
  qed
  have shift: "wrap64 (Interval p * 2 ^ min (k - 1) 16) = Interval p * 2 ^ min (k - 1) 16" for k
    using range [of "min (k - 1) 16"] by (intro wrap64_id) linarith+
  define a b where "a = Interval p * 2 ^ min (n - 1) 16" and "b = Interval p * 2 ^ min n 16"
  have "Interval p * 1 \<le> a"
    unfolding a_def using assms(1) by (intro mult_left_mono) simp_all
  moreover have "a \<le> b"
    unfolding a_def b_def using assms(1) by (intro mult_left_mono power_increasing) auto
  moreover have "run_wait p n = min a (pool_MaxBackoff p)" "run_wait p (Suc n) = min b (pool_MaxBackoff p)" "run_wait p 1 = min (Interval p) (pool_MaxBackoff p)"
    using shift [of n] shift [of "Suc n"] shift [of 1] by (simp_all add: run_wait_def a_def b_def)
  ultimately show ?thesis
    using assms(3) by (simp add: min_def)
qed

theorem run_wait_bounded_witness:
  "\<exists>p. Interval p = 10 * Second \<and> run_wait p 1 = 10 * Second \<and> run_wait p 3 \<le> 600 * Second"
proof -
  define p :: PoolConfig where "p = \<lparr>pool_Key = ''warm'', Size = 2, pool_Create = \<lparr>cr_Template = '''', cr_Driver = '''', cr_Labels = [], cr_Settings = []\<rparr>,
    pool_Scope = [], Interval = 10 * Second, pool_MaxBackoff = defaultPoolBackoff\<rparr>"
  show ?thesis
    using run_wait_bounded [of p 3] by (intro exI [of _ p]) (simp add: p_def)
qed

section \<open>Waits\<close>

text \<open>A wait that returns without an error ends with the read that satisfied it.\<close>

lemma run_read: "run_state (call (\<lambda>m. (st_Get memory_store i m, m))) w = (r, w') \<Longrightarrow> r = Memory_Get i (mem w')"
  by (auto simp: call_def memory_store_def)

lemma await_saw:
  "run_state (await (memory_config base) i judge c waits over) w = ((None, c'), w') \<Longrightarrow>
    \<exists>c0. judge (Memory_Get i (mem w')) c0 = (Inr True, c')"
proof (induction waits arbitrary: c w)
  case Nil
  obtain got w1 where "run_state (call (\<lambda>m. (st_Get memory_store i m, m))) w = (got, w1)" by (metis prod.exhaust)
  with Nil run_read [OF this] show ?case
    by (auto split: prod.splits sum.splits bool.splits)
next
  case (Cons f waits)
  obtain got w1 where g: "run_state (call (\<lambda>m. (st_Get memory_store i m, m))) w = (got, w1)" by (metis prod.exhaust)
  obtain r c1 where j: "judge got c = (r, c1)" by (cases "judge got c")
  show ?case
  proof (cases "r = Inr False")
    case True
    then obtain v where "run_state (await (memory_config base) i judge c1 waits over) v = ((None, c'), w')"
      using Cons.prems g j by (auto split: prod.splits)
    then show ?thesis by (rule Cons.IH)
  next
    case False
    then have "r = Inr True" "c1 = c'" "w1 = w'"
      using Cons.prems g j by (auto split: sum.splits bool.splits)
    with j run_read [OF g] show ?thesis by auto
  qed
qed

lemma Memory_Get_Inr: "Memory_Get i m = Inr s \<longleftrightarrow> memory_tbl m i = Some s"
  by (auto simp: Memory_Get_def split: option.splits)

lemma judge_ready_True: "judge_ready c got out = (Inr True, sb) \<Longrightarrow> got = Inr sb \<and> sb_State sb = StateReady \<and> may c sb"
  by (auto simp: judge_ready_def split: sum.splits if_splits)

lemma judge_deleted_True: "judge_deleted got u = (Inr True, v) \<Longrightarrow> \<exists>e. got = Inl e"
  by (auto simp: judge_deleted_def split: sum.splits option.splits if_splits)

text \<open>
  A wait that succeeds has seen what it waited for, in the store, at the moment it returns, whatever the rest of the program
  did to the sandbox meanwhile: \<open>WaitReady\<close> returns the stored sandbox, which is Ready and the caller's; after \<open>Settle\<close> no driver
  call is due; \<open>StopNow\<close> leaves a stopped sandbox, or one in Error; and after \<open>DeleteNow\<close> either the delete itself was told that
  there is no such sandbox, or it has left the store.
\<close>

theorem waits_have_seen:
  "(run_state (Service_WaitReady (memory_config base) c i waits over) w = ((None, sb), w') \<longrightarrow>
      memory_tbl (mem w') i = Some sb \<and> sb_State sb = StateReady \<and> may c sb) \<and>
    (run_state (Service_Settle (memory_config base) i waits over) w = (None, w') \<longrightarrow>
      (\<exists>s. memory_tbl (mem w') i = Some s \<and> sb_State s \<notin> {StateProvisioning, StateStarting, StateStopping})) \<and>
    (run_state (Service_StopNow (memory_config base) ctx c i grace waits over) w = (None, w') \<longrightarrow>
      (\<exists>s. memory_tbl (mem w') i = Some s \<and> sb_State s \<in> {StateStopped, StateError})) \<and>
    (run_state (Service_DeleteNow (memory_config base) ctx c i waits over) w = (None, w') \<longrightarrow>
      memory_tbl (mem w') i = None \<or>
      (\<exists>e. fst (run_state (Service_Delete (memory_config base) ctx c i '''') w) = Inl e \<and> errors_Is e ErrNotFound))"
proof (intro conjI)
  show "run_state (Service_WaitReady (memory_config base) c i waits over) w = ((None, sb), w') \<longrightarrow>
      memory_tbl (mem w') i = Some sb \<and> sb_State sb = StateReady \<and> may c sb"
  proof
    assume "run_state (Service_WaitReady (memory_config base) c i waits over) w = ((None, sb), w')"
    from await_saw [OF this [unfolded Service_WaitReady_def]] show "memory_tbl (mem w') i = Some sb \<and> sb_State sb = StateReady \<and> may c sb"
      using judge_ready_True Memory_Get_Inr by blast
  qed
  show "run_state (Service_Settle (memory_config base) i waits over) w = (None, w') \<longrightarrow>
      (\<exists>s. memory_tbl (mem w') i = Some s \<and> sb_State s \<notin> {StateProvisioning, StateStarting, StateStopping})"
  proof
    assume "run_state (Service_Settle (memory_config base) i waits over) w = (None, w')"
    then obtain u where "run_state (await (memory_config base) i judge_settled () waits over) w = ((None, u), w')"
      by (auto simp: Service_Settle_def split: prod.splits)
    from await_saw [OF this] show "\<exists>s. memory_tbl (mem w') i = Some s \<and> sb_State s \<notin> {StateProvisioning, StateStarting, StateStopping}"
      by (auto simp: judge_settled_def Memory_Get_Inr split: sum.splits)
  qed
  show "run_state (Service_StopNow (memory_config base) ctx c i grace waits over) w = (None, w') \<longrightarrow>
      (\<exists>s. memory_tbl (mem w') i = Some s \<and> sb_State s \<in> {StateStopped, StateError})"
  proof
    assume "run_state (Service_StopNow (memory_config base) ctx c i grace waits over) w = (None, w')"
    then obtain v u where "run_state (await (memory_config base) i judge_stopped () waits over) v = ((None, u), w')"
      by (auto simp: Service_StopNow_def split: prod.splits sum.splits)
    from await_saw [OF this] show "\<exists>s. memory_tbl (mem w') i = Some s \<and> sb_State s \<in> {StateStopped, StateError}"
      by (auto simp: judge_stopped_def Memory_Get_Inr split: sum.splits)
  qed
  show "run_state (Service_DeleteNow (memory_config base) ctx c i waits over) w = (None, w') \<longrightarrow>
      memory_tbl (mem w') i = None \<or>
      (\<exists>e. fst (run_state (Service_Delete (memory_config base) ctx c i '''') w) = Inl e \<and> errors_Is e ErrNotFound)"
  proof
    assume run: "run_state (Service_DeleteNow (memory_config base) ctx c i waits over) w = (None, w')"
    obtain out v where out: "run_state (Service_Delete (memory_config base) ctx c i '''') w = (out, v)" by (metis prod.exhaust)
    show "memory_tbl (mem w') i = None \<or>
      (\<exists>e. fst (run_state (Service_Delete (memory_config base) ctx c i '''') w) = Inl e \<and> errors_Is e ErrNotFound)"
    proof (cases out)
      case (Inl e)
      with run out show ?thesis by (auto simp: Service_DeleteNow_def split: if_splits)
    next
      case (Inr s)
      then obtain u where "run_state (await (memory_config base) i judge_deleted () waits over) v = ((None, u), w')"
        using run out by (auto simp: Service_DeleteNow_def split: prod.splits)
      from await_saw [OF this] obtain e where "Memory_Get i (mem w') = Inl e"
        using judge_deleted_True by blast
      then show ?thesis
        by (auto simp: Memory_Get_def split: option.splits)
    qed
  qed
qed

lemma run_WaitReady_now:
  assumes "others w = []" "memory_tbl (mem w) i = Some sb" "sb_State sb = StateReady" "may c sb"
  shows "run_state (Service_WaitReady (memory_config base) c i waits over) w = ((None, sb), w)"
  using assms by (cases waits) (simp_all add: Service_WaitReady_def run_call_alone memory_store_def Memory_Get_def judge_ready_def)

theorem waits_have_seen_witness:
  "\<exists>sb. run_state (Service_WaitReady (memory_config sample_config) sample_caller (ID sample_sandbox) [] (Sentinel Canceled)) sample_plane =
     ((None, sb), sample_plane) \<and> memory_tbl (mem sample_plane) (ID sample_sandbox) = Some sb"
proof -
  let ?sb = "sample_sandbox\<lparr>ResourceVersion := 1\<rparr>"
  have "memory_tbl (mem sample_plane) (ID sample_sandbox) = Some ?sb" "sb_State ?sb = StateReady" "may sample_caller ?sb"
    by (simp_all add: sample_plane_def sample_memory_def sample_sandbox_def sample_caller_def may_def scoped_def)
  from run_WaitReady_now [OF sample_plane_ok(2) this] have
    run: "run_state (Service_WaitReady (memory_config sample_config) sample_caller (ID sample_sandbox) [] (Sentinel Canceled)) sample_plane =
      ((None, ?sb), sample_plane)" .
  with waits_have_seen [of sample_config sample_caller "ID sample_sandbox" "[]" "Sentinel Canceled" sample_plane ?sb sample_plane] show ?thesis
    by blast
qed

section \<open>An undisturbed control plane gets there\<close>

lemma run_Reconcile_free:
  assumes "\<not> get_bool (inflight w) i"
  shows "\<exists>w1 w2 r. run_state (Service_Reconcile cfg i) w = (r, w2) \<and>
    run_state (reconcile cfg i) (w\<lparr>inflight := AList.update i True (inflight w)\<rparr>) = (r, w1) \<and>
    mem w2 = mem w1 \<and> ext w2 = ext w1 \<and> others w2 = others w1"
proof -
  obtain r w1 where "run_state (reconcile cfg i) (w\<lparr>inflight := AList.update i True (inflight w)\<rparr>) = (r, w1)" by (metis prod.exhaust)
  with assms show ?thesis
    by (auto simp: Service_Reconcile_def run_try_hold run_unhold)
qed

lemma may_pass_frame: "pass_frame a b \<Longrightarrow> may c b = may c a"
  by (simp add: may_def pass_frame_def)

lemma WaitReady_once:
  assumes "memory_inv (mem w)" "others w = []" "memory_tbl (mem w) i = Some sb" "plain_plane base sb (ext w)"
    "sb_State sb = StateProvisioning \<or> sb_State sb = StateStarting" "may c sb" "\<not> get_bool (inflight w) i"
  shows "\<exists>s w'. run_state (Service_WaitReady (memory_config base) c i (id # waits) over) w = ((None, s), w') \<and>
    memory_tbl (mem w') i = Some s \<and> sb_State s = StateReady \<and> fake_phase (ext w') i = Some PhaseRunning"
proof -
  let ?v = "w\<lparr>inflight := AList.update i True (inflight w)\<rparr>"
  obtain w1 w2 r where w2: "run_state (Service_Reconcile (memory_config base) i) w = (r, w2)"
    "run_state (reconcile (memory_config base) i) ?v = (r, w1)" "mem w2 = mem w1" "ext w2 = ext w1" "others w2 = others w1"
    using run_Reconcile_free [OF assms(7)] by blast
  have found: "run_state (reconcile_found (memory_config base) i sb) ?v = (r, w1)"
    using w2(2) assms(2-4) by (simp add: run_reconcile_alone plain_plane_def)
  have got: "\<exists>s. memory_tbl (mem w1) i = Some s \<and> sb_State s = StateReady" "fake_phase (ext w1) i = Some PhaseRunning"
    using start_completes [OF _ _ _ _ assms(5) found] assms(1-4) by simp_all
  then obtain s where s: "memory_tbl (mem w1) i = Some s" "sb_State s = StateReady" by blast
  have ID: "ID sb = i"
    using memory.known_versions [OF assms(1,3)] by simp
  then have p: "others w1 = []" "memory_tbl (mem w1) = memory_tbl (mem w) \<or>
      (\<exists>r. pass_may sb r \<and> memory_tbl (mem w1) = (memory_tbl (mem w))(i := r))"
    using keepsD [OF plane.passed_reconcile_found found] assms(1-3) unfolding plane.passed_def by auto
  then have "may c s"
    using s assms(3,6) may_pass_frame by auto
  with run_WaitReady_now [of w2 i s c base waits over] s w2(3,5) p(1) have
    rest: "run_state (await (memory_config base) i (judge_ready c) sb waits over) w2 = ((None, s), w2)"
    by (cases waits) (simp_all add: run_call_alone memory_store_def Memory_Get_def judge_ready_def)
  have "run_state (Service_WaitReady (memory_config base) c i (id # waits) over) w = ((None, s), w2)"
    using assms(2,3,5,6) w2(1) rest
    by (auto simp: Service_WaitReady_def run_call_alone memory_store_def Memory_Get_def judge_ready_def
        State_Monad.update_def State_Monad.get_def State_Monad.set_def)
  with s got(2) w2(3,4) show ?thesis by auto
qed

text \<open>
  A session gets its sandbox. On a control plane whose driver is the in-memory one and which nothing disturbs, a caller
  that waits for its new or starting sandbox gets it Ready, with its instance running, after a single sleep at
  most, however much longer it was willing to wait.
\<close>

theorem session_gets_sandbox:
  assumes "memory_inv (mem w)" "others w = []" "memory_tbl (mem w) i = Some sb" "plain_plane base sb (ext w)"
    "sb_State sb = StateProvisioning \<or> sb_State sb = StateStarting" "may c sb" "\<not> get_bool (inflight w) i"
  shows "\<exists>s w'. run_state (Service_WaitReady (memory_config base) c i (id # waits) over) w = ((None, s), w') \<and>
    memory_tbl (mem w') i = Some s \<and> sb_State s = StateReady \<and> fake_phase (ext w') i = Some PhaseRunning"
  using assms by (rule WaitReady_once)

theorem session_gets_sandbox_witness:
  "\<exists>s w'. run_state (Service_WaitReady (memory_config sample_base) sample_caller (ID sample_sandbox) [id] (Sentinel Canceled))
     (sample_plane_in StateProvisioning) = ((None, s), w') \<and> sb_State s = StateReady"
proof -
  have valid: "State_Valid StateProvisioning" by (simp add: State_Valid_def)
  have may: "may sample_caller (sample_in StateProvisioning)"
    by (simp add: sample_in_def sample_sandbox_def sample_caller_def may_def scoped_def)
  have free: "\<not> get_bool (inflight (sample_plane_in StateProvisioning)) (ID sample_sandbox)"
    by (simp add: sample_plane_in_def sample_plane_def get_bool_def)
  show ?thesis
    using session_gets_sandbox [OF sample_plane_in_ok(1-3) sample_plain _ may free, OF valid valid valid, of "[]" "Sentinel Canceled"]
      sample_plane_in_ok(5) [OF valid] by auto
qed

end
