(* ===== verification/PoolLaws.thy ===== *)
theory PoolLaws
  imports SessionLaws
begin

text \<open>
  What a fill of a warm pool does to the number of the pool's live members.
\<close>

section \<open>A fill keeps to the pool's size\<close>

definition is_live :: "Sandbox \<Rightarrow> bool" where
  "is_live sb \<longleftrightarrow> sb_State sb \<in> {StateReady, StateProvisioning, StateStarting}"

definition live_ids :: "PoolConfig \<Rightarrow> (string \<Rightarrow> Sandbox option) \<Rightarrow> string set" where
  "live_ids p tbl = {i. \<exists>s. tbl i = Some s \<and> member_of p s \<and> is_live s}"

definition lives :: "PoolConfig \<Rightarrow> (Memory, 'x) service \<Rightarrow> nat" where
  "lives p w = card (live_ids p (memory_tbl (mem w)))"

definition bump :: "PoolConfig \<Rightarrow> nat \<Rightarrow> (Memory, 'x) service \<Rightarrow> (Memory, 'x) service \<Rightarrow> bool" where
  "bump p k w w' \<longleftrightarrow> (alone w \<longrightarrow> alone w' \<and> lives p w' \<le> lives p w + k)"

lemma finite_live: "finite (live_ids p (memory_tbl m))"
  by (rule finite_subset [OF _ finite_dom_map_of [of "sandboxes m"]]) (auto simp: live_ids_def)

lemma live_ids_write: "live_ids p (tbl(i \<mapsto> s)) \<subseteq> insert i (live_ids p tbl)"
  "\<not> is_live s \<Longrightarrow> live_ids p (tbl(i \<mapsto> s)) \<subseteq> live_ids p tbl"
  by (auto simp: live_ids_def split: if_splits)

lemma bump_refl: "reflp (bump p 0)"
  by (simp add: reflp_def bump_def)

lemma bump_trans: "transp (bump p 0)"
  by (auto simp: transp_def bump_def)

lemma bump_bind:
  assumes "keeps (bump p j) m" "\<And>x. keeps (bump p k) (f x)"
  shows "keeps (bump p (j + k)) (State_Monad.bind m f)"
proof (rule keepsI)
  fix w a w'
  assume "run_state (State_Monad.bind m f) w = (a, w')"
  then obtain x v where "run_state m w = (x, v)" "run_state (f x) v = (a, w')"
    by (auto split: prod.splits)
  with assms show "bump p (j + k) w w'"
    using keepsD [of "bump p j" m w x v] keepsD [of "bump p k" "f x" v a w'] by (auto simp: bump_def)
qed

lemma still_bump: "keeps plane.still m \<Longrightarrow> keeps (bump p k) m"
  by (rule keepsI) (auto simp: bump_def lives_def dest!: still_alone)

lemma bump_first: "keeps plane.still m \<Longrightarrow> (\<And>x. keeps (bump p k) (f x)) \<Longrightarrow> keeps (bump p k) (State_Monad.bind m f)"
  using bump_bind [OF still_bump [of m p 0], of k f] by simp

lemma bump_last: "keeps (bump p k) m \<Longrightarrow> (\<And>x. keeps plane.still (f x)) \<Longrightarrow> keeps (bump p k) (State_Monad.bind m f)"
  using bump_bind [of p k m 0 f] still_bump [of "f _" p 0] by simp

lemma lives_step:
  assumes "memory_tbl (mem w') = memory_tbl (mem w) \<or> (\<exists>i s. memory_tbl (mem w') = (memory_tbl (mem w))(i \<mapsto> s) \<and> (k = 0 \<longrightarrow> \<not> is_live s))"
  shows "lives p w' \<le> lives p w + k"
proof (cases "memory_tbl (mem w') = memory_tbl (mem w)")
  case False
  then obtain i s where t: "memory_tbl (mem w') = (memory_tbl (mem w))(i \<mapsto> s)" and z: "k = 0 \<longrightarrow> \<not> is_live s"
    using assms by auto
  show ?thesis
  proof (cases k)
    case 0
    with z have "live_ids p (memory_tbl (mem w')) \<subseteq> live_ids p (memory_tbl (mem w))"
      unfolding t by (intro live_ids_write(2)) simp
    then have "lives p w' \<le> lives p w"
      unfolding lives_def by (rule card_mono [OF finite_live])
    then show ?thesis by simp
  next
    case (Suc n)
    have "lives p w' \<le> card (insert i (live_ids p (memory_tbl (mem w))))"
      unfolding lives_def t by (rule card_mono [OF _ live_ids_write(1)]) (simp add: finite_live)
    also have "\<dots> \<le> lives p w + 1"
      by (simp add: lives_def card_insert_if finite_live)
    finally show ?thesis
      using Suc by simp
  qed
qed (simp add: lives_def)

lemma bump_write:
  assumes "\<And>m. memory_inv m \<Longrightarrow> memory_inv (snd (f m)) \<and> (memory_tbl (snd (f m)) = memory_tbl m \<or>
      (\<exists>i s. memory_tbl (snd (f m)) = (memory_tbl m)(i \<mapsto> s) \<and> (k = 0 \<longrightarrow> \<not> is_live s)))"
  shows "keeps (bump p k) (call f)"
proof (rule keepsI)
  fix w w' :: "(Memory, 'x) service" and r
  assume run: "run_state (call f) w = (r, w')"
  show "bump p k w w'"
    unfolding bump_def
  proof
    assume w: "alone w"
    then have w': "w' = w\<lparr>mem := snd (f (mem w))\<rparr>"
      using run by (simp add: alone_def run_call_alone)
    with w assms [of "mem w"] show "alone w' \<and> lives p w' \<le> lives p w + k"
      using lives_step [of w' w k p] by (simp add: alone_def)
  qed
qed

lemma bump_Create: "keeps (bump p 1) (call (st_Create memory_store s))"
proof (rule bump_write)
  fix m
  assume good: "memory_inv m"
  obtain r m' where c: "st_Create memory_store s m = (r, m')" by (cases "st_Create memory_store s m")
  show "memory_inv (snd (st_Create memory_store s m)) \<and> (memory_tbl (snd (st_Create memory_store s m)) = memory_tbl m \<or>
      (\<exists>i t. memory_tbl (snd (st_Create memory_store s m)) = (memory_tbl m)(i \<mapsto> t) \<and> (1 = (0 :: nat) \<longrightarrow> \<not> is_live t)))"
  proof (cases r)
    case (Inl e)
    then show ?thesis
      using memory.Create_Inl [OF good c [unfolded Inl]] c by simp
  next
    case (Inr t)
    have "memory_tbl m' = (memory_tbl m)(ID s \<mapsto> t)" "memory_inv m'"
      using memory.Create_Inr [OF good c [unfolded Inr]] by simp_all
    then show ?thesis
      using c by auto
  qed
qed

lemma bump_Update:
  assumes "\<not> is_live s"
  shows "keeps (bump p 0) (call (st_Update memory_store s v))"
proof (rule bump_write)
  fix m
  assume good: "memory_inv m"
  obtain r m' where c: "st_Update memory_store s v m = (r, m')" by (cases "st_Update memory_store s v m")
  show "memory_inv (snd (st_Update memory_store s v m)) \<and> (memory_tbl (snd (st_Update memory_store s v m)) = memory_tbl m \<or>
      (\<exists>i t. memory_tbl (snd (st_Update memory_store s v m)) = (memory_tbl m)(i \<mapsto> t) \<and> (0 = (0 :: nat) \<longrightarrow> \<not> is_live t)))"
  proof (cases r)
    case (Inl e)
    then show ?thesis
      using memory.Update_Inl [OF good c [unfolded Inl]] c by simp
  next
    case (Inr t)
    have t: "memory_tbl m' = (memory_tbl m)(ID s \<mapsto> t)" "memory_inv m'" "t = s\<lparr>ResourceVersion := rv m'\<rparr>"
      using memory.Update_Inr [OF good c [unfolded Inr]] by simp_all
    moreover have "\<not> is_live t"
      using assms by (subst t(3)) (simp add: is_live_def)
    ultimately show ?thesis
      using c by auto
  qed
qed

text \<open>A guarded update that only ever takes a sandbox out of life.\<close>

definition ends_life :: "(('m, 'x) service, (gerror + Sandbox) \<times> 'c) state \<Rightarrow> bool" where
  "ends_life m \<longleftrightarrow> (\<forall>w nxt c w'. run_state m w = ((Inr nxt, c), w') \<longrightarrow> \<not> is_live nxt)"

lemma bump_ends_life:
  assumes "keeps plane.still m" "ends_life m" "\<And>e c. keeps (bump p 0) (f (Inl e, c))"
    "\<And>nxt c. \<not> is_live nxt \<Longrightarrow> keeps (bump p 0) (f (Inr nxt, c))"
  shows "keeps (bump p 0) (State_Monad.bind m f)"
proof (rule keepsI)
  fix w a w'
  assume "run_state (State_Monad.bind m f) w = (a, w')"
  then obtain r c v where v: "run_state m w = ((r, c), v)" "run_state (f (r, c)) v = (a, w')"
    by (auto split: prod.splits)
  have "keeps (bump p 0) (f (r, c))"
  proof (cases r)
    case (Inr nxt)
    with v(1) assms(2) have "\<not> is_live nxt"
      unfolding ends_life_def by blast
    then show ?thesis
      using assms(4) Inr by simp
  qed (simp add: assms(3))
  from keepsD [OF this v(2)] keepsD [OF still_bump [OF assms(1)] v(1)] show "bump p 0 w w'"
    using transpD [OF bump_trans] by blast
qed

lemma bump_Mutate:
  assumes "\<And>s c. keeps plane.still (fn s c)" "\<And>s c. ends_life (fn s c)"
  shows "keeps (bump p 0) (Mutate memory_store i h fn c)"
proof -
  have got: "keeps (bump p 0) (call (\<lambda>m. (st_Get memory_store i m, m)))"
    using still_bump [OF plane.still_read] .
  note bump_intros = keeps_intros bump_refl bump_trans got bump_Update
  have "keeps (bump p 0) (mutate_loop memory_store i h fn c k)" for k
  proof (induction k arbitrary: c)
    case 0
    show ?case
      by (subst mutate_loop.simps)
         (intro keeps_bind [OF bump_trans got] keeps_case_sum keeps_case_option keeps_return bump_refl
            bump_ends_life [OF assms]; simp; intro bump_intros; simp add: bump_refl keeps_return)
  next
    case (Suc n)
    show ?case
      by (subst mutate_loop.simps)
         (intro keeps_bind [OF bump_trans got] keeps_case_sum keeps_case_option keeps_return bump_refl
            bump_ends_life [OF assms]; simp; intro bump_intros Suc; simp add: Suc bump_refl keeps_return)
  qed
  then show ?thesis by (simp add: Mutate_def)
qed

lemma ends_life_delete: "ends_life (mutate_closure cfg c (transition_now cfg StateDeleting) sb captured)"
  unfolding ends_life_def
proof (intro allI impI)
  fix w nxt cap w'
  assume "run_state (mutate_closure cfg c (transition_now cfg StateDeleting) sb captured) w = ((Inr nxt, cap), w')"
  from mutate_closure_Inr [OF this] obtain sb1 w1 where sb1:
    "run_state (transition_now cfg StateDeleting sb) w = (Inr sb1, w1)" "admissible cfg sb1 nxt" by blast
  from sb1(1) have "sb_State sb1 = StateDeleting"
    by (auto simp: transition_now_def Transition_def Let_def now_def run_outside split: if_splits)
  moreover have "sb_State nxt = sb_State sb1"
    using arg_cong [OF admissible_fields [OF sb1(2)], of sb_State] by simp
  ultimately show "\<not> is_live nxt"
    by (simp add: is_live_def)
qed

lemma bump_Service_Delete: "keeps (bump p 0) (Service_Delete (memory_config base) ctx c i h)"
proof -
  let ?cfg = "memory_config base"
  have mu: "keeps (bump p 0) (Mutate memory_store i h (mutate_closure ?cfg c (transition_now ?cfg StateDeleting)) cap)" for cap
    by (rule bump_Mutate [OF plane.still_mutate_closure [OF plane.still_transition_now] ends_life_delete])
  show ?thesis
    unfolding Service_Delete_def mutate_def recorded_def mutate_admitted_def memory_config_simps
    by (intro keeps_intros bump_refl bump_trans mu still_bump [OF plane.still_Service_Get] still_bump [OF plane.still_owned]
        still_bump [OF plane.still_record_event] still_bump [OF plane.still_outcome] still_bump [OF plane.still_guardAdmit]
        still_bump [OF plane.still_transition_now] still_bump [OF plane.still_committed] still_bump [OF plane.still_release]
        still_bump [OF plane.still_Kick])
qed

lemma bump_Service_Create: "keeps (bump p 1) (Service_Create (memory_config base) ctx c req)"
proof -
  have out: "keeps (bump p 1) (do {
      out \<leftarrow> call (st_Create memory_store sb2);
      release rel;
      outcome (memory_config base) ev (err_of out);
      committed (memory_config base) (adm\<lparr>Object := sb2\<rparr>) (or_zero out) (err_of out);
      (case out of Inl e \<Rightarrow> ret (Inl (storeErr e)) | Inr s \<Rightarrow> do { Kick (ID s); ret (Inr s) }) })" for sb2 rel ev adm
    by (rule bump_last [OF bump_Create]) (intro still_run)
  have rec: "keeps (bump p 1) (create_recorded (memory_config base) ctx c sb ev)" for sb ev
    unfolding create_recorded_def memory_config_simps
    by (rule out bump_first [OF plane.still_guardAdmit] bump_first [OF plane.still_admit] keeps_case_sum keeps_case_prod keeps_Let keeps_case_option
        | rule still_bump, intro still_run)+
  have rec2: "keeps (bump p 1) (recorded (memory_config base) ev refuse (create_recorded (memory_config base) ctx c sb ev))"
    for ev sb and refuse :: "gerror \<Rightarrow> gerror + Sandbox"
    unfolding recorded_def
    by (rule rec bump_first [OF plane.still_record_event] keeps_case_option | rule still_bump, intro still_run)+
  show ?thesis
    unfolding Service_Create_def
    by (rule rec2 bump_first [OF plane.still_applyTemplate] keeps_case_sum keeps_Let keeps_case_option bump_first [OF plane.still_now]
          bump_first [OF plane.still_NewSandbox] | rule still_bump, intro still_run)+
qed

section \<open>The two loops of a fill\<close>

lemma fill_old_counts:
  assumes "run_state (fill_old (memory_config base) ctx p ms) w = ((live, res, errs), w')"
  shows "bump q 0 w w' \<and> live = length (filter is_live ms)"
  using assms
proof (induction ms arbitrary: w w' live res errs)
  case Nil
  then show ?case
    using reflpD [OF bump_refl] by auto
next
  case (Cons m ms)
  show ?case
  proof (cases "is_live m \<or> sb_State m = StateDeleting")
    case True
    with Cons.prems obtain live0 res0 errs0 where "run_state (fill_old (memory_config base) ctx p ms) w = ((live0, res0, errs0), w')"
      "live = (if is_live m then Suc live0 else live0)"
      by (auto simp: is_live_def split: if_splits prod.splits)
    with Cons.IH show ?thesis by simp
  next
    case False
    obtain out v where v: "run_state (Service_Delete (memory_config base) ctx (pool_caller p) (ID m) '''') w = (out, v)" by (metis prod.exhaust)
    with False Cons.prems obtain res0 errs0 where "run_state (fill_old (memory_config base) ctx p ms) v = ((live, res0, errs0), w')"
      by (auto simp: is_live_def split: if_splits prod.splits)
    with Cons.IH have "bump q 0 v w' \<and> live = length (filter is_live ms)" by blast
    with False keepsD [OF bump_Service_Delete v, of q] transpD [OF bump_trans [of q], of w v w'] show ?thesis
      by simp
  qed
qed

lemma bump_add: "bump p j u v \<Longrightarrow> bump p k v w \<Longrightarrow> bump p (j + k) u w"
  by (auto simp: bump_def)

lemma bump_more: "bump p j u v \<Longrightarrow> j \<le> k \<Longrightarrow> bump p k u v"
  by (auto simp: bump_def)

lemma fill_new_counts:
  assumes "run_state (fill_new (memory_config base) ctx p alive n) w = ((made, errs), w')"
  shows "bump q n w w' \<and> made \<le> n"
  using assms
proof (induction n arbitrary: w w' made errs)
  case 0
  then show ?case
    using reflpD [OF bump_refl] by auto
next
  case (Suc n)
  let ?create = "Service_Create (memory_config base) ctx (pool_caller p) ((pool_Create p)\<lparr>cr_Labels := []\<rparr>)"
  obtain out v where v: "run_state ?create w = (out, v)" by (metis prod.exhaust)
  have one: "bump q 1 w v"
    by (rule keepsD [OF bump_Service_Create v])
  show ?case
  proof (cases "alive (ext w)")
    case True
    show ?thesis
    proof (cases out)
      case (Inl e)
      with Suc.prems True v one show ?thesis
        using bump_more [of q 1 w v "Suc n"] by (simp add: State_Monad.get_def)
    next
      case (Inr s)
      with Suc.prems True v obtain made0 errs0 where rest: "run_state (fill_new (memory_config base) ctx p alive n) v = ((made0, errs0), w')"
        and made: "made = Suc made0"
        by (auto simp: State_Monad.get_def split: prod.splits)
      from Suc.IH [OF rest] show ?thesis
        using bump_add [OF one] made by auto
    qed
  next
    case False
    with Suc.prems show ?thesis
      using bump_more [OF reflpD [OF bump_refl [of q]], of "Suc n" w] by (simp add: State_Monad.get_def)
  qed
qed

section \<open>The members a fill looks at\<close>

lemma members_walk:
  assumes "others w = []" "walk (list_page (member_options p '''', mem w)) '''' n after = Some all"
  shows "run_state (members_from (memory_config base) p n after) w = (Some (Inr all), w)"
  using assms(2)
proof (induction n arbitrary: after all)
  case (Suc n)
  obtain xs nxt where page: "list_page (member_options p '''', mem w) after = Some (xs, nxt)"
    using Suc.prems by (auto split: option.splits)
  then have ml: "Memory_List (member_options p after) (mem w) = Some (Inr (xs, nxt))"
    by (auto simp: list_page_def member_options_def split: option.splits sum.splits)
  show ?case
  proof (cases "nxt = ''''")
    case True
    with Suc.prems page ml assms(1) show ?thesis
      by (simp add: run_call_alone memory_store_def)
  next
    case False
    then obtain rest where "walk (list_page (member_options p '''', mem w)) '''' n nxt = Some rest" "all = xs @ rest"
      using Suc.prems page by auto
    with Suc.IH ml False assms(1) show ?thesis
      by (simp add: run_call_alone memory_store_def)
  qed
qed simp

lemma members_all:
  assumes "memory_inv (mem w)" "others w = []" "length (sandboxes (mem w)) < n"
  shows "\<exists>ms. run_state (members_from (memory_config base) p n '''') w = (Some (Inr ms), w) \<and> length (filter is_live ms) = lives p w"
proof -
  let ?o = "member_options p ''''" and ?m = "mem w"
  let ?all = "filter (listed ?o) (sandboxes_by_id ?m)"
  have "length ?all \<le> length (sandboxes ?m)"
    by (metis length_filter_le length_map length_sort sandboxes_by_id_def)
  then have "walk (list_page (?o, ?m)) '''' n '''' = Some ?all"
    using sandbox_pages.walk_complete [of "(?o, ?m)" n] assms by (simp add: member_options_def list_all_options_def)
  from members_walk [OF assms(2) this] have run: "run_state (members_from (memory_config base) p n '''') w = (Some (Inr ?all), w)" .
  have listed: "listed ?o s \<longleftrightarrow> member_of p s" for s
    by (simp add: listed_def member_options_def list_all_options_def member_of_def)
  have "sorted_wrt (\<lambda>x y. ID x < ID y) (filter is_live ?all)"
    using sandboxes_by_id_ordered [OF assms(1)] by (simp add: sorted_wrt_filter)
  then have "distinct (map ID (filter is_live ?all))"
    by (simp only: strict_sorted_iff sorted_wrt_map [symmetric])
  then have "length (filter is_live ?all) = card (ID ` set (filter is_live ?all))"
    by (metis distinct_card length_map set_map)
  moreover have "ID ` set (filter is_live ?all) = live_ids p (memory_tbl ?m)"
    using sandboxes_by_id_set [OF assms(1)] assms(1) by (fastforce simp: live_ids_def listed memory_inv_def image_iff)
  ultimately have "length (filter is_live ?all) = lives p w"
    by (simp add: lives_def)
  with run show ?thesis by blast
qed

text \<open>
  A fill keeps to the pool's size. When nothing else writes, one turn of a warm pool looks at all of its members (one
  page more than there are sandboxes is enough), replaces those that have died and makes those that are missing, and
  however the requests it makes turn out, the pool then has no more live members than its size, or than it had.
\<close>

theorem fill_keeps_size:
  assumes "memory_inv (mem w)" "others w = []" "length (sandboxes (mem w)) < pages"
    "run_state (pool_fill (memory_config base) ctx p pages alive) w = (r, w')"
  shows "r \<noteq> None \<and> lives p w' \<le> max (nat (Size p)) (lives p w)"
proof -
  let ?cfg = "memory_config base" and ?ctx = "WithOrigin ctx OriginSession"
  obtain ms where ms: "run_state (members_from ?cfg p pages '''') w = (Some (Inr ms), w)" "length (filter is_live ms) = lives p w"
    using members_all [OF assms(1-3)] by blast
  obtain live res errs v where old: "run_state (fill_old ?cfg ?ctx p ms) w = ((live, res, errs), v)" by (metis prod.exhaust)
  obtain made errs' v' where new: "run_state (fill_new ?cfg ?ctx p alive (nat (Size p) - live)) v = ((made, errs'), v')" by (metis prod.exhaust)
  have "r \<noteq> None" "w' = v'"
    using assms(4) ms(1) old new by (auto simp: pool_fill_def Let_def)
  moreover have "bump p 0 w v" "live = lives p w" "bump p (nat (Size p) - live) v v'"
    using fill_old_counts [OF old] fill_new_counts [OF new] ms(2) by auto
  ultimately show ?thesis
    using assms(1,2) by (auto simp: bump_def alone_def)
qed

definition sample_fill :: "(fillResult \<times> gerror option) option \<times> (Memory, Fake) service" where
  "sample_fill = run_state (pool_fill (memory_config sample_config) sample_ctx sample_pool 2 (\<lambda>x. True)) sample_plane"

theorem fill_keeps_size_witness:
  "fst sample_fill \<noteq> None \<and> lives sample_pool (snd sample_fill) \<le> 1 \<and> length (sandboxes (mem (snd sample_fill))) = 2"
proof -
  have "length (sandboxes (mem sample_plane)) < 2"
    by (simp add: sample_plane_def sample_memory_def)
  from fill_keeps_size [OF sample_plane_ok(1,2) this prod.collapse [symmetric]]
  have "fst sample_fill \<noteq> None \<and> lives sample_pool (snd sample_fill) \<le> max (nat (Size sample_pool)) (lives sample_pool sample_plane)"
    unfolding sample_fill_def .
  moreover have "lives sample_pool sample_plane = 0"
    by (simp add: lives_def live_ids_def sample_plane_def sample_memory_def member_of_def sample_sandbox_def)
  moreover have "length (sandboxes (mem (snd sample_fill))) = 2"
    by code_simp
  ultimately show ?thesis
    by (simp add: sample_pool_def)
qed

end
