(* ===== verification/Chain.thy ===== *)
theory Chain
  imports Lifecycle
begin

text \<open>
  The hash chain of a record, its exports and its witnesses: \<^verbatim>\<open>store/chain/chain.go\<close>,
  \<^verbatim>\<open>store/chain/export.go\<close> and the checks of \<^verbatim>\<open>store/witness/witness.go\<close>. SHA-256 and the check of a
  signature are parameters. The lines of an export are given as \<^verbatim>\<open>encoding/json\<close> decodes them; positions
  are \<open>int64\<close> and wrap.
\<close>

section \<open>Links and the walk over them\<close>

definition Genesis :: string where
  "Genesis = replicate 64 CHR ''0''"

record ChainHead =
  hd_Chain :: string
  hd_Tenant :: string
  hd_Scope :: string
  hd_Pos :: int
  hd_Hash :: string

record Range =
  rg_From :: int
  rg_To :: int
  rg_Before :: string
  rg_Hash :: string
  FirstBad :: int
  Reason :: string

definition Range_OK :: "Range \<Rightarrow> bool" where
  "Range_OK r \<longleftrightarrow> FirstBad r = 0 \<and> Reason r = ''''"

record Link =
  l_Pos :: int
  l_Prev :: string
  l_Hash :: string
  l_Row :: string

type_synonym sha = "string \<Rightarrow> char list"

definition LinkHash :: "sha \<Rightarrow> string \<Rightarrow> string \<Rightarrow> string" where
  "LinkHash sum256 prev row = hex_encode (sum256 (prev @ [CHR 0x0A] @ row))"

text \<open>\<open>w_seen\<close> are the calls made of \<open>seen\<close>, the oldest first.\<close>

record Walker =
  w_r :: Range
  want :: int
  w_prev :: string
  w_seen :: "(int \<times> string) list"

definition NewWalker :: "int \<Rightarrow> string \<Rightarrow> Walker" where
  "NewWalker from0 before = (let from1 = (if from0 < 1 then 1 else from0)
     in \<lparr>w_r = \<lparr>rg_From = from1, rg_To = 0, rg_Before = before, rg_Hash = before, FirstBad = 0, Reason = ''''\<rparr>,
         want = from1, w_prev = before, w_seen = []\<rparr>)"

definition fail :: "int \<Rightarrow> string \<Rightarrow> Walker \<Rightarrow> Walker" where
  "fail pos why w = w\<lparr>w_r := (w_r w)\<lparr>FirstBad := pos, Reason := why\<rparr>\<rparr>"

definition Next :: "sha \<Rightarrow> Link \<Rightarrow> Walker \<Rightarrow> bool \<times> Walker" where
  "Next sum256 l w =
     (if \<not> Range_OK (w_r w) then (False, w)
      else if l_Pos l \<noteq> want w
      then (False, fail (want w) (''position '' @ FormatInt (want w) @ '' is missing or out of order (found '' @ FormatInt (l_Pos l) @ '')'') w)
      else if l_Prev l \<noteq> w_prev w
      then (False, fail (l_Pos l) (''position '' @ FormatInt (l_Pos l) @
        '' does not link to the one before it: a link was removed, added or reordered'') w)
      else if LinkHash sum256 (l_Prev l) (l_Row l) \<noteq> l_Hash l
      then (False, fail (l_Pos l) (''position '' @ FormatInt (l_Pos l) @ '' does not match its hash: it was changed'') w)
      else (True, w\<lparr>w_r := (w_r w)\<lparr>rg_To := l_Pos l, rg_Hash := l_Hash l\<rparr>, want := wrap64 (want w + 1),
              w_prev := l_Hash l, w_seen := w_seen w @ [(l_Pos l, l_Hash l)]\<rparr>))"

definition Done :: "int \<Rightarrow> Walker \<Rightarrow> Range" where
  "Done to w =
     (let r = w_r w;
          r1 = (if Range_OK r \<and> to > 0 \<and> want w \<le> to
                then r\<lparr>FirstBad := want w, Reason := ''the chain ends at position '' @ FormatInt (wrap64 (want w - 1)) @ '', before '' @
                  FormatInt to @ '': links were cut from its end''\<rparr> else r);
          r2 = (if rg_To r1 = 0 then r1\<lparr>rg_To := wrap64 (want w - 1)\<rparr> else r1)
      in if to > 0 then r2\<lparr>rg_To := to\<rparr> else r2)"

text \<open>A store's links given to the walker one after the other: the loop of \<open>walk\<close> ends at the first that fails.\<close>

fun walk_links :: "sha \<Rightarrow> Link list \<Rightarrow> Walker \<Rightarrow> Walker" where
  "walk_links sum256 [] w = w"
| "walk_links sum256 (l # ls) w = (case Next sum256 l w of (goes, w') \<Rightarrow> if goes then walk_links sum256 ls w' else w')"

section \<open>Exports\<close>

abbreviation ExportVersion :: int where
  "ExportVersion \<equiv> 1"

record Header =
  eh_V :: int
  eh_Chain :: string
  eh_Tenant :: string
  eh_Scope :: string
  eh_From :: int
  eh_Before :: string
  eh_PreChain :: int
  eh_ExportedAt :: time

text \<open>
  A line of an export after the first, as it decodes: not JSON of either form (with the decoder's words), a trailer
  (it has a \<open>head\<close> and no \<open>pos\<close>), or a link.
\<close>

datatype export_line = Unreadable string | TrailerLine ChainHead | LinkLine Link

datatype written_line = HeaderLine Header | ExportLine export_line

text \<open>The writer: where lines go may fail, and after an error nothing more is written.\<close>

record 'w Writer =
  ew_w :: 'w
  ew_err :: "string option"

definition Writer_line :: "(written_line \<Rightarrow> 'w \<Rightarrow> string option \<times> 'w) \<Rightarrow> written_line \<Rightarrow> 'w Writer \<Rightarrow> 'w Writer" where
  "Writer_line put v e = (if ew_err e \<noteq> None then e else (case put v (ew_w e) of (err, w) \<Rightarrow> e\<lparr>ew_w := w, ew_err := err\<rparr>))"

definition NewWriter :: "(written_line \<Rightarrow> 'w \<Rightarrow> string option \<times> 'w) \<Rightarrow> 'w \<Rightarrow> Header \<Rightarrow> 'w Writer" where
  "NewWriter put w h = Writer_line put (HeaderLine (h\<lparr>eh_V := ExportVersion, eh_Before := (if eh_Before h = '''' then Genesis else eh_Before h)\<rparr>))
     \<lparr>ew_w = w, ew_err = None\<rparr>"

definition Writer_Link :: "(written_line \<Rightarrow> 'w \<Rightarrow> string option \<times> 'w) \<Rightarrow> Link \<Rightarrow> 'w Writer \<Rightarrow> string option \<times> 'w Writer" where
  "Writer_Link put l e = (let e1 = Writer_line put (ExportLine (LinkLine l)) e in (ew_err e1, e1))"

definition Writer_Close :: "(written_line \<Rightarrow> 'w \<Rightarrow> string option \<times> 'w) \<Rightarrow> ('w \<Rightarrow> string option \<times> 'w) \<Rightarrow> ChainHead \<Rightarrow> 'w Writer
    \<Rightarrow> string option \<times> 'w Writer" where
  "Writer_Close put flush head e = (let e1 = Writer_line put (ExportLine (TrailerLine head)) e
     in case ew_err e1 of
          Some err \<Rightarrow> (Some err, e1)
        | None \<Rightarrow> (case flush (ew_w e1) of (err, w) \<Rightarrow> (err, e1\<lparr>ew_w := w\<rparr>)))"

record ExportReport =
  rep_Header :: Header
  rep_Range :: Range
  rep_Links :: int
  rep_Head :: "ChainHead option"
  rep_Notes :: "string list"

text \<open>
  What \<open>VerifyExport\<close> reads: its first line (\<^const>\<open>None\<close>: there is none; \<open>Some None\<close>: it does not decode), the other lines,
  and the error the reader ends with.
\<close>

record export_file =
  xf_first :: "Header option option"
  xf_lines :: "export_line list"
  xf_err :: "string option"

fun scan_lines :: "sha \<Rightarrow> int \<Rightarrow> export_line list \<Rightarrow> Walker \<times> int \<times> ChainHead option \<Rightarrow> Walker \<times> int \<times> ChainHead option" where
  "scan_lines sum256 line [] (w, n, head) = (w, n, head)"
| "scan_lines sum256 line (b # bs) (w, n, head) = (case head of
       Some h \<Rightarrow> (fail (wrap64 (hd_Pos h + 1)) (''line '' @ FormatInt line @ '' follows the trailer: lines were added'') w, n, head)
     | None \<Rightarrow> (case b of
           Unreadable e \<Rightarrow> (fail (want w) (''line '' @ FormatInt line @ '' cannot be read: '' @ e) w, n, head)
         | TrailerLine h \<Rightarrow> scan_lines sum256 (line + 1) bs (w, n, Some h)
         | LinkLine l \<Rightarrow> scan_lines sum256 (line + 1) bs (snd (Next sum256 l w), n + 1, None)))"

text \<open>The heads kept elsewhere, in the order of their positions.\<close>

fun check_heads :: "(int, string) gomap \<Rightarrow> (int, string) gomap \<Rightarrow> int list \<Rightarrow> Range \<Rightarrow> Range" where
  "check_heads heads held [] r = r"
| "check_heads heads held (pos # ps) r =
     (if \<not> Range_OK r then r
      else let expected = (case map_of heads pos of Some h \<Rightarrow> h | None \<Rightarrow> '''')
           in check_heads heads held ps (case map_of held pos of
                  None \<Rightarrow> r\<lparr>FirstBad := pos, Reason := ''a head kept elsewhere is at position '' @ FormatInt pos @
                    '', which the file does not hold: links were cut''\<rparr>
                | Some got \<Rightarrow> if got \<noteq> expected
                    then r\<lparr>FirstBad := pos, Reason := ''position '' @ FormatInt pos @ '' is not the head kept elsewhere: the chain was rewritten''\<rparr>
                    else r))"

definition held_map :: "(int \<times> string) list \<Rightarrow> (int, string) gomap" where
  "held_map calls = foldl (\<lambda>m (pos, hash). AList.update pos hash m) [] calls"

text \<open>The checks of \<open>VerifyExport\<close> once every line is read.\<close>

definition trailer_checks :: "Walker \<Rightarrow> ChainHead option \<Rightarrow> Range" where
  "trailer_checks w head =
     (let walked = rg_To (w_r w);
          r0 = Done (case head of Some h \<Rightarrow> hd_Pos h | None \<Rightarrow> 0) w;
          r1 = (case head of
              Some h \<Rightarrow> if Range_OK r0 \<and> hd_Pos h > 0 \<and> hd_Hash h \<noteq> rg_Hash r0
                then r0\<lparr>FirstBad := hd_Pos h, Reason := ''position '' @ FormatInt (hd_Pos h) @ '' is not the head the trailer holds: the file was rewritten''\<rparr>
                else r0
            | None \<Rightarrow> r0);
          r2 = (case head of
              Some h \<Rightarrow> if Range_OK r1 \<and> walked > hd_Pos h
                then r1\<lparr>FirstBad := wrap64 (hd_Pos h + 1), Reason := ''the file holds links past the trailer's head''\<rparr> else r1
            | None \<Rightarrow> r1)
      in if Range_OK r2 \<and> head = None
         then r2\<lparr>FirstBad := wrap64 (walked + 1), Reason := ''the file has no trailer: lines were cut from its end''\<rparr> else r2)"

definition VerifyExport :: "sha \<Rightarrow> export_file \<Rightarrow> (int, string) gomap \<Rightarrow> string + ExportReport \<times> (int, string) gomap" where
  "VerifyExport sum256 f heads = (case xf_first f of
       None \<Rightarrow> Inl (case xf_err f of Some e \<Rightarrow> e | None \<Rightarrow> ''the file is empty'')
     | Some None \<Rightarrow> Inl ''the file is not a chain export: its first line is no header''
     | Some (Some h) \<Rightarrow>
         if eh_V h = 0 then Inl ''the file is not a chain export: its first line is no header''
         else if eh_V h > ExportVersion
         then Inl (''the export is version '' @ FormatInt (eh_V h) @ ''; this build reads up to '' @ FormatInt ExportVersion)
         else (case scan_lines sum256 2 (xf_lines f) (NewWalker (eh_From h) (eh_Before h), 0, None) of (w, n, head) \<Rightarrow>
             (case xf_err f of
                Some e \<Rightarrow> Inl e
              | None \<Rightarrow>
                  (let held = held_map (w_seen w);
                       r = check_heads heads held (sort (keys heads)) (trailer_checks w head)
                   in Inr (\<lparr>rep_Header = h, rep_Range = r, rep_Links = n, rep_Head = head,
                            rep_Notes = (if eh_PreChain h > 0
                              then [FormatInt (eh_PreChain h) @ '' row(s) from before the chain are not covered''] else [])\<rparr>, held)))))"

section \<open>The witness\<close>

record Statement =
  st_V :: int
  st_Store :: string
  st_Host :: string
  st_Tenant :: string
  st_Session :: string
  st_Lines :: int
  st_Seq :: int
  st_Hash :: string
  st_At :: time
  st_Key :: string
  st_Sig :: string

text \<open>
  Sending a head: \<open>sign\<close> is the signature by the installation's key, of the statement without one; \<open>key\<close> is the public
  key in base64.
\<close>

definition signed :: "Statement \<Rightarrow> Statement" where
  "signed s = s\<lparr>st_Sig := ''''\<rparr>"

definition sealed_statement :: "(Statement \<Rightarrow> string) \<Rightarrow> string \<Rightarrow> string \<Rightarrow> time \<Rightarrow> Statement \<Rightarrow> Statement" where
  "sealed_statement sign key host at s =
     (let s1 = s\<lparr>st_V := 1, st_Host := host, st_At := at, st_Key := key\<rparr> in s1\<lparr>st_Sig := sign (signed s1)\<rparr>)"

definition Witness_Local :: "string \<Rightarrow> string \<Rightarrow> int \<Rightarrow> int \<Rightarrow> string \<Rightarrow> Statement" where
  "Witness_Local tenant session n s hash = \<lparr>st_V = 0, st_Store = ''local'', st_Host = '''', st_Tenant = tenant, st_Session = session,
     st_Lines = n, st_Seq = s, st_Hash = hash, st_At = 0, st_Key = '''', st_Sig = ''''\<rparr>"

definition Witness_Postgres :: "string \<Rightarrow> string \<Rightarrow> int \<Rightarrow> string \<Rightarrow> Statement" where
  "Witness_Postgres tenant session pos hash = (Witness_Local tenant session pos 0 hash)\<lparr>st_Store := ''postgres''\<rparr>"

record Problem =
  pr_Statement :: Statement
  pr_Reason :: string
  pr_Removed :: bool

text \<open>
  \<open>Check\<close>: \<open>verify\<close> says whether a statement's signature holds under the key it names, \<open>hashAt\<close> what the record holds at a
  line, \<open>removed\<close> (when set) why a head it no longer holds was removed. Times print through \<open>fmt\<close>.
\<close>

fun Witness_Check :: "(Statement \<Rightarrow> bool) \<Rightarrow> (time \<Rightarrow> string) \<Rightarrow> Statement list \<Rightarrow> string \<Rightarrow> string \<Rightarrow> string
    \<Rightarrow> (string \<Rightarrow> int \<Rightarrow> string + string option) \<Rightarrow> (string \<Rightarrow> int \<Rightarrow> string \<Rightarrow> string + string \<times> bool) option
    \<Rightarrow> Problem list \<times> string option" where
  "Witness_Check verify fmt [] key store tenant hashAt removed = ([], None)"
| "Witness_Check verify fmt (s # ss) key store tenant hashAt removed =
     (let rest = Witness_Check verify fmt ss key store tenant hashAt removed;
          add = (\<lambda>why gone. (\<lparr>pr_Statement = s, pr_Reason = why, pr_Removed = gone\<rparr> # fst rest, snd rest))
      in if st_Store s \<noteq> store \<or> st_Tenant s \<noteq> tenant then rest
         else if st_Key s \<noteq> key \<or> \<not> verify s
         then add (''a head of '' @ st_Session s @ '' sent '' @ fmt (st_At s) @
           '' is not signed by this installation's key: it was not sent by this installation'') False
         else (case hashAt (st_Session s) (st_Lines s) of
             Inl e \<Rightarrow> ([], Some e)
           | Inr None \<Rightarrow>
               (case (case removed of None \<Rightarrow> Inr ('''', False) | Some f \<Rightarrow> f (st_Session s) (st_Lines s) (st_Hash s)) of
                  Inl e \<Rightarrow> ([], Some e)
                | Inr (why, gone) \<Rightarrow>
                    if why \<noteq> '''' then add why gone
                    else add (''the witness holds line '' @ FormatInt (st_Lines s) @ '' of '' @ st_Session s @ '', sent '' @ fmt (st_At s) @
                      '', and the record no longer has it: lines were cut or an older copy was put back'') False)
           | Inr (Some h) \<Rightarrow>
               if h \<noteq> st_Hash s
               then add (''line '' @ FormatInt (st_Lines s) @ '' of '' @ st_Session s @ '' is not the one the witness was given '' @
                 fmt (st_At s) @ '': the record was rewritten'') False
               else rest))"

definition Failed :: "Problem list \<Rightarrow> int" where
  "Failed ps = int (length (filter (\<lambda>p. \<not> pr_Removed p) ps))"

end
