(* ===== verification/ChainLaws.thy ===== *)
theory ChainLaws
  imports Chain
begin

text \<open>
  What a check of a chain, of an export and of a witness's heads establishes.
\<close>

section \<open>Chains\<close>

text \<open>A chain from position \<open>from0\<close> after the hash \<open>before\<close>: numbered without a gap, each link naming the hash before it.\<close>

definition well_chained :: "sha \<Rightarrow> int \<Rightarrow> string \<Rightarrow> Link list \<Rightarrow> bool" where
  "well_chained sum256 from0 before ls \<longleftrightarrow> (\<forall>i < length ls.
     l_Pos (ls ! i) = from0 + int i \<and> l_Prev (ls ! i) = (if i = 0 then before else l_Hash (ls ! (i - 1))) \<and>
     l_Hash (ls ! i) = LinkHash sum256 (l_Prev (ls ! i)) (l_Row (ls ! i)))"

lemma well_chained_nth:
  assumes "well_chained sum256 from0 before ls" "i < length ls"
  shows "l_Pos (ls ! i) = from0 + int i" "l_Prev (ls ! i) = (if i = 0 then before else l_Hash (ls ! (i - 1)))"
    "l_Hash (ls ! i) = LinkHash sum256 (l_Prev (ls ! i)) (l_Row (ls ! i))"
  using assms by (simp_all add: well_chained_def)

lemma well_chained_Nil [simp]: "well_chained sum256 p before []"
  by (simp add: well_chained_def)

lemma well_chained_Cons:
  "well_chained sum256 p before (l # ls) \<longleftrightarrow> l_Pos l = p \<and> l_Prev l = before \<and> l_Hash l = LinkHash sum256 before (l_Row l) \<and>
     well_chained sum256 (p + 1) (l_Hash l) ls"
proof -
  have all: "(\<forall>i < length (l # ls). P i) \<longleftrightarrow> P 0 \<and> (\<forall>i < length ls. P (Suc i))" for P
    by (simp add: All_less_Suc2)
  have hash: "l_Hash ((l # ls) ! i) = (if i = 0 then l_Hash l else l_Hash (ls ! (i - 1)))" for i
    by (cases i) auto
  show ?thesis
    unfolding well_chained_def all by (auto simp: hash)
qed

lemma Range_OK_simps [simp]: "Range_OK (r\<lparr>rg_To := a\<rparr>) = Range_OK r" "Range_OK (r\<lparr>rg_Hash := h\<rparr>) = Range_OK r"
  "Range_OK (r\<lparr>FirstBad := p, Reason := c # cs\<rparr>) = False"
  by (simp_all add: Range_OK_def)

lemma fail_not_OK [simp]: "why \<noteq> [] \<Longrightarrow> \<not> Range_OK (w_r (fail p why w))"
  by (simp add: fail_def Range_OK_def)

definition step :: "Link \<Rightarrow> Walker \<Rightarrow> Walker" where
  "step l w = w\<lparr>w_r := (w_r w)\<lparr>rg_To := l_Pos l, rg_Hash := l_Hash l\<rparr>, want := wrap64 (want w + 1),
     w_prev := l_Hash l, w_seen := w_seen w @ [(l_Pos l, l_Hash l)]\<rparr>"

definition holds :: "sha \<Rightarrow> Link \<Rightarrow> Walker \<Rightarrow> bool" where
  "holds sum256 l w \<longleftrightarrow> l_Pos l = want w \<and> l_Prev l = w_prev w \<and> l_Hash l = LinkHash sum256 (w_prev w) (l_Row l)"

lemma Next_cases:
  assumes "Range_OK (w_r w)"
  shows "Next sum256 l w = (True, step l w) \<and> holds sum256 l w \<or>
    (\<exists>p why. why \<noteq> [] \<and> Next sum256 l w = (False, fail p why w) \<and> \<not> holds sum256 l w)"
  using assms by (auto simp: Next_def step_def holds_def)

lemma Next_not_OK: "\<not> Range_OK (w_r w) \<Longrightarrow> Next sum256 l w = (False, w)"
  by (simp add: Next_def)

lemma step_simps [simp]: "Range_OK (w_r (step l w)) = Range_OK (w_r w)" "want (step l w) = wrap64 (want w + 1)" "w_prev (step l w) = l_Hash l"
  "rg_To (w_r (step l w)) = l_Pos l" "rg_Hash (w_r (step l w)) = l_Hash l" "w_seen (step l w) = w_seen w @ [(l_Pos l, l_Hash l)]"
  by (simp_all add: step_def)

lemma steps_simps:
  assumes "well_chained sum256 (want w) (w_prev w) ls" "MinInt64 \<le> want w" "want w + int (length ls) \<le> MaxInt64"
  shows "Range_OK (w_r (fold step ls w)) = Range_OK (w_r w)" "want (fold step ls w) = want w + int (length ls)"
    "rg_To (w_r (fold step ls w)) = (if ls = [] then rg_To (w_r w) else want w + int (length ls) - 1)"
    "rg_Hash (w_r (fold step ls w)) = (if ls = [] then rg_Hash (w_r w) else l_Hash (last ls))"
    "w_seen (fold step ls w) = w_seen w @ map (\<lambda>l. (l_Pos l, l_Hash l)) ls"
  using assms by (induction ls arbitrary: w) (auto simp: well_chained_Cons go_simps)

section \<open>The check of a range\<close>

lemma walk_links_holds:
  assumes "well_chained sum256 (want w) (w_prev w) ls" "Range_OK (w_r w)" "MinInt64 \<le> want w" "want w + int (length ls) \<le> MaxInt64"
  shows "walk_links sum256 ls w = fold step ls w"
  using assms
proof (induction ls arbitrary: w)
  case (Cons l ls)
  have "Next sum256 l w = (True, step l w)"
    using Next_cases [OF Cons.prems(2), of sum256 l] Cons.prems(1) by (auto simp: well_chained_Cons holds_def)
  moreover have "wrap64 (want w + 1) = want w + 1"
    using Cons.prems(3,4) by (intro wrap64_id) simp_all
  moreover have "well_chained sum256 (want w + 1) (l_Hash l) ls"
    using Cons.prems(1) unfolding well_chained_Cons by blast
  ultimately show ?case
    using Cons.IH [of "step l w"] Cons.prems(2-4) by simp
qed simp

lemma Next_fails:
  assumes "Range_OK (w_r w)" "\<not> holds sum256 l w"
  shows "\<exists>why. why \<noteq> [] \<and> Next sum256 l w = (False, fail (want w) why w)"
  using assms by (auto simp: Next_def holds_def)

lemma walk_links_first_bad:
  assumes "\<not> well_chained sum256 (want w) (w_prev w) ls" "Range_OK (w_r w)" "MinInt64 \<le> want w" "want w + int (length ls) \<le> MaxInt64"
  shows "\<exists>i < length ls. well_chained sum256 (want w) (w_prev w) (take i ls) \<and> \<not> well_chained sum256 (want w) (w_prev w) (take (Suc i) ls) \<and>
    FirstBad (w_r (walk_links sum256 ls w)) = want w + int i \<and> \<not> Range_OK (w_r (walk_links sum256 ls w))"
  using assms
proof (induction ls arbitrary: w)
  case (Cons l ls)
  show ?case
  proof (cases "holds sum256 l w")
    case True
    then have "Next sum256 l w = (True, step l w)"
      using Next_cases [OF Cons.prems(2), of sum256 l] by blast
    moreover have "wrap64 (want w + 1) = want w + 1"
      using Cons.prems(3,4) by (intro wrap64_id) simp_all
    moreover have "well_chained sum256 (want w) (w_prev w) (l # xs) \<longleftrightarrow> well_chained sum256 (want w + 1) (l_Hash l) xs" for xs
      using True by (auto simp: well_chained_Cons holds_def)
    ultimately obtain i where "i < length ls" "well_chained sum256 (want w + 1) (l_Hash l) (take i ls)"
      "\<not> well_chained sum256 (want w + 1) (l_Hash l) (take (Suc i) ls)" "FirstBad (w_r (walk_links sum256 (l # ls) w)) = want w + int (Suc i)"
      "\<not> Range_OK (w_r (walk_links sum256 (l # ls) w))"
      using Cons.IH [of "step l w"] Cons.prems by auto
    with True show ?thesis
      by (intro exI [of _ "Suc i"]) (auto simp: well_chained_Cons holds_def)
  next
    case False
    with Next_fails [OF Cons.prems(2)] obtain why where "why \<noteq> []" "Next sum256 l w = (False, fail (want w) why w)" by blast
    with False show ?thesis
      by (intro exI [of _ 0]) (auto simp: well_chained_Cons holds_def fail_def Range_OK_def)
  qed
qed simp

lemma Done_OK: "Range_OK (Done to w) \<longleftrightarrow> Range_OK (w_r w) \<and> \<not> (to > 0 \<and> want w \<le> to)" "rg_Hash (Done to w) = rg_Hash (w_r w)"
  "\<not> Range_OK (w_r w) \<Longrightarrow> FirstBad (Done to w) = FirstBad (w_r w)"
  by (auto simp: Done_def Let_def)

lemma NewWalker_simps [simp]: "want (NewWalker from0 before) = max 1 from0" "w_prev (NewWalker from0 before) = before"
  "Range_OK (w_r (NewWalker from0 before))" "rg_Hash (w_r (NewWalker from0 before)) = before" "w_seen (NewWalker from0 before) = []"
  by (auto simp: NewWalker_def Range_OK_def Let_def)

text \<open>
  A check of a range finds exactly what does not hold. Given a store's links from a position on, the walker passes just in case
  they are numbered without a gap, each names the hash before it and carries its own, and the range reaches its end; it then reports
  the hash of the last, to compare with a head kept elsewhere. When the links do not hold it names the first position that breaks
  the chain: all before it hold.
\<close>

theorem range_check_exact:
  assumes "max 1 from0 + int (length ls) \<le> MaxInt64"
  shows "let r = Done to (walk_links sum256 ls (NewWalker from0 before)); start = max 1 from0 in
    (Range_OK r \<longleftrightarrow> well_chained sum256 start before ls \<and> (to > 0 \<longrightarrow> to < start + int (length ls))) \<and>
    (well_chained sum256 start before ls \<longrightarrow> rg_Hash r = (if ls = [] then before else l_Hash (last ls))) \<and>
    (\<not> well_chained sum256 start before ls \<longrightarrow> (\<exists>i < length ls. FirstBad r = start + int i \<and>
       well_chained sum256 start before (take i ls) \<and> \<not> well_chained sum256 start before (take (Suc i) ls)))"
proof (cases "well_chained sum256 (max 1 from0) before ls")
  case True
  let ?w0 = "NewWalker from0 before"
  have low: "MinInt64 \<le> want ?w0" by simp
  have w: "walk_links sum256 ls ?w0 = fold step ls ?w0"
    using walk_links_holds [of sum256 ?w0 ls] True assms low by simp
  with steps_simps [of sum256 ?w0 ls] True assms low show ?thesis
    by (auto simp: Let_def Done_OK)
next
  case False
  have low: "MinInt64 \<le> want (NewWalker from0 before)" by simp
  with walk_links_first_bad [of sum256 "NewWalker from0 before" ls] False assms show ?thesis
    by (auto simp: Let_def Done_OK)
qed

definition sample_sum :: sha where
  "sample_sum s = [char_of (length s), hd (rev s)]"

definition sample_links :: "Link list" where
  "sample_links = (let a = LinkHash sample_sum Genesis ''{1}''; b = LinkHash sample_sum a ''{2}''
     in [\<lparr>l_Pos = 1, l_Prev = Genesis, l_Hash = a, l_Row = ''{1}''\<rparr>, \<lparr>l_Pos = 2, l_Prev = a, l_Hash = b, l_Row = ''{2}''\<rparr>])"

lemma sample_links_chain: "well_chained sample_sum 1 Genesis sample_links"
  by (simp add: sample_links_def well_chained_Cons Let_def)

theorem range_check_exact_witness:
  "Range_OK (Done 2 (walk_links sample_sum sample_links (NewWalker 1 Genesis))) \<and>
   \<not> Range_OK (Done 3 (walk_links sample_sum sample_links (NewWalker 1 Genesis)))"
proof -
  have n: "length sample_links = 2"
    by (simp add: sample_links_def Let_def)
  then have "max 1 1 + int (length sample_links) \<le> MaxInt64" by simp
  from range_check_exact [OF this, of 2 sample_sum Genesis] range_check_exact [OF this, of 3 sample_sum Genesis] sample_links_chain n
  show ?thesis
    by (simp add: Let_def)
qed

section \<open>Exports\<close>

lemma scan_lines_not_OK:
  "\<not> Range_OK (w_r w) \<Longrightarrow> \<not> Range_OK (w_r (fst (scan_lines sum256 n bs (w, k, head))))"
  by (induction sum256 n bs "(w, k, head)" arbitrary: w k head rule: scan_lines.induct)
     (auto simp: Next_not_OK split: option.splits export_line.splits)

lemma scan_lines_trailed: "Range_OK (w_r (fst (scan_lines sum256 n bs (w, k, Some h)))) \<longleftrightarrow> Range_OK (w_r w) \<and> bs = []"
  by (cases bs) auto

text \<open>After the lines the walker still holds, and a trailer was read, just in case the lines are links that hold and then the trailer.\<close>

lemma scan_lines_OK:
  assumes "scan_lines sum256 n bs (w, k, None) = (w', k', Some h)" "Range_OK (w_r w')" "MinInt64 \<le> want w" "want w + int (length bs) \<le> MaxInt64"
  shows "\<exists>ls. bs = map LinkLine ls @ [TrailerLine h] \<and> well_chained sum256 (want w) (w_prev w) ls \<and> w' = fold step ls w"
  using assms
proof (induction bs arbitrary: n w k)
  case (Cons b bs)
  show ?case
  proof (cases b)
    case (TrailerLine h')
    with Cons.prems(1,2) have "bs = []"
      using scan_lines_trailed [of sum256 "n + 1" bs w k h'] by simp
    with Cons.prems(1) TrailerLine show ?thesis
      by (intro exI [of _ "[]"]) simp
  next
    case (LinkLine l)
    have ok: "Range_OK (w_r w)"
    proof (rule ccontr)
      assume "\<not> Range_OK (w_r w)"
      with Cons.prems(1,2) show False
        using scan_lines_not_OK [of w sum256 n "b # bs" k None] by simp
    qed
    have hold: "Next sum256 l w = (True, step l w) \<and> holds sum256 l w"
    proof (rule ccontr)
      assume "\<not> ?thesis"
      then obtain p why where "why \<noteq> []" "Next sum256 l w = (False, fail p why w)"
        using Next_cases [OF ok, of sum256 l] by blast
      with Cons.prems(1,2) LinkLine show False
        using scan_lines_not_OK [of "fail p why w" sum256 "n + 1" bs "k + 1" None] by simp
    qed
    have "wrap64 (want w + 1) = want w + 1"
      using Cons.prems(3,4) by (intro wrap64_id) simp_all
    with Cons.IH [of "n + 1" "step l w" "k + 1"] Cons.prems LinkLine hold obtain ls where
      "bs = map LinkLine ls @ [TrailerLine h]" "well_chained sum256 (want w + 1) (l_Hash l) ls" "w' = fold step ls (step l w)"
      by auto
    with LinkLine hold show ?thesis
      by (intro exI [of _ "l # ls"]) (simp add: well_chained_Cons holds_def)
  next
    case (Unreadable e)
    with Cons.prems(1) show ?thesis by simp
  qed
qed simp

lemma scan_lines_links:
  assumes "well_chained sum256 (want w) (w_prev w) ls" "Range_OK (w_r w)" "MinInt64 \<le> want w" "want w + int (length ls) \<le> MaxInt64"
  shows "scan_lines sum256 n (map LinkLine ls @ bs) (w, k, None) = scan_lines sum256 (n + int (length ls)) bs (fold step ls w, k + int (length ls), None)"
  using assms
proof (induction ls arbitrary: n w k)
  case (Cons l ls)
  have "holds sum256 l w"
    using Cons.prems(1) by (simp add: well_chained_Cons holds_def)
  then have "Next sum256 l w = (True, step l w)"
    using Next_cases [OF Cons.prems(2), of sum256 l] by blast
  moreover have "wrap64 (want w + 1) = want w + 1"
    using Cons.prems(3,4) by (intro wrap64_id) simp_all
  moreover have "well_chained sum256 (want w + 1) (l_Hash l) ls"
    using Cons.prems(1) unfolding well_chained_Cons by blast
  ultimately show ?case
    using Cons.IH [of "step l w" "n + 1" "k + 1"] Cons.prems(2-4) by (simp add: algebra_simps)
qed simp

text \<open>The head an export's trailer may hold.\<close>

definition head_fits :: "int \<Rightarrow> string \<Rightarrow> Link list \<Rightarrow> ChainHead \<Rightarrow> bool" where
  "head_fits from0 before ls h \<longleftrightarrow>
     (if ls = [] then 0 \<le> hd_Pos h \<and> (hd_Pos h = 0 \<or> hd_Pos h < from0 \<and> hd_Hash h = before)
      else hd_Pos h = from0 + int (length ls) - 1 \<and> hd_Hash h = l_Hash (last ls))"

lemma trailer_checks_OK:
  assumes "1 \<le> from0" "from0 + int (length ls) \<le> MaxInt64" "well_chained sum256 from0 before ls"
  shows "Range_OK (trailer_checks (fold step ls (NewWalker from0 before)) (Some h)) \<longleftrightarrow> head_fits from0 before ls h"
proof -
  let ?w0 = "NewWalker from0 before"
  have w0: "want ?w0 = from0" "w_prev ?w0 = before" "rg_To (w_r ?w0) = 0" "rg_Hash (w_r ?w0) = before" "Range_OK (w_r ?w0)"
    using assms(1) by (auto simp: NewWalker_def Range_OK_def Let_def)
  have w: "Range_OK (w_r (fold step ls ?w0))" "want (fold step ls ?w0) = from0 + int (length ls)"
    "rg_To (w_r (fold step ls ?w0)) = (if ls = [] then 0 else from0 + int (length ls) - 1)"
    "rg_Hash (w_r (fold step ls ?w0)) = (if ls = [] then before else l_Hash (last ls))"
    using steps_simps [of sum256 ?w0 ls] assms w0 by simp_all
  let ?w = "fold step ls ?w0"
  have nonempty: "ls \<noteq> [] \<Longrightarrow> 1 \<le> int (length ls)"
    by (cases ls) simp_all
  have done_OK: "Range_OK (Done to ?w) \<longleftrightarrow> \<not> (to > 0 \<and> want ?w \<le> to)" "rg_Hash (Done to ?w) = rg_Hash (w_r ?w)" for to
    using w(1) by (simp_all add: Done_def Let_def)
  have "Range_OK (trailer_checks ?w (Some h)) \<longleftrightarrow> \<not> (hd_Pos h > 0 \<and> want ?w \<le> hd_Pos h) \<and>
      \<not> (hd_Pos h > 0 \<and> hd_Hash h \<noteq> rg_Hash (w_r ?w)) \<and> \<not> rg_To (w_r ?w) > hd_Pos h"
    by (auto simp: trailer_checks_def Let_def done_OK)
  then show ?thesis
    using assms(1) nonempty unfolding w head_fits_def by auto
qed

lemma trailer_checks_None: "\<not> Range_OK (trailer_checks w None)"
  by (simp add: trailer_checks_def Let_def)

lemma check_heads_not_OK: "\<not> Range_OK r \<Longrightarrow> check_heads heads held ps r = r"
  by (cases ps) simp_all

lemma check_heads_OK:
  "Range_OK (check_heads heads held ps r) \<longleftrightarrow> Range_OK r \<and> (\<forall>p \<in> set ps. map_of held p = Some (case map_of heads p of Some h \<Rightarrow> h | None \<Rightarrow> ''''))"
proof (induction ps arbitrary: r)
  case (Cons p ps)
  show ?case
  proof (cases "Range_OK r")
    case True
    then show ?thesis
      using Cons.IH by (cases "map_of held p") (auto simp: Let_def check_heads_not_OK)
  qed simp
qed simp

lemma trailer_checks_walk: "\<not> Range_OK (w_r w) \<Longrightarrow> \<not> Range_OK (trailer_checks w head)"
  by (cases head) (simp_all add: trailer_checks_def Done_def Let_def)

lemma map_of_held_map: "map_of (held_map (xs @ [(p, h)])) = (map_of (held_map xs))(p \<mapsto> h)"
  by (simp add: held_map_def)

lemma held_map_links:
  assumes "well_chained sum256 p before ls"
  shows "map_of (held_map (map (\<lambda>l. (l_Pos l, l_Hash l)) ls)) q = Some h \<longleftrightarrow> (\<exists>l \<in> set ls. l_Pos l = q \<and> l_Hash l = h)"
proof -
  have pos: "i < length ls \<Longrightarrow> l_Pos (ls ! i) = p + int i" for i
    using assms by (simp add: well_chained_def)
  have distinct: "distinct (map l_Pos ls)"
    by (auto simp: distinct_conv_nth pos)
  have "map_of (held_map (map (\<lambda>l. (l_Pos l, l_Hash l)) ls)) = map_of (map (\<lambda>l. (l_Pos l, l_Hash l)) ls)"
    using distinct
  proof (induction ls rule: rev_induct)
    case Nil
    then show ?case by (simp add: held_map_def)
  next
    case (snoc l ls)
    have "map_of (map (\<lambda>l. (l_Pos l, l_Hash l)) ls) (l_Pos l) = None"
      using snoc.prems by (auto simp: map_of_eq_None_iff)
    with snoc show ?case
      by (auto simp: map_of_held_map fun_eq_iff map_add_def split: option.split)
  qed
  moreover have "distinct (map fst (map (\<lambda>l. (l_Pos l, l_Hash l)) ls))"
    using distinct by (simp add: comp_def)
  ultimately show ?thesis
    by (auto simp del: map_map)
qed

lemma kept_iff: "(\<forall>p \<in> set (sort (keys m)). g p = Some (case map_of m p of Some h \<Rightarrow> h | None \<Rightarrow> d)) \<longleftrightarrow>
    (\<forall>p h. map_of m p = Some h \<longrightarrow> g p = Some h)"
  by (simp add: dom_map_of_conv_image_fst [symmetric] dom_def split: option.split)

lemma VerifyExport_OK:
  assumes "xf_first f = Some (Some h)" "eh_V h \<noteq> 0" "eh_V h \<le> ExportVersion" "xf_err f = None"
    "max 1 (eh_From h) + int (length (xf_lines f)) \<le> MaxInt64"
  shows "\<exists>rep held. VerifyExport sum256 f heads = Inr (rep, held) \<and>
    (Range_OK (rep_Range rep) \<longleftrightarrow> (\<exists>ls head. xf_lines f = map LinkLine ls @ [TrailerLine head] \<and>
       well_chained sum256 (max 1 (eh_From h)) (eh_Before h) ls \<and> head_fits (max 1 (eh_From h)) (eh_Before h) ls head \<and>
       (\<forall>pos hash. map_of heads pos = Some hash \<longrightarrow> (\<exists>l \<in> set ls. l_Pos l = pos \<and> l_Hash l = hash))))"
proof -
  let ?from = "max 1 (eh_From h)" and ?b = "eh_Before h" and ?w0 = "NewWalker (eh_From h) (eh_Before h)"
  have new: "?w0 = NewWalker ?from ?b"
    by (auto simp: NewWalker_def)
  have w0: "want ?w0 = ?from" "w_prev ?w0 = ?b" "Range_OK (w_r ?w0)" "w_seen ?w0 = []"
    by (auto simp: NewWalker_def Range_OK_def Let_def)
  obtain w n head where scan: "scan_lines sum256 2 (xf_lines f) (?w0, 0, None) = (w, n, head)" by (metis prod.exhaust)
  let ?r = "check_heads heads (held_map (w_seen w)) (sort (keys heads)) (trailer_checks w head)"
  let ?kept = "\<lambda>ls. \<forall>pos hash. map_of heads pos = Some hash \<longrightarrow> (\<exists>l \<in> set ls. l_Pos l = pos \<and> l_Hash l = hash)"
  have kept: "(\<forall>p \<in> set (sort (keys heads)). map_of (held_map (w_seen (fold step ls ?w0))) p =
      Some (case map_of heads p of Some h \<Rightarrow> h | None \<Rightarrow> '''')) \<longleftrightarrow> ?kept ls"
    if "well_chained sum256 ?from ?b ls" "?from + int (length ls) \<le> MaxInt64" for ls
  proof -
    have "w_seen (fold step ls ?w0) = map (\<lambda>l. (l_Pos l, l_Hash l)) ls"
      using steps_simps(5) [of sum256 ?w0 ls] that w0 by simp
    then show ?thesis
      unfolding kept_iff by (simp only: held_map_links [OF that(1)])
  qed
  have "Range_OK ?r \<longleftrightarrow> (\<exists>ls head. xf_lines f = map LinkLine ls @ [TrailerLine head] \<and>
      well_chained sum256 ?from ?b ls \<and> head_fits ?from ?b ls head \<and> ?kept ls)" (is "?L \<longleftrightarrow> ?R")
  proof
    assume ?L
    then have ok: "Range_OK (trailer_checks w head)"
      by (simp add: check_heads_OK)
    then obtain t where t: "head = Some t"
      using trailer_checks_None by (cases head) auto
    have "Range_OK (w_r w)"
      using ok trailer_checks_walk by blast
    moreover have "MinInt64 \<le> max 1 (eh_From h)" by simp
    ultimately obtain ls where
      ls: "xf_lines f = map LinkLine ls @ [TrailerLine t]" "well_chained sum256 ?from ?b ls" "w = fold step ls ?w0"
      using scan_lines_OK [OF scan [unfolded t]] assms(5) w0 by auto
    moreover from ls(1) have len: "?from + int (length ls) \<le> MaxInt64"
      using assms(5) by simp
    moreover have "head_fits ?from ?b ls t"
      using ok trailer_checks_OK [OF _ len ls(2)] unfolding t ls(3) new by simp
    moreover have "?kept ls"
      using \<open>?L\<close> kept [OF ls(2) len] by (simp add: check_heads_OK ls(3))
    ultimately show ?R by blast
  next
    assume ?R
    then obtain ls t where ls: "xf_lines f = map LinkLine ls @ [TrailerLine t]" "well_chained sum256 ?from ?b ls" "head_fits ?from ?b ls t" "?kept ls"
      by blast
    have len: "?from + int (length ls) \<le> MaxInt64"
      using assms(5) ls(1) by simp
    have "scan_lines sum256 2 (xf_lines f) (?w0, 0, None) = (fold step ls ?w0, int (length ls), Some t)"
      using scan_lines_links [of sum256 ?w0 ls 2 "[TrailerLine t]" 0] ls(1,2) len w0 by simp
    with scan have w: "w = fold step ls ?w0" "head = Some t" by simp_all
    have "Range_OK (trailer_checks w head)"
      using trailer_checks_OK [OF _ len ls(2)] ls(3) unfolding w new by simp
    with ls(4) kept [OF ls(2) len] show ?L
      by (simp add: check_heads_OK w(1))
  qed
  then show ?thesis
    using assms(1-4) scan by (simp add: VerifyExport_def Let_def)
qed

text \<open>
  C36: what an accepted export is. A file whose header is read and whose positions fit \<^verbatim>\<open>int64\<close> passes \<open>VerifyExport\<close> just in
  case it is a chain of links, numbered without a gap from the header's first position, each naming the hash before it and
  carrying its own, followed by one trailer whose head is that of the last link, and every head kept elsewhere is held,
  unchanged, at its position. So nothing can be cut, added, moved or edited in it without showing, unless every hash
  from there on, the trailer's head among them, is made again; and an export cut short never passes.
\<close>

theorem export_accepted_iff:
  assumes "xf_first f = Some (Some h)" "eh_V h \<noteq> 0" "eh_V h \<le> ExportVersion" "xf_err f = None"
    "max 1 (eh_From h) + int (length (xf_lines f)) \<le> MaxInt64"
  shows "\<exists>rep held. VerifyExport sum256 f heads = Inr (rep, held) \<and>
    (Range_OK (rep_Range rep) \<longleftrightarrow> (\<exists>ls head. xf_lines f = map LinkLine ls @ [TrailerLine head] \<and>
       well_chained sum256 (max 1 (eh_From h)) (eh_Before h) ls \<and> head_fits (max 1 (eh_From h)) (eh_Before h) ls head \<and>
       (\<forall>pos hash. map_of heads pos = Some hash \<longrightarrow> (\<exists>l \<in> set ls. l_Pos l = pos \<and> l_Hash l = hash))))"
  by (rule VerifyExport_OK [OF assms])

section \<open>Rewriting takes a collision\<close>

definition hashed_text :: "Link \<Rightarrow> string" where
  "hashed_text l = l_Prev l @ [CHR 0x0A] @ l_Row l"

lemma LinkHash_text: "LinkHash sum256 (l_Prev l) (l_Row l) = hex_encode (sum256 (hashed_text l))"
  by (simp add: LinkHash_def hashed_text_def)

lemma hex_digit_inject: "m < 16 \<Longrightarrow> n < 16 \<Longrightarrow> hex_digit m = hex_digit n \<Longrightarrow> m = n"
  by (drule arg_cong [where f = byte_val]) (auto simp: hex_digit_def split: if_splits)

lemma hex_encode_inject: "hex_encode a = hex_encode b \<Longrightarrow> a = b"
proof (induction a arbitrary: b)
  case Nil
  then show ?case
    using length_hex_encode [of b] by (auto simp: hex_encode_def)
next
  case (Cons x xs)
  then obtain y ys where b: "b = y # ys"
    by (cases b) (auto simp: hex_encode_def)
  have "byte_val x div 16 < 16" "byte_val y div 16 < 16"
    using byte_val_less by (simp_all add: less_mult_imp_div_less)
  then have "byte_val x div 16 = byte_val y div 16" "byte_val x mod 16 = byte_val y mod 16" "hex_encode xs = hex_encode ys"
    using Cons.prems by (auto simp: b hex_encode_Cons intro!: hex_digit_inject)
  then have "byte_val x = byte_val y"
    by (metis div_mult_mod_eq)
  then show ?case
    using Cons.IH \<open>hex_encode xs = hex_encode ys\<close> by (simp add: b byte_val_def)
qed

lemma hex_no_newline: "CHR 0x0A \<notin> set (hex_encode s)"
  using hex_encode_hex [of s] by (auto simp: list_all_iff is_hex_def is_digit_def byte_val_def)

lemma split_newline: "CHR 0x0A \<notin> set a \<Longrightarrow> CHR 0x0A \<notin> set b \<Longrightarrow> a @ CHR 0x0A # x = b @ CHR 0x0A # y \<Longrightarrow> a = b \<and> x = y"
  by (induction a arbitrary: b) (auto simp: Cons_eq_append_conv append_eq_Cons_conv)

text \<open>Two links with the same hash are the same, or they hash two different texts to one value.\<close>

definition collide :: "sha \<Rightarrow> Link list \<Rightarrow> Link list \<Rightarrow> bool" where
  "collide sum256 ls ms \<longleftrightarrow> (\<exists>l \<in> set ls. \<exists>m \<in> set ms. hashed_text l \<noteq> hashed_text m \<and> sum256 (hashed_text l) = sum256 (hashed_text m))"

lemma same_hash_same_link:
  assumes "well_chained sum256 p b ls" "well_chained sum256 p b' ms" "n < length ls" "n < length ms" "l_Hash (ls ! n) = l_Hash (ms ! n)"
    "CHR 0x0A \<notin> set b" "CHR 0x0A \<notin> set b'" "\<not> collide sum256 ls ms"
  shows "ls ! n = ms ! n"
proof -
  let ?l = "ls ! n" and ?m = "ms ! n"
  have l: "l_Pos ?l = p + int n" "l_Hash ?l = LinkHash sum256 (l_Prev ?l) (l_Row ?l)" "l_Prev ?l = (if n = 0 then b else l_Hash (ls ! (n - 1)))"
    and m: "l_Pos ?m = p + int n" "l_Hash ?m = LinkHash sum256 (l_Prev ?m) (l_Row ?m)" "l_Prev ?m = (if n = 0 then b' else l_Hash (ms ! (n - 1)))"
    by (fact well_chained_nth [OF assms(1,3)] well_chained_nth [OF assms(2,4)])+
  have "CHR 0x0A \<notin> set (l_Hash (ls ! k))" "CHR 0x0A \<notin> set (l_Hash (ms ! k))" if "k \<le> n" for k
  proof -
    have "l_Hash (ls ! k) = LinkHash sum256 (l_Prev (ls ! k)) (l_Row (ls ! k))" "l_Hash (ms ! k) = LinkHash sum256 (l_Prev (ms ! k)) (l_Row (ms ! k))"
      using well_chained_nth(3) [OF assms(1)] well_chained_nth(3) [OF assms(2)] assms(3,4) that by simp_all
    then show "CHR 0x0A \<notin> set (l_Hash (ls ! k))" "CHR 0x0A \<notin> set (l_Hash (ms ! k))"
      by (simp_all add: LinkHash_def hex_no_newline del: append.simps)
  qed
  then have "CHR 0x0A \<notin> set (l_Prev ?l)" "CHR 0x0A \<notin> set (l_Prev ?m)"
    using l(3) m(3) assms(6,7) by (auto split: if_splits)
  moreover have "sum256 (hashed_text ?l) = sum256 (hashed_text ?m)"
    using assms(5) l(2) m(2) hex_encode_inject by (simp add: LinkHash_text)
  then have "hashed_text ?l = hashed_text ?m"
    using assms(3,4,8) nth_mem unfolding collide_def by blast
  ultimately have "l_Prev ?l = l_Prev ?m" "l_Row ?l = l_Row ?m"
    using split_newline [of "l_Prev ?l" "l_Prev ?m" "l_Row ?l" "l_Row ?m"] by (simp_all add: hashed_text_def)
  with l(1) m(1) assms(5) show ?thesis
    by (cases ?l; cases ?m) simp
qed

lemma same_head_same_chain:
  assumes "well_chained sum256 p b ls" "well_chained sum256 p b' ms" "n < length ls" "n < length ms" "l_Hash (ls ! n) = l_Hash (ms ! n)"
    "CHR 0x0A \<notin> set b" "CHR 0x0A \<notin> set b'" "\<not> collide sum256 ls ms"
  shows "take (Suc n) ls = take (Suc n) ms"
  using assms(3-5)
proof (induction n)
  case 0
  with same_hash_same_link [OF assms(1,2) 0 assms(6-8)] show ?case
    by (simp add: take_Suc_conv_app_nth)
next
  case (Suc n)
  have same: "ls ! Suc n = ms ! Suc n"
    by (rule same_hash_same_link [OF assms(1,2) Suc.prems assms(6-8)])
  have "l_Prev (ls ! Suc n) = l_Hash (ls ! n)" "l_Prev (ms ! Suc n) = l_Hash (ms ! n)"
    using well_chained_nth(2) [OF assms(1) Suc.prems(1)] well_chained_nth(2) [OF assms(2) Suc.prems(2)] by simp_all
  then have "l_Hash (ls ! n) = l_Hash (ms ! n)"
    using arg_cong [OF same, of l_Prev] by simp
  then have "take (Suc n) ls = take (Suc n) ms"
    using Suc.IH Suc.prems(1,2) Suc_lessD by blast
  with same show ?case
    by (simp add: take_Suc_conv_app_nth [OF Suc.prems(1)] take_Suc_conv_app_nth [OF Suc.prems(2)])
qed

fun links_of :: "export_line list \<Rightarrow> Link list" where
  "links_of [] = []"
| "links_of (LinkLine l # bs) = l # links_of bs"
| "links_of (b # bs) = links_of bs"

lemma links_of_export: "links_of (map LinkLine ls @ [TrailerLine t]) = ls"
  by (induction ls) auto

lemma Genesis_plain: "CHR 0x0A \<notin> set Genesis"
  by (simp add: Genesis_def)

lemma accepted_export:
  assumes "xf_first f = Some (Some h)" "eh_From h = 1" "eh_Before h = Genesis" "int (length (xf_lines f)) < MaxInt64"
    "VerifyExport sum256 f heads = Inr (rep, held)" "Range_OK (rep_Range rep)" "map_of heads pos = Some hash"
  shows "\<exists>ls t. xf_lines f = map LinkLine ls @ [TrailerLine t] \<and> well_chained sum256 1 Genesis ls \<and>
    (\<exists>n < length ls. pos = int (Suc n) \<and> l_Hash (ls ! n) = hash)"
proof -
  have h: "eh_V h \<noteq> 0" "eh_V h \<le> ExportVersion" "xf_err f = None"
    using assms(1,5) by (auto simp: VerifyExport_def Let_def split: if_splits option.splits prod.splits)
  have "max 1 (eh_From h) + int (length (xf_lines f)) \<le> MaxInt64"
    using assms(2,4) by simp
  from VerifyExport_OK [OF assms(1) h this, of sum256 heads] assms(2,3,5,6) obtain ls t where
    ls: "xf_lines f = map LinkLine ls @ [TrailerLine t]" "well_chained sum256 1 Genesis ls"
    and kept: "\<forall>pos hash. map_of heads pos = Some hash \<longrightarrow> (\<exists>l \<in> set ls. l_Pos l = pos \<and> l_Hash l = hash)"
    by auto
  from kept assms(7) obtain n where n: "n < length ls" "l_Pos (ls ! n) = pos" "l_Hash (ls ! n) = hash"
    by (metis in_set_conv_nth)
  with well_chained_nth(1) [OF ls(2) n(1)] have "pos = int (Suc n)" by simp
  with ls n show ?thesis by blast
qed

text \<open>
  Rewriting a record takes a collision. Two exports of the same chain from its beginning that \<open>VerifyExport\<close> accepts against the
  same head kept elsewhere hold the same lines up to the position of that head, byte for byte, or else two different texts hashed by
  links of the two files have the same SHA-256. So whoever keeps a head keeps all of the record before it.
\<close>

theorem kept_head_fixes_record:
  assumes "xf_first f = Some (Some h)" "eh_From h = 1" "eh_Before h = Genesis" "int (length (xf_lines f)) < MaxInt64"
    "VerifyExport sum256 f heads = Inr (rep, held)" "Range_OK (rep_Range rep)" "map_of heads pos = Some hash"
    and "xf_first g = Some (Some h')" "eh_From h' = 1" "eh_Before h' = Genesis" "int (length (xf_lines g)) < MaxInt64"
    "VerifyExport sum256 g heads' = Inr (rep', held')" "Range_OK (rep_Range rep')" "map_of heads' pos = Some hash"
  shows "take (nat pos) (xf_lines f) = take (nat pos) (xf_lines g) \<or> collide sum256 (links_of (xf_lines f)) (links_of (xf_lines g))"
proof -
  obtain ls t n where f: "xf_lines f = map LinkLine ls @ [TrailerLine t]" "well_chained sum256 1 Genesis ls" "n < length ls"
    "pos = int (Suc n)" "l_Hash (ls ! n) = hash"
    using accepted_export [OF assms(1-7)] by blast
  obtain ms u k where g: "xf_lines g = map LinkLine ms @ [TrailerLine u]" "well_chained sum256 1 Genesis ms" "k < length ms"
    "pos = int (Suc k)" "l_Hash (ms ! k) = hash"
    using accepted_export [OF assms(8-14)] by blast
  have k: "k = n"
    using f(4) g(4) by simp
  show ?thesis
  proof (cases "collide sum256 ls ms")
    case True
    then show ?thesis
      by (simp add: f(1) g(1) links_of_export)
  next
    case False
    have np: "nat pos = Suc n"
      by (simp only: f(4) nat_int)
    have "take (Suc n) ls = take (Suc n) ms"
      using same_head_same_chain [OF f(2) g(2) f(3) _ _ Genesis_plain Genesis_plain False] g(3,5) f(5) k by simp
    moreover have "take (nat pos) (xf_lines f) = map LinkLine (take (Suc n) ls)" "take (nat pos) (xf_lines g) = map LinkLine (take (Suc n) ms)"
      using f(3) g(3) k by (simp_all add: f(1) g(1) np take_map)
    ultimately show ?thesis by simp
  qed
qed

section \<open>The witness\<close>

definition accounted :: "(Statement \<Rightarrow> bool) \<Rightarrow> string \<Rightarrow> (string \<Rightarrow> int \<Rightarrow> string + string option)
    \<Rightarrow> (string \<Rightarrow> int \<Rightarrow> string \<Rightarrow> string + string \<times> bool) option \<Rightarrow> Statement \<Rightarrow> bool" where
  "accounted verify key hashAt removed s \<longleftrightarrow> st_Key s = key \<and> verify s \<and>
     (hashAt (st_Session s) (st_Lines s) = Inr (Some (st_Hash s)) \<or>
      hashAt (st_Session s) (st_Lines s) = Inr None \<and>
        (\<exists>f why. removed = Some f \<and> why \<noteq> '''' \<and> f (st_Session s) (st_Lines s) (st_Hash s) = Inr (why, True)))"

lemma Failed_simps [simp]: "Failed [] = 0" "Failed (p # ps) = (if pr_Removed p then 0 else 1) + Failed ps"
  by (simp_all add: Failed_def)

lemma Failed_nonneg: "0 \<le> Failed ps"
  by (simp add: Failed_def)

lemma Witness_Check_OK:
  "Witness_Check verify fmt ss key store tenant hashAt removed = (ps, None) \<Longrightarrow>
   Failed ps = 0 \<longleftrightarrow> (\<forall>s \<in> set ss. st_Store s = store \<and> st_Tenant s = tenant \<longrightarrow> accounted verify key hashAt removed s)"
proof (induction ss arbitrary: ps)
  case (Cons s ss)
  obtain qs err where rest: "Witness_Check verify fmt ss key store tenant hashAt removed = (qs, err)" by fastforce
  have no: "1 + Failed qs \<noteq> 0"
    using Failed_nonneg [of qs] by simp
  show ?case
  proof (cases "st_Store s = store \<and> st_Tenant s = tenant")
    case False
    with Cons.prems rest Cons.IH show ?thesis by (auto simp: Let_def)
  next
    case True
    let ?at = "hashAt (st_Session s) (st_Lines s)"
    note IH = Cons.IH [of qs]
    show ?thesis
    proof (cases "st_Key s = key \<and> verify s")
      case False
      with True Cons.prems rest have "Failed ps = 1 + Failed qs"
        by (auto simp: Let_def)
      moreover have "\<not> accounted verify key hashAt removed s"
        using False by (auto simp: accounted_def)
      ultimately show ?thesis
        using True no by auto
    next
      case good: True
      show ?thesis
      proof (cases ?at)
        case (Inl e)
        with True good Cons.prems rest show ?thesis by (simp add: Let_def)
      next
        case (Inr found)
        show ?thesis
        proof (cases found)
          case (Some h)
          with True good Cons.prems rest Inr IH no show ?thesis
            by (auto simp: Let_def accounted_def split: if_splits)
        next
          case None
          show ?thesis
          proof (cases removed)
            case (Some f)
            show ?thesis
            proof (cases "f (st_Session s) (st_Lines s) (st_Hash s)")
              case (Inl e)
              with True good Cons.prems rest Inr None Some show ?thesis by (simp add: Let_def)
            next
              case f: (Inr wg)
              obtain why gone where wg: "wg = (why, gone)" by (cases wg)
              have "Failed ps = (if why \<noteq> [] \<and> gone then 0 else 1) + Failed qs" "err = None"
                using True good Cons.prems rest Inr None Some f wg by (auto simp: Let_def split: if_splits)
              moreover have "accounted verify key hashAt removed s \<longleftrightarrow> why \<noteq> [] \<and> gone"
                using good Inr None Some f wg by (simp add: accounted_def)
              ultimately show ?thesis
                using True no IH rest by auto
            qed
          next
            case rem: None
            from True good Cons.prems rest Inr None rem have "Failed ps = 1 + Failed qs"
              by (auto simp: Let_def)
            moreover have "\<not> accounted verify key hashAt removed s"
              using Inr None rem by (auto simp: accounted_def)
            ultimately show ?thesis
              using True no by auto
          qed
        qed
      qed
    qed
  qed
qed simp

text \<open>
  C37: a rewritten record is caught. Take the statement the witness was sent when the record held the links \<open>ls\<close>, of the head at
  position \<open>Suc n\<close>. If later the record holds the links \<open>ms\<close>, which hold by themselves, and \<open>Check\<close> of the witness's
  statements against it reports no failure, then the record still holds the first \<open>Suc n\<close> links as they were, or two different texts hashed
  by links of the two records have the same SHA-256. Recomputing the chain, or putting back an older copy of it, does not pass.
\<close>

theorem rewritten_record_caught:
  assumes "well_chained sum256 1 Genesis ls" "n < length ls"
    "s = sealed_statement sign key host at (Witness_Postgres tenant session (int (Suc n)) (l_Hash (ls ! n)))" "s \<in> set ss"
    "Range_OK (Done 0 (walk_links sum256 ms (NewWalker 1 Genesis)))" "int (length ms) < MaxInt64"
    "\<And>pos. hashAt session pos = Inr (if 1 \<le> pos \<and> pos \<le> int (length ms) then Some (l_Hash (ms ! nat (pos - 1))) else None)"
    "Witness_Check verify fmt ss key ''postgres'' tenant hashAt None = (ps, None)" "Failed ps = 0"
  shows "take (Suc n) ms = take (Suc n) ls \<or> collide sum256 ls ms"
proof -
  have s: "st_Store s = ''postgres''" "st_Tenant s = tenant" "st_Session s = session" "st_Lines s = int (Suc n)" "st_Hash s = l_Hash (ls ! n)"
    by (simp_all add: assms(3) sealed_statement_def Witness_Postgres_def Witness_Local_def Let_def)
  have "accounted verify key hashAt None s"
    using Witness_Check_OK [OF assms(8)] assms(4,9) s(1,2) by blast
  then have "hashAt session (int (Suc n)) = Inr (Some (l_Hash (ls ! n)))"
    by (simp add: accounted_def s)
  then have at: "n < length ms" "l_Hash (ms ! n) = l_Hash (ls ! n)"
    using assms(7) [of "int (Suc n)"] by (auto split: if_splits)
  have ms: "well_chained sum256 1 Genesis ms"
  proof (rule ccontr)
    assume "\<not> ?thesis"
    with walk_links_first_bad [of sum256 "NewWalker 1 Genesis" ms] assms(5,6) show False
      by (auto simp: Done_OK)
  qed
  show ?thesis
    using same_head_same_chain [OF assms(1) ms assms(2) at(1) at(2) [symmetric] Genesis_plain Genesis_plain] by metis
qed

section \<open>Samples\<close>

definition sample_export :: export_file where
  "sample_export = \<lparr>xf_first = Some (Some \<lparr>eh_V = 1, eh_Chain = ''postgres/events'', eh_Tenant = ''t'', eh_Scope = ''s'', eh_From = 1,
     eh_Before = Genesis, eh_PreChain = 0, eh_ExportedAt = 0\<rparr>),
     xf_lines = map LinkLine sample_links @ [TrailerLine \<lparr>hd_Chain = ''postgres/events'', hd_Tenant = ''t'', hd_Scope = ''s'', hd_Pos = 2,
       hd_Hash = l_Hash (sample_links ! 1)\<rparr>], xf_err = None\<rparr>"

definition sample_heads :: "(int, string) gomap" where
  "sample_heads = [(1, l_Hash (sample_links ! 0))]"

lemma sample_export_OK:
  "\<exists>rep held. VerifyExport sample_sum sample_export sample_heads = Inr (rep, held) \<and> Range_OK (rep_Range rep)"
proof -
  have "(case VerifyExport sample_sum sample_export sample_heads of Inr (rep, held) \<Rightarrow> Range_OK (rep_Range rep) | _ \<Rightarrow> False)"
    by code_simp
  then show ?thesis by (simp split: sum.splits prod.splits)
qed

theorem export_accepted_iff_witness:
  "\<exists>rep held. VerifyExport sample_sum (sample_export\<lparr>xf_lines := map LinkLine sample_links\<rparr>) [] = Inr (rep, held) \<and> \<not> Range_OK (rep_Range rep)"
proof -
  let ?f = "sample_export\<lparr>xf_lines := map LinkLine sample_links\<rparr>"
  obtain h where h: "xf_first ?f = Some (Some h)" "eh_V h = 1" "eh_From h = 1"
    by (simp add: sample_export_def)
  have "max 1 (eh_From h) + int (length (xf_lines ?f)) \<le> MaxInt64"
    using h by (simp add: sample_links_def Let_def)
  from export_accepted_iff [OF h(1) _ _ _ this, of sample_sum "[]"] h show ?thesis
    by (auto simp: sample_export_def map_eq_append_conv)
qed

theorem kept_head_fixes_record_witness:
  "take 1 (xf_lines sample_export) = take 1 (xf_lines sample_export) \<or> collide sample_sum sample_links sample_links"
proof -
  obtain rep held where r: "VerifyExport sample_sum sample_export sample_heads = Inr (rep, held)" "Range_OK (rep_Range rep)"
    using sample_export_OK by blast
  obtain h where h: "xf_first sample_export = Some (Some h)" "eh_From h = 1" "eh_Before h = Genesis"
    by (simp add: sample_export_def)
  have n: "int (length (xf_lines sample_export)) < MaxInt64"
    by (simp add: sample_export_def sample_links_def Let_def)
  have k: "map_of sample_heads 1 = Some (l_Hash (sample_links ! 0))"
    by (simp add: sample_heads_def)
  from kept_head_fixes_record [OF h n r k h n r k] show ?thesis
    by (simp add: sample_export_def links_of_export)
qed

theorem rewritten_record_caught_witness:
  "take 2 sample_links = take (Suc 1) sample_links \<or> collide sample_sum sample_links sample_links"
proof -
  let ?s = "sealed_statement (\<lambda>s. ''sig'') ''key'' ''host'' 0 (Witness_Postgres ''t'' ''s'' (int (Suc 1)) (l_Hash (sample_links ! 1)))"
  let ?at = "\<lambda>sess pos. Inr (if 1 \<le> pos \<and> pos \<le> int (length sample_links) then Some (l_Hash (sample_links ! nat (pos - 1))) else None)"
  have n: "1 < length sample_links" "length sample_links = 2"
    by (simp_all add: sample_links_def Let_def)
  have walk: "Range_OK (Done 0 (walk_links sample_sum sample_links (NewWalker 1 Genesis)))"
    by code_simp
  have check: "Witness_Check (\<lambda>s. True) (\<lambda>t. '''') [?s] ''key'' ''postgres'' ''t'' ?at None = ([], None)"
    by (simp add: n(2) sealed_statement_def Witness_Postgres_def Witness_Local_def Let_def)
  have "take (Suc 1) sample_links = take (Suc 1) sample_links \<or> collide sample_sum sample_links sample_links"
    by (rule rewritten_record_caught [OF sample_links_chain n(1) refl _ walk _ _ check]) (simp_all add: n(2))
  then show ?thesis
    by (simp add: numeral_2_eq_2)
qed

end
