(* ===== verification/Netip.thy ===== *)
theory Netip
  imports Prelude "HOL-Library.Word"
begin

unbundle bit_operations_syntax

text \<open>
  What the egress policy uses of Go's \<^verbatim>\<open>net/netip\<close>: IPv4 and IPv6 addresses as machine words, their one
  textual form, prefixes, and the classes of addresses.
\<close>

section \<open>Addresses\<close>

text \<open>An IPv6 address carries its zone, the empty string for none.\<close>

datatype Addr = IP4 "32 word" | IP6 "128 word" string

definition Zone :: "Addr \<Rightarrow> string" where
  "Zone a = (case a of IP4 w \<Rightarrow> '''' | IP6 w z \<Rightarrow> z)"

definition Is4In6 :: "Addr \<Rightarrow> bool" where
  "Is4In6 a \<longleftrightarrow> (case a of IP4 w \<Rightarrow> False | IP6 w z \<Rightarrow> drop_bit 32 w = 0xffff)"

definition Unmap :: "Addr \<Rightarrow> Addr" where
  "Unmap a = (case a of IP4 w \<Rightarrow> a | IP6 w z \<Rightarrow> if drop_bit 32 w = 0xffff then IP4 (ucast w) else a)"

definition BitLen :: "Addr \<Rightarrow> nat" where
  "BitLen a = (case a of IP4 w \<Rightarrow> 32 | IP6 w z \<Rightarrow> 128)"

section \<open>Reading\<close>

definition dec_number :: "string \<Rightarrow> int" where
  "dec_number s = foldl (\<lambda>a c. 10 * a + int (byte_val c) - 48) 0 s"

definition octet :: "string \<Rightarrow> int option" where
  "octet s = (if s = [] \<or> \<not> list_all is_digit s \<or> (length s > 1 \<and> hd s = CHR ''0'') \<or> length s > 3 \<or> dec_number s > 255
     then None else Some (dec_number s))"

text \<open>Exactly four plain decimal numbers; what \<open>parseIPv4Fields\<close> accepts.\<close>

definition parse_fields4 :: "string \<Rightarrow> int list option" where
  "parse_fields4 s = (case map octet (Split CHR ''.'' s) of
       [Some a, Some b, Some c, Some d] \<Rightarrow> Some [a, b, c, d]
     | _ \<Rightarrow> None)"

definition of_digits :: "int \<Rightarrow> int list \<Rightarrow> int" where
  "of_digits base ds = foldl (\<lambda>a d. base * a + d) 0 ds"

definition parseIPv4 :: "string \<Rightarrow> Addr option" where
  "parseIPv4 s = map_option (\<lambda>ds. IP4 (word_of_int (of_digits 256 ds))) (parse_fields4 s)"

definition hex_val :: "char \<Rightarrow> int option" where
  "hex_val c = (let b = byte_val c in
     if is_digit c then Some (int b - 48)
     else if 97 \<le> b \<and> b \<le> 102 then Some (int b - 87)
     else if 65 \<le> b \<and> b \<le> 70 then Some (int b - 55) else None)"

definition hex_digits :: "string \<Rightarrow> string" where
  "hex_digits s = takeWhile (\<lambda>c. hex_val c \<noteq> None) s"

definition hex_number :: "string \<Rightarrow> int" where
  "hex_number s = foldl (\<lambda>a c. 16 * a + (case hex_val c of Some d \<Rightarrow> d | None \<Rightarrow> 0)) 0 s"

text \<open>
  The loop of \<open>parseIPv6\<close>: the groups read, and how many there were before the ellipsis. \<open>n\<close> bounds the
  groups still to come; with none left what follows is garbage.
\<close>

fun parse_groups :: "nat \<Rightarrow> int list \<Rightarrow> nat option \<Rightarrow> string \<Rightarrow> (int list \<times> nat option) option" where
  "parse_groups 0 gs ell s = (if s = [] then Some (gs, ell) else None)"
| "parse_groups (Suc n) gs ell s =
     (let ds = hex_digits s; rest = drop (length ds) s
      in if ds = [] \<or> length ds > 4 then None
         else if rest \<noteq> [] \<and> hd rest = CHR ''.''
         then (if (ell = None \<and> length gs \<noteq> 6) \<or> length gs > 6 then None
               else map_option (\<lambda>os. (gs @ [of_digits 256 (take 2 os), of_digits 256 (drop 2 os)], ell)) (parse_fields4 s))
         else let gs' = gs @ [hex_number ds]
              in case rest of
                   [] \<Rightarrow> Some (gs', ell)
                 | [c] \<Rightarrow> None
                 | c # d # more \<Rightarrow>
                     if c \<noteq> CHR '':'' then None
                     else if d \<noteq> CHR '':'' then parse_groups n gs' ell (d # more)
                     else if ell \<noteq> None then None
                     else if more = [] then Some (gs', Some (length gs'))
                     else parse_groups n gs' (Some (length gs')) more)"

definition expand :: "int list \<times> nat option \<Rightarrow> int list option" where
  "expand ge = (case ge of (gs, ell) \<Rightarrow>
     if length gs < 8 then map_option (\<lambda>e. take e gs @ replicate (8 - length gs) 0 @ drop e gs) ell
     else if ell = None then Some gs else None)"

definition parseIPv6 :: "string \<Rightarrow> Addr option" where
  "parseIPv6 whole =
     (let (s, zone, bad) = (case Cut whole ''%'' of None \<Rightarrow> (whole, '''', False) | Some (a, z) \<Rightarrow> (a, z, z = ''''))
      in if bad then None
         else let got = (if HasPrefix s ''::''
              then (if length s = 2 then Some ([], Some 0) else parse_groups 8 [] (Some 0) (drop 2 s))
              else parse_groups 8 [] None s)
         in (case got of
               None \<Rightarrow> None
             | Some ge \<Rightarrow> map_option (\<lambda>gs. IP6 (word_of_int (of_digits 65536 gs)) zone) (expand ge)))"

definition ParseAddr :: "string \<Rightarrow> Addr option" where
  "ParseAddr s = (case dropWhile (\<lambda>c. c \<notin> {CHR ''.'', CHR '':'', CHR ''%''}) s of
       [] \<Rightarrow> None
     | c # cs \<Rightarrow> if c = CHR ''.'' then parseIPv4 s else if c = CHR '':'' then parseIPv6 s else None)"

section \<open>Printing\<close>

definition string4 :: "32 word \<Rightarrow> string" where
  "string4 w = Join (map (\<lambda>k. FormatInt (uint (drop_bit k w AND 255))) [24, 16, 8, 0]) ''.''"

definition hex_char :: "int \<Rightarrow> char" where
  "hex_char n = char_of (if n < 10 then 48 + n else 87 + n)"

text \<open>\<open>appendHex\<close>: a group of sixteen bits without leading zeros.\<close>

definition group_hex :: "int \<Rightarrow> string" where
  "group_hex n = (let ds = map (\<lambda>k. n div 16 ^ k mod 16) [3, 2, 1, 0]
     in map hex_char (dropWhile (\<lambda>d. d = 0) (butlast ds) @ [last ds]))"

definition groups6 :: "128 word \<Rightarrow> int list" where
  "groups6 w = map (\<lambda>k. uint (drop_bit (16 * (7 - k)) w AND 0xffff)) [0 ..< 8]"

text \<open>The first longest run of at least two zero groups: its start and its end; \<open>(8, 8)\<close> when there is none.\<close>

definition zero_run :: "int list \<Rightarrow> nat \<times> nat" where
  "zero_run gs = foldl (\<lambda>(s, e) i. let j = i + length (takeWhile (\<lambda>g. g = 0) (drop i gs))
     in if j - i \<ge> 2 \<and> j - i > e - s then (i, j) else (s, e)) (8, 8) [0 ..< length gs]"

definition string6 :: "128 word \<Rightarrow> string" where
  "string6 w = (let gs = groups6 w; (s, e) = zero_run gs
     in if s = 8 then Join (map group_hex gs) '':''
        else Join (map group_hex (take s gs)) '':'' @ ''::'' @ Join (map group_hex (drop e gs)) '':'')"

definition Addr_String :: "Addr \<Rightarrow> string" where
  "Addr_String a = (case a of
       IP4 w \<Rightarrow> string4 w
     | IP6 w z \<Rightarrow> (if drop_bit 32 w = 0xffff then ''::ffff:'' @ string4 (ucast w) else string6 w) @ (if z = '''' then '''' else ''%'' @ z))"

section \<open>Classes\<close>

definition IsLoopback :: "Addr \<Rightarrow> bool" where
  "IsLoopback a \<longleftrightarrow> (case Unmap a of IP4 w \<Rightarrow> drop_bit 24 w = 127 | IP6 w z \<Rightarrow> w = 1)"

definition IsPrivate :: "Addr \<Rightarrow> bool" where
  "IsPrivate a \<longleftrightarrow> (case Unmap a of
       IP4 w \<Rightarrow> drop_bit 24 w = 10 \<or> drop_bit 20 w = 0xac1 \<or> drop_bit 16 w = 0xc0a8
     | IP6 w z \<Rightarrow> drop_bit 120 w AND 0xfe = 0xfc)"

definition IsLinkLocalUnicast :: "Addr \<Rightarrow> bool" where
  "IsLinkLocalUnicast a \<longleftrightarrow> (case Unmap a of
       IP4 w \<Rightarrow> drop_bit 16 w = 0xa9fe
     | IP6 w z \<Rightarrow> drop_bit 112 w AND 0xffc0 = 0xfe80)"

definition IsLinkLocalMulticast :: "Addr \<Rightarrow> bool" where
  "IsLinkLocalMulticast a \<longleftrightarrow> (case Unmap a of
       IP4 w \<Rightarrow> drop_bit 8 w = 0xe00000
     | IP6 w z \<Rightarrow> drop_bit 112 w AND 0xff0f = 0xff02)"

definition IsUnspecified :: "Addr \<Rightarrow> bool" where
  "IsUnspecified a \<longleftrightarrow> (case a of IP4 w \<Rightarrow> w = 0 | IP6 w z \<Rightarrow> w = 0 \<and> z = '''')"

definition IsMulticast :: "Addr \<Rightarrow> bool" where
  "IsMulticast a \<longleftrightarrow> (case Unmap a of IP4 w \<Rightarrow> drop_bit 28 w = 0xe | IP6 w z \<Rightarrow> drop_bit 120 w = 0xff)"

definition IsInterfaceLocalMulticast :: "Addr \<Rightarrow> bool" where
  "IsInterfaceLocalMulticast a \<longleftrightarrow> (case a of IP4 w \<Rightarrow> False | IP6 w z \<Rightarrow> \<not> Is4In6 a \<and> drop_bit 112 w AND 0xff0f = 0xff01)"

definition IsGlobalUnicast :: "Addr \<Rightarrow> bool" where
  "IsGlobalUnicast a \<longleftrightarrow> a \<noteq> IP4 0 \<and> a \<noteq> IP4 0xffffffff \<and> a \<noteq> IP6 0 '''' \<and>
     \<not> IsLoopback a \<and> \<not> IsMulticast a \<and> \<not> IsLinkLocalUnicast a"

section \<open>Prefixes\<close>

record Prefix =
  pf_Addr :: Addr
  pf_Bits :: nat

text \<open>\<open>ParsePrefix\<close>: the text up to the last slash, and a plain number of bits.\<close>

definition ParsePrefix :: "string \<Rightarrow> Prefix option" where
  "ParsePrefix s =
     (if CHR ''/'' \<notin> set s then None
      else let bits = rev (takeWhile (\<lambda>c. c \<noteq> CHR ''/'') (rev s));
               host = take (length s - length bits - 1) s
           in (case ParseAddr host of
                 None \<Rightarrow> None
               | Some a \<Rightarrow>
                   if Zone a \<noteq> '''' then None
                   else if length bits > 1 \<and> (byte_val (hd bits) < 49 \<or> byte_val (hd bits) > 57) then None
                   else (case ParseInt bits of
                       None \<Rightarrow> None
                     | Some n \<Rightarrow> if n < 0 \<or> n > int (BitLen a) then None else Some \<lparr>pf_Addr = a, pf_Bits = nat n\<rparr>)))"

definition mask_low :: "nat \<Rightarrow> 'a::len word \<Rightarrow> 'a word" where
  "mask_low k w = push_bit k (drop_bit k w)"

definition Masked :: "Prefix \<Rightarrow> Prefix" where
  "Masked p = p\<lparr>pf_Addr := (case pf_Addr p of
       IP4 w \<Rightarrow> IP4 (mask_low (32 - pf_Bits p) w)
     | IP6 w z \<Rightarrow> IP6 (mask_low (128 - pf_Bits p) w) z)\<rparr>"

definition Prefix_Contains :: "Prefix \<Rightarrow> Addr \<Rightarrow> bool" where
  "Prefix_Contains p a \<longleftrightarrow> (case (pf_Addr p, a) of
       (IP4 v, IP4 w) \<Rightarrow> drop_bit (32 - pf_Bits p) (w XOR v) = 0
     | (IP6 v y, IP6 w z) \<Rightarrow> z = '''' \<and> drop_bit (128 - pf_Bits p) (w XOR v) = 0
     | _ \<Rightarrow> False)"

end
