(* ===== verification/Egress.thy ===== *)
theory Egress
  imports Netip
begin

text \<open>
  The egress policy of the proxy a sandbox's commands go through: \<^verbatim>\<open>internal/egress/policy.go\<close>, \<^verbatim>\<open>target.go\<close> and
  \<^verbatim>\<open>addr.go\<close>. Errors keep the fixed words of their messages. \<open>url.Parse\<close> is a parameter of the absolute form of a target.
\<close>

section \<open>More of Go's \<^verbatim>\<open>strings\<close> and \<^verbatim>\<open>net\<close>\<close>

text \<open>
  \<open>strings.ToLower\<close>, as far as a check for lower-case ASCII can tell: besides the ASCII letters, two code points have an
  ASCII lower case, U+0130 and U+212A; any other byte outside ASCII stays outside it.
\<close>

definition lower_at :: "char \<Rightarrow> string \<Rightarrow> char \<times> nat" where
  "lower_at c cs =
     (if is_upper c then (char_of (byte_val c + 32), 0)
      else if byte_val c = 196 \<and> map byte_val (take 1 cs) = [176] then (CHR ''i'', 1)
      else if byte_val c = 226 \<and> map byte_val (take 2 cs) = [132, 170] then (CHR ''k'', 2)
      else (c, 0))"

fun ToLower :: "string \<Rightarrow> string" where
  "ToLower [] = []"
| "ToLower (c # cs) = (case lower_at c cs of (l, k) \<Rightarrow> l # ToLower (drop k cs))"

definition TrimSuffix :: "string \<Rightarrow> string \<Rightarrow> string" where
  "TrimSuffix s p = (if HasSuffix s p then take (length s - length p) s else s)"

text \<open>\<open>strings.Trim\<close> with a set of ASCII bytes.\<close>

definition Trim :: "string \<Rightarrow> char set \<Rightarrow> string" where
  "Trim s C = rev (dropWhile (\<lambda>c. c \<in> C) (rev (dropWhile (\<lambda>c. c \<in> C) s)))"

definition upper_letters :: "char set" where
  "upper_letters = set ''ABCDEFGHIJKLMNOPQRSTUVWXYZ''"

definition digits :: "char set" where
  "digits = set ''0123456789''"

definition SplitHostPort :: "string \<Rightarrow> (string \<times> string) option" where
  "SplitHostPort s =
     (if CHR '':'' \<notin> set s then None
      else let port = rev (takeWhile (\<lambda>c. c \<noteq> CHR '':'') (rev s));
               before = take (length s - length port - 1) s
           in if hd s = CHR ''[''
              then (let host = takeWhile (\<lambda>c. c \<noteq> CHR '']'') (tl s)
                    in if before = CHR ''['' # host @ '']'' \<and> CHR ''['' \<notin> set (tl s) \<and> CHR '']'' \<notin> set port then Some (host, port) else None)
              else if CHR '':'' \<in> set before \<or> CHR ''['' \<in> set s \<or> CHR '']'' \<in> set s then None
              else Some (before, port))"

definition JoinHostPort :: "string \<Rightarrow> string \<Rightarrow> string" where
  "JoinHostPort host port = (if CHR '':'' \<in> set host then ''['' @ host @ '']:'' @ port else host @ '':'' @ port)"

section \<open>Targets\<close>

definition errSemicolon :: string where
  "errSemicolon = ''the path has a ; (a path parameter), which is refused''"

definition errHostForm :: string where
  "errHostForm = ''not a host name or address''"

definition host_byte :: "char \<Rightarrow> bool" where
  "host_byte c \<longleftrightarrow> is_lower c \<or> is_digit c \<or> c = CHR ''-'' \<or> c = CHR ''_''"

fun check_labels :: "string list \<Rightarrow> string option" where
  "check_labels [] = None"
| "check_labels (l # ls) =
     (if l = [] \<or> length l > 63 then Some ''the host has an empty or over-long part''
      else if \<not> list_all host_byte l then Some ''the host has a character other than a-z, 0-9, - or _''
      else check_labels ls)"

definition CanonicalHost :: "string \<Rightarrow> string + string" where
  "CanonicalHost host =
     (let h = ToLower (TrimSuffix host ''.'')
      in if h = [] \<or> length h > 253 then Inl errHostForm
         else case ParseAddr h of
             Some a \<Rightarrow>
               if Zone a \<noteq> '''' then Inl ''an address with a zone is not reached''
               else if Is4In6 a then Inl ''write the address as IPv4, not as IPv6''
               else Inr (Addr_String a)
           | None \<Rightarrow>
               (let labels = Split CHR ''.'' h
                in case check_labels labels of
                     Some e \<Rightarrow> Inl e
                   | None \<Rightarrow>
                       if HasPrefix (last labels) ''0x'' \<or> Trim (last labels) digits = ''''
                       then Inl ''a host that ends in a number must be an IPv4 address written as four decimal numbers''
                       else Inr h))"

definition is_control :: "char \<Rightarrow> bool" where
  "is_control c \<longleftrightarrow> byte_val c < 32 \<or> byte_val c = 127"

fun check_segments :: "string list \<Rightarrow> string option" where
  "check_segments [] = None"
| "check_segments (seg # segs) =
     (if seg = '''' \<and> segs = [] then None
      else if seg = '''' \<or> Trim seg {CHR ''.'', CHR '' ''} = '''' then Some ''the path has an empty, . or .. segment''
      else check_segments segs)"

definition plainPath :: "string \<Rightarrow> string option" where
  "plainPath p =
     (if \<not> HasPrefix p ''/'' then Some ''the path must start with /''
      else if CHR '';'' \<in> set p then Some errSemicolon
      else if CHR 0x5C \<in> set p \<or> list_ex is_control p then Some ''the path has a backslash or control character''
      else if p = ''/'' then None
      else check_segments (Split CHR ''/'' (tl p)))"

definition parsePort :: "string \<Rightarrow> (string + int)" where
  "parsePort p = (case ParseInt p of
       None \<Rightarrow> Inl ''the port must be a number from 1 to 65535, written plainly''
     | Some n \<Rightarrow> if n < 1 \<or> n > 65535 \<or> Trim p digits \<noteq> '''' \<or> FormatInt n \<noteq> p
         then Inl ''the port must be a number from 1 to 65535, written plainly'' else Inr n)"

text \<open>A parsed URL, as \<open>url.Parse\<close> and the methods of \<open>url.URL\<close> give it.\<close>

record URL =
  Scheme :: string
  Opaque :: string
  HasUser :: bool
  Fragment :: string
  u_Host :: string
  Hostname :: string
  u_Port :: string
  u_Path :: string
  RawPath :: string
  EscapedPath :: string
  RawQuery :: string

record Target =
  t_Host :: string
  t_Port :: int
  t_Tunnel :: bool
  t_Method :: string
  t_Path :: string
  t_URLHost :: "string option"

record Request =
  rq_Host :: string
  rq_Port :: int
  rq_Tunnel :: bool
  rq_Method :: string
  rq_Path :: string

definition Target_Request :: "Target \<Rightarrow> Request" where
  "Target_Request t = \<lparr>rq_Host = t_Host t, rq_Port = t_Port t, rq_Tunnel = t_Tunnel t, rq_Method = t_Method t, rq_Path = t_Path t\<rparr>"

definition WithHost :: "string \<Rightarrow> Target \<Rightarrow> Target" where
  "WithHost host t = t\<lparr>t_Host := host,
     t_URLHost := map_option (\<lambda>u. if t_Port t = 80 then host else JoinHostPort host (FormatInt (t_Port t))) (t_URLHost t)\<rparr>"

definition Authority :: "Target \<Rightarrow> string" where
  "Authority t = JoinHostPort (t_Host t) (FormatInt (t_Port t))"

abbreviation maxTarget :: nat where
  "maxTarget \<equiv> 8192"

definition parseAuthority :: "string \<Rightarrow> string + Target" where
  "parseAuthority a = (case SplitHostPort a of
       None \<Rightarrow> Inl ''CONNECT needs host:port''
     | Some (host, port) \<Rightarrow> (case CanonicalHost host of
           Inl e \<Rightarrow> Inl e
         | Inr h \<Rightarrow> (case parsePort port of
               Inl e \<Rightarrow> Inl e
             | Inr n \<Rightarrow> Inr \<lparr>t_Host = h, t_Port = n, t_Tunnel = True, t_Method = ''CONNECT'', t_Path = '''', t_URLHost = None\<rparr>)))"

definition url_port :: "URL \<Rightarrow> string + int" where
  "url_port u = (if u_Port u \<noteq> '''' then parsePort (u_Port u)
     else if HasSuffix (u_Host u) '':'' then Inl ''the URL has an empty port'' else Inr 80)"

definition parseAbsolute :: "(string \<Rightarrow> URL option) \<Rightarrow> string \<Rightarrow> string \<Rightarrow> string + Target" where
  "parseAbsolute url_Parse method raw = (case url_Parse raw of
       None \<Rightarrow> Inl ''the request target is not a URL''
     | Some u \<Rightarrow>
         if ToLower (Scheme u) \<noteq> ''http''
         then Inl (if ToLower (Scheme u) = ''https'' then ''send https through CONNECT, not as an absolute https:// URL''
           else ''a forward proxy request needs an absolute http:// URL'')
         else if Opaque u \<noteq> '''' \<or> HasUser u \<or> Fragment u \<noteq> '''' \<or> u_Host u = ''''
         then Inl ''the URL must be http://host[:port]/path, without user info or fragment''
         else case CanonicalHost (Hostname u) of
             Inl e \<Rightarrow> Inl e
           | Inr h \<Rightarrow> (case url_port u of
                 Inl e \<Rightarrow> Inl e
               | Inr port \<Rightarrow>
                   (let low = ToLower (EscapedPath u);
                        path = (if u_Path u = '''' then ''/'' else u_Path u)
                    in if Contains low ''%2f'' \<or> Contains low ''%5c'' \<or> Contains low ''%2e'' \<or> Contains low ''%00''
                       then Inl ''the path has an encoded slash, backslash, dot or NUL''
                       else case plainPath path of
                           Some e \<Rightarrow> Inl e
                         | None \<Rightarrow> Inr \<lparr>t_Host = h, t_Port = port, t_Tunnel = False, t_Method = method, t_Path = path,
                             t_URLHost = Some (if port = 80 then (if CHR '':'' \<in> set h then ''['' @ h @ '']'' else h)
                               else JoinHostPort h (FormatInt port))\<rparr>)))"

definition ParseTarget :: "(string \<Rightarrow> URL option) \<Rightarrow> string \<Rightarrow> string \<Rightarrow> string + Target" where
  "ParseTarget url_Parse method target =
     (if method = '''' \<or> Trim method upper_letters \<noteq> '''' then Inl ''the method is not an upper-case method name''
      else if target = '''' \<or> length target > maxTarget then Inl ''the request target is empty or too long''
      else if list_ex (\<lambda>c. byte_val c \<le> 32 \<or> byte_val c \<ge> 127) target
      then Inl ''the request target has a space, control or non-ASCII character''
      else if method = ''CONNECT'' then parseAuthority target
      else parseAbsolute url_Parse method target)"

definition ParseRequestLine :: "(string \<Rightarrow> URL option) \<Rightarrow> string \<Rightarrow> string + Target" where
  "ParseRequestLine url_Parse line0 =
     (let line = TrimSuffix (TrimSuffix line0 [CHR 0x0A]) [CHR 0x0D]
      in case Cut line '' '' of
           None \<Rightarrow> Inl ''malformed request line''
         | Some (method, rest) \<Rightarrow> (case Cut rest '' '' of
               None \<Rightarrow> Inl ''malformed request line''
             | Some (target, proto) \<Rightarrow>
                 if proto \<noteq> ''HTTP/1.1'' \<and> proto \<noteq> ''HTTP/1.0'' then Inl ''unsupported protocol''
                 else ParseTarget url_Parse method target))"

section \<open>Rules\<close>

datatype Decision = Allow | Deny | WouldDeny

record Rule =
  Host :: string
  Ports :: "int list"
  Methods :: "string list"
  Paths :: "string list"
  Decision_text :: string
  AllowIPs :: "string list"

record EgressConfig =
  Rules :: "Rule list"
  Default :: string
  Mode :: string
  RecordPaths :: "bool option"
  IdleSeconds :: int
  InspectTLS :: bool

abbreviation DefaultIdle :: duration where
  "DefaultIdle \<equiv> 5 * Minute"

definition defaultPorts :: "int list" where
  "defaultPorts = [80, 443]"

text \<open>A compiled rule; the code's parallel lists of paths and of whether each is a prefix are one list of pairs.\<close>

record rule =
  r_name :: string
  r_host :: string
  wildcard :: bool
  ports :: "int list"
  methods :: "string list"
  paths :: "(string \<times> bool) list"
  allow :: bool
  allowIPs :: "Prefix list"

record Policy =
  rules :: "rule list"
  granted :: "rule list"
  defaultAllow :: bool
  p_audit :: bool
  hidePaths :: bool
  inspect :: bool
  idle :: duration

definition compile_host :: "string \<Rightarrow> string + string \<times> bool" where
  "compile_host host =
     (let h = TrimSuffix (ToLower (TrimSpace host)) ''.''
      in if HasPrefix h ''*.''
         then (let rest = drop 2 h
               in if \<not> Contains rest ''.'' then Inl ''host is too wide: a wildcard needs at least two labels after *.''
                  else if CanonicalHost rest \<noteq> Inr rest then Inl ''host is not a name or *.name''
                  else if ParseAddr rest \<noteq> None then Inl ''host puts a wildcard on an address''
                  else Inr (''.'' @ rest, True))
         else (case CanonicalHost (Trim h {CHR ''['', CHR '']''}) of Inl e \<Rightarrow> Inl e | Inr c \<Rightarrow> Inr (c, False)))"

definition compile_path :: "string \<Rightarrow> string + string \<times> bool" where
  "compile_path p =
     (if \<not> HasPrefix p ''/'' then Inl ''path must start with /''
      else let pre = HasSuffix p ''/*''; q = (if pre then take (length p - 2) p @ ''/'' else p)
           in if CHR ''*'' \<in> set q then Inl ''path: * is allowed only as a final /*''
              else case plainPath q of Some e \<Rightarrow> Inl e | None \<Rightarrow> Inr (q, pre))"

definition compile_ip :: "string \<Rightarrow> string + Prefix" where
  "compile_ip s = (case ParsePrefix s of
       Some pf \<Rightarrow> Inr (Masked pf)
     | None \<Rightarrow> (case ParseAddr s of
           None \<Rightarrow> Inl ''allow_ips entry is not an address or prefix''
         | Some a \<Rightarrow> if Zone a \<noteq> '''' then Inl ''allow_ips entry is not an address or prefix''
             else Inr (Masked \<lparr>pf_Addr = Unmap a, pf_Bits = BitLen (Unmap a)\<rparr>)))"

text \<open>The first error of a list, or every result.\<close>

fun each :: "('a \<Rightarrow> 'e + 'b) \<Rightarrow> 'a list \<Rightarrow> 'e + 'b list" where
  "each f [] = Inr []"
| "each f (x # xs) = (case f x of Inl e \<Rightarrow> Inl e | Inr y \<Rightarrow> (case each f xs of Inl e \<Rightarrow> Inl e | Inr ys \<Rightarrow> Inr (y # ys)))"

definition compileRule :: "Rule \<Rightarrow> string + rule" where
  "compileRule r =
     (if Decision_text r \<noteq> ''allow'' \<and> Decision_text r \<noteq> ''deny'' then Inl ''use allow or deny''
      else case compile_host (Host r) of
          Inl e \<Rightarrow> Inl e
        | Inr (h, wild) \<Rightarrow> (case each (\<lambda>p. if p < 1 \<or> p > 65535 then Inl ''port is not 1 to 65535'' else Inr p) (Ports r) of
              Inl e \<Rightarrow> Inl e
            | Inr ps \<Rightarrow> (case each (\<lambda>m. if m = '''' \<or> Trim m upper_letters \<noteq> '''' then Inl ''not an upper-case method name such as GET'' else Inr m) (Methods r) of
                  Inl e \<Rightarrow> Inl e
                | Inr ms \<Rightarrow> (case each compile_path (Paths r) of
                      Inl e \<Rightarrow> Inl e
                    | Inr qs \<Rightarrow> (case each compile_ip (AllowIPs r) of
                          Inl e \<Rightarrow> Inl e
                        | Inr ips \<Rightarrow> Inr \<lparr>r_name = '''', r_host = h, wildcard = wild, ports = (if ps = [] then defaultPorts else ps), methods = ms,
                            paths = qs, allow = (Decision_text r = ''allow''), allowIPs = ips\<rparr>)))))"

fun compile_rules :: "nat \<Rightarrow> Rule list \<Rightarrow> string + rule list" where
  "compile_rules i [] = Inr []"
| "compile_rules i (r # rs) = (case compileRule r of
       Inl e \<Rightarrow> Inl (''egress.rules['' @ nat_dec i @ '']: '' @ e)
     | Inr c \<Rightarrow> (case compile_rules (Suc i) rs of
           Inl e \<Rightarrow> Inl e
         | Inr cs \<Rightarrow> Inr (c\<lparr>r_name := ''rules['' @ nat_dec i @ ''] '' @ Host r\<rparr> # cs)))"

definition Compile :: "EgressConfig \<Rightarrow> string + Policy" where
  "Compile c =
     (if Default c \<notin> {'''', ''deny'', ''allow''} then Inl ''egress.default: use deny or allow''
      else if Mode c \<notin> {'''', ''enforce'', ''audit''} then Inl ''egress.mode: use enforce or audit''
      else if IdleSeconds c < 0 then Inl ''egress.idle_seconds: use a number of seconds, or leave it out''
      else case compile_rules 0 (Rules c) of
          Inl e \<Rightarrow> Inl e
        | Inr rs \<Rightarrow> Inr \<lparr>rules = rs, granted = [], defaultAllow = (Default c = ''allow''), p_audit = (Mode c = ''audit''),
            hidePaths = (RecordPaths c = Some False), inspect = InspectTLS c,
            idle = (if IdleSeconds c = 0 then DefaultIdle else wrap64 (IdleSeconds c * Second))\<rparr>)"

section \<open>Decisions\<close>

record Verdict =
  v_Decision :: Decision
  v_Rule :: string
  v_Reason :: string
  v_AllowIPs :: "Prefix list"
  Exact :: bool

definition Allowed :: "Verdict \<Rightarrow> bool" where
  "Allowed v \<longleftrightarrow> v_Decision v \<noteq> Deny"

definition all_rules :: "Policy \<Rightarrow> rule list" where
  "all_rules p = rules p @ granted p"

definition HostMatches :: "string \<Rightarrow> bool \<Rightarrow> string \<Rightarrow> bool" where
  "HostMatches ruleHost wild host \<longleftrightarrow>
     (if \<not> wild then host = ruleHost else length host > length ruleHost \<and> HasSuffix host ruleHost)"

definition narrowed :: "rule \<Rightarrow> bool" where
  "narrowed ru \<longleftrightarrow> methods ru \<noteq> [] \<or> paths ru \<noteq> []"

definition matches :: "rule \<Rightarrow> Request \<Rightarrow> bool" where
  "matches ru r \<longleftrightarrow> HostMatches (r_host ru) (wildcard ru) (rq_Host r) \<and> rq_Port r \<in> set (ports ru) \<and>
     (if rq_Tunnel r then \<not> narrowed ru \<or> \<not> allow ru
      else (methods ru = [] \<or> rq_Method r \<in> set (methods ru)) \<and>
        (paths ru = [] \<or> list_ex (\<lambda>(p, pre). rq_Path r = p \<or> (pre \<and> (HasPrefix (rq_Path r) p \<or> rq_Path r @ ''/'' = p))) (paths ru)))"

definition deny :: "Policy \<Rightarrow> string \<Rightarrow> string \<Rightarrow> Verdict" where
  "deny p name why = (if p_audit p
     then \<lparr>v_Decision = WouldDeny, v_Rule = name, v_Reason = why @ ''; let through in audit mode'', v_AllowIPs = [], Exact = False\<rparr>
     else \<lparr>v_Decision = Deny, v_Rule = name, v_Reason = why, v_AllowIPs = [], Exact = False\<rparr>)"

text \<open>The first name of a list of rules that is not empty, as a variable that is set while it is empty ends up.\<close>

definition first_name :: "rule list \<Rightarrow> string" where
  "first_name rs = (case filter (\<lambda>r. r_name r \<noteq> '''') rs of [] \<Rightarrow> '''' | r # _ \<Rightarrow> r_name r)"

text \<open>How both decisions end: on the deny rules and the allow rules that apply, whether one allows and by which name, and the default.\<close>

definition conclude :: "Policy \<Rightarrow> rule list \<Rightarrow> rule list \<Rightarrow> bool \<Rightarrow> string \<Rightarrow> string \<Rightarrow> Verdict" where
  "conclude p denied allowed hit name reason =
     (let ips = concat (map allowIPs allowed)
      in if first_name denied \<noteq> ''''
         then (let v = deny p (first_name denied) ''a deny rule matches'' in if v_Decision v = WouldDeny then v\<lparr>v_AllowIPs := ips\<rparr> else v)
         else if hit
         then \<lparr>v_Decision = Allow, v_Rule = name, v_Reason = reason, v_AllowIPs = ips, Exact = list_ex (\<lambda>ru. \<not> wildcard ru) allowed\<rparr>
         else if defaultAllow p
         then \<lparr>v_Decision = Allow, v_Rule = ''default'', v_Reason = ''no rule matches and the default is allow'', v_AllowIPs = [], Exact = False\<rparr>
         else deny p ''default'' ''no rule allows it'')"

definition Decide :: "Policy \<Rightarrow> Request \<Rightarrow> Verdict" where
  "Decide p r =
     (if \<not> rq_Tunnel r \<and> CHR '';'' \<in> set (rq_Path r)
      then \<lparr>v_Decision = Deny, v_Rule = ''path'', v_Reason = errSemicolon, v_AllowIPs = [], Exact = False\<rparr>
      else let ms = filter (\<lambda>ru. matches ru r) (all_rules p); allowed = filter allow ms
           in conclude p (filter (\<lambda>ru. \<not> allow ru) ms) allowed (allowed \<noteq> [])
                (case allowed of [] \<Rightarrow> '''' | ru # _ \<Rightarrow> r_name ru) ''an allow rule matches'')"

definition DecideHost :: "Policy \<Rightarrow> Request \<Rightarrow> Verdict" where
  "DecideHost p r =
     (let ms = filter (\<lambda>ru. HostMatches (r_host ru) (wildcard ru) (rq_Host r) \<and> rq_Port r \<in> set (ports ru)) (all_rules p);
          allowed = filter allow ms
      in conclude p (filter (\<lambda>ru. \<not> allow ru \<and> \<not> narrowed ru) ms) allowed (first_name allowed \<noteq> '''') (first_name allowed)
           ''an allow rule names the host; each request inside is decided'')"

definition DecideName :: "Policy \<Rightarrow> string \<Rightarrow> Verdict" where
  "DecideName p name = (case filter (\<lambda>ru. allow ru \<and> HostMatches (r_host ru) (wildcard ru) name) (all_rules p) of
       ru # _ \<Rightarrow> \<lparr>v_Decision = Allow, v_Rule = r_name ru, v_Reason = ''an allow rule names this host'', v_AllowIPs = [], Exact = False\<rparr>
     | [] \<Rightarrow> if defaultAllow p
         then \<lparr>v_Decision = Allow, v_Rule = ''default'', v_Reason = ''no rule names this host and the default is allow'', v_AllowIPs = [], Exact = False\<rparr>
         else deny p ''default'' ''no allow rule names this host'')"

definition PathDenies :: "Policy \<Rightarrow> string list" where
  "PathDenies p = map r_name (filter (\<lambda>ru. \<not> allow ru \<and> paths ru \<noteq> []) (all_rules p))"

fun grant_rules :: "string \<Rightarrow> string list \<Rightarrow> string + rule list" where
  "grant_rules name [] = Inr []"
| "grant_rules name (h # hs) =
     (case compileRule \<lparr>Host = h, Ports = [443], Methods = [], Paths = [], Decision_text = ''allow'', AllowIPs = []\<rparr> of
        Inl e \<Rightarrow> Inl e
      | Inr r \<Rightarrow> if wildcard r then Inl ''a granted host is exact''
          else (case grant_rules name hs of Inl e \<Rightarrow> Inl e | Inr rs \<Rightarrow> Inr (r\<lparr>r_name := name @ '' '' @ h\<rparr> # rs)))"

definition Grant :: "string \<Rightarrow> string list \<Rightarrow> Policy \<Rightarrow> string option \<times> Policy" where
  "Grant name hosts p = (case grant_rules name hosts of Inl e \<Rightarrow> (Some e, p) | Inr rs \<Rightarrow> (None, p\<lparr>granted := granted p @ rs\<rparr>))"

definition Granted :: "Policy \<Rightarrow> string \<Rightarrow> bool" where
  "Granted p host \<longleftrightarrow> list_ex (\<lambda>r. HostMatches (r_host r) False host) (granted p)"

definition Idle :: "Policy \<Rightarrow> duration" where
  "Idle p = (if idle p = 0 then DefaultIdle else idle p)"

fun add_host :: "rule \<Rightarrow> string list \<Rightarrow> string list" where
  "add_host ru out = (let h = (if wildcard ru then ''*'' @ r_host ru else r_host ru) in if h \<in> set out then out else out @ [h])"

definition AllowedHosts :: "Policy \<Rightarrow> string list" where
  "AllowedHosts p = fold add_host (filter allow (all_rules p)) []"

section \<open>Addresses\<close>

definition blockedPrefixes :: "Prefix list" where
  "blockedPrefixes = map (\<lambda>s. the (ParsePrefix s))
     [''0.0.0.0/8'', ''100.64.0.0/10'', ''192.0.0.0/24'', ''192.0.2.0/24'', ''198.18.0.0/15'', ''198.51.100.0/24'', ''203.0.113.0/24'',
      ''240.0.0.0/4'', ''64:ff9b::/96'', ''64:ff9b:1::/48'', ''100::/64'', ''2001::/32'', ''2001:db8::/32'', ''2002::/16'', ''fec0::/10'',
      ''169.254.169.254/32'', ''fd00:ec2::254/128'', ''::/96'', ''::ffff:0:0:0/96'', ''192.88.99.0/24'', ''2001:10::/28'', ''2001:20::/28'',
      ''3fff::/20'', ''5f00::/16'']"

text \<open>The reason an address is refused, the empty string for none. The zero value of \<open>netip.Addr\<close>, which is no address, is left out.\<close>

definition AddrRefusal :: "Addr \<Rightarrow> string" where
  "AddrRefusal a0 =
     (let a = Unmap a0
      in if IsLoopback a then ''a loopback address''
         else if IsPrivate a then ''a private address''
         else if IsLinkLocalUnicast a \<or> IsLinkLocalMulticast a then ''a link-local address''
         else if IsUnspecified a then ''an unspecified address''
         else if IsMulticast a \<or> IsInterfaceLocalMulticast a then ''a multicast address''
         else if \<not> IsGlobalUnicast a then ''not a public unicast address''
         else if list_ex (\<lambda>p. Prefix_Contains p a) blockedPrefixes then ''a reserved or internal address''
         else '''')"

end
