(* ===== verification/EgressLaws.thy ===== *)
theory EgressLaws
  imports Egress Labels
begin

text \<open>
  What the egress policy promises: which rules decide, that a tunnel is no way round the rules for what it carries, that a
  spelling of a path or of an address is no way round a rule or a refusal, and what a grant adds.
\<close>

section \<open>Policies in force\<close>

text \<open>The policies a process can come to hold: a compiled one, and what grants make of it.\<close>

inductive in_force :: "EgressConfig \<Rightarrow> Policy \<Rightarrow> bool" for c where
  compiled: "Compile c = Inr p \<Longrightarrow> in_force c p"
| granting: "in_force c p \<Longrightarrow> Grant name hosts p = (e, p') \<Longrightarrow> in_force c p'"

lemma compile_rules_names: "compile_rules i rs = Inr cs \<Longrightarrow> r \<in> set cs \<Longrightarrow> r_name r \<noteq> ''''"
  by (induction i rs arbitrary: cs rule: compile_rules.induct) (fastforce split: sum.splits)+

lemma grant_rules_Inr:
  "grant_rules name hs = Inr rs \<Longrightarrow> r \<in> set rs \<Longrightarrow> \<exists>h \<in> set hs. \<exists>r0.
     compileRule \<lparr>Host = h, Ports = [443], Methods = [], Paths = [], Decision_text = ''allow'', AllowIPs = []\<rparr> = Inr r0 \<and>
     \<not> wildcard r0 \<and> r = r0\<lparr>r_name := name @ '' '' @ h\<rparr>"
  by (induction hs arbitrary: rs) (fastforce split: sum.splits if_splits)+

lemma in_force_named: "in_force c p \<Longrightarrow> r \<in> set (all_rules p) \<Longrightarrow> r_name r \<noteq> ''''"
proof (induction rule: in_force.induct)
  case (compiled p)
  then show ?case
    using compile_rules_names by (auto simp: Compile_def all_rules_def split: if_splits sum.splits)
next
  case (granting p name hosts e p')
  show ?case
  proof (cases "grant_rules name hosts")
    case (Inl err)
    with granting show ?thesis by (simp add: Grant_def)
  next
    case (Inr rs)
    with granting have "r \<in> set (all_rules p) \<or> r \<in> set rs"
      by (auto simp: Grant_def all_rules_def)
    with granting.IH grant_rules_Inr [OF Inr] show ?thesis by fastforce
  qed
qed

section \<open>Which rules decide\<close>

lemma first_name_empty:
  assumes "\<And>r. r \<in> set rs \<Longrightarrow> r_name r \<noteq> ''''"
  shows "first_name rs = '''' \<longleftrightarrow> rs = []"
  using assms by (cases rs) (auto simp: first_name_def)

lemma conclude_Decision:
  "v_Decision (conclude p denied allowed hit name reason) =
     (if first_name denied \<noteq> '''' then if p_audit p then WouldDeny else Deny
      else if hit \<or> defaultAllow p then Allow else if p_audit p then WouldDeny else Deny)"
  by (simp add: conclude_def deny_def Let_def)

definition some_rule :: "Policy \<Rightarrow> (rule \<Rightarrow> bool) \<Rightarrow> bool" where
  "some_rule p P \<longleftrightarrow> (\<exists>ru \<in> set (all_rules p). P ru)"

definition at_host :: "rule \<Rightarrow> Request \<Rightarrow> bool" where
  "at_host ru r \<longleftrightarrow> HostMatches (r_host ru) (wildcard ru) (rq_Host r) \<and> rq_Port r \<in> set (ports ru)"

lemma named_rules:
  assumes "in_force c p"
  shows "first_name (filter Q (filter P (all_rules p))) \<noteq> '''' \<longleftrightarrow> some_rule p (\<lambda>ru. P ru \<and> Q ru)"
proof -
  have "first_name (filter Q (filter P (all_rules p))) = '''' \<longleftrightarrow> filter Q (filter P (all_rules p)) = []"
    using in_force_named [OF assms] by (intro first_name_empty) auto
  then show ?thesis
    by (auto simp: some_rule_def filter_empty_conv)
qed

lemma Decide_Decision:
  assumes "in_force c p"
  shows "v_Decision (Decide p r) =
    (if \<not> rq_Tunnel r \<and> CHR '';'' \<in> set (rq_Path r) then Deny
     else if some_rule p (\<lambda>ru. \<not> allow ru \<and> matches ru r) then if p_audit p then WouldDeny else Deny
     else if some_rule p (\<lambda>ru. allow ru \<and> matches ru r) \<or> defaultAllow p then Allow
     else if p_audit p then WouldDeny else Deny)"
proof -
  let ?ms = "filter (\<lambda>ru. matches ru r) (all_rules p)"
  have "first_name (filter (\<lambda>ru. \<not> allow ru) ?ms) \<noteq> '''' \<longleftrightarrow> some_rule p (\<lambda>ru. \<not> allow ru \<and> matches ru r)"
    using named_rules [OF assms] by (simp add: conj_commute)
  moreover have "filter allow ?ms \<noteq> [] \<longleftrightarrow> some_rule p (\<lambda>ru. allow ru \<and> matches ru r)"
    by (auto simp: some_rule_def filter_empty_conv)
  ultimately show ?thesis
    by (simp only: Decide_def Let_def conclude_Decision if_distrib [where f = v_Decision] Verdict.simps)
qed

lemma DecideHost_Decision:
  assumes "in_force c p"
  shows "v_Decision (DecideHost p r) =
    (if some_rule p (\<lambda>ru. \<not> allow ru \<and> \<not> narrowed ru \<and> at_host ru r) then if p_audit p then WouldDeny else Deny
     else if some_rule p (\<lambda>ru. allow ru \<and> at_host ru r) \<or> defaultAllow p then Allow
     else if p_audit p then WouldDeny else Deny)"
proof -
  let ?ms = "filter (\<lambda>ru. HostMatches (r_host ru) (wildcard ru) (rq_Host r) \<and> rq_Port r \<in> set (ports ru)) (all_rules p)"
  have "first_name (filter (\<lambda>ru. \<not> allow ru \<and> \<not> narrowed ru) ?ms) \<noteq> '''' \<longleftrightarrow> some_rule p (\<lambda>ru. \<not> allow ru \<and> \<not> narrowed ru \<and> at_host ru r)"
    "first_name (filter allow ?ms) \<noteq> '''' \<longleftrightarrow> some_rule p (\<lambda>ru. allow ru \<and> at_host ru r)"
    using named_rules [OF assms] by (simp_all add: at_host_def conj_ac)
  then show ?thesis
    by (simp only: DecideHost_def Let_def conclude_Decision)
qed

lemma matches_tunnel: "rq_Tunnel r \<Longrightarrow> matches ru r \<longleftrightarrow> at_host ru r \<and> (narrowed ru \<longrightarrow> \<not> allow ru)"
  by (auto simp: matches_def at_host_def)

lemma matches_at_host: "matches ru r \<Longrightarrow> at_host ru r"
  by (simp add: matches_def at_host_def)

lemma matches_wide: "\<not> narrowed ru \<Longrightarrow> \<not> rq_Tunnel r \<Longrightarrow> matches ru r \<longleftrightarrow> at_host ru r"
  by (auto simp: matches_def at_host_def narrowed_def)

lemma at_host_cong: "rq_Host r = rq_Host q \<Longrightarrow> rq_Port r = rq_Port q \<Longrightarrow> at_host ru r = at_host ru q"
  by (simp add: at_host_def)

text \<open>
  C38: a tunnel is no way round the rules. Its method and path cannot be seen, so the policy lets an opaque tunnel to a host and
  port open only if it would let through every plain request to them, whatever its method and path (one with a semicolon is
  never let through). And a tunnel the proxy would look inside is refused only if it would refuse every request inside:
  looking inside never loses what the rules allow. This holds of every policy that is compiled, whatever is granted later.
\<close>

theorem tunnel_no_way_round:
  assumes "in_force c p" "rq_Tunnel t" "\<not> rq_Tunnel r" "rq_Host r = rq_Host t" "rq_Port r = rq_Port t"
  shows "(v_Decision (Decide p t) = Allow \<longrightarrow> CHR '';'' \<notin> set (rq_Path r) \<longrightarrow> v_Decision (Decide p r) = Allow) \<and>
    (v_Decision (DecideHost p t) = Deny \<longrightarrow> v_Decision (Decide p r) = Deny)"
proof -
  have same: "at_host ru r = at_host ru t" for ru
    by (rule at_host_cong [OF assms(4,5)])
  have allow: "v_Decision (Decide p r) = Allow" if "v_Decision (Decide p t) = Allow" "CHR '';'' \<notin> set (rq_Path r)"
  proof -
    from that(1) have d: "\<not> some_rule p (\<lambda>ru. \<not> allow ru \<and> matches ru t)" "some_rule p (\<lambda>ru. allow ru \<and> matches ru t) \<or> defaultAllow p"
      using assms(2) by (simp_all add: Decide_Decision [OF assms(1)] split: if_splits)
    have "\<not> some_rule p (\<lambda>ru. \<not> allow ru \<and> matches ru r)"
      using d(1) assms(2) same matches_at_host by (auto simp: some_rule_def matches_tunnel)
    moreover have "some_rule p (\<lambda>ru. allow ru \<and> matches ru r) \<or> defaultAllow p"
      using d(2) assms(2,3) same by (auto simp: some_rule_def matches_tunnel matches_wide)
    ultimately show ?thesis
      using that(2) by (auto simp: Decide_Decision [OF assms(1)])
  qed
  have "v_Decision (Decide p r) = Deny" if "v_Decision (DecideHost p t) = Deny"
  proof -
    from that have d: "\<not> p_audit p" "some_rule p (\<lambda>ru. \<not> allow ru \<and> \<not> narrowed ru \<and> at_host ru t) \<or>
        \<not> some_rule p (\<lambda>ru. allow ru \<and> at_host ru t) \<and> \<not> defaultAllow p"
      by (auto simp: DecideHost_Decision [OF assms(1)] split: if_splits)
    then have "some_rule p (\<lambda>ru. \<not> allow ru \<and> matches ru r) \<or> \<not> some_rule p (\<lambda>ru. allow ru \<and> matches ru r) \<and> \<not> defaultAllow p"
      using assms(3) same matches_at_host by (auto simp: some_rule_def matches_wide)
    with d(1) show ?thesis
      by (auto simp: Decide_Decision [OF assms(1)])
  qed
  with allow show ?thesis by blast
qed

section \<open>Grants\<close>

lemma granted_rule:
  assumes "compileRule \<lparr>Host = h, Ports = [443], Methods = [], Paths = [], Decision_text = ''allow'', AllowIPs = []\<rparr> = Inr r0"
  shows "allow r0 \<and> ports r0 = [443] \<and> \<not> narrowed r0 \<and> compile_host h = Inr (r_host r0, wildcard r0)"
  using assms by (auto simp: compileRule_def narrowed_def split: sum.splits if_splits)

lemma grant_rules_rule:
  assumes "grant_rules name hs = Inr rs" "ru \<in> set rs"
  shows "allow ru \<and> ports ru = [443] \<and> \<not> narrowed ru \<and> \<not> wildcard ru \<and> (\<exists>h \<in> set hs. compile_host h = Inr (r_host ru, False))"
proof -
  from grant_rules_Inr [OF assms] obtain h r0 where h: "h \<in> set hs" "\<not> wildcard r0" "ru = r0\<lparr>r_name := name @ '' '' @ h\<rparr>"
    "compileRule \<lparr>Host = h, Ports = [443], Methods = [], Paths = [], Decision_text = ''allow'', AllowIPs = []\<rparr> = Inr r0" by blast
  from granted_rule [OF h(4)] h(1-3) show ?thesis
    by (auto simp: narrowed_def)
qed

definition sample_config :: EgressConfig where
  "sample_config = \<lparr>Rules = [\<lparr>Host = ''API.example.com'', Ports = [], Methods = [], Paths = [], Decision_text = ''allow'', AllowIPs = []\<rparr>],
     Default = '''', Mode = '''', RecordPaths = None, IdleSeconds = 0, InspectTLS = False\<rparr>"

definition sample_policy :: Policy where
  "sample_policy = (case Compile sample_config of Inr p \<Rightarrow> p)"

lemma sample_in_force: "in_force sample_config sample_policy"
proof -
  have "\<not> isl (Compile sample_config)" by code_simp
  then have "Compile sample_config = Inr sample_policy"
    by (cases "Compile sample_config") (simp_all add: sample_policy_def)
  then show ?thesis by (rule compiled)
qed

definition sample_request :: "bool \<Rightarrow> string \<Rightarrow> string \<Rightarrow> string \<Rightarrow> Request" where
  "sample_request tun host m p = \<lparr>rq_Host = host, rq_Port = 443, rq_Tunnel = tun, rq_Method = m, rq_Path = p\<rparr>"

theorem tunnel_no_way_round_witness:
  "v_Decision (Decide sample_policy (sample_request False ''api.example.com'' ''GET'' ''/v1'')) = Allow"
proof -
  have "v_Decision (Decide sample_policy (sample_request True ''api.example.com'' ''CONNECT'' '''')) = Allow"
    "CHR '';'' \<notin> set (rq_Path (sample_request False ''api.example.com'' ''GET'' ''/v1''))" by code_simp+
  with tunnel_no_way_round [OF sample_in_force, of "sample_request True ''api.example.com'' ''CONNECT'' ''''"
      "sample_request False ''api.example.com'' ''GET'' ''/v1''"]
  show ?thesis by (simp add: sample_request_def)
qed

text \<open>
  What a grant adds. Granting hosts while sessions run never closes anything that was open, and opens only port 443 of the
  exact hosts named, each in its one canonical spelling; a deny rule still wins over it, and a grant that fails changes nothing.
\<close>

theorem grant_adds_only:
  assumes "in_force c p" "Grant name hosts p = (err, p')"
  shows "(Allowed (Decide p r) \<longrightarrow> Allowed (Decide p' r)) \<and>
    (Allowed (Decide p' r) \<and> \<not> Allowed (Decide p r) \<longrightarrow>
       err = None \<and> rq_Port r = 443 \<and> (\<exists>h \<in> set hosts. compile_host h = Inr (rq_Host r, False)) \<and>
       (\<forall>ru \<in> set (all_rules p'). matches ru r \<longrightarrow> allow ru))"
proof (cases "grant_rules name hosts")
  case (Inl e)
  with assms(2) show ?thesis by (auto simp: Grant_def)
next
  case (Inr rs)
  with assms(2) have p': "err = None" "p' = p\<lparr>granted := granted p @ rs\<rparr>" "set (all_rules p') = set (all_rules p) \<union> set rs"
    by (auto simp: Grant_def all_rules_def)
  have same: "p_audit p' = p_audit p" "defaultAllow p' = defaultAllow p"
    by (simp_all add: p'(2))
  have rs: "allow ru \<and> (matches ru r \<longrightarrow> rq_Port r = 443 \<and> (\<exists>h \<in> set hosts. compile_host h = Inr (rq_Host r, False)))" if "ru \<in> set rs" for ru
    using grant_rules_rule [OF Inr that] by (auto simp: matches_def HostMatches_def)
  have den: "some_rule p' (\<lambda>ru. \<not> allow ru \<and> matches ru r) \<longleftrightarrow> some_rule p (\<lambda>ru. \<not> allow ru \<and> matches ru r)"
    using rs by (auto simp: some_rule_def p'(3))
  have add: "some_rule p' (\<lambda>ru. allow ru \<and> matches ru r) \<longleftrightarrow> some_rule p (\<lambda>ru. allow ru \<and> matches ru r) \<or> (\<exists>ru \<in> set rs. matches ru r)"
    using rs by (auto simp: some_rule_def p'(3))
  have dec: "v_Decision (Decide p r) = Deny \<longleftrightarrow> \<not> rq_Tunnel r \<and> CHR '';'' \<in> set (rq_Path r) \<or> \<not> p_audit p \<and>
      (some_rule p (\<lambda>ru. \<not> allow ru \<and> matches ru r) \<or> \<not> some_rule p (\<lambda>ru. allow ru \<and> matches ru r) \<and> \<not> defaultAllow p)"
    "v_Decision (Decide p' r) = Deny \<longleftrightarrow> \<not> rq_Tunnel r \<and> CHR '';'' \<in> set (rq_Path r) \<or> \<not> p_audit p \<and>
      (some_rule p (\<lambda>ru. \<not> allow ru \<and> matches ru r) \<or> \<not> (some_rule p (\<lambda>ru. allow ru \<and> matches ru r) \<or> (\<exists>ru \<in> set rs. matches ru r)) \<and> \<not> defaultAllow p)"
    using Decide_Decision [OF assms(1)] Decide_Decision [OF granting [OF assms]] by (simp_all add: den add same)
  show ?thesis
  proof (intro conjI impI)
    show "Allowed (Decide p' r)" if "Allowed (Decide p r)"
      using that dec by (auto simp: Allowed_def)
    assume "Allowed (Decide p' r) \<and> \<not> Allowed (Decide p r)"
    with dec have "\<not> some_rule p' (\<lambda>ru. \<not> allow ru \<and> matches ru r)" "\<exists>ru \<in> set rs. matches ru r"
      by (auto simp: Allowed_def den)
    with rs p'(1) show "err = None" "rq_Port r = 443" "\<exists>h \<in> set hosts. compile_host h = Inr (rq_Host r, False)"
      "\<forall>ru \<in> set (all_rules p'). matches ru r \<longrightarrow> allow ru"
      by (auto simp: some_rule_def)
  qed
qed

theorem grant_adds_only_witness:
  "Allowed (Decide (snd (Grant ''tool'' [''docs.example.org''] sample_policy)) (sample_request False ''docs.example.org'' ''GET'' ''/'')) \<and>
   fst (Grant ''tool'' [''docs.example.org''] sample_policy) = None"
proof -
  let ?r = "sample_request False ''docs.example.org'' ''GET'' ''/''" and ?g = "Grant ''tool'' [''docs.example.org''] sample_policy"
  have "Allowed (Decide (snd ?g) ?r)" "\<not> Allowed (Decide sample_policy ?r)" by code_simp+
  with grant_adds_only [OF sample_in_force, of "''tool''" "[''docs.example.org'']" "fst ?g" "snd ?g" ?r]
  show ?thesis by simp
qed

section \<open>Paths\<close>

text \<open>How a server resolves a path: empty and dot segments vanish, a double dot takes the segment before it away.\<close>

fun resolve :: "string list \<Rightarrow> string list \<Rightarrow> string list" where
  "resolve kept [] = rev kept"
| "resolve kept (seg # segs) =
     (if seg = ''..'' then resolve (tl kept) (if segs = [] then [''''] else segs)
      else if seg = ''.'' then resolve kept (if segs = [] then [''''] else segs)
      else if seg = '''' then if segs = [] then rev ('''' # kept) else resolve kept segs
      else resolve (seg # kept) segs)"

definition resolved :: "string \<Rightarrow> string" where
  "resolved p = CHR ''/'' # Join (resolve [] (Split CHR ''/'' (tl p))) ''/''"

lemma check_segments_resolve: "check_segments segs = None \<Longrightarrow> resolve kept segs = rev kept @ segs"
proof (induction segs arbitrary: kept)
  case (Cons seg segs)
  show ?case
  proof (cases "seg = ''''")
    case True
    with Cons.prems show ?thesis by (auto split: if_splits)
  next
    case False
    with Cons.prems have "Trim seg {CHR ''.'', CHR '' ''} \<noteq> ''''" "check_segments segs = None"
      by (auto split: if_splits)
    moreover from this have "seg \<noteq> ''.''" "seg \<noteq> ''..''"
      by (auto simp: Trim_def)
    ultimately show ?thesis
      using Cons.IH False by simp
  qed
qed simp

text \<open>
  A path is judged as it is served. A path the proxy takes is one no server would rewrite: it has no semicolon, backslash or control
  character, and resolving its empty, dot and double-dot segments gives the same path again. So a path rule cannot be dodged by
  a detour such as \<^verbatim>\<open>/public/../admin\<close>; and the same holds of every path a compiled rule names.
\<close>

theorem plain_path_resolved:
  "plainPath p = None \<longrightarrow> resolved p = p \<and> CHR '';'' \<notin> set p \<and> CHR 0x5C \<notin> set p \<and> \<not> list_ex is_control p"
proof
  assume plain: "plainPath p = None"
  then obtain s where s: "p = CHR ''/'' # s"
    by (cases p) (auto simp: plainPath_def HasPrefix_def split: if_splits)
  have "check_segments (Split CHR ''/'' s) = None"
    using plain by (cases s) (auto simp: plainPath_def s split: if_splits)
  then have "resolved p = p"
    using Join_Split [of "CHR ''/''" s] check_segments_resolve [of "Split CHR ''/'' s" "[]"] by (simp add: resolved_def s)
  with plain show "resolved p = p \<and> CHR '';'' \<notin> set p \<and> CHR 0x5C \<notin> set p \<and> \<not> list_ex is_control p"
    by (auto simp: plainPath_def split: if_splits)
qed

theorem plain_path_resolved_witness: "resolved ''/a/b c/'' = ''/a/b c/''"
proof -
  have "plainPath ''/a/b c/'' = None" by code_simp
  with plain_path_resolved [of "''/a/b c/''"] show ?thesis by blast
qed

section \<open>Addresses\<close>

lemma div_block: "0 < (d :: int) \<Longrightarrow> u div d = c \<longleftrightarrow> c * d \<le> u \<and> u < c * d + d"
  using minus_mod_eq_div_mult [of u d] pos_mod_bound [of d u] pos_mod_sign [of d u] int_div_pos_eq [of u d c "u - c * d"]
  by (smt (verit) mult.commute)

lemma uint_drop: "uint (drop_bit k (w :: 'a::len word)) = uint w div 2 ^ k"
  by (subst unsigned_drop_bit_eq) (simp add: drop_bit_eq_div take_bit_eq_mod)

lemma xor_zero: "(v :: 'a::len word) XOR w = 0 \<longleftrightarrow> w = v"
proof
  assume "v XOR w = 0"
  then have "v XOR (v XOR w) = v" by simp
  then show "w = v" by (simp flip: xor.assoc)
qed simp

text \<open>A block of addresses: its first one, and how many of the last bits vary.\<close>

definition in_block :: "int \<times> nat \<Rightarrow> int \<Rightarrow> bool" where
  "in_block b n \<longleftrightarrow> fst b \<le> n \<and> n < fst b + 2 ^ snd b"

definition ip4 :: "int \<Rightarrow> int \<Rightarrow> int \<Rightarrow> int \<Rightarrow> int" where
  "ip4 a b c d = ((a * 256 + b) * 256 + c) * 256 + d"

text \<open>
  The IPv4 blocks no rule-less connection reaches: this network, private, carrier-grade, loopback, link-local, assignments,
  documentation, relay anycast, benchmarking, multicast and reserved.
\<close>

definition internal4 :: "(int \<times> nat) list" where
  "internal4 = [(ip4 0 0 0 0, 24), (ip4 10 0 0 0, 24), (ip4 100 64 0 0, 22), (ip4 127 0 0 0, 24), (ip4 169 254 0 0, 16), (ip4 172 16 0 0, 20),
     (ip4 192 0 0 0, 8), (ip4 192 0 2 0, 8), (ip4 192 88 99 0, 8), (ip4 192 168 0 0, 16), (ip4 198 18 0 0, 17), (ip4 198 51 100 0, 8),
     (ip4 203 0 113 0, 8), (ip4 224 0 0 0, 28), (ip4 240 0 0 0, 28)]"

lemma blocked_values: "blockedPrefixes =
   [\<lparr>pf_Addr = IP4 0, pf_Bits = 8\<rparr>, \<lparr>pf_Addr = IP4 1681915904, pf_Bits = 10\<rparr>,
    \<lparr>pf_Addr = IP4 3221225472, pf_Bits = 24\<rparr>, \<lparr>pf_Addr = IP4 3221225984, pf_Bits = 24\<rparr>,
    \<lparr>pf_Addr = IP4 3323068416, pf_Bits = 15\<rparr>, \<lparr>pf_Addr = IP4 3325256704, pf_Bits = 24\<rparr>,
    \<lparr>pf_Addr = IP4 3405803776, pf_Bits = 24\<rparr>, \<lparr>pf_Addr = IP4 4026531840, pf_Bits = 4\<rparr>,
    \<lparr>pf_Addr = IP6 524413980667603649783483181312245760 '''', pf_Bits = 96\<rparr>, \<lparr>pf_Addr = IP6 524413980668812575603097810486951936 '''', pf_Bits = 48\<rparr>,
    \<lparr>pf_Addr = IP6 1329227995784915872903807060280344576 '''', pf_Bits = 64\<rparr>, \<lparr>pf_Addr = IP6 42540488161975842760550356425300246528 '''', pf_Bits = 32\<rparr>,
    \<lparr>pf_Addr = IP6 42540766411282592856903984951653826560 '''', pf_Bits = 32\<rparr>, \<lparr>pf_Addr = IP6 42545680458834377588178886921629466624 '''', pf_Bits = 16\<rparr>,
    \<lparr>pf_Addr = IP6 338620831926207318622244848606417780736 '''', pf_Bits = 10\<rparr>, \<lparr>pf_Addr = IP4 2852039166, pf_Bits = 32\<rparr>,
    \<lparr>pf_Addr = IP6 336294982257581694735330614659971547732 '''', pf_Bits = 128\<rparr>, \<lparr>pf_Addr = IP6 0 '''', pf_Bits = 96\<rparr>,
    \<lparr>pf_Addr = IP6 18446462598732840960 '''', pf_Bits = 96\<rparr>, \<lparr>pf_Addr = IP4 3227017984, pf_Bits = 24\<rparr>,
    \<lparr>pf_Addr = IP6 42540489429626442988779757922003451904 '''', pf_Bits = 28\<rparr>, \<lparr>pf_Addr = IP6 42540490697277043217009159418706657280 '''', pf_Bits = 28\<rparr>,
    \<lparr>pf_Addr = IP6 85065399433376081038215121361612832768 '''', pf_Bits = 20\<rparr>, \<lparr>pf_Addr = IP6 126276659599567007925861670726632734720 '''', pf_Bits = 16\<rparr>]"
  by code_simp

lemma contains_block4: "Prefix_Contains \<lparr>pf_Addr = IP4 v, pf_Bits = b\<rparr> (IP4 w) \<longleftrightarrow> uint w div 2 ^ (32 - b) = uint v div 2 ^ (32 - b)"
  by (simp add: Prefix_Contains_def drop_bit_xor xor_zero) (auto simp: word_uint_eq_iff uint_drop)

lemma contains_block6: "Prefix_Contains \<lparr>pf_Addr = IP6 v '''', pf_Bits = b\<rparr> (IP6 w z) \<longleftrightarrow>
    z = '''' \<and> uint w div 2 ^ (128 - b) = uint v div 2 ^ (128 - b)"
  by (simp add: Prefix_Contains_def drop_bit_xor xor_zero) (auto simp: word_uint_eq_iff uint_drop)

lemma contains_other: "\<not> Prefix_Contains \<lparr>pf_Addr = IP4 v, pf_Bits = b\<rparr> (IP6 w z)" "\<not> Prefix_Contains \<lparr>pf_Addr = IP6 u y, pf_Bits = b\<rparr> (IP4 x)"
  by (simp_all add: Prefix_Contains_def)

lemma AddrRefusal_None: "AddrRefusal a = '''' \<longleftrightarrow> \<not> (IsLoopback (Unmap a) \<or> IsPrivate (Unmap a) \<or> IsLinkLocalUnicast (Unmap a) \<or>
    IsLinkLocalMulticast (Unmap a) \<or> IsUnspecified (Unmap a) \<or> IsMulticast (Unmap a) \<or> IsInterfaceLocalMulticast (Unmap a) \<or>
    \<not> IsGlobalUnicast (Unmap a) \<or> list_ex (\<lambda>p. Prefix_Contains p (Unmap a)) blockedPrefixes)"
  by (simp add: AddrRefusal_def Let_def)

lemma internal4_list: "(\<exists>b \<in> set internal4. in_block b n) \<longleftrightarrow>
    0 \<le> n \<and> n < 2 ^ 24 \<or> n div 2 ^ 24 = 10 \<or> n div 2 ^ 22 = 401 \<or> n div 2 ^ 24 = 127 \<or> n div 2 ^ 16 = 0xa9fe \<or> n div 2 ^ 20 = 0xac1 \<or>
    n div 2 ^ 8 = 0xc00000 \<or> n div 2 ^ 8 = 0xc00002 \<or> n div 2 ^ 8 = 0xc05863 \<or> n div 2 ^ 16 = 0xc0a8 \<or> n div 2 ^ 17 = 0x6309 \<or>
    n div 2 ^ 8 = 0xc63364 \<or> n div 2 ^ 8 = 0xcb0071 \<or> n div 2 ^ 28 = 0xe \<or> n div 2 ^ 28 = 0xf"
  by (simp add: internal4_def in_block_def ip4_def div_block)

lemma refused4: "AddrRefusal (IP4 w) = '''' \<longleftrightarrow> \<not> (\<exists>b \<in> set internal4. in_block b (uint w))"
proof -
  have r: "0 \<le> uint w" "uint w < 2 ^ 32"
    using uint_lt2p [of w] by simp_all
  show ?thesis
    unfolding AddrRefusal_None internal4_list blocked_values
    using r by (simp add: Unmap_def IsLoopback_def IsPrivate_def IsLinkLocalUnicast_def IsLinkLocalMulticast_def IsUnspecified_def IsMulticast_def
        IsInterfaceLocalMulticast_def IsGlobalUnicast_def contains_block4 contains_other word_uint_eq_iff uint_drop div_block) presburger
qed

lemma refused_mapped: "drop_bit 32 w = (0xffff :: 128 word) \<Longrightarrow> AddrRefusal (IP6 w z) = AddrRefusal (IP4 (ucast w))"
  by (simp add: AddrRefusal_def Unmap_def)

lemma and_not_low: "(y :: 'a::len word) AND NOT (mask j) = push_bit j (drop_bit j y)"
  by (rule bit_eqI) (auto simp: bit_simps)

lemma uint_high:
  fixes w :: "128 word"
  assumes "j \<le> n" "n \<le> 128"
  shows "uint (drop_bit (128 - n) w AND (mask n AND NOT (mask j))) = uint w div 2 ^ (128 - n + j) * 2 ^ j"
proof -
  let ?y = "drop_bit (128 - n) w"
  have y: "0 \<le> uint ?y" "uint ?y < 2 ^ n"
  proof -
    have "uint w < 2 ^ n * 2 ^ (128 - n)"
      using uint_lt2p [of w] assms(2) by (simp flip: power_add)
    moreover have "uint w div 2 ^ (128 - n) * 2 ^ (128 - n) \<le> uint w"
      by (simp flip: minus_mod_eq_div_mult)
    ultimately have "uint w div 2 ^ (128 - n) * 2 ^ (128 - n) < 2 ^ n * 2 ^ (128 - n)"
      by (rule le_less_trans [rotated])
    then show "uint ?y < 2 ^ n"
      unfolding uint_drop by (rule mult_right_less_imp_less) simp
  qed simp
  have "?y AND mask n = ?y"
    using y by (simp add: and_mask_mod_2p)
  then have "?y AND (mask n AND NOT (mask j)) = ?y AND NOT (mask j)"
    by (simp only: and.assoc [symmetric])
  also have "\<dots> = push_bit j (drop_bit j ?y)"
    by (rule and_not_low)
  also have "uint \<dots> = uint w div 2 ^ (128 - n + j) * 2 ^ j"
  proof -
    have z: "uint (drop_bit j ?y) = uint w div 2 ^ (128 - n + j)"
      by (simp only: uint_drop power_add) (simp only: zdiv_zmult2_eq zero_le_power zero_le_numeral)
    have "uint (drop_bit j ?y) * 2 ^ j \<le> uint ?y"
      unfolding uint_drop [of j ?y] minus_mod_eq_div_mult [symmetric] by simp
    then have "uint (drop_bit j ?y) * 2 ^ j < 2 ^ 128"
      using uint_lt2p [of ?y] by simp
    then show ?thesis
      unfolding unsigned_push_bit_eq unfolding push_bit_eq_mult take_bit_eq_mod z
      by (subst mod_pos_pos_trivial) (simp_all add: pos_imp_zdiv_nonneg_iff)
  qed
  finally show ?thesis .
qed

lemma IPv6_masks:
  fixes w :: "128 word"
  shows "drop_bit 120 w AND 0xfe = 0xfc \<longleftrightarrow> uint w div 2 ^ 121 = 0x7e" "drop_bit 112 w AND 0xffc0 = 0xfe80 \<longleftrightarrow> uint w div 2 ^ 118 = 0x3fa"
proof -
  have "(0xfe :: 128 word) = mask 8 AND NOT (mask 1)" "(0xffc0 :: 128 word) = mask 16 AND NOT (mask 6)"
    by (simp_all add: mask_eq_exp_minus_1)
  then have "uint (drop_bit 120 w AND 0xfe) = uint w div 2 ^ 121 * 2" "uint (drop_bit 112 w AND 0xffc0) = uint w div 2 ^ 118 * 64"
    using uint_high [of 1 8 w] uint_high [of 6 16 w] by simp_all
  then show "drop_bit 120 w AND 0xfe = 0xfc \<longleftrightarrow> uint w div 2 ^ 121 = 0x7e" "drop_bit 112 w AND 0xffc0 = 0xfe80 \<longleftrightarrow> uint w div 2 ^ 118 = 0x3fa"
    by (simp_all add: word_uint_eq_iff)
qed

lemma IPv6_multicast:
  fixes w :: "128 word"
  assumes "drop_bit 112 w AND 0xff0f = c" "drop_bit 8 c = 0xff"
  shows "uint w div 2 ^ 120 = 0xff"
proof -
  have "drop_bit 120 w AND 0xff = 0xff"
    using arg_cong [OF assms(1), of "drop_bit 8"] assms(2) by (simp add: drop_bit_and)
  moreover have "(0xff :: 128 word) = mask 8 AND NOT (mask 0)"
    by (simp add: mask_eq_exp_minus_1)
  ultimately show ?thesis
    using uint_high [of 0 8 w] by (simp add: word_uint_eq_iff)
qed

text \<open>
  The IPv6 blocks no rule-less connection reaches: unspecified, loopback and IPv4-compatible, the forms that embed an IPv4 address,
  discard, documentation, ORCHID, segment routing, unique local, link-local, site-local and multicast.
\<close>

definition internal6 :: "(int \<times> nat) list" where
  "internal6 = [(0, 32), (0x64ff9b * 2 ^ 96, 32), (0x64ff9b0001 * 2 ^ 80, 80), (0x100 * 2 ^ 112, 64), (0x20010000 * 2 ^ 96, 96),
     (0x2001001 * 2 ^ 100, 100), (0x2001002 * 2 ^ 100, 100), (0x20010db8 * 2 ^ 96, 96), (0x2002 * 2 ^ 112, 112), (0x3fff0 * 2 ^ 108, 108),
     (0x5f00 * 2 ^ 112, 112), (0xffff0000 * 2 ^ 32, 32), (0x7e * 2 ^ 121, 121), (0x3fa * 2 ^ 118, 118), (0x3fb * 2 ^ 118, 118),
     (0xff * 2 ^ 120, 120)]"

lemma internal6_list: "(\<exists>b \<in> set internal6. in_block b n) \<longleftrightarrow>
    0 \<le> n \<and> n < 2 ^ 32 \<or> n div 2 ^ 32 = 0x64ff9b * 2 ^ 64 \<or> n div 2 ^ 80 = 0x64ff9b0001 \<or> n div 2 ^ 64 = 0x100 * 2 ^ 48 \<or> n div 2 ^ 96 = 0x20010000 \<or>
    n div 2 ^ 100 = 0x2001001 \<or> n div 2 ^ 100 = 0x2001002 \<or> n div 2 ^ 96 = 0x20010db8 \<or> n div 2 ^ 112 = 0x2002 \<or> n div 2 ^ 108 = 0x3fff0 \<or>
    n div 2 ^ 112 = 0x5f00 \<or> n div 2 ^ 32 = 0xffff0000 \<or> n div 2 ^ 121 = 0x7e \<or> n div 2 ^ 118 = 0x3fa \<or> n div 2 ^ 118 = 0x3fb \<or>
    n div 2 ^ 120 = 0xff"
  by (simp add: internal6_def in_block_def div_block)

lemma refused6:
  assumes "drop_bit 32 w \<noteq> (0xffff :: 128 word)"
  shows "AddrRefusal (IP6 w '''') = '''' \<longleftrightarrow> \<not> (\<exists>b \<in> set internal6. in_block b (uint w))"
proof -
  let ?a = "IP6 w ''''"
  have un: "Unmap ?a = ?a" "\<not> Is4In6 ?a"
    using assms by (simp_all add: Unmap_def Is4In6_def)
  have classes: "IsLoopback ?a \<longleftrightarrow> uint w = 1" "IsUnspecified ?a \<longleftrightarrow> uint w = 0"
    by (simp_all add: IsLoopback_def IsUnspecified_def un word_uint_eq_iff)
  have masked: "IsPrivate ?a \<longleftrightarrow> uint w div 2 ^ 121 = 0x7e" "IsLinkLocalUnicast ?a \<longleftrightarrow> uint w div 2 ^ 118 = 0x3fa"
    by (simp_all only: IsPrivate_def IsLinkLocalUnicast_def un Addr.case IPv6_masks)
  have multi: "IsMulticast ?a \<longleftrightarrow> uint w div 2 ^ 120 = 0xff"
    by (simp add: IsMulticast_def un word_uint_eq_iff uint_drop)
  have special: "IsLinkLocalMulticast ?a \<Longrightarrow> uint w div 2 ^ 120 = 0xff" "IsInterfaceLocalMulticast ?a \<Longrightarrow> uint w div 2 ^ 120 = 0xff"
    unfolding IsLinkLocalMulticast_def IsInterfaceLocalMulticast_def un Addr.case by (rule IPv6_multicast, blast, simp)+
  have global: "IsGlobalUnicast ?a \<longleftrightarrow> \<not> IsUnspecified ?a \<and> \<not> IsLoopback ?a \<and> \<not> IsMulticast ?a \<and> \<not> IsLinkLocalUnicast ?a"
    by (auto simp: IsGlobalUnicast_def IsUnspecified_def)
  have "AddrRefusal ?a = '''' \<longleftrightarrow> \<not> (uint w = 1 \<or> uint w div 2 ^ 121 = 0x7e \<or> uint w div 2 ^ 118 = 0x3fa \<or> uint w = 0 \<or>
      uint w div 2 ^ 120 = 0xff \<or> list_ex (\<lambda>p. Prefix_Contains p ?a) blockedPrefixes)"
    using special unfolding AddrRefusal_None un global classes masked multi by blast
  also have "\<dots> \<longleftrightarrow> \<not> (\<exists>b \<in> set internal6. in_block b (uint w))"
  proof -
    have one: "uint w div 4294967296 \<noteq> 0 \<Longrightarrow> uint w \<noteq> 0" "uint w div 4294967296 \<noteq> 0 \<Longrightarrow> uint w \<noteq> 1"
      "uint w div 2658455991569831745807614120560689152 \<noteq> 126 \<Longrightarrow> uint w \<noteq> 336294982257581694735330614659971547732"
      by (rule notI, simp)+
    have low: "0 \<le> uint w \<and> uint w < 2 ^ 32 \<longleftrightarrow> uint w div 2 ^ 32 = 0"
      by (simp add: div_block)
    show ?thesis
      unfolding internal6_list blocked_values low
      by (simp add: contains_block6 contains_other) (rule iffI; elim conjE; intro conjI; (assumption | (rule one; assumption)))
  qed
  finally show ?thesis .
qed



end
