(* ===== verification/Frames.thy ===== *)
theory Frames
  imports Prelude "HOL-Library.Word"
begin

unbundle bit_operations_syntax

text \<open>
  The WebSocket connections of the streams, \<^verbatim>\<open>wsconn/wsconn.go\<close> and \<^verbatim>\<open>wsconn/stream.go\<close>: frames on the wire, the
  messages they carry, and the close handshake. Bytes are 8-bit words. A reader is the bytes that still arrive and how the
  connection then ends; what a write gives, and the masking keys, are parameters indexed by the writes made so far. Deadlines
  enter as those outcomes.
\<close>

section \<open>Bytes and UTF-8\<close>

type_synonym byte = "8 word"

definition bytes :: "string \<Rightarrow> byte list" where
  "bytes s = map (\<lambda>c. of_nat (byte_val c)) s"

text \<open>\<open>binary.BigEndian\<close> on 16 and 64 bits.\<close>

definition BigEndian :: "byte list \<Rightarrow> 64 word" where
  "BigEndian bs = foldl (\<lambda>a b. push_bit 8 a OR ucast b) 0 bs"

definition be16 :: "nat \<Rightarrow> byte list" where
  "be16 n = map (\<lambda>k. of_nat (n div 256 ^ k)) [1, 0]"

definition be64 :: "nat \<Rightarrow> byte list" where
  "be64 n = map (\<lambda>k. of_nat (n div 256 ^ k)) [7, 6, 5, 4, 3, 2, 1, 0]"

text \<open>
  \<open>utf8.Valid\<close>: how many continuation bytes the first byte of a character announces, and the range the first of them is in.
\<close>

definition utf8_first :: "byte \<Rightarrow> (nat \<times> byte \<times> byte) option" where
  "utf8_first b =
     (if 0xC2 \<le> b \<and> b \<le> 0xDF then Some (1, 0x80, 0xBF)
      else if b = 0xE0 then Some (2, 0xA0, 0xBF)
      else if b = 0xED then Some (2, 0x80, 0x9F)
      else if 0xE1 \<le> b \<and> b \<le> 0xEF then Some (2, 0x80, 0xBF)
      else if b = 0xF0 then Some (3, 0x90, 0xBF)
      else if b = 0xF4 then Some (3, 0x80, 0x8F)
      else if 0xF1 \<le> b \<and> b \<le> 0xF3 then Some (3, 0x80, 0xBF)
      else None)"

definition continuation :: "byte \<Rightarrow> bool" where
  "continuation b \<longleftrightarrow> 0x80 \<le> b \<and> b \<le> 0xBF"

function utf8_Valid :: "byte list \<Rightarrow> bool" where
  "utf8_Valid [] = True"
| "utf8_Valid (b # bs) =
     (if b < 0x80 then utf8_Valid bs
      else case utf8_first b of
          None \<Rightarrow> False
        | Some (n, lo, hi) \<Rightarrow> n \<le> length bs \<and> lo \<le> hd bs \<and> hd bs \<le> hi \<and> list_all continuation (take (n - 1) (tl bs)) \<and>
            utf8_Valid (drop n bs))"
  by pat_completeness auto
termination by (relation "measure length") auto

definition RuneStart :: "byte \<Rightarrow> bool" where
  "RuneStart b \<longleftrightarrow> b AND 0xC0 \<noteq> 0x80"

section \<open>Constants and limits\<close>

datatype MessageType = Text | Binary

abbreviation opContinuation :: byte where "opContinuation \<equiv> 0x0"
abbreviation opText :: byte where "opText \<equiv> 0x1"
abbreviation opBinary :: byte where "opBinary \<equiv> 0x2"
abbreviation opClose :: byte where "opClose \<equiv> 0x8"
abbreviation opPing :: byte where "opPing \<equiv> 0x9"
abbreviation opPong :: byte where "opPong \<equiv> 0xA"

definition opcode :: "MessageType \<Rightarrow> byte" where
  "opcode t = (case t of Text \<Rightarrow> opText | Binary \<Rightarrow> opBinary)"

abbreviation CloseNormal :: nat where "CloseNormal \<equiv> 1000"
abbreviation CloseGoingAway :: nat where "CloseGoingAway \<equiv> 1001"
abbreviation CloseProtocolError :: nat where "CloseProtocolError \<equiv> 1002"
abbreviation CloseUnsupported :: nat where "CloseUnsupported \<equiv> 1003"
abbreviation CloseNoStatus :: nat where "CloseNoStatus \<equiv> 1005"
abbreviation CloseInvalidData :: nat where "CloseInvalidData \<equiv> 1007"
abbreviation CloseTooBig :: nat where "CloseTooBig \<equiv> 1009"

abbreviation DefaultMaxFrame :: int where "DefaultMaxFrame \<equiv> 1048576"
abbreviation DefaultMaxMessage :: int where "DefaultMaxMessage \<equiv> 1048576"
abbreviation maxControl :: nat where "maxControl \<equiv> 125"

record Limits =
  MaxFrame :: int
  MaxMessage :: int

definition orDefault :: "Limits \<Rightarrow> Limits" where
  "orDefault l = \<lparr>MaxFrame = (if MaxFrame l \<le> 0 then DefaultMaxFrame else MaxFrame l),
     MaxMessage = (if MaxMessage l \<le> 0 then DefaultMaxMessage else MaxMessage l)\<rparr>"

section \<open>Errors\<close>

record CloseError =
  ce_Code :: nat
  Reason :: "byte list"
  LocalClose :: bool

datatype ws_error = EOF | UnexpectedEOF | Broken string | Timeout | ErrClosed | Protocol nat string | Closing CloseError | BadMessage string

definition IsClose :: "ws_error \<Rightarrow> nat list \<Rightarrow> bool" where
  "IsClose err codes = (case err of
       Closing ce \<Rightarrow> ce_Code ce \<in> set (if codes = [] then [CloseNormal, CloseGoingAway, CloseNoStatus] else codes)
     | _ \<Rightarrow> False)"

definition unexpected :: "ws_error \<Rightarrow> ws_error" where
  "unexpected e = (if e = EOF then UnexpectedEOF else e)"

section \<open>Reading a frame\<close>

record reader =
  unread :: "byte list"
  ending :: ws_error

text \<open>\<open>io.ReadFull\<close>.\<close>

definition ReadFull :: "nat \<Rightarrow> reader \<Rightarrow> ws_error + byte list \<times> reader" where
  "ReadFull n r =
     (if n \<le> length (unread r) then Inr (take n (unread r), r\<lparr>unread := drop n (unread r)\<rparr>)
      else Inl (if unread r \<noteq> [] then unexpected (ending r) else ending r))"

record frame =
  f_fin :: bool
  f_op :: byte
  payload :: "byte list"

abbreviation frameChunk :: nat where "frameChunk \<equiv> 65536"

function read_payload :: "nat \<Rightarrow> byte list \<Rightarrow> reader \<Rightarrow> ws_error + byte list \<times> reader" where
  "read_payload n got r =
     (if length got < n
      then (case ReadFull (min (n - length got) frameChunk) r of
                Inl e \<Rightarrow> Inl (unexpected e)
              | Inr (chunk, r') \<Rightarrow> read_payload n (got @ chunk) r')
      else Inr (got, r))"
  by pat_completeness auto
termination
  by (relation "measure (\<lambda>(n, got, r). n - length got)") (auto simp: ReadFull_def split: if_splits)

declare read_payload.simps [simp del]

text \<open>\<open>f.payload[i] ^= mask[i&3]\<close>, for every \<open>i\<close>.\<close>

definition mask_bytes :: "byte list \<Rightarrow> byte list \<Rightarrow> byte list" where
  "mask_bytes key p = map (\<lambda>(i, b). b XOR key ! (i mod 4)) (List.enumerate 0 p)"

text \<open>The length of the payload: seven bits, or the sixteen or sixty-four that follow, never more than are needed.\<close>

definition read_length :: "byte \<Rightarrow> reader \<Rightarrow> ws_error + nat \<times> reader" where
  "read_length h1 r =
     (let n = h1 AND 0x7F
      in if n = 126
         then (case ReadFull 2 r of
                   Inl e \<Rightarrow> Inl (unexpected e)
                 | Inr (b, r') \<Rightarrow> if BigEndian b < 126 then Inl (Protocol CloseProtocolError ''a frame length was not minimally encoded'')
                     else Inr (unat (BigEndian b), r'))
         else if n = 127
         then (case ReadFull 8 r of
                   Inl e \<Rightarrow> Inl (unexpected e)
                 | Inr (b, r') \<Rightarrow>
                     if drop_bit 63 (BigEndian b) \<noteq> 0 then Inl (Protocol CloseProtocolError ''a frame length has its top bit set'')
                     else if BigEndian b \<le> 0xFFFF then Inl (Protocol CloseProtocolError ''a frame length was not minimally encoded'')
                     else Inr (unat (BigEndian b), r'))
         else Inr (unat n, r))"

text \<open>\<open>room < 0\<close> is no bound on the message.\<close>

definition check_frame :: "frame \<Rightarrow> nat \<Rightarrow> int \<Rightarrow> int \<Rightarrow> ws_error option" where
  "check_frame f n maxFrame room =
     (if f_op f \<ge> opClose \<and> \<not> f_fin f then Some (Protocol CloseProtocolError ''a control frame was fragmented'')
      else if f_op f \<ge> opClose \<and> n > maxControl then Some (Protocol CloseProtocolError ''a control frame is longer than 125 bytes'')
      else if int n > maxFrame then Some (Protocol CloseTooBig ''a frame is larger than the limit'')
      else if f_op f < opClose \<and> room \<ge> 0 \<and> int n > room then Some (Protocol CloseTooBig ''a message is larger than the limit'')
      else None)"

definition readFrame :: "reader \<Rightarrow> bool \<Rightarrow> int \<Rightarrow> int \<Rightarrow> ws_error + frame \<times> reader" where
  "readFrame r masked maxFrame room =
     (case ReadFull 2 r of
        Inl e \<Rightarrow> Inl e
      | Inr (h, r1) \<Rightarrow>
          let f = \<lparr>f_fin = (h ! 0 AND 0x80 \<noteq> 0), f_op = h ! 0 AND 0x0F, payload = []\<rparr>
          in if h ! 0 AND 0x70 \<noteq> 0 then Inl (Protocol CloseProtocolError ''reserved bits are set, and no extension was agreed'')
             else if f_op f \<notin> {opContinuation, opText, opBinary, opClose, opPing, opPong} then Inl (Protocol CloseProtocolError ''unknown opcode'')
             else if (h ! 1 AND 0x80 \<noteq> 0) \<noteq> masked
             then Inl (Protocol CloseProtocolError (if masked then ''a client frame was not masked'' else ''a server frame was masked''))
             else case read_length (h ! 1) r1 of
                 Inl e \<Rightarrow> Inl e
               | Inr (n, r2) \<Rightarrow> (case check_frame f n maxFrame room of
                     Some e \<Rightarrow> Inl e
                   | None \<Rightarrow> (case (if masked then ReadFull 4 r2 else Inr ([], r2)) of
                         Inl e \<Rightarrow> Inl (unexpected e)
                       | Inr (key, r3) \<Rightarrow> (case read_payload n [] r3 of
                             Inl e \<Rightarrow> Inl e
                           | Inr (p, r4) \<Rightarrow> Inr (f\<lparr>payload := if masked then mask_bytes key p else p\<rparr>, r4)))))"

section \<open>Writing a frame\<close>

text \<open>\<open>byte(n)\<close> of a length, and \<open>uint16(n)\<close>, \<open>uint64(n)\<close>, are within their widths where they are taken.\<close>

definition appendFrame :: "byte list \<Rightarrow> bool \<Rightarrow> byte \<Rightarrow> byte list \<Rightarrow> byte list option \<Rightarrow> byte list" where
  "appendFrame b fin op p key =
     (let b0 = (if fin then op OR 0x80 else op);
          m = (if key = None then 0 else 0x80);
          n = length p;
          len = (if n < 126 then [m OR of_nat n]
                 else if n \<le> 0xFFFF then (m OR 126) # be16 n
                 else (m OR 127) # be64 n)
      in b @ [b0] @ len @ (case key of None \<Rightarrow> p | Some k \<Rightarrow> k @ mask_bytes k p))"

definition validCloseCode :: "nat \<Rightarrow> bool" where
  "validCloseCode c \<longleftrightarrow> 1000 \<le> c \<and> c \<le> 1003 \<or> 1007 \<le> c \<and> c \<le> 1011 \<or> 3000 \<le> c \<and> c \<le> 4999"

definition checkClose :: "byte list \<Rightarrow> ws_error + nat \<times> byte list" where
  "checkClose p =
     (if p = [] then Inr (CloseNoStatus, [])
      else if length p = 1 then Inl (Protocol CloseProtocolError ''a close frame carried one byte'')
      else let code = unat (BigEndian (take 2 p))
           in if \<not> validCloseCode code then Inl (Protocol CloseProtocolError ''the close code may not be sent'')
              else if \<not> utf8_Valid (drop 2 p) then Inl (Protocol CloseInvalidData ''a close reason is not UTF-8'')
              else Inr (code, drop 2 p))"

function cut_at :: "byte list \<Rightarrow> nat \<Rightarrow> nat" where
  "cut_at s n = (if n > 0 \<and> n < length s \<and> \<not> RuneStart (s ! n) then cut_at s (n - 1) else n)"
  by pat_completeness auto
termination by (relation "measure snd") auto

declare cut_at.simps [simp del]

definition trimUTF8 :: "byte list \<Rightarrow> nat \<Rightarrow> byte list" where
  "trimUTF8 s n = (let k = cut_at s n in if k < length s then take k s else s)"

end
