(* ===== verification/Connections.thy ===== *)
theory Connections
  imports Frames
begin

text \<open>
  A WebSocket connection, \<^verbatim>\<open>wsconn/wsconn.go\<close>: its state, what one round of the reading loop does, the writes, and the
  close handshake; and the byte stream over its binary messages, \<^verbatim>\<open>wsconn/stream.go\<close>. \<open>wmu\<close> makes each write one step
  and \<open>rmu\<close> lets one reader run, so the steps of the code interleave as the relation at the end has them.
\<close>

section \<open>The connection\<close>

text \<open>What a write gives: all of it went, or part of it went and the write failed, or timed out.\<close>

datatype outcome = Written | Partial nat ws_error

text \<open>The masking key the random source gives for a write, or its failure, and the outcome of a write, by the number of writes so far.\<close>

record peer =
  rand_key :: "nat \<Rightarrow> ws_error + byte list"
  write_outcome :: "nat \<Rightarrow> outcome"

record Conn =
  incoming :: reader
  is_client :: bool
  limits :: Limits
  Subprotocol :: string
  sentClose :: bool
  isClosed :: bool
  gotClose :: bool
  peerClose :: "CloseError option"
  attempts :: nat
  written :: "byte list list"

definition newConn :: "reader \<Rightarrow> bool \<Rightarrow> Limits \<Rightarrow> string \<Rightarrow> Conn" where
  "newConn r cl l proto = \<lparr>incoming = r, is_client = cl, limits = orDefault l, Subprotocol = proto, sentClose = False, isClosed = False,
     gotClose = False, peerClose = None, attempts = 0, written = []\<rparr>"

definition finish :: "Conn \<Rightarrow> Conn" where
  "finish c = c\<lparr>isClosed := True\<rparr>"

text \<open>The frames handed to the network are kept in \<open>written\<close>, the part of a frame that went when its write failed.\<close>

definition writeLocked :: "peer \<Rightarrow> byte \<Rightarrow> byte list \<Rightarrow> Conn \<Rightarrow> ws_error option \<times> Conn" where
  "writeLocked E op p c =
     (case (if is_client c then map_sum id Some (rand_key E (attempts c)) else Inr None) of
        Inl e \<Rightarrow> (Some e, c\<lparr>attempts := Suc (attempts c)\<rparr>)
      | Inr key \<Rightarrow>
          let buf = appendFrame [] True op p key; c1 = c\<lparr>attempts := Suc (attempts c)\<rparr>
          in case write_outcome E (attempts c) of
              Written \<Rightarrow> (None, c1\<lparr>written := written c @ [buf]\<rparr>)
            | Partial k e \<Rightarrow>
                let c2 = c1\<lparr>written := written c @ [take k buf]\<rparr> in (Some e, if e = Timeout then finish c2 else c2))"

definition ws_write :: "peer \<Rightarrow> byte \<Rightarrow> byte list \<Rightarrow> Conn \<Rightarrow> ws_error option \<times> Conn" where
  "ws_write E op p c = (if sentClose c \<or> isClosed c then (Some ErrClosed, c) else writeLocked E op p c)"

definition WriteMessage :: "peer \<Rightarrow> MessageType \<Rightarrow> byte list \<Rightarrow> Conn \<Rightarrow> ws_error option \<times> Conn" where
  "WriteMessage E t p c =
     (if t = Text \<and> \<not> utf8_Valid p then (Some (BadMessage ''a text message must be UTF-8''), c) else ws_write E (opcode t) p c)"

definition Ping :: "peer \<Rightarrow> Conn \<Rightarrow> ws_error option \<times> Conn" where
  "Ping E c = ws_write E opPing [] c"

definition sendClose :: "peer \<Rightarrow> nat \<Rightarrow> byte list \<Rightarrow> Conn \<Rightarrow> ws_error option \<times> Conn" where
  "sendClose E code why c =
     (if sentClose c \<or> isClosed c then (None, c)
      else writeLocked E opClose (be16 code @ (if length why > maxControl - 2 then trimUTF8 why (maxControl - 2) else why))
        (c\<lparr>sentClose := True\<rparr>))"

section \<open>Reading\<close>

text \<open>What a read returns once the connection is closed.\<close>

definition ended :: "Conn \<Rightarrow> ws_error" where
  "ended c = (case peerClose c of Some ce \<Rightarrow> Closing ce | None \<Rightarrow> ErrClosed)"

definition ws_fail :: "peer \<Rightarrow> ws_error \<Rightarrow> Conn \<Rightarrow> ws_error \<times> Conn" where
  "ws_fail E err c = (case err of
       Protocol code msg \<Rightarrow> (Closing \<lparr>ce_Code = code, Reason = bytes msg, LocalClose = True\<rparr>, finish (snd (sendClose E code (bytes msg) c)))
     | _ \<Rightarrow> if isClosed c then (ended c, c) else (unexpected err, finish c))"

text \<open>The message so far: its type once a first frame began it, and its bytes.\<close>

record part =
  kind :: "MessageType option"
  got :: "byte list"

definition no_part :: part where
  "no_part = \<lparr>kind = None, got = []\<rparr>"

datatype round = Goes_on part | Returns "ws_error + MessageType \<times> byte list"

definition failing :: "peer \<Rightarrow> ws_error \<Rightarrow> Conn \<Rightarrow> round \<times> Conn" where
  "failing E err c = (case ws_fail E err c of (e, c') \<Rightarrow> (Returns (Inl e), c'))"

text \<open>The close of the peer: it is kept, echoed unless this side closed first, and ends the connection.\<close>

definition take_close :: "peer \<Rightarrow> byte list \<Rightarrow> Conn \<Rightarrow> round \<times> Conn" where
  "take_close E p c =
     (case checkClose p of
        Inl e \<Rightarrow> failing E e c
      | Inr (code, why) \<Rightarrow>
          let ce = \<lparr>ce_Code = code, Reason = why, LocalClose = False\<rparr>; c1 = c\<lparr>gotClose := True, peerClose := Some ce\<rparr>
          in (Returns (Inl (Closing ce)), finish (snd (sendClose E (if code = CloseNoStatus then CloseNormal else code) [] c1))))"

definition take_data :: "peer \<Rightarrow> frame \<Rightarrow> MessageType \<Rightarrow> part \<Rightarrow> Conn \<Rightarrow> round \<times> Conn" where
  "take_data E f t p c =
     (if int (length (got p)) + int (length (payload f)) > MaxMessage (limits c)
      then failing E (Protocol CloseTooBig ''a message is larger than the limit'') c
      else let msg = got p @ payload f
           in if \<not> f_fin f then (Goes_on \<lparr>kind = Some t, got = msg\<rparr>, c)
              else if t = Text \<and> \<not> utf8_Valid msg then failing E (Protocol CloseInvalidData ''a text message is not UTF-8'') c
              else (Returns (Inr (t, msg)), c))"

definition handle_frame :: "peer \<Rightarrow> frame \<Rightarrow> part \<Rightarrow> Conn \<Rightarrow> round \<times> Conn" where
  "handle_frame E f p c =
     (if f_op f = opPing
      then (case ws_write E opPong (payload f) c of
                (None, c') \<Rightarrow> (Goes_on p, c')
              | (Some e, c') \<Rightarrow> if e = ErrClosed then (Goes_on p, c') else failing E e c')
      else if f_op f = opPong then (Goes_on p, c)
      else if f_op f = opClose then take_close E (payload f) c
      else if f_op f = opText \<or> f_op f = opBinary
      then (if kind p \<noteq> None then failing E (Protocol CloseProtocolError ''a message began inside another'') c
            else take_data E f (if f_op f = opText then Text else Binary) p c)
      else (case kind p of
                None \<Rightarrow> failing E (Protocol CloseProtocolError ''a continuation frame began no message'') c
              | Some t \<Rightarrow> take_data E f t p c))"

definition read_round :: "peer \<Rightarrow> part \<Rightarrow> Conn \<Rightarrow> round \<times> Conn" where
  "read_round E p c =
     (case readFrame (incoming c) (\<not> is_client c) (MaxFrame (limits c)) (MaxMessage (limits c) - int (length (got p))) of
        Inl e \<Rightarrow> failing E e c
      | Inr (f, r) \<Rightarrow> handle_frame E f p (c\<lparr>incoming := r\<rparr>))"

lemma ReadFull_shorter: "ReadFull n r = Inr (bs, r') \<Longrightarrow> length (unread r') + n = length (unread r)"
  by (auto simp: ReadFull_def split: if_splits)

lemma read_payload_shorter: "read_payload n g r = Inr (p, r') \<Longrightarrow> length (unread r') \<le> length (unread r)"
proof (induction n g r rule: read_payload.induct)
  case (1 n g r)
  show ?case
  proof (cases "length g < n")
    case True
    then obtain chunk r1 where c: "ReadFull (min (n - length g) frameChunk) r = Inr (chunk, r1)" "read_payload n (g @ chunk) r1 = Inr (p, r')"
      using 1(2) by (subst (asm) read_payload.simps) (auto split: sum.splits)
    show ?thesis
      using 1(1) [OF True c(1) refl c(2)] ReadFull_shorter [OF c(1)] by simp
  next
    case False
    with 1(2) show ?thesis by (subst (asm) read_payload.simps) simp
  qed
qed

lemma read_length_shorter: "read_length h r = Inr (n, r') \<Longrightarrow> length (unread r') \<le> length (unread r)"
  by (auto simp: read_length_def Let_def dest: ReadFull_shorter split: if_splits sum.splits)

lemma readFrame_shorter:
  assumes "readFrame r m mf room = Inr (f, r')"
  shows "length (unread r') < length (unread r)"
proof -
  obtain h r1 n r2 key r3 q where
    steps: "ReadFull 2 r = Inr (h, r1)" "read_length (h ! 1) r1 = Inr (n, r2)"
      "(if m then ReadFull 4 r2 else Inr ([], r2)) = Inr (key, r3)" "read_payload n [] r3 = Inr (q, r')"
    using assms by (auto simp: readFrame_def Let_def split: sum.splits if_splits option.splits)
  have "length (unread r3) \<le> length (unread r2)"
    using steps(3) by (auto split: if_splits dest: ReadFull_shorter)
  then show ?thesis
    using ReadFull_shorter [OF steps(1)] read_length_shorter [OF steps(2)] read_payload_shorter [OF steps(4)] by simp
qed

lemma incoming_kept [simp]:
  "incoming (finish c) = incoming c" "incoming (snd (writeLocked E op p c)) = incoming c"
  "incoming (snd (ws_write E op p c)) = incoming c" "incoming (snd (sendClose E code why c)) = incoming c"
  by (simp_all add: finish_def writeLocked_def ws_write_def sendClose_def Let_def split: sum.splits outcome.splits)

lemma failing_returns [simp]: "failing E e c \<noteq> (Goes_on p, c')"
  by (simp add: failing_def split: prod.splits)

lemma handle_frame_incoming: "handle_frame E f p c = (Goes_on p', c') \<Longrightarrow> incoming c' = incoming c"
  by (auto simp: handle_frame_def take_close_def take_data_def Let_def split: if_splits sum.splits option.splits prod.splits)
    (metis incoming_kept(3) snd_conv)+

lemma read_round_shorter:
  "read_round E p c = (Goes_on p', c') \<Longrightarrow> length (unread (incoming c')) < length (unread (incoming c))"
  by (auto simp: read_round_def dest!: handle_frame_incoming readFrame_shorter split: sum.splits)

function read_loop :: "peer \<Rightarrow> part \<Rightarrow> Conn \<Rightarrow> (ws_error + MessageType \<times> byte list) \<times> Conn" where
  "read_loop E p c = (case read_round E p c of
       (Goes_on p', c') \<Rightarrow> read_loop E p' c'
     | (Returns x, c') \<Rightarrow> (x, c'))"
  by pat_completeness auto
termination
  by (relation "measure (\<lambda>(E, p, c). length (unread (incoming c)))") (auto dest!: sym [of _ "read_round _ _ _"] read_round_shorter)

declare read_loop.simps [simp del]

definition ReadMessage :: "peer \<Rightarrow> Conn \<Rightarrow> (ws_error + MessageType \<times> byte list) \<times> Conn" where
  "ReadMessage E c = (if isClosed c then (Inl (ended c), c) else read_loop E no_part c)"

section \<open>Closing\<close>

text \<open>
  What \<open>CloseWith\<close> leaves to come: nothing, a reader of its own that waits for the close of the peer, or, when another read is
  under way, the end of the connection after a wait.
\<close>

datatype closing = Nothing | Drains | Ends_later

definition CloseWith :: "peer \<Rightarrow> bool \<Rightarrow> nat \<Rightarrow> byte list \<Rightarrow> Conn \<Rightarrow> ws_error option \<times> closing \<times> Conn" where
  "CloseWith E reading code why c =
     (if isClosed c then (None, Nothing, c)
      else case sendClose E code why c of
          (Some e, c1) \<Rightarrow> (Some e, Nothing, finish c1)
        | (None, c1) \<Rightarrow> if gotClose c1 then (None, Nothing, finish c1) else (None, if reading then Ends_later else Drains, c1))"

text \<open>One frame of that reader; true when it is done.\<close>

definition drain_round :: "Conn \<Rightarrow> bool \<times> Conn" where
  "drain_round c =
     (case readFrame (incoming c) (\<not> is_client c) (MaxFrame (limits c)) (- 1) of
        Inl e \<Rightarrow> (True, finish c)
      | Inr (f, r) \<Rightarrow>
          let c1 = c\<lparr>incoming := r\<rparr>
          in if f_op f \<noteq> opClose then (False, c1)
             else (True, finish (case checkClose (payload f) of
                 Inl e \<Rightarrow> c1
               | Inr (code, why) \<Rightarrow> c1\<lparr>gotClose := True, peerClose := Some \<lparr>ce_Code = code, Reason = why, LocalClose = False\<rparr>\<rparr>)))"

lemma drain_round_shorter: "drain_round c = (False, c') \<Longrightarrow> length (unread (incoming c')) < length (unread (incoming c))"
  by (auto simp: drain_round_def Let_def dest!: readFrame_shorter split: sum.splits if_splits)

function drain :: "Conn \<Rightarrow> Conn" where
  "drain c = (case drain_round c of (True, c') \<Rightarrow> c' | (False, c') \<Rightarrow> drain c')"
  by pat_completeness auto
termination
  by (relation "measure (\<lambda>c. length (unread (incoming c)))") (auto dest!: sym [of _ "drain_round _"] drain_round_shorter)

declare drain.simps [simp del]

section \<open>The stream over a connection\<close>

text \<open>\<open>OnText\<close> is what the callback answers to a text message.\<close>

record Stream =
  s_conn :: Conn
  OnText :: "(byte list \<Rightarrow> ws_error option) option"
  Chunk :: int
  buf :: "byte list"
  s_err :: "ws_error option"

definition NewStream :: "Conn \<Rightarrow> Stream" where
  "NewStream c = \<lparr>s_conn = c, OnText = None, Chunk = 32768, buf = [], s_err = None\<rparr>"

text \<open>One turn of the loop of \<open>Read\<close>, with nothing buffered and no error yet.\<close>

definition stream_turn :: "peer \<Rightarrow> Stream \<Rightarrow> Stream" where
  "stream_turn E s =
     (case ReadMessage E (s_conn s) of
        (Inl e, c) \<Rightarrow> s\<lparr>s_conn := c, s_err := Some (if IsClose e [] then EOF else e)\<rparr>
      | (Inr (Text, msg), c) \<Rightarrow>
          (case OnText s of
             None \<Rightarrow> (case CloseWith E False CloseUnsupported (bytes ''this stream carries binary messages only'') c of
                 (_, after, c') \<Rightarrow> s\<lparr>s_conn := (if after = Drains then drain c' else c'),
                     s_err := Some (BadMessage ''a text message on a binary stream'')\<rparr>)
           | Some f \<Rightarrow> s\<lparr>s_conn := c, s_err := f msg\<rparr>)
      | (Inr (Binary, msg), c) \<Rightarrow> s\<lparr>s_conn := c, buf := msg\<rparr>)"

lemma incoming_failing [simp]: "incoming (snd (ws_fail E err c)) = incoming c" "incoming (snd (failing E err c)) = incoming c"
proof -
  show f: "incoming (snd (ws_fail E err c)) = incoming c"
    by (cases err) (simp_all add: ws_fail_def)
  show "incoming (snd (failing E err c)) = incoming c"
    using f by (simp add: failing_def split_beta)
qed

lemma failing_no_message [simp]: "failing E e c \<noteq> (Returns (Inr m), c')"
  by (simp add: failing_def split: prod.splits)

lemma take_data_Inr: "take_data E f t p c = (Returns (Inr m), c') \<Longrightarrow> c' = c"
  by (simp add: take_data_def Let_def split: if_splits)

lemma take_close_error [simp]: "take_close E p c \<noteq> (Returns (Inr m), c')" "take_close E p c \<noteq> (Goes_on q, c')"
  by (simp_all add: take_close_def Let_def split: sum.splits prod.splits)

lemma handle_frame_Inr: "handle_frame E f p c = (Returns (Inr m), c') \<Longrightarrow> c' = c"
  by (auto simp: handle_frame_def split: if_splits option.splits prod.splits dest: take_data_Inr)

lemma read_round_Inr: "read_round E p c = (Returns (Inr m), c') \<Longrightarrow> length (unread (incoming c')) < length (unread (incoming c))"
  by (auto simp: read_round_def dest!: handle_frame_Inr readFrame_shorter split: sum.splits)

lemma read_loop_shorter: "read_loop E p c = (Inr m, c') \<Longrightarrow> length (unread (incoming c')) < length (unread (incoming c))"
proof (induction E p c rule: read_loop.induct)
  case (1 E p c)
  obtain x c1 where r: "read_round E p c = (x, c1)"
    by fastforce
  show ?case
  proof (cases x)
    case (Goes_on p')
    have "read_loop E p' c1 = (Inr m, c')"
      using 1(2) r Goes_on by (subst (asm) read_loop.simps) simp
    with 1(1) [OF r [symmetric] Goes_on] r Goes_on read_round_shorter [of E p c p' c1] show ?thesis by simp
  next
    case (Returns y)
    with 1(2) r have "read_round E p c = (Returns (Inr m), c')"
      by (subst (asm) read_loop.simps) simp
    then show ?thesis by (rule read_round_Inr)
  qed
qed

lemma ReadMessage_shorter:
  "ReadMessage E c = (Inr m, c') \<Longrightarrow> length (unread (incoming c')) < length (unread (incoming c))"
  by (auto simp: ReadMessage_def dest!: read_loop_shorter split: if_splits)

lemma stream_turn_progress:
  "s_err (stream_turn E s) = None \<Longrightarrow> length (unread (incoming (s_conn (stream_turn E s)))) < length (unread (incoming (s_conn s)))"
  by (auto simp: stream_turn_def dest!: ReadMessage_shorter split: prod.splits sum.splits option.splits MessageType.splits)

function stream_fill :: "peer \<Rightarrow> Stream \<Rightarrow> Stream" where
  "stream_fill E s = (if buf s \<noteq> [] \<or> s_err s \<noteq> None then s else stream_fill E (stream_turn E s))"
  by pat_completeness auto
termination
  by (relation "measure (\<lambda>(E, s). if s_err s = None then Suc (length (unread (incoming (s_conn s)))) else 0)")
    (auto dest: stream_turn_progress)

declare stream_fill.simps [simp del]

definition Stream_Read :: "peer \<Rightarrow> nat \<Rightarrow> Stream \<Rightarrow> (ws_error option + byte list) \<times> Stream" where
  "Stream_Read E n s = (let s' = stream_fill E s
     in if buf s' = [] then (Inl (s_err s'), s') else (Inr (take n (buf s')), s'\<lparr>buf := drop n (buf s')\<rparr>))"

text \<open>The chunk is at least one byte, so the guard on it is never what ends the loop.\<close>

function write_chunks :: "peer \<Rightarrow> nat \<Rightarrow> byte list \<Rightarrow> nat \<Rightarrow> Conn \<Rightarrow> nat \<times> ws_error option \<times> Conn" where
  "write_chunks E k p n c =
     (if p = [] \<or> k = 0 then (n, None, c)
      else case WriteMessage E Binary (take k p) c of
          (Some e, c') \<Rightarrow> (n, Some e, c')
        | (None, c') \<Rightarrow> write_chunks E k (drop k p) (n + length (take k p)) c')"
  by pat_completeness auto
termination by (relation "measure (\<lambda>(E, k, p, n, c). length p)") auto

declare write_chunks.simps [simp del]

definition Stream_Write :: "peer \<Rightarrow> byte list \<Rightarrow> Stream \<Rightarrow> nat \<times> ws_error option \<times> Stream" where
  "Stream_Write E p s =
     (case write_chunks E (if Chunk s \<le> 0 then 32768 else nat (Chunk s)) p 0 (s_conn s) of (n, e, c) \<Rightarrow> (n, e, s\<lparr>s_conn := c\<rparr>))"

definition Stream_Close :: "peer \<Rightarrow> bool \<Rightarrow> Stream \<Rightarrow> ws_error option \<times> closing \<times> Conn" where
  "Stream_Close E reading s = CloseWith E reading CloseNormal [] (s_conn s)"

section \<open>Interleavings\<close>

text \<open>
  A connection with the read or the drain under way on it, and what its callers do in any order. A write, a close and a round of
  a reader are one step each; the end of the connection (\<open>Abort\<close>, or the wait of a close that has passed) may come at any
  time, and so may a break, after which less arrives than would have.
\<close>

record live =
  lv_conn :: Conn
  reading :: "part option"
  draining :: bool

inductive ws_step :: "peer \<Rightarrow> live \<Rightarrow> live \<Rightarrow> bool" for E where
  read_begins: "reading l = None \<Longrightarrow> \<not> draining l \<Longrightarrow> \<not> isClosed (lv_conn l) \<Longrightarrow> ws_step E l (l\<lparr>reading := Some no_part\<rparr>)"
| read_goes_on: "reading l = Some p \<Longrightarrow> read_round E p (lv_conn l) = (Goes_on p', c) \<Longrightarrow>
    ws_step E l (l\<lparr>lv_conn := c, reading := Some p'\<rparr>)"
| read_returns: "reading l = Some p \<Longrightarrow> read_round E p (lv_conn l) = (Returns x, c) \<Longrightarrow> ws_step E l (l\<lparr>lv_conn := c, reading := None\<rparr>)"
| writes: "ws_step E l (l\<lparr>lv_conn := snd (WriteMessage E t p (lv_conn l))\<rparr>)"
| pings: "ws_step E l (l\<lparr>lv_conn := snd (Ping E (lv_conn l))\<rparr>)"
| closes: "CloseWith E (reading l \<noteq> None \<or> draining l) code why (lv_conn l) = (e, after, c) \<Longrightarrow>
    ws_step E l (l\<lparr>lv_conn := c, draining := (draining l \<or> after = Drains)\<rparr>)"
| drains: "draining l \<Longrightarrow> drain_round (lv_conn l) = (fin, c) \<Longrightarrow> ws_step E l (l\<lparr>lv_conn := c, draining := (\<not> fin)\<rparr>)"
| ends: "ws_step E l (l\<lparr>lv_conn := finish (lv_conn l)\<rparr>)"
| breaks: "ws_step E l (l\<lparr>lv_conn := lv_conn l\<lparr>incoming := \<lparr>unread = take k (unread (incoming (lv_conn l))), ending = Broken why\<rparr>\<rparr>\<rparr>)"

end
