(* ===== verification/FrameLaws.thy ===== *)
theory FrameLaws
  imports Connections
begin

text \<open>
  What the frames promise: a frame is accepted exactly when it is the one encoding of what it says, a message comes back as it
  was sent however it was cut up, and what a peer sends is bounded.
\<close>

section \<open>Numbers on the wire\<close>

definition be_nat :: "byte list \<Rightarrow> nat" where
  "be_nat bs = foldl (\<lambda>a b. a * 256 + unat b) 0 bs"

lemma be_nat_snoc [simp]: "be_nat [] = 0" "be_nat (bs @ [b]) = be_nat bs * 256 + unat b"
  by (simp_all add: be_nat_def)

lemma unat_byte: "unat (b :: byte) < 256"
  using unsigned_less [of b, where ?'a = nat] by simp

lemma byte_256: "(256 :: byte) = 0"
  by (simp add: word_uint_eq_iff)

lemma byte_255: "(0xFF :: byte) = - 1"
  by (simp add: eq_neg_iff_add_eq_0 byte_256)

lemma be_nat_bound: "be_nat bs < 256 ^ length bs"
proof (induction bs rule: rev_induct)
  case (snoc b bs)
  then have "be_nat bs * 256 + 256 \<le> 256 ^ length bs * 256"
    by (metis Suc_leI add.commute mult.commute mult_Suc_right mult_le_mono2)
  with unat_byte [of b] show ?case by simp
qed simp

lemma byte_or: "push_bit 8 a OR ucast (b :: byte) = (a * 256 + ucast b :: 64 word)"
proof -
  have "push_bit 8 a AND ucast b = (0 :: 64 word)"
    by (rule bit_word_eqI) (auto simp: bit_simps dest: bit_imp_le_length)
  then have "push_bit 8 a OR ucast b = push_bit 8 a + ucast b"
    by (rule disjunctive_add_eq_or [symmetric])
  then show ?thesis by (simp add: push_bit_eq_mult)
qed

lemma BigEndian_nat: "BigEndian bs = of_nat (be_nat bs)"
proof (induction bs rule: rev_induct)
  case (snoc b bs)
  then show ?case
    unfolding BigEndian_def foldl_append foldl.simps byte_or by (simp add: algebra_simps unsigned_of_nat)
qed (simp add: BigEndian_def)

lemma unat_BigEndian: "length bs \<le> 8 \<Longrightarrow> unat (BigEndian bs) = be_nat bs"
proof -
  assume "length bs \<le> 8"
  then have "(256 :: nat) ^ length bs \<le> 256 ^ 8"
    by (intro power_increasing) auto
  with be_nat_bound [of bs] have "be_nat bs < 2 ^ 64" by simp
  then show ?thesis
    by (simp add: BigEndian_nat unat_of_nat)
qed

lemma be_bytes: "bs = map (\<lambda>k. of_nat (be_nat bs div 256 ^ k)) (rev [0..<length bs])"
proof (induction bs rule: rev_induct)
  case (snoc b bs)
  have d: "(be_nat bs * 256 + unat b) div 256 ^ Suc k = be_nat bs div 256 ^ k" for k
    using unat_byte [of b] by (simp add: div_mult2_eq)
  have "map (\<lambda>k. of_nat (be_nat (bs @ [b]) div 256 ^ k)) (rev [0..<length (bs @ [b])]) =
      map (\<lambda>k. of_nat (be_nat bs div 256 ^ k)) (rev [0..<length bs]) @ [of_nat (be_nat bs * 256 + unat b) :: byte]"
    by (simp add: upt_conv_Cons map_Suc_upt [symmetric] rev_map d del: upt_Suc power_Suc)
  also have "\<dots> = bs @ [b]"
    unfolding snoc [symmetric] by (simp add: byte_256)
  finally show ?case by (rule sym)
qed simp

lemma be16_be_nat: "length bs = 2 \<Longrightarrow> be16 (be_nat bs) = bs"
  using be_bytes [of bs] by (simp add: be16_def upt_rec)

lemma be64_be_nat: "length bs = 8 \<Longrightarrow> be64 (be_nat bs) = bs"
  using be_bytes [of bs] by (simp add: be64_def upt_rec)

lemma be_nat_bytes: "be_nat (map (\<lambda>k. of_nat (n div 256 ^ k)) (rev [0..<m])) = n mod 256 ^ m"
proof (induction m arbitrary: n)
  case (Suc m)
  have "map (\<lambda>k. of_nat (n div 256 ^ k)) (rev [0..<Suc m]) = map (\<lambda>k. of_nat (n div 256 div 256 ^ k)) (rev [0..<m]) @ [of_nat n :: byte]"
    by (simp add: upt_conv_Cons map_Suc_upt [symmetric] rev_map div_mult2_eq del: upt_Suc)
  then show ?case
    using Suc [of "n div 256"] by (simp add: mod_mult2_eq unat_of_nat)
qed simp

lemma be_bytes_eq: "be16 n = map (\<lambda>k. of_nat (n div 256 ^ k)) (rev [0..<2])" "be64 n = map (\<lambda>k. of_nat (n div 256 ^ k)) (rev [0..<8])"
  by (simp_all add: be16_def be64_def upt_rec)

lemma be_nat_16: "n < 65536 \<Longrightarrow> be_nat (be16 n) = n"
  unfolding be_bytes_eq be_nat_bytes by simp

lemma be_nat_64: "n < 2 ^ 64 \<Longrightarrow> be_nat (be64 n) = n"
  unfolding be_bytes_eq be_nat_bytes by simp

lemma length_be [simp]: "length (be16 n) = 2" "length (be64 n) = 8"
  by (simp_all add: be16_def be64_def)

section \<open>Masks\<close>

lemma length_mask_bytes [simp]: "length (mask_bytes k p) = length p"
  by (simp add: mask_bytes_def)

lemma mask_bytes_twice [simp]: "mask_bytes k (mask_bytes k p) = p"
  by (rule nth_equalityI) (simp_all add: mask_bytes_def nth_enumerate_eq xor.assoc)

section \<open>Bytes of a header\<close>

lemma byte_split: "(h :: byte) = (h AND 0x80) OR (h AND 0x70) OR (h AND 0x0F)" "(h :: byte) = (h AND 0x80) OR (h AND 0x7F)"
proof -
  have "(h :: byte) = h AND (0x80 OR 0x70 OR 0x0F)" "(h :: byte) = h AND (0x80 OR 0x7F)" by (simp_all add: byte_255)
  then show "(h :: byte) = (h AND 0x80) OR (h AND 0x70) OR (h AND 0x0F)" "(h :: byte) = (h AND 0x80) OR (h AND 0x7F)"
    by (simp_all only: bit.conj_disj_distrib)
qed

lemma top_bit: "(h :: byte) AND 0x80 = (if h AND 0x80 \<noteq> 0 then 0x80 else 0)"
proof -
  have "(h :: byte) AND push_bit n 1 = (if bit h n then push_bit n 1 else 0)" for n
    by (rule bit_word_eqI) (auto simp: bit_exp_iff bit_and_iff)
  from this [of 7] show ?thesis by (auto split: if_splits)
qed

definition wire_ops :: "byte set" where
  "wire_ops = {opContinuation, opText, opBinary, opClose, opPing, opPong}"

lemma first_byte:
  assumes "op \<in> wire_ops"
  shows "(if fin then op OR 0x80 else op) AND 0x70 = 0" "(if fin then op OR 0x80 else op) AND 0x0F = op"
    "(if fin then op OR 0x80 else op) AND 0x80 \<noteq> 0 \<longleftrightarrow> fin"
  using assms by (auto simp: wire_ops_def)

lemma first_byte_back: "h AND 0x70 = 0 \<Longrightarrow> (if h AND 0x80 \<noteq> 0 then (h AND 0x0F) OR 0x80 else h AND 0x0F) = (h :: byte)"
  using byte_split(1) [of h] top_bit [of h] by (auto simp: or.commute)

lemma low7: "unat ((h :: byte) AND 0x7F) < 128"
proof -
  have "h AND 0x7F = take_bit 7 h" by (simp add: take_bit_eq_mask mask_eq_exp_minus_1)
  then show ?thesis
    using take_bit_nat_less_exp [of 7 "unat h"] by (simp add: unsigned_take_bit_eq)
qed

section \<open>Lengths\<close>

text \<open>The bytes that carry a length, with the mask bit \<open>m\<close>.\<close>

definition len_code :: "byte \<Rightarrow> nat \<Rightarrow> byte list" where
  "len_code m n = (if n < 126 then [m OR of_nat n] else if n \<le> 0xFFFF then (m OR 126) # be16 n else (m OR 127) # be64 n)"

lemma appendFrame_code:
  "appendFrame b fin op p key = b @ (if fin then op OR 0x80 else op) # len_code (if key = None then 0 else 0x80) (length p) @
     (case key of None \<Rightarrow> p | Some k \<Rightarrow> k @ mask_bytes k p)"
  by (simp add: appendFrame_def len_code_def Let_def)

lemma ReadFull_Inr: "ReadFull n r = Inr (x, r') \<longleftrightarrow> length x = n \<and> unread r = x @ unread r' \<and> ending r' = ending r"
  by (cases r; cases r') (auto simp: ReadFull_def append_eq_conv_conj split: if_splits)

lemma low7_code: "m = 0 \<or> m = 0x80 \<Longrightarrow> n < 128 \<Longrightarrow> (m OR of_nat n) AND 0x7F = (of_nat n :: byte)"
  "m = 0 \<or> m = 0x80 \<Longrightarrow> n < 128 \<Longrightarrow> (m OR of_nat n) AND 0x80 = (m :: byte)"
proof -
  assume m: "m = 0 \<or> m = 0x80" and n: "n < 128"
  have "of_nat n = take_bit 7 (of_nat n :: byte)"
    using n by (simp add: take_bit_of_nat take_bit_nat_eq_self)
  then have low: "of_nat n AND 0x7F = (of_nat n :: byte)"
    by (simp add: take_bit_eq_mask mask_eq_exp_minus_1)
  then have "of_nat n AND 0x80 = (of_nat n AND (0x7F AND 0x80) :: byte)"
    by (metis and.assoc)
  then have "of_nat n AND 0x80 = (0 :: byte)" by simp
  with m low show "(m OR of_nat n) AND 0x7F = (of_nat n :: byte)" "(m OR of_nat n) AND 0x80 = (m :: byte)"
    by (auto simp: bit.conj_disj_distrib2)
qed

lemma len_code_inject: "m = 0 \<or> m = 0x80 \<Longrightarrow> len_code m n = h # bs \<Longrightarrow> h AND 0x80 = m"
  using low7_code(2) [of m n] low7_code(2) [of m 126] low7_code(2) [of m 127] by (auto simp: len_code_def split: if_splits)

lemma read_length_16:
  assumes "h AND 0x7F = 126"
  shows "read_length h r = Inr (n, r') \<longleftrightarrow>
    126 \<le> n \<and> n \<le> 0xFFFF \<and> unread r = be16 n @ unread r' \<and> ending r' = ending r"
proof
  assume l: "read_length h r = Inr (n, r')"
  then obtain b where b: "ReadFull 2 r = Inr (b, r')" "\<not> BigEndian b < 126" "n = unat (BigEndian b)"
    using assms by (auto simp: read_length_def Let_def split: sum.splits if_splits)
  then have f: "length b = 2" "unread r = b @ unread r'" "ending r' = ending r"
    by (simp_all add: ReadFull_Inr)
  have n: "n = be_nat b"
    using b(3) f(1) by (simp add: unat_BigEndian)
  have "126 \<le> n"
    using b(2,3) by (simp add: word_less_nat_alt)
  moreover have "n \<le> 0xFFFF"
    using be_nat_bound [of b] f(1) n by simp
  ultimately show "126 \<le> n \<and> n \<le> 0xFFFF \<and> unread r = be16 n @ unread r' \<and> ending r' = ending r"
    using f n be16_be_nat [OF f(1)] by simp
next
  assume a: "126 \<le> n \<and> n \<le> 0xFFFF \<and> unread r = be16 n @ unread r' \<and> ending r' = ending r"
  then have r: "ReadFull 2 r = Inr (be16 n, r')" by (simp add: ReadFull_Inr)
  have u: "unat (BigEndian (be16 n)) = n"
    using a by (simp add: unat_BigEndian be_nat_16)
  then have "\<not> BigEndian (be16 n) < 126"
    using a by (simp add: word_less_nat_alt)
  with r u assms show "read_length h r = Inr (n, r')"
    by (simp add: read_length_def)
qed

lemma top64: "drop_bit 63 (w :: 64 word) = 0 \<longleftrightarrow> unat w < 2 ^ 63"
  unfolding word_unat_eq_iff unat_drop_bit_eq unfolding drop_bit_eq_div by (simp add: div_eq_0_iff)

lemma read_length_64:
  assumes "h AND 0x7F = 127"
  shows "read_length h r = Inr (n, r') \<longleftrightarrow>
    0xFFFF < n \<and> n < 2 ^ 63 \<and> unread r = be64 n @ unread r' \<and> ending r' = ending r"
proof
  assume l: "read_length h r = Inr (n, r')"
  then obtain b where b: "ReadFull 8 r = Inr (b, r')" "drop_bit 63 (BigEndian b) = 0" "\<not> BigEndian b \<le> 0xFFFF" "n = unat (BigEndian b)"
    using assms by (auto simp: read_length_def Let_def split: sum.splits if_splits)
  then have f: "length b = 8" "unread r = b @ unread r'" "ending r' = ending r"
    by (simp_all add: ReadFull_Inr)
  have n: "n = be_nat b"
    using b(4) f(1) by (simp add: unat_BigEndian)
  have "n < 2 ^ 63" "0xFFFF < n"
    using b(2-4) by (simp_all only: top64 word_le_nat_alt) simp_all
  then show "0xFFFF < n \<and> n < 2 ^ 63 \<and> unread r = be64 n @ unread r' \<and> ending r' = ending r"
    using f n be64_be_nat [OF f(1)] by simp
next
  assume a: "0xFFFF < n \<and> n < 2 ^ 63 \<and> unread r = be64 n @ unread r' \<and> ending r' = ending r"
  then have r: "ReadFull 8 r = Inr (be64 n, r')" by (simp add: ReadFull_Inr)
  have u: "unat (BigEndian (be64 n)) = n"
    using a by (simp add: unat_BigEndian be_nat_64)
  then have "drop_bit 63 (BigEndian (be64 n)) = 0" "\<not> BigEndian (be64 n) \<le> 0xFFFF"
    using a by (simp_all only: top64 word_le_nat_alt) simp_all
  with r u assms show "read_length h r = Inr (n, r')"
    by (simp add: read_length_def)
qed

lemma read_length_Inr:
  assumes "m = h AND 0x80"
  shows "read_length h r = Inr (n, r') \<longleftrightarrow> n < 2 ^ 63 \<and> h # unread r = len_code m n @ unread r' \<and> ending r' = ending r"
proof -
  have h: "h = m OR (h AND 0x7F)"
    using byte_split(2) [of h] assms by simp
  have m: "m = 0 \<or> m = 0x80"
    using top_bit [of h] assms by (auto split: if_splits)
  have code: "m OR of_nat k = h \<longleftrightarrow> h AND 0x7F = of_nat k" if "k < 128" for k
    using h low7_code(1) [OF m that] by auto
  note code126 = code [of 126, simplified] and code127 = code [of 127, simplified]
  consider "h AND 0x7F = 126" | "h AND 0x7F = 127" | "h AND 0x7F \<noteq> 126" "h AND 0x7F \<noteq> 127" by blast
  then show ?thesis
  proof cases
    case 1
    then have "h \<noteq> m OR of_nat n" if "n < 126"
      using code [of n] that by (auto simp: word_unat_eq_iff unat_of_nat)
    with 1 show ?thesis
      unfolding read_length_16 [OF 1] by (auto simp: len_code_def code126 code127 eq_commute [of h])
  next
    case 2
    then have "h \<noteq> m OR of_nat n" if "n < 126"
      using code [of n] that by (auto simp: word_unat_eq_iff unat_of_nat)
    with 2 show ?thesis
      unfolding read_length_64 [OF 2] by (auto simp: len_code_def code126 code127 eq_commute [of h])
  next
    case 3
    have "read_length h r = Inr (n, r') \<longleftrightarrow> n = unat (h AND 0x7F) \<and> r' = r"
      using 3 by (auto simp: read_length_def Let_def)
    moreover have "unat (h AND 0x7F) < 126"
      using 3 low7 [of h] by (auto simp: word_unat_eq_iff)
    moreover have "h = m OR of_nat n \<longleftrightarrow> n = unat (h AND 0x7F)" if "n < 126"
      using code [of n] that by (auto simp: word_unat_eq_iff unat_of_nat)
    ultimately show ?thesis
      using 3 by (cases r; cases r') (auto simp: len_code_def code126 code127 eq_commute [of h])
  qed
qed

lemma read_payload_Inr:
  "length g \<le> n \<Longrightarrow> read_payload n g r = Inr (p, r') \<longleftrightarrow>
     length p = n \<and> (\<exists>q. p = g @ q \<and> unread r = q @ unread r') \<and> ending r' = ending r"
proof (induction n g r rule: read_payload.induct)
  case (1 n g r)
  show ?case
  proof (cases "length g < n")
    case True
    let ?k = "min (n - length g) frameChunk"
    show ?thesis
    proof (cases "ReadFull ?k r")
      case (Inl e)
      then have "length (unread r) < ?k"
        by (auto simp: ReadFull_def split: if_splits)
      with True Inl show ?thesis by (subst read_payload.simps) auto
    next
      case (Inr cr)
      then obtain c r1 where c: "ReadFull ?k r = Inr (c, r1)" by (cases cr) auto
      then have f: "length c = ?k" "unread r = c @ unread r1" "ending r1 = ending r"
        by (simp_all add: ReadFull_Inr)
      have "read_payload n g r = read_payload n (g @ c) r1"
        using True c by (subst read_payload.simps) simp
      also have "\<dots> = Inr (p, r') \<longleftrightarrow> length p = n \<and> (\<exists>q. p = (g @ c) @ q \<and> unread r1 = q @ unread r') \<and> ending r' = ending r1"
        using 1(1) [OF True c refl] True f(1) by simp
      also have "\<dots> \<longleftrightarrow> length p = n \<and> (\<exists>q. p = g @ q \<and> unread r = q @ unread r') \<and> ending r' = ending r"
      proof -
        have "(\<exists>q. p = (g @ c) @ q \<and> unread r1 = q @ unread r') \<longleftrightarrow> (\<exists>q. p = g @ q \<and> unread r = q @ unread r')" if "length p = n"
        proof
          assume "\<exists>q. p = g @ q \<and> unread r = q @ unread r'"
          then obtain q where q: "p = g @ q" "c @ unread r1 = q @ unread r'" using f(2) by auto
          then have "length c \<le> length q" using that f(1) True by simp
          with q(2) obtain q' where "q = c @ q'" by (auto simp: append_eq_append_conv2)
          with q show "\<exists>q. p = (g @ c) @ q \<and> unread r1 = q @ unread r'" by auto
        qed (auto simp: f)
        with f(3) show ?thesis by auto
      qed
      finally show ?thesis .
    qed
  next
    case False
    with 1(2) have "n = length g" by simp
    then show ?thesis by (subst read_payload.simps) (cases r; cases r'; auto)
  qed
qed

section \<open>Frames\<close>

text \<open>What the reader of a frame asks of it, besides its length being within the field for it.\<close>

definition frame_ok :: "frame \<Rightarrow> int \<Rightarrow> int \<Rightarrow> bool" where
  "frame_ok f maxFrame room \<longleftrightarrow> f_op f \<in> wire_ops \<and> length (payload f) < 2 ^ 63 \<and> check_frame f (length (payload f)) maxFrame room = None"

lemma check_frame_payload [simp]: "check_frame (f\<lparr>payload := p\<rparr>) n mf room = check_frame f n mf room"
  by (simp add: check_frame_def)

lemma frame_of_bytes:
  assumes "readFrame r m mf room = Inr (f, r')"
  shows "frame_ok f mf room \<and> ending r' = ending r \<and> (\<exists>key. map_option length key = (if m then Some 4 else None) \<and>
    unread r = appendFrame [] (f_fin f) (f_op f) (payload f) key @ unread r')"
proof -
  obtain h r1 n r2 key r3 q where
    steps: "ReadFull 2 r = Inr (h, r1)" "h ! 0 AND 0x70 = 0" "h ! 0 AND 0x0F \<in> wire_ops" "(h ! 1 AND 0x80 \<noteq> 0) = m"
      "read_length (h ! 1) r1 = Inr (n, r2)"
      "check_frame \<lparr>f_fin = (h ! 0 AND 0x80 \<noteq> 0), f_op = h ! 0 AND 0x0F, payload = []\<rparr> n mf room = None"
      "(if m then ReadFull 4 r2 else Inr ([], r2)) = Inr (key, r3)" "read_payload n [] r3 = Inr (q, r')"
      "f = \<lparr>f_fin = (h ! 0 AND 0x80 \<noteq> 0), f_op = h ! 0 AND 0x0F, payload = if m then mask_bytes key q else q\<rparr>"
    using assms by (auto simp: readFrame_def Let_def wire_ops_def split: sum.splits if_splits option.splits)
  obtain a b where ab: "h = [a, b]"
    using steps(1) by (auto simp: ReadFull_Inr length_Suc_conv numeral_2_eq_2)
  have h: "unread r = h @ unread r1" "ending r1 = ending r"
    using steps(1) by (simp_all add: ReadFull_Inr)
  have len: "n < 2 ^ 63" "h ! 1 # unread r1 = len_code (if m then 0x80 else 0) n @ unread r2" "ending r2 = ending r1"
    using steps(5) top_bit [of "h ! 1"] steps(4) by (auto simp: read_length_Inr)
  have pay: "length q = n" "unread r3 = q @ unread r'" "ending r' = ending r3"
    using steps(8) by (auto simp: read_payload_Inr)
  have key: "if m then length key = 4 \<and> unread r2 = key @ unread r3 \<and> ending r3 = ending r2 else key = [] \<and> r3 = r2"
    using steps(7) by (auto simp: ReadFull_Inr split: if_splits)
  have first: "(if f_fin f then f_op f OR 0x80 else f_op f) = h ! 0"
    using first_byte_back [OF steps(2)] by (simp only: steps(9) frame.simps)
  have "unread r = appendFrame [] (f_fin f) (f_op f) (payload f) (if m then Some key else None) @ unread r'"
  proof (cases m)
    case True
    then have t: "unread r2 = key @ q @ unread r'" and k: "payload f = mask_bytes key q"
      using key pay(2) by (simp_all add: steps(9))
    have "unread r = (if f_fin f then f_op f OR 0x80 else f_op f) # len_code 0x80 n @ unread r2"
      using h(1) len(2) True unfolding ab first by simp
    then show ?thesis
      using True pay(1) t by (simp add: appendFrame_code k)
  next
    case False
    then have t: "unread r2 = q @ unread r'" and k: "payload f = q"
      using key pay(2) by (simp_all add: steps(9))
    have "unread r = (if f_fin f then f_op f OR 0x80 else f_op f) # len_code 0 n @ unread r2"
      using h(1) len(2) False unfolding ab first by simp
    then show ?thesis
      using False pay(1) t by (simp add: appendFrame_code k)
  qed
  moreover have "frame_ok f mf room"
  proof -
    have "check_frame f n mf room = check_frame \<lparr>f_fin = (h ! 0 AND 0x80 \<noteq> 0), f_op = h ! 0 AND 0x0F, payload = []\<rparr> n mf room"
      by (simp add: check_frame_def steps(9))
    then have "check_frame f n mf room = None" using steps(6) by (rule trans)
    moreover have "length (payload f) = n" "f_op f \<in> wire_ops" using pay(1) steps(3) by (simp_all add: steps(9))
    ultimately show ?thesis using len(1) by (simp add: frame_ok_def)
  qed
  ultimately show ?thesis
    using key len(3) h(2) pay(3) by (auto intro!: exI [of _ "if m then Some key else None"])
qed

lemma bytes_of_frame:
  assumes "frame_ok f mf room" "ending r' = ending r" "map_option length key = (if m then Some 4 else None)"
    "unread r = appendFrame [] (f_fin f) (f_op f) (payload f) key @ unread r'"
  shows "readFrame r m mf room = Inr (f, r')"
proof -
  let ?b = "if m then 0x80 else 0 :: byte" and ?n = "length (payload f)"
  let ?h0 = "if f_fin f then f_op f OR 0x80 else f_op f" and ?code = "len_code ?b (length (payload f))"
  let ?tail = "case key of None \<Rightarrow> payload f | Some k \<Rightarrow> k @ mask_bytes k (payload f)"
  have n: "?n < 2 ^ 63" and op: "f_op f \<in> wire_ops" and check: "check_frame f ?n mf room = None"
    using assms(1) by (simp_all add: frame_ok_def)
  have kb: "(if key = None then 0 else 0x80) = ?b"
    using assms(3) by (auto split: if_splits)
  have "?code \<noteq> []"
    by (simp add: len_code_def)
  then obtain h1 cs where code: "?code = h1 # cs" by (cases ?code) auto
  have r: "unread r = [?h0, h1] @ cs @ ?tail @ unread r'"
    using assms(4) code unfolding appendFrame_code kb by simp
  define r1 where "r1 = \<lparr>unread = cs @ ?tail @ unread r', ending = ending r\<rparr>"
  define r2 where "r2 = \<lparr>unread = ?tail @ unread r', ending = ending r\<rparr>"
  have s1: "ReadFull 2 r = Inr ([?h0, h1], r1)"
    using r by (simp add: ReadFull_Inr r1_def)
  have h1: "h1 AND 0x80 = ?b"
    using code by (rule len_code_inject [rotated]) simp
  have s2: "read_length h1 r1 = Inr (?n, r2)"
    unfolding read_length_Inr [OF h1 [symmetric]] using n code by (simp add: r1_def r2_def)
  have m: "(h1 AND 0x80 \<noteq> 0) = m"
    using h1 by simp
  obtain k q r3 where s3: "(if m then ReadFull 4 r2 else Inr ([], r2)) = Inr (k, r3)" "read_payload ?n [] r3 = Inr (q, r')"
      "(if m then mask_bytes k q else q) = payload f"
  proof (cases key)
    case None
    then have "\<not> m" using assms(3) by (auto split: if_splits)
    moreover have "read_payload ?n [] r2 = Inr (payload f, r')"
      using None assms(2) by (simp add: read_payload_Inr r2_def)
    ultimately show ?thesis using that by simp
  next
    case (Some k)
    then have m: m "length k = 4" using assms(3) by (auto split: if_splits)
    define r3 where "r3 = \<lparr>unread = mask_bytes k (payload f) @ unread r', ending = ending r\<rparr>"
    have "ReadFull 4 r2 = Inr (k, r3)" "read_payload ?n [] r3 = Inr (mask_bytes k (payload f), r')"
      using Some m assms(2) by (simp_all add: ReadFull_Inr read_payload_Inr r2_def r3_def)
    with m that show ?thesis by simp
  qed
  have f0: "check_frame \<lparr>f_fin = f_fin f, f_op = f_op f, payload = []\<rparr> ?n mf room = None"
  proof -
    have "check_frame \<lparr>f_fin = f_fin f, f_op = f_op f, payload = []\<rparr> ?n mf room = check_frame f ?n mf room"
      by (simp add: check_frame_def)
    then show ?thesis using check by (rule trans)
  qed
  have ops: "f_op f \<in> {opContinuation, opText, opBinary, opClose, opPing, opPong}"
    using op by (simp add: wire_ops_def)
  note fb = first_byte [OF op, of "f_fin f"]
  have fin: "(?h0 AND 0x80 \<noteq> 0) = f_fin f" by (rule fb(3))
  have "readFrame r m mf room = Inr (\<lparr>f_fin = f_fin f, f_op = f_op f, payload = payload f\<rparr>, r')"
    unfolding readFrame_def s1 Let_def sum.case prod.case nth_Cons_0 One_nat_def nth_Cons_Suc fb(1,2) fin m s2
    using ops f0 s3(3) by (simp add: s3(1,2))
  then show ?thesis by simp
qed

section \<open>The wire format\<close>

text \<open>
  The bytes of a frame, as RFC 6455 lays them out: the first has the fin bit and the opcode; the mask bit and the length follow, which is one byte up to
  125, two bytes after 126 up to 65535, and eight bytes after 127 above; \<open>of_nat\<close> takes the low eight bits. Then, where there is a key, the key, and the
  payload, each byte combined with the byte of the key at its place.\<close>

definition frame_bytes :: "bool \<Rightarrow> byte \<Rightarrow> byte list \<Rightarrow> byte list option \<Rightarrow> byte list" where
  "frame_bytes fin op p key =
     (let m = (case key of None \<Rightarrow> 0 | Some k \<Rightarrow> 128); n = length p
      in [(if fin then 128 else 0) + op] @
         (if n \<le> 125 then [m + of_nat n]
          else if n \<le> 65535 then [m + 126, of_nat (n div 256), of_nat n]
          else [m + 127, of_nat (n div 256 ^ 7), of_nat (n div 256 ^ 6), of_nat (n div 256 ^ 5), of_nat (n div 256 ^ 4),
            of_nat (n div 256 ^ 3), of_nat (n div 256 ^ 2), of_nat (n div 256), of_nat n]) @
         (case key of None \<Rightarrow> p | Some k \<Rightarrow> k @ map (\<lambda>i. p ! i XOR k ! (i mod 4)) [0..<n]))"

lemma mask_bit_plus: "n < 128 \<Longrightarrow> (0x80 :: byte) OR of_nat n = 0x80 + of_nat n"
proof -
  assume n: "n < 128"
  have "of_nat n AND 0x80 = (0 :: byte)"
    using low7_code(2) [of 0 n] n by simp
  then have "0x80 AND of_nat n = (0 :: byte)" by (simp add: and.commute)
  then show ?thesis by (metis word_plus_and_or add.left_neutral)
qed

lemma mask_bytes_at: "mask_bytes k p = map (\<lambda>i. p ! i XOR k ! (i mod 4)) [0..<length p]"
  by (rule nth_equalityI) (simp_all add: mask_bytes_def nth_enumerate_eq)

lemma appendFrame_bytes: "op \<in> wire_ops \<Longrightarrow> appendFrame b fin op p key = b @ frame_bytes fin op p key"
proof -
  assume op: "op \<in> wire_ops"
  have 1: "(if fin then op OR 0x80 else op) = (if fin then 128 else 0) + op"
    using op by (auto simp: wire_ops_def)
  have 2: "(if key = None then 0 else 0x80 :: byte) = (case key of None \<Rightarrow> 0 | Some k \<Rightarrow> 128)" by (cases key) simp_all
  have 3: "len_code m n = (if n \<le> 125 then [m + of_nat n]
          else if n \<le> 65535 then [m + 126, of_nat (n div 256), of_nat n]
          else [m + 127, of_nat (n div 256 ^ 7), of_nat (n div 256 ^ 6), of_nat (n div 256 ^ 5), of_nat (n div 256 ^ 4),
            of_nat (n div 256 ^ 3), of_nat (n div 256 ^ 2), of_nat (n div 256), of_nat n])"
    if "m = 0 \<or> m = 0x80" for m :: byte and n
    using that mask_bit_plus [of n] by (auto simp: len_code_def be16_def be64_def)
  show ?thesis
    unfolding appendFrame_code frame_bytes_def Let_def 1 2 mask_bytes_at
    by (subst 3) (cases key, simp_all)
qed

text \<open>
  C34: there is one way to write a frame. Reading accepts a frame exactly from the bytes the wire format gives it, with a masking key where the
  direction calls for one and none where it does not: so the length is in the shortest form that fits, the opcode a known one and no reserved bit
  set. It is accepted only if a control frame is whole and has at most 125 bytes, if no frame is longer than the limit on a frame, and if one that carries
  data fits in the room left for its message (less than nothing being no bound); a length never has its top bit set. Those are the bytes that writing the frame gives, and what
  follows the frame stays unread.
\<close>

theorem frame_accepted_iff:
  "readFrame r masked maxFrame room = Inr (f, r') \<longleftrightarrow>
     f_op f \<in> {0x0, 0x1, 0x2, 0x8, 0x9, 0xA} \<and>
     (f_op f \<in> {0x0, 0x1, 0x2} \<or> f_fin f \<and> length (payload f) \<le> 125) \<and>
     int (length (payload f)) \<le> maxFrame \<and>
     (f_op f \<in> {0x8, 0x9, 0xA} \<or> room < 0 \<or> int (length (payload f)) \<le> room) \<and>
     length (payload f) < 2 ^ 63 \<and> ending r' = ending r \<and>
     (\<exists>key. map_option length key = (if masked then Some 4 else None) \<and>
        unread r = frame_bytes (f_fin f) (f_op f) (payload f) key @ unread r' \<and>
        appendFrame [] (f_fin f) (f_op f) (payload f) key = frame_bytes (f_fin f) (f_op f) (payload f) key)"
proof -
  have read: "readFrame r masked maxFrame room = Inr (f, r') \<longleftrightarrow>
     frame_ok f maxFrame room \<and> ending r' = ending r \<and>
     (\<exists>key. map_option length key = (if masked then Some 4 else None) \<and>
        unread r = appendFrame [] (f_fin f) (f_op f) (payload f) key @ unread r')"
    using frame_of_bytes bytes_of_frame by blast
  have ok: "frame_ok f maxFrame room \<longleftrightarrow> f_op f \<in> {0x0, 0x1, 0x2, 0x8, 0x9, 0xA} \<and>
     (f_op f \<in> {0x0, 0x1, 0x2} \<or> f_fin f \<and> length (payload f) \<le> 125) \<and>
     int (length (payload f)) \<le> maxFrame \<and>
     (f_op f \<in> {0x8, 0x9, 0xA} \<or> room < 0 \<or> int (length (payload f)) \<le> room) \<and> length (payload f) < 2 ^ 63"
  proof (cases "f_op f \<in> wire_ops")
    case True
    then have kind: "opClose \<le> f_op f \<longleftrightarrow> f_op f \<in> {0x8, 0x9, 0xA}" "f_op f < opClose \<longleftrightarrow> f_op f \<in> {0x0, 0x1, 0x2}"
      "f_op f \<in> {0x8, 0x9, 0xA} \<longleftrightarrow> f_op f \<notin> {0x0, 0x1, 0x2}"
      by (auto simp: wire_ops_def word_le_nat_alt word_less_nat_alt)
    have "f_op f \<in> {0x0, 0x1, 0x2, 0x8, 0x9, 0xA}" using True by (simp add: wire_ops_def)
    with True show ?thesis
      unfolding frame_ok_def check_frame_def kind(1,2) unfolding kind(3) by (cases "f_op f \<in> {0x0, 0x1, 0x2}") (simp_all add: not_le not_less del: insert_iff)
  next
    case False
    then show ?thesis by (simp add: frame_ok_def wire_ops_def)
  qed
  have wire: "appendFrame [] (f_fin f) (f_op f) (payload f) key = frame_bytes (f_fin f) (f_op f) (payload f) key"
    if "f_op f \<in> {0x0, 0x1, 0x2, 0x8, 0x9, 0xA}" for key
    using appendFrame_bytes [of "f_op f" "[]"] that by (simp add: wire_ops_def)
  have "appendFrame [] (f_fin f) (f_op f) (payload f) key = frame_bytes (f_fin f) (f_op f) (payload f) key" if "frame_ok f maxFrame room" for key
    using wire that by (simp add: frame_ok_def wire_ops_def)
  then have "readFrame r masked maxFrame room = Inr (f, r') \<longleftrightarrow>
     frame_ok f maxFrame room \<and> ending r' = ending r \<and>
     (\<exists>key. map_option length key = (if masked then Some 4 else None) \<and>
        unread r = frame_bytes (f_fin f) (f_op f) (payload f) key @ unread r' \<and>
        appendFrame [] (f_fin f) (f_op f) (payload f) key = frame_bytes (f_fin f) (f_op f) (payload f) key)"
    using read by metis
  then show ?thesis
    unfolding ok by (simp only: conj_assoc)
qed

end
