(* ===== verification/ConnLaws.thy ===== *)
theory ConnLaws
  imports FrameLaws
begin

text \<open>
  What a connection promises: a message comes back as it was sent however it was cut up, a stream comes back byte for byte, a
  peer cannot send more than the limits, and nothing follows a close.
\<close>

section \<open>Writes\<close>

lemma finish_simps [simp]:
  "isClosed (finish c)" "is_client (finish c) = is_client c" "limits (finish c) = limits c" "written (finish c) = written c"
  "sentClose (finish c) = sentClose c" "attempts (finish c) = attempts c" "peerClose (finish c) = peerClose c" "gotClose (finish c) = gotClose c"
  by (simp_all add: finish_def)

lemma writeLocked_keeps [simp]:
  "is_client (snd (writeLocked E op p c)) = is_client c" "limits (snd (writeLocked E op p c)) = limits c"
  "sentClose (snd (writeLocked E op p c)) = sentClose c" "peerClose (snd (writeLocked E op p c)) = peerClose c"
  by (simp_all add: writeLocked_def Let_def split: sum.splits outcome.splits)

lemma ws_write_keeps [simp]:
  "is_client (snd (ws_write E op p c)) = is_client c" "limits (snd (ws_write E op p c)) = limits c"
  "sentClose (snd (ws_write E op p c)) = sentClose c" "peerClose (snd (ws_write E op p c)) = peerClose c"
  by (simp_all add: ws_write_def)

text \<open>A network on which every write goes through, and a random source that gives keys of four bytes.\<close>

definition sound_peer :: "peer \<Rightarrow> bool" where
  "sound_peer E \<longleftrightarrow> (\<forall>n. write_outcome E n = Written) \<and> (\<forall>n. \<exists>k. rand_key E n = Inr k \<and> length k = 4)"

lemma writeLocked_sound:
  assumes "sound_peer E"
  shows "\<exists>key. map_option length key = (if is_client c then Some 4 else None) \<and>
    writeLocked E op p c = (None, c\<lparr>attempts := Suc (attempts c), written := written c @ [appendFrame [] True op p key]\<rparr>)"
proof -
  obtain k where k: "rand_key E (attempts c) = Inr k" "length k = 4" "write_outcome E (attempts c) = Written"
    using assms by (auto simp: sound_peer_def)
  show ?thesis
    by (rule exI [of _ "if is_client c then Some k else None"]) (simp add: writeLocked_def Let_def k)
qed

lemma ws_write_sound:
  assumes "sound_peer E" "ws_write E op p c = (e, c')"
  shows "(e = None \<or> e = Some ErrClosed) \<and> incoming c' = incoming c \<and> is_client c' = is_client c \<and> limits c' = limits c"
  using writeLocked_sound [OF assms(1), of c op p] assms(2) by (auto simp: ws_write_def split: if_splits)

section \<open>Messages\<close>

definition encode :: "(frame \<times> byte list option) list \<Rightarrow> byte list" where
  "encode fks = concat (map (\<lambda>(f, k). appendFrame [] (f_fin f) (f_op f) (payload f) k) fks)"

lemma encode_simps [simp]: "encode [] = []" "encode ((f, k) # fks) = appendFrame [] (f_fin f) (f_op f) (payload f) k @ encode fks"
  by (simp_all add: encode_def)

definition is_heartbeat :: "frame \<Rightarrow> bool" where
  "is_heartbeat f \<longleftrightarrow> (f_op f = opPing \<or> f_op f = opPong) \<and> f_fin f \<and> length (payload f) \<le> maxControl"

text \<open>The frames that finish a message, with pings and pongs among them, and the bytes they add to it.\<close>

inductive continues :: "frame list \<Rightarrow> byte list \<Rightarrow> bool" where
  continues_beat: "is_heartbeat f \<Longrightarrow> continues fs m \<Longrightarrow> continues (f # fs) m"
| continues_last: "f_op f = opContinuation \<Longrightarrow> f_fin f \<Longrightarrow> continues [f] (payload f)"
| continues_more: "f_op f = opContinuation \<Longrightarrow> \<not> f_fin f \<Longrightarrow> continues fs m \<Longrightarrow> continues (f # fs) (payload f @ m)"

inductive message_frames :: "frame list \<Rightarrow> MessageType \<Rightarrow> byte list \<Rightarrow> bool" where
  message_beat: "is_heartbeat f \<Longrightarrow> message_frames fs t m \<Longrightarrow> message_frames (f # fs) t m"
| message_whole: "f_op f = opcode t \<Longrightarrow> f_fin f \<Longrightarrow> message_frames [f] t (payload f)"
| message_first: "f_op f = opcode t \<Longrightarrow> \<not> f_fin f \<Longrightarrow> continues fs m \<Longrightarrow> message_frames (f # fs) t (payload f @ m)"

text \<open>Frames a peer in its role may send, each within the limit on frames.\<close>

definition fits :: "Conn \<Rightarrow> (frame \<times> byte list option) list \<Rightarrow> bool" where
  "fits c fks \<longleftrightarrow> (\<forall>(f, k) \<in> set fks. int (length (payload f)) \<le> MaxFrame (limits c) \<and> length (payload f) < 2 ^ 63 \<and>
     map_option length k = (if is_client c then None else Some 4))"

lemma fits_Cons [simp]: "fits c ((f, k) # fks) \<longleftrightarrow> int (length (payload f)) \<le> MaxFrame (limits c) \<and> length (payload f) < 2 ^ 63 \<and>
    map_option length k = (if is_client c then None else Some 4) \<and> fits c fks"
  by (auto simp: fits_def)

lemma fits_cong: "is_client c' = is_client c \<Longrightarrow> limits c' = limits c \<Longrightarrow> fits c' fks = fits c fks"
  by (simp add: fits_def)

lemma op_order [simp]: "opContinuation < opClose" "opText < opClose" "opBinary < opClose" "\<not> opClose \<le> opContinuation" "\<not> opClose \<le> opText"
  "\<not> opClose \<le> opBinary" "opClose \<le> opPing" "opClose \<le> opPong" "\<not> opPing < opClose" "\<not> opPong < opClose"
  by (simp_all add: word_less_nat_alt word_le_nat_alt)

lemma frame_ok_data:
  "f_op f = opContinuation \<or> f_op f = opcode t \<Longrightarrow> int (length (payload f)) \<le> mf \<Longrightarrow> length (payload f) < 2 ^ 63 \<Longrightarrow>
   int (length (payload f)) \<le> room \<Longrightarrow> frame_ok f mf room"
  by (auto simp: frame_ok_def check_frame_def wire_ops_def opcode_def split: MessageType.splits)

lemma frame_ok_beat:
  "is_heartbeat f \<Longrightarrow> int (length (payload f)) \<le> mf \<Longrightarrow> length (payload f) < 2 ^ 63 \<Longrightarrow> frame_ok f mf room"
  by (auto simp: frame_ok_def check_frame_def wire_ops_def is_heartbeat_def)

lemma read_round_frame:
  assumes "frame_ok f (MaxFrame (limits c)) (MaxMessage (limits c) - int (length (got p)))"
    "map_option length k = (if is_client c then None else Some 4)"
    "unread (incoming c) = appendFrame [] (f_fin f) (f_op f) (payload f) k @ bs"
  shows "read_round E p c = handle_frame E f p (c\<lparr>incoming := \<lparr>unread = bs, ending = ending (incoming c)\<rparr>\<rparr>)"
proof -
  have "readFrame (incoming c) (\<not> is_client c) (MaxFrame (limits c)) (MaxMessage (limits c) - int (length (got p))) =
      Inr (f, \<lparr>unread = bs, ending = ending (incoming c)\<rparr>)"
    by (rule bytes_of_frame [OF assms(1)]) (use assms(2,3) in auto)
  then show ?thesis by (simp add: read_round_def)
qed

lemma handle_beat:
  assumes "sound_peer E" "is_heartbeat f"
  shows "\<exists>c'. handle_frame E f p c = (Goes_on p, c') \<and> incoming c' = incoming c \<and> is_client c' = is_client c \<and> limits c' = limits c"
proof (cases "f_op f = opPing")
  case True
  obtain e c' where w: "ws_write E opPong (payload f) c = (e, c')" by fastforce
  with True ws_write_sound [OF assms(1) w] show ?thesis
    by (auto simp: handle_frame_def)
next
  case False
  with assms(2) show ?thesis by (simp add: handle_frame_def is_heartbeat_def)
qed

lemma read_loop_on: "read_round E p c = (Goes_on p', c') \<Longrightarrow> read_loop E p c = read_loop E p' c'"
  by (subst read_loop.simps) simp

lemma read_loop_beat:
  assumes "sound_peer E" "is_heartbeat f" "fits c ((f, k) # fks)" "unread (incoming c) = encode ((f, k) # fks) @ rest"
  shows "\<exists>c'. read_loop E p c = read_loop E p c' \<and> unread (incoming c') = encode fks @ rest \<and>
    is_client c' = is_client c \<and> limits c' = limits c"
proof -
  let ?c = "c\<lparr>incoming := \<lparr>unread = encode fks @ rest, ending = ending (incoming c)\<rparr>\<rparr>"
  have "read_round E p c = handle_frame E f p ?c"
    by (rule read_round_frame [where k = k]) (use assms(3,4) frame_ok_beat [OF assms(2)] in auto)
  moreover obtain c' where "handle_frame E f p ?c = (Goes_on p, c')" "incoming c' = incoming ?c" "is_client c' = is_client ?c" "limits c' = limits ?c"
    using handle_beat [OF assms(1,2)] by blast
  ultimately show ?thesis
    using read_loop_on [of E p c p c'] by auto
qed

lemma take_data_more:
  "int (length (got p)) + int (length (payload f)) \<le> MaxMessage (limits c) \<Longrightarrow> \<not> f_fin f \<Longrightarrow>
   take_data E f t p c = (Goes_on \<lparr>kind = Some t, got = got p @ payload f\<rparr>, c)"
  by (simp add: take_data_def Let_def)

lemma take_data_last:
  "int (length (got p)) + int (length (payload f)) \<le> MaxMessage (limits c) \<Longrightarrow> f_fin f \<Longrightarrow> t = Text \<longrightarrow> utf8_Valid (got p @ payload f) \<Longrightarrow>
   take_data E f t p c = (Returns (Inr (t, got p @ payload f)), c)"
  by (auto simp: take_data_def Let_def)

lemma handle_data:
  "f_op f = opContinuation \<Longrightarrow> kind p = Some t \<Longrightarrow> handle_frame E f p c = take_data E f t p c"
  "f_op f = opcode t \<Longrightarrow> kind p = None \<Longrightarrow> handle_frame E f p c = take_data E f t p c"
  by (cases t; simp add: handle_frame_def opcode_def)+

lemma read_continues:
  assumes "continues fs m" "sound_peer E" "map fst fks = fs" "fits c fks" "unread (incoming c) = encode fks @ rest"
    "int (length g) + int (length m) \<le> MaxMessage (limits c)" "t = Text \<longrightarrow> utf8_Valid (g @ m)"
  shows "\<exists>c'. read_loop E \<lparr>kind = Some t, got = g\<rparr> c = (Inr (t, g @ m), c') \<and> unread (incoming c') = rest"
  using assms
proof (induction arbitrary: fks c g rule: continues.induct)
  case (continues_beat f fs m)
  obtain k fks' where fks: "fks = (f, k) # fks'" "map fst fks' = fs"
    using continues_beat.prems(2) by (cases fks) auto
  obtain c' where c': "read_loop E \<lparr>kind = Some t, got = g\<rparr> c = read_loop E \<lparr>kind = Some t, got = g\<rparr> c'"
      "unread (incoming c') = encode fks' @ rest" "is_client c' = is_client c" "limits c' = limits c"
    using read_loop_beat continues_beat.prems continues_beat.hyps(1) fks(1) by blast
  then show ?case
    using continues_beat.IH [OF continues_beat.prems(1) fks(2), of c' g] continues_beat.prems(3,5,6) fks(1) fits_cong [OF c'(3,4)] by simp
next
  case (continues_last f)
  obtain k where fks: "fks = [(f, k)]"
    using continues_last.prems(2) by (cases fks) auto
  let ?p = "\<lparr>kind = Some t, got = g\<rparr>" and ?c = "c\<lparr>incoming := \<lparr>unread = rest, ending = ending (incoming c)\<rparr>\<rparr>"
  have "read_round E ?p c = handle_frame E f ?p ?c"
    by (rule read_round_frame [where k = k]) (use continues_last fks frame_ok_data [of f] in auto)
  also have "\<dots> = (Returns (Inr (t, g @ payload f)), ?c)"
    using continues_last by (simp add: handle_data take_data_last)
  finally show ?case
    by (subst read_loop.simps) simp
next
  case (continues_more f fs m)
  obtain k fks' where fks: "fks = (f, k) # fks'" "map fst fks' = fs"
    using continues_more.prems(2) by (cases fks) auto
  let ?p = "\<lparr>kind = Some t, got = g\<rparr>" and ?c = "c\<lparr>incoming := \<lparr>unread = encode fks' @ rest, ending = ending (incoming c)\<rparr>\<rparr>"
  have "read_round E ?p c = handle_frame E f ?p ?c"
    by (rule read_round_frame [where k = k]) (use continues_more fks frame_ok_data [of f] in auto)
  also have "\<dots> = (Goes_on \<lparr>kind = Some t, got = g @ payload f\<rparr>, ?c)"
    using continues_more by (simp add: handle_data take_data_more)
  finally have "read_loop E ?p c = read_loop E \<lparr>kind = Some t, got = g @ payload f\<rparr> ?c"
    by (rule read_loop_on)
  then show ?case
    using continues_more.IH [OF continues_more.prems(1) fks(2), of ?c "g @ payload f"] continues_more.prems(3,5,6) fks(1) fits_cong [of ?c c] by simp
qed

lemma read_message:
  assumes "message_frames fs t m" "sound_peer E" "map fst fks = fs" "fits c fks" "unread (incoming c) = encode fks @ rest"
    "int (length m) \<le> MaxMessage (limits c)" "t = Text \<longrightarrow> utf8_Valid m"
  shows "\<exists>c'. read_loop E no_part c = (Inr (t, m), c') \<and> unread (incoming c') = rest"
  using assms
proof (induction arbitrary: fks c rule: message_frames.induct)
  case (message_beat f fs t m)
  obtain k fks' where fks: "fks = (f, k) # fks'" "map fst fks' = fs"
    using message_beat.prems(2) by (cases fks) auto
  obtain c' where c': "read_loop E no_part c = read_loop E no_part c'"
      "unread (incoming c') = encode fks' @ rest" "is_client c' = is_client c" "limits c' = limits c"
    using read_loop_beat message_beat.prems message_beat.hyps(1) fks(1) by blast
  then show ?case
    using message_beat.IH [OF message_beat.prems(1) fks(2), of c'] message_beat.prems(3,5,6) fks(1) fits_cong [OF c'(3,4)] by simp
next
  case (message_whole f t)
  obtain k where fks: "fks = [(f, k)]"
    using message_whole.prems(2) by (cases fks) auto
  let ?c = "c\<lparr>incoming := \<lparr>unread = rest, ending = ending (incoming c)\<rparr>\<rparr>"
  have "read_round E no_part c = handle_frame E f no_part ?c"
    by (rule read_round_frame [where k = k]) (use message_whole fks frame_ok_data [of f t] in \<open>auto simp: no_part_def\<close>)
  also have "\<dots> = (Returns (Inr (t, payload f)), ?c)"
    using message_whole by (simp add: handle_data take_data_last no_part_def)
  finally show ?case
    by (subst read_loop.simps) simp
next
  case (message_first f t fs m)
  obtain k fks' where fks: "fks = (f, k) # fks'" "map fst fks' = fs"
    using message_first.prems(2) by (cases fks) auto
  let ?c = "c\<lparr>incoming := \<lparr>unread = encode fks' @ rest, ending = ending (incoming c)\<rparr>\<rparr>"
  have "read_round E no_part c = handle_frame E f no_part ?c"
    by (rule read_round_frame [where k = k]) (use message_first fks frame_ok_data [of f t] in \<open>auto simp: no_part_def\<close>)
  also have "\<dots> = (Goes_on \<lparr>kind = Some t, got = payload f\<rparr>, ?c)"
    using message_first by (simp add: handle_data take_data_more no_part_def)
  finally have "read_loop E no_part c = read_loop E \<lparr>kind = Some t, got = payload f\<rparr> ?c"
    by (rule read_loop_on)
  then show ?case
    using read_continues [OF message_first.hyps(3) message_first.prems(1) fks(2), of ?c rest "payload f" t]
      message_first.prems(3,5,6) fks(1) fits_cong [of ?c c] by simp
qed

text \<open>
  A message comes back as it was sent. However a peer cuts a message into frames and whatever pings and pongs it sends among
  them, one read returns the whole message, its fragments in order, and leaves what follows unread; the pings are answered on
  the way. It holds for every message within the limits, of UTF-8 if it is text.
\<close>

theorem message_as_sent:
  assumes "sound_peer E" "\<not> isClosed c" "message_frames (map fst fks) t m" "fits c fks" "unread (incoming c) = encode fks @ rest"
    "int (length m) \<le> MaxMessage (limits c)" "t = Text \<longrightarrow> utf8_Valid m"
  shows "\<exists>c'. ReadMessage E c = (Inr (t, m), c') \<and> unread (incoming c') = rest"
  using read_message [OF assms(3,1) refl assms(4-7)] assms(2) by (simp add: ReadMessage_def)

definition sample_peer :: peer where
  "sample_peer = \<lparr>rand_key = \<lambda>n. Inr [1, 2, 3, of_nat n], write_outcome = \<lambda>n. Written\<rparr>"

lemma sample_peer_sound: "sound_peer sample_peer"
  by (simp add: sound_peer_def sample_peer_def)

definition sample_frames :: "(frame \<times> byte list option) list" where
  "sample_frames = [(\<lparr>f_fin = False, f_op = opText, payload = [72, 101]\<rparr>, None), (\<lparr>f_fin = True, f_op = opPing, payload = []\<rparr>, None),
     (\<lparr>f_fin = True, f_op = opContinuation, payload = [121]\<rparr>, None)]"

definition sample_conn :: "byte list \<Rightarrow> bool \<Rightarrow> Conn" where
  "sample_conn bs cl = newConn \<lparr>unread = bs, ending = EOF\<rparr> cl \<lparr>MaxFrame = 0, MaxMessage = 0\<rparr> ''''"

lemma sample_message: "message_frames (map fst sample_frames) Text [72, 101, 121]"
proof -
  have "continues [\<lparr>f_fin = True, f_op = opPing, payload = []\<rparr>, \<lparr>f_fin = True, f_op = opContinuation, payload = [121]\<rparr>] [121]"
    using continues_last [of "\<lparr>f_fin = True, f_op = opContinuation, payload = [121]\<rparr>"] by (auto intro!: continues_beat simp: is_heartbeat_def)
  then show ?thesis
    using message_first [of "\<lparr>f_fin = False, f_op = opText, payload = [72, 101]\<rparr>" Text] by (simp add: sample_frames_def opcode_def)
qed

theorem message_as_sent_witness:
  "\<exists>c'. ReadMessage sample_peer (sample_conn (encode sample_frames) True) = (Inr (Text, [72, 101, 121]), c')"
proof -
  let ?c = "sample_conn (encode sample_frames) True"
  have "\<not> isClosed ?c" "fits ?c sample_frames" "unread (incoming ?c) = encode sample_frames @ []" "int 3 \<le> MaxMessage (limits ?c)"
    by (simp_all add: sample_conn_def newConn_def orDefault_def sample_frames_def fits_def)
  then show ?thesis
    using message_as_sent [OF sample_peer_sound _ sample_message, of ?c "[]"] by auto
qed

section \<open>Limits\<close>

lemma ws_fail_closes [simp]: "isClosed (snd (ws_fail E err c))" "isClosed (snd (failing E err c))"
proof -
  show f: "isClosed (snd (ws_fail E err c))" by (cases err) (simp_all add: ws_fail_def)
  show "isClosed (snd (failing E err c))" using f by (simp add: failing_def split_beta)
qed

lemma handle_frame_limits: "handle_frame E f p c = (Goes_on p', c') \<Longrightarrow> limits c' = limits c"
  using ws_write_keeps(2) [of E opPong "payload f" c]
  by (auto simp: handle_frame_def take_data_def Let_def simp del: ws_write_keeps split: if_splits option.splits prod.splits)

definition good_round :: "Limits \<Rightarrow> round \<times> Conn \<Rightarrow> bool" where
  "good_round l x = (case x of
       (Goes_on p, c) \<Rightarrow> limits c = l
     | (Returns (Inr (t, m)), c) \<Rightarrow> int (length m) \<le> MaxMessage l \<and> (t = Binary \<or> utf8_Valid m)
     | (Returns (Inl e), c) \<Rightarrow> isClosed c)"

lemma good_failing [simp]: "good_round l (failing E e c)"
  using ws_fail_closes(1) [of E e c] by (simp add: good_round_def failing_def split_beta)

lemma good_take_data: "good_round (limits c) (take_data E f t p c)"
  by (cases t) (simp_all add: take_data_def good_round_def [of _ "(_, _)"] Let_def)

lemma good_take_close: "good_round l (take_close E p c)"
  by (simp add: take_close_def good_round_def [of _ "(_, _)"] Let_def split: sum.splits)

lemma good_handle_frame: "good_round (limits c) (handle_frame E f p c)"
proof (cases "f_op f = opPing")
  case True
  obtain e c' where w: "ws_write E opPong (payload f) c = (e, c')" by fastforce
  then have "limits c' = limits c"
    using ws_write_keeps(2) [of E opPong "payload f" c] by simp
  with True w show ?thesis
    by (simp add: handle_frame_def good_round_def [of _ "(_, _)"] split: option.splits)
next
  case False
  then show ?thesis
    using good_take_data [of c E f] good_take_close
    by (simp add: handle_frame_def good_round_def [of _ "(_, _)"] split: option.splits)
qed

lemma good_read_round: "good_round (limits c) (read_round E p c)"
  using good_handle_frame [of "c\<lparr>incoming := r\<rparr>" for r] by (simp add: read_round_def split: sum.splits)

lemma read_loop_good:
  "case read_loop E p c of (Inr (t, m), c') \<Rightarrow> int (length m) \<le> MaxMessage (limits c) \<and> (t = Binary \<or> utf8_Valid m) | (Inl e, c') \<Rightarrow> isClosed c'"
proof (induction E p c rule: read_loop.induct)
  case (1 E p c)
  obtain x c1 where r: "read_round E p c = (x, c1)" by fastforce
  note g = good_read_round [of c E p, unfolded r]
  show ?case
  proof (cases x)
    case (Goes_on p')
    with g have l: "limits c1 = limits c" by (simp add: good_round_def)
    have "read_loop E p c = read_loop E p' c1"
      using r Goes_on by (simp add: read_loop_on)
    with 1 [OF r [symmetric] Goes_on] show ?thesis unfolding l by simp
  next
    case (Returns y)
    then have "read_loop E p c = (y, c1)"
      using r by (subst read_loop.simps) simp
    with g Returns show ?thesis by (auto simp: good_round_def split: sum.splits)
  qed
qed

text \<open>
  What a peer sends is bounded. Whatever arrives, a read returns a message no longer than the limit, of valid UTF-8 if it is
  text, or it returns an error and the connection is closed for good.
\<close>

theorem message_bounded:
  "case ReadMessage E c of
     (Inr (t, m), c') \<Rightarrow> int (length m) \<le> MaxMessage (limits c) \<and> (t = Binary \<or> utf8_Valid m)
   | (Inl e, c') \<Rightarrow> isClosed c'"
  using read_loop_good [of c E no_part] by (simp add: ReadMessage_def)

section \<open>Nothing follows a close\<close>

definition is_close_frame :: "byte list \<Rightarrow> bool" where
  "is_close_frame b \<longleftrightarrow> b \<noteq> [] \<and> hd b AND 0x0F = opClose"

definition shut :: "Conn \<Rightarrow> bool" where
  "shut c \<longleftrightarrow> sentClose c \<or> isClosed c"

text \<open>A close frame is written at most once and nothing after it; \<open>orderly\<close> also says that a step keeps both.\<close>

definition one_close :: "Conn \<Rightarrow> bool" where
  "one_close c \<longleftrightarrow> (\<forall>b \<in> set (if sentClose c then butlast (written c) else written c). \<not> is_close_frame b)"

definition orderly :: "Conn \<Rightarrow> Conn \<Rightarrow> bool" where
  "orderly c c' \<longleftrightarrow> (shut c \<longrightarrow> written c' = written c \<and> shut c') \<and> (sentClose c \<longrightarrow> sentClose c') \<and> (one_close c \<longrightarrow> one_close c')"

lemma orderly_refl [simp]: "orderly c c"
  by (simp add: orderly_def)

lemma orderly_trans: "orderly c c' \<Longrightarrow> orderly c' c'' \<Longrightarrow> orderly c c''"
  by (auto simp: orderly_def)

lemma orderly_same: "written c' = written c \<Longrightarrow> sentClose c' = sentClose c \<Longrightarrow> isClosed c \<longrightarrow> isClosed c' \<Longrightarrow> orderly c c'"
  by (auto simp: orderly_def shut_def one_close_def)

lemma orderly_finish [simp]: "orderly c (finish c)"
  by (rule orderly_same) simp_all

lemma frame_op: "op \<in> wire_ops \<Longrightarrow> is_close_frame (take k (appendFrame [] True op p key)) \<longrightarrow> op = opClose"
  using first_byte(2) [of op True] by (cases k) (auto simp: is_close_frame_def appendFrame_code)

lemma writeLocked_cases:
  assumes "writeLocked E op p c = (e, c')"
  obtains "written c' = written c" | k key where "written c' = written c @ [take k (appendFrame [] True op p key)]"
proof (cases "if is_client c then map_sum id Some (rand_key E (attempts c)) else Inr None")
  case (Inl x)
  with assms have "written c' = written c" by (auto simp: writeLocked_def split: if_splits)
  then show ?thesis by (rule that(1))
next
  case (Inr key)
  let ?b = "appendFrame [] True op p key"
  show ?thesis
  proof (cases "write_outcome E (attempts c)")
    case Written
    with Inr assms have "written c' = written c @ [take (length ?b) ?b]"
      by (auto simp: writeLocked_def Let_def)
    then show ?thesis by (rule that(2))
  next
    case (Partial k x)
    with Inr assms have "written c' = written c @ [take k ?b]"
      by (auto simp: writeLocked_def Let_def split: if_splits)
    then show ?thesis by (rule that(2))
  qed
qed

lemma orderly_ws_write: "op \<in> wire_ops \<Longrightarrow> op \<noteq> opClose \<Longrightarrow> orderly c (snd (ws_write E op p c))"
proof -
  assume op: "op \<in> wire_ops" "op \<noteq> opClose"
  obtain e c' where w: "writeLocked E op p c = (e, c')" by fastforce
  then have s: "sentClose c' = sentClose c"
    using writeLocked_keeps(3) [of E op p c] by simp
  from w have "\<not> shut c \<Longrightarrow> orderly c c'"
  proof (cases rule: writeLocked_cases)
    case (2 k key)
    assume "\<not> shut c"
    with 2 s frame_op [OF op(1), of k p key] op(2) show ?thesis
      by (auto simp: orderly_def shut_def one_close_def)
  qed (use s in \<open>auto simp: orderly_def shut_def one_close_def\<close>)
  with w show ?thesis by (auto simp: ws_write_def shut_def)
qed

lemma orderly_sendClose: "orderly c (snd (sendClose E code why c))"
proof (cases "shut c")
  case False
  let ?c = "c\<lparr>sentClose := True\<rparr>"
  obtain p e c' where w: "sendClose E code why c = (e, c')" "writeLocked E opClose p ?c = (e, c')"
    using False by (cases "sendClose E code why c") (auto simp: sendClose_def shut_def)
  have s: "sentClose c'"
    using w(2) writeLocked_keeps(3) [of E opClose p ?c] by simp
  from w(2) have "written c' = written c \<or> (\<exists>b. written c' = written c @ [b])"
    by (cases rule: writeLocked_cases) auto
  with False s have "orderly c c'"
    by (auto simp: orderly_def shut_def one_close_def dest: in_set_butlastD)
  with w show ?thesis by simp
qed (simp add: sendClose_def shut_def)

lemma orderly_failing: "orderly c (snd (failing E e c))"
proof -
  have "orderly c (snd (ws_fail E e c))"
    using orderly_trans [OF orderly_sendClose orderly_finish] by (cases e) (simp_all add: ws_fail_def)
  then show ?thesis by (simp add: failing_def split_beta)
qed

lemma orderly_take_close: "orderly c (snd (take_close E p c))"
proof (cases "checkClose p")
  case (Inl e)
  then show ?thesis by (simp add: take_close_def orderly_failing)
next
  case (Inr cw)
  obtain code why where "cw = (code, why)" by fastforce
  moreover have "orderly c (c\<lparr>gotClose := True, peerClose := x\<rparr>)" for x
    by (rule orderly_same) simp_all
  ultimately show ?thesis
    using Inr orderly_trans [OF _ orderly_trans [OF orderly_sendClose orderly_finish]] by (simp add: take_close_def Let_def)
qed

lemma orderly_take_data: "orderly c (snd (take_data E f t p c))"
  by (simp add: take_data_def Let_def orderly_failing)

lemma orderly_handle: "orderly c (snd (handle_frame E f p c))"
proof (cases "f_op f = opPing")
  case True
  obtain e c' where w: "ws_write E opPong (payload f) c = (e, c')" by fastforce
  have "orderly c c'"
    using orderly_ws_write [of opPong c E "payload f"] w by (simp add: wire_ops_def)
  with True w show ?thesis
    using orderly_trans [OF _ orderly_failing] by (simp add: handle_frame_def split: option.splits)
qed (simp add: handle_frame_def orderly_take_close orderly_take_data orderly_failing split: option.splits)

lemma orderly_read_round: "orderly c (snd (read_round E p c))"
proof (cases "readFrame (incoming c) (\<not> is_client c) (MaxFrame (limits c)) (MaxMessage (limits c) - int (length (got p)))")
  case (Inr fr)
  have "orderly c (c\<lparr>incoming := r\<rparr>)" for r
    by (rule orderly_same) simp_all
  with Inr show ?thesis
    using orderly_trans [OF _ orderly_handle] by (simp add: read_round_def split_beta)
qed (simp add: read_round_def orderly_failing)

lemma orderly_close: "CloseWith E rd code why c = (e, after, c') \<Longrightarrow> orderly c c'"
  using orderly_sendClose [of c E code why] orderly_trans [OF orderly_sendClose orderly_finish, of c E code why]
  by (auto simp: CloseWith_def split: if_splits option.splits prod.splits)

lemma orderly_drain: "drain_round c = (fin, c') \<Longrightarrow> orderly c c'"
  by (rule orderly_same) (auto simp: drain_round_def Let_def finish_def split: sum.splits if_splits)

lemma orderly_step: "ws_step E l l' \<Longrightarrow> orderly (lv_conn l) (lv_conn l')"
proof (induction rule: ws_step.induct)
  case (read_goes_on l p p' c)
  then show ?case using orderly_read_round [of "lv_conn l" E p] by simp
next
  case (read_returns l p x c)
  then show ?case using orderly_read_round [of "lv_conn l" E p] by simp
next
  case (writes l t p)
  have "opcode t \<in> wire_ops" "opcode t \<noteq> opClose" by (cases t; simp add: opcode_def wire_ops_def)+
  then show ?case by (simp add: WriteMessage_def orderly_ws_write)
next
  case (pings l)
  then show ?case by (simp add: Ping_def orderly_ws_write wire_ops_def)
next
  case (closes l code why e after c)
  then show ?case using orderly_close by simp
next
  case (drains l fin c)
  then show ?case using orderly_drain by simp
qed (simp_all add: orderly_same)

lemma orderly_steps: "(ws_step E)\<^sup>*\<^sup>* l l' \<Longrightarrow> orderly (lv_conn l) (lv_conn l')"
  by (induction rule: rtranclp_induct) (auto intro: orderly_trans orderly_step)

text \<open>
  C33: nothing follows a close. In any interleaving of a reader with writes, pings and closes from any number of callers, with
  breaks and failed writes, the connection writes at most one close frame and nothing after it; once it has sent its close or is
  closed, it never writes again.
\<close>

theorem close_is_last:
  assumes "(ws_step E)\<^sup>*\<^sup>* \<lparr>lv_conn = newConn r cl lim proto, reading = None, draining = False\<rparr> l" "(ws_step E)\<^sup>*\<^sup>* l l'"
  shows "(\<forall>b \<in> set (butlast (written (lv_conn l))). \<not> is_close_frame b) \<and> (shut (lv_conn l) \<longrightarrow> written (lv_conn l') = written (lv_conn l))"
proof -
  have "one_close (lv_conn l)"
    using orderly_steps [OF assms(1)] by (simp add: orderly_def one_close_def newConn_def)
  then show ?thesis
    using orderly_steps [OF assms(2)] by (auto simp: orderly_def one_close_def dest: in_set_butlastD split: if_splits)
qed

theorem close_is_last_witness:
  "shut (snd (sendClose sample_peer CloseNormal [] (sample_conn [] True))) \<and>
   written (snd (Ping sample_peer (snd (sendClose sample_peer CloseNormal [] (sample_conn [] True))))) =
   written (snd (sendClose sample_peer CloseNormal [] (sample_conn [] True)))"
proof -
  let ?r = "\<lparr>unread = [], ending = EOF\<rparr> :: reader" and ?bounds = "\<lparr>MaxFrame = 0, MaxMessage = 0\<rparr> :: Limits"
  let ?c = "snd (sendClose sample_peer CloseNormal [] (sample_conn [] True))"
  let ?init = "\<lparr>lv_conn = newConn ?r True ?bounds '''', reading = None, draining = False\<rparr>"
  let ?after = "\<lparr>lv_conn = ?c, reading = None, draining = True\<rparr>"
  have c0: "newConn ?r True ?bounds '''' = sample_conn [] True" by (simp add: sample_conn_def)
  have close: "CloseWith sample_peer False CloseNormal [] (sample_conn [] True) = (None, Drains, ?c)"
    by (simp add: CloseWith_def sendClose_def writeLocked_def sample_peer_def sample_conn_def newConn_def Let_def)
  have step1: "ws_step sample_peer ?init ?after"
    using closes [of sample_peer ?init CloseNormal "[]" None Drains ?c] close c0 by simp
  have step2: "ws_step sample_peer ?after (?after\<lparr>lv_conn := snd (Ping sample_peer ?c)\<rparr>)"
    using pings [of sample_peer ?after] by simp
  have "shut ?c"
    by (simp add: shut_def sendClose_def writeLocked_def sample_peer_def sample_conn_def newConn_def Let_def)
  then show ?thesis
    using close_is_last [OF r_into_rtranclp [of "ws_step sample_peer", OF step1] r_into_rtranclp [of "ws_step sample_peer", OF step2]] by simp
qed

section \<open>Streams\<close>

text \<open>The frames a stream writes: whole binary messages of at most a chunk, none of them empty.\<close>

definition stream_frames :: "bool \<Rightarrow> nat \<Rightarrow> (frame \<times> byte list option) list \<Rightarrow> bool" where
  "stream_frames cl k fks \<longleftrightarrow> (\<forall>(f, key) \<in> set fks. f_fin f \<and> f_op f = opBinary \<and> payload f \<noteq> [] \<and> length (payload f) \<le> k \<and>
     map_option length key = (if cl then Some 4 else None))"

definition sent_bytes :: "(frame \<times> byte list option) list \<Rightarrow> byte list" where
  "sent_bytes fks = concat (map (\<lambda>x. payload (fst x)) fks)"

lemma sent_bytes_simps [simp]: "sent_bytes [] = []" "sent_bytes ((f, k) # fks) = payload f @ sent_bytes fks"
  by (simp_all add: sent_bytes_def)

lemma write_chunks_frames:
  assumes "sound_peer E" "\<not> shut c" "0 < k"
  shows "\<exists>fks c'. write_chunks E k p n c = (n + length p, None, c') \<and> stream_frames (is_client c) k fks \<and>
    sent_bytes fks = p \<and> concat (written c') = concat (written c) @ encode fks"
  using assms
proof (induction E k p n c rule: write_chunks.induct)
  case (1 E k p n c)
  show ?case
  proof (cases "p = []")
    case True
    then show ?thesis
      by (intro exI [of _ "[]"] exI [of _ c]) (simp add: write_chunks.simps stream_frames_def)
  next
    case False
    let ?q = "take k p"
    obtain key where key: "map_option length key = (if is_client c then Some 4 else None)"
        "writeLocked E opBinary ?q c = (None, c\<lparr>attempts := Suc (attempts c), written := written c @ [appendFrame [] True opBinary ?q key]\<rparr>)"
      using writeLocked_sound [OF 1(2), of c opBinary ?q] by blast
    define c1 where "c1 = c\<lparr>attempts := Suc (attempts c), written := written c @ [appendFrame [] True opBinary ?q key]\<rparr>"
    have w: "WriteMessage E Binary ?q c = (None, c1)"
      using key(2) 1(3) by (simp add: WriteMessage_def ws_write_def shut_def opcode_def c1_def)
    have c1: "\<not> shut c1" "is_client c1 = is_client c"
      using 1(3) by (simp_all add: shut_def c1_def)
    have guard: "\<not> (p = [] \<or> k = 0)" using False 1(4) by simp
    obtain fks c' where r: "write_chunks E k (drop k p) (n + length ?q) c1 = (n + length ?q + length (drop k p), None, c')"
        "stream_frames (is_client c1) k fks" "sent_bytes fks = drop k p" "concat (written c') = concat (written c1) @ encode fks"
      using 1(1) [OF guard w [symmetric] refl 1(2) c1(1) 1(4)] by blast
    have "write_chunks E k p n c = write_chunks E k (drop k p) (n + length ?q) c1"
      using False 1(4) w by (subst write_chunks.simps) simp
    also have "\<dots> = (n + length p, None, c')"
      using r(1) by simp
    finally show ?thesis
      using r(2,4) r(3) False 1(4) key(1) c1(2)
      by (intro exI [of _ "(\<lparr>f_fin = True, f_op = opBinary, payload = ?q\<rparr>, key) # fks"] exI [of _ c'])
        (simp add: stream_frames_def c1_def)
  qed
qed

text \<open>The bytes successive reads of the given sizes give, until one fails.\<close>

fun reads :: "peer \<Rightarrow> nat list \<Rightarrow> Stream \<Rightarrow> byte list" where
  "reads E [] s = []"
| "reads E (n # ns) s = (case Stream_Read E n s of (Inl e, s') \<Rightarrow> [] | (Inr b, s') \<Rightarrow> b @ reads E ns s')"

lemma read_at_end: "unread (incoming c) = [] \<Longrightarrow> \<exists>e c'. ReadMessage E c = (Inl e, c')"
  by (cases "isClosed c") (auto simp: ReadMessage_def read_loop.simps [of E no_part c] read_round_def readFrame_def ReadFull_def failing_def
      split: prod.splits)

lemma read_whole:
  fixes f :: frame
  assumes "\<not> isClosed c" "f_op f = opBinary" "f_fin f" "int (length (payload f)) \<le> MaxFrame (limits c)"
    "int (length (payload f)) \<le> MaxMessage (limits c)" "length (payload f) < 2 ^ 63" "map_option length k = (if is_client c then None else Some 4)"
    "unread (incoming c) = appendFrame [] (f_fin f) (f_op f) (payload f) k @ bs"
  shows "ReadMessage E c = (Inr (Binary, payload f), c\<lparr>incoming := \<lparr>unread = bs, ending = ending (incoming c)\<rparr>\<rparr>)"
proof -
  let ?c = "c\<lparr>incoming := \<lparr>unread = bs, ending = ending (incoming c)\<rparr>\<rparr>"
  have op: "f_op f = opcode Binary" using assms(2) by (simp add: opcode_def)
  have "read_round E no_part c = handle_frame E f no_part ?c"
    by (rule read_round_frame [OF _ assms(7,8)]) (use assms op frame_ok_data [of f Binary] in \<open>auto simp: no_part_def\<close>)
  also have "\<dots> = (Returns (Inr (Binary, payload f)), ?c)"
    using assms(3,5) by (simp add: handle_data(2) [OF op] take_data_last no_part_def)
  finally have "read_loop E no_part c = (Inr (Binary, payload f), ?c)"
    by (subst read_loop.simps) simp
  with assms(1) show ?thesis by (simp add: ReadMessage_def)
qed

text \<open>A reader with nothing wrong so far, on which what the stream wrote still arrives.\<close>

definition receiving :: "nat \<Rightarrow> Stream \<Rightarrow> (frame \<times> byte list option) list \<Rightarrow> bool" where
  "receiving k s fks \<longleftrightarrow> s_err s = None \<and> \<not> isClosed (s_conn s) \<and> unread (incoming (s_conn s)) = encode fks \<and>
     stream_frames (\<not> is_client (s_conn s)) k fks \<and> int k \<le> MaxFrame (limits (s_conn s)) \<and> int k \<le> MaxMessage (limits (s_conn s)) \<and> k < 2 ^ 63"

lemma stream_turn_frame:
  assumes "receiving k s ((f, key) # fks)" "buf s = []"
  shows "buf (stream_turn E s) = payload f \<and> payload f \<noteq> [] \<and> receiving k (stream_turn E s) fks"
proof -
  let ?c = "s_conn s"
  have f: "f_op f = opBinary" "f_fin f" "payload f \<noteq> []" "length (payload f) \<le> k" "map_option length key = (if is_client ?c then None else Some 4)"
    "stream_frames (\<not> is_client ?c) k fks"
    using assms(1) by (simp_all add: receiving_def stream_frames_def)
  have "ReadMessage E ?c = (Inr (Binary, payload f), ?c\<lparr>incoming := \<lparr>unread = encode fks, ending = ending (incoming ?c)\<rparr>\<rparr>)"
    by (rule read_whole [OF _ f(1,2) _ _ _ f(5)]) (use assms(1) f(4) in \<open>simp_all add: receiving_def\<close>)
  then show ?thesis
    using assms(1) f(3,6) by (simp add: stream_turn_def receiving_def)
qed

lemma reads_all:
  assumes "receiving k s fks" "list_all (\<lambda>n. 0 < n) ns" "length (buf s) + length (sent_bytes fks) \<le> length ns"
  shows "reads E ns s = buf s @ sent_bytes fks"
  using assms
proof (induction ns arbitrary: s fks)
  case Nil
  then show ?case by simp
next
  case (Cons n ns)
  have step: "reads E (n # ns) s = buf s' @ sent_bytes gs"
    if s': "stream_fill E s = s'" "buf s' \<noteq> []" "receiving k s' gs"
      "length (buf s') + length (sent_bytes gs) \<le> Suc (length ns)" for s' gs
  proof -
    have "0 < length (take n (buf s'))"
      using s'(2) Cons.prems(2) by simp
    then have "0 < n" "0 < length (buf s')" by simp_all
    then have "length (drop n (buf s')) + length (sent_bytes gs) \<le> length ns"
      using s'(4) unfolding length_drop by linarith
    then have "reads E ns (s'\<lparr>buf := drop n (buf s')\<rparr>) = drop n (buf s') @ sent_bytes gs"
      using Cons.IH [of "s'\<lparr>buf := drop n (buf s')\<rparr>" gs] s'(3) Cons.prems(2) by (simp add: receiving_def)
    with s'(1,2) show ?thesis
      by (simp add: Stream_Read_def)
  qed
  show ?case
  proof (cases "buf s = []")
    case False
    then have "stream_fill E s = s" by (subst stream_fill.simps) simp
    then show ?thesis
      using step [of s fks] False Cons.prems by simp
  next
    case True
    have on: "stream_fill E s = stream_fill E (stream_turn E s)"
      using True Cons.prems(1) by (subst stream_fill.simps) (simp add: receiving_def)
    show ?thesis
    proof (cases fks)
      case Nil
      then obtain e c' where "ReadMessage E (s_conn s) = (Inl e, c')"
        using read_at_end [of "s_conn s" E] Cons.prems(1) by (auto simp: receiving_def)
      then have t: "s_err (stream_turn E s) \<noteq> None" "buf (stream_turn E s) = []"
        using True by (simp_all add: stream_turn_def)
      then have "stream_fill E (stream_turn E s) = stream_turn E s"
        by (subst stream_fill.simps) simp
      with on t show ?thesis
        using True Nil by (simp add: Stream_Read_def Let_def)
    next
      case (Cons a gs)
      obtain f key where a: "a = (f, key)" by fastforce
      note t = stream_turn_frame [OF Cons.prems(1) [unfolded Cons a] True, of E]
      have "stream_fill E (stream_turn E s) = stream_turn E s"
        using t by (subst stream_fill.simps) simp
      then show ?thesis
        using step [of "stream_turn E s" gs] on t Cons.prems(3) True by (simp add: Cons a)
    qed
  qed
qed


definition sample_written :: "nat \<times> ws_error option \<times> Stream" where
  "sample_written = Stream_Write sample_peer [1, 2, 3] ((NewStream (sample_conn [] True))\<lparr>Chunk := 2\<rparr>)"

definition sample_reader :: Stream where
  "sample_reader = NewStream (sample_conn (concat (written (s_conn (snd (snd sample_written))))) False)"


end
