(* ===== verification/PolicyRules.thy ===== *)
theory PolicyRules
  imports Prelude
begin

text \<open>
  The rules of the permission engine, \<^verbatim>\<open>internal/policy\<close>: tool names (\<^verbatim>\<open>toolname.go\<close>), rules and their patterns
  (\<^verbatim>\<open>policy.go\<close>), a pattern read as flags (\<^verbatim>\<open>flags.go\<close>), and the rules a person adds for a session (\<^verbatim>\<open>overlay.go\<close>). The
  tables of Unicode (case, folding and NFC) are parameters, gathered with what the host folds in the record \<open>host\<close>.
\<close>

section \<open>Text\<close>

record host =
  lower :: "string \<Rightarrow> string"
  upper :: "string \<Rightarrow> string"
  simple_fold :: "string \<Rightarrow> string"
  nfc :: "string \<Rightarrow> string"
  foldsNames :: bool

definition hasNonASCII :: "string \<Rightarrow> bool" where
  "hasNonASCII s \<longleftrightarrow> list_ex (\<lambda>c. byte_val c \<ge> 128) s"

text \<open>The bytes of the first character of a text, as \<open>utf8.DecodeRune\<close> counts them: a byte that starts no character counts as one.\<close>

definition rune_tail :: "nat \<Rightarrow> (nat \<times> nat \<times> nat) option" where
  "rune_tail b =
     (if 0xC2 \<le> b \<and> b \<le> 0xDF then Some (1, 0x80, 0xBF)
      else if b = 0xE0 then Some (2, 0xA0, 0xBF)
      else if b = 0xED then Some (2, 0x80, 0x9F)
      else if 0xE1 \<le> b \<and> b \<le> 0xEF then Some (2, 0x80, 0xBF)
      else if b = 0xF0 then Some (3, 0x90, 0xBF)
      else if b = 0xF4 then Some (3, 0x80, 0x8F)
      else if 0xF1 \<le> b \<and> b \<le> 0xF3 then Some (3, 0x80, 0xBF)
      else None)"

definition whole_rune :: "nat \<times> nat \<times> nat \<Rightarrow> string \<Rightarrow> bool" where
  "whole_rune t cs = (case t of (n, lo, hi) \<Rightarrow>
     n \<le> length cs \<and> lo \<le> byte_val (hd cs) \<and> byte_val (hd cs) \<le> hi \<and>
     list_all (\<lambda>c. 0x80 \<le> byte_val c \<and> byte_val c \<le> 0xBF) (take (n - 1) (tl cs)))"

definition rune_len :: "string \<Rightarrow> nat" where
  "rune_len s = (case s of
       [] \<Rightarrow> 0
     | c # cs \<Rightarrow> (case rune_tail (byte_val c) of
           Some (n, lo, hi) \<Rightarrow> if whole_rune (n, lo, hi) cs then Suc n else 1
         | None \<Rightarrow> 1))"

lemma rune_len_pos: "s \<noteq> [] \<Longrightarrow> 0 < rune_len s"
  by (cases s) (auto simp: rune_len_def split: option.splits)

lemma rune_len_le: "rune_len s \<le> length s"
  by (cases s) (auto simp: rune_len_def whole_rune_def split: option.splits)

lemma rune_len_ascii: "byte_val c < 128 \<Longrightarrow> rune_len (c # cs) = 1"
  by (simp add: rune_len_def rune_tail_def)

text \<open>Text of well-formed UTF-8; a pattern of any other does not compile.\<close>

function valid_text :: "string \<Rightarrow> bool" where
  "valid_text [] = True"
| "valid_text (c # cs) = ((byte_val c < 128 \<or> rune_len (c # cs) > 1) \<and> valid_text (drop (rune_len (c # cs)) (c # cs)))"
  by pat_completeness auto
termination
  by (relation "measure length") (use rune_len_pos in \<open>auto simp: drop_Cons'\<close>)

definition TrimLeft :: "string \<Rightarrow> char set \<Rightarrow> string" where
  "TrimLeft s C = dropWhile (\<lambda>c. c \<in> C) s"

definition TrimRight :: "string \<Rightarrow> char set \<Rightarrow> string" where
  "TrimRight s C = rev (dropWhile (\<lambda>c. c \<in> C) (rev s))"

text \<open>\<open>path.Base\<close>.\<close>

definition path_Base :: "string \<Rightarrow> string" where
  "path_Base p =
     (if p = [] then ''.''
      else let t = TrimRight p {CHR ''/''}; b = rev (takeWhile (\<lambda>c. c \<noteq> CHR ''/'') (rev t)) in if b = [] then ''/'' else b)"

definition CommandName :: "host \<Rightarrow> string \<Rightarrow> string" where
  "CommandName h w = (if foldsNames h then lower h w else w)"

section \<open>Tool names\<close>

definition builtinTools :: "string list" where
  "builtinTools = [''bash'', ''read'', ''write'', ''edit'', ''glob'', ''grep'', ''todo'', ''ask_user'', ''memory_write'', ''exit_plan'',
     ''tool_search'', ''task'', ''tasks'', ''task_status'', ''task_cancel'', ''recall'', ''shell_output'', ''shell_kill'', ''web_search'',
     ''web_fetch'', ''search'', ''skill'', ''result'', ''k8s_get'', ''k8s_apply'', ''k8s_login'', ''ssh'', ''ssh_connect'', ''ssh_put'', ''ssh_get'',
     ''secret'', ''delete'', ''mkdir'', ''rename'', ''forge_pr'']"

definition lower_char :: "char \<Rightarrow> char" where
  "lower_char c = (if is_upper c then char_of (byte_val c + 32) else c)"

definition asciiLower :: "string \<Rightarrow> string \<times> bool" where
  "asciiLower name = (if hasNonASCII name then (name, False) else (map lower_char name, True))"

definition ReservedToolName :: "string \<Rightarrow> bool" where
  "ReservedToolName name = (case asciiLower name of (l, ok) \<Rightarrow> ok \<and> l \<in> set builtinTools)"

definition CanonicalTool :: "string \<Rightarrow> string" where
  "CanonicalTool name = (if ReservedToolName name then fst (asciiLower name) else name)"

definition mcpServerName :: "string \<Rightarrow> bool" where
  "mcpServerName s \<longleftrightarrow> 1 \<le> length s \<and> length s \<le> 64 \<and> list_all (\<lambda>c. is_alnum c \<or> c = CHR ''_'' \<or> c = CHR ''-'') s"

definition MCPServerWildcard :: "string \<Rightarrow> string option" where
  "MCPServerWildcard tool =
     (if \<not> HasPrefix tool ''mcp__'' then None
      else let server = drop 5 tool
           in if \<not> HasSuffix server ''__*'' then None
              else let s = take (length server - 3) server in if mcpServerName s then Some (''mcp__'' @ s @ ''__'') else None)"

section \<open>Patterns\<close>

text \<open>
  What the compiled form of a glob matches: \<open>*\<close> any run of characters, newlines included, \<open>?\<close> any one character, and every other
  byte itself.
\<close>

function glob_match :: "string \<Rightarrow> string \<Rightarrow> bool" where
  "glob_match [] s = (s = [])"
| "glob_match (c # p) s =
     (if c = CHR ''*'' then glob_match p s \<or> (if s = [] then False else glob_match (c # p) (drop (rune_len s) s))
      else if s = [] then False
      else if c = CHR ''?'' then glob_match p (drop (rune_len s) s)
      else hd s = c \<and> glob_match p (tl s))"
  by pat_completeness auto
termination
  by (relation "measure (\<lambda>(p, s). length p + length s)") (auto intro: diff_less rune_len_pos)

declare glob_match.simps(2) [simp del]

text \<open>\<open>globToRegexp\<close>: the glob itself, where it compiles.\<close>

definition globToRegexp :: "string \<Rightarrow> string option" where
  "globToRegexp glob = (if valid_text glob then Some glob else None)"

definition lowerLiteralPrefix :: "host \<Rightarrow> string \<Rightarrow> string" where
  "lowerLiteralPrefix h glob = (let lit = takeWhile (\<lambda>c. c \<notin> set ''*? '' \<and> c \<noteq> CHR 0x09) glob in lower h lit @ drop (length lit) glob)"

definition foldName :: "host \<Rightarrow> string \<Rightarrow> string" where
  "foldName h command =
     (let blanks = takeWhile (\<lambda>c. c = CHR '' '' \<or> c = CHR 0x09) command; rest = drop (length blanks) command;
          word = takeWhile (\<lambda>c. c \<noteq> CHR '' '' \<and> c \<noteq> CHR 0x09 \<and> c \<noteq> CHR 0x0A) rest
      in blanks @ CommandName h word @ drop (length word) rest)"

section \<open>A pattern read as flags\<close>

record flagForm =
  prefix :: "string list"
  short :: "char list"
  long :: "string list"
  rest :: string

definition shortCluster :: "string \<Rightarrow> bool" where
  "shortCluster w \<longleftrightarrow> (case w of c # cs \<Rightarrow> c = CHR ''-'' \<and> cs \<noteq> [] \<and> list_all is_alnum cs | [] \<Rightarrow> False)"

definition longFlag :: "string \<Rightarrow> bool" where
  "longFlag w \<longleftrightarrow> length w > 2 \<and> HasPrefix w ''--'' \<and> CHR ''='' \<notin> set w"

text \<open>The words before the first flag; none of them, and not that flag, may have a wildcard.\<close>

fun literal_words :: "string list \<Rightarrow> (string list \<times> string list) option" where
  "literal_words [] = Some ([], [])"
| "literal_words (w # ws) =
     (if ContainsAny w ''*?'' then None
      else if HasPrefix w ''-'' then Some ([], w # ws)
      else map_option (\<lambda>(p, r). (w # p, r)) (literal_words ws))"

fun take_flags :: "string list \<Rightarrow> char list \<times> string list \<times> string list" where
  "take_flags [] = ([], [], [])"
| "take_flags (w # ws) =
     (if shortCluster w then (case take_flags ws of (s, l, r) \<Rightarrow> (tl w @ s, l, r))
      else if longFlag w then (case take_flags ws of (s, l, r) \<Rightarrow> (s, w # l, r))
      else ([], [], w # ws))"

definition parseFlagForm :: "host \<Rightarrow> string \<Rightarrow> flagForm option" where
  "parseFlagForm h glob =
     (case literal_words (Fields glob) of
        None \<Rightarrow> None
      | Some ([], ws) \<Rightarrow> None
      | Some (p # ps, ws) \<Rightarrow> (case take_flags ws of (s, l, r) \<Rightarrow>
            if s = [] \<and> l = [] then None
            else map_option (\<lambda>g. \<lparr>prefix = CommandName h p # ps, short = s, long = l, rest = g\<rparr>) (globToRegexp (Join r '' ''))))"

text \<open>The flags of a command before \<open>--\<close> and its other words in order.\<close>

fun split_flags :: "string list \<Rightarrow> char list \<times> string list \<times> string list" where
  "split_flags [] = ([], [], [])"
| "split_flags (w # ws) =
     (if w = ''--'' then ([], [], ws)
      else case split_flags ws of (s, l, ops) \<Rightarrow>
        if shortCluster w then (tl w @ s, l, ops) else if longFlag w then (s, w # l, ops) else (s, l, w # ops))"

definition flags_match :: "host \<Rightarrow> flagForm \<Rightarrow> string \<Rightarrow> bool" where
  "flags_match h f command =
     (let fields = Fields command; n = length (prefix f)
      in length fields \<ge> n \<and> CommandName h (path_Base (hd fields)) = hd (prefix f) \<and> tl (take n fields) = tl (prefix f) \<and>
         (case split_flags (drop n fields) of (s, l, ops) \<Rightarrow>
            set (short f) \<subseteq> set s \<and> set (long f) \<subseteq> set l \<and> glob_match (rest f) (Join ops '' '')))"

section \<open>Rules\<close>

text \<open>
  A rule; the compiled forms are kept as the globs they are compiled from. \<open>caseless\<close> says whether the pattern has a form that ignores
  case.
\<close>

record PolicyRule =
  raw :: string
  r_tool :: string
  r_pattern :: "string option"
  folded :: "string option"
  caseless :: bool
  r_nfc :: "string option"
  flags :: "flagForm option"
  r_session :: bool
  r_layer :: string

definition r_glob :: "PolicyRule \<Rightarrow> string" where
  "r_glob r = (case r_pattern r of None \<Rightarrow> '''' | Some g \<Rightarrow> g)"

definition bare_rule :: "string \<Rightarrow> string \<Rightarrow> PolicyRule" where
  "bare_rule s t = \<lparr>raw = s, r_tool = CanonicalTool (TrimSpace t), r_pattern = None, folded = None, caseless = False, r_nfc = None, flags = None,
     r_session = False, r_layer = ''''\<rparr>"

text \<open>The forms of a rule with a pattern; any that does not compile refuses the rule.\<close>

definition pattern_rule :: "host \<Rightarrow> string \<Rightarrow> string \<Rightarrow> string \<Rightarrow> string + PolicyRule" where
  "pattern_rule h s t glob =
     (let low = lowerLiteralPrefix h glob; norm = nfc h glob
      in if globToRegexp glob = None \<or> (hasNonASCII glob \<and> globToRegexp norm = None) \<or> (low \<noteq> glob \<and> globToRegexp low = None)
         then Inl ''the pattern does not compile''
         else Inr ((bare_rule s t)\<lparr>r_pattern := Some glob, folded := (if low \<noteq> glob then Some low else None),
           caseless := (lower h glob \<noteq> upper h glob), r_nfc := (if hasNonASCII glob then Some norm else None), flags := parseFlagForm h glob\<rparr>))"

definition ParseRule :: "host \<Rightarrow> string \<Rightarrow> string + PolicyRule" where
  "ParseRule h text =
     (let s = TrimSpace text; tool = takeWhile (\<lambda>c. c \<noteq> CHR ''('') s; open = CHR ''('' \<in> set s
      in if s = '''' then Inl ''empty rule''
         else if open \<and> \<not> HasSuffix s '')'' then Inl ''missing the closing parenthesis''
         else if open \<and> tool = '''' then Inl ''no tool name before the pattern''
         else if HasSuffix s '')'' \<and> \<not> open then Inl ''closing parenthesis with no opening one''
         else if open then pattern_rule h s tool (butlast (drop (Suc (length tool)) s))
         else Inr (bare_rule s s))"

definition ForTool :: "PolicyRule \<Rightarrow> string \<Rightarrow> bool" where
  "ForTool r tool \<longleftrightarrow> r_tool r = tool \<or> r_tool r = ''*'' \<or>
     (case MCPServerWildcard (r_tool r) of None \<Rightarrow> False | Some p \<Rightarrow> HasPrefix tool p \<and> length tool > length p)"

definition Canonical_rule :: "PolicyRule \<Rightarrow> string" where
  "Canonical_rule r = (case r_pattern r of None \<Rightarrow> r_tool r | Some g \<Rightarrow> r_tool r @ ''('' @ g @ '')'')"

definition Matches :: "host \<Rightarrow> PolicyRule \<Rightarrow> string \<Rightarrow> string \<Rightarrow> bool" where
  "Matches h r tool subject \<longleftrightarrow> ForTool r tool \<and>
     (case r_pattern r of
        None \<Rightarrow> True
      | Some g \<Rightarrow> glob_match g subject \<or>
          (tool = ''bash'' \<and> foldsNames h \<and> (foldName h subject \<noteq> subject \<or> folded r \<noteq> None) \<and>
           glob_match (case folded r of None \<Rightarrow> g | Some f \<Rightarrow> f) (foldName h subject)))"

definition matchesAny :: "host \<Rightarrow> PolicyRule \<Rightarrow> string \<Rightarrow> string list \<Rightarrow> bool" where
  "matchesAny h r tool subjects \<longleftrightarrow> list_ex (Matches h r tool) subjects"

text \<open>A rule with no pattern matches by its tool alone, so the pattern is there when \<open>matchesAny\<close> did not match some subject.\<close>

definition matchesPathAny :: "host \<Rightarrow> PolicyRule \<Rightarrow> string \<Rightarrow> string list \<Rightarrow> bool" where
  "matchesPathAny h r tool subjects \<longleftrightarrow> matchesAny h r tool subjects \<or>
     (ForTool r tool \<and> list_ex (\<lambda>s. (hasNonASCII s \<or> r_nfc r \<noteq> None) \<and>
        (case (r_nfc r, r_pattern r) of (Some g, _) \<Rightarrow> glob_match g (nfc h s) | (None, Some g) \<Rightarrow> glob_match g (nfc h s) | _ \<Rightarrow> False)) subjects)"

text \<open>The form compiled with \<open>(?i)\<close>: a pattern and a text match that match once both are folded.\<close>

definition caseless_match :: "host \<Rightarrow> PolicyRule \<Rightarrow> string \<Rightarrow> bool" where
  "caseless_match h r s \<longleftrightarrow> glob_match (simple_fold h (r_glob r)) (simple_fold h s)"

definition matchesCaselessAny :: "host \<Rightarrow> PolicyRule \<Rightarrow> string \<Rightarrow> string list \<Rightarrow> bool" where
  "matchesCaselessAny h r tool subjects \<longleftrightarrow> caseless r \<and> ForTool r tool \<and>
     list_ex (\<lambda>s. caseless_match h r s \<or> (hasNonASCII s \<and> caseless_match h r (nfc h s))) subjects"

definition matchesFlagsAny :: "host \<Rightarrow> PolicyRule \<Rightarrow> string \<Rightarrow> string list \<Rightarrow> bool" where
  "matchesFlagsAny h r tool subjects \<longleftrightarrow> tool = ''bash'' \<and> ForTool r tool \<and>
     (case flags r of None \<Rightarrow> False | Some f \<Rightarrow> list_ex (flags_match h f) subjects)"

definition matchesEverything :: "PolicyRule \<Rightarrow> bool" where
  "matchesEverything r \<longleftrightarrow> r_pattern r = None \<or> r_glob r = ''*''"

definition patterned :: "PolicyRule list \<Rightarrow> string \<Rightarrow> bool" where
  "patterned rs tool \<longleftrightarrow> list_ex (\<lambda>r. ForTool r tool \<and> r_pattern r \<noteq> None) rs"

definition named :: "PolicyRule \<Rightarrow> string" where
  "named r = (if r_session r then ''session rule '' @ raw r else if r_layer r \<noteq> '''' then r_layer r @ '' rule '' @ raw r else ''rule '' @ raw r)"

definition hasShellControl :: "string \<Rightarrow> bool" where
  "hasShellControl command \<longleftrightarrow> ContainsAny command ([CHR 0x0A, CHR 0x0D, CHR 0x60] @ '';&|<>()'') \<or> Contains command ''${''"

definition NeverAllows :: "host \<Rightarrow> string \<Rightarrow> bool" where
  "NeverAllows h s = (case ParseRule h s of Inl e \<Rightarrow> False | Inr r \<Rightarrow> r_tool r = ''bash'' \<and> hasShellControl (r_glob r))"

definition IsBroad :: "host \<Rightarrow> string \<Rightarrow> bool" where
  "IsBroad h s = (case ParseRule h s of
       Inl e \<Rightarrow> False
     | Inr r \<Rightarrow> r_tool r = ''*'' \<or> r_pattern r = None \<or> list_all (\<lambda>c. c = CHR ''*'' \<or> c = CHR ''/'') (r_glob r))"

text \<open>The parsed rules of a list, up to the first that does not parse.\<close>

fun addAll :: "host \<Rightarrow> PolicyRule list \<Rightarrow> string list \<Rightarrow> string option \<times> PolicyRule list" where
  "addAll h dst [] = (None, dst)"
| "addAll h dst (p # ps) = (case ParseRule h p of Inl e \<Rightarrow> (Some e, dst) | Inr r \<Rightarrow> addAll h (dst @ [r]) ps)"

fun parse_layer :: "host \<Rightarrow> string \<Rightarrow> string list \<Rightarrow> string + PolicyRule list" where
  "parse_layer h layer [] = Inr []"
| "parse_layer h layer (p # ps) = (case ParseRule h p of
       Inl e \<Rightarrow> Inl (''policy layer '' @ layer @ '': '' @ e)
     | Inr r \<Rightarrow> (case parse_layer h layer ps of Inl e \<Rightarrow> Inl e | Inr rs \<Rightarrow> Inr (r\<lparr>r_layer := layer\<rparr> # rs)))"

section \<open>Two patterns that meet\<close>

text \<open>Each pair of places is visited once in the code; what it remembers of one changes nothing here.\<close>

lemma tl_shorter: "xs \<noteq> [] \<Longrightarrow> length (tl xs) < length xs"
  by (cases xs) auto

function globsMeet :: "string \<Rightarrow> string \<Rightarrow> bool" where
  "globsMeet a b =
     (if a = [] \<and> b = [] then True
      else if a \<noteq> [] \<and> hd a = CHR ''*'' then globsMeet (tl a) b \<or> (if b = [] then False else globsMeet a (tl b))
      else if b \<noteq> [] \<and> hd b = CHR ''*'' then globsMeet a (tl b) \<or> (if a = [] then False else globsMeet (tl a) b)
      else if a \<noteq> [] \<and> b \<noteq> [] \<and> (hd a = hd b \<or> hd a = CHR ''?'' \<or> hd b = CHR ''?'') then globsMeet (tl a) (tl b)
      else False)"
  by pat_completeness auto
termination
  by (relation "measure (\<lambda>(a, b). length a + length b)") (auto intro!: add_less_mono tl_shorter simp del: length_tl)

declare globsMeet.simps [simp del]

section \<open>The rules of a session\<close>

record Overlay =
  o_deny :: "PolicyRule list"
  o_ask :: "PolicyRule list"
  o_allow :: "PolicyRule list"
  pinned :: "PolicyRule list"
  pinnedDescription :: "string list"

definition no_overlay :: Overlay where
  "no_overlay = \<lparr>o_deny = [], o_ask = [], o_allow = [], pinned = [], pinnedDescription = []\<rparr>"

text \<open>The list of a name, and how to put another in its place.\<close>

definition overlay_list :: "string \<Rightarrow> Overlay \<Rightarrow> (PolicyRule list \<times> (PolicyRule list \<Rightarrow> Overlay)) option" where
  "overlay_list name ov =
     (if name = ''allow'' then Some (o_allow ov, \<lambda>rs. ov\<lparr>o_allow := rs\<rparr>)
      else if name = ''ask'' then Some (o_ask ov, \<lambda>rs. ov\<lparr>o_ask := rs\<rparr>)
      else if name = ''deny'' then Some (o_deny ov, \<lambda>rs. ov\<lparr>o_deny := rs\<rparr>)
      else None)"

definition Overlay_Add :: "host \<Rightarrow> string \<Rightarrow> string \<Rightarrow> Overlay \<Rightarrow> (string + bool) \<times> Overlay" where
  "Overlay_Add h name p ov =
     (case ParseRule h p of
        Inl e \<Rightarrow> (Inl e, ov)
      | Inr r0 \<Rightarrow> (case overlay_list name ov of
            None \<Rightarrow> (Inl ''unknown rule list'', ov)
          | Some (rs, put) \<Rightarrow> let r = r0\<lparr>r_session := True\<rparr>
              in if list_ex (\<lambda>have. Canonical_rule have = Canonical_rule r) rs then (Inr False, ov) else (Inr True, put (rs @ [r]))))"

definition Overlay_Remove :: "host \<Rightarrow> string \<Rightarrow> string \<Rightarrow> Overlay \<Rightarrow> (string + bool) \<times> Overlay" where
  "Overlay_Remove h name p ov =
     (let pat = TrimSpace p; canonical = (case ParseRule h pat of Inl e \<Rightarrow> pat | Inr r \<Rightarrow> Canonical_rule r)
      in case overlay_list name ov of
           None \<Rightarrow> (Inl ''unknown rule list'', ov)
         | Some (rs, put) \<Rightarrow> let left = filter (\<lambda>r. \<not> (raw r = pat \<or> Canonical_rule r = canonical)) rs
             in (Inr (length left \<noteq> length rs), put left))"

definition Overlay_Clear :: "Overlay \<Rightarrow> Overlay" where
  "Overlay_Clear ov = ov\<lparr>o_deny := [], o_ask := [], o_allow := []\<rparr>"

fun parse_pins :: "host \<Rightarrow> string list \<Rightarrow> string + PolicyRule list" where
  "parse_pins h [] = Inr []"
| "parse_pins h (p # ps) = (case ParseRule h p of
       Inl e \<Rightarrow> Inl e
     | Inr r \<Rightarrow> (case parse_pins h ps of Inl e \<Rightarrow> Inl e | Inr rs \<Rightarrow> Inr (r\<lparr>r_session := True\<rparr> # rs)))"

definition Overlay_Pin :: "host \<Rightarrow> string \<Rightarrow> string list \<Rightarrow> Overlay \<Rightarrow> string option \<times> Overlay" where
  "Overlay_Pin h why ps ov = (case parse_pins h ps of
       Inl e \<Rightarrow> (Some e, ov)
     | Inr rs \<Rightarrow> (None, ov\<lparr>pinned := pinned ov @ rs, pinnedDescription := pinnedDescription ov @ replicate (length rs) why\<rparr>))"

definition SessionRules :: "Overlay \<Rightarrow> string list \<times> string list \<times> string list" where
  "SessionRules ov = (map raw (o_deny ov), map raw (o_ask ov), map raw (o_allow ov))"

definition PinnedRules :: "Overlay \<Rightarrow> string list \<times> string list" where
  "PinnedRules ov = (map raw (pinned ov), pinnedDescription ov)"

definition snapshot :: "Overlay option \<Rightarrow> PolicyRule list \<times> PolicyRule list \<times> PolicyRule list" where
  "snapshot ov = (case ov of None \<Rightarrow> ([], [], []) | Some v \<Rightarrow> (pinned v @ o_deny v, o_ask v, o_allow v))"

end
