(* ===== verification/PolicyShell.thy ===== *)
theory PolicyShell
  imports PolicyRules
begin

text \<open>
  How a shell command is cut into the parts the rules are matched against, \<^verbatim>\<open>internal/policy/shell.go\<close>, and the scopes and rules a
  prompt offers, \<^verbatim>\<open>scope.go\<close>. The cut ignores quoting; it only adds parts.
\<close>

section \<open>Splitting at control characters\<close>

abbreviation maxSplitBytes :: nat where
  "maxSplitBytes \<equiv> 65536"

abbreviation maxSegments :: nat where
  "maxSegments \<equiv> 1024"

abbreviation maxFormsPerPart :: nat where
  "maxFormsPerPart \<equiv> 16"

abbreviation backslash :: char where
  "backslash \<equiv> CHR 0x5C"

text \<open>An odd run of backslashes at the end of what comes before, which is given last character first.\<close>

definition escaped :: "string \<Rightarrow> bool" where
  "escaped before = (length (takeWhile (\<lambda>c. c = backslash) before) mod 2 = 1)"

text \<open>Whether the character \<open>c\<close>, with \<open>before\<close> in front of it, last character first, and \<open>after\<close> following, ends a part.\<close>

definition cuts :: "bool \<Rightarrow> string \<Rightarrow> char \<Rightarrow> string \<Rightarrow> bool" where
  "cuts escapes before c after =
     (if c = CHR ''&'' \<or> c = CHR ''|''
      then \<not> (before \<noteq> [] \<and> (hd before = CHR ''>'' \<or> hd before = CHR ''<'')) \<and> \<not> (c = CHR ''&'' \<and> after \<noteq> [] \<and> hd after = CHR ''>'')
      else if c = CHR '';'' then \<not> (escapes \<and> escaped before)
      else c = CHR 0x0A \<or> c = CHR 0x0D \<or> c = CHR 0x60 \<or> c = CHR ''('' \<or> c = CHR '')'')"

text \<open>The part under way is kept last character first.\<close>

fun split_from :: "bool \<Rightarrow> string \<Rightarrow> string \<Rightarrow> string \<Rightarrow> string list" where
  "split_from escapes before part [] = [rev part]"
| "split_from escapes before part (c # cs) =
     (if cuts escapes before c cs then rev part # split_from escapes (c # before) [] cs
      else split_from escapes (c # before) (c # part) cs)"

definition splitControl :: "string \<Rightarrow> bool \<Rightarrow> string list" where
  "splitControl command escapes = split_from escapes [] [] command"

section \<open>Words that only lead to a command\<close>

definition shellPrefixWords :: "string list" where
  "shellPrefixWords = [''{'', ''}'', ''!'', ''if'', ''then'', ''else'', ''elif'', ''fi'', ''do'', ''done'', ''while'', ''until'']"

definition wrapperWords :: "(string, nat) gomap" where
  "wrapperWords = [(''env'', 0), (''command'', 0), (''exec'', 0), (''nohup'', 0), (''nice'', 0), (''builtin'', 0), (''sudo'', 0), (''doas'', 0),
     (''coproc'', 0), (''time'', 0), (''timeout'', 1), (''xargs'', 0), (''setsid'', 0), (''stdbuf'', 0), (''ionice'', 0)]"

definition findRunners :: "string list" where
  "findRunners = [''-exec'', ''-execdir'', ''-ok'', ''-okdir'']"

definition isRedirection :: "string \<Rightarrow> bool \<times> bool" where
  "isRedirection word =
     (let w0 = dropWhile is_digit word; w = (if HasPrefix w0 ''&>'' then tl w0 else w0);
          op = dropWhile (\<lambda>c. c \<in> set ''<>&|'') w
      in if op = w \<or> length w - length op > 3 then (False, False) else (True, op = []))"

definition name_char :: "char \<Rightarrow> bool" where
  "name_char c \<longleftrightarrow> c = CHR ''_'' \<or> is_upper c \<or> is_lower c"

definition isAssignment :: "string \<Rightarrow> bool" where
  "isAssignment word =
     (let name = takeWhile (\<lambda>c. c \<noteq> CHR ''='') word
      in CHR ''='' \<in> set word \<and> name \<noteq> [] \<and> name_char (hd name) \<and> list_all (\<lambda>c. name_char c \<or> is_digit c) (tl name))"

text \<open>
  What the walk over the words of a part has seen: the words visited, the words a command starts at, the options read (with how
  many words they skip), and how far the runners of \<open>find\<close> have been scanned.
\<close>

record walk =
  visited :: "nat list"
  starts :: "nat list"
  optionsSeen :: "(nat \<times> nat) list"
  findScanned :: nat

text \<open>
  The walk, \<open>from\<close> and \<open>wrapperOptions\<close>, with what is left to do as a list: a place to go on from, options to read, or the words of
  a \<open>find\<close> still to be scanned for its runners.
\<close>

datatype task = From nat | Options nat nat | Scan nat nat

definition from_word :: "host \<Rightarrow> string list \<Rightarrow> nat \<Rightarrow> walk \<Rightarrow> task list \<times> walk" where
  "from_word h ws i w =
     (let word = ws ! i; name = CommandName h (path_Base word)
      in if word \<in> set shellPrefixWords \<or> isAssignment word then ([From (Suc i)], w)
         else case isRedirection word of
             (True, bare) \<Rightarrow> ([From (if bare then i + 2 else Suc i)], w)
           | (False, _) \<Rightarrow> (case map_of wrapperWords name of
                 Some skip \<Rightarrow> ([Options (Suc i) skip], w)
               | None \<Rightarrow> (if name = ''find'' then [Scan i (Suc i)] else [], w\<lparr>starts := i # starts w\<rparr>)))"

fun next_tasks :: "host \<Rightarrow> string list \<Rightarrow> task \<Rightarrow> walk \<Rightarrow> task list \<times> walk" where
  "next_tasks h ws (From i) w =
     (if i \<ge> length ws \<or> i \<in> set (visited w) then ([], w) else from_word h ws i (w\<lparr>visited := i # visited w\<rparr>))"
| "next_tasks h ws (Options i skip) w =
     (if (i, skip) \<in> set (optionsSeen w) then ([], w)
      else let w1 = w\<lparr>optionsSeen := (i, skip) # optionsSeen w\<rparr>
           in if i < length ws \<and> ws ! i = ''--'' then ([From (i + 1 + skip)], w1)
              else if i < length ws \<and> HasPrefix (ws ! i) ''-'' then ([Options (Suc i) skip, Options (i + 2) skip], w1)
              else ([From (i + skip)], w1))"
| "next_tasks h ws (Scan i j) w =
     (if j < findScanned w then ((if ws ! j \<in> set findRunners then [From (Suc j)] else []) @ [Scan i (Suc j)], w)
      else ([], w\<lparr>findScanned := min (findScanned w) (Suc i)\<rparr>))"

text \<open>The words not visited yet, and the work the tasks stand for: reading an option both ways at most doubles it.\<close>

definition fresh :: "string list \<Rightarrow> walk \<Rightarrow> nat" where
  "fresh ws w = card ({..<length ws} - set (visited w))"

fun weight :: "string list \<Rightarrow> walk \<Rightarrow> task \<Rightarrow> nat" where
  "weight ws w (From i) = 1"
| "weight ws w (Options i skip) = 2 ^ (length ws + 3 - i) + 1"
| "weight ws w (Scan i j) = 1 + 2 * (findScanned w - j)"

lemma fresh_less: "i < length ws \<Longrightarrow> i \<notin> set (visited w) \<Longrightarrow> visited w' = i # visited w \<Longrightarrow> fresh ws w' < fresh ws w"
  unfolding fresh_def by (rule psubset_card_mono) auto

lemma from_word_visited: "from_word h ws i w = (ts, w') \<Longrightarrow> visited w' = visited w"
  by (auto simp: from_word_def Let_def split: if_splits bool.splits prod.splits option.splits)

lemma weight_antimono: "findScanned w' \<le> findScanned w \<Longrightarrow> weight ws w' t \<le> weight ws w t"
  by (cases t) auto

lemma options_weight: "i < n \<Longrightarrow> (2 :: nat) ^ (n + 3 - Suc i) + 1 + (2 ^ (n + 3 - (i + 2)) + 1) < 2 ^ (n + 3 - i) + 1"
proof -
  assume i: "i < n"
  define k where "k = n + 1 - i"
  have "n + 3 - i = k + 2" "n + 3 - Suc i = k + 1" "n + 3 - (i + 2) = k" "2 \<le> k"
    using i by (simp_all add: k_def)
  moreover have "(2 :: nat) ^ 2 \<le> 2 ^ k"
    using \<open>2 \<le> k\<close> by (intro power_increasing) auto
  ultimately show ?thesis by simp
qed

lemma next_tasks_less:
  assumes "next_tasks h ws t w = (ts, w')"
  shows "fresh ws w' < fresh ws w \<or> (fresh ws w' = fresh ws w \<and> findScanned w' \<le> findScanned w \<and> sum_list (map (weight ws w') ts) < weight ws w t)"
proof (cases t)
  case (From i)
  show ?thesis
  proof (cases "i \<ge> length ws \<or> i \<in> set (visited w)")
    case False
    then have "from_word h ws i (w\<lparr>visited := i # visited w\<rparr>) = (ts, w')"
      using assms From by simp
    from from_word_visited [OF this] have "fresh ws w' < fresh ws w"
      using False by (intro fresh_less [of i]) auto
    then show ?thesis ..
  qed (use assms From in auto)
next
  case (Options i skip)
  then show ?thesis
    using assms options_weight [of i "length ws"] by (auto simp: Let_def fresh_def split: if_splits)
next
  case (Scan i j)
  then show ?thesis
    using assms by (auto simp: fresh_def split: if_splits)
qed

function run_tasks :: "host \<Rightarrow> string list \<Rightarrow> task list \<Rightarrow> walk \<Rightarrow> walk" where
  "run_tasks h ws [] w = w"
| "run_tasks h ws (t # ts) w = (case next_tasks h ws t w of (new, w') \<Rightarrow> run_tasks h ws (new @ ts) w')"
  by pat_completeness auto
termination
proof (relation "measures [\<lambda>(h, ws, ts, w). fresh ws w, \<lambda>(h, ws, ts, w). sum_list (map (weight ws w) ts)]", simp)
  fix h ws t ts w new w'
  assume "(new, w') = next_tasks h ws t w"
  from next_tasks_less [OF this [symmetric]] have
    "fresh ws w' < fresh ws w \<or> (fresh ws w' = fresh ws w \<and> findScanned w' \<le> findScanned w \<and> sum_list (map (weight ws w') new) < weight ws w t)" .
  moreover have "sum_list (map (weight ws w') ts) \<le> sum_list (map (weight ws w) ts)" if "findScanned w' \<le> findScanned w"
    using weight_antimono [OF that] by (rule sum_list_mono)
  ultimately show "((h, ws, new @ ts, w'), h, ws, t # ts, w) \<in>
      measures [\<lambda>(h, ws, ts, w). fresh ws w, \<lambda>(h, ws, ts, w). sum_list (map (weight ws w) ts)]"
    by fastforce
qed

declare run_tasks.simps(2) [simp del]

definition strippedForms :: "host \<Rightarrow> string \<Rightarrow> string list \<times> bool" where
  "strippedForms h segment =
     (let ws = Fields segment;
          w = run_tasks h ws [From 0] \<lparr>visited = [], starts = [], optionsSeen = [], findScanned = length ws\<rparr>
      in if length (remdups (starts w)) > maxFormsPerPart then ([], False)
         else (map (\<lambda>i. Join (drop i ws) '' '') (filter (\<lambda>i. i \<in> set (starts w)) [0..<length ws]), True))"

section \<open>The parts of a command\<close>

definition add_segment :: "string \<Rightarrow> string list \<Rightarrow> string list" where
  "add_segment s out = (let t = TrimSpace s in if t = '''' \<or> t \<in> set out then out else out @ [t])"

definition trim_part :: "string \<Rightarrow> string" where
  "trim_part p = (let q = TrimSpace p; r = TrimSpace (if HasSuffix q ''$'' then butlast q else q)
     in TrimSpace (TrimRight r {CHR ''<'', CHR ''>''}))"

fun segments_from :: "host \<Rightarrow> string list \<Rightarrow> string list \<Rightarrow> string list \<times> bool" where
  "segments_from h [] out = (out, True)"
| "segments_from h (p # ps) out =
     (case strippedForms h (trim_part p) of (forms, whole) \<Rightarrow>
        let out' = fold add_segment forms (add_segment (trim_part p) out)
        in if \<not> whole \<or> length out' > maxSegments then (out', False) else segments_from h ps out')"

definition commandSegments :: "host \<Rightarrow> string \<Rightarrow> string list \<times> bool" where
  "commandSegments h command =
     (if length command > maxSplitBytes then ([command], False)
      else segments_from h (splitControl command False @ splitControl command True) [command])"

text \<open>Each part whose program is named by a path, added again with its base name.\<close>

definition based :: "string \<Rightarrow> string option" where
  "based s =
     (let t = TrimLeft s {CHR '' '', CHR 0x09};
          (first, tail) = (case Cut t '' '' of None \<Rightarrow> (t, '''') | Some x \<Rightarrow> x)
      in if CHR ''/'' \<notin> set first \<or> HasSuffix first ''/'' then None
         else Some (if tail \<noteq> '''' then path_Base first @ '' '' @ tail else path_Base first))"

fun add_based :: "string \<Rightarrow> string list \<Rightarrow> string list" where
  "add_based s out = (case based s of None \<Rightarrow> out | Some b \<Rightarrow> if b \<in> set out then out else out @ [b])"

definition withBaseNames :: "string list \<Rightarrow> string list" where
  "withBaseNames subjects = fold add_based subjects subjects"

end
