(* ===== verification/PolicyEngine.thy ===== *)
theory PolicyEngine
  imports PolicyShell
begin

text \<open>
  The decision on a tool call, \<^verbatim>\<open>internal/policy/policy.go\<close>, with how a call is read (\<^verbatim>\<open>remote.go\<close>, \<^verbatim>\<open>remote_reads.go\<close>,
  \<^verbatim>\<open>internal/tools/args.go\<close>, \<^verbatim>\<open>internal/kubescope\<close>) and the scope a prompt offers (\<^verbatim>\<open>scope.go\<close>). What a bash parser reads in
  a command, what scripts and the disk hold, and what other packages say of a call are parameters, the record \<open>outside\<close>; every
  statement holds whatever they answer. JSON arguments enter decoded.
\<close>

section \<open>Arguments\<close>

datatype json = JNull | JBool bool | JNum string | JStr string | JList "json list" | JObj "(string \<times> json) list"

type_synonym args = "string + (string, json) gomap"

text \<open>What \<open>tools.CanonicalCommand\<close> reads in a command, as its fields and methods give it.\<close>

record canon =
  cn_Text :: string
  Joined :: bool
  Reworded :: bool
  Hidden :: bool
  IFS :: string
  IFSCause :: string
  IFSSplit :: bool
  ProgramHidden :: bool
  OpaqueWhy :: string
  Incomplete :: bool
  Unparsed :: bool
  Commands :: "string list"
  Writes :: "string list"
  WriteHidden :: string
  Destructive :: "string option"
  GitRunsOrWrites :: string

definition no_canon :: canon where
  "no_canon = \<lparr>cn_Text = '''', Joined = False, Reworded = False, Hidden = False, IFS = '''', IFSCause = '''', IFSSplit = False,
     ProgramHidden = False, OpaqueWhy = '''', Incomplete = False, Unparsed = False, Commands = [], Writes = [], WriteHidden = '''',
     Destructive = None, GitRunsOrWrites = ''''\<rparr>"

record scriptRead =
  sr_subjects :: "string list"
  sr_refuse :: string
  sr_ask :: string

record outside =
  on_host :: host
  CanonicalCommand :: "string \<Rightarrow> canon"
  AtTerminal :: "canon \<Rightarrow> canon"
  AsTerminalLine :: "canon \<Rightarrow> canon"
  IFSSplitText :: "string \<Rightarrow> string \<Rightarrow> string"
  readScripts :: "canon \<Rightarrow> scriptRead"
  pathSubjects :: "string \<Rightarrow> bool \<Rightarrow> string list \<times> string list"
  FoldsCaseAt :: "string \<Rightarrow> bool"
  PolicySubject :: "string \<Rightarrow> args \<Rightarrow> string option"
  manifest_kind :: "string \<Rightarrow> string"
  marshal :: "json \<Rightarrow> string"
  quotedValues :: "string \<Rightarrow> bool"
  wildcardReadOK :: "string \<Rightarrow> bool"
  resolvesOutsideRoots :: "string \<Rightarrow> bool"
  url_site :: "string \<Rightarrow> string option"
  GitFingerprint :: "string option"
  ConfigFile :: string

definition FoldKey :: "outside \<Rightarrow> string \<Rightarrow> string" where
  "FoldKey w k = simple_fold (on_host w) k"

definition Lookup :: "outside \<Rightarrow> (string, json) gomap \<Rightarrow> string \<Rightarrow> json option" where
  "Lookup w m name = (case map_of m name of
       Some v \<Rightarrow> Some v
     | None \<Rightarrow> map_option snd (find (\<lambda>(k, v). FoldKey w k = FoldKey w name) m))"

definition SubjectKeys :: "string list" where
  "SubjectKeys = [''command'', ''path'', ''pattern'', ''action'', ''resource'', ''host'', ''namespace'', ''name'', ''url'']"

fun all_strings :: "json list \<Rightarrow> string list option" where
  "all_strings [] = Some []"
| "all_strings (JStr s # vs) = map_option (\<lambda>ss. s # ss) (all_strings vs)"
| "all_strings (v # vs) = None"

datatype subject_error = BadArgs string | NonString string

text \<open>The subject of the first key present; a value of another kind reads as its JSON text, with an error.\<close>

fun subject_from :: "outside \<Rightarrow> (string, json) gomap \<Rightarrow> string list \<Rightarrow> string \<times> string \<times> subject_error option" where
  "subject_from w m [] = ('''', '''', None)"
| "subject_from w m (k # ks) = (case Lookup w m k of
       None \<Rightarrow> subject_from w m ks
     | Some JNull \<Rightarrow> subject_from w m ks
     | Some (JStr s) \<Rightarrow> (k, s, None)
     | Some (JList vs) \<Rightarrow> (case all_strings vs of
           Some ss \<Rightarrow> (k, Join ss '' '', None)
         | None \<Rightarrow> (k, marshal w (JList vs), Some (NonString k)))
     | Some v \<Rightarrow> (k, marshal w v, Some (NonString k)))"

definition subjectOf :: "outside \<Rightarrow> args \<Rightarrow> string \<times> string \<times> subject_error option" where
  "subjectOf w a = (case a of Inl e \<Rightarrow> ('''', '''', Some (BadArgs e)) | Inr m \<Rightarrow> subject_from w m SubjectKeys)"

definition str_arg :: "outside \<Rightarrow> (string, json) gomap \<Rightarrow> string \<Rightarrow> string" where
  "str_arg w m k = (case Lookup w m k of Some (JStr s) \<Rightarrow> s | _ \<Rightarrow> '''')"

section \<open>Kubernetes calls\<close>

definition ClusterWide :: string where
  "ClusterWide = ''-''"

definition clusterResources :: "string list" where
  "clusterResources = [''nodes'', ''namespaces'', ''persistentvolumes'', ''clusterroles'', ''clusterrolebindings'', ''storageclasses'',
     ''customresourcedefinitions'', ''priorityclasses'', ''validatingwebhookconfigurations'', ''mutatingwebhookconfigurations'',
     ''validatingadmissionpolicies'', ''validatingadmissionpolicybindings'', ''ingressclasses'', ''apiservices'',
     ''certificatesigningrequests'', ''runtimeclasses'', ''csidrivers'', ''csinodes'', ''volumeattachments'', ''flowschemas'',
     ''prioritylevelconfigurations'', ''componentstatuses'']"

definition clusterKinds :: "string list" where
  "clusterKinds = [''namespace'', ''node'', ''persistentvolume'', ''clusterrole'', ''clusterrolebinding'', ''storageclass'',
     ''customresourcedefinition'', ''priorityclass'', ''validatingwebhookconfiguration'', ''mutatingwebhookconfiguration'',
     ''validatingadmissionpolicy'', ''validatingadmissionpolicybinding'', ''ingressclass'', ''apiservice'', ''certificatesigningrequest'',
     ''runtimeclass'', ''csidriver'', ''csinode'', ''volumeattachment'', ''flowschema'', ''prioritylevelconfiguration'', ''componentstatus'']"

definition namespacedKinds :: "string list" where
  "namespacedKinds = [''pod'', ''service'', ''configmap'', ''secret'', ''serviceaccount'', ''endpoints'', ''persistentvolumeclaim'',
     ''replicationcontroller'', ''event'', ''limitrange'', ''resourcequota'', ''podtemplate'', ''deployment'', ''statefulset'', ''daemonset'',
     ''replicaset'', ''controllerrevision'', ''job'', ''cronjob'', ''ingress'', ''networkpolicy'', ''role'', ''rolebinding'',
     ''poddisruptionbudget'', ''horizontalpodautoscaler'', ''lease'', ''endpointslice'', ''csistoragecapacity'']"

definition KindScope :: "outside \<Rightarrow> string \<Rightarrow> bool \<times> bool" where
  "KindScope w kind = (let k = lower (on_host w) kind in
     if k \<in> set namespacedKinds then (True, True) else if k \<in> set clusterKinds then (False, True) else (False, False))"

definition resource_names :: "(string, string) gomap" where
  "resource_names = [(''po'', ''pods''), (''pod'', ''pods''), (''deploy'', ''deployments''), (''deployment'', ''deployments''), (''svc'', ''services''),
     (''service'', ''services''), (''ns'', ''namespaces''), (''namespace'', ''namespaces''), (''no'', ''nodes''), (''node'', ''nodes''),
     (''cm'', ''configmaps''), (''configmap'', ''configmaps''), (''sts'', ''statefulsets''), (''statefulset'', ''statefulsets''), (''ds'', ''daemonsets''),
     (''daemonset'', ''daemonsets''), (''rs'', ''replicasets''), (''replicaset'', ''replicasets''), (''ing'', ''ingresses''), (''ingress'', ''ingresses''),
     (''job'', ''jobs''), (''cj'', ''cronjobs''), (''cronjob'', ''cronjobs''), (''ev'', ''events''), (''event'', ''events''), (''pvc'', ''persistentvolumeclaims''),
     (''pv'', ''persistentvolumes''), (''sa'', ''serviceaccounts''), (''secret'', ''secrets'')]"

definition Resource :: "outside \<Rightarrow> string \<Rightarrow> string" where
  "Resource w r = (let s = lower (on_host w) (TrimSpace r) in case map_of resource_names s of Some p \<Rightarrow> p | None \<Rightarrow> s)"

definition clusterSubject :: "outside \<Rightarrow> string \<Rightarrow> args \<Rightarrow> string option" where
  "clusterSubject w tool a =
     (if tool \<notin> {''k8s_login'', ''k8s_get'', ''k8s_apply''} then None
      else case a of
          Inl e \<Rightarrow> None
        | Inr m \<Rightarrow>
            let cl = TrimSpace (str_arg w m ''cluster'');
                at = (if cl = '''' then ''context:'' @ str_arg w m ''context'' else cl);
                ns = str_arg w m ''namespace''; res = Resource w (str_arg w m ''resource'');
                wide = (if tool = ''k8s_apply'' \<and> str_arg w m ''action'' = ''apply''
                        then (let (namespaced, known) = KindScope w (manifest_kind w (str_arg w m ''manifest'')) in \<not> namespaced \<or> \<not> known)
                        else res \<in> set clusterResources);
                ns' = (if wide then ClusterWide else ns)
            in Some (if tool = ''k8s_get'' then at @ ''/'' @ ns' @ ''/'' @ res
                     else if tool = ''k8s_apply'' then at @ ''/'' @ ns' @ ''/'' @ str_arg w m ''action''
                     else at))"

definition toolSubject :: "outside \<Rightarrow> string \<Rightarrow> args \<Rightarrow> string option" where
  "toolSubject w tool a = (case clusterSubject w tool a of Some s \<Rightarrow> Some s | None \<Rightarrow> PolicySubject w tool a)"

definition Subject :: "outside \<Rightarrow> string \<Rightarrow> args \<Rightarrow> string" where
  "Subject w tool a = (case toolSubject w tool a of Some t \<Rightarrow> t | None \<Rightarrow> fst (snd (subjectOf w a)))"

definition toolchainLanguage :: "string \<Rightarrow> string option" where
  "toolchainLanguage subject =
     (let (name, version) = (case Cut subject ''@'' of None \<Rightarrow> (subject, None) | Some (n, v) \<Rightarrow> (n, Some v))
      in case Cut name ''+'' of
           None \<Rightarrow> None
         | Some (lang, _) \<Rightarrow> if lang = '''' then None else Some (case version of None \<Rightarrow> lang | Some v \<Rightarrow> lang @ ''@'' @ v))"

section \<open>Commands\<close>

datatype readAs = asCommand | asTyped | asLine

record command_read =
  cr_canon :: canon
  cr_subjects :: "string list"
  cr_allow :: "string list"
  cr_narrow :: bool
  cr_complete :: bool

definition shellRead :: "outside \<Rightarrow> string \<Rightarrow> readAs \<Rightarrow> command_read" where
  "shellRead w command mode =
     (let h = on_host w; c0 = CanonicalCommand w command;
          c = (case mode of asCommand \<Rightarrow> c0 | asTyped \<Rightarrow> AtTerminal w c0 | asLine \<Rightarrow> AsTerminalLine w c0);
          (s1, k1) = commandSegments h command;
          (s2, k2) = (if cn_Text c \<noteq> command then commandSegments h (cn_Text c) else ([], True));
          (s3, k3) = (if IFS c \<noteq> '''' then commandSegments h (IFSSplitText w (cn_Text c) (IFS c)) else ([], True));
          joined = Joined c \<and> \<not> Reworded c
      in \<lparr>cr_canon = c, cr_subjects = s1 @ s2 @ s3 @ Commands c, cr_allow = [if joined then cn_Text c else command],
          cr_narrow = (\<not> Reworded c \<and> \<not> hasShellControl (if joined then cn_Text c else command)), cr_complete = (k1 \<and> k2 \<and> k3)\<rparr>)"

text \<open>The text outside single quotes; an unclosed quote keeps the rest.\<close>

function withoutSingleQuoted :: "string \<Rightarrow> string" where
  "withoutSingleQuoted s =
     (case Cut s [CHR 0x27] of
        None \<Rightarrow> s
      | Some (a, b) \<Rightarrow> (case Cut b [CHR 0x27] of
            None \<Rightarrow> s
          | Some (q, tail) \<Rightarrow> a @ [CHR 0x27, CHR 0x27] @ withoutSingleQuoted tail))"
  by pat_completeness auto

lemma Cut_shorter: "Cut s [c] = Some (a, b) \<Longrightarrow> length b < length s"
proof (induction s arbitrary: a)
  case Nil
  then show ?case by (simp add: Cut.simps HasPrefix_def)
next
  case (Cons x s)
  then show ?case
    by (subst (asm) (2) Cut.simps) (auto simp: HasPrefix_def split: if_splits)
qed

termination withoutSingleQuoted
  by (relation "measure length") (auto dest!: Cut_shorter)

declare withoutSingleQuoted.simps [simp del]

function backslashInSingleQuotes :: "string \<Rightarrow> bool" where
  "backslashInSingleQuotes s =
     (case Cut s [CHR 0x27] of
        None \<Rightarrow> False
      | Some (a, b) \<Rightarrow> (case Cut b [CHR 0x27] of
            None \<Rightarrow> backslash \<in> set b
          | Some (q, tail) \<Rightarrow> if backslash \<in> set q then True else backslashInSingleQuotes tail))"
  by pat_completeness auto
termination
  by (relation "measure length") (auto dest!: Cut_shorter)

declare backslashInSingleQuotes.simps [simp del]

record remoteRead =
  rr_host :: string
  rr_command :: string
  rr_canon :: canon
  rr_commands :: "string list"
  rr_subjects :: "string list"
  rr_allow :: "string list"
  rr_narrow :: bool
  rr_complete :: bool
  rr_stdin :: bool
  quotedOnly :: bool

definition add_new :: "string \<Rightarrow> string list \<Rightarrow> string list" where
  "add_new s out = (if s \<in> set out then out else out @ [s])"

definition readRemote :: "outside \<Rightarrow> string \<Rightarrow> string \<Rightarrow> bool \<Rightarrow> remoteRead" where
  "readRemote w host command stdin =
     (let r = shellRead w command asCommand; c = cr_canon r; cmds = withBaseNames (cr_subjects r);
          parsed = (\<not> Unparsed c \<and> \<not> Incomplete c \<and> OpaqueWhy c = '''' \<and> \<not> ProgramHidden c)
      in \<lparr>rr_host = host, rr_command = command, rr_canon = c, rr_commands = cmds,
          rr_subjects = fold (\<lambda>s out. add_new (host @ ''/'' @ s) (add_new s out)) cmds [host @ ''/'' @ command],
          rr_allow = map (\<lambda>s. host @ ''/'' @ s) (cr_allow r), rr_narrow = (cr_narrow r \<and> parsed), rr_complete = cr_complete r, rr_stdin = stdin,
          quotedOnly = (\<not> cr_narrow r \<and> parsed \<and> \<not> Reworded c \<and> \<not> hasShellControl (withoutSingleQuoted command) \<and>
            \<not> backslashInSingleQuotes command)\<rparr>)"

definition remoteCommand :: "outside \<Rightarrow> string \<Rightarrow> args \<Rightarrow> (string \<times> string) option" where
  "remoteCommand w tool a =
     (if tool \<noteq> ''ssh'' then None
      else case a of
          Inl e \<Rightarrow> None
        | Inr m \<Rightarrow> if str_arg w m ''host'' = '''' then None else Some (str_arg w m ''host'', str_arg w m ''command''))"

definition carriesStdinSecret :: "outside \<Rightarrow> args \<Rightarrow> bool" where
  "carriesStdinSecret w a = (case a of
       Inl e \<Rightarrow> True
     | Inr m \<Rightarrow> (case Lookup w m ''stdin_secret'' of None \<Rightarrow> False | Some JNull \<Rightarrow> False | Some (JStr s) \<Rightarrow> s \<noteq> '''' | Some v \<Rightarrow> True))"

definition rawProgram :: "host \<Rightarrow> string \<Rightarrow> string" where
  "rawProgram h command = (case Fields command of [] \<Rightarrow> '''' | f # _ \<Rightarrow> CommandName h (path_Base f))"

definition matchesRemoteFlags :: "host \<Rightarrow> PolicyRule \<Rightarrow> remoteRead \<Rightarrow> bool" where
  "matchesRemoteFlags h r rr \<longleftrightarrow> r_pattern r \<noteq> None \<and> ForTool r ''ssh'' \<and>
     (let match = (\<lambda>f. case f of None \<Rightarrow> False | Some g \<Rightarrow> list_ex (flags_match h g) (rr_commands rr))
      in match (flags r) \<or>
         (case Cut (r_glob r) ''/'' of
            None \<Rightarrow> False
          | Some (hg, tail) \<Rightarrow> hg \<noteq> '''' \<and> \<not> ContainsAny hg [CHR '' '', CHR 0x09] \<and> globToRegexp hg \<noteq> None \<and> glob_match hg (rr_host rr) \<and>
              match (parseFlagForm h tail)))"

section \<open>The engine\<close>

datatype Mode = ModeDefault | ModeAcceptEdits | ModePlan | ModeAuto | ModeBypass

datatype PolicyDecision = Allow | Ask | Deny

record Result =
  res_Decision :: PolicyDecision
  res_Reason :: string
  res_Scope :: string
  res_Step :: string
  res_Rule :: string
  res_Suggest :: string
  res_Layer :: string
  res_Guard :: string

definition result :: "PolicyDecision \<Rightarrow> string \<Rightarrow> string \<Rightarrow> Result" where
  "result d why step = \<lparr>res_Decision = d, res_Reason = why, res_Scope = '''', res_Step = step, res_Rule = '''', res_Suggest = '''',
     res_Layer = '''', res_Guard = ''''\<rparr>"

definition by_rule :: "PolicyDecision \<Rightarrow> string \<Rightarrow> string \<Rightarrow> PolicyRule \<Rightarrow> Result" where
  "by_rule d why step r = (result d (why @ named r) step)\<lparr>res_Rule := raw r, res_Layer := r_layer r\<rparr>"

definition Offer :: "Result \<Rightarrow> string" where
  "Offer r = (if res_Decision r \<noteq> Ask \<or> res_Step r \<noteq> ''default'' then '''' else res_Scope r)"

definition Covers :: "Result \<Rightarrow> string \<Rightarrow> string \<Rightarrow> bool" where
  "Covers r scope guard \<longleftrightarrow> scope \<noteq> '''' \<and> scope = Offer r \<and> guard = res_Guard r"

record Engine =
  e_Mode :: Mode
  e_Deny :: "PolicyRule list"
  e_Ask :: "PolicyRule list"
  e_Allow :: "PolicyRule list"
  hook_count :: nat
  Managed :: bool
  Session :: "Overlay option"
  AskReadOnly :: "(string \<times> (string \<Rightarrow> string)) list"
  RemoteReads :: "PolicyRule list"

definition New :: "Mode \<Rightarrow> Engine" where
  "New mode = \<lparr>e_Mode = mode, e_Deny = [], e_Ask = [], e_Allow = [], hook_count = 0, Managed = False, Session = None, AskReadOnly = [],
     RemoteReads = []\<rparr>"

definition WithoutHooks :: "Engine \<Rightarrow> Engine" where
  "WithoutHooks e = e\<lparr>hook_count := 0\<rparr>"

definition WithReadOnlyAsk :: "string \<Rightarrow> (string \<Rightarrow> string) \<Rightarrow> Engine \<Rightarrow> Engine" where
  "WithReadOnlyAsk tool f e = e\<lparr>AskReadOnly := AList.update tool f (AskReadOnly e)\<rparr>"

definition AddDeny :: "host \<Rightarrow> string list \<Rightarrow> Engine \<Rightarrow> string option \<times> Engine" where
  "AddDeny h ps e = (case addAll h (e_Deny e) ps of (err, rs) \<Rightarrow> (err, e\<lparr>e_Deny := rs\<rparr>))"

definition AddAsk :: "host \<Rightarrow> string list \<Rightarrow> Engine \<Rightarrow> string option \<times> Engine" where
  "AddAsk h ps e = (case addAll h (e_Ask e) ps of (err, rs) \<Rightarrow> (err, e\<lparr>e_Ask := rs\<rparr>))"

definition AddAllow :: "host \<Rightarrow> string list \<Rightarrow> Engine \<Rightarrow> string option \<times> Engine" where
  "AddAllow h ps e = (case addAll h (e_Allow e) ps of (err, rs) \<Rightarrow> (err, e\<lparr>e_Allow := rs\<rparr>))"

definition AddLayer :: "host \<Rightarrow> string \<Rightarrow> string list \<Rightarrow> string list \<Rightarrow> string list \<Rightarrow> Engine \<Rightarrow> string option \<times> Engine" where
  "AddLayer h layer deny ask allow e =
     (if TrimSpace layer = '''' then (Some ''a policy layer needs a name'', e)
      else case parse_layer h layer deny of
          Inl x \<Rightarrow> (Some x, e)
        | Inr ds \<Rightarrow> (case parse_layer h layer ask of
              Inl x \<Rightarrow> (Some x, e)
            | Inr qs \<Rightarrow> (case parse_layer h layer allow of
                  Inl x \<Rightarrow> (Some x, e)
                | Inr ws \<Rightarrow> (None, e\<lparr>e_Deny := e_Deny e @ ds, e_Ask := e_Ask e @ qs, e_Allow := e_Allow e @ ws\<rparr>))))"

definition DenyRules :: "Engine \<Rightarrow> PolicyRule list" where
  "DenyRules e = e_Deny e @ fst (snapshot (Session e))"

definition AskRules :: "Engine \<Rightarrow> PolicyRule list" where
  "AskRules e = e_Ask e @ fst (snd (snapshot (Session e)))"

definition AllowRules :: "Engine \<Rightarrow> PolicyRule list" where
  "AllowRules e = e_Allow e @ snd (snd (snapshot (Session e)))"

definition rulesSeeParts :: "Engine \<Rightarrow> string \<Rightarrow> bool" where
  "rulesSeeParts e tool \<longleftrightarrow> patterned (DenyRules e) tool \<or> patterned (AskRules e) tool"

definition pathRules :: "Engine \<Rightarrow> string \<Rightarrow> bool" where
  "pathRules e tool \<longleftrightarrow> patterned (DenyRules e) tool \<or> patterned (AskRules e) tool \<or> patterned (AllowRules e) tool"

definition Screens :: "Engine \<Rightarrow> string \<Rightarrow> bool" where
  "Screens e tool \<longleftrightarrow> hook_count e > 0 \<or> list_ex (\<lambda>r. ForTool r tool) (DenyRules e)"

section \<open>A call as it is read\<close>

record call =
  c_tool :: string
  c_mutates :: bool
  c_key :: string
  c_subject :: string
  c_subjects :: "string list"
  c_allow :: "string list"
  c_narrow :: bool
  c_complete :: bool
  c_canon :: canon
  c_script :: scriptRead
  c_remote :: "remoteRead option"
  c_k8s :: bool

definition no_script :: scriptRead where
  "no_script = \<lparr>sr_subjects = [], sr_refuse = '''', sr_ask = ''''\<rparr>"

definition one_line :: "string \<Rightarrow> bool" where
  "one_line s \<longleftrightarrow> CHR 0x0A \<notin> set s \<and> CHR 0x0D \<notin> set s"

text \<open>The subject read as a command, as a path, or as it is.\<close>

definition read_subject :: "outside \<Rightarrow> Engine \<Rightarrow> readAs \<Rightarrow> string \<Rightarrow> bool \<Rightarrow> string \<Rightarrow> string \<Rightarrow> bool \<Rightarrow> call" where
  "read_subject w e mode tool mutates key subject k8s =
     (let c = \<lparr>c_tool = tool, c_mutates = mutates, c_key = key, c_subject = subject, c_subjects = [subject], c_allow = [subject],
          c_narrow = one_line subject, c_complete = True, c_canon = no_canon, c_script = no_script, c_remote = None, c_k8s = k8s\<rparr>
      in if tool = ''bash''
         then (let r = shellRead w subject mode; s = (if rulesSeeParts e tool then readScripts w (cr_canon r) else no_script)
               in c\<lparr>c_subjects := withBaseNames (cr_subjects r @ sr_subjects s), c_allow := cr_allow r, c_narrow := cr_narrow r,
                    c_complete := cr_complete r, c_canon := cr_canon r, c_script := s\<rparr>)
         else if key = ''path'' \<and> pathRules e tool
         then (case pathSubjects w subject (rulesSeeParts e tool) of (s, a) \<Rightarrow> c\<lparr>c_subjects := s, c_allow := a\<rparr>)
         else c)"

definition retarget :: "string option \<Rightarrow> call \<Rightarrow> call" where
  "retarget target c = (case target of
       None \<Rightarrow> c
     | Some t \<Rightarrow> c\<lparr>c_subjects := t # (if c_subject c \<noteq> '''' \<and> c_subject c \<noteq> t then [c_subject c] else []), c_allow := [t], c_subject := t,
         c_narrow := one_line t\<rparr>)"

definition with_language :: "call \<Rightarrow> call" where
  "with_language c = (if c_tool c = ''toolchain''
     then (case toolchainLanguage (c_subject c) of None \<Rightarrow> c | Some l \<Rightarrow> c\<lparr>c_subjects := c_subjects c @ [l]\<rparr>) else c)"

definition with_remote :: "outside \<Rightarrow> args \<Rightarrow> call \<Rightarrow> call" where
  "with_remote w a c = (case remoteCommand w (c_tool c) a of
       None \<Rightarrow> c
     | Some (host, command) \<Rightarrow> let rr = readRemote w host command (carriesStdinSecret w a)
         in c\<lparr>c_remote := Some rr, c_canon := rr_canon rr, c_subjects := rr_subjects rr, c_allow := rr_allow rr, c_narrow := rr_narrow rr,
              c_complete := rr_complete rr\<rparr>)"

definition read_call :: "outside \<Rightarrow> Engine \<Rightarrow> readAs \<Rightarrow> string \<Rightarrow> bool \<Rightarrow> args \<Rightarrow> string + call" where
  "read_call w e mode tool mutates a =
     (case subjectOf w a of
        (key, subject, Some (BadArgs err)) \<Rightarrow> Inl err
      | (key, subject, err) \<Rightarrow>
          if err \<noteq> None \<and> rulesSeeParts e tool then Inl ''a subject is not a string or a list of strings''
          else Inr (with_remote w a (with_language (retarget (toolSubject w tool a)
            (read_subject w e mode tool mutates key subject (clusterSubject w tool a \<noteq> None))))))"

section \<open>Hooks\<close>

text \<open>
  What one hook gave: whether the decision's deadline had passed before it was asked, its answer, and whether it had passed after.
\<close>

datatype lateness = In_time | Too_late | Cancelled

record hook_run =
  before :: lateness
  answer :: "Result option"
  after :: lateness

definition hookLate :: "lateness \<Rightarrow> Result" where
  "hookLate l = result Deny ((if l = Cancelled then ''the decision was cancelled before the policy hooks decided''
     else ''the policy hooks did not decide before the deadline'') @ '', so the call is refused'') ''hook''"

text \<open>The hooks in order: a refusal, or the first question.\<close>

fun run_hooks :: "hook_run list \<Rightarrow> Result option \<Rightarrow> Result + Result option" where
  "run_hooks [] ask = Inr ask"
| "run_hooks (k # ks) ask =
     (if before k \<noteq> In_time then Inl (hookLate (before k))
      else case answer k of
          None \<Rightarrow> if after k \<noteq> In_time then Inl (hookLate (after k)) else run_hooks ks ask
        | Some r \<Rightarrow>
            if res_Decision r = Allow then (if after k \<noteq> In_time then Inl (hookLate (after k)) else run_hooks ks ask)
            else let r' = (if res_Step r = '''' then r\<lparr>res_Step := ''hook''\<rparr> else r)
                 in if res_Decision r \<noteq> Ask then Inl r' else run_hooks ks (if ask = None then Some r' else ask))"

section \<open>The steps\<close>

definition pathFoldsCase :: "outside \<Rightarrow> string list \<Rightarrow> bool" where
  "pathFoldsCase w subjects \<longleftrightarrow> foldsNames (on_host w) \<or>
     (case find (\<lambda>s. HasPrefix s ''/'') subjects of None \<Rightarrow> False | Some s \<Rightarrow> FoldsCaseAt w s)"

text \<open>How deny and ask rules are matched against a call.\<close>

definition rule_matches :: "outside \<Rightarrow> call \<Rightarrow> PolicyRule \<Rightarrow> bool" where
  "rule_matches w c r \<longleftrightarrow>
     (let h = on_host w; tool = c_tool c; ss = c_subjects c
      in if c_k8s c \<and> ContainsAny (c_subject c) ''*?''
         then matchesAny h r tool ss \<or> (ForTool r tool \<and> r_pattern r \<noteq> None \<and> globsMeet (r_glob r) (c_subject c))
         else case c_remote c of
             Some rr \<Rightarrow> matchesAny h r tool ss \<or> matchesRemoteFlags h r rr
           | None \<Rightarrow>
               if tool = ''bash'' then matchesAny h r tool ss \<or> matchesFlagsAny h r tool ss
               else if c_key c = ''path''
               then matchesPathAny h r tool ss \<or> (pathFoldsCase w ss \<and> matchesCaselessAny h r tool ss)
               else matchesAny h r tool ss)"

definition dash :: string where
  "dash = [CHR '' '', CHR 0xE2, CHR 0x80, CHR 0x94, CHR '' '']"

definition uncheckable :: string where
  "uncheckable = '', so it cannot be checked against the deny rules''"

definition deny_step :: "outside \<Rightarrow> Engine \<Rightarrow> call \<Rightarrow> Result option" where
  "deny_step w e c = map_option (by_rule Deny ''denied by '' ''deny'') (find (rule_matches w c) (DenyRules e))"

definition ifsReason :: "canon \<Rightarrow> string" where
  "ifsReason c =
     (if IFS c \<noteq> '''' then ''the command changes IFS and then expands words''
      else if IFSCause c = ''loop'' then ''the command sets IFS in a for loop and then expands words''
      else if IFSCause c = ''arithmetic'' then ''the command sets IFS by arithmetic and then expands words''
      else if IFSCause c = ''named'' then ''the command sets IFS to a value its text does not show and then expands words''
      else if IFSCause c = ''unparsed'' then ''the command cannot be parsed as the shell reads it, so where it sets IFS is not known''
      else ''the command runs text built from an expansion (given to eval, a shell's -c or a command that sets variables by name), '' @
        ''which could set IFS and split its words'') @
     '', so the words that run cannot be checked against the deny rules''"

text \<open>What no deny rule can read is refused where a deny rule has a pattern for the tool.\<close>

definition screen_step :: "Engine \<Rightarrow> call \<Rightarrow> Result option" where
  "screen_step e c =
     (let cn = c_canon c
      in if \<not> patterned (DenyRules e) (c_tool c) then None
         else if ProgramHidden cn then Some (result Deny (''the program is named by an expansion that edits its value'' @ uncheckable) ''screen'')
         else if OpaqueWhy cn \<noteq> '''' then Some (result Deny (''the command runs text no rule can read ('' @ OpaqueWhy cn @ '')'' @ uncheckable) ''screen'')
         else if Incomplete cn then Some (result Deny (''the command is not complete (an open quote, block or heredoc, or a trailing | or &&)'' @ uncheckable) ''screen'')
         else if Unparsed cn then Some (result Deny (''the command cannot be parsed as the shell reads it'' @ uncheckable) ''screen'')
         else if sr_refuse (c_script c) \<noteq> '''' then Some (result Deny (''the command runs a script no rule can read ('' @ sr_refuse (c_script c) @ '')'' @ uncheckable) ''screen'')
         else if IFSSplit cn then Some (result Deny (ifsReason cn) ''screen'')
         else None)"

definition remoteReadRule :: "outside \<Rightarrow> Engine \<Rightarrow> remoteRead \<Rightarrow> string" where
  "remoteReadRule w e rr =
     (let cn = rr_canon rr; h = on_host w;
          text = (case rr_allow rr of [a] \<Rightarrow> TrimPrefix a (rr_host rr @ ''/'') | _ \<Rightarrow> rr_command rr)
      in if RemoteReads e = [] \<or> \<not> rr_complete rr \<or> Hidden cn \<or> IFSSplit cn then ''''
         else if \<not> rr_narrow rr \<and> \<not> (quotedOnly rr \<and> quotedValues w (rawProgram h (rr_command rr))) then ''''
         else if rr_stdin rr \<or> length (Commands cn) > 1 \<or> Writes cn \<noteq> [] \<or> WriteHidden cn \<noteq> '''' then ''''
         else if Destructive cn \<noteq> None \<or> GitRunsOrWrites cn \<noteq> '''' then ''''
         else let (forms, whole) = strippedForms h text; plain = (whole \<and> forms = [Join (Fields text) '' ''])
              in case find (\<lambda>r. glob_match (r_glob r) text \<and> (\<not> ContainsAny (r_glob r) ''*?'' \<or> (plain \<and> wildcardReadOK w text))) (RemoteReads e) of
                   None \<Rightarrow> ''''
                 | Some r \<Rightarrow> raw r)"

definition read_rule :: "outside \<Rightarrow> Engine \<Rightarrow> call \<Rightarrow> string" where
  "read_rule w e c = (case c_remote c of None \<Rightarrow> '''' | Some rr \<Rightarrow> remoteReadRule w e rr)"

definition plan_step :: "outside \<Rightarrow> Engine \<Rightarrow> call \<Rightarrow> Result option" where
  "plan_step w e c = (if e_Mode e = ModePlan \<and> c_mutates c \<and> read_rule w e c = ''''
     then Some (result Deny ''plan mode is read-only; no changes are applied'' ''mode'') else None)"

definition destructive_step :: "call \<Rightarrow> Result option" where
  "destructive_step c = (if c_tool c = ''bash'' \<or> c_remote c \<noteq> None
     then map_option (\<lambda>what. result Ask (what @ (case c_remote c of None \<Rightarrow> '''' | Some rr \<Rightarrow> '' on '' @ rr_host rr @ '', a remote command with no undo'') @
         dash @ ''always requires confirmation'') ''destructive'') (Destructive (c_canon c)) else None)"

definition trustWords :: "string list" where
  "trustWords = [''abhed_trust_workspace'', ''trust-workspace'', ''trust_workspace'']"

definition namesTrust :: "host \<Rightarrow> string list \<Rightarrow> bool" where
  "namesTrust h texts \<longleftrightarrow> list_ex (\<lambda>t. list_ex (Contains (lower h t)) trustWords) texts"

definition trust_step :: "outside \<Rightarrow> call \<Rightarrow> Result option" where
  "trust_step w c = (if c_tool c = ''bash'' \<and> namesTrust (on_host w) (c_subjects c @ [cn_Text (c_canon c)])
     then Some (result Ask (''the command names ABHED_TRUST_WORKSPACE or -trust-workspace, which would trust a workspace for a nested run'' @ dash @
       ''always requires confirmation'') ''ask'') else None)"

definition unread_step :: "Engine \<Rightarrow> call \<Rightarrow> Result option" where
  "unread_step e c =
     (if \<not> c_complete c \<and> rulesSeeParts e (c_tool c)
      then Some (result Ask ''the command is too long or complex to check each part against the rules'' ''screen'')
      else if sr_refuse (c_script c) \<noteq> '''' \<or> sr_ask (c_script c) \<noteq> ''''
      then Some (result Ask (''the command runs a script that cannot be checked in full against the rules ('' @
        (if sr_refuse (c_script c) \<noteq> '''' then sr_refuse (c_script c) else sr_ask (c_script c)) @ '')'') ''screen'')
      else None)"

definition ask_step :: "outside \<Rightarrow> Engine \<Rightarrow> call \<Rightarrow> Result option" where
  "ask_step w e c = map_option (by_rule Ask ''matched ask '' ''ask'') (find (rule_matches w c) (AskRules e))"

definition hidden_step :: "Engine \<Rightarrow> call \<Rightarrow> Result option" where
  "hidden_step e c = (if Hidden (c_canon c) \<and> rulesSeeParts e (c_tool c)
     then Some (result Ask ''the command builds its words with an expansion, brace list or IFS, so its parts cannot be checked against the rules'' ''screen'')
     else None)"

definition remote_step :: "outside \<Rightarrow> Engine \<Rightarrow> call \<Rightarrow> Result option" where
  "remote_step w e c = (if e_Mode e \<noteq> ModeBypass \<and> read_rule w e c \<noteq> ''''
     then Some (result Allow (''read command '' @ read_rule w e c @ '' (ssh.read_commands) on '' @ (case c_remote c of None \<Rightarrow> '''' | Some rr \<Rightarrow> rr_host rr))
       (if e_Mode e = ModePlan \<or> e_Mode e = ModeAuto then ''mode'' else ''default'')) else None)"

definition readOnlyAsk :: "Engine \<Rightarrow> string \<Rightarrow> string \<Rightarrow> string" where
  "readOnlyAsk e tool subject = (case map_of (AskReadOnly e) tool of None \<Rightarrow> '''' | Some f \<Rightarrow> f subject)"

definition sessionControl :: "string list" where
  "sessionControl = [''shell_kill'', ''task_cancel'']"

definition readOnlyReason :: "string \<Rightarrow> string" where
  "readOnlyReason tool =
     (if tool \<in> set sessionControl then ''session control tool (stops this session's own background work)''
      else if tool = ''task'' then ''subagent tool (each call the subagent makes is decided on its own)''
      else if tool = ''shell_output'' \<or> tool = ''task_status'' then ''session tool (reads this session's own background work)''
      else ''read-only tool'')"

definition mode_step :: "outside \<Rightarrow> Engine \<Rightarrow> call \<Rightarrow> Result option" where
  "mode_step w e c =
     (let tool = c_tool c; quiet = (readOnlyAsk e tool (c_subject c) = ''''); edits = (tool = ''edit'' \<or> tool = ''write'')
      in case e_Mode e of
           ModePlan \<Rightarrow> if c_mutates c then Some (result Deny ''plan mode is read-only; no changes are applied'' ''mode'')
             else if quiet then Some (result Allow (readOnlyReason tool @ '' in plan mode'') ''mode'') else None
         | ModeBypass \<Rightarrow> if Managed e then Some (result Ask (''bypass mode is disabled by organization policy ('' @ ConfigFile w @ ''), so this asks as in default mode'') ''mode'')
             else Some (result Allow ''bypass mode'' ''mode'')
         | ModeAcceptEdits \<Rightarrow> if edits then Some (result Allow ''edits auto-approved in accept-edits mode'' ''mode'') else None
         | ModeAuto \<Rightarrow> if \<not> c_mutates c \<and> quiet then Some (result Allow (readOnlyReason tool @ '' in auto mode'') ''mode'')
             else if edits then Some (result Allow ''file edit auto-approved in auto mode'' ''mode'') else None
         | ModeDefault \<Rightarrow> None)"

definition git_runs :: "call \<Rightarrow> string" where
  "git_runs c = (if c_tool c = ''bash'' \<or> c_remote c \<noteq> None then GitRunsOrWrites (c_canon c) else '''')"

definition allow_matches :: "outside \<Rightarrow> call \<Rightarrow> PolicyRule \<Rightarrow> bool" where
  "allow_matches w c r \<longleftrightarrow> \<not> (git_runs c \<noteq> '''' \<and> \<not> matchesEverything r \<and> ContainsAny (r_glob r) ''*?'') \<and>
     (c_narrow c \<or> matchesEverything r) \<and> matchesAny (on_host w) r (c_tool c) (c_allow c)"

definition allow_step :: "outside \<Rightarrow> Engine \<Rightarrow> call \<Rightarrow> Result option" where
  "allow_step w e c = map_option (by_rule Allow ''matched allow '' ''allow'') (find (allow_matches w c) (AllowRules e))"

section \<open>The question and the scope it offers\<close>

definition scopeTools :: "(string \<times> string list option) list" where
  "scopeTools = [(''git'', Some [''status'', ''diff'', ''log'', ''show'', ''branch'', ''add'', ''commit'', ''switch'', ''stash'', ''rev-parse'', ''ls-files'',
       ''blame'', ''tag'']),
     (''ls'', None), (''cat'', None), (''head'', None), (''tail'', None), (''wc'', None), (''pwd'', None), (''echo'', None), (''which'', None), (''file'', None),
     (''stat'', None), (''du'', None), (''df'', None), (''grep'', None), (''jq'', None), (''diff'', None), (''cut'', None), (''tr'', None), (''mkdir'', None),
     (''touch'', None), (''npm'', Some [''ls'', ''outdated'']), (''pip'', Some [''list'', ''show'', ''freeze'']), (''pip3'', Some [''list'', ''show'', ''freeze'']),
     (''docker'', Some [''ps'', ''images'', ''logs'', ''version''])]"

definition scopeSubs :: "(string \<times> string list) list" where
  "scopeSubs = [(''git stash'', [''list'', ''show''])]"

definition codeFlag :: "string \<Rightarrow> bool \<Rightarrow> bool" where
  "codeFlag a short_flags =
     (let flag = takeWhile (\<lambda>c. c \<noteq> CHR ''='') a
      in if flag = ''--eval'' \<or> flag = ''--exec'' then True
         else if \<not> short_flags \<or> HasPrefix a ''--'' \<or> \<not> HasPrefix a ''-'' then False
         else ContainsAny (tl a) ''ce'')"

text \<open>How many words a scope covers: the program, its subcommand, and a word after that where one must follow.\<close>

definition scope_words :: "string list \<Rightarrow> nat option" where
  "scope_words ws =
     (case map_of scopeTools (hd ws) of
        None \<Rightarrow> None
      | Some None \<Rightarrow> Some 1
      | Some (Some subs) \<Rightarrow>
          if length ws < 2 \<or> ws ! 1 \<notin> set subs then None
          else case map_of scopeSubs (Join (take 2 ws) '' '') of
              None \<Rightarrow> Some 2
            | Some nested \<Rightarrow> if length ws < 3 \<or> ws ! 2 \<notin> set nested then None else Some 3)"

definition bashScope :: "string list \<Rightarrow> string" where
  "bashScope ws =
     (if isAssignment (hd ws) then ''''
      else case scope_words ws of
          None \<Rightarrow> ''''
        | Some n \<Rightarrow>
            if list_ex (\<lambda>a. codeFlag a (map_of scopeTools (hd ws) \<noteq> Some None)) (tl ws) then ''''
            else if list_ex (\<lambda>x. ContainsAny x ([CHR 0x27, CHR 0x22, backslash, CHR 0x60] @ ''$*?[]{}'')) (take n ws) then ''''
            else Join (take n ws) '' '')"

definition suggestRule :: "string \<Rightarrow> string \<Rightarrow> string" where
  "suggestRule tool subject =
     (if tool \<noteq> ''bash'' \<or> subject = '''' \<or> length subject > 200 \<or> hasShellControl subject \<or> ContainsAny subject ''*?'' \<or> TrimSpace subject \<noteq> subject
      then '''' else tool @ ''('' @ subject @ '')'')"

definition bash_scope_of :: "outside \<Rightarrow> string \<Rightarrow> string" where
  "bash_scope_of w subject =
     (if hasShellControl subject then ''''
      else case Fields subject of
          [] \<Rightarrow> ''bash''
        | f # fs \<Rightarrow>
            let ws = CommandName (on_host w) f # fs; pre = bashScope ws
            in if GitRunsOrWrites (CanonicalCommand w subject) \<noteq> '''' then ''''
               else if pre = '''' \<or> \<not> resolvesOutsideRoots w (hd ws) then ''''
               else ''bash('' @ pre @ '' *)'')"

definition suggestScope :: "outside \<Rightarrow> string \<Rightarrow> string \<Rightarrow> string" where
  "suggestScope w tool subject =
     (if subject = '''' then tool
      else if tool = ''bash'' then bash_scope_of w subject
      else if tool = ''ssh'' \<and> (let command = (case Cut subject ''/'' of None \<Rightarrow> '''' | Some (_, b) \<Rightarrow> b)
        in hasShellControl command \<or> ContainsAny command ''*?'') then ''''
      else case (if tool = ''web_fetch'' then url_site w subject else None) of
          Some site \<Rightarrow> tool @ ''('' @ site @ ''/*)''
        | None \<Rightarrow> tool @ ''('' @ subject @ '')'')"

definition mode_text :: "Mode \<Rightarrow> string" where
  "mode_text m = (case m of ModeDefault \<Rightarrow> ''default'' | ModeAcceptEdits \<Rightarrow> ''accept-edits'' | ModePlan \<Rightarrow> ''plan'' | ModeAuto \<Rightarrow> ''auto'' | ModeBypass \<Rightarrow> ''bypass'')"

definition askReason :: "string \<Rightarrow> Mode \<Rightarrow> string" where
  "askReason tool mode =
     (if tool = ''bash'' then ''running a command'' else if tool = ''edit'' \<or> tool = ''write'' then ''changing a file''
      else tool @ '' can make changes, so it'') @ '' needs approval in '' @ mode_text mode @ '' mode''"

definition scope_guarded :: "outside \<Rightarrow> Result \<Rightarrow> Result" where
  "scope_guarded w r = (case GitFingerprint w of
       Some g \<Rightarrow> if HasPrefix (res_Scope r) ''bash(git '' then r\<lparr>res_Guard := g\<rparr> else r
     | None \<Rightarrow> r)"

definition defaultAsk :: "outside \<Rightarrow> string \<Rightarrow> string \<Rightarrow> string \<Rightarrow> Result" where
  "defaultAsk w tool subject why =
     (let r = (result Ask why ''default'')\<lparr>res_Scope := suggestScope w tool subject\<rparr>; s = suggestRule tool subject
      in scope_guarded w (if res_Scope r = '''' \<and> s \<noteq> ''''
           then r\<lparr>res_Suggest := s, res_Reason := why @ '' (to always allow exactly this, add '' @ s @ '' to permissions.allow)''\<rparr> else r))"

definition default_step :: "outside \<Rightarrow> Engine \<Rightarrow> call \<Rightarrow> Result" where
  "default_step w e c =
     (let why = readOnlyAsk e (c_tool c) (c_subject c)
      in if why \<noteq> '''' \<and> \<not> c_mutates c then defaultAsk w (c_tool c) (c_subject c) why
         else if \<not> c_mutates c then result Allow (readOnlyReason (c_tool c)) ''default''
         else defaultAsk w (c_tool c) (c_subject c) (askReason (c_tool c) (e_Mode e) @
           (if git_runs c \<noteq> '''' then '' ('' @ git_runs c @ '', so no allow rule with a wildcard approves it)'' else '''')))"

section \<open>The decision\<close>

text \<open>The first step that decides, in the order of the code, or the default.\<close>

fun first_of :: "Result option list \<Rightarrow> Result \<Rightarrow> Result" where
  "first_of [] r = r"
| "first_of (Some x # xs) r = x"
| "first_of (None # xs) r = first_of xs r"

definition before_hooks_ask :: "outside \<Rightarrow> Engine \<Rightarrow> call \<Rightarrow> Result option list" where
  "before_hooks_ask w e c = [deny_step w e c, screen_step e c, plan_step w e c, destructive_step c, trust_step w c, unread_step e c,
     ask_step w e c, hidden_step e c]"

definition after_hooks_ask :: "outside \<Rightarrow> Engine \<Rightarrow> call \<Rightarrow> Result option list" where
  "after_hooks_ask w e c = [remote_step w e c, mode_step w e c, allow_step w e c]"

definition decide :: "outside \<Rightarrow> Engine \<Rightarrow> hook_run list \<Rightarrow> call \<Rightarrow> Result" where
  "decide w e ks c = (case run_hooks ks None of
       Inl r \<Rightarrow> r
     | Inr hook_ask \<Rightarrow> first_of (before_hooks_ask w e c @ [hook_ask] @ after_hooks_ask w e c) (default_step w e c))"

definition evaluate :: "outside \<Rightarrow> Engine \<Rightarrow> readAs \<Rightarrow> hook_run list \<Rightarrow> string \<Rightarrow> bool \<Rightarrow> args \<Rightarrow> Result" where
  "evaluate w e mode ks tool mutates a = (case read_call w e mode tool mutates a of
       Inl err \<Rightarrow> result Deny err ''args''
     | Inr c \<Rightarrow> decide w e ks c)"

definition evaluateAs :: "outside \<Rightarrow> Engine \<Rightarrow> readAs \<Rightarrow> hook_run list \<Rightarrow> string \<Rightarrow> bool \<Rightarrow> args \<Rightarrow> Result" where
  "evaluateAs w e mode ks tool mutates a =
     (let r = evaluate w e mode ks tool mutates a
      in case subjectOf w a of
           (_, subject, None) \<Rightarrow>
             if res_Decision r = Ask \<and> tool = ''bash'' \<and> Contains subject [backslash, CHR 0x0A] \<and> Joined (CanonicalCommand w subject)
             then r\<lparr>res_Reason := res_Reason r @ '' (the command continues lines with backslash-newline; it was checked joined)''\<rparr> else r
         | _ \<Rightarrow> r)"

text \<open>A call matched the way a deny rule would be; one that cannot be read that far counts as matched.\<close>

definition MatchesCall :: "outside \<Rightarrow> PolicyRule list \<Rightarrow> string \<Rightarrow> args \<Rightarrow> bool" where
  "MatchesCall w rs tool a =
     (case subjectOf w a of
        (_, _, Some err) \<Rightarrow> True
      | (key, subject, None) \<Rightarrow>
          let h = on_host w
          in if tool = ''bash''
             then (case commandSegments h subject of (ss, whole) \<Rightarrow> \<not> whole \<or> list_ex (\<lambda>r. matchesAny h r tool (ss @ [subject])) rs)
             else if key = ''path'' then list_ex (\<lambda>r. matchesPathAny h r tool (fst (pathSubjects w subject True))) rs
             else list_ex (\<lambda>r. matchesAny h r tool [subject]) rs)"

definition RemoteReadOf :: "outside \<Rightarrow> Engine \<Rightarrow> string \<Rightarrow> args \<Rightarrow> string" where
  "RemoteReadOf w e tool a = (case remoteCommand w tool a of
       None \<Rightarrow> ''''
     | Some (host, command) \<Rightarrow> remoteReadRule w e (readRemote w host command (carriesStdinSecret w a)))"

end
