(* ===== verification/PolicyLaws.thy ===== *)
theory PolicyLaws
  imports PolicyEngine
begin

text \<open>
  What the permission engine promises: a deny rule holds in every mode and over every part of a chain, hooks only tighten, what
  must be asked is never let through unasked, allow rules only answer the default question, and pinned rules last.
\<close>

section \<open>Patterns that meet\<close>

definition ascii :: "string \<Rightarrow> bool" where
  "ascii s \<longleftrightarrow> \<not> hasNonASCII s"

lemma ascii_simps [simp]: "ascii []" "ascii (c # s) \<longleftrightarrow> byte_val c < 128 \<and> ascii s"
  by (auto simp: ascii_def hasNonASCII_def)

lemma glob_star: "glob_match (CHR ''*'' # p) s \<longleftrightarrow> glob_match p s \<or> (s \<noteq> [] \<and> glob_match (CHR ''*'' # p) (drop (rune_len s) s))"
  by (subst glob_match.simps(2)) simp

lemma star_zero: "glob_match p s \<Longrightarrow> glob_match (CHR ''*'' # p) s"
  by (subst glob_star) simp

lemma glob_one:
  "c \<noteq> CHR ''*'' \<Longrightarrow> byte_val c < 128 \<Longrightarrow>
   glob_match (c # p) s \<longleftrightarrow> s \<noteq> [] \<and> (c = CHR ''?'' \<or> hd s = c) \<and> glob_match p (drop (rune_len s) s)"
  by (cases s) (auto simp: glob_match.simps(2) rune_len_ascii)

lemma meet_simps:
  "globsMeet [] []" "globsMeet [] (d # b) \<longleftrightarrow> d = CHR ''*'' \<and> globsMeet [] b"
  "globsMeet (CHR ''*'' # a) b \<longleftrightarrow> globsMeet a b \<or> (b \<noteq> [] \<and> globsMeet (CHR ''*'' # a) (tl b))"
  "c \<noteq> CHR ''*'' \<Longrightarrow> globsMeet (c # a) (CHR ''*'' # b) \<longleftrightarrow> globsMeet (c # a) b \<or> globsMeet a (CHR ''*'' # b)"
  "c \<noteq> CHR ''*'' \<Longrightarrow> d \<noteq> CHR ''*'' \<Longrightarrow> globsMeet (c # a) (d # b) \<longleftrightarrow> (c = d \<or> c = CHR ''?'' \<or> d = CHR ''?'') \<and> globsMeet a b"
  "c \<noteq> CHR ''*'' \<Longrightarrow> \<not> globsMeet (c # a) []"
  by (subst globsMeet.simps; simp)+

lemma meet_complete:
  "glob_match a s \<Longrightarrow> glob_match b s \<Longrightarrow> ascii a \<Longrightarrow> ascii b \<Longrightarrow> globsMeet a b"
proof (induction "length a + length b + length s" arbitrary: a b s rule: less_induct)
  case less
  note shorter = rune_len_pos [of s] rune_len_le [of s]
  consider (sa) a' where "a = CHR ''*'' # a'" | (sb) b' where "b = CHR ''*'' # b'" "a = [] \<or> hd a \<noteq> CHR ''*''"
    | (n) "a = [] \<or> hd a \<noteq> CHR ''*''" "b = [] \<or> hd b \<noteq> CHR ''*''"
    by (cases a; cases b) auto
  then show ?case
  proof cases
    case sa
    show ?thesis
    proof (cases "glob_match a' s")
      case True
      then have "globsMeet a' b"
        using less.hyps [of a' b s] less.prems sa by simp
      then show ?thesis by (subst globsMeet.simps) (simp add: sa)
    next
      case False
      then have s: "s \<noteq> []" "glob_match a (drop (rune_len s) s)"
        using less.prems(1) sa glob_star [of a' s] by auto
      show ?thesis
      proof (cases b)
        case Nil
        with less.prems(2) s(1) show ?thesis by simp
      next
        case (Cons d b')
        have "globsMeet a b' \<or> globsMeet a b"
        proof (cases "d = CHR ''*''")
          case True
          then consider "glob_match b' s" | "glob_match b (drop (rune_len s) s)"
            using less.prems(2) Cons glob_star [of b' s] by auto
          then show ?thesis
          proof cases
            case 1
            then show ?thesis using less.hyps [of a b' s] less.prems Cons by simp
          next
            case 2
            then show ?thesis using less.hyps [of a b "drop (rune_len s) s"] less.prems s shorter by simp
          qed
        next
          case False
          then have "glob_match b' (drop (rune_len s) s)"
            using less.prems(2,4) Cons glob_one [of d b' s] by simp
          then show ?thesis
            using less.hyps [of a b' "drop (rune_len s) s"] less.prems s Cons by simp
        qed
        then show ?thesis
          by (subst (asm) (2) globsMeet.simps, subst globsMeet.simps) (auto simp: sa Cons)
      qed
    qed
  next
    case sb
    show ?thesis
    proof (cases "glob_match b' s")
      case True
      then have "globsMeet a b'"
        using less.hyps [of a b' s] less.prems sb(1) by simp
      then show ?thesis using sb(2) by (subst globsMeet.simps) (auto simp: sb(1))
    next
      case False
      then have s: "s \<noteq> []" "glob_match b (drop (rune_len s) s)"
        using less.prems(2) sb(1) glob_star [of b' s] by auto
      then obtain c a' where a: "a = c # a'" "c \<noteq> CHR ''*''"
        using less.prems(1) sb(2) by (cases a) auto
      then have "glob_match a' (drop (rune_len s) s)"
        using less.prems(1,3) glob_one [of c a' s] by simp
      then have "globsMeet a' b"
        using less.hyps [of a' b "drop (rune_len s) s"] less.prems s a by simp
      then show ?thesis using a by (subst globsMeet.simps) (auto simp: sb(1))
    qed
  next
    case n
    show ?thesis
    proof (cases "s = []")
      case True
      have "a = []" using less.prems(1) n(1) True by (cases a) (auto simp: glob_match.simps(2))
      moreover have "b = []" using less.prems(2) n(2) True by (cases b) (auto simp: glob_match.simps(2))
      ultimately show ?thesis by (simp add: meet_simps(1))
    next
      case False
      then obtain c a' d b' where ab: "a = c # a'" "b = d # b'"
        using less.prems(1,2) by (cases a; cases b) auto
      with n have "c \<noteq> CHR ''*''" "d \<noteq> CHR ''*''" by simp_all
      then have "c = CHR ''?'' \<or> hd s = c" "d = CHR ''?'' \<or> hd s = d" "glob_match a' (drop (rune_len s) s)" "glob_match b' (drop (rune_len s) s)"
        using less.prems ab glob_one [of c a' s] glob_one [of d b' s] by simp_all
      moreover from this have "globsMeet a' b'"
        using less.hyps [of a' b' "drop (rune_len s) s"] less.prems ab by simp
      ultimately show ?thesis
        using n by (subst globsMeet.simps) (auto simp: ab)
    qed
  qed
qed

lemma glob_step: "byte_val x < 128 \<Longrightarrow> c = x \<or> c = CHR ''?'' \<Longrightarrow> c \<noteq> CHR ''*'' \<Longrightarrow> glob_match p s \<Longrightarrow> glob_match (c # p) (x # s)"
  by (auto simp: glob_match.simps(2) rune_len_ascii)

lemma glob_skip: "byte_val x < 128 \<Longrightarrow> glob_match (CHR ''*'' # p) s \<Longrightarrow> glob_match (CHR ''*'' # p) (x # s)"
  by (subst glob_star) (simp add: rune_len_ascii)

definition plain_char :: "char \<Rightarrow> char" where
  "plain_char c = (if c = CHR ''?'' then CHR ''x'' else c)"

lemma plain_char: "byte_val c < 128 \<Longrightarrow> byte_val (plain_char c) < 128" "c = plain_char c \<or> c = CHR ''?''"
  by (auto simp: plain_char_def byte_val_def)

lemma meet_sound: "globsMeet a b \<Longrightarrow> ascii a \<Longrightarrow> ascii b \<Longrightarrow> \<exists>s. glob_match a s \<and> glob_match b s"
proof (induction "length a + length b" arbitrary: a b rule: less_induct)
  case less
  show ?case
  proof (cases a)
    case Nil
    show ?thesis
    proof (cases b)
      case Nil
      with \<open>a = []\<close> show ?thesis by auto
    next
      case (Cons d b')
      have "d = CHR ''*''" "globsMeet a b'"
        using less.prems(1) Nil Cons by (simp_all add: meet_simps(1,2))
      moreover from this have "\<exists>s. glob_match a s \<and> glob_match b' s"
        using less.hyps [of a b'] Nil Cons less.prems(2,3) by simp
      ultimately show ?thesis
        using Cons star_zero by blast
    qed
  next
    case (Cons c a')
    note a = Cons
    show ?thesis
    proof (cases "c = CHR ''*''")
      case True
      then consider "globsMeet a' b" | d b' where "b = d # b'" "globsMeet a b'"
        using less.prems(1) meet_simps(3) [of a' b] a by (cases b) auto
      then show ?thesis
      proof cases
        case 1
        then have "\<exists>s. glob_match a' s \<and> glob_match b s"
          using less.hyps [of a' b] a less.prems(2,3) by simp
        then show ?thesis using a True star_zero by blast
      next
        case (2 d b')
        then obtain s where s: "glob_match a s" "glob_match b' s"
          using less.hyps [of a b'] less.prems(2,3) by auto
        show ?thesis
        proof (cases "d = CHR ''*''")
          case True
          then show ?thesis using s 2(1) star_zero by blast
        next
          case False
          then have "glob_match b (plain_char d # s)" "glob_match a (plain_char d # s)"
            using glob_step [of "plain_char d" d b' s] glob_skip [of "plain_char d" a' s] plain_char [of d] s 2 less.prems(3) a True by simp_all
          then show ?thesis by blast
        qed
      qed
    next
      case False
      note c = False
      obtain d b' where b: "b = d # b'"
        using less.prems(1) a False by (cases b) (simp_all add: meet_simps(6))
      show ?thesis
      proof (cases "d = CHR ''*''")
        case True
        then consider "globsMeet a b'" | "globsMeet a' b"
          using less.prems(1) a b False by (auto simp: meet_simps(4))
        then show ?thesis
        proof cases
          case 1
          then have "\<exists>s. glob_match a s \<and> glob_match b' s"
            using less.hyps [of a b'] b less.prems(2,3) by simp
          then show ?thesis using b True star_zero by blast
        next
          case 2
          then obtain s where s: "glob_match a' s" "glob_match b s"
            using less.hyps [of a' b] a less.prems(2,3) by auto
          then have "glob_match a (plain_char c # s)" "glob_match b (plain_char c # s)"
            using glob_step [of "plain_char c" c a' s] glob_skip [of "plain_char c" b' s] plain_char [of c] c a b True less.prems(2) by simp_all
          then show ?thesis by blast
        qed
      next
        case False
        then have m: "c = d \<or> c = CHR ''?'' \<or> d = CHR ''?''" "globsMeet a' b'"
          using less.prems(1) a b c by (simp_all add: meet_simps(5))
        then obtain s where s: "glob_match a' s" "glob_match b' s"
          using less.hyps [of a' b'] a b less.prems(2,3) by auto
        define x where "x = (if c = CHR ''?'' then plain_char d else c)"
        have "byte_val x < 128" "c = x \<or> c = CHR ''?''" "d = x \<or> d = CHR ''?''"
          using m(1) plain_char [of d] less.prems(2,3) a b by (auto simp: x_def)
        then have "glob_match a (x # s)" "glob_match b (x # s)"
          using glob_step [of x c a' s] glob_step [of x d b' s] s c False a b by simp_all
        then show ?thesis by blast
      qed
    qed
  qed
qed

text \<open>
  A rule meets a call on every namespace. The test by which a deny or ask rule is held against a call whose own target has
  wildcards says yes exactly when some text matches both patterns: a rule on one namespace holds for a call that reads them all,
  and no rule is held against a call it can never match.
\<close>

theorem globs_meet_iff:
  assumes "ascii a" "ascii b"
  shows "globsMeet a b \<longleftrightarrow> (\<exists>s. glob_match a s \<and> glob_match b s)"
  using meet_sound meet_complete assms by blast

theorem globs_meet_iff_witness:
  "\<exists>s. glob_match ''prod/*/secrets'' s \<and> glob_match ''prod/team-?/*'' s"
proof -
  have "ascii ''prod/*/secrets''" "ascii ''prod/team-?/*''" "globsMeet ''prod/*/secrets'' ''prod/team-?/*''" by code_simp+
  then show ?thesis using globs_meet_iff by blast
qed

text \<open>A pattern with a character outside ASCII meets no single-character wildcard, although both match the character.\<close>

lemma globs_meet_misses:
  "glob_match ''?'' [CHR 0xC3, CHR 0xA9] \<and> glob_match [CHR 0xC3, CHR 0xA9] [CHR 0xC3, CHR 0xA9] \<and> \<not> globsMeet ''?'' [CHR 0xC3, CHR 0xA9]"
  by code_simp

section \<open>The order of the steps\<close>

lemma first_of_append: "first_of (xs @ ys) r = (if list_all (\<lambda>x. x = None) xs then first_of ys r else first_of xs r)"
  by (induction xs r rule: first_of.induct) auto

lemma first_of_in: "first_of xs r = r \<or> Some (first_of xs r) \<in> set xs"
  by (induction xs r rule: first_of.induct) auto

lemma first_of_any: "x \<in> set xs \<Longrightarrow> x \<noteq> None \<Longrightarrow> Some (first_of xs r) \<in> set xs"
  by (induction xs r rule: first_of.induct) auto

lemma result_simps [simp]:
  "res_Decision (result d why step) = d" "res_Step (result d why step) = step" "res_Scope (result d why step) = ''''"
  "res_Decision (by_rule d why step r) = d" "res_Step (by_rule d why step r) = step" "res_Scope (by_rule d why step r) = ''''"
  by (simp_all add: result_def by_rule_def)

fun strict :: "PolicyDecision \<Rightarrow> nat" where
  "strict Allow = 0"
| "strict Ask = 1"
| "strict Deny = 2"

lemma run_hooks_refusal: "run_hooks ks q = Inl r \<Longrightarrow> res_Decision r = Deny"
proof (induction ks q rule: run_hooks.induct)
  case (2 k ks ask)
  then show ?case
  proof (cases "before k = In_time")
    case True
    show ?thesis
    proof (cases "answer k")
      case None
      with 2 True show ?thesis by (auto simp: hookLate_def split: if_splits)
    next
      case (Some x)
      show ?thesis
      proof (cases "res_Decision x")
        case Allow
        with 2 True Some show ?thesis by (auto simp: hookLate_def split: if_splits)
      next
        case Ask
        have "run_hooks ks (if ask = None then Some (if res_Step x = '''' then x\<lparr>res_Step := ''hook''\<rparr> else x) else ask) = Inl r"
          using 2(4) True Some Ask by simp
        with 2(3) [OF _ Some] True Ask show ?thesis by simp
      next
        case Deny
        with 2(4) True Some show ?thesis by (auto split: if_splits)
      qed
    qed
  qed (auto simp: hookLate_def)
qed simp

lemma run_hooks_question:
  "run_hooks ks q = Inr (Some r) \<Longrightarrow> (\<And>x. q = Some x \<Longrightarrow> res_Decision x = Ask) \<Longrightarrow> res_Decision r = Ask"
proof (induction ks q rule: run_hooks.induct)
  case (2 k ks ask)
  have b: "before k = In_time" using 2(4) by (auto split: if_splits)
  show ?case
  proof (cases "answer k")
    case None
    then have "after k = In_time" "run_hooks ks ask = Inr (Some r)"
      using 2(4) b by (auto split: if_splits)
    with 2(1) [OF _ None] b 2(5) show ?thesis by blast
  next
    case (Some x)
    show ?thesis
    proof (cases "res_Decision x")
      case Allow
      then have "after k = In_time" "run_hooks ks ask = Inr (Some r)"
        using 2(4) b Some by (auto split: if_splits)
      with 2(2) [OF _ Some Allow] b 2(5) show ?thesis by blast
    next
      case Ask
      have "run_hooks ks (if ask = None then Some (if res_Step x = '''' then x\<lparr>res_Step := ''hook''\<rparr> else x) else ask) = Inr (Some r)"
        using 2(4) b Some Ask by simp
      with 2(3) [OF _ Some] b Ask 2(5) show ?thesis by (auto split: if_splits)
    next
      case Deny
      with 2(4) b Some show ?thesis by (auto split: if_splits)
    qed
  qed
qed simp

lemma ifE_Some: "(if b then u else v) = Some x \<Longrightarrow> (b \<Longrightarrow> u = Some x \<Longrightarrow> P) \<Longrightarrow> (\<not> b \<Longrightarrow> v = Some x \<Longrightarrow> P) \<Longrightarrow> P"
  by (simp split: if_splits)

lemma step_decisions:
  "deny_step w e c = Some x \<Longrightarrow> res_Decision x = Deny \<and> res_Step x = ''deny''"
  "screen_step e c = Some x \<Longrightarrow> res_Decision x = Deny \<and> res_Step x = ''screen''"
  "plan_step w e c = Some x \<Longrightarrow> res_Decision x = Deny \<and> res_Step x = ''mode''"
  "destructive_step c = Some x \<Longrightarrow> res_Decision x = Ask \<and> res_Step x = ''destructive''"
  "trust_step w c = Some x \<Longrightarrow> res_Decision x = Ask \<and> res_Step x = ''ask''"
  "unread_step e c = Some x \<Longrightarrow> res_Decision x = Ask \<and> res_Step x = ''screen''"
  "ask_step w e c = Some x \<Longrightarrow> res_Decision x = Ask \<and> res_Step x = ''ask''"
  "hidden_step e c = Some x \<Longrightarrow> res_Decision x = Ask \<and> res_Step x = ''screen''"
  "remote_step w e c = Some x \<Longrightarrow> res_Decision x = Allow"
  "allow_step w e c = Some x \<Longrightarrow> res_Decision x = Allow \<and> res_Step x = ''allow''"
proof -
  show "deny_step w e c = Some x \<Longrightarrow> res_Decision x = Deny \<and> res_Step x = ''deny''" by (auto simp: deny_step_def)
  show "screen_step e c = Some x \<Longrightarrow> res_Decision x = Deny \<and> res_Step x = ''screen''"
    unfolding screen_step_def Let_def by (elim ifE_Some option.inject [THEN iffD1, elim_format]; clarsimp)
  show "plan_step w e c = Some x \<Longrightarrow> res_Decision x = Deny \<and> res_Step x = ''mode''"
    unfolding plan_step_def by (elim ifE_Some option.inject [THEN iffD1, elim_format]; clarsimp)
  show "destructive_step c = Some x \<Longrightarrow> res_Decision x = Ask \<and> res_Step x = ''destructive''"
    unfolding destructive_step_def by (elim ifE_Some; clarsimp)
  show "trust_step w c = Some x \<Longrightarrow> res_Decision x = Ask \<and> res_Step x = ''ask''"
    unfolding trust_step_def by (elim ifE_Some option.inject [THEN iffD1, elim_format]; clarsimp)
  show "unread_step e c = Some x \<Longrightarrow> res_Decision x = Ask \<and> res_Step x = ''screen''"
    unfolding unread_step_def by (elim ifE_Some option.inject [THEN iffD1, elim_format]; clarsimp)
  show "ask_step w e c = Some x \<Longrightarrow> res_Decision x = Ask \<and> res_Step x = ''ask''" by (auto simp: ask_step_def)
  show "hidden_step e c = Some x \<Longrightarrow> res_Decision x = Ask \<and> res_Step x = ''screen''"
    unfolding hidden_step_def by (elim ifE_Some option.inject [THEN iffD1, elim_format]; clarsimp)
  show "remote_step w e c = Some x \<Longrightarrow> res_Decision x = Allow"
    unfolding remote_step_def by (elim ifE_Some option.inject [THEN iffD1, elim_format]; clarsimp)
  show "allow_step w e c = Some x \<Longrightarrow> res_Decision x = Allow \<and> res_Step x = ''allow''" by (auto simp: allow_step_def)
qed

text \<open>Once the steps before the hooks' question have nothing to say, nothing refuses the call any more.\<close>

lemma late_steps_not_deny:
  assumes "plan_step w e c = None"
  shows "res_Decision (first_of (after_hooks_ask w e c) (default_step w e c)) \<noteq> Deny"
proof -
  have d: "res_Decision (default_step w e c) \<noteq> Deny"
    by (simp add: default_step_def defaultAsk_def scope_guarded_def Let_def split: option.splits)
  have m: "res_Decision x \<noteq> Deny" if "mode_step w e c = Some x" "remote_step w e c = None" for x
  proof (cases "e_Mode e")
    case ModePlan
    have "\<not> c_mutates c"
    proof
      assume "c_mutates c"
      with assms ModePlan have "read_rule w e c \<noteq> ''''" by (simp add: plan_step_def split: if_splits)
      with ModePlan that(2) show False by (simp add: remote_step_def)
    qed
    with that(1) ModePlan show ?thesis
      unfolding mode_step_def Let_def by (auto elim!: ifE_Some)
  qed (use that(1) in \<open>unfold mode_step_def Let_def, auto elim!: ifE_Some\<close>)
  show ?thesis
  proof (cases "remote_step w e c")
    case None
    show ?thesis
    proof (cases "mode_step w e c")
      case None
      with \<open>remote_step w e c = None\<close> d show ?thesis
        by (cases "allow_step w e c") (auto simp: after_hooks_ask_def dest: step_decisions(10))
    next
      case (Some x)
      with \<open>remote_step w e c = None\<close> m show ?thesis by (simp add: after_hooks_ask_def)
    qed
  next
    case (Some x)
    with step_decisions(9) show ?thesis by (simp add: after_hooks_ask_def)
  qed
qed

lemma hooks_tighten: "strict (res_Decision (decide w e [] c)) \<le> strict (res_Decision (decide w e ks c))"
proof (cases "run_hooks ks None")
  case (Inl r)
  then have "strict (res_Decision (decide w e ks c)) = 2"
    by (simp add: decide_def run_hooks_refusal)
  then show ?thesis by (cases "res_Decision (decide w e [] c)") simp_all
next
  case (Inr q)
  note q = Inr
  show ?thesis
  proof (cases "list_all (\<lambda>x. x = None) (before_hooks_ask w e c)")
    case False
    with q show ?thesis by (simp add: decide_def first_of_append)
  next
    case True
    then have "plan_step w e c = None" by (simp add: before_hooks_ask_def)
    note late = late_steps_not_deny [OF this]
    show ?thesis
    proof (cases q)
      case None
      with q True show ?thesis by (simp add: decide_def first_of_append)
    next
      case (Some r)
      then have "res_Decision r = Ask" using run_hooks_question [of ks None r] q by simp
      with q Some True late show ?thesis
        by (cases "res_Decision (first_of (after_hooks_ask w e c) (default_step w e c))") (simp_all add: decide_def first_of_append)
    qed
  qed
qed

text \<open>
  C31: a hook can tighten a decision and never loosen one. Whatever hooks an operator adds and whatever they answer, late or in
  time, a call refused without them is refused with them, and one that asks without them is asked or refused with them.
\<close>

theorem hooks_only_tighten:
  "strict (res_Decision (evaluate w e mode [] tool mutates a)) \<le> strict (res_Decision (evaluate w e mode ks tool mutates a))"
  by (cases "read_call w e mode tool mutates a") (simp_all add: evaluate_def hooks_tighten)

section \<open>Deny rules\<close>

lemma deny_step_Some: "r \<in> set (DenyRules e) \<Longrightarrow> rule_matches w c r \<Longrightarrow> \<exists>x. deny_step w e c = Some x \<and> res_Decision x = Deny"
proof -
  assume "r \<in> set (DenyRules e)" "rule_matches w c r"
  then have "find (rule_matches w c) (DenyRules e) \<noteq> None" by (auto simp: find_None_iff)
  then show ?thesis by (auto simp: deny_step_def)
qed

lemma deny_decides: "r \<in> set (DenyRules e) \<Longrightarrow> rule_matches w c r \<Longrightarrow> res_Decision (decide w e ks c) = Deny"
  using deny_step_Some [of r e w c] run_hooks_refusal [of ks None]
  by (auto simp: decide_def before_hooks_ask_def split: sum.splits)

text \<open>
  C30: deny is absolute. A call that a deny rule matches is refused: in every mode, bypass included, whatever ask and allow rules
  match it too, whatever the hooks answer, and whether the rule is configured, of a policy layer or of the session.
\<close>

theorem deny_is_absolute:
  assumes "read_call w e mode tool mutates a = Inr c" "r \<in> set (DenyRules e)" "rule_matches w c r"
  shows "res_Decision (evaluate w e mode ks tool mutates a) = Deny"
  using assms by (simp add: evaluate_def deny_decides)

section \<open>What is always asked\<close>

definition must_ask :: "outside \<Rightarrow> Engine \<Rightarrow> call \<Rightarrow> bool" where
  "must_ask w e c \<longleftrightarrow> (c_tool c = ''bash'' \<or> c_remote c \<noteq> None) \<and> Destructive (c_canon c) \<noteq> None \<or>
     list_ex (rule_matches w c) (AskRules e) \<or> (Hidden (c_canon c) \<or> \<not> c_complete c) \<and> rulesSeeParts e (c_tool c)"

lemma asked_not_default:
  assumes "x \<in> set (before_hooks_ask w e c)" "x = Some y"
  shows "res_Decision y \<noteq> Allow \<and> res_Step y \<noteq> ''default''"
proof -
  consider "deny_step w e c = Some y" | "screen_step e c = Some y" | "plan_step w e c = Some y" | "destructive_step c = Some y"
    | "trust_step w c = Some y" | "unread_step e c = Some y" | "ask_step w e c = Some y" | "hidden_step e c = Some y"
    using assms unfolding before_hooks_ask_def list.set insert_iff empty_iff by metis
  then show ?thesis
    by cases (drule step_decisions, simp)+
qed

lemma must_ask_step: "must_ask w e c \<Longrightarrow> \<exists>x \<in> set (before_hooks_ask w e c). x \<noteq> None"
proof -
  assume "must_ask w e c"
  then consider "destructive_step c \<noteq> None" | "ask_step w e c \<noteq> None" | "hidden_step e c \<noteq> None" | "unread_step e c \<noteq> None"
    by (auto simp: must_ask_def destructive_step_def ask_step_def find_None_iff list_ex_iff hidden_step_def unread_step_def)
  then show ?thesis by cases (auto simp: before_hooks_ask_def)
qed

lemma must_ask_decides:
  assumes "must_ask w e c"
  shows "res_Decision (decide w e ks c) \<noteq> Allow \<and> (\<forall>scope guard. \<not> Covers (decide w e [] c) scope guard)"
proof -
  obtain x where x: "x \<in> set (before_hooks_ask w e c)" "x \<noteq> None"
    using must_ask_step [OF assms] by blast
  define y where "y = first_of (before_hooks_ask w e c) (default_step w e c)"
  have y: "res_Decision y \<noteq> Allow \<and> res_Step y \<noteq> ''default''"
    using asked_not_default first_of_any [OF x] unfolding y_def by blast
  have not_all: "\<not> list_all (\<lambda>x. x = None) (before_hooks_ask w e c)"
    using x by (auto simp: list_all_iff)
  then have d: "decide w e ks c = (case run_hooks ks None of Inl r \<Rightarrow> r | Inr q \<Rightarrow> y)" for ks
    by (auto simp: decide_def first_of_append y_def split: sum.splits)
  have "res_Decision (decide w e ks c) \<noteq> Allow"
    using y run_hooks_refusal [of ks None] by (auto simp: d split: sum.splits)
  moreover have "\<not> Covers (decide w e [] c) scope guard" for scope guard
    using y by (simp add: d Covers_def Offer_def)
  ultimately show ?thesis by blast
qed

text \<open>
  C32: what must be asked is asked, in every mode. A destructive command, a call an ask rule matches, and a command whose parts the
  rules in force cannot all be checked against are never let through by a mode, an allow rule, a hook or bypass; and no choice a
  person once asked to be remembered answers the question.
\<close>

theorem always_asked:
  assumes "read_call w e mode tool mutates a = Inr c" "must_ask w e c"
  shows "res_Decision (evaluate w e mode ks tool mutates a) \<noteq> Allow \<and> \<not> Covers (evaluate w e mode [] tool mutates a) scope guard"
  using must_ask_decides [OF assms(2)] by (simp add: evaluate_def assms(1))

text \<open>
  Plan mode changes nothing. In plan mode a call that changes something is refused, unless it is an ssh command the operator
  declared a read; no allow rule, hook or person's answer comes before the refusal.
\<close>

theorem plan_mode_read_only:
  assumes "read_call w e mode tool mutates a = Inr c" "e_Mode e = ModePlan" "c_mutates c" "read_rule w e c = ''''"
  shows "res_Decision (evaluate w e mode ks tool mutates a) = Deny"
proof -
  have p: "plan_step w e c = Some (result Deny ''plan mode is read-only; no changes are applied'' ''mode'')"
    using assms by (simp add: plan_step_def)
  have "res_Decision x = Deny" if "deny_step w e c = Some x \<or> screen_step e c = Some x" for x
    using that step_decisions(1,2) by blast
  note refused = this
  have "res_Decision (first_of (before_hooks_ask w e c @ xs) d) = Deny" for xs d
  proof (cases "deny_step w e c")
    case None
    show ?thesis
    proof (cases "screen_step e c")
      case None
      with \<open>deny_step w e c = None\<close> p show ?thesis by (simp add: before_hooks_ask_def)
    next
      case (Some x)
      with \<open>deny_step w e c = None\<close> refused [of x] show ?thesis by (simp add: before_hooks_ask_def)
    qed
  next
    case (Some x)
    with refused [of x] show ?thesis by (simp add: before_hooks_ask_def)
  qed
  then show ?thesis
    using run_hooks_refusal [of ks None] by (auto simp: evaluate_def assms(1) decide_def split: sum.splits)
qed

section \<open>Allow rules\<close>

definition without_allow :: "Engine \<Rightarrow> Engine" where
  "without_allow e = e\<lparr>e_Allow := [], Session := map_option (\<lambda>ov. ov\<lparr>o_allow := []\<rparr>) (Session e)\<rparr>"

lemma without_allow_rules [simp]:
  "DenyRules (without_allow e) = DenyRules e" "AskRules (without_allow e) = AskRules e" "AllowRules (without_allow e) = []"
  "e_Mode (without_allow e) = e_Mode e" "RemoteReads (without_allow e) = RemoteReads e" "AskReadOnly (without_allow e) = AskReadOnly e"
  "Managed (without_allow e) = Managed e"
  by (simp_all add: without_allow_def DenyRules_def AskRules_def AllowRules_def snapshot_def split: option.splits)

lemma without_allow_steps [simp]:
  "before_hooks_ask w (without_allow e) c = before_hooks_ask w e c" "remote_step w (without_allow e) c = remote_step w e c"
  "mode_step w (without_allow e) c = mode_step w e c" "default_step w (without_allow e) c = default_step w e c"
  "allow_step w (without_allow e) c = None"
proof -
  have rr: "remoteReadRule w (without_allow e) rr = remoteReadRule w e rr" for rr
    by (simp only: remoteReadRule_def without_allow_rules)
  have ro: "readOnlyAsk (without_allow e) = readOnlyAsk e"
    by (rule ext)+ (simp add: readOnlyAsk_def)
  have read: "read_rule w (without_allow e) c = read_rule w e c"
    by (simp add: read_rule_def rr split: option.splits)
  show "before_hooks_ask w (without_allow e) c = before_hooks_ask w e c" "remote_step w (without_allow e) c = remote_step w e c"
    by (simp_all add: before_hooks_ask_def deny_step_def screen_step_def plan_step_def unread_step_def ask_step_def hidden_step_def rulesSeeParts_def
        remote_step_def read)
  show "mode_step w (without_allow e) c = mode_step w e c" "default_step w (without_allow e) c = default_step w e c"
    "allow_step w (without_allow e) c = None"
    by (simp_all add: mode_step_def default_step_def ro allow_step_def)
qed

lemma default_step_step: "res_Step (default_step w e c) = ''default''"
  by (simp add: default_step_def defaultAsk_def scope_guarded_def Let_def split: option.splits)

text \<open>
  An allow rule only answers the default question. Beside what the other steps decide, allow rules, configured or of the
  session, change a decision only from what the default step says to an approval: they undo no refusal, no question of a rule, a
  hook or a mode.
\<close>

theorem allow_rules_answer_default:
  "decide w e ks c = decide w (without_allow e) ks c \<or>
   (res_Decision (decide w e ks c) = Allow \<and> res_Step (decide w e ks c) = ''allow'' \<and> res_Step (decide w (without_allow e) ks c) = ''default'')"
proof (cases "run_hooks ks None")
  case (Inl r)
  then show ?thesis by (simp add: decide_def)
next
  case (Inr q)
  show ?thesis
  proof (cases "list_all (\<lambda>x. x = None) (before_hooks_ask w e c @ [q, remote_step w e c, mode_step w e c])")
    case False
    have "first_of (before_hooks_ask w e c @ [q] @ [remote_step w e c, mode_step w e c, y]) d =
        first_of (before_hooks_ask w e c @ [q, remote_step w e c, mode_step w e c]) d" for y d
      using False first_of_append [of "before_hooks_ask w e c @ [q, remote_step w e c, mode_step w e c]" "[y]" d] by (simp only: append_assoc append.simps if_False)
    then have "decide w e ks c = decide w (without_allow e) ks c"
      using Inr by (simp only: decide_def after_hooks_ask_def without_allow_steps sum.case)
    then show ?thesis ..
  next
    case True
    have "decide w e ks c = first_of (before_hooks_ask w e c @ [q] @ after_hooks_ask w e c) (default_step w e c)"
      using Inr by (simp add: decide_def)
    also have "\<dots> = first_of [allow_step w e c] (default_step w e c)"
      using True by (simp add: first_of_append after_hooks_ask_def)
    finally have with_rules: "decide w e ks c = first_of [allow_step w e c] (default_step w e c)" .
    have without: "decide w (without_allow e) ks c = default_step w e c"
      using True Inr by (simp add: decide_def first_of_append after_hooks_ask_def)
    show ?thesis
    proof (cases "allow_step w e c")
      case None
      with with_rules without show ?thesis by simp
    next
      case (Some x)
      with with_rules without step_decisions(10) [OF Some] show ?thesis by (simp add: default_step_step)
    qed
  qed
qed

section \<open>Every part of a chain\<close>

lemma add_segment_keeps: "set out \<subseteq> set (add_segment s out)" "TrimSpace s = '''' \<or> TrimSpace s \<in> set (add_segment s out)"
  by (auto simp: add_segment_def Let_def)

lemma fold_add_keeps: "set out \<subseteq> set (fold add_segment fs out)"
  by (induction fs arbitrary: out) (use add_segment_keeps(1) in fastforce)+

lemma segments_keep: "segments_from h ps out = (ss, k) \<Longrightarrow> set out \<subseteq> set ss"
proof (induction h ps out rule: segments_from.induct)
  case (2 h p ps out)
  obtain forms whole where f: "strippedForms h (trim_part p) = (forms, whole)" by fastforce
  let ?out = "fold add_segment forms (add_segment (trim_part p) out)"
  have "set out \<subseteq> set ?out"
    using fold_add_keeps add_segment_keeps(1) by blast
  with 2 f show ?case by (auto simp: Let_def split: if_splits)
qed simp

lemma segments_hold:
  "segments_from h ps out = (ss, True) \<Longrightarrow> p \<in> set ps \<Longrightarrow> TrimSpace (trim_part p) = '''' \<or> TrimSpace (trim_part p) \<in> set ss"
proof (induction h ps out rule: segments_from.induct)
  case (2 h q ps out)
  obtain forms whole where f: "strippedForms h (trim_part q) = (forms, whole)" by fastforce
  let ?out = "fold add_segment forms (add_segment (trim_part q) out)"
  have go: "segments_from h ps ?out = (ss, True)" "whole \<and> length ?out \<le> maxSegments"
    using 2(2) f by (auto simp: Let_def split: if_splits)
  show ?case
  proof (cases "p = q")
    case True
    have "set (add_segment (trim_part q) out) \<subseteq> set ss"
      using fold_add_keeps segments_keep [OF go(1)] by blast
    with add_segment_keeps(2) [of "trim_part q" out] True show ?thesis by blast
  next
    case False
    with 2(3) have "p \<in> set ps" by simp
    with 2(1) [OF f [symmetric] refl] go show ?thesis by auto
  qed
qed simp

lemma withBaseNames_keeps: "set ss \<subseteq> set (withBaseNames ss)"
proof -
  have "set out \<subseteq> set (fold add_based xs out)" for xs out
  proof (induction xs arbitrary: out)
    case (Cons x xs)
    have "set out \<subseteq> set (add_based x out)" by (auto split: option.split)
    with Cons [of "add_based x out"] show ?case by auto
  qed simp
  then show ?thesis by (simp add: withBaseNames_def)
qed

lemma read_bash:
  assumes "subjectOf w a = (key, command, None)" "PolicySubject w ''bash'' a = None"
  shows "\<exists>c. read_call w e mode ''bash'' mutates a = Inr c \<and> c_tool c = ''bash'' \<and> c_k8s c = False \<and> c_remote c = None \<and>
    set (fst (commandSegments (on_host w) command)) \<subseteq> set (c_subjects c) \<and> (c_complete c \<longrightarrow> snd (commandSegments (on_host w) command))"
proof -
  have k: "clusterSubject w ''bash'' a = None" "toolSubject w ''bash'' a = None"
    using assms(2) by (simp_all add: clusterSubject_def toolSubject_def)
  define r where "r = shellRead w command mode"
  define s where "s = (if rulesSeeParts e ''bash'' then readScripts w (cr_canon r) else no_script)"
  define c where "c = \<lparr>c_tool = ''bash'', c_mutates = mutates, c_key = key, c_subject = command,
      c_subjects = withBaseNames (cr_subjects r @ sr_subjects s), c_allow = cr_allow r, c_narrow = cr_narrow r, c_complete = cr_complete r,
      c_canon = cr_canon r, c_script = s, c_remote = None, c_k8s = False\<rparr>"
  have "read_call w e mode ''bash'' mutates a = Inr c"
    by (simp add: read_call_def assms(1) k read_subject_def Let_def retarget_def with_language_def with_remote_def remoteCommand_def c_def r_def s_def)
  moreover have "set (fst (commandSegments (on_host w) command)) \<subseteq> set (cr_subjects r)" "cr_complete r \<longrightarrow> snd (commandSegments (on_host w) command)"
    by (auto simp: r_def shellRead_def Let_def split: prod.splits)
  ultimately show ?thesis
    using withBaseNames_keeps [of "cr_subjects r @ sr_subjects s"] by (auto simp: c_def)
qed

text \<open>
  A deny rule holds for every part of a chain. Cut a bash command at its control characters: when a deny rule with a pattern
  matches any one part, wherever it stands, the command is refused; where the command is too long or tangled to be cut in full,
  it is at least never let through. It holds in every mode, and for a person's typed lines as for an agent's commands.
\<close>

theorem chain_part_denied:
  assumes "subjectOf w a = (key, command, None)" "PolicySubject w ''bash'' a = None"
    "r \<in> set (DenyRules e)" "ForTool r ''bash''" "r_pattern r = Some g"
    "p \<in> set (splitControl command False)" "TrimSpace (trim_part p) \<noteq> ''''" "glob_match g (TrimSpace (trim_part p))"
  shows "res_Decision (evaluate w e mode ks ''bash'' mutates a) \<noteq> Allow \<and>
    (snd (commandSegments (on_host w) command) \<longrightarrow> res_Decision (evaluate w e mode ks ''bash'' mutates a) = Deny)"
proof -
  obtain c where c: "read_call w e mode ''bash'' mutates a = Inr c" "c_tool c = ''bash''" "c_k8s c = False" "c_remote c = None"
      "set (fst (commandSegments (on_host w) command)) \<subseteq> set (c_subjects c)" "c_complete c \<longrightarrow> snd (commandSegments (on_host w) command)"
    using read_bash [OF assms(1,2)] by blast
  have ev: "evaluate w e mode ks ''bash'' mutates a = decide w e ks c"
    by (simp add: evaluate_def c(1))
  show ?thesis
  proof (cases "snd (commandSegments (on_host w) command)")
    case True
    then obtain ss where "commandSegments (on_host w) command = (ss, True)" by (cases "commandSegments (on_host w) command") auto
    then have "segments_from (on_host w) (splitControl command False @ splitControl command True) [command] = (ss, True)"
      by (simp add: commandSegments_def split: if_splits)
    from segments_hold [OF this, of p] assms(6,7) have "TrimSpace (trim_part p) \<in> set ss" by simp
    then have "TrimSpace (trim_part p) \<in> set (c_subjects c)"
      using c(5) \<open>commandSegments (on_host w) command = (ss, True)\<close> by auto
    then have "matchesAny (on_host w) r ''bash'' (c_subjects c)"
      using assms(4,5,8) by (auto simp: matchesAny_def Matches_def list_ex_iff)
    then have "rule_matches w c r"
      using c(2-4) by (simp add: rule_matches_def Let_def)
    then show ?thesis
      using deny_decides [OF assms(3)] ev by simp
  next
    case False
    have "patterned (DenyRules e) ''bash''"
      using assms(3-5) by (auto simp: patterned_def list_ex_iff)
    with False c(2,6) have "must_ask w e c"
      by (auto simp: must_ask_def rulesSeeParts_def)
    with False must_ask_decides ev show ?thesis by simp
  qed
qed

section \<open>Pinned rules\<close>

text \<open>What is done to the rules of a session, in any order.\<close>

inductive overlay_step :: "host \<Rightarrow> Overlay \<Rightarrow> Overlay \<Rightarrow> bool" for h where
  adds: "overlay_step h ov (snd (Overlay_Add h name p ov))"
| removes: "overlay_step h ov (snd (Overlay_Remove h name p ov))"
| clears: "overlay_step h ov (Overlay_Clear ov)"
| pins: "overlay_step h ov (snd (Overlay_Pin h why ps ov))"

lemma overlay_list_pinned: "overlay_list name ov = Some (rs, put) \<Longrightarrow> pinned (put xs) = pinned ov"
  by (auto simp: overlay_list_def split: if_splits)

lemma pinned_step: "overlay_step h ov ov' \<Longrightarrow> set (pinned ov) \<subseteq> set (pinned ov')"
proof (induction rule: overlay_step.induct)
  case (adds ov name p)
  show ?case
    by (auto simp: Overlay_Add_def Let_def overlay_list_pinned split: sum.split option.split)
next
  case (removes ov name p)
  show ?case
    by (auto simp: Overlay_Remove_def Let_def overlay_list_pinned split: option.split)
qed (auto simp: Overlay_Clear_def Overlay_Pin_def split: sum.split)

lemma pinned_steps: "(overlay_step h)\<^sup>*\<^sup>* ov ov' \<Longrightarrow> set (pinned ov) \<subseteq> set (pinned ov')"
  by (induction rule: rtranclp_induct) (use pinned_step in blast)+

text \<open>
  A pinned rule outlasts the conversation. Whatever rules a session adds, removes, clears or pins afterwards, a call that a
  pinned rule matches is refused, as when read-only folders are pinned: no list a person or an agent edits reaches it.
\<close>

theorem pinned_rules_hold:
  assumes "(overlay_step h)\<^sup>*\<^sup>* ov ov'" "r \<in> set (pinned ov)" "read_call w (e\<lparr>Session := Some ov'\<rparr>) mode tool mutates a = Inr c" "rule_matches w c r"
  shows "res_Decision (evaluate w (e\<lparr>Session := Some ov'\<rparr>) mode ks tool mutates a) = Deny"
proof -
  have "r \<in> set (DenyRules (e\<lparr>Session := Some ov'\<rparr>))"
    using pinned_steps [OF assms(1)] assms(2) by (auto simp: DenyRules_def snapshot_def)
  then show ?thesis
    using deny_decides assms(3,4) by (simp add: evaluate_def)
qed

end
