(* ===== verification/PolicySamples.thy ===== *)
theory PolicySamples
  imports PolicyLaws
begin

text \<open>The properties of the permission engine at a concrete engine: a bypass-mode session with a few rules.\<close>

definition sample_host :: host where
  "sample_host = \<lparr>lower = map lower_char, upper = id, simple_fold = map lower_char, nfc = id, foldsNames = False\<rparr>"

definition sample_canon :: "string \<Rightarrow> canon" where
  "sample_canon c = no_canon\<lparr>cn_Text := c, Destructive := (if HasPrefix c ''rm '' then Some ''rm deletes files'' else None)\<rparr>"

definition sample_outside :: outside where
  "sample_outside = \<lparr>on_host = sample_host, CanonicalCommand = sample_canon, AtTerminal = id, AsTerminalLine = id, IFSSplitText = (\<lambda>c s. c),
     readScripts = (\<lambda>c. no_script), pathSubjects = (\<lambda>p disk. ([p], [p])), FoldsCaseAt = (\<lambda>p. False), PolicySubject = (\<lambda>t a. None),
     manifest_kind = (\<lambda>m. ''''), marshal = (\<lambda>j. ''''), quotedValues = (\<lambda>p. False), wildcardReadOK = (\<lambda>p. False),
     resolvesOutsideRoots = (\<lambda>p. True), url_site = (\<lambda>u. None), GitFingerprint = None, ConfigFile = ''/etc/abhed/config.json''\<rparr>"

definition sample_rule :: "string \<Rightarrow> PolicyRule" where
  "sample_rule s = projr (ParseRule sample_host s)"

definition sample_engine :: "Mode \<Rightarrow> Engine" where
  "sample_engine mode = (New mode)\<lparr>e_Deny := [sample_rule ''bash(curl *)'', sample_rule ''write(secret*)''], e_Ask := [sample_rule ''write(docs*)'']\<rparr>"

definition command_args :: "string \<Rightarrow> args" where
  "command_args c = Inr [(''command'', JStr c)]"

definition path_args :: "string \<Rightarrow> args" where
  "path_args p = Inr [(''path'', JStr p)]"

definition sample_call :: "Engine \<Rightarrow> string \<Rightarrow> args \<Rightarrow> call" where
  "sample_call e tool a = projr (read_call sample_outside e asCommand tool True a)"

lemma read_sample:
  assumes "\<not> isl (read_call sample_outside e asCommand tool True a)"
  shows "read_call sample_outside e asCommand tool True a = Inr (sample_call e tool a)"
  using assms by (cases "read_call sample_outside e asCommand tool True a") (simp_all add: sample_call_def)

lemma sample_writes:
  "read_call sample_outside (sample_engine ModeBypass) asCommand ''write'' True (path_args ''secrets.txt'') =
     Inr (sample_call (sample_engine ModeBypass) ''write'' (path_args ''secrets.txt''))"
  by (rule read_sample) code_simp

theorem deny_is_absolute_witness:
  "res_Decision (evaluate sample_outside (sample_engine ModeBypass) asCommand [] ''write'' True (path_args ''secrets.txt'')) = Deny"
proof (rule deny_is_absolute [OF sample_writes, of "sample_rule ''write(secret*)''"])
  show "sample_rule ''write(secret*)'' \<in> set (DenyRules (sample_engine ModeBypass))"
    by (simp add: sample_engine_def DenyRules_def)
  show "rule_matches sample_outside (sample_call (sample_engine ModeBypass) ''write'' (path_args ''secrets.txt'')) (sample_rule ''write(secret*)'')"
    by code_simp
qed

theorem always_asked_witness:
  "res_Decision (evaluate sample_outside (sample_engine ModeBypass) asCommand [] ''write'' True (path_args ''docs.md'')) \<noteq> Allow"
proof -
  have r: "read_call sample_outside (sample_engine ModeBypass) asCommand ''write'' True (path_args ''docs.md'') =
      Inr (sample_call (sample_engine ModeBypass) ''write'' (path_args ''docs.md''))"
    by (rule read_sample) code_simp
  have m: "must_ask sample_outside (sample_engine ModeBypass) (sample_call (sample_engine ModeBypass) ''write'' (path_args ''docs.md''))"
    by code_simp
  show ?thesis
    using always_asked [OF r m] by blast
qed

theorem plan_mode_read_only_witness:
  "res_Decision (evaluate sample_outside (sample_engine ModePlan) asCommand [] ''write'' True (path_args ''notes.txt'')) = Deny"
proof -
  have r: "read_call sample_outside (sample_engine ModePlan) asCommand ''write'' True (path_args ''notes.txt'') =
      Inr (sample_call (sample_engine ModePlan) ''write'' (path_args ''notes.txt''))"
    by (rule read_sample) code_simp
  show ?thesis
    by (rule plan_mode_read_only [OF r]) code_simp+
qed

theorem chain_part_denied_witness:
  "res_Decision (evaluate sample_outside (sample_engine ModeBypass) asCommand [] ''bash'' True (command_args ''ls; curl x'')) = Deny"
proof -
  have s: "subjectOf sample_outside (command_args ''ls; curl x'') = (''command'', ''ls; curl x'', None)"
    by code_simp
  have "res_Decision (evaluate sample_outside (sample_engine ModeBypass) asCommand [] ''bash'' True (command_args ''ls; curl x'')) \<noteq> Allow \<and>
    (snd (commandSegments (on_host sample_outside) ''ls; curl x'') \<longrightarrow>
     res_Decision (evaluate sample_outside (sample_engine ModeBypass) asCommand [] ''bash'' True (command_args ''ls; curl x'')) = Deny)"
  proof (rule chain_part_denied [OF s])
    show "PolicySubject sample_outside ''bash'' (command_args ''ls; curl x'') = None" by (simp add: sample_outside_def)
    show "sample_rule ''bash(curl *)'' \<in> set (DenyRules (sample_engine ModeBypass))" by (simp add: sample_engine_def DenyRules_def)
    show "ForTool (sample_rule ''bash(curl *)'') ''bash''" by code_simp
    show "r_pattern (sample_rule ''bash(curl *)'') = Some ''curl *''" by code_simp
    show "'' curl x'' \<in> set (splitControl ''ls; curl x'' False)" by code_simp
    show "TrimSpace (trim_part '' curl x'') \<noteq> ''''" by code_simp
    show "glob_match ''curl *'' (TrimSpace (trim_part '' curl x''))" by code_simp
  qed
  moreover have "snd (commandSegments (on_host sample_outside) ''ls; curl x'')" by code_simp
  ultimately show ?thesis by blast
qed

definition pinned_overlay :: Overlay where
  "pinned_overlay = snd (Overlay_Pin sample_host ''read-only folder'' [''write(secret*)''] no_overlay)"

theorem pinned_rules_hold_witness:
  "res_Decision (evaluate sample_outside ((New ModeAuto)\<lparr>Session := Some (Overlay_Clear pinned_overlay)\<rparr>) asCommand [] ''write'' True
     (path_args ''secrets.txt'')) = Deny"
proof -
  let ?e = "(New ModeAuto)\<lparr>Session := Some (Overlay_Clear pinned_overlay)\<rparr>"
  have r: "read_call sample_outside ?e asCommand ''write'' True (path_args ''secrets.txt'') = Inr (sample_call ?e ''write'' (path_args ''secrets.txt''))"
    by (rule read_sample) code_simp
  have p: "hd (pinned pinned_overlay) \<in> set (pinned pinned_overlay)" by code_simp
  have m: "rule_matches sample_outside (sample_call ?e ''write'' (path_args ''secrets.txt'')) (hd (pinned pinned_overlay))" by code_simp
  show ?thesis
    by (rule pinned_rules_hold [OF r_into_rtranclp [of "overlay_step sample_host", OF clears] p r m])
qed

end
