(* ===== verification/OrgPolicy.thy ===== *)
theory OrgPolicy
  imports Prelude
begin

text \<open>
  The signed policy of an organisation, as a client holds it: \<^verbatim>\<open>orgpolicy/orgpolicy.go\<close> (statements,
  envelopes and their signatures) and \<^verbatim>\<open>orgpolicy/state.go\<close> (what is applied, what is accepted). The
  library a client needs is one record: base64, PEM, PKIX, Ed25519, SHA-256 of a key, \<^verbatim>\<open>encoding/json\<close>,
  and the text of times, durations and quoted strings in messages.
\<close>

section \<open>Statements and envelopes\<close>

definition PayloadType :: string where
  "PayloadType = ''application/vnd.abhed.org-policy+json''"

definition StatementVersion :: int where
  "StatementVersion = 1"

definition DefaultMaxAge :: duration where
  "DefaultMaxAge = 72 * Hour"

definition Skew :: duration where
  "Skew = 5 * Minute"

definition MaxAgeCap :: duration where
  "MaxAgeCap = 30 * 24 * Hour"

record PolicyStatement =
  s_V :: int
  s_Tenant :: string
  s_Subject :: string
  s_Name :: string
  s_Version :: int
  s_Epoch :: int
  s_IssuedAt :: time
  s_MaxAgeSeconds :: int
  s_Keys :: "string list"
  s_Policy :: string

definition no_statement :: PolicyStatement where
  "no_statement = \<lparr>s_V = 0, s_Tenant = '''', s_Subject = '''', s_Name = '''', s_Version = 0, s_Epoch = 0, s_IssuedAt = 0,
     s_MaxAgeSeconds = 0, s_Keys = [], s_Policy = ''''\<rparr>"

definition Statement_MaxAge :: "PolicyStatement \<Rightarrow> duration" where
  "Statement_MaxAge s =
     (if s_MaxAgeSeconds s \<le> 0 then DefaultMaxAge
      else if s_MaxAgeSeconds s > MaxAgeCap div Second then MaxAgeCap
      else s_MaxAgeSeconds s * Second)"

record Signature =
  sg_KeyID :: string
  sg_Sig :: string

record Envelope =
  env_Type :: string
  env_Payload :: string
  env_Signatures :: "Signature list"

definition PAE :: "string \<Rightarrow> string \<Rightarrow> string" where
  "PAE payloadType payload = ''DSSEv1 '' @ FormatInt (int (length payloadType)) @ '' '' @ payloadType @ '' '' @
     FormatInt (int (length payload)) @ '' '' @ payload"

text \<open>
  \<open>lib_json\<close> is \<^verbatim>\<open>Decode\<close> into a statement with unknown fields refused: what was filled in, its error, and
  whether more values follow; \<open>lib_object\<close> is whether a document unmarshals into a map that is not nil.
\<close>

type_synonym pubkey = string

record lib =
  lib_base64 :: "string \<Rightarrow> string option"
  lib_pem :: "string \<Rightarrow> (string \<times> string) option"
  lib_pkix :: "string \<Rightarrow> string + pubkey option"
  lib_keyid :: "pubkey \<Rightarrow> string"
  lib_verify :: "pubkey \<Rightarrow> string \<Rightarrow> string \<Rightarrow> bool"
  lib_json :: "string \<Rightarrow> PolicyStatement \<times> string option \<times> bool"
  lib_object :: "string \<Rightarrow> bool"
  lib_quote :: "string \<Rightarrow> string"
  lib_time :: "time \<Rightarrow> string"
  lib_minutes :: "duration \<Rightarrow> string"
  lib_duration :: "duration \<Rightarrow> string"

definition PublicKeySize :: nat where
  "PublicKeySize = 32"

definition ParseKey :: "lib \<Rightarrow> string \<Rightarrow> string + pubkey" where
  "ParseKey L s0 =
     (let s = TrimSpace s0
      in case lib_pem L s of
           Some (typ, bytes) \<Rightarrow>
             if typ \<noteq> ''PUBLIC KEY'' then Inl ''the PEM block is not a PUBLIC KEY''
             else (case lib_pkix L bytes of
                 Inl e \<Rightarrow> Inl e
               | Inr None \<Rightarrow> Inl ''the key is not Ed25519''
               | Inr (Some k) \<Rightarrow> Inr k)
         | None \<Rightarrow> (case lib_base64 L s of
               Some b \<Rightarrow> if length b = PublicKeySize then Inr b else Inl ''not a base64 Ed25519 public key or a PEM PUBLIC KEY''
             | None \<Rightarrow> Inl ''not a base64 Ed25519 public key or a PEM PUBLIC KEY''))"

fun parse_keys_from :: "lib \<Rightarrow> nat \<Rightarrow> string list \<Rightarrow> string + pubkey list" where
  "parse_keys_from L i [] = Inr []"
| "parse_keys_from L i (s # ss) =
     (case ParseKey L s of
        Inl e \<Rightarrow> Inl (''key '' @ FormatInt (int i + 1) @ '': '' @ e)
      | Inr k \<Rightarrow> (case parse_keys_from L (Suc i) ss of Inl e \<Rightarrow> Inl e | Inr ks \<Rightarrow> Inr (k # ks)))"

definition ParseKeys :: "lib \<Rightarrow> string list \<Rightarrow> string + pubkey list" where
  "ParseKeys L ss = parse_keys_from L 0 ss"

definition ErrUntrusted :: string where
  "ErrUntrusted = ''no signature by a pinned key holds''"

definition statement_check :: "lib \<Rightarrow> PolicyStatement \<Rightarrow> string option" where
  "statement_check L s =
     (if s_V s \<noteq> StatementVersion then Some (''statement version '' @ FormatInt (s_V s) @ '' is not one this build reads'')
      else if s_IssuedAt s = 0 then Some ''the statement has no issued_at''
      else if s_Epoch s < 0 \<or> s_Version s < 0 \<or> s_MaxAgeSeconds s < 0
      then Some ''the statement has a negative epoch, version or max age''
      else if \<not> lib_object L (s_Policy s) then Some ''the policy is not a JSON object''
      else (case ParseKeys L (s_Keys s) of Inl e \<Rightarrow> Some (''the statement's keys: '' @ e) | Inr _ \<Rightarrow> None))"

definition signed_by :: "lib \<Rightarrow> pubkey list \<Rightarrow> string \<Rightarrow> Signature \<Rightarrow> bool" where
  "signed_by L ks msg s = (case lib_base64 L (sg_Sig s) of
       None \<Rightarrow> False
     | Some sig \<Rightarrow> list_ex (\<lambda>k. lib_keyid L k = sg_KeyID s \<and> lib_verify L k msg sig) ks)"

text \<open>The signer: the first signature that holds and has a key id.\<close>

definition signer_of :: "lib \<Rightarrow> pubkey list \<Rightarrow> string \<Rightarrow> Signature list \<Rightarrow> string" where
  "signer_of L ks msg sigs = (case find (\<lambda>s. signed_by L ks msg s \<and> sg_KeyID s \<noteq> '''') sigs of
       None \<Rightarrow> ''''
     | Some s \<Rightarrow> sg_KeyID s)"

definition Open_envelope :: "lib \<Rightarrow> Envelope \<Rightarrow> pubkey list \<Rightarrow> PolicyStatement \<times> string \<times> string option" where
  "Open_envelope L e ks =
     (if env_Type e \<noteq> PayloadType
      then (no_statement, '''', Some (''the envelope holds '' @ lib_quote L (env_Type e) @ '', not a policy''))
      else if ks = [] then (no_statement, '''', Some ''no signing key is pinned'')
      else case lib_base64 L (env_Payload e) of
          None \<Rightarrow> (no_statement, '''', Some ''the envelope's payload is not base64'')
        | Some payload \<Rightarrow>
            let signer = signer_of L ks (PAE (env_Type e) payload) (env_Signatures e)
            in if signer = '''' then (no_statement, '''', Some ErrUntrusted)
               else (case lib_json L payload of
                   (st, Some err, _) \<Rightarrow> (st, '''', Some (''the statement does not read: '' @ err))
                 | (st, None, True) \<Rightarrow> (st, '''', Some ''the statement holds more than one value'')
                 | (st, None, False) \<Rightarrow> (case statement_check L st of
                       Some err \<Rightarrow> (st, '''', Some err)
                     | None \<Rightarrow> (st, signer, None))))"

section \<open>The client's state\<close>

record Failure =
  fl_At :: time
  fl_Reason :: string

text \<open>The version, the last attempt and the profile's name are kept and shown only.\<close>

record ClientState =
  c_Profile :: string
  c_URL :: string
  c_Keys :: "string list"
  c_Subject :: string
  c_Tenant :: string
  c_Envelope :: "Envelope option"
  c_FetchedAt :: time
  c_Epoch :: int
  c_Failure :: "Failure option"
  c_LastAttempt :: time
  c_LastError :: string

record Machine =
  m_URL :: string
  m_Keys :: "string list"
  Required :: bool
  m_MaxAge :: duration

datatype PolicyStatus = StatusNone | StatusApplied | StatusFallback

record Effective =
  ef_Status :: PolicyStatus
  ef_Reason :: string
  ef_Doc :: string
  Fallback :: bool
  ef_Statement :: "PolicyStatement option"
  ef_KeyID :: string
  ef_URL :: string
  ef_Profile :: string
  Age :: duration

definition none_applies :: "string \<Rightarrow> Effective" where
  "none_applies why = \<lparr>ef_Status = StatusNone, ef_Reason = why, ef_Doc = '''', Fallback = False, ef_Statement = None, ef_KeyID = '''',
     ef_URL = '''', ef_Profile = '''', Age = 0\<rparr>"

definition of_enrolment :: "string \<Rightarrow> string \<Rightarrow> Effective" where
  "of_enrolment url profile = \<lparr>ef_Status = StatusNone, ef_Reason = '''', ef_Doc = '''', Fallback = False, ef_Statement = None, ef_KeyID = '''',
     ef_URL = url, ef_Profile = profile, Age = 0\<rparr>"

definition fallback :: "Effective \<Rightarrow> string \<Rightarrow> Effective" where
  "fallback e why = e\<lparr>ef_Status := StatusFallback, ef_Reason := why, Fallback := True\<rparr>"

definition Pins :: "lib \<Rightarrow> ClientState option \<Rightarrow> Machine \<Rightarrow> string + pubkey list" where
  "Pins L st m = (if m_Keys m \<noteq> [] then ParseKeys L (m_Keys m)
     else case st of None \<Rightarrow> Inr [] | Some s \<Rightarrow> ParseKeys L (c_Keys s))"

definition forHolder :: "PolicyStatement \<Rightarrow> ClientState \<Rightarrow> bool" where
  "forHolder stmt st \<longleftrightarrow> (c_Subject st = '''' \<or> s_Subject stmt = c_Subject st) \<and> (c_Tenant st = '''' \<or> s_Tenant stmt = c_Tenant st)"

definition orURL :: "string \<Rightarrow> string" where
  "orURL u = (if u = '''' then ''an org server'' else u)"

text \<open>\<open>now.Sub\<close>, which stops at the ends of its type.\<close>

definition time_Sub :: "time \<Rightarrow> time \<Rightarrow> duration" where
  "time_Sub a b = max MinInt64 (min MaxInt64 (a - b))"

definition longest :: "PolicyStatement \<Rightarrow> Machine \<Rightarrow> duration" where
  "longest stmt m = (if m_MaxAge m > 0 \<and> m_MaxAge m < Statement_MaxAge stmt then m_MaxAge m else Statement_MaxAge stmt)"

text \<open>Why a statement that verified is not applied as it is.\<close>

definition stale_reason :: "lib \<Rightarrow> ClientState \<Rightarrow> Machine \<Rightarrow> PolicyStatement \<Rightarrow> duration \<Rightarrow> time \<Rightarrow> string option" where
  "stale_reason L st m stmt age now =
     (if \<not> forHolder stmt st
      then Some (''the cached policy was issued for '' @ lib_quote L (s_Subject stmt) @ '' in tenant '' @ lib_quote L (s_Tenant stmt) @
        '', not this machine's sign-in'')
      else if s_Epoch stmt < c_Epoch st
      then Some (''the cached policy is from epoch '' @ FormatInt (s_Epoch stmt) @ '', older than the '' @ FormatInt (c_Epoch st) @ '' already held'')
      else if (case c_Failure st of None \<Rightarrow> False | Some f \<Rightarrow> \<not> fl_At f < c_FetchedAt st)
      then Some (''the last fetched policy was refused: '' @ (case c_Failure st of None \<Rightarrow> '''' | Some f \<Rightarrow> fl_Reason f))
      else if s_IssuedAt stmt > now + Skew
      then Some (''the cached policy was issued in the future ('' @ lib_time L (s_IssuedAt stmt) @ ''); check the clock'')
      else if age > longest stmt m
      then Some (''the cached policy is '' @ lib_minutes L age @ '' old, past its limit of '' @ lib_duration L (longest stmt m) @
        '', and no fresh one could be fetched'' @ (if c_LastError st = '''' then '''' else '' (last try: '' @ c_LastError st @ '')''))
      else None)"

definition Evaluate :: "lib \<Rightarrow> ClientState option \<Rightarrow> Machine \<Rightarrow> time \<Rightarrow> Effective" where
  "Evaluate L held m now = (case held of
       None \<Rightarrow> if Required m
         then fallback (of_enrolment (m_URL m) '''') (''the managed configuration requires an org policy, and this machine is not signed in to '' @ orURL (m_URL m))
         else none_applies ''not signed in to an org policy''
     | Some st \<Rightarrow>
         if m_URL m \<noteq> '''' \<and> c_URL st \<noteq> m_URL m
         then (if Required m
           then fallback (of_enrolment (m_URL m) '''') (''the managed configuration takes the org policy only from '' @ m_URL m @
             '', and this machine is signed in to '' @ c_URL st)
           else none_applies (''the org policy from '' @ c_URL st @ '' is not taken: the managed configuration names '' @ m_URL m))
         else let e = of_enrolment (c_URL st) (c_Profile st)
           in case c_Envelope st of
             None \<Rightarrow> fallback e (case c_Failure st of None \<Rightarrow> ''no policy has been fetched yet''
               | Some f \<Rightarrow> ''the fetched policy was refused: '' @ fl_Reason f)
           | Some env \<Rightarrow> (case Pins L held m of
               Inl err \<Rightarrow> fallback e (''the pinned keys do not read: '' @ err)
             | Inr ks \<Rightarrow> (case Open_envelope L env ks of
                 (_, _, Some err) \<Rightarrow> fallback e (''the cached policy does not verify: '' @ err)
               | (stmt, kid, None) \<Rightarrow>
                   let age = time_Sub now (s_IssuedAt stmt);
                       e' = e\<lparr>ef_Statement := Some stmt, ef_KeyID := kid, ef_Doc := s_Policy stmt, Age := age\<rparr>
                   in case stale_reason L st m stmt age now of
                       Some why \<Rightarrow> fallback e' why
                     | None \<Rightarrow> e'\<lparr>ef_Status := StatusApplied\<rparr>)))"

section \<open>Accepting a policy\<close>

text \<open>The highest epoch the client holds: the one it keeps, or that of the policy it holds when it still verifies.\<close>

definition held_epoch :: "lib \<Rightarrow> ClientState \<Rightarrow> pubkey list \<Rightarrow> int" where
  "held_epoch L st ks = (case c_Envelope st of
       None \<Rightarrow> c_Epoch st
     | Some old \<Rightarrow> (case Open_envelope L old ks of
           (s, _, None) \<Rightarrow> max (c_Epoch st) (s_Epoch s)
         | _ \<Rightarrow> c_Epoch st))"

definition names_signer :: "lib \<Rightarrow> string \<Rightarrow> string list \<Rightarrow> bool" where
  "names_signer L kid ss = list_ex (\<lambda>k. case ParseKey L k of Inl _ \<Rightarrow> False | Inr pub \<Rightarrow> lib_keyid L pub = kid) ss"

definition accept_check :: "lib \<Rightarrow> ClientState \<Rightarrow> Machine \<Rightarrow> Envelope \<Rightarrow> string \<Rightarrow> (string \<Rightarrow> string option) option \<Rightarrow> PolicyStatement \<times> string option" where
  "accept_check L st m env subject check = (case Pins L (Some st) m of
       Inl e \<Rightarrow> (no_statement, Some e)
     | Inr ks \<Rightarrow> (case Open_envelope L env ks of
         (stmt, _, Some e) \<Rightarrow> (stmt, Some e)
       | (stmt, kid, None) \<Rightarrow>
           (stmt,
            if subject \<noteq> '''' \<and> s_Subject stmt \<noteq> subject
            then Some (''the policy was issued for '' @ lib_quote L (s_Subject stmt) @ '', not '' @ lib_quote L subject)
            else if \<not> forHolder stmt st
            then Some (''the policy was issued for '' @ lib_quote L (s_Subject stmt) @ '' in tenant '' @ lib_quote L (s_Tenant stmt) @
              '', not this machine's sign-in'')
            else if m_Keys m = [] \<and> s_Keys stmt \<noteq> [] \<and> \<not> names_signer L kid (s_Keys stmt)
            then Some ''the policy's keys leave out the key that signed it, so it would not verify once pinned''
            else if s_Epoch stmt < held_epoch L st ks
            then Some (''the policy is from epoch '' @ FormatInt (s_Epoch stmt) @ '', older than the '' @ FormatInt (held_epoch L st ks) @
              '' already held: a rollback is refused'')
            else case check of
                None \<Rightarrow> None
              | Some f \<Rightarrow> map_option (\<lambda>e. ''the policy does not load: '' @ e) (f (s_Policy stmt)))))"

definition Accept :: "lib \<Rightarrow> ClientState \<Rightarrow> Machine \<Rightarrow> Envelope \<Rightarrow> string \<Rightarrow> (string \<Rightarrow> string option) option \<Rightarrow> time
    \<Rightarrow> (PolicyStatement \<times> string option) \<times> ClientState" where
  "Accept L st m env subject check now = (case accept_check L st m env subject check of
       (stmt, Some err) \<Rightarrow> ((stmt, Some err), st\<lparr>c_Failure := Some \<lparr>fl_At = now, fl_Reason = err\<rparr>\<rparr>)
     | (stmt, None) \<Rightarrow> ((stmt, None),
         st\<lparr>c_Envelope := Some env, c_FetchedAt := now, c_Failure := None, c_Epoch := max (c_Epoch st) (s_Epoch stmt),
            c_Keys := if m_Keys m = [] \<and> s_Keys stmt \<noteq> [] then s_Keys stmt else c_Keys st\<rparr>))"

end
