(* ===== verification/OrgPolicyLaws.thy ===== *)
theory OrgPolicyLaws
  imports OrgPolicy
begin

text \<open>
  What holds of the organisation's policy on a client: what is applied carries a signature by a pinned
  key and is fresh, a run of accepted policies never goes back in its epochs, an accepted policy is
  applied also when it rotates the keys, and a refused one leaves only the fallback.
\<close>

section \<open>Opening an envelope\<close>

lemma signer_of_signed:
  assumes "signer_of L ks msg sigs = kid" "kid \<noteq> ''''"
  obtains s k sig where "s \<in> set sigs" "k \<in> set ks" "sg_KeyID s = kid" "lib_base64 L (sg_Sig s) = Some sig"
    "lib_keyid L k = kid" "lib_verify L k msg sig"
proof -
  from assms obtain s where s: "find (\<lambda>s. signed_by L ks msg s \<and> sg_KeyID s \<noteq> '''') sigs = Some s" and id: "sg_KeyID s = kid"
    by (auto simp: signer_of_def split: option.splits)
  from s have "s \<in> set sigs" and sb: "signed_by L ks msg s"
    by (auto simp: find_Some_iff)
  from sb obtain k sig where "lib_base64 L (sg_Sig s) = Some sig" "k \<in> set ks" "lib_keyid L k = sg_KeyID s" "lib_verify L k msg sig"
    by (auto simp: signed_by_def list_ex_iff split: option.splits)
  with \<open>s \<in> set sigs\<close> id that show thesis by simp
qed

lemma signer_of_found:
  assumes "s \<in> set sigs" "signed_by L ks msg s" "sg_KeyID s \<noteq> ''''"
  shows "signer_of L ks msg sigs \<noteq> ''''"
proof -
  have "find (\<lambda>s. signed_by L ks msg s \<and> sg_KeyID s \<noteq> '''') sigs \<noteq> None"
    using assms by (auto simp: find_None_iff)
  then show ?thesis
    by (auto simp: signer_of_def find_Some_iff split: option.splits)
qed

lemma Open_envelope_ok:
  assumes "Open_envelope L e ks = (stmt, kid, None)"
  shows "env_Type e = PayloadType" "ks \<noteq> []" "kid \<noteq> ''''" "statement_check L stmt = None"
    "\<exists>payload. lib_base64 L (env_Payload e) = Some payload \<and> lib_json L payload = (stmt, None, False) \<and>
       signer_of L ks (PAE PayloadType payload) (env_Signatures e) = kid"
  using assms by (auto simp: Open_envelope_def Let_def split: if_splits option.splits prod.splits bool.splits)

lemma Open_envelope_signed:
  assumes "Open_envelope L e ks = (stmt, kid, None)"
  obtains payload s k sig where "lib_base64 L (env_Payload e) = Some payload" "lib_json L payload = (stmt, None, False)"
    "s \<in> set (env_Signatures e)" "k \<in> set ks" "sg_KeyID s = kid" "lib_base64 L (sg_Sig s) = Some sig"
    "lib_keyid L k = kid" "lib_verify L k (PAE PayloadType payload) sig"
proof -
  from Open_envelope_ok(5) [OF assms] obtain payload where p: "lib_base64 L (env_Payload e) = Some payload"
      "lib_json L payload = (stmt, None, False)" "signer_of L ks (PAE PayloadType payload) (env_Signatures e) = kid" by blast
  from signer_of_signed [OF p(3) Open_envelope_ok(3) [OF assms]] p(1,2) that show thesis by metis
qed

text \<open>The statement does not depend on the keys: another set that holds the signing key opens the envelope too.\<close>

lemma Open_envelope_other_keys:
  assumes o: "Open_envelope L e ks = (stmt, kid, None)"
    and sub: "\<And>k. k \<in> set ks \<Longrightarrow> lib_keyid L k = kid \<Longrightarrow> k \<in> set ks'"
  shows "\<exists>kid'. Open_envelope L e ks' = (stmt, kid', None)"
proof -
  from Open_envelope_signed [OF o] obtain payload s k sig where p: "lib_base64 L (env_Payload e) = Some payload"
      "lib_json L payload = (stmt, None, False)" and s: "s \<in> set (env_Signatures e)" "k \<in> set ks" "sg_KeyID s = kid"
      "lib_base64 L (sg_Sig s) = Some sig" "lib_keyid L k = kid" "lib_verify L k (PAE PayloadType payload) sig" .
  have k: "k \<in> set ks'" using sub s(2,5) .
  have "signed_by L ks' (PAE PayloadType payload) s"
    using s k by (auto simp: signed_by_def list_ex_iff)
  then have "signer_of L ks' (PAE PayloadType payload) (env_Signatures e) \<noteq> ''''"
    using signer_of_found [OF s(1)] s(3) Open_envelope_ok(3) [OF o] by simp
  then show ?thesis
    using p k Open_envelope_ok(1,4) [OF o] by (auto simp: Open_envelope_def Let_def)
qed

lemma ParseKeys_mem:
  assumes "parse_keys_from L i ss = Inr ks" "s \<in> set ss"
  shows "\<exists>k. ParseKey L s = Inr k \<and> k \<in> set ks"
  using assms by (induction ss arbitrary: i ks) (auto split: sum.splits, blast)

section \<open>What is applied\<close>

lemma Statement_MaxAge_bound: "0 < Statement_MaxAge s \<and> Statement_MaxAge s \<le> MaxAgeCap"
proof -
  have "MaxAgeCap div Second * Second = MaxAgeCap" by (simp add: MaxAgeCap_def)
  then show ?thesis
    by (auto simp: Statement_MaxAge_def DefaultMaxAge_def MaxAgeCap_def)
qed

lemma longest_bound: "longest stmt m \<le> MaxAgeCap" "m_MaxAge m > 0 \<Longrightarrow> longest stmt m \<le> m_MaxAge m"
  "longest stmt m \<le> Statement_MaxAge stmt"
  using Statement_MaxAge_bound [of stmt] by (auto simp: longest_def)

lemma time_Sub_le: "time_Sub a b \<le> d \<Longrightarrow> d < MaxInt64 \<Longrightarrow> a - b \<le> d"
  by (auto simp: time_Sub_def max_def min_def split: if_splits)

lemma time_Sub_leI: "a - b \<le> d \<Longrightarrow> MinInt64 \<le> d \<Longrightarrow> time_Sub a b \<le> d"
  by (auto simp: time_Sub_def)

lemma stale_reason_None:
  "stale_reason L st m stmt age now = None \<longleftrightarrow>
     forHolder stmt st \<and> c_Epoch st \<le> s_Epoch stmt \<and>
     (case c_Failure st of None \<Rightarrow> True | Some f \<Rightarrow> fl_At f < c_FetchedAt st) \<and>
     s_IssuedAt stmt \<le> now + Skew \<and> age \<le> longest stmt m"
  by (simp add: stale_reason_def not_less split: option.splits)

lemma Evaluate_applied:
  "ef_Status (Evaluate L held m now) = StatusApplied \<longleftrightarrow>
     (\<exists>st env ks stmt kid. held = Some st \<and> (m_URL m = '''' \<or> c_URL st = m_URL m) \<and> c_Envelope st = Some env \<and>
        Pins L held m = Inr ks \<and> Open_envelope L env ks = (stmt, kid, None) \<and>
        stale_reason L st m stmt (time_Sub now (s_IssuedAt stmt)) now = None \<and> ef_Doc (Evaluate L held m now) = s_Policy stmt)"
  by (cases held) (auto simp: Evaluate_def Let_def fallback_def of_enrolment_def none_applies_def
      split: if_splits option.splits sum.splits prod.splits)

definition pinned_keys :: "ClientState \<Rightarrow> Machine \<Rightarrow> string list" where
  "pinned_keys st m = (if m_Keys m \<noteq> [] then m_Keys m else c_Keys st)"

lemma Pins_pinned: "Pins L (Some st) m = ParseKeys L (pinned_keys st m)"
  by (simp add: Pins_def pinned_keys_def)

lemma parse_keys_from_some:
  assumes "parse_keys_from L i ss = Inr ks" "k \<in> set ks"
  shows "\<exists>s \<in> set ss. ParseKey L s = Inr k"
  using assms by (induction ss arbitrary: i ks) (auto split: sum.splits, blast)

text \<open>
  C26: A policy is applied only from an envelope with a signature that verifies, under a key pinned by the
  machine's managed file or, where that pins none, by the client, over the very bytes the policy is read from;
  and only for the holder, from an epoch no older than the highest accepted, issued no more than the allowed skew
  ahead, and no older than the machine's limit and thirty days.
\<close>

theorem applied_is_signed_and_fresh:
  assumes "ef_Status (Evaluate L held m now) = StatusApplied"
  shows "\<exists>st env stmt payload s key k sig. held = Some st \<and> c_Envelope st = Some env \<and>
     lib_base64 L (env_Payload env) = Some payload \<and> lib_json L payload = (stmt, None, False) \<and>
     s \<in> set (env_Signatures env) \<and> lib_base64 L (sg_Sig s) = Some sig \<and>
     key \<in> set (pinned_keys st m) \<and> ParseKey L key = Inr k \<and> lib_verify L k (PAE PayloadType payload) sig \<and>
     ef_Doc (Evaluate L held m now) = s_Policy stmt \<and> forHolder stmt st \<and> c_Epoch st \<le> s_Epoch stmt \<and>
     s_IssuedAt stmt - now \<le> Skew \<and> now - s_IssuedAt stmt \<le> MaxAgeCap \<and> (m_MaxAge m \<le> 0 \<or> now - s_IssuedAt stmt \<le> m_MaxAge m)"
proof -
  from assms obtain st env ks stmt kid where e: "held = Some st" "c_Envelope st = Some env" "Pins L (Some st) m = Inr ks"
      "Open_envelope L env ks = (stmt, kid, None)" "stale_reason L st m stmt (time_Sub now (s_IssuedAt stmt)) now = None"
      "ef_Doc (Evaluate L held m now) = s_Policy stmt"
    unfolding Evaluate_applied by blast
  from Open_envelope_signed [OF e(4)] obtain payload s k sig where p: "lib_base64 L (env_Payload env) = Some payload"
      "lib_json L payload = (stmt, None, False)" "s \<in> set (env_Signatures env)" "k \<in> set ks" "lib_base64 L (sg_Sig s) = Some sig"
      "lib_verify L k (PAE PayloadType payload) sig" by metis
  obtain key where "key \<in> set (pinned_keys st m)" "ParseKey L key = Inr k"
    using parse_keys_from_some [OF e(3) [unfolded Pins_pinned ParseKeys_def] p(4)] by blast
  moreover have "forHolder stmt st" "c_Epoch st \<le> s_Epoch stmt" "s_IssuedAt stmt - now \<le> Skew"
    and age: "time_Sub now (s_IssuedAt stmt) \<le> longest stmt m"
    using e(5) by (simp_all add: stale_reason_None)
  moreover have "now - s_IssuedAt stmt \<le> longest stmt m"
    using time_Sub_le [OF age] longest_bound(1) [of stmt m] by (simp add: MaxAgeCap_def)
  then have "now - s_IssuedAt stmt \<le> MaxAgeCap" "m_MaxAge m \<le> 0 \<or> now - s_IssuedAt stmt \<le> m_MaxAge m"
    using longest_bound(1) [of stmt m] longest_bound(2) [of m stmt] by linarith+
  ultimately show ?thesis using e(1,2,6) p by blast
qed

section \<open>Accepting\<close>

lemma accept_check_ok:
  assumes "accept_check L st m env subject check = (stmt, None)"
  obtains ks kid where "Pins L (Some st) m = Inr ks" "Open_envelope L env ks = (stmt, kid, None)" "forHolder stmt st"
    "m_Keys m = [] \<and> s_Keys stmt \<noteq> [] \<longrightarrow> names_signer L kid (s_Keys stmt)" "held_epoch L st ks \<le> s_Epoch stmt"
  using assms by (auto simp: accept_check_def split: sum.splits prod.splits option.splits if_splits)

lemma held_epoch_kept: "c_Epoch st \<le> held_epoch L st ks"
  by (auto simp: held_epoch_def split: option.splits prod.splits)

lemma accept_epoch: "accept_check L st m env subject check = (stmt, None) \<Longrightarrow> c_Epoch st \<le> s_Epoch stmt"
  by (erule accept_check_ok) (use held_epoch_kept order.trans in blast)

text \<open>An offer: the machine's settings then, an envelope, the subject and the check it is held to, and the time.\<close>

record offer =
  of_Machine :: Machine
  of_Envelope :: Envelope
  of_Subject :: string
  of_Check :: "(string \<Rightarrow> string option) option"
  of_Now :: time

fun accept_run :: "lib \<Rightarrow> ClientState \<Rightarrow> offer list \<Rightarrow> int list \<times> ClientState" where
  "accept_run L st [] = ([], st)"
| "accept_run L st (x # xs) = (case Accept L st (of_Machine x) (of_Envelope x) (of_Subject x) (of_Check x) (of_Now x) of
       ((stmt, None), st') \<Rightarrow> (case accept_run L st' xs of (es, st'') \<Rightarrow> (s_Epoch stmt # es, st''))
     | ((_, Some _), st') \<Rightarrow> accept_run L st' xs)"

lemma Accept_epoch:
  "Accept L st m env subject check now = ((stmt, None), st') \<Longrightarrow> c_Epoch st \<le> s_Epoch stmt \<and> c_Epoch st' = s_Epoch stmt"
  by (auto simp: Accept_def dest: accept_epoch split: prod.splits option.splits)

lemma Accept_refused:
  "Accept L st m env subject check now = ((stmt, Some e), st') \<Longrightarrow> st' = st\<lparr>c_Failure := Some \<lparr>fl_At = now, fl_Reason = e\<rparr>\<rparr>"
  by (auto simp: Accept_def split: prod.splits option.splits)

lemma accept_run_sorted:
  "accept_run L st xs = (es, st') \<Longrightarrow> sorted (c_Epoch st # es @ [c_Epoch st'])"
proof (induction xs arbitrary: st es)
  case Nil
  then show ?case by simp
next
  case (Cons x xs)
  obtain stmt err st1 where a: "Accept L st (of_Machine x) (of_Envelope x) (of_Subject x) (of_Check x) (of_Now x) = ((stmt, err), st1)"
    by (metis prod.exhaust)
  show ?case
  proof (cases err)
    case None
    with a Accept_epoch have "c_Epoch st \<le> s_Epoch stmt" "c_Epoch st1 = s_Epoch stmt" by blast+
    moreover obtain es1 where "accept_run L st1 xs = (es1, st')" "es = s_Epoch stmt # es1"
      using Cons.prems a None by (auto split: prod.splits)
    ultimately show ?thesis using Cons.IH [of st1 es1] by auto
  next
    case (Some e)
    with a Accept_refused have "c_Epoch st1 = c_Epoch st" by fastforce
    with Cons.IH [of st1 es] Cons.prems a Some show ?thesis by simp
  qed
qed

text \<open>
  C27: Whatever is offered to a client, and whatever the machine's settings are each time, the epochs of the policies it
  accepts never go down, from the epoch it held at first to the epoch it holds at the end: no rollback is accepted.
\<close>

theorem epochs_never_go_back:
  "sorted (c_Epoch st # fst (accept_run L st offers) @ [c_Epoch (snd (accept_run L st offers))])"
  by (cases "accept_run L st offers") (simp only: fst_conv snd_conv accept_run_sorted)

lemma rotated_keys_open:
  assumes inj: "\<And>k k'. lib_keyid L k = lib_keyid L k' \<Longrightarrow> k = k'"
    and o: "Open_envelope L env ks = (stmt, kid, None)" and n: "names_signer L kid (s_Keys stmt)"
  shows "\<exists>ks' kid'. ParseKeys L (s_Keys stmt) = Inr ks' \<and> Open_envelope L env ks' = (stmt, kid', None)"
proof -
  from Open_envelope_ok(4) [OF o] obtain ks' where ks': "ParseKeys L (s_Keys stmt) = Inr ks'"
    by (auto simp: statement_check_def split: if_splits sum.splits)
  from n obtain key where key: "key \<in> set (s_Keys stmt)" "case ParseKey L key of Inl _ \<Rightarrow> False | Inr pub \<Rightarrow> lib_keyid L pub = kid"
    unfolding names_signer_def list_ex_iff by blast
  then obtain pub where pub: "ParseKey L key = Inr pub" "lib_keyid L pub = kid"
    by (cases "ParseKey L key") auto
  moreover have "pub \<in> set ks'"
    using ParseKeys_mem [OF ks' [unfolded ParseKeys_def] key(1)] pub(1) by auto
  ultimately have "\<And>k. k \<in> set ks \<Longrightarrow> lib_keyid L k = kid \<Longrightarrow> k \<in> set ks'"
    using inj by blast
  from Open_envelope_other_keys [OF o this] ks' show ?thesis by blast
qed

text \<open>
  A policy that is accepted is applied at that time, on a machine whose settings name no other server, unless it was
  issued too far ahead or too long ago; that holds also when it rotated the client's keys, as long as a key is known by
  its id.
\<close>

theorem accepted_policy_applies:
  assumes inj: "\<And>k k'. lib_keyid L k = lib_keyid L k' \<Longrightarrow> k = k'"
    and acc: "Accept L st m env subject check now = ((stmt, None), st')"
    and url: "m_URL m = '''' \<or> m_URL m = c_URL st"
    and time: "s_IssuedAt stmt \<le> now + Skew" "now - s_IssuedAt stmt \<le> longest stmt m"
  shows "ef_Status (Evaluate L (Some st') m now) = StatusApplied \<and> ef_Doc (Evaluate L (Some st') m now) = s_Policy stmt"
proof -
  from acc have ok: "accept_check L st m env subject check = (stmt, None)"
    and st': "st' = st\<lparr>c_Envelope := Some env, c_FetchedAt := now, c_Failure := None, c_Epoch := max (c_Epoch st) (s_Epoch stmt),
            c_Keys := if m_Keys m = [] \<and> s_Keys stmt \<noteq> [] then s_Keys stmt else c_Keys st\<rparr>"
    by (auto simp: Accept_def split: prod.splits option.splits)
  from accept_check_ok [OF ok] obtain ks kid where k: "Pins L (Some st) m = Inr ks" "Open_envelope L env ks = (stmt, kid, None)"
      "forHolder stmt st" "m_Keys m = [] \<and> s_Keys stmt \<noteq> [] \<longrightarrow> names_signer L kid (s_Keys stmt)" by metis
  obtain ks' kid' where n: "Pins L (Some st') m = Inr ks'" "Open_envelope L env ks' = (stmt, kid', None)"
  proof (cases "m_Keys m = [] \<and> s_Keys stmt \<noteq> []")
    case True
    then obtain ks1 kid1 where "ParseKeys L (s_Keys stmt) = Inr ks1" "Open_envelope L env ks1 = (stmt, kid1, None)"
      using k(4) rotated_keys_open [OF inj k(2)] by blast
    with True st' that show thesis by (simp add: Pins_def)
  next
    case False
    then have "Pins L (Some st') m = Pins L (Some st) m"
      using st' by (auto simp: Pins_def)
    with k(1,2) that show thesis by simp
  qed
  have "0 < longest stmt m"
    using Statement_MaxAge_bound [of stmt] by (simp add: longest_def)
  then have "time_Sub now (s_IssuedAt stmt) \<le> longest stmt m"
    using time(2) by (intro time_Sub_leI) simp_all
  then have "stale_reason L st' m stmt (time_Sub now (s_IssuedAt stmt)) now = None"
    using k(3) time(1) accept_epoch [OF ok] by (simp add: stale_reason_None forHolder_def st')
  with n url show ?thesis
    by (auto simp: Evaluate_def Let_def of_enrolment_def st')
qed

text \<open>
  When a fetched policy is refused, no policy is applied from then on, whatever the machine's settings and the
  time, until a policy is accepted; the policy the client holds and its epoch stay as they were.
\<close>

theorem refused_policy_falls_back:
  assumes "Accept L st m env subject check now = ((stmt, Some e), st')" "c_FetchedAt st \<le> now"
  shows "ef_Status (Evaluate L (Some st') m' now') \<noteq> StatusApplied \<and> c_Envelope st' = c_Envelope st \<and> c_Epoch st' = c_Epoch st"
  using assms by (auto dest!: Accept_refused simp: Evaluate_applied stale_reason_None)

section \<open>A client that takes a policy\<close>

text \<open>A library for one run: keys are their own ids, base64 and signatures are the identity, and one payload decodes.\<close>

definition sample_key :: string where
  "sample_key = replicate 32 CHR ''k''"

definition sample_statement :: PolicyStatement where
  "sample_statement = \<lparr>s_V = 1, s_Tenant = ''t'', s_Subject = ''ann'', s_Name = ''default'', s_Version = 3, s_Epoch = 7,
     s_IssuedAt = 100 * Hour, s_MaxAgeSeconds = 0, s_Keys = [sample_key], s_Policy = ''{}''\<rparr>"

definition sample_lib :: lib where
  "sample_lib = \<lparr>lib_base64 = Some, lib_pem = (\<lambda>_. None), lib_pkix = (\<lambda>_. Inr None), lib_keyid = (\<lambda>k. k),
     lib_verify = (\<lambda>k msg sig. sig = ''signed'' \<and> msg = PAE PayloadType ''payload''),
     lib_json = (\<lambda>p. if p = ''payload'' then (sample_statement, None, False) else (no_statement, Some ''bad'', False)),
     lib_object = (\<lambda>p. p = ''{}''), lib_quote = (\<lambda>s. s), lib_time = (\<lambda>_. ''t''), lib_minutes = (\<lambda>_. ''m''), lib_duration = (\<lambda>_. ''d'')\<rparr>"

definition sample_envelope :: Envelope where
  "sample_envelope = \<lparr>env_Type = PayloadType, env_Payload = ''payload'', env_Signatures = [\<lparr>sg_KeyID = sample_key, sg_Sig = ''signed''\<rparr>]\<rparr>"

definition sample_client :: ClientState where
  "sample_client = \<lparr>c_Profile = ''p'', c_URL = ''u'', c_Keys = [sample_key], c_Subject = ''ann'', c_Tenant = '''', c_Envelope = None,
     c_FetchedAt = 0, c_Epoch = 2, c_Failure = None, c_LastAttempt = 0, c_LastError = ''''\<rparr>"

definition sample_machine :: Machine where
  "sample_machine = \<lparr>m_URL = '''', m_Keys = [], Required = True, m_MaxAge = 0\<rparr>"

lemmas sample_defs = sample_lib_def sample_statement_def sample_envelope_def sample_client_def sample_machine_def

lemma sample_trim: "TrimSpace sample_key = sample_key"
  by code_simp

lemma sample_ParseKey: "ParseKey sample_lib sample_key = Inr sample_key"
  by (simp add: ParseKey_def sample_trim sample_lib_def PublicKeySize_def) (simp add: sample_key_def)

lemma sample_Pins: "Pins sample_lib (Some st) sample_machine = ParseKeys sample_lib (c_Keys st)"
  by (simp add: Pins_def sample_machine_def)

lemma sample_ParseKeys: "ParseKeys sample_lib [sample_key] = Inr [sample_key]"
  by (simp add: ParseKeys_def sample_ParseKey)

lemma sample_Open: "Open_envelope sample_lib sample_envelope [sample_key] = (sample_statement, sample_key, None)"
proof -
  have "sample_key \<noteq> ''''" by (simp add: sample_key_def)
  moreover have "statement_check sample_lib sample_statement = None"
    by (simp add: statement_check_def sample_statement_def StatementVersion_def sample_ParseKeys) (simp add: sample_lib_def)
  ultimately show ?thesis
    by (simp add: Open_envelope_def Let_def sample_envelope_def signer_of_def signed_by_def sample_lib_def)
qed

lemma sample_accept_check:
  "accept_check sample_lib sample_client sample_machine sample_envelope ''ann'' None = (sample_statement, None)"
proof -
  have "c_Keys sample_client = [sample_key]" by (simp add: sample_client_def)
  moreover have "names_signer sample_lib sample_key (s_Keys sample_statement)"
    by (simp add: names_signer_def sample_statement_def sample_ParseKey) (simp add: sample_lib_def)
  ultimately show ?thesis
    by (simp add: accept_check_def sample_Pins sample_ParseKeys sample_Open held_epoch_def)
      (simp add: sample_client_def sample_statement_def forHolder_def)
qed

definition sample_accepted :: ClientState where
  "sample_accepted = snd (Accept sample_lib sample_client sample_machine sample_envelope ''ann'' None (101 * Hour))"

lemma sample_Accept:
  "Accept sample_lib sample_client sample_machine sample_envelope ''ann'' None (101 * Hour) = ((sample_statement, None), sample_accepted)"
  by (simp add: Accept_def sample_accept_check sample_accepted_def)

theorem accepted_policy_applies_witness:
  "ef_Status (Evaluate sample_lib (Some sample_accepted) sample_machine (101 * Hour)) = StatusApplied \<and>
   ef_Doc (Evaluate sample_lib (Some sample_accepted) sample_machine (101 * Hour)) = ''{}''"
proof -
  have "s_Policy sample_statement = ''{}''" by (simp add: sample_statement_def)
  with accepted_policy_applies [OF _ sample_Accept] show ?thesis
    by (simp add: sample_defs Skew_def longest_def Statement_MaxAge_def DefaultMaxAge_def)
qed

lemma sample_applied: "ef_Status (Evaluate sample_lib (Some sample_accepted) sample_machine (101 * Hour)) = StatusApplied"
proof -
  have s: "sample_accepted = sample_client\<lparr>c_Envelope := Some sample_envelope, c_FetchedAt := 101 * Hour, c_Failure := None, c_Epoch := 7,
      c_Keys := [sample_key]\<rparr>"
    by (simp add: sample_accepted_def Accept_def sample_accept_check) (simp add: sample_defs)
  have "Pins sample_lib (Some sample_accepted) sample_machine = Inr [sample_key]"
    by (simp add: sample_Pins s sample_ParseKeys)
  moreover have "stale_reason sample_lib sample_accepted sample_machine sample_statement (time_Sub (101 * Hour) (s_IssuedAt sample_statement)) (101 * Hour) = None"
    by (simp add: stale_reason_None s) (simp add: sample_defs forHolder_def Skew_def longest_def Statement_MaxAge_def DefaultMaxAge_def time_Sub_def)
  moreover have "m_URL sample_machine = ''''" "c_Envelope sample_accepted = Some sample_envelope"
    by (simp_all add: sample_machine_def s)
  ultimately show ?thesis
    by (simp add: Evaluate_def sample_Open Let_def)
qed

theorem applied_is_signed_and_fresh_witness:
  "\<exists>env key. c_Envelope sample_accepted = Some env \<and> key \<in> set (pinned_keys sample_accepted sample_machine)"
  using applied_is_signed_and_fresh [OF sample_applied] by blast

definition sample_forged :: Envelope where
  "sample_forged = sample_envelope\<lparr>env_Signatures := []\<rparr>"

lemma sample_refused:
  "Accept sample_lib sample_accepted sample_machine sample_forged ''ann'' None (102 * Hour) =
     ((no_statement, Some ErrUntrusted), sample_accepted\<lparr>c_Failure := Some \<lparr>fl_At = 102 * Hour, fl_Reason = ErrUntrusted\<rparr>\<rparr>)"
proof -
  have "c_Keys sample_accepted = [sample_key]"
    by (simp add: sample_accepted_def Accept_def sample_accept_check) (simp add: sample_defs)
  then show ?thesis
    by (simp add: Accept_def accept_check_def sample_Pins sample_ParseKeys)
      (simp add: Open_envelope_def sample_forged_def sample_envelope_def signer_of_def sample_lib_def)
qed

theorem refused_policy_falls_back_witness:
  "ef_Status (Evaluate sample_lib (Some (sample_accepted\<lparr>c_Failure := Some \<lparr>fl_At = 102 * Hour, fl_Reason = ErrUntrusted\<rparr>\<rparr>))
     sample_machine (103 * Hour)) \<noteq> StatusApplied"
proof -
  have "c_FetchedAt sample_accepted \<le> 102 * Hour"
    by (simp add: sample_accepted_def Accept_def sample_accept_check)
  with refused_policy_falls_back [OF sample_refused] show ?thesis by blast
qed

end
