(* ===== verification/Archive.thy ===== *)
theory Archive
  imports Errors
begin

text \<open>
  The archives drivers move in and out of a workspace: \<^verbatim>\<open>driver/archive/archive.go\<close>, its checks of names and
  links and \<open>Unpack\<close>. The archive is the list of headers \<^verbatim>\<open>archive/tar\<close> reads, with the data it can supply for
  each. A folder tree maps real paths, as lists of names below the root, to what is there; modes, times and
  owners are left out, and the functions of \<^verbatim>\<open>os.Root\<close> the code calls are defined on it: they follow links
  inside the tree, at most so many, and refuse one that would leave it.
\<close>

section \<open>Go's \<^verbatim>\<open>path\<close>\<close>

definition slash :: string where
  "slash = ''/''"

definition parts :: "string \<Rightarrow> string list" where
  "parts s = Split CHR ''/'' s"

fun clean_parts :: "bool \<Rightarrow> string list \<Rightarrow> string list \<Rightarrow> string list" where
  "clean_parts rooted out [] = rev out"
| "clean_parts rooted out (p # ps) =
     (if p = '''' \<or> p = ''.'' then clean_parts rooted out ps
      else if p = ''..''
      then clean_parts rooted (if out \<noteq> [] \<and> hd out \<noteq> ''..'' then tl out else if rooted then out else p # out) ps
      else clean_parts rooted (p # out) ps)"

definition path_Clean :: "string \<Rightarrow> string" where
  "path_Clean p =
     (let rooted = HasPrefix p slash; body = Join (clean_parts rooted [] (parts p)) slash
      in if rooted then slash @ body else if body = '''' then ''.'' else body)"

definition path_Dir :: "string \<Rightarrow> string" where
  "path_Dir p = path_Clean (rev (dropWhile (\<lambda>c. c \<noteq> CHR ''/'') (rev p)))"

definition path_Join :: "string \<Rightarrow> string \<Rightarrow> string" where
  "path_Join a b = (if a = '''' \<and> b = '''' then '''' else if a = '''' then path_Clean b else if b = '''' then path_Clean a
     else path_Clean (a @ slash @ b))"

text \<open>\<^verbatim>\<open>strings.EqualFold\<close> with a text of ASCII letters that no other code point folds to.\<close>

definition fold_lower :: "char \<Rightarrow> char" where
  "fold_lower c = (if is_upper c then char_of (byte_val c + 32) else c)"

section \<open>Names and links\<close>

definition StateDir :: string where
  "StateDir = ''.abhed''"

record ArchiveLimits =
  lim_Entries :: int
  lim_Bytes :: int

definition DefaultEntries :: int where
  "DefaultEntries = 1000000"

definition DefaultBytes :: int where
  "DefaultBytes = 16 * 2 ^ 30"

definition Limits_entries :: "ArchiveLimits \<Rightarrow> int" where
  "Limits_entries l = (if lim_Entries l > 0 then lim_Entries l else DefaultEntries)"

definition Limits_bytes :: "ArchiveLimits \<Rightarrow> int" where
  "Limits_bytes l = (if lim_Bytes l > 0 then lim_Bytes l else DefaultBytes)"

definition invalid :: "string \<Rightarrow> gerror" where
  "invalid why = DriverError DriverInvalid why"

definition entry_Name :: "string \<Rightarrow> gerror + string" where
  "entry_Name name =
     (if name = '''' \<or> HasPrefix name slash \<or> CHR 0x00 \<in> set name \<or> CHR 0x5C \<in> set name
      then Inl (invalid ''archive entry is not a relative path'')
      else let clean = path_Clean name
        in if clean = ''..'' \<or> HasPrefix clean ''../'' then Inl (invalid ''archive entry climbs out of the folder'')
           else if ''..'' \<in> set (parts name) then Inl (invalid ''archive entry holds ..'')
           else Inr clean)"

definition InState :: "string \<Rightarrow> bool" where
  "InState name \<longleftrightarrow> list_ex (\<lambda>p. map fold_lower p = StateDir) (parts name)"

definition leading_ups :: "string list \<Rightarrow> nat" where
  "leading_ups ps = length (takeWhile (\<lambda>p. p = ''..'') ps)"

definition link_Target :: "string \<Rightarrow> string \<Rightarrow> gerror + string" where
  "link_Target name target =
     (if target = '''' \<or> HasPrefix target slash \<or> CHR 0x00 \<in> set target \<or> path_Clean target \<noteq> target
      then Inl (invalid ''link points outside the folder'')
      else let ps = parts target; ups = leading_ups ps
        in if ''..'' \<in> set (drop ups ps) \<or> ups > count_list (path_Clean name) CHR ''/''
           then Inl (invalid ''link points outside the folder'')
           else Inr (path_Join (path_Dir name) target))"

definition check_Link :: "string \<Rightarrow> string \<Rightarrow> gerror option" where
  "check_Link name target = (case link_Target name target of
       Inl e \<Rightarrow> Some e
     | Inr resolved \<Rightarrow> if InState resolved then Some (invalid ''link points into Abhed's state'') else None)"

definition TypeName :: "char \<Rightarrow> string" where
  "TypeName t = (if t = CHR ''3'' then ''character device'' else if t = CHR ''4'' then ''block device''
     else if t = CHR ''6'' then ''named pipe'' else ''entry of type '' @ [t])"

section \<open>A folder tree and \<^verbatim>\<open>os.Root\<close>\<close>

datatype node = Folder | RegularFile string | SymbolicLink string

type_synonym tree = "(string list, node) gomap"

text \<open>Where a path leads from a folder, following every link on the way and at its end.\<close>

datatype walked = Reached "string list" | Gone | NotFolder | Escapes | TooMany

function follow :: "tree \<Rightarrow> nat \<Rightarrow> string list \<Rightarrow> string list \<Rightarrow> walked" where
  "follow T n cur [] = Reached cur"
| "follow T n cur (c # cs) =
     (if c = '''' \<or> c = ''.'' then follow T n cur cs
      else if c = ''..'' then (if cur = [] then Escapes else follow T n (butlast cur) cs)
      else case map_of T (cur @ [c]) of
          None \<Rightarrow> Gone
        | Some Folder \<Rightarrow> follow T n (cur @ [c]) cs
        | Some (RegularFile _) \<Rightarrow> if cs = [] then Reached (cur @ [c]) else NotFolder
        | Some (SymbolicLink t) \<Rightarrow>
            if n = 0 then TooMany else if HasPrefix t slash then Escapes else follow T (n - 1) cur (parts t @ cs))"
  by pat_completeness auto
termination by (relation "measures [\<lambda>(T, n, cur, cs). n, \<lambda>(T, n, cur, cs). length cs]") auto

declare follow.simps(2) [simp del]

definition is_folder :: "tree \<Rightarrow> string list \<Rightarrow> bool" where
  "is_folder T p \<longleftrightarrow> p = [] \<or> map_of T p = Some Folder"

text \<open>The real place of a name: its folder's, followed through links, and its last part.\<close>

definition place :: "tree \<Rightarrow> nat \<Rightarrow> string \<Rightarrow> string list option" where
  "place T n name = (case follow T n [] (butlast (parts name)) of
       Reached d \<Rightarrow> if is_folder T d then Some (d @ [last (parts name)]) else None
     | _ \<Rightarrow> None)"

definition root_Lstat :: "tree \<Rightarrow> nat \<Rightarrow> string \<Rightarrow> node option" where
  "root_Lstat T n name = (case place T n name of None \<Rightarrow> None | Some p \<Rightarrow> map_of T p)"

text \<open>\<^verbatim>\<open>MkdirAll\<close> makes what is missing on the way, also behind a link.\<close>

function root_MkdirAll :: "nat \<Rightarrow> string list \<Rightarrow> string list \<Rightarrow> tree \<Rightarrow> bool \<times> tree" where
  "root_MkdirAll n cur [] T = (is_folder T cur, T)"
| "root_MkdirAll n cur (c # cs) T =
     (if c = '''' \<or> c = ''.'' then root_MkdirAll n cur cs T
      else if c = ''..'' then (if cur = [] then (False, T) else root_MkdirAll n (butlast cur) cs T)
      else case map_of T (cur @ [c]) of
          None \<Rightarrow> root_MkdirAll n (cur @ [c]) cs ((cur @ [c], Folder) # T)
        | Some Folder \<Rightarrow> root_MkdirAll n (cur @ [c]) cs T
        | Some (RegularFile _) \<Rightarrow> (False, T)
        | Some (SymbolicLink t) \<Rightarrow>
            if n = 0 then (False, T) else if HasPrefix t slash then (False, T) else root_MkdirAll (n - 1) cur (parts t @ cs) T)"
  by pat_completeness auto
termination by (relation "measures [\<lambda>(n, cur, cs, T). n, \<lambda>(n, cur, cs, T). length cs]") auto

declare root_MkdirAll.simps(2) [simp del]

text \<open>Making a file, a hard link or a symbolic link: the place must be free.\<close>

definition root_create :: "nat \<Rightarrow> string \<Rightarrow> node \<Rightarrow> tree \<Rightarrow> bool \<times> tree" where
  "root_create n name what T = (case place T n name of
       None \<Rightarrow> (False, T)
     | Some p \<Rightarrow> if map_of T p = None then (True, (p, what) # T) else (False, T))"

section \<open>Unpacking\<close>

record TarHeader =
  h_Name :: string
  h_Typeflag :: char
  h_Linkname :: string
  h_Size :: int
  h_Data :: string

definition TypeReg :: char where "TypeReg = CHR ''0''"
definition TypeLink :: char where "TypeLink = CHR ''1''"
definition TypeSymlink :: char where "TypeSymlink = CHR ''2''"
definition TypeDir :: char where "TypeDir = CHR ''5''"

record Stats =
  st_Entries :: int
  st_Bytes :: int

text \<open>What one unpacking has taken up so far: its counts, its lists (the oldest first) and the tree.\<close>

record unpacking =
  stats :: Stats
  dirs :: "string list"
  files :: "string list"
  hardLinks :: "(string \<times> string) list"
  symbolLinks :: "(string \<times> string) list"
  tree_of :: tree

definition mkdirAll :: "nat \<Rightarrow> string \<Rightarrow> tree \<Rightarrow> gerror option \<times> tree" where
  "mkdirAll n name T =
     (if name = ''.'' \<or> name = '''' then (None, T)
      else case root_MkdirAll n [] (parts name) T of
          (True, T') \<Rightarrow> (None, T')
        | (False, T') \<Rightarrow> (Some (invalid ''folder cannot be made''), T'))"

definition writeFile :: "nat \<Rightarrow> string \<Rightarrow> string \<Rightarrow> int \<Rightarrow> tree \<Rightarrow> gerror option \<times> tree" where
  "writeFile n name data0 size0 T = (case mkdirAll n (path_Dir name) T of
       (Some e, T') \<Rightarrow> (Some e, T')
     | (None, T') \<Rightarrow> (case root_create n name (RegularFile (take (nat size0) data0)) T' of
           (False, T'') \<Rightarrow> (Some (invalid ''file cannot be made''), T'')
         | (True, T'') \<Rightarrow> (if int (length data0) < size0 then Some (invalid ''file data ends early'') else None, T'')))"

definition take_entry :: "nat \<Rightarrow> ArchiveLimits \<Rightarrow> (int \<Rightarrow> gerror option) \<Rightarrow> TarHeader \<Rightarrow> unpacking \<Rightarrow> gerror option \<times> unpacking" where
  "take_entry n lim ctx h u =
     (let st = stats u
      in case ctx (st_Entries st) of
           Some e \<Rightarrow> (Some e, u)
         | None \<Rightarrow>
             let u1 = u\<lparr>stats := st\<lparr>st_Entries := wrap64 (st_Entries st + 1)\<rparr>\<rparr>
             in if st_Entries (stats u1) > Limits_entries lim then (Some (invalid ''the archive has too many entries''), u1)
                else case entry_Name (h_Name h) of
                  Inl e \<Rightarrow> (Some e, u1)
                | Inr name \<Rightarrow>
                    if name = ''.'' then (None, u1)
                    else if InState name then (Some (invalid ''archive entry is in Abhed's state, which is never written''), u1)
                    else if h_Typeflag h = TypeDir
                    then (case mkdirAll n name (tree_of u1) of
                        (Some e, T) \<Rightarrow> (Some e, u1\<lparr>tree_of := T\<rparr>)
                      | (None, T) \<Rightarrow> (None, u1\<lparr>tree_of := T, dirs := dirs u1 @ [name]\<rparr>))
                    else if h_Typeflag h = TypeReg \<or> h_Typeflag h = CHR 0x00
                    then (let u2 = u1\<lparr>stats := (stats u1)\<lparr>st_Bytes := wrap64 (st_Bytes (stats u1) + h_Size h)\<rparr>\<rparr>
                      in if h_Size h < 0 \<or> st_Bytes (stats u2) > Limits_bytes lim then (Some (invalid ''the archive holds too many bytes''), u2)
                         else case writeFile n name (h_Data h) (h_Size h) (tree_of u2) of
                             (Some e, T) \<Rightarrow> (Some e, u2\<lparr>tree_of := T\<rparr>)
                           | (None, T) \<Rightarrow> (None, u2\<lparr>tree_of := T, files := files u2 @ [name]\<rparr>))
                    else if h_Typeflag h = TypeLink
                    then (case entry_Name (h_Linkname h) of
                        Inl e \<Rightarrow> (Some (invalid ''hard link is not a relative path''), u1)
                      | Inr target \<Rightarrow> (None, u1\<lparr>hardLinks := hardLinks u1 @ [(name, target)]\<rparr>))
                    else if h_Typeflag h = TypeSymlink
                    then (case check_Link name (h_Linkname h) of
                        Some e \<Rightarrow> (Some e, u1)
                      | None \<Rightarrow> (None, u1\<lparr>symbolLinks := symbolLinks u1 @ [(name, h_Linkname h)]\<rparr>))
                    else (Some (invalid (''archive entry is a '' @ TypeName (h_Typeflag h) @ '', which is not restored'')), u1))"

fun take_entries :: "nat \<Rightarrow> ArchiveLimits \<Rightarrow> (int \<Rightarrow> gerror option) \<Rightarrow> TarHeader list \<Rightarrow> bool \<Rightarrow> unpacking \<Rightarrow> gerror option \<times> unpacking" where
  "take_entries n lim ctx [] broken u = (if broken then Some (invalid ''reading the archive'') else None, u)"
| "take_entries n lim ctx (h # hs) broken u = (case take_entry n lim ctx h u of
       (Some e, u') \<Rightarrow> (Some e, u')
     | (None, u') \<Rightarrow> take_entries n lim ctx hs broken u')"

definition make_hard :: "nat \<Rightarrow> string \<times> string \<Rightarrow> tree \<Rightarrow> gerror option \<times> tree" where
  "make_hard n l T = (case l of (name, target) \<Rightarrow>
     if InState target then (Some (invalid ''hard link points into Abhed's state''), T)
     else case root_Lstat T n target of
         Some (RegularFile data0) \<Rightarrow> (case mkdirAll n (path_Dir name) T of
             (Some e, T') \<Rightarrow> (Some e, T')
           | (None, T') \<Rightarrow> (case root_create n name (RegularFile data0) T' of
                 (True, T'') \<Rightarrow> (None, T'')
               | (False, T'') \<Rightarrow> (Some (invalid ''hard link cannot be made''), T'')))
       | _ \<Rightarrow> (Some (invalid ''hard link points to what is not a file in the archive''), T))"

text \<open>The folders above a name, the nearest first, are folders and no links.\<close>

fun above :: "string list \<Rightarrow> string list list" where
  "above [] = []"
| "above (p # ps) = map ((#) p) (above ps) @ (if ps = [] then [] else [[p]])"

definition noLinkAbove :: "tree \<Rightarrow> nat \<Rightarrow> string \<Rightarrow> gerror option" where
  "noLinkAbove T n name = (case find (\<lambda>d. root_Lstat T n (Join d slash) \<noteq> Some Folder) (above (parts name)) of
       None \<Rightarrow> None
     | Some d \<Rightarrow> (case root_Lstat T n (Join d slash) of
           None \<Rightarrow> Some (invalid ''a folder on the way to the link cannot be read'')
         | Some _ \<Rightarrow> Some (invalid ''the link sits under a link'')))"

definition make_symbolic :: "nat \<Rightarrow> string \<times> string \<Rightarrow> tree \<Rightarrow> gerror option \<times> tree" where
  "make_symbolic n l T = (case l of (name, target) \<Rightarrow>
     (case mkdirAll n (path_Dir name) T of
        (Some e, T') \<Rightarrow> (Some e, T')
      | (None, T') \<Rightarrow> (case noLinkAbove T' n name of
            Some e \<Rightarrow> (Some e, T')
          | None \<Rightarrow> (case root_create n name (SymbolicLink target) T' of
                (True, T'') \<Rightarrow> (None, T'')
              | (False, T'') \<Rightarrow> (Some (invalid ''link cannot be made''), T''))))) "

fun make_each :: "('a \<Rightarrow> tree \<Rightarrow> gerror option \<times> tree) \<Rightarrow> 'a list \<Rightarrow> tree \<Rightarrow> gerror option \<times> tree" where
  "make_each f [] T = (None, T)"
| "make_each f (x # xs) T = (case f x T of (Some e, T') \<Rightarrow> (Some e, T') | (None, T') \<Rightarrow> make_each f xs T')"

text \<open>\<open>own\<close> answers for each name whether it could be given to the owner asked for; without an owner none is asked.\<close>

definition Unpack :: "nat \<Rightarrow> (int \<Rightarrow> gerror option) \<Rightarrow> TarHeader list \<Rightarrow> bool \<Rightarrow> tree \<Rightarrow> ArchiveLimits \<Rightarrow> (string \<Rightarrow> bool) option
    \<Rightarrow> (Stats \<times> gerror option) \<times> tree" where
  "Unpack n ctx hs broken T lim own =
     (case take_entries n lim ctx hs broken
        \<lparr>stats = \<lparr>st_Entries = 0, st_Bytes = 0\<rparr>, dirs = [], files = [], hardLinks = [], symbolLinks = [], tree_of = T\<rparr> of
        (Some e, u) \<Rightarrow> ((stats u, Some e), tree_of u)
      | (None, u) \<Rightarrow> (case make_each (make_hard n) (hardLinks u) (tree_of u) of
            (Some e, T1) \<Rightarrow> ((stats u, Some e), T1)
          | (None, T1) \<Rightarrow> (case make_each (make_symbolic n) (symbolLinks u) T1 of
                (Some e, T2) \<Rightarrow> ((stats u, Some e), T2)
              | (None, T2) \<Rightarrow>
                  ((stats u, case own of
                      None \<Rightarrow> None
                    | Some f \<Rightarrow> if list_all f (dirs u @ files u @ map fst (hardLinks u) @ map fst (symbolLinks u)) then None
                        else Some (DriverError DriverUnavailable ''owning'')), T2))))"

end
