(* ===== verification/ArchiveLaws.thy ===== *)
theory ArchiveLaws
  imports Archive
begin

text \<open>
  What unpacking an archive can do to the folder it unpacks into. Names and links are first read as lists of
  parts; then a tree is \<open>safe\<close> when every link in it is judged rightly by its text, and in a safe tree no path
  climbs out or reaches the state folder, however many links it goes through. Unpacking keeps a tree safe.
\<close>

section \<open>Parts of a path\<close>

definition plain :: "string \<Rightarrow> bool" where
  "plain p \<longleftrightarrow> p \<noteq> '''' \<and> p \<noteq> ''.'' \<and> p \<noteq> ''..'' \<and> CHR ''/'' \<notin> set p"

definition is_state :: "string \<Rightarrow> bool" where
  "is_state p \<longleftrightarrow> map fold_lower p = StateDir"

definition outside_state :: "string list \<Rightarrow> bool" where
  "outside_state ps \<longleftrightarrow> list_all (\<lambda>p. \<not> is_state p) ps"

lemma outside_state_simps [simp]:
  "outside_state []" "outside_state (p # ps) \<longleftrightarrow> \<not> is_state p \<and> outside_state ps"
  "outside_state (ps @ qs) \<longleftrightarrow> outside_state ps \<and> outside_state qs"
  by (simp_all add: outside_state_def)

lemma outside_state_sub: "outside_state ps \<Longrightarrow> set qs \<subseteq> set ps \<Longrightarrow> outside_state qs"
  by (auto simp: outside_state_def list_all_iff)

lemma InState_parts: "InState s \<longleftrightarrow> \<not> outside_state (parts s)"
  by (simp add: InState_def outside_state_def is_state_def list_ex_iff list_all_iff)

lemma Split_no_sep: "p \<in> set (Split c s) \<Longrightarrow> c \<notin> set p"
  by (induction s arbitrary: p) (auto split: if_splits list.splits)

lemma Split_self: "c \<notin> set w \<Longrightarrow> Split c w = [w]"
  by (induction w) auto

lemma parts_Join:
  assumes "ps \<noteq> []" "list_all (\<lambda>p. CHR ''/'' \<notin> set p) ps"
  shows "parts (Join ps slash) = ps"
proof -
  have "list_all (list_all (\<lambda>c. c \<noteq> CHR ''/'')) ps"
    using assms(2) by (auto simp: list_all_iff)
  with assms(1) show ?thesis by (simp add: parts_def slash_def Split_Join)
qed

lemma Join_parts: "Join (parts s) slash = s"
  by (simp add: parts_def slash_def Join_Split)

lemma parts_nonempty [simp]: "parts s \<noteq> []"
  by (simp add: parts_def)

lemma parts_no_slash: "p \<in> set (parts s) \<Longrightarrow> CHR ''/'' \<notin> set p"
  by (auto simp: parts_def dest: Split_no_sep)

lemma parts_empty: "parts '''' = ['''']"
  by (simp add: parts_def)

definition trivial :: "string \<Rightarrow> bool" where
  "trivial p \<longleftrightarrow> p = '''' \<or> p = ''.''"

lemma clean_parts_plain:
  "''..'' \<notin> set ps \<Longrightarrow> clean_parts r out ps = rev out @ filter (\<lambda>p. \<not> trivial p) ps"
  by (induction ps arbitrary: out) (auto simp: trivial_def)

lemma set_clean_parts: "set (clean_parts r out ps) \<subseteq> set out \<union> {p \<in> set ps. \<not> trivial p}"
proof (induction r out ps rule: clean_parts.induct)
  case (2 r out q ps)
  have tl: "set (tl out) \<subseteq> set out" by (cases out) auto
  consider "q = '''' \<or> q = ''.''" | "q = ''..''" | "\<not> trivial q" "q \<noteq> ''..''" by (auto simp: trivial_def)
  then show ?case
  proof cases
    case 1
    then show ?thesis using 2(1) by auto
  next
    case 2
    have "\<not> trivial ''..''" by (simp add: trivial_def)
    with 2 tl "2.IH"(2) show ?thesis by (auto split: if_splits)
  next
    case 3
    then show ?thesis using "2.IH"(3) by (auto simp: trivial_def)
  qed
qed simp

lemma clean_parts_mem: "p \<in> set (clean_parts r [] ps) \<Longrightarrow> p \<in> set ps \<and> \<not> trivial p"
  using set_clean_parts [of r "[]" ps] by auto

lemma relative_prefix: "\<not> HasPrefix s slash \<longleftrightarrow> s = '''' \<or> hd s \<noteq> CHR ''/''"
  by (cases s) (auto simp: HasPrefix_def slash_def)

text \<open>A relative path that is its own cleaned form has no empty and no dot part, unless it is a dot.\<close>

lemma clean_relative:
  assumes "\<not> HasPrefix s slash"
  shows "(path_Clean s = ''.'' \<and> clean_parts False [] (parts s) = []) \<or> parts (path_Clean s) = clean_parts False [] (parts s)"
proof (cases "clean_parts False [] (parts s) = []")
  case True
  then show ?thesis using assms by (simp add: path_Clean_def Let_def)
next
  case False
  let ?ps = "clean_parts False [] (parts s)"
  have "list_all (\<lambda>p. CHR ''/'' \<notin> set p) ?ps"
    unfolding list_all_iff using clean_parts_mem parts_no_slash by blast
  then have parts: "parts (Join ?ps slash) = ?ps" by (rule parts_Join [OF False])
  have "'''' \<notin> set ?ps" using clean_parts_mem [of "''''"] by (auto simp: trivial_def)
  then have "parts (Join ?ps slash) \<noteq> parts ''''" unfolding parts parts_empty by auto
  then have "Join ?ps slash \<noteq> ''''" by metis
  with parts show ?thesis using assms by (simp add: path_Clean_def Let_def)
qed

lemma HasPrefix_parts: "HasPrefix s slash \<Longrightarrow> '''' \<in> set (parts s)"
  by (cases s) (auto simp: HasPrefix_def slash_def parts_def)

lemma clean_keeps_relative:
  assumes "\<not> HasPrefix s slash"
  shows "\<not> HasPrefix (path_Clean s) slash" "path_Clean s \<noteq> ''''"
proof -
  have "'''' \<notin> set (parts (path_Clean s))"
    using clean_relative [OF assms] clean_parts_mem [of "''''"]
    by (elim disjE) (auto simp: trivial_def parts_def)
  then show "\<not> HasPrefix (path_Clean s) slash" "path_Clean s \<noteq> ''''"
    using HasPrefix_parts parts_empty by auto
qed

lemma clean_parts_append: "clean_parts r out (xs @ ys) = clean_parts r (rev (clean_parts r out xs)) ys"
  by (induction xs arbitrary: out) auto

lemma clean_nontrivial:
  assumes "\<not> HasPrefix s slash" "path_Clean s = s" "s \<noteq> ''.''" "p \<in> set (parts s)"
  shows "\<not> trivial p"
proof -
  from clean_relative [OF assms(1)] assms(2,3) have "parts s = clean_parts False [] (parts s)" by simp
  with assms(4) have "p \<in> set (clean_parts False [] (parts s))" by simp
  then show ?thesis using clean_parts_mem by blast
qed

text \<open>The name of an entry is a dot or a list of plain parts.\<close>

lemma entry_Name_plain:
  assumes "entry_Name s = Inr c" "c \<noteq> ''.''"
  shows "list_all plain (parts c)"
proof -
  from assms have rel: "\<not> HasPrefix s slash" and up: "''..'' \<notin> set (parts s)" and c: "c = path_Clean s"
    by (auto simp: entry_Name_def Let_def split: if_splits)
  from clean_relative [OF rel] assms(2) c have "parts c = clean_parts False [] (parts s)" by simp
  then have p: "parts c = filter (\<lambda>p. \<not> trivial p) (parts s)"
    by (simp add: clean_parts_plain [OF up])
  have "plain q" if "q \<in> set (parts s)" "\<not> trivial q" for q
    using that up parts_no_slash by (auto simp: plain_def trivial_def)
  then show ?thesis unfolding p by (simp add: list_all_iff)
qed

section \<open>Links judged by their text\<close>

text \<open>Parts that climb no further than a depth, and only before they go down.\<close>

fun stays :: "nat \<Rightarrow> string list \<Rightarrow> bool" where
  "stays d [] = True"
| "stays d (p # ps) =
     (if trivial p then stays d ps
      else if p = ''..'' then 0 < d \<and> stays (d - 1) ps
      else ''..'' \<notin> set ps)"

lemma stays_plain: "''..'' \<notin> set ps \<Longrightarrow> stays d ps"
  by (induction ps arbitrary: d) auto

lemma stays_append: "stays d ps \<Longrightarrow> ''..'' \<notin> set qs \<Longrightarrow> stays d (ps @ qs)"
  by (induction ps arbitrary: d) (auto simp: stays_plain)

lemma stays_ups: "k \<le> d \<Longrightarrow> ''..'' \<notin> set qs \<Longrightarrow> stays d (replicate k ''..'' @ qs)"
  by (induction k arbitrary: d) (auto simp: stays_plain trivial_def)

lemma leading_ups_split: "ps = replicate (leading_ups ps) ''..'' @ drop (leading_ups ps) ps"
proof -
  have "takeWhile (\<lambda>p. p = ''..'') ps = replicate (leading_ups ps) ''..''"
    unfolding leading_ups_def by (induction ps) auto
  moreover have "takeWhile (\<lambda>p. p = ''..'') ps @ drop (leading_ups ps) ps = ps"
    by (simp add: leading_ups_def flip: dropWhile_eq_drop)
  ultimately show ?thesis by simp
qed

lemma count_slash_Join:
  "list_all (\<lambda>p. CHR ''/'' \<notin> set p) ps \<Longrightarrow> ps \<noteq> [] \<Longrightarrow> count_list (Join ps slash) CHR ''/'' = length ps - 1"
  by (induction ps slash rule: Join.induct) (auto simp: slash_def count_list_0_iff)

lemma count_slash: "count_list s CHR ''/'' = length (parts s) - 1"
proof -
  have "list_all (\<lambda>p. CHR ''/'' \<notin> set p) (parts s)"
    using parts_no_slash by (auto simp: list_all_iff)
  then show ?thesis
    using count_slash_Join [of "parts s"] by (simp add: Join_parts)
qed

lemma plain_clean:
  assumes "list_all plain (parts s)"
  shows "path_Clean s = s" "\<not> HasPrefix s slash"
proof -
  have up: "''..'' \<notin> set (parts s)" using assms by (auto simp: list_all_iff plain_def)
  have nt: "filter (\<lambda>p. \<not> trivial p) (parts s) = parts s"
    using assms by (auto simp: list_all_iff plain_def trivial_def filter_id_conv)
  show rel: "\<not> HasPrefix s slash"
  proof
    assume "HasPrefix s slash"
    then obtain s' where "s = CHR ''/'' # s'" by (cases s) (auto simp: HasPrefix_def slash_def)
    then have "'''' \<in> set (parts s)" by (simp add: parts_def)
    with assms show False by (auto simp: list_all_iff plain_def)
  qed
  have "s \<noteq> ''''"
    using assms by (auto simp: parts_empty plain_def)
  then show "path_Clean s = s"
    using rel by (simp add: path_Clean_def Let_def clean_parts_plain [OF up] nt Join_parts)
qed

text \<open>What the check of a link shows of its text.\<close>

definition link_fits :: "string list \<Rightarrow> string \<Rightarrow> bool" where
  "link_fits d t \<longleftrightarrow> \<not> HasPrefix t slash \<and> stays (length d) (parts t) \<and> outside_state (parts t)"

lemma path_Dir_relative:
  assumes "\<not> HasPrefix s slash"
  shows "\<not> HasPrefix (path_Dir s) slash" "path_Dir s \<noteq> ''''"
proof -
  let ?X = "rev (dropWhile (\<lambda>c. c \<noteq> CHR ''/'') (rev s))"
  have s: "s = ?X @ rev (takeWhile (\<lambda>c. c \<noteq> CHR ''/'') (rev s))"
    by (simp flip: rev_append)
  have "\<not> HasPrefix ?X slash"
  proof
    assume "HasPrefix ?X slash"
    then obtain X' where "?X = CHR ''/'' # X'" by (cases ?X) (auto simp: HasPrefix_def slash_def)
    with s have "s = CHR ''/'' # (X' @ rev (takeWhile (\<lambda>c. c \<noteq> CHR ''/'') (rev s)))" by simp
    then have "HasPrefix s slash" by (metis HasPrefix_def append_Cons append_eq_conv_conj append_Nil slash_def)
    with assms show False ..
  qed
  then show "\<not> HasPrefix (path_Dir s) slash" "path_Dir s \<noteq> ''''"
    unfolding path_Dir_def using clean_keeps_relative by blast+
qed

lemma parts_append_slash: "parts (a @ slash @ b) = parts a @ parts b"
proof -
  have "Split CHR ''/'' (a @ CHR ''/'' # b) = Split CHR ''/'' a @ Split CHR ''/'' b"
    by (induction a) (auto split: list.splits)
  then show ?thesis by (simp add: parts_def slash_def)
qed

lemma trivial_not_state: "trivial p \<Longrightarrow> \<not> is_state p" "\<not> is_state ''..''"
  by (auto simp: trivial_def is_state_def StateDir_def)

lemma joined_outside_state:
  assumes "\<not> HasPrefix d slash" "d \<noteq> ''''" "t \<noteq> ''''" "parts t = ups @ rest" "''..'' \<notin> set rest"
    and "\<not> InState (path_Join d t)"
  shows "outside_state rest"
proof -
  have rel: "\<not> HasPrefix (d @ slash @ t) slash"
    using assms(1,2) by (cases d) (auto simp: HasPrefix_def slash_def)
  have j: "path_Join d t = path_Clean (d @ slash @ t)"
    using assms(2,3) by (simp add: path_Join_def)
  let ?cs = "clean_parts False [] (parts (d @ slash @ t))"
  have "?cs = clean_parts False (rev (clean_parts False [] (parts d @ ups))) rest"
    by (simp add: parts_append_slash assms(4) flip: clean_parts_append)
  then have sub: "p \<in> set ?cs" if "p \<in> set rest" "\<not> trivial p" for p
    using that by (simp add: clean_parts_plain [OF assms(5)])
  have "outside_state ?cs"
    using clean_relative [OF rel] assms(6) by (auto simp: j InState_parts)
  then have "\<not> is_state p" if "p \<in> set rest" for p
    using sub [OF that] trivial_not_state(1) [of p] by (auto simp: outside_state_def list_all_iff)
  then show ?thesis by (simp add: outside_state_def list_all_iff)
qed

lemma check_Link_fits:
  assumes "check_Link name t = None" "list_all plain (parts name)"
  shows "link_fits (butlast (parts name)) t"
proof -
  let ?ups = "leading_ups (parts t)" and ?rest = "drop (leading_ups (parts t)) (parts t)"
  from assms(1) have t: "t \<noteq> ''''" "\<not> HasPrefix t slash" "''..'' \<notin> set ?rest"
      "?ups \<le> count_list (path_Clean name) CHR ''/''" "\<not> InState (path_Join (path_Dir name) t)"
    by (auto simp: check_Link_def link_Target_def Let_def split: if_splits sum.splits)
  have split: "parts t = replicate ?ups ''..'' @ ?rest" by (rule leading_ups_split)
  note name = plain_clean [OF assms(2)]
  have "?ups \<le> length (butlast (parts name))"
    using t(4) by (simp add: name(1) count_slash)
  then have "stays (length (butlast (parts name))) (parts t)"
    by (subst split) (rule stays_ups [OF _ t(3)])
  moreover have "outside_state ?rest"
    by (rule joined_outside_state [OF path_Dir_relative [OF name(2)] t(1) split t(3,5)])
  then have "outside_state (parts t)"
    by (subst split) (auto simp: outside_state_def trivial_not_state list_all_iff)
  ultimately show ?thesis using t(2) by (simp add: link_fits_def)
qed

section \<open>Safe trees\<close>

definition safe :: "tree \<Rightarrow> bool" where
  "safe T \<longleftrightarrow> (\<forall>p t. map_of T p = Some (SymbolicLink t) \<longrightarrow> p \<noteq> [] \<and> link_fits (butlast p) t)"

definition link_free :: "tree \<Rightarrow> bool" where
  "link_free T \<longleftrightarrow> list_all (\<lambda>(p, x). case x of SymbolicLink _ \<Rightarrow> False | _ \<Rightarrow> True) T"

lemma link_free_no_link: "link_free T \<Longrightarrow> map_of T p \<noteq> Some (SymbolicLink t)"
  by (auto simp: link_free_def list_all_iff dest!: map_of_SomeD)

lemma link_free_safe: "link_free T \<Longrightarrow> safe T"
  by (auto simp: safe_def link_free_no_link)

lemma safe_link: "safe T \<Longrightarrow> map_of T (d @ [c]) = Some (SymbolicLink t) \<Longrightarrow> link_fits d t"
  unfolding safe_def by fastforce

lemma walk_trivial: "trivial c \<Longrightarrow> follow T n cur (c # cs) = follow T n cur cs"
  by (auto simp: follow.simps(2) trivial_def)

lemma walk_up: "follow T n cur (''..'' # cs) = (if cur = [] then Escapes else follow T n (butlast cur) cs)"
  by (simp add: follow.simps(2))

lemma walk_down:
  assumes "\<not> trivial c" "c \<noteq> ''..''"
  shows "follow T n cur (c # cs) = (case map_of T (cur @ [c]) of
          None \<Rightarrow> Gone
        | Some Folder \<Rightarrow> follow T n (cur @ [c]) cs
        | Some (RegularFile _) \<Rightarrow> if cs = [] then Reached (cur @ [c]) else NotFolder
        | Some (SymbolicLink t) \<Rightarrow>
            if n = 0 then TooMany else if HasPrefix t slash then Escapes else follow T (n - 1) cur (parts t @ cs))"
  using assms by (simp add: follow.simps(2) trivial_def)

definition lands :: "walked \<Rightarrow> bool" where
  "lands w \<longleftrightarrow> (case w of Escapes \<Rightarrow> False | Reached p \<Rightarrow> outside_state p | _ \<Rightarrow> True)"

text \<open>In a safe tree a path that stays, and names no state folder, does not climb out and does not lead into the state folder.\<close>

lemma walk_lands:
  "safe T \<Longrightarrow> stays (length cur) cs \<Longrightarrow> outside_state cur \<Longrightarrow> outside_state cs \<Longrightarrow> lands (follow T n cur cs)"
proof (induction T n cur cs rule: follow.induct)
  case (1 T n cur)
  then show ?case by (simp add: lands_def)
next
  case (2 T n cur c cs)
  consider "trivial c" | "\<not> trivial c" "c = ''..''" | "\<not> trivial c" "c \<noteq> ''..''" by blast
  then show ?case
  proof cases
    case 1
    then show ?thesis using 2 by (simp add: walk_trivial trivial_def)
  next
    case a: 2
    have "outside_state (butlast cur)" using "2.prems"(3) by (rule outside_state_sub) (meson in_set_butlastD subsetI)
    with a 2 show ?thesis by (auto simp: walk_up trivial_def)
  next
    case 3
    with "2.prems"(2) have up: "''..'' \<notin> set cs" by simp
    show ?thesis
    proof (cases "map_of T (cur @ [c])")
      case None
      then show ?thesis by (simp add: walk_down [OF 3] lands_def)
    next
      case (Some x)
      show ?thesis
      proof (cases x)
        case Folder
        with 2 3 Some show ?thesis by (simp add: walk_down [OF 3] stays_plain [OF up] trivial_def)
      next
        case (RegularFile d)
        with 2 Some show ?thesis by (auto simp: walk_down [OF 3] lands_def)
      next
        case (SymbolicLink t)
        then have "link_fits cur t" using safe_link "2.prems"(1) Some by blast
        then have f: "\<not> HasPrefix t slash" "stays (length cur) (parts t @ cs)" "outside_state (parts t @ cs)"
          using stays_append [OF _ up] "2.prems"(2,4) by (auto simp: link_fits_def)
        show ?thesis
          using "2.IH"(4) [OF _ _ Some _ _ f(1)] 3 SymbolicLink f 2 Some by (simp add: walk_down [OF 3] lands_def trivial_def)
      qed
    qed
  qed
qed

section \<open>What the operations add\<close>

text \<open>A tree grows outside the state folder: nothing in it changes, and what is new is not in a state folder.\<close>

definition tree_grows :: "tree \<Rightarrow> tree \<Rightarrow> bool" where
  "tree_grows T T' \<longleftrightarrow> map_of T \<subseteq>\<^sub>m map_of T' \<and> (\<forall>p \<in> dom (map_of T') - dom (map_of T). outside_state p)"

lemma tree_grows_refl [simp]: "tree_grows T T"
  by (simp add: tree_grows_def)

lemma tree_grows_trans [trans]: "tree_grows T1 T2 \<Longrightarrow> tree_grows T2 T3 \<Longrightarrow> tree_grows T1 T3"
  unfolding tree_grows_def by (blast intro: map_le_trans)

lemma tree_grows_Cons: "map_of T p = None \<Longrightarrow> outside_state p \<Longrightarrow> tree_grows T ((p, x) # T)"
  by (auto simp: tree_grows_def map_le_def)

lemma safe_Cons: "safe T \<Longrightarrow> (\<And>t. x = SymbolicLink t \<Longrightarrow> p \<noteq> [] \<and> link_fits (butlast p) t) \<Longrightarrow> safe ((p, x) # T)"
  by (auto simp: safe_def)

lemma link_free_Cons: "link_free ((p, x) # T) \<longleftrightarrow> (\<forall>t. x \<noteq> SymbolicLink t) \<and> link_free T"
  by (cases x) (auto simp: link_free_def)

lemma root_MkdirAll_grows:
  assumes "root_MkdirAll n cur cs T = (ok, T')" "safe T" "stays (length cur) cs" "outside_state cur" "outside_state cs"
  shows "tree_grows T T' \<and> safe T' \<and> (link_free T \<longrightarrow> link_free T')"
  using assms
proof (induction n cur cs T rule: root_MkdirAll.induct)
  case (1 n cur T)
  then show ?case by simp
next
  case (2 n cur c cs T)
  consider "trivial c" | "\<not> trivial c" "c = ''..''" | "\<not> trivial c" "c \<noteq> ''..''" by blast
  then show ?case
  proof cases
    case 1
    then show ?thesis using 2 by (simp add: root_MkdirAll.simps(2) trivial_def)
  next
    case a: 2
    have "outside_state (butlast cur)" using "2.prems"(4) by (rule outside_state_sub) (meson in_set_butlastD subsetI)
    with a 2 show ?thesis by (auto simp: root_MkdirAll.simps(2) trivial_def split: if_splits)
  next
    case 3
    with "2.prems"(3) have up: "''..'' \<notin> set cs" by simp
    then have st: "stays d cs" for d by (rule stays_plain)
    have c: "outside_state (cur @ [c])" "outside_state cs" using "2.prems"(4,5) by auto
    show ?thesis
    proof (cases "map_of T (cur @ [c])")
      case None
      have s: "safe ((cur @ [c], Folder) # T)" using "2.prems"(2) by (rule safe_Cons) simp
      have g: "tree_grows T ((cur @ [c], Folder) # T)" using None c(1) by (rule tree_grows_Cons)
      have r: "root_MkdirAll n (cur @ [c]) cs ((cur @ [c], Folder) # T) = (ok, T')"
        using "2.prems"(1) 3 None by (simp add: root_MkdirAll.simps(2) trivial_def)
      have "tree_grows ((cur @ [c], Folder) # T) T' \<and> safe T' \<and> (link_free ((cur @ [c], Folder) # T) \<longrightarrow> link_free T')"
        using "2.IH"(3) [OF _ _ None r s] 3 st c by (simp add: trivial_def)
      with g show ?thesis by (simp add: link_free_Cons) (blast intro: tree_grows_trans)
    next
      case (Some x)
      show ?thesis
      proof (cases x)
        case Folder
        with 2 3 Some st c show ?thesis by (simp add: root_MkdirAll.simps(2) trivial_def)
      next
        case (RegularFile d)
        with 2 3 Some show ?thesis by (simp add: root_MkdirAll.simps(2) trivial_def)
      next
        case (SymbolicLink t)
        then have "link_fits cur t" using safe_link "2.prems"(2) Some by blast
        then have f: "\<not> HasPrefix t slash" "stays (length cur) (parts t @ cs)" "outside_state (parts t @ cs)"
          using stays_append [OF _ up] c(2) by (auto simp: link_fits_def)
        show ?thesis
        proof (cases n)
          case 0
          with "2.prems"(1) 3 Some SymbolicLink f(1) "2.prems"(2) show ?thesis by (simp add: root_MkdirAll.simps(2) trivial_def)
        next
          case (Suc n')
          then have r: "root_MkdirAll (n - 1) cur (parts t @ cs) T = (ok, T')"
            using "2.prems"(1) 3 Some SymbolicLink f(1) by (simp add: root_MkdirAll.simps(2) trivial_def)
          show ?thesis
            using "2.IH"(5) [OF _ _ Some SymbolicLink _ f(1) r] 3 Suc f "2.prems"(2,4) by (simp add: trivial_def)
        qed
      qed
    qed
  qed
qed

definition good_name :: "string \<Rightarrow> bool" where
  "good_name name \<longleftrightarrow> list_all plain (parts name) \<and> outside_state (parts name)"

lemma plain_no_up: "list_all plain ps \<Longrightarrow> ''..'' \<notin> set ps"
  by (auto simp: list_all_iff plain_def)

lemma HasPrefix_append: "HasPrefix s p \<Longrightarrow> HasPrefix (s @ t) p"
  by (metis HasPrefix_def append_assoc append_eq_conv_conj append_take_drop_id)

lemma path_Dir_parts:
  assumes "list_all plain (parts name)"
  shows "(path_Dir name = ''.'' \<and> butlast (parts name) = []) \<or> parts (path_Dir name) = butlast (parts name)"
proof -
  let ?X = "rev (dropWhile (\<lambda>c. c \<noteq> CHR ''/'') (rev name))" and ?w = "rev (takeWhile (\<lambda>c. c \<noteq> CHR ''/'') (rev name))"
  have nm: "name = ?X @ ?w" by (simp flip: rev_append)
  have w: "CHR ''/'' \<notin> set ?w" using set_takeWhileD by fastforce
  show ?thesis
  proof (cases "dropWhile (\<lambda>c. c \<noteq> CHR ''/'') (rev name)")
    case Nil
    have "?w = name" using nm unfolding Nil by simp
    with w have "parts name = [name]" by (simp add: parts_def Split_self)
    moreover have "path_Dir name = ''.''" by (simp add: path_Dir_def Nil path_Clean_def parts_def HasPrefix_def slash_def)
    ultimately show ?thesis by simp
  next
    case (Cons a X')
    then have a: "a = CHR ''/''" by (metis (mono_tags) dropWhile_eq_Cons_conv)
    have X: "?X = rev X' @ slash" by (simp add: Cons a slash_def)
    have "parts name = parts (rev X' @ slash @ ?w)" using nm X by simp
    also have "\<dots> = parts (rev X') @ [?w]"
      using w by (simp only: parts_append_slash) (simp add: parts_def Split_self)
    finally have b: "butlast (parts name) = parts (rev X')" by simp
    then have pl: "list_all plain (parts (rev X'))" using assms by (metis append_butlast_last_id list_all_append parts_nonempty)
    have "parts (rev X' @ slash) = parts (rev X') @ ['''']" using parts_append_slash [of "rev X'" "''''"] by (simp add: parts_empty)
    moreover have "clean_parts False [] (parts (rev X') @ ['''']) = parts (rev X')"
      using pl plain_no_up [OF pl] by (subst clean_parts_plain) (auto simp: trivial_def filter_id_conv list_all_iff plain_def)
    moreover have "\<not> HasPrefix (rev X' @ slash) slash"
    proof
      assume "HasPrefix (rev X' @ slash) slash"
      then have "HasPrefix ((rev X' @ slash) @ ?w) slash" by (rule HasPrefix_append)
      then have "HasPrefix name slash" using nm X by simp
      with plain_clean(2) [OF assms] show False ..
    qed
    ultimately show ?thesis
      using clean_relative [of "rev X' @ slash"] b by (simp add: path_Dir_def X)
  qed
qed

lemma mkdirAll_grows:
  assumes "mkdirAll n name T = (err, T')" "safe T" "name = ''.'' \<or> (''..'' \<notin> set (parts name) \<and> outside_state (parts name))"
  shows "tree_grows T T' \<and> safe T' \<and> (link_free T \<longrightarrow> link_free T')"
  using assms root_MkdirAll_grows [of n "[]" "parts name" T _ T']
  by (auto simp: mkdirAll_def stays_plain split: if_splits prod.splits bool.splits)

lemma mkdirAll_Dir_grows:
  assumes "mkdirAll n (path_Dir name) T = (err, T')" "safe T" "good_name name"
  shows "tree_grows T T' \<and> safe T' \<and> (link_free T \<longrightarrow> link_free T')"
proof -
  from assms(3) have pl: "list_all plain (parts name)" and os: "outside_state (parts name)" by (simp_all add: good_name_def)
  have sub: "set (butlast (parts name)) \<subseteq> set (parts name)" by (meson in_set_butlastD subsetI)
  then have "''..'' \<notin> set (butlast (parts name))" "outside_state (butlast (parts name))"
    using plain_no_up [OF pl] outside_state_sub [OF os sub] by auto
  with path_Dir_parts [OF pl] show ?thesis
    using mkdirAll_grows [OF assms(1,2)] by auto
qed

lemma place_outside:
  assumes "place T n name = Some p" "safe T" "good_name name"
  shows "outside_state p"
proof -
  from assms(1) obtain d where d: "follow T n [] (butlast (parts name)) = Reached d" "p = d @ [last (parts name)]"
    by (auto simp: place_def split: walked.splits if_splits)
  have sub: "set (butlast (parts name)) \<subseteq> set (parts name)" by (meson in_set_butlastD subsetI)
  from assms(3) have os: "outside_state (parts name)" and up: "''..'' \<notin> set (parts name)"
    by (simp_all add: good_name_def plain_no_up)
  then have "lands (follow T n [] (butlast (parts name)))"
    using sub by (intro walk_lands [OF assms(2)] stays_plain outside_state_sub [OF os sub]) auto
  moreover have "\<not> is_state (last (parts name))"
    using os by (simp add: outside_state_def list_all_iff)
  ultimately show ?thesis using d by (simp add: lands_def)
qed

lemma root_create_grows:
  assumes "root_create n name x T = (ok, T')" "safe T" "good_name name"
  shows "tree_grows T T'"
  using assms by (auto simp: root_create_def place_outside intro!: tree_grows_Cons split: option.splits if_splits)

lemma root_create_file:
  assumes "root_create n name (RegularFile data0) T = (ok, T')"
  shows "(safe T \<longrightarrow> safe T') \<and> (link_free T \<longrightarrow> link_free T')"
  using assms by (auto simp: root_create_def link_free_Cons intro!: safe_Cons split: option.splits if_splits)

lemma writeFile_grows:
  assumes "writeFile n name data0 size0 T = (err, T')" "safe T" "good_name name"
  shows "tree_grows T T' \<and> safe T' \<and> (link_free T \<longrightarrow> link_free T')"
proof -
  obtain err1 T1 where m: "mkdirAll n (path_Dir name) T = (err1, T1)" by (metis prod.exhaust)
  note g1 = mkdirAll_Dir_grows [OF m assms(2,3)]
  show ?thesis
  proof (cases err1)
    case None
    obtain ok T2 where c: "root_create n name (RegularFile (take (nat size0) data0)) T1 = (ok, T2)" by (metis prod.exhaust)
    have "T' = T2" using assms(1) m None c by (cases ok) (simp_all add: writeFile_def)
    then show ?thesis
      using g1 root_create_grows [OF c _ assms(3)] root_create_file [OF c] tree_grows_trans by blast
  qed (use assms(1) m g1 in \<open>simp add: writeFile_def\<close>)
qed

section \<open>Reading the archive\<close>

definition taken_ok :: "unpacking \<Rightarrow> bool" where
  "taken_ok u \<longleftrightarrow> link_free (tree_of u) \<and> list_all (\<lambda>(name, _). good_name name) (hardLinks u) \<and>
     list_all (\<lambda>(name, t). good_name name \<and> check_Link name t = None) (symbolLinks u)"

lemma entry_good: "entry_Name s = Inr c \<Longrightarrow> c \<noteq> ''.'' \<Longrightarrow> \<not> InState c \<Longrightarrow> good_name c"
  by (simp add: good_name_def InState_parts entry_Name_plain)

lemma good_name_made: "good_name c \<Longrightarrow> c = ''.'' \<or> (''..'' \<notin> set (parts c) \<and> outside_state (parts c))"
  by (simp add: good_name_def plain_no_up)

lemma take_entry_grows:
  assumes "take_entry n lim ctx h u = (err, u')" "taken_ok u"
  shows "tree_grows (tree_of u) (tree_of u') \<and> taken_ok u'"
proof -
  have lf: "link_free (tree_of u)" and sf: "safe (tree_of u)"
    using assms(2) by (simp_all add: taken_ok_def link_free_safe)
  show ?thesis
    using assms lf
    by (auto simp: take_entry_def Let_def taken_ok_def entry_good split: option.splits sum.splits if_splits prod.splits
        dest!: mkdirAll_grows [OF _ sf good_name_made [OF entry_good]] writeFile_grows [OF _ sf entry_good])
qed

lemma take_entries_grows:
  "take_entries n lim ctx hs broken u = (err, u') \<Longrightarrow> taken_ok u \<Longrightarrow> tree_grows (tree_of u) (tree_of u') \<and> taken_ok u'"
proof (induction hs arbitrary: u)
  case Nil
  then show ?case by simp
next
  case (Cons h hs)
  obtain e1 u1 where h: "take_entry n lim ctx h u = (e1, u1)" by (metis prod.exhaust)
  note g = take_entry_grows [OF h Cons.prems(2)]
  show ?case
  proof (cases e1)
    case None
    with Cons.prems(1) h have "take_entries n lim ctx hs broken u1 = (err, u')" by simp
    with Cons.IH g show ?thesis using tree_grows_trans by blast
  qed (use Cons.prems(1) h g in simp)
qed

section \<open>Links made after every file\<close>

lemma set_above: "set (above ps) = {take i ps | i. 0 < i \<and> i < length ps}"
proof (induction ps)
  case (Cons p ps)
  have "{take i (p # ps) | i. 0 < i \<and> i < length (p # ps)} = (\<lambda>j. p # take j ps) ` {j. j < length ps}"
    by (force simp: take_Cons' gr0_conv_Suc image_iff)
  also have "\<dots> = (#) p ` {take j ps | j. 0 < j \<and> j < length ps} \<union> (if ps = [] then {} else {[p]})"
    by (auto simp: image_iff)
  finally show ?case using Cons by simp
qed simp

lemma walk_folders:
  assumes "list_all plain ps" "\<And>j. 0 < j \<Longrightarrow> j \<le> length ps \<Longrightarrow> map_of T (cur @ take j ps) = Some Folder"
  shows "follow T n cur ps = Reached (cur @ ps)"
  using assms
proof (induction ps arbitrary: cur)
  case (Cons p ps)
  have "map_of T (cur @ [p]) = Some Folder" using Cons.prems(2) [of 1] by simp
  moreover have "\<not> trivial p" "p \<noteq> ''..''" using Cons.prems(1) by (auto simp: plain_def trivial_def)
  moreover have "map_of T ((cur @ [p]) @ take j ps) = Some Folder" if "0 < j" "j \<le> length ps" for j
    using Cons.prems(2) [of "Suc j"] that by simp
  ultimately show ?case
    using Cons.IH [of "cur @ [p]"] Cons.prems(1) by (simp add: walk_down)
qed simp

lemma walk_take:
  assumes "list_all plain ps" "k \<le> length ps" "\<And>j. 0 < j \<Longrightarrow> j \<le> k \<Longrightarrow> map_of T (take j ps) = Some Folder"
  shows "follow T n [] (take k ps) = Reached (take k ps)"
proof -
  have "list_all plain (take k ps)" using assms(1) by (auto simp: list_all_iff dest: in_set_takeD)
  moreover have "map_of T ([] @ take j (take k ps)) = Some Folder" if "0 < j" "j \<le> length (take k ps)" for j
    using assms(2) assms(3) [of j] that by (simp add: min_absorb1)
  ultimately show ?thesis using walk_folders [of "take k ps" T "[]" n] by simp
qed

lemma Lstat_place: "root_Lstat T n name = Some x \<Longrightarrow> place T n name = Some p \<Longrightarrow> map_of T p = Some x"
  by (simp add: root_Lstat_def)

lemma folders_above:
  assumes pl: "list_all plain ps" and above: "\<And>i. 0 < i \<Longrightarrow> i < length ps \<Longrightarrow> root_Lstat T n (Join (take i ps) slash) = Some Folder"
  shows "k < length ps \<Longrightarrow> 0 < k \<Longrightarrow> map_of T (take k ps) = Some Folder"
proof (induction k rule: less_induct)
  case (less k)
  have w: "follow T n [] (take (k - 1) ps) = Reached (take (k - 1) ps)"
    using less by (intro walk_take [OF pl]) simp_all
  have f: "is_folder T (take (k - 1) ps)"
    using less.IH [of "k - 1"] less.prems by (cases "k = 1") (auto simp: is_folder_def)
  have tk: "take k ps = take (k - 1) ps @ [ps ! (k - 1)]"
    using less.prems take_Suc_conv_app_nth [of "k - 1" ps] by simp
  have bl: "butlast (take k ps) = take (k - 1) ps" "last (take k ps) = ps ! (k - 1)"
    by (subst tk, simp)+
  have "parts (Join (take k ps) slash) = take k ps"
  proof (rule parts_Join)
    show "take k ps \<noteq> []" using less.prems by auto
    show "list_all (\<lambda>p. CHR ''/'' \<notin> set p) (take k ps)"
      using pl unfolding list_all_iff plain_def by (blast dest: in_set_takeD)
  qed
  then have "place T n (Join (take k ps) slash) = Some (take (k - 1) ps @ [ps ! (k - 1)])"
    unfolding place_def by (simp only: bl w walked.simps f if_True)
  then have "place T n (Join (take k ps) slash) = Some (take k ps)" by (simp only: tk)
  with above [OF less.prems(2,1)] show ?case by (rule Lstat_place)
qed

lemma noLinkAbove_place:
  assumes "noLinkAbove T n name = None" "list_all plain (parts name)"
  shows "place T n name = Some (parts name)"
proof -
  let ?ps = "parts name"
  have "find (\<lambda>d. root_Lstat T n (Join d slash) \<noteq> Some Folder) (above ?ps) = None"
    using assms(1) by (auto simp: noLinkAbove_def split: option.splits)
  then have none: "\<And>d. d \<in> set (above ?ps) \<Longrightarrow> root_Lstat T n (Join d slash) = Some Folder"
    unfolding find_None_iff by blast
  have "root_Lstat T n (Join (take i ?ps) slash) = Some Folder" if "0 < i" "i < length ?ps" for i
    by (rule none) (use that set_above in blast)
  note f = folders_above [OF assms(2) this]
  have bl: "butlast ?ps = take (length ?ps - 1) ?ps" by (rule butlast_conv_take)
  have "follow T n [] (take (length ?ps - 1) ?ps) = Reached (take (length ?ps - 1) ?ps)"
    by (intro walk_take [OF assms(2)] f) simp_all
  then have "follow T n [] (butlast ?ps) = Reached (butlast ?ps)" by (simp add: bl)
  moreover have "is_folder T (butlast ?ps)"
    using f [of "length ?ps - 1"] by (cases "length ?ps \<le> 1") (auto simp: is_folder_def bl)
  ultimately show ?thesis by (simp add: place_def)
qed

lemma make_hard_grows:
  assumes "make_hard n (name, target) T = (err, T')" "link_free T" "good_name name"
  shows "tree_grows T T' \<and> link_free T'"
proof -
  obtain err1 T1 where m: "mkdirAll n (path_Dir name) T = (err1, T1)" by (metis prod.exhaust)
  note g1 = mkdirAll_Dir_grows [OF m link_free_safe [OF assms(2)] assms(3)]
  show ?thesis
  proof (cases "\<exists>d. \<not> InState target \<and> root_Lstat T n target = Some (RegularFile d) \<and> err1 = None")
    case True
    then obtain d where d: "\<not> InState target" "root_Lstat T n target = Some (RegularFile d)" "err1 = None" by blast
    obtain ok T2 where c: "root_create n name (RegularFile d) T1 = (ok, T2)" by (metis prod.exhaust)
    have "T' = T2" using assms(1) m d c by (cases ok) (simp_all add: make_hard_def)
    then show ?thesis
      using g1 root_create_grows [OF c _ assms(3)] root_create_file [OF c] assms(2) tree_grows_trans by blast
  next
    case False
    then have "T' = T \<or> T' = T1"
      using assms(1) m by (auto simp: make_hard_def split: if_splits option.splits node.splits)
    with g1 assms(2) show ?thesis by auto
  qed
qed

lemma make_symbolic_grows:
  assumes "make_symbolic n (name, target) T = (err, T')" "safe T" "good_name name" "check_Link name target = None"
  shows "tree_grows T T' \<and> safe T'"
proof -
  obtain err1 T1 where m: "mkdirAll n (path_Dir name) T = (err1, T1)" by (metis prod.exhaust)
  note g1 = mkdirAll_Dir_grows [OF m assms(2,3)]
  have pl: "list_all plain (parts name)" using assms(3) by (simp add: good_name_def)
  show ?thesis
  proof (cases "err1 = None \<and> noLinkAbove T1 n name = None")
    case True
    obtain ok T2 where c: "root_create n name (SymbolicLink target) T1 = (ok, T2)" by (metis prod.exhaust)
    have T2: "T' = T2" using assms(1) m True c by (cases ok) (simp_all add: make_symbolic_def)
    have "safe T2"
      using c g1 noLinkAbove_place [OF _ pl] True check_Link_fits [OF assms(4) pl]
      by (auto simp: root_create_def intro!: safe_Cons split: if_splits)
    then show ?thesis
      using g1 root_create_grows [OF c _ assms(3)] T2 tree_grows_trans by blast
  next
    case False
    then have "T' = T1" using assms(1) m by (auto simp: make_symbolic_def split: option.splits)
    with g1 show ?thesis by simp
  qed
qed

lemma make_each_keeps:
  assumes "make_each f xs T = (err, T')" "P T" "list_all Q xs"
    and step: "\<And>x T err T'. f x T = (err, T') \<Longrightarrow> P T \<Longrightarrow> Q x \<Longrightarrow> tree_grows T T' \<and> P T'"
  shows "tree_grows T T' \<and> P T'"
  using assms(1-3)
proof (induction xs arbitrary: T)
  case (Cons x xs)
  obtain e1 T1 where x: "f x T = (e1, T1)" by (metis prod.exhaust)
  have g: "tree_grows T T1 \<and> P T1" using step [OF x Cons.prems(2)] Cons.prems(3) by simp
  show ?case
  proof (cases e1)
    case None
    with Cons.prems(1) x have "make_each f xs T1 = (err, T')" by simp
    with Cons.IH [OF this] g Cons.prems(3) show ?thesis using tree_grows_trans by auto
  qed (use Cons.prems(1) x g in simp)
qed simp

lemma Unpack_grows:
  assumes "link_free T"
  shows "tree_grows T (snd (Unpack n ctx hs broken T lim own)) \<and> safe (snd (Unpack n ctx hs broken T lim own))"
proof -
  let ?u0 = "\<lparr>stats = \<lparr>st_Entries = 0, st_Bytes = 0\<rparr>, dirs = [], files = [], hardLinks = [], symbolLinks = [], tree_of = T\<rparr>"
  obtain e0 u where t: "take_entries n lim ctx hs broken ?u0 = (e0, u)" by (metis prod.exhaust)
  have g0: "tree_grows T (tree_of u) \<and> taken_ok u"
    using take_entries_grows [OF t] assms by (simp add: taken_ok_def)
  then have s0: "link_free (tree_of u)" "safe (tree_of u)" by (simp_all add: taken_ok_def link_free_safe)
  obtain e1 T1 where h: "make_each (make_hard n) (hardLinks u) (tree_of u) = (e1, T1)" by (metis prod.exhaust)
  have "tree_grows (tree_of u) T1 \<and> link_free T1"
    by (rule make_each_keeps [where P = link_free and Q = "\<lambda>(name, _). good_name name", OF h s0(1)])
      (use g0 make_hard_grows in \<open>auto simp: taken_ok_def\<close>)
  then have g1: "tree_grows T T1 \<and> safe T1" using g0 tree_grows_trans link_free_safe by blast
  obtain e2 T2 where y: "make_each (make_symbolic n) (symbolLinks u) T1 = (e2, T2)" by (metis prod.exhaust)
  have "tree_grows T1 T2 \<and> safe T2"
    by (rule make_each_keeps [where P = safe and Q = "\<lambda>(name, t). good_name name \<and> check_Link name t = None", OF y])
      (use g0 g1 make_symbolic_grows in \<open>auto simp: taken_ok_def\<close>)
  then have g2: "tree_grows T T2 \<and> safe T2" using g1 tree_grows_trans by blast
  show ?thesis
    using g0 s0(2) g1 g2 by (auto simp: Unpack_def t h y split: option.splits)
qed

section \<open>What an archive holds is in the folder\<close>

lemma walk_link_free:
  "link_free T \<Longrightarrow> list_all plain cs \<Longrightarrow> follow T n cur cs = Reached p \<Longrightarrow> p = cur @ cs"
proof (induction cs arbitrary: cur)
  case (Cons c cs)
  have c: "\<not> trivial c" "c \<noteq> ''..''" using Cons.prems(2) by (auto simp: plain_def trivial_def)
  show ?case
    using Cons.prems Cons.IH [of "cur @ [c]"] link_free_no_link [OF Cons.prems(1), of "cur @ [c]"]
    by (auto simp: walk_down [OF c] split: option.splits node.splits if_splits)
qed simp

lemma place_link_free:
  assumes "place T n name = Some p" "link_free T" "list_all plain (parts name)"
  shows "p = parts name"
proof -
  from assms(1) obtain d where d: "follow T n [] (butlast (parts name)) = Reached d" "p = d @ [last (parts name)]"
    by (auto simp: place_def split: walked.splits if_splits)
  have "list_all plain (butlast (parts name))" using assms(3) by (auto simp: list_all_iff dest: in_set_butlastD)
  then have "d = butlast (parts name)" using walk_link_free [OF assms(2) _ d(1)] by simp
  with d(2) show ?thesis by simp
qed

lemma root_MkdirAll_made:
  assumes "root_MkdirAll n cur cs T = (True, T')" "link_free T" "list_all plain cs" "cs \<noteq> [] \<or> is_folder T cur"
  shows "is_folder T' (cur @ cs)"
  using assms
proof (induction cs arbitrary: cur T)
  case (Cons c cs)
  have c: "c \<noteq> ''''" "c \<noteq> ''.''" "c \<noteq> ''..''" using Cons.prems(3) by (auto simp: plain_def)
  show ?case
  proof (cases "map_of T (cur @ [c])")
    case None
    with Cons.prems c have "root_MkdirAll n (cur @ [c]) cs ((cur @ [c], Folder) # T) = (True, T')"
      by (simp add: root_MkdirAll.simps(2))
    from Cons.IH [OF this] Cons.prems(2,3) show ?thesis by (simp add: link_free_Cons is_folder_def)
  next
    case (Some x)
    with link_free_no_link [OF Cons.prems(2)] Cons.prems c have "x = Folder" "root_MkdirAll n (cur @ [c]) cs T = (True, T')"
      by (cases x; force simp: root_MkdirAll.simps(2))+
    from Cons.IH [OF this(2)] Cons.prems(2,3) Some this(1) show ?thesis by (simp add: is_folder_def)
  qed
qed simp

lemma tree_grows_keeps: "tree_grows T T' \<Longrightarrow> map_of T p = Some x \<Longrightarrow> map_of T' p = Some x"
  unfolding tree_grows_def map_le_def by (metis domI)

text \<open>What one entry puts where its name says.\<close>

definition node_listed :: "TarHeader \<Rightarrow> node option" where
  "node_listed h = (if h_Typeflag h = TypeDir then Some Folder
     else if h_Typeflag h = TypeReg \<or> h_Typeflag h = CHR 0x00 then Some (RegularFile (take (nat (h_Size h)) (h_Data h)))
     else None)"

lemma take_entry_listed:
  assumes "take_entry n lim ctx h u = (None, u')" "taken_ok u" "entry_Name (h_Name h) = Inr name" "name \<noteq> ''.''" "node_listed h = Some x"
  shows "map_of (tree_of u') (parts name) = Some x"
proof -
  have lf: "link_free (tree_of u)" using assms(2) by (simp add: taken_ok_def)
  have ns: "\<not> InState name" using assms(1,3,4) by (auto simp: take_entry_def Let_def split: option.splits if_splits)
  note good = entry_good [OF assms(3,4) ns]
  then have pl: "list_all plain (parts name)" by (simp add: good_name_def)
  consider "h_Typeflag h = TypeDir" "x = Folder"
    | "h_Typeflag h \<noteq> TypeDir" "h_Typeflag h = TypeReg \<or> h_Typeflag h = CHR 0x00" "x = RegularFile (take (nat (h_Size h)) (h_Data h))"
    using assms(5) by (auto simp: node_listed_def split: if_splits)
  then show ?thesis
  proof cases
    case 1
    then have "mkdirAll n name (tree_of u) = (None, tree_of u')"
      using assms(1,3,4) ns by (auto simp: take_entry_def Let_def split: option.splits if_splits prod.splits)
    moreover have "name \<noteq> ''''" using pl by (auto simp: parts_empty plain_def)
    ultimately have "root_MkdirAll n [] (parts name) (tree_of u) = (True, tree_of u')"
      using assms(4) by (auto simp: mkdirAll_def split: prod.splits bool.splits)
    from root_MkdirAll_made [OF this lf pl] 1 show ?thesis by (simp add: is_folder_def)
  next
    case 2
    have "TypeReg \<noteq> TypeDir" "CHR 0x00 \<noteq> TypeDir" by (simp_all add: TypeReg_def TypeDir_def)
    with 2 have w: "writeFile n name (h_Data h) (h_Size h) (tree_of u) = (None, tree_of u')"
      using assms(1,3,4) ns by (auto simp: take_entry_def Let_def split: option.splits if_splits prod.splits)
    then obtain T1 where m: "mkdirAll n (path_Dir name) (tree_of u) = (None, T1)" and c: "root_create n name x T1 = (True, tree_of u')"
      using 2 by (auto simp: writeFile_def split: prod.splits option.splits bool.splits if_splits)
    have "link_free T1" using mkdirAll_Dir_grows [OF m link_free_safe [OF lf] good] lf by simp
    moreover from c obtain p where "place T1 n name = Some p" "tree_of u' = (p, x) # T1"
      by (auto simp: root_create_def split: option.splits if_splits)
    ultimately show ?thesis using place_link_free [OF _ _ pl] by simp
  qed
qed

lemma take_entries_listed:
  assumes "take_entries n lim ctx hs broken u = (None, u')" "taken_ok u" "h \<in> set hs"
    and "entry_Name (h_Name h) = Inr name" "name \<noteq> ''.''" "node_listed h = Some x"
  shows "map_of (tree_of u') (parts name) = Some x"
  using assms(1-3)
proof (induction hs arbitrary: u)
  case (Cons h' hs)
  from Cons.prems(1) obtain u1 where h': "take_entry n lim ctx h' u = (None, u1)" and r: "take_entries n lim ctx hs broken u1 = (None, u')"
    by (auto split: prod.splits option.splits)
  note g = take_entry_grows [OF h' Cons.prems(2)]
  show ?case
  proof (cases "h = h'")
    case True
    with take_entry_listed [OF h' Cons.prems(2)] assms(4-6) have "map_of (tree_of u1) (parts name) = Some x" by simp
    then show ?thesis using take_entries_grows [OF r] g tree_grows_keeps by blast
  next
    case False
    with Cons.IH [OF r] g Cons.prems(3) show ?thesis by simp
  qed
qed simp

lemma Unpack_entries:
  assumes "Unpack n ctx hs broken T lim own = ((st, None), T')" "link_free T"
  obtains u where "take_entries n lim ctx hs broken
      \<lparr>stats = \<lparr>st_Entries = 0, st_Bytes = 0\<rparr>, dirs = [], files = [], hardLinks = [], symbolLinks = [], tree_of = T\<rparr> = (None, u)"
    "taken_ok u" "tree_grows (tree_of u) T'"
proof -
  let ?u0 = "\<lparr>stats = \<lparr>st_Entries = 0, st_Bytes = 0\<rparr>, dirs = [], files = [], hardLinks = [], symbolLinks = [], tree_of = T\<rparr>"
  from assms(1) obtain u T1 where t: "take_entries n lim ctx hs broken ?u0 = (None, u)"
      and h: "make_each (make_hard n) (hardLinks u) (tree_of u) = (None, T1)" and y: "make_each (make_symbolic n) (symbolLinks u) T1 = (None, T')"
    by (auto simp: Unpack_def split: prod.splits option.splits)
  have u: "taken_ok u" using take_entries_grows [OF t] assms(2) by (simp add: taken_ok_def)
  then have "link_free (tree_of u)" by (simp add: taken_ok_def)
  then have g1: "tree_grows (tree_of u) T1 \<and> link_free T1"
    by (intro make_each_keeps [where P = link_free and Q = "\<lambda>(name, _). good_name name", OF h])
      (use u make_hard_grows in \<open>auto simp: taken_ok_def\<close>)
  have "tree_grows T1 T' \<and> safe T'"
    by (rule make_each_keeps [where P = safe and Q = "\<lambda>(name, t). good_name name \<and> check_Link name t = None", OF y])
      (use u g1 link_free_safe make_symbolic_grows in \<open>auto simp: taken_ok_def\<close>)
  with g1 that [OF t u] show thesis using tree_grows_trans by blast
qed

section \<open>Properties\<close>

text \<open>
  C28: Whatever archive is unpacked into a folder without links, and however far unpacking gets, no path in the folder
  leads out of it or into Abhed's state afterwards, through however many of the links the archive made, as long as the
  path itself neither climbs nor names the state.
\<close>

theorem nothing_unpacked_leads_out:
  assumes "link_free T" "''..'' \<notin> set path" "outside_state path"
  shows "lands (follow (snd (Unpack n ctx hs broken T lim own)) m [] path)"
  using Unpack_grows [OF assms(1)] assms(2,3) by (intro walk_lands stays_plain) auto

text \<open>
  Unpacking only adds: what the folder held stays as it was, and nothing is made in Abhed's state.
\<close>

theorem unpacking_only_adds:
  assumes "link_free T"
  shows "map_of T \<subseteq>\<^sub>m map_of (snd (Unpack n ctx hs broken T lim own)) \<and>
     dom (map_of (snd (Unpack n ctx hs broken T lim own))) - dom (map_of T) \<subseteq> {p. outside_state p}"
  using Unpack_grows [OF assms, of n ctx hs broken lim own] unfolding tree_grows_def by blast

text \<open>
  When an archive is unpacked without an error, every folder and every regular file it lists is in the folder under
  the name it has in the archive, a file with the archive's data.
\<close>

theorem unpacked_as_listed:
  assumes "Unpack n ctx hs broken T lim own = ((st, None), T')" "link_free T" "h \<in> set hs"
    and "entry_Name (h_Name h) = Inr name" "name \<noteq> ''.''" "node_listed h = Some x"
  shows "map_of T' (parts name) = Some x"
  using assms(1,2)
proof (rule Unpack_entries)
  fix u
  assume u: "take_entries n lim ctx hs broken
      \<lparr>stats = \<lparr>st_Entries = 0, st_Bytes = 0\<rparr>, dirs = [], files = [], hardLinks = [], symbolLinks = [], tree_of = T\<rparr> = (None, u)"
    "tree_grows (tree_of u) T'"
  have "map_of (tree_of u) (parts name) = Some x"
    using take_entries_listed [OF u(1) _ assms(3-6)] assms(2) by (simp add: taken_ok_def)
  then show ?thesis by (rule tree_grows_keeps [OF u(2)])
qed

section \<open>One archive\<close>

definition sample_file :: TarHeader where
  "sample_file = \<lparr>h_Name = ''d/f'', h_Typeflag = TypeReg, h_Linkname = '''', h_Size = 2, h_Data = ''hi''\<rparr>"

definition sample_archive :: "TarHeader list" where
  "sample_archive = [\<lparr>h_Name = ''d/'', h_Typeflag = TypeDir, h_Linkname = '''', h_Size = 0, h_Data = ''''\<rparr>, sample_file,
     \<lparr>h_Name = ''d/l'', h_Typeflag = TypeSymlink, h_Linkname = ''../d/f'', h_Size = 0, h_Data = ''''\<rparr>]"

definition sample_limits :: ArchiveLimits where
  "sample_limits = \<lparr>lim_Entries = 10, lim_Bytes = 100\<rparr>"

definition sample_unpacked :: "(Stats \<times> gerror option) \<times> tree" where
  "sample_unpacked = Unpack 8 (\<lambda>_. None) sample_archive False [] sample_limits None"

lemma sample_unpacked_ok: "snd (fst sample_unpacked) = None"
  by code_simp

theorem nothing_unpacked_leads_out_witness: "lands (follow (snd sample_unpacked) 8 [] [''d'', ''l''])"
  unfolding sample_unpacked_def
  by (rule nothing_unpacked_leads_out) (simp_all add: link_free_def is_state_def StateDir_def)

theorem unpacking_only_adds_witness: "map_of [([''x''], Folder)] \<subseteq>\<^sub>m map_of (snd (Unpack 8 (\<lambda>_. None) sample_archive False [([''x''], Folder)] sample_limits None))"
proof -
  have "link_free [([''x''], Folder)]" by (simp add: link_free_def)
  from unpacking_only_adds [OF this] show ?thesis by blast
qed

theorem unpacked_as_listed_witness: "map_of (snd sample_unpacked) [''d'', ''f''] = Some (RegularFile ''hi'')"
proof -
  have "Unpack 8 (\<lambda>_. None) sample_archive False [] sample_limits None = ((fst (fst sample_unpacked), None), snd sample_unpacked)"
    using sample_unpacked_ok by (simp add: sample_unpacked_def prod_eq_iff)
  moreover have "link_free []" "sample_file \<in> set sample_archive" by (simp_all add: link_free_def sample_archive_def)
  moreover have "entry_Name (h_Name sample_file) = Inr ''d/f''" by code_simp
  moreover have "node_listed sample_file = Some (RegularFile ''hi'')" by code_simp
  ultimately have "map_of (snd sample_unpacked) (parts ''d/f'') = Some (RegularFile ''hi'')"
    using unpacked_as_listed by fastforce
  then show ?thesis by (simp add: parts_def)
qed

text \<open>
  The byte count is an \<^verbatim>\<open>int64\<close> that wraps: after one byte, a file whose header says the largest size is not refused by a
  limit of four bytes, and its ten bytes are written before the archive is found to end early.
\<close>

lemma byte_limit_wraps:
  "map_of (snd (Unpack 8 (\<lambda>_. None) [\<lparr>h_Name = ''a'', h_Typeflag = TypeReg, h_Linkname = '''', h_Size = 1, h_Data = ''x''\<rparr>,
      \<lparr>h_Name = ''b'', h_Typeflag = TypeReg, h_Linkname = '''', h_Size = MaxInt64, h_Data = ''0123456789''\<rparr>] False []
      \<lparr>lim_Entries = 0, lim_Bytes = 4\<rparr> None)) [''b''] = Some (RegularFile ''0123456789'')"
proof -
  have "entry_Name ''a'' = Inr ''a''" "entry_Name ''b'' = Inr ''b''" "\<not> InState ''a''" "\<not> InState ''b''"
    "path_Dir ''a'' = ''.''" "path_Dir ''b'' = ''.''" by code_simp+
  moreover have "TypeReg \<noteq> TypeDir" by (simp add: TypeReg_def TypeDir_def)
  ultimately show ?thesis
    by (simp add: Unpack_def take_entry_def Let_def Limits_entries_def Limits_bytes_def DefaultEntries_def wrap64_def writeFile_def mkdirAll_def
        root_create_def place_def parts_def is_folder_def)
qed

end
