(* ===== verification/Linediff.thy ===== *)
theory Linediff
  imports Prelude
begin

text \<open>
  Comparing two texts line by line: \<^verbatim>\<open>internal/linediff/linediff.go\<close>. The search is Myers' greedy one, with
  the array \<open>v\<close> of the furthest points and the copies of it kept for the walk back, as the code has them.
  Indices are Go's \<^verbatim>\<open>int\<close>; they stay between the lengths of the texts and never come near its ends.
\<close>

type_synonym lines = "string list"

definition MaxEditDistance :: nat where
  "MaxEditDistance = 1000"

abbreviation newline :: char where
  "newline \<equiv> CHR 0x0A"

fun SplitAfter :: "string \<Rightarrow> lines" where
  "SplitAfter [] = [[]]"
| "SplitAfter (c # s) = (if c = newline then [c] # SplitAfter s
     else case SplitAfter s of [] \<Rightarrow> [[c]] | l # ls \<Rightarrow> (c # l) # ls)"

definition SplitLines :: "string \<Rightarrow> lines" where
  "SplitLines s = (if s = '''' then []
     else let ls = SplitAfter s in if last ls = '''' then butlast ls else ls)"

text \<open>How many lines two texts share at their start.\<close>

fun common_prefix :: "'l list \<Rightarrow> 'l list \<Rightarrow> nat" where
  "common_prefix (x # a) (y # b) = (if x = y then Suc (common_prefix a b) else 0)"
| "common_prefix _ _ = 0"

section \<open>The search\<close>

function snake :: "'l list \<Rightarrow> 'l list \<Rightarrow> int \<Rightarrow> int \<Rightarrow> int" where
  "snake a b x y = (if x < int (length a) \<and> y < int (length b) \<and> a ! nat x = b ! nat y then snake a b (x + 1) (y + 1) else x)"
  by pat_completeness auto
termination by (relation "measure (\<lambda>(a, b, x, y). nat (int (length a) - x))") auto

declare snake.simps [simp del]

definition at :: "int list \<Rightarrow> int \<Rightarrow> int" where
  "at v i = v ! nat i"

text \<open>Where a round begins on a diagonal, from the points its two neighbours had.\<close>

definition start_x :: "int list \<Rightarrow> int \<Rightarrow> int \<Rightarrow> int \<Rightarrow> int" where
  "start_x v base d k = (if k = - d \<or> (k \<noteq> d \<and> at v (base + k - 1) < at v (base + k + 1)) then at v (base + k + 1)
     else at v (base + k - 1) + 1)"

fun run_round :: "'l list \<Rightarrow> 'l list \<Rightarrow> int \<Rightarrow> int \<Rightarrow> int list \<Rightarrow> int list \<Rightarrow> bool \<times> int list" where
  "run_round a b off d [] v = (False, v)"
| "run_round a b off d (k # ks) v =
     (let x0 = start_x v off d k;
          x = snake a b x0 (x0 - k);
          v' = v[nat (off + k) := x]
      in if x \<ge> int (length a) \<and> x - k \<ge> int (length b) then (True, v') else run_round a b off d ks v')"

definition diagonals :: "nat \<Rightarrow> int list" where
  "diagonals d = map (\<lambda>i. 2 * int i - int d) [0..<Suc d]"

definition window :: "int list \<Rightarrow> int \<Rightarrow> int \<Rightarrow> int list" where
  "window v off d = take (nat (2 * d + 3)) (drop (nat (off - d - 1)) v)"

fun rounds :: "'l list \<Rightarrow> 'l list \<Rightarrow> int \<Rightarrow> nat list \<Rightarrow> int list \<Rightarrow> int list list \<Rightarrow> int list list \<times> nat option" where
  "rounds a b off [] v tr = (tr, None)"
| "rounds a b off (d # ds) v tr =
     (let tr' = tr @ [window v off (int d)]
      in case run_round a b off (int d) (diagonals d) v of
           (True, v') \<Rightarrow> (tr', Some d)
         | (False, v') \<Rightarrow> rounds a b off ds v' tr')"

section \<open>The walk back\<close>

text \<open>The kept lines down to a point, and where that leaves the walk.\<close>

function keep_back :: "int \<Rightarrow> int \<Rightarrow> int \<Rightarrow> int \<Rightarrow> char list \<times> int \<times> int" where
  "keep_back px py x y = (if x > px \<and> y > py
     then (case keep_back px py (x - 1) (y - 1) of (s, x', y') \<Rightarrow> (CHR '' '' # s, x', y')) else ([], x, y))"
  by pat_completeness auto
termination by (relation "measure (\<lambda>(px, py, x, y). nat (x - px))") auto

declare keep_back.simps [simp del]

fun walk_back :: "int list list \<Rightarrow> nat \<Rightarrow> int \<Rightarrow> int \<Rightarrow> char list" where
  "walk_back tr 0 x y = fst (keep_back 0 0 x y)"
| "walk_back tr (Suc d') x y =
     (let d = int (Suc d'); prev = tr ! Suc d'; k = x - y;
          prevK = (if k = - d \<or> (k \<noteq> d \<and> at prev (k - 1 + d + 1) < at prev (k + 1 + d + 1)) then k + 1 else k - 1);
          prevX = at prev (prevK + d + 1);
          prevY = prevX - prevK
      in case keep_back prevX prevY x y of
           (s, x', y') \<Rightarrow>
             if x' = prevX then s @ CHR ''+'' # walk_back tr d' x' (y' - 1)
             else s @ CHR ''-'' # walk_back tr d' (x' - 1) y')"

definition replaceAll :: "'l list \<Rightarrow> 'l list \<Rightarrow> char list" where
  "replaceAll a b = replicate (length a) CHR ''-'' @ replicate (length b) CHR ''+''"

definition shortestEdit :: "'l list \<Rightarrow> 'l list \<Rightarrow> char list" where
  "shortestEdit a b =
     (if a = [] \<or> b = [] then replaceAll a b
      else let limit = min (length a + length b) MaxEditDistance;
               off = int limit + 1
        in case rounds a b off [0..<Suc limit] (replicate (2 * limit + 3) 0) [] of
             (tr, None) \<Rightarrow> replaceAll a b
           | (tr, Some found) \<Rightarrow> rev (walk_back tr found (int (length a)) (int (length b))))"

definition EditScript :: "'l list \<Rightarrow> 'l list \<Rightarrow> char list" where
  "EditScript a b =
     (let pre = common_prefix a b;
          suf = common_prefix (rev (drop pre a)) (rev (drop pre b));
          middle = (\<lambda>l. take (length l - pre - suf) (drop pre l))
      in replicate pre CHR '' '' @ shortestEdit (middle a) (middle b) @ replicate suf CHR '' '')"

section \<open>Hunks\<close>

record Hunk =
  OldStart :: nat
  OldCount :: nat
  NewStart :: nat
  NewCount :: nat

function hunks_from :: "char list \<Rightarrow> nat \<Rightarrow> nat \<Rightarrow> Hunk list" where
  "hunks_from [] ai bi = []"
| "hunks_from (c # ops) ai bi =
     (if c = CHR '' '' then hunks_from ops (Suc ai) (Suc bi)
      else let run = takeWhile (\<lambda>c. c \<noteq> CHR '' '') (c # ops);
               olds = length (filter (\<lambda>c. c = CHR ''-'') run);
               news = length (filter (\<lambda>c. c \<noteq> CHR ''-'') run)
        in \<lparr>OldStart = ai, OldCount = olds, NewStart = bi, NewCount = news\<rparr>
           # hunks_from (dropWhile (\<lambda>c. c \<noteq> CHR '' '') (c # ops)) (ai + olds) (bi + news))"
  by pat_completeness auto
termination by (relation "measure (\<lambda>(ops, _). length ops)") (auto simp: le_imp_less_Suc length_dropWhile_le)

definition Hunks :: "'l list \<Rightarrow> 'l list \<Rightarrow> Hunk list" where
  "Hunks a b = hunks_from (EditScript a b) 0 0"

text \<open>A slice of a list; one beyond its end is \<open>None\<close>.\<close>

definition slice :: "'l list \<Rightarrow> nat \<Rightarrow> nat \<Rightarrow> 'l list option" where
  "slice l i j = (if i \<le> j \<and> j \<le> length l then Some (take (j - i) (drop i l)) else None)"

definition splice :: "'l list \<Rightarrow> nat \<Rightarrow> nat \<Rightarrow> 'l list \<Rightarrow> nat \<Rightarrow> nat \<Rightarrow> 'l list option" where
  "splice l i n l' i' n' = (case (slice l 0 i, slice l' i' (i' + n'), slice l (i + n) (length l)) of
       (Some x, Some y, Some z) \<Rightarrow> Some (x @ y @ z)
     | _ \<Rightarrow> None)"

definition TakeNew :: "lines \<Rightarrow> lines \<Rightarrow> Hunk \<Rightarrow> string option" where
  "TakeNew a b h = map_option concat (splice a (OldStart h) (OldCount h) b (NewStart h) (NewCount h))"

definition TakeOld :: "lines \<Rightarrow> lines \<Rightarrow> Hunk \<Rightarrow> string option" where
  "TakeOld a b h = map_option concat (splice b (NewStart h) (NewCount h) a (OldStart h) (OldCount h))"

end
