(* ===== verification/LinediffLaws.thy ===== *)
theory LinediffLaws
  imports Linediff
begin

text \<open>
  The script of a comparison turns the old text into the new one, and no shorter one does while the distance is
  within the bound. The search is compared with \<open>far\<close>, the furthest point of each diagonal after each number of
  edits; the array and its copies hold it where the code reads them.
\<close>

section \<open>Scripts\<close>

fun turns :: "char list \<Rightarrow> 'l list \<Rightarrow> 'l list \<Rightarrow> bool" where
  "turns [] a b \<longleftrightarrow> a = [] \<and> b = []"
| "turns (c # s) a b \<longleftrightarrow>
     (if c = CHR '' '' then a \<noteq> [] \<and> b \<noteq> [] \<and> hd a = hd b \<and> turns s (tl a) (tl b)
      else if c = CHR ''-'' then a \<noteq> [] \<and> turns s (tl a) b
      else c = CHR ''+'' \<and> b \<noteq> [] \<and> turns s a (tl b))"

definition edits :: "char list \<Rightarrow> nat" where
  "edits s = length (filter (\<lambda>c. c \<noteq> CHR '' '') s)"

lemma edits_Nil [simp]: "edits [] = 0"
  by (simp add: edits_def)

lemma edits_Cons [simp]: "edits (c # s) = (if c = CHR '' '' then 0 else 1) + edits s"
  by (simp add: edits_def)

lemma edits_append [simp]: "edits (s @ t) = edits s + edits t"
  by (simp add: edits_def)

lemma edits_keep [simp]: "edits (replicate n CHR '' '') = 0"
  by (induction n) simp_all

lemma turns_cases:
  assumes "turns (c # s) a b"
  obtains (keep) x a' b' where "c = CHR '' ''" "a = x # a'" "b = x # b'" "turns s a' b'"
    | (minus) x a' where "c = CHR ''-''" "a = x # a'" "turns s a' b"
    | (plus) y b' where "c = CHR ''+''" "b = y # b'" "turns s a b'"
proof -
  consider "c = CHR '' ''" | "c = CHR ''-''" | "c = CHR ''+''" using assms unfolding turns.simps(2) by argo
  then show thesis
  proof cases
    case 1
    with assms have t: "a \<noteq> []" "b \<noteq> []" "hd a = hd b" "turns s (tl a) (tl b)" by simp_all
    from t(1) have "a = hd a # tl a" by simp
    moreover have "b = hd a # tl b" unfolding t(3) using t(2) by simp
    ultimately show thesis using keep [OF 1] t(4) by blast
  next
    case 2
    with assms have "a \<noteq> []" "turns s (tl a) b" by simp_all
    then show thesis by (intro minus [OF 2, of "hd a" "tl a"]) simp_all
  next
    case 3
    with assms have "b \<noteq> []" "turns s a (tl b)" by simp_all
    then show thesis by (intro plus [OF 3, of "hd b" "tl b"]) simp_all
  qed
qed

lemma turns_append: "turns s a b \<Longrightarrow> turns t a' b' \<Longrightarrow> turns (s @ t) (a @ a') (b @ b')"
proof (induction s arbitrary: a b)
  case (Cons c s)
  from Cons.prems(1) show ?case
    by (cases rule: turns_cases) (use Cons.IH [OF _ Cons.prems(2)] in simp_all)
qed simp

lemma turns_keep: "turns (replicate (length l) CHR '' '') l l"
  by (induction l) simp_all

lemma turns_minus: "turns (replicate (length a) CHR ''-'') a []"
  by (induction a) simp_all

lemma turns_plus: "turns (replicate (length b) CHR ''+'') [] b"
  by (induction b) simp_all

lemma turns_replaceAll: "turns (replaceAll a b) a b"
  using turns_append [OF turns_minus turns_plus] by (simp add: replaceAll_def)

lemma turns_snocE:
  assumes "turns (s @ [c]) a b"
  obtains (keep) a' b' z where "c = CHR '' ''" "a = a' @ [z]" "b = b' @ [z]" "turns s a' b'"
    | (minus) a' z where "c = CHR ''-''" "a = a' @ [z]" "turns s a' b"
    | (plus) b' z where "c = CHR ''+''" "b = b' @ [z]" "turns s a b'"
  using assms
proof (induction s arbitrary: a b thesis)
  case Nil
  from Nil(4) have "turns [c] a b" by simp
  then show ?case
    by (cases rule: turns_cases) (use Nil(1) [of "[]" _ "[]"] Nil(2) [of "[]"] Nil(3) [of "[]"] in auto)
next
  case (Cons d s)
  from Cons.prems(4) have "turns (d # (s @ [c])) a b" by simp
  then show ?case
  proof (cases rule: turns_cases)
    case (keep x a1 b1)
    show ?thesis
      by (rule Cons.IH [OF _ _ _ keep(4)])
        (use keep Cons.prems(1) [of "x # _" _ "x # _"] Cons.prems(2) [of "x # _"] Cons.prems(3) [of "x # _"] in simp_all)
  next
    case (minus x a1)
    show ?thesis
      by (rule Cons.IH [OF _ _ _ minus(3)])
        (use minus Cons.prems(1) [of "x # _"] Cons.prems(2) [of "x # _"] Cons.prems(3) in simp_all)
  next
    case (plus x b1)
    show ?thesis
      by (rule Cons.IH [OF _ _ _ plus(3)])
        (use plus Cons.prems(1) [of _ _ "x # _"] Cons.prems(2) Cons.prems(3) [of "x # _"] in simp_all)
  qed
qed

section \<open>Snakes\<close>

definition goes_on :: "'l list \<Rightarrow> 'l list \<Rightarrow> int \<Rightarrow> int \<Rightarrow> bool" where
  "goes_on a b x y \<longleftrightarrow> x < int (length a) \<and> y < int (length b) \<and> a ! nat x = b ! nat y"

lemma snake_eq: "snake a b x y = (if goes_on a b x y then snake a b (x + 1) (y + 1) else x)"
  unfolding goes_on_def by (rule snake.simps)

lemma snake_ge: "x \<le> snake a b x y"
proof (induction a b x y rule: snake.induct)
  case (1 a b x y)
  then show ?case by (cases "goes_on a b x y") (simp_all add: snake_eq [of a b x y], simp add: goes_on_def)
qed

lemma snake_stop: "\<not> goes_on a b (snake a b x y) (snake a b x y - x + y)"
proof (induction a b x y rule: snake.induct)
  case (1 a b x y)
  show ?case
  proof (cases "goes_on a b x y")
    case True
    with "1.IH" show ?thesis by (simp add: snake_eq [of a b x y] goes_on_def algebra_simps)
  next
    case False
    then show ?thesis by (simp add: snake_eq [of a b x y])
  qed
qed

lemma snake_moved: "snake a b x y > x \<Longrightarrow> snake a b x y \<le> int (length a) \<and> snake a b x y - x + y \<le> int (length b)"
proof (induction a b x y rule: snake.induct)
  case (1 a b x y)
  from "1.prems" have g: "goes_on a b x y"
    by (cases "goes_on a b x y") (simp_all add: snake_eq [of a b x y])
  then have c: "x < int (length a)" "y < int (length b)" "a ! nat x = b ! nat y" by (simp_all add: goes_on_def)
  have e: "snake a b x y = snake a b (x + 1) (y + 1)" using g by (simp add: snake_eq [of a b x y])
  show ?case
  proof (cases "snake a b (x + 1) (y + 1) > x + 1")
    case True
    with "1.IH" c e show ?thesis by (simp add: algebra_simps)
  next
    case False
    with snake_ge [of "x + 1" a b "y + 1"] e c show ?thesis by simp
  qed
qed

text \<open>The lines along a snake are the same in both texts.\<close>

lemma snake_same:
  "0 \<le> x \<Longrightarrow> 0 \<le> y \<Longrightarrow>
   take (nat (snake a b x y - x)) (drop (nat x) a) = take (nat (snake a b x y - x)) (drop (nat y) b)"
proof (induction a b x y rule: snake.induct)
  case (1 a b x y)
  show ?case
  proof (cases "goes_on a b x y")
    case True
    then have e: "snake a b x y = snake a b (x + 1) (y + 1)" by (simp add: snake_eq [of a b x y])
    have c: "x < int (length a)" "y < int (length b)" "a ! nat x = b ! nat y" using True by (simp_all add: goes_on_def)
    let ?j = "nat (snake a b (x + 1) (y + 1) - (x + 1))"
    have j: "nat (snake a b x y - x) = Suc ?j"
      using e snake_ge [of "x + 1" a b "y + 1"] by simp
    have "nat x < length a" "nat y < length b" using c(1,2) "1.prems" by simp_all
    then have d: "drop (nat x) a = a ! nat x # drop (nat (x + 1)) a" "drop (nat y) b = b ! nat y # drop (nat (y + 1)) b"
      using "1.prems" by (simp_all add: Cons_nth_drop_Suc nat_add_distrib)
    show ?thesis
      using "1.IH" c "1.prems" by (simp add: j d)
  next
    case False
    then show ?thesis by (simp add: snake_eq [of a b x y])
  qed
qed

section \<open>The furthest points\<close>

fun far :: "'l list \<Rightarrow> 'l list \<Rightarrow> nat \<Rightarrow> int \<Rightarrow> int" where
  "far a b 0 k = snake a b 0 0"
| "far a b (Suc d) k =
     (let x0 = (if k = - int (Suc d) \<or> (k \<noteq> int (Suc d) \<and> far a b d (k - 1) < far a b d (k + 1)) then far a b d (k + 1)
          else far a b d (k - 1) + 1)
      in snake a b x0 (x0 - k))"

declare far.simps(2) [simp del]

definition on_diag :: "nat \<Rightarrow> int \<Rightarrow> bool" where
  "on_diag d k \<longleftrightarrow> - int d \<le> k \<and> k \<le> int d \<and> even (int d - k)"

lemma on_diag_0: "on_diag 0 k \<longleftrightarrow> k = 0"
  by (auto simp: on_diag_def)

lemma on_diag_step: "on_diag d k \<Longrightarrow> on_diag (Suc d) (k + 1) \<and> on_diag (Suc d) (k - 1)"
  by (auto simp: on_diag_def)

lemma on_diag_below:
  assumes "on_diag (Suc d) k"
  shows "k \<noteq> - int (Suc d) \<Longrightarrow> on_diag d (k - 1)" "k \<noteq> int (Suc d) \<Longrightarrow> on_diag d (k + 1)"
proof -
  have "even (int (Suc d) - k)" "- int (Suc d) \<le> k" "k \<le> int (Suc d)" using assms by (simp_all add: on_diag_def)
  moreover from this have "k \<noteq> - int d" "k \<noteq> int d" by (auto simp: even_iff_mod_2_eq_zero)
  ultimately show "k \<noteq> - int (Suc d) \<Longrightarrow> on_diag d (k - 1)" "k \<noteq> int (Suc d) \<Longrightarrow> on_diag d (k + 1)"
    by (auto simp: on_diag_def)
qed

text \<open>The step that leads to a furthest point: an insertion or a deletion, then a snake.\<close>

lemma far_step:
  assumes "on_diag (Suc d) k"
  obtains (ins) "on_diag d (k + 1)" "k = - int (Suc d) \<or> (k \<noteq> int (Suc d) \<and> far a b d (k - 1) < far a b d (k + 1))"
      "far a b (Suc d) k = snake a b (far a b d (k + 1)) (far a b d (k + 1) - k)"
    | (del) "on_diag d (k - 1)" "\<not> (k = - int (Suc d) \<or> (k \<noteq> int (Suc d) \<and> far a b d (k - 1) < far a b d (k + 1)))"
      "far a b (Suc d) k = snake a b (far a b d (k - 1) + 1) (far a b d (k - 1) + 1 - k)"
proof (cases "k = - int (Suc d) \<or> (k \<noteq> int (Suc d) \<and> far a b d (k - 1) < far a b d (k + 1))")
  case True
  then have "k \<noteq> int (Suc d)" by auto
  with True on_diag_below(2) [OF assms] show thesis by (intro ins) (simp_all add: far.simps(2) Let_def)
next
  case False
  with on_diag_below(1) [OF assms] show thesis by (intro del) (auto simp: far.simps(2) Let_def)
qed

lemma far_grows_up: "on_diag d k \<Longrightarrow> far a b d k + 1 \<le> far a b (Suc d) (k + 1)"
  using snake_ge [of "far a b d k + 1" a b "far a b d k + 1 - (k + 1)"]
    snake_ge [of "far a b d (k + 2)" a b "far a b d (k + 2) - (k + 1)"]
  by (auto simp: far.simps(2) Let_def on_diag_def algebra_simps)

lemma far_grows_down: "on_diag d k \<Longrightarrow> far a b d k \<le> far a b (Suc d) (k - 1)"
  using snake_ge [of "far a b d k" a b "far a b d k - (k - 1)"]
    snake_ge [of "far a b d (k - 2) + 1" a b "far a b d (k - 2) + 1 - (k - 1)"]
  by (auto simp: far.simps(2) Let_def on_diag_def algebra_simps)

lemma far_lower: "on_diag d k \<Longrightarrow> 0 \<le> far a b d k \<and> k \<le> far a b d k"
proof (induction d arbitrary: k)
  case 0
  then show ?case using snake_ge [of 0 a b 0] by (simp add: on_diag_0)
next
  case (Suc d)
  from Suc.prems show ?case
  proof (cases rule: far_step [where a = a and b = b])
    case ins
    with Suc.IH [OF ins(1)] snake_ge [of "far a b d (k + 1)" a b "far a b d (k + 1) - k"] show ?thesis by simp
  next
    case del
    with Suc.IH [OF del(1)] snake_ge [of "far a b d (k - 1) + 1" a b "far a b d (k - 1) + 1 - k"] show ?thesis by simp
  qed
qed

lemma far_stop:
  assumes "on_diag d k"
  shows "\<not> goes_on a b (far a b d k) (far a b d k - k)"
proof (cases d)
  case 0
  then show ?thesis using assms snake_stop [of a b 0 0] by (simp add: on_diag_0)
next
  case (Suc d')
  let ?x = "if k = - int (Suc d') \<or> (k \<noteq> int (Suc d') \<and> far a b d' (k - 1) < far a b d' (k + 1)) then far a b d' (k + 1)
          else far a b d' (k - 1) + 1"
  have "far a b d k = snake a b ?x (?x - k)" by (simp add: Suc far.simps(2) Let_def)
  then show ?thesis using snake_stop [of a b ?x "?x - k"] by (simp add: algebra_simps)
qed

section \<open>Beyond the ends of the texts\<close>

text \<open>A furthest point below the second text has another to its right, and one right of the first text another to its left.\<close>

lemma far_snake_bound:
  assumes "far a b (Suc d) k = snake a b x0 (x0 - k)" "far a b (Suc d) k > int (length a) \<or> far a b (Suc d) k - k > int (length b)"
  shows "far a b (Suc d) k = x0"
  using assms snake_ge [of x0 a b "x0 - k"] snake_moved [of x0 a b "x0 - k"] by (cases "snake a b x0 (x0 - k) > x0") auto

lemma far_below:
  "on_diag d k \<Longrightarrow> far a b d k - k > int (length b) \<Longrightarrow> on_diag d (k + 2) \<and> far a b d k + 1 \<le> far a b d (k + 2)"
proof (induction d arbitrary: k)
  case 0
  then show ?case using snake_ge [of 0 a b 0] snake_moved [of 0 a b 0] by (cases "snake a b 0 0 > 0") (auto simp: on_diag_0)
next
  case (Suc d)
  from Suc.prems(1) show ?case
  proof (cases rule: far_step [where a = a and b = b])
    case ins
    have "far a b (Suc d) k = far a b d (k + 1)" using far_snake_bound [OF ins(3)] Suc.prems(2) by blast
    with on_diag_step [OF ins(1)] far_grows_up [OF ins(1), of a b] show ?thesis by (simp add: algebra_simps)
  next
    case del
    have x: "far a b (Suc d) k = far a b d (k - 1) + 1" using far_snake_bound [OF del(3)] Suc.prems(2) by blast
    then have "on_diag d (k - 1 + 2)" "far a b d (k - 1) + 1 \<le> far a b d (k - 1 + 2)"
      using Suc.IH [OF del(1)] Suc.prems(2) by auto
    then have "k \<noteq> int (Suc d)" "far a b d (k - 1) < far a b d (k + 1)" by (auto simp: on_diag_def algebra_simps)
    with del(2) show ?thesis by blast
  qed
qed

lemma far_right:
  "on_diag d k \<Longrightarrow> far a b d k > int (length a) \<Longrightarrow> on_diag d (k - 2) \<and> far a b d k - 1 \<le> far a b d (k - 2)"
proof (induction d arbitrary: k)
  case 0
  then show ?case using snake_ge [of 0 a b 0] snake_moved [of 0 a b 0] by (cases "snake a b 0 0 > 0") (auto simp: on_diag_0)
next
  case (Suc d)
  from Suc.prems(1) show ?case
  proof (cases rule: far_step [where a = a and b = b])
    case ins
    have x: "far a b (Suc d) k = far a b d (k + 1)" using far_snake_bound [OF ins(3)] Suc.prems(2) by blast
    then have l: "on_diag d (k + 1 - 2)" "far a b d (k + 1) - 1 \<le> far a b d (k + 1 - 2)"
      using Suc.IH [OF ins(1)] Suc.prems(2) by auto
    then have "on_diag d (k - 1)" "far a b d (k + 1) - 1 \<le> far a b d (k - 1)" by (simp_all add: algebra_simps)
    with on_diag_step [of d "k - 1"] far_grows_down [of d "k - 1" a b] x show ?thesis by (simp add: algebra_simps)
  next
    case del
    have "far a b (Suc d) k = far a b d (k - 1) + 1" using far_snake_bound [OF del(3)] Suc.prems(2) by blast
    with on_diag_step [OF del(1)] far_grows_down [OF del(1), of a b] show ?thesis by (simp add: algebra_simps)
  qed
qed

definition finished :: "'l list \<Rightarrow> 'l list \<Rightarrow> nat \<Rightarrow> int \<Rightarrow> bool" where
  "finished a b d k \<longleftrightarrow> far a b d k \<ge> int (length a) \<and> far a b d k - k \<ge> int (length b)"

text \<open>The first furthest point past both ends is the end of both texts.\<close>

lemma finished_exact:
  assumes ne: "a \<noteq> []" and k: "on_diag d k" "finished a b d k"
    and first: "\<And>e j. e < d \<Longrightarrow> on_diag e j \<Longrightarrow> \<not> finished a b e j"
  shows "far a b d k = int (length a) \<and> k = int (length a) - int (length b)"
proof (cases d)
  case 0
  have "0 < int (length a)" using ne by simp
  then have "far a b 0 k > 0" using k(2) unfolding finished_def 0 by linarith
  then show ?thesis using snake_moved [of 0 a b 0] k by (simp add: 0 finished_def on_diag_0)
next
  case (Suc d')
  from k(1) have dk: "on_diag (Suc d') k" by (simp add: Suc)
  then show ?thesis
  proof (cases rule: far_step [where a = a and b = b])
    case ins
    let ?x = "far a b d' (k + 1)"
    show ?thesis
    proof (cases "far a b (Suc d') k = ?x")
      case True
      have x: "?x \<ge> int (length a)" "?x - k \<ge> int (length b)" using k(2) True by (simp_all add: finished_def Suc)
      have "\<not> finished a b d' (k + 1)" using first ins(1) Suc by simp
      then have y: "?x - k = int (length b)" using x by (simp add: finished_def)
      show ?thesis
      proof (cases "?x = int (length a)")
        case False
        then have "on_diag d' (k + 1 - 2)" "?x - 1 \<le> far a b d' (k + 1 - 2)" using far_right [OF ins(1), where a = a and b = b] x False by auto
        then have "on_diag d' (k - 1)" "finished a b d' (k - 1)" using x y False by (simp_all add: finished_def)
        with first [of d' "k - 1"] Suc show ?thesis by simp
      qed (use True y Suc in simp)
    next
      case False
      then have "snake a b ?x (?x - k) > ?x" using ins(3) snake_ge [of ?x a b "?x - k"] by simp
      from snake_moved [OF this] ins(3) k(2) show ?thesis by (simp add: finished_def Suc)
    qed
  next
    case del
    let ?x = "far a b d' (k - 1) + 1"
    show ?thesis
    proof (cases "far a b (Suc d') k = ?x")
      case True
      have x: "?x \<ge> int (length a)" "?x - k \<ge> int (length b)" using k(2) True by (simp_all add: finished_def Suc)
      have "\<not> finished a b d' (k - 1)" using first del(1) Suc by simp
      then have n: "?x = int (length a)" using x by (simp add: finished_def)
      show ?thesis
      proof (cases "?x - k = int (length b)")
        case False
        then have "on_diag d' (k - 1 + 2)" "?x \<le> far a b d' (k - 1 + 2)" using far_below [OF del(1), where a = a and b = b] x False by auto
        moreover have "k - 1 + 2 = k + 1" by simp
        ultimately have "on_diag d' (k + 1)" "?x \<le> far a b d' (k + 1)" by simp_all
        then have "on_diag d' (k + 1)" "finished a b d' (k + 1)" using x n False by (simp_all add: finished_def)
        with first [of d' "k + 1"] Suc show ?thesis by simp
      qed (use True n Suc in simp)
    next
      case False
      then have "snake a b ?x (?x - k) > ?x" using del(3) snake_ge [of ?x a b "?x - k"] by simp
      from snake_moved [OF this] del(3) k(2) show ?thesis by (simp add: finished_def Suc)
    qed
  qed
qed

section \<open>No script is shorter\<close>

lemma far_reaches:
  "turns s a1 b1 \<Longrightarrow> a = a1 @ a2 \<Longrightarrow> b = b1 @ b2 \<Longrightarrow>
     on_diag (edits s) (int (length a1) - int (length b1)) \<and> int (length a1) \<le> far a b (edits s) (int (length a1) - int (length b1))"
proof (induction s arbitrary: a1 b1 a2 b2 rule: rev_induct)
  case Nil
  then show ?case using snake_ge [of 0 a b 0] by (simp add: on_diag_0)
next
  case (snoc c s)
  from snoc.prems(1) show ?case
  proof (cases rule: turns_snocE)
    case (keep a' b' z)
    let ?k = "int (length a') - int (length b')"
    have r: "on_diag (edits s) ?k" "int (length a') \<le> far a b (edits s) ?k"
      using snoc.IH [OF keep(4), of "z # a2" "z # b2"] snoc.prems(2,3) keep by simp_all
    have "far a b (edits s) ?k \<noteq> int (length a')"
    proof
      assume e: "far a b (edits s) ?k = int (length a')"
      have "goes_on a b (int (length a')) (int (length b'))"
        using snoc.prems(2,3) keep by (simp add: goes_on_def nth_append)
      with far_stop [OF r(1), of a b] e show False by simp
    qed
    with r keep show ?thesis by simp
  next
    case (minus a' z)
    have r: "on_diag (edits s) (int (length a') - int (length b1))" "int (length a') \<le> far a b (edits s) (int (length a') - int (length b1))"
      using snoc.IH [OF minus(3), of "z # a2" b2] snoc.prems(2,3) minus by simp_all
    with on_diag_step [OF r(1)] far_grows_up [OF r(1), of a b] minus show ?thesis by (simp add: algebra_simps)
  next
    case (plus b' z)
    have r: "on_diag (edits s) (int (length a1) - int (length b'))" "int (length a1) \<le> far a b (edits s) (int (length a1) - int (length b'))"
      using snoc.IH [OF plus(3), of a2 "z # b2"] snoc.prems(2,3) plus by simp_all
    with on_diag_step [OF r(1)] far_grows_down [OF r(1), of a b] plus show ?thesis by (simp add: algebra_simps)
  qed
qed

lemma turns_finishes:
  assumes "turns s a b"
  shows "\<exists>k. on_diag (edits s) k \<and> finished a b (edits s) k"
  using far_reaches [OF assms, of a "[]" b "[]"] by (auto simp: finished_def)

section \<open>The array holds the furthest points\<close>

text \<open>Before round \<open>d\<close> the array holds the points of round \<open>d - 1\<close>, and before the first round zeros.\<close>

definition holds_far :: "'l list \<Rightarrow> 'l list \<Rightarrow> int \<Rightarrow> nat \<Rightarrow> int list \<Rightarrow> bool" where
  "holds_far a b off d v \<longleftrightarrow>
     (case d of 0 \<Rightarrow> at v (off + 1) = 0 | Suc d' \<Rightarrow> (\<forall>k. on_diag d' k \<longrightarrow> at v (off + k) = far a b d' k))"

lemma start_x_far:
  assumes "holds_far a b off d v" "on_diag d k"
  shows "snake a b (start_x v off (int d) k) (start_x v off (int d) k - k) = far a b d k"
proof (cases d)
  case 0
  with assms show ?thesis by (simp add: holds_far_def on_diag_0 start_x_def)
next
  case (Suc d')
  have v: "at v (off + j) = far a b d' j" if "on_diag d' j" for j
    using assms(1) that by (simp add: holds_far_def Suc)
  have dk: "on_diag (Suc d') k" using assms(2) Suc by simp
  have m: "at v (off + k - 1) = far a b d' (k - 1)" if "k \<noteq> - int (Suc d')"
    using v [OF on_diag_below(1) [OF dk that]] by (simp add: algebra_simps)
  have p: "at v (off + k + 1) = far a b d' (k + 1)" if "k \<noteq> int (Suc d')"
    using v [OF on_diag_below(2) [OF dk that]] by (simp add: algebra_simps)
  have "start_x v off (int d) k = (if k = - int (Suc d') \<or> (k \<noteq> int (Suc d') \<and> far a b d' (k - 1) < far a b d' (k + 1))
      then far a b d' (k + 1) else far a b d' (k - 1) + 1)"
  proof (cases "k = - int (Suc d') \<or> k = int (Suc d')")
    case True
    then show ?thesis using m p by (auto simp: start_x_def Suc)
  next
    case False
    then show ?thesis using m p by (simp add: start_x_def Suc)
  qed
  then show ?thesis by (simp add: Suc far.simps(2) Let_def)
qed

lemma at_update: "0 \<le> i \<Longrightarrow> 0 \<le> j \<Longrightarrow> nat j < length v \<Longrightarrow> at (v[nat j := x]) i = (if i = j then x else at v i)"
  by (auto simp: at_def nth_list_update)

text \<open>A round of the code: the array changes on the round's own diagonals only.\<close>

lemma run_round_far:
  assumes "run_round a b off (int d) ks v = (done0, v')" "holds_far a b off d v" "list_all (on_diag d) ks" "distinct ks"
    and "int d < off" "length v = nat (2 * off + 1)"
  shows "if done0 then \<exists>k \<in> set ks. finished a b d k
     else (\<forall>k \<in> set ks. \<not> finished a b d k \<and> at v' (off + k) = far a b d k) \<and> length v' = length v \<and>
       (\<forall>j. - off \<le> j \<and> j \<le> off \<and> j \<notin> set ks \<longrightarrow> at v' (off + j) = at v (off + j))"
  using assms
proof (induction ks arbitrary: v)
  case (Cons k ks)
  let ?x = "far a b d k" and ?v = "v[nat (off + k) := far a b d k]"
  have k: "on_diag d k" using Cons.prems(3) by simp
  then have r: "- off < k" "k < off" using Cons.prems(5) by (auto simp: on_diag_def)
  note s = start_x_far [OF Cons.prems(2) k]
  have up: "at ?v (off + j) = (if j = k then ?x else at v (off + j))" if "- off \<le> j" "j \<le> off" for j
    using that r Cons.prems(6) by (subst at_update) auto
  show ?case
  proof (cases "finished a b d k")
    case True
    then have "done0" using Cons.prems(1) by (simp add: Let_def s finished_def)
    with True show ?thesis by auto
  next
    case False
    then have run: "run_round a b off (int d) ks ?v = (done0, v')"
      using Cons.prems(1) unfolding run_round.simps(2) Let_def s finished_def by (simp split: if_splits)
    have "holds_far a b off d ?v"
    proof (cases d)
      case 0
      then show ?thesis using Cons.prems(2) up [of 1] k Cons.prems(5) by (simp add: holds_far_def on_diag_0)
    next
      case (Suc d')
      have "at ?v (off + j) = far a b d' j" if "on_diag d' j" for j
      proof -
        have "j \<noteq> k" "- off \<le> j" "j \<le> off" using that k Cons.prems(5) Suc by (auto simp: on_diag_def)
        with up [of j] Cons.prems(2) that Suc show ?thesis by (simp add: holds_far_def)
      qed
      then show ?thesis by (simp add: holds_far_def Suc)
    qed
    from Cons.IH [OF run this] Cons.prems(3-6)
    have ih: "if done0 then \<exists>k \<in> set ks. finished a b d k
       else (\<forall>k \<in> set ks. \<not> finished a b d k \<and> at v' (off + k) = far a b d k) \<and> length v' = length v \<and>
         (\<forall>j. - off \<le> j \<and> j \<le> off \<and> j \<notin> set ks \<longrightarrow> at v' (off + j) = at ?v (off + j))"
      by simp
    show ?thesis
    proof (cases done0)
      case True
      with ih show ?thesis by auto
    next
      case nd: False
      have "k \<notin> set ks" using Cons.prems(4) by simp
      then have "at v' (off + k) = ?x" using ih nd r up [of k] by simp
      moreover have "at v' (off + j) = at v (off + j)" if "- off \<le> j" "j \<le> off" "j \<notin> set (k # ks)" for j
        using ih nd up [of j] that by simp
      ultimately show ?thesis using ih nd False by simp
    qed
  qed
qed simp

lemma set_diagonals: "set (diagonals d) = {k. on_diag d k}"
proof
  show "set (diagonals d) \<subseteq> {k. on_diag d k}" by (auto simp: diagonals_def on_diag_def)
  show "{k. on_diag d k} \<subseteq> set (diagonals d)"
  proof
    fix k assume "k \<in> {k. on_diag d k}"
    then have b: "- int d \<le> k" "k \<le> int d" and "even (int d - k)" by (simp_all add: on_diag_def)
    from this(3) obtain i where "int d - k = 2 * i" by (rule evenE)
    with b have "k = 2 * int (d - nat i) - int d" "d - nat i \<le> d" by auto
    then show "k \<in> set (diagonals d)" unfolding diagonals_def by (auto intro!: image_eqI [of _ _ "d - nat i"])
  qed
qed

lemma distinct_diagonals: "distinct (diagonals d)"
  by (simp add: diagonals_def distinct_map inj_on_def del: upt_Suc)

lemma at_window:
  "0 \<le> d \<Longrightarrow> d < off \<Longrightarrow> - d - 1 \<le> j \<Longrightarrow> j \<le> d + 1 \<Longrightarrow> length v = nat (2 * off + 1) \<Longrightarrow> at (window v off d) (j + d + 1) = at v (off + j)"
  by (simp add: at_def window_def flip: nat_add_distrib)

text \<open>What the walk back reads of the copy made before a round.\<close>

definition kept :: "'l list \<Rightarrow> 'l list \<Rightarrow> nat \<Rightarrow> int list \<Rightarrow> bool" where
  "kept a b e w \<longleftrightarrow> (\<forall>d' j. e = Suc d' \<longrightarrow> on_diag d' j \<longrightarrow> at w (j + int e + 1) = far a b d' j)"

lemma kept_window:
  assumes "holds_far a b off d v" "int d < off" "length v = nat (2 * off + 1)"
  shows "kept a b d (window v off (int d))"
proof -
  have "at (window v off (int d)) (j + int d + 1) = far a b d' j" if "d = Suc d'" "on_diag d' j" for d' j
  proof -
    have "at (window v off (int d)) (j + int d + 1) = at v (off + j)"
      using that assms(2,3) by (intro at_window) (auto simp: on_diag_def)
    also have "\<dots> = far a b d' j" using assms(1) that by (simp add: holds_far_def)
    finally show ?thesis .
  qed
  then show ?thesis by (simp add: kept_def)
qed

lemma rounds_far:
  assumes "rounds a b off ds v tr = (tr', res)" "ds = [d..<Suc L]" "d \<le> Suc L" "holds_far a b off d v" "int L < off"
    "length v = nat (2 * off + 1)" "length tr = d" "\<And>e. e < d \<Longrightarrow> kept a b e (tr ! e)"
  shows "case res of
      None \<Rightarrow> \<forall>e k. d \<le> e \<and> e \<le> L \<and> on_diag e k \<longrightarrow> \<not> finished a b e k
    | Some f \<Rightarrow> d \<le> f \<and> f \<le> L \<and> (\<exists>k. on_diag f k \<and> finished a b f k) \<and>
        (\<forall>e k. d \<le> e \<and> e < f \<and> on_diag e k \<longrightarrow> \<not> finished a b e k) \<and> (\<forall>e \<le> f. kept a b e (tr' ! e))"
  using assms
proof (induction ds arbitrary: d v tr)
  case Nil
  then have "d = Suc L" by (metis upt_eq_Nil_conv le_antisym zero_le nat_le_linear not_less_eq_eq upt_rec)
  with Nil show ?case by auto
next
  case (Cons d0 ds)
  have "d < Suc L" using Cons.prems(2) by (metis list.distinct(1) upt_eq_Nil_conv not_le)
  then have "[d..<Suc L] = d # [Suc d..<Suc L]" by (rule upt_conv_Cons)
  with Cons.prems(2) have ds: "d0 = d" "ds = [Suc d..<Suc L]" by simp_all
  have dL: "d \<le> L" "int d < off" using \<open>d < Suc L\<close> Cons.prems(5) by simp_all
  let ?tr = "tr @ [window v off (int d)]"
  have kp: "kept a b e (?tr ! e)" if "e \<le> d" for e
    using Cons.prems(7,8) kept_window [OF Cons.prems(4) dL(2) Cons.prems(6)] that by (cases "e = d") (auto simp: nth_append)
  obtain done0 v' where run: "run_round a b off (int d) (diagonals d) v = (done0, v')" by (metis prod.exhaust)
  have all: "list_all (on_diag d) (diagonals d)" using set_diagonals by (auto simp: list_all_iff)
  note far = run_round_far [OF run Cons.prems(4) all distinct_diagonals dL(2) Cons.prems(6), unfolded set_diagonals]
  show ?case
  proof (cases done0)
    case True
    then have "tr' = ?tr" "res = Some d" using Cons.prems(1) run by (simp_all add: ds Let_def)
    then show ?thesis using far True kp dL by auto
  next
    case False
    have r: "rounds a b off ds v' ?tr = (tr', res)" using Cons.prems(1) run False by (simp add: ds Let_def)
    have h: "holds_far a b off (Suc d) v'" using far False by (simp add: holds_far_def)
    have nf: "\<not> finished a b d k" if "on_diag d k" for k using far False that by simp
    have "length v' = nat (2 * off + 1)" using far False Cons.prems(6) by simp
    note ih = Cons.IH [OF r ds(2) _ h Cons.prems(5) this]
    have ih: "case res of
      None \<Rightarrow> \<forall>e k. Suc d \<le> e \<and> e \<le> L \<and> on_diag e k \<longrightarrow> \<not> finished a b e k
    | Some f \<Rightarrow> Suc d \<le> f \<and> f \<le> L \<and> (\<exists>k. on_diag f k \<and> finished a b f k) \<and>
        (\<forall>e k. Suc d \<le> e \<and> e < f \<and> on_diag e k \<longrightarrow> \<not> finished a b e k) \<and> (\<forall>e \<le> f. kept a b e (tr' ! e))"
      using ih kp dL Cons.prems(7) by (simp add: less_Suc_eq_le)
    have nf': "\<not> finished a b e k" if "d \<le> e" "on_diag e k" "Suc d \<le> e \<Longrightarrow> \<not> finished a b e k" for e k
      using that nf by (cases "e = d") auto
    show ?thesis
    proof (cases res)
      case None
      with ih nf' show ?thesis by auto
    next
      case (Some f)
      with ih nf' show ?thesis by auto
    qed
  qed
qed

section \<open>The walk back spells a script\<close>

lemma keep_back_eq:
  "keep_back px py x y = (replicate (nat (min (x - px) (y - py))) CHR '' '', x - max 0 (min (x - px) (y - py)), y - max 0 (min (x - px) (y - py)))"
proof (induction px py x y rule: keep_back.induct)
  case (1 px py x y)
  show ?case
  proof (cases "x > px \<and> y > py")
    case True
    let ?m = "min (x - px) (y - py)"
    have m: "min (x - 1 - px) (y - 1 - py) = ?m - 1" "?m > 0" using True by (auto simp: min_def)
    have "nat q = Suc (nat (q - 1))" if "q > 0" for q :: int using that by simp
    from this [OF m(2)] have "nat ?m = Suc (nat (?m - 1))" .
    with "1.IH" [OF True] m True show ?thesis
      by (subst keep_back.simps) (simp del: min_less_iff_conj)
  next
    case False
    then have "min (x - px) (y - py) \<le> 0" by (auto simp: min_def)
    with False show ?thesis by (subst keep_back.simps) auto
  qed
qed

text \<open>The snake to a furthest point, as a piece of a script.\<close>

lemma turns_snake:
  assumes "x = snake a b x0 y0 " "0 \<le> x0" "0 \<le> y0" "x \<le> int (length a)" "x - x0 + y0 \<le> int (length b)"
    and "turns s (take (nat x0) a) (take (nat y0) b)"
  shows "turns (s @ replicate (nat (x - x0)) CHR '' '') (take (nat x) a) (take (nat (x - x0 + y0)) b)"
proof -
  let ?l = "take (nat (x - x0)) (drop (nat x0) a)"
  have ge: "x0 \<le> x" using assms(1) snake_ge by simp
  have "length ?l = nat (x - x0)" using assms(2,4) ge by (simp add: nat_diff_distrib' nat_le_iff)
  moreover have "take (nat x) a = take (nat x0) a @ ?l"
    using assms(2) ge by (simp add: nat_diff_distrib' flip: take_add)
  moreover have "take (nat (x - x0 + y0)) b = take (nat y0) b @ take (nat (x - x0)) (drop (nat y0) b)"
    using assms(3) ge by (simp add: add.commute nat_add_distrib flip: take_add)
  moreover have "take (nat (x - x0)) (drop (nat y0) b) = ?l" using snake_same [OF assms(2,3)] assms(1) by metis
  ultimately show ?thesis using turns_append [OF assms(6) turns_keep [of ?l]] by simp
qed

lemma take_one_more: "0 \<le> x \<Longrightarrow> x < int (length a) \<Longrightarrow> take (nat (x + 1)) a = take (nat x) a @ [a ! nat x]"
  using take_Suc_conv_app_nth [of "nat x" a] by (simp add: nat_add_distrib)

lemma turns_minus1: "turns [CHR ''-''] [z] []" and turns_plus1: "turns [CHR ''+''] [] [z]"
  by simp_all

lemma walk_back_script:
  assumes "on_diag d k" "x = far a b d k" "y = x - k" "x \<le> int (length a)" "y \<le> int (length b)" "\<And>e. e \<le> d \<Longrightarrow> kept a b e (tr ! e)"
  shows "turns (rev (walk_back tr d x y)) (take (nat x) a) (take (nat y) b) \<and> edits (walk_back tr d x y) = d"
  using assms
proof (induction d arbitrary: k x y)
  case 0
  then have k: "k = 0" "x = snake a b 0 0" "y = x" by (simp_all add: on_diag_0)
  then have "0 \<le> x" using snake_ge by simp
  have "turns ([] @ replicate (nat (x - 0)) CHR '' '') (take (nat x) a) (take (nat (x - 0 + 0)) b)"
    by (rule turns_snake) (use k 0 in simp_all)
  then show ?case using k \<open>0 \<le> x\<close> by (simp add: keep_back_eq)
next
  case (Suc d)
  let ?prev = "tr ! Suc d"
  have rd: "at ?prev (j + int (Suc d) + 1) = far a b d j" if "on_diag d j" for j
    using Suc.prems(6) [of "Suc d"] that by (simp add: kept_def)
  have x: "0 \<le> x" "0 \<le> y" using far_lower [OF Suc.prems(1), of a b] Suc.prems(2,3) by simp_all
  have xy: "x - y = k" using Suc.prems(3) by simp
  have rm: "at ?prev (k - 1 + int (Suc d) + 1) = far a b d (k - 1)" if "k \<noteq> - int (Suc d)"
    using rd on_diag_below(1) [OF Suc.prems(1)] that by blast
  have rp: "at ?prev (k + 1 + int (Suc d) + 1) = far a b d (k + 1)" if "k \<noteq> int (Suc d)"
    using rd on_diag_below(2) [OF Suc.prems(1)] that by blast
  let ?choice = "k = - int (Suc d) \<or> (k \<noteq> int (Suc d) \<and> at ?prev (k - 1 + int (Suc d) + 1) < at ?prev (k + 1 + int (Suc d) + 1))"
  have ch: "?choice \<longleftrightarrow> k = - int (Suc d) \<or> (k \<noteq> int (Suc d) \<and> far a b d (k - 1) < far a b d (k + 1))"
    using rm rp by (cases "k = - int (Suc d) \<or> k = int (Suc d)") auto
  from Suc.prems(1) show ?case
  proof (cases rule: far_step [where a = a and b = b])
    case ins
    let ?px = "far a b d (k + 1)"
    have p: "at ?prev (k + 1 + int (Suc d) + 1) = ?px" using rd [OF ins(1)] .
    have sn: "x = snake a b ?px (?px - k)" using ins(3) Suc.prems(2) by simp
    have ge: "?px \<le> x" using snake_ge [of ?px a b "?px - k"] sn by simp
    have lo: "0 \<le> ?px" "k + 1 \<le> ?px" using far_lower [OF ins(1), of a b] by simp_all
    have kb: "keep_back ?px (?px - (k + 1)) x y = (replicate (nat (x - ?px)) CHR '' '', ?px, ?px - k)"
      using ge Suc.prems(3) by (simp add: keep_back_eq min_def)
    have w: "walk_back tr (Suc d) x y = replicate (nat (x - ?px)) CHR '' '' @ CHR ''+'' # walk_back tr d ?px (?px - (k + 1))"
      using ch ins(2) by (simp only: walk_back.simps(2) Let_def xy if_True p kb prod.case) (simp only: diff_diff_eq if_True refl)
    have ih: "turns (rev (walk_back tr d ?px (?px - (k + 1)))) (take (nat ?px) a) (take (nat (?px - (k + 1))) b) \<and>
        edits (walk_back tr d ?px (?px - (k + 1))) = d"
      using Suc.IH [OF ins(1) refl refl] Suc.prems(3-6) ge by simp
    have "?px - (k + 1) < int (length b)" using ge Suc.prems(3,5) by simp
    then have "take (nat (?px - k)) b = take (nat (?px - (k + 1))) b @ [b ! nat (?px - (k + 1))]"
      using take_one_more [of "?px - (k + 1)" b] lo by simp
    then have t1: "turns (rev (walk_back tr d ?px (?px - (k + 1))) @ [CHR ''+'']) (take (nat ?px) a) (take (nat (?px - k)) b)"
      using turns_append [OF conjunct1 [OF ih] turns_plus1] by simp
    have "turns ((rev (walk_back tr d ?px (?px - (k + 1))) @ [CHR ''+'']) @ replicate (nat (x - ?px)) CHR '' '') (take (nat x) a)
        (take (nat (x - ?px + (?px - k))) b)"
      by (rule turns_snake [OF sn lo(1) _ Suc.prems(4) _ t1]) (use lo Suc.prems(3,5) in simp_all)
    moreover have "x - ?px + (?px - k) = y" using Suc.prems(3) by simp
    ultimately show ?thesis using ih unfolding w by simp
  next
    case del
    let ?px = "far a b d (k - 1)"
    have p: "at ?prev (k - 1 + int (Suc d) + 1) = ?px" using rd [OF del(1)] .
    have sn: "x = snake a b (?px + 1) (?px + 1 - k)" using del(3) Suc.prems(2) by simp
    have ge: "?px + 1 \<le> x" using snake_ge [of "?px + 1" a b "?px + 1 - k"] sn by simp
    have lo: "0 \<le> ?px" "k - 1 \<le> ?px" using far_lower [OF del(1), of a b] by simp_all
    have kb: "keep_back ?px (?px - (k - 1)) x y = (replicate (nat (x - (?px + 1))) CHR '' '', ?px + 1, ?px + 1 - k)"
      using ge Suc.prems(3) by (simp add: keep_back_eq min_def)
    have w: "walk_back tr (Suc d) x y = replicate (nat (x - (?px + 1))) CHR '' '' @ CHR ''-'' # walk_back tr d ?px (?px + 1 - k)"
      using ch del(2) by (simp only: walk_back.simps(2) Let_def xy if_False p kb prod.case) simp
    have ih: "turns (rev (walk_back tr d ?px (?px - (k - 1)))) (take (nat ?px) a) (take (nat (?px - (k - 1))) b) \<and>
        edits (walk_back tr d ?px (?px - (k - 1))) = d"
      using Suc.IH [OF del(1) refl refl] Suc.prems(3-6) ge by simp
    have e: "?px - (k - 1) = ?px + 1 - k" by simp
    have "?px < int (length a)" using ge Suc.prems(4) by simp
    then have "take (nat (?px + 1)) a = take (nat ?px) a @ [a ! nat ?px]" by (rule take_one_more [OF lo(1)])
    then have t1: "turns (rev (walk_back tr d ?px (?px + 1 - k)) @ [CHR ''-'']) (take (nat (?px + 1)) a) (take (nat (?px + 1 - k)) b)"
      using turns_append [OF conjunct1 [OF ih] turns_minus1] by (simp add: e)
    have "turns ((rev (walk_back tr d ?px (?px + 1 - k)) @ [CHR ''-'']) @ replicate (nat (x - (?px + 1))) CHR '' '') (take (nat x) a)
        (take (nat (x - (?px + 1) + (?px + 1 - k))) b)"
      by (rule turns_snake [OF sn _ _ Suc.prems(4) _ t1]) (use lo Suc.prems(3,5) in simp_all)
    moreover have "x - (?px + 1) + (?px + 1 - k) = y" using Suc.prems(3) by simp
    ultimately show ?thesis using ih unfolding w e by simp
  qed
qed

section \<open>The script of a comparison\<close>

lemma edits_replaceAll: "edits (replaceAll a b) = length a + length b"
  by (simp add: edits_def replaceAll_def)

lemma shortestEdit_cases:
  assumes "a \<noteq> []" "b \<noteq> []"
  obtains (found) f where "f \<le> min (length a + length b) MaxEditDistance" "turns (shortestEdit a b) a b" "edits (shortestEdit a b) = f"
      "\<And>e k. e < f \<Longrightarrow> on_diag e k \<Longrightarrow> \<not> finished a b e k"
    | (far_apart) "shortestEdit a b = replaceAll a b"
      "\<And>e k. e \<le> min (length a + length b) MaxEditDistance \<Longrightarrow> on_diag e k \<Longrightarrow> \<not> finished a b e k"
proof -
  let ?L = "min (length a + length b) MaxEditDistance"
  obtain tr res where r: "rounds a b (int ?L + 1) [0..<Suc ?L] (replicate (2 * ?L + 3) 0) [] = (tr, res)" by (metis prod.exhaust)
  have h: "holds_far a b (int ?L + 1) 0 (replicate (2 * ?L + 3) 0)"
  proof -
    have "nat (int ?L + 1 + 1) = ?L + 2" "?L + 2 < 2 * ?L + 3" by simp_all
    then show ?thesis by (simp only: holds_far_def at_def nat.case nth_replicate)
  qed
  have "length (replicate (2 * ?L + 3) (0 :: int)) = nat (2 * (int ?L + 1) + 1)" by simp
  note far = rounds_far [OF r refl _ h _ this, simplified]
  show thesis
  proof (cases res)
    case None
    have "shortestEdit a b = replaceAll a b"
      using assms r None unfolding shortestEdit_def Let_def by simp
    then show thesis using far None by (intro far_apart) auto
  next
    case (Some f)
    have f: "f \<le> ?L" "\<exists>k. on_diag f k \<and> finished a b f k" "\<And>e k. e < f \<Longrightarrow> on_diag e k \<Longrightarrow> \<not> finished a b e k"
      "\<And>e. e \<le> f \<Longrightarrow> kept a b e (tr ! e)" using far Some by auto
    from f(2) obtain k where k: "on_diag f k" "finished a b f k" by blast
    note e = finished_exact [OF assms(1) k f(3)]
    have s: "shortestEdit a b = rev (walk_back tr f (int (length a)) (int (length b)))"
      using assms r Some unfolding shortestEdit_def Let_def by simp
    have "turns (rev (walk_back tr f (int (length a)) (int (length b)))) (take (nat (int (length a))) a) (take (nat (int (length b))) b) \<and>
        edits (walk_back tr f (int (length a)) (int (length b))) = f"
    proof (rule walk_back_script [OF k(1) _ _ _ _ f(4)])
      show "int (length a) = far a b f k" using e by metis
      show "int (length b) = int (length a) - k" using e by simp
    qed simp_all
    then have "turns (shortestEdit a b) a b" "edits (shortestEdit a b) = f"
      by (simp_all add: s edits_def flip: rev_filter)
    with found f(1,3) show thesis by blast
  qed
qed

lemma turns_shortestEdit: "turns (shortestEdit a b) a b"
proof (cases "a = [] \<or> b = []")
  case True
  then show ?thesis by (simp add: shortestEdit_def turns_replaceAll)
next
  case False
  then have ne: "a \<noteq> []" "b \<noteq> []" by simp_all
  then show ?thesis
  proof (cases rule: shortestEdit_cases [of a b])
    case far_apart
    then show ?thesis by (simp add: turns_replaceAll)
  qed
qed

lemma turns_from_empty: "turns s [] b \<Longrightarrow> edits s = length b"
proof (induction s arbitrary: b)
  case (Cons c s)
  from Cons.prems show ?case by (cases rule: turns_cases) (use Cons.IH in auto)
qed simp

lemma turns_to_empty: "turns s a [] \<Longrightarrow> edits s = length a"
proof (induction s arbitrary: a)
  case (Cons c s)
  from Cons.prems show ?case by (cases rule: turns_cases) (use Cons.IH in auto)
qed simp

lemma turns_bound: "turns s a b \<Longrightarrow> edits s \<le> length a + length b"
proof (induction s arbitrary: a b)
  case (Cons c s)
  from Cons.prems show ?case
    by (cases rule: turns_cases) (use Cons.IH in \<open>force+\<close>)
qed simp

lemma shortestEdit_shortest:
  assumes "turns s a b" "edits s \<le> MaxEditDistance"
  shows "edits (shortestEdit a b) \<le> edits s"
proof (cases "a = [] \<or> b = []")
  case True
  then show ?thesis
    using turns_from_empty [of s b] turns_to_empty [of s a] assms(1) by (auto simp: shortestEdit_def edits_replaceAll)
next
  case False
  from turns_finishes [OF assms(1)] obtain k where k: "on_diag (edits s) k" "finished a b (edits s) k" by blast
  from False have "a \<noteq> []" "b \<noteq> []" by simp_all
  then show ?thesis
  proof (cases rule: shortestEdit_cases [of a b])
    case (found f)
    with k show ?thesis by (meson not_le_imp_less)
  next
    case far_apart
    with far_apart(2) [OF _ k(1)] k(2) assms(2) turns_bound [OF assms(1)] show ?thesis by auto
  qed
qed

section \<open>Shared lines at both ends\<close>

lemma common_prefix_take: "take (common_prefix a b) a = take (common_prefix a b) b \<and> common_prefix a b \<le> length a \<and> common_prefix a b \<le> length b"
  by (induction a b rule: common_prefix.induct) auto

text \<open>Both texts, cut where the comparison cuts them.\<close>

lemma cut_texts:
  fixes a b :: "'l list"
  defines "pre \<equiv> common_prefix a b"
  defines "suf \<equiv> common_prefix (rev (drop pre a)) (rev (drop pre b))"
  defines "middle \<equiv> \<lambda>l :: 'l list. take (length l - pre - suf) (drop pre l)"
  obtains p q where "a = p @ middle a @ q" "b = p @ middle b @ q" "length p = pre" "length q = suf"
proof -
  note p = common_prefix_take [of a b, folded pre_def]
  note q = common_prefix_take [of "rev (drop pre a)" "rev (drop pre b)", folded suf_def]
  let ?q = "rev (take suf (rev (drop pre a)))"
  have q1: "drop pre l = middle l @ rev (take suf (rev (drop pre l)))" if "suf \<le> length (drop pre l)" for l
    unfolding middle_def by (simp only: rev_take rev_rev_ident length_rev length_drop append_take_drop_id)
  have "a = take pre a @ middle a @ ?q"
    using q1 [of a] q append_take_drop_id [of pre a] by (metis length_rev)
  moreover have "b = take pre a @ middle b @ ?q"
    using q1 [of b] p q append_take_drop_id [of pre b] by (metis length_rev)
  moreover have "length (take pre a) = pre" "length ?q = suf" using p q by simp_all
  ultimately show thesis by (rule that)
qed

lemma EditScript_cut:
  fixes a b :: "'l list"
  obtains p a' b' q where "a = p @ a' @ q" "b = p @ b' @ q"
    "EditScript a b = replicate (length p) CHR '' '' @ shortestEdit a' b' @ replicate (length q) CHR '' ''"
proof (rule cut_texts [of a b])
  fix p q
  let ?pre = "common_prefix a b"
  let ?suf = "common_prefix (rev (drop ?pre a)) (rev (drop ?pre b))"
  let ?mid = "\<lambda>l :: 'l list. take (length l - ?pre - ?suf) (drop ?pre l)"
  assume c: "a = p @ ?mid a @ q" "b = p @ ?mid b @ q" and l: "length p = ?pre" "length q = ?suf"
  have "EditScript a b = replicate (length p) CHR '' '' @ shortestEdit (?mid a) (?mid b) @ replicate (length q) CHR '' ''"
    by (simp only: EditScript_def Let_def l)
  with that c show thesis by blast
qed

lemma turns_drop_new: "turns s a (z # b) \<Longrightarrow> \<exists>s'. turns s' a b \<and> edits s' \<le> edits s + 1"
proof (induction s arbitrary: a)
  case (Cons c s)
  from Cons.prems show ?case
  proof (cases rule: turns_cases)
    case (keep x a' b')
    then show ?thesis by (intro exI [of _ "CHR ''-'' # s"]) simp
  next
    case (minus x a')
    with Cons.IH obtain s' where "turns s' a' b" "edits s' \<le> edits s + 1" by blast
    with minus show ?thesis by (intro exI [of _ "CHR ''-'' # s'"]) simp
  next
    case (plus y b')
    then show ?thesis by (intro exI [of _ s]) simp
  qed
qed simp

lemma turns_drop_old: "turns s (z # a) b \<Longrightarrow> \<exists>s'. turns s' a b \<and> edits s' \<le> edits s + 1"
proof (induction s arbitrary: b)
  case (Cons c s)
  from Cons.prems show ?case
  proof (cases rule: turns_cases)
    case (keep x a' b')
    then show ?thesis by (intro exI [of _ "CHR ''+'' # s"]) simp
  next
    case (minus x a')
    then show ?thesis by (intro exI [of _ s]) simp
  next
    case (plus y b')
    with Cons.IH obtain s' where "turns s' a b'" "edits s' \<le> edits s + 1" by blast
    with plus show ?thesis by (intro exI [of _ "CHR ''+'' # s'"]) simp
  qed
qed simp

lemma turns_strip: "turns s (p @ a) (p @ b) \<Longrightarrow> \<exists>s'. turns s' a b \<and> edits s' \<le> edits s"
proof (induction p arbitrary: s)
  case (Cons z p)
  have "\<exists>s'. turns s' (p @ a) (p @ b) \<and> edits s' \<le> edits s"
  proof (cases s)
    case (Cons c t)
    with Cons.prems have "turns (c # t) (z # p @ a) (z # p @ b)" by simp
    then show ?thesis
    proof (cases rule: turns_cases)
      case (minus x a')
      with turns_drop_new [of t "p @ a" z "p @ b"] Cons show ?thesis by auto
    next
      case (plus y b')
      with turns_drop_old [of t z "p @ a" "p @ b"] Cons show ?thesis by auto
    qed (use Cons in auto)
  qed (use Cons.prems in simp)
  then show ?case using Cons.IH order.trans by blast
qed auto

lemma turns_rev: "turns s a b \<Longrightarrow> turns (rev s) (rev a) (rev b)"
proof (induction s arbitrary: a b)
  case (Cons c s)
  from Cons.prems show ?case
  proof (cases rule: turns_cases)
    case (keep x a' b')
    then show ?thesis using turns_append [OF Cons.IH [OF keep(4)], of "[c]" "[x]" "[x]"] by simp
  next
    case (minus x a')
    then show ?thesis using turns_append [OF Cons.IH [OF minus(3)], of "[c]" "[x]" "[]"] by simp
  next
    case (plus y b')
    then show ?thesis using turns_append [OF Cons.IH [OF plus(3)], of "[c]" "[]" "[y]"] by simp
  qed
qed simp

lemma edits_rev [simp]: "edits (rev s) = edits s"
  by (simp add: edits_def flip: rev_filter)

lemma turns_strip_both:
  assumes "turns s (p @ a @ q) (p @ b @ q)"
  shows "\<exists>s'. turns s' a b \<and> edits s' \<le> edits s"
proof -
  from turns_strip [OF assms] obtain s1 where s1: "turns s1 (a @ q) (b @ q)" "edits s1 \<le> edits s" by blast
  from turns_rev [OF s1(1)] have "turns (rev s1) (rev q @ rev a) (rev q @ rev b)" by simp
  from turns_strip [OF this] obtain s2 where s2: "turns s2 (rev a) (rev b)" "edits s2 \<le> edits (rev s1)" by blast
  from turns_rev [OF s2(1)] s2(2) s1(2) show ?thesis by (intro exI [of _ "rev s2"]) simp
qed

section \<open>Hunks\<close>

lemma turns_run:
  "turns ops a b \<Longrightarrow>
     (let run = takeWhile (\<lambda>c. c \<noteq> CHR '' '') ops; olds = length (filter (\<lambda>c. c = CHR ''-'') run); news = length (filter (\<lambda>c. c \<noteq> CHR ''-'') run)
      in olds \<le> length a \<and> news \<le> length b \<and> turns (dropWhile (\<lambda>c. c \<noteq> CHR '' '') ops) (drop olds a) (drop news b))"
proof (induction ops arbitrary: a b)
  case (Cons c ops)
  from Cons.prems show ?case
  proof (cases rule: turns_cases)
    case keep
    with Cons.prems show ?thesis by simp
  next
    case (minus x a')
    with Cons.IH [OF minus(3)] show ?thesis by (simp add: Let_def)
  next
    case (plus y b')
    with Cons.IH [OF plus(3)] show ?thesis by (simp add: Let_def)
  qed
qed simp

text \<open>Accepting hunks, from the last to the first.\<close>

definition accept_hunks :: "'l list \<Rightarrow> Hunk list \<Rightarrow> 'l list \<Rightarrow> 'l list option" where
  "accept_hunks b hs a = foldr (\<lambda>h r. Option.bind r (\<lambda>l. splice l (OldStart h) (OldCount h) b (NewStart h) (NewCount h))) hs (Some a)"

lemma splice_run:
  assumes "ai + olds \<le> length a" "bi + news \<le> length b"
  shows "splice (take (ai + olds) a @ drop (bi + news) b) ai olds b bi news = Some (take ai a @ drop bi b)"
proof -
  have "take news (drop bi b) @ drop (bi + news) b = drop bi b"
    by (metis add.commute append_take_drop_id drop_drop)
  moreover have "slice (take (ai + olds) a @ drop (bi + news) b) 0 ai = Some (take ai a)"
    "slice b bi (bi + news) = Some (take news (drop bi b))"
    "slice (take (ai + olds) a @ drop (bi + news) b) (ai + olds) (length (take (ai + olds) a @ drop (bi + news) b)) = Some (drop (bi + news) b)"
    using assms by (simp_all add: slice_def)
  ultimately show ?thesis by (simp add: splice_def)
qed

lemma accept_hunks_from:
  "turns ops (drop ai a) (drop bi b) \<Longrightarrow> ai \<le> length a \<Longrightarrow> bi \<le> length b \<Longrightarrow>
     accept_hunks b (hunks_from ops ai bi) a = Some (take ai a @ drop bi b)"
proof (induction ops ai bi rule: hunks_from.induct)
  case (1 ai bi)
  then show ?case by (simp add: accept_hunks_def)
next
  case (2 c ops ai bi)
  show ?case
  proof (cases "c = CHR '' ''")
    case True
    from "2.prems"(1) obtain x a' b' where ab: "drop ai a = x # a'" "drop bi b = x # b'" "turns ops a' b'"
      by (cases rule: turns_cases) (use True in auto)
    then have l: "ai < length a" "bi < length b" by (metis drop_all list.distinct(1) not_le)+
    then have d: "a ! ai = x" "drop (Suc ai) a = a'" "b ! bi = x" "drop (Suc bi) b = b'"
      using ab(1,2) by (simp_all add: Cons_nth_drop_Suc [symmetric])
    have "accept_hunks b (hunks_from ops (Suc ai) (Suc bi)) a = Some (take (Suc ai) a @ drop (Suc bi) b)"
      using "2.IH"(1) True ab(3) d l by simp
    then show ?thesis using True l d ab(2) by (simp add: take_Suc_conv_app_nth)
  next
    case False
    let ?run = "takeWhile (\<lambda>c. c \<noteq> CHR '' '') (c # ops)"
    let ?o = "length (filter (\<lambda>c. c = CHR ''-'') ?run)" and ?n = "length (filter (\<lambda>c. c \<noteq> CHR ''-'') ?run)"
    from turns_run [OF "2.prems"(1)] have r: "?o \<le> length a - ai" "?n \<le> length b - bi"
        "turns (dropWhile (\<lambda>c. c \<noteq> CHR '' '') (c # ops)) (drop (ai + ?o) a) (drop (bi + ?n) b)"
      unfolding Let_def by (simp_all only: length_drop drop_drop add.commute)
    have l: "ai + ?o \<le> length a" "bi + ?n \<le> length b" using r(1,2) "2.prems"(2,3) by linarith+
    from "2.IH"(2) [OF False refl refl refl r(3) l]
    have "accept_hunks b (hunks_from (dropWhile (\<lambda>c. c \<noteq> CHR '' '') (c # ops)) (ai + ?o) (bi + ?n)) a = Some (take (ai + ?o) a @ drop (bi + ?n) b)" .
    then have "accept_hunks b (\<lparr>OldStart = ai, OldCount = ?o, NewStart = bi, NewCount = ?n\<rparr> #
        hunks_from (dropWhile (\<lambda>c. c \<noteq> CHR '' '') (c # ops)) (ai + ?o) (bi + ?n)) a = Some (take ai a @ drop bi b)"
      using splice_run [OF l] by (simp only: accept_hunks_def foldr.simps o_apply Option.bind.bind_lunit Hunk.select_convs)
    then show ?thesis using False by (simp only: hunks_from.simps(2) Let_def if_False)
  qed
qed

lemma edit_script_turns': "turns (EditScript a b) a b"
proof (rule EditScript_cut [of a b])
  fix p a' b' q
  assume ab: "a = p @ a' @ q" "b = p @ b' @ q"
    and e: "EditScript a b = replicate (length p) CHR '' '' @ shortestEdit a' b' @ replicate (length q) CHR '' ''"
  show ?thesis
    unfolding e unfolding ab by (intro turns_append turns_keep turns_shortestEdit)
qed

lemma concat_SplitAfter: "concat (SplitAfter s) = s"
  by (induction s) (auto split: list.splits)

lemma concat_SplitLines: "concat (SplitLines s) = s"
proof (cases "s = ''''")
  case False
  have "SplitAfter s \<noteq> []" by (cases s) (auto split: list.splits)
  then have "concat (butlast (SplitAfter s)) @ last (SplitAfter s) = s"
    using concat_SplitAfter [of s] by (metis append_butlast_last_id concat.simps concat_append append_Nil2)
  with False concat_SplitAfter [of s] show ?thesis by (auto simp: SplitLines_def Let_def)
qed (simp add: SplitLines_def)

section \<open>Properties\<close>

text \<open>
  The script of a comparison turns the old text into the new one: every kept line is the same line of both, every
  removed line is the old text's next, every added line the new one's, and nothing of either is left.
\<close>

theorem edit_script_turns: "turns (EditScript a b) a b"
  by (rule edit_script_turns')

text \<open>
  C29: No script that turns the old text into the new one removes and adds fewer lines, as long as one does with no more
  than the bound of the search.
\<close>

theorem edit_script_shortest:
  assumes "turns s a b" "edits s \<le> MaxEditDistance"
  shows "edits (EditScript a b) \<le> edits s"
proof (rule EditScript_cut [of a b])
  fix p a' b' q
  assume ab: "a = p @ a' @ q" "b = p @ b' @ q"
    and e: "EditScript a b = replicate (length p) CHR '' '' @ shortestEdit a' b' @ replicate (length q) CHR '' ''"
  from turns_strip_both [OF assms(1) [unfolded ab]] obtain s' where "turns s' a' b'" "edits s' \<le> edits s" by blast
  with shortestEdit_shortest [of s' a' b'] assms(2) show ?thesis by (simp add: e)
qed

text \<open>
  The hunks of two texts are what changed between them: accepting every hunk of the new text, from the last to the
  first, turns the old text into the new one, and no hunk reaches beyond either.
\<close>

theorem hunks_accepted: "accept_hunks b (Hunks a b) a = Some b"
  using accept_hunks_from [of "EditScript a b" 0 a 0 b] edit_script_turns' [of a b] by (simp add: Hunks_def)

section \<open>Two texts\<close>

theorem edit_script_shortest_witness: "edits (EditScript [''a'', ''b'', ''c''] [''a'', ''c'', ''d'']) \<le> 2"
proof -
  have "turns '' - +'' [''a'', ''b'', ''c''] [''a'', ''c'', ''d'']" "edits '' - +'' \<le> MaxEditDistance"
    by (simp_all add: MaxEditDistance_def)
  from edit_script_shortest [OF this] show ?thesis by simp
qed

end
