(* ===== verification/Limiter.thy ===== *)
theory Limiter
  imports Egress
begin

text \<open>
  How the egress proxy bounds what it records: \<^verbatim>\<open>internal/egress/limit.go\<close>. Each operation runs under the
  limiter's lock, so a run is a list of operations in the order they took it: a decision, or a tick of the
  interval. \<open>singles\<close> are the decisions given to \<open>emit\<close> one by one and \<open>summaries\<close> what a flush gave it.
  The text of the interval in a summary's reason is a parameter.
\<close>

record Event =
  ev_CallID :: string
  ev_Kind :: string
  ev_Host :: string
  ev_Port :: nat
  ev_IP :: string
  ev_Method :: string
  ev_Path :: string
  ev_Decision :: Decision
  ev_Rule :: string
  ev_Reason :: string
  BytesIn :: int
  BytesOut :: int
  Synthetic :: string
  Upstream :: string
  Resolved :: string
  Repeats :: int

definition defaultBurst :: int where "defaultBurst = 10"
definition maxPerInterval :: int where "maxPerInterval = 100"
definition defaultAllowBudget :: int where "defaultAllowBudget = 200"
definition maxKinds :: int where "maxKinds = 512"

record tally =
  t_recorded :: int
  suppressed :: int
  bytesIn :: int
  bytesOut :: int
  sample :: Event

record limiter =
  burst :: int
  allowBudget :: int
  interval :: string
  kinds :: "(string, tally) gomap"
  order :: "string list"
  heldAllow :: int
  heldDeny :: int
  total :: int
  allowed :: int
  stopped :: bool

definition newLimiter :: "int \<Rightarrow> int \<Rightarrow> string \<Rightarrow> limiter" where
  "newLimiter b budget every =
     \<lparr>burst = if b \<le> 0 then defaultBurst else b, allowBudget = if budget \<le> 0 then defaultAllowBudget else budget, interval = every,
      kinds = [], order = [], heldAllow = 0, heldDeny = 0, total = 0, allowed = 0, stopped = False\<rparr>"

fun Decision_text :: "Decision \<Rightarrow> string" where
  "Decision_text Allow = ''allow''"
| "Decision_text Deny = ''deny''"
| "Decision_text WouldDeny = ''would_deny''"

definition kindKey :: "Event \<Rightarrow> string" where
  "kindKey e = ev_Kind e @ ''|'' @ Decision_text (ev_Decision e) @ ''|'' @ ev_Rule e @ ''|'' @ ev_Host e @ ''|'' @ FormatInt (int (ev_Port e))"

definition bare_sample :: "Event \<Rightarrow> Event" where
  "bare_sample e = e\<lparr>ev_CallID := '''', ev_Method := '''', ev_Path := '''', ev_IP := '''', BytesIn := 0, BytesOut := 0\<rparr>"

definition overflow_key :: "Decision \<Rightarrow> string" where
  "overflow_key d = ''overflow|'' @ Decision_text d"

definition overflow_sample :: "Decision \<Rightarrow> Event" where
  "overflow_sample d =
     \<lparr>ev_CallID = '''', ev_Kind = ''summary'', ev_Host = '''', ev_Port = 0, ev_IP = '''', ev_Method = '''', ev_Path = '''', ev_Decision = d,
      ev_Rule = ''rate'', ev_Reason = (if d = Allow then ''allowed connections'' else ''denials'') @ '' of many kinds'',
      BytesIn = 0, BytesOut = 0, Synthetic = '''', Upstream = '''', Resolved = '''', Repeats = 0\<rparr>"

definition new_tally :: "int \<Rightarrow> Event \<Rightarrow> tally" where
  "new_tally n s = \<lparr>t_recorded = n, suppressed = 0, bytesIn = 0, bytesOut = 0, sample = s\<rparr>"

definition put_tally :: "string \<Rightarrow> tally \<Rightarrow> limiter \<Rightarrow> limiter" where
  "put_tally key t l = l\<lparr>kinds := AList.update key t (kinds l)\<rparr>"

text \<open>The key of the tally of an event, begun if need be.\<close>

definition tallyFor :: "Event \<Rightarrow> limiter \<Rightarrow> string \<times> limiter" where
  "tallyFor e l =
     (let key = kindKey e
      in if map_of (kinds l) key \<noteq> None then (key, l)
         else let held = (if ev_Decision e = Allow then heldAllow l else heldDeny l)
           in if held \<ge> maxKinds
              then (let ov = overflow_key (ev_Decision e)
                in if map_of (kinds l) ov \<noteq> None then (ov, l)
                   else (ov, put_tally ov (new_tally (burst l) (overflow_sample (ev_Decision e))) (l\<lparr>order := order l @ [ov]\<rparr>)))
              else (key, put_tally key (new_tally 0 (bare_sample e))
                (if ev_Decision e = Allow then l\<lparr>heldAllow := held + 1, order := order l @ [key]\<rparr>
                 else l\<lparr>heldDeny := held + 1, order := order l @ [key]\<rparr>)))"

definition tally_at :: "limiter \<Rightarrow> string \<Rightarrow> tally" where
  "tally_at l key = the (map_of (kinds l) key)"

definition hold_back :: "Event \<Rightarrow> string \<Rightarrow> limiter \<Rightarrow> limiter" where
  "hold_back e key l =
     (let t = tally_at l key
      in put_tally key (t\<lparr>suppressed := suppressed t + 1, bytesIn := bytesIn t + BytesIn e, bytesOut := bytesOut t + BytesOut e\<rparr>) l)"

definition record_decision :: "Event \<Rightarrow> limiter \<Rightarrow> Event list \<times> limiter" where
  "record_decision e l =
     (if ev_Decision e = Allow
      then (if allowed l < allowBudget l then ([e], l\<lparr>allowed := allowed l + 1\<rparr>)
        else case tallyFor e l of (key, l') \<Rightarrow> ([], hold_back e key l'))
      else case tallyFor e l of
          (key, l') \<Rightarrow>
            let t = tally_at l' key
            in if t_recorded t < burst l' \<and> total l' < maxPerInterval
               then ([e], put_tally key (t\<lparr>t_recorded := t_recorded t + 1\<rparr>) (l'\<lparr>total := total l' + 1\<rparr>))
               else ([], hold_back e key l'))"

definition summary :: "limiter \<Rightarrow> tally \<Rightarrow> Event" where
  "summary l t =
     (let s = (sample t)\<lparr>Repeats := suppressed t, BytesIn := bytesIn t, BytesOut := bytesOut t\<rparr>
      in s\<lparr>ev_Reason := (if ev_Decision s = Allow
           then FormatInt (suppressed t) @ '' more allowed within '' @ interval l @ '', over the '' @ FormatInt (allowBudget l) @ '' recorded one by one''
           else FormatInt (suppressed t) @ '' more like this within '' @ interval l @ '', not recorded one by one; the first: '' @ ev_Reason (sample t))\<rparr>)"

definition flush :: "limiter \<Rightarrow> Event list \<times> limiter" where
  "flush l =
     (map (summary l) (filter (\<lambda>t. suppressed t \<noteq> 0) (map (tally_at l) (order l))),
      l\<lparr>kinds := [], order := [], total := 0, allowed := 0, heldAllow := 0, heldDeny := 0\<rparr>)"

definition stop :: "limiter \<Rightarrow> Event list \<times> limiter" where
  "stop l = (if stopped l then ([], l) else flush (l\<lparr>stopped := True\<rparr>))"

datatype limiter_step = Decided Event | Tick

text \<open>A run: what was recorded one by one, the summaries, and the limiter it leaves.\<close>

fun limiter_run :: "limiter_step list \<Rightarrow> limiter \<Rightarrow> Event list \<times> Event list \<times> limiter" where
  "limiter_run [] l = ([], [], l)"
| "limiter_run (Decided e # xs) l = (case record_decision e l of
       (out, l') \<Rightarrow> (case limiter_run xs l' of (singles, sums, l'') \<Rightarrow> (out @ singles, sums, l'')))"
| "limiter_run (Tick # xs) l = (case flush l of
       (out, l') \<Rightarrow> (case limiter_run xs l' of (singles, sums, l'') \<Rightarrow> (singles, out @ sums, l'')))"

end
