(* ===== verification/LimiterLaws.thy ===== *)
theory LimiterLaws
  imports Limiter
begin

text \<open>
  What the limiter promises: every decision is accounted for, one by one or in a summary, with its bytes, and
  what one interval adds to the record is bounded whatever is decided in it.
\<close>

section \<open>The limiter's invariant\<close>

definition overflow_keys :: "string list" where
  "overflow_keys = map overflow_key [Allow, Deny, WouldDeny]"

text \<open>A tally that has held nothing back has no bytes.\<close>

definition sound :: "tally \<Rightarrow> bool" where
  "sound t \<longleftrightarrow> 0 \<le> suppressed t \<and> (suppressed t = 0 \<longrightarrow> bytesIn t = 0 \<and> bytesOut t = 0)"

definition counts :: "limiter \<Rightarrow> bool" where
  "counts l \<longleftrightarrow> distinct (order l) \<and> (\<forall>k. k \<in> set (order l) \<longleftrightarrow> map_of (kinds l) k \<noteq> None) \<and>
     int (length (filter (\<lambda>k. k \<notin> set overflow_keys) (order l))) \<le> heldAllow l + heldDeny l \<and>
     heldAllow l \<le> maxKinds \<and> heldDeny l \<le> maxKinds \<and> 0 \<le> allowed l \<and> 0 \<le> total l \<and> total l \<le> maxPerInterval \<and>
     (\<forall>k \<in> set (order l). sound (tally_at l k))"

text \<open>What the tallies hold back, by some measure of a tally.\<close>

definition pend :: "(tally \<Rightarrow> int) \<Rightarrow> limiter \<Rightarrow> int" where
  "pend f l = sum_list (map (\<lambda>k. f (tally_at l k)) (order l))"

lemma put_tally_simps [simp]:
  "order (put_tally k t l) = order l" "kinds (put_tally k t l) = AList.update k t (kinds l)" "heldAllow (put_tally k t l) = heldAllow l"
  "heldDeny (put_tally k t l) = heldDeny l" "total (put_tally k t l) = total l" "allowed (put_tally k t l) = allowed l"
  "burst (put_tally k t l) = burst l" "allowBudget (put_tally k t l) = allowBudget l" "interval (put_tally k t l) = interval l"
  "stopped (put_tally k t l) = stopped l"
  by (simp_all add: put_tally_def)

lemma tally_at_put: "tally_at (put_tally k t l) k' = (if k' = k then t else tally_at l k')"
  by (simp add: tally_at_def)

lemma tally_at_kinds: "kinds l' = kinds l \<Longrightarrow> tally_at l' k = tally_at l k"
  by (simp add: tally_at_def)

lemma sum_other: "k \<notin> set xs \<Longrightarrow> (\<Sum>k' \<leftarrow> xs. f (if k' = k then t else g k')) = (\<Sum>k' \<leftarrow> xs. f (g k'))"
  by (intro arg_cong [where f = sum_list] map_cong) auto

lemma pend_put:
  assumes "distinct (order l)" "k \<in> set (order l)"
  shows "pend f (put_tally k t l) = pend f l + f t - f (tally_at l k)"
proof -
  from assms(2) obtain xs ys where o: "order l = xs @ k # ys" by (meson split_list)
  with assms(1) have "k \<notin> set xs" "k \<notin> set ys" by auto
  then show ?thesis by (simp add: pend_def o tally_at_put sum_other)
qed

lemma pend_new:
  assumes "k \<notin> set (order l)" "kinds l' = AList.update k t (kinds l)" "order l' = order l @ [k]"
  shows "pend f l' = pend f l + f t"
proof -
  have "tally_at l' k' = (if k' = k then t else tally_at l k')" for k'
    by (simp add: tally_at_def assms(2))
  with assms(1) show ?thesis by (simp add: pend_def assms(3) sum_other)
qed

lemma counts_fresh: "counts l \<Longrightarrow> map_of (kinds l) k = None \<Longrightarrow> k \<notin> set (order l)"
  by (simp add: counts_def)

lemma counts_new:
  assumes "counts l" "map_of (kinds l) k = None" "kinds l' = AList.update k (new_tally n s) (kinds l)" "order l' = order l @ [k]"
    and "k \<in> set overflow_keys \<and> heldAllow l' + heldDeny l' = heldAllow l + heldDeny l \<or> heldAllow l' + heldDeny l' = heldAllow l + heldDeny l + 1"
    and "heldAllow l' \<le> maxKinds" "heldDeny l' \<le> maxKinds" "allowed l' = allowed l" "total l' = total l"
  shows "counts l'"
proof -
  have t: "tally_at l' k' = (if k' = k then new_tally n s else tally_at l k')" for k'
    by (simp add: tally_at_def assms(3))
  have "sound (new_tally n s)" by (simp add: sound_def new_tally_def)
  moreover have "map_of (kinds l') k' \<noteq> None \<longleftrightarrow> k' = k \<or> map_of (kinds l) k' \<noteq> None" for k'
    by (simp add: assms(3))
  ultimately show ?thesis
    using assms(1,5-9) counts_fresh [OF assms(1,2)] unfolding counts_def assms(4) by (auto simp: t)
qed

lemma tallyFor_counts:
  assumes "tallyFor e l = (key, l')" "counts l"
  shows "counts l' \<and> key \<in> set (order l') \<and> allowed l' = allowed l \<and> total l' = total l \<and> burst l' = burst l \<and> allowBudget l' = allowBudget l"
proof (cases "map_of (kinds l) (kindKey e) = None")
  case False
  with assms show ?thesis by (auto simp: tallyFor_def Let_def counts_def)
next
  case new: True
  show ?thesis
  proof (cases "(if ev_Decision e = Allow then heldAllow l else heldDeny l) \<ge> maxKinds")
    case True
    let ?ov = "overflow_key (ev_Decision e)"
    have ov: "?ov \<in> set overflow_keys" by (cases "ev_Decision e") (simp_all add: overflow_keys_def)
    show ?thesis
    proof (cases "map_of (kinds l) ?ov = None")
      case False
      with True assms new show ?thesis by (auto simp: tallyFor_def Let_def counts_def)
    next
      case None: True
      then have l': "key = ?ov" "l' = put_tally ?ov (new_tally (burst l) (overflow_sample (ev_Decision e))) (l\<lparr>order := order l @ [?ov]\<rparr>)"
        using True assms(1) new by (simp_all add: tallyFor_def Let_def split: if_splits)
      have "counts l'" by (rule counts_new [OF assms(2) None]) (use l' ov assms(2) in \<open>simp_all add: counts_def\<close>)
      with l' show ?thesis by simp
    qed
  next
    case False
    have l': "key = kindKey e" "order l' = order l @ [key]" "kinds l' = AList.update key (new_tally 0 (bare_sample e)) (kinds l)"
      "heldAllow l' + heldDeny l' = heldAllow l + heldDeny l + 1" "heldAllow l' \<le> maxKinds" "heldDeny l' \<le> maxKinds"
      "allowed l' = allowed l" "total l' = total l" "burst l' = burst l" "allowBudget l' = allowBudget l"
      using assms new False by (auto simp: tallyFor_def Let_def counts_def split: if_splits)
    have "counts l'" by (rule counts_new [OF assms(2) new]) (use l' in simp_all)
    with l' show ?thesis by simp
  qed
qed

lemma tallyFor_pend:
  assumes "tallyFor e l = (key, l')" "counts l" "\<And>n s. f (new_tally n s) = 0"
  shows "pend f l' = pend f l"
proof -
  have fresh: "k \<notin> set (order l)" if "map_of (kinds l) k = None" for k
    using assms(2) that by (simp add: counts_def)
  show ?thesis
    using assms(1) pend_new [OF fresh] assms(3) by (auto simp: tallyFor_def Let_def split: if_splits)
qed

lemma put_counts: "counts l \<Longrightarrow> k \<in> set (order l) \<Longrightarrow> sound t \<Longrightarrow> counts (put_tally k t l)"
  by (auto simp: counts_def tally_at_put)

section \<open>Accounts\<close>

text \<open>A measure of a decision and the same of what a tally holds back and of a summary.\<close>

definition measures :: "(Event \<Rightarrow> int) \<Rightarrow> (tally \<Rightarrow> int) \<Rightarrow> (Event \<Rightarrow> int) \<Rightarrow> bool" where
  "measures w f g \<longleftrightarrow> (\<forall>n s. f (new_tally n s) = 0) \<and>
     (\<forall>e t. f (t\<lparr>suppressed := suppressed t + 1, bytesIn := bytesIn t + BytesIn e, bytesOut := bytesOut t + BytesOut e\<rparr>) = f t + w e) \<and>
     (\<forall>t n. f (t\<lparr>t_recorded := n\<rparr>) = f t) \<and> (\<forall>l t. g (summary l t) = f t)"

lemma measures_of:
  "measures (\<lambda>_. 1) suppressed Repeats" "measures BytesIn bytesIn BytesIn" "measures BytesOut bytesOut BytesOut"
  by (simp_all add: measures_def new_tally_def summary_def Let_def)

lemma hold_back_pend:
  assumes "counts l" "key \<in> set (order l)" "measures w f g"
  shows "pend f (hold_back e key l) = pend f l + w e"
  using assms pend_put [of l key f] by (simp add: hold_back_def Let_def counts_def measures_def)

lemma hold_back_counts: "counts l \<Longrightarrow> key \<in> set (order l) \<Longrightarrow> counts (hold_back e key l)"
proof -
  assume "counts l" "key \<in> set (order l)"
  moreover from this have "sound (tally_at l key)" by (simp add: counts_def)
  ultimately show ?thesis
    unfolding hold_back_def Let_def by (intro put_counts) (auto simp: sound_def)
qed

lemma hold_back_simps [simp]: "allowed (hold_back e k l) = allowed l" "total (hold_back e k l) = total l"
  "allowBudget (hold_back e k l) = allowBudget l"
  by (simp_all add: hold_back_def Let_def)

lemma record_decision_step:
  assumes "record_decision e l = (out, l')" "counts l" "measures w f g"
  shows "counts l' \<and> w e + pend f l = sum_list (map w out) + pend f l' \<and> allowBudget l' = allowBudget l \<and>
     int (length out) = (allowed l' - allowed l) + (total l' - total l) \<and> (allowed l \<le> allowBudget l \<longrightarrow> allowed l' \<le> allowBudget l')"
proof -
  obtain key l1 where t: "tallyFor e l = (key, l1)" by (metis prod.exhaust)
  note c = tallyFor_counts [OF t assms(2)]
  have p: "pend f l1 = pend f l" using tallyFor_pend [OF t assms(2), of f] assms(3) by (simp add: measures_def)
  have h: "counts (hold_back e key l1)" "pend f (hold_back e key l1) = pend f l + w e"
    using hold_back_counts hold_back_pend [OF _ _ assms(3)] c p by simp_all
  show ?thesis
  proof (cases "ev_Decision e = Allow")
    case True
    show ?thesis
    proof (cases "allowed l < allowBudget l")
      case ok: True
      then have "out = [e]" "l' = l\<lparr>allowed := allowed l + 1\<rparr>" using assms(1) True by (simp_all add: record_decision_def)
      then show ?thesis using assms(2) ok by (simp add: counts_def pend_def tally_at_def)
    next
      case False
      then have "out = []" "l' = hold_back e key l1" using assms(1) True t by (simp_all add: record_decision_def)
      then show ?thesis using h c by simp
    qed
  next
    case deny: False
    let ?t = "tally_at l1 key"
    show ?thesis
    proof (cases "t_recorded ?t < burst l1 \<and> total l1 < maxPerInterval")
      case True
      let ?l = "l1\<lparr>total := total l1 + 1\<rparr>"
      have l': "out = [e]" "l' = put_tally key (?t\<lparr>t_recorded := t_recorded ?t + 1\<rparr>) ?l"
        using assms(1) deny t True by (simp_all add: record_decision_def Let_def)
      have cl: "counts ?l" "key \<in> set (order ?l)" using c True by (auto simp: counts_def tally_at_def)
      have "pend f ?l = pend f l1" "tally_at ?l key = ?t" by (simp_all add: pend_def tally_at_def)
      then have "pend f l' = pend f l1"
        using pend_put [of ?l key f] cl assms(3) by (simp add: l' counts_def measures_def)
      moreover have "sound ?t" using c unfolding counts_def by blast
      then have "counts l'" unfolding l'(2) by (intro put_counts [OF cl]) (simp add: sound_def)
      ultimately show ?thesis using l' c p by simp
    next
      case False
      then have "out = []" "l' = hold_back e key l1" using assms(1) deny t by (auto simp: record_decision_def Let_def)
      then show ?thesis using h c by simp
    qed
  qed
qed

lemma flush_counts: "counts l \<Longrightarrow> flush l = (out, l') \<Longrightarrow> counts l'"
  by (auto simp: flush_def counts_def maxKinds_def maxPerInterval_def)

lemma flush_sum:
  assumes "flush l = (out, l')" "measures w f g" "counts l" "\<And>t. sound t \<Longrightarrow> suppressed t = 0 \<Longrightarrow> f t = 0"
  shows "sum_list (map g out) = pend f l \<and> pend f l' = 0"
proof -
  have "sum_list (map (\<lambda>t. g (summary l t)) (filter (\<lambda>t. suppressed t \<noteq> 0) ts)) = sum_list (map f ts)"
    if "\<And>t. t \<in> set ts \<Longrightarrow> suppressed t = 0 \<Longrightarrow> f t = 0" for ts
    using that assms(2) by (induction ts) (auto simp: measures_def)
  from this [of "map (tally_at l) (order l)"] assms(3,4) have
    "sum_list (map (\<lambda>t. g (summary l t)) (filter (\<lambda>t. suppressed t \<noteq> 0) (map (tally_at l) (order l)))) = pend f l"
    by (auto simp: pend_def o_def counts_def)
  with assms(1) show ?thesis by (auto simp: flush_def pend_def o_def)
qed

section \<open>Runs\<close>

fun decided :: "limiter_step list \<Rightarrow> Event list" where
  "decided [] = []"
| "decided (Decided e # xs) = e # decided xs"
| "decided (Tick # xs) = decided xs"

lemma limiter_run_accounts:
  assumes "limiter_run xs l = (singles, sums, l')" "counts l" "measures w f g" "\<And>t. sound t \<Longrightarrow> suppressed t = 0 \<Longrightarrow> f t = 0"
  shows "counts l' \<and> sum_list (map w (decided xs)) + pend f l = sum_list (map w singles) + sum_list (map g sums) + pend f l'"
  using assms(1,2)
proof (induction xs arbitrary: l singles sums)
  case (Cons x xs)
  show ?case
  proof (cases x)
    case (Decided e)
    obtain out l1 where r: "record_decision e l = (out, l1)" by (metis prod.exhaust)
    obtain s1 u1 l2 where n: "limiter_run xs l1 = (s1, u1, l2)" by (metis prod_cases3)
    have "singles = out @ s1" "sums = u1" "l2 = l'" using Cons.prems(1) Decided r n by simp_all
    with record_decision_step [OF r Cons.prems(2) assms(3)] Cons.IH [OF n [unfolded \<open>l2 = l'\<close>]] Decided show ?thesis by simp
  next
    case Tick
    obtain out l1 where r: "flush l = (out, l1)" by (metis prod.exhaust)
    obtain s1 u1 l2 where n: "limiter_run xs l1 = (s1, u1, l2)" by (metis prod_cases3)
    have "singles = s1" "sums = out @ u1" "l2 = l'" using Cons.prems(1) Tick r n by simp_all
    with flush_counts [OF Cons.prems(2) r] flush_sum [OF r assms(3) Cons.prems(2) assms(4)] Cons.IH [OF n [unfolded \<open>l2 = l'\<close>]] Tick show ?thesis by simp
  qed
qed simp

lemma newLimiter_counts: "counts (newLimiter b n t)" "pend f (newLimiter b n t) = 0" "\<not> stopped (newLimiter b n t)"
  by (simp_all add: newLimiter_def counts_def pend_def maxKinds_def maxPerInterval_def)

lemma run_then_stop:
  assumes "limiter_run xs (newLimiter b n t) = (singles, sums, l)" "\<not> stopped l" "measures w f g"
    "\<And>t. sound t \<Longrightarrow> suppressed t = 0 \<Longrightarrow> f t = 0"
  shows "sum_list (map w (decided xs)) = sum_list (map w singles) + sum_list (map g (sums @ fst (stop l)))"
proof -
  note a = limiter_run_accounts [OF assms(1) newLimiter_counts(1) assms(3,4)]
  obtain out l' where f: "flush (l\<lparr>stopped := True\<rparr>) = (out, l')" by (metis prod.exhaust)
  have c: "counts (l\<lparr>stopped := True\<rparr>)" "pend f (l\<lparr>stopped := True\<rparr>) = pend f l"
    using a by (simp_all add: counts_def pend_def tally_at_def)
  from flush_sum [OF f assms(3) c(1) assms(4)] c(2) a assms(2) f newLimiter_counts(2) [of f b n t]
  show ?thesis by (simp add: stop_def)
qed

lemma tallyFor_stopped: "tallyFor e l = (key, l') \<Longrightarrow> stopped l' = stopped l"
  by (auto simp: tallyFor_def Let_def split: if_splits)

lemma limiter_run_stopped: "stopped (snd (snd (limiter_run xs l))) = stopped l"
proof (induction xs arbitrary: l)
  case (Cons x xs)
  have "stopped (snd (record_decision e l)) = stopped l" for e
    by (auto simp: record_decision_def hold_back_def Let_def dest: tallyFor_stopped split: prod.splits)
  moreover have "stopped (snd (flush l)) = stopped l" by (simp add: flush_def)
  ultimately show ?case using Cons by (cases x) (simp_all add: split_beta)
qed simp

text \<open>
  Nothing the limiter holds back is lost: over any run of decisions and ticks that ends with a stop, the decisions
  recorded one by one and the repeats of the summaries are as many as were decided, and together they carry the
  decisions' bytes in and out.
\<close>

theorem every_decision_accounted_for:
  "let (singles, sums, l) = limiter_run xs (newLimiter b n t); summed = sums @ fst (stop l)
   in int (length (decided xs)) = int (length singles) + sum_list (map Repeats summed) \<and>
      sum_list (map BytesIn (decided xs)) = sum_list (map BytesIn (singles @ summed)) \<and>
      sum_list (map BytesOut (decided xs)) = sum_list (map BytesOut (singles @ summed))"
proof -
  obtain singles sums l where r: "limiter_run xs (newLimiter b n t) = (singles, sums, l)" by (metis prod_cases3)
  have ns: "\<not> stopped l" using limiter_run_stopped [of xs "newLimiter b n t"] r newLimiter_counts(3) by simp
  have one: "(\<Sum>e \<leftarrow> es. 1) = int (length es)" for es :: "Event list" by (induction es) simp_all
  note a = run_then_stop [OF r ns measures_of(1)] run_then_stop [OF r ns measures_of(2)] run_then_stop [OF r ns measures_of(3)]
  have "int (length (decided xs)) = int (length singles) + sum_list (map Repeats (sums @ fst (stop l)))"
    using a(1) by (simp only: one)
  moreover have "sum_list (map BytesIn (decided xs)) = sum_list (map BytesIn (singles @ (sums @ fst (stop l))))"
    using a(2) by (simp add: sound_def)
  moreover have "sum_list (map BytesOut (decided xs)) = sum_list (map BytesOut (singles @ (sums @ fst (stop l))))"
    using a(3) by (simp add: sound_def)
  ultimately show ?thesis by (simp only: r Let_def prod.case)
qed

section \<open>Bounds\<close>

lemma overflow_part: "distinct xs \<Longrightarrow> length (filter (\<lambda>k. k \<in> set overflow_keys) xs) \<le> 3"
proof -
  assume "distinct xs"
  then have "length (filter (\<lambda>k. k \<in> set overflow_keys) xs) = card (set xs \<inter> set overflow_keys)"
    by (metis distinct_card distinct_filter set_filter Int_def)
  also have "\<dots> \<le> card (set overflow_keys)" by (intro card_mono) simp_all
  also have "\<dots> \<le> 3" using card_length [of overflow_keys] by (simp add: overflow_keys_def)
  finally show ?thesis .
qed

lemma flush_bound: "counts l \<Longrightarrow> int (length (fst (flush l))) \<le> 2 * maxKinds + 3"
proof -
  assume c: "counts l"
  have "length (fst (flush l)) \<le> length (order l)" by (simp add: flush_def le_trans [OF length_filter_le])
  moreover have "length (order l) = length (filter (\<lambda>k. k \<in> set overflow_keys) (order l)) + length (filter (\<lambda>k. k \<notin> set overflow_keys) (order l))"
    using sum_length_filter_compl [of "\<lambda>k. k \<in> set overflow_keys" "order l"] by simp
  ultimately show ?thesis using c overflow_part [of "order l"] by (simp add: counts_def)
qed

lemma decisions_bound:
  assumes "limiter_run (map Decided es) l = (singles, sums, l')" "counts l" "allowed l \<le> allowBudget l"
  shows "sums = [] \<and> counts l' \<and> allowBudget l' = allowBudget l \<and> allowed l' \<le> allowBudget l \<and>
     int (length singles) = (allowed l' - allowed l) + (total l' - total l)"
  using assms
proof (induction es arbitrary: l singles)
  case (Cons e es)
  obtain out l1 where r: "record_decision e l = (out, l1)" by (metis prod.exhaust)
  obtain s1 u1 l2 where n: "limiter_run (map Decided es) l1 = (s1, u1, l2)" by (metis prod_cases3)
  have e: "singles = out @ s1" "sums = u1" "l' = l2" using Cons.prems(1) r n by simp_all
  note st = record_decision_step [OF r Cons.prems(2) measures_of(1)]
  have "limiter_run (map Decided es) l1 = (s1, sums, l')" using n e by simp
  from Cons.IH [OF this] st Cons.prems(3) e(1) show ?case by simp
qed simp

lemma limiter_run_Tick: "limiter_run (xs @ [Tick]) l = (case limiter_run xs l of (s, u, l1) \<Rightarrow> (s, u @ fst (flush l1), snd (flush l1)))"
proof (induction xs arbitrary: l)
  case (Cons x xs)
  then show ?case by (cases x) (simp_all add: split_beta)
qed (simp add: split_beta)

lemma tallyFor_budget: "tallyFor e l = (key, l') \<Longrightarrow> allowBudget l' = allowBudget l"
  by (auto simp: tallyFor_def Let_def split: if_splits)

lemma limiter_run_budget: "allowBudget (snd (snd (limiter_run xs l))) = allowBudget l"
proof (induction xs arbitrary: l)
  case (Cons x xs)
  have "allowBudget (snd (record_decision e l)) = allowBudget l" for e
    by (auto simp: record_decision_def Let_def dest: tallyFor_budget split: prod.splits)
  moreover have "allowBudget (snd (flush l)) = allowBudget l" by (simp add: flush_def)
  ultimately show ?case using Cons by (cases x) (simp_all add: split_beta)
qed simp

text \<open>
  Whatever was decided before, one interval adds at most the budget of allowed decisions and a hundred others one by
  one, and its end at most two summaries for each kind it has room for and one for each of the three decisions past them.
\<close>

theorem interval_bounded:
  "let (_, _, l0) = limiter_run (xs @ [Tick]) (newLimiter b n t); (singles, sums, l) = limiter_run (map Decided es) l0
   in int (length singles) \<le> allowBudget (newLimiter b n t) + maxPerInterval \<and> sums = [] \<and> int (length (fst (flush l))) \<le> 2 * maxKinds + 3"
proof -
  obtain s u l1 where r: "limiter_run xs (newLimiter b n t) = (s, u, l1)" by (metis prod_cases3)
  let ?l0 = "snd (flush l1)"
  have c: "counts l1" using limiter_run_accounts [OF r newLimiter_counts(1) measures_of(1)] by (simp add: sound_def)
  have b: "allowBudget l1 = allowBudget (newLimiter b n t)" using limiter_run_budget [of xs "newLimiter b n t"] r by simp
  have c0: "counts ?l0" by (rule flush_counts [OF c]) (rule surjective_pairing)
  have z: "allowed ?l0 = 0" "total ?l0 = 0" "allowBudget ?l0 = allowBudget (newLimiter b n t)" using b by (simp_all add: flush_def)
  moreover have "0 \<le> allowBudget (newLimiter b n t)" by (simp add: newLimiter_def defaultAllowBudget_def)
  ultimately have le: "allowed ?l0 \<le> allowBudget ?l0" by simp
  obtain s2 u2 l2 where r2: "limiter_run (map Decided es) ?l0 = (s2, u2, l2)" by (metis prod_cases3)
  note d = decisions_bound [OF r2 c0 le]
  then have "int (length s2) \<le> allowBudget (newLimiter b n t) + maxPerInterval" using z by (simp add: counts_def)
  with d flush_bound [of l2] show ?thesis by (simp add: limiter_run_Tick r r2)
qed

end
