(* ===== verification/Accounts.thy ===== *)
theory Accounts
  imports Store "HOL-Library.List_Lexorder" "HOL-Library.Char_ord"
begin

text \<open>
  The local accounts: \<^verbatim>\<open>auth/local.go\<close> (users, the store's interface, the memory store, creating accounts,
  changing groups and passwords) and \<^verbatim>\<open>auth/filestore.go\<close>. The errors of the package are sentinels of theory
  \<open>Errors\<close> that name their text; a formatted message keeps its fixed words and what it wraps. Unicode's tables
  (lower case, simple folding) are the parameters of \<open>texts\<close>, bcrypt and SHA-256 those of \<open>hashing\<close>. A store that
  answers \<open>nil\<close> without an error does not occur: neither store of the package does it.
\<close>

section \<open>Errors\<close>

definition ErrBadCredentials :: gerror where "ErrBadCredentials = Sentinel (OtherError ''incorrect username or password'')"
definition ErrUserExists :: gerror where "ErrUserExists = Sentinel (OtherError ''that username is already taken'')"
definition ErrWeakPassword :: gerror where "ErrWeakPassword = Sentinel (OtherError ''password must be at least 10 characters'')"
definition ErrBadEmail :: gerror where "ErrBadEmail = Sentinel (OtherError ''email must be a plain address, such as name@example.com'')"
definition ErrEmailTaken :: gerror where "ErrEmailTaken = Sentinel (OtherError ''that email belongs to another account'')"
definition no_such_user :: sentinel where "no_such_user = OtherError ''no such user''"
definition ErrNoSuchUser :: gerror where "ErrNoSuchUser = Sentinel no_such_user"
definition ErrSamePassword :: gerror where
  "ErrSamePassword = Sentinel (OtherError ''choose a new password; it cannot be the same as the current one'')"

section \<open>Texts\<close>

text \<open>
  \<open>ParseAddress\<close> is \<^verbatim>\<open>net/mail\<close>'s, a display name and an address; \<open>HasInvisible\<close> tells of a text with a character of
  Unicode's format, control, ignorable and space classes, as \<^verbatim>\<open>hasInvisible\<close> asks the tables.
\<close>

record texts =
  ToLowerText :: "string \<Rightarrow> string"
  EqualFoldText :: "string \<Rightarrow> string \<Rightarrow> bool"
  ParseAddress :: "string \<Rightarrow> (string \<times> string) option"
  HasInvisible :: "string \<Rightarrow> bool"

definition ascii_lower :: "char \<Rightarrow> char" where
  "ascii_lower c = (if 65 \<le> byte_val c \<and> byte_val c \<le> 90 then char_of (byte_val c + 32) else c)"

text \<open>The ASCII half of the tables, and those of a program that only meets ASCII.\<close>

definition ascii_texts :: texts where
  "ascii_texts = \<lparr>ToLowerText = map ascii_lower, EqualFoldText = (\<lambda>a b. map ascii_lower a = map ascii_lower b),
     ParseAddress = (\<lambda>s. if CHR ''@'' \<in> set s \<and> list_all is_print s then Some ('''', s) else None),
     HasInvisible = (\<lambda>s. \<not> list_all is_print s)\<rparr>"

section \<open>Accounts\<close>

record User =
  u_Username :: string
  u_Email :: string
  u_Name :: string
  u_Tenant :: string
  u_Groups :: "string list"
  u_Hash :: string
  u_CreatedAt :: time
  u_MustChange :: bool
  u_Revocations :: int

text \<open>
  A store of accounts: \<open>us_Create\<close>, \<open>us_AddRevocation\<close> and \<open>us_Version\<close> are the methods of the interfaces
  \<^verbatim>\<open>CreatingUserStore\<close>, \<^verbatim>\<open>RevokingUserStore\<close> and \<^verbatim>\<open>VersionedUserStore\<close> a store may have as well.
\<close>

record 'm UserStore =
  us_Get :: "string \<Rightarrow> 'm \<Rightarrow> gerror + User"
  us_Put :: "User \<Rightarrow> 'm \<Rightarrow> gerror option \<times> 'm"
  us_List :: "'m \<Rightarrow> gerror + User list"
  us_Delete :: "string \<Rightarrow> 'm \<Rightarrow> gerror option \<times> 'm"
  us_Create :: "(User \<Rightarrow> 'm \<Rightarrow> gerror option \<times> 'm) option"
  us_AddRevocation :: "(string \<Rightarrow> 'm \<Rightarrow> (gerror + int) \<times> 'm) option"
  us_Version :: "('m \<Rightarrow> gerror + string) option"

text \<open>What both stores do to the table of accounts, its keys being user names in lower case.\<close>

type_synonym users = "(string, User) gomap"

definition put_user :: "texts \<Rightarrow> User \<Rightarrow> users \<Rightarrow> users" where
  "put_user X u us =
     (let key = ToLowerText X (u_Username u)
      in AList.update key (case map_of us key of None \<Rightarrow> u | Some old \<Rightarrow> u\<lparr>u_Revocations := max (u_Revocations u) (u_Revocations old)\<rparr>) us)"

definition email_taken :: "texts \<Rightarrow> string \<Rightarrow> users \<Rightarrow> bool" where
  "email_taken X email us \<longleftrightarrow> list_ex (\<lambda>(_, other). EqualFoldText X (TrimSpace (u_Email other)) email) us"

definition create_user :: "texts \<Rightarrow> User \<Rightarrow> users \<Rightarrow> gerror + users" where
  "create_user X u us =
     (let key = ToLowerText X (u_Username u); email = TrimSpace (u_Email u)
      in if map_of us key \<noteq> None then Inl ErrUserExists
         else if email \<noteq> '''' \<and> email_taken X email us then Inl ErrEmailTaken
         else Inr (AList.update key u us))"

definition delete_user :: "texts \<Rightarrow> string \<Rightarrow> users \<Rightarrow> gerror + users" where
  "delete_user X name us =
     (let key = ToLowerText X name
      in if map_of us key = None then Inl ErrNoSuchUser else Inr (AList.delete key us))"

definition add_revocation :: "texts \<Rightarrow> string \<Rightarrow> users \<Rightarrow> gerror + (int \<times> users)" where
  "add_revocation X name us =
     (let key = ToLowerText X name
      in case map_of us key of
           None \<Rightarrow> Inl ErrNoSuchUser
         | Some u \<Rightarrow> let n = u_Revocations u + 1 in Inr (n, AList.update key (u\<lparr>u_Revocations := n\<rparr>) us))"

definition get_user :: "texts \<Rightarrow> string \<Rightarrow> users \<Rightarrow> gerror + User" where
  "get_user X name us = (case map_of us (ToLowerText X name) of None \<Rightarrow> Inl ErrNoSuchUser | Some u \<Rightarrow> Inr u)"

section \<open>The memory store\<close>

record MemoryUserStore =
  mu_users :: users
  mu_gen :: int

definition NewMemoryUserStore :: MemoryUserStore where
  "NewMemoryUserStore = \<lparr>mu_users = [], mu_gen = 0\<rparr>"

definition mu_write :: "users \<Rightarrow> MemoryUserStore \<Rightarrow> MemoryUserStore" where
  "mu_write us m = m\<lparr>mu_users := us, mu_gen := mu_gen m + 1\<rparr>"

definition MemoryUserStore_Get :: "texts \<Rightarrow> string \<Rightarrow> MemoryUserStore \<Rightarrow> gerror + User" where
  "MemoryUserStore_Get X name m = get_user X name (mu_users m)"

definition MemoryUserStore_Put :: "texts \<Rightarrow> User \<Rightarrow> MemoryUserStore \<Rightarrow> gerror option \<times> MemoryUserStore" where
  "MemoryUserStore_Put X u m = (None, mu_write (put_user X u (mu_users m)) m)"

definition MemoryUserStore_Create :: "texts \<Rightarrow> User \<Rightarrow> MemoryUserStore \<Rightarrow> gerror option \<times> MemoryUserStore" where
  "MemoryUserStore_Create X u m = (case create_user X u (mu_users m) of Inl e \<Rightarrow> (Some e, m) | Inr us \<Rightarrow> (None, mu_write us m))"

definition MemoryUserStore_List :: "MemoryUserStore \<Rightarrow> gerror + User list" where
  "MemoryUserStore_List m = Inr (map snd (mu_users m))"

definition MemoryUserStore_Delete :: "texts \<Rightarrow> string \<Rightarrow> MemoryUserStore \<Rightarrow> gerror option \<times> MemoryUserStore" where
  "MemoryUserStore_Delete X name m = (case delete_user X name (mu_users m) of Inl e \<Rightarrow> (Some e, m) | Inr us \<Rightarrow> (None, mu_write us m))"

definition MemoryUserStore_AddRevocation :: "texts \<Rightarrow> string \<Rightarrow> MemoryUserStore \<Rightarrow> (gerror + int) \<times> MemoryUserStore" where
  "MemoryUserStore_AddRevocation X name m = (case add_revocation X name (mu_users m) of
       Inl e \<Rightarrow> (Inl e, m) | Inr (n, us) \<Rightarrow> (Inr n, mu_write us m))"

definition MemoryUserStore_Version :: "MemoryUserStore \<Rightarrow> gerror + string" where
  "MemoryUserStore_Version m = Inr (FormatInt (mu_gen m))"

definition memory_users :: "texts \<Rightarrow> MemoryUserStore UserStore" where
  "memory_users X = \<lparr>us_Get = MemoryUserStore_Get X, us_Put = MemoryUserStore_Put X, us_List = MemoryUserStore_List,
     us_Delete = MemoryUserStore_Delete X, us_Create = Some (MemoryUserStore_Create X),
     us_AddRevocation = Some (MemoryUserStore_AddRevocation X), us_Version = Some MemoryUserStore_Version\<rparr>"

section \<open>The file store\<close>

text \<open>
  What stands in the file is the parameter type \<open>'b\<close> of contents; \<^verbatim>\<open>encoding/json\<close> makes them of a list of \<open>storedUser\<close> and reads them back
  (\<open>account_json\<close>), and either may fail. The fields \<open>Hash\<close> and \<open>Revocations\<close> of a \<open>User\<close> are tagged \<^verbatim>\<open>json:"-"\<close>, so they stand in \<open>storedUser\<close>
  again. The file holds the accounts sorted by name, and there may be none (\<open>None\<close>); \<open>fs_gen\<close> counts this process's writes and
  \<open>fs_mark\<close> stands for the file's modification time and size, which a write changes to what the disk says next
  (\<open>fs_marks\<close>). What the disk and the lock answer is in \<open>fs_disk\<close>: the error, worded as the store words it,
  of reading the file, of taking the lock, of writing and of asking for the mark.
\<close>

record storedUser =
  su_User :: User
  su_Hash :: string
  su_Revocations :: int

record 'b account_json =
  js_Marshal :: "storedUser list \<Rightarrow> gerror + 'b"
  js_Unmarshal :: "'b \<Rightarrow> gerror + storedUser list"

record file_disk =
  read_error :: "gerror option"
  lock_error :: "gerror option"
  write_error :: "gerror option"
  stat_error :: "gerror option"

record 'b FileUserStore =
  fs_file :: "'b option"
  fs_gen :: int
  fs_marks :: "string list"
  fs_disk :: file_disk

text \<open>An account as \<open>save\<close> wraps it and as \<open>load\<close> unwraps it.\<close>

definition wrap_user :: "User \<Rightarrow> storedUser" where
  "wrap_user u = \<lparr>su_User = u, su_Hash = u_Hash u, su_Revocations = u_Revocations u\<rparr>"

definition unwrap_user :: "storedUser \<Rightarrow> User" where
  "unwrap_user s = (su_User s)\<lparr>u_Hash := su_Hash s, u_Revocations := su_Revocations s\<rparr>"

definition fs_load :: "texts \<Rightarrow> 'b account_json \<Rightarrow> 'b FileUserStore \<Rightarrow> gerror + users" where
  "fs_load X J f = (case fs_file f of
       None \<Rightarrow> Inr []
     | Some data \<Rightarrow> (case read_error (fs_disk f) of
           Some e \<Rightarrow> Inl e
         | None \<Rightarrow> (case js_Unmarshal J data of
               Inl e \<Rightarrow> Inl (Errorf [e] ''parse'')
             | Inr stored \<Rightarrow> Inr (foldl (\<lambda>us s. let u = unwrap_user s in AList.update (ToLowerText X (u_Username u)) u us) [] stored))))"

definition fs_save :: "'b account_json \<Rightarrow> users \<Rightarrow> 'b FileUserStore \<Rightarrow> gerror option \<times> 'b FileUserStore" where
  "fs_save J us f =
     (let stored = sort_key (u_Username \<circ> su_User) (map (wrap_user \<circ> snd) us)
      in case js_Marshal J stored of
           Inl e \<Rightarrow> (Some e, f)
         | Inr data \<Rightarrow>
             let f' = f\<lparr>fs_gen := fs_gen f + 1\<rparr>
             in case write_error (fs_disk f) of
                  Some e \<Rightarrow> (Some e, f')
                | None \<Rightarrow> (None, f'\<lparr>fs_file := Some data, fs_marks := tl (fs_marks f)\<rparr>))"

definition fs_change :: "texts \<Rightarrow> 'b account_json \<Rightarrow> (users \<Rightarrow> gerror + users) \<Rightarrow> 'b FileUserStore \<Rightarrow> gerror option \<times> 'b FileUserStore" where
  "fs_change X J change f = (case lock_error (fs_disk f) of
       Some e \<Rightarrow> (Some e, f)
     | None \<Rightarrow> (case fs_load X J f of
           Inl e \<Rightarrow> (Some e, f)
         | Inr us \<Rightarrow> (case change us of Inl e \<Rightarrow> (Some e, f) | Inr us' \<Rightarrow> fs_save J us' f)))"

definition FileUserStore_Get :: "texts \<Rightarrow> 'b account_json \<Rightarrow> string \<Rightarrow> 'b FileUserStore \<Rightarrow> gerror + User" where
  "FileUserStore_Get X J name f = (case fs_load X J f of Inl e \<Rightarrow> Inl e | Inr us \<Rightarrow> get_user X name us)"

definition FileUserStore_Put :: "texts \<Rightarrow> 'b account_json \<Rightarrow> User \<Rightarrow> 'b FileUserStore \<Rightarrow> gerror option \<times> 'b FileUserStore" where
  "FileUserStore_Put X J u f = fs_change X J (\<lambda>us. Inr (put_user X u us)) f"

definition FileUserStore_Create :: "texts \<Rightarrow> 'b account_json \<Rightarrow> User \<Rightarrow> 'b FileUserStore \<Rightarrow> gerror option \<times> 'b FileUserStore" where
  "FileUserStore_Create X J u f = fs_change X J (create_user X u) f"

definition FileUserStore_List :: "texts \<Rightarrow> 'b account_json \<Rightarrow> 'b FileUserStore \<Rightarrow> gerror + User list" where
  "FileUserStore_List X J f = (case fs_load X J f of Inl e \<Rightarrow> Inl e | Inr us \<Rightarrow> Inr (map snd us))"

definition FileUserStore_Delete :: "texts \<Rightarrow> 'b account_json \<Rightarrow> string \<Rightarrow> 'b FileUserStore \<Rightarrow> gerror option \<times> 'b FileUserStore" where
  "FileUserStore_Delete X J name f = fs_change X J (delete_user X name) f"

text \<open>The number is the one the change computed; where an error comes with it, callers read the error only.\<close>

definition FileUserStore_AddRevocation :: "texts \<Rightarrow> 'b account_json \<Rightarrow> string \<Rightarrow> 'b FileUserStore \<Rightarrow> (gerror + int) \<times> 'b FileUserStore" where
  "FileUserStore_AddRevocation X J name f =
     (case fs_change X J (\<lambda>us. case add_revocation X name us of Inl e \<Rightarrow> Inl e | Inr (n, us') \<Rightarrow> Inr us') f of
        (Some e, f') \<Rightarrow> (Inl e, f')
      | (None, f') \<Rightarrow>
          (Inr (case fs_load X J f of
             Inr us \<Rightarrow> (case add_revocation X name us of Inr (n, _) \<Rightarrow> n | Inl _ \<Rightarrow> 0)
           | Inl _ \<Rightarrow> 0), f'))"

definition FileUserStore_Version :: "'b FileUserStore \<Rightarrow> gerror + string" where
  "FileUserStore_Version f = (case fs_file f of
       None \<Rightarrow> Inr (FormatInt (fs_gen f) @ '':none'')
     | Some _ \<Rightarrow> (case stat_error (fs_disk f) of
           Some e \<Rightarrow> Inl e
         | None \<Rightarrow> Inr (FormatInt (fs_gen f) @ '':'' @ hd (fs_marks f))))"

definition file_users :: "texts \<Rightarrow> 'b account_json \<Rightarrow> 'b FileUserStore UserStore" where
  "file_users X J = \<lparr>us_Get = FileUserStore_Get X J, us_Put = FileUserStore_Put X J, us_List = FileUserStore_List X J,
     us_Delete = FileUserStore_Delete X J, us_Create = Some (FileUserStore_Create X J),
     us_AddRevocation = Some (FileUserStore_AddRevocation X J), us_Version = Some FileUserStore_Version\<rparr>"

section \<open>Passwords\<close>

text \<open>
  bcrypt: \<open>bc_generate\<close> draws its salt from the outside and may refuse a password (one of more than 72 bytes);
  \<open>bc_matches\<close> compares a hash with a password. \<open>sha\<close> is SHA-256.
\<close>

record 'x hashing =
  bc_generate :: "string \<Rightarrow> 'x \<Rightarrow> (gerror + string) \<times> 'x"
  bc_matches :: "string \<Rightarrow> string \<Rightarrow> bool"
  sha :: "string \<Rightarrow> string"

definition passwordStamp :: "'x hashing \<Rightarrow> string \<Rightarrow> string" where
  "passwordStamp H h = (if h = '''' then '''' else hex_encode (take 8 (sha H h)))"

definition validUsername :: "string \<Rightarrow> bool" where
  "validUsername s \<longleftrightarrow> 2 \<le> length s \<and> length s \<le> 64 \<and>
     list_all (\<lambda>c. is_alnum c \<or> c = CHR ''.'' \<or> c = CHR ''_'' \<or> c = CHR ''-'') s"

end
