(* ===== verification/Identities.thy ===== *)
theory Identities
  imports Accounts
begin

text \<open>
  Who is calling, and what they own: \<^verbatim>\<open>auth/identity.go\<close>. \<open>claims\<close> says which principal an identity stands for;
  the owner strings, which every ownership check compares, are equal exactly when the principals are.
\<close>

section \<open>Identities\<close>

record Identity =
  Subject :: string
  id_Email :: string
  id_Name :: string
  id_Tenant :: string
  id_Groups :: "string list"
  IssuedAt :: int
  Expires :: int
  Provider :: string
  EmailVerified :: bool
  Scopes :: "string list"

definition ProviderLocal :: string where "ProviderLocal = ''local''"
definition ProviderProxy :: string where "ProviderProxy = ''proxy''"
definition Anonymous :: string where "Anonymous = ''anonymous''"
definition Subagent :: string where "Subagent = ''agent''"
definition UnclaimedPrefix :: string where "UnclaimedPrefix = ''unclaimed:''"
definition SchedulePrefix :: string where "SchedulePrefix = ''schedule:''"
definition NobodyPrefix :: string where "NobodyPrefix = ''nobody:''"

definition reservedOwners :: "string list" where
  "reservedOwners = [Anonymous, Subagent]"

definition reservedPrefixes :: "string list" where
  "reservedPrefixes = [''local:'', UnclaimedPrefix, ''oidc:'', ''github:'', ''proxy:'', ''subject:'', SchedulePrefix, NobodyPrefix]"

definition ValidEmail :: "texts \<Rightarrow> string \<Rightarrow> gerror option" where
  "ValidEmail X e = (case ParseAddress X e of
       None \<Rightarrow> Some ErrBadEmail
     | Some (nm, addr) \<Rightarrow>
         if nm \<noteq> '''' \<or> addr \<noteq> e \<or> count_list e CHR ''@'' \<noteq> 1 \<or> HasInvisible X e then Some ErrBadEmail else None)"

definition ownerEmail :: "texts \<Rightarrow> string \<Rightarrow> bool" where
  "ownerEmail X e \<longleftrightarrow> ValidEmail X e = None \<and> CHR '':'' \<notin> set e"

definition FoldEmailOwner :: "texts \<Rightarrow> string \<Rightarrow> string" where
  "FoldEmailOwner X owner = (if CHR ''@'' \<in> set owner \<and> CHR '':'' \<notin> set owner then ToLowerText X owner else owner)"

definition reserved :: "texts \<Rightarrow> string \<Rightarrow> bool" where
  "reserved X s \<longleftrightarrow> list_ex (\<lambda>w. EqualFoldText X (TrimSpace s) w) reservedOwners \<or>
     list_ex (\<lambda>p. length p \<le> length s \<and> EqualFoldText X (take (length p) s) p) reservedPrefixes"

definition external :: "texts \<Rightarrow> string \<Rightarrow> string \<Rightarrow> string" where
  "external X ns s = (if reserved X s then ns @ '':'' @ s else FoldEmailOwner X s)"

definition LocalOwner :: "texts \<Rightarrow> string \<Rightarrow> string" where
  "LocalOwner X username = ProviderLocal @ '':'' @ ToLowerText X username"

definition emailed :: "texts \<Rightarrow> Identity \<Rightarrow> bool" where
  "emailed X i \<longleftrightarrow> EmailVerified i \<and> ownerEmail X (id_Email i)"

definition Identity_Owner :: "texts \<Rightarrow> Identity option \<Rightarrow> string" where
  "Identity_Owner X i0 = (case i0 of
       None \<Rightarrow> Anonymous
     | Some i \<Rightarrow>
         if Provider i = ''''
         then (if Subject i = '''' \<or> Subject i = Anonymous then Anonymous else external X ''subject'' (Subject i))
         else if Provider i = ProviderLocal
         then (if Subject i = '''' then NobodyPrefix @ ProviderLocal else LocalOwner X (Subject i))
         else if Provider i = ProviderProxy
         then (if emailed X i then ToLowerText X (id_Email i)
           else if Subject i = '''' then NobodyPrefix @ ProviderProxy
           else external X ProviderProxy (Subject i))
         else if Subject i = '''' then NobodyPrefix @ Provider i
         else if emailed X i then ToLowerText X (id_Email i)
         else Provider i @ '':'' @ Subject i)"

definition OwnsNothing :: "string \<Rightarrow> bool" where
  "OwnsNothing owner \<longleftrightarrow> HasPrefix owner NobodyPrefix"

definition UnclaimedOwner :: "string \<Rightarrow> string" where
  "UnclaimedOwner owner = UnclaimedPrefix @ owner"

section \<open>Principals\<close>

text \<open>
  No one, a local account, a verified address (or one a trusted proxy names), a subject of an identity provider,
  a name a proxy or an unnamed provider vouches for, and such a name that only looks like another's.
\<close>

datatype principal =
    NoIdentity
  | Nobody string
  | LocalAccount string
  | Address string
  | SubjectOf string string
  | Named string

definition vouched :: "texts \<Rightarrow> string \<Rightarrow> string \<Rightarrow> principal" where
  "vouched X ns s = (if reserved X s then SubjectOf ns s
     else if CHR ''@'' \<in> set s \<and> CHR '':'' \<notin> set s then Address (ToLowerText X s) else Named s)"

definition claims :: "texts \<Rightarrow> Identity option \<Rightarrow> principal" where
  "claims X i0 = (case i0 of
       None \<Rightarrow> NoIdentity
     | Some i \<Rightarrow>
         if Provider i = '''' then (if Subject i = '''' \<or> Subject i = Anonymous then NoIdentity else vouched X ''subject'' (Subject i))
         else if Provider i = ProviderLocal
         then (if Subject i = '''' then Nobody ProviderLocal else LocalAccount (ToLowerText X (Subject i)))
         else if Subject i = '''' \<and> \<not> (Provider i = ProviderProxy \<and> emailed X i) then Nobody (Provider i)
         else if emailed X i then Address (ToLowerText X (id_Email i))
         else if Provider i = ProviderProxy then vouched X ProviderProxy (Subject i)
         else SubjectOf (Provider i) (Subject i))"

definition providers :: "string list" where
  "providers = ['''', ProviderLocal, ProviderProxy, ''oidc'', ''github'']"

text \<open>What of Unicode's tables matters: a text equals itself, and lower case keeps \<open>@\<close> and makes no \<open>:\<close>.\<close>

definition plain_texts :: "texts \<Rightarrow> bool" where
  "plain_texts X \<longleftrightarrow> (\<forall>s. EqualFoldText X s s) \<and>
     (\<forall>s. (CHR ''@'' \<in> set (ToLowerText X s)) = (CHR ''@'' \<in> set s)) \<and>
     (\<forall>s. CHR '':'' \<notin> set s \<longrightarrow> CHR '':'' \<notin> set (ToLowerText X s))"

text \<open>An owner string for each principal, from which the principal can be read off.\<close>

fun owner_of :: "principal \<Rightarrow> string" where
  "owner_of NoIdentity = Anonymous"
| "owner_of (Nobody p) = NobodyPrefix @ p"
| "owner_of (LocalAccount u) = ProviderLocal @ '':'' @ u"
| "owner_of (Address e) = e"
| "owner_of (SubjectOf p s) = p @ '':'' @ s"
| "owner_of (Named s) = s"

lemma Owner_claims: "Identity_Owner X i = owner_of (claims X i)"
  by (auto simp: Identity_Owner_def claims_def vouched_def external_def FoldEmailOwner_def LocalOwner_def split: option.splits)

text \<open>The principals that identities stand for.\<close>

definition proper :: "texts \<Rightarrow> principal \<Rightarrow> bool" where
  "proper X p \<longleftrightarrow> (case p of
       NoIdentity \<Rightarrow> True
     | Nobody q \<Rightarrow> CHR '':'' \<notin> set q
     | LocalAccount u \<Rightarrow> True
     | Address e \<Rightarrow> CHR ''@'' \<in> set e \<and> CHR '':'' \<notin> set e
     | SubjectOf q s \<Rightarrow> q \<in> {''subject'', ''proxy'', ''oidc'', ''github''}
     | Named s \<Rightarrow> \<not> reserved X s \<and> (CHR ''@'' \<in> set s \<longrightarrow> CHR '':'' \<in> set s))"

lemma count_mem: "count_list s c = 1 \<Longrightarrow> c \<in> set s"
  by (metis count_notin zero_neq_one)

lemma emailed_address: "emailed X i \<Longrightarrow> CHR ''@'' \<in> set (id_Email i) \<and> CHR '':'' \<notin> set (id_Email i)"
  unfolding emailed_def ownerEmail_def ValidEmail_def by (auto split: option.splits if_splits prod.splits intro: count_mem)

lemma proper_vouched:
  assumes "plain_texts X" "ns = ''subject'' \<or> ns = ''proxy''"
  shows "proper X (vouched X ns s)"
  using assms by (auto simp: vouched_def proper_def plain_texts_def)

lemma proper_address: "plain_texts X \<Longrightarrow> emailed X i \<Longrightarrow> proper X (Address (ToLowerText X (id_Email i)))"
  using emailed_address [of X i] by (simp add: proper_def plain_texts_def)

lemma proper_claims:
  assumes X: "plain_texts X" and p: "\<And>k. i = Some k \<Longrightarrow> Provider k \<in> set providers"
  shows "proper X (claims X i)"
proof (cases i)
  case (Some k)
  have ps: "Provider k = '''' \<or> Provider k = ''local'' \<or> Provider k = ''proxy'' \<or> Provider k = ''oidc'' \<or> Provider k = ''github''"
    using p [OF Some] by (auto simp: providers_def ProviderLocal_def ProviderProxy_def)
  show ?thesis
    unfolding Some claims_def using ps
    by (auto simp: proper_vouched [OF X] proper_address [OF X] ProviderLocal_def ProviderProxy_def) (auto simp: proper_def)
qed (simp add: claims_def proper_def)

lemma before_colon: "p @ CHR '':'' # s = q @ CHR '':'' # t \<Longrightarrow> CHR '':'' \<notin> set p \<Longrightarrow> CHR '':'' \<notin> set q \<Longrightarrow> p = q \<and> s = t"
proof (induction p arbitrary: q)
  case Nil
  then show ?case by (cases q) auto
next
  case (Cons x p)
  then show ?case by (cases q) auto
qed

lemma reserved_prefix: "plain_texts X \<Longrightarrow> p \<in> set reservedPrefixes \<Longrightarrow> reserved X (p @ s)"
  unfolding reserved_def list_ex_iff plain_texts_def by (intro disjI2 bexI [of _ p]) auto

lemma reserved_anonymous: "plain_texts X \<Longrightarrow> reserved X Anonymous"
proof -
  have t: "TrimSpace ''anonymous'' = ''anonymous''" by code_simp
  assume "plain_texts X"
  then show ?thesis by (simp add: reserved_def reservedOwners_def Anonymous_def plain_texts_def t)
qed

text \<open>Every principal but a plain name or an address has a head of its own before the first colon.\<close>

fun head_of :: "principal \<Rightarrow> (string \<times> string) option" where
  "head_of (Nobody p) = Some (''nobody'', p)"
| "head_of (LocalAccount u) = Some (''local'', u)"
| "head_of (SubjectOf p s) = Some (p, s)"
| "head_of _ = None"

lemma head_of_some:
  assumes "head_of p = Some (h, t)" "proper X p"
  shows "owner_of p = h @ CHR '':'' # t" "CHR '':'' \<notin> set h" "h @ '':'' \<in> set reservedPrefixes"
  using assms by (cases p; auto simp: proper_def NobodyPrefix_def ProviderLocal_def reservedPrefixes_def)+

lemma head_of_inj:
  assumes "head_of p = Some ht" "head_of q = Some ht" "proper X p" "proper X q"
  shows "p = q"
  using assms by (cases p; cases q) (auto simp: proper_def)

lemma head_of_none:
  assumes X: "plain_texts X" and "head_of p = None" "proper X p" "h @ '':'' \<in> set reservedPrefixes"
  shows "owner_of p \<noteq> h @ CHR '':'' # t"
proof (cases p)
  case NoIdentity
  then show ?thesis using reserved_anonymous [OF X] by (auto simp: Anonymous_def dest: arg_cong [of _ _ "\<lambda>s. CHR '':'' \<in> set s"])
next
  case (Named s)
  then have "\<not> reserved X s" using assms(3) by (simp add: proper_def)
  then show ?thesis using reserved_prefix [OF X assms(4), of t] Named by auto
next
  case (Address e)
  then show ?thesis using assms(3) by (auto simp: proper_def)
qed (use assms(2) in auto)

lemma owner_of_inj:
  assumes X: "plain_texts X" and p: "proper X p" and q: "proper X q" and eq: "owner_of p = owner_of q"
  shows "p = q"
proof (cases "head_of p")
  case (Some ht)
  obtain h t where ht: "ht = (h, t)" by force
  note a = head_of_some [OF Some [unfolded ht] p]
  have "head_of q \<noteq> None"
  proof
    assume "head_of q = None"
    from head_of_none [OF X this q a(3), of t] show False using a(1) eq by simp
  qed
  then obtain ht' where ht': "head_of q = Some ht'" by blast
  obtain h' t' where q': "head_of q = Some (h', t')" by (cases ht') (use ht' in auto)
  note b = head_of_some [OF q' q]
  have "h = h' \<and> t = t'" using before_colon [of h t h' t'] a b eq by simp
  then show ?thesis using head_of_inj [of p "(h, t)" q X] Some q' ht p q by simp
next
  case None
  have nq: "head_of q = None"
  proof (rule ccontr)
    assume "head_of q \<noteq> None"
    then obtain ht' where ht': "head_of q = Some ht'" by blast
    obtain h t where q': "head_of q = Some (h, t)" by (cases ht') (use ht' in auto)
    show False using head_of_none [OF X None p head_of_some(3) [OF q' q], of t] head_of_some(1) [OF q' q] eq by simp
  qed
  have anon: "owner_of r \<noteq> Anonymous" if "r = Named s \<or> r = Address s" "proper X r" for r s
  proof
    assume "owner_of r = Anonymous"
    then have "r = Named Anonymous \<or> r = Address Anonymous" using that(1) by auto
    then show False using that(2) reserved_anonymous [OF X] by (auto simp: proper_def Anonymous_def)
  qed
  show ?thesis
    using None nq eq p q anon [of p] anon [of q] by (cases p; cases q) (auto simp: proper_def)
qed

lemma local_account_claims:
  "claims X j = LocalAccount u \<longleftrightarrow> (\<exists>b. j = Some b \<and> Provider b = ProviderLocal \<and> Subject b \<noteq> '''' \<and> ToLowerText X (Subject b) = u)"
  by (auto simp: claims_def vouched_def ProviderLocal_def split: option.splits)

lemma subject_claims:
  assumes "p = ''oidc'' \<or> p = ''github''" "s \<noteq> ''''"
  shows "claims X j = SubjectOf p s \<longleftrightarrow> (\<exists>b. j = Some b \<and> Provider b = p \<and> Subject b = s \<and> \<not> emailed X b)"
  using assms by (auto simp: claims_def vouched_def ProviderLocal_def ProviderProxy_def split: option.splits)


lemma ascii_lower_fix: "byte_val d < 65 \<Longrightarrow> ascii_lower c = d \<longleftrightarrow> c = d"
proof
  assume d: "byte_val d < 65" and e: "ascii_lower c = d"
  show "c = d"
  proof (cases "65 \<le> byte_val c \<and> byte_val c \<le> 90")
    case True
    then have "byte_val d = byte_val c + 32" using e by (auto simp: ascii_lower_def byte_val_char_of)
    then show ?thesis using d True by simp
  qed (use e in \<open>auto simp: ascii_lower_def split: if_splits\<close>)
qed (auto simp: ascii_lower_def)

lemma ascii_lower_at: "ascii_lower c = CHR ''@'' \<longleftrightarrow> c = CHR ''@''" "ascii_lower c = CHR '':'' \<longleftrightarrow> c = CHR '':''"
  by (rule ascii_lower_fix, simp add: byte_val_def)+

lemma plain_ascii_texts: "plain_texts ascii_texts"
  unfolding plain_texts_def ascii_texts_def using ascii_lower_at by (simp add: image_iff) metis

text \<open>A proxy that vouches for someone called \<open>Local:Ann\<close> does not make them the local account \<open>ann\<close>.\<close>

definition someone :: "string \<Rightarrow> string \<Rightarrow> Identity" where
  "someone provider subject = \<lparr>Subject = subject, id_Email = '''', id_Name = '''', id_Tenant = '''', id_Groups = [], IssuedAt = 0,
     Expires = 0, Provider = provider, EmailVerified = False, Scopes = []\<rparr>"


end
