(* ===== verification/SignIn.thy ===== *)
theory SignIn
  imports Identities
begin

text \<open>
  Sign-in with local accounts and the sessions it makes: \<^verbatim>\<open>auth/local.go\<close>, with the sessions of \<^verbatim>\<open>auth/session.go\<close>. A method of
  \<^verbatim>\<open>*LocalAuth\<close> is a computation over the world of theory \<open>Store\<close>, whose memory is the account store, extended by what
  the process keeps: its sessions, why some ended, and whom its listeners were told of. A request is the cookie it carries; an answer
  is a status, an error and the cookie set. Times count from Go's zero time, and each reading of the clock asks \<open>la_clock\<close>.
\<close>

section \<open>Sessions\<close>

record accountCheck =
  ck_version :: string
  ck_at :: time

record browserSession =
  bs_Identity :: "Identity option"
  bs_Created :: time
  bs_Expires :: time
  bs_mustChange :: bool
  bs_lastSeen :: time
  bs_checked :: "accountCheck option"
  bs_epoch :: int
  bs_pwStamp :: string
  bs_pwPrev :: string
  bs_revocations :: int
  bs_accountMade :: time

record endedNote =
  en_why :: string
  en_at :: time

record local_state =
  la_sessions :: "(string, browserSession) gomap"
  la_ended :: "(string, endedNote) gomap"
  la_told :: "string list"

record ('m, 'x) LocalAuth =
  la_Store :: "'m UserStore"
  la_TTL :: duration
  la_Admit :: "(User \<Rightarrow> 'x \<Rightarrow> gerror option \<times> 'x) option"
  la_clock :: "'x \<Rightarrow> time \<times> 'x"
  la_random :: "'x \<Rightarrow> string \<times> 'x"
  la_hashing :: "'x hashing"
  la_texts :: texts

record ('m, 'x) auth_world = "('m, 'x) world" +
  la :: local_state

definition DefaultSessionTTL :: duration where "DefaultSessionTTL = 12 * Hour"
definition accountRecheck :: duration where "accountRecheck = 2 * Second"
definition accountRecheckVersioned :: duration where "accountRecheckVersioned = 30 * Second"
definition endedKept :: duration where "endedKept = 24 * Hour"

definition WhyExpired :: string where "WhyExpired = ''the sign-in expired''"
definition WhySignedOut :: string where "WhySignedOut = ''you signed out''"
definition WhyEverywhere :: string where "WhyEverywhere = ''you were signed out everywhere''"
definition WhyRemoved :: string where "WhyRemoved = ''the account was removed''"
definition WhyPassword :: string where "WhyPassword = ''the account's password was changed''"
definition WhyEnded :: string where "WhyEnded = ''an administrator ended this sign-in''"
definition WhyReplaced :: string where "WhyReplaced = ''this browser signed in again''"

definition ErrAccountUnchecked :: gerror where
  "ErrAccountUnchecked = Sentinel (OtherError ''could not check your sign-in; try again shortly'')"
definition errSessionGone :: gerror where
  "errSessionGone = Sentinel (OtherError ''session ended'')"

definition NewLocalAuth :: "('m, 'x) LocalAuth \<Rightarrow> ('m, 'x) LocalAuth \<times> local_state" where
  "NewLocalAuth l = (if la_TTL l = 0 then l\<lparr>la_TTL := DefaultSessionTTL\<rparr> else l, \<lparr>la_sessions = [], la_ended = [], la_told = []\<rparr>)"

section \<open>What the lock guards\<close>

text \<open>Each of these runs under the lock of the sessions, at the time \<open>t\<close>. \<open>changed\<close> tells the listeners, after the lock.\<close>

definition changed :: "string \<Rightarrow> local_state \<Rightarrow> local_state" where
  "changed name st = st\<lparr>la_told := la_told st @ [name]\<rparr>"

definition endLocked :: "string \<Rightarrow> string \<Rightarrow> time \<Rightarrow> local_state \<Rightarrow> local_state" where
  "endLocked sid why t st = (case map_of (la_sessions st) sid of
       None \<Rightarrow> st
     | Some _ \<Rightarrow> st\<lparr>la_sessions := AList.delete sid (la_sessions st), la_ended := AList.update sid \<lparr>en_why = why, en_at = t\<rparr> (la_ended st)\<rparr>)"

definition end_all :: "(string \<times> browserSession \<Rightarrow> bool) \<Rightarrow> string \<Rightarrow> time \<Rightarrow> local_state \<Rightarrow> local_state" where
  "end_all P why t st = foldl (\<lambda>st sid. endLocked sid why t st) st (map fst (filter P (la_sessions st)))"

definition reap :: "time \<Rightarrow> local_state \<Rightarrow> local_state" where
  "reap now st =
     (let st' = end_all (\<lambda>(_, s). now > bs_Expires s) WhyExpired now st
      in st'\<lparr>la_ended := filter (\<lambda>(_, n). \<not> now - en_at n > endedKept) (la_ended st')\<rparr>)"

definition session_of :: "texts \<Rightarrow> string \<Rightarrow> browserSession \<Rightarrow> bool" where
  "session_of X name s \<longleftrightarrow> (case bs_Identity s of None \<Rightarrow> False | Some i \<Rightarrow> EqualFoldText X (Subject i) name)"

definition each_session :: "texts \<Rightarrow> string \<Rightarrow> (browserSession \<Rightarrow> browserSession) \<Rightarrow> local_state \<Rightarrow> local_state" where
  "each_session X name f st = st\<lparr>la_sessions := map (\<lambda>(sid, s). (sid, if session_of X name s then f s else s)) (la_sessions st)\<rparr>"

definition auth_forget :: "texts \<Rightarrow> string \<Rightarrow> local_state \<Rightarrow> local_state" where
  "auth_forget X name st = changed name (each_session X name (\<lambda>s. s\<lparr>bs_epoch := bs_epoch s + 1, bs_checked := None\<rparr>) st)"

definition markMustChange :: "texts \<Rightarrow> string \<Rightarrow> bool \<Rightarrow> local_state \<Rightarrow> local_state" where
  "markMustChange X name on st = changed name (each_session X name (\<lambda>s. s\<lparr>bs_mustChange := on\<rparr>) st)"

definition endSessionsFor :: "texts \<Rightarrow> string \<Rightarrow> string \<Rightarrow> string \<Rightarrow> time \<Rightarrow> local_state \<Rightarrow> nat \<times> local_state" where
  "endSessionsFor X name keep why t st =
     (if name = '''' then (0, st)
      else let P = (\<lambda>(sid, s). sid \<noteq> keep \<and> session_of X name s)
        in (length (filter P (la_sessions st)), changed name (end_all P why t st)))"

definition restamp_session :: "string \<Rightarrow> bool \<Rightarrow> browserSession \<Rightarrow> browserSession" where
  "restamp_session stamp undo s0 =
     (let s = s0\<lparr>bs_epoch := bs_epoch s0 + 1\<rparr>
      in if stamp \<noteq> '''' then s\<lparr>bs_pwPrev := bs_pwStamp s, bs_pwStamp := stamp\<rparr>
         else if undo then s\<lparr>bs_pwStamp := bs_pwPrev s, bs_pwPrev := ''''\<rparr>
         else s\<lparr>bs_pwPrev := ''''\<rparr>)"

definition restamp :: "string \<Rightarrow> string \<Rightarrow> bool \<Rightarrow> local_state \<Rightarrow> local_state" where
  "restamp sid stamp undo st =
     (if sid = '''' then st
      else case map_of (la_sessions st) sid of
          None \<Rightarrow> st
        | Some s \<Rightarrow> st\<lparr>la_sessions := AList.update sid (restamp_session stamp undo s) (la_sessions st)\<rparr>)"

definition time_Unix :: "time \<Rightarrow> int" where
  "time_Unix t = t div Second - 62135596800"

definition user_identity :: "User \<Rightarrow> int \<Rightarrow> int \<Rightarrow> Identity" where
  "user_identity u iat exp = \<lparr>Subject = u_Username u, id_Email = u_Email u, id_Name = u_Name u, id_Tenant = u_Tenant u,
     id_Groups = u_Groups u, IssuedAt = iat, Expires = exp, Provider = ProviderLocal, EmailVerified = False, Scopes = []\<rparr>"

definition new_session :: "'x hashing \<Rightarrow> duration \<Rightarrow> User \<Rightarrow> time \<Rightarrow> browserSession" where
  "new_session H ttl u t = \<lparr>bs_Identity = Some (user_identity u (time_Unix t) (time_Unix (t + ttl))), bs_Created = t,
     bs_Expires = t + ttl, bs_mustChange = u_MustChange u, bs_lastSeen = t, bs_checked = None, bs_epoch = 0,
     bs_pwStamp = passwordStamp H (u_Hash u), bs_pwPrev = '''', bs_revocations = u_Revocations u, bs_accountMade = u_CreatedAt u\<rparr>"

section \<open>A session's account\<close>

definition live_session :: "string option \<Rightarrow> time \<Rightarrow> local_state \<Rightarrow> (string \<times> browserSession) option" where
  "live_session cookie t st = (case cookie of
       None \<Rightarrow> None
     | Some sid \<Rightarrow> (case map_of (la_sessions st) sid of
           None \<Rightarrow> None
         | Some s \<Rightarrow> if t > bs_Expires s then None else Some (sid, s)))"

text \<open>The store's version, if it has one to tell, and how long a reading at that version is trusted.\<close>

definition store_version :: "'m UserStore \<Rightarrow> 'm \<Rightarrow> string \<times> duration" where
  "store_version S m = (case us_Version S of
       None \<Rightarrow> ('''', accountRecheck)
     | Some f \<Rightarrow> (case f m of Inl _ \<Rightarrow> ('''', accountRecheck) | Inr v \<Rightarrow> (v, accountRecheckVersioned)))"

definition trusts :: "browserSession \<Rightarrow> string \<Rightarrow> duration \<Rightarrow> time \<Rightarrow> bool" where
  "trusts s version maxAge t \<longleftrightarrow> (case bs_checked s of
       None \<Rightarrow> False
     | Some c \<Rightarrow> ck_version c = version \<and> t - ck_at c < maxAge)"

definition remade :: "time \<Rightarrow> time \<Rightarrow> bool" where
  "remade issued t \<longleftrightarrow> issued \<noteq> 0 \<and> t \<noteq> 0 \<and> issued \<noteq> t"

text \<open>
  The judgement on what was read of the account: \<open>old\<close>, \<open>now\<close>, \<open>version\<close> and \<open>epoch\<close> are what the request held when it began to
  read, \<open>t\<close> is when it got the lock.
\<close>

definition judge_read :: "'x hashing \<Rightarrow> string \<Rightarrow> Identity \<Rightarrow> time \<Rightarrow> string \<Rightarrow> int \<Rightarrow> gerror + User \<Rightarrow> time \<Rightarrow> local_state
    \<Rightarrow> (gerror + Identity) \<times> local_state" where
  "judge_read H sid old now version epoch got t st = (case got of
       Inl e \<Rightarrow> if errors_Is e no_such_user then (Inl errSessionGone, changed (Subject old) (endLocked sid WhyRemoved t st))
         else (Inl ErrAccountUnchecked, st)
     | Inr u \<Rightarrow> (case map_of (la_sessions st) sid of
           None \<Rightarrow> (Inl errSessionGone, st)
         | Some s \<Rightarrow>
             if remade (bs_accountMade s) (u_CreatedAt u)
             then (Inl errSessionGone, changed (Subject old) (endLocked sid WhyRemoved t st))
             else if u_Revocations u > bs_revocations s then (Inl errSessionGone, endLocked sid WhyEverywhere t st)
             else let stamp = passwordStamp H (u_Hash u);
                      fresh = (bs_epoch s = epoch);
                      differs = (fresh \<and> bs_pwStamp s \<noteq> '''' \<and> stamp \<noteq> bs_pwStamp s \<and> stamp \<noteq> bs_pwPrev s)
               in if differs \<and> \<not> u_MustChange u then (Inl errSessionGone, endLocked sid WhyPassword t st)
                  else let i = user_identity u (IssuedAt old) (Expires old);
                           s1 = (if differs then s\<lparr>bs_pwStamp := stamp\<rparr> else s)\<lparr>bs_Identity := Some i\<rparr>;
                           s2 = (if fresh then s1\<lparr>bs_mustChange := u_MustChange u, bs_checked := Some \<lparr>ck_version = version, ck_at = now\<rparr>\<rparr> else s1)
                    in (Inr i, st\<lparr>la_sessions := AList.update sid s2 (la_sessions st)\<rparr>)))"

section \<open>Requests\<close>

definition auth_clock :: "('m, 'x) LocalAuth \<Rightarrow> (('m, 'x) auth_world, time) state" where
  "auth_clock l = outside (la_clock l)"

definition held :: "(local_state \<Rightarrow> 'a) \<Rightarrow> (('m, 'x) auth_world, 'a) state" where
  "held f = State (\<lambda>w. (f (la w), w))"

definition locked :: "(local_state \<Rightarrow> 'a \<times> local_state) \<Rightarrow> (('m, 'x) auth_world, 'a) state" where
  "locked f = State (\<lambda>w. let (a, st) = f (la w) in (a, w\<lparr>la := st\<rparr>))"

definition lock_do :: "(local_state \<Rightarrow> local_state) \<Rightarrow> (('m, 'x) auth_world, unit) state" where
  "lock_do f = locked (\<lambda>st. ((), f st))"

definition auth_lookup :: "('m, 'x) LocalAuth \<Rightarrow> string option \<Rightarrow> (('m, 'x) auth_world, (string \<times> browserSession) option) state" where
  "auth_lookup l cookie = do { t \<leftarrow> auth_clock l; held (live_session cookie t) }"

definition auth_current :: "('m, 'x) LocalAuth \<Rightarrow> string \<Rightarrow> (('m, 'x) auth_world, gerror + Identity) state" where
  "auth_current l sid = do {
     found \<leftarrow> held (\<lambda>st. map_of (la_sessions st) sid);
     (case found of
        None \<Rightarrow> ret (Inl errSessionGone)
      | Some s \<Rightarrow>
          (case bs_Identity s of
             None \<Rightarrow> ret (Inl errSessionGone)
           | Some old \<Rightarrow> do {
               now \<leftarrow> auth_clock l;
               (version, maxAge) \<leftarrow> call (\<lambda>m. (store_version (la_Store l) m, m));
               (if trusts s version maxAge now then ret (Inr old)
                else do {
                  got \<leftarrow> call (\<lambda>m. (us_Get (la_Store l) (Subject old) m, m));
                  t \<leftarrow> auth_clock l;
                  locked (judge_read (la_hashing l) sid old now version (bs_epoch s) got t)
                })
             }))
   }"

definition touch :: "string \<Rightarrow> time \<Rightarrow> local_state \<Rightarrow> local_state" where
  "touch sid t st = (case map_of (la_sessions st) sid of
       None \<Rightarrow> st
     | Some s \<Rightarrow> st\<lparr>la_sessions := AList.update sid (s\<lparr>bs_lastSeen := t\<rparr>) (la_sessions st)\<rparr>)"

definition FromCookie :: "('m, 'x) LocalAuth \<Rightarrow> string option \<Rightarrow> (('m, 'x) auth_world, Identity option) state" where
  "FromCookie l cookie = do {
     found \<leftarrow> auth_lookup l cookie;
     (case found of
        None \<Rightarrow> ret None
      | Some (sid, s) \<Rightarrow> do {
          got \<leftarrow> auth_current l sid;
          (case got of
             Inl _ \<Rightarrow> ret None
           | Inr i \<Rightarrow> do { t \<leftarrow> auth_clock l; lock_do (touch sid t); ret (Some i) })
        })
   }"

definition LocalAuth_Verify :: "('m, 'x) LocalAuth \<Rightarrow> string option \<Rightarrow> (('m, 'x) auth_world, gerror option) state" where
  "LocalAuth_Verify l cookie = do {
     found \<leftarrow> auth_lookup l cookie;
     (case found of
        None \<Rightarrow> ret None
      | Some (sid, s) \<Rightarrow> do {
          got \<leftarrow> auth_current l sid;
          ret (case got of Inl e \<Rightarrow> if e = ErrAccountUnchecked then Some e else None | Inr _ \<Rightarrow> None)
        })
   }"

definition HasSession :: "('m, 'x) LocalAuth \<Rightarrow> string option \<Rightarrow> (('m, 'x) auth_world, bool) state" where
  "HasSession l cookie = do { found \<leftarrow> auth_lookup l cookie; ret (found \<noteq> None) }"

definition MustChangePassword :: "('m, 'x) LocalAuth \<Rightarrow> string option \<Rightarrow> (('m, 'x) auth_world, bool) state" where
  "MustChangePassword l cookie = do {
     found \<leftarrow> auth_lookup l cookie;
     ret (case found of None \<Rightarrow> False | Some (_, s) \<Rightarrow> bs_mustChange s)
   }"

definition EndedReason :: "string option \<Rightarrow> time \<Rightarrow> local_state \<Rightarrow> string" where
  "EndedReason cookie t st = (case cookie of
       None \<Rightarrow> ''''
     | Some sid \<Rightarrow>
         if (case map_of (la_sessions st) sid of None \<Rightarrow> False | Some s \<Rightarrow> t > bs_Expires s) then WhyExpired
         else (case map_of (la_ended st) sid of None \<Rightarrow> '''' | Some n \<Rightarrow> en_why n))"

section \<open>Signing in and out\<close>

definition Authenticate :: "('m, 'x) LocalAuth \<Rightarrow> string \<Rightarrow> string \<Rightarrow> (('m, 'x) auth_world, gerror + User) state" where
  "Authenticate l username password = do {
     got \<leftarrow> call (\<lambda>m. (us_Get (la_Store l) username m, m));
     ret (case got of
        Inl _ \<Rightarrow> Inl ErrBadCredentials
      | Inr u \<Rightarrow> if bc_matches (la_hashing l) (u_Hash u) password then Inr u else Inl ErrBadCredentials)
   }"

definition issue :: "('m, 'x) LocalAuth \<Rightarrow> User \<Rightarrow> (('m, 'x) auth_world, string) state" where
  "issue l u = do {
     sid \<leftarrow> outside (la_random l);
     t \<leftarrow> auth_clock l;
     lock_do (\<lambda>st. st\<lparr>la_sessions := AList.update sid (new_session (la_hashing l) (la_TTL l) u t) (la_sessions st)\<rparr>);
     ret sid
   }"

definition end_cookie :: "('m, 'x) LocalAuth \<Rightarrow> string \<Rightarrow> string option \<Rightarrow> (('m, 'x) auth_world, unit) state" where
  "end_cookie l why cookie = (case cookie of
       None \<Rightarrow> ret ()
     | Some sid \<Rightarrow> do {
         t \<leftarrow> auth_clock l;
         lock_do (\<lambda>st. case map_of (la_sessions st) sid of
            None \<Rightarrow> st
          | Some s \<Rightarrow> changed (case bs_Identity s of None \<Rightarrow> '''' | Some i \<Rightarrow> Subject i) (endLocked sid why t st))
       })"

definition EndRequestSession :: "('m, 'x) LocalAuth \<Rightarrow> string option \<Rightarrow> (('m, 'x) auth_world, unit) state" where
  "EndRequestSession l cookie = end_cookie l WhySignedOut cookie"

text \<open>A sign-in: what the body says, \<open>None\<close> when it does not read. The answer has the cookie of the new session.\<close>

definition SignInHandler :: "('m, 'x) LocalAuth \<Rightarrow> string option \<Rightarrow> (string \<times> string) option
    \<Rightarrow> (('m, 'x) auth_world, nat \<times> gerror option \<times> string option) state" where
  "SignInHandler l cookie body = (case body of
       None \<Rightarrow> ret (400, Some (Errorf [] ''invalid request''), None)
     | Some (username, password) \<Rightarrow> do {
         got \<leftarrow> Authenticate l username password;
         (case got of
            Inl _ \<Rightarrow> ret (401, Some ErrBadCredentials, None)
          | Inr u \<Rightarrow> do {
              refused \<leftarrow> (case la_Admit l of None \<Rightarrow> ret None | Some f \<Rightarrow> outside (f u));
              (case refused of
                 Some e \<Rightarrow> ret (403, Some e, None)
               | None \<Rightarrow> do {
                   end_cookie l WhyReplaced cookie;
                   sid \<leftarrow> issue l u;
                   lock_do (changed (u_Username u));
                   ret (200, None, Some sid)
                 })
            })
       })"

definition sessionDigest :: "'x hashing \<Rightarrow> string \<Rightarrow> string" where
  "sessionDigest H sid = hex_encode (take 8 (sha H sid))"

record SessionInfo =
  si_ID :: string
  si_Provider :: string
  si_Subject :: string
  si_Email :: string
  si_Name :: string
  si_Created :: time
  si_LastSeen :: time
  si_Expires :: time
  si_MustChange :: bool

definition session_info :: "'x hashing \<Rightarrow> string \<Rightarrow> browserSession \<Rightarrow> Identity \<Rightarrow> SessionInfo" where
  "session_info H sid s i = \<lparr>si_ID = sessionDigest H sid, si_Provider = ProviderLocal, si_Subject = Subject i, si_Email = id_Email i, si_Name = id_Name i,
     si_Created = bs_Created s, si_LastSeen = bs_lastSeen s, si_Expires = bs_Expires s, si_MustChange = bs_mustChange s\<rparr>"

definition LocalAuth_Sessions :: "'x hashing \<Rightarrow> time \<Rightarrow> local_state \<Rightarrow> SessionInfo list" where
  "LocalAuth_Sessions H t st =
     sort_key (\<lambda>i. - si_Created i)
       (concat (map (\<lambda>(sid, s). if t > bs_Expires s then []
          else (case bs_Identity s of None \<Rightarrow> [] | Some i \<Rightarrow> [session_info H sid s i])) (la_sessions st)))"

definition EndSession :: "'x hashing \<Rightarrow> string \<Rightarrow> time \<Rightarrow> local_state \<Rightarrow> bool \<times> local_state" where
  "EndSession H i t st =
     (if i = '''' then (False, st)
      else case find (\<lambda>(sid, s). sessionDigest H sid = i) (la_sessions st) of
          None \<Rightarrow> (False, st)
        | Some (sid, s) \<Rightarrow>
            (True, changed (case bs_Identity s of None \<Rightarrow> '''' | Some k \<Rightarrow> Subject k) (endLocked sid WhyEnded t st)))"

end
