(* ===== verification/AccountChanges.thy ===== *)
theory AccountChanges
  imports SignIn
begin

text \<open>
  What changes an account, \<^verbatim>\<open>auth/local.go\<close>: creating one, changing or resetting a password, its groups, and signing out
  everywhere. Each call of the store is one step, before which others may write; \<open>createMu\<close> and \<open>passwordMu\<close> keep the
  calls of one process apart, so what others write comes from elsewhere.
\<close>

section \<open>Creating\<close>

definition CheckNewUser :: "('m, 'x) LocalAuth \<Rightarrow> string \<Rightarrow> string \<Rightarrow> (('m, 'x) auth_world, gerror option) state" where
  "CheckNewUser l username password =
     (if \<not> validUsername username
      then ret (Some (Errorf [] ''username must be 2-64 characters of letters, digits, dot, dash or underscore''))
      else if length password < 10 then ret (Some ErrWeakPassword)
      else do {
        got \<leftarrow> call (\<lambda>m. (us_Get (la_Store l) username m, m));
        ret (case got of Inl _ \<Rightarrow> None | Inr _ \<Rightarrow> Some ErrUserExists)
      })"

definition CheckEmail :: "('m, 'x) LocalAuth \<Rightarrow> string \<Rightarrow> string \<Rightarrow> (('m, 'x) auth_world, gerror option) state" where
  "CheckEmail l username email =
     (if email = '''' then ret None
      else case ValidEmail (la_texts l) email of
          Some e \<Rightarrow> ret (Some e)
        | None \<Rightarrow> do {
            got \<leftarrow> call (\<lambda>m. (us_List (la_Store l) m, m));
            ret (case got of
               Inl e \<Rightarrow> Some (Errorf [e] ''check email'')
             | Inr us \<Rightarrow>
                 if list_ex (\<lambda>u. \<not> EqualFoldText (la_texts l) (u_Username u) username \<and>
                      (EqualFoldText (la_texts l) (TrimSpace (u_Email u)) email \<or> EqualFoldText (la_texts l) (u_Username u) email)) us
                 then Some ErrEmailTaken else None)
          })"

definition named_user :: "texts \<Rightarrow> User \<Rightarrow> string \<Rightarrow> time \<Rightarrow> User" where
  "named_user X u h t = u\<lparr>u_Hash := h, u_Username := ToLowerText X (u_Username u),
     u_Tenant := if u_Tenant u = '''' then ''default'' else u_Tenant u,
     u_CreatedAt := if u_CreatedAt u = 0 then t else u_CreatedAt u\<rparr>"

definition generate :: "('m, 'x) LocalAuth \<Rightarrow> string \<Rightarrow> (('m, 'x) auth_world, gerror + string) state" where
  "generate l password = outside (bc_generate (la_hashing l) password)"

definition CreateUser :: "('m, 'x) LocalAuth \<Rightarrow> User \<Rightarrow> string \<Rightarrow> (('m, 'x) auth_world, gerror option) state" where
  "CreateUser l u0 password = do {
     bad \<leftarrow> CheckNewUser l (u_Username u0) password;
     (case bad of
        Some e \<Rightarrow> ret (Some e)
      | None \<Rightarrow> do {
          u \<leftarrow> ret (u0\<lparr>u_Email := TrimSpace (u_Email u0)\<rparr>);
          taken \<leftarrow> CheckEmail l (u_Username u) (u_Email u);
          (case taken of
             Some e \<Rightarrow> ret (Some e)
           | None \<Rightarrow> do {
               hash \<leftarrow> generate l password;
               (case hash of
                  Inl e \<Rightarrow> ret (Some (Errorf [e] ''hash password''))
                | Inr h \<Rightarrow> do {
                    t \<leftarrow> auth_clock l;
                    (case us_Create (la_Store l) of
                       Some create \<Rightarrow> call (create (named_user (la_texts l) u h t))
                     | None \<Rightarrow> call (us_Put (la_Store l) (named_user (la_texts l) u h t)))
                  })
             })
        })
   }"

section \<open>Passwords\<close>

definition changePassword :: "('m, 'x) LocalAuth \<Rightarrow> string \<Rightarrow> string \<Rightarrow> string \<Rightarrow> string \<Rightarrow> (('m, 'x) auth_world, gerror option) state" where
  "changePassword l username cur next keep = do {
     got \<leftarrow> Authenticate l username cur;
     (case got of
        Inl e \<Rightarrow> ret (Some e)
      | Inr u \<Rightarrow>
          if length next < 10 then ret (Some ErrWeakPassword)
          else if next = cur then ret (Some ErrSamePassword)
          else do {
            hash \<leftarrow> generate l next;
            (case hash of
               Inl e \<Rightarrow> ret (Some e)
             | Inr h \<Rightarrow> do {
                 lock_do (restamp keep (passwordStamp (la_hashing l) h) False);
                 err \<leftarrow> call (us_Put (la_Store l) (u\<lparr>u_Hash := h, u_MustChange := False\<rparr>));
                 (case err of
                    Some e \<Rightarrow> do { lock_do (restamp keep '''' True); ret (Some e) }
                  | None \<Rightarrow> do {
                      lock_do (restamp keep '''' False);
                      lock_do (markMustChange (la_texts l) (u_Username u) False);
                      ret None
                    })
               })
          })
   }"

definition ChangePassword :: "('m, 'x) LocalAuth \<Rightarrow> string \<Rightarrow> string \<Rightarrow> string \<Rightarrow> (('m, 'x) auth_world, gerror option) state" where
  "ChangePassword l username cur next = changePassword l username cur next ''''"

definition endSessionsNow :: "('m, 'x) LocalAuth \<Rightarrow> string \<Rightarrow> string \<Rightarrow> string \<Rightarrow> (('m, 'x) auth_world, nat) state" where
  "endSessionsNow l name keep why = do { t \<leftarrow> auth_clock l; locked (endSessionsFor (la_texts l) name keep why t) }"

definition ChangePasswordHandler :: "('m, 'x) LocalAuth \<Rightarrow> string option \<Rightarrow> (string \<times> string) option
    \<Rightarrow> (('m, 'x) auth_world, nat \<times> gerror option) state" where
  "ChangePasswordHandler l cookie body = do {
     found \<leftarrow> auth_lookup l cookie;
     caller \<leftarrow> FromCookie l cookie;
     (case (caller, found) of
        (Some i, Some (sid, _)) \<Rightarrow>
          if sid = '''' then ret (401, Some (Errorf [] ''not signed in''))
          else (case body of
            None \<Rightarrow> ret (400, Some (Errorf [] ''invalid request''))
          | Some (cur, next) \<Rightarrow> do {
              err \<leftarrow> changePassword l (Subject i) cur next sid;
              (case err of
                 Some e \<Rightarrow> ret (400, Some e)
               | None \<Rightarrow> do { endSessionsNow l (Subject i) sid WhyPassword; ret (200, None) })
            })
      | _ \<Rightarrow> ret (401, Some (Errorf [] ''not signed in'')))
   }"

text \<open>The administrative reset. \<open>u\<close> is the account as its caller read it.\<close>

definition CreateUserOrReset :: "('m, 'x) LocalAuth \<Rightarrow> User \<Rightarrow> string \<Rightarrow> (('m, 'x) auth_world, gerror option) state" where
  "CreateUserOrReset l u password =
     (if length password < 10 then ret (Some ErrWeakPassword)
      else do {
        hash \<leftarrow> generate l password;
        (case hash of
           Inl e \<Rightarrow> ret (Some e)
         | Inr h \<Rightarrow> do {
             err \<leftarrow> call (us_Put (la_Store l) (u\<lparr>u_Hash := h, u_MustChange := True\<rparr>));
             (case err of
                Some e \<Rightarrow> ret (Some e)
              | None \<Rightarrow> do {
                  lock_do (auth_forget (la_texts l) (u_Username u));
                  lock_do (markMustChange (la_texts l) (u_Username u) True);
                  ret None
                })
           })
      })"

section \<open>Groups\<close>

definition with_group :: "string \<Rightarrow> bool \<Rightarrow> string list \<Rightarrow> string list" where
  "with_group grp member gs =
     (let out = (if member then gs else filter (\<lambda>g. g \<noteq> grp) gs)
      in if member \<and> grp \<notin> set gs then out @ [grp] else out)"

definition SetGroups :: "('m, 'x) LocalAuth \<Rightarrow> string \<Rightarrow> string \<Rightarrow> bool \<Rightarrow> (('m, 'x) auth_world, gerror option) state" where
  "SetGroups l username grp member = do {
     got \<leftarrow> call (\<lambda>m. (us_Get (la_Store l) username m, m));
     (case got of
        Inl _ \<Rightarrow> ret (Some ErrNoSuchUser)
      | Inr u \<Rightarrow> do {
          err \<leftarrow> call (us_Put (la_Store l) (u\<lparr>u_Groups := with_group grp member (u_Groups u)\<rparr>));
          (case err of
             Some e \<Rightarrow> ret (Some e)
           | None \<Rightarrow> do { lock_do (auth_forget (la_texts l) (u_Username u)); ret None })
        })
   }"

section \<open>Signing out everywhere\<close>

definition addRevocation :: "('m, 'x) LocalAuth \<Rightarrow> string \<Rightarrow> (('m, 'x) auth_world, gerror option) state" where
  "addRevocation l username = (case us_AddRevocation (la_Store l) of
       Some add \<Rightarrow> do { got \<leftarrow> call (add username); ret (case got of Inl e \<Rightarrow> Some e | Inr _ \<Rightarrow> None) }
     | None \<Rightarrow> do {
         got \<leftarrow> call (\<lambda>m. (us_Get (la_Store l) username m, m));
         (case got of
            Inl e \<Rightarrow> ret (Some e)
          | Inr u \<Rightarrow> do {
              err \<leftarrow> call (us_Put (la_Store l) (u\<lparr>u_Revocations := u_Revocations u + 1\<rparr>));
              (case err of
                 Some e \<Rightarrow> ret (Some e)
               | None \<Rightarrow> do {
                   back \<leftarrow> call (\<lambda>m. (us_Get (la_Store l) username m, m));
                   ret (case back of
                      Inl e \<Rightarrow> Some e
                    | Inr b \<Rightarrow> if u_Revocations b < u_Revocations u + 1
                        then Some (Errorf [] ''the account store did not keep the revocation count'') else None)
                 })
            })
       })"

definition RevokeUserContext :: "('m, 'x) LocalAuth \<Rightarrow> string \<Rightarrow> (('m, 'x) auth_world, nat \<times> gerror option) state" where
  "RevokeUserContext l username = do {
     n \<leftarrow> endSessionsNow l username '''' WhyEverywhere;
     (if username = '''' then ret (n, None)
      else do {
        err \<leftarrow> addRevocation l username;
        ret (n, case err of
           None \<Rightarrow> None
         | Some e \<Rightarrow> if errors_Is e no_such_user then None else Some (Errorf [e] ''record sign-out everywhere''))
      })
   }"

end
