(* ===== verification/SignInLaws.thy ===== *)
theory SignInLaws
  imports AccountChanges
begin

text \<open>
  What a session is worth while others act: servers that share one store of accounts, each with sessions of its own, and
  requests in flight on them. A request is cut where the code may be overtaken: it reads the session's identity, asks the
  store's version, looks whether it trusts what it knows, notes the session's epoch, reads the account, and judges it under the
  lock. Between any two of these, anyone may write the accounts, sign in, end sessions or void readings.
\<close>

section \<open>Servers that share the accounts\<close>

datatype request =
    Idle
  | Looked nat string Identity
  | Versioned nat string Identity time string duration
  | Missed nat string Identity time string
  | Marked nat string Identity time string int
  | Read nat string Identity time string int "gerror + User"
  | Answered nat string "gerror + Identity"

text \<open>
  \<open>cl_gone\<close> keeps each session as it last was, for the requests that still point at it; \<open>cl_used\<close> are the cookies handed out,
  and \<open>cl_signing\<close> the accounts that have been authenticated.
\<close>

record cluster =
  cl_users :: MemoryUserStore
  cl_local :: "nat \<Rightarrow> local_state"
  cl_gone :: "nat \<Rightarrow> string \<Rightarrow> browserSession option"
  cl_used :: "string set"
  cl_signing :: "User set"
  cl_requests :: "nat \<Rightarrow> request"

definition found :: "cluster \<Rightarrow> nat \<Rightarrow> string \<Rightarrow> browserSession option" where
  "found c n sid = (case map_of (la_sessions (cl_local c n)) sid of Some s \<Rightarrow> Some s | None \<Rightarrow> cl_gone c n sid)"

definition at_node :: "nat \<Rightarrow> local_state \<Rightarrow> cluster \<Rightarrow> cluster" where
  "at_node n st c = c\<lparr>cl_local := (cl_local c)(n := st), cl_gone := (cl_gone c)(n := found c n)\<rparr>"

definition proceed :: "nat \<Rightarrow> request \<Rightarrow> cluster \<Rightarrow> cluster" where
  "proceed r q c = c\<lparr>cl_requests := (cl_requests c)(r := q)\<rparr>"

inductive local_change :: "texts \<Rightarrow> local_state \<Rightarrow> local_state \<Rightarrow> bool" for X where
  forgets: "local_change X st (auth_forget X name st)"
| marks: "local_change X st (markMustChange X name on st)"
| restamps: "local_change X st (restamp sid stamp undo st)"
| ends: "local_change X st (endLocked sid why t st)"
| ends_for: "local_change X st (snd (endSessionsFor X name keep why t st))"
| reaps: "local_change X st (reap t st)"
| touches: "local_change X st (touch sid t st)"
| tells: "local_change X st (changed name st)"

inductive auth_step :: "'x hashing \<Rightarrow> texts \<Rightarrow> duration \<Rightarrow> cluster \<Rightarrow> cluster \<Rightarrow> bool" for H X ttl where
  look: "cl_requests c r = Idle \<Longrightarrow> live_session (Some sid) t (cl_local c n) = Some (sid, s) \<Longrightarrow> bs_Identity s = Some old
    \<Longrightarrow> auth_step H X ttl c (proceed r (Looked n sid old) c)"
| ask: "cl_requests c r = Looked n sid old \<Longrightarrow> store_version (memory_users X) (cl_users c) = (v, age)
    \<Longrightarrow> auth_step H X ttl c (proceed r (Versioned n sid old now v age) c)"
| trust: "cl_requests c r = Versioned n sid old now v age \<Longrightarrow> found c n sid = Some s \<Longrightarrow> trusts s v age now
    \<Longrightarrow> auth_step H X ttl c (proceed r (Answered n sid (Inr old)) c)"
| miss: "cl_requests c r = Versioned n sid old now v age \<Longrightarrow> found c n sid = Some s \<Longrightarrow> \<not> trusts s v age now
    \<Longrightarrow> auth_step H X ttl c (proceed r (Missed n sid old now v) c)"
| mark: "cl_requests c r = Missed n sid old now v \<Longrightarrow> found c n sid = Some s
    \<Longrightarrow> auth_step H X ttl c (proceed r (Marked n sid old now v (bs_epoch s)) c)"
| read: "cl_requests c r = Marked n sid old now v e
    \<Longrightarrow> auth_step H X ttl c (proceed r (Read n sid old now v e (us_Get (memory_users X) (Subject old) (cl_users c))) c)"
| judge: "cl_requests c r = Read n sid old now v e got \<Longrightarrow> judge_read H sid old now v e got t (cl_local c n) = (a, st)
    \<Longrightarrow> auth_step H X ttl c (proceed r (Answered n sid a) (at_node n st c))"
| authenticates: "us_Get (memory_users X) name (cl_users c) = Inr u \<Longrightarrow> bc_matches H (u_Hash u) password
    \<Longrightarrow> auth_step H X ttl c (c\<lparr>cl_signing := insert u (cl_signing c)\<rparr>)"
| issues: "u \<in> cl_signing c \<Longrightarrow> sid \<notin> cl_used c
    \<Longrightarrow> auth_step H X ttl c ((at_node n ((cl_local c n)\<lparr>la_sessions := AList.update sid (new_session H ttl u t) (la_sessions (cl_local c n))\<rparr>) c)
          \<lparr>cl_used := insert sid (cl_used c)\<rparr>)"
| puts: "auth_step H X ttl c (c\<lparr>cl_users := snd (us_Put (memory_users X) u (cl_users c))\<rparr>)"
| creates: "auth_step H X ttl c (c\<lparr>cl_users := snd (MemoryUserStore_Create X u (cl_users c))\<rparr>)"
| deletes: "auth_step H X ttl c (c\<lparr>cl_users := snd (us_Delete (memory_users X) name (cl_users c))\<rparr>)"
| revokes: "auth_step H X ttl c (c\<lparr>cl_users := snd (MemoryUserStore_AddRevocation X name (cl_users c))\<rparr>)"
| local: "local_change X (cl_local c n) st \<Longrightarrow> auth_step H X ttl c (at_node n st c)"

definition first_cluster :: "users \<Rightarrow> cluster" where
  "first_cluster us = \<lparr>cl_users = \<lparr>mu_users = us, mu_gen = 0\<rparr>, cl_local = (\<lambda>n. \<lparr>la_sessions = [], la_ended = [], la_told = []\<rparr>),
     cl_gone = (\<lambda>n sid. None), cl_used = {}, cl_signing = {}, cl_requests = (\<lambda>r. Idle)\<rparr>"

definition keyed :: "texts \<Rightarrow> users \<Rightarrow> bool" where
  "keyed X us \<longleftrightarrow> (\<forall>k u. map_of us k = Some u \<longrightarrow> k = ToLowerText X (u_Username u))"

inductive auth_reach :: "'x hashing \<Rightarrow> texts \<Rightarrow> duration \<Rightarrow> cluster \<Rightarrow> bool" for H X ttl where
  starts: "keyed X us \<Longrightarrow> auth_reach H X ttl (first_cluster us)"
| steps: "auth_reach H X ttl c \<Longrightarrow> auth_step H X ttl c c' \<Longrightarrow> auth_reach H X ttl c'"

section \<open>What a step does to a session\<close>

definition account_key :: "texts \<Rightarrow> browserSession \<Rightarrow> string option" where
  "account_key X s = map_option (\<lambda>i. ToLowerText X (Subject i)) (bs_Identity s)"

text \<open>What stays of a session whatever is done to it, and what only a judgement changes.\<close>

definition descends :: "texts \<Rightarrow> browserSession \<Rightarrow> browserSession \<Rightarrow> bool" where
  "descends X s s' \<longleftrightarrow> bs_revocations s' = bs_revocations s \<and> bs_accountMade s' = bs_accountMade s \<and> account_key X s' = account_key X s"

definition unjudged :: "texts \<Rightarrow> browserSession \<Rightarrow> browserSession \<Rightarrow> bool" where
  "unjudged X s s' \<longleftrightarrow> descends X s s' \<and> (bs_checked s' = None \<or> bs_checked s' = bs_checked s) \<and> bs_epoch s \<le> bs_epoch s' \<and>
     (bs_epoch s' = bs_epoch s \<longrightarrow> bs_pwStamp s' = bs_pwStamp s \<and> bs_pwPrev s' = bs_pwPrev s)"

lemma unjudged_refl [simp]: "unjudged X s s"
  by (simp add: unjudged_def descends_def)

lemma found_at_node: "found (at_node n st c) m sid =
    (if m = n then (case map_of (la_sessions st) sid of Some s \<Rightarrow> Some s | None \<Rightarrow> found c n sid) else found c m sid)"
  by (simp add: found_def at_node_def split: option.split)

lemma proceed_simps [simp]: "cl_users (proceed r q c) = cl_users c" "cl_local (proceed r q c) = cl_local c" "found (proceed r q c) = found c"
    "cl_used (proceed r q c) = cl_used c" "cl_requests (proceed r q c) = (cl_requests c)(r := q)"
  by (simp_all add: proceed_def found_def fun_eq_iff split: option.split)

lemma at_node_simps [simp]: "cl_users (at_node n st c) = cl_users c" "cl_requests (at_node n st c) = cl_requests c"
    "cl_used (at_node n st c) = cl_used c" "cl_local (at_node n st c) = (cl_local c)(n := st)"
  by (simp_all add: at_node_def)

lemma found_update [simp]: "found (c\<lparr>cl_users := m\<rparr>) = found c" "found (c\<lparr>cl_signing := u\<rparr>) = found c" "found (c\<lparr>cl_used := d\<rparr>) = found c"
    "found (c\<lparr>cl_requests := f\<rparr>) = found c"
  by (simp_all add: found_def fun_eq_iff split: option.split)

lemma map_of_each: "map_of (map (\<lambda>(k, s). (k, f s)) xs) k = map_option f (map_of xs k)"
  by (induction xs) auto

lemma endLocked_sessions: "map_of (la_sessions (endLocked sid why t st)) k = (if k = sid then None else map_of (la_sessions st) k)"
  by (auto simp: endLocked_def split: option.split)

lemma end_list_sessions:
  "map_of (la_sessions (foldl (\<lambda>st sid. endLocked sid why t st) st xs)) k = (if k \<in> set xs then None else map_of (la_sessions st) k)"
  by (induction xs arbitrary: st) (auto simp: endLocked_sessions)

lemma end_all_sessions: "map_of (la_sessions (end_all P why t st)) k = Some s \<Longrightarrow> map_of (la_sessions st) k = Some s"
  by (simp add: end_all_def end_list_sessions split: if_splits)

lemma local_change_sessions:
  assumes "local_change X st st'" "map_of (la_sessions st') sid = Some s'"
  shows "\<exists>s. map_of (la_sessions st) sid = Some s \<and> unjudged X s s'"
  using assms
proof cases
  case (forgets name)
  then show ?thesis using assms(2)
    by (auto simp: auth_forget_def changed_def each_session_def map_of_each unjudged_def descends_def account_key_def)
next
  case (marks name on)
  then show ?thesis using assms(2)
    by (auto simp: markMustChange_def changed_def each_session_def map_of_each unjudged_def descends_def account_key_def)
next
  case (restamps k stamp undo)
  then show ?thesis using assms(2)
    by (auto simp: restamp_def restamp_session_def Let_def unjudged_def descends_def account_key_def split: if_splits option.splits)
next
  case (ends k why t)
  then show ?thesis using assms(2) by (auto simp: endLocked_sessions split: if_splits)
next
  case (ends_for name keep why t)
  then show ?thesis using assms(2)
    by (auto simp: endSessionsFor_def Let_def changed_def split: if_splits dest: end_all_sessions)
next
  case (reaps t)
  then show ?thesis using assms(2) by (auto simp: reap_def Let_def dest: end_all_sessions)
next
  case (touches k t)
  then show ?thesis using assms(2)
    by (auto simp: touch_def unjudged_def descends_def account_key_def split: if_splits option.splits)
next
  case (tells name)
  then show ?thesis using assms(2) by (auto simp: changed_def)
qed

text \<open>A judgement: the session it lets pass passed the tests, and a reading is trusted only if nothing voided it.\<close>

definition refuses :: "'x hashing \<Rightarrow> browserSession \<Rightarrow> int \<Rightarrow> User \<Rightarrow> bool" where
  "refuses H s epoch u \<longleftrightarrow> remade (bs_accountMade s) (u_CreatedAt u) \<or> u_Revocations u > bs_revocations s \<or>
     (bs_epoch s = epoch \<and> bs_pwStamp s \<noteq> '''' \<and> passwordStamp H (u_Hash u) \<noteq> bs_pwStamp s \<and>
       passwordStamp H (u_Hash u) \<noteq> bs_pwPrev s \<and> \<not> u_MustChange u)"

lemma judge_read_refuses:
  assumes "judge_read H sid old now v e got t st = (a, st')" "\<And>s. map_of (la_sessions st) sid = Some s \<Longrightarrow> got = Inr u \<Longrightarrow> refuses H s e u"
    "\<And>u'. got = Inr u' \<Longrightarrow> u' = u"
  shows "\<exists>err. a = Inl err"
proof (cases got)
  case (Inr u')
  show ?thesis
  proof (cases "map_of (la_sessions st) sid")
    case (Some s)
    have "refuses H s e u" using assms(2) [OF Some] assms(3) [OF Inr] Inr by simp
    then show ?thesis using assms(1) Some Inr assms(3) [OF Inr] by (auto simp: judge_read_def Let_def refuses_def split: if_splits)
  qed (use assms(1) Inr in \<open>auto simp: judge_read_def\<close>)
qed (use assms(1) in \<open>auto simp: judge_read_def split: if_splits\<close>)

lemma judge_read_sessions:
  assumes "judge_read H sid old now v e got t st = (a, st')" "map_of (la_sessions st') k = Some s'"
  shows "\<exists>s. map_of (la_sessions st) k = Some s \<and> (s' = s \<or> (k = sid \<and> (\<exists>u. got = Inr u \<and> \<not> refuses H s e u \<and>
    bs_Identity s' = Some (user_identity u (IssuedAt old) (Expires old)) \<and> bs_revocations s' = bs_revocations s \<and>
    bs_accountMade s' = bs_accountMade s \<and> (bs_checked s' = bs_checked s \<or> bs_checked s' = Some \<lparr>ck_version = v, ck_at = now\<rparr>))))"
  using assms
  by (auto simp: judge_read_def Let_def refuses_def endLocked_sessions changed_def split: sum.splits option.splits if_splits)

section \<open>What holds of every reachable cluster\<close>

fun req_at :: "request \<Rightarrow> (nat \<times> string \<times> Identity) option" where
  "req_at (Looked n sid old) = Some (n, sid, old)"
| "req_at (Versioned n sid old now v age) = Some (n, sid, old)"
| "req_at (Missed n sid old now v) = Some (n, sid, old)"
| "req_at (Marked n sid old now v e) = Some (n, sid, old)"
| "req_at (Read n sid old now v e got) = Some (n, sid, old)"
| "req_at _ = None"

fun req_version :: "request \<Rightarrow> string option" where
  "req_version (Versioned n sid old now v age) = Some v"
| "req_version (Missed n sid old now v) = Some v"
| "req_version (Marked n sid old now v e) = Some v"
| "req_version (Read n sid old now v e got) = Some v"
| "req_version _ = None"

definition version_before :: "int \<Rightarrow> string \<Rightarrow> bool" where
  "version_before g v \<longleftrightarrow> (\<exists>g'. v = FormatInt g' \<and> g' < g)"

abbreviation gen_of :: "cluster \<Rightarrow> int" where
  "gen_of c \<equiv> mu_gen (cl_users c)"

abbreviation accounts_of :: "cluster \<Rightarrow> users" where
  "accounts_of c \<equiv> mu_users (cl_users c)"

definition session_inv :: "texts \<Rightarrow> cluster \<Rightarrow> bool" where
  "session_inv X c \<longleftrightarrow> (\<forall>n sid s. found c n sid = Some s \<longrightarrow> sid \<in> cl_used c \<and> account_key X s \<noteq> None \<and>
     (\<forall>ck. bs_checked s = Some ck \<longrightarrow> version_before (gen_of c + 1) (ck_version ck)))"

definition request_inv :: "texts \<Rightarrow> cluster \<Rightarrow> request \<Rightarrow> bool" where
  "request_inv X c q \<longleftrightarrow>
     (\<forall>n sid old. req_at q = Some (n, sid, old) \<longrightarrow> (\<exists>s. found c n sid = Some s \<and> account_key X s = Some (ToLowerText X (Subject old)))) \<and>
     (\<forall>v. req_version q = Some v \<longrightarrow> version_before (gen_of c + 1) v) \<and>
     (\<forall>n sid old now v e u. q = Read n sid old now v e (Inr u) \<longrightarrow> ToLowerText X (u_Username u) = ToLowerText X (Subject old))"

definition auth_inv :: "texts \<Rightarrow> cluster \<Rightarrow> bool" where
  "auth_inv X c \<longleftrightarrow> keyed X (accounts_of c) \<and> session_inv X c \<and> (\<forall>r. request_inv X c (cl_requests c r))"

lemma version_before_mono: "version_before g v \<Longrightarrow> g \<le> g' \<Longrightarrow> version_before g' v"
  unfolding version_before_def by force

lemma keyed_update: "keyed X us \<Longrightarrow> k = ToLowerText X (u_Username u) \<Longrightarrow> keyed X (AList.update k u us)"
  by (simp add: keyed_def)

lemma keyed_writes:
  assumes "keyed X (mu_users m)"
  shows "keyed X (mu_users (snd (us_Put (memory_users X) u m)))" "keyed X (mu_users (snd (MemoryUserStore_Create X u m)))"
    "keyed X (mu_users (snd (us_Delete (memory_users X) name m)))" "keyed X (mu_users (snd (MemoryUserStore_AddRevocation X name m)))"
proof -
  show "keyed X (mu_users (snd (us_Put (memory_users X) u m)))"
    using assms by (simp add: memory_users_def MemoryUserStore_Put_def mu_write_def put_user_def Let_def keyed_update split: option.split)
  show "keyed X (mu_users (snd (MemoryUserStore_Create X u m)))"
    using assms by (auto simp: MemoryUserStore_Create_def mu_write_def create_user_def Let_def keyed_update split: sum.splits)
  show "keyed X (mu_users (snd (us_Delete (memory_users X) name m)))"
    using assms by (auto simp: memory_users_def MemoryUserStore_Delete_def mu_write_def delete_user_def Let_def keyed_def split: sum.splits)
  show "keyed X (mu_users (snd (MemoryUserStore_AddRevocation X name m)))"
    using assms by (auto simp: MemoryUserStore_AddRevocation_def mu_write_def add_revocation_def Let_def keyed_def split: sum.splits option.splits)
qed

lemma gen_writes:
  "mu_gen m \<le> mu_gen (snd (us_Put (memory_users X) u m))" "mu_gen m \<le> mu_gen (snd (MemoryUserStore_Create X u m))"
  "mu_gen m \<le> mu_gen (snd (us_Delete (memory_users X) name m))" "mu_gen m \<le> mu_gen (snd (MemoryUserStore_AddRevocation X name m))"
  by (auto simp: memory_users_def MemoryUserStore_Put_def MemoryUserStore_Create_def MemoryUserStore_Delete_def
      MemoryUserStore_AddRevocation_def mu_write_def split: sum.split)

lemma auth_inv_write:
  assumes "auth_inv X c" "keyed X (mu_users m)" "gen_of c \<le> mu_gen m"
  shows "auth_inv X (c\<lparr>cl_users := m\<rparr>)"
proof -
  have b: "version_before (gen_of c + 1) v \<Longrightarrow> version_before (mu_gen m + 1) v" for v
    using version_before_mono [of "gen_of c + 1" v "mu_gen m + 1"] assms(3) by simp
  show ?thesis
    using assms(1,2) b unfolding auth_inv_def session_inv_def request_inv_def by (auto; blast)
qed

lemma request_inv_proceed [simp]: "request_inv X (proceed r q c) = request_inv X c"
  by (simp add: request_inv_def fun_eq_iff)

lemma auth_inv_proceed:
  assumes "auth_inv X c" "request_inv X c q"
  shows "auth_inv X (proceed r q c)"
  using assms by (simp add: auth_inv_def session_inv_def)

text \<open>A node's sessions may change as long as each comes from one that was there, for the same account.\<close>

definition evolves :: "texts \<Rightarrow> cluster \<Rightarrow> nat \<Rightarrow> local_state \<Rightarrow> bool" where
  "evolves X c n st \<longleftrightarrow> (\<forall>sid s'. map_of (la_sessions st) sid = Some s' \<longrightarrow> (\<exists>s. map_of (la_sessions (cl_local c n)) sid = Some s \<and>
     account_key X s' = account_key X s \<and> (\<forall>ck. bs_checked s' = Some ck \<longrightarrow> version_before (gen_of c + 1) (ck_version ck))))"

lemma found_local: "map_of (la_sessions (cl_local c n)) sid = Some s \<Longrightarrow> found c n sid = Some s"
  by (simp add: found_def)

lemma evolves_found:
  assumes "evolves X c n st" "found c m sid = Some s"
  shows "\<exists>s'. found (at_node n st c) m sid = Some s' \<and> account_key X s' = account_key X s"
proof (cases "m = n")
  case True
  show ?thesis
  proof (cases "map_of (la_sessions st) sid")
    case (Some s')
    then obtain s0 where "map_of (la_sessions (cl_local c n)) sid = Some s0" "account_key X s' = account_key X s0"
      using assms(1) unfolding evolves_def by blast
    then show ?thesis using assms(2) True Some by (simp add: found_at_node found_def)
  qed (use assms(2) True in \<open>simp add: found_at_node\<close>)
qed (use assms(2) in \<open>simp add: found_at_node\<close>)

lemma auth_inv_node:
  assumes "auth_inv X c" "evolves X c n st"
  shows "auth_inv X (at_node n st c)"
proof -
  have s: "session_inv X (at_node n st c)"
    unfolding session_inv_def
  proof (intro allI impI)
    fix m sid s'
    assume f: "found (at_node n st c) m sid = Some s'"
    show "sid \<in> cl_used (at_node n st c) \<and> account_key X s' \<noteq> None \<and>
        (\<forall>ck. bs_checked s' = Some ck \<longrightarrow> version_before (gen_of (at_node n st c) + 1) (ck_version ck))"
    proof (cases "m = n \<and> map_of (la_sessions st) sid \<noteq> None")
      case True
      then have l: "map_of (la_sessions st) sid = Some s'" using f by (auto simp: found_at_node)
      obtain s where s: "map_of (la_sessions (cl_local c n)) sid = Some s" "account_key X s' = account_key X s"
          "\<forall>ck. bs_checked s' = Some ck \<longrightarrow> version_before (gen_of c + 1) (ck_version ck)"
        using assms(2) l unfolding evolves_def by blast
      have "sid \<in> cl_used c \<and> account_key X s \<noteq> None"
        using assms(1) found_local [OF s(1)] unfolding auth_inv_def session_inv_def by blast
      then show ?thesis using s by simp
    next
      case False
      then have "found c m sid = Some s'" using f by (auto simp: found_at_node split: if_splits option.splits)
      then show ?thesis using assms(1) unfolding auth_inv_def session_inv_def by simp
    qed
  qed
  have "request_inv X (at_node n st c) q" if "request_inv X c q" for q
  proof -
    have "\<exists>s. found (at_node n st c) m sid = Some s \<and> account_key X s = Some k" if "found c m sid = Some s" "account_key X s = Some k" for m sid s k
      using evolves_found [OF assms(2) that(1)] that(2) by auto
    then show ?thesis using that unfolding request_inv_def by simp blast
  qed
  then show ?thesis using assms(1) s by (simp add: auth_inv_def)
qed

lemma evolves_change:
  assumes "auth_inv X c" "local_change X (cl_local c n) st"
  shows "evolves X c n st"
  unfolding evolves_def
proof (intro allI impI)
  fix sid s'
  assume "map_of (la_sessions st) sid = Some s'"
  then obtain s where s: "map_of (la_sessions (cl_local c n)) sid = Some s" "unjudged X s s'"
    using local_change_sessions [OF assms(2)] by blast
  have "\<forall>ck. bs_checked s = Some ck \<longrightarrow> version_before (gen_of c + 1) (ck_version ck)"
    using assms(1) found_local [OF s(1)] unfolding auth_inv_def session_inv_def by blast
  then show "\<exists>s. map_of (la_sessions (cl_local c n)) sid = Some s \<and> account_key X s' = account_key X s \<and>
      (\<forall>ck. bs_checked s' = Some ck \<longrightarrow> version_before (gen_of c + 1) (ck_version ck))"
    using s by (auto simp: unjudged_def descends_def)
qed

lemma evolves_judge:
  assumes inv: "auth_inv X c" and q: "cl_requests c r = Read n sid old now v e got"
    and j: "judge_read H sid old now v e got t (cl_local c n) = (a, st)"
  shows "evolves X c n st"
  unfolding evolves_def
proof (intro allI impI)
  fix k s'
  assume k: "map_of (la_sessions st) k = Some s'"
  have ri: "request_inv X c (Read n sid old now v e got)" using inv q unfolding auth_inv_def by metis
  from judge_read_sessions [OF j k] obtain s where s: "map_of (la_sessions (cl_local c n)) k = Some s"
    and d: "s' = s \<or> (k = sid \<and> (\<exists>u. got = Inr u \<and> \<not> refuses H s e u \<and>
      bs_Identity s' = Some (user_identity u (IssuedAt old) (Expires old)) \<and> bs_revocations s' = bs_revocations s \<and>
      bs_accountMade s' = bs_accountMade s \<and> (bs_checked s' = bs_checked s \<or> bs_checked s' = Some \<lparr>ck_version = v, ck_at = now\<rparr>)))"
    by blast
  have f: "found c n k = Some s" using s by (rule found_local)
  have ck: "\<forall>ck. bs_checked s = Some ck \<longrightarrow> version_before (gen_of c + 1) (ck_version ck)"
    using inv f unfolding auth_inv_def session_inv_def by blast
  from d show "\<exists>s. map_of (la_sessions (cl_local c n)) k = Some s \<and> account_key X s' = account_key X s \<and>
      (\<forall>ck. bs_checked s' = Some ck \<longrightarrow> version_before (gen_of c + 1) (ck_version ck))"
  proof
    assume "s' = s"
    then show ?thesis using s ck by blast
  next
    assume "k = sid \<and> (\<exists>u. got = Inr u \<and> \<not> refuses H s e u \<and>
      bs_Identity s' = Some (user_identity u (IssuedAt old) (Expires old)) \<and> bs_revocations s' = bs_revocations s \<and>
      bs_accountMade s' = bs_accountMade s \<and> (bs_checked s' = bs_checked s \<or> bs_checked s' = Some \<lparr>ck_version = v, ck_at = now\<rparr>))"
    then obtain u where u: "k = sid" "got = Inr u" "bs_Identity s' = Some (user_identity u (IssuedAt old) (Expires old))"
      "bs_checked s' = bs_checked s \<or> bs_checked s' = Some \<lparr>ck_version = v, ck_at = now\<rparr>" by blast
    have "version_before (gen_of c + 1) v" "ToLowerText X (u_Username u) = ToLowerText X (Subject old)"
      using ri u(2) by (simp_all add: request_inv_def)
    moreover have "account_key X s = Some (ToLowerText X (Subject old))"
      using ri f u(1) by (auto simp: request_inv_def)
    ultimately show ?thesis using s ck u(3,4) by (auto simp: account_key_def user_identity_def)
  qed
qed

lemma auth_inv_issue:
  assumes inv: "auth_inv X c" and new: "sid \<notin> cl_used c"
  shows "auth_inv X ((at_node n ((cl_local c n)\<lparr>la_sessions := AList.update sid (new_session H ttl u t) (la_sessions (cl_local c n))\<rparr>) c)
    \<lparr>cl_used := insert sid (cl_used c)\<rparr>)" (is "auth_inv X ?c")
proof -
  have nf: "found c m sid = None" for m
    using inv new unfolding auth_inv_def session_inv_def by (metis not_None_eq)
  have f: "found ?c m k = (if m = n \<and> k = sid then Some (new_session H ttl u t) else found c m k)" for m k
    by (simp add: found_at_node) (simp add: found_def split: option.split)
  have "session_inv X ?c"
    using inv unfolding auth_inv_def session_inv_def f by (auto simp: new_session_def account_key_def)
  moreover have "request_inv X ?c q" if "request_inv X c q" for q
    using that nf unfolding request_inv_def f by (auto; metis option.distinct(1))
  ultimately show ?thesis using inv by (simp add: auth_inv_def)
qed

lemma auth_inv_step:
  assumes inv: "auth_inv X c" and "auth_step H X ttl c c'"
  shows "auth_inv X c'"
  using assms(2)
proof cases
  case (look r sid t n s old)
  then have "found c n sid = Some s" by (auto simp: live_session_def found_def split: option.splits if_splits)
  then have "request_inv X c (Looked n sid old)" using look(4) by (simp add: request_inv_def account_key_def)
  then show ?thesis using auth_inv_proceed [OF inv] look(1) by simp
next
  case (ask r n sid old v age now)
  have "request_inv X c (Looked n sid old)" using inv ask(2) unfolding auth_inv_def by metis
  moreover have "version_before (gen_of c + 1) v"
    using ask(3) by (auto simp: store_version_def memory_users_def MemoryUserStore_Version_def version_before_def)
  ultimately have "request_inv X c (Versioned n sid old now v age)" by (simp add: request_inv_def)
  then show ?thesis using auth_inv_proceed [OF inv] ask(1) by simp
next
  case (trust r n sid old now v age s)
  show ?thesis unfolding trust(1) by (rule auth_inv_proceed [OF inv]) (simp add: request_inv_def)
next
  case (miss r n sid old now v age s)
  have "request_inv X c (Versioned n sid old now v age)" using inv miss(2) unfolding auth_inv_def by metis
  then have "request_inv X c (Missed n sid old now v)" by (simp add: request_inv_def)
  then show ?thesis using auth_inv_proceed [OF inv] miss(1) by simp
next
  case (mark r n sid old now v s)
  have "request_inv X c (Missed n sid old now v)" using inv mark(2) unfolding auth_inv_def by metis
  then have "request_inv X c (Marked n sid old now v (bs_epoch s))" by (simp add: request_inv_def)
  then show ?thesis using auth_inv_proceed [OF inv] mark(1) by simp
next
  case (read r n sid old now v e)
  have "request_inv X c (Marked n sid old now v e)" using inv read(2) unfolding auth_inv_def by metis
  moreover have "ToLowerText X (u_Username u) = ToLowerText X (Subject old)"
    if "us_Get (memory_users X) (Subject old) (cl_users c) = Inr u" for u
    using inv that by (auto simp: auth_inv_def keyed_def memory_users_def MemoryUserStore_Get_def get_user_def split: option.splits)
  ultimately have "request_inv X c (Read n sid old now v e (us_Get (memory_users X) (Subject old) (cl_users c)))"
    by (simp add: request_inv_def)
  then show ?thesis using auth_inv_proceed [OF inv] read(1) by simp
next
  case (judge r n sid old now v e got t a st)
  have "auth_inv X (at_node n st c)" by (rule auth_inv_node [OF inv evolves_judge [OF inv judge(2,3)]])
  then show ?thesis unfolding judge(1) by (rule auth_inv_proceed) (simp add: request_inv_def)
next
  case (authenticates name u password)
  then show ?thesis using inv by (simp add: auth_inv_def session_inv_def request_inv_def)
next
  case (issues u sid n t)
  show ?thesis unfolding issues(1) by (rule auth_inv_issue [OF inv issues(3)])
next
  case (puts u)
  show ?thesis unfolding puts using inv by (intro auth_inv_write keyed_writes gen_writes) (auto simp: auth_inv_def)
next
  case (creates u)
  show ?thesis unfolding creates using inv by (intro auth_inv_write keyed_writes gen_writes) (auto simp: auth_inv_def)
next
  case (deletes name)
  show ?thesis unfolding deletes using inv by (intro auth_inv_write keyed_writes gen_writes) (auto simp: auth_inv_def)
next
  case (revokes name)
  show ?thesis unfolding revokes using inv by (intro auth_inv_write keyed_writes gen_writes) (auto simp: auth_inv_def)
next
  case (local n st)
  show ?thesis unfolding local(1) by (rule auth_inv_node [OF inv evolves_change [OF inv local(2)]])
qed

lemma auth_inv_reach: "auth_reach H X ttl c \<Longrightarrow> auth_inv X c"
proof (induction rule: auth_reach.induct)
  case (starts us)
  then show ?case
    by (simp add: auth_inv_def session_inv_def request_inv_def first_cluster_def found_def)
next
  case (steps c c')
  show ?case by (rule auth_inv_step [OF steps.IH steps.hyps(2)])
qed

section \<open>A session that the account no longer bears out\<close>

text \<open>
  From a write on (version \<open>g\<close>) the accounts satisfy \<open>R\<close>, of which the session cannot pass a judgement while it is \<open>fine\<close>. Then no
  reading at that version or a later one is ever trusted, and a request that begins after the write is answered with an error.
\<close>

definition held_request :: "nat \<Rightarrow> string \<Rightarrow> int \<Rightarrow> (int \<Rightarrow> bool) \<Rightarrow> (User \<Rightarrow> bool) \<Rightarrow> request \<Rightarrow> bool" where
  "held_request n sid g E R q \<longleftrightarrow>
     (\<forall>old now v e. q = Marked n sid old now v e \<longrightarrow> version_before g v \<or> E e) \<and>
     (\<forall>old now v e got. q = Read n sid old now v e got \<longrightarrow> version_before g v \<or> (E e \<and> (\<forall>u. got = Inr u \<longrightarrow> R u)))"

definition late_request :: "nat \<Rightarrow> string \<Rightarrow> int \<Rightarrow> request \<Rightarrow> bool" where
  "late_request n sid g q \<longleftrightarrow> (\<forall>old v. req_at q = Some (n, sid, old) \<longrightarrow> req_version q = Some v \<longrightarrow> \<not> version_before g v) \<and>
     (\<forall>a. q = Answered n sid a \<longrightarrow> (\<exists>e. a = Inl e))"

definition stale_session :: "texts \<Rightarrow> browserSession \<Rightarrow> int \<Rightarrow> browserSession \<Rightarrow> bool" where
  "stale_session X s0 g s \<longleftrightarrow> descends X s0 s \<and> (\<forall>ck. bs_checked s = Some ck \<longrightarrow> version_before g (ck_version ck))"

definition locked_out :: "texts \<Rightarrow> browserSession \<Rightarrow> nat \<Rightarrow> string \<Rightarrow> int \<Rightarrow> (int \<Rightarrow> bool) \<Rightarrow> (User \<Rightarrow> bool) \<Rightarrow> nat \<Rightarrow> cluster \<Rightarrow> bool" where
  "locked_out X s0 n sid g E R r c \<longleftrightarrow> g \<le> gen_of c \<and> (\<exists>s. found c n sid = Some s \<and> stale_session X s0 g s) \<and>
     (\<forall>r'. held_request n sid g E R (cl_requests c r')) \<and> late_request n sid g (cl_requests c r)"

definition superseded :: "string \<Rightarrow> nat \<Rightarrow> string \<Rightarrow> (browserSession \<Rightarrow> bool) \<Rightarrow> (User \<Rightarrow> bool) \<Rightarrow> cluster \<Rightarrow> bool" where
  "superseded key n sid fine R c \<longleftrightarrow> (\<forall>u. map_of (accounts_of c) key = Some u \<longrightarrow> R u) \<and> (\<forall>s. found c n sid = Some s \<longrightarrow> fine s)"

lemma FormatInt_inject: "FormatInt m = FormatInt n \<Longrightarrow> m = n"
proof -
  assume e: "FormatInt m = FormatInt n"
  obtain c cs where c: "nat_dec (nat m) = c # cs" "c \<noteq> CHR ''-''" by (rule nat_dec_first)
  obtain d ds where d: "nat_dec (nat n) = d # ds" "d \<noteq> CHR ''-''" by (rule nat_dec_first)
  show ?thesis
  proof (cases "m < 0 \<or> n < 0")
    case True
    then show ?thesis using e c d by (auto simp: FormatInt_def split: if_splits dest!: nat_dec_inject)
  next
    case False
    then have "nat m = nat n" using e by (auto simp: FormatInt_def intro: nat_dec_inject)
    then show ?thesis using False by arith
  qed
qed

lemma version_now: "g \<le> g' \<Longrightarrow> \<not> version_before g (FormatInt g')"
  unfolding version_before_def using FormatInt_inject by force

lemma locked_out_proceed:
  assumes "locked_out X s0 n sid g E R r c" "held_request n sid g E R q" "r' = r \<Longrightarrow> late_request n sid g q"
  shows "locked_out X s0 n sid g E R r (proceed r' q c)"
  using assms unfolding locked_out_def by simp

lemma locked_out_node:
  assumes "locked_out X s0 n sid g E R r c"
    "\<And>s s'. m = n \<Longrightarrow> map_of (la_sessions (cl_local c n)) sid = Some s \<Longrightarrow> stale_session X s0 g s \<Longrightarrow> map_of (la_sessions st) sid = Some s'
      \<Longrightarrow> stale_session X s0 g s'"
    "\<And>s'. m = n \<Longrightarrow> map_of (la_sessions st) sid = Some s' \<Longrightarrow> map_of (la_sessions (cl_local c n)) sid \<noteq> None"
  shows "locked_out X s0 n sid g E R r (at_node m st c)"
proof -
  obtain s where s: "found c n sid = Some s" "stale_session X s0 g s" using assms(1) unfolding locked_out_def by blast
  have "\<exists>s'. found (at_node m st c) n sid = Some s' \<and> stale_session X s0 g s'"
  proof (cases "m = n \<and> map_of (la_sessions st) sid \<noteq> None")
    case True
    then obtain s' where s': "map_of (la_sessions st) sid = Some s'" by blast
    obtain s1 where s1: "map_of (la_sessions (cl_local c n)) sid = Some s1" using assms(3) [OF _ s'] True by blast
    have "s1 = s" using s(1) s1 by (simp add: found_def)
    then show ?thesis using assms(2) [OF _ s1 _ s'] s(2) True s' by (simp add: found_at_node)
  next
    case False
    then show ?thesis using s by (auto simp: found_at_node)
  qed
  then show ?thesis using assms(1) unfolding locked_out_def by simp
qed

lemma locked_out_write:
  assumes "locked_out X s0 n sid g E R r c" "gen_of c \<le> mu_gen m"
  shows "locked_out X s0 n sid g E R r (c\<lparr>cl_users := m\<rparr>)"
  using assms unfolding locked_out_def by simp

text \<open>The one step that could let the session pass.\<close>

lemma locked_out_judge:
  assumes inv: "auth_inv X c" and lo: "locked_out X s0 n sid g E R r c"
    and req: "cl_requests c r' = Read n' sid' old now v e got" and judge: "judge_read H sid' old now v e got t (cl_local c n') = (a, st)"
    and bears: "superseded key n sid fine R c"
    and refused: "\<And>s u e. descends X s0 s \<Longrightarrow> fine s \<Longrightarrow> E e \<Longrightarrow> R u \<Longrightarrow> refuses H s e u"
  shows "locked_out X s0 n sid g E R r (proceed r' (Answered n' sid' a) (at_node n' st c))"
proof -
  have held: "\<And>r'. held_request n sid g E R (cl_requests c r')" and late: "late_request n sid g (cl_requests c r)"
    using lo unfolding locked_out_def by blast+
  obtain s1 where s1: "found c n sid = Some s1" "stale_session X s0 g s1" using lo unfolding locked_out_def by blast
  have f1: "fine s1" using bears s1(1) unfolding superseded_def by blast
  note keys = evolves_judge [OF inv req judge]
  have hr: "version_before g v \<or> (E e \<and> (\<forall>u. got = Inr u \<longrightarrow> R u))" if "n' = n" "sid' = sid"
    using held [of r'] req that by (simp add: held_request_def)
  have fine_live: "s = s1" if "map_of (la_sessions (cl_local c n)) sid = Some s" for s
    using that s1(1) by (simp add: found_def)
  have "locked_out X s0 n sid g E R r (at_node n' st c)"
  proof (rule locked_out_node [OF lo])
    fix s s'
    assume m: "n' = n" and s: "map_of (la_sessions (cl_local c n)) sid = Some s" "stale_session X s0 g s"
      and s': "map_of (la_sessions st) sid = Some s'"
    have k: "account_key X s' = account_key X s" using keys s s' m unfolding evolves_def by fastforce
    from judge_read_sessions [OF judge s'] s(1) m
    have "s' = s \<or> (sid = sid' \<and> (\<exists>u. got = Inr u \<and> \<not> refuses H s e u \<and> bs_revocations s' = bs_revocations s \<and>
        bs_accountMade s' = bs_accountMade s \<and> (bs_checked s' = bs_checked s \<or> bs_checked s' = Some \<lparr>ck_version = v, ck_at = now\<rparr>)))"
      by auto
    then show "stale_session X s0 g s'"
    proof
      assume "sid = sid' \<and> (\<exists>u. got = Inr u \<and> \<not> refuses H s e u \<and> bs_revocations s' = bs_revocations s \<and>
        bs_accountMade s' = bs_accountMade s \<and> (bs_checked s' = bs_checked s \<or> bs_checked s' = Some \<lparr>ck_version = v, ck_at = now\<rparr>))"
      then obtain u where u: "sid = sid'" "got = Inr u" "\<not> refuses H s e u" "bs_revocations s' = bs_revocations s"
        "bs_accountMade s' = bs_accountMade s" "bs_checked s' = bs_checked s \<or> bs_checked s' = Some \<lparr>ck_version = v, ck_at = now\<rparr>" by blast
      have d: "descends X s0 s" using s(2) by (simp add: stale_session_def)
      have "version_before g v"
      proof (rule ccontr)
        assume "\<not> version_before g v"
        then have "E e" "R u" using hr [OF m u(1) [symmetric]] u(2) by auto
        then show False using refused [OF d] f1 fine_live [OF s(1)] u(3) by blast
      qed
      then show ?thesis using s(2) u k by (auto simp: stale_session_def descends_def)
    qed (use s in simp)
  next
    fix s'
    assume "n' = n" "map_of (la_sessions st) sid = Some s'"
    then show "map_of (la_sessions (cl_local c n)) sid \<noteq> None" using keys unfolding evolves_def by fastforce
  qed
  moreover have "\<exists>err. a = Inl err" if here: "r' = r" "n' = n" "sid' = sid"
  proof -
    have "\<not> version_before g v" using late req here by (simp add: late_request_def)
    then have E: "E e" and R: "\<forall>u. got = Inr u \<longrightarrow> R u" using hr here by blast+
    show ?thesis
    proof (cases got)
      case (Inr u)
      show ?thesis
      proof (rule judge_read_refuses [OF judge, of u])
        fix s assume "map_of (la_sessions (cl_local c n')) sid' = Some s"
        then have "s = s1" using fine_live here by simp
        then show "refuses H s e u" using refused [of s1 e u] s1(2) f1 E R Inr by (simp add: stale_session_def)
      qed (use Inr in simp)
    next
      case (Inl err)
      then show ?thesis using judge by (auto simp: judge_read_def split: if_splits)
    qed
  qed
  ultimately show ?thesis     by (intro locked_out_proceed) (auto simp: held_request_def late_request_def)
qed

lemma locked_out_step:
  assumes inv: "auth_inv X c" and lo: "locked_out X s0 n sid g E R r c" and step: "auth_step H X ttl c c'"
    and key: "account_key X s0 = Some key" and bears: "superseded key n sid fine R c"
    and epoch: "\<And>s. fine s \<Longrightarrow> E (bs_epoch s)"
    and refused: "\<And>s u e. descends X s0 s \<Longrightarrow> fine s \<Longrightarrow> E e \<Longrightarrow> R u \<Longrightarrow> refuses H s e u"
  shows "locked_out X s0 n sid g E R r c'"
proof -
  have g: "g \<le> gen_of c" and held: "\<And>r'. held_request n sid g E R (cl_requests c r')" and late: "late_request n sid g (cl_requests c r)"
    using lo unfolding locked_out_def by blast+
  obtain s1 where s1: "found c n sid = Some s1" "stale_session X s0 g s1" using lo unfolding locked_out_def by blast
  have f1: "fine s1" using bears s1(1) unfolding superseded_def by blast
  have at_key: "ToLowerText X (Subject old) = key" if "req_at (cl_requests c r') = Some (n, sid, old)" for r' old
  proof -
    have "request_inv X c (cl_requests c r')" using inv unfolding auth_inv_def by blast
    then have "account_key X s1 = Some (ToLowerText X (Subject old))" using that s1(1) by (auto simp: request_inv_def)
    then show ?thesis using key s1(2) by (simp add: stale_session_def descends_def)
  qed
  note next_request = locked_out_proceed [OF lo]
  note next_users = locked_out_write [OF lo]
  show ?thesis
    using step
  proof cases
    case (look r' sid' t n' s old)
    show ?thesis unfolding look(1) by (rule next_request) (simp_all add: held_request_def late_request_def)
  next
    case (ask r' n' sid' old v age now)
    have "v = FormatInt (gen_of c)" using ask(3) by (auto simp: store_version_def memory_users_def MemoryUserStore_Version_def)
    then show ?thesis unfolding ask(1) using version_now [OF g]
      by (intro next_request) (auto simp: held_request_def late_request_def)
  next
    case (trust r' n' sid' old now v age s)
    have "False" if "r' = r" "n' = n" "sid' = sid"
    proof -
      have "\<not> version_before g v" using late trust(2) that by (simp add: late_request_def)
      moreover have "version_before g v"
        using trust(3,4) s1 that by (auto simp: trusts_def stale_session_def split: option.splits)
      ultimately show False by blast
    qed
    then show ?thesis unfolding trust(1) by (intro next_request) (auto simp: held_request_def late_request_def)
  next
    case (miss r' n' sid' old now v age s)
    have "\<not> version_before g v" if "r' = r" "n' = n" "sid' = sid" using late miss(2) that by (simp add: late_request_def)
    then show ?thesis unfolding miss(1) by (intro next_request) (auto simp: held_request_def late_request_def)
  next
    case (mark r' n' sid' old now v s)
    have "\<not> version_before g v" if "r' = r" "n' = n" "sid' = sid" using late mark(2) that by (simp add: late_request_def)
    moreover have "E (bs_epoch s)" if "n' = n" "sid' = sid" using epoch [OF f1] s1(1) mark(3) that by simp
    ultimately show ?thesis unfolding mark(1) by (intro next_request) (auto simp: held_request_def late_request_def)
  next
    case (read r' n' sid' old now v e)
    have "\<not> version_before g v" if "r' = r" "n' = n" "sid' = sid" using late read(2) that by (simp add: late_request_def)
    moreover have "version_before g v \<or> E e" if "n' = n" "sid' = sid" using held [of r'] read(2) that by (simp add: held_request_def)
    moreover have "R u" if "n' = n" "sid' = sid" "us_Get (memory_users X) (Subject old) (cl_users c) = Inr u" for u
      using that at_key [of r' old] bears read(2)
      by (auto simp: superseded_def memory_users_def MemoryUserStore_Get_def get_user_def split: option.splits)
    ultimately show ?thesis unfolding read(1) by (intro next_request) (auto simp: held_request_def late_request_def)
  next
    case (judge r' n' sid' old now v e got t a st)
    show ?thesis unfolding judge(1) by (rule locked_out_judge [OF inv lo judge(2,3) bears refused])
  next
    case (authenticates name u password)
    then show ?thesis using lo by (simp add: locked_out_def)
  next
    case (issues u sid' n' t)
    have "sid \<in> cl_used c" using inv s1(1) unfolding auth_inv_def session_inv_def by blast
    then have ne: "sid' \<noteq> sid" using issues(3) by blast
    have "locked_out X s0 n sid g E R r (at_node n' ((cl_local c n')\<lparr>la_sessions :=
        AList.update sid' (new_session H ttl u t) (la_sessions (cl_local c n'))\<rparr>) c)"
      by (rule locked_out_node [OF lo]) (use ne in auto)
    then show ?thesis unfolding issues(1) by (simp add: locked_out_def)
  next
    case (puts u)
    show ?thesis unfolding puts by (rule next_users [OF gen_writes(1)])
  next
    case (creates u)
    show ?thesis unfolding creates by (rule next_users [OF gen_writes(2)])
  next
    case (deletes name)
    show ?thesis unfolding deletes by (rule next_users [OF gen_writes(3)])
  next
    case (revokes name)
    show ?thesis unfolding revokes by (rule next_users [OF gen_writes(4)])
  next
    case (local n' st)
    show ?thesis unfolding local(1)
    proof (rule locked_out_node [OF lo])
      fix s s'
      assume "n' = n" "map_of (la_sessions (cl_local c n)) sid = Some s" "stale_session X s0 g s" "map_of (la_sessions st) sid = Some s'"
      moreover from this obtain s2 where "map_of (la_sessions (cl_local c n)) sid = Some s2" "unjudged X s2 s'"
        using local_change_sessions [OF local(2)] by blast
      ultimately show "stale_session X s0 g s'" by (auto simp: stale_session_def unjudged_def descends_def)
    next
      fix s'
      assume "n' = n" "map_of (la_sessions st) sid = Some s'"
      then show "map_of (la_sessions (cl_local c n)) sid \<noteq> None" using local_change_sessions [OF local(2)] by fastforce
    qed
  qed
qed

text \<open>From the write on, along any run whose states all speak against the session.\<close>

definition run_of :: "'x hashing \<Rightarrow> texts \<Rightarrow> duration \<Rightarrow> (cluster \<Rightarrow> bool) \<Rightarrow> cluster \<Rightarrow> cluster \<Rightarrow> bool" where
  "run_of H X ttl P = rtranclp (\<lambda>a b. auth_step H X ttl a b \<and> P b)"

lemma locked_out_run:
  assumes "run_of H X ttl (superseded key n sid fine R) c c'" "auth_inv X c" "locked_out X s0 n sid g E R r c" "superseded key n sid fine R c"
    and key: "account_key X s0 = Some key" and epoch: "\<And>s. fine s \<Longrightarrow> E (bs_epoch s)"
    and refused: "\<And>s u e. descends X s0 s \<Longrightarrow> fine s \<Longrightarrow> E e \<Longrightarrow> R u \<Longrightarrow> refuses H s e u"
  shows "locked_out X s0 n sid g E R r c'"
proof -
  have "auth_inv X c' \<and> locked_out X s0 n sid g E R r c' \<and> superseded key n sid fine R c'"
    using assms(1) unfolding run_of_def
  proof (induction rule: rtranclp_induct)
    case base
    then show ?case using assms(2-4) by simp
  next
    case (step a b)
    then have a: "auth_inv X a" "locked_out X s0 n sid g E R r a" "superseded key n sid fine R a" and ab: "auth_step H X ttl a b" by auto
    show ?case
      using auth_inv_step [OF a(1) ab] locked_out_step [OF a(1,2) ab key a(3) epoch refused] step.hyps(2) by blast
  qed
  then show ?thesis by simp
qed

lemma locked_out_write_base:
  assumes "auth_inv X c" "found c n sid = Some s" "gen_of c < mu_gen m" "cl_requests c r = Idle"
  shows "locked_out X s n sid (gen_of c + 1) E R r (c\<lparr>cl_users := m\<rparr>)"
proof -
  have "stale_session X s (gen_of c + 1) s"
    using assms(1,2) unfolding auth_inv_def session_inv_def stale_session_def descends_def by blast
  moreover have "held_request n sid (gen_of c + 1) E R (cl_requests c r')" for r'
  proof -
    have "request_inv X c (cl_requests c r')" using assms(1) unfolding auth_inv_def by blast
    then show ?thesis by (auto simp: held_request_def request_inv_def)
  qed
  ultimately show ?thesis using assms(2-4) by (simp add: locked_out_def late_request_def)
qed

lemma answered_late: "locked_out X s0 n sid g E R r c \<Longrightarrow> cl_requests c r = Answered n sid a \<Longrightarrow> \<exists>e. a = Inl e"
  by (auto simp: locked_out_def late_request_def)

section \<open>Signing out everywhere\<close>

lemma revocations_grow:
  assumes "auth_step H X ttl c c'" "map_of (accounts_of c) k = Some u" "map_of (accounts_of c') k = Some u'"
  shows "u_Revocations u \<le> u_Revocations u'"
  using assms
proof cases
  case (puts v)
  then show ?thesis using assms(2,3)
    by (auto simp: memory_users_def MemoryUserStore_Put_def mu_write_def put_user_def Let_def split: if_splits option.splits)
next
  case (creates v)
  then show ?thesis using assms(2,3)
    by (auto simp: MemoryUserStore_Create_def mu_write_def create_user_def Let_def split: if_splits sum.splits)
next
  case (deletes name)
  then show ?thesis using assms(2,3)
    by (auto simp: memory_users_def MemoryUserStore_Delete_def mu_write_def delete_user_def Let_def split: if_splits sum.splits)
next
  case (revokes name)
  then show ?thesis using assms(2,3)
    by (auto simp: MemoryUserStore_AddRevocation_def mu_write_def add_revocation_def Let_def split: if_splits sum.splits option.splits)
qed auto

lemma revoked_run:
  assumes "run_of H X ttl (\<lambda>b. map_of (accounts_of b) k \<noteq> None) c c'" "map_of (accounts_of c) k = Some u" "N \<le> u_Revocations u"
  shows "run_of H X ttl (superseded k n sid (\<lambda>_. True) (\<lambda>u. N \<le> u_Revocations u)) c c'"
proof -
  have "run_of H X ttl (superseded k n sid (\<lambda>_. True) (\<lambda>u. N \<le> u_Revocations u)) c c' \<and> (\<exists>v. map_of (accounts_of c') k = Some v \<and> N \<le> u_Revocations v)"
    using assms(1) unfolding run_of_def
  proof (induction rule: rtranclp_induct)
    case base
    then show ?case using assms(2,3) by blast
  next
    case (step a b)
    obtain v where v: "map_of (accounts_of a) k = Some v" "N \<le> u_Revocations v" using step.IH by blast
    obtain v' where v': "map_of (accounts_of b) k = Some v'" using step.hyps(2) by blast
    have "N \<le> u_Revocations v'" using revocations_grow [OF _ v(1) v'] step.hyps(2) v(2) by fastforce
    moreover from this have "superseded k n sid (\<lambda>_. True) (\<lambda>u. N \<le> u_Revocations u) b" using v' by (simp add: superseded_def)
    ultimately show ?case using step.IH step.hyps(2) v' by (auto intro: rtranclp.rtrancl_into_rtrancl)
  qed
  then show ?thesis by simp
qed

text \<open>
  C14: Signing out everywhere holds everywhere: once the count of an account was raised, on whatever server that shares the accounts,
  every request that begins later on a session issued under a lower count is answered with an error, on every server, whatever
  requests were in flight, whatever else is written, and however often the session was trusted before, as long as the account is not removed.\<close>

theorem signed_out_everywhere:
  assumes "auth_reach H X ttl c0" "found c0 n sid = Some s" "account_key X s = Some (ToLowerText X name)"
    "MemoryUserStore_AddRevocation X name (cl_users c0) = (Inr count, m)" "bs_revocations s < count" "cl_requests c0 r = Idle"
    "run_of H X ttl (\<lambda>b. map_of (accounts_of b) (ToLowerText X name) \<noteq> None) (c0\<lparr>cl_users := m\<rparr>) c" "cl_requests c r = Answered n sid a"
  shows "\<exists>e. a = Inl e"
proof -
  let ?R = "\<lambda>u. count \<le> u_Revocations u" and ?c = "c0\<lparr>cl_users := m\<rparr>"
  have inv: "auth_inv X c0" by (rule auth_inv_reach [OF assms(1)])
  have m: "gen_of c0 < mu_gen m" "\<exists>u. map_of (mu_users m) (ToLowerText X name) = Some u \<and> count \<le> u_Revocations u"
    using assms(4) by (auto simp: MemoryUserStore_AddRevocation_def add_revocation_def mu_write_def Let_def split: sum.splits option.splits)
  then obtain u where u: "map_of (accounts_of ?c) (ToLowerText X name) = Some u" "count \<le> u_Revocations u" by auto
  have "keyed X (mu_users m)" using keyed_writes(4) [of X "cl_users c0" name] inv assms(4) by (simp add: auth_inv_def)
  then have inv': "auth_inv X ?c" using auth_inv_write [OF inv] m(1) by simp
  have base: "locked_out X s n sid (gen_of c0 + 1) (\<lambda>_. True) ?R r ?c"
    by (rule locked_out_write_base [OF inv assms(2) m(1) assms(6)])
  have "superseded (ToLowerText X name) n sid (\<lambda>_. True) ?R ?c" using u by (simp add: superseded_def)
  then have "locked_out X s n sid (gen_of c0 + 1) (\<lambda>_. True) ?R r c"
    by (rule locked_out_run [OF revoked_run [OF assms(7) u] inv' base _ assms(3)])
      (use assms(5) in \<open>auto simp: refuses_def descends_def\<close>)
  then show ?thesis by (rule answered_late [OF _ assms(8)])
qed

section \<open>A changed password\<close>

definition has_password :: "'x hashing \<Rightarrow> string \<Rightarrow> User \<Rightarrow> bool" where
  "has_password H stamp u \<longleftrightarrow> passwordStamp H (u_Hash u) = stamp \<and> \<not> u_MustChange u"

definition other_password :: "string \<Rightarrow> int \<Rightarrow> browserSession \<Rightarrow> bool" where
  "other_password stamp e s \<longleftrightarrow> bs_epoch s = e \<and> bs_pwStamp s \<notin> {'''', stamp} \<and> bs_pwPrev s \<noteq> stamp"

text \<open>
  C15: A password that was changed shuts out who still holds a session from the old one: after the account was stored with a new
  hash, every request that begins later on a session stamped otherwise is answered with an error, on every server, while the
  account keeps that password and nothing voids the readings of the session (an administrator's change, or a change of its own).\<close>

theorem old_password_locked_out:
  assumes "auth_reach H X ttl c0" "found c0 n sid = Some s" "account_key X s = Some key"
    "us_Put (memory_users X) u (cl_users c0) = (None, m)" "cl_requests c0 r = Idle"
    "superseded key n sid (other_password stamp e) (has_password H stamp) (c0\<lparr>cl_users := m\<rparr>)"
    "run_of H X ttl (superseded key n sid (other_password stamp e) (has_password H stamp)) (c0\<lparr>cl_users := m\<rparr>) c"
    "cl_requests c r = Answered n sid a"
  shows "\<exists>err. a = Inl err"
proof -
  have inv: "auth_inv X c0" by (rule auth_inv_reach [OF assms(1)])
  have m: "gen_of c0 < mu_gen m" using assms(4) by (auto simp: memory_users_def MemoryUserStore_Put_def mu_write_def)
  have "keyed X (mu_users m)" using keyed_writes(1) [of X "cl_users c0" u] inv assms(4) by (simp add: auth_inv_def)
  then have inv': "auth_inv X (c0\<lparr>cl_users := m\<rparr>)" using auth_inv_write [OF inv] m by simp
  have "locked_out X s n sid (gen_of c0 + 1) (\<lambda>k. k = e) (has_password H stamp) r c"
    by (rule locked_out_run [OF assms(7) inv' locked_out_write_base [OF inv assms(2) m assms(5)] assms(6,3)])
      (auto simp: refuses_def other_password_def has_password_def)
  then show ?thesis by (rule answered_late [OF _ assms(8)])
qed

section \<open>Samples\<close>

text \<open>A request that is not overtaken, step by step.\<close>

lemma request_run:
  assumes idle: "cl_requests c r = Idle" and live: "live_session (Some sid) t (cl_local c n) = Some (sid, s)" and i: "bs_Identity s = Some old"
    and v: "store_version (memory_users X) (cl_users c) = (v, age)" and miss: "\<not> trusts s v age now"
    and j: "judge_read H sid old now v (bs_epoch s) (us_Get (memory_users X) (Subject old) (cl_users c)) t' (cl_local c n) = (a, st)"
    and P: "\<And>c'. cl_users c' = cl_users c \<Longrightarrow> found c' = found c \<Longrightarrow> P c'"
    and last: "\<And>c'. cl_users c' = cl_users c \<Longrightarrow> found c' = found (at_node n st c) \<Longrightarrow> P c'"
  shows "run_of H X ttl P c (proceed r (Answered n sid a) (at_node n st c))"
proof -
  let ?got = "us_Get (memory_users X) (Subject old) (cl_users c)"
  have f: "found c n sid = Some s" using live by (auto simp: live_session_def found_def split: option.splits if_splits)
  define c1 where "c1 = proceed r (Looked n sid old) c"
  define c2 where "c2 = proceed r (Versioned n sid old now v age) c1"
  define c3 where "c3 = proceed r (Missed n sid old now v) c2"
  define c4 where "c4 = proceed r (Marked n sid old now v (bs_epoch s)) c3"
  define c5 where "c5 = proceed r (Read n sid old now v (bs_epoch s) ?got) c4"
  define c6 where "c6 = proceed r (Answered n sid a) (at_node n st c5)"
  note cs = c1_def c2_def c3_def c4_def c5_def
  have "auth_step H X ttl c c1" unfolding c1_def by (rule look [OF idle live i])
  moreover have "auth_step H X ttl c1 c2" unfolding c2_def by (rule ask) (simp_all add: c1_def v)
  moreover have "auth_step H X ttl c2 c3" unfolding c3_def by (rule auth_step.miss [OF _ _ miss]) (simp_all add: cs f)
  moreover have "auth_step H X ttl c3 c4" unfolding c4_def by (rule mark) (simp_all add: cs f)
  moreover have "auth_step H X ttl c4 c5" unfolding c5_def using auth_step.read [of c4 r n sid old now v "bs_epoch s" H X ttl] by (simp add: cs)
  moreover have "auth_step H X ttl c5 c6" unfolding c6_def by (rule judge) (use j in \<open>simp_all add: cs\<close>)
  moreover have "P c1" "P c2" "P c3" "P c4" "P c5" by (rule P; simp add: cs)+
  moreover have "P c6" by (rule last) (simp_all add: c6_def cs found_at_node fun_eq_iff split: option.split)
  ultimately have "run_of H X ttl P c c1" "run_of H X ttl P c1 c2" "run_of H X ttl P c2 c3" "run_of H X ttl P c3 c4" "run_of H X ttl P c4 c5"
    "run_of H X ttl P c5 c6" unfolding run_of_def by (simp_all add: r_into_rtranclp)
  then have "run_of H X ttl P c c6" unfolding run_of_def by (meson rtranclp_trans)
  moreover have "cl_gone c5 = cl_gone c" "cl_signing c5 = cl_signing c" by (simp_all add: cs proceed_def)
  then have "c6 = proceed r (Answered n sid a) (at_node n st c)"
    by (simp add: c6_def) (simp add: cs proceed_def at_node_def)
  ultimately show ?thesis by simp
qed

definition ann :: User where
  "ann = \<lparr>u_Username = ''ann'', u_Email = '''', u_Name = ''Ann'', u_Tenant = ''default'', u_Groups = [], u_Hash = ''old'', u_CreatedAt = 5,
     u_MustChange = False, u_Revocations = 0\<rparr>"

definition plain_hashing :: "unit hashing" where
  "plain_hashing = \<lparr>bc_generate = (\<lambda>p x. (Inr p, x)), bc_matches = (\<lambda>h p. h = p), sha = (\<lambda>s. s)\<rparr>"

definition ann_session :: browserSession where
  "ann_session = new_session plain_hashing Hour ann 10"

definition signed_in :: "User \<Rightarrow> cluster" where
  "signed_in u = (let c = (first_cluster [(''ann'', u)])\<lparr>cl_signing := {u}\<rparr>
     in (at_node 0 ((cl_local c 0)\<lparr>la_sessions :=
          AList.update ''cookie'' (new_session plain_hashing Hour u 10) (la_sessions (cl_local c 0))\<rparr>) c)\<lparr>cl_used := {''cookie''}\<rparr>)"

definition ann_in :: cluster where
  "ann_in = signed_in ann"

lemma ann_lower: "ascii_lower CHR ''a'' = CHR ''a''" "ascii_lower CHR ''n'' = CHR ''n''"
  by code_simp+

lemma signed_in_reached:
  assumes u: "u_Username u = ''ann''" "u_Hash u = ''old''"
  shows "auth_reach plain_hashing ascii_texts Hour (signed_in u)"
proof -
  let ?c0 = "first_cluster [(''ann'', u)]" and ?c1 = "(first_cluster [(''ann'', u)])\<lparr>cl_signing := {u}\<rparr>"
  note l = ann_lower
  have "auth_reach plain_hashing ascii_texts Hour ?c0" by (rule starts) (simp add: keyed_def u ascii_texts_def l)
  moreover have "auth_step plain_hashing ascii_texts Hour ?c0 ?c1"
    using authenticates [of ascii_texts "''ann''" ?c0 u plain_hashing "''old''" Hour]
    by (simp add: first_cluster_def memory_users_def MemoryUserStore_Get_def get_user_def ascii_texts_def l) (simp add: u plain_hashing_def)
  ultimately have r1: "auth_reach plain_hashing ascii_texts Hour ?c1" by (rule steps)
  have "auth_step plain_hashing ascii_texts Hour ?c1 (signed_in u)"
    using issues [of u ?c1 "''cookie''" plain_hashing ascii_texts Hour 0 10]
    by (simp add: signed_in_def Let_def first_cluster_def at_node_def)
  with r1 show ?thesis by (rule steps)
qed

lemma ann_reached: "auth_reach plain_hashing ascii_texts Hour ann_in"
  unfolding ann_in_def by (rule signed_in_reached) (simp_all add: ann_def)

lemma ann_found: "found ann_in 0 ''cookie'' = Some ann_session"
  by (simp add: ann_in_def signed_in_def ann_session_def Let_def found_at_node)

lemma ann_live: "live_session (Some ''cookie'') 20 (cl_local ann_in 0) = Some (''cookie'', ann_session)"
  by (simp add: ann_in_def signed_in_def ann_session_def Let_def live_session_def new_session_def)

lemma ann_users: "mu_users (cl_users ann_in) = [(''ann'', ann)]" "mu_gen (cl_users ann_in) = 0"
  by (simp_all add: ann_in_def signed_in_def Let_def first_cluster_def)

lemma ann_idle: "cl_requests ann_in r = Idle"
  by (simp add: ann_in_def signed_in_def ann_session_def Let_def first_cluster_def)

lemma ann_key: "account_key ascii_texts ann_session = Some ''ann''"
  by (simp add: account_key_def ann_session_def new_session_def user_identity_def ann_def ascii_texts_def ann_lower)

definition ann_identity :: Identity where
  "ann_identity = user_identity ann (time_Unix 10) (time_Unix (10 + Hour))"

text \<open>Ann is signed out everywhere; her request 7 then runs to its end and is refused.\<close>

theorem signed_out_everywhere_witness:
  "\<exists>c a e. run_of plain_hashing ascii_texts Hour (\<lambda>b. map_of (accounts_of b) ''ann'' \<noteq> None)
     (ann_in\<lparr>cl_users := snd (MemoryUserStore_AddRevocation ascii_texts ''ann'' (cl_users ann_in))\<rparr>) c \<and>
     cl_requests c 7 = Answered 0 ''cookie'' a \<and> a = Inl e"
proof -
  let ?m = "snd (MemoryUserStore_AddRevocation ascii_texts ''ann'' (cl_users ann_in))" and ?P = "\<lambda>b. map_of (accounts_of b) ''ann'' \<noteq> None"
  let ?c = "ann_in\<lparr>cl_users := ?m\<rparr>"
  have l: "ToLowerText ascii_texts ''ann'' = ''ann''" by (simp add: ascii_texts_def ann_lower)
  have m: "?m = \<lparr>mu_users = [(''ann'', ann\<lparr>u_Revocations := 1\<rparr>)], mu_gen = 1\<rparr>"
    "MemoryUserStore_AddRevocation ascii_texts ''ann'' (cl_users ann_in) = (Inr 1, ?m)"
    using ann_users by (simp_all add: MemoryUserStore_AddRevocation_def add_revocation_def mu_write_def Let_def l ann_def)
  obtain a st where j: "judge_read plain_hashing ''cookie'' ann_identity 21 (FormatInt 1) (bs_epoch ann_session)
      (us_Get (memory_users ascii_texts) (Subject ann_identity) (cl_users ?c)) 22 (cl_local ?c 0) = (a, st)" by force
  have "run_of plain_hashing ascii_texts Hour ?P ?c (proceed 7 (Answered 0 ''cookie'' a) (at_node 0 st ?c))"
  proof (rule request_run [OF _ _ _ _ _ j, where t = 20 and age = accountRecheckVersioned])
    show "live_session (Some ''cookie'') 20 (cl_local ?c 0) = Some (''cookie'', ann_session)" using ann_live by simp
    show "bs_Identity ann_session = Some ann_identity" by (simp add: ann_session_def new_session_def ann_identity_def)
    show "store_version (memory_users ascii_texts) (cl_users ?c) = (FormatInt 1, accountRecheckVersioned)"
      by (simp add: store_version_def memory_users_def MemoryUserStore_Version_def m(1))
    show "\<not> trusts ann_session (FormatInt 1) accountRecheckVersioned 21" by (simp add: trusts_def ann_session_def new_session_def)
  qed (simp_all add: ann_idle m(1))
  then obtain c where c: "run_of plain_hashing ascii_texts Hour ?P ?c c" "cl_requests c 7 = Answered 0 ''cookie'' a"
    by (metis fun_upd_same proceed_simps(5))
  have "\<exists>e. a = Inl e"
    by (rule signed_out_everywhere [OF ann_reached ann_found _ m(2) _ ann_idle _ c(2)])
      (use c(1) ann_key l in \<open>simp_all add: ann_session_def new_session_def ann_def\<close>)
  with c show ?thesis by blast
qed

text \<open>Ann changes her password elsewhere; the session she left is refused.\<close>

theorem old_password_locked_out_witness:
  "\<exists>c a e. run_of plain_hashing ascii_texts Hour
     (superseded ''ann'' 0 ''cookie'' (other_password (passwordStamp plain_hashing ''new'') 0)
        (has_password plain_hashing (passwordStamp plain_hashing ''new'')))
     (ann_in\<lparr>cl_users := snd (us_Put (memory_users ascii_texts) (ann\<lparr>u_Hash := ''new''\<rparr>) (cl_users ann_in))\<rparr>) c \<and>
     cl_requests c 7 = Answered 0 ''cookie'' a \<and> a = Inl e"
proof -
  let ?m = "snd (us_Put (memory_users ascii_texts) (ann\<lparr>u_Hash := ''new''\<rparr>) (cl_users ann_in))"
  let ?new = "passwordStamp plain_hashing ''new''"
  let ?P = "superseded ''ann'' 0 ''cookie'' (other_password ?new 0) (has_password plain_hashing ?new)"
  let ?c = "ann_in\<lparr>cl_users := ?m\<rparr>"
  have l: "ToLowerText ascii_texts ''ann'' = ''ann''" by (simp add: ascii_texts_def ann_lower)
  have m: "?m = \<lparr>mu_users = [(''ann'', ann\<lparr>u_Hash := ''new''\<rparr>)], mu_gen = 1\<rparr>"
    using ann_users by (simp add: memory_users_def MemoryUserStore_Put_def put_user_def mu_write_def Let_def l ann_def)
  have stamps: "passwordStamp plain_hashing ''old'' \<noteq> ?new" "passwordStamp plain_hashing ''old'' \<noteq> ''''" "?new \<noteq> ''''" by code_simp+
  obtain a st where j: "judge_read plain_hashing ''cookie'' ann_identity 21 (FormatInt 1) (bs_epoch ann_session)
      (us_Get (memory_users ascii_texts) (Subject ann_identity) (cl_users ?c)) 22 (cl_local ?c 0) = (a, st)" by force
  have got: "us_Get (memory_users ascii_texts) (Subject ann_identity) (cl_users ?c) = Inr (ann\<lparr>u_Hash := ''new''\<rparr>)"
    unfolding m by (simp add: memory_users_def MemoryUserStore_Get_def get_user_def ann_identity_def user_identity_def ann_def l)
  have P: "?P b" if "cl_users b = cl_users ?c" "found b 0 ''cookie'' = Some ann_session \<or> found b 0 ''cookie'' = None" for b
  proof -
    have "accounts_of b = [(''ann'', ann\<lparr>u_Hash := ''new''\<rparr>)]" using that(1) unfolding m by simp
    then show ?thesis
      using that(2) stamps by (auto simp: superseded_def has_password_def other_password_def ann_session_def new_session_def ann_def)
  qed
  have gone: "found (at_node 0 st ?c) 0 ''cookie'' = Some ann_session"
  proof -
    have "map_of (la_sessions (cl_local ?c 0)) ''cookie'' = Some ann_session" by (simp add: ann_in_def signed_in_def ann_session_def Let_def)
    then have "st = endLocked ''cookie'' WhyPassword 22 (cl_local ?c 0)"
      using j stamps unfolding got by (simp add: judge_read_def Let_def remade_def ann_session_def new_session_def ann_def)
    then show ?thesis using ann_found by (simp add: found_at_node endLocked_sessions)
  qed
  have "run_of plain_hashing ascii_texts Hour ?P ?c (proceed 7 (Answered 0 ''cookie'' a) (at_node 0 st ?c))"
  proof (rule request_run [OF _ _ _ _ _ j, where t = 20 and age = accountRecheckVersioned])
    show "live_session (Some ''cookie'') 20 (cl_local ?c 0) = Some (''cookie'', ann_session)" using ann_live by simp
    show "bs_Identity ann_session = Some ann_identity" by (simp add: ann_session_def new_session_def ann_identity_def)
    show "store_version (memory_users ascii_texts) (cl_users ?c) = (FormatInt 1, accountRecheckVersioned)"
      using m by (simp add: store_version_def) (simp add: memory_users_def MemoryUserStore_Version_def)
    show "\<not> trusts ann_session (FormatInt 1) accountRecheckVersioned 21" by (simp add: trusts_def ann_session_def new_session_def)
  next
    fix c'
    assume "cl_users c' = cl_users ?c" "found c' = found (at_node 0 st ?c)"
    then show "?P c'" by (intro P) (simp_all add: gone)
  next
    fix c'
    assume "cl_users c' = cl_users ?c" "found c' = found ?c"
    then show "?P c'" by (intro P) (simp_all add: ann_found)
  qed (simp add: ann_idle)
  then obtain c where c: "run_of plain_hashing ascii_texts Hour ?P ?c c" "cl_requests c 7 = Answered 0 ''cookie'' a"
    by (metis fun_upd_same proceed_simps(5))
  have put: "us_Put (memory_users ascii_texts) (ann\<lparr>u_Hash := ''new''\<rparr>) (cl_users ann_in) = (None, ?m)"
    by (simp add: memory_users_def MemoryUserStore_Put_def)
  have "\<exists>e. a = Inl e"
    by (rule old_password_locked_out [OF ann_reached ann_found ann_key put ann_idle _ c]) (rule P; simp add: ann_found)
  with c show ?thesis by blast
qed

text \<open>
  A request reads the identity it may answer before it asks what of it is trusted. Overtaken in between by another request of the
  same session, it answers with groups the account had lost before either request began.\<close>

definition admin_ann :: User where
  "admin_ann = ann\<lparr>u_Groups := [''admin'']\<rparr>"

definition admin_session :: browserSession where
  "admin_session = new_session plain_hashing Hour admin_ann 10"

definition plain_ann_in :: cluster where
  "plain_ann_in = (signed_in admin_ann)\<lparr>cl_users := snd (us_Put (memory_users ascii_texts) ann (cl_users (signed_in admin_ann)))\<rparr>"

lemma overtaken_request_keeps_rights:
  "auth_reach plain_hashing ascii_texts Hour plain_ann_in \<and> (\<exists>c i. run_of plain_hashing ascii_texts Hour (\<lambda>b. map_of (accounts_of b) ''ann'' = Some ann) plain_ann_in c \<and>
     cl_requests plain_ann_in 1 = Idle \<and> cl_requests c 1 = Answered 0 ''cookie'' (Inr i) \<and> ''admin'' \<in> set (id_Groups i))"
proof -
  have reached: "auth_reach plain_hashing ascii_texts Hour plain_ann_in"
    unfolding plain_ann_in_def by (rule steps [OF signed_in_reached puts]) (simp_all add: admin_ann_def ann_def)
  let ?P = "\<lambda>b. map_of (accounts_of b) ''ann'' = Some ann" and ?old = "user_identity admin_ann (time_Unix 10) (time_Unix (10 + Hour))"
  let ?c1 = "proceed 1 (Looked 0 ''cookie'' ?old) plain_ann_in"
  have l: "ToLowerText ascii_texts ''ann'' = ''ann''" by (simp add: ascii_texts_def ann_lower)
  have s: "live_session (Some ''cookie'') 20 (cl_local plain_ann_in 0) = Some (''cookie'', admin_session)"
    by (simp add: plain_ann_in_def signed_in_def Let_def live_session_def admin_session_def new_session_def)
  have i: "bs_Identity admin_session = Some ?old" by (simp add: admin_session_def new_session_def)
  have us: "accounts_of plain_ann_in = [(''ann'', ann)]" "gen_of plain_ann_in = 1" 
    by (simp_all add: plain_ann_in_def signed_in_def Let_def first_cluster_def memory_users_def MemoryUserStore_Put_def put_user_def mu_write_def)
      (simp_all add: ann_def admin_ann_def l)
  have v: "store_version (memory_users ascii_texts) (cl_users plain_ann_in) = (FormatInt 1, accountRecheckVersioned)"
    using us by (simp add: store_version_def memory_users_def MemoryUserStore_Version_def)
  have idle: "cl_requests plain_ann_in r = Idle" for r by (simp add: plain_ann_in_def signed_in_def Let_def first_cluster_def)
  have "auth_step plain_hashing ascii_texts Hour plain_ann_in ?c1" by (rule look [OF idle s i])
  then have r1: "run_of plain_hashing ascii_texts Hour ?P plain_ann_in ?c1" unfolding run_of_def using us by (simp add: r_into_rtranclp)
  have got: "us_Get (memory_users ascii_texts) (Subject ?old) (cl_users plain_ann_in) = Inr ann"
    by (simp add: memory_users_def MemoryUserStore_Get_def get_user_def us user_identity_def admin_ann_def) (simp add: ann_def l)
  let ?s = "admin_session\<lparr>bs_Identity := Some (user_identity ann (IssuedAt ?old) (Expires ?old)), bs_mustChange := False,
    bs_checked := Some \<lparr>ck_version = FormatInt 1, ck_at = 21\<rparr>\<rparr>"
  let ?st = "(cl_local plain_ann_in 0)\<lparr>la_sessions := [(''cookie'', ?s)]\<rparr>"
  have j: "judge_read plain_hashing ''cookie'' ?old 21 (FormatInt 1) (bs_epoch admin_session)
      (us_Get (memory_users ascii_texts) (Subject ?old) (cl_users ?c1)) 22 (cl_local ?c1 0) =
      (Inr (user_identity ann (IssuedAt ?old) (Expires ?old)), ?st)"
    unfolding proceed_simps got
    by (simp add: judge_read_def Let_def plain_ann_in_def signed_in_def first_cluster_def admin_session_def new_session_def remade_def admin_ann_def ann_def)
  let ?c2 = "proceed 2 (Answered 0 ''cookie'' (Inr (user_identity ann (IssuedAt ?old) (Expires ?old)))) (at_node 0 ?st ?c1)"
  have r2: "run_of plain_hashing ascii_texts Hour ?P ?c1 ?c2"
    by (rule request_run [OF _ _ i _ _ j, where t = 20])
      (use s v us in \<open>simp_all add: idle trusts_def admin_session_def new_session_def\<close>)
  let ?c3 = "proceed 1 (Versioned 0 ''cookie'' ?old 23 (FormatInt 1) accountRecheckVersioned) ?c2"
  have "auth_step plain_hashing ascii_texts Hour ?c2 ?c3" by (rule ask) (simp_all add: v)
  moreover have "auth_step plain_hashing ascii_texts Hour ?c3 (proceed 1 (Answered 0 ''cookie'' (Inr ?old)) ?c3)"
    by (rule trust [of _ 1 0 "''cookie''" ?old 23 "FormatInt 1" accountRecheckVersioned ?s])
      (simp_all add: found_at_node trusts_def accountRecheckVersioned_def)
  ultimately have "run_of plain_hashing ascii_texts Hour ?P ?c2 ?c3"
    "run_of plain_hashing ascii_texts Hour ?P ?c3 (proceed 1 (Answered 0 ''cookie'' (Inr ?old)) ?c3)"
    unfolding run_of_def using us by (simp_all add: r_into_rtranclp)
  with r1 r2 have "run_of plain_hashing ascii_texts Hour ?P plain_ann_in (proceed 1 (Answered 0 ''cookie'' (Inr ?old)) ?c3)"
    unfolding run_of_def by (meson rtranclp_trans)
  moreover have "''admin'' \<in> set (id_Groups ?old)" by (simp add: user_identity_def admin_ann_def)
  moreover have "cl_requests (proceed 1 (Answered 0 ''cookie'' (Inr ?old)) ?c3) 1 = Answered 0 ''cookie'' (Inr ?old)" by simp
  ultimately show ?thesis using idle [of 1] reached by blast
qed

end
