(* ===== verification/AccountLaws.thy ===== *)
theory AccountLaws
  imports AccountChanges "HOL-Library.Multiset"
begin

text \<open>
  What holds of the accounts: the contract of a store of accounts as a locale, kept by the memory store and by the file store; that
  the file store answers as the memory store does; that no name and no address is given out twice, whoever else signs up;
  that a session takes the right password; and what a change of password does to the sessions of its account.
\<close>

section \<open>The contract of a store of accounts\<close>

definition stored_user :: "User \<Rightarrow> User option \<Rightarrow> User" where
  "stored_user u before = (case before of None \<Rightarrow> u | Some old \<Rightarrow> u\<lparr>u_Revocations := max (u_Revocations u) (u_Revocations old)\<rparr>)"

definition email_free :: "texts \<Rightarrow> string \<Rightarrow> (string \<Rightarrow> User option) \<Rightarrow> bool" where
  "email_free X email t \<longleftrightarrow> (email = '''' \<or> (\<forall>k v. t k = Some v \<longrightarrow> \<not> EqualFoldText X (TrimSpace (u_Email v)) email))"

text \<open>An operation that fails changes nothing; one that succeeds does this to the table. \<open>fit\<close> are the accounts the store can hold.\<close>

locale account_store =
  fixes X :: texts and S :: "'m UserStore" and tbl :: "'m \<Rightarrow> string \<Rightarrow> User option" and good :: "'m \<Rightarrow> bool" and fit :: "User \<Rightarrow> bool"
  assumes got: "good m \<Longrightarrow> us_Get S name m = (case tbl m (ToLowerText X name) of None \<Rightarrow> Inl ErrNoSuchUser | Some u \<Rightarrow> Inr u)"
    and listed: "good m \<Longrightarrow> \<exists>us. us_List S m = Inr us \<and> set us = ran (tbl m)"
    and put: "good m \<Longrightarrow> fit u \<Longrightarrow> us_Put S u m = (r, m') \<Longrightarrow> good m' \<and> (case r of
        None \<Rightarrow> tbl m' = (tbl m)(ToLowerText X (u_Username u) \<mapsto> stored_user u (tbl m (ToLowerText X (u_Username u))))
      | Some _ \<Rightarrow> tbl m' = tbl m)"
    and created: "good m \<Longrightarrow> fit u \<Longrightarrow> us_Create S = Some f \<Longrightarrow> f u m = (r, m') \<Longrightarrow> good m' \<and> (case r of
        None \<Rightarrow> tbl m (ToLowerText X (u_Username u)) = None \<and> email_free X (TrimSpace (u_Email u)) (tbl m) \<and>
          tbl m' = (tbl m)(ToLowerText X (u_Username u) \<mapsto> u)
      | Some _ \<Rightarrow> tbl m' = tbl m)"
    and deleted: "good m \<Longrightarrow> us_Delete S name m = (r, m') \<Longrightarrow> good m' \<and> (case r of
        None \<Rightarrow> tbl m' = (tbl m)(ToLowerText X name := None)
      | Some _ \<Rightarrow> tbl m' = tbl m)"
    and revoked: "good m \<Longrightarrow> us_AddRevocation S = Some h \<Longrightarrow> h name m = (r', m') \<Longrightarrow> good m' \<and> (case r' of
        Inr n \<Rightarrow> (\<exists>u. tbl m (ToLowerText X name) = Some u \<and> n = u_Revocations u + 1 \<and>
          tbl m' = (tbl m)(ToLowerText X name \<mapsto> u\<lparr>u_Revocations := n\<rparr>))
      | Inl _ \<Rightarrow> tbl m' = tbl m)"
begin

text \<open>Whatever a store does but remove an account, the count of its sign-outs does not fall.\<close>

lemma put_keeps_count:
  assumes "good m" "fit u" "us_Put S u m = (r, m')" "tbl m k = Some v" "tbl m' k = Some v'"
  shows "u_Revocations v \<le> u_Revocations v'"
  using put [OF assms(1-3)] assms(4,5) by (auto simp: stored_user_def split: option.splits if_splits)

lemma revoke_keeps_count:
  assumes "good m" "us_AddRevocation S = Some h" "h name m = (r, m')" "tbl m k = Some v" "tbl m' k = Some v'"
  shows "u_Revocations v \<le> u_Revocations v'"
  using revoked [OF assms(1-3)] assms(4,5) by (auto split: sum.splits if_splits)

text \<open>A name or an address that is taken is not given out again.\<close>

lemma created_once:
  assumes "good m" "fit u" "us_Create S = Some f" "f u m = (None, m')"
  shows "tbl m (ToLowerText X (u_Username u)) = None" "tbl m' (ToLowerText X (u_Username u)) = Some u"
    "email_free X (TrimSpace (u_Email u)) (tbl m)" "\<And>k. k \<noteq> ToLowerText X (u_Username u) \<Longrightarrow> tbl m' k = tbl m k"
  using created [OF assms] by auto

end

text \<open>The tables the program keeps: names are keys, and no address belongs to two accounts.\<close>

definition keys_right :: "texts \<Rightarrow> (string \<Rightarrow> User option) \<Rightarrow> bool" where
  "keys_right X t \<longleftrightarrow> (\<forall>k u. t k = Some u \<longrightarrow> k = ToLowerText X (u_Username u))"

definition emails_apart :: "texts \<Rightarrow> (string \<Rightarrow> User option) \<Rightarrow> bool" where
  "emails_apart X t \<longleftrightarrow> (\<forall>k u k' u'. t k = Some u \<longrightarrow> t k' = Some u' \<longrightarrow> k \<noteq> k' \<longrightarrow> TrimSpace (u_Email u) \<noteq> '''' \<longrightarrow>
     TrimSpace (u_Email u') \<noteq> '''' \<longrightarrow> \<not> EqualFoldText X (TrimSpace (u_Email u)) (TrimSpace (u_Email u')))"

section \<open>The memory store keeps the contract\<close>

definition memory_table :: "MemoryUserStore \<Rightarrow> string \<Rightarrow> User option" where
  "memory_table m = map_of (mu_users m)"

definition memory_good :: "MemoryUserStore \<Rightarrow> bool" where
  "memory_good m \<longleftrightarrow> wf_map (mu_users m)"

lemma put_user_table:
  "map_of (put_user X u us) = (map_of us)(ToLowerText X (u_Username u) \<mapsto> stored_user u (map_of us (ToLowerText X (u_Username u))))"
  by (simp add: put_user_def stored_user_def Let_def)

lemma email_taken_table: "wf_map us \<Longrightarrow> email_taken X email us \<longleftrightarrow> (\<exists>k v. map_of us k = Some v \<and> EqualFoldText X (TrimSpace (u_Email v)) email)"
  by (auto simp: email_taken_def list_ex_iff wf_map_get)

lemma create_user_table:
  assumes "wf_map us" "create_user X u us = Inr us'"
  shows "map_of us (ToLowerText X (u_Username u)) = None" "email_free X (TrimSpace (u_Email u)) (map_of us)"
    "map_of us' = (map_of us)(ToLowerText X (u_Username u) \<mapsto> u)" "wf_map us'"
  using assms by (auto simp: create_user_def Let_def email_free_def email_taken_table split: if_splits)

interpretation users_in_memory: account_store X "memory_users X" memory_table memory_good "\<lambda>u. True" for X
proof unfold_locales
  fix m name
  show "us_Get (memory_users X) name m = (case memory_table m (ToLowerText X name) of None \<Rightarrow> Inl ErrNoSuchUser | Some u \<Rightarrow> Inr u)"
    by (simp add: memory_users_def MemoryUserStore_Get_def get_user_def memory_table_def)
next
  fix m
  assume "memory_good m"
  then show "\<exists>us. us_List (memory_users X) m = Inr us \<and> set us = ran (memory_table m)"
    by (auto simp: memory_users_def MemoryUserStore_List_def memory_table_def memory_good_def wf_map_def ran_distinct)
next
  fix m and u :: User and r m'
  assume "memory_good m" "us_Put (memory_users X) u m = (r, m')"
  then show "memory_good m' \<and> (case r of
        None \<Rightarrow> memory_table m' = (memory_table m)(ToLowerText X (u_Username u) \<mapsto> stored_user u (memory_table m (ToLowerText X (u_Username u))))
      | Some _ \<Rightarrow> memory_table m' = memory_table m)"
    by (auto simp: memory_users_def MemoryUserStore_Put_def mu_write_def memory_good_def memory_table_def put_user_table)
      (simp add: put_user_def Let_def)
next
  fix m f u r m'
  assume "memory_good m" "us_Create (memory_users X) = Some f" "f u m = (r, m')"
  then show "memory_good m' \<and> (case r of
        None \<Rightarrow> memory_table m (ToLowerText X (u_Username u)) = None \<and> email_free X (TrimSpace (u_Email u)) (memory_table m) \<and>
          memory_table m' = (memory_table m)(ToLowerText X (u_Username u) \<mapsto> u)
      | Some _ \<Rightarrow> memory_table m' = memory_table m)"
  proof (cases "create_user X u (mu_users m)")
    case (Inl e)
    then show ?thesis using \<open>memory_good m\<close> \<open>f u m = (r, m')\<close> \<open>us_Create (memory_users X) = Some f\<close>
      by (auto simp: memory_users_def MemoryUserStore_Create_def)
  next
    case (Inr us)
    have w: "wf_map (mu_users m)" using \<open>memory_good m\<close> by (simp add: memory_good_def)
    have "r = None" "m' = mu_write us m" using Inr \<open>f u m = (r, m')\<close> \<open>us_Create (memory_users X) = Some f\<close>
      by (auto simp: memory_users_def MemoryUserStore_Create_def)
    then show ?thesis using create_user_table [OF w Inr] by (simp add: memory_good_def memory_table_def mu_write_def)
  qed
next
  fix m name r m'
  assume "memory_good m" "us_Delete (memory_users X) name m = (r, m')"
  then show "memory_good m' \<and> (case r of
        None \<Rightarrow> memory_table m' = (memory_table m)(ToLowerText X name := None) | Some _ \<Rightarrow> memory_table m' = memory_table m)"
    by (auto simp: memory_users_def MemoryUserStore_Delete_def mu_write_def memory_good_def memory_table_def delete_user_def Let_def
        split: sum.splits if_splits)
next
  fix m h name r' m'
  assume "memory_good m" "us_AddRevocation (memory_users X) = Some h" "h name m = (r', m')"
  then show "memory_good m' \<and> (case r' of
        Inr n \<Rightarrow> (\<exists>u. memory_table m (ToLowerText X name) = Some u \<and> n = u_Revocations u + 1 \<and>
          memory_table m' = (memory_table m)(ToLowerText X name \<mapsto> u\<lparr>u_Revocations := n\<rparr>))
      | Inl _ \<Rightarrow> memory_table m' = memory_table m)"
    by (auto simp: memory_users_def MemoryUserStore_AddRevocation_def mu_write_def memory_good_def memory_table_def add_revocation_def Let_def
        split: sum.splits option.splits)
qed

section \<open>The file store keeps it too\<close>

definition file_table :: "texts \<Rightarrow> 'b account_json \<Rightarrow> 'b FileUserStore \<Rightarrow> string \<Rightarrow> User option" where
  "file_table X J f = (case fs_load X J f of Inl _ \<Rightarrow> Map.empty | Inr us \<Rightarrow> map_of us)"

text \<open>
  What the store relies on of \<^verbatim>\<open>encoding/json\<close>: accounts that \<open>fits\<close> (texts of valid UTF-8 and times of a four-digit year, say) are written, and read back as they
  were but for the fields tagged \<^verbatim>\<open>json:"-"\<close>, whose values are then the zero ones; the count of sign-outs is a number, so it never makes an
  account unfit.\<close>

definition untagged :: "storedUser \<Rightarrow> storedUser" where
  "untagged s = s\<lparr>su_User := (su_User s)\<lparr>u_Hash := '''', u_Revocations := 0\<rparr>\<rparr>"

definition json_keeps :: "'b account_json \<Rightarrow> (User \<Rightarrow> bool) \<Rightarrow> bool" where
  "json_keeps J fits \<longleftrightarrow> (\<forall>u n. fits u \<longrightarrow> fits (u\<lparr>u_Revocations := n\<rparr>)) \<and>
     (\<forall>us. list_all fits us \<longrightarrow> (\<exists>data. js_Marshal J (map wrap_user us) = Inr data \<and> js_Unmarshal J data = Inr (map (untagged \<circ> wrap_user) us)))"

lemma unwrap_untagged [simp]: "unwrap_user (untagged (wrap_user u)) = u"
  by (simp add: unwrap_user_def untagged_def wrap_user_def)

text \<open>The file reads, and holds no account twice.\<close>

definition file_good :: "texts \<Rightarrow> 'b account_json \<Rightarrow> (User \<Rightarrow> bool) \<Rightarrow> 'b FileUserStore \<Rightarrow> bool" where
  "file_good X J fits f \<longleftrightarrow> json_keeps J fits \<and> read_error (fs_disk f) = None \<and>
     (case fs_file f of None \<Rightarrow> True | Some data \<Rightarrow> \<exists>us. js_Unmarshal J data = Inr (map (untagged \<circ> wrap_user) us) \<and> list_all fits us \<and>
        distinct (map (\<lambda>u. ToLowerText X (u_Username u)) us))"

definition right_users :: "texts \<Rightarrow> (User \<Rightarrow> bool) \<Rightarrow> users \<Rightarrow> bool" where
  "right_users X fits us \<longleftrightarrow> wf_map us \<and> list_all (\<lambda>(k, u). k = ToLowerText X (u_Username u) \<and> fits u) us"

definition keyed_users :: "texts \<Rightarrow> User list \<Rightarrow> users" where
  "keyed_users X us = map (\<lambda>u. (ToLowerText X (u_Username u), u)) us"

lemma load_keyed: "foldl (\<lambda>us s. let u = unwrap_user s in AList.update (ToLowerText X (u_Username u)) u us) acc (map (untagged \<circ> wrap_user) us) =
    maps_Copy acc (keyed_users X us)"
  by (simp add: maps_Copy_def keyed_users_def foldl_map)

lemma insort_wrapped: "insort_key (u_Username \<circ> su_User) (wrap_user u) (map wrap_user us) = map wrap_user (insort_key u_Username u us)"
  by (induction us) (simp_all add: wrap_user_def)

lemma sort_wrapped: "sort_key (u_Username \<circ> su_User) (map (wrap_user \<circ> snd) us) = map wrap_user (sort_key u_Username (map snd us))"
  by (induction us) (simp_all add: insort_wrapped [unfolded comp_def] comp_def)

lemma right_put: "right_users X fits us \<Longrightarrow> k = ToLowerText X (u_Username u) \<Longrightarrow> fits u \<Longrightarrow> right_users X fits (AList.update k u us)"
  by (auto simp: right_users_def list_all_iff wf_map_get [symmetric] split: if_splits)

lemma right_get: "right_users X fits us \<Longrightarrow> map_of us k = Some u \<Longrightarrow> k = ToLowerText X (u_Username u) \<and> fits u"
  by (auto simp: right_users_def list_all_iff dest!: map_of_SomeD)

lemma right_delete: "right_users X fits us \<Longrightarrow> right_users X fits (AList.delete k us)"
  by (auto simp: right_users_def list_all_iff wf_map_get [symmetric] split: if_splits)

lemma right_keyed:
  assumes "distinct (map (\<lambda>u. ToLowerText X (u_Username u)) us)" "list_all fits us"
  shows "right_users X fits (maps_Copy [] (keyed_users X us))"
proof -
  have w: "wf_map (keyed_users X us)" using assms(1) by (simp add: wf_map_def keyed_users_def comp_def)
  have "k = ToLowerText X (u_Username u) \<and> fits u" if "map_of (maps_Copy [] (keyed_users X us)) k = Some u" for k u
  proof -
    have "map_of (keyed_users X us) k = Some u" using that map_of_maps_Copy [OF w, of "[]" k] by (simp split: option.splits)
    then show ?thesis using assms(2) by (auto simp: keyed_users_def list_all_iff dest!: map_of_SomeD)
  qed
  moreover have "wf_map (maps_Copy [] (keyed_users X us))" by simp
  ultimately show ?thesis by (auto simp: right_users_def list_all_iff wf_map_get [symmetric])
qed

lemma load_right:
  assumes "file_good X J fits f"
  shows "\<exists>us. fs_load X J f = Inr us \<and> right_users X fits us \<and> file_table X J f = map_of us"
proof (cases "fs_file f")
  case None
  then show ?thesis by (simp add: fs_load_def file_table_def right_users_def)
next
  case (Some data)
  then obtain us where us: "js_Unmarshal J data = Inr (map (untagged \<circ> wrap_user) us)" "list_all fits us"
    "distinct (map (\<lambda>u. ToLowerText X (u_Username u)) us)" and "read_error (fs_disk f) = None"
    using assms by (auto simp: file_good_def)
  then have "fs_load X J f = Inr (maps_Copy [] (keyed_users X us))"
    using Some load_keyed [of X "[]" us] by (simp add: fs_load_def)
  with right_keyed [OF us(3,2)] show ?thesis by (simp add: file_table_def)
qed

lemma saved_right:
  assumes r: "right_users X fits us"
  shows "distinct (map (\<lambda>u. ToLowerText X (u_Username u)) (sort_key u_Username (map snd us)))"
    "map_of (maps_Copy [] (keyed_users X (sort_key u_Username (map snd us)))) = map_of us"
    "list_all fits (sort_key u_Username (map snd us))"
proof -
  let ?s = "sort_key u_Username (map snd us)"
  have k: "map (\<lambda>u. ToLowerText X (u_Username u)) (map snd us) = map fst us" "keyed_users X (map snd us) = us"
    using r by (auto simp: right_users_def list_all_iff keyed_users_def intro!: map_idI)
  have m: "mset (map (\<lambda>u. ToLowerText X (u_Username u)) ?s) = mset (map fst us)" using k(1) by (metis mset_map mset_sort)
  then show d: "distinct (map (\<lambda>u. ToLowerText X (u_Username u)) ?s)"
    using r mset_eq_imp_distinct_iff by (metis right_users_def wf_map_def)
  have w: "wf_map (keyed_users X ?s)" using d by (simp add: wf_map_def keyed_users_def comp_def)
  have "set (keyed_users X ?s) = set (keyed_users X (map snd us))" by (simp add: keyed_users_def image_image)
  then have "set (keyed_users X ?s) = set us" unfolding k(2) .
  then have "map_of (keyed_users X ?s) = map_of us"
    using w r by (simp add: map_of_inject_set right_users_def wf_map_def)
  then show "map_of (maps_Copy [] (keyed_users X ?s)) = map_of us"
    using map_of_maps_Copy [OF w, of "[]"] by (auto simp: fun_eq_iff split: option.splits)
  show "list_all fits ?s"
    using r by (auto simp: right_users_def list_all_iff)
qed

lemma save_table:
  assumes "file_good X J fits f" "right_users X fits us" "fs_save J us f = (r, f')"
  shows "file_good X J fits f' \<and> (case r of None \<Rightarrow> file_table X J f' = map_of us | Some _ \<Rightarrow> file_table X J f' = file_table X J f)"
proof -
  let ?s = "sort_key u_Username (map snd us)"
  note right = saved_right [OF assms(2)]
  have "\<forall>us. list_all fits us \<longrightarrow> (\<exists>data. js_Marshal J (map wrap_user us) = Inr data \<and> js_Unmarshal J data = Inr (map (untagged \<circ> wrap_user) us))"
    using assms(1) by (simp add: file_good_def json_keeps_def)
  with right(3) obtain data where data: "js_Marshal J (map wrap_user ?s) = Inr data" "js_Unmarshal J data = Inr (map (untagged \<circ> wrap_user) ?s)" by blast
  show ?thesis
  proof (cases "write_error (fs_disk f)")
    case None
    then have f': "r = None" "f' = f\<lparr>fs_gen := fs_gen f + 1, fs_file := Some data, fs_marks := tl (fs_marks f)\<rparr>"
      using assms(3) data(1) by (auto simp: fs_save_def sort_wrapped)
    have "file_good X J fits f'" using assms(1) data(2) right(1,3) unfolding f'(2) file_good_def by auto
    moreover have "fs_load X J f' = Inr (maps_Copy [] (keyed_users X ?s))"
      using data(2) assms(1) load_keyed [of X "[]" ?s] by (simp add: fs_load_def f'(2) file_good_def)
    ultimately show ?thesis using right(2) f'(1) by (simp add: file_table_def)
  next
    case (Some e)
    then have "r = Some e" "f' = f\<lparr>fs_gen := fs_gen f + 1\<rparr>" using assms(3) data(1) by (auto simp: fs_save_def sort_wrapped)
    moreover from this have "fs_load X J f' = fs_load X J f" "file_good X J fits f'"
      using assms(1) by (simp_all add: fs_load_def file_good_def cong: option.case_cong)
    ultimately show ?thesis by (simp add: file_table_def)
  qed
qed

definition keeps_right :: "texts \<Rightarrow> (User \<Rightarrow> bool) \<Rightarrow> (users \<Rightarrow> gerror + users) \<Rightarrow> bool" where
  "keeps_right X fits change \<longleftrightarrow> (\<forall>us us'. right_users X fits us \<longrightarrow> change us = Inr us' \<longrightarrow> right_users X fits us')"

lemma change_table:
  assumes good: "file_good X J fits f" and r: "fs_change X J change f = (r, f')" and right: "keeps_right X fits change"
  shows "file_good X J fits f' \<and> (case r of
      None \<Rightarrow> (\<exists>us us'. right_users X fits us \<and> fs_load X J f = Inr us \<and> file_table X J f = map_of us \<and> change us = Inr us' \<and> file_table X J f' = map_of us')
    | Some _ \<Rightarrow> file_table X J f' = file_table X J f)"
proof -
  obtain us where us: "fs_load X J f = Inr us" "right_users X fits us" "file_table X J f = map_of us" using load_right [OF good] by blast
  show ?thesis
  proof (cases "lock_error (fs_disk f)")
    case None
    show ?thesis
    proof (cases "change us")
      case (Inr us')
      then have saved: "fs_save J us' f = (r, f')" using r us None by (simp add: fs_change_def)
      have "right_users X fits us'" using right us(2) Inr unfolding keeps_right_def by blast
      from save_table [OF good this saved] show ?thesis using us Inr by (auto split: option.splits)
    next
      case (Inl e)
      then have "r = Some e" "f' = f" using r us None by (simp_all add: fs_change_def)
      then show ?thesis using good by simp
    qed
  next
    case (Some e)
    then have "r = Some e" "f' = f" using r by (simp_all add: fs_change_def)
    then show ?thesis using good by simp
  qed
qed

text \<open>A change of the count of sign-outs leaves an account fit.\<close>

definition counts_fit :: "(User \<Rightarrow> bool) \<Rightarrow> bool" where
  "counts_fit fits \<longleftrightarrow> (\<forall>u n. fits u \<longrightarrow> fits (u\<lparr>u_Revocations := n\<rparr>))"

lemma counts_fit_plain [simp]: "counts_fit (\<lambda>u. True)"
  by (simp add: counts_fit_def)

lemma file_good_counts: "file_good X J fits f \<Longrightarrow> counts_fit fits"
  by (simp add: file_good_def json_keeps_def counts_fit_def)

lemma right_changes:
  "counts_fit fits \<Longrightarrow> fits u \<Longrightarrow> right_users X fits us \<Longrightarrow> right_users X fits (put_user X u us)"
  "fits u \<Longrightarrow> right_users X fits us \<Longrightarrow> create_user X u us = Inr us' \<Longrightarrow> right_users X fits us'"
  "right_users X fits us \<Longrightarrow> delete_user X name us = Inr us' \<Longrightarrow> right_users X fits us'"
  "counts_fit fits \<Longrightarrow> right_users X fits us \<Longrightarrow> add_revocation X name us = Inr (n, us') \<Longrightarrow> right_users X fits us'"
proof -
  show "counts_fit fits \<Longrightarrow> fits u \<Longrightarrow> right_users X fits us \<Longrightarrow> right_users X fits (put_user X u us)"
    by (auto simp: put_user_def Let_def counts_fit_def intro!: right_put split: option.split)
  show "fits u \<Longrightarrow> right_users X fits us \<Longrightarrow> create_user X u us = Inr us' \<Longrightarrow> right_users X fits us'"
    by (auto simp: create_user_def Let_def intro!: right_put split: if_splits)
  show "right_users X fits us \<Longrightarrow> delete_user X name us = Inr us' \<Longrightarrow> right_users X fits us'"
    by (auto simp: delete_user_def Let_def intro!: right_delete split: if_splits)
  show "counts_fit fits \<Longrightarrow> right_users X fits us \<Longrightarrow> add_revocation X name us = Inr (n, us') \<Longrightarrow> right_users X fits us'"
    by (auto simp: add_revocation_def Let_def counts_fit_def intro!: right_put dest: right_get split: option.splits)
qed

lemma keeps_right_changes:
  "counts_fit fits \<Longrightarrow> fits u \<Longrightarrow> keeps_right X fits (\<lambda>us. Inr (put_user X u us))"
  "fits u \<Longrightarrow> keeps_right X fits (create_user X u)"
  "keeps_right X fits (delete_user X name)"
  "counts_fit fits \<Longrightarrow> keeps_right X fits (\<lambda>us. case add_revocation X name us of Inl e \<Rightarrow> Inl e | Inr (n, us') \<Rightarrow> Inr us')"
  unfolding keeps_right_def by (auto intro: right_changes split: sum.splits)

interpretation users_in_file: account_store X "file_users X J" "file_table X J" "file_good X J fits" fits for X J fits
proof unfold_locales
  fix f name
  assume "file_good X J fits f"
  then obtain us where "fs_load X J f = Inr us" "file_table X J f = map_of us" using load_right by blast
  then show "us_Get (file_users X J) name f = (case file_table X J f (ToLowerText X name) of None \<Rightarrow> Inl ErrNoSuchUser | Some u \<Rightarrow> Inr u)"
    by (simp add: file_users_def FileUserStore_Get_def get_user_def)
next
  fix f
  assume "file_good X J fits f"
  then obtain us where "fs_load X J f = Inr us" "right_users X fits us" "file_table X J f = map_of us" using load_right by blast
  then show "\<exists>us. us_List (file_users X J) f = Inr us \<and> set us = ran (file_table X J f)"
    by (auto simp: file_users_def FileUserStore_List_def right_users_def wf_map_def ran_distinct)
next
  fix f u r f'
  assume g: "file_good X J fits f" "fits u" "us_Put (file_users X J) u f = (r, f')"
  then have c: "fs_change X J (\<lambda>us. Inr (put_user X u us)) f = (r, f')" by (auto simp: file_users_def FileUserStore_Put_def)
  show "file_good X J fits f' \<and> (case r of
        None \<Rightarrow> file_table X J f' = (file_table X J f)(ToLowerText X (u_Username u) \<mapsto> stored_user u (file_table X J f (ToLowerText X (u_Username u))))
      | Some _ \<Rightarrow> file_table X J f' = file_table X J f)"
    using change_table [OF g(1) c keeps_right_changes(1) [OF file_good_counts [OF g(1)] g(2)]] by (auto simp: put_user_table split: option.splits)
next
  fix f g u r f'
  assume g: "file_good X J fits f" "fits u" "us_Create (file_users X J) = Some g" "g u f = (r, f')"
  then have c: "fs_change X J (create_user X u) f = (r, f')" by (auto simp: file_users_def FileUserStore_Create_def)
  note t = change_table [OF g(1) c keeps_right_changes(2) [of fits u X, OF g(2)]]
  show "file_good X J fits f' \<and> (case r of
        None \<Rightarrow> file_table X J f (ToLowerText X (u_Username u)) = None \<and> email_free X (TrimSpace (u_Email u)) (file_table X J f) \<and>
          file_table X J f' = (file_table X J f)(ToLowerText X (u_Username u) \<mapsto> u)
      | Some _ \<Rightarrow> file_table X J f' = file_table X J f)"
  proof (cases r)
    case None
    then obtain us us' where us: "right_users X fits us" "file_table X J f = map_of us" "create_user X u us = Inr us'" "file_table X J f' = map_of us'"
      using t by auto
    have w: "wf_map us" using us(1) by (simp add: right_users_def)
    show ?thesis using create_user_table [OF w us(3)] t None us by simp
  qed (use t in simp)
next
  fix f name r f'
  assume g: "file_good X J fits f" "us_Delete (file_users X J) name f = (r, f')"
  then have c: "fs_change X J (delete_user X name) f = (r, f')" by (auto simp: file_users_def FileUserStore_Delete_def)
  show "file_good X J fits f' \<and> (case r of
        None \<Rightarrow> file_table X J f' = (file_table X J f)(ToLowerText X name := None) | Some _ \<Rightarrow> file_table X J f' = file_table X J f)"
    using change_table [OF g(1) c keeps_right_changes(3)] by (auto simp: delete_user_def Let_def split: option.splits if_splits)
next
  fix f h name r' f'
  assume g: "file_good X J fits f" "us_AddRevocation (file_users X J) = Some h" "h name f = (r', f')"
  let ?change = "\<lambda>us. case add_revocation X name us of Inl e \<Rightarrow> Inl e | Inr (n, us') \<Rightarrow> Inr us'"
  obtain r where c: "fs_change X J ?change f = (r, f')"
    using g(2,3) by (auto simp: file_users_def FileUserStore_AddRevocation_def split: prod.splits option.splits)
  note t = change_table [OF g(1) c keeps_right_changes(4) [OF file_good_counts [OF g(1)]]]
  show "file_good X J fits f' \<and> (case r' of
        Inr n \<Rightarrow> (\<exists>u. file_table X J f (ToLowerText X name) = Some u \<and> n = u_Revocations u + 1 \<and>
          file_table X J f' = (file_table X J f)(ToLowerText X name \<mapsto> u\<lparr>u_Revocations := n\<rparr>))
      | Inl _ \<Rightarrow> file_table X J f' = file_table X J f)"
  proof (cases r)
    case None
    then obtain us us' where us: "fs_load X J f = Inr us" "file_table X J f = map_of us" "?change us = Inr us'" "file_table X J f' = map_of us'"
      using t by auto
    then obtain n where n: "add_revocation X name us = Inr (n, us')" by (auto split: sum.splits)
    have "r' = Inr n" using g(2,3) c None us(1) n by (auto simp: file_users_def FileUserStore_AddRevocation_def)
    then show ?thesis using t None us n by (auto simp: add_revocation_def Let_def split: option.splits)
  next
    case (Some e)
    then have "r' = Inl e" using g(2,3) c by (auto simp: file_users_def FileUserStore_AddRevocation_def)
    then show ?thesis using t Some by simp
  qed
qed

section \<open>The file store answers as the memory store\<close>

datatype account_op = GetOp string | PutOp User | CreateOp User | DeleteOp string | RevokeOp string

datatype account_answer = AnUser "gerror + User" | AnOutcome "gerror option" | ACount "gerror + int"

fun account_do :: "'m UserStore \<Rightarrow> account_op \<Rightarrow> 'm \<Rightarrow> account_answer \<times> 'm" where
  "account_do S (GetOp name) m = (AnUser (us_Get S name m), m)"
| "account_do S (PutOp u) m = (case us_Put S u m of (r, m') \<Rightarrow> (AnOutcome r, m'))"
| "account_do S (CreateOp u) m = (case (case us_Create S of Some f \<Rightarrow> f u m | None \<Rightarrow> us_Put S u m) of (r, m') \<Rightarrow> (AnOutcome r, m'))"
| "account_do S (DeleteOp name) m = (case us_Delete S name m of (r, m') \<Rightarrow> (AnOutcome r, m'))"
| "account_do S (RevokeOp name) m = (case us_AddRevocation S of
     None \<Rightarrow> (ACount (Inl ErrNoSuchUser), m) | Some f \<Rightarrow> (case f name m of (r, m') \<Rightarrow> (ACount r, m')))"

fun account_dos :: "'m UserStore \<Rightarrow> account_op list \<Rightarrow> 'm \<Rightarrow> account_answer list \<times> 'm" where
  "account_dos S [] m = ([], m)"
| "account_dos S (x # xs) m = (case account_do S x m of (a, m1) \<Rightarrow> (case account_dos S xs m1 of (as, m2) \<Rightarrow> (a # as, m2)))"

definition healthy :: "'b FileUserStore \<Rightarrow> bool" where
  "healthy f \<longleftrightarrow> lock_error (fs_disk f) = None \<and> read_error (fs_disk f) = None \<and> write_error (fs_disk f) = None"

definition same_accounts :: "texts \<Rightarrow> 'b account_json \<Rightarrow> (User \<Rightarrow> bool) \<Rightarrow> 'b FileUserStore \<Rightarrow> MemoryUserStore \<Rightarrow> bool" where
  "same_accounts X J fits f m \<longleftrightarrow> healthy f \<and> file_good X J fits f \<and> right_users X fits (mu_users m) \<and> file_table X J f = memory_table m"

lemma healthy_change:
  assumes "healthy f" "file_good X J fits f" "keeps_right X fits change" "fs_load X J f = Inr us" "right_users X fits us"
  shows "fs_change X J change f = (case change us of Inl e \<Rightarrow> (Some e, f) | Inr us' \<Rightarrow> (None, snd (fs_save J us' f)))"
    "healthy (snd (fs_change X J change f))"
proof -
  have "fst (fs_save J us' f) = None \<and> healthy (snd (fs_save J us' f))" if "change us = Inr us'" for us'
  proof -
    have "list_all fits (sort_key u_Username (map snd us'))"
      using saved_right(3) [of X fits us'] assms(3,5) that unfolding keeps_right_def by blast
    then obtain data where "js_Marshal J (map wrap_user (sort_key u_Username (map snd us'))) = Inr data"
      using assms(2) by (auto simp: file_good_def json_keeps_def)
    then show ?thesis using assms(1) by (simp add: fs_save_def sort_wrapped healthy_def)
  qed
  then show "fs_change X J change f = (case change us of Inl e \<Rightarrow> (Some e, f) | Inr us' \<Rightarrow> (None, snd (fs_save J us' f)))"
    "healthy (snd (fs_change X J change f))"
    using assms(1,4) by (auto simp: fs_change_def healthy_def prod_eq_iff split: sum.splits)
qed

text \<open>Two tables with the same accounts make the same of a change.\<close>

definition same_change :: "(users \<Rightarrow> gerror + users) \<Rightarrow> users \<Rightarrow> users \<Rightarrow> bool" where
  "same_change change us us2 \<longleftrightarrow> (case (change us, change us2) of
       (Inl e, Inl e2) \<Rightarrow> e = e2 | (Inr us', Inr us2') \<Rightarrow> map_of us' = map_of us2' | _ \<Rightarrow> False)"

lemma same_changes:
  assumes "right_users X fits us" "right_users X fits us2" "map_of us = map_of us2"
  shows "same_change (\<lambda>us. Inr (put_user X u us)) us us2" "same_change (create_user X u) us us2" "same_change (delete_user X name) us us2"
    "same_change (\<lambda>us. case add_revocation X name us of Inl e \<Rightarrow> Inl e | Inr (n, us') \<Rightarrow> Inr us') us us2"
  using assms
  by (auto simp: same_change_def put_user_table create_user_def email_taken_table right_users_def delete_user_def add_revocation_def Let_def
      split: option.splits)

definition likewise :: "texts \<Rightarrow> (User \<Rightarrow> bool) \<Rightarrow> (users \<Rightarrow> gerror + users) \<Rightarrow> bool" where
  "likewise X fits change \<longleftrightarrow> (\<forall>us us2. right_users X fits us \<longrightarrow> right_users X fits us2 \<longrightarrow> map_of us = map_of us2 \<longrightarrow> same_change change us us2)"

lemma likewise_changes:
  "likewise X fits (\<lambda>us. Inr (put_user X u us))" "likewise X fits (create_user X u)" "likewise X fits (delete_user X name)"
  "likewise X fits (\<lambda>us. case add_revocation X name us of Inl e \<Rightarrow> Inl e | Inr (n, us') \<Rightarrow> Inr us')"
  unfolding likewise_def by (blast intro: same_changes)+

lemma same_accounts_change:
  assumes same: "same_accounts X J fits f m" and keeps: "keeps_right X fits change" and like: "likewise X fits change"
    and f': "fs_change X J change f = (r, f')"
  shows "(case change (mu_users m) of
      Inl e \<Rightarrow> r = Some e \<and> same_accounts X J fits f' m
    | Inr us \<Rightarrow> r = None \<and> same_accounts X J fits f' (mu_write us m))"
proof -
  have f: "healthy f" "file_good X J fits f" and m: "right_users X fits (mu_users m)" "file_table X J f = map_of (mu_users m)"
    using same by (simp_all add: same_accounts_def memory_table_def)
  obtain us where us: "fs_load X J f = Inr us" "right_users X fits us" "file_table X J f = map_of us" using load_right [OF f(2)] by blast
  have c: "same_change change us (mu_users m)" using like us m unfolding likewise_def by simp
  have h: "healthy f'" using healthy_change(2) [OF f keeps us(1,2)] f' by simp
  note t = change_table [OF f(2) f' keeps]
  show ?thesis
  proof (cases "change (mu_users m)")
    case (Inl e)
    then have "change us = Inl e" using c by (auto simp: same_change_def split: sum.splits)
    then have "r = Some e" "f' = f" using healthy_change(1) [OF f keeps us(1,2)] f' by simp_all
    then show ?thesis using Inl same by simp
  next
    case (Inr us2)
    then obtain us' where us': "change us = Inr us'" "map_of us' = map_of us2" using c by (auto simp: same_change_def split: sum.splits)
    have r: "r = None" using healthy_change(1) [OF f keeps us(1,2)] f' us' by simp
    have "right_users X fits us2" using keeps m(1) Inr unfolding keeps_right_def by blast
    moreover have "file_table X J f' = map_of us2" "file_good X J fits f'" using t r us us' by auto
    ultimately show ?thesis using Inr r h by (simp add: same_accounts_def memory_table_def mu_write_def)
  qed
qed

lemmas file_ops = file_users_def FileUserStore_Get_def FileUserStore_Put_def FileUserStore_Create_def FileUserStore_Delete_def
lemmas memory_ops = memory_users_def MemoryUserStore_Get_def MemoryUserStore_Put_def MemoryUserStore_Create_def MemoryUserStore_Delete_def

lemma same_accounts_revoke:
  assumes same: "same_accounts X J fits f m"
    and f': "FileUserStore_AddRevocation X J name f = (a, f')" and m': "MemoryUserStore_AddRevocation X name m = (b, m')"
  shows "a = b \<and> same_accounts X J fits f' m'"
proof -
  let ?change = "\<lambda>us. case add_revocation X name us of Inl e \<Rightarrow> Inl e | Inr (n, us') \<Rightarrow> Inr us'"
  have g: "file_good X J fits f" "file_table X J f = map_of (mu_users m)" using same by (simp_all add: same_accounts_def memory_table_def)
  obtain us where us: "fs_load X J f = Inr us" "right_users X fits us" "file_table X J f = map_of us" using load_right [OF g(1)] by blast
  obtain r where r: "fs_change X J ?change f = (r, f')" using f' by (auto simp: FileUserStore_AddRevocation_def split: prod.splits option.splits)
  have t: "case ?change (mu_users m) of Inl e \<Rightarrow> r = Some e \<and> same_accounts X J fits f' m | Inr us \<Rightarrow> r = None \<and> same_accounts X J fits f' (mu_write us m)"
    by (rule same_accounts_change [OF same keeps_right_changes(4) [OF file_good_counts [OF g(1)]] likewise_changes(4) r])
  show ?thesis
  proof (cases "add_revocation X name (mu_users m)")
    case (Inl e)
    then show ?thesis using t r f' m' by (simp add: FileUserStore_AddRevocation_def MemoryUserStore_AddRevocation_def)
  next
    case (Inr p)
    obtain n us2 where p: "p = (n, us2)" by force
    have "\<exists>us'. add_revocation X name us = Inr (n, us')"
      using Inr p us(3) g(2) by (auto simp: add_revocation_def Let_def split: option.splits)
    then show ?thesis using t r f' m' Inr p us(1)
      by (auto simp: FileUserStore_AddRevocation_def MemoryUserStore_AddRevocation_def)
  qed
qed

lemma same_accounts_do:
  assumes same: "same_accounts X J fits f m"
    and fit: "\<And>u. x = PutOp u \<or> x = CreateOp u \<Longrightarrow> fits u"
    and f': "account_do (file_users X J) x f = (a, f')" and m': "account_do (memory_users X) x m = (b, m')"
  shows "a = b \<and> same_accounts X J fits f' m'"
proof -
  have counts: "counts_fit fits" using same file_good_counts by (auto simp: same_accounts_def)
  show ?thesis
proof (cases x)
  case (GetOp name)
  have "file_good X J fits f" "file_table X J f = memory_table m" using same by (simp_all add: same_accounts_def)
  then show ?thesis
    using same f' m' users_in_file.got [of X J fits f name] users_in_memory.got [of m X name] same
    by (auto simp: GetOp same_accounts_def right_users_def memory_good_def)
next
  case (PutOp u)
  obtain r where r: "fs_change X J (\<lambda>us. Inr (put_user X u us)) f = (r, f')" "a = AnOutcome r"
    using f' by (auto simp: PutOp file_ops split: prod.splits)
  show ?thesis
    using same_accounts_change [OF same keeps_right_changes(1) [OF counts fit] likewise_changes(1) r(1)] m' r(2) by (auto simp: PutOp memory_ops)
next
  case (CreateOp u)
  obtain r where r: "fs_change X J (create_user X u) f = (r, f')" "a = AnOutcome r"
    using f' by (auto simp: CreateOp file_ops split: prod.splits)
  show ?thesis
    using same_accounts_change [OF same keeps_right_changes(2) [OF fit] likewise_changes(2) r(1)] m' r(2)
    by (auto simp: CreateOp memory_ops split: sum.splits)
next
  case (DeleteOp name)
  obtain r where r: "fs_change X J (delete_user X name) f = (r, f')" "a = AnOutcome r"
    using f' by (auto simp: DeleteOp file_ops split: prod.splits)
  show ?thesis
    using same_accounts_change [OF same keeps_right_changes(3) likewise_changes(3) r(1)] m' r(2)
    by (auto simp: DeleteOp memory_ops split: sum.splits)
next
  case (RevokeOp name)
  then show ?thesis
    using same_accounts_revoke [OF same, of name] f' m'
    by (auto simp: file_users_def memory_users_def split: prod.splits)
qed
qed

text \<open>
  C21: Accounts kept in the file are those kept in memory. Take a file and a memory store with the same accounts, a disk that serves (the
  lock is given, the file is read and written), and a JSON package that writes the accounts at hand and reads them back as they were, but for the two fields
  it is told to leave out, which the store therefore writes beside them. Then the file store gives to any sequence of reads, writes, creations,
  removals and sign-outs the very answers the memory store gives, errors and counts included. The accounts at hand are those JSON carries whole:
  a text that is not UTF-8, which JSON would change, is outside it.\<close>

theorem file_store_answers:
  assumes "json_keeps J fits" "same_accounts X J fits f m" "\<And>u. PutOp u \<in> set xs \<or> CreateOp u \<in> set xs \<Longrightarrow> fits u"
  shows "fst (account_dos (file_users X J) xs f) = fst (account_dos (memory_users X) xs m)"
  using assms(2,3)
proof (induction xs arbitrary: f m)
  case (Cons x xs)
  obtain a f' where f': "account_do (file_users X J) x f = (a, f')" by force
  obtain b m' where m': "account_do (memory_users X) x m = (b, m')" by force
  have "a = b" "same_accounts X J fits f' m'" using same_accounts_do [OF Cons.prems(1) _ f' m'] Cons.prems(2) by auto
  then have "fst (account_dos (file_users X J) xs f') = fst (account_dos (memory_users X) xs m')"
    using Cons.IH [of f' m'] Cons.prems(2) by (meson list.set_intros(2))
  with \<open>a = b\<close> show ?case using f' m' by (simp add: split_beta)
qed simp

text \<open>A package that keeps what it is given, but for the fields it is told to leave out.\<close>

definition plain_json :: "storedUser list account_json" where
  "plain_json = \<lparr>js_Marshal = (\<lambda>ss. Inr (map untagged ss)), js_Unmarshal = Inr\<rparr>"

definition empty_disk :: "storedUser list FileUserStore" where
  "empty_disk = \<lparr>fs_file = None, fs_gen = 0, fs_marks = [],
     fs_disk = \<lparr>read_error = None, lock_error = None, write_error = None, stat_error = None\<rparr>\<rparr>"

definition sample_user :: "string \<Rightarrow> string \<Rightarrow> User" where
  "sample_user name email = \<lparr>u_Username = name, u_Email = email, u_Name = '''', u_Tenant = ''default'', u_Groups = [], u_Hash = ''h'',
     u_CreatedAt = 1, u_MustChange = False, u_Revocations = 0\<rparr>"

lemma plain_json_keeps: "json_keeps plain_json (\<lambda>u. True)"
  by (simp add: json_keeps_def plain_json_def)

theorem file_store_answers_witness:
  "fst (account_dos (file_users ascii_texts plain_json) [CreateOp (sample_user ''bob'' ''b@c''), CreateOp (sample_user ''al'' ''B@c''), RevokeOp ''Bob''] empty_disk) =
   fst (account_dos (memory_users ascii_texts) [CreateOp (sample_user ''bob'' ''b@c''), CreateOp (sample_user ''al'' ''B@c''), RevokeOp ''Bob'']
     NewMemoryUserStore)"
  by (rule file_store_answers [OF plain_json_keeps])
    (simp_all add: same_accounts_def healthy_def empty_disk_def file_good_def right_users_def NewMemoryUserStore_def file_table_def fs_load_def
      memory_table_def plain_json_keeps)

section \<open>No account is given out twice\<close>

definition accounts_ok :: "texts \<Rightarrow> MemoryUserStore \<Rightarrow> bool" where
  "accounts_ok X m \<longleftrightarrow> right_users X (\<lambda>u. True) (mu_users m) \<and> emails_apart X (memory_table m)"

lemma created_ok:
  assumes sym: "\<And>a b. EqualFoldText X a b = EqualFoldText X b a" and ok: "accounts_ok X m"
  shows "accounts_ok X (snd (MemoryUserStore_Create X u m))"
proof (cases "create_user X u (mu_users m)")
  case (Inl e)
  then show ?thesis using ok by (simp add: MemoryUserStore_Create_def)
next
  case (Inr us)
  have r: "right_users X (\<lambda>u. True) (mu_users m)" and e: "emails_apart X (map_of (mu_users m))"
    using ok by (simp_all add: accounts_ok_def memory_table_def)
  have w: "wf_map (mu_users m)" using r by (simp add: right_users_def)
  note c = create_user_table [OF w Inr]
  have "emails_apart X (map_of us)"
    using e c(2) sym unfolding emails_apart_def email_free_def c(3) by (auto split: if_splits)
  then show ?thesis
    using right_changes(2) [of "\<lambda>u. True", OF _ r Inr] Inr by (simp add: MemoryUserStore_Create_def mu_write_def accounts_ok_def memory_table_def)
qed

text \<open>Nothing but the writes of others happened to the store.\<close>

definition only_others :: "('m, 'x, 'z) world_scheme \<Rightarrow> ('m, 'x, 'z) world_scheme \<Rightarrow> bool" where
  "only_others w w' \<longleftrightarrow> (\<exists>gs. others w = gs @ others w' \<and> mem w' = writes gs (mem w))"

lemma only_others_refl: "reflp only_others"
  by (simp add: reflp_def only_others_def exI [of _ "[]"])

lemma only_others_trans: "transp only_others"
proof (rule transpI)
  fix u v w :: "('m, 'x, 'z) world_scheme"
  assume "only_others u v" "only_others v w"
  then obtain gs hs where "others u = gs @ others v" "mem v = writes gs (mem u)" "others v = hs @ others w" "mem w = writes hs (mem v)"
    by (auto simp: only_others_def)
  then show "only_others u w" unfolding only_others_def by (intro exI [of _ "gs @ hs"]) simp
qed

lemma only_others_read: "keeps only_others (call (\<lambda>m. (f m, m)))"
proof (rule keepsI)
  fix w a w'
  assume "run_state (call (\<lambda>m. (f m, m))) w = (a, w')"
  then have "mem w' = others_step w" "others w' = tl (others w)" by (auto simp: call_def)
  with run_call_others [of w] show "only_others w w'" by (auto simp: only_others_def)
qed

lemma only_others_outside: "keeps only_others (outside f)"
  by (rule keepsI) (auto simp: run_outside only_others_def intro: exI [of _ "[]"])

lemma only_others_la: "keeps only_others (locked f)" "keeps only_others (held g)" "keeps only_others (lock_do h)"
  by (auto intro!: keepsI exI [of _ "[]"] simp: locked_def held_def lock_do_def only_others_def split: prod.splits)

lemmas only_others_intros = keeps_intros only_others_refl only_others_trans only_others_read only_others_outside only_others_la

text \<open>What a sign-up ends in: it put the new account among those of that moment, where its name and its address were free, or it wrote nothing.\<close>

definition signed_up :: "('m, 'x) LocalAuth \<Rightarrow> User \<Rightarrow> string \<Rightarrow> (MemoryUserStore, 'y) auth_world \<Rightarrow> gerror option \<Rightarrow> (MemoryUserStore, 'y) auth_world \<Rightarrow> bool" where
  "signed_up l u password w r w' \<longleftrightarrow> (case r of
     Some e \<Rightarrow> only_others w w'
   | None \<Rightarrow> \<exists>gs m h t x v key. others w = gs @ others w' \<and> m = writes gs (mem w) \<and>
       fst (bc_generate (la_hashing l) password x) = Inr h \<and>
       v = named_user (la_texts l) (u\<lparr>u_Email := TrimSpace (u_Email u)\<rparr>) h t \<and> key = ToLowerText (la_texts l) (u_Username v) \<and>
       (\<forall>k a. (k, a) \<in> set (mu_users m) \<longrightarrow> k \<noteq> key \<and>
          (TrimSpace (u_Email v) \<noteq> '''' \<longrightarrow> \<not> EqualFoldText (la_texts l) (TrimSpace (u_Email a)) (TrimSpace (u_Email v)))) \<and>
       mem w' = m\<lparr>mu_users := AList.update key v (mu_users m), mu_gen := mu_gen m + 1\<rparr>)"

definition ends_signed_up :: "('m, 'x) LocalAuth \<Rightarrow> User \<Rightarrow> string \<Rightarrow> ((MemoryUserStore, 'y) auth_world, gerror option) state \<Rightarrow> bool" where
  "ends_signed_up l u password q \<longleftrightarrow> (\<forall>w r w'. run_state q w = (r, w') \<longrightarrow> signed_up l u password w r w')"

lemma signed_up_after:
  assumes "only_others w v" "signed_up l u password v r w'"
  shows "signed_up l u password w r w'"
proof (cases r)
  case None
  obtain gs where gs: "others w = gs @ others v" "mem v = writes gs (mem w)" using assms(1) by (auto simp: only_others_def)
  from assms(2) None obtain hs h t x a key where a: "others v = hs @ others w'" "fst (bc_generate (la_hashing l) password x) = Inr h"
    "a = named_user (la_texts l) (u\<lparr>u_Email := TrimSpace (u_Email u)\<rparr>) h t" "key = ToLowerText (la_texts l) (u_Username a)"
    "\<forall>k b. (k, b) \<in> set (mu_users (writes hs (mem v))) \<longrightarrow> k \<noteq> key \<and>
       (TrimSpace (u_Email a) \<noteq> '''' \<longrightarrow> \<not> EqualFoldText (la_texts l) (TrimSpace (u_Email b)) (TrimSpace (u_Email a)))"
    "mem w' = (writes hs (mem v))\<lparr>mu_users := AList.update key a (mu_users (writes hs (mem v))), mu_gen := mu_gen (writes hs (mem v)) + 1\<rparr>"
    by (auto simp: signed_up_def)
  have "others w = (gs @ hs) @ others w'" "writes hs (mem v) = writes (gs @ hs) (mem w)" using gs a(1) by simp_all
  with a(2-) show ?thesis unfolding signed_up_def None option.case by blast
next
  case (Some e)
  with assms transpD [OF only_others_trans] show ?thesis by (auto simp: signed_up_def)
qed

lemma ends_signed_up_then:
  assumes "keeps only_others q" "\<And>a w w1. run_state q w = (a, w1) \<Longrightarrow> ends_signed_up l u password (f a)"
  shows "ends_signed_up l u password (q \<bind> f)"
  unfolding ends_signed_up_def
proof (intro allI impI)
  fix w r w'
  assume run: "run_state (q \<bind> f) w = (r, w')"
  obtain a w1 where a: "run_state q w = (a, w1)" by (metis prod.exhaust)
  with run assms(2) [OF a] have "signed_up l u password w1 r w'" by (simp add: ends_signed_up_def)
  with keepsD [OF assms(1) a] show "signed_up l u password w r w'" by (rule signed_up_after)
qed

lemma ends_signed_up_ret: "ends_signed_up l u password (ret (Some e))"
  by (simp add: ends_signed_up_def signed_up_def only_others_def exI [of _ "[]"])

lemma ends_signed_up_create:
  assumes "fst (bc_generate (la_hashing l) password x) = Inr h"
  shows "ends_signed_up l u password (call (MemoryUserStore_Create (la_texts l) (named_user (la_texts l) (u\<lparr>u_Email := TrimSpace (u_Email u)\<rparr>) h t)))"
    (is "ends_signed_up l u password (call (MemoryUserStore_Create ?X ?v))")
  unfolding ends_signed_up_def
proof (intro allI impI)
  fix w :: "(MemoryUserStore, 'y) auth_world" and r w'
  assume run: "run_state (call (MemoryUserStore_Create ?X ?v)) w = (r, w')"
  obtain gs where gs: "others w = gs @ tl (others w)" "others_step w = writes gs (mem w)" using run_call_others by blast
  let ?m = "writes gs (mem w)"
  have w': "others w' = tl (others w)" "MemoryUserStore_Create ?X ?v ?m = (r, mem w')"
    using run gs(2) by (auto simp: call_def split: prod.splits)
  show "signed_up l u password w r w'"
  proof (cases "create_user ?X ?v (mu_users ?m)")
    case (Inl e)
    then have "r = Some e" "mem w' = ?m" using w'(2) by (simp_all add: MemoryUserStore_Create_def)
    with w'(1) gs(1) show ?thesis unfolding signed_up_def only_others_def by auto
  next
    case (Inr us)
    then have free: "map_of (mu_users ?m) (ToLowerText ?X (u_Username ?v)) = None"
      "TrimSpace (u_Email ?v) \<noteq> '''' \<Longrightarrow> \<not> email_taken ?X (TrimSpace (u_Email ?v)) (mu_users ?m)"
      "us = AList.update (ToLowerText ?X (u_Username ?v)) ?v (mu_users ?m)"
      by (auto simp: create_user_def Let_def split: if_splits)
    have "\<forall>k a. (k, a) \<in> set (mu_users ?m) \<longrightarrow> k \<noteq> ToLowerText ?X (u_Username ?v) \<and>
        (TrimSpace (u_Email ?v) \<noteq> '''' \<longrightarrow> \<not> EqualFoldText ?X (TrimSpace (u_Email a)) (TrimSpace (u_Email ?v)))"
    proof (intro allI impI conjI)
      fix k a
      assume e: "(k, a) \<in> set (mu_users ?m)"
      then have "k \<in> fst ` set (mu_users ?m)" by force
      then show "k \<noteq> ToLowerText ?X (u_Username ?v)" using free(1) by (metis map_of_eq_None_iff)
      assume "TrimSpace (u_Email ?v) \<noteq> ''''"
      from free(2) [OF this] e show "\<not> EqualFoldText ?X (TrimSpace (u_Email a)) (TrimSpace (u_Email ?v))"
        by (auto simp: email_taken_def list_ex_iff)
    qed
    moreover have "r = None" "mem w' = ?m\<lparr>mu_users := AList.update (ToLowerText ?X (u_Username ?v)) ?v (mu_users ?m), mu_gen := mu_gen ?m + 1\<rparr>"
      using w'(2) Inr free(3) by (auto simp: MemoryUserStore_Create_def mu_write_def)
    ultimately show ?thesis using gs(1) w'(1) assms unfolding signed_up_def by (simp only: option.case) blast
  qed
qed

lemma CreateUser_signed_up:
  assumes "la_Store l = memory_users (la_texts l)"
  shows "ends_signed_up l u password (CreateUser l u password)"
  unfolding CreateUser_def
proof (rule ends_signed_up_then)
  show "keeps only_others (CheckNewUser l (u_Username u) password)"
    unfolding CheckNewUser_def by (intro only_others_intros)
  fix bad
  have hashed: "ends_signed_up l u password (do {
      t \<leftarrow> auth_clock l;
      (case us_Create (la_Store l) of
         Some create \<Rightarrow> call (create (named_user (la_texts l) (u\<lparr>u_Email := TrimSpace (u_Email u)\<rparr>) h t))
       | None \<Rightarrow> call (us_Put (la_Store l) (named_user (la_texts l) (u\<lparr>u_Email := TrimSpace (u_Email u)\<rparr>) h t))) })"
    if "fst (bc_generate (la_hashing l) password x) = Inr h" for h x
    unfolding auth_clock_def
    by (rule ends_signed_up_then [OF only_others_outside]) (simp add: assms memory_users_def ends_signed_up_create [OF that])
  have made: "ends_signed_up l u password (do {
      hash \<leftarrow> generate l password;
      (case hash of
         Inl e \<Rightarrow> ret (Some (Errorf [e] ''hash password''))
       | Inr h \<Rightarrow> do {
           t \<leftarrow> auth_clock l;
           (case us_Create (la_Store l) of
              Some create \<Rightarrow> call (create (named_user (la_texts l) (u\<lparr>u_Email := TrimSpace (u_Email u)\<rparr>) h t))
            | None \<Rightarrow> call (us_Put (la_Store l) (named_user (la_texts l) (u\<lparr>u_Email := TrimSpace (u_Email u)\<rparr>) h t)))
         }) })"
    unfolding generate_def
  proof (rule ends_signed_up_then [OF only_others_outside])
    fix hash w w1
    assume "run_state (outside (bc_generate (la_hashing l) password)) w = (hash, w1)"
    then have "fst (bc_generate (la_hashing l) password (ext w)) = hash" by (auto simp: run_outside)
    then show "ends_signed_up l u password (case hash of
         Inl e \<Rightarrow> ret (Some (Errorf [e] ''hash password''))
       | Inr h \<Rightarrow> do {
           t \<leftarrow> auth_clock l;
           (case us_Create (la_Store l) of
              Some create \<Rightarrow> call (create (named_user (la_texts l) (u\<lparr>u_Email := TrimSpace (u_Email u)\<rparr>) h t))
            | None \<Rightarrow> call (us_Put (la_Store l) (named_user (la_texts l) (u\<lparr>u_Email := TrimSpace (u_Email u)\<rparr>) h t)))
         })"
      using hashed by (cases hash) (simp_all add: ends_signed_up_ret)
  qed
  have checked: "keeps only_others (CheckEmail l name email)" for name email
    unfolding CheckEmail_def by (intro only_others_intros)
  show "ends_signed_up l u password (case bad of
        Some e \<Rightarrow> ret (Some e)
      | None \<Rightarrow> do {
          u \<leftarrow> ret (u\<lparr>u_Email := TrimSpace (u_Email u)\<rparr>);
          taken \<leftarrow> CheckEmail l (u_Username u) (u_Email u);
          (case taken of
             Some e \<Rightarrow> ret (Some e)
           | None \<Rightarrow> do {
               hash \<leftarrow> generate l password;
               (case hash of
                  Inl e \<Rightarrow> ret (Some (Errorf [e] ''hash password''))
                | Inr h \<Rightarrow> do {
                    t \<leftarrow> auth_clock l;
                    (case us_Create (la_Store l) of
                       Some create \<Rightarrow> call (create (named_user (la_texts l) u h t))
                     | None \<Rightarrow> call (us_Put (la_Store l) (named_user (la_texts l) u h t)))
                  })
             })
        })"
  proof (cases bad)
    case None
    have "ends_signed_up l u password (do {
        taken \<leftarrow> CheckEmail l (u_Username u) (TrimSpace (u_Email u));
        (case taken of
           Some e \<Rightarrow> ret (Some e)
         | None \<Rightarrow> do {
             hash \<leftarrow> generate l password;
             (case hash of
                Inl e \<Rightarrow> ret (Some (Errorf [e] ''hash password''))
              | Inr h \<Rightarrow> do {
                  t \<leftarrow> auth_clock l;
                  (case us_Create (la_Store l) of
                     Some create \<Rightarrow> call (create (named_user (la_texts l) (u\<lparr>u_Email := TrimSpace (u_Email u)\<rparr>) h t))
                   | None \<Rightarrow> call (us_Put (la_Store l) (named_user (la_texts l) (u\<lparr>u_Email := TrimSpace (u_Email u)\<rparr>) h t)))
                })
           }) })"
      by (rule ends_signed_up_then [OF checked]) (auto intro: made ends_signed_up_ret split: option.split)
    then show ?thesis by (simp add: None)
  qed (simp add: ends_signed_up_ret)
qed

text \<open>What a sign-up was asked for.\<close>

lemma CreateUser_asked:
  "run_state (CreateUser l u password) w = (None, w') \<Longrightarrow> validUsername (u_Username u) \<and> 10 \<le> length password \<and>
     (TrimSpace (u_Email u) = '''' \<or> ValidEmail (la_texts l) (TrimSpace (u_Email u)) = None)"
  by (auto simp: CreateUser_def CheckNewUser_def CheckEmail_def split: if_splits option.splits sum.splits prod.splits)


definition plain_auth :: "(MemoryUserStore, unit) LocalAuth" where
  "plain_auth = \<lparr>la_Store = memory_users ascii_texts, la_TTL = Hour, la_Admit = None, la_clock = (\<lambda>x. (7, x)),
     la_random = (\<lambda>x. (''cookie'', x)), la_hashing = \<lparr>bc_generate = (\<lambda>p x. (Inr (''#'' @ p), x)), bc_matches = (\<lambda>h p. h = ''#'' @ p), sha = id\<rparr>,
     la_texts = ascii_texts\<rparr>"

definition one_account :: "(MemoryUserStore, unit) auth_world" where
  "one_account = \<lparr>mem = \<lparr>mu_users = [(''bob'', sample_user ''bob'' ''b@c'')], mu_gen = 1\<rparr>, ext = (), others = [],
     la = \<lparr>la_sessions = [], la_ended = [], la_told = []\<rparr>\<rparr>"

lemma one_account_ok: "accounts_ok ascii_texts (mem one_account)"
proof -
  have "ToLowerText ascii_texts ''bob'' = ''bob''" by code_simp
  then show ?thesis by (simp add: wf_map_def one_account_def accounts_ok_def right_users_def sample_user_def memory_table_def emails_apart_def)
qed


section \<open>Changing a password\<close>

lemma end_all_ended: "map_of (la_sessions (end_all P why t st)) k = Some s \<Longrightarrow> \<not> P (k, s)"
proof -
  have "map_of (la_sessions (foldl (\<lambda>st sid. endLocked sid why t st) st sids)) k =
    (if k \<in> set sids then None else map_of (la_sessions st) k)" for sids
    by (induction sids arbitrary: st) (auto simp: endLocked_def delete_conv' split: option.splits)
  then show "map_of (la_sessions (end_all P why t st)) k = Some s \<Longrightarrow> \<not> P (k, s)"
    by (auto simp: end_all_def split: if_splits dest!: map_of_SomeD) force
qed

lemma ended_now:
  assumes "run_state (endSessionsNow l name keep why) w = (n, w')" "name \<noteq> ''''" "map_of (la_sessions (la w')) k = Some s"
    "session_of (la_texts l) name s"
  shows "k = keep"
  using assms by (auto simp: endSessionsNow_def locked_def endSessionsFor_def changed_def Let_def split: prod.splits dest: end_all_ended)

lemma local_only:
  "run_state (lock_do f) w = (a, w1) \<Longrightarrow> mem w1 = mem w \<and> others w1 = others w"
  "run_state (locked g) w = (b, w1) \<Longrightarrow> mem w1 = mem w \<and> others w1 = others w"
  "run_state (auth_clock l) w = (t, w1) \<Longrightarrow> mem w1 = mem w \<and> others w1 = others w \<and> la w1 = la w"
  "run_state (generate l next) w = (h, w1) \<Longrightarrow> mem w1 = mem w \<and> others w1 = others w \<and> la w1 = la w"
  "run_state (endSessionsNow l name keep why) w = (n, w1) \<Longrightarrow> mem w1 = mem w \<and> others w1 = others w"
  by (auto simp: lock_do_def locked_def auth_clock_def generate_def outside_def endSessionsNow_def Let_def split: prod.splits)

text \<open>The session that asks stays while the password is changed.\<close>

definition holds_on :: "string \<Rightarrow> ('m, 'x) auth_world \<Rightarrow> ('m, 'x) auth_world \<Rightarrow> bool" where
  "holds_on sid w w' \<longleftrightarrow> (map_of (la_sessions (la w)) sid \<noteq> None \<longrightarrow> map_of (la_sessions (la w')) sid \<noteq> None)"

lemma bind_ran: "run_state (State_Monad.bind c f) w = (r, w') \<longleftrightarrow> (\<exists>a w1. run_state c w = (a, w1) \<and> run_state (f a) w1 = (r, w'))"
  by (auto split: prod.splits)

lemma no_error_ran:
  "run_state (case a of Inl e \<Rightarrow> ret (Some (f e)) | Inr h \<Rightarrow> g h) w = (None, w') \<longleftrightarrow> (\<exists>h. a = Inr h \<and> run_state (g h) w = (None, w'))"
  by (cases a) auto

lemma holds_on_order: "reflp (holds_on sid)" "transp (holds_on sid)"
  by (auto simp: reflp_def transp_def holds_on_def)

lemma holds_on_call: "keeps (holds_on sid) (call f)"
  by (rule keepsI) (auto simp: call_def holds_on_def split: prod.splits)

lemma holds_on_outside: "keeps (holds_on sid) (outside f)"
  by (rule keepsI) (auto simp: run_outside holds_on_def)

lemma holds_on_lock:
  "(\<And>st. map_of (la_sessions st) sid \<noteq> None \<Longrightarrow> map_of (la_sessions (f st)) sid \<noteq> None) \<Longrightarrow> keeps (holds_on sid) (lock_do f)"
  by (rule keepsI) (auto simp: lock_do_def locked_def holds_on_def)

lemma each_session_there: "map_of (la_sessions (each_session X name f st)) k = None \<longleftrightarrow> map_of (la_sessions st) k = None"
  by (force simp: each_session_def map_of_eq_None_iff)

lemma holds_on_restamp: "keeps (holds_on sid) (lock_do (restamp keep stamp undo))"
  by (rule holds_on_lock) (auto simp: restamp_def update_conv' split: option.splits)

lemma holds_on_mark: "keeps (holds_on sid) (lock_do (markMustChange X name on))"
  by (rule holds_on_lock) (auto simp: markMustChange_def changed_def each_session_there simp del: not_None_eq)

lemma end_all_kept:
  assumes "\<And>s. \<not> P (sid, s)" "map_of (la_sessions st) sid \<noteq> None"
  shows "map_of (la_sessions (end_all P why t st)) sid \<noteq> None"
proof -
  have "map_of (la_sessions (foldl (\<lambda>st sid. endLocked sid why t st) st sids)) k =
    (if k \<in> set sids then None else map_of (la_sessions st) k)" for sids k
    by (induction sids arbitrary: st) (auto simp: endLocked_def delete_conv' split: option.splits)
  moreover have "sid \<notin> set (map fst (filter P (la_sessions st)))" using assms(1) by auto
  ultimately show ?thesis using assms(2) by (simp add: end_all_def)
qed

lemma holds_on_end: "keeps (holds_on sid) (endSessionsNow l name sid why)"
  unfolding endSessionsNow_def auth_clock_def
proof (rule keeps_bind [OF holds_on_order(2) holds_on_outside])
  fix t
  show "keeps (holds_on sid) (locked (endSessionsFor (la_texts l) name sid why t))"
    using end_all_kept [of "\<lambda>(k, s). k \<noteq> sid \<and> session_of (la_texts l) name s" sid _ why t]
    by (intro keepsI) (auto simp: locked_def holds_on_def endSessionsFor_def changed_def Let_def simp del: not_None_eq split: prod.splits if_splits)
qed

lemma holds_on_changePassword: "keeps (holds_on sid) (changePassword l username cur next keep)"
  unfolding changePassword_def Authenticate_def generate_def
  by (intro keeps_intros holds_on_order holds_on_call holds_on_outside holds_on_restamp holds_on_mark)

lemma FromCookie_there:
  assumes "run_state (FromCookie l (Some sid)) w = (Some i, w')"
  shows "map_of (la_sessions (la w')) sid \<noteq> None"
proof -
  have there: "map_of (la_sessions (la v')) sid \<noteq> None"
    if "run_state (auth_current l sid) v = (Inr i, v')" for v v' i
    using that by (auto simp: auth_current_def held_def locked_def judge_read_def call_def auth_clock_def run_outside Let_def
        split: option.splits sum.splits prod.splits if_splits)
  obtain found w1 where look: "run_state (auth_lookup l (Some sid)) w = (found, w1)" by force
  then obtain s where s: "found = Some (sid, s)"
    using assms by (auto simp: FromCookie_def auth_lookup_def held_def live_session_def split: option.splits prod.splits if_splits)
  obtain got w2 where got: "run_state (auth_current l sid) w1 = (got, w2)" by force
  then obtain j where j: "got = Inr j" using assms look s by (cases got) (auto simp: FromCookie_def)
  have "map_of (la_sessions (la w')) sid \<noteq> None \<longleftrightarrow> map_of (la_sessions (la w2)) sid \<noteq> None"
    using assms look s got j
    by (auto simp: FromCookie_def auth_clock_def run_outside lock_do_def locked_def touch_def update_conv' split: option.splits if_splits)
  with there [OF got [unfolded j]] show ?thesis by blast
qed

text \<open>A change that succeeds: who asked knew the password of the account that stood under the name, and nothing but this account is written.\<close>

lemma changePassword_made:
  fixes w :: "(MemoryUserStore, 'x) auth_world"
  assumes S: "la_Store l = memory_users X" and r: "run_state (changePassword l username cur next keep) w = (None, w')"
  shows "10 \<le> length next \<and> next \<noteq> cur \<and> (\<exists>gs hs m1 m2 u h x key. others w = gs @ hs @ others w' \<and> m1 = writes gs (mem w) \<and> m2 = writes hs m1 \<and>
    memory_table m1 (ToLowerText X username) = Some u \<and> bc_matches (la_hashing l) (u_Hash u) cur \<and>
    fst (bc_generate (la_hashing l) next x) = Inr h \<and> key = ToLowerText X (u_Username u) \<and>
    mem w' = m2\<lparr>mu_users := AList.update key (stored_user (u\<lparr>u_Hash := h, u_MustChange := False\<rparr>) (memory_table m2 key)) (mu_users m2),
      mu_gen := mu_gen m2 + 1\<rparr>)"
proof -
  obtain u w1 where auth: "run_state (Authenticate l username cur) w = (Inr u, w1)" and long: "10 \<le> length next" "next \<noteq> cur"
    and "run_state (do {
            hash \<leftarrow> generate l next;
            (case hash of
               Inl e \<Rightarrow> ret (Some e)
             | Inr h \<Rightarrow> do {
                 lock_do (restamp keep (passwordStamp (la_hashing l) h) False);
                 err \<leftarrow> call (us_Put (la_Store l) (u\<lparr>u_Hash := h, u_MustChange := False\<rparr>));
                 (case err of
                    Some e \<Rightarrow> do { lock_do (restamp keep '''' True); ret (Some e) }
                  | None \<Rightarrow> do {
                      lock_do (restamp keep '''' False);
                      lock_do (markMustChange (la_texts l) (u_Username u) False);
                      ret None
                    })
               })
          }) w1 = (None, w')"
    using r unfolding changePassword_def
    by (auto simp: bind_ran no_error_ran simp del: run_state_bind split: if_splits)
  then obtain h w2 and w3 :: "(MemoryUserStore, 'x) auth_world" and w4 where hash: "run_state (generate l next) w1 = (Inr h, w2)"
    and put: "run_state (call (MemoryUserStore_Put X (u\<lparr>u_Hash := h, u_MustChange := False\<rparr>))) w3 = (None, w4)"
    and frame: "mem w3 = mem w2" "others w3 = others w2" "mem w' = mem w4" "others w' = others w4"
    by (auto simp: bind_ran no_error_ran S memory_users_def simp del: run_state_bind split: option.splits dest!: local_only(1))
  note gen = local_only(4) [OF hash]
  have x: "\<exists>x. fst (bc_generate (la_hashing l) next x) = Inr h"
    using hash by (auto simp: generate_def outside_def split: prod.splits) (metis fst_conv)
  have a: "mem w1 = others_step w" "others w1 = tl (others w)" "memory_table (others_step w) (ToLowerText X username) = Some u"
    "bc_matches (la_hashing l) (u_Hash u) cur"
    using auth by (auto simp: Authenticate_def call_def S memory_users_def MemoryUserStore_Get_def get_user_def memory_table_def
        split: prod.splits sum.splits if_splits option.splits)
  obtain gs where gs: "others w = gs @ tl (others w)" "others_step w = writes gs (mem w)" using run_call_others by blast
  obtain hs where hs: "others w3 = hs @ tl (others w3)" "others_step w3 = writes hs (mem w3)" using run_call_others by blast
  let ?m2 = "others_step w3" and ?key = "ToLowerText X (u_Username u)"
  have w': "mem w' = ?m2\<lparr>mu_users := AList.update ?key (stored_user (u\<lparr>u_Hash := h, u_MustChange := False\<rparr>) (memory_table ?m2 ?key)) (mu_users ?m2),
      mu_gen := mu_gen ?m2 + 1\<rparr>" "others w' = tl (others w3)"
    using put frame(3,4)
    by (auto simp: call_def MemoryUserStore_Put_def mu_write_def memory_table_def put_user_def Let_def stored_user_def split: option.splits)
  have "others w = gs @ hs @ others w'" "?m2 = writes hs (writes gs (mem w))"
    using gs hs a(1,2) gen frame(1,2) w'(2) by simp_all
  with w'(1) a(3,4) x long gs(2) show ?thesis by metis
qed

text \<open>
  C18: A password that was changed signs the account's other browsers out. Over the memory store of accounts, and whatever others write to it
  meanwhile: when a change is answered with success, the cookie named a session that lives here, and the session's account, as the check of
  the cookie in this very request read it, is \<open>Subject i\<close>. The account that then stood under this name had the password given as the current one; the new one has at
  least ten bytes and is another. The only thing the request wrote to the store, at a moment \<open>m2\<close>, is that account, as it was read, with a hash of the new
  password and without the demand to change it, its count of sign-outs not lowered, under its own user name, which is the name it was found under if accounts are
  kept under their own names. Afterwards the session that asked is still held, and, if it has a subject, no other session of that subject is held in this
  process.\<close>

theorem password_change_signs_out:
  fixes w :: "(MemoryUserStore, 'x) auth_world"
  assumes "la_Store l = memory_users X" and "run_state (ChangePasswordHandler l cookie (Some (cur, next))) w = ((200, None), w')"
  shows "\<exists>sid s0 w1 i w2 gs hs m1 m2 u h x key. cookie = Some sid \<and> run_state (auth_lookup l cookie) w = (Some (sid, s0), w1) \<and>
    run_state (FromCookie l cookie) w1 = (Some i, w2) \<and>
    others w2 = gs @ hs @ others w' \<and> m1 = writes gs (mem w2) \<and> m2 = writes hs m1 \<and>
    memory_table m1 (ToLowerText X (Subject i)) = Some u \<and> bc_matches (la_hashing l) (u_Hash u) cur \<and>
    10 \<le> length next \<and> next \<noteq> cur \<and> fst (bc_generate (la_hashing l) next x) = Inr h \<and>
    key = ToLowerText X (u_Username u) \<and> (keys_right X (memory_table m1) \<longrightarrow> key = ToLowerText X (Subject i)) \<and>
    mem w' = m2\<lparr>mu_users := AList.update key (stored_user (u\<lparr>u_Hash := h, u_MustChange := False\<rparr>) (memory_table m2 key)) (mu_users m2),
      mu_gen := mu_gen m2 + 1\<rparr> \<and>
    map_of (la_sessions (la w')) sid \<noteq> None \<and>
    (Subject i \<noteq> '''' \<longrightarrow> (\<forall>k s. map_of (la_sessions (la w')) k = Some s \<longrightarrow> session_of (la_texts l) (Subject i) s \<longrightarrow> k = sid))"
proof -
  obtain found w1 where look: "run_state (auth_lookup l cookie) w = (found, w1)" by force
  obtain caller w2 where who: "run_state (FromCookie l cookie) w1 = (caller, w2)" by force
  have "found \<noteq> None \<and> caller \<noteq> None"
    using assms(2) look who by (auto simp: ChangePasswordHandler_def split: option.splits)
  then obtain i sid s0 where both: "caller = Some i" "found = Some (sid, s0)" by auto
  obtain w3 n where change: "run_state (changePassword l (Subject i) cur next sid) w2 = (None, w3)"
    and ends: "run_state (endSessionsNow l (Subject i) sid WhyPassword) w3 = (n, w')"
    using assms(2) look who both by (auto simp: ChangePasswordHandler_def split: option.splits prod.splits if_splits)
  have c: "cookie = Some sid"
    using look both(2) by (auto simp: auth_lookup_def held_def live_session_def split: prod.splits option.splits if_splits)
  have "map_of (la_sessions (la w2)) sid \<noteq> None"
    using FromCookie_there who both(1) c by blast
  then have kept: "map_of (la_sessions (la w')) sid \<noteq> None"
    using keepsD [OF holds_on_changePassword change, of sid] keepsD [OF holds_on_end ends] by (simp add: holds_on_def)
  have only: "Subject i \<noteq> '''' \<longrightarrow> (\<forall>k s. map_of (la_sessions (la w')) k = Some s \<longrightarrow> session_of (la_texts l) (Subject i) s \<longrightarrow> k = sid)"
    using ended_now [OF ends] by blast
  from changePassword_made [OF assms(1) change] local_only(5) [OF ends] obtain gs hs m1 m2 u h x key where
    m: "others w2 = gs @ hs @ others w'" "m1 = writes gs (mem w2)" "m2 = writes hs m1"
      "memory_table m1 (ToLowerText X (Subject i)) = Some u" "bc_matches (la_hashing l) (u_Hash u) cur"
      "10 \<le> length next" "next \<noteq> cur" "fst (bc_generate (la_hashing l) next x) = Inr h" "key = ToLowerText X (u_Username u)"
      "mem w' = m2\<lparr>mu_users := AList.update key (stored_user (u\<lparr>u_Hash := h, u_MustChange := False\<rparr>) (memory_table m2 key)) (mu_users m2),
        mu_gen := mu_gen m2 + 1\<rparr>" by auto
  have "keys_right X (memory_table m1) \<longrightarrow> key = ToLowerText X (Subject i)"
    using m(4,9) by (auto simp: keys_right_def)
  with look who both c m kept only show ?thesis by blast
qed

definition bob_texts :: texts where
  "bob_texts = \<lparr>ToLowerText = id, EqualFoldText = (=), ParseAddress = (\<lambda>_. None), HasInvisible = (\<lambda>_. False)\<rparr>"

definition bob_auth :: "(MemoryUserStore, unit) LocalAuth" where
  "bob_auth = plain_auth\<lparr>la_Store := memory_users bob_texts, la_texts := bob_texts\<rparr>"

definition bob_session :: browserSession where
  "bob_session = new_session (la_hashing plain_auth) Hour (sample_user ''bob'' ''b@c''\<lparr>u_Hash := ''#old''\<rparr>) 3"

definition two_browsers :: "(MemoryUserStore, unit) auth_world" where
  "two_browsers = one_account\<lparr>mem := \<lparr>mu_users = [(''bob'', sample_user ''bob'' ''b@c''\<lparr>u_Hash := ''#old''\<rparr>)], mu_gen = 1\<rparr>,
     la := \<lparr>la_sessions = [(''here'', bob_session), (''there'', bob_session)], la_ended = [], la_told = []\<rparr>\<rparr>"

lemmas sign_in_defs = FromCookie_def auth_lookup_def auth_clock_def held_def lock_do_def locked_def live_session_def auth_current_def
  call_def outside_def others_step_def store_version_def trusts_def judge_read_def remade_def touch_def

lemma bob_changes:
  "fst (run_state (ChangePasswordHandler bob_auth (Some ''here'') (Some (''old'', ''0123456789''))) two_browsers) = (200, None)"
  by (simp add: ChangePasswordHandler_def sign_in_defs changePassword_def Authenticate_def endSessionsNow_def generate_def two_browsers_def
      bob_auth_def plain_auth_def bob_texts_def one_account_def memory_users_def MemoryUserStore_Get_def MemoryUserStore_Version_def
      get_user_def sample_user_def bob_session_def new_session_def user_identity_def Let_def MemoryUserStore_Put_def
      split: prod.split)

theorem password_change_signs_out_witness:
  "\<exists>w'. run_state (ChangePasswordHandler bob_auth (Some ''here'') (Some (''old'', ''0123456789''))) two_browsers = ((200, None), w') \<and>
     (\<exists>(u :: User). map_option u_Hash (memory_table (mem w') (ToLowerText bob_texts (u_Username u))) = Some ''#0123456789'')"
proof -
  obtain w' where w': "run_state (ChangePasswordHandler bob_auth (Some ''here'') (Some (''old'', ''0123456789''))) two_browsers = ((200, None), w')"
    using bob_changes by (metis prod.collapse)
  have S: "la_Store bob_auth = memory_users bob_texts" by (simp add: bob_auth_def)
  have H: "fst (bc_generate (la_hashing bob_auth) ''0123456789'' x) = Inr ''#0123456789''" for x by (simp add: bob_auth_def plain_auth_def)
  from password_change_signs_out [OF S w'] obtain u :: User and h x m2 key
    where "fst (bc_generate (la_hashing bob_auth) ''0123456789'' x) = Inr h" "key = ToLowerText bob_texts (u_Username u)"
      "mem w' = m2\<lparr>mu_users := AList.update key (stored_user (u\<lparr>u_Hash := h, u_MustChange := False\<rparr>) (memory_table m2 key)) (mu_users m2),
        mu_gen := mu_gen m2 + 1\<rparr>" by blast
  then have "map_option u_Hash (memory_table (mem w') (ToLowerText bob_texts (u_Username u))) = Some ''#0123456789''"
    using H by (auto simp: memory_table_def stored_user_def split: option.splits)
  then show ?thesis using w' by blast
qed

section \<open>A password lost\<close>

text \<open>
  A change of groups reads the account and writes it back, and holds no lock a change of password holds: a password that was changed in
  between is the old one again.
\<close>

lemma groups_write_restores_password:
  assumes "la_Store l = memory_users X" "memory_table (mem w) (ToLowerText X name) = Some u" "ToLowerText X (u_Username u) = ToLowerText X name"
    "others w = [id, \<lambda>m. snd (MemoryUserStore_Put X (u\<lparr>u_Hash := new\<rparr>) m)]" "run_state (SetGroups l name grp member) w = (r, w')"
  shows "r = None \<and> map_option u_Hash (memory_table (mem w') (ToLowerText X name)) = Some (u_Hash u)"
  using assms
  by (auto simp: SetGroups_def call_def others_step_def memory_users_def MemoryUserStore_Get_def get_user_def memory_table_def
      MemoryUserStore_Put_def mu_write_def put_user_table stored_user_def lock_do_def locked_def split: option.splits)

end
