(* ===== verification/KeyFile.thy ===== *)
theory KeyFile
  imports Labels
begin

text \<open>
  The file that holds the key command-line tokens are signed with, \<^verbatim>\<open>auth/clitoken.go\<close>: \<open>loadKey\<close> reads it, or makes it when
  there is none. The file system answers with what stands at the path and with the errors of its calls; the 32 random bytes, whose draw
  may fail, are an argument. The lemmas show that the key that was made is the key that is read.
\<close>

section \<open>The file\<close>

record key_file =
  kf_link :: bool
  kf_regular :: bool
  kf_perm :: nat
  kf_text :: string

text \<open>A write that fails leaves what it had written.\<close>

record key_disk =
  kd_file :: "key_file option"
  kd_lstat_error :: "gerror option"
  kd_mkdir_error :: "gerror option"
  kd_open_error :: "gerror option"
  kd_write_error :: "(gerror \<times> string) option"
  kd_read_error :: "gerror option"
  kd_windows :: bool

section \<open>Hexadecimal\<close>

definition hex_nibble :: "char \<Rightarrow> nat option" where
  "hex_nibble c = (let b = byte_val c in
     if is_digit c then Some (b - 48)
     else if 97 \<le> b \<and> b \<le> 102 then Some (b - 87)
     else if 65 \<le> b \<and> b \<le> 70 then Some (b - 55) else None)"

fun hex_DecodeString :: "string \<Rightarrow> string option" where
  "hex_DecodeString [] = Some []"
| "hex_DecodeString [_] = None"
| "hex_DecodeString (a # b # cs) = (case (hex_nibble a, hex_nibble b, hex_DecodeString cs) of
     (Some x, Some y, Some bs) \<Rightarrow> Some (char_of (16 * x + y) # bs)
   | _ \<Rightarrow> None)"

section \<open>Reading and making it\<close>

definition new_key :: "gerror + string \<Rightarrow> key_disk \<Rightarrow> (gerror + string) \<times> key_disk" where
  "new_key random k = (case kd_mkdir_error k of
       Some e \<Rightarrow> (Inl e, k)
     | None \<Rightarrow> (case random of
         Inl e \<Rightarrow> (Inl e, k)
       | Inr b \<Rightarrow> (case kd_open_error k of
           Some e \<Rightarrow> (Inl (Errorf [e] ''create the command-line token key''), k)
         | None \<Rightarrow>
             let put = (\<lambda>s. k\<lparr>kd_file := Some \<lparr>kf_link = False, kf_regular = True, kf_perm = 384, kf_text = s\<rparr>\<rparr>)
             in (case kd_write_error k of
                 Some (e, s) \<Rightarrow> (Inl e, put s)
               | None \<Rightarrow> (Inr b, put (hex_encode b @ [CHR 0x0A]))))))"

definition read_key :: "key_file \<Rightarrow> key_disk \<Rightarrow> gerror + string" where
  "read_key f k =
     (if kf_link f \<or> \<not> kf_regular f then Inl (Errorf [] ''the command-line token key must be a regular file, not a link'')
      else if \<not> kd_windows k \<and> kf_perm f mod 64 \<noteq> 0 then Inl (Errorf [] ''the command-line token key is readable by other users'')
      else case kd_read_error k of
          Some e \<Rightarrow> Inl e
        | None \<Rightarrow> (case hex_DecodeString (TrimSpace (kf_text f)) of
            None \<Rightarrow> Inl (Errorf [] ''the command-line token key is not 32 or more hex-encoded bytes'')
          | Some key \<Rightarrow>
              if length key < 32 then Inl (Errorf [] ''the command-line token key is not 32 or more hex-encoded bytes'') else Inr key))"

definition loadKey :: "string \<Rightarrow> gerror + string \<Rightarrow> key_disk \<Rightarrow> (gerror + string) \<times> key_disk" where
  "loadKey path random k =
     (if path = '''' then (Inl (Errorf [] ''no key file for command-line tokens''), k)
      else case kd_lstat_error k of
          Some e \<Rightarrow> (Inl e, k)
        | None \<Rightarrow> (case kd_file k of None \<Rightarrow> new_key random k | Some f \<Rightarrow> (read_key f k, k)))"

section \<open>What is read\<close>

lemma hex_nibble_digit: "n < 16 \<Longrightarrow> hex_nibble (hex_digit n) = Some n"
  by (auto simp: hex_nibble_def hex_digit_def is_digit_def byte_val_def Let_def)

lemma hex_decode_encode: "hex_DecodeString (hex_encode bs) = Some bs"
proof (induction bs)
  case (Cons b bs)
  have "byte_val b div 16 < 16" by (rule less_mult_imp_div_less) simp
  then show ?case using Cons by (simp add: hex_encode_Cons hex_nibble_digit) (simp add: byte_val_def)
qed (simp add: hex_encode_def)

text \<open>A text and the newline a writer put after it.\<close>

lemma TrimSpace_line:
  assumes "s \<noteq> []" "is_print (hd s)" "is_print (last s)"
  shows "TrimSpace (s @ [CHR 0x0A]) = s"
proof -
  let ?t = "rev s"
  have "TrimLeftSpace (s @ [CHR 0x0A]) = s @ [CHR 0x0A]" by (rule TrimLeftSpace_id) (use assms in auto)
  moreover have "find (\<lambda>q. q \<noteq> [] \<and> HasPrefix (CHR 0x0A # ?t) q) (map rev space_seqs) = Some [CHR 0x0A]"
    by (simp add: space_seqs_def HasPrefix_def)
  then have "trim_seqs (map rev space_seqs) (CHR 0x0A # ?t) = trim_seqs (map rev space_seqs) ?t" by (subst trim_seqs.simps) simp
  moreover have "rev (trim_seqs (map rev space_seqs) ?t) = s" using TrimRightSpace_id [of s] assms(3) by (simp add: TrimRightSpace_def)
  ultimately show ?thesis by (simp add: TrimSpace_def TrimRightSpace_def)
qed

lemma is_hex_print: "is_hex c \<Longrightarrow> is_print c"
  by (auto simp: is_hex_def is_print_def is_digit_def)

text \<open>The key a server makes is the one every later start reads, as long as the file stays as it was made.\<close>

lemma key_comes_back:
  assumes "loadKey path random k = (Inr b, k')" "kd_file k = None" "\<And>s. random = Inr s \<Longrightarrow> length s = 32" "kd_read_error k = None"
  shows "loadKey path random' k' = (Inr b, k')"
proof -
  have b: "random = Inr b" "kd_lstat_error k = None" "path \<noteq> ''''"
    "k' = k\<lparr>kd_file := Some \<lparr>kf_link = False, kf_regular = True, kf_perm = 384, kf_text = hex_encode b @ [CHR 0x0A]\<rparr>\<rparr>"
    using assms(1,2) by (auto simp: loadKey_def new_key_def Let_def split: option.splits sum.splits if_splits)
  have n: "length b = 32" by (rule assms(3)) (rule b(1))
  then have "hex_encode b \<noteq> []" by (metis length_hex_encode list.size(3) mult_eq_0_iff zero_neq_numeral)
  then have "TrimSpace (hex_encode b @ [CHR 0x0A]) = hex_encode b"
    using hex_encode_hex [of b] by (intro TrimSpace_line) (auto simp: list_all_iff is_hex_print)
  then show ?thesis using n b(2-4) assms(4) by (simp add: loadKey_def read_key_def hex_decode_encode)
qed

text \<open>A key that is read was under the eyes of its owner alone, and has at least 32 bytes.\<close>

lemma key_is_private:
  assumes "loadKey path random k = (Inr b, k')" "kd_file k = Some f"
  shows "k' = k \<and> \<not> kf_link f \<and> kf_regular f \<and> (kd_windows k \<or> kf_perm f mod 64 = 0) \<and> 32 \<le> length b"
  using assms by (auto simp: loadKey_def read_key_def split: option.splits if_splits)

end
