(* ===== verification/CliTokens.thy ===== *)
theory CliTokens
  imports AccountChanges KeyFile
begin

text \<open>
  The bearer tokens the command line holds for a local account, \<^verbatim>\<open>auth/clitoken.go\<close>: issuing, verifying and ending one, the
  file of ended tokens the servers share, and the chain of verifiers. HMAC, base64 and JSON are functions of \<open>token_lib\<close>.
  The world is that of
  theory \<open>SignIn\<close> with the tokens of the process and the file of ended ones, to which other servers may write before each access
  that no lock guards. The file is told by its mark, which stands for its identity, modification time and size.
\<close>

section \<open>Tokens\<close>

definition CLITokenPrefix :: string where "CLITokenPrefix = ''abhcli_''"

record cliClaims =
  cli_V :: int
  cli_ID :: string
  cli_Sub :: string
  cli_Rev :: int
  cli_PW :: string
  cli_Issued :: int
  cli_Expires :: int

definition ErrNotCLIToken :: gerror where "ErrNotCLIToken = Sentinel (OtherError ''not a command-line token'')"
definition ErrCLITokenBad :: gerror where "ErrCLITokenBad = Sentinel (OtherError ''the token is not valid here; run abhed login again'')"
definition ErrCLITokenExpiry :: gerror where "ErrCLITokenExpiry = Sentinel (OtherError ''the token has expired; run abhed login again'')"
definition ErrCLITokenEnded :: gerror where "ErrCLITokenEnded = Sentinel (OtherError ''the token was signed out; run abhed login again'')"
definition ErrTokenNotMine :: gerror where "ErrTokenNotMine = Sentinel (OtherError ''token not recognised by this verifier'')"

record token_lib =
  tl_mac :: "string \<Rightarrow> string \<Rightarrow> string"
  tl_encode :: "string \<Rightarrow> string"
  tl_decode :: "string \<Rightarrow> string option"
  tl_Marshal :: "cliClaims \<Rightarrow> string"
  tl_Unmarshal :: "string \<Rightarrow> cliClaims option"

record ('m, 'x) cli_config =
  cc_Local :: "('m, 'x) LocalAuth"
  cc_TTL :: duration
  cc_key :: string
  cc_lib :: token_lib

definition cli_sign :: "('m, 'x) cli_config \<Rightarrow> string \<Rightarrow> string" where
  "cli_sign c payload = tl_encode (cc_lib c) (tl_mac (cc_lib c) (cc_key c) (''abhed-cli-token-v1'' @ [char_of (0 :: nat)] @ payload))"

text \<open>The checks of \<open>parse\<close> but for the expiry.\<close>

definition signed_claims :: "('m, 'x) cli_config \<Rightarrow> string \<Rightarrow> gerror + cliClaims" where
  "signed_claims c token =
     (if \<not> HasPrefix token CLITokenPrefix then Inl ErrNotCLIToken
      else case Cut (TrimPrefix token CLITokenPrefix) ''.'' of
          None \<Rightarrow> Inl ErrCLITokenBad
        | Some (payload, sig) \<Rightarrow>
            if length token > 2048 \<or> sig \<noteq> cli_sign c payload then Inl ErrCLITokenBad
            else case Option.bind (tl_decode (cc_lib c) payload) (tl_Unmarshal (cc_lib c)) of
                None \<Rightarrow> Inl ErrCLITokenBad
              | Some cl \<Rightarrow> if cli_V cl \<noteq> 1 \<or> cli_Sub cl = '''' \<or> cli_ID cl = '''' then Inl ErrCLITokenBad else Inr cl)"

definition parse_at :: "('m, 'x) cli_config \<Rightarrow> string \<Rightarrow> time \<Rightarrow> gerror + cliClaims" where
  "parse_at c token now = (case signed_claims c token of
       Inl e \<Rightarrow> Inl e
     | Inr cl \<Rightarrow> if time_Unix now \<ge> cli_Expires cl then Inl ErrCLITokenExpiry else Inr cl)"

section \<open>The file of ended tokens\<close>

type_synonym ended_ids = "(string, int) gomap"

record ended_file =
  ef_mark :: string
  ef_ids :: "ended_ids option"

record ended_disk =
  ed_file :: "ended_file option"
  ed_stat_error :: "gerror option"
  ed_read_error :: "gerror option"
  ed_lock_error :: "gerror option"
  ed_save_error :: "gerror option"
  ed_marks :: "string list"

record CLITokens =
  ct_revoked :: ended_ids
  ct_seen :: "string option"

text \<open>\<open>refreshRevoked\<close>: \<open>d\<close> is the disk when the file was asked for, \<open>d'\<close> when it was read.\<close>

definition refreshRevoked :: "ended_disk \<Rightarrow> ended_disk \<Rightarrow> CLITokens \<Rightarrow> gerror option \<times> CLITokens" where
  "refreshRevoked d d' t = (case ed_stat_error d of
       Some e \<Rightarrow> (Some e, t)
     | None \<Rightarrow>
         (case ed_file d of
            None \<Rightarrow> (None, if ct_seen t \<noteq> None then \<lparr>ct_revoked = [], ct_seen = None\<rparr> else t)
          | Some f \<Rightarrow>
              if ct_seen t = Some (ef_mark f) then (None, t)
              else case (case ed_file d' of None \<Rightarrow> Some (Errorf [] ''no such file'') | Some _ \<Rightarrow> ed_read_error d') of
                  Some e \<Rightarrow> (Some e, t)
                | None \<Rightarrow> (case Option.bind (ed_file d') ef_ids of
                      None \<Rightarrow> (Some (Errorf [] ''the file of ended tokens does not parse''), t)
                    | Some ids \<Rightarrow> (None, \<lparr>ct_revoked = ids, ct_seen = Some (ef_mark f)\<rparr>))))"

definition saveRevoked :: "ended_disk \<Rightarrow> CLITokens \<Rightarrow> gerror option \<times> ended_disk \<times> CLITokens" where
  "saveRevoked d t = (case ed_save_error d of
       Some e \<Rightarrow> (Some e, d, t)
     | None \<Rightarrow>
         let m = hd (ed_marks d); d' = d\<lparr>ed_file := Some \<lparr>ef_mark = m, ef_ids = Some (ct_revoked t)\<rparr>, ed_marks := tl (ed_marks d)\<rparr>
         in (None, d', if ed_stat_error d = None then t\<lparr>ct_seen := Some m\<rparr> else t))"

text \<open>The ids whose tokens have expired are dropped, the one to end is added.\<close>

definition with_ended :: "cliClaims \<Rightarrow> int \<Rightarrow> ended_ids \<Rightarrow> ended_ids" where
  "with_ended cl now ids = AList.update (cli_ID cl) (cli_Expires cl) (filter (\<lambda>(_, exp). \<not> exp \<le> now) ids)"

text \<open>
  What \<open>Revoke\<close> does under its locks once the token is known to be one of this server's: the file is read afresh, and written.\<close>

definition revoke_locked :: "ended_disk \<Rightarrow> int \<Rightarrow> cliClaims \<Rightarrow> CLITokens \<Rightarrow> gerror option \<times> ended_disk \<times> CLITokens" where
  "revoke_locked d now cl t = (case refreshRevoked d d (t\<lparr>ct_seen := None\<rparr>) of
       (Some e, t1) \<Rightarrow> (Some e, d, t1)
     | (None, t1) \<Rightarrow> saveRevoked d (t1\<lparr>ct_revoked := with_ended cl now (ct_revoked t1)\<rparr>))"

section \<open>The world\<close>

record ('m, 'x) token_world = "('m, 'x) auth_world" +
  tk :: CLITokens
  ended_at :: ended_disk
  ended_others :: "(ended_disk \<Rightarrow> ended_disk) list"

definition disk_now :: "('m, 'x) token_world \<Rightarrow> ended_disk" where
  "disk_now w = (case ended_others w of [] \<Rightarrow> ended_at w | g # gs \<Rightarrow> g (ended_at w))"

definition look_disk :: "(('m, 'x) token_world, ended_disk) state" where
  "look_disk = State (\<lambda>w. (disk_now w, w\<lparr>ended_at := disk_now w, ended_others := tl (ended_others w)\<rparr>))"

definition with_tokens :: "(ended_disk \<Rightarrow> CLITokens \<Rightarrow> 'a \<times> ended_disk \<times> CLITokens) \<Rightarrow> (('m, 'x) token_world, 'a) state" where
  "with_tokens f = State (\<lambda>w. case f (ended_at w) (tk w) of (a, d, t) \<Rightarrow> (a, w\<lparr>ended_at := d, tk := t\<rparr>))"

definition token_clock :: "('m, 'x) cli_config \<Rightarrow> (('m, 'x) token_world, time) state" where
  "token_clock c = outside (la_clock (cc_Local c))"

definition cli_parse :: "('m, 'x) cli_config \<Rightarrow> string \<Rightarrow> (('m, 'x) token_world, gerror + cliClaims) state" where
  "cli_parse c token = (case signed_claims c token of
       Inl e \<Rightarrow> ret (Inl e)
     | Inr _ \<Rightarrow> do { now \<leftarrow> token_clock c; ret (parse_at c token now) })"

section \<open>Opening\<close>

definition default_cli_ttl :: duration where "default_cli_ttl = 7 * 24 * Hour"

definition OpenCLITokens :: "('m, 'x) LocalAuth option \<Rightarrow> (gerror + string) \<Rightarrow> duration \<Rightarrow> token_lib \<Rightarrow>
    (('m, 'x) token_world, gerror + ('m, 'x) cli_config) state" where
  "OpenCLITokens l loaded ttl L = (case l of
       None \<Rightarrow> ret (Inl (Errorf [] ''command-line sign-in needs local accounts''))
     | Some a \<Rightarrow> (case loaded of
         Inl e \<Rightarrow> ret (Inl e)
       | Inr key \<Rightarrow> do {
           d \<leftarrow> look_disk;
           d' \<leftarrow> look_disk;
           rerr \<leftarrow> with_tokens (\<lambda>now _. case refreshRevoked d d' \<lparr>ct_revoked = [], ct_seen = None\<rparr> of (e, t) \<Rightarrow> (e, now, t));
           ret (case rerr of
               Some e \<Rightarrow> Inl e
             | None \<Rightarrow> Inr \<lparr>cc_Local = a, cc_TTL = (if ttl \<le> 0 then default_cli_ttl else ttl), cc_key = key, cc_lib = L\<rparr>)
         }))"

section \<open>Issuing\<close>

definition admitted :: "('m, 'x) cli_config \<Rightarrow> User \<Rightarrow> (('m, 'x) token_world, gerror option) state" where
  "admitted c u = (case la_Admit (cc_Local c) of None \<Rightarrow> ret None | Some f \<Rightarrow> outside (f u))"

definition issued_claims :: "('m, 'x) cli_config \<Rightarrow> User \<Rightarrow> string \<Rightarrow> time \<Rightarrow> cliClaims" where
  "issued_claims c u tid now =
     \<lparr>cli_V = 1, cli_ID = take 22 tid, cli_Sub = u_Username u, cli_Rev = u_Revocations u, cli_PW = passwordStamp (la_hashing (cc_Local c)) (u_Hash u),
      cli_Issued = time_Unix now, cli_Expires = time_Unix (now + cc_TTL c)\<rparr>"

definition cli_token :: "('m, 'x) cli_config \<Rightarrow> cliClaims \<Rightarrow> string" where
  "cli_token c cl = (let payload = tl_encode (cc_lib c) (tl_Marshal (cc_lib c) cl) in CLITokenPrefix @ payload @ ''.'' @ cli_sign c payload)"

definition CLITokens_Issue :: "('m, 'x) cli_config \<Rightarrow> string \<Rightarrow> (('m, 'x) token_world, gerror + string \<times> time) state" where
  "CLITokens_Issue c username = do {
     got \<leftarrow> call (\<lambda>m. (us_Get (la_Store (cc_Local c)) username m, m));
     (case got of
        Inl e \<Rightarrow> ret (Inl e)
      | Inr u \<Rightarrow>
          if u_MustChange u then ret (Inl (Errorf [] ''this account's password was set for it; change it in the browser first''))
          else do {
            refused \<leftarrow> admitted c u;
            (case refused of
               Some e \<Rightarrow> ret (Inl e)
             | None \<Rightarrow>
                 if passwordStamp (la_hashing (cc_Local c)) (u_Hash u) = ''''
                 then ret (Inl (Errorf [] ''this account has no password, so no token can be bound to it''))
                 else do {
                   now \<leftarrow> token_clock c;
                   tid \<leftarrow> outside (la_random (cc_Local c));
                   ret (Inr (cli_token c (issued_claims c u tid now), now + cc_TTL c))
                 })
          })
   }"

section \<open>Verifying\<close>

text \<open>What is answered once the claims are known not to be ended: the account as it stands.\<close>

definition cli_identity :: "User \<Rightarrow> cliClaims \<Rightarrow> Identity" where
  "cli_identity u cl = user_identity u (cli_Issued cl) (cli_Expires cl)"

definition verify_account :: "('m, 'x) cli_config \<Rightarrow> cliClaims \<Rightarrow> (('m, 'x) token_world, gerror + Identity) state" where
  "verify_account c cl = do {
     got \<leftarrow> call (\<lambda>m. (us_Get (la_Store (cc_Local c)) (cli_Sub cl) m, m));
     (case got of
        Inl e \<Rightarrow> ret (Inl (if errors_Is e no_such_user then ErrCLITokenEnded else ErrAccountUnchecked))
      | Inr u \<Rightarrow>
          if u_Revocations u > cli_Rev cl \<or> passwordStamp (la_hashing (cc_Local c)) (u_Hash u) \<noteq> cli_PW cl then ret (Inl ErrCLITokenEnded)
          else if u_MustChange u
          then ret (Inl (Errorf [] ''this account's password was reset; change it in the browser, then run abhed login again''))
          else do {
            refused \<leftarrow> admitted c u;
            ret (case refused of Some e \<Rightarrow> Inl e | None \<Rightarrow> Inr (cli_identity u cl))
          })
   }"

definition CLITokens_Verify :: "('m, 'x) cli_config \<Rightarrow> string \<Rightarrow> (('m, 'x) token_world, gerror + Identity) state" where
  "CLITokens_Verify c token = do {
     got \<leftarrow> cli_parse c token;
     (case got of
        Inl e \<Rightarrow> ret (Inl e)
      | Inr cl \<Rightarrow> do {
          d \<leftarrow> look_disk;
          d' \<leftarrow> look_disk;
          rerr \<leftarrow> with_tokens (\<lambda>now t. case refreshRevoked d d' t of (e, t') \<Rightarrow> (e, now, t'));
          ended \<leftarrow> with_tokens (\<lambda>now t. (map_of (ct_revoked t) (cli_ID cl) \<noteq> None, now, t));
          (if ended then ret (Inl ErrCLITokenEnded)
           else case rerr of
               Some _ \<Rightarrow> ret (Inl ErrAccountUnchecked)
             | None \<Rightarrow> verify_account c cl)
        })
   }"

section \<open>Ending\<close>

text \<open>All of it but the parse runs under the lock other servers take too, so the disk does not change in between.\<close>

definition CLITokens_Revoke :: "('m, 'x) cli_config \<Rightarrow> string \<Rightarrow> (('m, 'x) token_world, gerror option) state" where
  "CLITokens_Revoke c token = do {
     got \<leftarrow> cli_parse c token;
     (case got of
        Inl _ \<Rightarrow> ret None
      | Inr cl \<Rightarrow> do {
          d \<leftarrow> look_disk;
          (case ed_lock_error d of
             Some e \<Rightarrow> ret (Some e)
           | None \<Rightarrow> do {
               rerr \<leftarrow> with_tokens (\<lambda>now t. case refreshRevoked now now (t\<lparr>ct_seen := None\<rparr>) of (e, t') \<Rightarrow> (e, now, t'));
               (case rerr of
                  Some e \<Rightarrow> ret (Some e)
                | None \<Rightarrow> do {
                    now \<leftarrow> token_clock c;
                    with_tokens (\<lambda>d t. saveRevoked d (t\<lparr>ct_revoked := with_ended cl (time_Unix now) (ct_revoked t)\<rparr>))
                  })
             })
        })
   }"

section \<open>Chains of verifiers\<close>

text \<open>A verifier is a function of the token; whether it is the command line's says \<open>is_cli\<close>.\<close>

fun verify_chain :: "(string \<Rightarrow> gerror + Identity) list \<Rightarrow> string \<Rightarrow> gerror \<Rightarrow> gerror + Identity" where
  "verify_chain [] token err = Inl (Errorf [err] ''the bearer token was not recognised'')"
| "verify_chain (v # vs) token err = (case v token of
       Inl e \<Rightarrow> if errors_Is e (OtherError ''not a command-line token'') \<or> errors_Is e (OtherError ''token not recognised by this verifier'')
         then verify_chain vs token e else Inl e
     | Inr i \<Rightarrow> Inr i)"

definition Verifiers_Verify :: "(string \<Rightarrow> gerror + Identity) list \<Rightarrow> string \<Rightarrow> gerror + Identity" where
  "Verifiers_Verify vs token = verify_chain vs token ErrTokenNotMine"

datatype verifier = CLIVerifier "string \<Rightarrow> gerror + Identity" | OtherVerifier "string \<Rightarrow> gerror + Identity"

fun run_verifier :: "verifier \<Rightarrow> string \<Rightarrow> gerror + Identity" where
  "run_verifier (CLIVerifier f) = f"
| "run_verifier (OtherVerifier f) = f"

definition ChainVerifier :: "verifier option \<Rightarrow> verifier option \<Rightarrow> verifier option" where
  "ChainVerifier h0 a0 = (case (h0, a0) of
       (None, _) \<Rightarrow> a0
     | (_, None) \<Rightarrow> h0
     | (Some h, Some a) \<Rightarrow> Some (OtherVerifier (Verifiers_Verify
         (case a of CLIVerifier f \<Rightarrow> [f, run_verifier h] | OtherVerifier f \<Rightarrow> [run_verifier h, f]))))"

end
