(* ===== verification/CliTokenLaws.thy ===== *)
theory CliTokenLaws
  imports CliTokens Labels
begin

text \<open>
  What holds of command-line tokens: the claims of an issued token come back, no other token has claims, and a token that was signed
  out is refused by every server that shares the file of ended tokens, whatever the servers do at the same time.
\<close>

section \<open>Claims\<close>

text \<open>The payload of these claims decodes to them, and has no dot, as none of the URL alphabet of base64 has.\<close>

definition lib_right :: "token_lib \<Rightarrow> cliClaims \<Rightarrow> bool" where
  "lib_right L cl \<longleftrightarrow> (let p = tl_encode L (tl_Marshal L cl) in Option.bind (tl_decode L p) (tl_Unmarshal L) = Some cl \<and> CHR ''.'' \<notin> set p)"

text \<open>
  C20: A token that was issued reads back as the claims it was issued for, and only a text that carries this server's signature of its
  payload has claims at all.\<close>

theorem claims_come_back:
  assumes "lib_right (cc_lib c) cl"
  shows "(cli_V cl = 1 \<and> cli_Sub cl \<noteq> '''' \<and> cli_ID cl \<noteq> '''' \<and> length (cli_token c cl) \<le> 2048 \<longrightarrow> signed_claims c (cli_token c cl) = Inr cl) \<and>
    (signed_claims c token = Inr cl' \<longrightarrow> (\<exists>payload. token = CLITokenPrefix @ payload @ ''.'' @ cli_sign c payload \<and>
       Option.bind (tl_decode (cc_lib c) payload) (tl_Unmarshal (cc_lib c)) = Some cl'))"
proof (intro conjI impI)
  assume a: "cli_V cl = 1 \<and> cli_Sub cl \<noteq> '''' \<and> cli_ID cl \<noteq> '''' \<and> length (cli_token c cl) \<le> 2048"
  let ?p = "tl_encode (cc_lib c) (tl_Marshal (cc_lib c) cl)"
  have "Cut (?p @ ''.'' @ cli_sign c ?p) ''.'' = Some (?p, cli_sign c ?p)" using Cut_found [of "''.''" ?p "cli_sign c ?p"] assms
    by (auto simp: lib_right_def Let_def list_all_iff)
  then show "signed_claims c (cli_token c cl) = Inr cl"
    using a assms by (simp add: signed_claims_def cli_token_def Let_def HasPrefix_def TrimPrefix_def lib_right_def)
next
  have prefix: "HasPrefix token CLITokenPrefix \<Longrightarrow> token = CLITokenPrefix @ TrimPrefix token CLITokenPrefix"
    unfolding HasPrefix_def TrimPrefix_def by (metis append_take_drop_id)
  assume "signed_claims c token = Inr cl'"
  then show "\<exists>payload. token = CLITokenPrefix @ payload @ ''.'' @ cli_sign c payload \<and>
      Option.bind (tl_decode (cc_lib c) payload) (tl_Unmarshal (cc_lib c)) = Some cl'"
    using prefix Cut_Some by (fastforce simp: signed_claims_def split: if_splits option.splits prod.splits)
qed

section \<open>Servers that share the file\<close>

text \<open>
  A verification has asked for the file and is about to read it: its claims, the disk it asked, and whether its token had been ended by then.
\<close>

record farm =
  fm_disk :: ended_disk
  fm_tokens :: "nat \<Rightarrow> CLITokens"
  fm_verifying :: "nat \<Rightarrow> (cliClaims \<times> ended_disk \<times> bool) option"
  fm_now :: int
  fm_ended :: "cliClaims set"
  fm_written :: "string \<Rightarrow> cliClaims set option"

text \<open>
  A server verifies (\<open>asks\<close>, then \<open>reads\<close>, with steps of others in between), ends a token in one step, because it holds its own lock and
  that of the file (\<open>revokes\<close>, \<open>fails\<close>), or starts anew. The disk fails and heals at will. The servers share a clock, in seconds.
  \<open>fm_written\<close> keeps, for each mark a file ever had, the tokens that were ended when it was written; a write gives the file a new mark.
  Two claims of one id are one token.
\<close>

inductive farm_step :: "farm \<Rightarrow> farm \<Rightarrow> bool" where
  time_passes: "fm_now s \<le> now \<Longrightarrow> farm_step s (s\<lparr>fm_now := now\<rparr>)"
| disk_turns: "ed_file d = ed_file (fm_disk s) \<Longrightarrow> farm_step s (s\<lparr>fm_disk := d\<rparr>)"
| asks: "fm_verifying s n = None \<Longrightarrow>
    farm_step s (s\<lparr>fm_verifying := (fm_verifying s)(n := Some (cl, fm_disk s, cl \<in> fm_ended s))\<rparr>)"
| reads: "fm_verifying s n = Some (cl, d, b) \<Longrightarrow> refreshRevoked d (fm_disk s) (fm_tokens s n) = (e, t) \<Longrightarrow>
    farm_step s (s\<lparr>fm_tokens := (fm_tokens s)(n := t), fm_verifying := (fm_verifying s)(n := None)\<rparr>)"
| revokes: "fm_verifying s n = None \<Longrightarrow> revoke_locked (fm_disk s) (fm_now s) cl (fm_tokens s n) = (None, d, t) \<Longrightarrow>
    ed_file d = Some f \<Longrightarrow> fm_written s (ef_mark f) = None \<Longrightarrow> \<forall>cl' \<in> fm_ended s. cli_ID cl' = cli_ID cl \<longrightarrow> cl' = cl \<Longrightarrow>
    farm_step s (s\<lparr>fm_disk := d, fm_tokens := (fm_tokens s)(n := t), fm_ended := insert cl (fm_ended s),
      fm_written := (fm_written s)(ef_mark f \<mapsto> insert cl (fm_ended s))\<rparr>)"
| fails: "fm_verifying s n = None \<Longrightarrow> revoke_locked (fm_disk s) (fm_now s) cl (fm_tokens s n) = (Some e, d, t) \<Longrightarrow>
    farm_step s (s\<lparr>fm_disk := d, fm_tokens := (fm_tokens s)(n := t)\<rparr>)"
| restarts: "farm_step s (s\<lparr>fm_tokens := (fm_tokens s)(n := \<lparr>ct_revoked = [], ct_seen = None\<rparr>), fm_verifying := (fm_verifying s)(n := None)\<rparr>)"

definition fresh_farm :: "ended_disk \<Rightarrow> int \<Rightarrow> farm" where
  "fresh_farm d now = \<lparr>fm_disk = d, fm_tokens = (\<lambda>_. \<lparr>ct_revoked = [], ct_seen = None\<rparr>), fm_verifying = (\<lambda>_. None), fm_now = now, fm_ended = {},
     fm_written = (case ed_file d of None \<Rightarrow> Map.empty | Some f \<Rightarrow> [ef_mark f \<mapsto> {}])\<rparr>"

inductive farm_reach :: "farm \<Rightarrow> bool" where
  opens: "case Option.bind (ed_file d) ef_ids of None \<Rightarrow> True | Some ids \<Rightarrow> wf_map ids \<Longrightarrow> farm_reach (fresh_farm d now)"
| goes: "farm_reach s \<Longrightarrow> farm_step s s' \<Longrightarrow> farm_reach s'"

section \<open>The invariant\<close>

definition holds_ended :: "int \<Rightarrow> cliClaims set \<Rightarrow> ended_ids \<Rightarrow> bool" where
  "holds_ended now C ids \<longleftrightarrow> (\<forall>cl \<in> C. now < cli_Expires cl \<longrightarrow> map_of ids (cli_ID cl) = Some (cli_Expires cl))"

definition knows_ended :: "int \<Rightarrow> cliClaims set \<Rightarrow> ended_ids \<Rightarrow> bool" where
  "knows_ended now C ids \<longleftrightarrow> (\<forall>cl \<in> C. now < cli_Expires cl \<longrightarrow> map_of ids (cli_ID cl) \<noteq> None)"

definition file_inv :: "farm \<Rightarrow> bool" where
  "file_inv s \<longleftrightarrow> (case ed_file (fm_disk s) of
       None \<Rightarrow> fm_ended s = {}
     | Some f \<Rightarrow> fm_written s (ef_mark f) = Some (fm_ended s) \<and>
         (case ef_ids f of None \<Rightarrow> fm_ended s = {} | Some ids \<Rightarrow> wf_map ids \<and> holds_ended (fm_now s) (fm_ended s) ids))"

definition tokens_inv :: "farm \<Rightarrow> CLITokens \<Rightarrow> bool" where
  "tokens_inv s t \<longleftrightarrow> wf_map (ct_revoked t) \<and> (case ct_seen t of None \<Rightarrow> True
     | Some m \<Rightarrow> (\<exists>C. fm_written s m = Some C \<and> knows_ended (fm_now s) C (ct_revoked t)))"

definition verifying_inv :: "farm \<Rightarrow> cliClaims \<times> ended_disk \<times> bool \<Rightarrow> bool" where
  "verifying_inv s p \<longleftrightarrow> (case p of (cl, d, b) \<Rightarrow> (case ed_file d of None \<Rightarrow> \<not> b
     | Some f \<Rightarrow> (\<exists>C. fm_written s (ef_mark f) = Some C \<and> (b \<longrightarrow> cl \<in> C))))"

definition farm_inv :: "farm \<Rightarrow> bool" where
  "farm_inv s \<longleftrightarrow> file_inv s \<and> (\<forall>m C. fm_written s m = Some C \<longrightarrow> C \<subseteq> fm_ended s) \<and> (\<forall>n. tokens_inv s (fm_tokens s n)) \<and>
     (\<forall>n p. fm_verifying s n = Some p \<longrightarrow> verifying_inv s p)"

lemma holds_knows: "holds_ended now D ids \<Longrightarrow> C \<subseteq> D \<Longrightarrow> knows_ended now C ids"
  unfolding holds_ended_def knows_ended_def by fastforce

lemma knows_later: "knows_ended now C ids \<Longrightarrow> now \<le> now' \<Longrightarrow> knows_ended now' C ids"
  by (fastforce simp: knows_ended_def)

lemma holds_later: "holds_ended now C ids \<Longrightarrow> now \<le> now' \<Longrightarrow> holds_ended now' C ids"
  by (fastforce simp: holds_ended_def)

text \<open>A reading leaves the tokens of a server right, and with it the server knows of a token ended before.\<close>

lemma refresh_right:
  assumes inv: "farm_inv s" and t: "tokens_inv s t" and v: "verifying_inv s (cl, d, b)" and r: "refreshRevoked d (fm_disk s) t = (e, t')"
  shows "tokens_inv s t' \<and> (b \<longrightarrow> e = None \<longrightarrow> fm_now s < cli_Expires cl \<longrightarrow> map_of (ct_revoked t') (cli_ID cl) \<noteq> None)"
proof (cases "ed_file d")
  case None
  then have "\<not> b" using v by (simp add: verifying_inv_def)
  moreover have "t' = t \<or> t' = \<lparr>ct_revoked = [], ct_seen = None\<rparr>" using r None by (auto simp: refreshRevoked_def split: option.splits if_splits)
  ultimately show ?thesis using t by (auto simp: tokens_inv_def wf_map_Nil)
next
  case (Some f)
  obtain C where C: "fm_written s (ef_mark f) = Some C" "b \<longrightarrow> cl \<in> C" using v Some by (auto simp: verifying_inv_def)
  have sub: "C \<subseteq> fm_ended s" using inv C(1) unfolding farm_inv_def by blast
  show ?thesis
  proof (cases "e = None \<and> ct_seen t \<noteq> Some (ef_mark f)")
    case True
    then obtain g ids where g: "ed_file (fm_disk s) = Some g" "ef_ids g = Some ids" "t' = \<lparr>ct_revoked = ids, ct_seen = Some (ef_mark f)\<rparr>"
      using r Some by (auto simp: refreshRevoked_def split: option.splits if_splits bind_splits)
    then have "wf_map ids" "holds_ended (fm_now s) (fm_ended s) ids" using inv by (auto simp: farm_inv_def file_inv_def)
    then have "wf_map ids" "knows_ended (fm_now s) C ids" using holds_knows sub by blast+
    then show ?thesis using C g(3) by (auto simp: tokens_inv_def knows_ended_def)
  next
    case False
    then have "t' = t" "e = None \<longrightarrow> ct_seen t = Some (ef_mark f)"
      using r Some by (auto simp: refreshRevoked_def split: option.splits if_splits bind_splits)
    then show ?thesis using t C by (auto simp: tokens_inv_def knows_ended_def)
  qed
qed

lemma with_ended_map:
  assumes "wf_map ids"
  shows "wf_map (with_ended cl now ids)"
    "map_of (with_ended cl now ids) k = (if k = cli_ID cl then Some (cli_Expires cl)
       else (case map_of ids k of None \<Rightarrow> None | Some x \<Rightarrow> if x \<le> now then None else Some x))"
proof -
  let ?f = "filter (\<lambda>(_, x). \<not> x \<le> now) ids"
  have w: "wf_map ?f" using assms by simp
  then show "wf_map (with_ended cl now ids)" by (simp add: with_ended_def)
  define r where "r = (case map_of ids k of None \<Rightarrow> None | Some x \<Rightarrow> if x \<le> now then None else Some x)"
  have "map_of ?f k = Some x \<longleftrightarrow> r = Some x" for x
    using wf_map_get [OF w, of k x] wf_map_get [OF assms, of k x] by (auto simp: r_def split: option.splits)
  then have "map_of ?f k = r" by (metis option.exhaust)
  then show "map_of (with_ended cl now ids) k = (if k = cli_ID cl then Some (cli_Expires cl)
       else (case map_of ids k of None \<Rightarrow> None | Some x \<Rightarrow> if x \<le> now then None else Some x))"
    by (simp add: with_ended_def r_def)
qed

lemma ask_right: "file_inv s \<Longrightarrow> verifying_inv s (cl, fm_disk s, cl \<in> fm_ended s)" "file_inv s \<Longrightarrow> verifying_inv s (cl, fm_disk s, False)"
  by (auto simp: file_inv_def verifying_inv_def split: option.splits)

text \<open>The locked half reads the file afresh, so it knows all that is ended.\<close>

lemma refresh_holds:
  assumes "farm_inv s" "ct_seen t = None" "refreshRevoked (fm_disk s) (fm_disk s) t = (None, t')"
  shows "holds_ended (fm_now s) (fm_ended s) (ct_revoked t')"
  using assms
  by (auto simp: refreshRevoked_def farm_inv_def file_inv_def holds_ended_def split: option.splits if_splits bind_splits)

lemma revoke_right:
  assumes inv: "farm_inv s" and r: "revoke_locked (fm_disk s) (fm_now s) cl (fm_tokens s n) = (e, d, t)"
  shows "case e of Some _ \<Rightarrow> d = fm_disk s \<and> tokens_inv s t
    | None \<Rightarrow> \<exists>f ids. ed_file d = Some f \<and> ef_ids f = Some ids \<and> wf_map ids \<and> ct_revoked t = ids \<and>
        ((\<forall>cl' \<in> fm_ended s. cli_ID cl' = cli_ID cl \<longrightarrow> cl' = cl) \<longrightarrow> holds_ended (fm_now s) (insert cl (fm_ended s)) ids) \<and>
        (ct_seen t = Some (ef_mark f) \<or> tokens_inv s t)"
proof -
  let ?t = "(fm_tokens s n)\<lparr>ct_seen := None\<rparr>"
  obtain e1 t1 where r1: "refreshRevoked (fm_disk s) (fm_disk s) ?t = (e1, t1)" by force
  have "tokens_inv s ?t" using inv by (auto simp: farm_inv_def tokens_inv_def)
  then have t1: "tokens_inv s t1"
    using refresh_right [OF inv _ ask_right(2) r1, of cl] inv by (auto simp: farm_inv_def)
  show ?thesis
  proof (cases e1)
    case (Some x)
    then show ?thesis using r r1 t1 by (auto simp: revoke_locked_def)
  next
    case None
    have h: "holds_ended (fm_now s) (fm_ended s) (ct_revoked t1)" using refresh_holds [OF inv _ r1 [unfolded None]] by simp
    have w: "wf_map (ct_revoked t1)" using t1 by (simp add: tokens_inv_def)
    let ?ids = "with_ended cl (fm_now s) (ct_revoked t1)"
    note m = with_ended_map [OF w, of cl "fm_now s"]
    have "knows_ended (fm_now s) C ?ids" if "C \<subseteq> fm_ended s" for C
      using h that m(2) by (fastforce simp: knows_ended_def holds_ended_def)
    then have "tokens_inv s (t1\<lparr>ct_revoked := ?ids\<rparr>)"
      using t1 m(1) inv unfolding tokens_inv_def farm_inv_def by (auto split: option.splits)
    moreover have "holds_ended (fm_now s) (insert cl (fm_ended s)) ?ids" if "\<forall>cl' \<in> fm_ended s. cli_ID cl' = cli_ID cl \<longrightarrow> cl' = cl"
      using h that m(2) by (fastforce simp: holds_ended_def)
    ultimately show ?thesis
      using r r1 None m(1) by (auto simp: revoke_locked_def saveRevoked_def Let_def split: option.splits if_splits)
  qed
qed

text \<open>A token that is ended, or a mark that is written, takes nothing back.\<close>

lemma grown_inv:
  assumes "fm_written s m = None" "fm_now s' = fm_now s" "fm_written s' = (fm_written s)(m \<mapsto> C)"
  shows "tokens_inv s t \<Longrightarrow> tokens_inv s' t" "verifying_inv s p \<Longrightarrow> verifying_inv s' p"
  using assms by (auto simp: tokens_inv_def verifying_inv_def split: option.splits prod.splits)

lemma same_verifying: assumes "fm_written s' = fm_written s" shows "verifying_inv s' = verifying_inv s"
  unfolding verifying_inv_def assms by (rule refl)

lemma same_inv:
  assumes "fm_now s' = fm_now s" "fm_written s' = fm_written s"
  shows "tokens_inv s' = tokens_inv s" "verifying_inv s' = verifying_inv s"
  unfolding tokens_inv_def verifying_inv_def assms by (rule refl)+

lemma same_file:
  assumes "fm_now s' = fm_now s" "fm_written s' = fm_written s" "fm_ended s' = fm_ended s" "ed_file (fm_disk s') = ed_file (fm_disk s)"
  shows "file_inv s' = file_inv s"
  unfolding file_inv_def assms by (rule refl)

lemma farm_inv_step:
  assumes inv: "farm_inv s" and "farm_step s s'"
  shows "farm_inv s'"
  using assms(2)
proof cases
  case (time_passes now)
  have "tokens_inv s' t" if "tokens_inv s t" for t
    using that time_passes knows_later by (auto simp: tokens_inv_def split: option.splits)
  moreover have "file_inv s'" using inv time_passes holds_later by (auto simp: farm_inv_def file_inv_def split: option.splits)
  moreover have "verifying_inv s' = verifying_inv s" using time_passes by (intro same_verifying) simp
  ultimately show ?thesis using inv time_passes by (auto simp: farm_inv_def)
next
  case (disk_turns d)
  then have "file_inv s'" using inv same_file [of s' s] by (simp add: farm_inv_def)
  then show ?thesis using inv same_inv [of s' s] disk_turns by (auto simp: farm_inv_def)
next
  case (asks n cl)
  then have "file_inv s'" using inv same_file [of s' s] by (simp add: farm_inv_def)
  moreover have "verifying_inv s (cl, fm_disk s, cl \<in> fm_ended s)" using inv ask_right(1) by (simp add: farm_inv_def)
  ultimately show ?thesis using inv same_inv [of s' s] asks by (auto simp: farm_inv_def)
next
  case (reads n cl d b e t)
  then have "file_inv s'" using inv same_file [of s' s] by (simp add: farm_inv_def)
  moreover have "tokens_inv s (fm_tokens s n)" "verifying_inv s (cl, d, b)" using inv reads(2) by (simp_all add: farm_inv_def)
  then have "tokens_inv s t" using refresh_right [OF inv _ _ reads(3)] by blast
  ultimately show ?thesis using inv same_inv [of s' s] reads(1) by (auto simp: farm_inv_def)
next
  case (revokes n cl d t f)
  from revoke_right [OF inv revokes(3)] obtain ids where ids: "ef_ids f = Some ids" "wf_map ids" "ct_revoked t = ids"
    "holds_ended (fm_now s) (insert cl (fm_ended s)) ids" "ct_seen t = Some (ef_mark f) \<or> tokens_inv s t"
    using revokes(4,6) by auto
  have s': "fm_now s' = fm_now s" "fm_written s' = (fm_written s)(ef_mark f \<mapsto> insert cl (fm_ended s))" "fm_ended s' = insert cl (fm_ended s)"
    "fm_disk s' = d" "fm_tokens s' = (fm_tokens s)(n := t)" "fm_verifying s' = fm_verifying s"
    using revokes(1) by simp_all
  note g = grown_inv [OF revokes(5) s'(1,2)]
  have "file_inv s'" using revokes(4) ids s' by (simp add: file_inv_def)
  moreover have "C \<subseteq> fm_ended s'" if "fm_written s' m = Some C" for m C
    using that inv unfolding s' farm_inv_def by (auto split: if_splits)
  moreover have "tokens_inv s' (fm_tokens s' k)" for k
  proof -
    have "tokens_inv s' t"
      using ids(5)
    proof
      assume "ct_seen t = Some (ef_mark f)"
      then show ?thesis using ids(2-4) holds_knows [OF ids(4) subset_refl] s' by (simp add: tokens_inv_def)
    qed (rule g(1))
    then show ?thesis using g(1) inv unfolding s'(5) farm_inv_def by auto
  qed
  moreover have "verifying_inv s' p" if "fm_verifying s' k = Some p" for k p
    using that g(2) inv unfolding s'(6) farm_inv_def by blast
  ultimately show ?thesis by (simp add: farm_inv_def)
next
  case (fails n cl e d t)
  from revoke_right [OF inv fails(3)] have "d = fm_disk s" "tokens_inv s t" by auto
  then show ?thesis using inv same_inv [of s' s] same_file [of s' s] fails(1) by (auto simp: farm_inv_def)
next
  case (restarts n)
  have "tokens_inv s \<lparr>ct_revoked = [], ct_seen = None\<rparr>" by (simp add: tokens_inv_def wf_map_Nil)
  then show ?thesis using inv same_inv [of s' s] same_file [of s' s] restarts by (auto simp: farm_inv_def)
qed

lemma farm_inv_reach: "farm_reach s \<Longrightarrow> farm_inv s"
proof (induction rule: farm_reach.induct)
  case (opens d now)
  then show ?case
    by (auto simp: fresh_farm_def farm_inv_def file_inv_def tokens_inv_def holds_ended_def wf_map_Nil split: option.splits if_splits)
qed (rule farm_inv_step)

section \<open>Signing out one token\<close>

text \<open>A server that holds the locks does what the steps \<open>revokes\<close> and \<open>fails\<close> do.\<close>

lemma revoke_is_locked:
  assumes "signed_claims c token = Inr cl" "la_clock (cc_Local c) (ext w) = (now, x)" "time_Unix now < cli_Expires cl"
    "ed_lock_error (disk_now w) = None" "run_state (CLITokens_Revoke c token) w = (e, w')"
  shows "\<exists>now'. revoke_locked (disk_now w) now' cl (tk w) = (e, ended_at w', tk w')"
proof -
  obtain e1 t1 where r: "refreshRevoked (disk_now w) (disk_now w) (tk w\<lparr>ct_seen := None\<rparr>) = (e1, t1)" by force
  obtain now' x' where n: "la_clock (cc_Local c) x = (now', x')" by force
  have d: "disk_now (w\<lparr>ext := x\<rparr>) = disk_now w" by (simp add: disk_now_def split: list.split)
  have "revoke_locked (disk_now w) (time_Unix now') cl (tk w) = (e, ended_at w', tk w')"
    using assms r n d
    by (auto simp: CLITokens_Revoke_def cli_parse_def parse_at_def token_clock_def outside_def look_disk_def with_tokens_def revoke_locked_def
        split: option.splits prod.splits)
  then show ?thesis ..
qed

lemma verify_refused:
  assumes "signed_claims c token = Inr cl" "ended_others w = [\<lambda>_. d, \<lambda>_. d']" "refreshRevoked d d' (tk w) = (e, t)"
    "e \<noteq> None \<or> map_of (ct_revoked t) (cli_ID cl) \<noteq> None"
  shows "\<exists>err. fst (run_state (CLITokens_Verify c token) w) = Inl err"
proof -
  obtain now x where "la_clock (cc_Local c) (ext w) = (now, x)" by force
  then show ?thesis
    using assms by (auto simp: CLITokens_Verify_def cli_parse_def parse_at_def token_clock_def outside_def look_disk_def disk_now_def with_tokens_def
        split: option.splits)
qed

text \<open>
  C19: A token that was signed out is refused by every server that shares the file of ended tokens. Whatever the servers of a deployment
  do at once, and however their disk fails, a server that begins to verify a token after some server has recorded its end lets it in no more
  until the token would have expired: it finds it ended, or cannot read the file and refuses for that.\<close>

theorem signed_out_token_refused:
  assumes "farm_reach s" "fm_verifying s n = Some (cl, d, True)" "fm_now s < cli_Expires cl"
    "signed_claims c token = Inr cl" "tk w = fm_tokens s n" "ended_others w = [\<lambda>_. d, \<lambda>_. fm_disk s]"
  shows "\<exists>err. fst (run_state (CLITokens_Verify c token) w) = Inl err"
proof -
  have inv: "farm_inv s" by (rule farm_inv_reach [OF assms(1)])
  obtain e t where r: "refreshRevoked d (fm_disk s) (tk w) = (e, t)" by force
  have "tokens_inv s (tk w)" "verifying_inv s (cl, d, True)" using inv assms(2,5) by (auto simp: farm_inv_def)
  then have "e \<noteq> None \<or> map_of (ct_revoked t) (cli_ID cl) \<noteq> None" using refresh_right [OF inv _ _ r] assms(3) by blast
  then show ?thesis by (rule verify_refused [OF assms(4,6) r])
qed

section \<open>A farm of two servers\<close>

definition some_claims :: cliClaims where
  "some_claims = \<lparr>cli_V = 1, cli_ID = ''i'', cli_Sub = ''ann'', cli_Rev = 0, cli_PW = ''pw'', cli_Issued = 0, cli_Expires = 9\<rparr>"

definition plain_lib :: token_lib where
  "plain_lib = \<lparr>tl_mac = (\<lambda>k m. ''s''), tl_encode = id, tl_decode = Some, tl_Marshal = (\<lambda>_. ''p''), tl_Unmarshal = (\<lambda>_. Some some_claims)\<rparr>"

definition plain_cli :: "(MemoryUserStore, unit) cli_config" where
  "plain_cli = \<lparr>cc_Local = undefined, cc_TTL = Hour, cc_key = ''k'', cc_lib = plain_lib\<rparr>"

lemma some_token: "cli_token plain_cli some_claims = ''abhcli_p.s''" "lib_right (cc_lib plain_cli) some_claims"
  by (simp_all add: cli_token_def cli_sign_def plain_cli_def plain_lib_def CLITokenPrefix_def lib_right_def)

theorem claims_come_back_witness: "signed_claims plain_cli ''abhcli_p.s'' = Inr some_claims"
  using claims_come_back [OF some_token(2)] by (simp add: some_token(1)) (simp add: some_claims_def)

definition bare_disk :: ended_disk where
  "bare_disk = \<lparr>ed_file = None, ed_stat_error = None, ed_read_error = None, ed_lock_error = None, ed_save_error = None, ed_marks = [''m'']\<rparr>"

definition ended_disk_now :: ended_disk where
  "ended_disk_now = bare_disk\<lparr>ed_file := Some \<lparr>ef_mark = ''m'', ef_ids = Some [(''i'', 9)]\<rparr>, ed_marks := []\<rparr>"

definition two_servers :: farm where
  "two_servers = (let s = fresh_farm bare_disk 3
     in s\<lparr>fm_disk := ended_disk_now, fm_tokens := (fm_tokens s)(0 := \<lparr>ct_revoked = [(''i'', 9)], ct_seen = Some ''m''\<rparr>),
       fm_ended := {some_claims}, fm_written := [''m'' \<mapsto> {some_claims}]\<rparr>)"

lemma two_servers_reached: "farm_reach two_servers"
proof -
  let ?s = "fresh_farm bare_disk 3"
  have "farm_reach ?s" by (rule opens) (simp add: bare_disk_def)
  moreover have "farm_step ?s (?s\<lparr>fm_disk := ended_disk_now, fm_tokens := (fm_tokens ?s)(0 := \<lparr>ct_revoked = [(''i'', 9)], ct_seen = Some ''m''\<rparr>),
      fm_ended := insert some_claims (fm_ended ?s), fm_written := (fm_written ?s)(ef_mark \<lparr>ef_mark = ''m'', ef_ids = Some [(''i'', 9)]\<rparr> \<mapsto>
        insert some_claims (fm_ended ?s))\<rparr>)"
    by (rule revokes)
      (simp_all add: fresh_farm_def bare_disk_def ended_disk_now_def revoke_locked_def refreshRevoked_def saveRevoked_def with_ended_def some_claims_def Let_def)
  ultimately show ?thesis using goes by (simp add: two_servers_def Let_def fresh_farm_def bare_disk_def)
qed

theorem signed_out_token_refused_witness:
  "\<exists>w :: (MemoryUserStore, unit) token_world. tk w = \<lparr>ct_revoked = [], ct_seen = None\<rparr> \<and>
     (\<exists>err. fst (run_state (CLITokens_Verify plain_cli ''abhcli_p.s'') w) = Inl err)"
proof -
  let ?s = "two_servers\<lparr>fm_verifying := (fm_verifying two_servers)(1 := Some (some_claims, fm_disk two_servers, some_claims \<in> fm_ended two_servers))\<rparr>"
  have v: "fm_verifying two_servers 1 = None" "some_claims \<in> fm_ended two_servers"
    by (simp_all add: two_servers_def fresh_farm_def Let_def)
  have r: "farm_reach ?s" by (rule goes [OF two_servers_reached asks]) (rule v(1))
  obtain w :: "(MemoryUserStore, unit) token_world" where w: "tk w = fm_tokens ?s 1" "ended_others w = [\<lambda>_. fm_disk two_servers, \<lambda>_. fm_disk ?s]"
    by (metis token_world.select_convs(1,3))
  have c: "signed_claims plain_cli ''abhcli_p.s'' = Inr some_claims"
    by (simp add: signed_claims_def cli_sign_def plain_cli_def plain_lib_def CLITokenPrefix_def HasPrefix_def TrimPrefix_def Cut.simps some_claims_def)
  have "fm_verifying ?s 1 = Some (some_claims, fm_disk two_servers, True)" "fm_now ?s < cli_Expires some_claims"
    using v(2) by (simp_all add: two_servers_def fresh_farm_def Let_def some_claims_def)
  from signed_out_token_refused [OF r this c w]
  have "\<exists>err. fst (run_state (CLITokens_Verify plain_cli ''abhcli_p.s'') w) = Inl err" .
  moreover have "tk w = \<lparr>ct_revoked = [], ct_seen = None\<rparr>" using w(1) by (simp add: two_servers_def fresh_farm_def Let_def)
  ultimately show ?thesis by blast
qed

end
