(* ===== verification/Compaction.thy ===== *)
theory Compaction
  imports PolicyRules Errors
begin

text \<open>
  The compaction of a conversation, \<^verbatim>\<open>internal/agent/compact.go\<close>, over the messages and the token estimate of
  \<^verbatim>\<open>internal/model/model.go\<close>: where a history is split, the summary that takes the place of its older part, and the first
  message, which is carried over word for word. The model is the \<open>Adapter\<close>: how it counts and how it answers; hooks are functions.
  When to compact is decided with floating-point numbers and is left out. A text is its bytes.
\<close>

section \<open>Messages\<close>

datatype Role = RoleUser | RoleAssistant | RoleTool | OtherRole string

datatype BlockKind = BlockText | BlockImage | OtherBlock string

record ContentBlock =
  blk_Kind :: BlockKind
  blk_Text :: string
  blk_Data :: string
  blk_MediaType :: string

record ToolCall =
  tc_ID :: string
  tc_Name :: string
  tc_Args :: string

record Message =
  msg_Role :: Role
  msg_Content :: string
  msg_Blocks :: "ContentBlock list"
  msg_ToolCalls :: "ToolCall list"
  msg_ToolCallID :: string
  msg_IsError :: bool

record ToolDef =
  td_Name :: string
  td_Description :: string
  td_InputSchema :: string

text \<open>What a request of the compactor says; its other fields are those of an empty request.\<close>

record ModelRequest =
  mr_System :: string
  mr_Messages :: "Message list"
  mr_Tools :: "ToolDef list"
  mr_MaxTokens :: int

definition imageTokenEstimate :: nat where
  "imageTokenEstimate = 1600"

definition block_bytes :: "ContentBlock \<Rightarrow> nat" where
  "block_bytes b = (if blk_Kind b = BlockText then length (blk_Text b) else 0)"

definition message_bytes :: "Message \<Rightarrow> nat" where
  "message_bytes m =
     (if msg_Blocks m \<noteq> [] then sum_list (map block_bytes (msg_Blocks m)) + 16 else length (msg_Content m) + 16) +
     sum_list (map (\<lambda>tc. length (tc_Name tc) + length (tc_Args tc) + 16) (msg_ToolCalls m))"

definition message_images :: "Message \<Rightarrow> nat" where
  "message_images m = length (filter (\<lambda>b. blk_Kind b = BlockImage) (msg_Blocks m))"

definition estimateTokens :: "ModelRequest \<Rightarrow> nat" where
  "estimateTokens req =
     (let n = length (mr_System req) + sum_list (map message_bytes (mr_Messages req)) +
        sum_list (map (\<lambda>t. length (td_Name t) + length (td_Description t) + length (td_InputSchema t)) (mr_Tools req))
      in n * 10 div 36 + sum_list (map message_images (mr_Messages req)) * imageTokenEstimate)"

datatype Chunk = ChunkText string | ChunkError gerror | OtherChunk

record Adapter =
  ad_ContextWindow :: int
  ad_CountTokens :: "ModelRequest \<Rightarrow> gerror + int"
  ad_Complete :: "ModelRequest \<Rightarrow> gerror + Chunk list"

section \<open>Where a history is split\<close>

definition role_at :: "Message list \<Rightarrow> nat \<Rightarrow> Role" where
  "role_at ms i = msg_Role (ms ! i)"

text \<open>The loop from the end; \<open>i\<close> counts the messages not yet looked at.\<close>

fun boundary_scan :: "Message list \<Rightarrow> int \<Rightarrow> nat \<Rightarrow> int \<Rightarrow> nat" where
  "boundary_scan ms keep 0 seen = 0"
| "boundary_scan ms keep (Suc i) seen =
     (if role_at ms i \<noteq> RoleAssistant then boundary_scan ms keep i seen
      else if seen + 1 \<ge> keep then (if i > 0 \<and> role_at ms (i - 1) = RoleUser then i - 1 else i)
      else boundary_scan ms keep i (seen + 1))"

definition boundaryBefore :: "Message list \<Rightarrow> int \<Rightarrow> nat" where
  "boundaryBefore ms keep0 =
     (if ms = [] then 0
      else let keep = (if keep0 < 1 then 1 else keep0) in boundary_scan ms keep (length ms) 0)"

text \<open>The loop that keeps fewer exchanges until they fit: \<open>split\<close> is what it found so far.\<close>

fun fit_split :: "Adapter \<Rightarrow> string \<Rightarrow> Message list \<Rightarrow> int \<Rightarrow> nat \<Rightarrow> nat \<Rightarrow> nat" where
  "fit_split A sys ms budget 0 split = split"
| "fit_split A sys ms budget (Suc k) split =
     (let at = boundaryBefore ms (int (Suc k))
      in if at = 0 \<and> Suc k > 1 then fit_split A sys ms budget k split
         else case ad_CountTokens A \<lparr>mr_System = sys, mr_Messages = drop at ms, mr_Tools = [], mr_MaxTokens = 0\<rparr> of
             Inl _ \<Rightarrow> at
           | Inr used \<Rightarrow> if used \<le> budget then at else fit_split A sys ms budget k at)"

definition split_at :: "Adapter \<Rightarrow> string \<Rightarrow> int \<Rightarrow> Message list \<Rightarrow> nat" where
  "split_at A sys keepRecent ms =
     (let keep = (if keepRecent < 1 then 1 else keepRecent); split = boundaryBefore ms keep; window = ad_ContextWindow A
      in if window > 0 then fit_split A sys ms (window div 2) (nat keep) split else split)"

section \<open>Texts\<close>

definition nl :: char where "nl = char_of (10 :: nat)"
definition ellipsis :: string where "ellipsis = map char_of [0xE2, 0x80, 0xA6 :: nat]"
definition em_dash :: string where "em_dash = map char_of [0xE2, 0x80, 0x94 :: nat]"
definition quote_mark :: char where "quote_mark = char_of (39 :: nat)"

definition summaryHead :: string where
  "summaryHead = ''[Earlier conversation was compacted to stay within the context window. Summary of what happened:]'' @ [nl, nl]"

definition firstRequestMark :: string where
  "firstRequestMark = [nl, nl] @ ''[The person'' @ [quote_mark] @ ''s first message, word for word:]'' @ [nl]"

definition firstRequestMax :: nat where
  "firstRequestMax = 4000"

text \<open>The characters of a text, as \<^verbatim>\<open>[]rune\<close> decodes them and \<^verbatim>\<open>string\<close> writes them again.\<close>

definition replacement :: string where "replacement = map char_of [0xEF, 0xBF, 0xBD :: nat]"

function runes :: "string \<Rightarrow> string list" where
  "runes s =
     (if s = [] then []
      else (if rune_len s = 1 \<and> byte_val (hd s) \<ge> 128 then replacement else take (rune_len s) s) # runes (drop (rune_len s) s))"
  by pat_completeness auto
termination
  by (relation "measure length") (use rune_len_pos in auto)

declare runes.simps [simp del]

definition first_text :: "Message \<Rightarrow> string" where
  "first_text m =
     (if HasPrefix (msg_Content m) summaryHead
      then case Cut (msg_Content m) firstRequestMark of None \<Rightarrow> '''' | Some (_, kept) \<Rightarrow> kept
      else let r = runes (msg_Content m)
        in if length r > firstRequestMax then concat (take firstRequestMax r) @ ellipsis else msg_Content m)"

definition firstRequest :: "Message list \<Rightarrow> string" where
  "firstRequest older = (case find (\<lambda>m. msg_Role m = RoleUser) older of None \<Rightarrow> '''' | Some m \<Rightarrow> first_text m)"

definition truncate :: "string \<Rightarrow> nat \<Rightarrow> string" where
  "truncate s n = (if length s \<le> n then s else take n s @ ellipsis)"

section \<open>The summary\<close>

definition summaryPrompt :: string where
  "summaryPrompt = Join
     [''Summarize the conversation so far so that another engineer could pick up exactly where it left off.'', '''',
      ''Preserve, in this order:'',
      ''1. The user'' @ [quote_mark] @ ''s original goal, stated verbatim if short.'',
      ''2. What has been done: files created or modified, with paths.'',
      ''3. What was learned about the codebase that is not obvious from reading it.'',
      ''4. Current state: what works, what is broken, what was just attempted.'',
      ''5. The immediate next step.'', '''',
      ''Omit: tool call mechanics, file contents already written to disk, and reasoning'',
      ''that led nowhere. Be specific about paths and identifiers '' @ em_dash @ '' a vague summary'',
      ''forces the work to be redone.'', '''',
      ''Write it as notes to a colleague, not prose.''] [nl]"

definition focusLine :: "string \<Rightarrow> string" where
  "focusLine focus = (if focus = '''' then '''' else [nl, nl] @ ''The person asked this summary to keep, above all else: '' @ focus)"

definition call_line :: "ToolCall \<Rightarrow> string" where
  "call_line tc = ''ASSISTANT called '' @ tc_Name tc @ ''('' @ truncate (tc_Args tc) 200 @ '')'' @ [nl]"

definition transcript_of :: "Message \<Rightarrow> string" where
  "transcript_of m = (case msg_Role m of
       RoleUser \<Rightarrow> ''USER: '' @ msg_Content m @ [nl, nl]
     | RoleAssistant \<Rightarrow> (if msg_Content m \<noteq> '''' then ''ASSISTANT: '' @ msg_Content m @ [nl] else '''') @
         concat (map call_line (msg_ToolCalls m)) @ [nl]
     | RoleTool \<Rightarrow> ''TOOL '' @ (if msg_IsError m then ''ERROR'' else ''result'') @ '': '' @ truncate (msg_Content m) 400 @ [nl, nl]
     | OtherRole _ \<Rightarrow> '''')"

fun read_stream :: "Chunk list \<Rightarrow> string \<Rightarrow> gerror + string" where
  "read_stream [] out = Inr out"
| "read_stream (ChunkText t # cs) out = read_stream cs (out @ t)"
| "read_stream (ChunkError e # cs) out = Inl (Errorf [e] ''summarization failed'')"
| "read_stream (OtherChunk # cs) out = read_stream cs out"

definition plain_message :: "Role \<Rightarrow> string \<Rightarrow> Message" where
  "plain_message r s = \<lparr>msg_Role = r, msg_Content = s, msg_Blocks = [], msg_ToolCalls = [], msg_ToolCallID = '''', msg_IsError = False\<rparr>"

definition summary_request :: "Message list \<Rightarrow> string \<Rightarrow> ModelRequest" where
  "summary_request older focus =
     \<lparr>mr_System = ''You summarize engineering work accurately and concisely.'',
      mr_Messages = [plain_message RoleUser (summaryPrompt @ focusLine focus @ [nl, nl] @ ''---'' @ [nl, nl] @ concat (map transcript_of older))],
      mr_Tools = [], mr_MaxTokens = 2048\<rparr>"

definition summarize :: "Adapter \<Rightarrow> Message list \<Rightarrow> string \<Rightarrow> gerror + string" where
  "summarize A older focus = (case ad_Complete A (summary_request older focus) of
       Inl e \<Rightarrow> Inl (Errorf [e] ''summarization failed'')
     | Inr stream \<Rightarrow> (case read_stream stream '''' of
           Inl e \<Rightarrow> Inl e
         | Inr out \<Rightarrow> if TrimSpace out = '''' then Inl (Errorf [] ''summarization produced no output'') else Inr (TrimSpace out)))"

section \<open>Compacting\<close>

record Compactor =
  cp_Adapter :: Adapter
  cp_KeepRecentTurns :: int
  cp_PreCompact :: "(string \<Rightarrow> Message list \<Rightarrow> gerror option) option"
  cp_Summarizer :: "(Message list \<Rightarrow> string \<times> bool) option"
  cp_focus :: string

definition SetFocus :: "string \<Rightarrow> Compactor \<Rightarrow> Compactor" where
  "SetFocus focus c = c\<lparr>cp_focus := TrimSpace focus\<rparr>"

definition takeFocus :: "Compactor \<Rightarrow> string \<times> Compactor" where
  "takeFocus c = (cp_focus c, c\<lparr>cp_focus := ''''\<rparr>)"

record compaction_info =
  ci_BeforeTokens :: int
  ci_AfterTokens :: int
  ci_Summary :: string
  ci_Trigger :: string

definition no_info :: compaction_info where
  "no_info = \<lparr>ci_BeforeTokens = 0, ci_AfterTokens = 0, ci_Summary = '''', ci_Trigger = ''''\<rparr>"

text \<open>The answer: the messages, the account of it, the error, and whether \<open>started\<close> was called.\<close>

type_synonym compacted = "Message list \<times> compaction_info \<times> gerror option \<times> bool"

definition compacted_message :: "string \<Rightarrow> Message list \<Rightarrow> Message" where
  "compacted_message summary older =
     plain_message RoleUser (summaryHead @ summary @ (let first = firstRequest older in if first \<noteq> '''' then firstRequestMark @ first else ''''))"

definition replace_older :: "Adapter \<Rightarrow> string \<Rightarrow> string \<Rightarrow> int \<Rightarrow> string \<Rightarrow> Message list \<Rightarrow> Message list \<Rightarrow> Message list \<times> compaction_info" where
  "replace_older A trigger sys before summary older recent =
     (let compacted = compacted_message summary older # recent;
          after = (case ad_CountTokens A \<lparr>mr_System = sys, mr_Messages = compacted, mr_Tools = [], mr_MaxTokens = 0\<rparr> of Inl _ \<Rightarrow> 0 | Inr n \<Rightarrow> n)
      in (compacted, \<lparr>ci_BeforeTokens = before, ci_AfterTokens = after, ci_Summary = summary, ci_Trigger = trigger\<rparr>))"

text \<open>From the split on: the summary of the extension, or the model's when it gave none.\<close>

definition compact_split :: "Compactor \<Rightarrow> string \<Rightarrow> string \<Rightarrow> int \<Rightarrow> string \<Rightarrow> Message list \<Rightarrow> nat \<Rightarrow> compacted" where
  "compact_split c trigger sys before focus ms split =
     (let older = take split ms; recent = drop split ms
      in if length older < 2 then (ms, no_info, None, False)
         else let (own, cancel) = (case cp_Summarizer c of None \<Rightarrow> ('''', False) | Some f \<Rightarrow> f older)
           in if cancel then (ms, no_info, None, False)
              else case (if own = '''' then summarize (cp_Adapter c) older focus else Inr own) of
                  Inl e \<Rightarrow> (ms, no_info, Some e, True)
                | Inr summary \<Rightarrow> (case replace_older (cp_Adapter c) trigger sys before summary older recent of (out, info) \<Rightarrow> (out, info, None, True)))"

definition CompactWith :: "string \<Rightarrow> string \<Rightarrow> Message list \<Rightarrow> int \<Rightarrow> Compactor \<Rightarrow> compacted \<times> Compactor" where
  "CompactWith trigger sys ms before c0 =
     (let (focus, c) = (if trigger = ''manual'' then takeFocus c0 else ('''', c0))
      in case (case cp_PreCompact c of None \<Rightarrow> None | Some f \<Rightarrow> f trigger ms) of
           Some e \<Rightarrow> ((ms, no_info, Some (Errorf [e] ''pre-compact hook''), False), c)
         | None \<Rightarrow> (compact_split c trigger sys before focus ms (split_at (cp_Adapter c) sys (cp_KeepRecentTurns c) ms), c))"

definition Compact :: "string \<Rightarrow> string \<Rightarrow> Message list \<Rightarrow> int \<Rightarrow> Compactor \<Rightarrow> compacted \<times> Compactor" where
  "Compact trigger sys ms before c = CompactWith trigger sys ms before c"

end
