(* ===== verification/CompactionLaws.thy ===== *)
theory CompactionLaws
  imports Compaction
begin

text \<open>
  What holds of compaction: a call of a tool stays with its result, and the first message of the conversation is carried word for
  word through any number of compactions.
\<close>

section \<open>Calls and results\<close>

definition between_tools :: "Message list \<Rightarrow> nat \<Rightarrow> nat \<Rightarrow> bool" where
  "between_tools ms j i \<longleftrightarrow> j < i \<and> i < length ms \<and> (\<forall>k. j < k \<longrightarrow> k < i \<longrightarrow> role_at ms k = RoleTool)"

definition answers :: "Message list \<Rightarrow> nat \<Rightarrow> nat \<Rightarrow> string \<Rightarrow> bool" where
  "answers ms j i tid \<longleftrightarrow> between_tools ms j i \<and> role_at ms j = RoleAssistant \<and> role_at ms i = RoleTool \<and>
     msg_ToolCallID (ms ! i) = tid \<and> tid \<in> tc_ID ` set (msg_ToolCalls (ms ! j))"

text \<open>Every result answers a call of the assistant's message before it, and every call of the assistant has its result.\<close>

definition results_answer :: "Message list \<Rightarrow> bool" where
  "results_answer ms \<longleftrightarrow> (\<forall>i < length ms. role_at ms i = RoleTool \<longrightarrow> (\<exists>j. answers ms j i (msg_ToolCallID (ms ! i))))"

definition calls_answered :: "Message list \<Rightarrow> bool" where
  "calls_answered ms \<longleftrightarrow> (\<forall>j < length ms. role_at ms j = RoleAssistant \<longrightarrow>
     (\<forall>tid \<in> tc_ID ` set (msg_ToolCalls (ms ! j)). \<exists>i. answers ms j i tid))"

lemma boundary_scan_spot:
  assumes "i \<le> length ms"
  shows "boundary_scan ms keep i seen = 0 \<or> (boundary_scan ms keep i seen < i \<and> role_at ms (boundary_scan ms keep i seen) \<noteq> RoleTool)"
  using assms by (induction ms keep i seen rule: boundary_scan.induct) (auto simp: less_Suc_eq)

lemma boundaryBefore_spot: "boundaryBefore ms keep = 0 \<or> (boundaryBefore ms keep < length ms \<and> role_at ms (boundaryBefore ms keep) \<noteq> RoleTool)"
  using boundary_scan_spot [of "length ms" ms] by (simp add: boundaryBefore_def Let_def)

lemma fit_split_spot:
  "split = 0 \<or> (split < length ms \<and> role_at ms split \<noteq> RoleTool) \<Longrightarrow>
   fit_split A sys ms budget k split = 0 \<or> (fit_split A sys ms budget k split < length ms \<and> role_at ms (fit_split A sys ms budget k split) \<noteq> RoleTool)"
proof (induction k arbitrary: split)
  case (Suc k)
  show ?case using Suc.IH [OF Suc.prems] Suc.IH [OF boundaryBefore_spot] boundaryBefore_spot [of ms "int (Suc k)"]
    by (auto simp: Let_def split: sum.split)
qed simp

lemma split_at_spot: "split_at A sys keep ms = 0 \<or> (split_at A sys keep ms < length ms \<and> role_at ms (split_at A sys keep ms) \<noteq> RoleTool)"
  using fit_split_spot [OF boundaryBefore_spot] boundaryBefore_spot unfolding split_at_def Let_def by (simp split: if_split)

text \<open>What a compaction answers: the history as it was, or the summary before the messages from a split on.\<close>

lemma compact_split_shape:
  assumes "compact_split c trigger sys before focus ms split = (out, info, e, st)"
  shows "out = ms \<or> (2 \<le> split \<and> out = compacted_message (ci_Summary info) (take split ms) # drop split ms)"
  using assms by (auto simp: compact_split_def replace_older_def Let_def split: prod.splits sum.splits if_splits)

lemma CompactWith_shape:
  assumes "CompactWith trigger sys ms before c = ((out, info, e, st), c')"
  shows "out = ms \<or> (\<exists>n. 2 \<le> n \<and> n < length ms \<and> role_at ms n \<noteq> RoleTool \<and> out = compacted_message (ci_Summary info) (take n ms) # drop n ms)"
proof -
  have "out = ms \<or> (\<exists>d focus. compact_split d trigger sys before focus ms (split_at (cp_Adapter d) sys (cp_KeepRecentTurns d) ms) = (out, info, e, st))"
    using assms by (auto simp: CompactWith_def Let_def split: prod.splits option.splits)
  then show ?thesis
  proof
    assume "\<exists>d focus. compact_split d trigger sys before focus ms (split_at (cp_Adapter d) sys (cp_KeepRecentTurns d) ms) = (out, info, e, st)"
    then obtain d focus where d: "compact_split d trigger sys before focus ms (split_at (cp_Adapter d) sys (cp_KeepRecentTurns d) ms) = (out, info, e, st)"
      by blast
    show ?thesis using compact_split_shape [OF d] split_at_spot [of "cp_Adapter d" sys "cp_KeepRecentTurns d" ms] by auto
  qed simp
qed

lemma answers_kept:
  assumes "answers ms j i tid" "n \<le> j"
  shows "answers (m # drop n ms) (Suc (j - n)) (Suc (i - n)) tid"
proof -
  have b: "j < i" "i < length ms" "\<And>k. j < k \<Longrightarrow> k < i \<Longrightarrow> role_at ms k = RoleTool"
    using assms(1) by (auto simp: answers_def between_tools_def)
  have "role_at (m # drop n ms) k = RoleTool" if "Suc (j - n) < k" "k < Suc (i - n)" for k
    using that b(3) [of "k - 1 + n"] b(1,2) assms(2) by (auto simp: role_at_def nth_Cons' add.commute)
  then show ?thesis using assms b(1,2) by (auto simp: answers_def between_tools_def role_at_def nth_Cons')
qed

lemma kept_from:
  assumes "role_at ms n \<noteq> RoleTool" "answers ms j i tid" "n \<le> i"
  shows "n \<le> j"
proof (rule ccontr)
  assume "\<not> n \<le> j"
  then have "role_at ms n = RoleTool"
    using assms(2,3) by (cases "n = i") (auto simp: answers_def between_tools_def)
  then show False using assms(1) by simp
qed

lemma cut_keeps_calls:
  assumes "results_answer ms" "calls_answered ms" "role_at ms n \<noteq> RoleTool" "n < length ms" "msg_Role m = RoleUser"
  shows "results_answer (m # drop n ms)" "calls_answered (m # drop n ms)"
proof -
  let ?out = "m # drop n ms"
  have at: "?out ! Suc p = ms ! (n + p)" "role_at ?out (Suc p) = role_at ms (n + p)" if "n + p < length ms" for p
    using that by (simp_all add: role_at_def)
  show "results_answer ?out"
    unfolding results_answer_def
  proof (intro allI impI)
    fix i
    assume i: "i < length ?out" "role_at ?out i = RoleTool"
    then obtain p where p: "i = Suc p" "n + p < length ms" using assms(5) by (cases i) (auto simp: role_at_def)
    then have "role_at ms (n + p) = RoleTool" using i(2) at by simp
    then obtain j where j: "answers ms j (n + p) (msg_ToolCallID (ms ! (n + p)))"
      using assms(1) p(2) unfolding results_answer_def by blast
    have "n \<le> j" using kept_from [OF assms(3) j] by simp
    from answers_kept [OF j this, of m] show "\<exists>j. answers ?out j i (msg_ToolCallID (?out ! i))" using p at by auto
  qed
  show "calls_answered ?out"
    unfolding calls_answered_def
  proof (intro allI impI ballI)
    fix j tid
    assume j: "j < length ?out" "role_at ?out j = RoleAssistant" "tid \<in> tc_ID ` set (msg_ToolCalls (?out ! j))"
    then obtain p where p: "j = Suc p" "n + p < length ms" using assms(5) by (cases j) (auto simp: role_at_def)
    then obtain i where i: "answers ms (n + p) i tid"
      using assms(2) j at unfolding calls_answered_def by fastforce
    from answers_kept [OF i, of n m] show "\<exists>i. answers ?out j i tid" using p by auto
  qed
qed

text \<open>
  C24: A compaction keeps calls and results together: of a conversation in which every result answers a call of the assistant's message
  before it and every call has its result, it leaves one of the same kind, which is the conversation itself or a summary of at least two
  messages followed by the rest of it.\<close>

theorem compaction_keeps_calls:
  assumes "results_answer ms" "calls_answered ms" "CompactWith trigger sys ms before c = ((out, info, e, st), c')"
  shows "results_answer out \<and> calls_answered out \<and>
    (out = ms \<or> (\<exists>n. 2 \<le> n \<and> n < length ms \<and> out = compacted_message (ci_Summary info) (take n ms) # drop n ms))"
proof -
  have "msg_Role (compacted_message (ci_Summary info) older) = RoleUser" for older by (simp add: compacted_message_def plain_message_def)
  with CompactWith_shape [OF assms(3)] cut_keeps_calls [OF assms(1,2)] assms(1,2) show ?thesis by auto
qed

section \<open>The first message\<close>

text \<open>The summary has no mark of its own, nor does it end in the beginning of one.\<close>

definition unmarked :: "string \<Rightarrow> bool" where
  "unmarked s \<longleftrightarrow> \<not> Contains (summaryHead @ s @ butlast firstRequestMark) firstRequestMark"

lemma Contains_at: "HasPrefix (drop p s) sub \<Longrightarrow> Contains s sub"
proof (induction s arbitrary: p)
  case Nil
  then show ?case by (simp add: Contains_def Cut.simps)
next
  case (Cons a s)
  then show ?case by (cases p) (fastforce simp: Contains_def Cut.simps [of "a # s"])+
qed

lemma Cut_first: "(\<And>p. p < length u \<Longrightarrow> \<not> HasPrefix (drop p (u @ sep @ v)) sep) \<Longrightarrow> Cut (u @ sep @ v) sep = Some (u, v)"
proof (induction u)
  case Nil
  then show ?case by (simp add: Cut.simps HasPrefix_def)
next
  case (Cons a u)
  have "Cut (u @ sep @ v) sep = Some (u, v)" using Cons.prems [of "Suc p" for p] by (intro Cons.IH) auto
  moreover have "\<not> HasPrefix (a # u @ sep @ v) sep" using Cons.prems [of 0] by simp
  ultimately show ?case by (simp add: Cut.simps [of "a # u @ sep @ v"])
qed

lemma Cut_unmarked:
  assumes "unmarked s"
  shows "Cut (summaryHead @ s @ firstRequestMark @ q) firstRequestMark = Some (summaryHead @ s, q)"
proof -
  let ?u = "summaryHead @ s" and ?m = firstRequestMark
  have "\<not> HasPrefix (drop p (?u @ ?m @ q)) ?m" if p: "p < length ?u" for p
  proof
    assume h: "HasPrefix (drop p (?u @ ?m @ q)) ?m"
    have "take (length ?m) (drop p (?u @ butlast ?m)) = take (length ?m) (drop p (?u @ ?m @ q))"
      using p by (simp add: take_drop butlast_conv_take min_def)
    then have "HasPrefix (drop p (?u @ butlast ?m)) ?m" using h by (simp add: HasPrefix_def)
    then show False using Contains_at assms unfolding unmarked_def by fastforce
  qed
  then show ?thesis using Cut_first [of ?u ?m q] by simp
qed

text \<open>A conversation that began with \<open>m\<close>: it grows, and is compacted with summaries that are not marked.\<close>

inductive conversation :: "Message \<Rightarrow> Message list \<Rightarrow> bool" for m where
  begins: "conversation m [m]"
| goes_on: "conversation m ms \<Longrightarrow> conversation m (ms @ [x])"
| compacts: "conversation m ms \<Longrightarrow> CompactWith trigger sys ms before c = ((out, info, e, st), c') \<Longrightarrow> unmarked (ci_Summary info)
    \<Longrightarrow> conversation m out"

definition opens_with :: "string \<Rightarrow> Message list \<Rightarrow> bool" where
  "opens_with q ms \<longleftrightarrow> ms \<noteq> [] \<and> msg_Role (hd ms) = RoleUser \<and> first_text (hd ms) = q \<and> HasSuffix (msg_Content (hd ms)) q"

lemma opens_first: "opens_with q ms \<Longrightarrow> ms \<noteq> [] \<Longrightarrow> firstRequest ms = q"
  by (cases ms) (auto simp: opens_with_def firstRequest_def)

lemma opens_compacted:
  assumes "opens_with q (take n ms)" "unmarked s" "q \<noteq> ''''"
  shows "opens_with q (compacted_message s (take n ms) # later)"
proof -
  have f: "firstRequest (take n ms) = q" using opens_first [OF assms(1)] assms(1) by (simp add: opens_with_def)
  have "HasPrefix (summaryHead @ x) summaryHead" for x by (simp add: HasPrefix_def)
  then show ?thesis
    using Cut_unmarked [OF assms(2)] assms(3)
    by (simp add: opens_with_def compacted_message_def plain_message_def f first_text_def HasSuffix_def HasPrefix_def)
qed

text \<open>
  C25: The person's first message outlives every compaction: however a conversation grows and however often it is compacted, it opens with a
  message of the person that ends in the first one word for word, and the next compaction finds it there, as long as the first message
  has at most 4000 characters and no summary holds the mark the message is kept under.\<close>

theorem first_message_survives:
  assumes "conversation m ms" "msg_Role m = RoleUser" "msg_Content m \<noteq> ''''" "\<not> HasPrefix (msg_Content m) summaryHead"
    "length (runes (msg_Content m)) \<le> firstRequestMax"
  shows "ms \<noteq> [] \<and> msg_Role (hd ms) = RoleUser \<and> HasSuffix (msg_Content (hd ms)) (msg_Content m) \<and> firstRequest ms = msg_Content m"
proof -
  have "opens_with (msg_Content m) ms"
    using assms(1)
  proof induction
    case begins
    show ?case using assms by (simp add: opens_with_def first_text_def Let_def HasSuffix_def HasPrefix_def)
  next
    case (goes_on ms x)
    then show ?case by (cases ms) (auto simp: opens_with_def)
  next
    case (compacts ms trigger sys before c out info e st c')
    from CompactWith_shape [OF compacts.hyps(2)] show ?case
    proof
      assume "\<exists>n. 2 \<le> n \<and> n < length ms \<and> role_at ms n \<noteq> RoleTool \<and> out = compacted_message (ci_Summary info) (take n ms) # drop n ms"
      then obtain n where n: "2 \<le> n" "n < length ms" "out = compacted_message (ci_Summary info) (take n ms) # drop n ms" by blast
      have "opens_with (msg_Content m) (take n ms)" using compacts.IH n by (cases ms; cases n) (auto simp: opens_with_def)
      then show ?case using opens_compacted compacts.hyps(3) assms(3) n(3) by simp
    qed (use compacts.IH in simp)
  qed
  then show ?thesis using opens_first by (auto simp: opens_with_def)
qed

section \<open>A conversation that is compacted\<close>

definition asks :: Message where "asks = plain_message RoleUser ''fix it''"
definition calls :: Message where "calls = (plain_message RoleAssistant '''')\<lparr>msg_ToolCalls := [\<lparr>tc_ID = ''1'', tc_Name = ''read'', tc_Args = ''{}''\<rparr>]\<rparr>"
definition result_of :: Message where "result_of = (plain_message RoleTool ''text'')\<lparr>msg_ToolCallID := ''1''\<rparr>"
definition says :: Message where "says = plain_message RoleAssistant ''done''"

definition plain_compactor :: Compactor where
  "plain_compactor = \<lparr>cp_Adapter = \<lparr>ad_ContextWindow = 0, ad_CountTokens = (\<lambda>r. Inr (int (estimateTokens r))),
       ad_Complete = (\<lambda>_. Inr [ChunkText ''notes''])\<rparr>,
     cp_KeepRecentTurns = 1, cp_PreCompact = None, cp_Summarizer = Some (\<lambda>_. (''notes'', False)), cp_focus = ''''\<rparr>"

lemma compacted_once:
  "fst (CompactWith ''auto'' '''' [asks, calls, result_of, says] 0 plain_compactor) =
     (compacted_message ''notes'' [asks, calls, result_of] # [says],
      \<lparr>ci_BeforeTokens = 0, ci_AfterTokens = int (estimateTokens \<lparr>mr_System = '''', mr_Messages =
         [compacted_message ''notes'' [asks, calls, result_of], says], mr_Tools = [], mr_MaxTokens = 0\<rparr>), ci_Summary = ''notes'', ci_Trigger = ''auto''\<rparr>,
      None, True)"
  by (simp add: CompactWith_def compact_split_def replace_older_def plain_compactor_def split_at_def boundaryBefore_def role_at_def asks_def calls_def
      result_of_def says_def plain_message_def eval_nat_numeral Let_def)

theorem compaction_keeps_calls_witness:
  "\<exists>out info e st c. CompactWith ''auto'' '''' [asks, calls, result_of, says] 0 plain_compactor = ((out, info, e, st), c) \<and>
     results_answer out \<and> calls_answered out \<and> length out = 2"
proof -
  let ?ms = "[asks, calls, result_of, says]"
  obtain out info e st c where r: "CompactWith ''auto'' '''' ?ms 0 plain_compactor = ((out, info, e, st), c)" by (metis prod.exhaust)
  note d = asks_def calls_def result_of_def says_def plain_message_def
  have a: "answers ?ms 1 2 ''1''" by (simp add: answers_def between_tools_def role_at_def d)
  have "results_answer ?ms"
    using a by (auto simp: results_answer_def role_at_def less_Suc_eq d numeral_2_eq_2)
  moreover have "calls_answered ?ms"
    using a by (auto simp: calls_answered_def role_at_def less_Suc_eq d numeral_2_eq_2)
  ultimately have "results_answer out \<and> calls_answered out" using compaction_keeps_calls [OF _ _ r] by blast
  moreover have "length out = 2" using compacted_once r by simp
  ultimately show ?thesis using r by blast
qed

theorem first_message_survives_witness:
  "conversation asks [compacted_message ''notes'' [asks, calls, result_of], says] \<and>
   firstRequest [compacted_message ''notes'' [asks, calls, result_of], says] = ''fix it''"
proof -
  have "conversation asks (([asks] @ [calls]) @ [result_of] @ [says])"
    using conversation.begins [of asks] conversation.goes_on by (metis append_assoc)
  then have c: "conversation asks [asks, calls, result_of, says]" by simp
  have "unmarked ''notes''" by code_simp
  then have "conversation asks [compacted_message ''notes'' [asks, calls, result_of], says]"
    using conversation.compacts [OF c] compacted_once by (metis (no_types, lifting) compaction_info.select_convs(3) prod.collapse fst_conv)
  moreover have "\<not> HasPrefix (msg_Content asks) summaryHead" "length (runes (msg_Content asks)) \<le> firstRequestMax" by code_simp+
  moreover have "msg_Role asks = RoleUser" "msg_Content asks = ''fix it''" by (simp_all add: asks_def plain_message_def)
  ultimately show ?thesis using first_message_survives by fastforce
qed

end
