(* ===== verification/Edits.thy ===== *)
theory Edits
  imports PolicyRules
begin

text \<open>
  The text half of the edit tool, \<^verbatim>\<open>internal/tools/edit.go\<close>: finding the text to replace, exactly or with the indentation
  set aside, replacing it, and the region that is shown afterwards. The hint that names the nearest line when nothing matches
  is ranked with floating-point numbers and is left out.
\<close>

abbreviation eol :: char where "eol \<equiv> CHR 0x0A"
abbreviation cr_char :: char where "cr_char \<equiv> CHR 0x0D"

section \<open>Go's \<^verbatim>\<open>strings\<close>, once more\<close>

definition TrimSuffix :: "string \<Rightarrow> string \<Rightarrow> string" where
  "TrimSuffix s p = (if HasSuffix s p then take (length s - length p) s else s)"

lemma Cut_leaves_less: "Cut s sep = Some (a, b) \<Longrightarrow> sep \<noteq> [] \<Longrightarrow> length b < length s"
  by (induction s arbitrary: a) (auto simp: Cut.simps HasPrefix_def split: if_splits)

text \<open>How often a text that is not empty occurs, from the left and without overlaps.\<close>

function count_of :: "string \<Rightarrow> string \<Rightarrow> nat" where
  "count_of s sub = (if sub = [] then 0 else case Cut s sub of None \<Rightarrow> 0 | Some (_, b) \<Rightarrow> Suc (count_of b sub))"
  by pat_completeness auto
termination
  by (relation "measure (length o fst)") (auto dest: Cut_leaves_less)

declare count_of.simps [simp del]

function replace_every :: "string \<Rightarrow> string \<Rightarrow> string \<Rightarrow> string" where
  "replace_every s old new = (if old = [] then s else case Cut s old of None \<Rightarrow> s | Some (a, b) \<Rightarrow> a @ new @ replace_every b old new)"
  by pat_completeness auto
termination
  by (relation "measure (length o fst)") (auto dest: Cut_leaves_less)

declare replace_every.simps [simp del]

definition replace_first :: "string \<Rightarrow> string \<Rightarrow> string \<Rightarrow> string" where
  "replace_first s old new = (case Cut s old of None \<Rightarrow> s | Some (a, b) \<Rightarrow> a @ new @ b)"

section \<open>Matching with the indentation set aside\<close>

definition leadingSpace :: "string \<Rightarrow> string" where
  "leadingSpace l = takeWhile (\<lambda>c. c = CHR '' '' \<or> c = CHR 0x09) l"

definition lines_match :: "string list \<Rightarrow> string list \<Rightarrow> nat \<Rightarrow> bool" where
  "lines_match oldLines fileLines i \<longleftrightarrow> map TrimSpace (take (length oldLines) (drop i fileLines)) = map TrimSpace oldLines"

definition match_starts :: "string list \<Rightarrow> string list \<Rightarrow> nat list" where
  "match_starts oldLines fileLines =
     filter (\<lambda>i. i + length oldLines \<le> length fileLines \<and> lines_match oldLines fileLines i) [0..<Suc (length fileLines)]"

text \<open>
  How each indentation of the old text is spelled in the file, in the order they are met; \<open>None\<close> when one of them is spelled in two ways.
\<close>

fun spell_from :: "(string \<times> string) list \<Rightarrow> (string, string) gomap \<Rightarrow> (string, string) gomap option" where
  "spell_from [] spell = Some spell"
| "spell_from ((ol, fl) # ps) spell =
     (if TrimSpace ol = '''' then spell_from ps spell
      else let i = leadingSpace ol; f = leadingSpace fl
        in case map_of spell i of
             Some prev \<Rightarrow> if prev \<noteq> f then None else spell_from ps spell
           | None \<Rightarrow> spell_from ps (spell @ [(i, f)]))"

definition same_nesting :: "(string, string) gomap \<Rightarrow> bool" where
  "same_nesting spell \<longleftrightarrow> list_all (\<lambda>(a, fa). list_all (\<lambda>(b, fb).
     a = b \<or> (fa \<noteq> fb \<and> (length a < length b \<longleftrightarrow> length fa < length fb))) spell) spell"

definition best_indent :: "string list \<Rightarrow> string \<Rightarrow> string" where
  "best_indent ks w = foldl (\<lambda>best k. if HasPrefix w k \<and> length k \<ge> length best then k else best) '''' ks"

definition reindent :: "(string, string) gomap \<Rightarrow> bool \<Rightarrow> string \<Rightarrow> string" where
  "reindent spell cr line =
     (let l = TrimSuffix line [cr_char];
          l' = (if TrimSpace l = '''' then l
            else let w = leadingSpace l; best = best_indent (map fst spell) w
              in case map_of spell best of
                   Some f \<Rightarrow> if best \<noteq> '''' \<or> get_str spell '''' \<noteq> '''' then f @ drop (length best) w @ drop (length w) l else l
                 | None \<Rightarrow> l)
      in if cr then l' @ [cr_char] else l')"

text \<open>What was found: places and their lines, or the one place whose lines are nested otherwise, or the file with its lines replaced.\<close>

datatype indent_match = Places "nat list" | NestedOtherwise "nat list" | Matched string string "nat list"

definition indentMatch :: "string \<Rightarrow> string \<Rightarrow> string \<Rightarrow> indent_match" where
  "indentMatch content old new =
     (let oldLines = Split eol (TrimSuffix old [eol]); fileLines = Split eol content
      in if list_all (\<lambda>l. TrimSpace l = '''') oldLines then Places []
         else let starts = match_starts oldLines fileLines; found = map Suc starts
           in case starts of
                [at] \<Rightarrow>
                  (let cr = HasSuffix (fileLines ! at) [cr_char]
                   in case spell_from (zip oldLines (drop at fileLines)) [] of
                        None \<Rightarrow> NestedOtherwise found
                      | Some spell \<Rightarrow>
                          if \<not> same_nesting spell then NestedOtherwise found
                          else let newLines = map (reindent spell cr) (Split eol (TrimSuffix new [eol]));
                                   put = (if TrimSuffix new [eol] = '''' then [] else newLines)
                            in Matched (Join (take at fileLines @ put @ drop (at + length oldLines) fileLines) [eol]) (Join newLines [eol]) found)
              | _ \<Rightarrow> Places found)"

section \<open>The edit of a text\<close>

function matchLines_from :: "nat \<Rightarrow> nat \<Rightarrow> string \<Rightarrow> string \<Rightarrow> string list" where
  "matchLines_from n line content sub =
     (if n \<ge> 10 then [''...'']
      else case Cut content sub of
          None \<Rightarrow> []
        | Some (a, b) \<Rightarrow> FormatInt (int (line + count_list a eol)) # matchLines_from (Suc n) (line + count_list (a @ sub) eol) b sub)"
  by pat_completeness auto
termination
  by (relation "measure (\<lambda>(n, _). 10 - n)") auto

declare matchLines_from.simps [simp del]

definition matchLines :: "string \<Rightarrow> string \<Rightarrow> string list" where
  "matchLines content sub = matchLines_from 0 1 content sub"

datatype edit_refusal =
    Nested nat
  | LooselyAt "nat list"
  | NoMatch
  | Several nat "string list"

text \<open>An edit that is found: the text after it, the text it put in, how often, and the line of a loose match.\<close>

record found_edit =
  fe_updated :: string
  fe_new :: string
  fe_count :: nat
  fe_loose :: "nat option"

definition replace_found :: "string \<Rightarrow> string \<Rightarrow> string \<Rightarrow> bool \<Rightarrow> edit_refusal + found_edit" where
  "replace_found content old new all =
     (let n = count_of content old
      in if n = 0 then Inl NoMatch
         else if n > 1 \<and> \<not> all then Inl (Several n (matchLines content old))
         else Inr \<lparr>fe_updated = (if all then replace_every content old new else replace_first content old new),
           fe_new = new, fe_count = n, fe_loose = None\<rparr>)"

definition find_edit :: "string \<Rightarrow> string \<Rightarrow> string \<Rightarrow> bool \<Rightarrow> edit_refusal + found_edit" where
  "find_edit content old new all =
     (if count_of content old = 0 \<and> \<not> all
      then case indentMatch content old new of
          Matched updated reindented found \<Rightarrow> Inr \<lparr>fe_updated = updated, fe_new = reindented, fe_count = 1, fe_loose = Some (hd found)\<rparr>
        | NestedOtherwise found \<Rightarrow> Inl (Nested (hd found))
        | Places found \<Rightarrow> if length found > 1 then Inl (LooselyAt found) else replace_found content old new all
      else replace_found content old new all)"

section \<open>The region that is shown\<close>

definition pad6 :: "nat \<Rightarrow> string" where
  "pad6 n = (let d = FormatInt (int n) in replicate (6 - length d) (CHR '' '') @ d)"

definition numbered :: "nat \<Rightarrow> string \<Rightarrow> string" where
  "numbered i line = pad6 i @ [CHR 0x09] @ (if length line > 200 then take 200 line @ '' [...]'' else line) @ [eol]"

definition changedRegion :: "string \<Rightarrow> string \<Rightarrow> nat \<Rightarrow> string" where
  "changedRegion updated needle ctx = (case Cut updated needle of
       None \<Rightarrow> ''''
     | Some (a, _) \<Rightarrow>
         let startLine = count_list a eol + 1; endLine = startLine + count_list needle eol;
             fileLines = Split eol updated;
             first = (if startLine < ctx + 1 then 1 else startLine - ctx);
             last = (if endLine + ctx > length fileLines then length fileLines else endLine + ctx)
         in TrimSuffix (concat (map (\<lambda>i. numbered i (fileLines ! (i - 1))) [first..<Suc last])) [eol])"

end
