(* ===== verification/FileTools.thy ===== *)
theory FileTools
  imports Edits Store
begin

text \<open>
  The file tools, \<^verbatim>\<open>internal/tools/file.go\<close> and \<^verbatim>\<open>Edit.Run\<close> of \<^verbatim>\<open>internal/tools/edit.go\<close>, with the record of what a session has read
  (\<^verbatim>\<open>internal/tools/session.go\<close>). A tool is a computation over the world of theory \<open>Store\<close>, whose memory is the disk: other programs
  may write before each access of it. Resolving a path, the roots that confine it, git's folder, the parsers of a language, the
  extraction of documents, the making of folders and the errors of the disk are functions of the session; a folder that is missing
  is not told from one that is there. An answer is an error of a tool or a text and whether it was cut; a panic is \<open>None\<close>.
\<close>

section \<open>The session\<close>

datatype node = FileNode nat string | FolderNode

datatype SyntaxMode = SyntaxRefuse | SyntaxReport | SyntaxOff

record verdict =
  vd_checked :: bool
  vd_err :: "string option"
  vd_strict :: bool
  vd_by :: string

record 'x tool_session =
  ts_Resolve :: "string \<Rightarrow> gerror + string"
  ts_gitWrite :: "string \<Rightarrow> gerror option"
  ts_Guard :: "(string \<Rightarrow> gerror option) option"
  ts_Syntax :: SyntaxMode
  ts_parses :: "string \<Rightarrow> string \<Rightarrow> verdict"
  ts_Rel :: "string \<Rightarrow> string"
  ts_sha :: "string \<Rightarrow> string"
  ts_Checkpoint :: bool
  ts_DetectKind :: "string \<Rightarrow> string \<Rightarrow> string option"
  ts_ExtractText :: "string \<Rightarrow> string \<Rightarrow> gerror + string"
  ts_lower :: "string \<Rightarrow> string"
  ts_io :: "string \<Rightarrow> 'x \<Rightarrow> gerror option \<times> 'x"
  ts_mkdirParents :: "string \<Rightarrow> 'x \<Rightarrow> gerror option \<times> 'x"

type_synonym disk = "(string, node) gomap"

record 'x tool_world = "(disk, 'x) world" +
  tw_reads :: "(string, string) gomap"
  tw_checks :: "(string \<times> string option) list"

datatype tool_error =
    BadArguments
  | Unresolved gerror
  | GuardRefused gerror
  | Identical
  | PastedDiff
  | FileNotFound
  | CannotAccess gerror
  | IsFolder
  | NotReadYet
  | ChangedOnDisk
  | CannotRead gerror
  | OldEmpty
  | Unmatched edit_refusal
  | BreaksSyntax string
  | NoFolder gerror
  | WriteFailed gerror
  | NotADocument gerror
  | BinaryFile nat
  | PastTheEnd int nat

type_synonym tool_result = "tool_error + (string \<times> bool)"

definition not_exist :: gerror where "not_exist = Sentinel (OtherError ''file does not exist'')"
definition is_a_directory :: gerror where "is_a_directory = Sentinel (OtherError ''is a directory'')"

section \<open>The disk\<close>

text \<open>\<open>os.Stat\<close>: an error of the disk, nothing, a folder or the permission bits of a file.\<close>

definition stat :: "'x tool_session \<Rightarrow> string \<Rightarrow> ('x tool_world, gerror + node option) state" where
  "stat s path = do {
     err \<leftarrow> outside (ts_io s path);
     (case err of Some e \<Rightarrow> ret (Inl e) | None \<Rightarrow> call (\<lambda>d. (Inr (map_of d path), d)))
   }"

definition readFile :: "'x tool_session \<Rightarrow> string \<Rightarrow> ('x tool_world, gerror + string) state" where
  "readFile s path = do {
     err \<leftarrow> outside (ts_io s path);
     (case err of
        Some e \<Rightarrow> ret (Inl e)
      | None \<Rightarrow> call (\<lambda>d. (case map_of d path of
            None \<Rightarrow> Inl not_exist
          | Some FolderNode \<Rightarrow> Inl is_a_directory
          | Some (FileNode _ content) \<Rightarrow> Inr content, d)))
   }"

definition atomicWrite :: "'x tool_session \<Rightarrow> string \<Rightarrow> string \<Rightarrow> nat \<Rightarrow> ('x tool_world, gerror option) state" where
  "atomicWrite s path content mode = do {
     err \<leftarrow> outside (ts_io s path);
     (case err of
        Some e \<Rightarrow> ret (Some e)
      | None \<Rightarrow> call (\<lambda>d. if map_of d path = Some FolderNode then (Some is_a_directory, d)
          else (None, AList.update path (FileNode mode content) d)))
   }"

definition with_reads :: "((string, string) gomap \<Rightarrow> 'a \<times> (string, string) gomap) \<Rightarrow> ('x tool_world, 'a) state" where
  "with_reads f = State (\<lambda>w. let (a, r) = f (tw_reads w) in (a, w\<lparr>tw_reads := r\<rparr>))"

definition MarkRead :: "'x tool_session \<Rightarrow> string \<Rightarrow> string \<Rightarrow> ('x tool_world, unit) state" where
  "MarkRead s path content = with_reads (\<lambda>r. ((), AList.update path (hex_encode (ts_sha s content)) r))"

definition WasRead :: "string \<Rightarrow> ('x tool_world, bool) state" where
  "WasRead path = with_reads (\<lambda>r. (map_of r path \<noteq> None, r))"

definition ChangedSinceRead :: "'x tool_session \<Rightarrow> string \<Rightarrow> ('x tool_world, bool) state" where
  "ChangedSinceRead s path = do {
     want \<leftarrow> with_reads (\<lambda>r. (map_of r path, r));
     (case want of
        None \<Rightarrow> ret False
      | Some h \<Rightarrow> do {
          got \<leftarrow> readFile s path;
          ret (case got of Inl _ \<Rightarrow> False | Inr content \<Rightarrow> hex_encode (ts_sha s content) \<noteq> h)
        })
   }"

definition checkpoint :: "string \<Rightarrow> string option \<Rightarrow> ('x tool_world, unit) state" where
  "checkpoint path before = State (\<lambda>w. ((), w\<lparr>tw_checks := tw_checks w @ [(path, before)]\<rparr>))"

definition recordChange :: "'x tool_session \<Rightarrow> string \<Rightarrow> ('x tool_world, unit) state" where
  "recordChange s path =
     (if \<not> ts_Checkpoint s then ret ()
      else do {
        got \<leftarrow> readFile s path;
        checkpoint path (case got of Inl _ \<Rightarrow> None | Inr content \<Rightarrow> Some content)
      })"

section \<open>The syntax of what is written\<close>

definition notCode :: "string list" where
  "notCode = [''.md'', ''.markdown'', ''.rst'', ''.txt'', ''.csv'', ''.yaml'', ''.yml'', ''.diff'', ''.patch'']"

text \<open>\<open>filepath.Ext\<close>: from the last dot of the last element on.\<close>

fun ext_rev :: "string \<Rightarrow> string \<Rightarrow> string" where
  "ext_rev [] acc = ''''"
| "ext_rev (c # cs) acc = (if c = CHR ''/'' then '''' else if c = CHR ''.'' then c # acc else ext_rev cs (c # acc))"

definition path_Ext :: "string \<Rightarrow> string" where
  "path_Ext p = ext_rev (rev p) ''''"

definition marked_line :: "string \<Rightarrow> bool" where
  "marked_line l \<longleftrightarrow> HasPrefix l ''+'' \<or> HasPrefix l ''-''"

definition looksLikeDiff :: "'x tool_session \<Rightarrow> string \<Rightarrow> string \<Rightarrow> string \<Rightarrow> bool" where
  "looksLikeDiff s path old new \<longleftrightarrow>
     ts_lower s (path_Ext path) \<notin> set notCode \<and> \<not> list_ex marked_line (Split eol old) \<and>
     (let ls = filter (\<lambda>l. TrimSpace l \<noteq> '''') (Split eol new)
      in list_all marked_line ls \<and> list_ex (\<lambda>l. HasPrefix l ''+'') ls \<and> list_ex (\<lambda>l. HasPrefix l ''-'') ls)"

definition suffix_of :: "string \<Rightarrow> string" where
  "suffix_of note = (if note = '''' then '''' else eol # note)"

definition sentence :: "string \<Rightarrow> string" where
  "sentence m0 = (let m = TrimSpace m0 in if HasSuffix m ''.'' \<or> HasSuffix m ''?'' \<or> HasSuffix m ''!'' then m else m @ ''.'')"

definition dash :: string where "dash = map char_of [0x20, 0xE2, 0x80, 0x94, 0x20 :: nat]"

definition syntaxVerdict :: "'x tool_session \<Rightarrow> string \<Rightarrow> string \<Rightarrow> bool \<Rightarrow> string \<Rightarrow> string \<times> bool" where
  "syntaxVerdict s path before existed after =
     (if ts_Syntax s = SyntaxOff then ('''', False)
      else let a = ts_parses s path after; rel = ts_Rel s path
        in case vd_err a of
             None \<Rightarrow> ('''', False)
           | Some err \<Rightarrow>
               let why = (\<lambda>lead does. lead @ rel @ does @ '' ('' @ vd_by a @ '')'' @ dash @ err); b = ts_parses s path before
               in if \<not> vd_checked a then ('''', False)
                  else if \<not> existed then (why ''Warning: '' '' does not parse'', False)
                  else if vd_checked b \<and> vd_err b \<noteq> None then (why ''Note: '' '' still does not parse'', False)
                  else if \<not> vd_checked b then (why ''Warning: '' '' does not parse'', False)
                  else if ts_Syntax s = SyntaxRefuse \<and> vd_strict a
                  then (''Not applied: '' @ rel @ '' would no longer parse ('' @ vd_by a @ '')'' @ dash @ sentence err @
                    '' The file is unchanged; fix the new text and try again.'', True)
                  else (why ''Warning: '' '' no longer parses'', False))"

section \<open>Edit\<close>

definition pasted_diff :: string where
  "pasted_diff = ''new_string looks like a pasted diff: every line starts with + or -. Pass the new text itself, without diff markers.''"

definition join_notes :: "string \<Rightarrow> string \<Rightarrow> string" where
  "join_notes first note = (if first = '''' then note else TrimSpace (first @ [eol] @ note))"

definition loose_note :: "nat option \<Rightarrow> string" where
  "loose_note loose = (case loose of None \<Rightarrow> ''''
     | Some n \<Rightarrow> ''Matched loosely at line '' @ FormatInt (int n) @ '': the indentation differed from the file'' @ [char_of (39 :: nat)] @
         ''s, so the replacement was re-indented to match it.'')"

text \<open>The checks every change of a file passes first: what the path resolves to, git's folder, the guard.\<close>

definition may_change :: "'x tool_session \<Rightarrow> string \<Rightarrow> tool_error + string" where
  "may_change s p = (case ts_Resolve s p of
       Inl e \<Rightarrow> Inl (Unresolved e)
     | Inr path \<Rightarrow> (case ts_gitWrite s path of
           Some e \<Rightarrow> Inl (Unresolved e)
         | None \<Rightarrow> (case (case ts_Guard s of None \<Rightarrow> None | Some g \<Rightarrow> g path) of Some e \<Rightarrow> Inl (GuardRefused e) | None \<Rightarrow> Inr path)))"

definition edit_create :: "'x tool_session \<Rightarrow> string \<Rightarrow> string \<Rightarrow> string \<Rightarrow> ('x tool_world, tool_result) state" where
  "edit_create s path new diffNote =
     (let note = join_notes diffNote (fst (syntaxVerdict s path '''' False new))
      in do {
        recordChange s path;
        err \<leftarrow> atomicWrite s path new 420;
        (case err of
           Some e \<Rightarrow> ret (Inl (WriteFailed e))
         | None \<Rightarrow> do {
             MarkRead s path new;
             ret (Inr (''Created '' @ ts_Rel s path @ '' ('' @ FormatInt (int (length new)) @ '' bytes).'' @ suffix_of note, False))
           })
      })"

definition edit_apply :: "'x tool_session \<Rightarrow> string \<Rightarrow> nat \<Rightarrow> string \<Rightarrow> found_edit \<Rightarrow> bool \<Rightarrow> string \<Rightarrow> ('x tool_world, tool_result) state" where
  "edit_apply s path mode data e all diffNote =
     (let (verdict_note, refuse) = syntaxVerdict s path data True (fe_updated e); note1 = join_notes (loose_note (fe_loose e)) verdict_note
      in if refuse then ret (Inl (BreaksSyntax note1))
         else do {
           recordChange s path;
           err \<leftarrow> atomicWrite s path (fe_updated e) mode;
           (case err of
              Some x \<Rightarrow> ret (Inl (WriteFailed x))
            | None \<Rightarrow> do {
                MarkRead s path (fe_updated e);
                ret (Inr ((if all then ''Replaced '' @ FormatInt (int (fe_count e)) @ '' occurrences in '' else ''Edited '') @ ts_Rel s path @ ''.'' @ [eol] @
                  changedRegion (fe_updated e) (fe_new e) 4 @ suffix_of (join_notes diffNote note1), False))
              })
         })"

definition edit_file :: "'x tool_session \<Rightarrow> string \<Rightarrow> nat \<Rightarrow> string \<Rightarrow> string \<Rightarrow> bool \<Rightarrow> string \<Rightarrow> ('x tool_world, tool_result) state" where
  "edit_file s path mode old new all diffNote = do {
     seen \<leftarrow> WasRead path;
     (if \<not> seen then ret (Inl NotReadYet)
      else do {
        moved \<leftarrow> ChangedSinceRead s path;
        (if moved then ret (Inl ChangedOnDisk)
         else do {
           got \<leftarrow> readFile s path;
           (case got of
              Inl e \<Rightarrow> ret (Inl (CannotRead e))
            | Inr data \<Rightarrow>
                if old = '''' then ret (Inl OldEmpty)
                else case find_edit data old new all of
                    Inl why \<Rightarrow> ret (Inl (Unmatched why))
                  | Inr e \<Rightarrow> edit_apply s path mode data e all diffNote)
         })
      })
   }"

definition Edit_Run :: "'x tool_session \<Rightarrow> (string \<times> string \<times> string \<times> bool) option \<Rightarrow> ('x tool_world, tool_result) state" where
  "Edit_Run s args = (case args of
       None \<Rightarrow> ret (Inl BadArguments)
     | Some (p, old, new, all) \<Rightarrow> (case may_change s p of
           Inl e \<Rightarrow> ret (Inl e)
         | Inr path \<Rightarrow>
             if old = new then ret (Inl Identical)
             else let pasted = (ts_Syntax s \<noteq> SyntaxOff \<and> looksLikeDiff s p old new)
               in if pasted \<and> ts_Syntax s = SyntaxRefuse then ret (Inl PastedDiff)
                  else let diffNote = (if pasted then ''Warning: '' @ pasted_diff else '''')
                    in do {
                      info \<leftarrow> stat s path;
                      (case info of
                         Inl e \<Rightarrow> ret (Inl (CannotAccess e))
                       | Inr None \<Rightarrow> if old = '''' then edit_create s path new diffNote else ret (Inl FileNotFound)
                       | Inr (Some FolderNode) \<Rightarrow> ret (Inl IsFolder)
                       | Inr (Some (FileNode mode _)) \<Rightarrow> edit_file s path mode old new all diffNote)
                    }))"

section \<open>Write\<close>

definition count_lines :: "string \<Rightarrow> nat" where
  "count_lines content = count_list content eol + (if content \<noteq> '''' \<and> \<not> HasSuffix content [eol] then 1 else 0)"

text \<open>From the check of the syntax on; \<open>before\<close> is empty when the file is new or is not checked.\<close>

definition write_put :: "'x tool_session \<Rightarrow> string \<Rightarrow> string \<Rightarrow> bool \<Rightarrow> nat \<Rightarrow> string \<Rightarrow> ('x tool_world, tool_result) state" where
  "write_put s path content existed mode before =
     (let (note, refuse) = syntaxVerdict s path before existed content
      in if refuse then ret (Inl (BreaksSyntax note))
         else do {
           folders \<leftarrow> (if existed then ret None else outside (ts_mkdirParents s path));
           (case folders of
              Some e \<Rightarrow> ret (Inl (NoFolder e))
            | None \<Rightarrow> do {
                recordChange s path;
                err \<leftarrow> atomicWrite s path content mode;
                (case err of
                   Some e \<Rightarrow> ret (Inl (WriteFailed e))
                 | None \<Rightarrow> do {
                     MarkRead s path content;
                     ret (Inr ((if existed then ''Overwrote '' else ''Created '') @ ts_Rel s path @ '' ('' @ FormatInt (int (length content)) @ '' bytes, '' @
                       FormatInt (int (count_lines content)) @ '' lines).'' @ suffix_of note, False))
                   })
              })
         })"

definition write_over :: "'x tool_session \<Rightarrow> string \<Rightarrow> string \<Rightarrow> ('x tool_world, tool_result) state" where
  "write_over s path content = do {
     seen \<leftarrow> WasRead path;
     (if \<not> seen then ret (Inl NotReadYet)
      else do {
        info \<leftarrow> stat s path;
        mode \<leftarrow> ret (case info of Inr (Some (FileNode m _)) \<Rightarrow> m | Inr (Some FolderNode) \<Rightarrow> 493 | _ \<Rightarrow> 420);
        got \<leftarrow> (if ts_Syntax s = SyntaxOff then ret (Inr '''') else readFile s path);
        (case got of
           Inl e \<Rightarrow> ret (Inl (CannotRead e))
         | Inr before \<Rightarrow> write_put s path content True mode before)
      })
   }"

definition Write_Run :: "'x tool_session \<Rightarrow> (string \<times> string) option \<Rightarrow> ('x tool_world, tool_result) state" where
  "Write_Run s args = (case args of
       None \<Rightarrow> ret (Inl BadArguments)
     | Some (p, content) \<Rightarrow> (case may_change s p of
           Inl e \<Rightarrow> ret (Inl e)
         | Inr path \<Rightarrow> do {
             info \<leftarrow> stat s path;
             (case info of
                Inr (Some _) \<Rightarrow> write_over s path content
              | _ \<Rightarrow> write_put s path content False 420 '''')
           }))"

section \<open>Read\<close>

definition defaultReadLimit :: int where "defaultReadLimit = 2000"
definition maxLineLen :: nat where "maxLineLen = 2000"

text \<open>Steps back from a cut inside a character, at most four times.\<close>

fun step_back :: "nat \<Rightarrow> string \<Rightarrow> nat \<Rightarrow> nat" where
  "step_back 0 d n = n"
| "step_back (Suc i) d n = (if n > 0 \<and> 0x80 \<le> byte_val (d ! n) \<and> byte_val (d ! n) < 0xC0 then step_back i d (n - 1) else n)"

definition IsBinary :: "string \<Rightarrow> bool" where
  "IsBinary d =
     (let n = (if length d > 8000 then step_back 4 d 8000 else length d); h = take n d
      in \<not> valid_text h \<or> list_ex (\<lambda>c. byte_val c = 0) h)"

definition numbered_line :: "int \<Rightarrow> string \<Rightarrow> string" where
  "numbered_line n line = (let d = FormatInt n in replicate (6 - length d) (CHR '' '') @ d) @ [CHR 0x09] @
     (if length line > maxLineLen then take maxLineLen line @ ''  [...line truncated]'' else line) @ [eol]"

text \<open>
  The lines shown of a text that is not empty. The end of the window is an addition of 64-bit integers, and a slice that ends before it
  starts panics.
\<close>

definition read_window :: "string \<Rightarrow> int \<Rightarrow> int \<Rightarrow> tool_result option" where
  "read_window content offset0 limit0 =
     (let ls = Split eol (TrimSuffix content [eol]); n = int (length ls);
          offset = (if offset0 < 1 then 1 else offset0); limit = (if limit0 \<le> 0 then defaultReadLimit else limit0)
      in if offset > n then Some (Inl (PastTheEnd offset (length ls)))
         else let end0 = wrap64 (offset - 1 + limit); last = (if end0 > n then n else end0)
           in if last < offset - 1 then None
              else let window = take (nat (last - (offset - 1))) (drop (nat (offset - 1)) ls); truncated = (last < n);
                       body = concat (map (\<lambda>(i, l). numbered_line (offset + int i) l) (zip [0..<length window] window))
                in Some (Inr (body @ (if truncated
                     then [eol] @ ''[truncated: showing lines '' @ FormatInt offset @ ''-'' @ FormatInt last @ '' of '' @ FormatInt n @
                       ''. Use offset/limit to read more.]''
                     else ''''), truncated)))"

text \<open>\<open>kind\<close> is \<open>None\<close> for a file that is read as it is, else the kind of document its text was taken out of.\<close>

definition read_text :: "'x tool_session \<Rightarrow> string \<Rightarrow> string option \<Rightarrow> string \<Rightarrow> int \<Rightarrow> int \<Rightarrow> ('x tool_world, tool_result option) state" where
  "read_text s path kind content offset limit =
     (if IsBinary content then ret (Some (Inl (BinaryFile (length content))))
      else do {
        (if kind = None then MarkRead s path content else ret ());
        (if content = ''''
         then ret (Some (Inr (if kind = None then ''[file exists but is empty]'' else ''[no extractable text]'', False)))
         else ret (read_window content offset limit))
      })"

definition read_data :: "'x tool_session \<Rightarrow> string \<Rightarrow> string \<Rightarrow> int \<Rightarrow> int \<Rightarrow> ('x tool_world, tool_result option) state" where
  "read_data s path data offset limit = (case ts_DetectKind s data path of
       None \<Rightarrow> read_text s path None data offset limit
     | Some k \<Rightarrow> (case ts_ExtractText s data k of
           Inl e \<Rightarrow> ret (Some (Inl (NotADocument e)))
         | Inr text \<Rightarrow> read_text s path (Some k) text offset limit))"

definition Read_Run :: "'x tool_session \<Rightarrow> (string \<times> int \<times> int) option \<Rightarrow> ('x tool_world, tool_result option) state" where
  "Read_Run s args = (case args of
       None \<Rightarrow> ret (Some (Inl BadArguments))
     | Some (p, offset, limit) \<Rightarrow> (case ts_Resolve s p of
           Inl e \<Rightarrow> ret (Some (Inl (Unresolved e)))
         | Inr path \<Rightarrow> do {
             info \<leftarrow> stat s path;
             (case info of
                Inl e \<Rightarrow> ret (Some (Inl (CannotRead e)))
              | Inr None \<Rightarrow> ret (Some (Inl FileNotFound))
              | Inr (Some FolderNode) \<Rightarrow> ret (Some (Inl IsFolder))
              | Inr (Some (FileNode _ _)) \<Rightarrow> do {
                  got \<leftarrow> readFile s path;
                  (case got of
                     Inl e \<Rightarrow> ret (Some (Inl (CannotRead e)))
                   | Inr data \<Rightarrow> read_data s path data offset limit)
                })
           }))"

end
