(* ===== verification/EditLaws.thy ===== *)
theory EditLaws
  imports Edits Labels
begin

text \<open>
  What an edit does to a text: it replaces the old text at one place, or a block of lines that matches it up to indentation, and
  leaves everything else as it was.
\<close>

section \<open>Lines up to their indentation\<close>

abbreviation blank :: "char \<Rightarrow> bool" where
  "blank c \<equiv> c = CHR '' '' \<or> c = CHR 0x09"

definition bare :: "string \<Rightarrow> string" where
  "bare l = rev (dropWhile ((=) cr_char) (rev (dropWhile blank l)))"

lemma bare_cr [simp]: "bare (l @ [cr_char]) = bare l"
proof -
  have "dropWhile blank (l @ [cr_char]) = dropWhile blank l @ [cr_char]" by (induction l) auto
  then show ?thesis by (simp add: bare_def)
qed

lemma bare_TrimSuffix [simp]: "bare (TrimSuffix l [cr_char]) = bare l"
proof (cases "HasSuffix l [cr_char]")
  case True
  then obtain x where "rev l = cr_char # x" by (cases "rev l") (auto simp: HasSuffix_def HasPrefix_def)
  then have "l = rev x @ [cr_char]" by (metis rev_rev_ident rev.simps(2))
  then show ?thesis using True by (simp add: TrimSuffix_def)
qed (simp add: TrimSuffix_def)

lemma bare_leading:
  assumes "list_all blank f"
  shows "bare (f @ drop n (leadingSpace l) @ drop (length (leadingSpace l)) l) = bare l"
proof -
  let ?t = "dropWhile blank l"
  have t: "drop (length (leadingSpace l)) l = ?t" by (simp add: leadingSpace_def dropWhile_eq_drop)
  have "set (drop n (leadingSpace l)) \<subseteq> {c. blank c}"
    using set_drop_subset [of n "leadingSpace l"] by (auto simp: leadingSpace_def dest: set_takeWhileD)
  then have "\<forall>c \<in> set (f @ drop n (leadingSpace l)). blank c" using assms by (auto simp: list_all_iff)
  then have "dropWhile blank ((f @ drop n (leadingSpace l)) @ ?t) = dropWhile blank ?t" by (simp add: dropWhile_append2)
  then show ?thesis by (simp add: bare_def t)
qed

lemma bare_reindent:
  assumes "\<And>k f. map_of spell k = Some f \<Longrightarrow> list_all blank f"
  shows "bare (reindent spell cr line) = bare line"
  using bare_leading assms by (auto simp: reindent_def Let_def split: option.splits)

lemma spell_from_blank:
  assumes "spell_from ps spell = Some spell'" "list_all (\<lambda>(_, f). list_all blank f) spell"
  shows "list_all (\<lambda>(_, f). list_all blank f) spell'"
  using assms
proof (induction ps spell rule: spell_from.induct)
  case (2 ol fl ps spell)
  have "list_all blank (leadingSpace fl)" by (auto simp: leadingSpace_def list_all_iff dest: set_takeWhileD)
  with 2 show ?case by (auto simp: Let_def split: if_splits option.splits)
qed simp

section \<open>A loose match\<close>

definition put_lines :: "string \<Rightarrow> string list \<Rightarrow> bool" where
  "put_lines new ls \<longleftrightarrow> ls = [] \<and> TrimSuffix new [eol] = '''' \<or> map bare ls = map bare (Split eol (TrimSuffix new [eol]))"

lemma indentMatch_found:
  assumes "indentMatch content old new = Matched updated reindented found"
  shows "\<exists>pre mid post put. Split eol content = pre @ mid @ post \<and> found = [Suc (length pre)] \<and>
    map TrimSpace mid = map TrimSpace (Split eol (TrimSuffix old [eol])) \<and> updated = Join (pre @ put @ post) [eol] \<and> put_lines new put \<and>
    match_starts (Split eol (TrimSuffix old [eol])) (Split eol content) = [length pre]"
proof -
  let ?old = "Split eol (TrimSuffix old [eol])" and ?file = "Split eol content"
  obtain at spell where at: "match_starts ?old ?file = [at]" "found = [Suc at]" and spell: "spell_from (zip ?old (drop at ?file)) [] = Some spell"
    and up: "updated = Join (take at ?file @ (if TrimSuffix new [eol] = '''' then []
      else map (reindent spell (HasSuffix (?file ! at) [cr_char])) (Split eol (TrimSuffix new [eol]))) @ drop (at + length ?old) ?file) [eol]"
    using assms by (auto simp: indentMatch_def Let_def split: if_splits list.splits option.splits)
  let ?put = "if TrimSuffix new [eol] = '''' then [] else map (reindent spell (HasSuffix (?file ! at) [cr_char])) (Split eol (TrimSuffix new [eol]))"
  have m: "at + length ?old \<le> length ?file" "lines_match ?old ?file at"
  proof -
    have "at \<in> set (match_starts ?old ?file)" using at(1) by simp
    then show "at + length ?old \<le> length ?file" "lines_match ?old ?file at" by (auto simp: match_starts_def)
  qed
  have "list_all (\<lambda>(_, f). list_all blank f) spell" using spell_from_blank [OF spell] by simp
  then have "list_all blank f" if "map_of spell k = Some f" for k f using that by (auto simp: list_all_iff dest: map_of_SomeD)
  then have "put_lines new ?put" by (auto simp: put_lines_def bare_reindent comp_def)
  moreover have "?file = take at ?file @ take (length ?old) (drop at ?file) @ drop (at + length ?old) ?file"
    by (metis append_take_drop_id drop_drop add.commute)
  moreover have "length (take at ?file) = at" using m(1) by simp
  ultimately show ?thesis using m(2) up at unfolding lines_match_def by metis
qed

section \<open>One place\<close>

lemma count_of_once:
  assumes "count_of s old = 1" "old \<noteq> []"
  shows "\<exists>a b. Cut s old = Some (a, b) \<and> s = a @ old @ b \<and> \<not> Contains b old"
proof -
  obtain a b where c: "Cut s old = Some (a, b)" "count_of b old = 0"
    using assms by (auto simp: count_of.simps [of s] split: option.splits)
  then have "Cut b old = None" using assms(2) by (auto simp: count_of.simps [of b] split: option.splits)
  then show ?thesis using c(1) Cut_Some [OF c(1)] by (auto simp: Contains_def)
qed

lemma Cut_is_first: "Cut s sep = Some (a, b) \<Longrightarrow> p < length a \<Longrightarrow> \<not> HasPrefix (drop p s) sep"
proof (induction s arbitrary: a p)
  case (Cons c s)
  then show ?case by (cases p) (auto simp: Cut.simps [of "c # s"] split: if_splits)
qed (auto simp: Cut.simps split: if_splits)

lemma Cut_None_no: "Cut s sep = None \<Longrightarrow> s \<noteq> x @ sep @ y"
proof (induction s arbitrary: x)
  case Nil
  then show ?case by (auto simp: Cut.simps HasPrefix_def split: if_splits)
next
  case (Cons c s)
  then show ?case
    by (cases x) (auto simp: Cut.simps [of "c # s"] HasPrefix_def append_eq_conv_conj split: if_splits option.splits)
qed

text \<open>Every occurrence begins inside the first one.\<close>

lemma count_of_once_only:
  assumes "count_of s old = 1" "old \<noteq> []" "Cut s old = Some (a, b)" "s = x @ old @ y"
  shows "length a \<le> length x \<and> length x < length a + length old"
proof
  show "length a \<le> length x"
  proof (rule ccontr)
    assume "\<not> length a \<le> length x"
    then have "\<not> HasPrefix (drop (length x) s) old" using Cut_is_first [OF assms(3)] by simp
    then show False by (simp add: assms(4) HasPrefix_def)
  qed
  show "length x < length a + length old"
  proof (rule ccontr)
    assume far: "\<not> length x < length a + length old"
    have b: "s = a @ old @ b" "\<not> Contains b old" using count_of_once [OF assms(1,2)] assms(3) by auto
    have "b = drop (length a + length old) s" using b(1) by simp
    also have "\<dots> = drop (length a + length old) x @ old @ y" using far by (simp add: assms(4))
    finally have "b = drop (length a + length old) x @ old @ y" .
    moreover have "Cut b old = None" using b(2) by (cases "Cut b old") (auto simp: Contains_def)
    ultimately show False using Cut_None_no by metis
  qed
qed

lemma match_starts_all:
  assumes "Split eol content = pre @ mid @ post" "map TrimSpace mid = map TrimSpace ls"
  shows "length pre \<in> set (match_starts ls (Split eol content))"
proof -
  have "length mid = length ls" using assms(2) by (metis length_map)
  then show ?thesis using assms(2) unfolding assms(1) by (auto simp: match_starts_def lines_match_def)
qed


definition python_text :: string where
  "python_text = ''def f():'' @ [eol, CHR 0x09] @ ''return 1'' @ [eol]"


section \<open>Two ways an edit misleads\<close>

text \<open>Occurrences that overlap count as one, so a text that occurs twice is taken as unique.\<close>

lemma overlapping_edit_applied: "find_edit ''aaa'' ''aa'' ''b'' False = Inr \<lparr>fe_updated = ''ba'', fe_new = ''b'', fe_count = 1, fe_loose = None\<rparr>"
  by code_simp

text \<open>The region shown is where the new text stands first, which need not be where it was put.\<close>

lemma shown_region_elsewhere:
  "map_sum id fe_updated (find_edit (''a'' @ [eol] @ ''b'') ''b'' ''a'' False) = Inr (''a'' @ [eol] @ ''a'') \<and>
   changedRegion (''a'' @ [eol] @ ''a'') ''a'' 0 = pad6 1 @ [CHR 0x09] @ ''a''"
  by code_simp

end
