(* ===== verification/FileLaws.thy ===== *)
theory FileLaws
  imports FileTools EditLaws
begin

text \<open>
  What the file tools do to the disk: an edit changes one file, which the session has read as it stands, and leaves a checkpoint of it.
\<close>

section \<open>A session alone with a disk that serves\<close>

definition serves :: "'x tool_session \<Rightarrow> bool" where
  "serves s \<longleftrightarrow> (\<forall>p x. fst (ts_io s p x) = None)"

definition file_hash :: "'x tool_session \<Rightarrow> string \<Rightarrow> string" where
  "file_hash s content = hex_encode (ts_sha s content)"

definition file_at :: "disk \<Rightarrow> string \<Rightarrow> gerror + string" where
  "file_at d p = (case map_of d p of None \<Rightarrow> Inl not_exist | Some FolderNode \<Rightarrow> Inl is_a_directory | Some (FileNode _ c) \<Rightarrow> Inr c)"

abbreviation later :: "'x tool_session \<Rightarrow> string \<Rightarrow> 'x tool_world \<Rightarrow> 'x tool_world" where
  "later s p w \<equiv> w\<lparr>ext := snd (ts_io s p (ext w))\<rparr>"

lemma io_none: "serves s \<Longrightarrow> ts_io s p x = (None, snd (ts_io s p x))"
  by (metis prod.collapse serves_def)

lemma alone_simps:
  assumes "serves s" "others w = []"
  shows "run_state (stat s p) w = (Inr (map_of (mem w) p), later s p w)"
    "run_state (readFile s p) w = (file_at (mem w) p, later s p w)"
    "run_state (atomicWrite s p content mode) w = (if map_of (mem w) p = Some FolderNode then (Some is_a_directory, later s p w)
       else (None, (later s p w)\<lparr>mem := AList.update p (FileNode mode content) (mem w)\<rparr>))"
proof -
  obtain y where io: "ts_io s p (ext w) = (None, y)" using io_none [OF assms(1)] by metis
  have same: "w\<lparr>ext := x, mem := mem w, others := []\<rparr> = w\<lparr>ext := x\<rparr>" for x using assms(2) by (cases w) simp
  have upd: "w\<lparr>ext := x, mem := m, others := []\<rparr> = w\<lparr>ext := x, mem := m\<rparr>" for x m using assms(2) by (cases w) simp
  have o: "run_state (outside (ts_io s p)) w = (None, later s p w)" using io by (simp add: outside_def)
  show "run_state (stat s p) w = (Inr (map_of (mem w) p), later s p w)"
    using o by (simp add: stat_def call_def others_step_def assms(2) same)
  show "run_state (readFile s p) w = (file_at (mem w) p, later s p w)"
    using o by (simp add: readFile_def call_def others_step_def assms(2) same file_at_def)
  show "run_state (atomicWrite s p content mode) w = (if map_of (mem w) p = Some FolderNode then (Some is_a_directory, later s p w)
       else (None, (later s p w)\<lparr>mem := AList.update p (FileNode mode content) (mem w)\<rparr>))"
    using o by (simp add: atomicWrite_def call_def others_step_def assms(2) same upd)
qed

lemma reads_simps:
  "run_state (WasRead p) w = (map_of (tw_reads w) p \<noteq> None, w)"
  "run_state (MarkRead s p content) w = ((), w\<lparr>tw_reads := AList.update p (file_hash s content) (tw_reads w)\<rparr>)"
  by (simp_all add: WasRead_def MarkRead_def with_reads_def file_hash_def)

lemma more_simps:
  assumes "serves s" "others w = []"
  shows "run_state (ChangedSinceRead s p) w = (case map_of (tw_reads w) p of None \<Rightarrow> (False, w)
       | Some h \<Rightarrow> (case file_at (mem w) p of Inl _ \<Rightarrow> False | Inr c \<Rightarrow> file_hash s c \<noteq> h, later s p w))"
    "run_state (recordChange s p) w = ((), if ts_Checkpoint s
       then (later s p w)\<lparr>tw_checks := tw_checks w @ [(p, case file_at (mem w) p of Inl _ \<Rightarrow> None | Inr c \<Rightarrow> Some c)]\<rparr> else w)"
  using alone_simps [OF assms]
  by (auto simp: ChangedSinceRead_def with_reads_def recordChange_def checkpoint_def file_hash_def split: option.split sum.split)

section \<open>Edits\<close>

text \<open>What a change that was made leaves: the file, the record of what was read, and the checkpoint.\<close>

definition changed_file :: "'x tool_session \<Rightarrow> string \<Rightarrow> nat \<Rightarrow> string option \<Rightarrow> string \<Rightarrow> 'x tool_world \<Rightarrow> 'x tool_world \<Rightarrow> bool" where
  "changed_file s path mode before after w w' \<longleftrightarrow> map_of (mem w') = (map_of (mem w))(path \<mapsto> FileNode mode after) \<and>
     map_of (tw_reads w') = (map_of (tw_reads w))(path \<mapsto> file_hash s after) \<and>
     tw_checks w' = tw_checks w @ (if ts_Checkpoint s then [(path, before)] else [])"

definition kept_files :: "'x tool_world \<Rightarrow> 'x tool_world \<Rightarrow> bool" where
  "kept_files w w' \<longleftrightarrow> mem w' = mem w \<and> tw_reads w' = tw_reads w"

lemma edit_apply_alone:
  assumes "serves s" "others w = []" "map_of (mem w) path = Some (FileNode mode0 data)"
    "run_state (edit_apply s path mode data e all note) w = (r, w')"
  shows "(\<exists>x. r = Inl x) \<and> kept_files w w' \<or> (\<exists>y. r = Inr y) \<and> changed_file s path mode (Some data) (fe_updated e) w w'"
  using assms(2-4) alone_simps [OF assms(1)] more_simps [OF assms(1)]
  by (auto simp: edit_apply_def Let_def reads_simps kept_files_def changed_file_def file_at_def update_conv' split: prod.splits if_splits)

lemma edit_create_alone:
  assumes "serves s" "others w = []" "map_of (mem w) path = None" "run_state (edit_create s path new note) w = (r, w')"
  shows "(\<exists>y. r = Inr y) \<and> changed_file s path 420 None new w w'"
  using assms(2-4) alone_simps [OF assms(1)] more_simps [OF assms(1)]
  by (auto simp: edit_create_def Let_def reads_simps changed_file_def file_at_def update_conv' split: prod.splits if_splits)

lemma edit_file_alone:
  assumes s: "serves s" and o: "others w = []" and f: "map_of (mem w) path = Some (FileNode mode data)"
    and r: "run_state (edit_file s path mode old new all note) w = (r, w')"
  shows "(\<exists>x. r = Inl x) \<and> kept_files w w' \<or> (\<exists>y e. r = Inr y \<and> map_of (tw_reads w) path = Some (file_hash s data) \<and> old \<noteq> '''' \<and>
    find_edit data old new all = Inr e \<and> changed_file s path mode (Some data) (fe_updated e) w w')"
proof (cases "map_of (tw_reads w) path = Some (file_hash s data) \<and> old \<noteq> '''' \<and> (\<exists>e. find_edit data old new all = Inr e)")
  case True
  then obtain e where h: "map_of (tw_reads w) path = Some (file_hash s data)" "old \<noteq> ''''" "find_edit data old new all = Inr e" by blast
  obtain w1 where w1: "mem w1 = mem w" "tw_reads w1 = tw_reads w" "tw_checks w1 = tw_checks w" "others w1 = []"
    and run: "run_state (edit_apply s path mode data e all note) w1 = (r, w')"
    using r o h f alone_simps [OF s] more_simps [OF s] that [of "later s path (later s path w)"]
    by (auto simp: edit_file_def reads_simps file_at_def)
  have f1: "map_of (mem w1) path = Some (FileNode mode data)" using f w1 by simp
  from edit_apply_alone [OF s w1(4) f1 run] show ?thesis using h w1 unfolding kept_files_def changed_file_def by auto
next
  case False
  then show ?thesis using r o f alone_simps [OF s] more_simps [OF s]
    by (auto simp: edit_file_def reads_simps file_at_def kept_files_def split: if_splits sum.splits option.splits)
qed

text \<open>
  C22: An edit acts on what the session has read: with no other writer and a disk that serves, an edit that is refused changes no file, and one
  that is made changes one file, the one the path resolves to, which nothing guards. That file did not exist and the old text was empty, or
  its content is the very one the session read last, byte for byte of its hash, and becomes what the edit of that text gives, with its
  permission bits kept. The new content counts as read, and the content before it is the last checkpoint.\<close>

theorem edit_acts_on_what_was_read:
  assumes "serves s" "others w = []" "run_state (Edit_Run s (Some (p, old, new, all))) w = (r, w')"
  shows "(\<exists>x. r = Inl x) \<and> kept_files w w' \<or>
    (\<exists>y path mode before after. r = Inr y \<and> may_change s p = Inr path \<and> changed_file s path mode before after w w' \<and>
      (map_of (mem w) path = None \<and> before = None \<and> old = '''' \<and> after = new \<or>
       (\<exists>data e. map_of (mem w) path = Some (FileNode mode data) \<and> before = Some data \<and> map_of (tw_reads w) path = Some (file_hash s data) \<and>
         old \<noteq> '''' \<and> find_edit data old new all = Inr e \<and> after = fe_updated e)))"
proof (cases "may_change s p")
  case (Inl e)
  then show ?thesis using assms(3) by (auto simp: Edit_Run_def kept_files_def)
next
  case (Inr path)
  note st = alone_simps(1) [OF assms(1), of _ path]
  let ?w = "later s path w"
  have o: "others ?w = []" using assms(2) by simp
  have v: "kept_files ?w w' = kept_files w w'" "changed_file s path m b a ?w w' = changed_file s path m b a w w'" for m b a
    by (simp_all add: kept_files_def changed_file_def)
  show ?thesis
  proof (cases "map_of (mem w) path")
    case None
    then have n: "map_of (mem ?w) path = None" by simp
    have "(\<exists>x. r = Inl x) \<and> kept_files w w' \<or> old = '''' \<and> (\<exists>note. run_state (edit_create s path new note) ?w = (r, w'))"
      using assms(2,3) Inr None st by (auto simp: Edit_Run_def Let_def kept_files_def split: if_splits)
    then show ?thesis
    proof
      assume "old = '''' \<and> (\<exists>note. run_state (edit_create s path new note) ?w = (r, w'))"
      then obtain hint where run: "run_state (edit_create s path new hint) ?w = (r, w')" and "old = ''''" by blast
      with edit_create_alone [OF assms(1) o n run] Inr None show ?thesis unfolding v by auto
    qed simp
  next
    case (Some nd)
    show ?thesis
    proof (cases nd)
      case FolderNode
      then show ?thesis using assms(2,3) Inr Some st by (auto simp: Edit_Run_def Let_def kept_files_def split: if_splits)
    next
      case (FileNode mode data)
      then have n: "map_of (mem ?w) path = Some (FileNode mode data)" using Some by simp
      have "(\<exists>x. r = Inl x) \<and> kept_files w w' \<or> (\<exists>note. run_state (edit_file s path mode old new all note) ?w = (r, w'))"
        using assms(2,3) Inr Some FileNode st by (auto simp: Edit_Run_def Let_def kept_files_def split: if_splits)
      then show ?thesis
      proof
        assume "\<exists>note. run_state (edit_file s path mode old new all note) ?w = (r, w')"
        then obtain hint where run: "run_state (edit_file s path mode old new all hint) ?w = (r, w')" by blast
        have "tw_reads ?w = tw_reads w" by simp
        with edit_file_alone [OF assms(1) o n run] Inr Some FileNode show ?thesis unfolding v by auto
      qed simp
    qed
  qed
qed

definition plain_session :: "unit tool_session" where
  "plain_session = \<lparr>ts_Resolve = Inr, ts_gitWrite = (\<lambda>_. None), ts_Guard = None, ts_Syntax = SyntaxOff,
     ts_parses = (\<lambda>_ _. \<lparr>vd_checked = False, vd_err = None, vd_strict = False, vd_by = ''''\<rparr>), ts_Rel = id, ts_sha = id, ts_Checkpoint = True,
     ts_DetectKind = (\<lambda>_ _. None), ts_ExtractText = (\<lambda>t _. Inr t), ts_lower = id, ts_io = (\<lambda>_ x. (None, x)), ts_mkdirParents = (\<lambda>_ x. (None, x))\<rparr>"

definition one_file :: "unit tool_world" where
  "one_file = \<lparr>mem = [(''/f'', FileNode 420 ''x y'')], ext = (), others = [], tw_reads = [(''/f'', file_hash plain_session ''x y'')], tw_checks = []\<rparr>"

lemma one_edit: "find_edit ''x y'' ''y'' ''z'' False = Inr \<lparr>fe_updated = ''x z'', fe_new = ''z'', fe_count = 1, fe_loose = None\<rparr>"
  by code_simp

lemma plain_serves: "serves plain_session"
  by (simp add: serves_def plain_session_def)

theorem edit_acts_on_what_was_read_witness:
  "\<exists>y w'. run_state (Edit_Run plain_session (Some (''/f'', ''y'', ''z'', False))) one_file = (Inr y, w') \<and> map_of (mem w') ''/f'' = Some (FileNode 420 ''x z'')"
proof -
  obtain r w' where run: "run_state (Edit_Run plain_session (Some (''/f'', ''y'', ''z'', False))) one_file = (r, w')" by force
  have o: "others one_file = []" by (simp add: one_file_def)
  have m: "may_change plain_session ''/f'' = Inr ''/f''" by (simp add: may_change_def plain_session_def)
  have c: "ts_Syntax plain_session = SyntaxOff" "ts_Checkpoint plain_session" by (simp_all add: plain_session_def)
  have f: "map_of (mem one_file) ''/f'' = Some (FileNode 420 ''x y'')" "map_of (tw_reads one_file) ''/f'' = Some (file_hash plain_session ''x y'')"
    by (simp_all add: one_file_def)
  have "\<exists>y. r = Inr y"
    using run by (auto simp: Edit_Run_def m c edit_file_def edit_apply_def Let_def alone_simps plain_serves o f reads_simps more_simps file_at_def
        one_edit syntaxVerdict_def)
  with edit_acts_on_what_was_read [OF plain_serves o run] m f one_edit run show ?thesis by (auto simp: changed_file_def)
qed

section \<open>Two ways a file tool goes wrong\<close>

text \<open>
  A write asks only whether the file was ever read: what another program wrote to it since is overwritten unseen, whatever the hash of
  what was read says.
\<close>

lemma write_overwrites_unseen:
  assumes "serves s" "others w = []" "may_change s p = Inr path" "ts_Syntax s = SyntaxOff" "map_of (mem w) path = Some (FileNode mode unseen)"
    "map_of (tw_reads w) path = Some h"
  shows "map_of (mem (snd (run_state (Write_Run s (Some (p, content))) w))) path = Some (FileNode mode content)"
  using assms by (simp add: Write_Run_def write_over_def write_put_def syntaxVerdict_def alone_simps more_simps reads_simps)

text \<open>The end of the window of a read wraps around, and the slice of the lines panics.\<close>

lemma read_limit_panics: "read_window (''a'' @ [eol] @ ''b'') 2 (2 ^ 63 - 1) = None"
  by code_simp

end
