(* ===== verification/Spec2Isabelle.thy ===== *)
theory Spec2Isabelle
  imports PoolLaws ChainLaws EgressLaws ConnLaws PolicySamples OrgPolicyLaws ArchiveLaws LinediffLaws LimiterLaws
    SignInLaws AccountLaws CliTokenLaws CompactionLaws FileLaws
begin

text \<open>
  A model of the parts of Abhed that decide what an agent may do and where it does it: the control plane of
  sandboxes, the permission engine, the egress policy, the tamper-evident record, the accounts that sign in, and
  the wire formats and algorithms they stand on. File names are relative to \<^verbatim>\<open>src/\<close>.

  \<^bold>\<open>How the program's parts meet.\<close> A server keeps a \<^emph>\<open>service\<close> over a \<^emph>\<open>store\<close> of sandboxes. A request changes an object's
  desired state under a resource version and wakes the \<^emph>\<open>reconciler\<close>; a pass of the reconciler drives the
  \<^emph>\<open>driver\<close> of the sandbox until the observed state is the desired one. Every request passes a guard and an
  interceptor and leaves a pair of events in the record; the record is a hash chain that can be exported and
  witnessed. A session takes its sandbox from a warm pool and runs commands in it; each call of a tool is
  first put to the \<^emph>\<open>permission engine\<close>, and what a command sends to the network to the \<^emph>\<open>egress policy\<close>, whose
  decisions a \<^emph>\<open>limiter\<close> records. An organisation may sign the policy a client applies. Streams to a sandbox are
  WebSocket connections, copies into it are tar archives, and edits shown for review are line comparisons. The agent itself
  reads and edits files with its \<^emph>\<open>file tools\<close>, and its conversation is compacted as it grows. Who makes a
  request is told by the \<^emph>\<open>session\<close> of a local account, which each process keeps and checks against the accounts the
  processes share; the identity it yields names the owner of what is made. The command line holds a signed
  token instead, which a server checks against the account and against the file of tokens that were signed out.

  \<^bold>\<open>Conventions.\<close> A Go string is a list of bytes (\<open>string\<close>), a Go map an association list (\<open>gomap\<close>; a nil map and an
  empty one are both \<open>[]\<close>), a time and a duration an \<open>int\<close> of nanoseconds, \<open>int64\<close> a wrapped \<open>int\<close> (\<open>wrap64\<close>) where a
  value may overflow and a plain \<open>int\<close> where it counts what is held in memory. Addresses and the bytes of a
  frame's length and mask are machine words. An error keeps the sentinels it wraps and the fixed words of its
  message (\<open>gerror\<close>), because callers only ask \<open>errors.Is\<close>; it is a value of a sum or an option type. A panic,
  such as a slice beyond its end, is \<open>None\<close>. The service runs in a state monad over a \<open>world\<close>: the memory store,
  the mutable fields of the service and the external state, with \<open>others\<close>, the writes other processes make to the
  same store just before each access of it; a theorem that assumes \<open>others w = []\<close> is about a service alone with its
  store. Code that is not in the repository (a hash, a signature, a random source, an interceptor, a real driver)
  is an argument of the definitions that use it.

  \<^bold>\<open>The theories, from the bottom up.\<close>

  \<^item> \<open>Prelude\<close>: byte strings, the functions of \<^verbatim>\<open>strings\<close>, \<^verbatim>\<open>strconv\<close> and \<^verbatim>\<open>maps\<close> the sources call, wrap-around, the state
    monad, and the lemmas on them that all components share.
  \<^item> \<open>Errors\<close>, \<open>Lifecycle\<close>, \<open>Labels\<close>, \<open>Settings\<close>: the sentinels and wire codes; the sandbox, its state machine
    (\<open>CanTransition\<close>, \<open>Transition\<close>), conditions, ids and restart policy; labels, the selector language with its
    parser, scopes; the registry of settings with the order of tightness (\<^verbatim>\<open>controlplane/state.go\<close>, \<^verbatim>\<open>sandbox.go\<close>,
    \<^verbatim>\<open>restart.go\<close>, \<^verbatim>\<open>labels.go\<close>, \<^verbatim>\<open>settings.go\<close>, \<^verbatim>\<open>config/managed.go\<close>).
  \<^item> \<open>Store\<close>, \<open>Mutation\<close>, \<open>Idem\<close>: the store interface as a record of operations, the memory store (\<^verbatim>\<open>memory.go\<close>), paging,
    entity tags, \<open>Mutate\<close> and idempotency keys. The locale \<open>sandbox_store\<close> states the contract of a store,
    \<open>idem_contract\<close> that of idempotency records, \<open>paged\<close> that of a listing by pages; each is interpreted on the memory store.
    The laws: an update is never lost, pages give every object once, a keyed request runs once.
  \<^item> \<open>Driver\<close>: the driver interface, the registry, the output budget, the quoting of command lines
    (\<^verbatim>\<open>driver/driver.go\<close>, \<^verbatim>\<open>registry.go\<close>, \<^verbatim>\<open>limit.go\<close>, \<^verbatim>\<open>line.go\<close>) and the in-memory driver
    (\<^verbatim>\<open>driver/drivertest/fake.go\<close>), on which the locale \<open>driver_contract\<close> is interpreted.
  \<^item> \<open>Service\<close>, \<open>ServiceLaws\<close>, \<open>Requests\<close>: every request of \<^verbatim>\<open>service.go\<close>, \<^verbatim>\<open>template.go\<close>, \<^verbatim>\<open>guard.go\<close>, \<^verbatim>\<open>admission.go\<close> and
    \<^verbatim>\<open>ownership.go\<close>. The locale \<open>service_store\<close> (it extends \<open>sandbox_store\<close>) is a configuration whose store keeps the
    contract; its lemmas say that each request leaves its events, keeps the store sound and changes only what the
    request is about. They are interpreted on the memory store as \<open>plane\<close>.
  \<^item> \<open>Reconcile\<close>, \<open>Passes\<close>, \<open>Convergence\<close>, \<open>Scheduler\<close>: one pass (\<open>reconcile\<close> with \<open>settle\<close>, \<open>observe\<close>, \<open>watch\<close>, \<open>restart\<close>,
    \<open>remove\<close>), what it may write, that it converges on the in-memory driver, and when passes run: the marks of
    \<open>dispatch\<close>, \<open>done\<close>, \<open>unhold\<close> as an inductive step relation whose reachable states keep one pass per sandbox and never
    lose a wake-up, and the sweep over the pages of the store.
  \<^item> \<open>Verbs\<close>, \<open>VerbLaws\<close>, \<open>RestoreLaws\<close>: \<open>Exec\<close>, \<open>Snapshot\<close>, \<open>Restore\<close>, \<open>CopyIn\<close>, \<open>CopyOut\<close>, \<open>Stream\<close> and the rest of \<^verbatim>\<open>verbs.go\<close>, as one
    family: guarded, admitted, recorded; a restore that fails puts back what it changed.
  \<^item> \<open>Sessions\<close>, \<open>SessionLaws\<close>, \<open>PoolLaws\<close>: \<^verbatim>\<open>sessions.go\<close>; waits that return have seen what they waited for, a claim takes a
    member out of its pool for good, a fill keeps the pool's size.
  \<^item> \<open>Chain\<close>, \<open>ChainLaws\<close>: \<^verbatim>\<open>store/chain/chain.go\<close>, \<^verbatim>\<open>store/chain/export.go\<close> and the checks of \<^verbatim>\<open>store/witness/witness.go\<close>: which exports are
    accepted, and that a rewritten record does not pass a witness unless the hash collides.
  \<^item> \<open>Netip\<close>, \<open>Egress\<close>, \<open>EgressLaws\<close>: \<^verbatim>\<open>internal/egress/policy.go\<close>, \<^verbatim>\<open>target.go\<close>, \<^verbatim>\<open>addr.go\<close> over addresses as words: a tunnel is no
    way round the rules for what it carries, and no spelling of an internal address passes.
  \<^item> \<open>Limiter\<close>, \<open>LimiterLaws\<close>: \<^verbatim>\<open>internal/egress/limit.go\<close>: every decision is accounted for, and what an interval records is bounded.
  \<^item> \<open>Frames\<close>, \<open>Connections\<close>, \<open>FrameLaws\<close>, \<open>ConnLaws\<close>: \<^verbatim>\<open>wsconn/wsconn.go\<close> and \<^verbatim>\<open>wsconn/stream.go\<close>: one encoding per frame, messages and
    streams come back as sent, nothing follows a close in any interleaving of a reader with writers.
  \<^item> \<open>PolicyRules\<close>, \<open>PolicyShell\<close>, \<open>PolicyEngine\<close>, \<open>PolicyLaws\<close>, \<open>PolicySamples\<close>: \<^verbatim>\<open>internal/policy\<close>: rules and globs, the cut of a
    shell line, how a call is read, and the decision with its steps in their order. A deny rule holds in every
    mode and over every part of a chain; hooks only tighten; what must be asked is asked.
  \<^item> \<open>OrgPolicy\<close>, \<open>OrgPolicyLaws\<close>: \<^verbatim>\<open>orgpolicy/orgpolicy.go\<close> and \<^verbatim>\<open>orgpolicy/state.go\<close>: what is applied is signed by a pinned key and fresh, epochs
    never go back, and a refused policy leaves the fallback.
  \<^item> \<open>Archive\<close>, \<open>ArchiveLaws\<close>: \<^verbatim>\<open>driver/archive/archive.go\<close> over a model of the tree below an \<^verbatim>\<open>os.Root\<close>: no link that was unpacked leads
    out of the folder, and a file holds the bytes of its entry.
  \<^item> \<open>Linediff\<close>, \<open>LinediffLaws\<close>: \<^verbatim>\<open>internal/linediff/linediff.go\<close>: the script turns the one text into the other, is a shortest
    one within the bound, and its hunks can be accepted one by one.
  \<^item> \<open>Accounts\<close>, \<open>Identities\<close>, \<open>SignIn\<close>, \<open>AccountChanges\<close>: \<^verbatim>\<open>auth/local.go\<close>, \<^verbatim>\<open>auth/filestore.go\<close>, \<^verbatim>\<open>auth/session.go\<close> and
    \<^verbatim>\<open>auth/identity.go\<close>: accounts with their two stores, the owner an identity stands for, the sessions of a process and what
    each request does with them, and the changes of an account.
  \<^item> \<open>KeyFile\<close>, \<open>CliTokens\<close>, \<open>CliTokenLaws\<close>: \<^verbatim>\<open>auth/clitoken.go\<close>: the signing key and its file, issuing, verifying and ending a token, and
    the file of ended tokens. Servers that share it are an inductive step relation, in which each may verify, sign out, restart and lose its
    disk: a token that was signed out on one is refused on all, and only a signed text has claims.
  \<^item> \<open>Edits\<close>, \<open>FileTools\<close>, \<open>EditLaws\<close>, \<open>FileLaws\<close>: \<^verbatim>\<open>internal/tools/edit.go\<close>, \<^verbatim>\<open>file.go\<close> and the record of reads of
    \<^verbatim>\<open>session.go\<close>: the edit of a text, exact or with the indentation set aside, changes one place and leaves the rest; the tools run
    over a disk, and an edit acts on the very content the session read and leaves a checkpoint of it.
  \<^item> \<open>Compaction\<close>, \<open>CompactionLaws\<close>: \<^verbatim>\<open>internal/agent/compact.go\<close>: a compaction keeps the calls of tools with their results, and the
    person's first message outlives any number of compactions word for word.
  \<^item> \<open>SignInLaws\<close>, \<open>AccountLaws\<close>: several servers share a memory store while requests are in flight, as an inductive step
    relation: who was signed out everywhere, or holds a session of an old password, is answered no more. The locale
    \<open>account_store\<close> is the contract of a store, interpreted on the memory and on the file store; the file store answers as
    the memory store does, no name or address is given out twice, and a change of password ends the other sessions.

  \<^bold>\<open>Bounds and fuel.\<close> \<open>Mutate\<close> tries \<open>mutateRetries\<close> = 5 times, as the code. The sweep and the fill page through the store with one
  more page than there are sandboxes, which is enough because each page but the last holds at least one. The
  dispatch queue of 256 and the 8 slots for passes are guards of the step relation. A wait takes a list of the
  polls it makes, and says that it did not return when the list is used up. The positions of a chain are
  \<open>int64\<close>; a frame's length is below 2 to the 63; a stream is written in chunks of 64 KiB. The number of links
  \<^verbatim>\<open>os.Root\<close> follows is an argument, and the laws hold for every value of it. The search for a shortest script
  ends at \<open>MaxEditDistance\<close> = 1000 edits, past which the script replaces everything; both cases are covered. The
  limiter counts 512 kinds on each side, 100 denials and the allow budget in an interval. The seconds of an exec timeout in the
  record are the whole seconds of the code's division of floats, exact below about 2 to the 22 seconds.

  \<^bold>\<open>Parameters.\<close> SHA-256, Ed25519, base64, PEM and PKIX; random sources; the clock; JSON decoding; \<^verbatim>\<open>url.Parse\<close>; the bash
  parser and what scripts and the disk hold; Unicode tables; guards, interceptors, the ownership of ids, drivers;
  bcrypt, HMAC, \<^verbatim>\<open>net/mail\<close> and the answers of the disk under the file of accounts.
  What is assumed of them stands in the hypotheses of the theorems that need it, for example that two pinned keys have
  different ids, or that a driver's state does not change other sandboxes; each such theorem has a witness at a concrete instance.

  \<^bold>\<open>Not modelled.\<close> The SQL stores and the local record store (SQL and file locks carry their behaviour; they implement
  the interface \<open>sandbox_store\<close> states); the drivers of real backends and the process fence (system calls); the egress
  proxy itself, its TLS and DNS, and the list of wildcard resolvers; the handshake, deadlines and the idle clock of a
  WebSocket; of the warm pool its lock, its kick channel and the goroutine of \<open>Run\<close>; of archives \<open>Pack\<close> and the modes, times
  and owners of what is made; of the organisation's policy the file it is kept in, the fetching and the merge with the
  configuration; the agent loop but for its compaction, the tools but for read, write and
  edit, and the model clients; what is ranked or decided with floating-point numbers (when to compact, the nearest line of an edit
  that matches nothing); the HTTP server; the middleware, the login of the command line, client
  certificates, OIDC and roles around the accounts; configuration files; the command line and the terminal interface; Kubernetes routing; record export to other schemas; protocol
  relays; secrets; the sdk. Each is listed with its reason in the manifest of components.
\<close>

end
